(* ===== verification/Prelude.thy ===== *)
theory Prelude
  imports Main "HOL-Library.Word" "HOL-Library.AList" "HOL-Library.Char_ord"
    "HOL-Library.List_Lexorder"
begin

text \<open>
  Shared vocabulary of the development: Go strings as byte lists, Go maps as association
  lists, Go errors as the observations the program makes of them, the gRPC status codes, and
  the two interfaces several components share (a state machine with an invariant, a keyed
  collection with a lookup).

  A Go map is an association list with distinct keys. Go visits the entries of a map in an
  unspecified order: a loop over a map is a recursion over the list, and a lemma that holds
  for every list holds for every visiting order.
\<close>

unbundle bit_operations_syntax

named_theorems go_defs \<open>definitions a client may unfold to compute\<close>
named_theorems err_simps \<open>what the program observes of the errors it builds\<close>
named_theorems step_inv \<open>one operation of a component keeps its invariant\<close>

section \<open>Go maps\<close>

type_synonym 'a gomap = "(string \<times> 'a) list"

abbreviation gm_keys :: "'a gomap \<Rightarrow> string list" where
  "gm_keys m \<equiv> map fst m"

abbreviation gm_ok :: "'a gomap \<Rightarrow> bool" where
  "gm_ok m \<equiv> distinct (map fst m)"

definition gm_index :: "'a \<Rightarrow> 'a gomap \<Rightarrow> string \<Rightarrow> 'a" where
  \<comment> \<open>\<open>m[k]\<close>: the zero value of the element type when the key is missing\<close>
  "gm_index zero m k = (case map_of m k of None \<Rightarrow> zero | Some v \<Rightarrow> v)"

definition gm_put :: "string \<Rightarrow> 'a \<Rightarrow> 'a gomap \<Rightarrow> 'a gomap" where
  "gm_put k v m = AList.update k v m"

definition gm_delete :: "string \<Rightarrow> 'a gomap \<Rightarrow> 'a gomap" where
  "gm_delete k m = AList.delete k m"

lemma map_of_gm_put [simp]: "map_of (gm_put k v m) = (map_of m)(k \<mapsto> v)"
  by (simp add: gm_put_def AList.update_conv')

lemma map_of_gm_delete [simp]: "map_of (gm_delete k m) = (map_of m)(k := None)"
  by (simp add: gm_delete_def AList.delete_conv')

lemma gm_ok_put [simp, intro]: "gm_ok m \<Longrightarrow> gm_ok (gm_put k v m)"
  by (simp add: gm_put_def AList.distinct_update)

lemma gm_ok_delete [simp, intro]: "gm_ok m \<Longrightarrow> gm_ok (gm_delete k m)"
  by (simp add: gm_delete_def AList.distinct_delete)

lemma set_gm_keys: "set (gm_keys m) = dom (map_of m)"
  by (simp add: dom_map_of_conv_image_fst)

lemma set_gm_keys_put [simp]: "set (gm_keys (gm_put k v m)) = insert k (set (gm_keys m))"
  by (simp only: set_gm_keys map_of_gm_put dom_fun_upd) simp

lemma set_gm_keys_delete [simp]: "set (gm_keys (gm_delete k m)) = set (gm_keys m) - {k}"
  by (simp only: set_gm_keys map_of_gm_delete dom_fun_upd) simp

lemma gm_put_ne [simp]: "gm_put k v m \<noteq> []"
proof
  assume "gm_put k v m = []"
  then have "map_of (gm_put k v m) k = None" by simp
  then show False by simp
qed

lemma gm_ok_map_of_mem: "gm_ok m \<Longrightarrow> (k, v) \<in> set m \<longleftrightarrow> map_of m k = Some v"
  by (simp add: map_of_eq_Some_iff)

lemma gm_put_code [simp]:
  "gm_put k v [] = [(k, v)]"
  "gm_put k v ((k', v') # m) = (if k' = k then (k, v) # m else (k', v') # gm_put k v m)"
  by (simp_all add: gm_put_def)

lemma gm_delete_code [simp]:
  "gm_delete k [] = []"
  "gm_delete k ((k', v') # m) = (if k' = k then gm_delete k m else (k', v') # gm_delete k m)"
  by (auto simp: gm_delete_def AList.delete_eq)

section \<open>Strings\<close>

text \<open>
  A Go string is a byte sequence; a \<open>char\<close> is a byte. Lower-casing is the ASCII part of
  \<open>strings.ToLower\<close>: bytes of multi-byte runes are kept.
\<close>

definition lower_byte :: "char \<Rightarrow> char" where
  "lower_byte c =
     (let n = (of_char c :: nat) in if 65 \<le> n \<and> n \<le> 90 then char_of (n + 32) else c)"

definition to_lower :: "string \<Rightarrow> string" where
  "to_lower s = map lower_byte s"

fun has_prefix :: "string \<Rightarrow> string \<Rightarrow> bool" where
  "has_prefix s [] = True"
| "has_prefix [] (p # ps) = False"
| "has_prefix (c # s) (p # ps) = (c = p \<and> has_prefix s ps)"

fun str_contains :: "string \<Rightarrow> string \<Rightarrow> bool" where
  "str_contains [] p = (p = [])"
| "str_contains (c # s) p = (has_prefix (c # s) p \<or> str_contains s p)"

definition cut_prefix :: "string \<Rightarrow> string \<Rightarrow> string \<times> bool" where
  "cut_prefix s p = (if has_prefix s p then (drop (length p) s, True) else (s, False))"

fun join_sep :: "string \<Rightarrow> string list \<Rightarrow> string" where
  "join_sep sep [] = []"
| "join_sep sep [x] = x"
| "join_sep sep (x # xs) = x @ sep @ join_sep sep xs"

fun split_on :: "char \<Rightarrow> string \<Rightarrow> string list" where
  \<comment> \<open>\<open>strings.Split\<close> at a one-byte separator\<close>
  "split_on c [] = [[]]"
| "split_on c (x # xs) =
     (if x = c then [] # split_on c xs
      else case split_on c xs of [] \<Rightarrow> [[x]] | y # ys \<Rightarrow> (x # y) # ys)"

text \<open>The verb \<open>%q\<close> on printable ASCII: quotes around, quote and backslash escaped.\<close>

definition go_quote :: "string \<Rightarrow> string" where
  "go_quote s =
     [CHR 0x22] @ concat (map (\<lambda>c. if c = CHR 0x22 \<or> c = CHR 0x5C then [CHR 0x5C, c] else [c]) s)
       @ [CHR 0x22]"

lemma has_prefix_append [simp]: "has_prefix (p @ s) p"
  by (induction p) auto

lemma has_prefix_iff: "has_prefix s p \<longleftrightarrow> (\<exists>r. s = p @ r)"
  by (induction s p rule: has_prefix.induct) auto

lemma cut_prefix_append [simp]: "cut_prefix (p @ s) p = (s, True)"
  by (simp add: cut_prefix_def)

lemma split_on_ne [simp]: "split_on c s \<noteq> []"
  by (induction s) (auto split: list.splits)

lemma split_on_append:
  "c \<notin> set s \<Longrightarrow> split_on c (s @ c # t) = s # split_on c t"
  by (induction s) auto

lemma split_on_no_sep: "c \<notin> set s \<Longrightarrow> split_on c s = [s]"
  by (induction s) auto

section \<open>Errors\<close>

text \<open>
  An error value is modelled by what the program can observe of it: its text, the gRPC code
  that \<open>status.FromError\<close> finds in it, the Kubernetes API reason that \<open>apierrors.IsNotFound\<close>
  looks at, and the recoverability of the \<open>*TransactionError\<close> that \<open>errors.As\<close> finds.
  A nil error is \<open>None\<close>. Wrapping with \<open>%w\<close> (or \<open>errors.Wrap\<close>) keeps the observations and
  changes the text; \<open>fmt.Errorf\<close> without \<open>%w\<close> has none; \<open>errors.Join\<close> finds the first match.
\<close>

datatype grpc_code = OK | Canceled | UnknownCode | InvalidArgument | DeadlineExceeded | NotFound
  | AlreadyExists | PermissionDenied | ResourceExhausted | FailedPrecondition | Aborted
  | OutOfRange | Unimplemented | Internal | Unavailable | DataLoss | Unauthenticated

record goerr =
  e_msg :: string
  e_code :: "grpc_code option"
  e_api :: "string option"
  e_tx :: "bool option"

definition err_new :: "string \<Rightarrow> goerr" where
  "err_new s = \<lparr>e_msg = s, e_code = None, e_api = None, e_tx = None\<rparr>"

definition err_wrap :: "string \<Rightarrow> goerr \<Rightarrow> goerr" where
  \<comment> \<open>\<open>fmt.Errorf("...: %w", err)\<close> and \<open>errors.Wrap(err, "...")\<close>\<close>
  "err_wrap s e = e\<lparr>e_msg := s @ '': '' @ e_msg e\<rparr>"

definition err_join :: "goerr option \<Rightarrow> goerr option \<Rightarrow> goerr option" where
  "err_join a b =
     (case a of None \<Rightarrow> b
      | Some x \<Rightarrow> (case b of None \<Rightarrow> Some x
         | Some y \<Rightarrow> Some \<lparr>e_msg = e_msg x @ [CHR 0x0A] @ e_msg y,
             e_code = (case e_code x of None \<Rightarrow> e_code y | c \<Rightarrow> c),
             e_api = (case e_api x of None \<Rightarrow> e_api y | r \<Rightarrow> r),
             e_tx = (case e_tx x of None \<Rightarrow> e_tx y | r \<Rightarrow> r)\<rparr>))"

definition err_text :: "goerr option \<Rightarrow> string" where
  "err_text e = (case e of None \<Rightarrow> [] | Some x \<Rightarrow> e_msg x)"

lemma err_new_sel [simp, err_simps]:
  "e_msg (err_new s) = s" "e_code (err_new s) = None" "e_api (err_new s) = None"
  "e_tx (err_new s) = None"
  by (simp_all add: err_new_def)

lemma err_wrap_sel [simp, err_simps]:
  "e_msg (err_wrap s e) = s @ '': '' @ e_msg e" "e_code (err_wrap s e) = e_code e"
  "e_api (err_wrap s e) = e_api e" "e_tx (err_wrap s e) = e_tx e"
  by (simp_all add: err_wrap_def)

lemma err_join_None [simp, err_simps]: "err_join None b = b" "err_join a None = a"
  by (simp_all add: err_join_def split: option.splits)

lemma err_join_eq_None [simp, err_simps]: "err_join a b = None \<longleftrightarrow> a = None \<and> b = None"
  by (auto simp: err_join_def split: option.splits)

section \<open>Interfaces\<close>

text \<open>
  A component whose operations are steps of a state: what it keeps true in its start state
  and over every operation holds after every sequence of operations.
\<close>

definition run_ops :: "('op \<Rightarrow> 's \<Rightarrow> 's) \<Rightarrow> 'op list \<Rightarrow> 's \<Rightarrow> 's" where
  "run_ops step ops s = fold step ops s"

locale invariant_machine =
  fixes step :: "'op \<Rightarrow> 's \<Rightarrow> 's"
    and start :: 's
    and inv :: "'s \<Rightarrow> bool"
  assumes inv_start: "inv start"
    and inv_step: "inv s \<Longrightarrow> inv (step op s)"
begin

lemma inv_run_from: "inv s \<Longrightarrow> inv (run_ops step ops s)"
  by (induction ops arbitrary: s) (auto simp: run_ops_def inv_step)

lemma inv_run: "inv (run_ops step ops start)"
  by (rule inv_run_from) (rule inv_start)

lemma inv_always: "inv (run_ops step (take n ops) start)"
  by (rule inv_run)

end

text \<open>
  A collection that keeps at most one element per key, with an operation that stores an
  element under its own key and a lookup: what the clients of a condition list rely on.
\<close>

locale keyed_collection =
  fixes key :: "'e \<Rightarrow> 'k"
    and put :: "'e \<Rightarrow> 'c \<Rightarrow> 'c"
    and look :: "'c \<Rightarrow> 'k \<Rightarrow> 'e option"
    and same :: "'e \<Rightarrow> 'e \<Rightarrow> bool"
    and wf :: "'c \<Rightarrow> bool"
  assumes wf_put: "wf c \<Longrightarrow> wf (put e c)"
    and look_put_same: "wf c \<Longrightarrow> \<exists>e'. look (put e c) (key e) = Some e' \<and> same e' e"
    and look_put_other: "wf c \<Longrightarrow> k \<noteq> key e \<Longrightarrow> look (put e c) k = look c k"
    and put_known: "wf c \<Longrightarrow> look c (key e) = Some e' \<Longrightarrow> same e' e \<Longrightarrow> put e c = c"
begin

lemma wf_puts: "wf c \<Longrightarrow> wf (fold put es c)"
  by (induction es arbitrary: c) (auto simp: wf_put)

lemma look_puts_other: "wf c \<Longrightarrow> k \<notin> key ` set es \<Longrightarrow> look (fold put es c) k = look c k"
  by (induction es arbitrary: c) (auto simp: wf_put look_put_other)

lemma puts_last:
  assumes "wf c"
  shows "\<exists>e'. look (fold put (es @ [e]) c) (key e) = Some e' \<and> same e' e"
  using assms by (simp add: wf_puts look_put_same)

end

end
