(* ===== verification/Conditions.thy ===== *)
theory Conditions
  imports Prelude
begin

text \<open>
  Conditions of a resource: \<open>apis/condition/v1alpha1\<close> (\<open>condition.go\<close>, \<open>message.go\<close>). A condition
  list keeps at most one condition of a type; messages are bounded at a UTF-8 rune boundary.
  The clock (\<open>metav1.Now()\<close>) is an argument; the zero time is 0.
\<close>

section \<open>Data\<close>

record condition =
  cType :: string
  cStatus :: string
  cReason :: string
  cMessage :: string
  cObservedGeneration :: int
  cLastTransitionTime :: nat

definition ConditionTrue :: string where "ConditionTrue = ''True''"
definition ConditionFalse :: string where "ConditionFalse = ''False''"

definition ConditionTypeReady :: string where "ConditionTypeReady = ''Ready''"

definition ConditionReasonReady :: string where "ConditionReasonReady = ''Ready''"
definition ConditionReasonFailed :: string where "ConditionReasonFailed = ''Failed''"
definition ConditionReasonUnrecoverable :: string where
  "ConditionReasonUnrecoverable = ''Unrecoverable''"
definition ConditionReasonUnknown :: string where "ConditionReasonUnknown = ''Unknown''"
definition ConditionReasonRollout :: string where "ConditionReasonRollout = ''Rollout''"

lemmas cond_consts [go_defs] = ConditionTrue_def ConditionFalse_def ConditionTypeReady_def
  ConditionReasonReady_def ConditionReasonFailed_def ConditionReasonUnrecoverable_def
  ConditionReasonUnknown_def ConditionReasonRollout_def

section \<open>Bounded messages (message.go)\<close>

definition MaxMessageBytes :: int where "MaxMessageBytes = 1024"

definition TruncatedSuffix :: string where "TruncatedSuffix = ''...''"

definition RuneStart :: "char \<Rightarrow> bool" where
  \<comment> \<open>\<open>utf8.RuneStart\<close>: the byte is not a continuation byte\<close>
  "RuneStart b \<longleftrightarrow> (of_char b :: 8 word) AND 0xC0 \<noteq> 0x80"

fun cut_back :: "string \<Rightarrow> nat \<Rightarrow> nat" where
  \<comment> \<open>the loop \<open>for n > 0 && !utf8.RuneStart(s[n]) { n-- }\<close>\<close>
  "cut_back s 0 = 0"
| "cut_back s (Suc n) = (if \<not> RuneStart (s ! Suc n) then cut_back s n else Suc n)"

definition cutAtRune :: "string \<Rightarrow> int \<Rightarrow> string" where
  "cutAtRune s n = (if n \<ge> int (length s) then s else take (cut_back s (nat n)) s)"

definition TruncateMessage :: "string \<Rightarrow> int \<Rightarrow> string" where
  "TruncateMessage msg bnd =
     (if bnd \<le> 0 then []
      else if int (length msg) \<le> bnd then msg
      else if bnd \<le> int (length TruncatedSuffix) then cutAtRune msg bnd
      else cutAtRune msg (bnd - int (length TruncatedSuffix)) @ TruncatedSuffix)"

definition NewCondition :: "nat \<Rightarrow> string \<Rightarrow> string \<Rightarrow> string \<Rightarrow> string \<Rightarrow> condition" where
  "NewCondition now t status reason msg =
     \<lparr>cType = t, cStatus = status, cReason = reason,
      cMessage = TruncateMessage msg MaxMessageBytes,
      cObservedGeneration = 0, cLastTransitionTime = now\<rparr>"

section \<open>Condition lists (condition.go)\<close>

definition cond_Equal :: "condition \<Rightarrow> condition \<Rightarrow> bool" where
  "cond_Equal c other \<longleftrightarrow>
     cType c = cType other \<and> cStatus c = cStatus other \<and> cReason c = cReason other \<and>
     cMessage c = cMessage other \<and> cObservedGeneration c = cObservedGeneration other"

definition WithMessage :: "condition \<Rightarrow> string \<Rightarrow> condition" where
  "WithMessage c msg = c\<lparr>cMessage := TruncateMessage msg MaxMessageBytes\<rparr>"

definition IsTrue :: "condition \<Rightarrow> bool" where
  "IsTrue c \<longleftrightarrow> cStatus c = ConditionTrue"

fun HasCondition :: "condition list \<Rightarrow> string \<Rightarrow> bool" where
  "HasCondition [] t = False"
| "HasCondition (c # cs) t = (if cType c = t then True else HasCondition cs t)"

fun GetCondition :: "condition list \<Rightarrow> string \<Rightarrow> condition" where
  "GetCondition [] t =
     \<lparr>cType = t, cStatus = ConditionFalse, cReason = [], cMessage = [],
      cObservedGeneration = 0, cLastTransitionTime = 0\<rparr>"
| "GetCondition (c # cs) t = (if cType c = t then c else GetCondition cs t)"

fun set_condition :: "condition \<Rightarrow> condition list \<Rightarrow> bool \<times> condition list" where
  \<comment> \<open>the inner loop of \<open>SetConditions\<close>: (exists, conditions); \<open>break\<close> on an equal condition\<close>
  "set_condition new [] = (False, [])"
| "set_condition new (existing # cs) =
     (if cType existing \<noteq> cType new
      then (let (ex, cs') = set_condition new cs in (ex, existing # cs'))
      else if cond_Equal existing new then (True, existing # cs)
      else (let (ex, cs') = set_condition new cs in (True, new # cs')))"

definition SetCondition :: "condition \<Rightarrow> condition list \<Rightarrow> condition list" where
  \<comment> \<open>one iteration of the outer loop of \<open>SetConditions\<close>\<close>
  "SetCondition new cs =
     (let (ex, cs') = set_condition new cs in if \<not> ex then cs' @ [new] else cs')"

definition SetConditions :: "condition list \<Rightarrow> condition list \<Rightarrow> condition list" where
  "SetConditions cs news = fold SetCondition news cs"

definition NewConditionedStatus :: "condition list \<Rightarrow> condition list" where
  "NewConditionedStatus c = SetConditions [] c"

definition StatusEqual :: "condition list option \<Rightarrow> condition list option \<Rightarrow> bool" where
  \<comment> \<open>\<open>ConditionedStatus.Equal\<close>; a nil receiver or argument is \<open>None\<close>\<close>
  "StatusEqual r other =
     (case (r, other) of
        (Some rc, Some oc) \<Rightarrow>
          (if length oc \<noteq> length rc then False
           else list_all2 cond_Equal (sort_key cType rc) (sort_key cType oc))
      | _ \<Rightarrow> r = None \<and> other = None)"

definition IsConditionTrue :: "condition list \<Rightarrow> string \<Rightarrow> bool" where
  "IsConditionTrue cs t \<longleftrightarrow> cStatus (GetCondition cs t) = ConditionTrue"

definition Ready :: "nat \<Rightarrow> condition" where
  "Ready now = NewCondition now ConditionTypeReady ConditionTrue ConditionReasonReady []"

definition ReadyWithMsg :: "nat \<Rightarrow> string \<Rightarrow> condition" where
  "ReadyWithMsg now msg =
     NewCondition now ConditionTypeReady ConditionTrue ConditionReasonReady msg"

definition Unknown :: "nat \<Rightarrow> condition" where
  "Unknown now = NewCondition now ConditionTypeReady ConditionFalse ConditionReasonUnknown []"

definition Failed :: "nat \<Rightarrow> string \<Rightarrow> condition" where
  "Failed now msg = NewCondition now ConditionTypeReady ConditionFalse ConditionReasonFailed msg"

definition FailedUnRecoverable :: "nat \<Rightarrow> string \<Rightarrow> condition" where
  "FailedUnRecoverable now msg =
     NewCondition now ConditionTypeReady ConditionFalse ConditionReasonUnrecoverable msg"

definition Rollout :: "nat \<Rightarrow> string \<Rightarrow> condition" where
  "Rollout now msg = NewCondition now ConditionTypeReady ConditionFalse ConditionReasonRollout msg"

fun dedupe_loop :: "nat gomap \<Rightarrow> condition list \<Rightarrow> condition list \<Rightarrow> condition list" where
  "dedupe_loop index out [] = out"
| "dedupe_loop index out (c # cs) =
     (case map_of index (cType c) of
        Some i \<Rightarrow> dedupe_loop index (out[i := c]) cs
      | None \<Rightarrow> dedupe_loop (gm_put (cType c) (length out) index) (out @ [c]) cs)"

definition DedupeConditions :: "condition list \<Rightarrow> condition list" where
  "DedupeConditions conds = dedupe_loop [] [] conds"

lemma NewCondition_sel [simp]:
  "cType (NewCondition now t s r m) = t" "cStatus (NewCondition now t s r m) = s"
  "cReason (NewCondition now t s r m) = r"
  "cMessage (NewCondition now t s r m) = TruncateMessage m MaxMessageBytes"
  "cObservedGeneration (NewCondition now t s r m) = 0"
  "cLastTransitionTime (NewCondition now t s r m) = now"
  by (simp_all add: NewCondition_def)

section \<open>Truncation\<close>

lemma cut_back_le: "cut_back s n \<le> n"
  by (induction s n rule: cut_back.induct) auto

lemma cut_back_start: "cut_back s n = 0 \<or> RuneStart (s ! cut_back s n)"
  by (induction s n rule: cut_back.induct) auto

lemma length_cutAtRune: "0 \<le> n \<Longrightarrow> int (length (cutAtRune s n)) \<le> n"
  using cut_back_le [of s "nat n"] by (auto simp: cutAtRune_def)

lemma cutAtRune_prefix: "\<exists>k. cutAtRune s n = take k s"
  by (auto simp: cutAtRune_def intro: exI [of _ "length s"])

lemma length_TruncatedSuffix [simp]: "length TruncatedSuffix = 3"
  by (simp add: TruncatedSuffix_def)

text \<open>
  The shape of well-formed UTF-8: a start byte announces how many continuation bytes follow.
  (Overlong forms and surrogates are not excluded: cutting does not look at the bits.)
\<close>

definition rune_len :: "char \<Rightarrow> nat" where
  "rune_len b =
     (let n = (of_char b :: nat) in
      if n < 128 then 1 else if n < 192 then 0 else if n < 224 then 2
      else if n < 240 then 3 else if n < 248 then 4 else 0)"

inductive utf8 :: "string \<Rightarrow> bool" where
  utf8_Nil: "utf8 []"
| utf8_rune: "RuneStart b \<Longrightarrow> rune_len b = Suc (length cs) \<Longrightarrow>
     \<forall>c \<in> set cs. \<not> RuneStart c \<Longrightarrow> utf8 s \<Longrightarrow> utf8 (b # cs @ s)"

lemma utf8_append: "utf8 s \<Longrightarrow> utf8 t \<Longrightarrow> utf8 (s @ t)"
proof (induction rule: utf8.induct)
  case utf8_Nil
  then show ?case by simp
next
  case (utf8_rune b cs s)
  then have "utf8 (b # cs @ (s @ t))" by (intro utf8.utf8_rune) auto
  then show ?case by simp
qed

lemma utf8_take:
  "utf8 s \<Longrightarrow> n \<le> length s \<Longrightarrow> n = 0 \<or> n = length s \<or> RuneStart (s ! n) \<Longrightarrow> utf8 (take n s)"
proof (induction s arbitrary: n rule: utf8.induct)
  case utf8_Nil
  then show ?case by (simp add: utf8.utf8_Nil)
next
  case (utf8_rune b cs s)
  let ?r = "b # cs"
  consider (zero) "n = 0" | (inside) "0 < n" "n < length ?r" | (beyond) "length ?r \<le> n"
    by linarith
  then show ?case
  proof cases
    case zero
    then show ?thesis by (simp add: utf8.utf8_Nil)
  next
    case inside
    then obtain m where m: "n = Suc m" "m < length cs" by (cases n) auto
    then have "\<not> RuneStart ((b # cs @ s) ! n)"
      using utf8_rune.hyps(3) by (auto simp: nth_append)
    with inside utf8_rune.prems have "n = length (b # cs @ s)" by auto
    with inside show ?thesis by simp
  next
    case beyond
    then obtain m where m: "n = Suc (length cs) + m" by (auto simp: le_iff_add)
    then have "(b # cs @ s) ! n = s ! m" by (simp add: nth_append)
    with m utf8_rune.prems have "utf8 (take m s)"
      by (intro utf8_rune.IH) auto
    then have "utf8 (b # cs @ take m s)"
      using utf8_rune.hyps by (intro utf8.utf8_rune) auto
    moreover have "take n (b # cs @ s) = b # cs @ take m s"
      using m by simp
    ultimately show ?thesis by simp
  qed
qed

lemma utf8_cutAtRune: "utf8 s \<Longrightarrow> 0 \<le> n \<Longrightarrow> utf8 (cutAtRune s n)"
  using cut_back_start [of s "nat n"] cut_back_le [of s "nat n"]
  by (auto simp: cutAtRune_def intro!: utf8_take)

lemma utf8_TruncatedSuffix: "utf8 TruncatedSuffix"
proof -
  have dot: "RuneStart CHR ''.''" "rune_len CHR ''.'' = 1"
    by (simp_all add: RuneStart_def rune_len_def)
  have "utf8 (CHR ''.'' # [] @ (CHR ''.'' # [] @ (CHR ''.'' # [] @ [])))"
    using dot by (intro utf8.intros) auto
  then show ?thesis by (simp add: TruncatedSuffix_def)
qed

text \<open>
  A truncated message is at most \<open>bnd\<close> bytes long, is unchanged when it fits, is a prefix
  of the message followed by the suffix otherwise (a bare prefix where there is no room for the
  suffix), and is well-formed UTF-8 whenever the message is: no rune is ever cut in two.
\<close>

theorem TruncateMessage_bounded:
  assumes "0 \<le> bnd"
  shows "int (length (TruncateMessage msg bnd)) \<le> bnd
    \<and> (int (length msg) \<le> bnd \<longrightarrow> TruncateMessage msg bnd = msg)
    \<and> (\<exists>k. TruncateMessage msg bnd = take k msg
           \<or> TruncateMessage msg bnd = take k msg @ TruncatedSuffix)
    \<and> (utf8 msg \<longrightarrow> utf8 (TruncateMessage msg bnd))"
proof (intro conjI)
  show "int (length (TruncateMessage msg bnd)) \<le> bnd"
    using assms length_cutAtRune [of bnd msg] length_cutAtRune [of "bnd - 3" msg]
    by (auto simp: TruncateMessage_def)
  show "int (length msg) \<le> bnd \<longrightarrow> TruncateMessage msg bnd = msg"
    using assms by (auto simp: TruncateMessage_def)
  show "\<exists>k. TruncateMessage msg bnd = take k msg
      \<or> TruncateMessage msg bnd = take k msg @ TruncatedSuffix"
    using cutAtRune_prefix [of msg bnd] cutAtRune_prefix [of msg "bnd - 3"]
    by (auto simp: TruncateMessage_def intro: exI [of _ "0"] exI [of _ "length msg"])
  show "utf8 msg \<longrightarrow> utf8 (TruncateMessage msg bnd)"
    using assms
    by (auto simp: TruncateMessage_def utf8.utf8_Nil
        intro!: utf8_append utf8_cutAtRune utf8_TruncatedSuffix)
qed

theorem TruncateMessage_bounded_witness:
  "length (TruncateMessage [CHR ''a'', CHR 0xC3, CHR 0xA9, CHR ''b'', CHR ''c'', CHR ''d''] 5) \<le> 5
   \<and> TruncateMessage [CHR ''a'', CHR 0xC3, CHR 0xA9, CHR ''b'', CHR ''c'', CHR ''d''] 5
       = [CHR ''a''] @ TruncatedSuffix"
proof
  show "length (TruncateMessage [CHR ''a'', CHR 0xC3, CHR 0xA9, CHR ''b'', CHR ''c'', CHR ''d''] 5) \<le> 5"
    using TruncateMessage_bounded
      [of 5 "[CHR ''a'', CHR 0xC3, CHR 0xA9, CHR ''b'', CHR ''c'', CHR ''d'']"] by simp
  show "TruncateMessage [CHR ''a'', CHR 0xC3, CHR 0xA9, CHR ''b'', CHR ''c'', CHR ''d''] 5
       = [CHR ''a''] @ TruncatedSuffix"
    by code_simp
qed

section \<open>The condition list as a keyed collection\<close>

abbreviation ctypes :: "condition list \<Rightarrow> string list" where
  "ctypes cs \<equiv> map cType cs"

definition look_condition :: "condition list \<Rightarrow> string \<Rightarrow> condition option" where
  "look_condition cs t = (if HasCondition cs t then Some (GetCondition cs t) else None)"

lemma HasCondition_iff: "HasCondition cs t \<longleftrightarrow> t \<in> set (ctypes cs)"
  by (induction cs t rule: HasCondition.induct) auto

lemma cType_GetCondition [simp]: "cType (GetCondition cs t) = t"
  by (induction cs t rule: GetCondition.induct) auto

lemma GetCondition_mem: "HasCondition cs t \<Longrightarrow> GetCondition cs t \<in> set cs"
  by (induction cs t rule: GetCondition.induct) (auto split: if_splits)

lemma GetCondition_missing:
  "\<not> HasCondition cs t \<Longrightarrow> \<not> IsTrue (GetCondition cs t) \<and> cReason (GetCondition cs t) = []"
  by (induction cs t rule: GetCondition.induct)
     (auto simp: IsTrue_def ConditionTrue_def ConditionFalse_def split: if_splits)

lemma look_condition_simps [simp]:
  "look_condition [] t = None"
  "look_condition (c # cs) t = (if cType c = t then Some c else look_condition cs t)"
  by (simp_all add: look_condition_def)

lemma cond_Equal_refl [simp, intro]: "cond_Equal c c"
  by (simp add: cond_Equal_def)

lemma cond_Equal_sym: "cond_Equal a b \<Longrightarrow> cond_Equal b a"
  by (auto simp: cond_Equal_def)

lemma cond_Equal_trans: "cond_Equal a b \<Longrightarrow> cond_Equal b c \<Longrightarrow> cond_Equal a c"
  by (auto simp: cond_Equal_def)

lemma fst_set_condition: "fst (set_condition new cs) = HasCondition cs (cType new)"
  by (induction cs) (auto split: prod.splits)

lemma ctypes_set_condition: "ctypes (snd (set_condition new cs)) = ctypes cs"
  by (induction cs) (auto split: prod.splits)

lemma ctypes_SetCondition:
  "ctypes (SetCondition new cs)
     = (if HasCondition cs (cType new) then ctypes cs else ctypes cs @ [cType new])"
  using fst_set_condition [of new cs] ctypes_set_condition [of new cs]
  by (auto simp: SetCondition_def split: prod.splits)

lemma set_condition_absent:
  "\<not> HasCondition cs (cType new) \<Longrightarrow> snd (set_condition new cs) = cs"
  by (induction cs) (auto split: prod.splits if_splits)

lemma look_set_condition_other:
  "t \<noteq> cType new \<Longrightarrow> look_condition (snd (set_condition new cs)) t = look_condition cs t"
  by (induction cs) (auto split: prod.splits)

lemma look_set_condition_same:
  "HasCondition cs (cType new) \<Longrightarrow> distinct (ctypes cs) \<Longrightarrow>
    look_condition (snd (set_condition new cs)) (cType new)
      = Some (if cond_Equal (GetCondition cs (cType new)) new
              then GetCondition cs (cType new) else new)"
  by (induction cs) (auto split: prod.splits if_splits)

lemma look_condition_append:
  "look_condition (cs @ ds) t
     = (case look_condition cs t of None \<Rightarrow> look_condition ds t | Some c \<Rightarrow> Some c)"
  by (induction cs) auto

lemma look_condition_None: "look_condition cs t = None \<longleftrightarrow> \<not> HasCondition cs t"
  by (simp add: look_condition_def)

lemma look_SetCondition_other:
  "t \<noteq> cType new \<Longrightarrow> look_condition (SetCondition new cs) t = look_condition cs t"
  using look_set_condition_other [of t new cs]
  by (auto simp: SetCondition_def look_condition_append split: prod.splits option.splits)

lemma look_SetCondition_same:
  assumes "distinct (ctypes cs)"
  shows "look_condition (SetCondition new cs) (cType new)
    = Some (if HasCondition cs (cType new) \<and> cond_Equal (GetCondition cs (cType new)) new
            then GetCondition cs (cType new) else new)"
proof (cases "HasCondition cs (cType new)")
  case True
  with assms look_set_condition_same [OF True] fst_set_condition [of new cs] show ?thesis
    by (auto simp: SetCondition_def split: prod.splits)
next
  case False
  then have "look_condition cs (cType new) = None" by (simp add: look_condition_None)
  with False set_condition_absent [OF False] fst_set_condition [of new cs] show ?thesis
    by (auto simp: SetCondition_def look_condition_append split: prod.splits)
qed

lemma SetCondition_known:
  "look_condition cs (cType new) = Some c \<Longrightarrow> cond_Equal c new \<Longrightarrow> SetCondition new cs = cs"
proof -
  assume "look_condition cs (cType new) = Some c" and eq: "cond_Equal c new"
  then have "set_condition new cs = (True, cs)"
    by (induction cs) (auto split: if_splits)
  then show ?thesis by (simp add: SetCondition_def)
qed

interpretation conds: keyed_collection cType SetCondition look_condition cond_Equal
    "\<lambda>cs. distinct (ctypes cs)"
proof unfold_locales
  fix c :: "condition list" and e e' :: condition and k :: string
  assume wf: "distinct (ctypes c)"
  show "distinct (ctypes (SetCondition e c))"
    using wf by (auto simp: ctypes_SetCondition HasCondition_iff)
  show "\<exists>e'. look_condition (SetCondition e c) (cType e) = Some e' \<and> cond_Equal e' e"
    using wf by (auto simp: look_SetCondition_same)
  show "k \<noteq> cType e \<Longrightarrow> look_condition (SetCondition e c) k = look_condition c k"
    by (rule look_SetCondition_other)
  show "look_condition c (cType e) = Some e' \<Longrightarrow> cond_Equal e' e \<Longrightarrow> SetCondition e c = c"
    by (rule SetCondition_known)
qed

lemma GetCondition_look:
  "GetCondition cs t = (case look_condition cs t of Some c \<Rightarrow> c | None \<Rightarrow> GetCondition [] t)"
  by (induction cs) auto

lemma GetCondition_SetCondition_same:
  "distinct (ctypes cs) \<Longrightarrow> cond_Equal (GetCondition (SetCondition new cs) (cType new)) new"
  by (subst GetCondition_look) (auto simp: look_SetCondition_same)

lemma GetCondition_SetCondition_other:
  "t \<noteq> cType new \<Longrightarrow> GetCondition (SetCondition new cs) t = GetCondition cs t"
  by (subst (1 2) GetCondition_look) (simp add: look_SetCondition_other)

lemma HasCondition_SetCondition:
  "HasCondition (SetCondition new cs) t \<longleftrightarrow> t = cType new \<or> HasCondition cs t"
  by (auto simp: HasCondition_iff ctypes_SetCondition simp del: map_append)

text \<open>
  Setting conditions keeps at most one condition of a type; the last supplied condition of
  a type is the one found (up to its transition time), the types not supplied are untouched, and
  supplying a condition equal to the stored one changes nothing, its transition time included.
\<close>

theorem SetConditions_spec:
  assumes "distinct (ctypes cs)"
  shows "distinct (ctypes (SetConditions cs (news @ [new])))
    \<and> cond_Equal (GetCondition (SetConditions cs (news @ [new])) (cType new)) new
    \<and> (t \<notin> cType ` set (news @ [new])
         \<longrightarrow> GetCondition (SetConditions cs (news @ [new])) t = GetCondition cs t)
    \<and> (HasCondition cs (cType new) \<and> cond_Equal (GetCondition cs (cType new)) new
         \<longrightarrow> SetConditions cs [new] = cs)"
proof (intro conjI impI)
  let ?r = "fold SetCondition (news @ [new]) cs"
  show "distinct (ctypes (SetConditions cs (news @ [new])))"
    unfolding SetConditions_def by (rule conds.wf_puts) (rule assms)
  from conds.puts_last [OF assms, of news new]
  show "cond_Equal (GetCondition (SetConditions cs (news @ [new])) (cType new)) new"
    unfolding SetConditions_def by (subst GetCondition_look) auto
next
  assume "t \<notin> cType ` set (news @ [new])"
  then have "look_condition (fold SetCondition (news @ [new]) cs) t = look_condition cs t"
    by (rule conds.look_puts_other [OF assms])
  then show "GetCondition (SetConditions cs (news @ [new])) t = GetCondition cs t"
    unfolding SetConditions_def by (subst (1 2) GetCondition_look) simp
next
  assume h: "HasCondition cs (cType new) \<and> cond_Equal (GetCondition cs (cType new)) new"
  then have "SetCondition new cs = cs"
    by (intro SetCondition_known [of _ _ "GetCondition cs (cType new)"])
       (auto simp: look_condition_def)
  then show "SetConditions cs [new] = cs" by (simp add: SetConditions_def)
qed

theorem SetConditions_spec_witness:
  "cond_Equal (GetCondition (SetConditions [Failed 1 ''x''] ([Failed 2 ''y''] @ [Ready 3])) ''Ready'')
     (Ready 3)
   \<and> distinct (ctypes [Failed 1 ''x''])"
  using SetConditions_spec [of "[Failed 1 ''x'']" "[Failed 2 ''y'']" "Ready 3" "[]"]
  by (simp add: Ready_def ConditionTypeReady_def)

section \<open>Deduplication\<close>

definition dedupe_inv :: "nat gomap \<Rightarrow> condition list \<Rightarrow> bool" where
  "dedupe_inv index out \<longleftrightarrow> distinct (ctypes out) \<and>
     (\<forall>t i. map_of index t = Some i \<longleftrightarrow> i < length out \<and> cType (out ! i) = t)"

lemma look_list_update:
  "distinct (ctypes out) \<Longrightarrow> i < length out \<Longrightarrow> cType (out ! i) = cType c \<Longrightarrow>
    look_condition (out[i := c]) t = (if t = cType c then Some c else look_condition out t)"
proof (induction out arbitrary: i)
  case Nil
  then show ?case by simp
next
  case (Cons a out)
  show ?case
  proof (cases i)
    case 0
    with Cons.prems show ?thesis by auto
  next
    case (Suc j)
    with Cons.prems have "out ! j \<in> set out" and eq: "cType (out ! j) = cType c" by auto
    then have "cType c \<in> cType ` set out" by (metis imageI)
    with Cons.prems(1) have "cType a \<noteq> cType c" by auto
    with Cons Suc eq show ?thesis by auto
  qed
qed

lemma dedupe_inv_start: "dedupe_inv [] []"
  by (simp add: dedupe_inv_def)

lemma dedupe_inv_update:
  assumes "dedupe_inv index out" "map_of index (cType c) = Some i"
  shows "dedupe_inv index (out[i := c]) \<and> i < length out \<and> cType (out ! i) = cType c"
proof -
  from assms have i: "i < length out" "cType (out ! i) = cType c"
    by (auto simp: dedupe_inv_def)
  then have "ctypes (out[i := c]) = ctypes out"
    by (metis list_update_id map_update nth_map)
  moreover from this have "\<And>j. j < length out \<Longrightarrow> cType (out[i := c] ! j) = cType (out ! j)"
    by (metis length_list_update nth_map)
  ultimately show ?thesis using assms(1) i by (auto simp: dedupe_inv_def)
qed

lemma dedupe_inv_add:
  assumes "dedupe_inv index out" "map_of index (cType c) = None"
  shows "dedupe_inv (gm_put (cType c) (length out) index) (out @ [c]) \<and> \<not> HasCondition out (cType c)"
proof -
  have fresh: "\<And>j. j < length out \<Longrightarrow> cType (out ! j) \<noteq> cType c"
    using assms by (metis dedupe_inv_def option.distinct(1))
  then have nin: "cType c \<notin> set (ctypes out)"
    by (metis in_set_conv_nth length_map nth_map)
  have "map_of (gm_put (cType c) (length out) index) t = Some i
      \<longleftrightarrow> i < length (out @ [c]) \<and> cType ((out @ [c]) ! i) = t" for t i
    using assms(1) fresh by (auto simp: dedupe_inv_def nth_append less_Suc_eq)
  with assms(1) nin show ?thesis by (auto simp: dedupe_inv_def HasCondition_iff)
qed

lemma dedupe_loop_look:
  "dedupe_inv index out \<Longrightarrow>
    distinct (ctypes (dedupe_loop index out cs))
    \<and> look_condition (dedupe_loop index out cs) t
        = (case look_condition (rev cs) t of Some c \<Rightarrow> Some c | None \<Rightarrow> look_condition out t)"
proof (induction cs arbitrary: index out)
  case Nil
  then show ?case by (simp add: dedupe_inv_def)
next
  case (Cons c cs)
  show ?case
  proof (cases "map_of index (cType c)")
    case None
    from dedupe_inv_add [OF Cons.prems None] Cons.IH None show ?thesis
      by (auto simp: look_condition_append look_condition_None [symmetric] split: option.splits)
  next
    case (Some i)
    note upd = dedupe_inv_update [OF Cons.prems Some]
    then have "look_condition (out[i := c]) t = (if t = cType c then Some c else look_condition out t)"
      using Cons.prems by (intro look_list_update) (auto simp: dedupe_inv_def)
    with upd Cons.IH Some show ?thesis
      by (auto simp: look_condition_append split: option.splits)
  qed
qed

text \<open>
  Deduplication leaves one condition per type, and it is the last one supplied of its type:
  for every type the result finds what a search from the end of the argument finds.
\<close>

theorem DedupeConditions_last_wins:
  "distinct (ctypes (DedupeConditions conds))
   \<and> look_condition (DedupeConditions conds) t = look_condition (rev conds) t"
  using dedupe_loop_look [OF dedupe_inv_start, of conds t]
  by (simp add: DedupeConditions_def split: option.splits)

section \<open>Equality of condition lists\<close>

lemma set_sort_ctypes: "set (map cType (sort_key cType cs)) = set (ctypes cs)"
  by simp

lemma sort_ctypes_unique:
  assumes "distinct (ctypes xs)" "distinct (ctypes ys)" "set (ctypes xs) = set (ctypes ys)"
  shows "map cType (sort_key cType xs) = map cType (sort_key cType ys)"
  using assms
  by (intro sorted_distinct_set_unique) (auto simp: distinct_map)

lemma look_condition_distinct:
  "distinct (ctypes cs) \<Longrightarrow> c \<in> set cs \<Longrightarrow> look_condition cs (cType c) = Some c"
  by (induction cs) auto

lemma look_condition_mem: "look_condition cs t = Some c \<Longrightarrow> c \<in> set cs \<and> cType c = t"
  by (induction cs) (auto split: if_splits)

lemma list_all2_cond_Equal_look:
  "list_all2 cond_Equal xs ys \<Longrightarrow> rel_option cond_Equal (look_condition xs t) (look_condition ys t)"
  by (induction rule: list_all2_induct) (auto simp: cond_Equal_def)

lemma look_sort_key:
  assumes "distinct (ctypes cs)"
  shows "look_condition (sort_key cType cs) t = look_condition cs t"
proof -
  have d: "distinct (ctypes (sort_key cType cs))" using assms by (simp add: distinct_map)
  show ?thesis
  proof (cases "look_condition cs t")
    case None
    then have "look_condition (sort_key cType cs) t = None"
      by (simp add: look_condition_None HasCondition_iff)
    with None show ?thesis by simp
  next
    case (Some c)
    from look_condition_mem [OF Some] look_condition_distinct [OF d, of c] Some
    show ?thesis by simp
  qed
qed

text \<open>
  C32: On lists with one condition per type, the comparison of two statuses ignores the order of
  the conditions and their transition times: they are equal exactly when both have the same types
  and hold equal conditions for each of them.
\<close>

theorem StatusEqual_iff_lookup:
  assumes dx: "distinct (ctypes xs)" and dy: "distinct (ctypes ys)"
  shows "StatusEqual (Some xs) (Some ys)
    \<longleftrightarrow> (\<forall>t. rel_option cond_Equal (look_condition xs t) (look_condition ys t))"
proof
  assume "StatusEqual (Some xs) (Some ys)"
  then have "list_all2 cond_Equal (sort_key cType xs) (sort_key cType ys)"
    by (auto simp: StatusEqual_def split: if_splits)
  then show "\<forall>t. rel_option cond_Equal (look_condition xs t) (look_condition ys t)"
    using list_all2_cond_Equal_look dx dy by (metis look_sort_key)
next
  assume r: "\<forall>t. rel_option cond_Equal (look_condition xs t) (look_condition ys t)"
  have "HasCondition xs t = HasCondition ys t" for t
    using r [rule_format, of t] by (auto simp: look_condition_def split: if_splits)
  then have types: "set (ctypes xs) = set (ctypes ys)" by (auto simp only: HasCondition_iff)
  then have len: "length xs = length ys"
    using dx dy by (metis distinct_card length_map)
  have ts: "map cType (sort_key cType xs) = map cType (sort_key cType ys)"
    by (rule sort_ctypes_unique [OF dx dy types])
  have "list_all2 cond_Equal (sort_key cType xs) (sort_key cType ys)"
  proof (rule list_all2_all_nthI)
    show "length (sort_key cType xs) = length (sort_key cType ys)" using len by simp
    fix i assume i: "i < length (sort_key cType xs)"
    let ?x = "sort_key cType xs ! i" and ?y = "sort_key cType ys ! i"
    have "?x \<in> set xs" "?y \<in> set ys" using i len by (metis length_sort nth_mem set_sort)+
    moreover have "cType ?x = cType ?y" using ts i len by (metis length_sort nth_map)
    ultimately show "cond_Equal ?x ?y"
      using r look_condition_distinct [OF dx] look_condition_distinct [OF dy]
      by (metis option.rel_inject(2))
  qed
  with len show "StatusEqual (Some xs) (Some ys)" by (simp add: StatusEqual_def)
qed

theorem StatusEqual_iff_lookup_witness:
  "StatusEqual (Some [Failed 1 ''x'', (Ready 2)\<lparr>cType := ''A''\<rparr>])
     (Some [(Ready 9)\<lparr>cType := ''A''\<rparr>, Failed 7 ''x''])"
proof -
  let ?xs = "[Failed 1 ''x'', (Ready 2)\<lparr>cType := ''A''\<rparr>]"
  let ?ys = "[(Ready 9)\<lparr>cType := ''A''\<rparr>, Failed 7 ''x'']"
  have "distinct (ctypes ?xs)" "distinct (ctypes ?ys)"
    by (simp_all add: Failed_def ConditionTypeReady_def)
  moreover have "\<forall>t. rel_option cond_Equal (look_condition ?xs t) (look_condition ?ys t)"
    by (simp add: Failed_def Ready_def cond_Equal_def ConditionTypeReady_def)
  ultimately show ?thesis using StatusEqual_iff_lookup [of ?xs ?ys] by blast
qed

end
