(* ===== verification/ConfigApi.thy ===== *)
theory ConfigApi
  imports Conditions
begin

text \<open>
  The API objects the controllers exchange and their helpers: \<open>apis/config\<close> and
  \<open>apis/config/v1alpha1\<close> (Config, Deviation, Target, their conditions). The internal and the
  versioned Go types have the same fields and are converted field by field by generated code:
  both are the same record here. Text produced only for logs is left out.
\<close>

section \<open>Objects\<close>

record owner_ref =
  or_apiVersion :: string
  or_kind :: string
  or_name :: string
  or_uid :: string
  or_controller :: "bool option"

record objmeta =
  m_name :: string
  m_namespace :: string
  m_labels :: "string gomap"
  m_annotations :: "string gomap"
  m_finalizers :: "string list"
  m_generation :: int
  m_deletionTimestamp :: "nat option"
  m_uid :: string
  m_resourceVersion :: string
  m_ownerReferences :: "owner_ref list"

record config_blob =
  b_path :: string
  b_value :: string

record config_spec =
  s_lifecycle :: "string option"
  s_priority :: "32 word"
  s_revertive :: "bool option"
  s_config :: "config_blob list"

record schema_ref =
  sch_type :: string
  sch_vendor :: string
  sch_version :: string

record config_status =
  st_conditions :: "condition list"
  st_lastKnownGoodSchema :: "schema_ref option"
  st_appliedConfig :: "config_spec option"
  st_deviationGeneration :: "int option"

record config =
  c_apiVersion :: string
  c_kind :: string
  c_meta :: objmeta
  c_spec :: config_spec
  c_status :: config_status

record config_deviation =
  dv_path :: string
  dv_desiredValue :: "string option"
  dv_actualValue :: "string option"
  dv_reason :: string

record deviation =
  d_meta :: objmeta
  d_deviationType :: "string option"
  d_deviations :: "config_deviation list"

record discovery_info =
  di_protocol :: string
  di_provider :: string
  di_version :: string
  di_hostname :: string
  di_platform :: string
  di_macAddress :: string
  di_serialNumber :: string
  di_supportedEncodings :: "string list"

record used_refs =
  ur_secret :: string
  ur_tlsSecret :: string
  ur_connectionProfile :: string
  ur_syncProfile :: string

record target_spec =
  ts_provider :: string
  ts_address :: string
  ts_credentials :: string
  ts_connectionProfile :: string
  ts_syncProfile :: "string option"
  ts_tlsSecret :: "string option"

record target =
  t_meta :: objmeta
  t_spec :: target_spec
  t_conditions :: "condition list"
  t_discoveryInfo :: "discovery_info option"
  t_usedReferences :: "used_refs option"

abbreviation c_name :: "config \<Rightarrow> string" where "c_name c \<equiv> m_name (c_meta c)"
abbreviation c_namespace :: "config \<Rightarrow> string" where "c_namespace c \<equiv> m_namespace (c_meta c)"
abbreviation ckey :: "config \<Rightarrow> string \<times> string" where
  "ckey c \<equiv> (c_namespace c, c_name c)"
abbreviation c_deleting :: "config \<Rightarrow> bool" where
  "c_deleting c \<equiv> m_deletionTimestamp (c_meta c) \<noteq> None"
abbreviation c_conditions :: "config \<Rightarrow> condition list" where
  "c_conditions c \<equiv> st_conditions (c_status c)"

definition empty_meta :: objmeta where
  "empty_meta = \<lparr>m_name = [], m_namespace = [], m_labels = [], m_annotations = [],
     m_finalizers = [], m_generation = 0, m_deletionTimestamp = None, m_uid = [],
     m_resourceVersion = [], m_ownerReferences = []\<rparr>"

definition empty_schema_ref :: schema_ref where
  "empty_schema_ref = \<lparr>sch_type = [], sch_vendor = [], sch_version = []\<rparr>"

definition TargetNameKey :: string where "TargetNameKey = ''config.sdcio.dev/targetName''"
definition TargetNamespaceKey :: string where
  "TargetNamespaceKey = ''config.sdcio.dev/targetNamespace''"

lemma target_keys_ne [simp]: "TargetNameKey \<noteq> TargetNamespaceKey" "TargetNamespaceKey \<noteq> TargetNameKey"
  by (simp_all add: TargetNameKey_def TargetNamespaceKey_def)

section \<open>Config conditions (v1alpha1/condition.go)\<close>

definition ConditionTypeConfigReady :: string where "ConditionTypeConfigReady = ''ConfigReady''"
definition ConditionTypeTargetDiscoveryReady :: string where
  "ConditionTypeTargetDiscoveryReady = ''TargetDiscoveryReady''"

definition ConfigReasonTargetNotFound :: string where
  "ConfigReasonTargetNotFound = ''TargetNotFound''"
definition ConfigReasonTargetDeleting :: string where
  "ConfigReasonTargetDeleting = ''TargetDeleting''"
definition ConfigReasonTargetNotReady :: string where
  "ConfigReasonTargetNotReady = ''TargetNotReady''"
definition ConfigReasonTargetRuntimeNotReady :: string where
  "ConfigReasonTargetRuntimeNotReady = ''TargetRuntimeNotReady''"
definition ConfigReasonPending :: string where "ConfigReasonPending = ''Pending''"

lemmas config_consts [go_defs] = ConditionTypeConfigReady_def
  ConditionTypeTargetDiscoveryReady_def ConfigReasonTargetNotFound_def
  ConfigReasonTargetDeleting_def ConfigReasonTargetNotReady_def
  ConfigReasonTargetRuntimeNotReady_def ConfigReasonPending_def

lemma cond_types_ne [simp]:
  "ConditionTypeReady \<noteq> ConditionTypeConfigReady" "ConditionTypeConfigReady \<noteq> ConditionTypeReady"
  by (simp_all add: ConditionTypeReady_def ConditionTypeConfigReady_def)

lemma cond_reasons_ne [simp]:
  "ConditionReasonFailed \<noteq> ConditionReasonUnrecoverable"
  "ConditionReasonReady \<noteq> ConditionReasonUnrecoverable"
  "ConditionReasonUnrecoverable \<noteq> ConditionReasonFailed"
  "ConditionReasonUnrecoverable \<noteq> ConditionReasonReady"
  "ConditionReasonUnrecoverable \<noteq> []" "ConditionTrue \<noteq> ConditionFalse"
  "ConditionFalse \<noteq> ConditionTrue"
  by (simp_all add: cond_consts)

definition LegacyConfigConditionTypes :: "string list" where
  "LegacyConfigConditionTypes = [''TargetForConfigReady'']"

definition Creating :: "nat \<Rightarrow> condition" where
  "Creating now = \<lparr>cType = ConditionTypeConfigReady, cStatus = ConditionFalse,
     cReason = ''creating'', cMessage = ''creating'', cObservedGeneration = 0,
     cLastTransitionTime = now\<rparr>"

definition Updating :: "nat \<Rightarrow> condition" where
  "Updating now = \<lparr>cType = ConditionTypeConfigReady, cStatus = ConditionFalse,
     cReason = ''updating'', cMessage = ''updating'', cObservedGeneration = 0,
     cLastTransitionTime = now\<rparr>"

definition configCondition :: "nat \<Rightarrow> int \<Rightarrow> string \<Rightarrow> string \<Rightarrow> string \<Rightarrow> condition" where
  "configCondition now generation status reason msg =
     (NewCondition now ConditionTypeConfigReady status reason msg)
       \<lparr>cObservedGeneration := generation\<rparr>"

definition ConfigReady :: "nat \<Rightarrow> int \<Rightarrow> string \<Rightarrow> condition" where
  "ConfigReady now generation msg =
     configCondition now generation ConditionTrue ConditionReasonReady msg"

definition ConfigFailed :: "nat \<Rightarrow> int \<Rightarrow> string \<Rightarrow> condition" where
  "ConfigFailed now generation msg =
     configCondition now generation ConditionFalse ConditionReasonFailed msg"

definition ConfigFailedUnrecoverable :: "nat \<Rightarrow> int \<Rightarrow> string \<Rightarrow> condition" where
  "ConfigFailedUnrecoverable now generation msg =
     configCondition now generation ConditionFalse ConditionReasonUnrecoverable msg"

definition ConfigNotReady :: "nat \<Rightarrow> string \<Rightarrow> string \<Rightarrow> condition" where
  "ConfigNotReady now reason msg =
     NewCondition now ConditionTypeReady ConditionFalse reason msg"

definition TargetDiscoveryReady :: "nat \<Rightarrow> condition" where
  "TargetDiscoveryReady now = \<lparr>cType = ConditionTypeTargetDiscoveryReady,
     cStatus = ConditionTrue, cReason = ConditionReasonReady, cMessage = [],
     cObservedGeneration = 0, cLastTransitionTime = now\<rparr>"

definition TargetDiscoveryFailed :: "nat \<Rightarrow> string \<Rightarrow> condition" where
  "TargetDiscoveryFailed now msg = \<lparr>cType = ConditionTypeTargetDiscoveryReady,
     cStatus = ConditionFalse, cReason = ConditionReasonFailed, cMessage = msg,
     cObservedGeneration = 0, cLastTransitionTime = now\<rparr>"

definition TargetReady :: "nat \<Rightarrow> string \<Rightarrow> condition" where
  "TargetReady now msg = ReadyWithMsg now msg"

definition TargetNotReady :: "nat \<Rightarrow> string \<Rightarrow> string \<Rightarrow> condition" where
  "TargetNotReady now reason msg =
     NewCondition now ConditionTypeReady ConditionFalse reason msg"

lemma configCondition_sel [simp]:
  "cType (configCondition now g s r m) = ConditionTypeConfigReady"
  "cStatus (configCondition now g s r m) = s" "cReason (configCondition now g s r m) = r"
  "cObservedGeneration (configCondition now g s r m) = g"
  "cMessage (configCondition now g s r m) = TruncateMessage m MaxMessageBytes"
  by (simp_all add: configCondition_def)

lemmas config_outcomes = ConfigReady_def ConfigFailed_def ConfigFailedUnrecoverable_def

section \<open>Config helpers\<close>

definition IsRevertive :: "string option \<Rightarrow> config_spec \<Rightarrow> bool" where
  \<comment> \<open>the first argument is what \<open>os.LookupEnv("REVERTIVE")\<close> finds\<close>
  "IsRevertive env s =
     (case s_revertive s of
        Some r \<Rightarrow> r
      | None \<Rightarrow> (case env of
          Some v \<Rightarrow> (if to_lower v = ''false'' then False else True)
        | None \<Rightarrow> True))"

definition IsRecoverable :: "config \<Rightarrow> bool" where
  \<comment> \<open>\<open>apis/config\<close>: two early returns\<close>
  "IsRecoverable r =
     (let c = GetCondition (c_conditions r) ConditionTypeConfigReady in
      if cReason c \<noteq> ConditionReasonUnrecoverable then True
      else if cObservedGeneration c \<noteq> m_generation (c_meta r) then True
      else False)"

definition IsRecoverable_v1alpha1 :: "config \<Rightarrow> bool" where
  \<comment> \<open>\<open>apis/config/v1alpha1\<close>: one disjunction\<close>
  "IsRecoverable_v1alpha1 r =
     (let c = GetCondition (c_conditions r) ConditionTypeConfigReady in
      cReason c \<noteq> ConditionReasonUnrecoverable \<or>
      cObservedGeneration c \<noteq> m_generation (c_meta r))"

definition IsConfigConditionReady :: "config \<Rightarrow> bool" where
  "IsConfigConditionReady r \<longleftrightarrow>
     cStatus (GetCondition (c_conditions r) ConditionTypeConfigReady) = ConditionTrue"

definition GetLastKnownGoodSchema :: "config \<Rightarrow> schema_ref" where
  "GetLastKnownGoodSchema r =
     (case st_lastKnownGoodSchema (c_status r) of None \<Rightarrow> empty_schema_ref | Some s \<Rightarrow> s)"

definition GetTarget :: "string gomap \<Rightarrow> string" where
  "GetTarget labels =
     (if length labels = 0 then []
      else (case map_of labels TargetNamespaceKey of Some ns \<Rightarrow> ns @ ''/'' | None \<Rightarrow> [])
         @ (case map_of labels TargetNameKey of Some n \<Rightarrow> n | None \<Rightarrow> []))"

definition Orphan :: "config_spec \<Rightarrow> bool" where
  "Orphan s = (case s_lifecycle s of Some p \<Rightarrow> p = ''orphan'' | None \<Rightarrow> False)"

definition GetTargetKey :: "string gomap \<Rightarrow> goerr + (string \<times> string)" where
  \<comment> \<open>(namespace, name)\<close>
  "GetTargetKey labels =
     (let targetName = gm_index [] labels TargetNameKey;
          targetNamespace = gm_index [] labels TargetNamespaceKey in
      if targetName = [] \<or> targetNamespace = []
      then Inl (err_new ('' target namespace and name is required got '' @ targetNamespace
                  @ ''.'' @ targetName))
      else Inr (targetNamespace, targetName))"

definition GetTargetNamespaceName :: "string gomap \<Rightarrow> goerr + (string \<times> string)" where
  "GetTargetNamespaceName labels =
     (if length labels = 0 then Inl (err_new ''no target information found in labels'')
      else case map_of labels TargetNamespaceKey of
        None \<Rightarrow> Inl (err_new ''no target namespece information found in labels'')
      | Some ns \<Rightarrow>
          (case map_of labels TargetNameKey of
             None \<Rightarrow> Inl (err_new ''no target namespece information found in labels'')
           | Some n \<Rightarrow> Inr (ns, n)))"

definition ConfigValidate :: "string gomap \<Rightarrow> goerr option" where
  "ConfigValidate labels =
     (let errm = None;
          errm = (if map_of labels TargetNameKey = None
                  then err_join errm (Some (err_new (''a config cr always need a '' @ TargetNameKey)))
                  else errm);
          errm = (if map_of labels TargetNamespaceKey = None
                  then err_join errm (Some (err_new (''a config cr always need a '' @ TargetNamespaceKey)))
                  else errm)
      in errm)"

definition HashDeviationGenerationChanged :: "config \<Rightarrow> deviation \<Rightarrow> bool" where
  "HashDeviationGenerationChanged r dev =
     (case st_deviationGeneration (c_status r) of
        None \<Rightarrow> length (d_deviations dev) \<noteq> 0
      | Some g \<Rightarrow> g = m_generation (d_meta dev))"

definition ReadyFromApplied :: "nat \<Rightarrow> config \<Rightarrow> condition" where
  "ReadyFromApplied now r =
     (if \<not> HasCondition (c_conditions r) ConditionTypeConfigReady
      then ConfigNotReady now ConfigReasonPending ''config not applied yet''
      else let c = GetCondition (c_conditions r) ConditionTypeConfigReady in
        if IsTrue c then ReadyWithMsg now (cMessage c)
        else NewCondition now ConditionTypeReady ConditionFalse (cReason c) (cMessage c))"

definition GetGVKNSN :: "objmeta \<Rightarrow> string" where
  "GetGVKNSN m = m_namespace m @ ''.'' @ m_name m"

definition GetOwnerReference :: "config \<Rightarrow> owner_ref" where
  \<comment> \<open>\<open>apis/config\<close>: API version and kind are literals, the object's TypeMeta may be empty\<close>
  "GetOwnerReference r = \<lparr>or_apiVersion = ''config.sdcio.dev/v1alpha1'', or_kind = ''Config'',
     or_name = c_name r, or_uid = m_uid (c_meta r), or_controller = Some True\<rparr>"

section \<open>Target helpers (v1alpha1/target_helpers.go)\<close>

definition Target_IsReady :: "target \<Rightarrow> bool" where
  "Target_IsReady t \<longleftrightarrow> cStatus (GetCondition (t_conditions t) ConditionTypeReady) = ConditionTrue"

definition NotReadyReason :: "target \<Rightarrow> string" where
  "NotReadyReason t =
     (let cond = GetCondition (t_conditions t) ConditionTypeReady in
      if cStatus cond = ConditionTrue then ''target ready''
      else if cReason cond = [] then ''target not ready''
      else if cMessage cond = [] then cReason cond
      else cReason cond @ '': '' @ cMessage cond)"

section \<open>Deviation names (apis/config/deviation_helper.go)\<close>

definition DeviationType_TARGET :: string where "DeviationType_TARGET = ''target''"
definition DeviationType_CONFIG :: string where "DeviationType_CONFIG = ''config''"

definition DeviationName :: "string \<Rightarrow> string \<Rightarrow> string" where
  "DeviationName typ resourceName = typ @ ''-'' @ resourceName"

fun parse_deviation_loop :: "string list \<Rightarrow> string \<Rightarrow> string \<times> string \<times> bool" where
  "parse_deviation_loop [] name = ([], [], False)"
| "parse_deviation_loop (typ # typs) name =
     (let prefix = typ @ ''-''; (rest, found) = cut_prefix name prefix in
      if found \<and> rest \<noteq> [] then (typ, rest, True) else parse_deviation_loop typs name)"

definition ParseDeviationName :: "string \<Rightarrow> string \<times> string \<times> bool" where
  "ParseDeviationName name =
     parse_deviation_loop [DeviationType_CONFIG, DeviationType_TARGET] name"

definition GetDeviationType :: "deviation \<Rightarrow> string" where
  "GetDeviationType r =
     (case d_deviationType r of
        Some t \<Rightarrow> (if t = DeviationType_TARGET then ''target''
                   else if t = DeviationType_CONFIG then ''config'' else ''unknown'')
      | None \<Rightarrow> ''target'')"

definition HasNotAppliedDeviation :: "deviation \<Rightarrow> bool" where
  "HasNotAppliedDeviation r \<longleftrightarrow> (\<exists>dev \<in> set (d_deviations r). dv_reason dev = ''NOT_APPLIED'')"

section \<open>Lemmas\<close>

lemma ParseDeviationName_iff:
  "ParseDeviationName name = (typ, res, True) \<longleftrightarrow>
     (typ = DeviationType_CONFIG \<or> typ = DeviationType_TARGET) \<and> res \<noteq> []
     \<and> name = DeviationName typ res"
proof
  assume "ParseDeviationName name = (typ, res, True)"
  then show "(typ = DeviationType_CONFIG \<or> typ = DeviationType_TARGET) \<and> res \<noteq> []
     \<and> name = DeviationName typ res"
    by (auto simp: ParseDeviationName_def Let_def cut_prefix_def DeviationName_def
        has_prefix_iff split: if_splits)
next
  assume h: "(typ = DeviationType_CONFIG \<or> typ = DeviationType_TARGET) \<and> res \<noteq> []
     \<and> name = DeviationName typ res"
  then show "ParseDeviationName name = (typ, res, True)"
    by (auto simp: ParseDeviationName_def DeviationName_def Let_def cut_prefix_def
        DeviationType_CONFIG_def DeviationType_TARGET_def)
qed

text \<open>
  C33: \<open>ParseDeviationName\<close> is the exact inverse of \<open>DeviationName\<close>: it accepts a name with a
  type and a resource just when the name is the canonical one of that (known) type and that
  (non-empty) resource, so a config and a target never share a deviation name.
\<close>

theorem DeviationName_roundtrip:
  "(ParseDeviationName name = (typ, res, True) \<longleftrightarrow>
      typ \<in> {DeviationType_CONFIG, DeviationType_TARGET} \<and> res \<noteq> [] \<and> name = DeviationName typ res)
   \<and> DeviationName DeviationType_CONFIG a \<noteq> DeviationName DeviationType_TARGET b"
  using ParseDeviationName_iff
  by (auto simp: DeviationName_def DeviationType_CONFIG_def DeviationType_TARGET_def)

lemma IsRecoverable_iff:
  "IsRecoverable r \<longleftrightarrow>
     cReason (GetCondition (c_conditions r) ConditionTypeConfigReady) \<noteq> ConditionReasonUnrecoverable
     \<or> cObservedGeneration (GetCondition (c_conditions r) ConditionTypeConfigReady)
         \<noteq> m_generation (c_meta r)"
  by (auto simp: IsRecoverable_def Let_def)

definition with_conditions :: "condition list \<Rightarrow> config \<Rightarrow> config" where
  "with_conditions cs r = r\<lparr>c_status := (c_status r)\<lparr>st_conditions := cs\<rparr>\<rparr>"

lemma with_conditions_sel [simp]:
  "c_meta (with_conditions cs r) = c_meta r" "c_spec (with_conditions cs r) = c_spec r"
  "c_conditions (with_conditions cs r) = cs"
  "st_appliedConfig (c_status (with_conditions cs r)) = st_appliedConfig (c_status r)"
  "st_lastKnownGoodSchema (c_status (with_conditions cs r)) = st_lastKnownGoodSchema (c_status r)"
  "st_deviationGeneration (c_status (with_conditions cs r)) = st_deviationGeneration (c_status r)"
  by (simp_all add: with_conditions_def)

definition config_outcome :: "nat \<Rightarrow> bool \<Rightarrow> int \<Rightarrow> string \<Rightarrow> condition" where
  "config_outcome now recoverable g msg =
     (if recoverable then ConfigFailed now g msg else ConfigFailedUnrecoverable now g msg)"

lemma GetCondition_outcome:
  assumes "distinct (ctypes cs)" "cType c = ConditionTypeConfigReady"
  shows "cReason (GetCondition (SetConditions cs [c]) ConditionTypeConfigReady) = cReason c
    \<and> cObservedGeneration (GetCondition (SetConditions cs [c]) ConditionTypeConfigReady)
        = cObservedGeneration c
    \<and> cStatus (GetCondition (SetConditions cs [c]) ConditionTypeConfigReady) = cStatus c"
  using GetCondition_SetCondition_same [OF assms(1), of c] assms(2)
  by (simp add: SetConditions_def cond_Equal_def)

text \<open>
  After a failure of generation \<open>g\<close> has been recorded on a config, the config is retried
  exactly when the failure was recoverable or the generation it now has is another one than the
  one that failed; the two implementations of the test (internal and v1alpha1 API) agree.
\<close>

theorem IsRecoverable_after_failure:
  assumes "distinct (ctypes (c_conditions r))"
  shows "(IsRecoverable (with_conditions (SetConditions (c_conditions r)
            [config_outcome now recoverable g msg]) r)
         \<longleftrightarrow> recoverable \<or> g \<noteq> m_generation (c_meta r))
    \<and> IsRecoverable r = IsRecoverable_v1alpha1 r"
proof
  show "IsRecoverable (with_conditions (SetConditions (c_conditions r)
            [config_outcome now recoverable g msg]) r)
         \<longleftrightarrow> recoverable \<or> g \<noteq> m_generation (c_meta r)"
    using GetCondition_outcome [OF assms, of "config_outcome now recoverable g msg"]
    by (auto simp: IsRecoverable_iff config_outcome_def config_outcomes)
  show "IsRecoverable r = IsRecoverable_v1alpha1 r"
    by (auto simp: IsRecoverable_def IsRecoverable_v1alpha1_def Let_def)
qed

definition sample_config :: config where
  "sample_config = \<lparr>c_apiVersion = [], c_kind = [],
     c_meta = empty_meta\<lparr>m_name := ''c1'', m_namespace := ''ns'', m_generation := 2\<rparr>,
     c_spec = \<lparr>s_lifecycle = None, s_priority = 10, s_revertive = None,
        s_config = [\<lparr>b_path = ''/a'', b_value = ''1''\<rparr>]\<rparr>,
     c_status = \<lparr>st_conditions = [], st_lastKnownGoodSchema = None,
        st_appliedConfig = None, st_deviationGeneration = None\<rparr>\<rparr>"

theorem IsRecoverable_after_failure_witness:
  "IsRecoverable (with_conditions (SetConditions [] [config_outcome 5 False 1 ''x'']) sample_config)
   \<and> \<not> IsRecoverable (with_conditions (SetConditions [] [config_outcome 5 False 2 ''x'']) sample_config)"
  using IsRecoverable_after_failure [of sample_config 5 False 1 "''x''"]
    IsRecoverable_after_failure [of sample_config 5 False 2 "''x''"]
  by (simp add: sample_config_def empty_meta_def)

lemma cut_back_id: "n < length s \<Longrightarrow> RuneStart (s ! n) \<Longrightarrow> cut_back s n = n"
  by (cases n) auto

lemma TruncateMessage_short: "0 < b \<Longrightarrow> int (length s) \<le> b \<Longrightarrow> TruncateMessage s b = s"
  by (simp add: TruncateMessage_def)

lemma TruncateMessage_idem [simp]:
  "TruncateMessage (TruncateMessage s MaxMessageBytes) MaxMessageBytes
     = TruncateMessage s MaxMessageBytes"
proof -
  have "int (length (TruncateMessage s MaxMessageBytes)) \<le> MaxMessageBytes"
    using length_cutAtRune [of MaxMessageBytes s] length_cutAtRune [of "MaxMessageBytes - 3" s]
    by (auto simp: TruncateMessage_def MaxMessageBytes_def)
  then show ?thesis by (intro TruncateMessage_short) (auto simp: MaxMessageBytes_def)
qed

lemma ReadyFromApplied_status:
  "IsTrue (ReadyFromApplied now r)
     \<longleftrightarrow> IsTrue (GetCondition (c_conditions r) ConditionTypeConfigReady)"
  using GetCondition_missing [of "c_conditions r" ConditionTypeConfigReady]
  by (auto simp: ReadyFromApplied_def ConfigNotReady_def ReadyWithMsg_def IsTrue_def Let_def)

lemma cType_ReadyFromApplied [simp]: "cType (ReadyFromApplied now r) = ConditionTypeReady"
  by (simp add: ReadyFromApplied_def ConfigNotReady_def ReadyWithMsg_def Let_def)

end
