(* ===== verification/Services.thy ===== *)
theory Services
  imports ConfigApi
begin

text \<open>
  The two services the controllers talk to. The Kubernetes API client and the data-server gRPC
  client are not code of the repository: they are records of operations on an abstract world
  \<open>'w\<close>, and every definition that uses them takes them as arguments. A call returns its result
  and the world after it. \<open>'p\<close> is the type of parsed paths (\<open>sdcpb.Path\<close>).

  The tracing clients below add nothing to a client but a record of the calls made, so that a
  lemma can speak of the order of calls whatever the client does.
\<close>

section \<open>Data-server messages\<close>

record 'p upd =
  u_path :: 'p
  u_jsonVal :: string

record 'p tx_intent =
  ti_intent :: string
  ti_priority :: "32 word"
  ti_update :: "'p upd list"
  ti_revertPaths :: "'p list"
  ti_delete :: bool
  ti_deleteIgnoreNoExist :: bool
  ti_orphan :: bool
  ti_nonRevertive :: bool
  ti_previouslyApplied :: bool

definition empty_intent :: "'p tx_intent" where
  "empty_intent = \<lparr>ti_intent = [], ti_priority = 0, ti_update = [], ti_revertPaths = [],
     ti_delete = False, ti_deleteIgnoreNoExist = False, ti_orphan = False,
     ti_nonRevertive = False, ti_previouslyApplied = False\<rparr>"

record 'p tx_request =
  tq_transactionId :: string
  tq_datastoreName :: string
  tq_dryRun :: bool
  tq_timeout :: "32 word option"
  tq_intents :: "'p tx_intent list"

record tx_rintent =
  ri_errors :: "string list"
  ri_warnings :: "string list"

record tx_response =
  tr_intents :: "tx_rintent gomap"
  tr_warnings :: "string list"

record ds_credentials =
  cr_username :: string
  cr_password :: string

record ds_tls =
  tls_skipVerify :: bool
  tls_ca :: string
  tls_cert :: string
  tls_key :: string

datatype protocol_options =
  NoOpts
| GnmiOpts (go_encoding: string) (go_targetName: string)
| NetconfOpts (no_includeNs: bool) (no_operationWithNs: bool) (no_useOperationRemove: bool)
    (no_commitRunning: bool)

record ds_target =
  dt_type :: string
  dt_address :: string
  dt_port :: "32 word"
  dt_credentials :: "ds_credentials option"
  dt_tls :: "ds_tls option"
  dt_protocolOptions :: protocol_options

record ds_schema =
  ds_sname :: string
  ds_svendor :: string
  ds_sversion :: string

datatype sync_mode_pb = SM_ON_CHANGE | SM_SAMPLE | SM_ONCE | SM_GET

record sync_config =
  sc_name :: string
  sc_target :: ds_target
  sc_path :: "string list"
  sc_mode :: sync_mode_pb
  sc_interval :: "64 word"

record sync_pb =
  sy_validate :: bool
  sy_buffer :: int
  sy_writeWorkers :: int
  sy_config :: "sync_config list"

record ds_request =
  dr_datastoreName :: string
  dr_target :: "ds_target option"
  dr_schema :: "ds_schema option"
  dr_sync :: "sync_pb option"

section \<open>Clients\<close>

record ('p, 'w) dsclient =
  d_GetDataStore :: "string \<Rightarrow> 'w \<Rightarrow> goerr option \<times> 'w"
  d_CreateDataStore :: "ds_request \<Rightarrow> 'w \<Rightarrow> goerr option \<times> 'w"
  d_DeleteDataStore :: "string \<Rightarrow> 'w \<Rightarrow> goerr option \<times> 'w"
  d_TransactionSet :: "'p tx_request \<Rightarrow> 'w \<Rightarrow> (tx_response option \<times> goerr option) \<times> 'w"
  d_TransactionConfirm :: "string \<Rightarrow> string \<Rightarrow> 'w \<Rightarrow> goerr option \<times> 'w"
  d_TransactionCancel :: "string \<Rightarrow> string \<Rightarrow> 'w \<Rightarrow> goerr option \<times> 'w"

text \<open>
  The content of a server-side apply on a Config status: the fields it carries, a field left
  out is \<open>None\<close> (with server-side apply the manager gives up what it leaves out).
\<close>

record status_apply =
  sa_conditions :: "condition list"
  sa_lastKnownGoodSchema :: "schema_ref option"
  sa_appliedConfig :: "config_spec option"
  sa_deviationGeneration :: "int option"

record deviation_apply =
  da_namespace :: string
  da_name :: string
  da_labels :: "string gomap"
  da_deviationType :: "string option"
  da_deviations :: "config_deviation list"

record 'w k8s =
  k_GetConfig :: "string \<Rightarrow> string \<Rightarrow> 'w \<Rightarrow> (goerr + config) \<times> 'w"
  k_ListConfigs :: "string \<Rightarrow> string gomap \<Rightarrow> 'w \<Rightarrow> (goerr + config list) \<times> 'w"
  k_PatchConfig :: "config \<Rightarrow> config \<Rightarrow> string \<Rightarrow> 'w \<Rightarrow> (goerr + config) \<times> 'w"
  k_ApplyConfigStatus :: "string \<Rightarrow> string \<Rightarrow> status_apply \<Rightarrow> string \<Rightarrow> 'w \<Rightarrow> goerr option \<times> 'w"
  k_GetDeviation :: "string \<Rightarrow> string \<Rightarrow> 'w \<Rightarrow> (goerr + deviation) \<times> 'w"
  k_CreateDeviation :: "deviation \<Rightarrow> 'w \<Rightarrow> goerr option \<times> 'w"
  k_DeleteDeviation :: "string \<Rightarrow> string \<Rightarrow> 'w \<Rightarrow> goerr option \<times> 'w"
  k_ApplyDeviation :: "deviation_apply \<Rightarrow> string \<Rightarrow> bool \<Rightarrow> 'w \<Rightarrow> goerr option \<times> 'w"
  k_GetTarget :: "string \<Rightarrow> string \<Rightarrow> 'w \<Rightarrow> (goerr + target) \<times> 'w"

section \<open>Resource errors (pkg/reconcilers/resource/errors.go)\<close>

definition IsNotFound :: "goerr option \<Rightarrow> bool" where
  \<comment> \<open>\<open>apierrors.IsNotFound\<close>: the API reason found in the error\<close>
  "IsNotFound err = (case err of None \<Rightarrow> False | Some e \<Rightarrow> e_api e = Some ''NotFound'')"

definition Ignore :: "(goerr option \<Rightarrow> bool) \<Rightarrow> goerr option \<Rightarrow> goerr option" where
  "Ignore is err = (if is err then None else err)"

fun IgnoreAny :: "goerr option \<Rightarrow> (goerr option \<Rightarrow> bool) list \<Rightarrow> goerr option" where
  "IgnoreAny err [] = err"
| "IgnoreAny err (f # is) = (if f err then None else IgnoreAny err is)"

definition IgnoreNotFound :: "goerr option \<Rightarrow> goerr option" where
  "IgnoreNotFound err = Ignore IsNotFound err"

lemma IgnoreNotFound_simps [simp]:
  "IgnoreNotFound None = None"
  "IgnoreNotFound (Some e) = (if e_api e = Some ''NotFound'' then None else Some e)"
  by (simp_all add: IgnoreNotFound_def Ignore_def IsNotFound_def)

lemma IgnoreAny_eq: "IgnoreAny err is = (if \<exists>f \<in> set is. f err then None else err)"
  by (induction err "is" rule: IgnoreAny.induct) auto

section \<open>Data-server errors\<close>

definition isRecoverableTransactionError :: "goerr option \<Rightarrow> bool" where
  \<comment> \<open>\<open>pkg/sdc/target/manager/utils.go\<close>\<close>
  "isRecoverableTransactionError err =
     (case err of None \<Rightarrow> False
      | Some e \<Rightarrow> (case e_code e of None \<Rightarrow> False
          | Some code \<Rightarrow>
              (if code = Aborted \<or> code = ResourceExhausted \<or> code = Unavailable
                  \<or> code = DeadlineExceeded
               then True else False)))"

definition isUnknownDatastoreErr :: "goerr option \<Rightarrow> bool" where
  \<comment> \<open>\<open>pkg/sdc/target/manager/runtime.go\<close>\<close>
  "isUnknownDatastoreErr err =
     (case err of None \<Rightarrow> False
      | Some e \<Rightarrow>
          (if e_code e = Some NotFound then True
           else let msg = to_lower (e_msg e) in
             str_contains msg ''unknown datastore'' \<or> str_contains msg ''not found''))"

definition NewTransactionError :: "goerr \<Rightarrow> bool \<Rightarrow> goerr" where
  \<comment> \<open>\<open>TransactionError\<close> has no \<open>Unwrap\<close>: the wrapped error's code is not found through it\<close>
  "NewTransactionError err recoverable =
     \<lparr>e_msg = e_msg err, e_code = None, e_api = None, e_tx = Some recoverable\<rparr>"

lemma NewTransactionError_sel [simp]:
  "e_msg (NewTransactionError e r) = e_msg e" "e_tx (NewTransactionError e r) = Some r"
  "e_code (NewTransactionError e r) = None" "e_api (NewTransactionError e r) = None"
  by (simp_all add: NewTransactionError_def)

section \<open>Tracing clients\<close>

datatype 'p call =
  CSet "'p tx_request"
| CConfirm string string
| CCancel string string
| CGetDS string
| CCreateDS ds_request
| CDeleteDS string
| CStatus string string status_apply
| CPatch config config
| CCreateDev deviation
| CDeleteDev string string
| CApplyDev deviation_apply
| CReadConfig string string
| CReadOther

type_synonym ('p, 'w) traced = "'w \<times> 'p call list"

definition tcall :: "'p call \<Rightarrow> ('w \<Rightarrow> 'r \<times> 'w) \<Rightarrow> ('p, 'w) traced \<Rightarrow> 'r \<times> ('p, 'w) traced" where
  "tcall c f wl = (let (r, w') = f (fst wl) in (r, (w', snd wl @ [c])))"

definition trace_ds :: "('p, 'w) dsclient \<Rightarrow> ('p, ('p, 'w) traced) dsclient" where
  "trace_ds d = \<lparr>
     d_GetDataStore = (\<lambda>n. tcall (CGetDS n) (d_GetDataStore d n)),
     d_CreateDataStore = (\<lambda>q. tcall (CCreateDS q) (d_CreateDataStore d q)),
     d_DeleteDataStore = (\<lambda>n. tcall (CDeleteDS n) (d_DeleteDataStore d n)),
     d_TransactionSet = (\<lambda>q. tcall (CSet q) (d_TransactionSet d q)),
     d_TransactionConfirm = (\<lambda>n i. tcall (CConfirm n i) (d_TransactionConfirm d n i)),
     d_TransactionCancel = (\<lambda>n i. tcall (CCancel n i) (d_TransactionCancel d n i))\<rparr>"

definition trace_k8s :: "'w k8s \<Rightarrow> ('p, 'w) traced k8s" where
  "trace_k8s k = \<lparr>
     k_GetConfig = (\<lambda>ns n. tcall (CReadConfig ns n) (k_GetConfig k ns n)),
     k_ListConfigs = (\<lambda>ns l. tcall CReadOther (k_ListConfigs k ns l)),
     k_PatchConfig = (\<lambda>a b fm. tcall (CPatch a b) (k_PatchConfig k a b fm)),
     k_ApplyConfigStatus = (\<lambda>ns n a fm. tcall (CStatus ns n a) (k_ApplyConfigStatus k ns n a fm)),
     k_GetDeviation = (\<lambda>ns n. tcall CReadOther (k_GetDeviation k ns n)),
     k_CreateDeviation = (\<lambda>dv. tcall (CCreateDev dv) (k_CreateDeviation k dv)),
     k_DeleteDeviation = (\<lambda>ns n. tcall (CDeleteDev ns n) (k_DeleteDeviation k ns n)),
     k_ApplyDeviation = (\<lambda>a fm f. tcall (CApplyDev a) (k_ApplyDeviation k a fm f)),
     k_GetTarget = (\<lambda>ns n. tcall CReadOther (k_GetTarget k ns n))\<rparr>"

lemma trace_ds_sel [simp]:
  "d_GetDataStore (trace_ds d) n = tcall (CGetDS n) (d_GetDataStore d n)"
  "d_CreateDataStore (trace_ds d) q = tcall (CCreateDS q) (d_CreateDataStore d q)"
  "d_DeleteDataStore (trace_ds d) n = tcall (CDeleteDS n) (d_DeleteDataStore d n)"
  "d_TransactionSet (trace_ds d) tq = tcall (CSet tq) (d_TransactionSet d tq)"
  "d_TransactionConfirm (trace_ds d) n i = tcall (CConfirm n i) (d_TransactionConfirm d n i)"
  "d_TransactionCancel (trace_ds d) n i = tcall (CCancel n i) (d_TransactionCancel d n i)"
  by (simp_all add: trace_ds_def)

lemma trace_k8s_sel [simp]:
  "k_GetConfig (trace_k8s k) ns n = tcall (CReadConfig ns n) (k_GetConfig k ns n)"
  "k_ListConfigs (trace_k8s k) ns l = tcall CReadOther (k_ListConfigs k ns l)"
  "k_PatchConfig (trace_k8s k) a b fm = tcall (CPatch a b) (k_PatchConfig k a b fm)"
  "k_ApplyConfigStatus (trace_k8s k) ns n sa fm
     = tcall (CStatus ns n sa) (k_ApplyConfigStatus k ns n sa fm)"
  "k_GetDeviation (trace_k8s k) ns n = tcall CReadOther (k_GetDeviation k ns n)"
  "k_CreateDeviation (trace_k8s k) dv = tcall (CCreateDev dv) (k_CreateDeviation k dv)"
  "k_DeleteDeviation (trace_k8s k) ns n = tcall (CDeleteDev ns n) (k_DeleteDeviation k ns n)"
  "k_ApplyDeviation (trace_k8s k) da fm f = tcall (CApplyDev da) (k_ApplyDeviation k da fm f)"
  "k_GetTarget (trace_k8s k) ns n = tcall CReadOther (k_GetTarget k ns n)"
  by (simp_all add: trace_k8s_def)

lemma snd_tcall [simp]: "snd (snd (tcall c f wl)) = snd wl @ [c]"
  by (simp add: tcall_def split: prod.splits)

lemma fst_tcall [simp]: "fst (tcall c f wl) = fst (f (fst wl))"
  by (simp add: tcall_def split: prod.splits)

end
