(* ===== verification/ClearDeviation.thy ===== *)
theory ClearDeviation
  imports Services
begin

text \<open>
  The clear-deviation request of a Target (\<open>apis/config/target_helpers.go\<close>): validation of the
  batch, the transaction intents built from the configs, the bounded retry around the
  set-then-confirm sequence, and the status reported per config. Parsing of paths
  (\<open>sdcpb.ParsePath\<close>), the text of a store key
  (\<open>storebackend.KeyFromNSN(key).String()\<close>), dialing the data-server, the lister of configs, the fresh transaction id
  and the context are arguments. Closing the connection is not modelled (its error is only logged).
\<close>

section \<open>Intent updates\<close>

fun intent_updates :: "(string \<Rightarrow> goerr + 'p) \<Rightarrow> config_blob list \<Rightarrow> goerr + 'p upd list" where
  "intent_updates parse [] = Inr []"
| "intent_updates parse (b # bs) =
     (case parse (b_path b) of
        Inl e \<Rightarrow> Inl e
      | Inr p \<Rightarrow> (case intent_updates parse bs of
          Inl e \<Rightarrow> Inl e
        | Inr us \<Rightarrow> Inr (\<lparr>u_path = p, u_jsonVal = b_value b\<rparr> # us)))"

definition GetIntentUpdate :: "(string \<Rightarrow> goerr + 'p) \<Rightarrow> config \<Rightarrow> bool \<Rightarrow> goerr + 'p upd list" where
  "GetIntentUpdate parse config useSpec =
     (let configSpec = s_config (c_spec config);
          configSpec = (case st_appliedConfig (c_status config) of
             Some applied \<Rightarrow> (if \<not> useSpec then s_config applied else configSpec)
           | None \<Rightarrow> configSpec)
      in intent_updates parse configSpec)"

section \<open>Building the transaction\<close>

record cd_config =
  cd_name :: string
  cd_paths :: "string list"

record cd_result =
  res_name :: string
  res_success :: bool
  res_message :: string
  res_errors :: "string list"
  res_warnings :: "string list"

record cd_status =
  cds_message :: string
  cds_warnings :: "string list"
  cds_results :: "cd_result list"

definition cd_failure :: "string \<Rightarrow> string list \<Rightarrow> cd_result" where
  "cd_failure name errs = \<lparr>res_name = name, res_success = False, res_message = [],
     res_errors = errs, res_warnings = []\<rparr>"

definition resolveClearDeviationConfig ::
  "string \<Rightarrow> config gomap \<Rightarrow> string \<Rightarrow> goerr + config" where
  "resolveClearDeviationConfig name configsByName targetName =
     (case map_of configsByName name of
        Some cfg \<Rightarrow> Inr cfg
      | None \<Rightarrow>
          (let (typ, resource, ok) = ParseDeviationName name;
               notFound = Inl (err_new (''config '' @ go_quote name @ '' not found for target ''
                                 @ targetName)) in
           if ok then
             (if typ = DeviationType_TARGET
              then Inl (err_new (''deviation '' @ go_quote name
                     @ '' is target-scoped; clearing target deviations via cleardeviation is not supported''))
              else if typ = DeviationType_CONFIG
              then (case map_of configsByName resource of
                      Some cfg \<Rightarrow> Inr cfg
                    | None \<Rightarrow> Inl (err_new (''config '' @ go_quote resource
                        @ '' (from deviation name '' @ go_quote name @ '') not found for target ''
                        @ targetName)))
              else notFound)
           else notFound))"

fun parse_revert_paths :: "(string \<Rightarrow> goerr + 'p) \<Rightarrow> string list \<Rightarrow> 'p list \<times> string list" where
  "parse_revert_paths parse [] = ([], [])"
| "parse_revert_paths parse (p # ps) =
     (let (paths, errs) = parse_revert_paths parse ps in
      case parse p of
        Inl e \<Rightarrow> (paths, (''invalid path '' @ go_quote p @ '': '' @ e_msg e) # errs)
      | Inr path \<Rightarrow> (path # paths, errs))"

definition clear_entry ::
  "(string \<Rightarrow> goerr + 'p) \<Rightarrow> string option \<Rightarrow> string \<Rightarrow> config gomap \<Rightarrow> cd_config
     \<Rightarrow> cd_result + 'p tx_intent" where
  \<comment> \<open>the loop body: the validation error of the entry, or its intent\<close>
  "clear_entry parse env targetName configsByName clearCfg =
     (case resolveClearDeviationConfig (cd_name clearCfg) configsByName targetName of
        Inl lookupErr \<Rightarrow> Inl (cd_failure (cd_name clearCfg) [e_msg lookupErr])
      | Inr cfg \<Rightarrow>
          if IsRevertive env (c_spec cfg)
          then Inl (cd_failure (cd_name clearCfg)
                 [''config '' @ go_quote (cd_name clearCfg) @ '' is revertive for target ''
                    @ targetName @ '', not expecting clearDeviations''])
          else let (revertPaths, pathErrors) = parse_revert_paths parse (cd_paths clearCfg) in
            if length pathErrors > 0 then Inl (cd_failure (cd_name clearCfg) pathErrors)
            else case GetIntentUpdate parse cfg True of
                Inl err \<Rightarrow> Inl (cd_failure (cd_name clearCfg)
                   [''failed to build intent update for config '' @ go_quote (cd_name clearCfg)
                      @ '': '' @ e_msg err])
              | Inr update \<Rightarrow> Inr (empty_intent
                  \<lparr>ti_intent := GetGVKNSN (c_meta cfg), ti_priority := s_priority (c_spec cfg),
                   ti_revertPaths := revertPaths, ti_update := update,
                   ti_nonRevertive := \<not> IsRevertive env (c_spec cfg)\<rparr>))"

fun clear_entries ::
  "(string \<Rightarrow> goerr + 'p) \<Rightarrow> string option \<Rightarrow> string \<Rightarrow> config gomap \<Rightarrow> cd_config list
     \<Rightarrow> 'p tx_intent list \<times> cd_result list" where
  "clear_entries parse env targetName configsByName [] = ([], [])"
| "clear_entries parse env targetName configsByName (e # es) =
     (let (intents, validationErrors) = clear_entries parse env targetName configsByName es in
      case clear_entry parse env targetName configsByName e of
        Inl r \<Rightarrow> (intents, r # validationErrors)
      | Inr i \<Rightarrow> (i # intents, validationErrors))"

definition empty_request :: "'p tx_request" where
  "empty_request = \<lparr>tq_transactionId = [], tq_datastoreName = [], tq_dryRun = False,
     tq_timeout = None, tq_intents = []\<rparr>"

definition buildClearDeviationTxRequest ::
  "(string \<Rightarrow> goerr + 'p) \<Rightarrow> (string \<times> string \<Rightarrow> string) \<Rightarrow> string option \<Rightarrow> string \<Rightarrow> string \<times> string \<Rightarrow> cd_config list
     \<Rightarrow> config gomap \<Rightarrow> 'p tx_request \<times> cd_result list" where
  "buildClearDeviationTxRequest parse keyString env uuid targetKey entries configsByName =
     (let (intents, validationErrors)
            = clear_entries parse env (snd targetKey) configsByName entries in
      if length intents = 0 then (empty_request, validationErrors)
      else (\<lparr>tq_transactionId = uuid,
              tq_datastoreName = keyString targetKey,
              tq_dryRun = False, tq_timeout = Some 60, tq_intents = intents\<rparr>,
            validationErrors))"

fun field_errors_from :: "nat \<Rightarrow> cd_result list \<Rightarrow> (nat \<times> string \<times> string) list" where
  "field_errors_from i [] = []"
| "field_errors_from i (r # rs) =
     (let msg = join_sep ''; '' (res_errors r);
          msg = (if msg = [] then ''validation failed'' else msg) in
      (i, res_name r, msg) # field_errors_from (Suc i) rs)"

definition validationErrorsToFieldErrors :: "cd_result list \<Rightarrow> (nat \<times> string \<times> string) list" where
  \<comment> \<open>index below \<open>spec.config\<close>, rejected value, message\<close>
  "validationErrorsToFieldErrors results = field_errors_from 0 results"

section \<open>Running it\<close>

definition isRecoverableClearDeviationTxError :: "goerr option \<Rightarrow> bool" where
  "isRecoverableClearDeviationTxError err =
     (if err = None then False
      else case Option.bind err e_code of
        None \<Rightarrow> False
      | Some code \<Rightarrow> code \<in> {Aborted, ResourceExhausted, Unavailable, DeadlineExceeded})"

type_synonym tx_result = "tx_response option \<times> goerr option"

definition executeClearDeviationTxOnce ::
  "('w \<Rightarrow> goerr option \<times> 'w) \<Rightarrow> ('p, 'w) dsclient \<Rightarrow> 'p tx_request \<Rightarrow> 'w \<Rightarrow> tx_result \<times> 'w" where
  "executeClearDeviationTxOnce dial d txReq w =
     (case dial w of
        (Some err, w1) \<Rightarrow> ((None, Some err), w1)
      | (None, w1) \<Rightarrow>
          (case d_TransactionSet d txReq w1 of
             ((rsp, Some err), w2) \<Rightarrow> ((rsp, Some err), w2)
           | ((rsp, None), w2) \<Rightarrow>
               (case d_TransactionConfirm d (tq_datastoreName txReq) (tq_transactionId txReq) w2 of
                  (Some err, w3) \<Rightarrow> ((rsp, Some (err_wrap ''transaction confirm failed'' err)), w3)
                | (None, w3) \<Rightarrow> ((rsp, None), w3))))"

text \<open>
  The retry loop. \<open>left\<close> counts the attempts not made yet, \<open>i\<close> is the loop variable;
  \<open>ctxDone i\<close> says that the context ends while the loop waits after attempt \<open>i\<close>. The waits made
  are returned beside the result.
\<close>

fun retry_loop ::
  "nat \<Rightarrow> nat \<Rightarrow> int \<Rightarrow> ('w \<Rightarrow> tx_result \<times> 'w) \<Rightarrow> (nat \<Rightarrow> bool) \<Rightarrow> tx_result \<Rightarrow> 'w
     \<Rightarrow> tx_result \<times> int list \<times> 'w" where
  "retry_loop 0 i backoff attempt ctxDone lastr w = (lastr, [], w)"
| "retry_loop (Suc left) i backoff attempt ctxDone lastr w =
     (let (res, w') = attempt w in
      if snd res = None \<or> left = 0 \<or> \<not> isRecoverableClearDeviationTxError (snd res)
      then (res, [], w')
      else if ctxDone i then (res, [], w')
      else let (r, waits, w'') = retry_loop left (Suc i) (backoff * 2) attempt ctxDone res w' in
        (r, backoff # waits, w''))"

definition retryClearDeviationTx ::
  "nat \<Rightarrow> int \<Rightarrow> ('w \<Rightarrow> tx_result \<times> 'w) \<Rightarrow> (nat \<Rightarrow> bool) \<Rightarrow> 'w \<Rightarrow> tx_result \<times> int list \<times> 'w" where
  "retryClearDeviationTx maxAttempts baseBackoff attempt ctxDone w =
     retry_loop maxAttempts 1 baseBackoff attempt ctxDone (None, None) w"

definition clearDeviationTxMaxAttempts :: nat where "clearDeviationTxMaxAttempts = 4"
definition clearDeviationTxBaseBackoff :: int where
  \<comment> \<open>200 ms in nanoseconds\<close>
  "clearDeviationTxBaseBackoff = 200000000"

definition executeClearDeviationTx ::
  "('w \<Rightarrow> goerr option \<times> 'w) \<Rightarrow> ('p, 'w) dsclient \<Rightarrow> (nat \<Rightarrow> bool) \<Rightarrow> 'p tx_request \<Rightarrow> 'w
     \<Rightarrow> tx_result \<times> 'w" where
  "executeClearDeviationTx dial d ctxDone txReq w =
     (let (r, waits, w') = retryClearDeviationTx clearDeviationTxMaxAttempts
             clearDeviationTxBaseBackoff (executeClearDeviationTxOnce dial d txReq) ctxDone w
      in (r, w'))"

section \<open>The reported status\<close>

fun intent_to_name :: "string gomap \<Rightarrow> config gomap \<Rightarrow> string gomap" where
  "intent_to_name m [] = m"
| "intent_to_name m ((name, cfg) # cs) = intent_to_name (gm_put (GetGVKNSN (c_meta cfg)) name m) cs"

fun responded_results ::
  "string gomap \<Rightarrow> tx_rintent gomap \<Rightarrow> bool gomap \<Rightarrow> cd_result list \<Rightarrow> bool gomap \<times> cd_result list" where
  "responded_results intentToName [] responded results = (responded, results)"
| "responded_results intentToName ((intentKey, intent) # is) responded results =
     (let name = (case map_of intentToName intentKey of Some mapped \<Rightarrow> mapped | None \<Rightarrow> intentKey) in
      responded_results intentToName is (gm_put name True responded)
        (results @ [\<lparr>res_name = name, res_success = (length (ri_errors intent) = 0),
           res_message = [], res_errors = ri_errors intent, res_warnings = []\<rparr>]))"

fun inherited_results :: "bool gomap \<Rightarrow> bool \<Rightarrow> cd_config list \<Rightarrow> cd_result list" where
  "inherited_results responded ok [] = []"
| "inherited_results responded ok (cfg # cs) =
     (if gm_index False responded (cd_name cfg) then inherited_results responded ok cs
      else \<lparr>res_name = cd_name cfg, res_success = ok, res_message = [], res_errors = [],
             res_warnings = []\<rparr> # inherited_results responded ok cs)"

definition buildClearDeviationStatus ::
  "cd_config list \<Rightarrow> config gomap \<Rightarrow> tx_response option \<Rightarrow> goerr option \<Rightarrow> cd_status" where
  "buildClearDeviationStatus clearConfigs configsByName rsp err =
     (let message = (case err of Some e \<Rightarrow> e_msg e | None \<Rightarrow> []) in
      case rsp of
        None \<Rightarrow> \<lparr>cds_message = message, cds_warnings = [],
           cds_results = map (\<lambda>cfg. cd_failure (cd_name cfg) [message]) clearConfigs\<rparr>
      | Some r \<Rightarrow>
          (let intentToName = intent_to_name [] configsByName;
               (responded, results) = responded_results intentToName (tr_intents r) [] [] in
           \<lparr>cds_message = message, cds_warnings = tr_warnings r,
            cds_results = results @ inherited_results responded (err = None) clearConfigs\<rparr>))"

datatype cd_error =
  ServiceUnavailable string
| BadRequest string
| InternalError string
| ListError goerr
| InvalidBatch "(nat \<times> string \<times> string) list"

definition ClearDeviations ::
  "(string \<Rightarrow> goerr + 'p) \<Rightarrow> (string \<times> string \<Rightarrow> string) \<Rightarrow> string option \<Rightarrow> string
     \<Rightarrow> (string \<Rightarrow> string \<Rightarrow> string \<Rightarrow> 'w \<Rightarrow> (goerr + config gomap) \<times> 'w) option
     \<Rightarrow> ('w \<Rightarrow> goerr option \<times> 'w) \<Rightarrow> ('p, 'w) dsclient \<Rightarrow> (nat \<Rightarrow> bool) \<Rightarrow> target
     \<Rightarrow> cd_config list option \<Rightarrow> 'w \<Rightarrow> (cd_error + cd_status) \<times> 'w" where
  "ClearDeviations parse keyString env uuid configLister dial d ctxDone r reqSpec w =
     (let ns = m_namespace (t_meta r); nm = m_name (t_meta r) in
      if \<not> Target_IsReady r
      then (Inl (ServiceUnavailable (''target '' @ ns @ ''/'' @ nm @ '' is not ready: ''
              @ cMessage (GetCondition (t_conditions r) ConditionTypeReady))), w)
      else case reqSpec of
        None \<Rightarrow> (Inl (BadRequest ''spec is required''), w)
      | Some spec \<Rightarrow>
          (case configLister of
             None \<Rightarrow> (Inl (InternalError ''config lister not initialized''), w)
           | Some lister \<Rightarrow>
               (case lister ns nm ns w of
                  (Inl err, w1) \<Rightarrow> (Inl (ListError err), w1)
                | (Inr configsByName, w1) \<Rightarrow>
                    (let (txReq, validationErrors) = buildClearDeviationTxRequest parse keyString env uuid
                            (ns, nm) spec configsByName in
                     if length validationErrors > 0
                     then (Inl (InvalidBatch (validationErrorsToFieldErrors validationErrors)), w1)
                     else if length (tq_intents txReq) = 0
                     then (Inr \<lparr>cds_message = ''no configs to process'', cds_warnings = [],
                             cds_results = []\<rparr>, w1)
                     else let ((rsp, txErr), w2) = executeClearDeviationTx dial d ctxDone txReq w1 in
                       (Inr (buildClearDeviationStatus spec configsByName rsp txErr), w2)))))"


section \<open>The batch\<close>

lemma clear_entries_eq:
  "clear_entries parse env t cfgs es
     = (map projr (filter (\<lambda>x. \<not> isl x) (map (clear_entry parse env t cfgs) es)),
        map projl (filter isl (map (clear_entry parse env t cfgs) es)))"
  by (induction es) (auto split: sum.splits)

lemma clear_entry_Inr:
  "clear_entry parse env t cfgs e = Inr i \<Longrightarrow>
     ti_nonRevertive i \<and> \<not> ti_delete i
     \<and> (\<exists>cfg. resolveClearDeviationConfig (cd_name e) cfgs t = Inr cfg
          \<and> ti_intent i = GetGVKNSN (c_meta cfg) \<and> ti_priority i = s_priority (c_spec cfg))"
  by (auto simp: clear_entry_def empty_intent_def Let_def split: sum.splits if_splits prod.splits)

lemma resolve_mem:
  "resolveClearDeviationConfig n cfgs t = Inr cfg \<Longrightarrow>
     map_of cfgs n = Some cfg
     \<or> (map_of cfgs n = None \<and> (\<exists>x. n = DeviationName DeviationType_CONFIG x \<and> map_of cfgs x = Some cfg))"
proof -
  assume a: "resolveClearDeviationConfig n cfgs t = Inr cfg"
  obtain ty res ok where p: "ParseDeviationName n = (ty, res, ok)" by (metis prod_cases3)
  show ?thesis
  proof (cases "map_of cfgs n")
    case (Some c)
    with a show ?thesis by (simp add: resolveClearDeviationConfig_def)
  next
    case None
    with a p have ok: "ok" "ty = DeviationType_CONFIG" "map_of cfgs res = Some cfg"
      by (auto simp: resolveClearDeviationConfig_def Let_def split: if_splits option.splits)
    with p None show ?thesis using ParseDeviationName_iff [of n ty res] by auto
  qed
qed

lemma executeOnce_calls:
  "executeClearDeviationTxOnce (tcall CReadOther dial) (trace_ds d) q (w, cs) = (r, (w', cs')) \<Longrightarrow>
     \<exists>ds. cs' = cs @ ds \<and> (\<forall>q'. CSet q' \<in> set ds \<longrightarrow> q' = q)"
  by (auto simp: executeClearDeviationTxOnce_def tcall_def split: prod.splits option.splits)

lemma retry_loop_calls:
  assumes once: "\<And>w cs r w' cs'. attempt (w, cs) = (r, (w', cs')) \<Longrightarrow>
      \<exists>ds. cs' = cs @ ds \<and> (\<forall>q'. CSet q' \<in> set ds \<longrightarrow> q' = q)"
  shows "retry_loop n i b attempt done lr (w, cs) = (r, waits, (w', cs')) \<Longrightarrow>
     \<exists>ds. cs' = cs @ ds \<and> (\<forall>q'. CSet q' \<in> set ds \<longrightarrow> q' = q)"
proof (induction n arbitrary: i b lr w cs r waits w' cs')
  case 0
  then show ?case by auto
next
  case (Suc n)
  obtain res w1 cs1 where a: "attempt (w, cs) = (res, (w1, cs1))" by (metis prod_cases3)
  from once [OF a] obtain ds where ds: "cs1 = cs @ ds" "\<forall>q'. CSet q' \<in> set ds \<longrightarrow> q' = q" by auto
  show ?case
  proof (cases "snd res = None \<or> n = 0 \<or> \<not> isRecoverableClearDeviationTxError (snd res) \<or> done i")
    case True
    with Suc.prems a ds show ?thesis by (auto split: if_splits)
  next
    case False
    obtain r2 ws w2 cs2 where
      l: "retry_loop n (Suc i) (b * 2) attempt done res (w1, cs1) = (r2, ws, (w2, cs2))"
      by (metis prod_cases4)
    with False Suc.prems a have "cs' = cs2" by auto
    with Suc.IH [OF l] ds show ?thesis by fastforce
  qed
qed

text \<open>
  A batch of clear-deviation entries is all or nothing. On a ready target, when one entry is
  invalid (unknown config, target-scoped deviation, revertive config, bad path), the request is
  rejected with one field error per invalid entry and the data-server is not called. Otherwise
  every transaction sent carries exactly one intent per entry, in the order of the entries, each
  of them non-revertive and none a delete.
\<close>

theorem ClearDeviations_batch:
  assumes ready: "Target_IsReady t"
    and lst: "lister (m_namespace (t_meta t)) (m_name (t_meta t)) (m_namespace (t_meta t)) w = (Inr cfgs, w1)"
    and run: "ClearDeviations parse keyString env uuid
        (Some (\<lambda>a b c. tcall CReadOther (lister a b c))) (tcall CReadOther dial) (trace_ds d) ctxDone t
        (Some entries) (w, []) = (res, (w', calls))"
  defines "outcomes \<equiv> map (clear_entry parse env (m_name (t_meta t)) cfgs) entries"
  shows "if \<exists>x \<in> set outcomes. isl x
    then (\<exists>errs. res = Inl (InvalidBatch errs) \<and> length errs = length (filter isl outcomes))
         \<and> calls = [CReadOther]
    else \<forall>q. CSet q \<in> set calls \<longrightarrow>
        map Inr (tq_intents q) = outcomes
        \<and> (\<forall>i \<in> set (tq_intents q). ti_nonRevertive i \<and> \<not> ti_delete i)"
proof -
  let ?key = "(m_namespace (t_meta t), m_name (t_meta t))"
  have len: "length (field_errors_from i rs) = length rs" for i rs
    by (induction rs arbitrary: i) (auto simp: Let_def)
  obtain tx ve where b: "buildClearDeviationTxRequest parse keyString env uuid ?key entries cfgs = (tx, ve)"
    by fastforce
  then have ve: "ve = map projl (filter isl outcomes)"
    by (auto simp: buildClearDeviationTxRequest_def clear_entries_eq outcomes_def Let_def split: if_splits)
  show ?thesis
  proof (cases "\<exists>x \<in> set outcomes. isl x")
    case True
    then have "ve \<noteq> []" using ve by (auto simp: filter_empty_conv)
    with run ready lst b have "res = Inl (InvalidBatch (validationErrorsToFieldErrors ve))" "calls = [CReadOther]"
      by (auto simp: ClearDeviations_def tcall_def Let_def)
    with True ve len show ?thesis by (auto simp: validationErrorsToFieldErrors_def)
  next
    case False
    then have allr: "\<forall>x \<in> set outcomes. \<not> isl x" by blast
    then have "ve = []" using ve by (auto simp: filter_empty_conv)
    have ints: "tq_intents tx = map projr outcomes"
      using b allr
      by (auto simp: buildClearDeviationTxRequest_def clear_entries_eq outcomes_def Let_def
          empty_request_def filter_id_conv split: if_splits)
    have q: "q = tx" if "CSet q \<in> set calls" for q
    proof (cases "tq_intents tx = []")
      case True
      with run ready lst b \<open>ve = []\<close> that show ?thesis
        by (auto simp: ClearDeviations_def tcall_def Let_def)
    next
      case ne: False
      obtain r waits w2 cs2 where e:
        "retry_loop clearDeviationTxMaxAttempts 1 clearDeviationTxBaseBackoff
          (executeClearDeviationTxOnce (tcall CReadOther dial) (trace_ds d) tx) ctxDone (None, None)
          (w1, [CReadOther]) = (r, waits, (w2, cs2))" by (metis prod_cases4)
      obtain ds where ds: "cs2 = [CReadOther] @ ds" "\<forall>q'. CSet q' \<in> set ds \<longrightarrow> q' = tx"
        using retry_loop_calls [OF _ e, of tx] by (meson executeOnce_calls)
      have "calls = cs2"
        using run ready lst b \<open>ve = []\<close> ne e
        by (auto simp: ClearDeviations_def executeClearDeviationTx_def retryClearDeviationTx_def
            tcall_def Let_def split: prod.splits)
      with ds that show ?thesis by auto
    qed
    have "map Inr (map projr outcomes) = outcomes"
      using allr by (simp add: map_idI)
    moreover have "ti_nonRevertive i \<and> \<not> ti_delete i" if "i \<in> set (map projr outcomes)" for i
    proof -
      from that obtain x where x: "x \<in> set outcomes" "i = projr x" by auto
      with allr have "x = Inr i" by (cases x) auto
      with x(1) obtain e where "clear_entry parse env (m_name (t_meta t)) cfgs e = Inr i"
        by (auto simp: outcomes_def)
      then show ?thesis by (auto dest: clear_entry_Inr)
    qed
    ultimately show ?thesis using False q ints by auto
  qed
qed

definition sample_target :: target where
  "sample_target = \<lparr>t_meta = empty_meta\<lparr>m_name := ''t1'', m_namespace := ''ns''\<rparr>,
     t_spec = \<lparr>ts_provider = [], ts_address = [], ts_credentials = [], ts_connectionProfile = [],
       ts_syncProfile = None, ts_tlsSecret = None\<rparr>,
     t_conditions = [Ready 1], t_discoveryInfo = None, t_usedReferences = None\<rparr>"

definition sample_ds :: "(string, nat) dsclient" where
  \<comment> \<open>a data-server that answers the first transaction with Aborted and accepts the later ones\<close>
  "sample_ds = \<lparr>d_GetDataStore = (\<lambda>n w. (None, w)), d_CreateDataStore = (\<lambda>q w. (None, w)),
     d_DeleteDataStore = (\<lambda>n w. (None, w)),
     d_TransactionSet = (\<lambda>q w. if w = 0
        then ((None, Some ((err_new ''transaction ongoing'')\<lparr>e_code := Some Aborted\<rparr>)), w + 1)
        else ((Some \<lparr>tr_intents = [], tr_warnings = []\<rparr>, None), w + 1)),
     d_TransactionConfirm = (\<lambda>n i w. (None, w)), d_TransactionCancel = (\<lambda>n i w. (None, w))\<rparr>"

definition sample_clear :: "cd_config list \<Rightarrow> (cd_error + cd_status) \<times> nat \<times> string call list" where
  "sample_clear entries = ClearDeviations (\<lambda>p. Inr p) (\<lambda>k. fst k @ ''.'' @ snd k) (Some ''false'') ''id''
     (Some (\<lambda>a b c. tcall CReadOther (\<lambda>w. (Inr [(''c1'', sample_config)], w))))
     (tcall CReadOther (\<lambda>w. (None, w))) (trace_ds sample_ds) (\<lambda>i. False) sample_target
     (Some entries) (0, [])"

theorem ClearDeviations_batch_witness:
  "\<exists>errs. sample_clear [\<lparr>cd_name = ''c1'', cd_paths = []\<rparr>, \<lparr>cd_name = ''c2'', cd_paths = []\<rparr>]
     = (Inl (InvalidBatch errs), (0, [CReadOther])) \<and> length errs = 1"
proof -
  let ?es = "[\<lparr>cd_name = ''c1'', cd_paths = []\<rparr>, \<lparr>cd_name = ''c2'', cd_paths = []\<rparr>]"
  let ?out = "map (clear_entry (\<lambda>p. Inr p) (Some ''false'') ''t1'' [(''c1'', sample_config)]) ?es"
  obtain res w' calls where run: "sample_clear ?es = (res, (w', calls))" by (metis prod_cases3)
  have nm: "m_name (t_meta sample_target) = ''t1''" by (simp add: sample_target_def)
  have ready: "Target_IsReady sample_target"
    by (simp add: Target_IsReady_def sample_target_def Ready_def)
  have bad: "\<exists>x \<in> set ?out. isl x" "length (filter isl ?out) = 1" by code_simp+
  have "(\<exists>errs. res = Inl (InvalidBatch errs) \<and> length errs = length (filter isl ?out))
      \<and> calls = [CReadOther]"
    using ClearDeviations_batch [OF ready refl run [unfolded sample_clear_def], unfolded nm]
    unfolding if_P [OF bad(1)] .
  moreover have "fst (snd (sample_clear ?es)) = 0" by code_simp
  ultimately show ?thesis using run bad(2) by simp
qed

section \<open>The retry\<close>

definition log_attempt :: "('w \<Rightarrow> 'r \<times> 'w) \<Rightarrow> 'w \<times> 'r list \<Rightarrow> 'r \<times> 'w \<times> 'r list" where
  "log_attempt attempt wr = (let (r, w') = attempt (fst wr) in (r, (w', snd wr @ [r])))"

lemma recoverable_not_None: "isRecoverableClearDeviationTxError e \<Longrightarrow> e \<noteq> None"
  by (simp add: isRecoverableClearDeviationTxError_def split: if_splits)

lemma retry_loop_log:
  "retry_loop (Suc n) i b (log_attempt attempt) done lr (w, rs) = (r, waits, (w', rs')) \<Longrightarrow>
    \<exists>new. rs' = rs @ new @ [r] \<and> length new \<le> n
      \<and> (\<forall>x \<in> set new. isRecoverableClearDeviationTxError (snd x))
      \<and> waits = map (\<lambda>j. b * 2 ^ j) [0..<length new]
      \<and> (length new < n \<longrightarrow> \<not> isRecoverableClearDeviationTxError (snd r) \<or> done (i + length new))"
proof (induction n arbitrary: i b lr w rs r waits w' rs')
  case 0
  then show ?case by (auto simp: log_attempt_def split: prod.splits)
next
  case (Suc n)
  obtain res w1 where a: "attempt w = (res, w1)" by fastforce
  show ?case
  proof (cases "isRecoverableClearDeviationTxError (snd res) \<and> \<not> done i")
    case False
    with Suc.prems a have "rs' = rs @ [res]" "r = res" "waits = []"
      by (auto simp: log_attempt_def split: if_splits prod.splits)
    with False show ?thesis by auto
  next
    case True
    obtain r2 ws w2 rs2 where
      l: "retry_loop (Suc n) (Suc i) (b * 2) (log_attempt attempt) done res (w1, rs @ [res])
            = (r2, ws, (w2, rs2))" by (metis prod_cases4)
    have "log_attempt attempt (w, rs) = (res, (w1, rs @ [res]))"
      using a by (simp add: log_attempt_def)
    with l True Suc.prems recoverable_not_None [of "snd res"]
    have e: "r = r2" "rs' = rs2" "waits = b # ws"
      by (auto simp del: retry_loop.simps(2) simp: retry_loop.simps(2) [of "Suc n" i])
    from Suc.IH [OF l] obtain new where new: "rs2 = (rs @ [res]) @ new @ [r2]" "length new \<le> n"
      "\<forall>x \<in> set new. isRecoverableClearDeviationTxError (snd x)"
      "ws = map (\<lambda>j. b * 2 * 2 ^ j) [0..<length new]"
      "length new < n \<longrightarrow> \<not> isRecoverableClearDeviationTxError (snd r2) \<or> done (Suc i + length new)"
      by blast
    have "b # ws = map (\<lambda>j. b * 2 ^ j) [0..<length (res # new)]"
      using new(4) by (simp add: upt_rec [of 0 "Suc (length new)"] map_Suc_upt [symmetric] del: upt_Suc)
    with e new True show ?thesis by (intro exI [of _ "res # new"]) auto
  qed
qed

text \<open>
  The retry makes at least one attempt and at most \<open>maxAttempts\<close>, returns the result of the
  last one, and goes on only after recoverable failures; the waits between the attempts start at
  the base and double. It stops early only on a success or a non-recoverable error, or because
  the context ended.
\<close>

theorem retryClearDeviationTx_bounded:
  assumes "0 < maxAttempts"
    and "retryClearDeviationTx maxAttempts base (log_attempt attempt) ctxDone (w, [])
           = (r, waits, (w', results))"
  shows "results \<noteq> [] \<and> length results \<le> maxAttempts \<and> r = last results
    \<and> (\<forall>x \<in> set (butlast results). isRecoverableClearDeviationTxError (snd x))
    \<and> waits = map (\<lambda>j. base * 2 ^ j) [0..<length results - 1]
    \<and> (length results < maxAttempts
         \<longrightarrow> \<not> isRecoverableClearDeviationTxError (snd r) \<or> ctxDone (length results))"
proof -
  obtain n where n: "maxAttempts = Suc n" using assms(1) by (cases maxAttempts) auto
  from retry_loop_log [OF assms(2) [unfolded retryClearDeviationTx_def n]] obtain new where
    "results = new @ [r]" "length new \<le> n"
    "\<forall>x \<in> set new. isRecoverableClearDeviationTxError (snd x)"
    "waits = map (\<lambda>j. base * 2 ^ j) [0..<length new]"
    "length new < n \<longrightarrow> \<not> isRecoverableClearDeviationTxError (snd r) \<or> ctxDone (1 + length new)"
    by auto
  then show ?thesis using n by auto
qed

theorem retryClearDeviationTx_bounded_witness:
  "fst (snd (retryClearDeviationTx clearDeviationTxMaxAttempts clearDeviationTxBaseBackoff
      (log_attempt (\<lambda>w. ((None, Some ((err_new ''busy'')\<lparr>e_code := Some Aborted\<rparr>)), w))) (\<lambda>i. i = 3)
      (0::nat, []))) = [200000000, 400000000]"
proof -
  let ?run = "retryClearDeviationTx clearDeviationTxMaxAttempts clearDeviationTxBaseBackoff
      (log_attempt (\<lambda>w. ((None, Some ((err_new ''busy'')\<lparr>e_code := Some Aborted\<rparr>)), w))) (\<lambda>i. i = 3)
      (0::nat, [])"
  obtain r waits w' rs where run: "?run = (r, waits, (w', rs))" by (metis prod_cases4)
  have "length (snd (snd (snd ?run))) = 3" by code_simp
  with run have "length rs = 3" by simp
  moreover have "0 < clearDeviationTxMaxAttempts" by (simp add: clearDeviationTxMaxAttempts_def)
  ultimately have "waits = map (\<lambda>j. clearDeviationTxBaseBackoff * 2 ^ j) [0..<2]"
    using retryClearDeviationTx_bounded [OF _ run] by simp
  then show ?thesis using run by (simp add: clearDeviationTxBaseBackoff_def upt_rec)
qed

text \<open>
  The duplicated classification of data-server errors agrees with the one of the target
  manager, and one attempt confirms a transaction only after the data-server accepted the very
  same transaction without error; it never cancels.
\<close>

theorem executeClearDeviationTxOnce_protocol:
  "isRecoverableClearDeviationTxError e = isRecoverableTransactionError e
   \<and> snd (snd (executeClearDeviationTxOnce (\<lambda>wc. (fst (dial (fst wc)), (snd (dial (fst wc)), snd wc)))
        (trace_ds d) q (w, [])))
     = (if fst (dial w) \<noteq> None then []
        else if snd (fst (d_TransactionSet d q (snd (dial w)))) \<noteq> None then [CSet q]
        else [CSet q, CConfirm (tq_datastoreName q) (tq_transactionId q)])"
  by (auto simp: isRecoverableClearDeviationTxError_def isRecoverableTransactionError_def
      executeClearDeviationTxOnce_def tcall_def split: option.splits prod.splits)

section \<open>The status\<close>

lemma responded_results_eq:
  "responded_results m is resp res
     = (fold (\<lambda>(k, i). gm_put (case map_of m k of Some n \<Rightarrow> n | None \<Rightarrow> k) True) is resp,
        res @ map (\<lambda>(k, i). \<lparr>res_name = (case map_of m k of Some n \<Rightarrow> n | None \<Rightarrow> k),
           res_success = (length (ri_errors i) = 0), res_message = [],
           res_errors = ri_errors i, res_warnings = []\<rparr>) is)"
  by (induction m "is" resp res rule: responded_results.induct) (auto simp: Let_def)

lemma fold_put_True:
  "gm_index False (fold (\<lambda>(k, i). gm_put (f k) True) is m) n
     \<longleftrightarrow> n \<in> (\<lambda>x. f (fst x)) ` set is \<or> gm_index False m n"
proof (induction "is" arbitrary: m)
  case (Cons a "is")
  have "gm_index False (gm_put (f (fst a)) True m) n \<longleftrightarrow> n = f (fst a) \<or> gm_index False m n"
    by (simp add: gm_index_def)
  with Cons show ?case by (auto simp: split_beta)
qed simp

lemma inherited_results_eq:
  "inherited_results resp ok cs
     = map (\<lambda>c. \<lparr>res_name = cd_name c, res_success = ok, res_message = [], res_errors = [],
          res_warnings = []\<rparr>) (filter (\<lambda>c. \<not> gm_index False resp (cd_name c)) cs)"
  by (induction cs) auto

text \<open>
  Every entry of the request is reported. Without a response each entry is a failure that
  carries the error. With one, the answers of the data-server come first, one per answered
  intent and successful just when the intent has no errors, then one result per entry whose name
  is not among the answered names, with the outcome of the whole transaction.
\<close>

theorem buildClearDeviationStatus_reports:
  "(let s = buildClearDeviationStatus entries cfgs rsp err;
        name = (\<lambda>k. case map_of (intent_to_name [] cfgs) k of Some n \<Rightarrow> n | None \<Rightarrow> k) in
    set (map cd_name entries) \<subseteq> set (map res_name (cds_results s))
    \<and> (case rsp of
         None \<Rightarrow> map (\<lambda>x. (res_name x, res_success x, res_errors x)) (cds_results s)
             = map (\<lambda>e. (cd_name e, False, [err_text err])) entries
       | Some r \<Rightarrow>
           map (\<lambda>x. (res_name x, res_success x)) (cds_results s)
             = map (\<lambda>(k, i). (name k, ri_errors i = [])) (tr_intents r)
               @ map (\<lambda>e. (cd_name e, err = None))
                   (filter (\<lambda>e. cd_name e \<notin> name ` set (gm_keys (tr_intents r))) entries)))"
proof (cases rsp)
  case None
  then show ?thesis
    by (cases err) (auto simp: buildClearDeviationStatus_def cd_failure_def err_text_def o_def
        Let_def image_image)
next
  case (Some r)
  let ?name = "\<lambda>k. case map_of (intent_to_name [] cfgs) k of Some n \<Rightarrow> n | None \<Rightarrow> k"
  have flt: "gm_index False (fold (\<lambda>(k, i). gm_put (?name k) True) (tr_intents r) []) n
      \<longleftrightarrow> n \<in> ?name ` set (gm_keys (tr_intents r))" for n
    by (simp add: fold_put_True image_image) (simp add: gm_index_def)
  have res: "cds_results (buildClearDeviationStatus entries cfgs rsp err)
     = map (\<lambda>(k, i). \<lparr>res_name = ?name k, res_success = (length (ri_errors i) = 0), res_message = [],
           res_errors = ri_errors i, res_warnings = []\<rparr>) (tr_intents r)
       @ map (\<lambda>c. \<lparr>res_name = cd_name c, res_success = (err = None), res_message = [], res_errors = [],
          res_warnings = []\<rparr>) (filter (\<lambda>c. cd_name c \<notin> ?name ` set (gm_keys (tr_intents r))) entries)"
    using Some by (simp add: buildClearDeviationStatus_def responded_results_eq inherited_results_eq flt Let_def
        split: prod.splits)
  show ?thesis unfolding Let_def res using Some
    by (auto simp: o_def split_beta image_iff)
qed

text \<open>
  An entry that names a config by the name of its Deviation is reported twice when the
  data-server answers its intent: under the config's name with the intent's own errors, and once
  more under the name given, as a success, since only the config's name counts as answered.
\<close>

theorem clear_by_deviation_name_contradictory:
  "(let x = a # as; n = DeviationName DeviationType_CONFIG x; cfgs = [(x, cfg)];
        rsp = \<lparr>tr_intents = [(GetGVKNSN (c_meta cfg), \<lparr>ri_errors = [e], ri_warnings = ws\<rparr>)], tr_warnings = []\<rparr>
    in resolveClearDeviationConfig n cfgs t = Inr cfg
     \<and> map (\<lambda>r. (res_name r, res_success r, res_errors r))
        (cds_results (buildClearDeviationStatus [\<lparr>cd_name = n, cd_paths = ps\<rparr>] cfgs (Some rsp) None))
      = [(x, False, [e]), (n, True, [])])"
proof -
  let ?n = "DeviationName DeviationType_CONFIG (a # as)"
  have ne: "?n \<noteq> a # as"
  proof
    assume "?n = a # as"
    then have "length ?n = length (a # as)" by simp
    then show False by (simp add: DeviationName_def DeviationType_CONFIG_def)
  qed
  have "ParseDeviationName ?n = (DeviationType_CONFIG, a # as, True)"
    using ParseDeviationName_iff by blast
  then show ?thesis using ne
    by (auto simp: resolveClearDeviationConfig_def buildClearDeviationStatus_def gm_index_def
        DeviationType_CONFIG_def DeviationType_TARGET_def Let_def)
qed

end
