(* ===== verification/Effects.thy ===== *)
theory Effects
  imports Services
begin

text \<open>
  Sequencing of fallible calls, and what a sequence of calls does to a component \<open>'x\<close> carried
  beside the world: \<open>moves R f\<close> says that \<open>f\<close> relates the component before and after by \<open>R\<close>. The
  locale proves once, for any preorder \<open>R\<close>, that the ways the code composes calls keep this. It is
  interpreted twice: with the call log of the tracing clients (which calls are made), and with
  equality (a component no call touches).
\<close>

section \<open>Sequencing\<close>

definition then_err :: "('w \<Rightarrow> goerr option \<times> 'w) \<Rightarrow> ('w \<Rightarrow> goerr option \<times> 'w) \<Rightarrow> 'w \<Rightarrow> goerr option \<times> 'w" where
  \<comment> \<open>\<open>if err := f(); err != nil { return err }\<close>, then \<open>g\<close>\<close>
  "then_err f g w = (case f w of (Some e, w') \<Rightarrow> (Some e, w') | (None, w') \<Rightarrow> g w')"

fun for_err :: "('a \<Rightarrow> 'w \<Rightarrow> goerr option \<times> 'w) \<Rightarrow> 'a list \<Rightarrow> 'w \<Rightarrow> goerr option \<times> 'w" where
  \<comment> \<open>a loop whose body returns from the function at its first error\<close>
  "for_err f [] w = (None, w)"
| "for_err f (x # xs) w = then_err (f x) (for_err f xs) w"

section \<open>Effects\<close>

definition moves :: "('x \<Rightarrow> 'x \<Rightarrow> bool) \<Rightarrow> ('w \<times> 'x \<Rightarrow> 'r \<times> 'w \<times> 'x) \<Rightarrow> bool" where
  "moves R f \<longleftrightarrow> (\<forall>w x r w' x'. f (w, x) = (r, (w', x')) \<longrightarrow> R x x')"

lemma movesD: "moves R f \<Longrightarrow> f (w, x) = (r, (w', x')) \<Longrightarrow> R x x'"
  by (simp add: moves_def)

locale effects =
  fixes R :: "'x \<Rightarrow> 'x \<Rightarrow> bool"
  assumes refl: "R x x"
    and trans: "R x y \<Longrightarrow> R y z \<Longrightarrow> R x z"
begin

lemma ret: "moves R (\<lambda>w. (a, w))"
  by (simp add: moves_def refl)

lemma bind:
  assumes f: "moves R f" and g: "\<And>r. moves R (g r)"
  shows "moves R (\<lambda>w. case f w of (r, w') \<Rightarrow> g r w')"
  unfolding moves_def
proof (intro allI impI)
  fix w x r w' x'
  assume run: "(case f (w, x) of (r, y) \<Rightarrow> g r y) = (r, (w', x'))"
  obtain r1 w1 x1 where s1: "f (w, x) = (r1, (w1, x1))" by (metis prod_cases3)
  with run have "g r1 (w1, x1) = (r, (w', x'))" by simp
  with movesD [OF f s1] movesD [OF g] trans show "R x x'" by blast
qed

lemma sums:
  assumes "moves R f" "\<And>e. moves R (g e)" "\<And>a. moves R (h a)"
  shows "moves R (\<lambda>w. case f w of (Inl e, w1) \<Rightarrow> g e w1 | (Inr a, w1) \<Rightarrow> h a w1)"
proof -
  have "moves R (\<lambda>w. case f w of (r, w') \<Rightarrow> (case r of Inl e \<Rightarrow> g e | Inr a \<Rightarrow> h a) w')"
    using assms by (intro bind) (auto split: sum.splits)
  then show ?thesis by (rule back_subst [of "moves R"]) (auto split: prod.splits sum.splits)
qed

lemma opts:
  assumes "moves R f" "\<And>e. moves R (g e)" "moves R h"
  shows "moves R (\<lambda>w. case f w of (None, w1) \<Rightarrow> h w1 | (Some e, w1) \<Rightarrow> g e w1)"
proof -
  have "moves R (\<lambda>w. case f w of (r, w') \<Rightarrow> (case r of None \<Rightarrow> h | Some e \<Rightarrow> g e) w')"
    using assms by (intro bind) (auto split: option.splits)
  then show ?thesis by (rule back_subst [of "moves R"]) (auto split: prod.splits option.splits)
qed

lemma thens: "moves R f \<Longrightarrow> moves R g \<Longrightarrow> moves R (then_err f g)"
  unfolding then_err_def [abs_def] by (rule opts) (auto intro: ret)

lemma loops: "(\<And>x. x \<in> set xs \<Longrightarrow> moves R (f x)) \<Longrightarrow> moves R (for_err f xs)"
proof (induction xs)
  case Nil
  then show ?case by (simp add: moves_def refl)
next
  case (Cons x xs)
  then have "moves R (then_err (f x) (for_err f xs))" by (intro thens) auto
  then show ?case by (simp add: moves_def)
qed

lemma ifs: "moves R f \<Longrightarrow> moves R g \<Longrightarrow> moves R (\<lambda>w. if b then f w else g w)"
  by (cases b) simp_all

end

section \<open>Calls made\<close>

definition extends :: "('c \<Rightarrow> bool) \<Rightarrow> 'c list \<Rightarrow> 'c list \<Rightarrow> bool" where
  "extends P cs cs' \<longleftrightarrow> (\<exists>new. cs' = cs @ new \<and> (\<forall>c \<in> set new. P c))"

abbreviation emits :: "('c \<Rightarrow> bool) \<Rightarrow> ('w \<times> 'c list \<Rightarrow> 'r \<times> 'w \<times> 'c list) \<Rightarrow> bool" where
  "emits P \<equiv> moves (extends P)"

interpretation log: effects "extends P" for P :: "'c \<Rightarrow> bool"
proof unfold_locales
  show "extends P cs cs" for cs :: "'c list" by (simp add: extends_def)
  show "extends P cs ds \<Longrightarrow> extends P ds es \<Longrightarrow> extends P cs es" for cs ds es :: "'c list"
    by (auto simp: extends_def)
qed

lemma emits_tcall: "P c \<Longrightarrow> emits P (tcall c f)"
  by (auto simp: moves_def extends_def tcall_def split: prod.splits)

lemma emitsD:
  "emits P f \<Longrightarrow> f (w, cs) = (r, (w', cs')) \<Longrightarrow> \<exists>new. cs' = cs @ new \<and> (\<forall>c \<in> set new. P c)"
  by (drule (1) movesD) (simp add: extends_def)

lemmas emits_intros = emits_tcall log.ret

section \<open>Components no call touches\<close>

definition lcall :: "('w \<Rightarrow> 'r \<times> 'w) \<Rightarrow> 'w \<times> 'x \<Rightarrow> 'r \<times> 'w \<times> 'x" where
  "lcall f wx = (let (r, w') = f (fst wx) in (r, (w', snd wx)))"

definition lift_ds :: "('p, 'w) dsclient \<Rightarrow> ('p, 'w \<times> 'x) dsclient" where
  "lift_ds d = \<lparr>
     d_GetDataStore = (\<lambda>n. lcall (d_GetDataStore d n)),
     d_CreateDataStore = (\<lambda>q. lcall (d_CreateDataStore d q)),
     d_DeleteDataStore = (\<lambda>n. lcall (d_DeleteDataStore d n)),
     d_TransactionSet = (\<lambda>q. lcall (d_TransactionSet d q)),
     d_TransactionConfirm = (\<lambda>n i. lcall (d_TransactionConfirm d n i)),
     d_TransactionCancel = (\<lambda>n i. lcall (d_TransactionCancel d n i))\<rparr>"

definition lift_k8s :: "'w k8s \<Rightarrow> ('w \<times> 'x) k8s" where
  "lift_k8s k = \<lparr>
     k_GetConfig = (\<lambda>ns n. lcall (k_GetConfig k ns n)),
     k_ListConfigs = (\<lambda>ns l. lcall (k_ListConfigs k ns l)),
     k_PatchConfig = (\<lambda>a b fm. lcall (k_PatchConfig k a b fm)),
     k_ApplyConfigStatus = (\<lambda>ns n a fm. lcall (k_ApplyConfigStatus k ns n a fm)),
     k_GetDeviation = (\<lambda>ns n. lcall (k_GetDeviation k ns n)),
     k_CreateDeviation = (\<lambda>dv. lcall (k_CreateDeviation k dv)),
     k_DeleteDeviation = (\<lambda>ns n. lcall (k_DeleteDeviation k ns n)),
     k_ApplyDeviation = (\<lambda>a fm f. lcall (k_ApplyDeviation k a fm f)),
     k_GetTarget = (\<lambda>ns n. lcall (k_GetTarget k ns n))\<rparr>"

interpretation frame: effects "(=)"
  by unfold_locales simp_all

lemma frame_lcall: "moves (=) (lcall f)"
  by (auto simp: moves_def lcall_def split: prod.splits)

lemma lift_sel [simp]:
  "d_TransactionSet (lift_ds d) tq = lcall (d_TransactionSet d tq)"
  "d_TransactionConfirm (lift_ds d) n i = lcall (d_TransactionConfirm d n i)"
  "k_ListConfigs (lift_k8s k) ns l = lcall (k_ListConfigs k ns l)"
  "k_ApplyConfigStatus (lift_k8s k) ns n sa fm = lcall (k_ApplyConfigStatus k ns n sa fm)"
  by (simp_all add: lift_ds_def lift_k8s_def)

end
