(* ===== verification/Transactor.thy ===== *)
theory Transactor
  imports ClearDeviation Effects
begin

text \<open>
  The transactor of \<open>pkg/sdc/target/manager\<close> (\<open>transactor.go\<close>, \<open>utils.go\<close>, \<open>dryrun.go\<close>) and the
  dry-run handlers of \<open>apis/config/handlers\<close>: which configs of a target go into a transaction,
  the intents sent, the handling of the answer and the single writer of the Config status.
  The hash of a config spec, the clock and the fresh transaction id are arguments. Converting a
  Config between the internal and the versioned API cannot fail (generated, field by field), so
  the error branches of the conversions are left out.
\<close>

section \<open>Data-server answers (utils.go)\<close>

fun intent_error_loop :: "string \<Rightarrow> string list \<Rightarrow> goerr option \<Rightarrow> goerr option" where
  "intent_error_loop key [] errs = errs"
| "intent_error_loop key (e # es) errs =
     intent_error_loop key es
       (err_join errs (Some (err_new (''intent '' @ go_quote key @ '' error: '' @ go_quote e))))"

fun response_intents :: "tx_rintent gomap \<Rightarrow> goerr option \<Rightarrow> string list \<Rightarrow> goerr option \<times> string list" where
  "response_intents [] errs warns = (errs, warns)"
| "response_intents ((key, intent) # is) errs warns =
     response_intents is (intent_error_loop key (ri_errors intent) errs)
       (warns @ map (\<lambda>w. ''intent '' @ go_quote key @ '' warning: '' @ go_quote w) (ri_warnings intent))"

definition processTransactionResponse ::
  "tx_response option \<Rightarrow> goerr option \<Rightarrow> string \<times> goerr option" where
  "processTransactionResponse rsp rsperr =
     (let (errs, recoverable) = (case rsperr of
            None \<Rightarrow> (None, False)
          | Some e \<Rightarrow> (err_join None (Some (err_new (''error: '' @ e_msg e))),
                      isRecoverableTransactionError rsperr));
          (errs, collectedWarnings) = (case rsp of
            None \<Rightarrow> (errs, [])
          | Some r \<Rightarrow> response_intents (tr_intents r) errs
              (map (\<lambda>w. ''global warning: '' @ go_quote w) (tr_warnings r)));
          err = (case errs of None \<Rightarrow> None | Some e \<Rightarrow> Some (NewTransactionError e recoverable));
          msg = (if length collectedWarnings > 0 then join_sep ''; '' collectedWarnings else [])
      in (msg, err))"

section \<open>Datastore handles and listing\<close>

record ds_handle =
  h_key :: string
  h_datastoreName :: string
  h_schema :: "schema_ref option"

definition transactor_finalizer :: string where
  "transactor_finalizer = ''config.config.sdcio.dev/finalizer''"

definition ListConfigsPerTarget :: "'w k8s \<Rightarrow> target \<Rightarrow> 'w \<Rightarrow> (goerr + config list) \<times> 'w" where
  "ListConfigsPerTarget k tg w =
     k_ListConfigs k (m_namespace (t_meta tg))
       [(TargetNamespaceKey, m_namespace (t_meta tg)), (TargetNameKey, m_name (t_meta tg))] w"

definition ListConfigsByTarget ::
  "'w k8s \<Rightarrow> string \<Rightarrow> string \<Rightarrow> string \<Rightarrow> 'w \<Rightarrow> (goerr + config gomap) \<times> 'w" where
  \<comment> \<open>\<open>apis/config/handlers/targethandler.go\<close>\<close>
  "ListConfigsByTarget k targetNamespace targetName lookupNamespace w =
     (case k_ListConfigs k lookupNamespace
             [(TargetNamespaceKey, targetNamespace), (TargetNameKey, targetName)] w of
        (Inl e, w') \<Rightarrow> (Inl e, w')
      | (Inr items, w') \<Rightarrow> (Inr (fold (\<lambda>cfg. gm_put (c_name cfg) cfg) items []), w'))"

section \<open>The status writer\<close>

definition keepTransitionTime :: "condition \<Rightarrow> condition \<Rightarrow> condition" where
  "keepTransitionTime newCond oldCond =
     (if cStatus oldCond = cStatus newCond \<and> cLastTransitionTime oldCond \<noteq> 0
      then newCond\<lparr>cLastTransitionTime := cLastTransitionTime oldCond\<rparr> else newCond)"

fun owned_conditions ::
  "string list \<Rightarrow> condition list \<Rightarrow> condition list \<Rightarrow> bool \<Rightarrow> bool \<times> condition list" where
  \<comment> \<open>the loop over the owned types: (changed, conditions to send)\<close>
  "owned_conditions [] current desired changed = (changed, [])"
| "owned_conditions (t # ts) current desired changed =
     (if \<not> HasCondition desired t then owned_conditions ts current desired changed
      else let newCond = GetCondition desired t; oldCond = GetCondition current t;
               changed = (if \<not> HasCondition current t \<or> \<not> cond_Equal newCond oldCond then True
                          else changed);
               (changed', conds) = owned_conditions ts current desired changed
        in (changed', keepTransitionTime newCond oldCond # conds))"

definition applyStatus :: "'w k8s \<Rightarrow> string \<Rightarrow> config \<Rightarrow> config \<Rightarrow> 'w \<Rightarrow> goerr option \<times> 'w" where
  "applyStatus k fieldManager current desired w =
     (let cs = c_status current; ds = c_status desired;
          changed = (st_lastKnownGoodSchema ds \<noteq> st_lastKnownGoodSchema cs
            \<or> st_appliedConfig ds \<noteq> st_appliedConfig cs
            \<or> st_deviationGeneration ds \<noteq> st_deviationGeneration cs);
          changed = (changed \<or> (\<exists>t \<in> set LegacyConfigConditionTypes. HasCondition (st_conditions cs) t));
          (changed, conds) = owned_conditions [ConditionTypeReady, ConditionTypeConfigReady]
             (st_conditions cs) (st_conditions ds) changed
      in if \<not> changed then (None, w)
         else k_ApplyConfigStatus k (c_namespace desired) (c_name desired)
           \<lparr>sa_conditions = conds, sa_lastKnownGoodSchema = st_lastKnownGoodSchema ds,
            sa_appliedConfig = st_appliedConfig ds,
            sa_deviationGeneration = st_deviationGeneration ds\<rparr> fieldManager w)"

definition set_config_conditions :: "condition list \<Rightarrow> config \<Rightarrow> config" where
  \<comment> \<open>\<open>SetConditions\<close> on a Config\<close>
  "set_config_conditions cs r =
     r\<lparr>c_status := (c_status r)\<lparr>st_conditions := SetConditions (c_conditions r) cs\<rparr>\<rparr>"

definition with_devgen :: "int option \<Rightarrow> config \<Rightarrow> config" where
  "with_devgen g r = r\<lparr>c_status := (c_status r)\<lparr>st_deviationGeneration := g\<rparr>\<rparr>"

definition desired_after_error :: "nat \<Rightarrow> config \<Rightarrow> config \<Rightarrow> string \<Rightarrow> bool \<Rightarrow> config" where
  \<comment> \<open>the object \<open>updateConfigWithError\<close> builds from the one it read\<close>
  "desired_after_error now current cfg msg recoverable =
     (let desired = with_devgen None current;
          desired = (if recoverable
            then set_config_conditions [ConfigFailed now (m_generation (c_meta cfg)) msg] desired
            else with_devgen (Some 0)
              (set_config_conditions [ConfigFailedUnrecoverable now (m_generation (c_meta cfg)) msg] desired))
      in set_config_conditions [ReadyFromApplied now desired] desired)"

definition updateConfigWithError ::
  "'w k8s \<Rightarrow> string \<Rightarrow> nat \<Rightarrow> config \<Rightarrow> string \<Rightarrow> goerr option \<Rightarrow> bool \<Rightarrow> 'w \<Rightarrow> goerr option \<times> 'w" where
  "updateConfigWithError k fm now cfg msg err recoverable w =
     (let msg = (case err of None \<Rightarrow> msg | Some e \<Rightarrow> msg @ '' err '' @ e_msg e) in
      case k_GetConfig k (c_namespace cfg) (c_name cfg) w of
        (Inl e, w1) \<Rightarrow> (Some e, w1)
      | (Inr current, w1) \<Rightarrow>
          (if c_deleting current then (None, w1)
           else applyStatus k fm current (desired_after_error now current cfg msg recoverable) w1))"

definition desired_after_success ::
  "nat \<Rightarrow> config \<Rightarrow> config \<Rightarrow> schema_ref option \<Rightarrow> string \<Rightarrow> config" where
  "desired_after_success now current cfg schema msg =
     (let desired = set_config_conditions [ConfigReady now (m_generation (c_meta cfg)) msg] current;
          desired = set_config_conditions [ReadyFromApplied now desired] desired
      in desired\<lparr>c_status := (c_status desired)\<lparr>st_lastKnownGoodSchema := schema,
           st_appliedConfig := Some (c_spec cfg), st_deviationGeneration := None\<rparr>\<rparr>)"

definition updateConfigWithSuccess ::
  "'w k8s \<Rightarrow> string \<Rightarrow> nat \<Rightarrow> config \<Rightarrow> schema_ref option \<Rightarrow> string \<Rightarrow> 'w \<Rightarrow> goerr option \<times> 'w" where
  "updateConfigWithSuccess k fm now cfg schema msg w =
     (case k_GetConfig k (c_namespace cfg) (c_name cfg) w of
        (Inl e, w1) \<Rightarrow> (Some e, w1)
      | (Inr current, w1) \<Rightarrow>
          (if c_deleting current then (None, w1)
           else applyStatus k fm current (desired_after_success now current cfg schema msg) w1))"

section \<open>Metadata\<close>

definition with_finalizers :: "string list \<Rightarrow> config \<Rightarrow> config" where
  "with_finalizers fs r = r\<lparr>c_meta := (c_meta r)\<lparr>m_finalizers := fs\<rparr>\<rparr>"

definition patchMetadata ::
  "'w k8s \<Rightarrow> string \<Rightarrow> (config \<Rightarrow> config) \<Rightarrow> config \<Rightarrow> 'w \<Rightarrow> (goerr + config) \<times> 'w" where
  \<comment> \<open>\<open>Patch\<close> decodes the server's answer into the object: the patched object is the result\<close>
  "patchMetadata k fm mutate obj w = k_PatchConfig k obj (mutate obj) fm w"

definition applyFinalizer :: "'w k8s \<Rightarrow> string \<Rightarrow> config \<Rightarrow> 'w \<Rightarrow> (goerr + config) \<times> 'w" where
  "applyFinalizer k fm cfg w = patchMetadata k fm (with_finalizers [transactor_finalizer]) cfg w"

definition deleteFinalizer :: "'w k8s \<Rightarrow> string \<Rightarrow> config \<Rightarrow> 'w \<Rightarrow> (goerr + config) \<times> 'w" where
  "deleteFinalizer k fm cfg w = patchMetadata k fm (with_finalizers []) cfg w"

definition transactor_deleteDeviation :: "'w k8s \<Rightarrow> config \<Rightarrow> 'w \<Rightarrow> goerr option \<times> 'w" where
  "transactor_deleteDeviation k cfg w =
     (case k_DeleteDeviation k (c_namespace cfg) (c_name cfg) w of
        (Some err, w1) \<Rightarrow> (if IgnoreNotFound (Some err) \<noteq> None then (Some err, w1) else (None, w1))
      | (None, w1) \<Rightarrow> (None, w1))"

definition config_deviation_of :: "config \<Rightarrow> deviation" where
  "config_deviation_of cfg = \<lparr>d_meta = empty_meta
       \<lparr>m_name := DeviationName DeviationType_CONFIG (c_name cfg), m_namespace := c_namespace cfg,
        m_ownerReferences := [GetOwnerReference cfg], m_labels := m_labels (c_meta cfg)\<rparr>,
     d_deviationType = Some DeviationType_CONFIG, d_deviations = []\<rparr>"

definition transactor_applyDeviation :: "'w k8s \<Rightarrow> config \<Rightarrow> 'w \<Rightarrow> (goerr + deviation) \<times> 'w" where
  "transactor_applyDeviation k cfg w =
     (case k_GetDeviation k (c_namespace cfg) (DeviationName DeviationType_CONFIG (c_name cfg)) w of
        (Inr dv, w1) \<Rightarrow> (Inr dv, w1)
      | (Inl err, w1) \<Rightarrow>
          (if IgnoreNotFound (Some err) \<noteq> None then (Inl err, w1)
           else case k_CreateDeviation k (config_deviation_of cfg) w1 of
               (Some e, w2) \<Rightarrow> (Inl e, w2)
             | (None, w2) \<Rightarrow> (Inr (config_deviation_of cfg), w2)))"

section \<open>Classification\<close>

record tx_classes =
  tc_update :: "config gomap"
  tc_delete :: "config gomap"
  tc_nonRecoverable :: "config gomap"
  tc_noChange :: "config gomap"

definition classify_config :: "(config_spec \<Rightarrow> 'h) \<Rightarrow> config \<Rightarrow> tx_classes \<Rightarrow> tx_classes" where
  "classify_config sha cfg c =
     (let key = GetGVKNSN (c_meta cfg) in
      if \<not> IsRecoverable cfg then c\<lparr>tc_nonRecoverable := gm_put key cfg (tc_nonRecoverable c)\<rparr>
      else if c_deleting cfg then c\<lparr>tc_delete := gm_put key cfg (tc_delete c)\<rparr>
      else if \<not> IsConfigConditionReady cfg then c\<lparr>tc_update := gm_put key cfg (tc_update c)\<rparr>
      else if (case st_appliedConfig (c_status cfg) of None \<Rightarrow> False
               | Some applied \<Rightarrow> sha (c_spec cfg) = sha applied)
      then c\<lparr>tc_noChange := gm_put key cfg (tc_noChange c)\<rparr>
      else c\<lparr>tc_update := gm_put key cfg (tc_update c)\<rparr>)"

fun add_back :: "config gomap \<Rightarrow> config gomap \<times> config gomap \<Rightarrow> config gomap \<times> config gomap" where
  "add_back [] ud = ud"
| "add_back ((key, cfg) # m) (u, d) =
     (if c_deleting cfg then add_back m (u, gm_put key cfg d) else add_back m (gm_put key cfg u, d))"

definition getConfigsToTransact ::
  "(config_spec \<Rightarrow> 'h) \<Rightarrow> config list \<Rightarrow> config gomap \<times> config gomap" where
  "getConfigsToTransact sha items =
     (let c = fold (classify_config sha) items
          \<lparr>tc_update = [], tc_delete = [], tc_nonRecoverable = [], tc_noChange = []\<rparr> in
      if length (tc_update c) > 0 \<or> length (tc_delete c) > 0
      then add_back (tc_noChange c) (add_back (tc_nonRecoverable c) (tc_update c, tc_delete c))
      else (tc_update c, tc_delete c))"

section \<open>The transaction\<close>

fun update_intents ::
  "(string \<Rightarrow> goerr + 'p) \<Rightarrow> string option \<Rightarrow> config gomap \<Rightarrow> goerr + 'p tx_intent list" where
  "update_intents parse env [] = Inr []"
| "update_intents parse env ((key, cfg) # m) =
     (case GetIntentUpdate parse cfg True of
        Inl e \<Rightarrow> Inl e
      | Inr update \<Rightarrow> (case update_intents parse env m of
          Inl e \<Rightarrow> Inl e
        | Inr is \<Rightarrow> Inr (empty_intent\<lparr>ti_intent := GetGVKNSN (c_meta cfg),
             ti_priority := s_priority (c_spec cfg), ti_update := update,
             ti_nonRevertive := \<not> IsRevertive env (c_spec cfg)\<rparr> # is)))"

definition delete_intent :: "config \<Rightarrow> 'p tx_intent" where
  "delete_intent cfg = empty_intent\<lparr>ti_intent := GetGVKNSN (c_meta cfg), ti_delete := True,
     ti_deleteIgnoreNoExist := True, ti_orphan := Orphan (c_spec cfg)\<rparr>"

definition setIntents ::
  "(string \<Rightarrow> goerr + 'p) \<Rightarrow> string option \<Rightarrow> ('p, 'w) dsclient \<Rightarrow> string \<Rightarrow> string
     \<Rightarrow> config gomap \<Rightarrow> config gomap \<Rightarrow> bool \<Rightarrow> 'w \<Rightarrow> (tx_response option \<times> goerr option) \<times> 'w" where
  "setIntents parse env d targetKey transactionID configsToUpdate configsToDelete dryRun w =
     (case update_intents parse env configsToUpdate of
        Inl err \<Rightarrow> ((None, Some err), w)
      | Inr intents \<Rightarrow>
          d_TransactionSet d \<lparr>tq_transactionId = transactionID, tq_datastoreName = targetKey,
            tq_dryRun = dryRun, tq_timeout = Some 60,
            tq_intents = intents @ map (\<lambda>(key, cfg). delete_intent cfg) configsToDelete\<rparr> w)"

record tx_outcome =
  to_globalError :: "goerr option"
  to_intentErrors :: "goerr option"
  to_globalWarnings :: "string list"
  to_recoverable :: bool

fun analyze_intents :: "string list \<Rightarrow> tx_outcome \<Rightarrow> tx_outcome" where
  \<comment> \<open>over the errors of all intents of the response\<close>
  "analyze_intents [] result = result"
| "analyze_intents (e # es) result =
     analyze_intents es (result\<lparr>to_intentErrors := err_join (to_intentErrors result) (Some (err_new e)),
       to_recoverable := False\<rparr>)"

definition analyzeIntentResponse :: "goerr option \<Rightarrow> tx_response option \<Rightarrow> tx_outcome" where
  "analyzeIntentResponse err rsp =
     (let result = \<lparr>to_globalError = None, to_intentErrors = None, to_globalWarnings = [],
            to_recoverable = False\<rparr>;
          result = (case err of None \<Rightarrow> result
            | Some e \<Rightarrow> result\<lparr>to_globalError := Some (err_wrap ''transaction error'' e),
                to_recoverable := isRecoverableTransactionError err\<rparr>)
      in case rsp of None \<Rightarrow> result
         | Some r \<Rightarrow> fold (\<lambda>(k, i). analyze_intents (ri_errors i)) (tr_intents r)
             (result\<lparr>to_globalWarnings := tr_warnings r\<rparr>))"

definition collectWarnings :: "string list \<Rightarrow> string list" where
  "collectWarnings errorsOrMsgs = map (\<lambda>e. ''warning: '' @ go_quote e) errorsOrMsgs"

definition processFailedConfig ::
  "'w k8s \<Rightarrow> string \<Rightarrow> nat \<Rightarrow> config \<Rightarrow> string \<Rightarrow> goerr option \<Rightarrow> bool \<Rightarrow> 'w \<Rightarrow> goerr option \<times> 'w" where
  "processFailedConfig k fm now cfg msg origErr recoverable w =
     (case applyFinalizer k fm cfg w of
        (Inl e, w1) \<Rightarrow> (Some e, w1)
      | (Inr patched, w1) \<Rightarrow> updateConfigWithError k fm now patched msg origErr recoverable w1)"

definition fail_all ::
  "'w k8s \<Rightarrow> string \<Rightarrow> nat \<Rightarrow> config gomap \<Rightarrow> goerr option \<Rightarrow> bool \<Rightarrow> 'w \<Rightarrow> goerr option \<times> 'w" where
  "fail_all k fm now m globalErr recoverable =
     for_err (\<lambda>(key, cfg). processFailedConfig k fm now cfg [] globalErr recoverable) m"

datatype loop_out = LReturn goerr | LDone | LBreak "goerr option"

fun failed_intents ::
  "'w k8s \<Rightarrow> string \<Rightarrow> nat \<Rightarrow> config gomap \<Rightarrow> config gomap \<Rightarrow> goerr option \<Rightarrow> tx_rintent gomap \<Rightarrow> 'w
     \<Rightarrow> loop_out \<times> 'w" where
  "failed_intents k fm now toTransact deleted globalErr [] w = (LDone, w)"
| "failed_intents k fm now toTransact deleted globalErr ((intentName, intent) # is) w =
     (let errs = fold (\<lambda>e acc. err_join acc (Some (err_new e))) (ri_errors intent) globalErr;
          warnings = collectWarnings (ri_errors intent);
          msg = (if length warnings > 0 then join_sep ''; '' warnings else []) in
      case map_of toTransact intentName of
        Some cfg \<Rightarrow> (case processFailedConfig k fm now cfg msg errs False w of
            (Some e, w1) \<Rightarrow> (LReturn e, w1)
          | (None, w1) \<Rightarrow> failed_intents k fm now toTransact deleted globalErr is w1)
      | None \<Rightarrow>
          (case map_of deleted intentName of
             Some cfg \<Rightarrow> (case processFailedConfig k fm now cfg msg errs False w of
                 (Some e, w1) \<Rightarrow> (LReturn e, w1)
               | (None, w1) \<Rightarrow> failed_intents k fm now toTransact deleted globalErr is w1)
           | None \<Rightarrow> (LBreak (err_join errs (Some (err_new
                (''dataserver reported an error in an intent '' @ intentName @ '' that does not exist'')))), w)))"

definition handleTransactionErrors ::
  "'w k8s \<Rightarrow> string \<Rightarrow> nat \<Rightarrow> tx_response option \<Rightarrow> config gomap \<Rightarrow> config gomap \<Rightarrow> goerr option \<Rightarrow> bool
     \<Rightarrow> 'w \<Rightarrow> (bool \<times> goerr option) \<times> 'w" where
  "handleTransactionErrors k fm now rsp toTransact deleted globalErr recoverable w =
     (case rsp of
        None \<Rightarrow>
          (case then_err (fail_all k fm now toTransact globalErr recoverable)
                  (fail_all k fm now deleted globalErr False) w of
             (Some e, w1) \<Rightarrow> ((True, Some e), w1)
           | (None, w1) \<Rightarrow> ((recoverable, globalErr), w1))
      | Some r \<Rightarrow>
          (case failed_intents k fm now toTransact deleted globalErr (tr_intents r) w of
             (LReturn e, w1) \<Rightarrow> ((True, Some e), w1)
           | (LDone, w1) \<Rightarrow> ((recoverable, globalErr), w1)
           | (LBreak globalErr', w1) \<Rightarrow>
               (case then_err (fail_all k fm now toTransact globalErr' False)
                       (fail_all k fm now deleted globalErr' False) w1 of
                  (Some e, w2) \<Rightarrow> ((True, Some e), w2)
                | (None, w2) \<Rightarrow> ((False, globalErr'), w2))))"

definition succeed_config ::
  "'w k8s \<Rightarrow> string \<Rightarrow> nat \<Rightarrow> schema_ref option \<Rightarrow> config \<Rightarrow> 'w \<Rightarrow> goerr option \<times> 'w" where
  \<comment> \<open>the loop body over the updated configs: the status is written for the transacted object\<close>
  "succeed_config k fm now schema cfg w =
     (case applyFinalizer k fm cfg w of
        (Inl e, w1) \<Rightarrow> (Some e, w1)
      | (Inr patched, w1) \<Rightarrow> updateConfigWithSuccess k fm now cfg schema [] w1)"

definition finish_delete :: "'w k8s \<Rightarrow> string \<Rightarrow> config \<Rightarrow> 'w \<Rightarrow> goerr option \<times> 'w" where
  "finish_delete k fm cfg w =
     (case deleteFinalizer k fm cfg w of
        (Inl e, w1) \<Rightarrow> (Some e, w1)
      | (Inr patched, w1) \<Rightarrow> transactor_deleteDeviation k patched w1)"

definition apply_deviations :: "'w k8s \<Rightarrow> config list \<Rightarrow> 'w \<Rightarrow> goerr option \<times> 'w" where
  "apply_deviations k =
     for_err (\<lambda>cfg w. case transactor_applyDeviation k cfg w of
        (Inl e, w1) \<Rightarrow> (Some e, w1) | (Inr dv, w1) \<Rightarrow> (None, w1))"

definition conclude ::
  "'w k8s \<Rightarrow> string \<Rightarrow> nat \<Rightarrow> ('p, 'w) dsclient \<Rightarrow> ds_handle \<Rightarrow> string \<Rightarrow> config gomap \<Rightarrow> config gomap
     \<Rightarrow> tx_response option \<Rightarrow> goerr option \<Rightarrow> 'w \<Rightarrow> (bool \<times> goerr option) \<times> 'w" where
  \<comment> \<open>the part of \<open>Transact\<close> that follows the answer to the transaction\<close>
  "conclude k fm now d dsctx uuid configsToUpdate configsToDelete rsp err w =
     (let result = analyzeIntentResponse err rsp in
      if to_globalError result \<noteq> None \<or> to_intentErrors result \<noteq> None
      then handleTransactionErrors k fm now rsp configsToUpdate configsToDelete
             (to_globalError result) (to_recoverable result) w
      else case d_TransactionConfirm d (h_datastoreName dsctx) uuid w of
          (Some e, w1) \<Rightarrow> ((True, Some e), w1)
        | (None, w1) \<Rightarrow>
            (case then_err
                (for_err (\<lambda>(key, cfg). succeed_config k fm now (h_schema dsctx) cfg) configsToUpdate)
                (for_err (\<lambda>(key, cfg). finish_delete k fm cfg) configsToDelete) w1 of
               (Some e, w2) \<Rightarrow> ((True, Some e), w2)
             | (None, w2) \<Rightarrow> ((False, None), w2)))"

definition Transact ::
  "(string \<Rightarrow> goerr + 'p) \<Rightarrow> string option \<Rightarrow> (config_spec \<Rightarrow> 'h) \<Rightarrow> (string \<times> string \<Rightarrow> string)
     \<Rightarrow> string \<Rightarrow> nat \<Rightarrow> 'w k8s \<Rightarrow> string \<Rightarrow> ('p, 'w) dsclient \<Rightarrow> target \<Rightarrow> ds_handle \<Rightarrow> 'w
     \<Rightarrow> (bool \<times> goerr option) \<times> 'w" where
  "Transact parse env sha keyString uuid now k fm d tg dsctx w =
     (case ListConfigsPerTarget k tg w of
        (Inl err, w1) \<Rightarrow> ((True, Some err), w1)
      | (Inr items, w1) \<Rightarrow>
     (case apply_deviations k items w1 of
        (Some err, w2) \<Rightarrow> ((True, Some err), w2)
      | (None, w2) \<Rightarrow>
     (let (configsToUpdate, configsToDelete) = getConfigsToTransact sha items in
      if length configsToUpdate = 0 \<and> length configsToDelete = 0 then ((False, None), w2)
      else let ((rsp, err), w3) = setIntents parse env d
                  (keyString (m_namespace (t_meta tg), m_name (t_meta tg))) uuid
                  configsToUpdate configsToDelete False w2 in
        conclude k fm now d dsctx uuid configsToUpdate configsToDelete rsp err w3)))"

section \<open>Recovery\<close>

definition TransactionSet ::
  "('p, 'w) dsclient \<Rightarrow> 'p tx_request \<Rightarrow> 'w \<Rightarrow> (string \<times> goerr option) \<times> 'w" where
  "TransactionSet d req w =
     (let ((rsp, err), w1) = d_TransactionSet d req w;
          (msg, err) = processTransactionResponse rsp err in
      if err \<noteq> None then ((msg, err), w1)
      else if tq_dryRun req then ((msg, None), w1)
      else case d_TransactionConfirm d (tq_datastoreName req) (tq_transactionId req) w1 of
          (Some e, w2) \<Rightarrow> ((msg, Some e), w2)
        | (None, w2) \<Rightarrow> ((msg, None), w2))"

fun recovery_intents ::
  "(string \<Rightarrow> goerr + 'p) \<Rightarrow> string option \<Rightarrow> config list \<Rightarrow> goerr + 'p tx_intent list" where
  "recovery_intents parse env [] = Inr []"
| "recovery_intents parse env (cfg # cs) =
     (case GetIntentUpdate parse cfg False of
        Inl e \<Rightarrow> Inl e
      | Inr update \<Rightarrow> (case recovery_intents parse env cs of
          Inl e \<Rightarrow> Inl e
        | Inr is \<Rightarrow> Inr (empty_intent\<lparr>ti_intent := GetGVKNSN (c_meta cfg),
             ti_priority := s_priority (c_spec cfg), ti_update := update,
             ti_nonRevertive := \<not> IsRevertive env (c_spec cfg), ti_previouslyApplied := True\<rparr> # is)))"

definition recoverIntents ::
  "(string \<Rightarrow> goerr + 'p) \<Rightarrow> string option \<Rightarrow> ('p, 'w) dsclient \<Rightarrow> string \<Rightarrow> config list \<Rightarrow> 'w
     \<Rightarrow> (string \<times> goerr option) \<times> 'w" where
  "recoverIntents parse env d key configs w =
     (if length configs = 0 then (([], None), w)
      else case recovery_intents parse env configs of
          Inl err \<Rightarrow> (([], Some err), w)
        | Inr intents \<Rightarrow> TransactionSet d \<lparr>tq_transactionId = ''recovery'', tq_datastoreName = key,
            tq_dryRun = False, tq_timeout = Some 120, tq_intents = intents\<rparr> w)"

definition updateConfigsForTarget ::
  "'w k8s \<Rightarrow> string \<Rightarrow> target \<Rightarrow> (config \<Rightarrow> config option) \<Rightarrow> 'w \<Rightarrow> goerr option \<times> 'w" where
  \<comment> \<open>\<open>mutate\<close> gives \<open>None\<close> where the code's callback returns false\<close>
  "updateConfigsForTarget k fm tg mutate w =
     (case ListConfigsPerTarget k tg w of
        (Inl err, w1) \<Rightarrow> (Some err, w1)
      | (Inr items, w1) \<Rightarrow>
          for_err (\<lambda>current w. case mutate (with_devgen None current) of
              None \<Rightarrow> (None, w)
            | Some desired \<Rightarrow> applyStatus k fm current desired w) items w1)"

definition SetConfigsNotReady :: "'w k8s \<Rightarrow> string \<Rightarrow> target \<Rightarrow> condition \<Rightarrow> 'w \<Rightarrow> goerr option \<times> 'w" where
  "SetConfigsNotReady k fm tg ready =
     updateConfigsForTarget k fm tg (\<lambda>cfg. Some (set_config_conditions [ready] cfg))"

definition SetConfigsReadyFromApplied :: "'w k8s \<Rightarrow> string \<Rightarrow> nat \<Rightarrow> target \<Rightarrow> 'w \<Rightarrow> goerr option \<times> 'w" where
  "SetConfigsReadyFromApplied k fm now tg =
     updateConfigsForTarget k fm tg (\<lambda>cfg. Some (set_config_conditions [ReadyFromApplied now cfg] cfg))"

definition setRecoveredConfigs ::
  "'w k8s \<Rightarrow> string \<Rightarrow> target \<Rightarrow> (config \<Rightarrow> condition) \<Rightarrow> 'w \<Rightarrow> goerr option \<times> 'w" where
  "setRecoveredConfigs k fm tg cond =
     updateConfigsForTarget k fm tg (\<lambda>cfg.
       if st_appliedConfig (c_status cfg) = None then None
       else Some (set_config_conditions [cond cfg] cfg))"

definition RecoverConfigs ::
  "(string \<Rightarrow> goerr + 'p) \<Rightarrow> string option \<Rightarrow> (string \<times> string \<Rightarrow> string) \<Rightarrow> nat \<Rightarrow> 'w k8s \<Rightarrow> string
     \<Rightarrow> ('p, 'w) dsclient \<Rightarrow> ('w \<Rightarrow> 'w) \<Rightarrow> target \<Rightarrow> 'w \<Rightarrow> (string option \<times> goerr option) \<times> 'w" where
  \<comment> \<open>\<open>markRecovered\<close> is the handle's callback applied to \<open>true\<close>\<close>
  "RecoverConfigs parse env keyString now k fm d markRecovered tg w =
     (case ListConfigsPerTarget k tg w of
        (Inl err, w1) \<Rightarrow> ((None, Some err), w1)
      | (Inr items, w1) \<Rightarrow>
          (let configs = filter (\<lambda>c. st_appliedConfig (c_status c) \<noteq> None) items;
               ((msg, err), w2) = recoverIntents parse env d
                 (keyString (m_namespace (t_meta tg), m_name (t_meta tg))) configs w1 in
           case err of
             Some e \<Rightarrow>
               (case setRecoveredConfigs k fm tg
                       (\<lambda>cfg. ConfigFailed now (m_generation (c_meta cfg)) msg) w2 of
                  (Some serr, w3) \<Rightarrow>
                    ((Some ''recovery failed, and failed to update config status'', Some serr), w3)
                | (None, w3) \<Rightarrow> ((Some msg, Some e), w3))
           | None \<Rightarrow>
               (case setRecoveredConfigs k fm tg
                       (\<lambda>cfg. ConfigReady now (m_generation (c_meta cfg)) ''target recovered'')
                       (markRecovered w2) of
                  (Some e, w3) \<Rightarrow>
                    ((Some ''recovered, but failed to update config status'', Some e), w3)
                | (None, w3) \<Rightarrow> ((None, None), w3))))"

section \<open>Dry runs (dryrun.go, confighandler.go)\<close>

datatype dry_out = DryPanic | DryErr "config option" goerr | DryOk config

definition RunDryRunTransaction ::
  "(string \<times> string \<Rightarrow> string) \<Rightarrow> nat \<Rightarrow> ('w \<Rightarrow> goerr option \<times> 'w) \<Rightarrow> ('p, 'w) dsclient
     \<Rightarrow> config \<Rightarrow> target \<Rightarrow> 'p tx_intent list \<Rightarrow> bool \<Rightarrow> 'w \<Rightarrow> dry_out \<times> 'w" where
  "RunDryRunTransaction keyString now dial d c tg intents dryrun w =
     (case dial w of
        (Some err, w1) \<Rightarrow> (DryErr None err, w1)
      | (None, w1) \<Rightarrow>
          (let ((rsp, rpcErr), w2) = d_TransactionSet d
                 \<lparr>tq_transactionId = GetGVKNSN (c_meta c),
                  tq_datastoreName = keyString (m_namespace (t_meta tg), m_name (t_meta tg)),
                  tq_dryRun = dryrun, tq_timeout = Some 60, tq_intents = intents\<rparr> w1;
               (warnings, aggErr) = processTransactionResponse rsp rpcErr in
           case aggErr of
             Some e \<Rightarrow> (DryErr (Some (set_config_conditions
                 [Failed now (warnings @ '' err '' @ e_msg e)] c)) e, w2)
           | None \<Rightarrow>
               (let c = set_config_conditions [ReadyWithMsg now warnings] c in
                case t_discoveryInfo tg of
                  None \<Rightarrow> (DryPanic, w2)
                | Some di \<Rightarrow> (DryOk (c\<lparr>c_status := (c_status c)
                    \<lparr>st_lastKnownGoodSchema := Some \<lparr>sch_type = [], sch_vendor = di_provider di,
                       sch_version = di_version di\<rparr>,
                     st_appliedConfig := Some (c_spec c)\<rparr>\<rparr>), w2))))"

definition prepareConfigAndTarget :: "'w k8s \<Rightarrow> config \<Rightarrow> 'w \<Rightarrow> (goerr + config \<times> target) \<times> 'w" where
  "prepareConfigAndTarget k c w =
     (case GetTargetKey (m_labels (c_meta c)) of
        Inl e \<Rightarrow> (Inl e, w)
      | Inr (ns, n) \<Rightarrow>
          (case k_GetTarget k ns n w of
             (Inl e, w1) \<Rightarrow> (Inl e, w1)
           | (Inr tg, w1) \<Rightarrow>
               (if \<not> Target_IsReady tg
                then (Inl (err_new (''target not ready '' @ ns @ ''/'' @ n)), w1)
                else (Inr (c, tg), w1))))"

definition DryRunCreateFn ::
  "(string \<Rightarrow> goerr + 'p) \<Rightarrow> (string \<times> string \<Rightarrow> string) \<Rightarrow> nat \<Rightarrow> 'w k8s \<Rightarrow> ('w \<Rightarrow> goerr option \<times> 'w)
     \<Rightarrow> ('p, 'w) dsclient \<Rightarrow> config \<Rightarrow> bool \<Rightarrow> 'w \<Rightarrow> dry_out \<times> 'w" where
  \<comment> \<open>\<open>DryRunUpdateFn\<close> has the same body\<close>
  "DryRunCreateFn parse keyString now k dial d obj dryrun w =
     (case prepareConfigAndTarget k obj w of
        (Inl err, w1) \<Rightarrow> (DryErr (Some obj) err, w1)
      | (Inr (c, tg), w1) \<Rightarrow>
          (case GetIntentUpdate parse c True of
             Inl err \<Rightarrow> (DryErr None err, w1)
           | Inr updates \<Rightarrow> RunDryRunTransaction keyString now dial d c tg
               [empty_intent\<lparr>ti_intent := GetGVKNSN (c_meta c), ti_priority := s_priority (c_spec c),
                  ti_update := updates\<rparr>] dryrun w1))"

definition DryRunUpdateFn ::
  "(string \<Rightarrow> goerr + 'p) \<Rightarrow> (string \<times> string \<Rightarrow> string) \<Rightarrow> nat \<Rightarrow> 'w k8s \<Rightarrow> ('w \<Rightarrow> goerr option \<times> 'w)
     \<Rightarrow> ('p, 'w) dsclient \<Rightarrow> config \<Rightarrow> config \<Rightarrow> bool \<Rightarrow> 'w \<Rightarrow> dry_out \<times> 'w" where
  "DryRunUpdateFn parse keyString now k dial d obj old dryrun w =
     (case prepareConfigAndTarget k obj w of
        (Inl err, w1) \<Rightarrow> (DryErr (Some obj) err, w1)
      | (Inr (c, tg), w1) \<Rightarrow>
          (case GetIntentUpdate parse c True of
             Inl err \<Rightarrow> (DryErr None err, w1)
           | Inr updates \<Rightarrow> RunDryRunTransaction keyString now dial d c tg
               [empty_intent\<lparr>ti_intent := GetGVKNSN (c_meta c), ti_priority := s_priority (c_spec c),
                  ti_update := updates\<rparr>] dryrun w1))"

definition DryRunDeleteFn ::
  "(string \<times> string \<Rightarrow> string) \<Rightarrow> nat \<Rightarrow> 'w k8s \<Rightarrow> ('w \<Rightarrow> goerr option \<times> 'w)
     \<Rightarrow> ('p, 'w) dsclient \<Rightarrow> config \<Rightarrow> bool \<Rightarrow> 'w \<Rightarrow> dry_out \<times> 'w" where
  "DryRunDeleteFn keyString now k dial d obj dryrun w =
     (case prepareConfigAndTarget k obj w of
        (Inl err, w1) \<Rightarrow> (DryErr (Some obj) err, w1)
      | (Inr (c, tg), w1) \<Rightarrow> RunDryRunTransaction keyString now dial d c tg
          [empty_intent\<lparr>ti_intent := GetGVKNSN (c_meta c), ti_delete := True\<rparr>] dryrun w1)"


section \<open>Lemmas: classification\<close>

lemma gm_put_fresh: "k \<notin> set (gm_keys m) \<Longrightarrow> gm_put k v m = m @ [(k, v)]"
  by (induction m) auto

abbreviation cfg_key :: "config \<Rightarrow> string" where "cfg_key c \<equiv> GetGVKNSN (c_meta c)"

abbreviation keyed :: "config list \<Rightarrow> config gomap" where "keyed \<equiv> map (\<lambda>c. (cfg_key c, c))"

definition unchanged :: "(config_spec \<Rightarrow> 'h) \<Rightarrow> config \<Rightarrow> bool" where
  "unchanged sha c \<longleftrightarrow> IsConfigConditionReady c
     \<and> (\<exists>a. st_appliedConfig (c_status c) = Some a \<and> sha (c_spec c) = sha a)"

definition pending :: "(config_spec \<Rightarrow> 'h) \<Rightarrow> config \<Rightarrow> bool" where
  \<comment> \<open>a config that makes a transaction necessary\<close>
  "pending sha c \<longleftrightarrow> IsRecoverable c \<and> (c_deleting c \<or> \<not> unchanged sha c)"

lemma classify_fold:
  assumes "distinct (map cfg_key items)"
    and "cfg_key ` set items \<inter> set (gm_keys (tc_update c)) = {}"
    and "cfg_key ` set items \<inter> set (gm_keys (tc_delete c)) = {}"
    and "cfg_key ` set items \<inter> set (gm_keys (tc_nonRecoverable c)) = {}"
    and "cfg_key ` set items \<inter> set (gm_keys (tc_noChange c)) = {}"
  shows "fold (classify_config sha) items c =
    \<lparr>tc_update = tc_update c @ keyed (filter (\<lambda>x. pending sha x \<and> \<not> c_deleting x) items),
     tc_delete = tc_delete c @ keyed (filter (\<lambda>x. pending sha x \<and> c_deleting x) items),
     tc_nonRecoverable = tc_nonRecoverable c @ keyed (filter (\<lambda>x. \<not> IsRecoverable x) items),
     tc_noChange = tc_noChange c
       @ keyed (filter (\<lambda>x. IsRecoverable x \<and> \<not> c_deleting x \<and> unchanged sha x) items)\<rparr>"
  using assms
proof (induction items arbitrary: c)
  case Nil
  then show ?case by simp
next
  case (Cons x xs)
  then have fresh: "cfg_key x \<notin> set (gm_keys (tc_update c))" "cfg_key x \<notin> set (gm_keys (tc_delete c))"
    "cfg_key x \<notin> set (gm_keys (tc_nonRecoverable c))" "cfg_key x \<notin> set (gm_keys (tc_noChange c))"
    by auto
  then have step: "classify_config sha x c =
     (if \<not> IsRecoverable x then c\<lparr>tc_nonRecoverable := tc_nonRecoverable c @ [(cfg_key x, x)]\<rparr>
      else if c_deleting x then c\<lparr>tc_delete := tc_delete c @ [(cfg_key x, x)]\<rparr>
      else if unchanged sha x then c\<lparr>tc_noChange := tc_noChange c @ [(cfg_key x, x)]\<rparr>
      else c\<lparr>tc_update := tc_update c @ [(cfg_key x, x)]\<rparr>)"
    by (auto simp: classify_config_def unchanged_def gm_put_fresh Let_def split: option.splits)
  have "fold (classify_config sha) xs (classify_config sha x c) =
    (let c' = classify_config sha x c in
    \<lparr>tc_update = tc_update c' @ keyed (filter (\<lambda>x. pending sha x \<and> \<not> c_deleting x) xs),
     tc_delete = tc_delete c' @ keyed (filter (\<lambda>x. pending sha x \<and> c_deleting x) xs),
     tc_nonRecoverable = tc_nonRecoverable c' @ keyed (filter (\<lambda>x. \<not> IsRecoverable x) xs),
     tc_noChange = tc_noChange c'
       @ keyed (filter (\<lambda>x. IsRecoverable x \<and> \<not> c_deleting x \<and> unchanged sha x) xs)\<rparr>)"
    unfolding Let_def using Cons.prems by (intro Cons.IH) (auto simp: step)
  then show ?case by (auto simp: step pending_def Let_def)
qed

lemma add_back_eq:
  assumes "gm_ok m" "set (gm_keys m) \<inter> set (gm_keys u) = {}" "set (gm_keys m) \<inter> set (gm_keys d) = {}"
  shows "add_back m (u, d) = (u @ filter (\<lambda>(k, c). \<not> c_deleting c) m, d @ filter (\<lambda>(k, c). c_deleting c) m)"
  using assms
proof (induction m arbitrary: u d)
  case Nil
  then show ?case by simp
next
  case (Cons a m)
  obtain k c where a: "a = (k, c)" by fastforce
  with Cons.prems have "gm_put k c u = u @ [a]" "gm_put k c d = d @ [a]"
    by (auto intro!: gm_put_fresh)
  with a Cons.prems Cons.IH [of "u @ [a]" d] Cons.IH [of u "d @ [a]"] show ?case by auto
qed

lemma keys_keyed [simp]: "gm_keys (keyed cs) = map cfg_key cs"
  by (simp add: o_def)

lemma filter_keyed: "filter (\<lambda>(k, c). P c) (keyed cs) = keyed (filter P cs)"
  by (induction cs) auto

lemma add_back_keyed:
  assumes "distinct (map cfg_key (m @ u))" "distinct (map cfg_key (m @ d))"
  shows "add_back (keyed m) (keyed u, keyed d)
    = (keyed (u @ filter (\<lambda>c. \<not> c_deleting c) m), keyed (d @ filter (\<lambda>c. c_deleting c) m))"
  using add_back_eq [of "keyed m" "keyed u" "keyed d"] assms
  by (simp add: filter_keyed del: map_map)

lemma distinct_key_filters:
  assumes "distinct (map cfg_key items)" "\<And>x. x \<in> set items \<Longrightarrow> P x \<Longrightarrow> Q x \<Longrightarrow> False"
  shows "distinct (map cfg_key (filter P items @ filter Q items))"
proof -
  have inj: "inj_on cfg_key (set items)" "distinct items" using assms(1) by (auto simp: distinct_map)
  then have "distinct (filter P items @ filter Q items)" using assms(2) by auto
  moreover have "inj_on cfg_key (set (filter P items @ filter Q items))"
    using inj(1) by (rule inj_on_subset) auto
  ultimately show ?thesis by (simp only: distinct_map)
qed

lemma distinct_keys_filters3:
  assumes d: "distinct (map cfg_key items)"
    and "\<And>x. x \<in> set items \<Longrightarrow> P x \<Longrightarrow> Q x \<Longrightarrow> False" "\<And>x. x \<in> set items \<Longrightarrow> P x \<Longrightarrow> R x \<Longrightarrow> False"
      "\<And>x. x \<in> set items \<Longrightarrow> Q x \<Longrightarrow> R x \<Longrightarrow> False"
  shows "distinct (map cfg_key (filter P items @ filter Q items @ filter R items))"
proof -
  have inj: "inj_on cfg_key (set items)" "distinct items" using d by (auto simp: distinct_map)
  then have "distinct (filter P items @ filter Q items @ filter R items)" using assms(2-) by auto
  moreover have "inj_on cfg_key (set (filter P items @ filter Q items @ filter R items))"
    using inj(1) by (rule inj_on_subset) auto
  ultimately show ?thesis by (simp only: distinct_map)
qed

lemma getConfigsToTransact_eq:
  assumes d: "distinct (map cfg_key items)"
  shows "getConfigsToTransact sha items =
    (if \<exists>c \<in> set items. pending sha c
     then (keyed (filter (\<lambda>x. pending sha x \<and> \<not> c_deleting x) items
             @ filter (\<lambda>x. \<not> IsRecoverable x \<and> \<not> c_deleting x) items
             @ filter (\<lambda>x. IsRecoverable x \<and> \<not> c_deleting x \<and> unchanged sha x) items),
           keyed (filter (\<lambda>x. pending sha x \<and> c_deleting x) items
             @ filter (\<lambda>x. \<not> IsRecoverable x \<and> c_deleting x) items))
     else ([], []))"
proof -
  let ?U = "filter (\<lambda>x. pending sha x \<and> \<not> c_deleting x) items"
  let ?D = "filter (\<lambda>x. pending sha x \<and> c_deleting x) items"
  let ?R = "filter (\<lambda>x. \<not> IsRecoverable x) items"
  let ?N = "filter (\<lambda>x. IsRecoverable x \<and> \<not> c_deleting x \<and> unchanged sha x) items"
  let ?RU = "filter (\<lambda>x. \<not> IsRecoverable x \<and> \<not> c_deleting x) items"
  let ?RD = "filter (\<lambda>x. \<not> IsRecoverable x \<and> c_deleting x) items"
  have c: "fold (classify_config sha) items
        \<lparr>tc_update = [], tc_delete = [], tc_nonRecoverable = [], tc_noChange = []\<rparr>
      = \<lparr>tc_update = keyed ?U, tc_delete = keyed ?D, tc_nonRecoverable = keyed ?R, tc_noChange = keyed ?N\<rparr>"
    using classify_fold [of items "\<lparr>tc_update = [], tc_delete = [], tc_nonRecoverable = [], tc_noChange = []\<rparr>" sha] d
    by simp
  have R: "filter (\<lambda>c. \<not> c_deleting c) ?R = ?RU" "filter c_deleting ?R = ?RD"
    "filter (\<lambda>c. \<not> c_deleting c) ?N = ?N" "filter c_deleting ?N = []"
    by (auto simp: filter_empty_conv intro!: filter_cong)
  have e1: "add_back (keyed ?R) (keyed ?U, keyed ?D) = (keyed (?U @ ?RU), keyed (?D @ ?RD))"
    by (subst add_back_keyed) (simp_all only: R, (rule distinct_key_filters [OF d], simp add: pending_def)+)
  have e2: "add_back (keyed ?N) (keyed (?U @ ?RU), keyed (?D @ ?RD))
      = (keyed ((?U @ ?RU) @ ?N), keyed (?D @ ?RD))"
    by (subst add_back_keyed)
      (simp_all only: R append_Nil2, (rule distinct_keys_filters3 [OF d]; auto simp: pending_def)+)
  have nonempty: "length (keyed ?U) > 0 \<or> length (keyed ?D) > 0 \<longleftrightarrow> (\<exists>c \<in> set items. pending sha c)"
    by (auto simp: filter_empty_conv)
  show ?thesis
  proof (cases "\<exists>c \<in> set items. pending sha c")
    case True
    then show ?thesis using nonempty
      by (simp only: getConfigsToTransact_def c Let_def tx_classes.simps e1 e2 if_True append_assoc)
  next
    case False
    then have "?U = []" "?D = []" by (auto simp: filter_empty_conv)
    with False show ?thesis by (simp add: getConfigsToTransact_def c Let_def)
  qed
qed

text \<open>
  C1: The transaction of a target is all or nothing. When no config has a pending change (each is
  either marked unrecoverable at its current generation or already applied unchanged), nothing is
  sent. As soon as one config has a pending change, every config of the target takes part, exactly
  once: a config being deleted as a delete, any other as an update, the unchanged ones and the ones
  marked unrecoverable included.
\<close>

theorem getConfigsToTransact_all_or_nothing:
  assumes "distinct (map cfg_key items)"
    and "getConfigsToTransact sha items = (u, d)"
  shows "if \<exists>c \<in> set items. pending sha c
    then set u = (\<lambda>c. (cfg_key c, c)) ` {c \<in> set items. \<not> c_deleting c}
       \<and> set d = (\<lambda>c. (cfg_key c, c)) ` {c \<in> set items. c_deleting c}
       \<and> length u + length d = length items
    else u = [] \<and> d = []"
proof (cases "\<exists>c \<in> set items. pending sha c")
  case True
  with assms getConfigsToTransact_eq [OF assms(1), of sha] have
    u: "u = keyed (filter (\<lambda>x. pending sha x \<and> \<not> c_deleting x) items
             @ filter (\<lambda>x. \<not> IsRecoverable x \<and> \<not> c_deleting x) items
             @ filter (\<lambda>x. IsRecoverable x \<and> \<not> c_deleting x \<and> unchanged sha x) items)"
    and d: "d = keyed (filter (\<lambda>x. pending sha x \<and> c_deleting x) items
             @ filter (\<lambda>x. \<not> IsRecoverable x \<and> c_deleting x) items)"
    by auto
  have "length u + length d = length items"
    unfolding u d by (induction items) (auto simp: pending_def)
  moreover have "set u = (\<lambda>c. (cfg_key c, c)) ` {c \<in> set items. \<not> c_deleting c}"
    unfolding u set_map by (rule arg_cong [of _ _ "\<lambda>X. _ ` X"]) (auto simp: pending_def)
  moreover have "set d = (\<lambda>c. (cfg_key c, c)) ` {c \<in> set items. c_deleting c}"
    unfolding d set_map by (rule arg_cong [of _ _ "\<lambda>X. _ ` X"]) (auto simp: pending_def)
  ultimately show ?thesis using True by simp
next
  case False
  with assms getConfigsToTransact_eq [OF assms(1), of sha] show ?thesis by auto
qed

definition sample_deleting :: config where
  "sample_deleting = sample_config\<lparr>c_meta := (c_meta sample_config)\<lparr>m_name := ''c2'', m_deletionTimestamp := Some 9\<rparr>\<rparr>"

definition sample_unrecoverable :: config where
  "sample_unrecoverable = with_conditions [ConfigFailedUnrecoverable 1 2 ''bad'']
     (sample_config\<lparr>c_meta := (c_meta sample_config)\<lparr>m_name := ''c3''\<rparr>\<rparr>)"

theorem getConfigsToTransact_all_or_nothing_witness:
  "map fst (fst (getConfigsToTransact (\<lambda>s. s) [sample_deleting, sample_unrecoverable])) = [''ns.c3'']
   \<and> getConfigsToTransact (\<lambda>s. s) [sample_unrecoverable] = ([], [])"
proof -
  let ?items = "[sample_deleting, sample_unrecoverable]"
  obtain u d where ud: "getConfigsToTransact (\<lambda>s. s) ?items = (u, d)" by fastforce
  have 1: "distinct (map cfg_key ?items)" "\<exists>c \<in> set ?items. pending (\<lambda>s. s) c"
    "c_deleting sample_deleting" "\<not> c_deleting sample_unrecoverable"
    "cfg_key sample_unrecoverable = ''ns.c3''" "\<not> pending (\<lambda>s. s) sample_unrecoverable"
    by (simp_all add: sample_deleting_def sample_unrecoverable_def sample_config_def empty_meta_def
        GetGVKNSN_def pending_def IsRecoverable_def unchanged_def IsConfigConditionReady_def
        config_outcomes TruncateMessage_def MaxMessageBytes_def)
  have sets: "{c \<in> set ?items. \<not> c_deleting c} = {sample_unrecoverable}"
    "{c \<in> set ?items. c_deleting c} = {sample_deleting}" using 1(3,4) by auto
  have "set u = {(''ns.c3'', sample_unrecoverable)} \<and> set d = {(cfg_key sample_deleting, sample_deleting)}
      \<and> length u + length d = 2"
    using getConfigsToTransact_all_or_nothing [OF 1(1) ud] unfolding if_P [OF 1(2)] sets
    by (simp add: 1(5))
  then have u: "set u = {(''ns.c3'', sample_unrecoverable)}" and l: "0 < length u" "0 < length d"
    "length u + length d = 2" by auto
  from l have "length u = 1" by linarith
  with u have "u = [(''ns.c3'', sample_unrecoverable)]"
    by (cases u) auto
  moreover have "getConfigsToTransact (\<lambda>s. s) [sample_unrecoverable] = ([], [])"
    by (subst getConfigsToTransact_eq) (use 1(6) in simp_all)
  ultimately show ?thesis using ud by simp
qed

end
