(* ===== verification/TransactorSpec.thy ===== *)
theory TransactorSpec
  imports Transactor
begin

text \<open>
  What the transactor guarantees: what it writes on a Config status and when, and in which order
  it talks to the data-server and to the API server. The order is stated over the tracing clients,
  so it holds for every behaviour of the two services.
\<close>

section \<open>Calls an operation makes\<close>

fun pre_call :: "'p call \<Rightarrow> bool" where
  \<comment> \<open>what happens before the data-server is asked: listing configs, creating deviations\<close>
  "pre_call CReadOther = True"
| "pre_call (CCreateDev d) = True"
| "pre_call c = False"

fun post_call :: "'p call \<Rightarrow> bool" where
  \<comment> \<open>bookkeeping on the API server\<close>
  "post_call (CReadConfig ns n) = True"
| "post_call (CPatch a b) = True"
| "post_call (CStatus ns n sa) = True"
| "post_call (CDeleteDev ns n) = True"
| "post_call c = False"

lemma emits_applyStatus: "emits post_call (applyStatus (trace_k8s k) fm cur des)"
  unfolding applyStatus_def [abs_def] Let_def
  by (cases "owned_conditions [ConditionTypeReady, ConditionTypeConfigReady]
        (st_conditions (c_status cur)) (st_conditions (c_status des))
        ((st_lastKnownGoodSchema (c_status des) \<noteq> st_lastKnownGoodSchema (c_status cur)
            \<or> st_appliedConfig (c_status des) \<noteq> st_appliedConfig (c_status cur)
            \<or> st_deviationGeneration (c_status des) \<noteq> st_deviationGeneration (c_status cur))
         \<or> (\<exists>t \<in> set LegacyConfigConditionTypes. HasCondition (st_conditions (c_status cur)) t))")
     (auto intro!: log.ifs log.ret emits_tcall)

lemma emits_updateConfigWithError:
  "emits post_call (updateConfigWithError (trace_k8s k) fm now cfg msg err r)"
  unfolding updateConfigWithError_def [abs_def] Let_def
  by (intro log.sums log.ifs) (auto intro: emits_tcall log.ret emits_applyStatus)

lemma emits_updateConfigWithSuccess:
  "emits post_call (updateConfigWithSuccess (trace_k8s k) fm now cfg sch msg)"
  unfolding updateConfigWithSuccess_def [abs_def]
  by (intro log.sums log.ifs) (auto intro: emits_tcall log.ret emits_applyStatus)

lemma emits_processFailedConfig:
  "emits post_call (processFailedConfig (trace_k8s k) fm now cfg msg err r)"
  unfolding processFailedConfig_def [abs_def] applyFinalizer_def patchMetadata_def
  by (intro log.sums) (auto intro: emits_tcall log.ret emits_updateConfigWithError)

lemma emits_succeed_config: "emits post_call (succeed_config (trace_k8s k) fm now sch cfg)"
  unfolding succeed_config_def [abs_def] applyFinalizer_def patchMetadata_def
  by (intro log.sums) (auto intro: emits_tcall log.ret emits_updateConfigWithSuccess)

lemma emits_transactor_deleteDeviation:
  "emits post_call (transactor_deleteDeviation (trace_k8s k) cfg)"
  unfolding transactor_deleteDeviation_def [abs_def]
  by (intro log.opts log.ifs) (auto intro: emits_tcall log.ret)

lemma emits_finish_delete: "emits post_call (finish_delete (trace_k8s k) fm cfg)"
  unfolding finish_delete_def [abs_def] deleteFinalizer_def patchMetadata_def
  by (intro log.sums) (auto intro: emits_tcall log.ret emits_transactor_deleteDeviation)

lemma emits_apply_deviations: "emits pre_call (apply_deviations (trace_k8s k) items)"
proof -
  have "emits pre_call (transactor_applyDeviation (trace_k8s k) cfg)" for cfg
    unfolding transactor_applyDeviation_def [abs_def]
    by (intro log.sums log.opts log.ifs) (auto intro: emits_tcall log.ret)
  then show ?thesis unfolding apply_deviations_def
    by (intro log.loops log.sums log.ret)
qed

lemma emits_fail_all: "emits post_call (fail_all (trace_k8s k) fm now m err r)"
  unfolding fail_all_def by (intro log.loops) (auto split: prod.splits intro: emits_processFailedConfig)

lemma emits_failed_intents:
  fixes k :: "'w k8s"
  shows "emits (post_call :: 'p call \<Rightarrow> bool) (failed_intents (trace_k8s k) fm now u d err is)"
proof (induction "is")
  case Nil
  then show ?case by (simp add: moves_def extends_def)
next
  case (Cons a "is")
  let ?k = "trace_k8s k :: ('p, 'w) traced k8s"
  obtain n i where a: "a = (n, i)" by fastforce
  let ?errs = "fold (\<lambda>e acc. err_join acc (Some (err_new e))) (ri_errors i) err"
  let ?msg = "if length (collectWarnings (ri_errors i)) > 0 then join_sep ''; '' (collectWarnings (ri_errors i)) else []"
  have step: "emits (post_call :: 'p call \<Rightarrow> bool)
     (\<lambda>w. case processFailedConfig ?k fm now cfg ?msg ?errs False w of
       (None, w1) \<Rightarrow> failed_intents ?k fm now u d err is w1
     | (Some e, w1) \<Rightarrow> (LReturn e, w1))" for cfg
    by (intro log.opts emits_processFailedConfig log.ret Cons.IH)
  show ?case
  proof (cases "map_of u n")
    case (Some cfg)
    have "failed_intents ?k fm now u d err (a # is) =
      (\<lambda>w. case processFailedConfig ?k fm now cfg ?msg ?errs False w of
       (None, w1) \<Rightarrow> failed_intents ?k fm now u d err is w1
     | (Some e, w1) \<Rightarrow> (LReturn e, w1))"
      by (rule ext) (simp add: a Some Let_def)
    with step [of cfg] show ?thesis by simp
  next
    case u: None
    show ?thesis
    proof (cases "map_of d n")
      case (Some cfg)
      have "failed_intents ?k fm now u d err (a # is) =
        (\<lambda>w. case processFailedConfig ?k fm now cfg ?msg ?errs False w of
         (None, w1) \<Rightarrow> failed_intents ?k fm now u d err is w1
       | (Some e, w1) \<Rightarrow> (LReturn e, w1))"
        by (rule ext) (simp add: a u Some Let_def)
      with step [of cfg] show ?thesis by simp
    next
      case None
      with u show ?thesis by (simp add: a moves_def extends_def Let_def)
    qed
  qed
qed

lemma emits_handleTransactionErrors:
  fixes k :: "'w k8s"
  shows "emits (post_call :: 'p call \<Rightarrow> bool) (handleTransactionErrors (trace_k8s k) fm now rsp u d err r)"
proof (cases rsp)
  case None
  show ?thesis unfolding handleTransactionErrors_def [abs_def] None option.case
    by (intro log.opts log.thens emits_fail_all log.ret)
next
  case (Some a)
  have "emits (post_call :: 'p call \<Rightarrow> bool) (\<lambda>w. case failed_intents (trace_k8s k) fm now u d err (tr_intents a) w of
      (r', w1) \<Rightarrow> (case r' of LReturn e \<Rightarrow> (\<lambda>w1. ((True, Some e), w1))
         | LDone \<Rightarrow> (\<lambda>w1. ((r, err), w1))
         | LBreak err' \<Rightarrow> (\<lambda>w1.
               (case then_err (fail_all (trace_k8s k) fm now u err' False)
                       (fail_all (trace_k8s k) fm now d err' False) w1 of
                  (Some e, w2) \<Rightarrow> ((True, Some e), w2)
                | (None, w2) \<Rightarrow> ((False, err'), w2)))) w1)"
    by (intro log.bind emits_failed_intents)
      (auto split: loop_out.splits intro!: log.opts log.thens emits_fail_all log.ret)
  then show ?thesis unfolding handleTransactionErrors_def [abs_def] Some option.case
    by (rule back_subst [of "emits post_call"]) (auto split: prod.splits loop_out.splits)
qed

section \<open>The protocol of a transaction\<close>

definition answer_ok :: "tx_response option \<Rightarrow> goerr option \<Rightarrow> bool" where
  "answer_ok rsp err \<longleftrightarrow> err = None
     \<and> (case rsp of None \<Rightarrow> True | Some r \<Rightarrow> list_all (\<lambda>(k, i). ri_errors i = []) (tr_intents r))"

lemma analyze_intents_errors:
  "to_intentErrors (analyze_intents es res) = None \<longleftrightarrow> es = [] \<and> to_intentErrors res = None"
  "to_globalError (analyze_intents es res) = to_globalError res"
  by (induction es arbitrary: res) auto

lemma analyze_fold_errors:
  "to_intentErrors (fold (\<lambda>(k, i). analyze_intents (ri_errors i)) is res) = None
     \<longleftrightarrow> list_all (\<lambda>(k, i). ri_errors i = []) is \<and> to_intentErrors res = None"
  "to_globalError (fold (\<lambda>(k, i). analyze_intents (ri_errors i)) is res) = to_globalError res"
  by (induction "is" arbitrary: res) (auto simp: analyze_intents_errors split: prod.splits)

lemma analyzeIntentResponse_ok:
  "to_globalError (analyzeIntentResponse err rsp) = None
     \<and> to_intentErrors (analyzeIntentResponse err rsp) = None \<longleftrightarrow> answer_ok rsp err"
  by (auto simp: analyzeIntentResponse_def answer_ok_def analyze_fold_errors Let_def
      split: option.splits)

definition sent_request :: "string \<Rightarrow> string \<Rightarrow> config gomap \<Rightarrow> config gomap \<Rightarrow> 'p tx_request \<Rightarrow> bool" where
  "sent_request key uuid u dl q \<longleftrightarrow> tq_datastoreName q = key \<and> tq_transactionId q = uuid \<and> \<not> tq_dryRun q
     \<and> map ti_intent (tq_intents q) = map (\<lambda>(key, c). GetGVKNSN (c_meta c)) (u @ dl)
     \<and> map ti_delete (tq_intents q) = map (\<lambda>_. False) u @ map (\<lambda>_. True) dl"

lemma update_intents_names:
  "update_intents parse env m = Inr is \<Longrightarrow>
     map ti_intent is = map (\<lambda>(key, c). GetGVKNSN (c_meta c)) m \<and> map ti_delete is = map (\<lambda>_. False) m"
  by (induction parse env m arbitrary: "is" rule: update_intents.induct)
     (auto simp: empty_intent_def split: sum.splits)

lemma setIntents_trace:
  assumes "setIntents parse env (trace_ds d) key uuid u dl False (w, cs) = ((rsp, err), (w', cs'))"
  shows "(cs' = cs \<and> rsp = None \<and> err \<noteq> None)
    \<or> (\<exists>q. cs' = cs @ [CSet q] \<and> (rsp, err) = fst (d_TransactionSet d q w) \<and> sent_request key uuid u dl q)"
proof (cases "update_intents parse env u")
  case (Inl e)
  with assms show ?thesis by (auto simp: setIntents_def)
next
  case (Inr ints)
  let ?q = "\<lparr>tq_transactionId = uuid, tq_datastoreName = key, tq_dryRun = False, tq_timeout = Some 60,
            tq_intents = ints @ map (\<lambda>(key, cfg). delete_intent cfg) dl\<rparr>"
  have "sent_request key uuid u dl ?q"
    using update_intents_names [OF Inr]
    by (simp add: sent_request_def delete_intent_def empty_intent_def o_def split_beta)
  moreover have "cs' = cs @ [CSet ?q] \<and> (rsp, err) = fst (d_TransactionSet d ?q w)"
    using assms Inr by (simp add: setIntents_def tcall_def split: prod.splits)
  ultimately show ?thesis by blast
qed

lemma conclude_calls:
  fixes k :: "'w k8s" and d :: "('p, 'w) dsclient"
  assumes run: "conclude (trace_k8s k) fm now (trace_ds d) h uuid u dl rsp err (w, cs) = (res, (w', calls))"
  shows "\<exists>post. calls = cs @ (if answer_ok rsp err then [CConfirm (h_datastoreName h) uuid] else []) @ post
    \<and> list_all post_call post"
proof (cases "answer_ok rsp err")
  case False
  with run analyzeIntentResponse_ok [of err rsp]
  have "handleTransactionErrors (trace_k8s k) fm now rsp u dl (to_globalError (analyzeIntentResponse err rsp))
      (to_recoverable (analyzeIntentResponse err rsp)) (w, cs) = (res, (w', calls))"
    by (auto simp: conclude_def Let_def)
  from emitsD [OF emits_handleTransactionErrors this] False show ?thesis by (auto simp: list_all_iff)
next
  case True
  let ?writes = "\<lambda>w. case then_err
            (for_err (\<lambda>(key, cfg). succeed_config (trace_k8s k) fm now (h_schema h) cfg) u)
            (for_err (\<lambda>(key, cfg). finish_delete (trace_k8s k) fm cfg) dl) w of
           (None, w) \<Rightarrow> ((False, None), w) | (Some e, w) \<Rightarrow> ((True, Some e), w)"
  have ok: "emits (post_call :: 'p call \<Rightarrow> bool) ?writes"
    by (intro log.opts log.thens log.loops log.ret)
      (auto split: prod.splits intro: emits_succeed_config emits_finish_delete)
  obtain ce w1 where c: "d_TransactionConfirm d (h_datastoreName h) uuid w = (ce, w1)" by (rule prod.exhaust)
  show ?thesis
  proof (cases ce)
    case (Some e)
    with run True c analyzeIntentResponse_ok [of err rsp] show ?thesis by (auto simp: conclude_def tcall_def Let_def)
  next
    case None
    with run True c analyzeIntentResponse_ok [of err rsp]
    have "?writes (w1, cs @ [CConfirm (h_datastoreName h) uuid]) = (res, (w', calls))"
      by (auto simp: conclude_def tcall_def Let_def)
    from emitsD [OF ok this] True show ?thesis by (auto simp: list_all_iff)
  qed
qed

lemma Transact_calls:
  fixes k :: "'w k8s" and d :: "('p, 'w) dsclient"
  assumes run: "Transact parse env sha keyString uuid now (trace_k8s k) fm (trace_ds d) tg h (w, cs)
      = (res, (w', calls))"
  shows "\<exists>pre mid post. calls = cs @ pre @ mid @ post \<and> list_all pre_call pre \<and> list_all post_call post
    \<and> (mid = [] \<or> (\<exists>q rsp err w2 items u dl. getConfigsToTransact sha items = (u, dl)
          \<and> u @ dl \<noteq> [] \<and> sent_request (keyString (m_namespace (t_meta tg), m_name (t_meta tg))) uuid u dl q
          \<and> (rsp, err) = fst (d_TransactionSet d q w2)
          \<and> mid = CSet q # (if answer_ok rsp err then [CConfirm (h_datastoreName h) uuid] else [])))"
proof -
  let ?k = "trace_k8s k :: ('p, 'w) traced k8s" and ?key = "keyString (m_namespace (t_meta tg), m_name (t_meta tg))"
  obtain li w1 cs1 where l: "ListConfigsPerTarget ?k tg (w, cs) = (li, (w1, cs1))" by (metis prod_cases3)
  then have cs1: "cs1 = cs @ [CReadOther]"
    by (auto simp: ListConfigsPerTarget_def tcall_def split: prod.splits)
  show ?thesis
  proof (cases li)
    case (Inl e)
    with run l cs1 have "calls = cs @ [CReadOther]" by (simp add: Transact_def)
    then show ?thesis by (intro exI [of _ "[CReadOther]"] exI [of _ "[]"]) simp
  next
    case (Inr items)
    obtain oe w2 cs2 where a: "apply_deviations ?k items (w1, cs1) = (oe, (w2, cs2))" by (metis prod_cases3)
    from emitsD [OF emits_apply_deviations a] cs1 obtain pre where pre: "cs2 = cs @ pre" "list_all pre_call pre"
      by (auto simp: list_all_iff)
    obtain u dl where ud: "getConfigsToTransact sha items = (u, dl)" by (rule prod.exhaust)
    show ?thesis
    proof (cases "oe \<noteq> None \<or> u @ dl = []")
      case True
      with run l Inr a ud have "calls = cs2" by (auto simp: Transact_def Let_def split: option.splits)
      with pre show ?thesis by (intro exI [of _ pre] exI [of _ "[]"]) simp
    next
      case False
      obtain rsp err w3 cs3 where s: "setIntents parse env (trace_ds d) ?key uuid u dl False (w2, cs2)
          = ((rsp, err), (w3, cs3))" by (metis prod_cases4 surj_pair)
      have "conclude ?k fm now (trace_ds d) h uuid u dl rsp err (w3, cs3) = (res, (w', calls))"
        using run l Inr a ud False s by (auto simp: Transact_def)
      from conclude_calls [OF this] obtain post where post: "list_all post_call post"
        "calls = cs3 @ (if answer_ok rsp err then [CConfirm (h_datastoreName h) uuid] else []) @ post" by blast
      from setIntents_trace [OF s] show ?thesis
      proof (elim disjE exE conjE)
        assume "cs3 = cs2" "rsp = None" "err \<noteq> None"
        with post pre show ?thesis
          by (intro exI [of _ pre] exI [of _ "[]"] exI [of _ post]) (auto simp: answer_ok_def)
      next
        fix q
        assume q: "cs3 = cs2 @ [CSet q]" "(rsp, err) = fst (d_TransactionSet d q w2)" "sent_request ?key uuid u dl q"
        let ?mid = "CSet q # (if answer_ok rsp err then [CConfirm (h_datastoreName h) uuid] else [])"
        have "calls = cs @ pre @ ?mid @ post" using q(1) post(2) pre(1) by simp
        moreover have "u @ dl \<noteq> []" using False by blast
        ultimately show ?thesis using pre(2) post(1) q(2,3) ud
          by (intro exI [of _ pre] exI [of _ ?mid] exI [of _ post] conjI disjI2 exI [of _ q]
              exI [of _ rsp] exI [of _ err] exI [of _ w2] exI [of _ items] exI [of _ u] exI [of _ dl])
            (assumption | rule refl)+
      qed
    qed
  qed
qed

text \<open>
  C2: One run of the transactor talks to the data-server at most once, and confirms only an
  accepted transaction. The calls fall into three phases: reads and the creation of missing
  deviations; then at most one transaction, to the datastore of the target under the fresh id, not a
  dry run, with one intent per config taken into it, followed by a confirm just when the answer
  carries neither an error nor an intent error; then only writes on the Configs. In particular no
  status is written before the answer, and a failed transaction is never confirmed.
\<close>

theorem Transact_protocol:
  fixes k :: "'w k8s" and d :: "('p, 'w) dsclient"
  assumes run: "Transact parse env sha keyString uuid now (trace_k8s k) fm (trace_ds d) tg h (w, [])
      = (res, (w', calls))"
  shows "\<exists>pre mid post. calls = pre @ mid @ post \<and> list_all pre_call pre \<and> list_all post_call post
    \<and> (mid = [] \<or> (\<exists>q rsp err w2 items u dl. getConfigsToTransact sha items = (u, dl)
          \<and> u @ dl \<noteq> [] \<and> sent_request (keyString (m_namespace (t_meta tg), m_name (t_meta tg))) uuid u dl q
          \<and> (rsp, err) = fst (d_TransactionSet d q w2)
          \<and> mid = CSet q # (if answer_ok rsp err then [CConfirm (h_datastoreName h) uuid] else [])))"
  using Transact_calls [OF run] by (simp only: append_Nil)

definition sample_k8s :: "config list \<Rightarrow> 'w k8s" where
  \<comment> \<open>an API server with these configs and all their deviations that accepts every write\<close>
  "sample_k8s cs = \<lparr>
     k_GetConfig = (\<lambda>ns n w. (case filter (\<lambda>c. c_name c = n) cs of [] \<Rightarrow>
        Inl ((err_new ''not found'')\<lparr>e_api := Some ''NotFound''\<rparr>) | c # _ \<Rightarrow> Inr c, w)),
     k_ListConfigs = (\<lambda>ns l w. (Inr cs, w)),
     k_PatchConfig = (\<lambda>a b fm w. (Inr b, w)),
     k_ApplyConfigStatus = (\<lambda>ns n a fm w. (None, w)),
     k_GetDeviation = (\<lambda>ns n w. (Inr \<lparr>d_meta = empty_meta, d_deviationType = None, d_deviations = []\<rparr>, w)),
     k_CreateDeviation = (\<lambda>dv w. (None, w)), k_DeleteDeviation = (\<lambda>ns n w. (None, w)),
     k_ApplyDeviation = (\<lambda>a fm f w. (None, w)),
     k_GetTarget = (\<lambda>ns n w. (Inr sample_target, w))\<rparr>"

definition sample_handle :: ds_handle where
  "sample_handle = \<lparr>h_key = ''ns.t1'', h_datastoreName = ''ns.t1'', h_schema = None\<rparr>"

definition sample_transact :: "nat \<Rightarrow> (bool \<times> goerr option) \<times> nat \<times> string call list" where
  "sample_transact w = Transact (\<lambda>p. Inr p) None (\<lambda>s. s) (\<lambda>k. fst k @ ''.'' @ snd k) ''id'' 7
     (trace_k8s (sample_k8s [sample_config])) ''fm'' (trace_ds sample_ds) sample_target sample_handle (w, [])"

fun call_kind :: "'p call \<Rightarrow> nat" where
  "call_kind (CSet q) = 1" | "call_kind (CConfirm n i) = 2" | "call_kind (CStatus ns n sa) = 3"
| "call_kind c = 0"

theorem Transact_protocol_witness:
  "(\<exists>pre mid post. snd (snd (sample_transact 1)) = pre @ mid @ post
      \<and> list_all pre_call pre \<and> list_all post_call post)
   \<and> map call_kind (snd (snd (sample_transact 1))) = [0, 0, 1, 2, 0, 0, 3]
   \<and> map call_kind (snd (snd (sample_transact 0))) = [0, 0, 1, 0, 0, 3]"
proof (intro conjI)
  obtain res w' calls where run: "sample_transact 1 = (res, (w', calls))" by (metis prod_cases3)
  from Transact_protocol [OF run [unfolded sample_transact_def]]
  have "\<exists>pre mid post. calls = pre @ mid @ post \<and> list_all pre_call pre \<and> list_all post_call post"
    by (elim exE conjE) (rule exI, rule exI, rule exI, intro conjI)
  with run show "\<exists>pre mid post. snd (snd (sample_transact 1)) = pre @ mid @ post
      \<and> list_all pre_call pre \<and> list_all post_call post" by simp
  show "map call_kind (snd (snd (sample_transact 1))) = [0, 0, 1, 2, 0, 0, 3]" by code_simp
  show "map call_kind (snd (snd (sample_transact 0))) = [0, 0, 1, 0, 0, 3]" by code_simp
qed

section \<open>What is written on a Config status\<close>

definition owned_same :: "config \<Rightarrow> config \<Rightarrow> bool" where
  \<comment> \<open>nothing of what the transactor owns differs, and no legacy condition is left to drop\<close>
  "owned_same current desired \<longleftrightarrow>
     st_lastKnownGoodSchema (c_status desired) = st_lastKnownGoodSchema (c_status current)
     \<and> st_appliedConfig (c_status desired) = st_appliedConfig (c_status current)
     \<and> st_deviationGeneration (c_status desired) = st_deviationGeneration (c_status current)
     \<and> list_all (\<lambda>t. \<not> HasCondition (c_conditions current) t) LegacyConfigConditionTypes
     \<and> list_all (\<lambda>t. HasCondition (c_conditions desired) t \<longrightarrow> HasCondition (c_conditions current) t
          \<and> cond_Equal (GetCondition (c_conditions desired) t) (GetCondition (c_conditions current) t))
        [ConditionTypeReady, ConditionTypeConfigReady]"

definition status_to_send :: "config \<Rightarrow> config \<Rightarrow> status_apply" where
  "status_to_send current desired =
     \<lparr>sa_conditions = map (\<lambda>t. keepTransitionTime (GetCondition (c_conditions desired) t)
          (GetCondition (c_conditions current) t))
        (filter (HasCondition (c_conditions desired)) [ConditionTypeReady, ConditionTypeConfigReady]),
      sa_lastKnownGoodSchema = st_lastKnownGoodSchema (c_status desired),
      sa_appliedConfig = st_appliedConfig (c_status desired),
      sa_deviationGeneration = st_deviationGeneration (c_status desired)\<rparr>"

lemma owned_conditions_eq:
  "owned_conditions ts cur des changed =
     (changed \<or> (\<exists>t \<in> set ts. HasCondition des t
         \<and> (\<not> HasCondition cur t \<or> \<not> cond_Equal (GetCondition des t) (GetCondition cur t))),
      map (\<lambda>t. keepTransitionTime (GetCondition des t) (GetCondition cur t)) (filter (HasCondition des) ts))"
  by (induction ts cur des changed rule: owned_conditions.induct) (auto simp: Let_def)

lemma applyStatus_eq:
  "applyStatus k fm current desired w =
     (if owned_same current desired then (None, w)
      else k_ApplyConfigStatus k (c_namespace desired) (c_name desired)
             (status_to_send current desired) fm w)"
  by (auto simp: applyStatus_def owned_same_def status_to_send_def owned_conditions_eq Let_def list_all_iff)

lemma keepTransitionTime_cases:
  "cond_Equal (keepTransitionTime n old) n
   \<and> cLastTransitionTime (keepTransitionTime n old)
      = (if cStatus old = cStatus n \<and> cLastTransitionTime old \<noteq> 0 then cLastTransitionTime old
         else cLastTransitionTime n)"
  by (simp add: keepTransitionTime_def cond_Equal_def)

text \<open>
  The status writer writes exactly when something it owns changes (a schema, an applied
  config, a deviation generation, one of its two conditions, or a legacy condition to drop), and
  then it sends everything it owns: for each of its condition types that the desired status has,
  the desired condition, whose transition time is the stored one unless the status flips or there
  is none stored.
\<close>

theorem applyStatus_minimal_and_complete:
  "snd (snd (applyStatus (trace_k8s k) fm current desired (w, [])))
     = (if owned_same current desired then []
        else [CStatus (c_namespace desired) (c_name desired) (status_to_send current desired)])
   \<and> map (\<lambda>c. (cType c, cStatus c, cReason c, cMessage c, cObservedGeneration c, cLastTransitionTime c))
        (sa_conditions (status_to_send current desired))
     = map (\<lambda>t. let n = GetCondition (c_conditions desired) t; old = GetCondition (c_conditions current) t in
          (cType n, cStatus n, cReason n, cMessage n, cObservedGeneration n,
           if cStatus old = cStatus n \<and> cLastTransitionTime old \<noteq> 0 then cLastTransitionTime old
           else cLastTransitionTime n))
        (filter (HasCondition (c_conditions desired)) [ConditionTypeReady, ConditionTypeConfigReady])"
  using keepTransitionTime_cases
  by (auto simp: applyStatus_eq status_to_send_def Let_def cond_Equal_def)

definition outcome :: "config \<Rightarrow> string \<Rightarrow> string \<times> string \<times> int" where
  \<comment> \<open>status, reason and observed generation of a condition of the Config\<close>
  "outcome c t = (let x = GetCondition (c_conditions c) t in (cStatus x, cReason x, cObservedGeneration x))"

lemma set_config_conditions_sel [simp]:
  "c_meta (set_config_conditions cs r) = c_meta r" "c_spec (set_config_conditions cs r) = c_spec r"
  "c_conditions (set_config_conditions cs r) = SetConditions (c_conditions r) cs"
  "st_appliedConfig (c_status (set_config_conditions cs r)) = st_appliedConfig (c_status r)"
  "st_lastKnownGoodSchema (c_status (set_config_conditions cs r)) = st_lastKnownGoodSchema (c_status r)"
  "st_deviationGeneration (c_status (set_config_conditions cs r)) = st_deviationGeneration (c_status r)"
  by (simp_all add: set_config_conditions_def)

lemma with_devgen_sel [simp]:
  "c_meta (with_devgen g r) = c_meta r" "c_spec (with_devgen g r) = c_spec r"
  "c_conditions (with_devgen g r) = c_conditions r"
  "st_appliedConfig (c_status (with_devgen g r)) = st_appliedConfig (c_status r)"
  "st_lastKnownGoodSchema (c_status (with_devgen g r)) = st_lastKnownGoodSchema (c_status r)"
  "st_deviationGeneration (c_status (with_devgen g r)) = g"
  by (simp_all add: with_devgen_def)

lemma outcome_set_same:
  "distinct (ctypes (c_conditions r)) \<Longrightarrow> cType c = t \<Longrightarrow>
     outcome (set_config_conditions [c] r) t = (cStatus c, cReason c, cObservedGeneration c)"
  using GetCondition_SetCondition_same [of "c_conditions r" c]
  by (simp add: outcome_def Let_def SetConditions_def cond_Equal_def)

lemma outcome_set_other:
  "cType c \<noteq> t \<Longrightarrow> outcome (set_config_conditions [c] r) t = outcome r t"
  by (simp add: outcome_def Let_def SetConditions_def GetCondition_SetCondition_other)

lemma distinct_set_one: "distinct (ctypes cs) \<Longrightarrow> distinct (ctypes (SetConditions cs [c]))"
  by (simp add: SetConditions_def conds.wf_put)

lemma ReadyFromApplied_outcome:
  assumes "outcome r ConditionTypeConfigReady = (st, reason, g)" "HasCondition (c_conditions r) ConditionTypeConfigReady"
  shows "cStatus (ReadyFromApplied now r) = (if st = ConditionTrue then ConditionTrue else ConditionFalse)
    \<and> cReason (ReadyFromApplied now r) = (if st = ConditionTrue then ConditionReasonReady else reason)"
  using assms by (auto simp: ReadyFromApplied_def outcome_def IsTrue_def ReadyWithMsg_def Let_def)

lemma outcome_with_ready:
  assumes d: "distinct (ctypes (c_conditions r))" and c: "cType c = ConditionTypeConfigReady"
  shows "let r' = set_config_conditions [c] r; r'' = set_config_conditions [ReadyFromApplied now r'] r' in
     outcome r'' ConditionTypeConfigReady = (cStatus c, cReason c, cObservedGeneration c)
     \<and> outcome r'' ConditionTypeReady =
        (if cStatus c = ConditionTrue then (ConditionTrue, ConditionReasonReady, 0)
         else (ConditionFalse, cReason c, 0))"
proof -
  let ?r = "set_config_conditions [c] r"
  have d': "distinct (ctypes (c_conditions ?r))" using d by (simp add: distinct_set_one)
  have o: "outcome ?r ConditionTypeConfigReady = (cStatus c, cReason c, cObservedGeneration c)"
    using outcome_set_same [OF d c] .
  have h: "HasCondition (c_conditions ?r) ConditionTypeConfigReady"
    using c by (simp add: SetConditions_def HasCondition_SetCondition)
  have g: "cObservedGeneration (ReadyFromApplied now ?r) = 0"
    by (simp add: ReadyFromApplied_def ConfigNotReady_def ReadyWithMsg_def Let_def)
  show ?thesis
    using o ReadyFromApplied_outcome [OF o h, of now] g
      outcome_set_same [OF d', of "ReadyFromApplied now ?r" ConditionTypeReady]
      outcome_set_other [of "ReadyFromApplied now ?r" ConditionTypeConfigReady ?r]
    by (auto simp: Let_def)
qed

text \<open>
  The outcome of a transaction on one config. A config that is being deleted by the time the
  outcome is written is left alone. Otherwise a failure makes \<open>ConfigReady\<close> and \<open>Ready\<close> false with
  the reason that tells a retriable from an unrecoverable failure, stamped with the generation of
  the config handed over, and keeps the applied spec and schema; a success makes both true and
  records the spec that was transacted, not the one stored by then. The deviation generation is 0
  after an unrecoverable failure and absent otherwise.
\<close>

theorem config_outcome_status:
  assumes "k_GetConfig k (c_namespace cfg) (c_name cfg) w = (Inr current, w1)"
    and "distinct (ctypes (c_conditions current))"
  shows "if c_deleting current
    then updateConfigWithError k fm now cfg msg err recoverable w = (None, w1)
       \<and> updateConfigWithSuccess k fm now cfg schema msg w = (None, w1)
    else (\<exists>e s. updateConfigWithError k fm now cfg msg err recoverable w = applyStatus k fm current e w1
       \<and> outcome e ConditionTypeConfigReady = (ConditionFalse,
            if recoverable then ConditionReasonFailed else ConditionReasonUnrecoverable,
            m_generation (c_meta cfg))
       \<and> outcome e ConditionTypeReady = (ConditionFalse,
            if recoverable then ConditionReasonFailed else ConditionReasonUnrecoverable, 0)
       \<and> st_appliedConfig (c_status e) = st_appliedConfig (c_status current)
       \<and> st_lastKnownGoodSchema (c_status e) = st_lastKnownGoodSchema (c_status current)
       \<and> st_deviationGeneration (c_status e) = (if recoverable then None else Some 0)
       \<and> updateConfigWithSuccess k fm now cfg schema msg w = applyStatus k fm current s w1
       \<and> outcome s ConditionTypeConfigReady = (ConditionTrue, ConditionReasonReady, m_generation (c_meta cfg))
       \<and> outcome s ConditionTypeReady = (ConditionTrue, ConditionReasonReady, 0)
       \<and> st_appliedConfig (c_status s) = Some (c_spec cfg)
       \<and> st_lastKnownGoodSchema (c_status s) = schema
       \<and> st_deviationGeneration (c_status s) = None)"
proof (cases "c_deleting current")
  case True
  with assms(1) show ?thesis by (simp add: updateConfigWithError_def updateConfigWithSuccess_def)
next
  case False
  let ?m = "case err of None \<Rightarrow> msg | Some e \<Rightarrow> msg @ '' err '' @ e_msg e"
  let ?e = "desired_after_error now current cfg ?m recoverable"
  let ?s = "desired_after_success now current cfg schema msg"
  let ?g = "m_generation (c_meta cfg)"
  have runs: "updateConfigWithError k fm now cfg msg err recoverable w = applyStatus k fm current ?e w1"
    "updateConfigWithSuccess k fm now cfg schema msg w = applyStatus k fm current ?s w1"
    using assms(1) False by (auto simp: updateConfigWithError_def updateConfigWithSuccess_def Let_def)
  have devgen: "outcome (with_devgen g r) t = outcome r t" "ReadyFromApplied now (with_devgen g r) = ReadyFromApplied now r"
    "set_config_conditions cs (with_devgen g r) = with_devgen g (set_config_conditions cs r)" for g r t cs
    by (simp_all add: outcome_def ReadyFromApplied_def set_config_conditions_def with_devgen_def)
  have same: "outcome (r\<lparr>c_status := (c_status r)\<lparr>st_lastKnownGoodSchema := a, st_appliedConfig := b,
      st_deviationGeneration := c\<rparr>\<rparr>) t = outcome r t" for r a b c t
    by (simp add: outcome_def)
  note o = outcome_with_ready [OF assms(2), unfolded Let_def]
  have e: "outcome ?e ConditionTypeConfigReady = (ConditionFalse,
            if recoverable then ConditionReasonFailed else ConditionReasonUnrecoverable, ?g)"
    "outcome ?e ConditionTypeReady = (ConditionFalse,
            if recoverable then ConditionReasonFailed else ConditionReasonUnrecoverable, 0)"
    using o [of "ConfigFailed now ?g ?m" now] o [of "ConfigFailedUnrecoverable now ?g ?m" now]
    by (auto simp: desired_after_error_def Let_def devgen config_outcomes)
  have s: "outcome ?s ConditionTypeConfigReady = (ConditionTrue, ConditionReasonReady, ?g)"
    "outcome ?s ConditionTypeReady = (ConditionTrue, ConditionReasonReady, 0)"
    using o [of "ConfigReady now ?g msg" now]
    by (auto simp: desired_after_success_def Let_def same config_outcomes)
  have f: "st_appliedConfig (c_status ?e) = st_appliedConfig (c_status current)"
    "st_lastKnownGoodSchema (c_status ?e) = st_lastKnownGoodSchema (c_status current)"
    "st_deviationGeneration (c_status ?e) = (if recoverable then None else Some 0)"
    "st_appliedConfig (c_status ?s) = Some (c_spec cfg)"
    "st_lastKnownGoodSchema (c_status ?s) = schema" "st_deviationGeneration (c_status ?s) = None"
    by (simp_all add: desired_after_error_def desired_after_success_def Let_def)
  show ?thesis unfolding if_not_P [OF False]
    by (intro exI [of _ ?e] exI [of _ ?s] conjI) (rule runs e s f)+
qed

definition sample_current :: config where
  "sample_current = with_conditions [Failed 3 ''x''] sample_config"

theorem config_outcome_status_witness:
  "\<exists>e. updateConfigWithError (sample_k8s [sample_current]) ''fm'' 5 sample_config ''m'' None False ()
        = applyStatus (sample_k8s [sample_current]) ''fm'' sample_current e ()
     \<and> outcome e ConditionTypeConfigReady = (ConditionFalse, ConditionReasonUnrecoverable, 2)"
proof -
  have g: "k_GetConfig (sample_k8s [sample_current]) (c_namespace sample_config) (c_name sample_config) ()
      = (Inr sample_current, ())"
    by (simp add: sample_k8s_def sample_current_def)
  have d: "distinct (ctypes (c_conditions sample_current))" "\<not> c_deleting sample_current"
    "m_generation (c_meta sample_config) = 2"
    by (simp_all add: sample_current_def sample_config_def empty_meta_def)
  show ?thesis
    using config_outcome_status [OF g d(1), of "''fm''" 5 "''m''" None False None, unfolded if_not_P [OF d(2)]]
    by (auto simp: d(3))
qed

text \<open>
  The two outcome paths stamp different generations when the object changed on the API server
  after it was listed: success is recorded with the generation (and the spec) of the object that
  was transacted, while a failure is recorded with the generation of the object the finalizer
  patch returned. A spec change in between is then marked as the one that failed.
\<close>

theorem failure_stamps_patched_generation:
  assumes "k_PatchConfig k cfg (with_finalizers [transactor_finalizer] cfg) fm w = (Inr patched, w1)"
  shows "processFailedConfig k fm now cfg msg err recoverable w
      = updateConfigWithError k fm now patched msg err recoverable w1
    \<and> succeed_config k fm now schema cfg w = updateConfigWithSuccess k fm now cfg schema [] w1
    \<and> (distinct (ctypes (c_conditions current)) \<longrightarrow>
        outcome (desired_after_error now current patched msg False) ConditionTypeConfigReady
          = (ConditionFalse, ConditionReasonUnrecoverable, m_generation (c_meta patched))
        \<and> outcome (desired_after_success now current cfg schema msg) ConditionTypeConfigReady
          = (ConditionTrue, ConditionReasonReady, m_generation (c_meta cfg)))"
proof (intro conjI impI)
  show "processFailedConfig k fm now cfg msg err recoverable w
      = updateConfigWithError k fm now patched msg err recoverable w1"
    "succeed_config k fm now schema cfg w = updateConfigWithSuccess k fm now cfg schema [] w1"
    using assms by (simp_all add: processFailedConfig_def succeed_config_def applyFinalizer_def patchMetadata_def)
  assume d: "distinct (ctypes (c_conditions current))"
  then have d': "distinct (ctypes (c_conditions (with_devgen None current)))" by simp
  have w: "outcome (with_devgen g r) t = outcome r t" for g r t by (simp add: outcome_def)
  show "outcome (desired_after_error now current patched msg False) ConditionTypeConfigReady
          = (ConditionFalse, ConditionReasonUnrecoverable, m_generation (c_meta patched))"
    using outcome_set_same [OF d', of "ConfigFailedUnrecoverable now (m_generation (c_meta patched)) msg"]
    by (simp add: desired_after_error_def Let_def outcome_set_other w config_outcomes)
  have "outcome (r\<lparr>c_status := (c_status r)\<lparr>st_lastKnownGoodSchema := a, st_appliedConfig := b,
      st_deviationGeneration := c\<rparr>\<rparr>) t = outcome r t" for r a b c t
    by (simp add: outcome_def)
  then show "outcome (desired_after_success now current cfg schema msg) ConditionTypeConfigReady
          = (ConditionTrue, ConditionReasonReady, m_generation (c_meta cfg))"
    using outcome_set_same [OF d, of "ConfigReady now (m_generation (c_meta cfg)) msg"]
    by (simp add: desired_after_success_def Let_def outcome_set_other config_outcomes)
qed

theorem failure_stamps_patched_generation_witness:
  "outcome (desired_after_error 5 sample_current
      (sample_current\<lparr>c_meta := (c_meta sample_current)\<lparr>m_generation := 3\<rparr>\<rparr>) [] False)
      ConditionTypeConfigReady = (ConditionFalse, ConditionReasonUnrecoverable, 3)"
proof -
  let ?p = "sample_current\<lparr>c_meta := (c_meta sample_current)\<lparr>m_generation := 3\<rparr>\<rparr>"
  let ?k = "(sample_k8s [])\<lparr>k_PatchConfig := (\<lambda>a b fm w. (Inr ?p, w))\<rparr>"
  have p: "k_PatchConfig ?k sample_config (with_finalizers [transactor_finalizer] sample_config) fm ()
      = (Inr ?p, ())" for fm by simp
  have "distinct (ctypes (c_conditions sample_current))" by (simp add: sample_current_def)
  then show ?thesis
    using failure_stamps_patched_generation [OF p, where current = sample_current and now = 5 and msg = "[]"]
    by simp
qed

section \<open>Recovery\<close>

lemma intent_error_loop_None: "intent_error_loop key es errs = None \<longleftrightarrow> es = [] \<and> errs = None"
  by (induction es arbitrary: errs) auto

lemma response_intents_None:
  "fst (response_intents is errs ws) = None \<longleftrightarrow> list_all (\<lambda>(k, i). ri_errors i = []) is \<and> errs = None"
  by (induction "is" errs ws rule: response_intents.induct) (auto simp: intent_error_loop_None)

lemma processTransactionResponse_ok:
  "snd (processTransactionResponse rsp err) = None \<longleftrightarrow> answer_ok rsp err"
proof -
  have "fst (response_intents is None ws) = None \<longleftrightarrow> list_all (\<lambda>(k, i). ri_errors i = []) is" for "is" ws
    by (simp add: response_intents_None)
  then show ?thesis
    by (auto simp: processTransactionResponse_def answer_ok_def Let_def response_intents_None
        split: option.splits prod.splits) (metis fst_conv response_intents_None option.distinct(1))+
qed

lemma recovery_intents_shape:
  "recovery_intents parse env cs = Inr ints \<Longrightarrow>
     list_all2 (\<lambda>c i. ti_intent i = GetGVKNSN (c_meta c) \<and> ti_previouslyApplied i \<and> \<not> ti_delete i
       \<and> GetIntentUpdate parse c False = Inr (ti_update i)) cs ints"
  by (induction parse env cs arbitrary: ints rule: recovery_intents.induct)
     (auto simp: empty_intent_def split: sum.splits)

lemma GetIntentUpdate_applied:
  "st_appliedConfig (c_status c) = Some a \<Longrightarrow> GetIntentUpdate parse c False = intent_updates parse (s_config a)"
  by (simp add: GetIntentUpdate_def)

fun ds_call :: "'p call \<Rightarrow> bool" where
  \<comment> \<open>a call on the data-server\<close>
  "ds_call (CSet q) = True" | "ds_call (CConfirm n i) = True" | "ds_call (CCancel n i) = True"
| "ds_call (CGetDS n) = True" | "ds_call (CCreateDS q) = True" | "ds_call (CDeleteDS n) = True"
| "ds_call c = False"

abbreviation quiet :: "'p call \<Rightarrow> bool" where "quiet c \<equiv> \<not> ds_call c"

lemma emits_mono: "emits P f \<Longrightarrow> (\<And>c. P c \<Longrightarrow> Q c) \<Longrightarrow> emits Q f"
  unfolding moves_def extends_def by meson

lemma quiet_calls: "pre_call c \<Longrightarrow> quiet c" "post_call c \<Longrightarrow> quiet c"
  by (cases c; simp)+

lemma quiet_updateConfigs: "emits quiet (updateConfigsForTarget (trace_k8s k) fm tg mutate)"
  unfolding updateConfigsForTarget_def [abs_def]
proof (intro log.sums log.loops log.ret)
  show "emits quiet (ListConfigsPerTarget (trace_k8s k) tg)"
    unfolding ListConfigsPerTarget_def [abs_def] by (simp add: emits_tcall)
  show "emits quiet (\<lambda>w. case mutate (with_devgen None c) of None \<Rightarrow> (None, w)
      | Some desired \<Rightarrow> applyStatus (trace_k8s k) fm c desired w)" for c
    by (cases "mutate (with_devgen None c)") (auto intro: log.ret emits_mono [OF emits_applyStatus quiet_calls(2)])
qed

lemma quiet_setRecovered: "emits quiet (setRecoveredConfigs (trace_k8s k) fm tg cond)"
  unfolding setRecoveredConfigs_def by (rule quiet_updateConfigs)

lemma silent_step:
  "emits quiet f \<Longrightarrow> f (w, cs) = (r, (w', cs')) \<Longrightarrow> filter ds_call cs' = filter ds_call cs"
  by (drule (1) emitsD) (auto simp: filter_empty_conv)


definition sample_applied :: config where
  "sample_applied = sample_config\<lparr>c_status := (c_status sample_config)
     \<lparr>st_appliedConfig := Some (c_spec sample_config)\<rparr>\<rparr>"

definition sample_recover :: "nat \<Rightarrow> (string option \<times> goerr option) \<times> nat \<times> string call list" where
  \<comment> \<open>the callback sets the world to 99\<close>
  "sample_recover w = RecoverConfigs (\<lambda>p. Inr p) None (\<lambda>k. fst k @ ''.'' @ snd k) 7
     (trace_k8s (sample_k8s [sample_applied])) ''fm'' (trace_ds sample_ds) (apfst (\<lambda>w. 99)) sample_target (w, [])"


end
