(* ===== verification/Subscriptions.thy ===== *)
theory Subscriptions
  imports Services
begin

text \<open>
  The telemetry subscriptions of a target (\<open>pkg/sdc/target/manager/subscription.go\<close>) and the
  helpers of the Subscription CR they use. Per path it keeps the subscriptions of every CR and the
  one in force. The path store (\<open>github.com/henderiw/store\<close>) is not code of the repository: it
  is a record of operations on an abstract state \<open>'s\<close>, and \<open>store_laws\<close> is what its interface
  documents. Every exported method holds the mutex for its whole body, so each is one atomic step.
\<close>

section \<open>The CR\<close>

record sub_param =
  sp_name :: string
  sp_description :: "string option"
  sp_labels :: "string gomap"
  sp_adminState :: "string option"
  sp_mode :: string
  sp_interval :: "int option"
  sp_paths :: "string list"

record sub_cr =
  scr_namespace :: string
  scr_name :: string
  scr_port :: "32 word"
  scr_encoding :: "string option"
  scr_subscriptions :: "sub_param list"

definition GetIntervalSeconds :: "sub_param \<Rightarrow> int" where
  \<comment> \<open>the duration is in nanoseconds; \<open>int(d.Seconds())\<close> truncates towards zero\<close>
  "GetIntervalSeconds r =
     (if sp_mode r = ''onChange'' then 0
      else case sp_interval r of None \<Rightarrow> 15
        | Some d \<Rightarrow> sgn d * (\<bar>d\<bar> div 1000000000))"

definition IsEnabled :: "sub_param \<Rightarrow> bool" where
  "IsEnabled r = (case sp_adminState r of None \<Rightarrow> False | Some a \<Rightarrow> a = ''enabled'')"

definition GetEncoding :: "sub_cr \<Rightarrow> string" where
  "GetEncoding r = (case scr_encoding r of None \<Rightarrow> ''ASCII'' | Some e \<Rightarrow> e)"

definition sub_nsn :: "sub_cr \<Rightarrow> string" where
  \<comment> \<open>\<open>GetNamespacedName().String()\<close>\<close>
  "sub_nsn r = scr_namespace r @ ''/'' @ scr_name r"

section \<open>State\<close>

record sub_entry =
  se_nsn :: string
  se_name :: string
  se_description :: "string option"
  se_labels :: "string gomap"
  se_enabled :: bool
  se_interval :: int
  se_encoding :: string

record path_subs =
  ps_current :: "sub_entry option"
  ps_all :: "sub_entry gomap"

record 's path_store =
  st_get :: "string \<Rightarrow> 's \<Rightarrow> goerr + path_subs"
  st_apply :: "string \<Rightarrow> path_subs \<Rightarrow> 's \<Rightarrow> goerr option \<times> 's"
  st_delete :: "string \<Rightarrow> 's \<Rightarrow> goerr option \<times> 's"
  st_list :: "'s \<Rightarrow> (string \<times> path_subs) list"

record 's subscriptions =
  sb_paths :: 's
  sb_ports :: "nat gomap"

type_synonym enc_paths = "(string \<times> int) list gomap"

section \<open>Operations\<close>

fun pick_current :: "sub_entry gomap \<Rightarrow> string list \<Rightarrow> sub_entry option \<Rightarrow> sub_entry option" where
  "pick_current all [] cur = cur"
| "pick_current all (n # ns) cur =
     (case map_of all n of
        None \<Rightarrow> pick_current all ns cur
      | Some s \<Rightarrow>
          if \<not> se_enabled s then pick_current all ns cur
          else if (case cur of None \<Rightarrow> True | Some c \<Rightarrow> se_interval s < se_interval c)
          then pick_current all ns (Some s)
          else pick_current all ns cur)"

definition recomputeCurrent :: "path_subs \<Rightarrow> path_subs" where
  "recomputeCurrent ps =
     ps\<lparr>ps_current := pick_current (ps_all ps) (sort (gm_keys (ps_all ps))) None\<rparr>"

definition getSubscription :: "string \<Rightarrow> sub_param \<Rightarrow> string \<Rightarrow> sub_entry" where
  "getSubscription nsn param encoding =
     \<lparr>se_nsn = nsn, se_name = sp_name param, se_description = sp_description param,
      se_labels = sp_labels param, se_enabled = IsEnabled param,
      se_interval = GetIntervalSeconds param, se_encoding = encoding\<rparr>"

definition getSubscriptionNSNName :: "string \<Rightarrow> string \<Rightarrow> string" where
  "getSubscriptionNSNName nsn name = nsn @ ''.'' @ name"

definition owned_names :: "string \<Rightarrow> path_subs \<Rightarrow> string list" where
  "owned_names nsn ps = map fst (filter (\<lambda>(n, s). se_nsn s = nsn) (ps_all ps))"

definition existing_step :: "string \<Rightarrow> string \<times> path_subs \<Rightarrow> string list gomap \<Rightarrow> string list gomap" where
  "existing_step nsn kp m =
     (if owned_names nsn (snd kp) = [] then m
      else gm_put (fst kp) (remdups (gm_index [] m (fst kp) @ owned_names nsn (snd kp))) m)"

definition getExistingCRSubscription ::
  "'s path_store \<Rightarrow> string \<Rightarrow> 's \<Rightarrow> string list gomap" where
  \<comment> \<open>path to the set of names the CR owns there; a path without any has no entry\<close>
  "getExistingCRSubscription st nsn s =
     fold (existing_step nsn) (st_list st s) []"

definition removeLocked ::
  "'s path_store \<Rightarrow> string \<Rightarrow> string list \<Rightarrow> 's \<Rightarrow> goerr option \<times> 's" where
  "removeLocked st path names s =
     (case st_get st path s of
        Inl e \<Rightarrow> (None, s)
      | Inr ps \<Rightarrow>
          (let ps = ps\<lparr>ps_all := fold gm_delete names (ps_all ps)\<rparr> in
           if length (ps_all ps) = 0 then st_delete st path s
           else st_apply st path (recomputeCurrent ps) s))"

definition add_path ::
  "'s path_store \<Rightarrow> string \<Rightarrow> sub_entry \<Rightarrow> string \<Rightarrow> (string list gomap \<times> goerr option) \<times> 's
     \<Rightarrow> (string list gomap \<times> goerr option) \<times> 's" where
  "add_path st nm new path x =
     (let ((desired, errs), s) = x;
          desired = gm_put path (List.insert nm (gm_index [] desired path)) desired;
          ps = (case st_get st path s of Inl e \<Rightarrow> \<lparr>ps_current = None, ps_all = []\<rparr> | Inr ps \<Rightarrow> ps);
          ps = recomputeCurrent (ps\<lparr>ps_all := gm_put nm new (ps_all ps)\<rparr>);
          (err, s) = st_apply st path ps s
      in ((desired, err_join errs err), s))"

fun add_params ::
  "'s path_store \<Rightarrow> sub_cr \<Rightarrow> sub_param list \<Rightarrow> (string list gomap \<times> goerr option) \<times> 's
     \<Rightarrow> (string list gomap \<times> goerr option) \<times> 's" where
  "add_params st cr [] x = x"
| "add_params st cr (p # ps) x =
     add_params st cr ps
       (fold (add_path st (getSubscriptionNSNName (sub_nsn cr) (sp_name p))
          (getSubscription (sub_nsn cr) p (GetEncoding cr))) (sp_paths p) x)"

fun prune_paths ::
  "'s path_store \<Rightarrow> string list gomap \<Rightarrow> string list gomap \<Rightarrow> goerr option \<times> 's \<Rightarrow> goerr option \<times> 's" where
  "prune_paths st desired [] x = x"
| "prune_paths st desired ((path, owned) # m) x =
     (let (errs, s) = x; stale = filter (\<lambda>n. n \<notin> set (gm_index [] desired path)) owned in
      if length stale = 0 then prune_paths st desired m (errs, s)
      else let (err, s) = removeLocked st path stale s in
        prune_paths st desired m (err_join errs err, s))"

definition AddSubscription ::
  "'s path_store \<Rightarrow> sub_cr \<Rightarrow> 's subscriptions \<Rightarrow> goerr option \<times> 's subscriptions" where
  "AddSubscription st cr r =
     (let ports = gm_put (sub_nsn cr) (unat (scr_port cr)) (sb_ports r);
          ((desired, errs), s) = add_params st cr (scr_subscriptions cr) (([], None), sb_paths r);
          (errs, s) = prune_paths st desired (getExistingCRSubscription st (sub_nsn cr) s) (errs, s)
      in (errs, \<lparr>sb_paths = s, sb_ports = ports\<rparr>))"

fun remove_paths ::
  "'s path_store \<Rightarrow> string list gomap \<Rightarrow> goerr option \<times> 's \<Rightarrow> goerr option \<times> 's" where
  "remove_paths st [] x = x"
| "remove_paths st ((path, owned) # m) x =
     (let (errs, s) = x; (err, s) = removeLocked st path owned s in
      remove_paths st m (err_join errs err, s))"

definition DelSubscription ::
  "'s path_store \<Rightarrow> sub_cr \<Rightarrow> 's subscriptions \<Rightarrow> goerr option \<times> 's subscriptions" where
  "DelSubscription st cr r =
     (let (errs, s) = remove_paths st (getExistingCRSubscription st (sub_nsn cr) (sb_paths r))
            (None, sb_paths r)
      in (errs, \<lparr>sb_paths = s, sb_ports = gm_delete (sub_nsn cr) (sb_ports r)\<rparr>))"

definition HasSubscriptions :: "'s path_store \<Rightarrow> 's subscriptions \<Rightarrow> bool" where
  "HasSubscriptions st r \<longleftrightarrow> length (st_list st (sb_paths r)) \<noteq> 0"

definition collect_path :: "string \<times> path_subs \<Rightarrow> enc_paths \<Rightarrow> enc_paths" where
  "collect_path kp m =
     (case ps_current (snd kp) of None \<Rightarrow> m
      | Some c \<Rightarrow> gm_put (se_encoding c)
          (gm_index [] m (se_encoding c) @ [(fst kp, se_interval c)]) m)"

definition GetPaths :: "'s path_store \<Rightarrow> 's subscriptions \<Rightarrow> enc_paths" where
  "GetPaths st r = map (\<lambda>(enc, paths). (enc, sort_key fst paths))
     (fold collect_path (st_list st (sb_paths r)) [])"

definition HasActivePaths :: "'s path_store \<Rightarrow> 's subscriptions \<Rightarrow> bool" where
  "HasActivePaths st r \<longleftrightarrow> length (GetPaths st r) > 0"

definition Port :: "'s subscriptions \<Rightarrow> nat" where
  "Port r =
     (let nsns = map fst (filter (\<lambda>(n, p). p \<noteq> 0) (sb_ports r)) in
      if length nsns = 0 then 0 else gm_index 0 (sb_ports r) (hd (sort nsns)))"

section \<open>The store's contract\<close>

lemma gm_index_Nil [simp]: "gm_index z [] k = z"
  by (simp add: gm_index_def)

definition store_laws :: "'s path_store \<Rightarrow> ('s \<Rightarrow> string \<Rightarrow> path_subs option) \<Rightarrow> bool" where
  \<comment> \<open>\<open>look\<close> is the map the store holds\<close>
  "store_laws st look \<longleftrightarrow>
     (\<forall>s k. (case look s k of None \<Rightarrow> isl (st_get st k s) | Some v \<Rightarrow> st_get st k s = Inr v))
     \<and> (\<forall>s k v. fst (st_apply st k v s) = None \<and> look (snd (st_apply st k v s)) = (look s)(k \<mapsto> v))
     \<and> (\<forall>s k. look s k \<noteq> None \<longrightarrow>
          fst (st_delete st k s) = None \<and> look (snd (st_delete st k s)) = (look s)(k := None))
     \<and> (\<forall>s. distinct (map fst (st_list st s)) \<and> map_of (st_list st s) = look s)"

lemma store_lawsD:
  assumes "store_laws st look"
  shows "look s k = Some v \<Longrightarrow> st_get st k s = Inr v"
    and "look s k = None \<Longrightarrow> \<exists>e. st_get st k s = Inl e"
    and "fst (st_apply st k v s) = None" "look (snd (st_apply st k v s)) = (look s)(k \<mapsto> v)"
    and "look s k = Some v \<Longrightarrow> fst (st_delete st k s) = None"
    and "look s k = Some v \<Longrightarrow> look (snd (st_delete st k s)) = (look s)(k := None)"
    and "distinct (map fst (st_list st s))" "map_of (st_list st s) = look s"
proof -
  have g: "case look s k of None \<Rightarrow> isl (st_get st k s) | Some v \<Rightarrow> st_get st k s = Inr v"
    using assms unfolding store_laws_def by blast
  show "look s k = Some v \<Longrightarrow> st_get st k s = Inr v" using g by simp
  show "look s k = None \<Longrightarrow> \<exists>e. st_get st k s = Inl e" using g by (auto simp: isl_def)
  show "fst (st_apply st k v s) = None" "look (snd (st_apply st k v s)) = (look s)(k \<mapsto> v)"
    using assms unfolding store_laws_def by blast+
  show "look s k = Some v \<Longrightarrow> fst (st_delete st k s) = None"
    "look s k = Some v \<Longrightarrow> look (snd (st_delete st k s)) = (look s)(k := None)"
    using assms unfolding store_laws_def by simp_all
  show "distinct (map fst (st_list st s))" "map_of (st_list st s) = look s"
    using assms unfolding store_laws_def by blast+
qed

definition entry :: "('s \<Rightarrow> string \<Rightarrow> path_subs option) \<Rightarrow> 's \<Rightarrow> string \<Rightarrow> string \<Rightarrow> sub_entry option" where
  "entry look s path n = (case look s path of None \<Rightarrow> None | Some ps \<Rightarrow> map_of (ps_all ps) n)"

definition paths_inv :: "('s \<Rightarrow> string \<Rightarrow> path_subs option) \<Rightarrow> 's \<Rightarrow> bool" where
  \<comment> \<open>no empty path is kept, and the subscription in force is always the recomputed one\<close>
  "paths_inv look s \<longleftrightarrow>
     (\<forall>p ps. look s p = Some ps \<longrightarrow> ps_all ps \<noteq> [] \<and> gm_ok (ps_all ps) \<and> recomputeCurrent ps = ps)"

lemma recomputeCurrent_sel [simp]: "ps_all (recomputeCurrent ps) = ps_all ps"
  "recomputeCurrent (recomputeCurrent ps) = recomputeCurrent ps"
  by (simp_all add: recomputeCurrent_def)

section \<open>The subscription in force\<close>

definition better :: "string \<times> sub_entry \<Rightarrow> string \<times> sub_entry \<Rightarrow> bool" where
  "better x y \<longleftrightarrow> se_interval (snd x) < se_interval (snd y)
     \<or> se_interval (snd x) = se_interval (snd y) \<and> fst x \<le> fst y"

lemma pick_current_spec:
  assumes "sorted (ns0 @ ns)" "distinct (ns0 @ ns)" "set (ns0 @ ns) \<subseteq> dom (map_of all)"
    and "case cur of None \<Rightarrow> \<forall>n \<in> set ns0. \<forall>s. map_of all n = Some s \<longrightarrow> \<not> se_enabled s
         | Some c \<Rightarrow> \<exists>n \<in> set ns0. map_of all n = Some c \<and> se_enabled c
             \<and> (\<forall>n' \<in> set ns0. \<forall>s'. map_of all n' = Some s' \<and> se_enabled s' \<longrightarrow> better (n, c) (n', s'))"
  shows "case pick_current all ns cur of
      None \<Rightarrow> \<forall>n \<in> set (ns0 @ ns). \<forall>s. map_of all n = Some s \<longrightarrow> \<not> se_enabled s
    | Some c \<Rightarrow> \<exists>n \<in> set (ns0 @ ns). map_of all n = Some c \<and> se_enabled c
        \<and> (\<forall>n' \<in> set (ns0 @ ns). \<forall>s'. map_of all n' = Some s' \<and> se_enabled s' \<longrightarrow> better (n, c) (n', s'))"
  using assms
proof (induction ns arbitrary: ns0 cur)
  case Nil
  then show ?case by (cases cur) auto
next
  case (Cons n ns)
  from Cons.prems(3) obtain s where s: "map_of all n = Some s" by auto
  from Cons.prems(1) have le: "\<forall>m \<in> set ns0. m \<le> n" by (auto simp: sorted_append)
  let ?cur = "if se_enabled s \<and> (case cur of None \<Rightarrow> True | Some c \<Rightarrow> se_interval s < se_interval c)
     then Some s else cur"
  have step: "pick_current all (n # ns) cur = pick_current all ns ?cur"
    using s by (auto split: option.splits)
  have inv: "case ?cur of None \<Rightarrow> \<forall>m \<in> set (ns0 @ [n]). \<forall>s. map_of all m = Some s \<longrightarrow> \<not> se_enabled s
         | Some c \<Rightarrow> \<exists>m \<in> set (ns0 @ [n]). map_of all m = Some c \<and> se_enabled c
             \<and> (\<forall>n' \<in> set (ns0 @ [n]). \<forall>s'. map_of all n' = Some s' \<and> se_enabled s' \<longrightarrow> better (m, c) (n', s'))"
  proof (cases "se_enabled s \<and> (case cur of None \<Rightarrow> True | Some c \<Rightarrow> se_interval s < se_interval c)")
    case True
    then have "better (n, s) (m, s')" if "m \<in> set ns0" "map_of all m = Some s'" "se_enabled s'" for m s'
      using that Cons.prems(4) by (cases cur) (fastforce simp: better_def)+
    with True s show ?thesis by (auto simp: better_def)
  next
    case False
    with s le Cons.prems(4) show ?thesis by (cases cur) (auto simp: better_def)
  qed
  from Cons.prems have p: "sorted ((ns0 @ [n]) @ ns)" "distinct ((ns0 @ [n]) @ ns)"
    "set ((ns0 @ [n]) @ ns) \<subseteq> dom (map_of all)" by simp_all
  from Cons.IH [OF p inv] show ?case unfolding step append_assoc append_Cons append_Nil .
qed

lemma recomputeCurrent_best:
  assumes "gm_ok (ps_all ps)"
  shows "case ps_current (recomputeCurrent ps) of
      None \<Rightarrow> \<forall>n s. map_of (ps_all ps) n = Some s \<longrightarrow> \<not> se_enabled s
    | Some c \<Rightarrow> \<exists>n. map_of (ps_all ps) n = Some c \<and> se_enabled c
        \<and> (\<forall>n' s'. map_of (ps_all ps) n' = Some s' \<and> se_enabled s' \<longrightarrow> better (n, c) (n', s'))"
proof -
  let ?ns = "sort (gm_keys (ps_all ps))"
  have dom: "n \<in> set ?ns \<longleftrightarrow> map_of (ps_all ps) n \<noteq> None" for n
    by (simp add: map_of_eq_None_iff)
  have "case pick_current (ps_all ps) ?ns None of
      None \<Rightarrow> \<forall>n \<in> set ([] @ ?ns). \<forall>s. map_of (ps_all ps) n = Some s \<longrightarrow> \<not> se_enabled s
    | Some c \<Rightarrow> \<exists>n \<in> set ([] @ ?ns). map_of (ps_all ps) n = Some c \<and> se_enabled c
        \<and> (\<forall>n' \<in> set ([] @ ?ns). \<forall>s'. map_of (ps_all ps) n' = Some s' \<and> se_enabled s' \<longrightarrow> better (n, c) (n', s'))"
    using assms by (intro pick_current_spec) (auto simp: dom_map_of_conv_image_fst)
  then show ?thesis unfolding append_Nil Ball_def Bex_def dom
    by (auto simp: recomputeCurrent_def split: option.splits)
qed

section \<open>Adding and removing\<close>

lemma entry_apply:
  "store_laws st look \<Longrightarrow> entry look (snd (st_apply st k ps s)) p n
     = (if p = k then map_of (ps_all ps) n else entry look s p n)"
  by (simp add: entry_def store_lawsD(4))

lemma map_of_fold_delete:
  "map_of (fold gm_delete ns m) n = (if n \<in> set ns then None else map_of m n)"
  by (induction ns arbitrary: m) auto

lemma gm_ok_fold_delete: "gm_ok m \<Longrightarrow> gm_ok (fold gm_delete ns m)"
  by (induction ns arbitrary: m) auto

lemma removeLocked_entry:
  assumes "store_laws st look" "paths_inv look s"
  shows "fst (removeLocked st path ns s) = None
    \<and> paths_inv look (snd (removeLocked st path ns s))
    \<and> entry look (snd (removeLocked st path ns s)) p n
        = (if p = path \<and> n \<in> set ns then None else entry look s p n)"
proof (cases "look s path")
  case None
  with store_lawsD(2) [OF assms(1) None] assms(2) show ?thesis
    by (auto simp: removeLocked_def entry_def)
next
  case (Some ps)
  note g = store_lawsD(1) [OF assms(1) Some]
  let ?all = "fold gm_delete ns (ps_all ps)"
  have ok: "gm_ok ?all" using assms(2) Some by (auto simp: paths_inv_def intro: gm_ok_fold_delete)
  show ?thesis
  proof (cases "?all = []")
    case True
    then have "n \<notin> set ns \<Longrightarrow> map_of (ps_all ps) n = None" for n
      using map_of_fold_delete [of ns "ps_all ps" n] by simp
    with True g Some assms store_lawsD(5,6) [OF assms(1) Some] show ?thesis
      by (auto simp: removeLocked_def entry_def paths_inv_def Let_def)
  next
    case False
    then have r: "removeLocked st path ns s = st_apply st path (recomputeCurrent (ps\<lparr>ps_all := ?all\<rparr>)) s"
      using g by (simp add: removeLocked_def Let_def)
    have "paths_inv look (snd (removeLocked st path ns s))"
      using assms(2) False ok by (auto simp: r paths_inv_def store_lawsD(4) [OF assms(1)])
    then show ?thesis using Some
      by (simp add: r store_lawsD(3,4) [OF assms(1)] map_of_fold_delete entry_def)
  qed
qed

lemma owned_names_iff:
  "gm_ok (ps_all ps) \<Longrightarrow> n \<in> set (owned_names nsn ps)
     \<longleftrightarrow> (\<exists>e. map_of (ps_all ps) n = Some e \<and> se_nsn e = nsn)"
  by (force simp: owned_names_def image_iff gm_ok_map_of_mem [symmetric])

lemma existing_step_index:
  "gm_index [] (existing_step nsn (k, ps) m) p
     = (if p = k \<and> owned_names nsn ps \<noteq> [] then remdups (gm_index [] m k @ owned_names nsn ps)
        else gm_index [] m p)"
  "gm_ok m \<Longrightarrow> gm_ok (existing_step nsn (k, ps) m)"
  by (auto simp: existing_step_def gm_index_def)

lemma existing_fold:
  assumes "distinct (map fst l)" "\<forall>k \<in> fst ` set l. gm_index [] m k = []" "gm_ok m"
  shows "gm_ok (fold (existing_step nsn) l m)
    \<and> set (gm_index [] (fold (existing_step nsn) l m) p)
     = (case map_of l p of Some ps \<Rightarrow> set (owned_names nsn ps) | None \<Rightarrow> set (gm_index [] m p))"
  using assms
proof (induction l arbitrary: m)
  case Nil
  then show ?case by simp
next
  case (Cons a l)
  obtain k ps where a: "a = (k, ps)" by fastforce
  have k: "map_of l k = None" using Cons.prems(1) a by (simp add: map_of_eq_None_iff)
  have mk: "gm_index [] m k = []" using Cons.prems(2) a by simp
  have "\<forall>k' \<in> fst ` set l. gm_index [] (existing_step nsn a m) k' = []"
    using Cons.prems(1,2) a by (auto simp: existing_step_index)
  then have IH: "gm_ok (fold (existing_step nsn) l (existing_step nsn a m))
    \<and> set (gm_index [] (fold (existing_step nsn) l (existing_step nsn a m)) p)
     = (case map_of l p of Some ps \<Rightarrow> set (owned_names nsn ps)
        | None \<Rightarrow> set (gm_index [] (existing_step nsn a m) p))"
    using Cons.prems existing_step_index(2) a by (intro Cons.IH) auto
  have "map_of (a # l) p = (if p = k then Some ps else map_of l p)" using a by simp
  moreover have "set (gm_index [] (existing_step nsn a m) p)
      = (if p = k then set (owned_names nsn ps) else set (gm_index [] m p))"
    unfolding a existing_step_index(1) using mk by auto
  ultimately show ?case using IH k by (cases "p = k"; cases "map_of l p") simp_all
qed

lemma getExisting_iff:
  assumes "store_laws st look" "paths_inv look s"
  shows "gm_ok (getExistingCRSubscription st nsn s)
    \<and> (n \<in> set (gm_index [] (getExistingCRSubscription st nsn s) p)
        \<longleftrightarrow> (\<exists>e. entry look s p n = Some e \<and> se_nsn e = nsn))"
proof -
  note f = existing_fold [OF store_lawsD(7) [OF assms(1), of s], of "[]" nsn p,
      folded getExistingCRSubscription_def, simplified]
  show ?thesis
  proof (cases "look s p")
    case None
    with f show ?thesis by (simp add: store_lawsD(8) [OF assms(1)] entry_def)
  next
    case (Some ps)
    with assms(2) have "gm_ok (ps_all ps)" by (auto simp: paths_inv_def)
    with f Some show ?thesis
      by (simp add: store_lawsD(8) [OF assms(1)] entry_def owned_names_iff del: map_of_eq_Some_iff)
  qed
qed

lemma remove_paths_entry:
  assumes "store_laws st look" "paths_inv look s" "gm_ok m"
  shows "fst (remove_paths st m (None, s)) = None
    \<and> paths_inv look (snd (remove_paths st m (None, s)))
    \<and> entry look (snd (remove_paths st m (None, s))) p n
        = (if n \<in> set (gm_index [] m p) then None else entry look s p n)"
  using assms(2,3)
proof (induction m arbitrary: s)
  case Nil
  then show ?case by (simp add: gm_index_def)
next
  case (Cons a m)
  obtain path ns where a: "a = (path, ns)" by fastforce
  obtain e s1 where r: "removeLocked st path ns s = (e, s1)" by fastforce
  note R = removeLocked_entry [OF assms(1) Cons.prems(1), of path ns, unfolded r, simplified]
  have k: "map_of m path = None" using Cons.prems(2) a by (simp add: map_of_eq_None_iff)
  from Cons.IH [of s1] Cons.prems(2) R a r k show ?case
    by (auto simp: gm_index_def split: option.splits)
qed

lemma prune_paths_as_remove:
  "prune_paths st desired m (errs, s)
     = remove_paths st (filter (\<lambda>(p, ns). ns \<noteq> [])
         (map (\<lambda>(p, ns). (p, filter (\<lambda>n. n \<notin> set (gm_index [] desired p)) ns)) m)) (errs, s)"
  by (induction m arbitrary: errs s) (auto simp: Let_def split: prod.splits)

lemma gm_index_filtered:
  "gm_ok m \<Longrightarrow> n \<in> set (gm_index [] (filter (\<lambda>(p, ns). ns \<noteq> []) (map (\<lambda>(p, ns). (p, filter (Q p) ns)) m)) p)
     \<longleftrightarrow> n \<in> set (gm_index [] m p) \<and> Q p n"
proof (induction m)
  case Nil
  then show ?case by simp
next
  case (Cons a m)
  obtain k ns where a: "a = (k, ns)" by fastforce
  let ?f = "\<lambda>m. filter (\<lambda>(p, ns). ns \<noteq> []) (map (\<lambda>(p, ns). (p, filter (Q p) ns)) m)"
  from Cons.prems a have k: "map_of m k = None" by (simp add: map_of_eq_None_iff)
  have f: "gm_index [] (?f (a # m)) p = (if k = p \<and> filter (Q k) ns \<noteq> [] then filter (Q k) ns else gm_index [] (?f m) p)"
    using a by (simp add: gm_index_def)
  have g: "gm_index [] (a # m) p = (if k = p then ns else gm_index [] m p)"
    using a by (simp add: gm_index_def)
  from Cons have IH: "n \<in> set (gm_index [] (?f m) p) \<longleftrightarrow> n \<in> set (gm_index [] m p) \<and> Q p n" by simp
  have "k = p \<Longrightarrow> gm_index [] m p = []" using k by (simp add: gm_index_def)
  then show ?case unfolding f g using IH by (auto simp: filter_empty_conv)
qed

definition decl :: "sub_cr \<Rightarrow> (string \<times> string \<times> sub_entry) list" where
  \<comment> \<open>what the CR declares, in the order it is stored: path, name and subscription\<close>
  "decl cr = concat (map (\<lambda>p. map (\<lambda>path. (path, getSubscriptionNSNName (sub_nsn cr) (sp_name p),
      getSubscription (sub_nsn cr) p (GetEncoding cr))) (sp_paths p)) (scr_subscriptions cr))"

lemma add_params_decl:
  "add_params st cr (scr_subscriptions cr) x = fold (\<lambda>(path, n, e). add_path st n e path) (decl cr) x"
proof -
  have "add_params st cr ps x = fold (\<lambda>(path, n, e). add_path st n e path)
     (concat (map (\<lambda>p. map (\<lambda>path. (path, getSubscriptionNSNName (sub_nsn cr) (sp_name p),
      getSubscription (sub_nsn cr) p (GetEncoding cr))) (sp_paths p)) ps)) x" for ps
    by (induction ps arbitrary: x) (simp_all add: fold_map o_def)
  then show ?thesis by (simp add: decl_def)
qed

lemma add_path_entry:
  assumes "store_laws st look" "paths_inv look s"
  shows "\<exists>s'. add_path st nm new path ((desired, None), s)
        = ((gm_put path (List.insert nm (gm_index [] desired path)) desired, None), s')
      \<and> paths_inv look s'
      \<and> (\<forall>p n. entry look s' p n = (if p = path \<and> n = nm then Some new else entry look s p n))"
proof -
  let ?ps = "case st_get st path s of Inl e \<Rightarrow> \<lparr>ps_current = None, ps_all = []\<rparr> | Inr ps \<Rightarrow> ps"
  let ?new = "recomputeCurrent (?ps\<lparr>ps_all := gm_put nm new (ps_all ?ps)\<rparr>)"
  let ?s = "snd (st_apply st path ?new s)"
  have all: "map_of (ps_all ?ps) n = entry look s path n" for n
    using store_lawsD(1,2) [OF assms(1), of s path] by (cases "look s path") (force simp: entry_def)+
  have ok: "gm_ok (ps_all ?ps)"
    using store_lawsD(1,2) [OF assms(1), of s path] assms(2)
    by (cases "look s path") (force simp: paths_inv_def)+
  have "add_path st nm new path ((desired, None), s)
      = ((gm_put path (List.insert nm (gm_index [] desired path)) desired, None), ?s)"
    using store_lawsD(3) [OF assms(1), of path ?new s]
    by (cases "st_apply st path ?new s") (simp add: add_path_def Let_def)
  moreover have "paths_inv look ?s"
    using assms(2) ok by (auto simp: paths_inv_def store_lawsD(4) [OF assms(1)])
  moreover have "entry look ?s p n = (if p = path \<and> n = nm then Some new else entry look s p n)" for p n
    by (simp add: entry_apply [OF assms(1)] all)
  ultimately show ?thesis by blast
qed

lemma add_decl_entry:
  assumes "store_laws st look" "paths_inv look s"
  shows "\<exists>s' desired'. fold (\<lambda>(path, n, e). add_path st n e path) ds ((desired, None), s)
        = ((desired', None), s')
      \<and> paths_inv look s'
      \<and> (\<forall>p n. entry look s' p n = (case map_of (rev (map (\<lambda>(path, n, e). ((path, n), e)) ds)) (p, n) of
            Some e \<Rightarrow> Some e | None \<Rightarrow> entry look s p n))
      \<and> (\<forall>p n. n \<in> set (gm_index [] desired' p)
            \<longleftrightarrow> n \<in> set (gm_index [] desired p) \<or> (\<exists>e. (p, n, e) \<in> set ds))"
  using assms(2)
proof (induction ds arbitrary: s desired)
  case Nil
  then show ?case by auto
next
  case (Cons a ds)
  obtain path nm new where a: "a = (path, nm, new)" by (metis prod_cases3)
  from add_path_entry [OF assms(1) Cons.prems, of nm new path desired] obtain s1 where
    s1: "add_path st nm new path ((desired, None), s)
        = ((gm_put path (List.insert nm (gm_index [] desired path)) desired, None), s1)"
      "paths_inv look s1"
      "\<And>p n. entry look s1 p n = (if p = path \<and> n = nm then Some new else entry look s p n)" by blast
  have ins: "n \<in> set (gm_index [] (gm_put path (List.insert nm (gm_index [] desired path)) desired) p)
      \<longleftrightarrow> n \<in> set (gm_index [] desired p) \<or> p = path \<and> n = nm" for n p
    by (auto simp: gm_index_def)
  from Cons.IH [OF s1(2), of "gm_put path (List.insert nm (gm_index [] desired path)) desired"]
  obtain s' d' where
    r: "fold (\<lambda>(path, n, e). add_path st n e path) ds
        ((gm_put path (List.insert nm (gm_index [] desired path)) desired, None), s1) = ((d', None), s')"
      "paths_inv look s'"
      "\<And>p n. entry look s' p n = (case map_of (rev (map (\<lambda>(path, n, e). ((path, n), e)) ds)) (p, n) of
            Some e \<Rightarrow> Some e | None \<Rightarrow> entry look s1 p n)"
      "\<And>p n. n \<in> set (gm_index [] d' p)
            \<longleftrightarrow> (n \<in> set (gm_index [] desired p) \<or> p = path \<and> n = nm) \<or> (\<exists>e. (p, n, e) \<in> set ds)"
    unfolding ins by blast
  show ?case
  proof (intro exI conjI allI)
    show "fold (\<lambda>(path, n, e). add_path st n e path) (a # ds) ((desired, None), s) = ((d', None), s')"
      using a s1(1) r(1) by simp
    show "paths_inv look s'" by (rule r(2))
    show "entry look s' p n = (case map_of (rev (map (\<lambda>(path, n, e). ((path, n), e)) (a # ds))) (p, n) of
            Some e \<Rightarrow> Some e | None \<Rightarrow> entry look s p n)" for p n
      using a s1(3) r(3) by (auto simp: map_add_def split: option.splits)
    show "n \<in> set (gm_index [] d' p)
            \<longleftrightarrow> n \<in> set (gm_index [] desired p) \<or> (\<exists>e. (p, n, e) \<in> set (a # ds))" for p n
      using a r(4) by auto
  qed
qed

text \<open>
  After a Subscription CR was added or updated, the store holds for that CR exactly what the
  CR declares now: every declared subscription under its path (the last declaration of a name
  wins), nothing else that belongs to the CR, and everything of the other CRs as it was, except
  under a name this CR declares. Deleting the CR removes all it owns and nothing else. Both keep
  the invariant that no path is empty and the subscription in force is the best enabled one.
\<close>

theorem AddSubscription_ownership:
  fixes cr :: sub_cr
  assumes "store_laws st look" "paths_inv look (sb_paths r)"
  defines "nsn \<equiv> sub_nsn cr"
  defines "declared \<equiv> map_of (rev (map (\<lambda>(path, n, e). ((path, n), e)) (decl cr)))"
  shows "(case AddSubscription st cr r of (err, r') \<Rightarrow>
      err = None \<and> paths_inv look (sb_paths r')
      \<and> (\<forall>p n. entry look (sb_paths r') p n =
          (case declared (p, n) of Some e \<Rightarrow> Some e
           | None \<Rightarrow> (case entry look (sb_paths r) p n of
               Some e \<Rightarrow> (if se_nsn e = nsn then None else Some e) | None \<Rightarrow> None))))
    \<and> (case DelSubscription st cr r of (err, r') \<Rightarrow>
      err = None \<and> paths_inv look (sb_paths r')
      \<and> (\<forall>p n. entry look (sb_paths r') p n =
          (case entry look (sb_paths r) p n of
               Some e \<Rightarrow> (if se_nsn e = nsn then None else Some e) | None \<Rightarrow> None)))"
proof
  let ?s = "sb_paths r"
  from add_decl_entry [OF assms(1,2), of "decl cr" "[]"] obtain s1 d1 where
    A: "add_params st cr (scr_subscriptions cr) (([], None), ?s) = ((d1, None), s1)" "paths_inv look s1"
      "\<And>p n. entry look s1 p n = (case declared (p, n) of Some e \<Rightarrow> Some e | None \<Rightarrow> entry look ?s p n)"
      "\<And>p n. n \<in> set (gm_index [] d1 p) \<longleftrightarrow> (\<exists>e. (p, n, e) \<in> set (decl cr))"
    unfolding add_params_decl declared_def by auto
  have dd: "(\<exists>e. (p, n, e) \<in> set (decl cr)) \<longleftrightarrow> declared (p, n) \<noteq> None" for p n
    by (force simp: declared_def map_of_eq_None_iff)
  let ?m = "getExistingCRSubscription st nsn s1"
  let ?m' = "filter (\<lambda>(p, ns). ns \<noteq> [])
         (map (\<lambda>(p, ns). (p, filter (\<lambda>n. n \<notin> set (gm_index [] d1 p)) ns)) ?m)"
  note E = getExisting_iff [OF assms(1) A(2), of nsn]
  have keys: "map fst (map (\<lambda>(p, ns). (p, filter (\<lambda>n. n \<notin> set (gm_index [] d1 p)) ns)) ?m) = gm_keys ?m"
    by (simp add: split_beta)
  have ok: "gm_ok ?m'"
    using E keys by (metis (no_types, lifting) distinct_map_filter)
  have m': "n \<in> set (gm_index [] ?m' p) \<longleftrightarrow> n \<in> set (gm_index [] ?m p) \<and> declared (p, n) = None" for p n
    using gm_index_filtered [of ?m n "\<lambda>p n. n \<notin> set (gm_index [] d1 p)" p] E A(4) dd by simp
  let ?A = "\<lambda>p n. case declared (p, n) of Some e \<Rightarrow> Some e
           | None \<Rightarrow> (case entry look ?s p n of
               Some e \<Rightarrow> (if se_nsn e = nsn then None else Some e) | None \<Rightarrow> None)"
  obtain errs s2 where B: "remove_paths st ?m' (None, s1) = (errs, s2)" by fastforce
  note R = remove_paths_entry [OF assms(1) A(2) ok, unfolded B prod.sel]
  have "entry look s2 p n = ?A p n" for p n
    using R [of p n] m' [of n p] E [of n p] A(3) [of p n]
    by (cases "declared (p, n)"; cases "entry look ?s p n") auto
  moreover have "AddSubscription st cr r = (errs, \<lparr>sb_paths = s2, sb_ports = gm_put nsn (unat (scr_port cr)) (sb_ports r)\<rparr>)"
    by (simp add: AddSubscription_def A(1) prune_paths_as_remove nsn_def [symmetric] Let_def B)
  ultimately show "case AddSubscription st cr r of (err, r') \<Rightarrow>
      err = None \<and> paths_inv look (sb_paths r')
      \<and> (\<forall>p n. entry look (sb_paths r') p n = ?A p n)"
    using R by simp
  let ?D = "\<lambda>p n. case entry look ?s p n of
               Some e \<Rightarrow> (if se_nsn e = nsn then None else Some e) | None \<Rightarrow> None"
  note E' = getExisting_iff [OF assms(1,2), of nsn]
  obtain errs' s3 where C: "remove_paths st (getExistingCRSubscription st nsn ?s) (None, ?s) = (errs', s3)"
    by fastforce
  have "gm_ok (getExistingCRSubscription st nsn ?s)" using E' by blast
  note R' = remove_paths_entry [OF assms(1,2) this, unfolded C prod.sel]
  have "entry look s3 p n = ?D p n" for p n
    using R' [of p n] E' [of n p] by (cases "entry look ?s p n") auto
  moreover have "DelSubscription st cr r = (errs', \<lparr>sb_paths = s3, sb_ports = gm_delete nsn (sb_ports r)\<rparr>)"
    by (simp add: DelSubscription_def nsn_def [symmetric] Let_def C)
  ultimately show "case DelSubscription st cr r of (err, r') \<Rightarrow>
      err = None \<and> paths_inv look (sb_paths r')
      \<and> (\<forall>p n. entry look (sb_paths r') p n = ?D p n)"
    using R' by simp
qed

section \<open>A store that satisfies the contract\<close>

definition alist_store :: "path_subs gomap path_store" where
  "alist_store = \<lparr>
     st_get = (\<lambda>k s. case map_of s k of None \<Rightarrow> Inl (err_new ''not found'') | Some v \<Rightarrow> Inr v),
     st_apply = (\<lambda>k v s. (None, gm_put k v s)),
     st_delete = (\<lambda>k s. (None, gm_delete k s)),
     st_list = (\<lambda>s. map (\<lambda>k. (k, the (map_of s k))) (remdups (map fst s)))\<rparr>"

lemma map_of_remdups_keys: "map_of (map (\<lambda>k. (k, the (map_of s k))) (remdups (map fst s))) = map_of s"
proof
  fix k
  show "map_of (map (\<lambda>k. (k, the (map_of s k))) (remdups (map fst s))) k = map_of s k"
    unfolding map_of_map_restrict restrict_map_def
    using map_of_eq_None_iff [of s k] by (cases "map_of s k") auto
qed

lemma alist_store_laws: "store_laws alist_store map_of"
  unfolding store_laws_def
  by (auto simp: alist_store_def map_of_remdups_keys o_def split: option.splits)

lemma paths_inv_empty: "paths_inv map_of []"
  by (simp add: paths_inv_def)

definition sample_sub_cr :: "string \<Rightarrow> string \<Rightarrow> int \<Rightarrow> sub_cr" where
  "sample_sub_cr name sub interval = \<lparr>scr_namespace = ''ns'', scr_name = name, scr_port = 57400,
     scr_encoding = None, scr_subscriptions = [\<lparr>sp_name = sub, sp_description = None, sp_labels = [],
       sp_adminState = Some ''enabled'', sp_mode = ''sample'', sp_interval = Some (interval * 1000000000),
       sp_paths = [''/a'']\<rparr>]\<rparr>"

theorem AddSubscription_ownership_witness:
  "entry map_of (sb_paths (snd (AddSubscription alist_store (sample_sub_cr ''a'' ''x'' 30)
      \<lparr>sb_paths = [], sb_ports = []\<rparr>))) ''/a'' ''ns/a.x''
    = Some (getSubscription ''ns/a'' (hd (scr_subscriptions (sample_sub_cr ''a'' ''x'' 30))) ''ASCII'')"
proof -
  have d: "decl (sample_sub_cr ''a'' ''x'' 30) = [(''/a'', ''ns/a.x'',
      getSubscription ''ns/a'' (hd (scr_subscriptions (sample_sub_cr ''a'' ''x'' 30))) ''ASCII'')]"
    by (simp add: decl_def sample_sub_cr_def getSubscriptionNSNName_def sub_nsn_def GetEncoding_def)
  obtain err r' where run: "AddSubscription alist_store (sample_sub_cr ''a'' ''x'' 30)
      \<lparr>sb_paths = [], sb_ports = []\<rparr> = (err, r')" by fastforce
  have "paths_inv map_of (sb_paths \<lparr>sb_paths = [] :: path_subs gomap, sb_ports = [] :: nat gomap\<rparr>)"
    by (simp add: paths_inv_empty)
  from AddSubscription_ownership [OF alist_store_laws this, of "sample_sub_cr ''a'' ''x'' 30"] run d
  show ?thesis by simp
qed

section \<open>What the collector sees\<close>

lemma collect_path_keys:
  "set (gm_keys (fold collect_path l m))
     = set (gm_keys m) \<union> {se_encoding c |c k ps. (k, ps) \<in> set l \<and> ps_current ps = Some c}"
proof (induction l arbitrary: m)
  case Nil
  then show ?case by simp
next
  case (Cons a l)
  have "set (gm_keys (collect_path a m)) = set (gm_keys m) \<union>
      (case ps_current (snd a) of None \<Rightarrow> {} | Some c \<Rightarrow> {se_encoding c})"
    by (auto simp only: collect_path_def set_gm_keys_put split: option.splits)
  with Cons show ?case by (cases a) (auto split: option.splits)
qed

text \<open>
  The collector has something to subscribe to exactly when some subscription of some CR is
  enabled. On every path the subscription in force is an enabled one with the lowest interval (0,
  on change, before any sampling), the first name breaking ties, and there is none just when no
  subscription of the path is enabled.
\<close>

theorem HasActivePaths_iff_enabled:
  assumes laws: "store_laws st look" and inv: "paths_inv look (sb_paths r)"
  shows "(HasActivePaths st r \<longleftrightarrow> (\<exists>p n e. entry look (sb_paths r) p n = Some e \<and> se_enabled e))
    \<and> (\<forall>p ps. look (sb_paths r) p = Some ps \<longrightarrow>
        (case ps_current ps of
           None \<Rightarrow> \<forall>n e. entry look (sb_paths r) p n = Some e \<longrightarrow> \<not> se_enabled e
         | Some c \<Rightarrow> \<exists>n. entry look (sb_paths r) p n = Some c \<and> se_enabled c
             \<and> (\<forall>n' e. entry look (sb_paths r) p n' = Some e \<and> se_enabled e \<longrightarrow>
                  se_interval c < se_interval e \<or> se_interval c = se_interval e \<and> n \<le> n')))"
proof
  let ?s = "sb_paths r"
  have best: "case ps_current ps of
           None \<Rightarrow> \<forall>n e. entry look ?s p n = Some e \<longrightarrow> \<not> se_enabled e
         | Some c \<Rightarrow> \<exists>n. entry look ?s p n = Some c \<and> se_enabled c
             \<and> (\<forall>n' e. entry look ?s p n' = Some e \<and> se_enabled e \<longrightarrow>
                  se_interval c < se_interval e \<or> se_interval c = se_interval e \<and> n \<le> n')"
    if "look ?s p = Some ps" for p ps
  proof -
    from inv that have "gm_ok (ps_all ps)" and cur: "recomputeCurrent ps = ps" by (auto simp: paths_inv_def)
    from recomputeCurrent_best [OF this(1)] that show ?thesis
      unfolding cur by (cases "ps_current ps") (auto simp: entry_def better_def)
  qed
  then show "\<forall>p ps. look ?s p = Some ps \<longrightarrow>
        (case ps_current ps of
           None \<Rightarrow> \<forall>n e. entry look ?s p n = Some e \<longrightarrow> \<not> se_enabled e
         | Some c \<Rightarrow> \<exists>n. entry look ?s p n = Some c \<and> se_enabled c
             \<and> (\<forall>n' e. entry look ?s p n' = Some e \<and> se_enabled e \<longrightarrow>
                  se_interval c < se_interval e \<or> se_interval c = se_interval e \<and> n \<le> n'))" by blast
  have "HasActivePaths st r \<longleftrightarrow> gm_keys (fold collect_path (st_list st ?s) []) \<noteq> []"
    by (simp add: HasActivePaths_def GetPaths_def)
  also have "\<dots> \<longleftrightarrow> (\<exists>c k ps. (k, ps) \<in> set (st_list st ?s) \<and> ps_current ps = Some c)"
    using collect_path_keys [of "st_list st ?s" "[]"] by (simp only: set_empty [symmetric]) auto
  also have "\<dots> \<longleftrightarrow> (\<exists>c k ps. look ?s k = Some ps \<and> ps_current ps = Some c)"
    using gm_ok_map_of_mem [OF store_lawsD(7) [OF laws, of ?s]] by (simp add: store_lawsD(8) [OF laws])
  also have "\<dots> \<longleftrightarrow> (\<exists>p n e. entry look ?s p n = Some e \<and> se_enabled e)"
  proof
    assume "\<exists>c k ps. look ?s k = Some ps \<and> ps_current ps = Some c"
    then obtain c k ps where "look ?s k = Some ps" "ps_current ps = Some c" by blast
    with best [of k ps] show "\<exists>p n e. entry look ?s p n = Some e \<and> se_enabled e" by auto
  next
    assume "\<exists>p n e. entry look ?s p n = Some e \<and> se_enabled e"
    then obtain p n e where e: "entry look ?s p n = Some e" "se_enabled e" by blast
    then obtain ps where "look ?s p = Some ps" by (auto simp: entry_def split: option.splits)
    with best [of p ps] e show "\<exists>c k ps. look ?s k = Some ps \<and> ps_current ps = Some c"
      by (cases "ps_current ps") auto
  qed
  finally show "HasActivePaths st r \<longleftrightarrow> (\<exists>p n e. entry look ?s p n = Some e \<and> se_enabled e)" .
qed

theorem HasActivePaths_iff_enabled_witness:
  "\<not> HasActivePaths alist_store \<lparr>sb_paths = [], sb_ports = []\<rparr>"
proof -
  let ?r = "\<lparr>sb_paths = [] :: path_subs gomap, sb_ports = [] :: nat gomap\<rparr>"
  have "paths_inv map_of (sb_paths ?r)" by (simp add: paths_inv_empty)
  from HasActivePaths_iff_enabled [OF alist_store_laws this] show ?thesis by (simp add: entry_def)
qed

text \<open>
  The keys under which subscriptions are stored do not separate CRs whose names contain a
  dot: the CR \<open>a\<close> with subscription \<open>b.c\<close> and the CR \<open>a.b\<close> with subscription \<open>c\<close> share one key. Adding
  the second takes the entry of the first away, which then owns nothing on that path although it
  declares a subscription there.
\<close>

theorem subscription_key_collision:
  assumes laws: "store_laws st look" and inv: "paths_inv look (sb_paths r)"
    and cr1: "sub_nsn cr1 = nsn" "scr_subscriptions cr1 = [p1]" "sp_name p1 = b @ ''.'' @ c" "sp_paths p1 = [path]"
    and cr2: "sub_nsn cr2 = nsn @ ''.'' @ b" "scr_subscriptions cr2 = [p2]" "sp_name p2 = c" "sp_paths p2 = [path]"
    and two: "snd (AddSubscription st cr2 (snd (AddSubscription st cr1 r))) = r2"
  shows "\<not> (\<exists>n e. entry look (sb_paths r2) path n = Some e \<and> se_nsn e = nsn)"
proof -
  let ?k = "getSubscriptionNSNName nsn (b @ ''.'' @ c)"
  have ne: "nsn @ ''.'' @ b \<noteq> nsn" by simp
  have k: "getSubscriptionNSNName (nsn @ ''.'' @ b) c = ?k" by (simp add: getSubscriptionNSNName_def)
  have d1: "decl cr1 = [(path, ?k, getSubscription nsn p1 (GetEncoding cr1))]" using cr1 by (simp add: decl_def)
  have d2: "decl cr2 = [(path, ?k, getSubscription (nsn @ ''.'' @ b) p2 (GetEncoding cr2))]"
    using cr2 k by (simp add: decl_def)
  obtain e1 r1 where a1: "AddSubscription st cr1 r = (e1, r1)" by fastforce
  have o1: "paths_inv look (sb_paths r1)"
    "entry look (sb_paths r1) p n = (if (p, n) = (path, ?k) then Some (getSubscription nsn p1 (GetEncoding cr1))
       else (case entry look (sb_paths r) p n of
               Some e \<Rightarrow> (if se_nsn e = nsn then None else Some e) | None \<Rightarrow> None))" for p n
    using AddSubscription_ownership [OF laws inv, of cr1] unfolding a1 d1 cr1(1) by simp_all
  obtain e2 where a2: "AddSubscription st cr2 r1 = (e2, r2)" using two a1 by (metis prod.collapse snd_conv)
  have o2: "entry look (sb_paths r2) p n =
      (if (p, n) = (path, ?k) then Some (getSubscription (nsn @ ''.'' @ b) p2 (GetEncoding cr2))
       else (case entry look (sb_paths r1) p n of
               Some e \<Rightarrow> (if se_nsn e = nsn @ ''.'' @ b then None else Some e) | None \<Rightarrow> None))" for p n
    using AddSubscription_ownership [OF laws o1(1), of cr2] unfolding a2 d2 cr2(1) by simp
  show ?thesis
  proof
    assume "\<exists>n e. entry look (sb_paths r2) path n = Some e \<and> se_nsn e = nsn"
    then obtain n e where e: "entry look (sb_paths r2) path n = Some e" "se_nsn e = nsn" by blast
    show False
    proof (cases "n = ?k")
      case True
      with e o2 [of path n] have "e = getSubscription (nsn @ ''.'' @ b) p2 (GetEncoding cr2)" by simp
      with e(2) show False by (auto simp: getSubscription_def)
    next
      case False
      with e o2 [of path n] have "entry look (sb_paths r1) path n = Some e"
        by (auto split: option.splits if_splits)
      with False o1(2) [of path n] e(2) show False by (auto split: option.splits if_splits)
    qed
  qed
qed

theorem subscription_key_collision_witness:
  "\<not> (\<exists>n e. entry map_of (sb_paths (snd (AddSubscription alist_store (sample_sub_cr ''a.b'' ''c'' 10)
        (snd (AddSubscription alist_store (sample_sub_cr ''a'' ''b.c'' 30)
          \<lparr>sb_paths = [], sb_ports = []\<rparr>))))) ''/a'' n = Some e \<and> se_nsn e = ''ns/a'')"
proof -
  have i: "paths_inv map_of (sb_paths \<lparr>sb_paths = [] :: path_subs gomap, sb_ports = [] :: nat gomap\<rparr>)"
    by (simp add: paths_inv_empty)
  show ?thesis
    by (rule subscription_key_collision [OF alist_store_laws i, of "sample_sub_cr ''a'' ''b.c'' 30" "''ns/a''"
          "hd (scr_subscriptions (sample_sub_cr ''a'' ''b.c'' 30))" "''b''" "''c''" "''/a''"
          "sample_sub_cr ''a.b'' ''c'' 10" "hd (scr_subscriptions (sample_sub_cr ''a.b'' ''c'' 10))"])
      (simp_all add: sample_sub_cr_def sub_nsn_def)
qed

end
