(* ===== verification/Strconv.thy ===== *)
theory Strconv
  imports Prelude
begin

text \<open>
  The part of Go's \<open>strconv\<close> the code uses: decimal rendering of unsigned numbers and the parsers
  \<open>Atoi\<close> and \<open>ParseUint(s, 10, 64)\<close>, with the round trip the resource versions rely on.
\<close>

fun dec_digits :: "nat \<Rightarrow> string" where
  "dec_digits n = (if n < 10 then [char_of (48 + n)] else dec_digits (n div 10) @ [char_of (48 + n mod 10)])"

declare dec_digits.simps [simp del]

definition FormatUint :: "64 word \<Rightarrow> string" where
  "FormatUint w = dec_digits (unat w)"

definition digit_val :: "char \<Rightarrow> int option" where
  "digit_val c = (let n = (of_char c :: int) in if 48 \<le> n \<and> n \<le> 57 then Some (n - 48) else None)"

fun digits_val :: "string \<Rightarrow> int \<Rightarrow> int option" where
  "digits_val [] acc = Some acc"
| "digits_val (c # cs) acc = (case digit_val c of None \<Rightarrow> None | Some d \<Rightarrow> digits_val cs (acc * 10 + d))"

definition Atoi :: "string \<Rightarrow> int option" where
  \<comment> \<open>\<open>strconv.Atoi\<close>: sign, decimal digits, in the range of a 64-bit int\<close>
  "Atoi s =
     (let (neg, ds) = (case s of c # cs \<Rightarrow> if c = CHR ''-'' then (True, cs)
             else if c = CHR ''+'' then (False, cs) else (False, s) | [] \<Rightarrow> (False, [])) in
      if ds = [] then None
      else case digits_val ds 0 of None \<Rightarrow> None
        | Some n \<Rightarrow> let v = (if neg then - n else n) in
            if - (2 ^ 63) \<le> v \<and> v < 2 ^ 63 then Some v else None)"

definition ParseUint :: "string \<Rightarrow> 64 word option" where
  "ParseUint s =
     (if s = [] then None
      else case digits_val s 0 of None \<Rightarrow> None
        | Some n \<Rightarrow> if n < 2 ^ 64 then Some (word_of_int n) else None)"

lemma digit_val_digit: "n < 10 \<Longrightarrow> digit_val (char_of (48 + n)) = Some (int n)"
proof -
  assume n: "n < 10"
  then have "(of_char (char_of (48 + n)) :: nat) = 48 + n" by simp
  then have "(of_char (char_of (48 + n)) :: int) = 48 + int n"
    by (metis of_nat_add of_nat_numeral of_nat_of_char)
  with n show ?thesis by (simp add: digit_val_def)
qed

lemma digits_val_append:
  "digits_val (xs @ ys) acc = Option.bind (digits_val xs acc) (digits_val ys)"
  by (induction xs arbitrary: acc) (auto split: option.split)

lemma digits_val_dec: "\<exists>k. digits_val (dec_digits n) acc = Some (acc * 10 ^ k + int n)"
proof (induction n arbitrary: acc rule: less_induct)
  case (less n)
  show ?case
  proof (cases "n < 10")
    case True
    then show ?thesis by (subst dec_digits.simps) (auto simp: digit_val_digit intro: exI [of _ 1])
  next
    case False
    then obtain k where "digits_val (dec_digits (n div 10)) acc = Some (acc * 10 ^ k + int (n div 10))"
      using less [of "n div 10" acc] by auto
    with False have "digits_val (dec_digits n) acc = Some ((acc * 10 ^ k + int (n div 10)) * 10 + int (n mod 10))"
      by (subst dec_digits.simps) (simp add: digits_val_append digit_val_digit)
    moreover have "(acc * 10 ^ k + int (n div 10)) * 10 + int (n mod 10) = acc * 10 ^ Suc k + int n"
    proof -
      have "int (n div 10) * 10 + int (n mod 10) = int n" by (metis div_mult_mod_eq of_nat_add of_nat_mult of_nat_numeral)
      then show ?thesis by (simp add: algebra_simps)
    qed
    ultimately show ?thesis by (intro exI [of _ "Suc k"]) (simp only:)
  qed
qed

lemma dec_digits_ne [simp]: "dec_digits n \<noteq> []"
  by (subst dec_digits.simps) simp

lemma ParseUint_FormatUint [simp]: "ParseUint (FormatUint w) = Some w"
proof -
  obtain k where "digits_val (dec_digits (unat w)) 0 = Some (0 * 10 ^ k + int (unat w))"
    using digits_val_dec by blast
  moreover have "int (unat w) < 2 ^ 64" using uint_bounded [of w] by simp
  ultimately show ?thesis by (simp add: ParseUint_def FormatUint_def)
qed

lemma FormatUint_inject [simp]: "FormatUint v = FormatUint w \<longleftrightarrow> v = w"
  by (metis ParseUint_FormatUint option.inject)

lemma dec_digits_zero: "dec_digits n = ''0'' \<longleftrightarrow> n = 0"
proof -
  have "n = 0" if "n < 10" "char_of (48 + n) = CHR ''0''"
    using that digit_val_digit [of n] by (simp add: digit_val_def)
  moreover have "char_of (48 :: nat) = CHR ''0''" by code_simp
  ultimately show ?thesis by (subst dec_digits.simps) auto
qed

lemma FormatUint_zero: "FormatUint w = ''0'' \<longleftrightarrow> w = 0"
  by (simp add: FormatUint_def dec_digits_zero unat_eq_0)

end
