(* ===== verification/Collector.thy ===== *)
theory Collector
  imports Subscriptions Strconv
begin

text \<open>
  The gNMI telemetry collector of a target (\<open>pkg/sdc/target/manager/collector.go\<close>). The gNMI
  client (\<open>github.com/openconfig/gnmic\<close>) is a parameter: creating a target, dialing it and building
  a subscribe request may fail. Its methods hold the mutex, so each is one step; the goroutines it
  starts are the steps \<open>update\<close> of its run loop. Reading the streams and the cache are not modelled.
\<close>

section \<open>State\<close>

record collector =
  co_running :: bool
  co_target :: bool
  co_address :: string
  co_paths :: "enc_paths option"
  co_subscribing :: bool
  co_notified :: bool

text \<open>
  \<open>co_running\<close> is \<open>cancel != nil\<close>, \<open>co_target\<close> is \<open>target != nil\<close>, \<open>co_subscribing\<close> is
  \<open>subscriptionCancel != nil\<close> and \<open>co_notified\<close> says that the channel of capacity 1 is full.
\<close>

definition NewCollector :: collector where
  "NewCollector = \<lparr>co_running = False, co_target = False, co_address = [], co_paths = None,
     co_subscribing = False, co_notified = False\<rparr>"

definition NotifySubscriptionChanged :: "collector \<Rightarrow> collector" where
  "NotifySubscriptionChanged r = (if \<not> co_notified r then r\<lparr>co_notified := True\<rparr> else r)"

definition stopSubscriptionLocked :: "collector \<Rightarrow> collector" where
  "stopSubscriptionLocked r = (if co_subscribing r then r\<lparr>co_subscribing := False\<rparr> else r)"

definition collector_Stop :: "collector \<Rightarrow> collector" where
  "collector_Stop r =
     (let r = stopSubscriptionLocked r;
          r = (if co_running r then r\<lparr>co_running := False\<rparr> else r);
          r = (if co_target r then r\<lparr>co_target := False\<rparr> else r)
      in r\<lparr>co_address := [], co_paths := None\<rparr>)"

datatype target_option =
  TName string | TAddress string | TTimeout int | TUsername string | TPassword string
| TInsecure bool | TSkipVerify bool | TTLSCA string | TTLSCert string | TTLSKey string

definition target_options :: "string \<Rightarrow> string \<Rightarrow> ds_target \<Rightarrow> target_option list" where
  "target_options name address t =
     [TName name, TAddress address, TTimeout 5000000000]
     @ (case dt_credentials t of None \<Rightarrow> []
        | Some c \<Rightarrow> [TUsername (cr_username c), TPassword (cr_password c)])
     @ (case dt_tls t of None \<Rightarrow> [TInsecure True]
        | Some s \<Rightarrow> [TSkipVerify (tls_skipVerify s), TTLSCA (tls_ca s), TTLSCert (tls_cert s), TTLSKey (tls_key s)])"

definition collector_Start ::
  "string \<Rightarrow> (target_option list \<Rightarrow> goerr option) \<Rightarrow> (target_option list \<Rightarrow> goerr option)
     \<Rightarrow> ds_request option \<Rightarrow> string \<Rightarrow> collector \<Rightarrow> goerr option \<times> collector" where
  \<comment> \<open>\<open>newTarget\<close> and \<open>createClient\<close> are the two calls of the gNMI library\<close>
  "collector_Start name newTarget createClient req address r =
     (case Option.bind req dr_target of
        None \<Rightarrow> (Some (err_new ''collector: no target''), r)
      | Some t \<Rightarrow>
          if address = [] then (Some (err_new ''collector: no address''), r)
          else let r = collector_Stop r; opts = target_options name address t in
            case newTarget opts of
              Some e \<Rightarrow> (Some (err_wrap (''create gnmi target '' @ address) e), r)
            | None \<Rightarrow>
                (case createClient opts of
                   Some e \<Rightarrow> (Some (err_wrap (''create gnmi client '' @ address) e), r)
                 | None \<Rightarrow> (None, r\<lparr>co_target := True, co_address := address, co_running := True,
                     co_paths := None\<rparr>)))"

section \<open>Path changes\<close>

fun any_path_changed :: "(string \<times> int) list \<Rightarrow> (string \<times> int) list \<Rightarrow> bool" where
  "any_path_changed (o1 # os) (n1 # ns) =
     (if fst o1 \<noteq> fst n1 \<or> snd o1 \<noteq> snd n1 then True else any_path_changed os ns)"
| "any_path_changed _ _ = False"

fun any_encoding_changed :: "enc_paths \<Rightarrow> enc_paths \<Rightarrow> bool" where
  "any_encoding_changed old [] = False"
| "any_encoding_changed old ((enc, np) # m) =
     (case map_of old enc of
        None \<Rightarrow> True
      | Some op \<Rightarrow>
          if length op \<noteq> length np then True
          else if any_path_changed op np then True
          else any_encoding_changed old m)"

definition hasPathsChanged :: "collector \<Rightarrow> enc_paths \<Rightarrow> bool" where
  "hasPathsChanged r newPaths =
     (let old = (case co_paths r of None \<Rightarrow> [] | Some m \<Rightarrow> m) in
      if co_paths r = None \<and> length newPaths = 0 then False
      else if length old \<noteq> length newPaths then True
      else any_encoding_changed old newPaths)"

definition collector_update :: "bool \<Rightarrow> enc_paths option \<Rightarrow> collector \<Rightarrow> collector \<times> enc_paths option" where
  \<comment> \<open>\<open>ctxErr\<close>: the loop's context has ended; \<open>subs\<close>: \<open>GetPaths()\<close> of the subscriptions, \<open>None\<close> for
     nil; the second result is the snapshot a new subscription loop is started for\<close>
  "collector_update ctxErr subs r =
     (if ctxErr \<or> \<not> co_target r then (r, None)
      else case subs of
        None \<Rightarrow> ((stopSubscriptionLocked r)\<lparr>co_paths := None\<rparr>, None)
      | Some newPaths \<Rightarrow>
          if \<not> hasPathsChanged r newPaths then (r, None)
          else let r = (stopSubscriptionLocked r)\<lparr>co_paths := Some newPaths\<rparr> in
            if length newPaths = 0 then (r, None)
            else (r\<lparr>co_subscribing := True\<rparr>, Some newPaths))"

definition StopSubscription :: "collector \<Rightarrow> collector" where
  "StopSubscription r = stopSubscriptionLocked (r\<lparr>co_paths := None\<rparr>)"

section \<open>Subscribe requests\<close>

datatype sub_option = SPath string | SOnChange | SSample | SInterval int
datatype gnmi_option = GSubscription "sub_option list" | GEncodingCustom int | GListModeStream

definition upper_byte :: "char \<Rightarrow> char" where
  "upper_byte c =
     (let n = (of_char c :: nat) in if 97 \<le> n \<and> n \<le> 122 then char_of (n - 32) else c)"

definition encoding_number :: "(string \<Rightarrow> int option) \<Rightarrow> string \<Rightarrow> int" where
  \<comment> \<open>the first argument is the generated table \<open>gnmi.Encoding_value\<close>\<close>
  "encoding_number table e =
     (case table (map upper_byte e) of
        Some enc \<Rightarrow> enc
      | None \<Rightarrow> (case Atoi e of None \<Rightarrow> 0 | Some en \<Rightarrow> en))"

definition Encoding_String :: "string \<Rightarrow> string" where
  "Encoding_String r =
     (if r \<in> {''UNKNOWN'', ''JSON'', ''JSON_IETF'', ''BYTES'', ''PROTO'', ''ASCII'', ''CONFIG''}
      then r else ''UNKNOWN'')"

definition path_option :: "string \<times> int \<Rightarrow> gnmi_option" where
  "path_option p = GSubscription (SPath (fst p) #
     (if snd p = 0 then [SOnChange] else [SSample, SInterval (snd p * 1000000000)]))"

fun buildSubscribeRequests ::
  "(string \<Rightarrow> int option) \<Rightarrow> (gnmi_option list \<Rightarrow> goerr + 'q) \<Rightarrow> enc_paths \<Rightarrow> 'q gomap
     \<Rightarrow> goerr + 'q gomap" where
  "buildSubscribeRequests table newReq [] reqs = Inr reqs"
| "buildSubscribeRequests table newReq ((enc, encPaths) # m) reqs =
     (case newReq (map path_option encPaths
             @ [GEncodingCustom (encoding_number table (Encoding_String enc)), GListModeStream]) of
        Inl e \<Rightarrow> Inl (err_wrap (''encoding '' @ Encoding_String enc) e)
      | Inr req \<Rightarrow> buildSubscribeRequests table newReq m
          (gm_put (''configserver '' @ Encoding_String enc) req reqs))"

section \<open>Change detection\<close>

lemma any_path_changed_iff:
  "length os = length ns \<Longrightarrow> \<not> any_path_changed os ns \<longleftrightarrow> os = ns"
  by (induction os ns rule: any_path_changed.induct) (auto simp: prod_eq_iff)

lemma any_path_changed_refl [simp]: "\<not> any_path_changed ps ps"
  by (simp add: any_path_changed_iff)

lemma any_encoding_changed_iff:
  "\<not> any_encoding_changed old new \<longleftrightarrow> (\<forall>(enc, np) \<in> set new. map_of old enc = Some np)"
  by (induction old new rule: any_encoding_changed.induct)
     (auto simp: any_path_changed_iff split: option.splits)

lemma same_maps_of_length:
  assumes "gm_ok old" "gm_ok new" "length old = length new"
    and "\<forall>(enc, np) \<in> set new. map_of old enc = Some np"
  shows "map_of old = map_of new"
proof
  fix enc
  have "set new \<subseteq> set old" using assms(4) by (auto dest: map_of_SomeD)
  moreover have "card (set old) = card (set new)" "finite (set old)"
    using assms(1,2,3) by (auto simp: distinct_card distinct_map)
  ultimately have "set new = set old" by (metis card_subset_eq)
  then show "map_of old enc = map_of new enc" using assms(1,2) by (metis map_of_inject_set)
qed

abbreviation stored_paths :: "collector \<Rightarrow> enc_paths" where
  "stored_paths r \<equiv> (case co_paths r of None \<Rightarrow> [] | Some old \<Rightarrow> old)"

lemma hasPathsChanged_same_map:
  assumes "gm_ok (stored_paths r)" "gm_ok newPaths"
  shows "\<not> hasPathsChanged r newPaths \<longleftrightarrow> map_of (stored_paths r) = map_of newPaths"
proof
  assume "\<not> hasPathsChanged r newPaths"
  then have "length (stored_paths r) = length newPaths"
    "\<forall>(enc, np) \<in> set newPaths. map_of (stored_paths r) enc = Some np"
    by (auto simp: hasPathsChanged_def Let_def any_encoding_changed_iff split: if_splits)
  then show "map_of (stored_paths r) = map_of newPaths" by (intro same_maps_of_length assms)
next
  assume eq: "map_of (stored_paths r) = map_of newPaths"
  then have s: "set (stored_paths r) = set newPaths" using assms by (metis map_of_inject_set)
  then have "length (stored_paths r) = length newPaths"
    using assms by (metis distinct_card distinct_map)
  moreover have "\<not> any_encoding_changed (stored_paths r) newPaths"
    unfolding any_encoding_changed_iff eq using assms(2) by auto
  ultimately show "\<not> hasPathsChanged r newPaths" by (simp add: hasPathsChanged_def Let_def)
qed

section \<open>Invariant\<close>

definition collector_inv :: "collector \<Rightarrow> bool" where
  \<comment> \<open>running, connected and addressed go together; streams run only for a non-empty snapshot\<close>
  "collector_inv r \<longleftrightarrow> (co_running r \<longleftrightarrow> co_target r) \<and> (co_running r \<longleftrightarrow> co_address r \<noteq> [])
     \<and> (co_subscribing r \<longleftrightarrow> (\<exists>p. co_paths r = Some p \<and> p \<noteq> []))
     \<and> (co_subscribing r \<longrightarrow> co_running r)"

datatype collector_op =
  ColStart "ds_request option" string "goerr option" "goerr option"
| ColStop | ColNotify | ColUpdate bool "enc_paths option" | ColStopSubscription

fun collector_step :: "collector_op \<Rightarrow> collector \<Rightarrow> collector" where
  "collector_step (ColStart req address e1 e2) r =
     snd (collector_Start [] (\<lambda>opts. e1) (\<lambda>opts. e2) req address r)"
| "collector_step ColStop r = collector_Stop r"
| "collector_step ColNotify r = NotifySubscriptionChanged r"
| "collector_step (ColUpdate ctxErr subs) r = fst (collector_update ctxErr subs r)"
| "collector_step ColStopSubscription r = StopSubscription r"

lemma collector_Stop_eq:
  "collector_Stop r = r\<lparr>co_running := False, co_target := False, co_address := [], co_paths := None,
     co_subscribing := False\<rparr>"
  by (simp add: collector_Stop_def stopSubscriptionLocked_def Let_def)

lemma stopSubscriptionLocked_eq: "stopSubscriptionLocked r = r\<lparr>co_subscribing := False\<rparr>"
  by (simp add: stopSubscriptionLocked_def)

lemma collector_inv_step [step_inv]: "collector_inv r \<Longrightarrow> collector_inv (collector_step op r)"
  by (cases op)
    (auto simp: collector_inv_def collector_Stop_eq stopSubscriptionLocked_eq collector_Start_def
      NotifySubscriptionChanged_def collector_update_def StopSubscription_def Let_def
      split: option.splits)

interpretation col: invariant_machine collector_step NewCollector collector_inv
  by unfold_locales (simp_all add: collector_inv_step, simp add: collector_inv_def NewCollector_def)

text \<open>
  Whatever the order of starts (failed ones included), stops and notifications, the collector
  is connected exactly while it runs and runs streams exactly while its snapshot is not empty. It
  restarts the streams just when the active paths differ from the snapshot as maps from encodings
  to paths with intervals (a missing snapshot counting as empty), so repeated notifications of the
  same subscriptions never restart them.
\<close>

theorem collector_restarts_on_change:
  assumes r: "r = run_ops collector_step ops NewCollector"
    and ok: "gm_ok (stored_paths r)" "gm_ok newPaths"
  shows "(co_running r \<longleftrightarrow> co_target r) \<and> (co_subscribing r \<longleftrightarrow> stored_paths r \<noteq> [])
    \<and> (co_running r \<longrightarrow>
        (case collector_update False (Some newPaths) r of (r', started) \<Rightarrow>
          map_of (stored_paths r') = map_of newPaths
          \<and> (co_subscribing r' \<longleftrightarrow> newPaths \<noteq> [])
          \<and> (started = (if map_of (stored_paths r) = map_of newPaths \<or> newPaths = [] then None
                       else Some newPaths))
          \<and> collector_update False (Some newPaths) r' = (r', None)))"
proof -
  have inv: "collector_inv r" unfolding r by (rule col.inv_run)
  have empty: "map_of (stored_paths r) = map_of [] \<longleftrightarrow> stored_paths r = []"
    by (metis empty_eq_map_of_iff map_of.simps(1))
  show ?thesis
  proof (intro conjI impI)
    show "co_running r \<longleftrightarrow> co_target r" "co_subscribing r \<longleftrightarrow> stored_paths r \<noteq> []"
      using inv by (auto simp: collector_inv_def split: option.splits)
    assume "co_running r"
    then have t: "co_target r" using inv by (simp add: collector_inv_def)
    show "case collector_update False (Some newPaths) r of (r', started) \<Rightarrow>
          map_of (stored_paths r') = map_of newPaths
          \<and> (co_subscribing r' \<longleftrightarrow> newPaths \<noteq> [])
          \<and> (started = (if map_of (stored_paths r) = map_of newPaths \<or> newPaths = [] then None
                       else Some newPaths))
          \<and> collector_update False (Some newPaths) r' = (r', None)"
    proof (cases "hasPathsChanged r newPaths")
      case False
      then have eq: "map_of (stored_paths r) = map_of newPaths"
        using hasPathsChanged_same_map [OF ok] by simp
      then have "stored_paths r = [] \<longleftrightarrow> newPaths = []" by (metis empty empty_eq_map_of_iff map_of.simps(1))
      with False eq t inv show ?thesis
        by (auto simp: collector_update_def collector_inv_def split: option.splits)
    next
      case True
      let ?r = "(r\<lparr>co_subscribing := newPaths \<noteq> [], co_paths := Some newPaths\<rparr>)"
      have u: "collector_update False (Some newPaths) r = (?r, if newPaths = [] then None else Some newPaths)"
        using True t by (simp add: collector_update_def stopSubscriptionLocked_eq Let_def)
      have "\<not> hasPathsChanged ?r newPaths"
        by (subst hasPathsChanged_same_map) (use ok in simp_all)
      then have "collector_update False (Some newPaths) ?r = (?r, None)"
        using t by (simp add: collector_update_def)
      moreover have "map_of (stored_paths r) \<noteq> map_of newPaths"
        using True hasPathsChanged_same_map [OF ok] by simp
      ultimately show ?thesis by (simp add: u)
    qed
  qed
qed

definition sample_request :: ds_request where
  "sample_request = \<lparr>dr_datastoreName = ''ns.t1'', dr_target = Some \<lparr>dt_type = ''gnmi'',
     dt_address = ''h'', dt_port = 57400, dt_credentials = None, dt_tls = None,
     dt_protocolOptions = NoOpts\<rparr>, dr_schema = None, dr_sync = None\<rparr>"

theorem collector_restarts_on_change_witness:
  "snd (collector_update False (Some [(''ASCII'', [(''/a'', 15)])])
      (run_ops collector_step [ColStart (Some sample_request) ''h:57400'' None None] NewCollector))
    = Some [(''ASCII'', [(''/a'', 15)])]"
proof -
  let ?ops = "[ColStart (Some sample_request) ''h:57400'' None None]"
  let ?r = "run_ops collector_step ?ops NewCollector"
  have r: "co_running ?r" "stored_paths ?r = []" by code_simp+
  from collector_restarts_on_change [OF refl, of ?ops "[(''ASCII'', [(''/a'', 15)])]"] r show ?thesis
    by (auto simp: fun_eq_iff split: prod.splits)
qed

end
