(* ===== verification/TargetRuntime.thy ===== *)
theory TargetRuntime
  imports TransactorSpec Collector
begin

text \<open>
  The runtime of one target (\<open>pkg/sdc/target/manager/runtime.go\<close>): a state machine that ensures the
  datastore, replays the configs into it, starts the watcher and the collector and reports a
  status. Every field access of the code takes a mutex and the loop body runs in one goroutine, so
  one event of the loop is one step here. \<open>reconcileOnce\<close> is the whole pass as a function, with a \<open>SetDesired\<close>
  that lands right after the request was read as an argument; \<open>RuntimePass\<close> splits it into the steps between
  which other goroutines run, and proves that the steps without interference are this function. The data-server, the API server and the gNMI client are
  the arguments collected in \<open>rt_env\<close>.
\<close>

section \<open>State\<close>

datatype phase = PhasePending | PhaseWaitingForDS | PhaseEnsuringDatastore | PhaseRecovering
  | PhaseRecoveryFailed | PhaseRunning | PhaseDegraded | PhaseDeleting

record runtime_status =
  rs_phase :: phase
  rs_dsReady :: bool
  rs_dsStoreReady :: bool
  rs_runningHash :: string
  rs_recovered :: bool
  rs_recoveryMsg :: string
  rs_lastError :: string

record 's runtime =
  rt_key :: "string \<times> string"
  rt_desired :: "ds_request option"
  rt_desiredRefs :: "used_refs option"
  rt_desiredHash :: string
  rt_recoveryToken :: string
  rt_runningHash :: string
  rt_phase :: phase
  rt_lastError :: "goerr option"
  rt_dsReady :: bool
  rt_datastoreReady :: bool
  rt_recovered :: bool
  rt_recoveryMsg :: string
  rt_recoveryErr :: "goerr option"
  rt_failedKey :: string
  rt_failedErr :: "goerr option"
  rt_lastNotified :: "runtime_status option"
  rt_notifications :: nat
  rt_subscriptions :: "'s subscriptions"
  rt_watcher :: bool
  rt_collector :: "collector option"
  rt_wakeCh :: bool
  rt_timers :: nat
  rt_startUsed :: bool
  rt_looping :: bool
  rt_stopClosed :: bool
  rt_done :: bool

text \<open>
  \<open>rt_wakeCh\<close>: the wake channel (capacity 1) is full; \<open>rt_timers\<close>: pending \<open>wakeAfter\<close> timers;
  \<open>rt_startUsed\<close>: \<open>startOnce\<close> has run; \<open>rt_looping\<close>: the goroutine of \<open>run\<close> is alive;
  \<open>rt_stopClosed\<close>, \<open>rt_done\<close>: the channels are closed; \<open>rt_notifications\<close> counts \<open>onChange\<close> calls.
\<close>

record ('p, 's, 'w) rt_env =
  en_client :: "('p, 'w) dsclient option"
  en_k8s :: "'w k8s"
  en_transactor :: bool
  en_parse :: "string \<Rightarrow> goerr + 'p"
  en_revertive :: "string option"
  en_keyString :: "string \<times> string \<Rightarrow> string"
  en_now :: nat
  en_fieldManager :: string
  en_newTarget :: "target_option list \<Rightarrow> goerr option"
  en_createClient :: "target_option list \<Rightarrow> goerr option"
  en_store :: "'s path_store"

definition NewTargetRuntime :: "string \<times> string \<Rightarrow> 's subscriptions \<Rightarrow> 's runtime" where
  "NewTargetRuntime key subs = \<lparr>rt_key = key, rt_desired = None, rt_desiredRefs = None,
     rt_desiredHash = [], rt_recoveryToken = [], rt_runningHash = [], rt_phase = PhasePending,
     rt_lastError = None, rt_dsReady = False, rt_datastoreReady = False, rt_recovered = False,
     rt_recoveryMsg = [], rt_recoveryErr = None, rt_failedKey = [], rt_failedErr = None,
     rt_lastNotified = None, rt_notifications = 0, rt_subscriptions = subs, rt_watcher = False,
     rt_collector = None, rt_wakeCh = False, rt_timers = 0, rt_startUsed = False,
     rt_looping = False, rt_stopClosed = False, rt_done = False\<rparr>"

section \<open>Setters\<close>

definition rt_wake :: "'s runtime \<Rightarrow> 's runtime" where
  "rt_wake r = (if rt_wakeCh r then r else r\<lparr>rt_wakeCh := True\<rparr>)"

definition wakeAfter :: "'s runtime \<Rightarrow> 's runtime" where
  "wakeAfter r = r\<lparr>rt_timers := Suc (rt_timers r)\<rparr>"

definition setPhase :: "phase \<Rightarrow> goerr option \<Rightarrow> 's runtime \<Rightarrow> 's runtime" where
  "setPhase p err r = r\<lparr>rt_phase := p, rt_lastError := err\<rparr>"

definition setDatastoreReady :: "bool \<Rightarrow> 's runtime \<Rightarrow> 's runtime" where
  "setDatastoreReady ready r =
     (let r = r\<lparr>rt_datastoreReady := ready\<rparr> in if \<not> ready then r\<lparr>rt_recovered := False\<rparr> else r)"

definition setRunningHash :: "string \<Rightarrow> 's runtime \<Rightarrow> 's runtime" where
  "setRunningHash h r = r\<lparr>rt_runningHash := h\<rparr>"

definition setDSReady :: "bool \<Rightarrow> goerr option \<Rightarrow> 's runtime \<Rightarrow> 's runtime" where
  "setDSReady ready err r =
     (let r = r\<lparr>rt_dsReady := ready\<rparr> in
      if ready then r\<lparr>rt_lastError := None\<rparr>
      else let r = r\<lparr>rt_recovered := False\<rparr> in
        if err \<noteq> None then r\<lparr>rt_lastError := err\<rparr> else r)"

definition setRecovered :: "bool \<Rightarrow> 's runtime \<Rightarrow> 's runtime" where
  "setRecovered b r =
     (let r = r\<lparr>rt_recovered := b\<rparr> in
      if \<not> b then r\<lparr>rt_recoveryMsg := [], rt_recoveryErr := None\<rparr> else r)"

definition setRecoveryResult :: "string \<Rightarrow> goerr option \<Rightarrow> 's runtime \<Rightarrow> 's runtime" where
  "setRecoveryResult msg err r =
     (let r = r\<lparr>rt_recovered := (err = None), rt_recoveryMsg := msg, rt_recoveryErr := err\<rparr> in
      if err = None then r\<lparr>rt_failedKey := [], rt_failedErr := None\<rparr> else r)"

definition recoveryKey :: "'s runtime \<Rightarrow> string" where
  "recoveryKey r = rt_desiredHash r @ ''|'' @ rt_recoveryToken r"

definition latchRecoveryFailure :: "goerr \<Rightarrow> 's runtime \<Rightarrow> 's runtime" where
  "latchRecoveryFailure err r = r\<lparr>rt_failedKey := recoveryKey r, rt_failedErr := Some err\<rparr>"

definition recoveryLatched :: "'s runtime \<Rightarrow> goerr option" where
  \<comment> \<open>(error, latched): \<open>Some\<close> is latched\<close>
  "recoveryLatched r =
     (if rt_failedErr r = None \<or> rt_failedKey r \<noteq> recoveryKey r then None else rt_failedErr r)"

definition rt_Status :: "'s runtime \<Rightarrow> runtime_status" where
  "rt_Status t = \<lparr>rs_phase = rt_phase t, rs_dsReady = rt_dsReady t,
     rs_dsStoreReady = rt_datastoreReady t, rs_runningHash = rt_runningHash t,
     rs_recovered = rt_recovered t, rs_recoveryMsg = rt_recoveryMsg t,
     rs_lastError = err_text (rt_lastError t)\<rparr>"

definition notifyIfChanged :: "'s runtime \<Rightarrow> 's runtime" where
  "notifyIfChanged t =
     (let st = rt_Status t in
      if rt_lastNotified t = Some st then t
      else t\<lparr>rt_lastNotified := Some st, rt_notifications := Suc (rt_notifications t)\<rparr>)"

definition rt_GetSchema :: "'s runtime \<Rightarrow> schema_ref" where
  "rt_GetSchema t =
     (case Option.bind (rt_desired t) dr_schema of
        None \<Rightarrow> empty_schema_ref
      | Some s \<Rightarrow> \<lparr>sch_type = ds_sname s, sch_vendor = ds_svendor s, sch_version = ds_sversion s\<rparr>)"

section \<open>Requests from other goroutines\<close>

definition SetDesired :: "ds_request option \<Rightarrow> used_refs option \<Rightarrow> string \<Rightarrow> 's runtime \<Rightarrow> 's runtime" where
  "SetDesired req refs hash r =
     rt_wake (r\<lparr>rt_desired := req, rt_desiredRefs := refs, rt_desiredHash := hash\<rparr>)"

definition SetRecoveryRetryToken :: "string \<Rightarrow> 's runtime \<Rightarrow> 's runtime" where
  "SetRecoveryRetryToken token r =
     (let changed = rt_recoveryToken r \<noteq> token; r = r\<lparr>rt_recoveryToken := token\<rparr> in
      if changed then rt_wake r else r)"

definition UpsertSubscription :: "'s path_store \<Rightarrow> sub_cr \<Rightarrow> 's runtime \<Rightarrow> goerr option \<times> 's runtime" where
  "UpsertSubscription st sub t =
     (let (err, subs) = AddSubscription st sub (rt_subscriptions t); t = t\<lparr>rt_subscriptions := subs\<rparr> in
      if err \<noteq> None then (err, t) else (None, rt_wake t))"

definition DeleteSubscription :: "'s path_store \<Rightarrow> sub_cr \<Rightarrow> 's runtime \<Rightarrow> goerr option \<times> 's runtime" where
  "DeleteSubscription st sub t =
     (let (err, subs) = DelSubscription st sub (rt_subscriptions t); t = t\<lparr>rt_subscriptions := subs\<rparr> in
      if err \<noteq> None then (err, t) else (None, rt_wake t))"

section \<open>Components\<close>

definition stopCollector :: "'s runtime \<Rightarrow> bool \<times> 's runtime" where
  "stopCollector t = (case rt_collector t of None \<Rightarrow> (False, t) | Some c \<Rightarrow> (True, t\<lparr>rt_collector := None\<rparr>))"

definition stopRuntime :: "'s runtime \<Rightarrow> 's runtime" where
  "stopRuntime t = snd (stopCollector (if rt_watcher t then t\<lparr>rt_watcher := False\<rparr> else t))"

definition ensureRuntime :: "'s runtime \<Rightarrow> goerr option \<times> 's runtime" where
  "ensureRuntime t = (if \<not> rt_watcher t then (None, t\<lparr>rt_watcher := True\<rparr>) else (None, t))"

definition JoinHostPort :: "string \<Rightarrow> string \<Rightarrow> string" where
  \<comment> \<open>\<open>net.JoinHostPort\<close>: brackets around a host with a colon\<close>
  "JoinHostPort host port =
     (if CHR '':'' \<in> set host then ''['' @ host @ '']:'' @ port else host @ '':'' @ port)"

definition collectorAddress ::
  "'s path_store \<Rightarrow> ds_request option \<Rightarrow> 's runtime \<Rightarrow> string \<times> string" where
  \<comment> \<open>(address, reason it must not run)\<close>
  "collectorAddress st desired t =
     (case Option.bind desired dr_target of
        None \<Rightarrow> ([], ''no target'')
      | Some tg \<Rightarrow>
          if to_lower (dt_type tg) \<noteq> ''gnmi''
          then ([], ''target protocol '' @ go_quote (dt_type tg) @ '' is not gnmi'')
          else if dt_address tg = [] then ([], ''target has no address'')
          else if \<not> HasActivePaths st (rt_subscriptions t) then ([], ''no active subscription paths'')
          else let port = Port (rt_subscriptions t);
                   port = (if port = 0 then unat (dt_port tg) else port) in
            if port = 0 then ([], ''no port defined on subscription or target'')
            else (JoinHostPort (dt_address tg) (dec_digits port), []))"

definition reconcileCollector ::
  "('p, 's, 'w) rt_env \<Rightarrow> ds_request option \<Rightarrow> 's runtime \<Rightarrow> 's runtime" where
  "reconcileCollector e desired t =
     (let (address, reason) = collectorAddress (en_store e) desired t in
      if reason \<noteq> [] then snd (stopCollector t)
      else case rt_collector t of
        Some c \<Rightarrow>
          if co_running c \<and> co_address c = address
          then t\<lparr>rt_collector := Some (NotifySubscriptionChanged c)\<rparr>
          else let (err, c) = collector_Start (en_keyString e (rt_key t)) (en_newTarget e)
                     (en_createClient e) desired address c;
                   t = t\<lparr>rt_collector := Some c\<rparr> in
            if err \<noteq> None then wakeAfter t else t
      | None \<Rightarrow>
          let (err, c) = collector_Start (en_keyString e (rt_key t)) (en_newTarget e)
                     (en_createClient e) desired address NewCollector;
              t = t\<lparr>rt_collector := Some c\<rparr> in
            if err \<noteq> None then wakeAfter t else t)"

section \<open>The datastore\<close>

definition ensureDatastore ::
  "('p, 's, 'w) rt_env \<Rightarrow> ('p, 'w) dsclient \<Rightarrow> ds_request \<Rightarrow> 'w \<times> 's runtime
     \<Rightarrow> goerr option \<times> 'w \<times> 's runtime" where
  "ensureDatastore e cl desired wt =
     (let (w, t) = wt; name = en_keyString e (rt_key t);
          wantHash = rt_desiredHash t; haveHash = rt_runningHash t in
      case d_GetDataStore cl name w of
        (Some err, w) \<Rightarrow>
          (if isUnknownDatastoreErr (Some err)
           then let t = setPhase PhaseEnsuringDatastore None t in
             case d_CreateDataStore cl desired w of
               (Some err, w) \<Rightarrow> (Some (err_wrap (''create datastore '' @ go_quote name) err), w, t)
             | (None, w) \<Rightarrow> (None, w, setRecovered False (setDatastoreReady True (setRunningHash wantHash t)))
           else (Some (err_wrap (''get datastore '' @ go_quote name) err), w, setDatastoreReady False t))
      | (None, w) \<Rightarrow>
          (if haveHash \<noteq> [] \<and> wantHash \<noteq> [] \<and> haveHash \<noteq> wantHash
           then let t = stopRuntime (setPhase PhaseEnsuringDatastore None t);
                    (derr, w) = d_DeleteDataStore cl name w in
             if derr \<noteq> None \<and> \<not> isUnknownDatastoreErr derr
             then (Some (err_wrap (''delete datastore '' @ go_quote name) (the derr)), w, t)
             else case d_CreateDataStore cl desired w of
               (Some err, w) \<Rightarrow> (Some (err_wrap (''recreate datastore '' @ go_quote name) err), w, t)
             | (None, w) \<Rightarrow> (None, w, setRecovered False (setDatastoreReady True (setRunningHash wantHash t)))
           else let t = (if haveHash = [] then setRunningHash wantHash t else t) in
             (None, w, setDatastoreReady True t)))"

definition ensureDatastoreDeleted ::
  "('p, 's, 'w) rt_env \<Rightarrow> 'w \<times> 's runtime \<Rightarrow> 'w \<times> 's runtime" where
  "ensureDatastoreDeleted e wt =
     (let (w, t) = wt in
      if \<not> rt_dsReady t then (w, setRunningHash [] (setDatastoreReady False t))
      else case en_client e of
        None \<Rightarrow> (w, setRunningHash [] (setDatastoreReady False t))
      | Some cl \<Rightarrow>
          (let name = en_keyString e (rt_key t); (err, w) = d_DeleteDataStore cl name w in
           case err of
             Some er \<Rightarrow>
               if isUnknownDatastoreErr err then (w, setRunningHash [] (setDatastoreReady False t))
               else (w, setPhase PhaseDegraded (Some (err_wrap (''delete datastore '' @ go_quote name) er))
                        (setDatastoreReady False t))
           | None \<Rightarrow> (w, setRunningHash [] (setDatastoreReady False t))))"

section \<open>Recovery\<close>

text \<open>
  The transactor runs with a callback into the runtime: its two services are lifted to the pair of
  world and runtime, which they leave untouched.
\<close>

definition recoverConfigs ::
  "('p, 's, 'w) rt_env \<Rightarrow> ('p, 'w) dsclient \<Rightarrow> 'w \<times> 's runtime \<Rightarrow> goerr option \<times> 'w \<times> 's runtime" where
  "recoverConfigs e cl wt =
     (if \<not> en_transactor e then (Some (err_new ''no transactor configured''), wt)
      else case k_GetTarget (en_k8s e) (fst (rt_key (snd wt))) (snd (rt_key (snd wt))) (fst wt) of
        (Inl err, w) \<Rightarrow> (Some (err_wrap ''get target'' err), w, snd wt)
      | (Inr tg, w) \<Rightarrow>
          (let ((msg, err), (w, t)) = RecoverConfigs (en_parse e) (en_revertive e) (en_keyString e)
                 (en_now e) (lift_k8s (en_k8s e)) (en_fieldManager e) (lift_ds cl)
                 (apsnd (setRecovered True)) tg (w, snd wt) in
           case err of
             Some er \<Rightarrow> (Some er, w, setRecoveryResult [] (Some er) t)
           | None \<Rightarrow> (None, w, setRecoveryResult (case msg of None \<Rightarrow> [] | Some m \<Rightarrow> m) None t)))"

section \<open>One pass of the loop\<close>

definition reconcile_running ::
  "('p, 's, 'w) rt_env \<Rightarrow> ds_request \<Rightarrow> 'w \<times> 's runtime \<Rightarrow> 'w \<times> 's runtime" where
  \<comment> \<open>the end of \<open>reconcileOnce\<close>: components, phase Running, collector\<close>
  "reconcile_running e desired wt =
     (let (w, t) = wt; (err, t) = ensureRuntime t in
      if err \<noteq> None then (w, setPhase PhaseDegraded err t)
      else (w, reconcileCollector e (Some desired) (setPhase PhaseRunning None t)))"

definition reconcile_recover ::
  "('p, 's, 'w) rt_env \<Rightarrow> ('p, 'w) dsclient \<Rightarrow> ds_request \<Rightarrow> 'w \<times> 's runtime \<Rightarrow> 'w \<times> 's runtime" where
  "reconcile_recover e cl desired wt =
     (let (w, t) = wt in
      if \<not> rt_recovered t
      then case recoveryLatched t of
          Some failErr \<Rightarrow> (w, setPhase PhaseRecoveryFailed (Some failErr) t)
        | None \<Rightarrow>
            (let t = setPhase PhaseRecovering None t; (err, w, t) = recoverConfigs e cl (w, t) in
             case err of
               Some er \<Rightarrow>
                 if e_tx er = Some False
                 then (w, setPhase PhaseRecoveryFailed (Some er) (latchRecoveryFailure er t))
                 else (w, wakeAfter (setPhase PhaseRecovering (Some er) t))
             | None \<Rightarrow> reconcile_running e desired (w, t))
      else reconcile_running e desired (w, t))"

definition reconcile_body ::
  "('p, 's, 'w) rt_env \<Rightarrow> ('s runtime \<Rightarrow> 's runtime) \<Rightarrow> 'w \<times> 's runtime \<Rightarrow> 'w \<times> 's runtime" where
  "reconcile_body e interfere wt =
     (let (w, t) = wt; desired = rt_desired t; t = interfere t in
      case desired of
        None \<Rightarrow>
          (let (w, t) = ensureDatastoreDeleted e (w, stopRuntime t); t = setRecovered False t in
           if rt_desired t = None \<and> rt_phase t \<noteq> PhaseDegraded then (w, setPhase PhasePending None t)
           else (w, t))
      | Some req \<Rightarrow>
          if \<not> rt_dsReady t then (w, stopRuntime (setPhase PhaseWaitingForDS (rt_lastError t) t))
          else let t = (if rt_phase t \<noteq> PhaseRunning then setPhase PhaseEnsuringDatastore None t else t) in
            case en_client e of
              None \<Rightarrow> (w, setPhase PhaseWaitingForDS (Some (err_new ''dataserver client nil'')) t)
            | Some cl \<Rightarrow>
                (let (err, w, t) = ensureDatastore e cl req (w, t) in
                 if err \<noteq> None then (w, setPhase PhaseDegraded err t)
                 else reconcile_recover e cl req (w, t)))"

definition reconcileOnce ::
  "('p, 's, 'w) rt_env \<Rightarrow> ('s runtime \<Rightarrow> 's runtime) \<Rightarrow> 'w \<times> 's runtime \<Rightarrow> 'w \<times> 's runtime" where
  "reconcileOnce e interfere wt = apsnd notifyIfChanged (reconcile_body e interfere wt)"

section \<open>The loop and its lifecycle\<close>

datatype ('p, 's, 'w) rt_event =
  RtSetDesired "ds_request option" "used_refs option" string
| RtSetToken string
| RtMarkRecovered bool
| RtUpsert "'s path_store" sub_cr
| RtDelete "'s path_store" sub_cr
| RtStart
| RtStopCall
| RtLoopStop
| RtDsEvent bool "goerr option"
| RtDsClosed
| RtTimer
| RtPass "('p, 's, 'w) rt_env" "(ds_request option \<times> used_refs option \<times> string) option"

definition Start :: "'s runtime \<Rightarrow> 's runtime" where
  \<comment> \<open>starting the loop makes its initial wake\<close>
  "Start r = (if rt_startUsed r then r else rt_wake (r\<lparr>rt_startUsed := True, rt_looping := True\<rparr>))"

definition Stop :: "'s runtime \<Rightarrow> 's runtime" where
  "Stop r = (let r = r\<lparr>rt_stopClosed := True\<rparr> in
     if rt_startUsed r then r else r\<lparr>rt_startUsed := True, rt_done := True\<rparr>)"

definition rt_shutdown :: "'s runtime \<Rightarrow> 's runtime" where
  "rt_shutdown r = stopRuntime (setPhase PhaseDeleting None r)"

definition interfering :: "(ds_request option \<times> used_refs option \<times> string) option \<Rightarrow> 's runtime \<Rightarrow> 's runtime" where
  "interfering i r = (case i of None \<Rightarrow> r | Some (req, refs, hash) \<Rightarrow> SetDesired req refs hash r)"

fun rt_step :: "('p, 's, 'w) rt_event \<Rightarrow> 'w \<times> 's runtime \<Rightarrow> 'w \<times> 's runtime" where
  "rt_step (RtSetDesired req refs hash) (w, r) = (w, SetDesired req refs hash r)"
| "rt_step (RtSetToken token) (w, r) = (w, SetRecoveryRetryToken token r)"
| "rt_step (RtMarkRecovered b) (w, r) = (w, let r = setRecovered b r in if \<not> b then rt_wake r else r)"
| "rt_step (RtUpsert st sub) (w, r) = (w, snd (UpsertSubscription st sub r))"
| "rt_step (RtDelete st sub) (w, r) = (w, snd (DeleteSubscription st sub r))"
| "rt_step RtStart (w, r) = (w, Start r)"
| "rt_step RtStopCall (w, r) = (w, Stop r)"
| "rt_step RtTimer (w, r) =
     (w, if rt_timers r > 0 then rt_wake (r\<lparr>rt_timers := rt_timers r - 1\<rparr>) else r)"
| "rt_step RtLoopStop (w, r) =
     (w, if rt_looping r then (rt_shutdown r)\<lparr>rt_looping := False, rt_done := True\<rparr> else r)"
| "rt_step (RtDsEvent up err) (w, r) = (w, if rt_looping r then rt_wake (setDSReady up err r) else r)"
| "rt_step RtDsClosed (w, r) =
     (w, if rt_looping r then stopRuntime (setDSReady False (Some (err_new ''ds events closed'')) r) else r)"
| "rt_step (RtPass e i) (w, r) =
     (if rt_looping r \<and> rt_wakeCh r
      then reconcileOnce e (interfering i) (w, r\<lparr>rt_wakeCh := False\<rparr>) else (w, r))"

section \<open>What recovery does to the runtime\<close>

lemma frame_applyStatus: "moves (=) (applyStatus (lift_k8s k) fm cur des)"
  unfolding applyStatus_eq [abs_def] lift_sel
  by (intro frame.ifs frame.ret frame_lcall)

lemma frame_ListConfigsPerTarget: "moves (=) (ListConfigsPerTarget (lift_k8s k) tg)"
  unfolding ListConfigsPerTarget_def [abs_def] lift_sel by (rule frame_lcall)

lemma frame_updateConfigsForTarget: "moves (=) (updateConfigsForTarget (lift_k8s k) fm tg mutate)"
  unfolding updateConfigsForTarget_def [abs_def]
proof (intro frame.sums frame.loops frame.ret frame_ListConfigsPerTarget)
  show "moves (=) (\<lambda>w. case mutate (with_devgen None c) of None \<Rightarrow> (None, w)
      | Some desired \<Rightarrow> applyStatus (lift_k8s k) fm c desired w)" for c
    by (cases "mutate (with_devgen None c)") (simp_all add: frame.ret frame_applyStatus)
qed

lemma frame_TransactionSet: "moves (=) (TransactionSet (lift_ds d) req)"
  unfolding TransactionSet_def [abs_def] Let_def lift_sel moves_def
  by (auto simp: lcall_def split: prod.splits option.splits if_splits)

lemma frame_recoverIntents: "moves (=) (recoverIntents parse env (lift_ds d) key cs)"
  unfolding recoverIntents_def [abs_def]
  by (intro frame.ifs frame.ret)
     (cases "recovery_intents parse env cs"; simp add: frame.ret frame_TransactionSet)

lemma RecoverConfigs_frame:
  assumes "RecoverConfigs parse env kS now (lift_k8s k) fm (lift_ds d) (apsnd g) tg (w, x) = (res, (w', x'))"
  shows "(x' = x \<or> x' = g x) \<and> (snd res = None \<longrightarrow> x' = g x)"
proof -
  obtain li w1 x1 where l: "ListConfigsPerTarget (lift_k8s k) tg (w, x) = (li, (w1, x1))" by (metis prod_cases3)
  have x1: "x1 = x" using movesD [OF frame_ListConfigsPerTarget l] by simp
  show ?thesis
  proof (cases li)
    case (Inl e)
    with assms l x1 show ?thesis by (auto simp: RecoverConfigs_def)
  next
    case (Inr items)
    obtain msg err w2 x2 where r: "recoverIntents parse env (lift_ds d)
        (kS (m_namespace (t_meta tg), m_name (t_meta tg)))
        (filter (\<lambda>c. st_appliedConfig (c_status c) \<noteq> None) items) (w1, x1) = ((msg, err), (w2, x2))"
      by (metis prod_cases4 surj_pair)
    have x2: "x2 = x" using movesD [OF frame_recoverIntents r] x1 by simp
    show ?thesis
    proof (cases err)
      case (Some e)
      obtain s w3 x3 where t: "setRecoveredConfigs (lift_k8s k) fm tg
          (\<lambda>cfg. ConfigFailed now (m_generation (c_meta cfg)) msg) (w2, x2) = (s, (w3, x3))" by (metis prod_cases3)
      have "x3 = x" using movesD [OF frame_updateConfigsForTarget t [unfolded setRecoveredConfigs_def]] x2 by simp
      with assms l Inr r Some t show ?thesis by (auto simp: RecoverConfigs_def split: option.splits)
    next
      case None
      obtain s w3 x3 where t: "setRecoveredConfigs (lift_k8s k) fm tg
          (\<lambda>cfg. ConfigReady now (m_generation (c_meta cfg)) ''target recovered'') (w2, g x2) = (s, (w3, x3))"
        by (metis prod_cases3)
      have "x3 = g x" using movesD [OF frame_updateConfigsForTarget t [unfolded setRecoveredConfigs_def]] x2 by simp
      with assms l Inr r None t show ?thesis by (auto simp: RecoverConfigs_def split: option.splits)
    qed
  qed
qed

lemma recoverConfigs_runtime:
  assumes "recoverConfigs e cl (w, t) = (err, (w', t'))"
  shows "t' = (case err of
      None \<Rightarrow> setRecoveryResult (rt_recoveryMsg t') None (setRecovered True t)
    | Some er \<Rightarrow> t') \<and> (err \<noteq> None \<longrightarrow> t' = t \<or> t' = setRecoveryResult [] err t
         \<or> t' = setRecoveryResult [] err (setRecovered True t))"
proof (cases "en_transactor e")
  case False
  with assms show ?thesis by (auto simp: recoverConfigs_def)
next
  case True
  obtain tr w1 where g: "k_GetTarget (en_k8s e) (fst (rt_key t)) (snd (rt_key t)) w = (tr, w1)" by fastforce
  show ?thesis
  proof (cases tr)
    case (Inl er)
    with assms True g show ?thesis by (auto simp: recoverConfigs_def)
  next
    case (Inr tg)
    obtain msg er w2 t2 where r: "RecoverConfigs (en_parse e) (en_revertive e) (en_keyString e)
                 (en_now e) (lift_k8s (en_k8s e)) (en_fieldManager e) (lift_ds cl)
                 (apsnd (setRecovered True)) tg (w1, t) = ((msg, er), (w2, t2))" by (metis prod_cases4 surj_pair)
    from RecoverConfigs_frame [OF r] assms True g Inr r show ?thesis
      by (auto simp: recoverConfigs_def setRecoveryResult_def Let_def split: option.splits)
  qed
qed

section \<open>What a pass keeps\<close>

definition ctl where
  \<comment> \<open>what only other goroutines, data-server events and the lifecycle change\<close>
  "ctl t = (rt_looping t, rt_wakeCh t, rt_startUsed t, rt_stopClosed t, rt_done t, rt_dsReady t,
     rt_desired t, rt_desiredHash t, rt_recoveryToken t, rt_lastNotified t, rt_notifications t, rt_key t)"

lemma setters_phase [simp]:
  "rt_phase (setPhase p err t) = p" "rt_phase (setDatastoreReady b t) = rt_phase t"
  "rt_phase (setRunningHash h t) = rt_phase t" "rt_phase (setRecovered b t) = rt_phase t"
  "rt_phase (setRecoveryResult m er t) = rt_phase t" "rt_phase (latchRecoveryFailure er' t) = rt_phase t"
  "rt_phase (wakeAfter t) = rt_phase t" "rt_phase (stopRuntime t) = rt_phase t"
  by (simp_all add: setPhase_def setDatastoreReady_def setRunningHash_def setRecovered_def
      setRecoveryResult_def latchRecoveryFailure_def wakeAfter_def stopRuntime_def stopCollector_def Let_def
      split: option.splits)

lemma setters_ctl [simp]:
  "ctl (setPhase p err t) = ctl t" "ctl (setDatastoreReady b t) = ctl t"
  "ctl (setRunningHash h t) = ctl t" "ctl (setRecovered b t) = ctl t"
  "ctl (setRecoveryResult m er t) = ctl t" "ctl (latchRecoveryFailure er' t) = ctl t"
  "ctl (wakeAfter t) = ctl t" "ctl (stopRuntime t) = ctl t"
  by (simp_all add: ctl_def setPhase_def setDatastoreReady_def setRunningHash_def setRecovered_def
      setRecoveryResult_def latchRecoveryFailure_def wakeAfter_def stopRuntime_def stopCollector_def Let_def
      split: option.splits)

lemma setters_recovered [simp]:
  "rt_recovered (setPhase p err t) = rt_recovered t"
  "rt_recovered (setDatastoreReady b t) = (b \<and> rt_recovered t)"
  "rt_recovered (setRunningHash h t) = rt_recovered t" "rt_recovered (setRecovered b t) = b"
  "rt_recovered (setRecoveryResult m er t) = (er = None)"
  "rt_recovered (latchRecoveryFailure er' t) = rt_recovered t"
  "rt_recovered (wakeAfter t) = rt_recovered t" "rt_recovered (stopRuntime t) = rt_recovered t"
  by (simp_all add: setPhase_def setDatastoreReady_def setRunningHash_def setRecovered_def
      setRecoveryResult_def latchRecoveryFailure_def wakeAfter_def stopRuntime_def stopCollector_def Let_def
      split: option.splits)

lemma setters_ready [simp]:
  "rt_datastoreReady (setPhase p err t) = rt_datastoreReady t"
  "rt_datastoreReady (setDatastoreReady b t) = b"
  "rt_datastoreReady (setRunningHash h t) = rt_datastoreReady t"
  "rt_datastoreReady (setRecovered b t) = rt_datastoreReady t"
  "rt_datastoreReady (setRecoveryResult m er t) = rt_datastoreReady t"
  "rt_datastoreReady (latchRecoveryFailure er' t) = rt_datastoreReady t"
  "rt_datastoreReady (wakeAfter t) = rt_datastoreReady t"
  "rt_datastoreReady (stopRuntime t) = rt_datastoreReady t"
  by (simp_all add: setPhase_def setDatastoreReady_def setRunningHash_def setRecovered_def
      setRecoveryResult_def latchRecoveryFailure_def wakeAfter_def stopRuntime_def stopCollector_def Let_def
      split: option.splits)

lemma setters_hash [simp]:
  "rt_runningHash (setPhase p err t) = rt_runningHash t"
  "rt_runningHash (setDatastoreReady b t) = rt_runningHash t"
  "rt_runningHash (setRunningHash h t) = h"
  "rt_runningHash (setRecovered b t) = rt_runningHash t"
  "rt_runningHash (setRecoveryResult m er t) = rt_runningHash t"
  "rt_runningHash (latchRecoveryFailure er' t) = rt_runningHash t"
  "rt_runningHash (wakeAfter t) = rt_runningHash t"
  "rt_runningHash (stopRuntime t) = rt_runningHash t"
  by (simp_all add: setPhase_def setDatastoreReady_def setRunningHash_def setRecovered_def
      setRecoveryResult_def latchRecoveryFailure_def wakeAfter_def stopRuntime_def stopCollector_def Let_def
      split: option.splits)

lemma setters_timers [simp]:
  "rt_timers (setPhase p err t) = rt_timers t" "rt_timers (setDatastoreReady b t) = rt_timers t"
  "rt_timers (setRunningHash h t) = rt_timers t" "rt_timers (setRecovered b t) = rt_timers t"
  "rt_timers (setRecoveryResult m er t) = rt_timers t"
  "rt_timers (latchRecoveryFailure er' t) = rt_timers t"
  "rt_timers (wakeAfter t) = Suc (rt_timers t)" "rt_timers (stopRuntime t) = rt_timers t"
  by (simp_all add: setPhase_def setDatastoreReady_def setRunningHash_def setRecovered_def
      setRecoveryResult_def latchRecoveryFailure_def wakeAfter_def stopRuntime_def stopCollector_def Let_def
      split: option.splits)

lemma setters_latch [simp]:
  "recoveryLatched (setPhase p err t) = recoveryLatched t"
  "recoveryLatched (setDatastoreReady b t) = recoveryLatched t"
  "recoveryLatched (setRunningHash h t) = recoveryLatched t"
  "recoveryLatched (setRecovered b t) = recoveryLatched t"
  "recoveryLatched (wakeAfter t) = recoveryLatched t" "recoveryLatched (stopRuntime t) = recoveryLatched t"
  "recoveryLatched (setRecoveryResult m (Some er) t) = recoveryLatched t"
  by (simp_all add: recoveryLatched_def recoveryKey_def setPhase_def setDatastoreReady_def
      setRunningHash_def setRecovered_def setRecoveryResult_def wakeAfter_def stopRuntime_def
      stopCollector_def Let_def split: option.splits)

lemma setters_watcher [simp]:
  "rt_watcher (setPhase p err t) = rt_watcher t" "rt_watcher (wakeAfter t) = rt_watcher t"
  by (simp_all add: setPhase_def wakeAfter_def)

lemma reconcileCollector_keeps:
  "ctl (reconcileCollector e d t) = ctl t" "rt_phase (reconcileCollector e d t) = rt_phase t"
  "rt_recovered (reconcileCollector e d t) = rt_recovered t"
  "rt_datastoreReady (reconcileCollector e d t) = rt_datastoreReady t"
  "rt_runningHash (reconcileCollector e d t) = rt_runningHash t"
  "rt_watcher (reconcileCollector e d t) = rt_watcher t"
  by (simp_all add: reconcileCollector_def stopCollector_def ctl_def wakeAfter_def Let_def
      split: prod.splits option.splits)

lemma reconcile_running_outcome:
  assumes "reconcile_running e req (w, t) = (w', t')"
  shows "w' = w \<and> ctl t' = ctl t \<and> rt_phase t' = PhaseRunning \<and> rt_watcher t'
    \<and> rt_recovered t' = rt_recovered t \<and> rt_datastoreReady t' = rt_datastoreReady t
    \<and> rt_runningHash t' = rt_runningHash t"
proof -
  let ?t = "snd (ensureRuntime t)"
  have t: "ctl ?t = ctl t" "rt_watcher ?t" "rt_recovered ?t = rt_recovered t"
    "rt_datastoreReady ?t = rt_datastoreReady t" "rt_runningHash ?t = rt_runningHash t"
    "fst (ensureRuntime t) = None"
    by (simp_all add: ensureRuntime_def ctl_def)
  with assms have "w' = w" "t' = reconcileCollector e (Some req) (setPhase PhaseRunning None ?t)"
    by (auto simp: reconcile_running_def split: prod.splits)
  with t show ?thesis by (simp add: reconcileCollector_keeps)
qed

lemma ensureDatastore_outcome:
  assumes "ensureDatastore e cl req (w, t) = (err, w', t')"
  shows "ctl t' = ctl t \<and> rt_timers t' = rt_timers t \<and> recoveryLatched t' = recoveryLatched t
    \<and> (rt_recovered t' \<longrightarrow> rt_recovered t)
    \<and> (err = None \<longrightarrow> rt_datastoreReady t'
        \<and> (rt_desiredHash t \<noteq> [] \<longrightarrow> rt_runningHash t' = rt_desiredHash t)
        \<and> (rt_recovered t' \<longrightarrow> rt_phase t' = rt_phase t))"
  using assms
  by (auto simp: ensureDatastore_def Let_def split: prod.splits option.splits if_splits)

lemma recoverConfigs_outcome:
  assumes "recoverConfigs e cl (w, t) = (err, w', t')"
  shows "ctl t' = ctl t \<and> rt_timers t' = rt_timers t \<and> rt_phase t' = rt_phase t
    \<and> rt_datastoreReady t' = rt_datastoreReady t \<and> rt_runningHash t' = rt_runningHash t
    \<and> (err = None \<longrightarrow> rt_recovered t')
    \<and> (err \<noteq> None \<longrightarrow> recoveryLatched t' = recoveryLatched t \<and> (rt_recovered t' \<longrightarrow> rt_recovered t))"
proof (cases err)
  case None
  with recoverConfigs_runtime [OF assms] have "t' = setRecoveryResult (rt_recoveryMsg t') None (setRecovered True t)"
    by simp
  then show ?thesis using None
    by (metis setters_ctl(4,5) setters_timers(4,5) setters_phase(4,5) setters_ready(4,5) setters_hash(4,5)
        setters_recovered(5))
next
  case (Some er)
  with recoverConfigs_runtime [OF assms] show ?thesis by auto
qed

lemma reconcile_recover_outcome:
  assumes "reconcile_recover e cl req (w, t) = (w', t')"
  shows "ctl t' = ctl t
    \<and> (rt_phase t' = PhaseRunning \<longrightarrow> rt_recovered t' \<and> rt_watcher t'
         \<and> rt_datastoreReady t' = rt_datastoreReady t)
    \<and> rt_runningHash t' = rt_runningHash t
    \<and> rt_phase t' \<in> {PhaseRunning, PhaseRecovering, PhaseRecoveryFailed}
    \<and> (rt_phase t' = PhaseRecovering \<longrightarrow> rt_timers t' = Suc (rt_timers t))"
proof (cases "rt_recovered t")
  case True
  with assms have "reconcile_running e req (w, t) = (w', t')" by (simp add: reconcile_recover_def)
  from reconcile_running_outcome [OF this] True show ?thesis by simp
next
  case False
  show ?thesis
  proof (cases "recoveryLatched t")
    case (Some er)
    with assms False show ?thesis by (auto simp: reconcile_recover_def)
  next
    case None
    obtain err w1 t1 where r: "recoverConfigs e cl (w, setPhase PhaseRecovering None t) = (err, w1, t1)"
      by (metis prod_cases3)
    note R = recoverConfigs_outcome [OF r]
    show ?thesis
    proof (cases err)
      case (Some er)
      with assms False None r R show ?thesis by (auto simp: reconcile_recover_def split: if_splits)
    next
      case err: None
      with assms False None r have "reconcile_running e req (w1, t1) = (w', t')"
        by (simp add: reconcile_recover_def)
      from reconcile_running_outcome [OF this] R err show ?thesis by simp
    qed
  qed
qed

lemma ensureDatastoreDeleted_outcome:
  assumes "ensureDatastoreDeleted e (w, t) = (w', t')"
  shows "ctl t' = ctl t \<and> \<not> rt_recovered t' \<and> (rt_phase t' = rt_phase t \<or> rt_phase t' = PhaseDegraded)
    \<and> rt_timers t' = rt_timers t"
  using assms by (auto simp: ensureDatastoreDeleted_def Let_def split: prod.splits option.splits if_splits)

lemma ctl_sel:
  "ctl t' = ctl t \<Longrightarrow> rt_looping t' = rt_looping t" "ctl t' = ctl t \<Longrightarrow> rt_wakeCh t' = rt_wakeCh t"
  "ctl t' = ctl t \<Longrightarrow> rt_startUsed t' = rt_startUsed t" "ctl t' = ctl t \<Longrightarrow> rt_stopClosed t' = rt_stopClosed t"
  "ctl t' = ctl t \<Longrightarrow> rt_done t' = rt_done t" "ctl t' = ctl t \<Longrightarrow> rt_dsReady t' = rt_dsReady t"
  "ctl t' = ctl t \<Longrightarrow> rt_desired t' = rt_desired t" "ctl t' = ctl t \<Longrightarrow> rt_desiredHash t' = rt_desiredHash t"
  "ctl t' = ctl t \<Longrightarrow> rt_recoveryToken t' = rt_recoveryToken t"
  "ctl t' = ctl t \<Longrightarrow> rt_lastNotified t' = rt_lastNotified t"
  "ctl t' = ctl t \<Longrightarrow> rt_notifications t' = rt_notifications t"
  "ctl t' = ctl t \<Longrightarrow> rt_key t' = rt_key t"
  by (simp_all add: ctl_def)

lemma reconcile_body_outcome:
  assumes "reconcile_body e (\<lambda>t. t) (w, t) = (w', t')"
  shows "ctl t' = ctl t
    \<and> (rt_phase t' = PhaseRunning \<longrightarrow> rt_desired t \<noteq> None \<and> rt_dsReady t \<and> rt_recovered t'
        \<and> rt_datastoreReady t' \<and> rt_watcher t'
        \<and> (rt_desiredHash t \<noteq> [] \<longrightarrow> rt_runningHash t' = rt_desiredHash t))
    \<and> rt_phase t' \<notin> {PhaseEnsuringDatastore, PhaseDeleting}
    \<and> (rt_phase t' = PhaseRecovering \<longrightarrow> rt_timers t' = Suc (rt_timers t))"
proof (cases "rt_desired t")
  case None
  obtain w1 t1 where d: "ensureDatastoreDeleted e (w, stopRuntime t) = (w1, t1)" by fastforce
  note D = ensureDatastoreDeleted_outcome [OF d]
  have "ctl (setRecovered False t1) = ctl t" using D by simp
  then have "rt_desired (setRecovered False t1) = None" using ctl_sel(7) None by metis
  with assms None d have "t' = (if rt_phase t1 \<noteq> PhaseDegraded then setPhase PhasePending None (setRecovered False t1)
      else setRecovered False t1)"
    by (auto simp: reconcile_body_def Let_def split: if_splits)
  with D show ?thesis by auto
next
  case (Some req)
  show ?thesis
  proof (cases "rt_dsReady t")
    case False
    with assms Some show ?thesis by (auto simp: reconcile_body_def Let_def)
  next
    case ready: True
    let ?t = "if rt_phase t \<noteq> PhaseRunning then setPhase PhaseEnsuringDatastore None t else t"
    have q: "ctl ?t = ctl t" "rt_desiredHash ?t = rt_desiredHash t" "rt_timers ?t = rt_timers t"
      by (auto simp: setPhase_def ctl_def)
    show ?thesis
    proof (cases "en_client e")
      case None
      with assms Some ready q show ?thesis by (auto simp: reconcile_body_def Let_def split: if_splits)
    next
      case (Some cl)
      obtain err w1 t1 where d: "ensureDatastore e cl req (w, ?t) = (err, w1, t1)" by (metis prod_cases3)
      note D = ensureDatastore_outcome [OF d]
      show ?thesis
      proof (cases err)
        case (Some er)
        with assms \<open>rt_desired t = Some req\<close> ready \<open>en_client e = Some cl\<close> d D q show ?thesis
          by (auto simp: reconcile_body_def Let_def)
      next
        case None
        with assms \<open>rt_desired t = Some req\<close> ready \<open>en_client e = Some cl\<close> d
        have "reconcile_recover e cl req (w1, t1) = (w', t')" by (auto simp: reconcile_body_def Let_def)
        from reconcile_recover_outcome [OF this] D None q ready \<open>rt_desired t = Some req\<close> show ?thesis by auto
      qed
    qed
  qed
qed


definition sample_desired :: ds_request where
  "sample_desired = \<lparr>dr_datastoreName = ''ns.t1'', dr_target = Some \<lparr>dt_type = ''netconf'',
     dt_address = ''1.1.1.1'', dt_port = 830, dt_credentials = None, dt_tls = None,
     dt_protocolOptions = NoOpts\<rparr>, dr_schema = None, dr_sync = None\<rparr>"

definition sample_env :: "config list \<Rightarrow> (string, path_subs gomap, nat) rt_env" where
  "sample_env cs = \<lparr>en_client = Some sample_ds, en_k8s = sample_k8s cs, en_transactor = True,
     en_parse = (\<lambda>p. Inr p), en_revertive = None, en_keyString = (\<lambda>k. fst k @ ''.'' @ snd k),
     en_now = 7, en_fieldManager = ''fm'', en_newTarget = (\<lambda>os. None), en_createClient = (\<lambda>os. None),
     en_store = alist_store\<rparr>"

definition sample_runtime :: "path_subs gomap runtime" where
  "sample_runtime = (NewTargetRuntime (''ns'', ''t1'') \<lparr>sb_paths = [], sb_ports = []\<rparr>)
     \<lparr>rt_dsReady := True, rt_desired := Some sample_desired, rt_desiredHash := ''h''\<rparr>"


section \<open>Every sequence of events\<close>

lemma reconcile_body_ctl:
  assumes "reconcile_body e f (w, t) = (w', t')"
  shows "ctl t' = ctl (f t)"
proof (cases "rt_desired t")
  case None
  obtain w1 t1 where d: "ensureDatastoreDeleted e (w, stopRuntime (f t)) = (w1, t1)" by fastforce
  with assms None ensureDatastoreDeleted_outcome [OF d] show ?thesis
    by (auto simp: reconcile_body_def Let_def split: if_splits)
next
  case (Some req)
  let ?t = "if rt_phase (f t) \<noteq> PhaseRunning then setPhase PhaseEnsuringDatastore None (f t) else f t"
  have q: "ctl ?t = ctl (f t)" by auto
  show ?thesis
  proof (cases "rt_dsReady (f t) \<and> en_client e \<noteq> None")
    case False
    with assms Some show ?thesis by (auto simp: reconcile_body_def Let_def split: option.splits if_splits)
  next
    case True
    then obtain cl where cl: "en_client e = Some cl" by blast
    obtain err w1 t1 where d: "ensureDatastore e cl req (w, ?t) = (err, w1, t1)" by (metis prod_cases3)
    note D = ensureDatastore_outcome [OF d]
    show ?thesis
    proof (cases err)
      case (Some er)
      with assms \<open>rt_desired t = Some req\<close> True cl d D q show ?thesis
        by (auto simp: reconcile_body_def Let_def)
    next
      case None
      with assms \<open>rt_desired t = Some req\<close> True cl d
      have "reconcile_recover e cl req (w1, t1) = (w', t')" by (auto simp: reconcile_body_def Let_def)
      from reconcile_recover_outcome [OF this] D q show ?thesis by simp
    qed
  qed
qed

definition rt_inv :: "'s runtime \<Rightarrow> bool" where
  "rt_inv r \<longleftrightarrow> (rt_looping r \<longrightarrow> \<not> rt_done r) \<and> (rt_startUsed r \<longleftrightarrow> rt_looping r \<or> rt_done r)
     \<and> (\<not> rt_looping r \<longrightarrow> \<not> rt_watcher r \<and> rt_collector r = None)
     \<and> (rt_looping r \<and> rt_phase r = PhaseRunning \<and> rt_dsReady r \<and> \<not> rt_wakeCh r \<longrightarrow>
          rt_datastoreReady r \<and> rt_recovered r \<and> rt_watcher r)"

lemma wake_sel [simp]:
  "rt_wakeCh (rt_wake r)" "rt_looping (rt_wake r) = rt_looping r" "rt_done (rt_wake r) = rt_done r"
  "rt_startUsed (rt_wake r) = rt_startUsed r" "rt_watcher (rt_wake r) = rt_watcher r"
  "rt_collector (rt_wake r) = rt_collector r"
  by (simp_all add: rt_wake_def)

lemma setDSReady_sel [simp]:
  "rt_looping (setDSReady b er r) = rt_looping r" "rt_done (setDSReady b er r) = rt_done r"
  "rt_startUsed (setDSReady b er r) = rt_startUsed r" "rt_watcher (setDSReady b er r) = rt_watcher r"
  "rt_collector (setDSReady b er r) = rt_collector r" "rt_dsReady (setDSReady b er r) = b"
  by (simp_all add: setDSReady_def Let_def)

lemma setRecovered_sel [simp]:
  "rt_looping (setRecovered b r) = rt_looping r" "rt_done (setRecovered b r) = rt_done r"
  "rt_startUsed (setRecovered b r) = rt_startUsed r" "rt_watcher (setRecovered b r) = rt_watcher r"
  "rt_collector (setRecovered b r) = rt_collector r" "rt_dsReady (setRecovered b r) = rt_dsReady r"
  "rt_wakeCh (setRecovered b r) = rt_wakeCh r"
  by (simp_all add: setRecovered_def Let_def)

lemma stopRuntime_sel [simp]:
  "\<not> rt_watcher (stopRuntime r)" "rt_collector (stopRuntime r) = None"
  by (simp_all add: stopRuntime_def stopCollector_def split: option.splits)

lemma rt_inv_pass:
  assumes inv: "rt_inv r" and loop: "rt_looping r"
    and pass: "reconcileOnce e (interfering i) (w, r\<lparr>rt_wakeCh := False\<rparr>) = (w', r')"
  shows "rt_inv r'"
proof -
  let ?r = "r\<lparr>rt_wakeCh := False\<rparr>"
  obtain t1 where b: "reconcile_body e (interfering i) (w, ?r) = (w', t1)" and r': "r' = notifyIfChanged t1"
    using pass by (cases "reconcile_body e (interfering i) (w, ?r)") (auto simp: reconcileOnce_def)
  have c: "ctl t1 = ctl (interfering i ?r)" by (rule reconcile_body_ctl [OF b])
  have life: "rt_looping t1 = rt_looping r" "rt_done t1 = rt_done r" "rt_startUsed t1 = rt_startUsed r"
    using ctl_sel(1,3,5) [OF c] by (auto simp: interfering_def SetDesired_def split: option.splits prod.splits)
  have run: "rt_phase t1 = PhaseRunning \<Longrightarrow> rt_dsReady t1 \<Longrightarrow> \<not> rt_wakeCh t1 \<Longrightarrow>
      rt_datastoreReady t1 \<and> rt_recovered t1 \<and> rt_watcher t1"
  proof (cases i)
    case None
    then have "interfering i = (\<lambda>t. t)" by (auto simp: interfering_def)
    from reconcile_body_outcome [OF b [unfolded this]]
    show "rt_phase t1 = PhaseRunning \<Longrightarrow> rt_datastoreReady t1 \<and> rt_recovered t1 \<and> rt_watcher t1" by blast
  next
    case (Some x)
    then have "rt_wakeCh (interfering i ?r)" by (cases x) (simp add: interfering_def SetDesired_def)
    with ctl_sel(2) [OF c] show "\<not> rt_wakeCh t1 \<Longrightarrow> rt_datastoreReady t1 \<and> rt_recovered t1 \<and> rt_watcher t1" by simp
  qed
  have "rt_inv t1" using inv loop life run by (auto simp: rt_inv_def)
  then show ?thesis by (auto simp: r' rt_inv_def notifyIfChanged_def Let_def)
qed

lemma rt_inv_step [step_inv]: "rt_inv (snd wr) \<Longrightarrow> rt_inv (snd (rt_step ev wr))"
proof -
  assume inv: "rt_inv (snd wr)"
  obtain w r where wr: "wr = (w, r)" by fastforce
  show ?thesis
  proof (cases ev)
    case (RtPass e i)
    then show ?thesis using inv rt_inv_pass [of r e i w]
      by (cases "reconcileOnce e (interfering i) (w, r\<lparr>rt_wakeCh := False\<rparr>)") (auto simp: wr)
  next
    case (RtMarkRecovered b)
    show ?thesis using inv by (auto simp: RtMarkRecovered wr rt_inv_def Let_def)
  next
    case RtLoopStop
    have k: "rt_startUsed (rt_shutdown r) = rt_startUsed r"
      using ctl_sel(3) [of "rt_shutdown r" r] by (simp add: rt_shutdown_def)
    show ?thesis using inv k by (auto simp: RtLoopStop wr rt_inv_def rt_shutdown_def)
  next
    case RtDsClosed
    let ?r = "stopRuntime (setDSReady False (Some (err_new ''ds events closed'')) r)"
    have "ctl ?r = ctl (setDSReady False (Some (err_new ''ds events closed'')) r)" by simp
    from ctl_sel(1,3,5,6) [OF this] show ?thesis using inv
      by (auto simp: RtDsClosed wr rt_inv_def)
  qed (use inv in \<open>auto simp: wr rt_inv_def SetDesired_def SetRecoveryRetryToken_def UpsertSubscription_def
      DeleteSubscription_def Start_def Stop_def Let_def split: prod.splits\<close>)
qed

lemma rt_key_step [simp]: "rt_key (snd (rt_step ev wr)) = rt_key (snd wr)"
proof -
  obtain w r where wr: "wr = (w, r)" by fastforce
  show ?thesis
  proof (cases ev)
    case (RtPass e i)
    obtain w1 t1 where b: "reconcile_body e (interfering i) (w, r\<lparr>rt_wakeCh := False\<rparr>) = (w1, t1)" by fastforce
    have "rt_key t1 = rt_key r" using ctl_sel(12) [OF reconcile_body_ctl [OF b]]
      by (auto simp: interfering_def SetDesired_def rt_wake_def split: option.splits prod.splits)
    then show ?thesis by (simp add: RtPass wr reconcileOnce_def b notifyIfChanged_def Let_def)
  next
    case RtLoopStop
    have "rt_key (rt_shutdown r) = rt_key r" by (rule ctl_sel(12)) (simp add: rt_shutdown_def)
    then show ?thesis by (simp add: RtLoopStop wr)
  next
    case RtDsClosed
    have "rt_key (stopRuntime (setDSReady False (Some (err_new ''ds events closed'')) r)) =
        rt_key (setDSReady False (Some (err_new ''ds events closed'')) r)" by (rule ctl_sel(12)) simp
    then show ?thesis by (simp add: RtDsClosed wr setDSReady_def Let_def)
  qed (auto simp: wr SetDesired_def SetRecoveryRetryToken_def UpsertSubscription_def DeleteSubscription_def
      Start_def Stop_def rt_wake_def setRecovered_def setDSReady_def Let_def split: prod.splits)
qed

interpretation rt_runs: invariant_machine rt_step "(w, NewTargetRuntime key subs)" "\<lambda>wr. rt_inv (snd wr)"
  for w :: 'w and key and subs :: "'s subscriptions"
  by unfold_locales (simp_all add: rt_inv_step, simp add: rt_inv_def NewTargetRuntime_def)

lemma rt_done_step:
  "rt_done (snd wr) \<Longrightarrow> rt_startUsed (snd wr) \<Longrightarrow> \<not> rt_looping (snd wr) \<Longrightarrow>
     rt_done (snd (rt_step ev wr)) \<and> rt_startUsed (snd (rt_step ev wr)) \<and> \<not> rt_looping (snd (rt_step ev wr))
     \<and> fst (rt_step ev wr) = fst wr"
  by (cases wr; cases ev)
    (auto simp: SetDesired_def SetRecoveryRetryToken_def UpsertSubscription_def DeleteSubscription_def
      Start_def Stop_def setRecovered_def Let_def split: prod.splits)

lemma rt_done_run:
  "rt_done (snd wr) \<Longrightarrow> rt_startUsed (snd wr) \<Longrightarrow> \<not> rt_looping (snd wr) \<Longrightarrow>
     fst (run_ops rt_step evs wr) = fst wr \<and> \<not> rt_looping (snd (run_ops rt_step evs wr))"
  by (induction evs arbitrary: wr) (auto simp: run_ops_def rt_done_step)

text \<open>
  For every interleaving of requests, data-server events, timers, whole passes (with a concurrent
  \<open>SetDesired\<close> or not) and stops: between two passes, while the data-server is up and no wake is pending, a
  running target has its datastore, has replayed its configs and is watched. The states in the
  middle of a pass are those of \<open>RuntimePass\<close>.
\<close>

lemma runtime_safe_between_passes:
  fixes subs :: "'s subscriptions"
  assumes run: "run_ops rt_step evs (w, NewTargetRuntime key subs) = (w', r)"
  shows "(rt_looping r \<and> rt_phase r = PhaseRunning \<and> rt_dsReady r \<and> \<not> rt_wakeCh r \<longrightarrow>
        rt_datastoreReady r \<and> rt_recovered r \<and> rt_watcher r)
    \<and> (rt_done r \<longrightarrow> \<not> rt_watcher r \<and> rt_collector r = None
        \<and> (\<forall>later. fst (run_ops rt_step later (w', r)) = w'
             \<and> \<not> rt_looping (snd (run_ops rt_step later (w', r)))))"
proof -
  have inv: "rt_inv r" using rt_runs.inv_run [of evs w key subs] run by simp
  then have "rt_done r \<Longrightarrow> rt_startUsed r \<and> \<not> rt_looping r" by (auto simp: rt_inv_def)
  then show ?thesis using inv rt_done_run [of "(w', r)"] by (auto simp: rt_inv_def)
qed

section \<open>The recovery latch\<close>

fun keeps_key :: "string \<Rightarrow> string \<Rightarrow> ('p, 's, 'w) rt_event \<Rightarrow> bool" where
  \<comment> \<open>events that neither change the recovery key nor declare the target recovered\<close>
  "keeps_key h tok (RtSetDesired req refs hash) = (hash = h)"
| "keeps_key h tok (RtSetToken token) = (token = tok)"
| "keeps_key h tok (RtMarkRecovered b) = (\<not> b)"
| "keeps_key h tok (RtPass e i) = (case i of None \<Rightarrow> True | Some (req, refs, hash) \<Rightarrow> hash = h)"
| "keeps_key h tok ev = True"

fun without_transactor :: "'w k8s \<Rightarrow> ('p, 's, 'w) rt_event \<Rightarrow> ('p, 's, 'w) rt_event" where
  "without_transactor k (RtPass e i) = RtPass (e\<lparr>en_transactor := False, en_k8s := k\<rparr>) i"
| "without_transactor k ev = ev"

definition latched :: "string \<Rightarrow> string \<Rightarrow> goerr \<Rightarrow> 's runtime \<Rightarrow> bool" where
  "latched h tok er r \<longleftrightarrow> rt_desiredHash r = h \<and> rt_recoveryToken r = tok
     \<and> recoveryLatched r = Some er \<and> \<not> rt_recovered r"

lemma latched_ctl:
  "ctl t' = ctl t \<Longrightarrow> recoveryLatched t' = recoveryLatched t \<Longrightarrow> \<not> rt_recovered t' \<Longrightarrow>
     latched h tok er t \<Longrightarrow> latched h tok er t'"
  by (simp add: latched_def ctl_def)

lemma latched_setters [simp]:
  "latched h tok er (setPhase p x t) = latched h tok er t" "latched h tok er (stopRuntime t) = latched h tok er t"
  using ctl_sel(8,9) [OF setters_ctl(1) [of p x t]] ctl_sel(8,9) [OF setters_ctl(8) [of t]]
  by (auto simp: latched_def)

lemma latched_fields [simp]:
  "latched h tok er (t\<lparr>rt_looping := a\<rparr>) = latched h tok er t" "latched h tok er (t\<lparr>rt_done := a\<rparr>) = latched h tok er t"
  "latched h tok er (t\<lparr>rt_startUsed := a\<rparr>) = latched h tok er t" "latched h tok er (t\<lparr>rt_stopClosed := a\<rparr>) = latched h tok er t"
  "latched h tok er (t\<lparr>rt_wakeCh := a\<rparr>) = latched h tok er t" "latched h tok er (t\<lparr>rt_timers := n\<rparr>) = latched h tok er t"
  "latched h tok er (t\<lparr>rt_subscriptions := s\<rparr>) = latched h tok er t"
  by (simp_all add: latched_def recoveryLatched_def recoveryKey_def)

lemma latched_wake [simp]: "latched h tok er (rt_wake t) = latched h tok er t"
  by (simp add: rt_wake_def)

lemma latched_unrecovered [intro]:
  "latched h tok er t \<Longrightarrow> latched h tok er (setRecovered False t)"
  "latched h tok er t \<Longrightarrow> latched h tok er (setDSReady up x t)"
  by (auto simp: latched_def recoveryLatched_def recoveryKey_def setRecovered_def setDSReady_def Let_def split: if_splits)

lemma latched_requests [intro]:
  "latched h tok er t \<Longrightarrow> latched h tok er (SetDesired req refs h t)"
  "latched h tok er t \<Longrightarrow> latched h tok er (SetRecoveryRetryToken tok t)"
  by (auto simp: latched_def recoveryLatched_def recoveryKey_def SetDesired_def SetRecoveryRetryToken_def
      rt_wake_def Let_def split: if_splits)

lemma latched_notify [simp]: "latched h tok er (notifyIfChanged t) = latched h tok er t"
  by (simp add: latched_def notifyIfChanged_def Let_def recoveryLatched_def recoveryKey_def)

lemma ensureDatastore_transactor:
  "ensureDatastore (e\<lparr>en_transactor := b, en_k8s := k\<rparr>) cl req wt = ensureDatastore e cl req wt"
  by (simp add: ensureDatastore_def)

lemma ensureDatastoreDeleted_transactor:
  "ensureDatastoreDeleted (e\<lparr>en_transactor := b, en_k8s := k\<rparr>) wt = ensureDatastoreDeleted e wt"
  by (cases wt; cases "en_client e") (simp_all add: ensureDatastoreDeleted_def)

lemma reconcile_body_latched:
  assumes l: "latched h tok er (f t)" and body: "reconcile_body e f (w, t) = (w', t')"
  shows "latched h tok er t' \<and> reconcile_body (e\<lparr>en_transactor := b, en_k8s := k\<rparr>) f (w, t) = (w', t')"
proof -
  let ?e = "e\<lparr>en_transactor := b, en_k8s := k\<rparr>"
  have nr: "\<not> rt_recovered (f t)" using l by (simp add: latched_def)
  show ?thesis
  proof (cases "rt_desired t")
    case None
    obtain w1 t1 where d: "ensureDatastoreDeleted e (w, stopRuntime (f t)) = (w1, t1)" by fastforce
    have d': "ensureDatastoreDeleted ?e (w, stopRuntime (f t)) = (w1, t1)"
      using d by (simp only: ensureDatastoreDeleted_transactor)
    have "recoveryLatched t1 = recoveryLatched (f t)"
      using d by (auto simp: ensureDatastoreDeleted_def Let_def split: prod.splits option.splits if_splits)
    moreover have "ctl t1 = ctl (f t)" using ensureDatastoreDeleted_outcome [OF d] by simp
    ultimately have "latched h tok er (setRecovered False t1)"
      by (intro latched_ctl [OF _ _ _ l]) simp_all
    then have "latched h tok er (if rt_desired (setRecovered False t1) = None \<and> rt_phase (setRecovered False t1) \<noteq> PhaseDegraded
        then setPhase PhasePending None (setRecovered False t1) else setRecovered False t1)"
      by simp
    with body None d d' show ?thesis by (auto simp: reconcile_body_def Let_def split: if_splits)
  next
    case (Some req)
    let ?t = "if rt_phase (f t) \<noteq> PhaseRunning then setPhase PhaseEnsuringDatastore None (f t) else f t"
    have q: "ctl ?t = ctl (f t)" "recoveryLatched ?t = recoveryLatched (f t)" "\<not> rt_recovered ?t"
      using nr by auto
    show ?thesis
    proof (cases "rt_dsReady (f t) \<and> en_client e \<noteq> None")
      case False
      with body Some l nr q show ?thesis
        by (auto simp: reconcile_body_def Let_def split: option.splits if_splits)
    next
      case True
      then obtain cl where cl: "en_client e = Some cl" by blast
      obtain err w1 t1 where d: "ensureDatastore e cl req (w, ?t) = (err, w1, t1)" by (metis prod_cases3)
      note D = ensureDatastore_outcome [OF d]
      have l1: "latched h tok er t1" using D q by (intro latched_ctl [OF _ _ _ l]) auto
      then have "reconcile_recover e cl req (w1, t1) = (w1, setPhase PhaseRecoveryFailed (Some er) t1)"
        "reconcile_recover ?e cl req (w1, t1) = (w1, setPhase PhaseRecoveryFailed (Some er) t1)"
        by (simp_all add: latched_def reconcile_recover_def)
      moreover have "latched h tok er (setPhase p x t1)" for p x
        using l1 by (intro latched_ctl [OF _ _ _ l1]) (simp_all add: latched_def)
      ultimately show ?thesis using body Some True cl d ensureDatastore_transactor [of k b e cl req "(w, ?t)"]
        by (auto simp: reconcile_body_def Let_def split: if_splits)
    qed
  qed
qed

lemma latched_step:
  assumes l: "latched h tok er (snd wr)" and k: "keeps_key h tok ev"
  shows "latched h tok er (snd (rt_step ev wr)) \<and> rt_step (without_transactor k8s ev) wr = rt_step ev wr"
proof -
  obtain w r where wr: "wr = (w, r)" by fastforce
  show ?thesis
  proof (cases ev)
    case (RtPass e i)
    have "latched h tok er (interfering i (r\<lparr>rt_wakeCh := False\<rparr>))"
      using l k RtPass wr
      by (cases i) (auto simp: interfering_def split: prod.splits)
    from reconcile_body_latched [of h tok er "interfering i" "r\<lparr>rt_wakeCh := False\<rparr>", OF this]
    have B: "reconcile_body e (interfering i) (w, r\<lparr>rt_wakeCh := False\<rparr>) = (w', t') \<Longrightarrow> latched h tok er t' \<and>
        reconcile_body (e\<lparr>en_transactor := b, en_k8s := k\<rparr>) (interfering i) (w, r\<lparr>rt_wakeCh := False\<rparr>) = (w', t')"
      for w w' t' b k .
    obtain w1 t1 where b: "reconcile_body e (interfering i) (w, r\<lparr>rt_wakeCh := False\<rparr>) = (w1, t1)" by fastforce
    have "latched h tok er (notifyIfChanged t1)" using B [OF b] by simp
    have b': "reconcile_body (e\<lparr>en_transactor := False, en_k8s := k8s\<rparr>) (interfering i) (w, r\<lparr>rt_wakeCh := False\<rparr>) = (w1, t1)"
      using B [OF b, of k8s False] by simp
    have "rt_step ev wr = (if rt_looping r \<and> rt_wakeCh r then (w1, notifyIfChanged t1) else (w, r))"
      unfolding RtPass wr rt_step.simps reconcileOnce_def b by simp
    moreover have "rt_step (without_transactor k8s ev) wr
        = (if rt_looping r \<and> rt_wakeCh r then (w1, notifyIfChanged t1) else (w, r))"
      unfolding RtPass wr rt_step.simps reconcileOnce_def without_transactor.simps b' by simp
    ultimately show ?thesis using \<open>latched h tok er (notifyIfChanged t1)\<close> l by (simp add: wr)
  next
    case RtLoopStop
    then show ?thesis using l by (simp add: wr rt_shutdown_def)
  next
    case RtDsClosed
    then show ?thesis using l by (auto simp: wr)
  qed (use l k in \<open>auto simp: wr UpsertSubscription_def DeleteSubscription_def Start_def Stop_def Let_def
      split: prod.splits\<close>)
qed

text \<open>
  C23: A configuration set that could not be replayed is not tried again by itself. While a
  non-recoverable failure is latched, no sequence of events that keeps the desired hash and the
  retry token (data-server restarts, wakes, timers, recreated datastores) starts a recovery: the
  run is the same without a transactor and with any API server. A new retry token releases the
  latch and wakes the loop.
\<close>

theorem recovery_latch_blocks:
  assumes "recoveryLatched r = Some er" "\<not> rt_recovered r"
    and "list_all (keeps_key (rt_desiredHash r) (rt_recoveryToken r)) evs"
  shows "run_ops rt_step (map (without_transactor k) evs) (w, r) = run_ops rt_step evs (w, r)
    \<and> recoveryLatched (snd (run_ops rt_step evs (w, r))) = Some er
    \<and> \<not> rt_recovered (snd (run_ops rt_step evs (w, r)))
    \<and> (tok \<noteq> rt_recoveryToken r \<longrightarrow>
        recoveryLatched (SetRecoveryRetryToken tok r) = None \<and> rt_wakeCh (SetRecoveryRetryToken tok r))"
proof -
  let ?h = "rt_desiredHash r" and ?tok = "rt_recoveryToken r"
  have run: "latched ?h ?tok er (snd wr) \<Longrightarrow> list_all (keeps_key ?h ?tok) evs \<Longrightarrow>
      run_ops rt_step (map (without_transactor k) evs) wr = run_ops rt_step evs wr
      \<and> latched ?h ?tok er (snd (run_ops rt_step evs wr))" for wr
    by (induction evs arbitrary: wr) (auto simp: run_ops_def latched_step)
  have "latched ?h ?tok er r" using assms by (simp add: latched_def)
  moreover have "recoveryLatched (SetRecoveryRetryToken tok r) = None \<and> rt_wakeCh (SetRecoveryRetryToken tok r)"
    if "tok \<noteq> ?tok"
    using that assms(1)
    by (auto simp: SetRecoveryRetryToken_def recoveryLatched_def recoveryKey_def rt_wake_def Let_def split: if_splits)
  ultimately show ?thesis using run [of "(w, r)"] assms(3) by (auto simp: latched_def)
qed

theorem recovery_latch_blocks_witness:
  "run_ops rt_step [RtDsEvent True None, RtPass (sample_env [sample_config]) None]
      (0, latchRecoveryFailure (err_new ''rejected'') sample_runtime)
    = run_ops rt_step [RtDsEvent True None, RtPass ((sample_env [sample_config])\<lparr>en_transactor := False,
        en_k8s := sample_k8s []\<rparr>) None]
      (0, latchRecoveryFailure (err_new ''rejected'') sample_runtime)"
proof -
  let ?r = "latchRecoveryFailure (err_new ''rejected'') sample_runtime"
  have l: "recoveryLatched ?r = Some (err_new ''rejected'')"
    by (simp add: recoveryLatched_def latchRecoveryFailure_def recoveryKey_def)
  have nr: "\<not> rt_recovered ?r" by (simp add: sample_runtime_def NewTargetRuntime_def)
  have k: "list_all (keeps_key (rt_desiredHash ?r) (rt_recoveryToken ?r))
      [RtDsEvent True None, RtPass (sample_env [sample_config]) None]" by simp
  from recovery_latch_blocks [OF l nr k, of "sample_k8s []" 0 "''x''"] show ?thesis by simp
qed

section \<open>The datastore protocol\<close>

text \<open>
  C21: How a pass makes the datastore be what is desired, for every answer of the data-server: it
  probes first; it deletes only a datastore that exists and whose known definition differs from the desired one; it
  creates only when the probe says that there is none, or when the delete succeeded or says that it is gone
  already, and a delete that fails otherwise ends the pass with an error and no create. After a
  delete, failed or not, the watcher and the collector are stopped (that they stop before the call is part of
  \<open>runtime_safe_for_all_events\<close>); a datastore it created counts as not recovered, with the
  desired hash recorded, while an existing one of the same definition is left alone; and an error leaves the
  recorded hash as it was.
\<close>

theorem ensureDatastore_protocol:
  fixes e :: "('p, 's, ('p, 'w) traced) rt_env" and d :: "('p, 'w) dsclient"
  assumes run: "ensureDatastore e (trace_ds d) req ((w, log), t) = (err, (w', log'), t')"
    and name: "name = en_keyString e (rt_key t)"
    and probe: "d_GetDataStore d name w = (probed, w1)"
    and delete: "d_DeleteDataStore d name w1 = (deleted, w2)"
    and changed: "changed \<longleftrightarrow> rt_runningHash t \<noteq> [] \<and> rt_desiredHash t \<noteq> [] \<and> rt_runningHash t \<noteq> rt_desiredHash t"
  shows "log' = log @ CGetDS name #
      (if isUnknownDatastoreErr probed then [CCreateDS req]
       else if probed = None \<and> changed
       then CDeleteDS name # (if deleted = None \<or> isUnknownDatastoreErr deleted then [CCreateDS req] else [])
       else [])
    \<and> (err = None \<longleftrightarrow> (if isUnknownDatastoreErr probed then fst (d_CreateDataStore d req w1) = None
         else probed = None \<and> (changed \<longrightarrow> (deleted = None \<or> isUnknownDatastoreErr deleted)
           \<and> fst (d_CreateDataStore d req w2) = None)))
    \<and> (probed = None \<and> changed \<longrightarrow> \<not> rt_watcher t' \<and> rt_collector t' = None)
    \<and> (err = None \<and> (isUnknownDatastoreErr probed \<or> changed) \<longrightarrow> \<not> rt_recovered t' \<and> rt_datastoreReady t'
         \<and> rt_runningHash t' = rt_desiredHash t)
    \<and> (err = None \<and> \<not> isUnknownDatastoreErr probed \<and> \<not> changed \<longrightarrow>
         rt_recovered t' = rt_recovered t \<and> rt_phase t' = rt_phase t)
    \<and> (err \<noteq> None \<longrightarrow> rt_runningHash t' = rt_runningHash t)"
proof -
  note defs = ensureDatastore_def tcall_def Let_def
  have keep: "rt_watcher (setDatastoreReady b r) = rt_watcher r" "rt_collector (setDatastoreReady b r) = rt_collector r"
    "rt_watcher (setRunningHash h r) = rt_watcher r" "rt_collector (setRunningHash h r) = rt_collector r"
    "rt_watcher (setRecovered b r) = rt_watcher r" "rt_collector (setRecovered b r) = rt_collector r" for b h r
    by (simp_all add: setDatastoreReady_def setRunningHash_def setRecovered_def Let_def)
  have un: "\<not> isUnknownDatastoreErr None" by (simp add: isUnknownDatastoreErr_def)
  obtain ce w3 where c1: "d_CreateDataStore d req w1 = (ce, w3)" by (rule prod.exhaust)
  obtain ce2 w4 where c2: "d_CreateDataStore d req w2 = (ce2, w4)" by (rule prod.exhaust)
  consider (failed) er where "probed = Some er" "\<not> isUnknownDatastoreErr (Some er)"
    | (absent) er where "probed = Some er" "isUnknownDatastoreErr (Some er)"
    | (same) "probed = None" "\<not> changed"
    | (changed) "probed = None" "changed"
    by (cases probed) auto
  then show ?thesis
  proof cases
    case failed
    then show ?thesis using run probe by (auto simp: name defs)
  next
    case absent
    then show ?thesis using run probe c1 by (cases ce) (auto simp: name defs)
  next
    case same
    then show ?thesis using run probe changed un by (auto simp: name defs split: if_splits)
  next
    case changed
    then show ?thesis using run probe delete c2 assms(5) un
      by (cases "deleted = None \<or> isUnknownDatastoreErr deleted"; cases ce2) (auto simp: name defs keep)
  qed
qed

definition sample_changed :: "goerr option \<times> (nat \<times> string call list) \<times> path_subs gomap runtime" where
  "sample_changed = ensureDatastore
     \<lparr>en_client = Some (trace_ds sample_ds), en_k8s = trace_k8s (sample_k8s []), en_transactor = True,
       en_parse = (\<lambda>p. Inr p), en_revertive = None, en_keyString = (\<lambda>k. fst k @ ''.'' @ snd k),
       en_now = 7, en_fieldManager = ''fm'', en_newTarget = (\<lambda>os. None), en_createClient = (\<lambda>os. None),
       en_store = alist_store\<rparr>
     (trace_ds sample_ds) sample_desired ((0, []), sample_runtime\<lparr>rt_runningHash := ''g'', rt_watcher := True\<rparr>)"

theorem ensureDatastore_protocol_witness:
  "snd (fst (snd sample_changed)) = [CGetDS ''ns.t1'', CDeleteDS ''ns.t1'', CCreateDS sample_desired]
     \<and> \<not> rt_watcher (snd (snd sample_changed))"
proof -
  obtain err w' log' t' where run: "sample_changed = (err, (w', log'), t')" by (metis prod_cases3 surj_pair)
  have k: "rt_key (sample_runtime\<lparr>rt_runningHash := ''g'', rt_watcher := True\<rparr>) = (''ns'', ''t1'')"
    "rt_desiredHash sample_runtime = ''h''"
    by (simp_all add: sample_runtime_def NewTargetRuntime_def)
  have d: "d_GetDataStore sample_ds m v = (None, v)" "d_DeleteDataStore sample_ds m v = (None, v)" for m v
    by (simp_all add: sample_ds_def)
  from ensureDatastore_protocol [OF run [unfolded sample_changed_def] refl d(1) d(2) refl] show ?thesis
    unfolding run by (auto simp: k isUnknownDatastoreErr_def)
qed

section \<open>A request that changes during a pass\<close>

text \<open>
  The pass reads the desired request at its start and the desired hash later, in
  \<open>ensureDatastore\<close>. A \<open>SetDesired\<close> that lands in between makes it create the datastore from the old
  request and record the hash of the new one; from then on every pass only probes, finds equal
  hashes and leaves the stale datastore in place, though the new request is the desired one.
\<close>

theorem stale_request_never_replaced:
  fixes e :: "('p, 's, 'w) rt_env" and refs :: "used_refs option"
  assumes r: "rt_desired r = Some old" "rt_dsReady r" "h \<noteq> []" and cl: "en_client e = Some cl"
    and absent: "d_GetDataStore cl (en_keyString e (rt_key r)) w = (Some nf, w1)" "isUnknownDatastoreErr (Some nf)"
    and created: "d_CreateDataStore cl old w1 = (None, w2)"
  shows "\<exists>r2. reconcileOnce e (interfering (Some (Some new, refs, h))) (w, r)
        = apsnd notifyIfChanged (reconcile_recover e cl old (w2, r2))
      \<and> (let r3 = snd (reconcileOnce e (interfering (Some (Some new, refs, h))) (w, r)) in
          rt_desired r3 = Some new \<and> rt_desiredHash r3 = h \<and> rt_runningHash r3 = h
          \<and> (\<forall>e' :: ('p, 's, 'w) rt_env. \<forall>cl' v v'. d_GetDataStore cl' (en_keyString e' (rt_key r3)) v = (None, v')
               \<longrightarrow> ensureDatastore e' cl' new (v, r3) = (None, v', setDatastoreReady True r3)))"
proof -
  let ?f = "interfering (Some (Some new, refs, h))"
  let ?r = "if rt_phase (?f r) \<noteq> PhaseRunning then setPhase PhaseEnsuringDatastore None (?f r) else ?f r"
  let ?r1 = "setPhase PhaseEnsuringDatastore None ?r"
  let ?r2 = "setRecovered False (setDatastoreReady True (setRunningHash h ?r1))"
  have f: "rt_desired (?f r) = Some new" "rt_desiredHash (?f r) = h" "rt_dsReady (?f r)" "rt_key (?f r) = rt_key r"
    using r(2) by (simp_all add: interfering_def SetDesired_def rt_wake_def)
  have q: "rt_key ?r = rt_key r" "rt_desiredHash ?r = h"
    using f by (simp_all add: setPhase_def)
  have q2: "ctl ?r2 = ctl (?f r)" by simp
  have "ensureDatastore e cl old (w, ?r) = (None, w2, ?r2)"
    unfolding ensureDatastore_def Let_def using absent created q by simp
  then have body: "reconcile_body e ?f (w, r) = reconcile_recover e cl old (w2, ?r2)"
    using r cl f by (auto simp: reconcile_body_def Let_def)
  obtain w3 t3 where rec: "reconcile_recover e cl old (w2, ?r2) = (w3, t3)" by fastforce
  note R = reconcile_recover_outcome [OF rec]
  have "ctl t3 = ctl (?f r)" using R q2 by simp
  from ctl_sel(7,8) [OF this] f have "rt_desired t3 = Some new" "rt_desiredHash t3 = h" by simp_all
  moreover have "rt_runningHash t3 = h" using R by simp
  ultimately have t3: "rt_desired t3 = Some new" "rt_desiredHash t3 = h" "rt_runningHash t3 = h" .
  have r3: "snd (reconcileOnce e ?f (w, r)) = notifyIfChanged t3"
    by (simp add: reconcileOnce_def body rec)
  have n: "rt_desired (notifyIfChanged t3) = Some new" "rt_desiredHash (notifyIfChanged t3) = h"
    "rt_runningHash (notifyIfChanged t3) = h"
    using t3 by (simp_all add: notifyIfChanged_def Let_def)
  have later: "ensureDatastore e' cl' new (v, notifyIfChanged t3) = (None, v', setDatastoreReady True (notifyIfChanged t3))"
    if "d_GetDataStore cl' (en_keyString e' (rt_key (notifyIfChanged t3))) v = (None, v')"
    for e' :: "('p, 's, 'w) rt_env" and cl' v v'
    using that n r(3) by (simp add: ensureDatastore_def Let_def)
  have "reconcileOnce e ?f (w, r) = apsnd notifyIfChanged (reconcile_recover e cl old (w2, ?r2))"
    by (simp only: reconcileOnce_def body)
  with later n show ?thesis unfolding Let_def r3 by blast
qed

definition sample_absent :: "(string, nat) dsclient" where
  \<comment> \<open>a data-server whose world counts its datastores\<close>
  "sample_absent = sample_ds\<lparr>
     d_GetDataStore := (\<lambda>n w. if w = 0 then (Some (err_new ''unknown datastore''), w) else (None, w)),
     d_CreateDataStore := (\<lambda>q w. (None, w + 1))\<rparr>"

theorem stale_request_never_replaced_witness:
  "let r3 = snd (reconcileOnce ((sample_env [])\<lparr>en_client := Some sample_absent\<rparr>)
        (interfering (Some (Some (sample_desired\<lparr>dr_schema := None\<rparr>), None, ''h2''))) (0, sample_runtime))
   in rt_desiredHash r3 = ''h2'' \<and> rt_runningHash r3 = ''h2''"
proof -
  let ?e = "(sample_env [])\<lparr>en_client := Some sample_absent\<rparr>"
  have p: "rt_desired sample_runtime = Some sample_desired" "rt_dsReady sample_runtime" "''h2'' \<noteq> []"
    "en_client ?e = Some sample_absent"
    "d_GetDataStore sample_absent (en_keyString ?e (rt_key sample_runtime)) 0 = (Some (err_new ''unknown datastore''), 0)"
    "d_CreateDataStore sample_absent sample_desired 0 = (None, 1)"
    by (simp_all add: sample_runtime_def sample_absent_def)
  have u: "isUnknownDatastoreErr (Some (err_new ''unknown datastore''))" by code_simp
  from stale_request_never_replaced [OF p(1-5) u p(6)] show ?thesis by (auto simp: Let_def)
qed

end
