(* ===== verification/TargetManager.thy ===== *)
theory TargetManager
  imports TargetRuntime
begin

text \<open>
  The registry of target runtimes (\<open>pkg/sdc/target/manager/manager.go\<close>): one runtime per target,
  shared by every controller. A runtime is a pointer in the code, so the model keeps an allocation
  list and the registry maps keys to positions in it; a runtime that was removed from the registry
  is still there, as its goroutine would be. The registry's mutex makes each of its operations one
  step; \<open>Delete\<close> is two steps around the wait for the run loop.
\<close>

section \<open>State\<close>

type_synonym tkey = "string \<times> string"

record 's manager =
  mg_heap :: "'s runtime list"
  mg_targets :: "(tkey \<times> nat) list"
  mg_events :: "tkey list"

definition runtimeEventBuffer :: nat where
  "runtimeEventBuffer = 1024"

definition NewTargetManager :: "'s manager" where
  "NewTargetManager = \<lparr>mg_heap = [], mg_targets = [], mg_events = []\<rparr>"

definition notifier :: "tkey \<Rightarrow> tkey list \<Rightarrow> tkey list" where
  \<comment> \<open>a full channel drops the event\<close>
  "notifier key q = (if length q < runtimeEventBuffer then q @ [key] else q)"

definition upd_rt :: "nat \<Rightarrow> ('s runtime \<Rightarrow> 's runtime) \<Rightarrow> 's manager \<Rightarrow> 's manager" where
  "upd_rt i f m = (if i < length (mg_heap m) then m\<lparr>mg_heap := (mg_heap m)[i := f (mg_heap m ! i)]\<rparr> else m)"

section \<open>Operations\<close>

definition GetRuntimeForTarget :: "tkey \<Rightarrow> 's manager \<Rightarrow> nat option" where
  "GetRuntimeForTarget key m = map_of (mg_targets m) key"

definition GetOrCreate :: "'s subscriptions \<Rightarrow> tkey \<Rightarrow> 's manager \<Rightarrow> nat \<times> 's manager" where
  "GetOrCreate s0 key m =
     (case map_of (mg_targets m) key of
        Some i \<Rightarrow> (i, m)
      | None \<Rightarrow> (length (mg_heap m), m\<lparr>mg_heap := mg_heap m @ [NewTargetRuntime key s0],
          mg_targets := AList.update key (length (mg_heap m)) (mg_targets m)\<rparr>))"

definition ApplyDesired ::
  "'s subscriptions \<Rightarrow> tkey \<Rightarrow> ds_request option \<Rightarrow> used_refs option \<Rightarrow> string \<Rightarrow> 's manager \<Rightarrow> 's manager" where
  "ApplyDesired s0 key req refs hash m =
     (let (rt, m) = GetOrCreate s0 key m; m = upd_rt rt Start m in
      upd_rt rt (SetDesired req refs hash) m)"

definition mg_SetRecoveryRetryToken :: "'s subscriptions \<Rightarrow> tkey \<Rightarrow> string \<Rightarrow> 's manager \<Rightarrow> 's manager" where
  "mg_SetRecoveryRetryToken s0 key token m =
     (let (rt, m) = GetOrCreate s0 key m in upd_rt rt (SetRecoveryRetryToken token) m)"

definition ClearDesired :: "tkey \<Rightarrow> 's manager \<Rightarrow> 's manager" where
  "ClearDesired key m =
     (case map_of (mg_targets m) key of None \<Rightarrow> m | Some rt \<Rightarrow> upd_rt rt (SetDesired None None []) m)"

definition mg_GetDatastore_usable :: "'c option \<Rightarrow> 's runtime \<Rightarrow> 'c option" where
  \<comment> \<open>the condition \<open>GetClient\<close> and \<open>GetDatastore\<close> share, with the client they read after it\<close>
  "mg_GetDatastore_usable dsc rt =
     (let st = rt_Status rt in
      if \<not> rs_dsReady st \<or> \<not> rs_dsStoreReady st \<or> rs_phase st \<noteq> PhaseRunning then None else dsc)"

definition zero_status :: "phase \<Rightarrow> runtime_status" where
  "zero_status p = \<lparr>rs_phase = p, rs_dsReady = False, rs_dsStoreReady = False, rs_runningHash = [],
     rs_recovered = False, rs_recoveryMsg = [], rs_lastError = []\<rparr>"

definition GetClient :: "'c option \<Rightarrow> tkey \<Rightarrow> 's manager \<Rightarrow> 'c option \<times> runtime_status \<times> bool" where
  "GetClient dsc key m =
     (case map_of (mg_targets m) key of
        None \<Rightarrow> (None, zero_status PhasePending, False)
      | Some i \<Rightarrow>
          (let st = rt_Status (mg_heap m ! i) in
           case mg_GetDatastore_usable dsc (mg_heap m ! i) of
             None \<Rightarrow> (None, st, False)
           | Some cl \<Rightarrow> (Some cl, st, True)))"

record 'c mg_handle =
  mh_key :: tkey
  mh_datastoreName :: string
  mh_client :: "'c option"
  mh_schema :: "schema_ref option"
  mh_status :: runtime_status

definition GetDatastore ::
  "(tkey \<Rightarrow> string) \<Rightarrow> 'c option \<Rightarrow> tkey \<Rightarrow> 's manager \<Rightarrow> 'c mg_handle option \<times> bool" where
  "GetDatastore keyString dsc key m =
     (case map_of (mg_targets m) key of
        None \<Rightarrow> (None, False)
      | Some i \<Rightarrow>
          (let st = rt_Status (mg_heap m ! i);
               unusable = \<lparr>mh_key = key, mh_datastoreName = keyString key, mh_client = None,
                 mh_schema = None, mh_status = st\<rparr> in
           case mg_GetDatastore_usable dsc (mg_heap m ! i) of
             None \<Rightarrow> (Some unusable, False)
           | Some cl \<Rightarrow> (Some (unusable\<lparr>mh_client := Some cl,
               mh_schema := Some (rt_GetSchema (mg_heap m ! i))\<rparr>), True)))"

definition handle_MarkRecovered :: "bool \<Rightarrow> 's runtime \<Rightarrow> 's runtime" where
  \<comment> \<open>the callback of the handle of \<open>GetDatastore\<close>\<close>
  "handle_MarkRecovered b r = (let r = setRecovered b r in if \<not> b then rt_wake r else r)"

subsection \<open>Deletion\<close>

definition stop_result :: "(tkey \<Rightarrow> string) \<Rightarrow> 's runtime \<Rightarrow> goerr option" where
  \<comment> \<open>the wait of \<open>Stop\<close>, once it is over: the loop has exited, or the timeout has\<close>
  "stop_result keyString r =
     (if rt_done r then None
      else Some (err_new (''target runtime '' @ keyString (rt_key r) @ '' did not stop within 15s'')))"

definition Delete_begin :: "tkey \<Rightarrow> 's manager \<Rightarrow> nat option \<times> 's manager" where
  \<comment> \<open>the lookup and the request to stop\<close>
  "Delete_begin key m =
     (case map_of (mg_targets m) key of None \<Rightarrow> (None, m) | Some rt \<Rightarrow> (Some rt, upd_rt rt Stop m))"

definition Delete_end :: "(tkey \<Rightarrow> string) \<Rightarrow> tkey \<Rightarrow> nat \<Rightarrow> 's manager \<Rightarrow> goerr option \<times> 's manager" where
  \<comment> \<open>what follows the wait for the runtime \<open>rt\<close>\<close>
  "Delete_end keyString key rt m =
     (case stop_result keyString (mg_heap m ! rt) of
        Some err \<Rightarrow> (Some err, m)
      | None \<Rightarrow> (None, if map_of (mg_targets m) key = Some rt
                      then m\<lparr>mg_targets := AList.delete key (mg_targets m)\<rparr> else m))"

definition mg_Delete ::
  "(tkey \<Rightarrow> string) \<Rightarrow> ('w \<times> 's manager \<Rightarrow> 'w \<times> 's manager) \<Rightarrow> tkey \<Rightarrow> 'w \<times> 's manager
     \<Rightarrow> goerr option \<times> 'w \<times> 's manager" where
  \<comment> \<open>\<open>waiting\<close>: what the rest of the program does between the stop request and the end of the wait\<close>
  "mg_Delete keyString waiting key wm =
     (case Delete_begin key (snd wm) of
        (None, m) \<Rightarrow> (None, fst wm, m)
      | (Some rt, m) \<Rightarrow>
          (let (w, m) = waiting (fst wm, m); (err, m) = Delete_end keyString key rt m in (err, w, m)))"

definition deleteDatastore :: "('p, 'w) dsclient \<Rightarrow> string \<Rightarrow> 'w \<Rightarrow> goerr option \<times> 'w" where
  "deleteDatastore cl name w =
     (case d_DeleteDataStore cl name w of
        (Some err, w) \<Rightarrow>
          if isUnknownDatastoreErr (Some err) then (None, w)
          else (Some (err_wrap (''delete datastore '' @ go_quote name) err), w)
      | (None, w) \<Rightarrow> (None, w))"

definition DeleteDatastore ::
  "(tkey \<Rightarrow> string) \<Rightarrow> ('p, 'w) dsclient option \<Rightarrow> tkey \<Rightarrow> 'w \<Rightarrow> goerr option \<times> 'w" where
  "DeleteDatastore keyString dsc key w =
     (case dsc of
        None \<Rightarrow> (Some (err_new (''delete datastore '' @ go_quote (keyString key) @ '': dataserver not available'')), w)
      | Some cl \<Rightarrow> deleteDatastore cl (keyString key) w)"

subsection \<open>Subscriptions\<close>

definition getDownstreamTargets ::
  "('sel \<Rightarrow> string + 'q) \<Rightarrow> (string \<Rightarrow> 'q \<Rightarrow> 'w \<Rightarrow> (goerr + target list) \<times> 'w) \<Rightarrow> 'sel \<Rightarrow> sub_cr \<Rightarrow> 'w
     \<Rightarrow> (goerr + string list) \<times> 'w" where
  "getDownstreamTargets selectorOf list sel sub w =
     (case selectorOf sel of
        Inl e \<Rightarrow> (Inl (err_new (''parsing selector failed: err: '' @ e)), w)
      | Inr q \<Rightarrow>
          (case list (scr_namespace sub) q w of
             (Inl err, w) \<Rightarrow> (Inl err, w)
           | (Inr items, w) \<Rightarrow>
               (Inr (sort (map (\<lambda>t. m_name (t_meta t))
                  (filter (\<lambda>t. m_deletionTimestamp (t_meta t) = None) items))), w)))"

fun for_targets ::
  "('s runtime \<Rightarrow> goerr option \<times> 's runtime) \<Rightarrow> string \<Rightarrow> string list \<Rightarrow> goerr option \<Rightarrow> 's manager
     \<Rightarrow> goerr option \<times> 's manager" where
  \<comment> \<open>the loop of \<open>ApplySubscription\<close> and \<open>RemoveSubscription\<close>\<close>
  "for_targets op ns [] errs m = (errs, m)"
| "for_targets op ns (tn # rest) errs m =
     (case GetRuntimeForTarget (ns, tn) m of
        None \<Rightarrow> for_targets op ns rest errs m
      | Some rt \<Rightarrow>
          for_targets op ns rest (err_join errs (fst (op (mg_heap m ! rt)))) (upd_rt rt (\<lambda>r. snd (op r)) m))"

definition ApplySubscription ::
  "'s path_store \<Rightarrow> ('sel \<Rightarrow> string + 'q) \<Rightarrow> (string \<Rightarrow> 'q \<Rightarrow> 'w \<Rightarrow> (goerr + target list) \<times> 'w)
     \<Rightarrow> 'sel \<Rightarrow> sub_cr \<Rightarrow> 'w \<times> 's manager \<Rightarrow> (string list option \<times> goerr option) \<times> 'w \<times> 's manager" where
  "ApplySubscription st selectorOf list sel sub wm =
     (case getDownstreamTargets selectorOf list sel sub (fst wm) of
        (Inl err, w) \<Rightarrow> ((None, Some err), w, snd wm)
      | (Inr targets, w) \<Rightarrow>
          (let (errs, m) = for_targets (UpsertSubscription st sub) (scr_namespace sub) targets None (snd wm) in
           ((Some targets, errs), w, m)))"

definition RemoveSubscription ::
  "'s path_store \<Rightarrow> ('sel \<Rightarrow> string + 'q) \<Rightarrow> (string \<Rightarrow> 'q \<Rightarrow> 'w \<Rightarrow> (goerr + target list) \<times> 'w)
     \<Rightarrow> 'sel \<Rightarrow> sub_cr \<Rightarrow> 'w \<times> 's manager \<Rightarrow> goerr option \<times> 'w \<times> 's manager" where
  "RemoveSubscription st selectorOf list sel sub wm =
     (case getDownstreamTargets selectorOf list sel sub (fst wm) of
        (Inl err, w) \<Rightarrow> (Some err, w, snd wm)
      | (Inr targets, w) \<Rightarrow>
          (let (errs, m) = for_targets (DeleteSubscription st sub) (scr_namespace sub) targets None (snd wm) in
           (errs, w, m)))"

subsection \<open>Hash and labels\<close>

definition ComputeCreateDSHash ::
  "(ds_request option \<Rightarrow> string) \<Rightarrow> (string \<Rightarrow> string) \<Rightarrow> ds_request option \<Rightarrow> used_refs option \<Rightarrow> string" where
  \<comment> \<open>protojson and the hex of SHA-256 are arguments\<close>
  "ComputeCreateDSHash json sha256hex req refs =
     sha256hex (json req @
       (case refs of None \<Rightarrow> []
        | Some r \<Rightarrow> ''|cp='' @ ur_connectionProfile r @ ''|sp='' @ ur_syncProfile r
            @ ''|sec='' @ ur_secret r @ ''|tls='' @ ur_tlsSecret r))"

definition PromLabels :: "'s runtime \<Rightarrow> (string \<times> string) list" where
  "PromLabels t =
     (let labels = [(''target'', snd (rt_key t)), (''namespace'', fst (rt_key t))] in
      case rt_desired t of
        None \<Rightarrow> labels
      | Some d \<Rightarrow>
          (let labels = labels @ (case dr_schema d of None \<Rightarrow> []
                 | Some s \<Rightarrow> [(''vendor'', ds_svendor s), (''version'', ds_sversion s)]) in
           labels @ (case dr_target d of None \<Rightarrow> [] | Some tg \<Rightarrow> [(''address'', dt_address tg)])))"

definition rt_Cache :: "'s runtime \<Rightarrow> collector option" where
  \<comment> \<open>the cache belongs to the collector: present exactly while one is published\<close>
  "rt_Cache t = rt_collector t"

section \<open>Every interleaving\<close>

datatype ('p, 's, 'w) mg_event =
  MgGetOrCreate tkey
| MgRuntime nat "('p, 's, 'w) rt_event"
| MgDelete tkey
| MgDeleteEnd "tkey \<Rightarrow> string" tkey nat

fun mg_step :: "'s subscriptions \<Rightarrow> ('p, 's, 'w) mg_event \<Rightarrow> 'w \<times> 's manager \<Rightarrow> 'w \<times> 's manager" where
  "mg_step s0 (MgGetOrCreate key) (w, m) = (w, snd (GetOrCreate s0 key m))"
| "mg_step s0 (MgRuntime i ev) (w, m) =
     (if i < length (mg_heap m)
      then let (w, r) = rt_step ev (w, mg_heap m ! i) in
        (w, m\<lparr>mg_heap := (mg_heap m)[i := r],
              mg_events := (if rt_notifications r = rt_notifications (mg_heap m ! i) then mg_events m
                            else notifier (rt_key r) (mg_events m))\<rparr>)
      else (w, m))"
| "mg_step s0 (MgDelete key) (w, m) = (w, snd (Delete_begin key m))"
| "mg_step s0 (MgDeleteEnd keyString key i) (w, m) =
     (w, if i < length (mg_heap m) then snd (Delete_end keyString key i m) else m)"

definition mg_inv :: "'s manager \<Rightarrow> bool" where
  "mg_inv m \<longleftrightarrow> list_all rt_inv (mg_heap m)
     \<and> (\<forall>key i. map_of (mg_targets m) key = Some i \<longrightarrow> i < length (mg_heap m) \<and> rt_key (mg_heap m ! i) = key)
     \<and> (\<forall>i < length (mg_heap m). map_of (mg_targets m) (rt_key (mg_heap m ! i)) = Some i \<or> rt_done (mg_heap m ! i))
     \<and> length (mg_events m) \<le> runtimeEventBuffer"

lemma mg_invD:
  assumes "mg_inv m"
  shows "map_of (mg_targets m) key = Some i \<Longrightarrow> i < length (mg_heap m) \<and> rt_key (mg_heap m ! i) = key"
    and "i < length (mg_heap m) \<Longrightarrow>
      map_of (mg_targets m) (rt_key (mg_heap m ! i)) = Some i \<or> rt_done (mg_heap m ! i)"
    and "i < length (mg_heap m) \<Longrightarrow> rt_inv (mg_heap m ! i)"
    and "length (mg_events m) \<le> runtimeEventBuffer"
  using assms unfolding mg_inv_def by (blast, blast, simp add: list_all_length, blast)

lemma mg_invI:
  assumes "\<And>i. i < length (mg_heap m) \<Longrightarrow> rt_inv (mg_heap m ! i)"
    and "\<And>key i. map_of (mg_targets m) key = Some i \<Longrightarrow> i < length (mg_heap m) \<and> rt_key (mg_heap m ! i) = key"
    and "\<And>i. i < length (mg_heap m) \<Longrightarrow>
      map_of (mg_targets m) (rt_key (mg_heap m ! i)) = Some i \<or> rt_done (mg_heap m ! i)"
    and "length (mg_events m) \<le> runtimeEventBuffer"
  shows "mg_inv m"
  unfolding mg_inv_def list_all_length using assms by blast

lemma rt_done_keeps: "rt_inv (snd wr) \<Longrightarrow> rt_done (snd wr) \<Longrightarrow> rt_done (snd (rt_step ev wr))"
  using rt_done_step [of wr ev] by (auto simp: rt_inv_def)

lemma notifier_bound: "length q \<le> runtimeEventBuffer \<Longrightarrow> length (notifier key q) \<le> runtimeEventBuffer"
  by (simp add: notifier_def)

lemma mg_inv_put:
  assumes inv: "mg_inv m" and i: "i < length (mg_heap m)" and r: "rt_inv r" "rt_key r = rt_key (mg_heap m ! i)"
    "rt_done (mg_heap m ! i) \<Longrightarrow> rt_done r" and q: "length q \<le> runtimeEventBuffer"
  shows "mg_inv (m\<lparr>mg_heap := (mg_heap m)[i := r], mg_events := q\<rparr>)"
proof (rule mg_invI)
  fix j assume j: "j < length (mg_heap (m\<lparr>mg_heap := (mg_heap m)[i := r], mg_events := q\<rparr>))"
  then show "rt_inv (mg_heap (m\<lparr>mg_heap := (mg_heap m)[i := r], mg_events := q\<rparr>) ! j)"
    using mg_invD(3) [OF inv] r(1) by (cases "i = j") simp_all
  show "map_of (mg_targets (m\<lparr>mg_heap := (mg_heap m)[i := r], mg_events := q\<rparr>))
        (rt_key (mg_heap (m\<lparr>mg_heap := (mg_heap m)[i := r], mg_events := q\<rparr>) ! j)) = Some j
      \<or> rt_done (mg_heap (m\<lparr>mg_heap := (mg_heap m)[i := r], mg_events := q\<rparr>) ! j)"
    using mg_invD(2) [OF inv, of j] r(2,3) j by (cases "i = j") auto
next
  fix key j assume "map_of (mg_targets (m\<lparr>mg_heap := (mg_heap m)[i := r], mg_events := q\<rparr>)) key = Some j"
  then show "j < length (mg_heap (m\<lparr>mg_heap := (mg_heap m)[i := r], mg_events := q\<rparr>))
      \<and> rt_key (mg_heap (m\<lparr>mg_heap := (mg_heap m)[i := r], mg_events := q\<rparr>) ! j) = key"
    using mg_invD(1) [OF inv, of key j] r(2) by (cases "i = j") auto
qed (use q in simp)

lemma mg_inv_GetOrCreate [step_inv]:
  assumes inv: "mg_inv m"
  shows "mg_inv (snd (GetOrCreate s0 key m))"
proof (cases "map_of (mg_targets m) key")
  case None
  let ?h = "mg_heap m @ [NewTargetRuntime key s0]"
  have new: "rt_inv (NewTargetRuntime key s0)" "rt_key (NewTargetRuntime key s0) = key"
    by (simp_all add: rt_inv_def NewTargetRuntime_def)
  have keys: "rt_key (mg_heap m ! i) \<noteq> key \<or> rt_done (mg_heap m ! i)" if "i < length (mg_heap m)" for i
    using mg_invD(2) [OF inv that] None by auto
  let ?t = "(map_of (mg_targets m))(key \<mapsto> length (mg_heap m))"
  have 1: "rt_inv (?h ! i)" if "i < length ?h" for i
    using that mg_invD(3) [OF inv, of i] new by (auto simp: nth_append less_Suc_eq)
  have 2: "?t (rt_key (?h ! i)) = Some i \<or> rt_done (?h ! i)" if "i < length ?h" for i
    using that keys [of i] mg_invD(2) [OF inv, of i] new by (cases "i < length (mg_heap m)") (auto simp: nth_append less_Suc_eq)
  have 3: "i < length ?h \<and> rt_key (?h ! i) = k" if "?t k = Some i" for k i
    using that mg_invD(1) [OF inv, of k i] new by (cases "k = key") (auto simp: nth_append)
  show ?thesis using None
    by (intro mg_invI) (use 1 2 3 mg_invD(4) [OF inv] in \<open>auto simp: GetOrCreate_def AList.update_conv'\<close>)
qed (use inv in \<open>simp add: GetOrCreate_def\<close>)

lemma mg_inv_step [step_inv]:
  assumes inv: "mg_inv (snd wm)"
  shows "mg_inv (snd (mg_step s0 ev wm))"
proof -
  obtain w m where wm: "wm = (w, m)" by fastforce
  show ?thesis
  proof (cases ev)
    case (MgGetOrCreate key)
    then show ?thesis using mg_inv_GetOrCreate inv by (simp add: wm)
  next
    case (MgRuntime i rev)
    show ?thesis
    proof (cases "i < length (mg_heap m)")
      case True
      obtain w' r where s: "rt_step rev (w, mg_heap m ! i) = (w', r)" by fastforce
      have m: "mg_inv m" using inv by (simp add: wm)
      have ri: "rt_inv (mg_heap m ! i)" by (rule mg_invD(3) [OF m True])
      have "rt_inv r" using rt_inv_step [of "(w, mg_heap m ! i)" rev] ri s by simp
      moreover have "rt_key r = rt_key (mg_heap m ! i)" using rt_key_step [of rev "(w, mg_heap m ! i)"] s by simp
      moreover have "rt_done (mg_heap m ! i) \<Longrightarrow> rt_done r"
        using rt_done_keeps [of "(w, mg_heap m ! i)" rev] ri s by simp
      ultimately show ?thesis
        using mg_inv_put [OF m True] True s notifier_bound [OF mg_invD(4) [OF m]] mg_invD(4) [OF m]
        by (simp add: wm MgRuntime)
    qed (use inv MgRuntime wm in simp)
  next
    case (MgDelete key)
    have m: "mg_inv m" using inv by (simp add: wm)
    show ?thesis
    proof (cases "map_of (mg_targets m) key")
      case (Some i)
      have i: "i < length (mg_heap m)" using mg_invD(1) [OF m Some] by simp
      have ri: "rt_inv (mg_heap m ! i)" by (rule mg_invD(3) [OF m i])
      have "rt_inv (Stop (mg_heap m ! i))" "rt_key (Stop (mg_heap m ! i)) = rt_key (mg_heap m ! i)"
        "rt_done (mg_heap m ! i) \<Longrightarrow> rt_done (Stop (mg_heap m ! i))"
        using ri by (auto simp: Stop_def rt_inv_def Let_def)
      then have "mg_inv (m\<lparr>mg_heap := (mg_heap m)[i := Stop (mg_heap m ! i)], mg_events := mg_events m\<rparr>)"
        using mg_invD(4) [OF m] by (intro mg_inv_put [OF m i])
      then show ?thesis using i Some by (simp add: wm MgDelete Delete_begin_def upd_rt_def)
    qed (use m in \<open>simp add: wm MgDelete Delete_begin_def\<close>)
  next
    case (MgDeleteEnd kS key i)
    have m: "mg_inv m" using inv by (simp add: wm)
    show ?thesis
    proof (cases "i < length (mg_heap m) \<and> rt_done (mg_heap m ! i) \<and> map_of (mg_targets m) key = Some i")
      case True
      have "mg_inv (m\<lparr>mg_targets := AList.delete key (mg_targets m)\<rparr>)"
      proof (rule mg_invI)
        fix j assume "j < length (mg_heap (m\<lparr>mg_targets := AList.delete key (mg_targets m)\<rparr>))"
        then show "map_of (mg_targets (m\<lparr>mg_targets := AList.delete key (mg_targets m)\<rparr>))
              (rt_key (mg_heap (m\<lparr>mg_targets := AList.delete key (mg_targets m)\<rparr>) ! j)) = Some j
            \<or> rt_done (mg_heap (m\<lparr>mg_targets := AList.delete key (mg_targets m)\<rparr>) ! j)"
          using mg_invD(2) [OF m, of j] True by (auto simp: AList.delete_conv')
      next
        fix k j assume "map_of (mg_targets (m\<lparr>mg_targets := AList.delete key (mg_targets m)\<rparr>)) k = Some j"
        then show "j < length (mg_heap (m\<lparr>mg_targets := AList.delete key (mg_targets m)\<rparr>))
            \<and> rt_key (mg_heap (m\<lparr>mg_targets := AList.delete key (mg_targets m)\<rparr>) ! j) = k"
          using mg_invD(1) [OF m, of k j] by (auto simp: AList.delete_conv' split: if_splits)
      qed (use mg_invD(3,4) [OF m] in simp_all)
      then show ?thesis using True by (simp add: wm MgDeleteEnd Delete_end_def stop_result_def)
    next
      case False
      then have "mg_step s0 ev wm = wm" by (auto simp: wm MgDeleteEnd Delete_end_def stop_result_def)
      then show ?thesis using inv by simp
    qed
  qed
qed

interpretation mg_runs: invariant_machine "mg_step s0" "(w, NewTargetManager)" "\<lambda>wm. mg_inv (snd wm)"
  for w :: 'w and s0 :: "'s subscriptions"
  by unfold_locales (simp_all add: mg_inv_step, simp add: mg_inv_def NewTargetManager_def)

lemma mg_heap_step:
  assumes "i < length (mg_heap (snd wm))"
  shows "i < length (mg_heap (snd (mg_step s0 ev wm)))
    \<and> rt_key (mg_heap (snd (mg_step s0 ev wm)) ! i) = rt_key (mg_heap (snd wm) ! i)"
proof -
  obtain w m where wm: "wm = (w, m)" by fastforce
  show ?thesis
  proof (cases ev)
    case (MgRuntime j rev)
    have k: "rt_key (snd (rt_step rev (w, mg_heap m ! j))) = rt_key (mg_heap m ! j)" by simp
    obtain w' r where st: "rt_step rev (w, mg_heap m ! j) = (w', r)" by fastforce
    have "rt_key r = rt_key (mg_heap m ! j)" using k unfolding st by simp
    with st assms show ?thesis by (cases "j = i") (auto simp: wm MgRuntime)
  next
    case (MgDelete key)
    then show ?thesis using assms
      by (cases "map_of (mg_targets m) key")
        (auto simp: wm Delete_begin_def upd_rt_def nth_list_update Stop_def Let_def)
  qed (use assms in \<open>auto simp: wm GetOrCreate_def Delete_end_def nth_append split: option.splits\<close>)
qed

lemma mg_heap_run:
  "i < length (mg_heap (snd wm)) \<Longrightarrow> i < length (mg_heap (snd (run_ops (mg_step s0) evs wm)))
    \<and> rt_key (mg_heap (snd (run_ops (mg_step s0) evs wm)) ! i) = rt_key (mg_heap (snd wm) ! i)"
proof (induction evs arbitrary: wm)
  case (Cons ev evs)
  then show ?case using mg_heap_step [OF Cons.prems, of s0 ev] by (simp add: run_ops_def)
qed (simp add: run_ops_def)

lemma mg_step_stop:
  "i < length (mg_heap m) \<Longrightarrow>
     mg_step s0 (MgRuntime i RtStopCall :: ('p, 's, 'w) mg_event) (w, m) = (w, upd_rt i Stop m)"
  by (simp add: upd_rt_def Stop_def Let_def)

lemma mg_Delete_spec:
  fixes evs before :: "('p, 's, 'w) mg_event list"
  assumes reach: "run_ops (mg_step s0) before (w0, NewTargetManager) = (w, m)"
    and reg: "GetRuntimeForTarget key m = Some i"
    and del: "mg_Delete kS (run_ops (mg_step s0) evs) key (w, m) = (err, w', m')"
  shows "(err = None \<longrightarrow> rt_done (mg_heap m' ! i) \<and> \<not> rt_looping (mg_heap m' ! i) \<and> GetRuntimeForTarget key m' \<noteq> Some i
        \<and> (\<forall>later :: ('p, 's, 'w) rt_event list. fst (run_ops rt_step later (v, mg_heap m' ! i)) = v))
    \<and> (err \<noteq> None \<longrightarrow> GetRuntimeForTarget key m' = Some i \<and> \<not> rt_done (mg_heap m' ! i))"
proof -
  have inv: "mg_inv m" using mg_runs.inv_run [of s0 before w0] reach by simp
  have i: "i < length (mg_heap m)" "rt_key (mg_heap m ! i) = key"
    using mg_invD(1) [OF inv, of key i] reg by (auto simp: GetRuntimeForTarget_def)
  let ?stop = "mg_step s0 (MgRuntime i RtStopCall :: ('p, 's, 'w) mg_event) (w, m)"
  have stop: "?stop = (w, upd_rt i Stop m)" by (rule mg_step_stop [OF i(1)])
  obtain w1 m1 where wait: "run_ops (mg_step s0) evs (w, upd_rt i Stop m) = (w1, m1)" by fastforce
  have inv1: "mg_inv m1"
  proof -
    have "mg_inv (snd (run_ops (mg_step s0) evs (w, upd_rt i Stop m)))"
      unfolding stop [symmetric]
      by (rule mg_runs.inv_run_from) (use mg_inv_step [of "(w, m)" s0 "MgRuntime i RtStopCall :: ('p, 's, 'w) mg_event"] inv in simp)
    then show ?thesis by (simp add: wait)
  qed
  have i1: "i < length (mg_heap m1)" "rt_key (mg_heap m1 ! i) = key"
    using mg_heap_run [of i "(w, upd_rt i Stop m)" s0 evs] i
      mg_heap_step [of i "(w, m)" s0 "MgRuntime i RtStopCall :: ('p, 's, 'w) mg_event", unfolded stop]
    by (auto simp: wait)
  have m': "m' = (if rt_done (mg_heap m1 ! i) \<and> map_of (mg_targets m1) key = Some i
        then m1\<lparr>mg_targets := AList.delete key (mg_targets m1)\<rparr> else m1)"
    "err = stop_result kS (mg_heap m1 ! i)"
    using del reg wait by (auto simp: mg_Delete_def Delete_begin_def Delete_end_def GetRuntimeForTarget_def stop_result_def split: if_splits)
  show ?thesis
  proof (cases "rt_done (mg_heap m1 ! i)")
    case True
    then have st: "rt_startUsed (mg_heap m1 ! i)" "\<not> rt_looping (mg_heap m1 ! i)"
      using mg_invD(3) [OF inv1 i1(1)] by (auto simp: rt_inv_def)
    have "fst (run_ops rt_step later (v, mg_heap m1 ! i)) = v" for later :: "('p, 's, 'w) rt_event list"
      using rt_done_run [of "(v, mg_heap m1 ! i)" later] True st by simp
    then show ?thesis using True st m' by (auto simp: stop_result_def GetRuntimeForTarget_def AList.delete_conv')
  next
    case False
    then show ?thesis using m' mg_invD(2) [OF inv1 i1(1)] i1(2)
      by (auto simp: stop_result_def GetRuntimeForTarget_def)
  qed
qed

text \<open>
  C12: In every interleaving of registrations, deletions (the stop request and, after the wait, its result
  with the removal) and runtime steps no two run loops work on the same target: a runtime that is not the registered one
  of its target has exited its loop, holds neither watcher nor collector, and a key leads to a runtime
  of that key. A \<open>Delete\<close> from any reachable state, whatever happens while it waits, returns nil only when the loop
  of the runtime it stopped has exited, and then that runtime is not registered any more; with an error it is
  still running and registered. The channel of status changes never holds more than its capacity.
\<close>

theorem one_runtime_per_target:
  fixes evs waiting :: "('p, 's, 'w) mg_event list"
  assumes run: "run_ops (mg_step s0) evs (w, NewTargetManager) = (w', m)"
  shows "(\<forall>i j. i < length (mg_heap m) \<and> j < length (mg_heap m) \<and> rt_looping (mg_heap m ! i)
        \<and> rt_looping (mg_heap m ! j) \<and> rt_key (mg_heap m ! i) = rt_key (mg_heap m ! j) \<longrightarrow> i = j)
    \<and> (\<forall>key i. GetRuntimeForTarget key m = Some i \<longrightarrow> i < length (mg_heap m) \<and> rt_key (mg_heap m ! i) = key)
    \<and> (\<forall>i < length (mg_heap m). GetRuntimeForTarget (rt_key (mg_heap m ! i)) m \<noteq> Some i \<longrightarrow>
        rt_done (mg_heap m ! i) \<and> \<not> rt_looping (mg_heap m ! i) \<and> \<not> rt_watcher (mg_heap m ! i)
        \<and> rt_collector (mg_heap m ! i) = None)
    \<and> (\<forall>key i err w2 m2. GetRuntimeForTarget key m = Some i
          \<and> mg_Delete kS (run_ops (mg_step s0) waiting) key (w', m) = (err, w2, m2) \<longrightarrow>
        (if err = None then rt_done (mg_heap m2 ! i) \<and> \<not> rt_looping (mg_heap m2 ! i) \<and> GetRuntimeForTarget key m2 \<noteq> Some i
         else \<not> rt_done (mg_heap m2 ! i) \<and> GetRuntimeForTarget key m2 = Some i))
    \<and> length (mg_events m) \<le> 1024"
proof -
  have inv: "mg_inv m" using mg_runs.inv_run [of s0 evs w] run by simp
  have live: "map_of (mg_targets m) (rt_key (mg_heap m ! i)) = Some i"
    if "i < length (mg_heap m)" "rt_looping (mg_heap m ! i)" for i
    using mg_invD(2,3) [OF inv that(1)] that(2) by (auto simp: rt_inv_def)
  have a: "\<forall>i j. i < length (mg_heap m) \<and> j < length (mg_heap m) \<and> rt_looping (mg_heap m ! i)
      \<and> rt_looping (mg_heap m ! j) \<and> rt_key (mg_heap m ! i) = rt_key (mg_heap m ! j) \<longrightarrow> i = j"
    using live by (metis option.inject)
  have b: "\<forall>key i. GetRuntimeForTarget key m = Some i \<longrightarrow> i < length (mg_heap m) \<and> rt_key (mg_heap m ! i) = key"
    using mg_invD(1) [OF inv] unfolding GetRuntimeForTarget_def by blast
  have c: "rt_done (mg_heap m ! i) \<and> \<not> rt_looping (mg_heap m ! i) \<and> \<not> rt_watcher (mg_heap m ! i)
      \<and> rt_collector (mg_heap m ! i) = None"
    if "i < length (mg_heap m)" "GetRuntimeForTarget (rt_key (mg_heap m ! i)) m \<noteq> Some i" for i
    using mg_invD(2,3) [OF inv that(1)] that(2) by (auto simp: rt_inv_def GetRuntimeForTarget_def)
  have d: "length (mg_events m) \<le> 1024" using mg_invD(4) [OF inv] by (simp add: runtimeEventBuffer_def)
  have e: "if err = None then rt_done (mg_heap m2 ! i) \<and> \<not> rt_looping (mg_heap m2 ! i) \<and> GetRuntimeForTarget key m2 \<noteq> Some i
      else \<not> rt_done (mg_heap m2 ! i) \<and> GetRuntimeForTarget key m2 = Some i"
    if "GetRuntimeForTarget key m = Some i" "mg_Delete kS (run_ops (mg_step s0) waiting) key (w', m) = (err, w2, m2)"
    for key i err w2 m2
    using mg_Delete_spec [OF run that] by simp
  show ?thesis
  proof (intro conjI a b d)
    show "\<forall>i < length (mg_heap m). GetRuntimeForTarget (rt_key (mg_heap m ! i)) m \<noteq> Some i \<longrightarrow>
        rt_done (mg_heap m ! i) \<and> \<not> rt_looping (mg_heap m ! i) \<and> \<not> rt_watcher (mg_heap m ! i)
        \<and> rt_collector (mg_heap m ! i) = None"
      using c by blast
  qed (intro allI impI, elim conjE, rule e)
qed

definition sample_subs0 :: "path_subs gomap subscriptions" where
  "sample_subs0 = \<lparr>sb_paths = [], sb_ports = []\<rparr>"

definition sample_mg_events :: "(string, path_subs gomap, nat) mg_event list" where
  \<comment> \<open>a target is registered, reconciled, deleted and registered again\<close>
  "sample_mg_events = [MgGetOrCreate (''ns'', ''t1''), MgRuntime 0 RtStart,
     MgRuntime 0 (RtDsEvent True None), MgRuntime 0 (RtSetDesired (Some sample_desired) None ''h''),
     MgRuntime 0 (RtPass (sample_env []) None), MgDelete (''ns'', ''t1''), MgRuntime 0 RtLoopStop,
     MgDeleteEnd (\<lambda>k. fst k @ ''.'' @ snd k) (''ns'', ''t1'') 0, MgGetOrCreate (''ns'', ''t1''), MgRuntime 1 RtStart]"

theorem one_runtime_per_target_witness:
  "\<not> rt_looping (mg_heap (snd (run_ops (mg_step sample_subs0) sample_mg_events (0, NewTargetManager))) ! 0)"
proof -
  let ?run = "run_ops (mg_step sample_subs0) sample_mg_events (0, NewTargetManager)"
  obtain w' m where run: "?run = (w', m)" by (metis surj_pair)
  have e: "(let m = snd ?run in length (mg_heap m) = 2 \<and> GetRuntimeForTarget (''ns'', ''t1'') m = Some 1
      \<and> rt_key (mg_heap m ! 0) = (''ns'', ''t1''))" by code_simp
  have m: "length (mg_heap m) = 2" "GetRuntimeForTarget (rt_key (mg_heap m ! 0)) m \<noteq> Some 0"
    using e unfolding run Let_def by auto
  show ?thesis using one_runtime_per_target [OF run, THEN conjunct2, THEN conjunct2, THEN conjunct1] m unfolding run by auto
qed

text \<open>
  \<open>Delete\<close> keeps its promise whatever happens while it waits: when it reports success the run
  loop of the runtime it stopped has exited, the runtime is no longer registered, and no later event
  on it reaches the data-server or the API server; when it reports the timeout the same runtime is
  still registered, so that a retry waits for it again.
\<close>

theorem Delete_waits_for_loop:
  fixes evs before :: "('p, 's, 'w) mg_event list"
  assumes reach: "run_ops (mg_step s0) before (w0, NewTargetManager) = (w, m)"
    and reg: "GetRuntimeForTarget key m = Some i"
    and del: "mg_Delete kS (run_ops (mg_step s0) evs) key (w, m) = (err, w', m')"
  shows "(err = None \<longrightarrow> rt_done (mg_heap m' ! i) \<and> GetRuntimeForTarget key m' \<noteq> Some i
        \<and> (\<forall>later :: ('p, 's, 'w) rt_event list. fst (run_ops rt_step later (v, mg_heap m' ! i)) = v))
    \<and> (err \<noteq> None \<longrightarrow> GetRuntimeForTarget key m' = Some i \<and> \<not> rt_done (mg_heap m' ! i))"
  using mg_Delete_spec [OF reach reg del] by blast

theorem Delete_waits_for_loop_witness:
  "let m' = snd (snd (mg_Delete (\<lambda>k. fst k @ ''.'' @ snd k) (run_ops (mg_step sample_subs0) [MgRuntime 0 RtLoopStop :: (string, path_subs gomap, nat) mg_event])
      (''ns'', ''t1'') (run_ops (mg_step sample_subs0) (take 5 sample_mg_events) (0, NewTargetManager))))
   in rt_done (mg_heap m' ! 0) \<and> GetRuntimeForTarget (''ns'', ''t1'') m' \<noteq> Some 0"
proof -
  let ?reach = "run_ops (mg_step sample_subs0) (take 5 sample_mg_events) (0, NewTargetManager)"
  let ?wait = "run_ops (mg_step sample_subs0) [MgRuntime 0 RtLoopStop :: (string, path_subs gomap, nat) mg_event]"
  let ?del = "mg_Delete (\<lambda>k. fst k @ ''.'' @ snd k) ?wait (''ns'', ''t1'') ?reach"
  obtain w m where reach: "?reach = (w, m)" by (metis surj_pair)
  obtain err w' m' where del: "?del = (err, w', m')" by (rule prod_cases3)
  have e: "GetRuntimeForTarget (''ns'', ''t1'') (snd ?reach) = Some 0" by code_simp
  have f: "rt_done (mg_heap (snd (run_ops (mg_step sample_subs0) (take 7 sample_mg_events) (0, NewTargetManager))) ! 0)"
    by code_simp
  have split: "take 7 sample_mg_events = take 5 sample_mg_events @ [MgDelete (''ns'', ''t1''), MgRuntime 0 RtLoopStop]"
    by (simp add: sample_mg_events_def)
  have reg: "GetRuntimeForTarget (''ns'', ''t1'') m = Some 0" using e unfolding reach by simp
  have "run_ops (mg_step sample_subs0) (take 7 sample_mg_events) (0, NewTargetManager)
      = ?wait (mg_step sample_subs0 (MgDelete (''ns'', ''t1'') :: (string, path_subs gomap, nat) mg_event) (w, m))"
    unfolding split using reach by (simp add: run_ops_def del: mg_step.simps)
  moreover have "mg_step sample_subs0 (MgDelete (''ns'', ''t1'') :: (string, path_subs gomap, nat) mg_event) (w, m)
      = (w, upd_rt 0 Stop m)"
    using reg by (simp add: Delete_begin_def GetRuntimeForTarget_def)
  ultimately have "rt_done (mg_heap (snd (?wait (w, upd_rt 0 Stop m))) ! 0)"
    using f by (simp only:)
  then have "err = None"
    using del [unfolded reach] reg
    by (auto simp: mg_Delete_def Delete_begin_def Delete_end_def GetRuntimeForTarget_def stop_result_def split: prod.splits)
  then show ?thesis
    using Delete_waits_for_loop [OF reach reg del [unfolded reach]] unfolding del Let_def by simp
qed

section \<open>The handle for config reconcilers\<close>

lemma GetDatastore_sound:
  assumes inv: "mg_inv m" and get: "GetDatastore kS dsc key m = (h, True)"
  shows "\<exists>i cl st. GetRuntimeForTarget key m = Some i \<and> dsc = Some cl \<and> st = rt_Status (mg_heap m ! i)
    \<and> h = Some \<lparr>mh_key = key, mh_datastoreName = kS key, mh_client = Some cl,
         mh_schema = Some (rt_GetSchema (mg_heap m ! i)), mh_status = st\<rparr>
    \<and> rs_dsReady st \<and> rs_dsStoreReady st \<and> rs_phase st = PhaseRunning
    \<and> GetClient dsc key m = (Some cl, st, True)
    \<and> (rt_looping (mg_heap m ! i) \<and> \<not> rt_wakeCh (mg_heap m ! i) \<longrightarrow> rs_recovered st)"
proof -
  obtain i where i: "map_of (mg_targets m) key = Some i"
    using get by (cases "map_of (mg_targets m) key") (simp_all add: GetDatastore_def)
  have ri: "rt_inv (mg_heap m ! i)" using mg_invD(1,3) [OF inv] i by blast
  let ?st = "rt_Status (mg_heap m ! i)"
  obtain cl where cl: "mg_GetDatastore_usable dsc (mg_heap m ! i) = Some cl"
    using get i by (cases "mg_GetDatastore_usable dsc (mg_heap m ! i)") (simp_all add: GetDatastore_def Let_def)
  then have u: "dsc = Some cl" "rs_dsReady ?st" "rs_dsStoreReady ?st" "rs_phase ?st = PhaseRunning"
    by (auto simp: mg_GetDatastore_usable_def Let_def split: if_splits)
  moreover have "h = Some \<lparr>mh_key = key, mh_datastoreName = kS key, mh_client = Some cl,
         mh_schema = Some (rt_GetSchema (mg_heap m ! i)), mh_status = ?st\<rparr>"
    using get i cl by (simp add: GetDatastore_def Let_def)
  moreover have "GetClient dsc key m = (Some cl, ?st, True)" using i cl by (simp add: GetClient_def Let_def)
  moreover have "rt_looping (mg_heap m ! i) \<and> \<not> rt_wakeCh (mg_heap m ! i) \<longrightarrow> rs_recovered ?st"
    using ri u by (auto simp: rt_inv_def rt_Status_def)
  ultimately show ?thesis using i unfolding GetRuntimeForTarget_def by blast
qed

text \<open>
  What a reconciler may rely on when it is handed a datastore between two passes of the loop. In every such state a
  handle with a client means that the target is registered, the data-server and the datastore are
  up, the client is the current one and the schema that of the desired request; and as long as the
  loop has no wake pending, all configs have been replayed. \<open>GetClient\<close> answers the same.
\<close>

theorem GetDatastore_contract:
  assumes run: "run_ops (mg_step s0) evs (w, NewTargetManager) = (w', m)"
    and get: "GetDatastore kS dsc key m = (h, True)"
  shows "\<exists>i cl st. GetRuntimeForTarget key m = Some i \<and> dsc = Some cl \<and> st = rt_Status (mg_heap m ! i)
    \<and> h = Some \<lparr>mh_key = key, mh_datastoreName = kS key, mh_client = Some cl,
         mh_schema = Some (rt_GetSchema (mg_heap m ! i)), mh_status = st\<rparr>
    \<and> rs_dsReady st \<and> rs_dsStoreReady st \<and> rs_phase st = PhaseRunning
    \<and> GetClient dsc key m = (Some cl, st, True)
    \<and> (rt_looping (mg_heap m ! i) \<and> \<not> rt_wakeCh (mg_heap m ! i) \<longrightarrow> rs_recovered st)"
  using mg_runs.inv_run [of s0 evs w] run by (intro GetDatastore_sound [OF _ get]) simp

theorem GetDatastore_contract_witness:
  "let m = snd (run_ops (mg_step sample_subs0) (take 5 sample_mg_events) (0, NewTargetManager))
   in \<exists>st. GetClient (Some ()) (''ns'', ''t1'') m = (Some (), st, True) \<and> rs_recovered st"
proof -
  let ?reach = "run_ops (mg_step sample_subs0) (take 5 sample_mg_events) (0, NewTargetManager)"
  obtain w m where reach: "?reach = (w, m)" by (metis surj_pair)
  have e: "snd (GetDatastore (\<lambda>k. fst k @ snd k) (Some ()) (''ns'', ''t1'') (snd ?reach))
      \<and> GetRuntimeForTarget (''ns'', ''t1'') (snd ?reach) = Some 0
      \<and> rt_looping (mg_heap (snd ?reach) ! 0) \<and> \<not> rt_wakeCh (mg_heap (snd ?reach) ! 0)" by code_simp
  then obtain h where get: "GetDatastore (\<lambda>k. fst k @ snd k) (Some ()) (''ns'', ''t1'') m = (h, True)"
    unfolding reach by (cases "GetDatastore (\<lambda>k. fst k @ snd k) (Some ()) (''ns'', ''t1'') m") auto
  show ?thesis using GetDatastore_contract [OF reach get] e unfolding reach Let_def by auto
qed

text \<open>
  The documented guarantee that \<open>Running\<close> implies recovered has a window. When the data-server
  goes down and comes back before the loop takes the wake of the first event, the phase is still
  \<open>Running\<close> and the datastore still counts as ready, while the first event has already marked the
  target as not recovered: \<open>GetDatastore\<close> hands out a client for a datastore into which the configs
  have not been replayed.
\<close>

theorem GetDatastore_window:
  fixes e1 e2 :: "goerr option" and w :: 'w and m :: "'s manager"
  assumes "GetRuntimeForTarget key m = Some i" "i < length (mg_heap m)"
    and "rt_looping (mg_heap m ! i)" "rt_phase (mg_heap m ! i) = PhaseRunning" "rt_datastoreReady (mg_heap m ! i)"
  shows "case run_ops (mg_step s0) [MgRuntime i (RtDsEvent False e1), MgRuntime i (RtDsEvent True e2 :: ('p, 's, 'w) rt_event)] (w, m)
    of (w', m') \<Rightarrow> w' = w \<and> (\<exists>h. GetDatastore kS (Some cl) key m' = (Some h, True)
         \<and> mh_client h = Some cl \<and> \<not> rs_recovered (mh_status h))"
proof -
  let ?r = "mg_heap m ! i"
  let ?r2 = "rt_wake (setDSReady True e2 (rt_wake (setDSReady False e1 ?r)))"
  have n: "rt_notifications (rt_wake (setDSReady b x r)) = rt_notifications r"
    "rt_phase (rt_wake (setDSReady b x r)) = rt_phase r"
    "rt_datastoreReady (rt_wake (setDSReady b x r)) = rt_datastoreReady r"
    "rt_recovered (rt_wake (setDSReady b x r)) = (b \<and> rt_recovered r)"
    "rt_dsReady (rt_wake (setDSReady b x r)) = b" for b x and r :: "'s runtime"
    by (simp_all add: rt_wake_def setDSReady_def Let_def)
  have run: "run_ops (mg_step s0) [MgRuntime i (RtDsEvent False e1),
      MgRuntime i (RtDsEvent True e2 :: ('p, 's, 'w) rt_event)] (w, m) = (w, m\<lparr>mg_heap := (mg_heap m)[i := ?r2]\<rparr>)"
    using assms by (simp add: run_ops_def n)
  have "rt_phase ?r2 = PhaseRunning" "rt_datastoreReady ?r2" "rt_dsReady ?r2" "\<not> rt_recovered ?r2"
    using assms by (simp_all add: n)
  then show ?thesis using assms
    by (simp add: run GetDatastore_def mg_GetDatastore_usable_def rt_Status_def GetRuntimeForTarget_def Let_def)
qed

theorem GetDatastore_window_witness:
  "let m = snd (run_ops (mg_step sample_subs0) (take 5 sample_mg_events
        @ [MgRuntime 0 (RtDsEvent False None), MgRuntime 0 (RtDsEvent True None)]) (0, NewTargetManager))
   in \<exists>h. GetDatastore (\<lambda>k. fst k @ ''.'' @ snd k) (Some ()) (''ns'', ''t1'') m = (Some h, True)
      \<and> \<not> rs_recovered (mh_status h)"
proof -
  let ?reach = "run_ops (mg_step sample_subs0) (take 5 sample_mg_events) (0, NewTargetManager)"
  obtain w m where reach: "?reach = (w, m)" by (metis surj_pair)
  have e: "GetRuntimeForTarget (''ns'', ''t1'') (snd ?reach) = Some 0 \<and> 0 < length (mg_heap (snd ?reach))
      \<and> rt_looping (mg_heap (snd ?reach) ! 0) \<and> rt_phase (mg_heap (snd ?reach) ! 0) = PhaseRunning
      \<and> rt_datastoreReady (mg_heap (snd ?reach) ! 0)" by code_simp
  then have p: "GetRuntimeForTarget (''ns'', ''t1'') m = Some 0" "0 < length (mg_heap m)"
    "rt_looping (mg_heap m ! 0)" "rt_phase (mg_heap m ! 0) = PhaseRunning" "rt_datastoreReady (mg_heap m ! 0)"
    unfolding reach by auto
  have split: "run_ops (mg_step sample_subs0) (take 5 sample_mg_events @ evs) (0, NewTargetManager)
      = run_ops (mg_step sample_subs0) evs (w, m)" for evs
    using reach by (simp add: run_ops_def)
  show ?thesis
    using GetDatastore_window [OF p, where 'p = string and ?e1.0 = None and ?e2.0 = None and w = w and ?s0.0 = sample_subs0
        and kS = "\<lambda>k. fst k @ ''.'' @ snd k" and cl = "()"]
    unfolding split Let_def by (auto split: prod.splits)
qed

section \<open>Subscriptions reach every target\<close>

lemma upd_rt_sel [simp]:
  "mg_targets (upd_rt i f m) = mg_targets m" "length (mg_heap (upd_rt i f m)) = length (mg_heap m)"
  "i < length (mg_heap m) \<Longrightarrow> mg_heap (upd_rt i f m) = (mg_heap m)[i := f (mg_heap m ! i)]"
  by (simp_all add: upd_rt_def)

definition reg_ok :: "'s manager \<Rightarrow> bool" where
  \<comment> \<open>registered pointers are allocated and belong to one key\<close>
  "reg_ok m \<longleftrightarrow> (\<forall>k i. map_of (mg_targets m) k = Some i \<longrightarrow> i < length (mg_heap m))
     \<and> (\<forall>k k' i. map_of (mg_targets m) k = Some i \<and> map_of (mg_targets m) k' = Some i \<longrightarrow> k = k')"

lemma reg_ok_inv: "mg_inv m \<Longrightarrow> reg_ok m"
  unfolding reg_ok_def using mg_invD(1) [of m] by metis

lemma for_targets_spec:
  assumes "reg_ok m" "distinct tns" "for_targets op ns tns errs m = (errs', m')"
  shows "mg_targets m' = mg_targets m \<and> length (mg_heap m') = length (mg_heap m)
    \<and> (\<forall>i < length (mg_heap m). mg_heap m' ! i =
          (if \<exists>tn \<in> set tns. map_of (mg_targets m) (ns, tn) = Some i then snd (op (mg_heap m ! i)) else mg_heap m ! i))
    \<and> (errs' = None \<longleftrightarrow> errs = None \<and>
          (\<forall>tn \<in> set tns. \<forall>i. map_of (mg_targets m) (ns, tn) = Some i \<longrightarrow> fst (op (mg_heap m ! i)) = None))"
  using assms
proof (induction op ns tns errs m rule: for_targets.induct)
  case (2 op ns tn rest errs m)
  show ?case
  proof (cases "map_of (mg_targets m) (ns, tn)")
    case None
    with 2 show ?thesis by (auto simp: GetRuntimeForTarget_def)
  next
    case (Some k)
    let ?m = "upd_rt k (\<lambda>r. snd (op r)) m"
    have k: "k < length (mg_heap m)" using 2(3) Some by (auto simp: reg_ok_def)
    have other: "map_of (mg_targets m) (ns, t) \<noteq> Some k" if "t \<in> set rest" for t
    proof
      assume "map_of (mg_targets m) (ns, t) = Some k"
      then have "(ns, t) = (ns, tn)" using 2(3) Some unfolding reg_ok_def by blast
      then show False using that 2(4) by simp
    qed
    have ok: "reg_ok ?m" using 2(3) by (simp add: reg_ok_def)
    have run: "for_targets op ns rest (err_join errs (fst (op (mg_heap m ! k)))) ?m = (errs', m')"
      using 2(5) Some by (simp add: GetRuntimeForTarget_def)
    have IH: "mg_targets m' = mg_targets m" "length (mg_heap m') = length (mg_heap m)"
      "\<And>i. i < length (mg_heap m) \<Longrightarrow> mg_heap m' ! i = (if \<exists>tn \<in> set rest. map_of (mg_targets m) (ns, tn) = Some i
          then snd (op (mg_heap ?m ! i)) else mg_heap ?m ! i)"
      "errs' = None \<longleftrightarrow> err_join errs (fst (op (mg_heap m ! k))) = None \<and>
          (\<forall>tn \<in> set rest. \<forall>i. map_of (mg_targets m) (ns, tn) = Some i \<longrightarrow> fst (op (mg_heap ?m ! i)) = None)"
      using 2(2) [of k] Some ok run 2(4) by (simp_all add: GetRuntimeForTarget_def)
    have h: "mg_heap ?m ! i = (if i = k then snd (op (mg_heap m ! k)) else mg_heap m ! i)" for i
      using k by (cases "i = k") simp_all
    have "mg_heap m' ! i = (if \<exists>tn \<in> set (tn # rest). map_of (mg_targets m) (ns, tn) = Some i
        then snd (op (mg_heap m ! i)) else mg_heap m ! i)" if "i < length (mg_heap m)" for i
      using IH(3) [OF that] other Some by (auto simp: h)
    moreover have "fst (op (mg_heap ?m ! i)) = fst (op (mg_heap m ! i))"
      if "t \<in> set rest" "map_of (mg_targets m) (ns, t) = Some i" for t i
      using other [OF that(1)] that(2) by (auto simp: h)
    then have "errs' = None \<longleftrightarrow> errs = None \<and>
        (\<forall>tn \<in> set (tn # rest). \<forall>i. map_of (mg_targets m) (ns, tn) = Some i \<longrightarrow> fst (op (mg_heap m ! i)) = None)"
      using IH(4) Some by simp
    ultimately show ?thesis using IH(1,2) by blast
  qed
qed simp

lemma sorted_names: "distinct xs \<Longrightarrow> distinct (sort xs)" for xs :: "string list"
  by simp

text \<open>
  A subscription reaches exactly its targets. The targets reported are those of the selector in
  the namespace of the subscription that are not being deleted, in sorted order; each of their
  registered runtimes gets the subscription, also when another one fails; every other runtime is
  untouched; and the call reports an error exactly when one of the runtimes did.
\<close>

theorem ApplySubscription_targets:
  fixes st :: "'s path_store"
  assumes run: "run_ops (mg_step s0) evs (w0, NewTargetManager) = (w, m)"
    and sel: "selectorOf sel = Inr q" and list: "list (scr_namespace sub) q w = (Inr items, w1)"
    and uniq: "distinct (map (\<lambda>t. m_name (t_meta t)) items)"
    and app: "ApplySubscription st selectorOf list sel sub (w, m) = ((Some targets, errs), w', m')"
  shows "sorted targets \<and> w' = w1
    \<and> set targets = {m_name (t_meta t) | t. t \<in> set items \<and> m_deletionTimestamp (t_meta t) = None}
    \<and> (\<forall>i < length (mg_heap m). mg_heap m' ! i =
        (if \<exists>tn \<in> set targets. GetRuntimeForTarget (scr_namespace sub, tn) m = Some i
         then snd (UpsertSubscription st sub (mg_heap m ! i)) else mg_heap m ! i))
    \<and> (errs = None \<longleftrightarrow> (\<forall>tn \<in> set targets. \<forall>i. GetRuntimeForTarget (scr_namespace sub, tn) m = Some i \<longrightarrow>
          fst (UpsertSubscription st sub (mg_heap m ! i)) = None))"
proof -
  have inv: "mg_inv m" using mg_runs.inv_run [of s0 evs w0] run by simp
  let ?live = "filter (\<lambda>t. m_deletionTimestamp (t_meta t) = None) items"
  have t: "targets = sort (map (\<lambda>t. m_name (t_meta t)) ?live)" "w' = w1"
    and f: "for_targets (UpsertSubscription st sub) (scr_namespace sub) targets None m = (errs, m')"
    using app sel list by (auto simp: ApplySubscription_def getDownstreamTargets_def split: prod.splits)
  have "distinct targets" unfolding t by (rule sorted_names) (rule distinct_map_filter [OF uniq])
  from for_targets_spec [OF reg_ok_inv [OF inv] this f]
  show ?thesis unfolding GetRuntimeForTarget_def by (auto simp: t)
qed

theorem ApplySubscription_targets_witness:
  "let reach = run_ops (mg_step sample_subs0) (take 5 sample_mg_events) (0, NewTargetManager);
       sub = sample_sub_cr ''a'' ''x'' 30
   in mg_heap (snd (snd (ApplySubscription alist_store (\<lambda>s :: unit. Inr ()) (\<lambda>ns q w. (Inr [sample_target], w)) ()
        sub reach))) ! 0 = snd (UpsertSubscription alist_store sub (mg_heap (snd reach) ! 0))"
proof -
  let ?reach = "run_ops (mg_step sample_subs0) (take 5 sample_mg_events) (0, NewTargetManager)"
  let ?sub = "sample_sub_cr ''a'' ''x'' 30"
  let ?list = "\<lambda>(ns :: string) (q :: unit) (w :: nat). (Inr [sample_target] :: goerr + target list, w)"
  let ?sel = "\<lambda>s :: unit. (Inr () :: string + unit)"
  obtain w m where reach: "?reach = (w, m)" by (metis surj_pair)
  have e: "GetRuntimeForTarget (''ns'', ''t1'') (snd ?reach) = Some 0 \<and> 0 < length (mg_heap (snd ?reach))" by code_simp
  obtain errs m' where f: "for_targets (UpsertSubscription alist_store ?sub) (scr_namespace ?sub) [''t1''] None m = (errs, m')"
    by (metis surj_pair)
  have app: "ApplySubscription alist_store ?sel ?list () ?sub (w, m) = ((Some [''t1''], errs), w, m')"
    using f by (simp add: ApplySubscription_def getDownstreamTargets_def sample_target_def empty_meta_def
        del: for_targets.simps)
  have u: "distinct (map (\<lambda>t. m_name (t_meta t)) [sample_target])" by simp
  have ns: "scr_namespace ?sub = ''ns''" by (simp add: sample_sub_cr_def)
  have "mg_heap m' ! 0 = snd (UpsertSubscription alist_store ?sub (mg_heap m ! 0))"
    using ApplySubscription_targets [OF reach, where selectorOf = ?sel and list = ?list and sel = "()" and q = "()",
        OF refl refl u app] e unfolding reach ns by simp
  then show ?thesis unfolding Let_def reach app by simp
qed

end
