(* ===== verification/Resource.thy ===== *)
theory Resource
  imports Services
begin

text \<open>
  What every controller does to its resource: the finalizer it holds (\<open>pkg/reconcilers/resource/finalizer.go\<close>)
  and the events it records (\<open>pkg/reconcilers/events.go\<close>). \<open>apply name ns fs\<close> is the server-side
  apply that carries the finalizers \<open>fs\<close> of the controller's field manager; with none they are given up.
\<close>

section \<open>Finalizers\<close>

fun FinalizerExists :: "string list \<Rightarrow> string \<Rightarrow> bool" where
  "FinalizerExists [] f = False"
| "FinalizerExists (e # es) f = (if e = f then True else FinalizerExists es f)"

definition AddFinalizer ::
  "string \<Rightarrow> (string \<Rightarrow> string \<Rightarrow> string list \<Rightarrow> 'w \<Rightarrow> goerr option \<times> 'w) \<Rightarrow> objmeta \<Rightarrow> 'w \<Rightarrow> goerr option \<times> 'w" where
  "AddFinalizer finalizer apply_fs obj w =
     (if FinalizerExists (m_finalizers obj) finalizer then (None, w)
      else apply_fs (m_name obj) (m_namespace obj) [finalizer] w)"

definition RemoveFinalizer ::
  "string \<Rightarrow> (string \<Rightarrow> string \<Rightarrow> string list \<Rightarrow> 'w \<Rightarrow> goerr option \<times> 'w) \<Rightarrow> objmeta \<Rightarrow> 'w \<Rightarrow> goerr option \<times> 'w" where
  "RemoveFinalizer finalizer apply_fs obj w =
     (if \<not> FinalizerExists (m_finalizers obj) finalizer then (None, w)
      else apply_fs (m_name obj) (m_namespace obj) [] w)"

lemma FinalizerExists_iff: "FinalizerExists fs f \<longleftrightarrow> f \<in> set fs"
  by (induction fs) auto

section \<open>Events\<close>

fun event_cut :: "string \<Rightarrow> nat \<Rightarrow> nat option" where
  \<comment> \<open>the loop of \<open>RecordEvent\<close>; \<open>None\<close>: it runs off the start of the message and panics\<close>
  "event_cut s n = (if RuneStart (s ! n) then Some n else case n of 0 \<Rightarrow> None | Suc k \<Rightarrow> event_cut s k)"

declare event_cut.simps [simp del]

definition RecordEvent :: "string \<Rightarrow> string option" where
  \<comment> \<open>the note\<close>
  "RecordEvent message =
     (if length message > 1024
      then case event_cut message (1024 - 3) of None \<Rightarrow> None | Some n \<Rightarrow> Some (take n message @ ''...'')
      else Some message)"

end
