(* ===== verification/TargetDatastore.thy ===== *)
theory TargetDatastore
  imports TargetManager Resource
begin

text \<open>
  The controller that owns the Target's datastore and its Ready condition
  (\<open>pkg/reconcilers/targetdatastore/reconciler.go\<close>), with the profiles it reads
  (\<open>apis/inv/v1alpha1\<close>). One reconcile is one function over the world and the registry of runtimes;
  the API server is the record \<open>td_services\<close>.
\<close>

section \<open>Profiles\<close>

record conn_profile =
  cp_meta :: objmeta
  cp_protocol :: string
  cp_port :: "32 word"
  cp_encoding :: "string option"
  cp_insecure :: "bool option"
  cp_skipVerify :: "bool option"
  cp_includeNS :: "bool option"
  cp_operationWithNS :: "bool option"
  cp_useOperationRemove :: "bool option"
  cp_commitCandidate :: "string option"
  cp_targetName :: "string option"

definition IsInsecure :: "conn_profile \<Rightarrow> bool" where
  "IsInsecure r \<longleftrightarrow> cp_insecure r \<noteq> None \<and> the (cp_insecure r)"

definition SkipVerify :: "conn_profile \<Rightarrow> bool" where
  "SkipVerify r \<longleftrightarrow> cp_skipVerify r \<noteq> None \<and> the (cp_skipVerify r)"

definition cp_Encoding :: "conn_profile \<Rightarrow> string" where
  "cp_Encoding r = (case cp_encoding r of None \<Rightarrow> ''JSON_IETF'' | Some e \<Rightarrow> e)"

definition IncludeNS :: "conn_profile \<Rightarrow> bool" where
  "IncludeNS r \<longleftrightarrow> cp_includeNS r \<noteq> None \<and> the (cp_includeNS r)"

definition OperationWithNS :: "conn_profile \<Rightarrow> bool" where
  "OperationWithNS r \<longleftrightarrow> cp_operationWithNS r \<noteq> None \<and> the (cp_operationWithNS r)"

definition UseOperationRemove :: "conn_profile \<Rightarrow> bool" where
  "UseOperationRemove r \<longleftrightarrow> cp_useOperationRemove r \<noteq> None \<and> the (cp_useOperationRemove r)"

definition CommitCandidate :: "conn_profile \<Rightarrow> string" where
  "CommitCandidate r = (case cp_commitCandidate r of None \<Rightarrow> ''candidate'' | Some c \<Rightarrow> c)"

definition DefaultTargetConnectionProfile :: conn_profile where
  "DefaultTargetConnectionProfile = \<lparr>cp_meta = empty_meta\<lparr>m_name := ''default'', m_namespace := ''default''\<rparr>,
     cp_protocol = ''gnmi'', cp_port = 0, cp_encoding = Some ''JSON_IETF'', cp_insecure = Some False,
     cp_skipVerify = Some True, cp_includeNS = None, cp_operationWithNS = None,
     cp_useOperationRemove = None, cp_commitCandidate = None, cp_targetName = None\<rparr>"

record sync_item =
  si_name :: string
  si_protocol :: string
  si_port :: "32 word"
  si_paths :: "string list"
  si_mode :: string
  si_encoding :: "string option"
  si_interval :: int

record sync_profile =
  yp_meta :: objmeta
  yp_validate :: bool
  yp_buffer :: "64 word"
  yp_workers :: "64 word"
  yp_sync :: "sync_item list"

definition si_GetEncoding :: "sync_item \<Rightarrow> string" where
  "si_GetEncoding r = (case si_encoding r of None \<Rightarrow> ''JSON_IETF'' | Some e \<Rightarrow> e)"

definition getEncoding :: "string \<Rightarrow> string" where
  "getEncoding e = (if e = ''CONFIG'' then ''45'' else e)"

definition getSyncMode :: "string \<Rightarrow> sync_mode_pb" where
  "getSyncMode mode =
     (if mode = ''onChange'' then SM_ON_CHANGE else if mode = ''sample'' then SM_SAMPLE
      else if mode = ''once'' then SM_ONCE else if mode = ''get'' then SM_GET else SM_ON_CHANGE)"

definition sync_entry :: "ds_target \<Rightarrow> sync_item \<Rightarrow> sync_config" where
  "sync_entry target s = \<lparr>sc_name = si_name s,
     sc_target = \<lparr>dt_type = si_protocol s, dt_address = dt_address target, dt_port = si_port s,
       dt_credentials = dt_credentials target, dt_tls = dt_tls target,
       dt_protocolOptions = (if si_protocol s = ''gnmi'' then GnmiOpts (getEncoding (si_GetEncoding s)) [] else NoOpts)\<rparr>,
     sc_path = si_paths s, sc_mode = getSyncMode (si_mode s), sc_interval = word_of_int (si_interval s)\<rparr>"

definition GetSyncProfile :: "sync_profile \<Rightarrow> ds_target \<Rightarrow> sync_pb" where
  \<comment> \<open>\<open>Validate\<close>, \<open>Buffer\<close> and \<open>Workers\<close> of the profile are not read\<close>
  "GetSyncProfile p target = \<lparr>sy_validate = False, sy_buffer = 10000, sy_writeWorkers = 10,
     sy_config = map (sync_entry target) (yp_sync p)\<rparr>"

definition DefaultTargetSyncProfile :: sync_profile where
  "DefaultTargetSyncProfile = \<lparr>yp_meta = empty_meta\<lparr>m_name := ''default'', m_namespace := ''default''\<rparr>,
     yp_validate = True, yp_buffer = 0, yp_workers = 0,
     yp_sync = [\<lparr>si_name = ''config'', si_protocol = ''gnmi'', si_port = 0, si_paths = [''/''],
       si_mode = ''get'', si_encoding = None, si_interval = 0\<rparr>]\<rparr>"

section \<open>The API server\<close>

record secret =
  sec_resourceVersion :: string
  sec_data :: "string gomap"

record schema_cr =
  sk_provider :: string
  sk_version :: string
  sk_conditions :: "condition list"

record refs_apply =
  ra_secret :: "string option"
  ra_tlsSecret :: "string option"
  ra_connectionProfile :: "string option"
  ra_syncProfile :: "string option"

record 'w td_services =
  td_GetTarget :: "string \<Rightarrow> string \<Rightarrow> 'w \<Rightarrow> (goerr + target) \<times> 'w"
  td_ListSchemas :: "string \<Rightarrow> 'w \<Rightarrow> (goerr + schema_cr list) \<times> 'w"
  td_GetConnProfile :: "string \<Rightarrow> string \<Rightarrow> 'w \<Rightarrow> (goerr + conn_profile) \<times> 'w"
  td_GetSyncProfile :: "string \<Rightarrow> string \<Rightarrow> 'w \<Rightarrow> (goerr + sync_profile) \<times> 'w"
  td_GetSecret :: "string \<Rightarrow> string \<Rightarrow> 'w \<Rightarrow> (goerr + secret) \<times> 'w"
  td_DeleteDeviation :: "string \<Rightarrow> string \<Rightarrow> 'w \<Rightarrow> goerr option \<times> 'w"
  td_ApplyStatus :: "string \<Rightarrow> string \<Rightarrow> condition \<Rightarrow> refs_apply option \<Rightarrow> 'w \<Rightarrow> goerr option \<times> 'w"
  td_PatchConditions :: "target \<Rightarrow> condition list \<Rightarrow> 'w \<Rightarrow> goerr option \<times> 'w"
  td_ApplyFinalizers :: "string \<Rightarrow> string \<Rightarrow> string list \<Rightarrow> 'w \<Rightarrow> goerr option \<times> 'w"
  td_Event :: "string \<Rightarrow> string \<Rightarrow> string \<Rightarrow> 'w \<Rightarrow> 'w"

text \<open>
  \<open>td_ApplyFinalizers\<close> is a server-side apply carrying these finalizers of this field manager (none:
  they are given up); \<open>td_Event\<close> is the event recorder.
\<close>

record ('p, 'w) td_env =
  te_td :: "'w td_services"
  te_ds :: "('p, 'w) dsclient option"
  te_keyString :: "tkey \<Rightarrow> string"
  te_now :: nat
  te_json :: "ds_request option \<Rightarrow> string"
  te_showDI :: "discovery_info option \<Rightarrow> string"  \<comment> \<open>the generated \<open>String\<close> method, used by \<open>%v\<close>\<close>
  te_sha256hex :: "string \<Rightarrow> string"

definition td_finalizer :: string where
  "td_finalizer = ''targetdatastore.inv.sdcio.dev/finalizer''"

section \<open>The Ready condition\<close>

definition fallbackRequeue :: nat where "fallbackRequeue = 30"
definition schemaRequeue :: nat where "schemaRequeue = 10"
definition deleteRequeue :: nat where "deleteRequeue = 5"

definition AnnotationRecoveryRetry :: string where
  "AnnotationRecoveryRetry = ''config.sdcio.dev/recovery-retry''"

definition LegacyTargetConditionTypes :: "string list" where
  "LegacyTargetConditionTypes = [''TargetDatastoreReady'', ''TargetConnectionReady'', ''TargetConfigRecoveryReady'']"

definition with_err :: "runtime_status \<Rightarrow> string \<Rightarrow> string" where
  "with_err st msg = (if rs_lastError st = [] then msg else msg @ '': '' @ rs_lastError st)"

definition readyFromRuntime :: "nat \<Rightarrow> runtime_status \<Rightarrow> condition \<times> nat \<times> bool" where
  \<comment> \<open>(condition, requeue after, datastore up)\<close>
  "readyFromRuntime now st =
     (case rs_phase st of
        PhaseRunning \<Rightarrow> (TargetReady now (rs_recoveryMsg st), 0, True)
      | PhaseRecovering \<Rightarrow> (TargetNotReady now ''Recovering'' (with_err st ''recovering configs''), fallbackRequeue, True)
      | PhaseRecoveryFailed \<Rightarrow> (TargetNotReady now ''RecoveryFailed''
          (''config recovery failed, manual intervention required: '' @ rs_lastError st
            @ ''; fix the configs, then set annotation '' @ AnnotationRecoveryRetry @ '' to a new value to retry''), 0, True)
      | PhaseDegraded \<Rightarrow> (TargetNotReady now ''DatastoreFailed'' (with_err st ''datastore failed''), fallbackRequeue, False)
      | PhaseEnsuringDatastore \<Rightarrow> (TargetNotReady now ''DatastoreNotReady'' (with_err st ''ensuring datastore''), fallbackRequeue, False)
      | PhaseWaitingForDS \<Rightarrow> (TargetNotReady now ''DataServerNotReady'' (with_err st ''waiting for dataserver''), fallbackRequeue, False)
      | PhasePending \<Rightarrow> (TargetNotReady now ''Initializing'' ''initializing target runtime'', fallbackRequeue, False)
      | PhaseDeleting \<Rightarrow> (TargetNotReady now ''Deleting'' ''target runtime stopping'', fallbackRequeue, False))"

definition nonempty :: "string \<Rightarrow> string option" where
  "nonempty s = (if s \<noteq> [] then Some s else None)"

definition usedRefsToApply :: "used_refs option \<Rightarrow> refs_apply option" where
  "usedRefsToApply refs =
     (case refs of None \<Rightarrow> None
      | Some r \<Rightarrow> Some \<lparr>ra_secret = nonempty (ur_secret r), ra_tlsSecret = nonempty (ur_tlsSecret r),
          ra_connectionProfile = nonempty (ur_connectionProfile r), ra_syncProfile = nonempty (ur_syncProfile r)\<rparr>)"

definition applyReady ::
  "'w td_services \<Rightarrow> target \<Rightarrow> condition \<Rightarrow> used_refs option \<Rightarrow> 'w \<Rightarrow> goerr option \<times> 'w" where
  "applyReady td target newCond usedRefs w =
     (let oldCond = GetCondition (t_conditions target) ConditionTypeReady in
      if cond_Equal newCond oldCond \<and> usedRefs = t_usedReferences target then (None, w)
      else let newCond = (if cStatus oldCond = cStatus newCond \<and> cLastTransitionTime oldCond \<noteq> 0
                          then newCond\<lparr>cLastTransitionTime := cLastTransitionTime oldCond\<rparr> else newCond);
               w = (if cStatus oldCond \<noteq> cStatus newCond \<or> cReason oldCond \<noteq> cReason newCond
                    then let eventType = (if \<not> IsTrue newCond then ''Warning'' else ''Normal'') in
                      case RecordEvent (cMessage newCond) of None \<Rightarrow> w
                      | Some note \<Rightarrow> td_Event td eventType (cReason newCond) note w
                    else w);
               (err, w) = td_ApplyStatus td (m_name (t_meta target)) (m_namespace (t_meta target)) newCond
                 (usedRefsToApply usedRefs) w in
        (map_option (err_wrap ''cannot update status'') err, w))"

definition dropLegacyConditions :: "'w td_services \<Rightarrow> target \<Rightarrow> 'w \<Rightarrow> (goerr option \<times> bool) \<times> 'w" where
  "dropLegacyConditions td target w =
     (let kept = filter (\<lambda>c. cType c \<notin> set LegacyTargetConditionTypes) (t_conditions target) in
      if length kept = length (t_conditions target) then ((None, False), w)
      else case td_PatchConditions td target kept w of
          (Some err, w) \<Rightarrow> ((Some (err_wrap ''cannot remove legacy conditions'' err), False), w)
        | (None, w) \<Rightarrow> ((None, True), w))"

section \<open>The datastore request\<close>

definition td_deleteDeviation :: "'w td_services \<Rightarrow> target \<Rightarrow> 'w \<Rightarrow> goerr option \<times> 'w" where
  "td_deleteDeviation td target w =
     (case td_DeleteDeviation td (m_namespace (t_meta target)) (m_name (t_meta target)) w of
        (Some err, w) \<Rightarrow>
          (if IgnoreNotFound (Some err) \<noteq> None then (Some (err_wrap ''cannot delete deviation'' err), w) else (None, w))
      | (None, w) \<Rightarrow> (None, w))"

definition getConnProfile :: "'w td_services \<Rightarrow> string \<Rightarrow> string \<Rightarrow> 'w \<Rightarrow> (goerr + conn_profile) \<times> 'w" where
  "getConnProfile td ns name w =
     (case td_GetConnProfile td ns name w of
        (Inl err, w) \<Rightarrow> (if IgnoreNotFound (Some err) \<noteq> None then Inl err else Inr DefaultTargetConnectionProfile, w)
      | (Inr p, w) \<Rightarrow> (Inr p, w))"

definition getSyncProfile :: "'w td_services \<Rightarrow> string \<Rightarrow> string \<Rightarrow> 'w \<Rightarrow> (goerr + sync_profile) \<times> 'w" where
  "getSyncProfile td ns name w =
     (case td_GetSyncProfile td ns name w of
        (Inl err, w) \<Rightarrow> (if IgnoreNotFound (Some err) \<noteq> None then Inl err else Inr DefaultTargetSyncProfile, w)
      | (Inr p, w) \<Rightarrow> (Inr p, w))"

fun find_schema :: "discovery_info \<Rightarrow> schema_cr list \<Rightarrow> bool \<times> string" where
  "find_schema d [] = (False, ''schema '' @ di_provider d @ ''/'' @ di_version d @ '' referenced by target not found'')"
| "find_schema d (s # ss) =
     (if sk_provider s = di_provider d \<and> sk_version s = di_version d
      then let c = GetCondition (sk_conditions s) ConditionTypeReady; msg = cMessage c;
               msg = (if \<not> IsTrue c \<and> msg = [] then ''schema '' @ sk_provider s @ ''/'' @ sk_version s @ '' not ready'' else msg)
           in (IsTrue c, msg)
      else find_schema d ss)"

definition isSchemaReady :: "'w td_services \<Rightarrow> target \<Rightarrow> 'w \<Rightarrow> (goerr + bool \<times> string) \<times> 'w" where
  "isSchemaReady td target w =
     (case t_discoveryInfo target of
        None \<Rightarrow> (Inr (False, ''target has no discovery info''), w)
      | Some d \<Rightarrow>
          (case td_ListSchemas td (m_namespace (t_meta target)) w of
             (Inl err, w) \<Rightarrow> (Inl err, w)
           | (Inr items, w) \<Rightarrow> (Inr (find_schema d items), w)))"

definition request_tls ::
  "'w td_services \<Rightarrow> target \<Rightarrow> conn_profile \<Rightarrow> used_refs \<Rightarrow> 'w \<Rightarrow> (goerr + ds_tls option \<times> used_refs) \<times> 'w" where
  "request_tls td target cp refs w =
     (if IsInsecure cp then (Inr (None, refs), w)
      else let tls = \<lparr>tls_skipVerify = SkipVerify cp, tls_ca = [], tls_cert = [], tls_key = []\<rparr> in
        case ts_tlsSecret (t_spec target) of
          None \<Rightarrow> (Inr (Some tls, refs), w)
        | Some name \<Rightarrow>
            (case td_GetSecret td (m_namespace (t_meta target)) name w of
               (Inl err, w) \<Rightarrow> (Inl err, w)
             | (Inr s, w) \<Rightarrow> (Inr (Some (tls\<lparr>tls_ca := gm_index [] (sec_data s) ''ca'',
                  tls_cert := gm_index [] (sec_data s) ''cert'', tls_key := gm_index [] (sec_data s) ''key''\<rparr>),
                  refs\<lparr>ur_tlsSecret := sec_resourceVersion s\<rparr>), w)))"

definition protocol_opts :: "conn_profile \<Rightarrow> protocol_options" where
  "protocol_opts cp =
     (if cp_protocol cp = ''gnmi''
      then GnmiOpts (cp_Encoding cp) (case cp_targetName cp of None \<Rightarrow> [] | Some n \<Rightarrow> n)
      else if cp_protocol cp = ''netconf''
      then NetconfOpts (IncludeNS cp) (OperationWithNS cp) (UseOperationRemove cp) (CommitCandidate cp = ''running'')
      else NoOpts)"

definition build_request :: "(tkey \<Rightarrow> string) \<Rightarrow> target \<Rightarrow> conn_profile \<Rightarrow> sync_profile \<Rightarrow> secret \<Rightarrow> ds_tls option
    \<Rightarrow> discovery_info \<Rightarrow> ds_request" where
  "build_request keyString target cp sp sec tls d =
     (let tg = \<lparr>dt_type = cp_protocol cp, dt_address = ts_address (t_spec target), dt_port = cp_port cp,
            dt_credentials = Some \<lparr>cr_username = gm_index [] (sec_data sec) ''username'',
              cr_password = gm_index [] (sec_data sec) ''password''\<rparr>,
            dt_tls = tls, dt_protocolOptions = protocol_opts cp\<rparr> in
      \<lparr>dr_datastoreName = keyString (m_namespace (t_meta target), m_name (t_meta target)), dr_target = Some tg,
       dr_schema = Some \<lparr>ds_sname = [], ds_svendor = di_provider d, ds_sversion = di_version d\<rparr>,
       dr_sync = Some (GetSyncProfile sp tg)\<rparr>)"

definition getCreateDataStoreRequest ::
  "(discovery_info option \<Rightarrow> string) \<Rightarrow> (tkey \<Rightarrow> string) \<Rightarrow> 'w td_services \<Rightarrow> target \<Rightarrow> 'w
     \<Rightarrow> (goerr + ds_request \<times> used_refs) \<times> 'w" where
  "getCreateDataStoreRequest showDI keyString td target w =
     (let ns = m_namespace (t_meta target) in
      case ts_syncProfile (t_spec target) of
        None \<Rightarrow> (Inl (err_new (''target '' @ m_name (t_meta target) @ '' has no syncProfile'')), w)
      | Some spName \<Rightarrow>
         (case getSyncProfile td ns spName w of
            (Inl err, w) \<Rightarrow> (Inl err, w)
          | (Inr sp, w) \<Rightarrow>
         (case getConnProfile td ns (ts_connectionProfile (t_spec target)) w of
            (Inl err, w) \<Rightarrow> (Inl err, w)
          | (Inr cp, w) \<Rightarrow>
         (case td_GetSecret td ns (ts_credentials (t_spec target)) w of
            (Inl err, w) \<Rightarrow> (Inl err, w)
          | (Inr sec, w) \<Rightarrow>
         (case request_tls td target cp \<lparr>ur_secret = sec_resourceVersion sec, ur_tlsSecret = [],
              ur_connectionProfile = m_resourceVersion (cp_meta cp), ur_syncProfile = m_resourceVersion (yp_meta sp)\<rparr> w of
            (Inl err, w) \<Rightarrow> (Inl err, w)
          | (Inr (tls, refs), w) \<Rightarrow>
              (case t_discoveryInfo target of
                 None \<Rightarrow> (Inl (err_new (''target not discovered, discovery incomplete, got: '' @ showDI (t_discoveryInfo target))), w)
               | Some d \<Rightarrow>
                   if di_provider d = [] \<or> di_version d = []
                   then (Inl (err_new (''target not discovered, discovery incomplete, got: '' @ showDI (t_discoveryInfo target))), w)
                   else (Inr (build_request keyString target cp sp sec tls d, refs), w)))))))"

section \<open>Reconcile\<close>

type_synonym ctrl_result = "nat \<times> goerr option"

definition td_refs :: "target \<Rightarrow> used_refs option" where
  "td_refs target = t_usedReferences target"

definition retryDelete :: "nat \<Rightarrow> 'w td_services \<Rightarrow> target \<Rightarrow> string \<Rightarrow> goerr \<Rightarrow> 'w \<Rightarrow> ctrl_result \<times> 'w" where
  "retryDelete now td target msg err w =
     (let (aerr, w) = applyReady td target (TargetNotReady now ''Deleting'' (msg @ '': '' @ e_msg err))
            (t_usedReferences target) w in
      ((deleteRequeue, aerr), w))"

definition reconcileDelete ::
  "('p, 'w) td_env \<Rightarrow> ('w \<times> 's manager \<Rightarrow> 'w \<times> 's manager) \<Rightarrow> target \<Rightarrow> tkey \<Rightarrow> 'w \<times> 's manager
     \<Rightarrow> ctrl_result \<times> 'w \<times> 's manager" where
  "reconcileDelete e waiting target key wm =
     (let td = te_td e; (w, m) = wm in
      if length (m_finalizers (t_meta target)) > 1
      then let (aerr, w) = applyReady td target (TargetNotReady (te_now e) ''Deleting'' ''waiting for other finalizers'')
                 (t_usedReferences target) w in ((deleteRequeue, aerr), w, m)
      else case mg_Delete (te_keyString e) waiting key (w, m) of
          (Some err, w, m) \<Rightarrow>
            (let (res, w) = retryDelete (te_now e) td target ''cannot stop target runtime'' err w in (res, w, m))
        | (None, w, m) \<Rightarrow>
            (case DeleteDatastore (te_keyString e) (te_ds e) key w of
               (Some err, w) \<Rightarrow>
                 (let (res, w) = retryDelete (te_now e) td target ''cannot delete datastore'' err w in (res, w, m))
             | (None, w) \<Rightarrow>
                 (case td_deleteDeviation td target w of
                    (Some err, w) \<Rightarrow>
                      (let (res, w) = retryDelete (te_now e) td target ''cannot delete deviation'' err w in (res, w, m))
                  | (None, w) \<Rightarrow>
                      (case RemoveFinalizer td_finalizer (td_ApplyFinalizers td) (t_meta target) w of
                         (Some err, w) \<Rightarrow> ((0, Some (err_wrap ''cannot remove finalizer'' err)), w, m)
                       | (None, w) \<Rightarrow> ((0, None), w, m)))))"

definition reconcile_pipeline ::
  "('p, 'w) td_env \<Rightarrow> 's subscriptions \<Rightarrow> target \<Rightarrow> tkey \<Rightarrow> 'w \<times> 's manager \<Rightarrow> ctrl_result \<times> 'w \<times> 's manager" where
  \<comment> \<open>the stages after the finalizer: the first that blocks sets the reason\<close>
  "reconcile_pipeline e s0 target key wm =
     (let td = te_td e; now = te_now e; (w, m) = wm;
          discovery = GetCondition (t_conditions target) ConditionTypeTargetDiscoveryReady in
      if \<not> IsTrue discovery
      then let m = ClearDesired key m;
               (aerr, w) = applyReady td target (TargetNotReady now ''DiscoveryNotReady'' (cMessage discovery)) None w in
        ((0, aerr), w, m)
      else case isSchemaReady td target w of
        (Inl err, w) \<Rightarrow>
          (let (aerr, w) = applyReady td target
                 (TargetNotReady now ''SchemaNotReady'' (''cannot get schema ready state: '' @ e_msg err)) None w in
           ((0, Some (err_wrap ''cannot get schema ready state'' err)), w, m))
      | (Inr (ready, msg), w) \<Rightarrow>
          if \<not> ready
          then let (aerr, w) = applyReady td target (TargetNotReady now ''SchemaNotReady'' msg) None w in
            ((schemaRequeue, aerr), w, m)
          else (case getCreateDataStoreRequest (te_showDI e) (te_keyString e) td target w of
            (Inl err, w) \<Rightarrow>
              (let (aerr, w) = applyReady td target (TargetNotReady now ''InvalidConfiguration'' (e_msg err))
                     (t_usedReferences target) w in ((0, aerr), w, m))
          | (Inr (req, refs), w) \<Rightarrow>
              (let hash = ComputeCreateDSHash (te_json e) (te_sha256hex e) (Some req) (Some refs);
                   m = mg_SetRecoveryRetryToken s0 key
                     (gm_index [] (m_annotations (t_meta target)) AnnotationRecoveryRetry) m;
                   m = ApplyDesired s0 key (Some req) (Some refs) hash m;
                   (rt, m) = GetOrCreate s0 key m; st = rt_Status (mg_heap m ! rt);
                   (cond, requeue, datastoreUp) = readyFromRuntime now st;
                   urefs = (if datastoreUp then Some refs else t_usedReferences target);
                   (aerr, w) = applyReady td target cond urefs w in
               ((requeue, aerr), w, m))))"

definition Reconcile ::
  "('p, 'w) td_env \<Rightarrow> 's subscriptions \<Rightarrow> ('w \<times> 's manager \<Rightarrow> 'w \<times> 's manager) \<Rightarrow> string \<Rightarrow> string
     \<Rightarrow> 'w \<times> 's manager \<Rightarrow> ctrl_result \<times> 'w \<times> 's manager" where
  "Reconcile e s0 waiting ns name wm =
     (let td = te_td e; (w, m) = wm; key = (ns, name) in
      case td_GetTarget td ns name w of
        (Inl err, w) \<Rightarrow>
          (case IgnoreNotFound (Some err) of
             Some err \<Rightarrow> ((0, Some (err_wrap ''cannot get cr'' err)), w, m)
           | None \<Rightarrow> ((0, None), w, m))
      | (Inr target, w) \<Rightarrow>
          (case dropLegacyConditions td target w of
             ((err, dropped), w) \<Rightarrow>
               if err \<noteq> None \<or> dropped then ((0, err), w, m)
               else if m_deletionTimestamp (t_meta target) \<noteq> None then reconcileDelete e waiting target key (w, m)
               else (case AddFinalizer td_finalizer (td_ApplyFinalizers td) (t_meta target) w of
                   (Some err, w) \<Rightarrow> ((0, Some (err_wrap ''cannot add finalizer'' err)), w, m)
                 | (None, w) \<Rightarrow> reconcile_pipeline e s0 target key (w, m))))"

section \<open>Finalization\<close>

datatype td_call = TDeleteDS string | TDeleteDev string string | TFinalizers string string "string list"
  | TStatus condition | TEvent | TPatch

definition tlog :: "td_call \<Rightarrow> ('w \<Rightarrow> 'r \<times> 'w) \<Rightarrow> 'w \<times> td_call list \<Rightarrow> 'r \<times> 'w \<times> td_call list" where
  "tlog c f wl = (let (r, w) = f (fst wl) in (r, w, snd wl @ [c]))"

definition trace_td :: "'w td_services \<Rightarrow> ('w \<times> td_call list) td_services" where
  \<comment> \<open>the same services, with the writes recorded\<close>
  "trace_td td = \<lparr>
     td_GetTarget = (\<lambda>ns n. lcall (td_GetTarget td ns n)), td_ListSchemas = (\<lambda>ns. lcall (td_ListSchemas td ns)),
     td_GetConnProfile = (\<lambda>ns n. lcall (td_GetConnProfile td ns n)),
     td_GetSyncProfile = (\<lambda>ns n. lcall (td_GetSyncProfile td ns n)),
     td_GetSecret = (\<lambda>ns n. lcall (td_GetSecret td ns n)),
     td_DeleteDeviation = (\<lambda>ns n. tlog (TDeleteDev ns n) (td_DeleteDeviation td ns n)),
     td_ApplyStatus = (\<lambda>n ns c r. tlog (TStatus c) (td_ApplyStatus td n ns c r)),
     td_PatchConditions = (\<lambda>t cs. tlog TPatch (td_PatchConditions td t cs)),
     td_ApplyFinalizers = (\<lambda>n ns fs. tlog (TFinalizers n ns fs) (td_ApplyFinalizers td n ns fs)),
     td_Event = (\<lambda>t r m w. (td_Event td t r m (fst w), snd w @ [TEvent]))\<rparr>"

definition log_ds :: "('p, 'w) dsclient \<Rightarrow> ('p, 'w \<times> td_call list) dsclient" where
  "log_ds d = (lift_ds d)\<lparr>d_DeleteDataStore := (\<lambda>n. tlog (TDeleteDS n) (d_DeleteDataStore d n))\<rparr>"

lemma trace_td_sel [simp]:
  "td_DeleteDeviation (trace_td td) ns n = tlog (TDeleteDev ns n) (td_DeleteDeviation td ns n)"
  "td_ApplyStatus (trace_td td) n ns c r = tlog (TStatus c) (td_ApplyStatus td n ns c r)"
  "td_ApplyFinalizers (trace_td td) n ns fs = tlog (TFinalizers n ns fs) (td_ApplyFinalizers td n ns fs)"
  "td_Event (trace_td td) t rs m wl = (td_Event td t rs m (fst wl), snd wl @ [TEvent])"
  "d_DeleteDataStore (log_ds d) n = tlog (TDeleteDS n) (d_DeleteDataStore d n)"
  by (simp_all add: trace_td_def log_ds_def)

definition status_calls :: "td_call list \<Rightarrow> bool" where
  "status_calls calls \<longleftrightarrow> list_all (\<lambda>c. case c of TStatus cond \<Rightarrow> \<not> IsTrue cond | TEvent \<Rightarrow> True | _ \<Rightarrow> False) calls"

lemma TargetNotReady_sel [simp]:
  "cStatus (TargetNotReady now r m) = ConditionFalse" "cType (TargetNotReady now r m) = ConditionTypeReady"
  "cReason (TargetNotReady now r m) = r"
  by (simp_all add: TargetNotReady_def NewCondition_def)

lemma not_true [simp]: "ConditionFalse \<noteq> ConditionTrue" "ConditionTrue \<noteq> ConditionFalse"
  by (simp_all add: ConditionTrue_def ConditionFalse_def)

lemma applyReady_calls:
  assumes "applyReady (trace_td td) target cond refs (w, log) = (err, (w', log'))" "\<not> IsTrue cond"
  shows "\<exists>calls. log' = log @ calls \<and> status_calls calls"
proof -
  let ?old = "GetCondition (t_conditions target) ConditionTypeReady"
  let ?c = "if cStatus ?old = cStatus cond \<and> cLastTransitionTime ?old \<noteq> 0
      then cond\<lparr>cLastTransitionTime := cLastTransitionTime ?old\<rparr> else cond"
  have "\<not> IsTrue ?c" using assms(2) by (simp add: IsTrue_def)
  then have "log' = log \<or> log' = log @ [TStatus ?c] \<or> log' = log @ [TEvent, TStatus ?c]"
    using assms(1) by (auto simp: applyReady_def tlog_def Let_def split: prod.splits option.splits if_splits)
  with \<open>\<not> IsTrue ?c\<close> show ?thesis
    by (elim disjE) (force simp: status_calls_def)+
qed

lemma retryDelete_calls:
  assumes "retryDelete now (trace_td td) target msg err (w, log) = (res, (w', log'))"
  shows "fst res = deleteRequeue \<and> (\<exists>calls. log' = log @ calls \<and> status_calls calls)"
proof -
  obtain aerr w1 l1 where a: "applyReady (trace_td td) target (TargetNotReady now ''Deleting'' (msg @ '': '' @ e_msg err))
      (t_usedReferences target) (w, log) = (aerr, (w1, l1))" by (rule prod_cases3)
  have "\<not> IsTrue (TargetNotReady now ''Deleting'' (msg @ '': '' @ e_msg err))" by (simp add: IsTrue_def)
  from applyReady_calls [OF a this] assms a show ?thesis by (auto simp: retryDelete_def)
qed

lemma status_calls_no_final: "status_calls calls \<Longrightarrow> TFinalizers n ns fs \<notin> set calls"
  by (induction calls) (auto simp: status_calls_def)

definition finalized ::
  "('p, 'w) dsclient option \<Rightarrow> 'w td_services \<Rightarrow> string \<Rightarrow> target \<Rightarrow> goerr option \<Rightarrow> 'w \<Rightarrow> td_call list \<Rightarrow> bool \<times> td_call list" where
  \<comment> \<open>after a stop with answer \<open>derr\<close>: whether nothing is left, and the calls, with \<open>st\<close> for the writes of a failure\<close>
  "finalized dsc td name target derr w st =
     (if derr \<noteq> None then (False, st)
      else case dsc of
        None \<Rightarrow> (False, st)
      | Some cl \<Rightarrow>
          (let (gone, w) = d_DeleteDataStore cl name w in
           if gone \<noteq> None \<and> \<not> isUnknownDatastoreErr gone then (False, TDeleteDS name # st)
           else if IgnoreNotFound (fst (td_DeleteDeviation td (m_namespace (t_meta target)) (m_name (t_meta target)) w)) \<noteq> None
           then (False, TDeleteDS name # TDeleteDev (m_namespace (t_meta target)) (m_name (t_meta target)) # st)
           else (True, [TDeleteDS name, TDeleteDev (m_namespace (t_meta target)) (m_name (t_meta target))]
             @ (if FinalizerExists (m_finalizers (t_meta target)) td_finalizer
                then [TFinalizers (m_name (t_meta target)) (m_namespace (t_meta target)) []] else []))))"

lemma reconcileDelete_after_stop:
  assumes few: "\<not> length (m_finalizers (t_meta target)) > 1"
    and stopped: "mg_Delete (te_keyString e) waiting key ((w, log), m) = (derr, (w1, log1), m1)"
    and env: "te_td e = trace_td td" "te_ds e = map_option log_ds dsc"
    and run: "reconcileDelete e waiting target key ((w, log), m) = (res, (w', log'), m')"
  shows "m' = m1 \<and> (\<exists>st. status_calls st
    \<and> log' = log1 @ snd (finalized dsc td (te_keyString e key) target derr w1 st)
    \<and> fst res = (if fst (finalized dsc td (te_keyString e key) target derr w1 st) then 0 else deleteRequeue))"
proof (cases derr)
  case (Some er)
  obtain res1 w2 l2 where r: "retryDelete (te_now e) (trace_td td) target ''cannot stop target runtime'' er (w1, log1)
      = (res1, (w2, l2))" by (rule prod_cases3)
  from retryDelete_calls [OF r] run few stopped Some env r show ?thesis by (auto simp: reconcileDelete_def finalized_def Let_def)
next
  case None
  let ?name = "te_keyString e key" and ?ns = "m_namespace (t_meta target)" and ?n = "m_name (t_meta target)"
  obtain ederr v lv where dd: "DeleteDatastore (te_keyString e) (te_ds e) key (w1, log1) = (ederr, (v, lv))"
    by (rule prod_cases3)
  show ?thesis
  proof (cases ederr)
    case (Some er)
    have lv: "lv = log1 @ snd (finalized dsc td ?name target None w1 [])" "\<not> fst (finalized dsc td ?name target None w1 [])"
      and more: "finalized dsc td ?name target None w1 st = (False, snd (finalized dsc td ?name target None w1 []) @ st)" for st
      using dd env Some
      by (auto simp: DeleteDatastore_def deleteDatastore_def tlog_def finalized_def split: option.splits prod.splits if_splits)
    obtain res1 w2 l2 where r: "retryDelete (te_now e) (trace_td td) target ''cannot delete datastore'' er (v, lv)
        = (res1, (w2, l2))" by (rule prod_cases3)
    obtain st where st: "l2 = lv @ st" "status_calls st" "fst res1 = deleteRequeue" using retryDelete_calls [OF r] by blast
    have "res = res1" "log' = l2" "m' = m1"
      using run few stopped None env r dd Some by (auto simp: reconcileDelete_def Let_def)
    with lv st None more [of st] show ?thesis by (intro conjI exI [of _ st]) simp_all
  next
    case ok: None
    then obtain cl where cl: "dsc = Some cl" using dd env by (cases dsc) (auto simp: DeleteDatastore_def)
    have lv: "lv = log1 @ [TDeleteDS ?name]" "v = snd (d_DeleteDataStore cl ?name w1)"
      "\<not> (fst (d_DeleteDataStore cl ?name w1) \<noteq> None \<and> \<not> isUnknownDatastoreErr (fst (d_DeleteDataStore cl ?name w1)))"
      using dd env cl ok
      by (auto simp: DeleteDatastore_def deleteDatastore_def tlog_def split: option.splits prod.splits if_splits)
    obtain verr u lu where dv: "td_deleteDeviation (trace_td td) target (v, lv) = (verr, (u, lu))" by (rule prod_cases3)
    have lu: "lu = lv @ [TDeleteDev ?ns ?n]" "verr = None \<longleftrightarrow> IgnoreNotFound (fst (td_DeleteDeviation td ?ns ?n v)) = None"
      using dv by (auto simp: td_deleteDeviation_def tlog_def split: option.splits prod.splits if_splits)
    have fin: "finalized dsc td ?name target None w1 st =
        (if verr \<noteq> None then (False, TDeleteDS ?name # TDeleteDev ?ns ?n # st)
         else (True, [TDeleteDS ?name, TDeleteDev ?ns ?n] @ (if FinalizerExists (m_finalizers (t_meta target)) td_finalizer
                then [TFinalizers ?n ?ns []] else [])))" for st
      unfolding finalized_def cl option.case Let_def split_beta lu(2) lv(2) using lv(3) by auto
    show ?thesis
    proof (cases verr)
      case (Some er)
      obtain res1 w2 l2 where r: "retryDelete (te_now e) (trace_td td) target ''cannot delete deviation'' er (u, lu)
          = (res1, (w2, l2))" by (rule prod_cases3)
      obtain st where st: "l2 = lu @ st" "status_calls st" "fst res1 = deleteRequeue" using retryDelete_calls [OF r] by blast
      have "res = res1" "log' = l2" "m' = m1"
        using run few stopped None env r dd dv ok Some by (auto simp: reconcileDelete_def Let_def)
      with lv lu st None fin Some show ?thesis by (intro conjI exI [of _ st]) simp_all
    next
      case gone: None
      obtain ferr x lx where f: "RemoveFinalizer td_finalizer (td_ApplyFinalizers (trace_td td)) (t_meta target) (u, lu) = (ferr, (x, lx))" by (rule prod_cases3)
      have lx: "lx = lu @ (if FinalizerExists (m_finalizers (t_meta target)) td_finalizer then [TFinalizers ?n ?ns []] else [])"
        using f by (auto simp: RemoveFinalizer_def tlog_def split: prod.splits if_splits)
      have "log' = lx" "m' = m1" "fst res = 0"
        using run few stopped None env dd dv ok gone f
        by (auto simp: reconcileDelete_def Let_def split: option.splits)
      with lx lv lu None fin gone show ?thesis by (intro conjI exI [of _ "[]"]) (simp_all add: status_calls_def)
    qed
  qed
qed


definition sample_td :: "nat td_services" where
  "sample_td = \<lparr>td_GetTarget = (\<lambda>ns n w. (Inr sample_target, w)), td_ListSchemas = (\<lambda>ns w. (Inr [], w)),
     td_GetConnProfile = (\<lambda>ns n w. (Inr DefaultTargetConnectionProfile, w)),
     td_GetSyncProfile = (\<lambda>ns n w. (Inr DefaultTargetSyncProfile, w)),
     td_GetSecret = (\<lambda>ns n w. (Inr \<lparr>sec_resourceVersion = ''1'', sec_data = []\<rparr>, w)),
     td_DeleteDeviation = (\<lambda>ns n w. (None, w)), td_ApplyStatus = (\<lambda>n ns c r w. (None, w)),
     td_PatchConditions = (\<lambda>t cs w. (None, w)), td_ApplyFinalizers = (\<lambda>n ns fs w. (None, w)),
     td_Event = (\<lambda>t r m w. w)\<rparr>"

definition sample_td_env :: "(string, nat \<times> td_call list) td_env" where
  "sample_td_env = \<lparr>te_td = trace_td sample_td, te_ds = map_option log_ds (Some sample_ds),
     te_keyString = (\<lambda>k. fst k @ ''.'' @ snd k), te_now = 7, te_json = (\<lambda>r. []), te_showDI = (\<lambda>d. ''nil''), te_sha256hex = (\<lambda>s. s)\<rparr>"

definition no_events :: "(string, path_subs gomap, nat \<times> td_call list) mg_event list" where
  "no_events = []"

definition sample_final :: target where
  "sample_final = sample_target\<lparr>t_meta := (t_meta sample_target)\<lparr>m_finalizers := [td_finalizer]\<rparr>\<rparr>"


end
