(* ===== verification/TargetLifecycle.thy ===== *)
theory TargetLifecycle
  imports TargetDatastore
begin

text \<open>
  The target datastore controller, the registry of runtimes and the run loop together: what a
  reconcile leaves in the runtime of its target, and where the next pass of the loop takes it when
  the data-server works.
\<close>

section \<open>A working environment\<close>

definition acceptable :: "goerr option \<Rightarrow> bool" where
  \<comment> \<open>a probe or a delete may find no datastore\<close>
  "acceptable err \<longleftrightarrow> err = None \<or> isUnknownDatastoreErr err"

definition healthy :: "('p, 's, 'w) rt_env \<Rightarrow> ('p, 'w) dsclient \<Rightarrow> bool" where
  "healthy e cl \<longleftrightarrow> en_client e = Some cl
     \<and> (\<forall>n w. acceptable (fst (d_GetDataStore cl n w))) \<and> (\<forall>n w. acceptable (fst (d_DeleteDataStore cl n w)))
     \<and> (\<forall>q w. fst (d_CreateDataStore cl q w) = None)
     \<and> (\<forall>w t. fst (recoverConfigs e cl (w, t)) = None)"

lemma healthyD:
  assumes "healthy e cl"
  shows "en_client e = Some cl" "d_GetDataStore cl n w = (err, w') \<Longrightarrow> err = None \<or> isUnknownDatastoreErr err"
    and "d_DeleteDataStore cl n w = (err, w') \<Longrightarrow> err = None \<or> isUnknownDatastoreErr err"
    and "d_CreateDataStore cl q w = (err, w') \<Longrightarrow> err = None"
    and "recoverConfigs e cl (w, t) = (err, wt') \<Longrightarrow> err = None"
  using assms unfolding healthy_def acceptable_def by (metis fst_conv)+

section \<open>One pass in it\<close>

lemma ensureDatastore_healthy:
  assumes "healthy e cl"
  shows "\<exists>w' t'. ensureDatastore e cl req (w, t) = (None, w', t')"
proof -
  let ?n = "en_keyString e (rt_key t)"
  obtain gerr w1 where g: "d_GetDataStore cl ?n w = (gerr, w1)" by (metis surj_pair)
  obtain derr w2 where d: "d_DeleteDataStore cl ?n w1 = (derr, w2)" by (metis surj_pair)
  obtain c1 w3 where c1: "d_CreateDataStore cl req w1 = (c1, w3)" by (metis surj_pair)
  obtain c2 w4 where c2: "d_CreateDataStore cl req w2 = (c2, w4)" by (metis surj_pair)
  note h = healthyD(2) [OF assms g] healthyD(3) [OF assms d] healthyD(4) [OF assms c1] healthyD(4) [OF assms c2]
  show ?thesis
  proof (cases gerr)
    case None
    with g d c2 h show ?thesis by (cases derr) (auto simp: ensureDatastore_def Let_def)
  next
    case (Some er)
    with g c1 h show ?thesis by (auto simp: ensureDatastore_def Let_def)
  qed
qed

lemma reconcile_recover_healthy:
  assumes h: "healthy e cl" and latch: "recoveryLatched t = None"
    and run: "reconcile_recover e cl req (w, t) = (w', t')"
  shows "rt_phase t' = PhaseRunning"
proof (cases "rt_recovered t")
  case True
  with run have "reconcile_running e req (w, t) = (w', t')" by (simp add: reconcile_recover_def)
  from reconcile_running_outcome [OF this] show ?thesis by simp
next
  case False
  obtain err w1 t1 where r: "recoverConfigs e cl (w, setPhase PhaseRecovering None t) = (err, w1, t1)"
    by (metis prod_cases3)
  with healthyD(5) [OF h r] False latch run have "reconcile_running e req (w1, t1) = (w', t')"
    by (simp add: reconcile_recover_def)
  from reconcile_running_outcome [OF this] show ?thesis by simp
qed

lemma reconcile_body_healthy:
  assumes h: "healthy e cl" and t: "rt_desired t = Some req" "rt_dsReady t" "recoveryLatched t = None"
    and run: "reconcile_body e (\<lambda>t. t) (w, t) = (w', t')"
  shows "rt_phase t' = PhaseRunning"
proof -
  let ?t = "if rt_phase t \<noteq> PhaseRunning then setPhase PhaseEnsuringDatastore None t else t"
  obtain w1 t1 where d: "ensureDatastore e cl req (w, ?t) = (None, w1, t1)"
    using ensureDatastore_healthy [OF h] by blast
  from ensureDatastore_outcome [OF d] t(3) have "recoveryLatched t1 = None" by (auto split: if_splits)
  moreover from run t d healthyD(1) [OF h] have "reconcile_recover e cl req (w1, t1) = (w', t')"
    by (auto simp: reconcile_body_def Let_def)
  ultimately show ?thesis by (rule reconcile_recover_healthy [OF h])
qed

lemma interfering_None: "interfering None = (\<lambda>t. t)"
  by (simp add: interfering_def fun_eq_iff)

lemma notify_sel [simp]:
  "rt_phase (notifyIfChanged t) = rt_phase t" "rt_runningHash (notifyIfChanged t) = rt_runningHash t"
  "rt_lastNotified (notifyIfChanged t) = Some (rt_Status t)" "rt_Status (notifyIfChanged t) = rt_Status t"
  by (simp_all add: notifyIfChanged_def rt_Status_def Let_def)

lemma pass_healthy:
  assumes h: "healthy e cl" and r: "rt_looping r" "rt_desired r = Some req" "recoveryLatched r = None"
    "rt_desiredHash r \<noteq> []"
    and run: "run_ops rt_step [RtDsEvent True None, RtPass e None] (w, r) = (w', r')"
  shows "rt_phase r' = PhaseRunning \<and> rt_runningHash r' = rt_desiredHash r
    \<and> rt_lastNotified r' = Some (rt_Status r')"
proof -
  let ?t = "(rt_wake (setDSReady True None r))\<lparr>rt_wakeCh := False\<rparr>"
  have t: "rt_desired ?t = Some req" "rt_dsReady ?t" "recoveryLatched ?t = None" "rt_desiredHash ?t = rt_desiredHash r"
    using r by (auto simp: setDSReady_def rt_wake_def recoveryLatched_def recoveryKey_def Let_def split: if_splits)
  obtain w1 t1 where b: "reconcile_body e (\<lambda>t. t) (w, ?t) = (w1, t1)" by (metis surj_pair)
  have "r' = notifyIfChanged t1"
    using run r(1) b by (simp add: run_ops_def interfering_None reconcileOnce_def)
  with reconcile_body_healthy [OF h t(1-3) b] reconcile_body_outcome [OF b] t(4) r(4) show ?thesis by simp
qed

section \<open>What a reconcile leaves in the runtime\<close>

definition armed :: "ds_request \<Rightarrow> used_refs \<Rightarrow> string \<Rightarrow> string \<Rightarrow> 's runtime \<Rightarrow> bool" where
  "armed req refs hash token r \<longleftrightarrow> rt_looping r \<and> rt_wakeCh r \<and> rt_desired r = Some req
     \<and> rt_desiredRefs r = Some refs \<and> rt_desiredHash r = hash \<and> rt_recoveryToken r = token"

lemma armed_set:
  assumes "rt_inv r" "\<not> rt_done r"
  shows "armed req refs hash token (SetDesired (Some req) (Some refs) hash (Start (SetRecoveryRetryToken token r)))"
  using assms
  by (auto simp: armed_def rt_inv_def SetDesired_def Start_def SetRecoveryRetryToken_def rt_wake_def Let_def)

lemma set_latch:
  "rt_failedKey (SetDesired d u h (Start (SetRecoveryRetryToken token r))) = rt_failedKey r"
  by (simp add: SetDesired_def Start_def SetRecoveryRetryToken_def rt_wake_def Let_def)

lemma apply_desired_armed:
  fixes m :: "'s manager"
  assumes inv: "mg_inv m" and live: "\<And>i. map_of (mg_targets m) key = Some i \<Longrightarrow> \<not> rt_done (mg_heap m ! i)"
    and m': "m' = ApplyDesired s0 key (Some req) (Some refs) hash (mg_SetRecoveryRetryToken s0 key token m)"
  obtains i where "map_of (mg_targets m') key = Some i" "i < length (mg_heap m')"
    "armed req refs hash token (mg_heap m' ! i)"
    "rt_failedKey (mg_heap m' ! i) = (case map_of (mg_targets m) key of None \<Rightarrow> [] | Some j \<Rightarrow> rt_failedKey (mg_heap m ! j))"
proof -
  obtain i m1 where g: "GetOrCreate s0 key m = (i, m1)" by (metis surj_pair)
  have m1: "map_of (mg_targets m1) key = Some i" "i < length (mg_heap m1)" "rt_inv (mg_heap m1 ! i)"
      "\<not> rt_done (mg_heap m1 ! i)"
      "rt_failedKey (mg_heap m1 ! i) = (case map_of (mg_targets m) key of None \<Rightarrow> [] | Some j \<Rightarrow> rt_failedKey (mg_heap m ! j))"
  proof -
    have new: "rt_inv (NewTargetRuntime key s0)" "\<not> rt_done (NewTargetRuntime key s0)"
      "rt_failedKey (NewTargetRuntime key s0) = []"
      by (simp_all add: rt_inv_def NewTargetRuntime_def)
    show "map_of (mg_targets m1) key = Some i" "i < length (mg_heap m1)" "rt_inv (mg_heap m1 ! i)"
      "\<not> rt_done (mg_heap m1 ! i)"
      "rt_failedKey (mg_heap m1 ! i) = (case map_of (mg_targets m) key of None \<Rightarrow> [] | Some j \<Rightarrow> rt_failedKey (mg_heap m ! j))"
      using g new mg_invD(1,3) [OF inv] live
      by (auto simp: GetOrCreate_def AList.update_conv' split: option.splits)
  qed
  let ?r = "SetDesired (Some req) (Some refs) hash (Start (SetRecoveryRetryToken token (mg_heap m1 ! i)))"
  have "map_of (mg_targets m') key = Some i" "i < length (mg_heap m')" "mg_heap m' ! i = ?r"
    using m1(1,2) g by (simp_all add: m' ApplyDesired_def mg_SetRecoveryRetryToken_def GetOrCreate_def upd_rt_def)
  with armed_set [OF m1(3,4)] set_latch m1(5) that [of i] show thesis by metis
qed

lemma pipeline_arms:
  assumes stages: "IsTrue (GetCondition (t_conditions target) ConditionTypeTargetDiscoveryReady)"
      "isSchemaReady (te_td e) target w = (Inr (True, msg), w1)"
      "getCreateDataStoreRequest (te_showDI e) (te_keyString e) (te_td e) target w1 = (Inr (req, refs), w2)"
    and inv: "mg_inv m" and live: "\<And>i. map_of (mg_targets m) key = Some i \<Longrightarrow> \<not> rt_done (mg_heap m ! i)"
    and run: "reconcile_pipeline e s0 target key (w, m) = (res, w3, m3)"
  obtains i where "map_of (mg_targets m3) key = Some i" "i < length (mg_heap m3)"
    "armed req refs (ComputeCreateDSHash (te_json e) (te_sha256hex e) (Some req) (Some refs))
       (gm_index [] (m_annotations (t_meta target)) AnnotationRecoveryRetry) (mg_heap m3 ! i)"
    "rt_failedKey (mg_heap m3 ! i) = (case map_of (mg_targets m) key of None \<Rightarrow> [] | Some j \<Rightarrow> rt_failedKey (mg_heap m ! j))"
    "fst res = fst (snd (readyFromRuntime (te_now e) (rt_Status (mg_heap m3 ! i))))"
proof -
  let ?token = "gm_index [] (m_annotations (t_meta target)) AnnotationRecoveryRetry"
  let ?hash = "ComputeCreateDSHash (te_json e) (te_sha256hex e) (Some req) (Some refs)"
  let ?m = "ApplyDesired s0 key (Some req) (Some refs) ?hash (mg_SetRecoveryRetryToken s0 key ?token m)"
  obtain i where i: "map_of (mg_targets ?m) key = Some i" "i < length (mg_heap ?m)"
      "armed req refs ?hash ?token (mg_heap ?m ! i)"
      "rt_failedKey (mg_heap ?m ! i) = (case map_of (mg_targets m) key of None \<Rightarrow> [] | Some j \<Rightarrow> rt_failedKey (mg_heap m ! j))"
    by (rule apply_desired_armed [OF inv live refl])
  have "m3 = ?m \<and> fst res = fst (snd (readyFromRuntime (te_now e) (rt_Status (mg_heap ?m ! i))))"
    using run stages i(1)
    by (auto simp: reconcile_pipeline_def GetOrCreate_def Let_def split: prod.splits)
  with i that show thesis by metis
qed

lemma requeue_zero:
  "fst (snd (readyFromRuntime now st)) = 0 \<longleftrightarrow> rs_phase st = PhaseRunning \<or> rs_phase st = PhaseRecoveryFailed"
  by (simp add: readyFromRuntime_def fallbackRequeue_def split: phase.split)

lemma ready_running:
  "rs_phase st = PhaseRunning \<Longrightarrow>
     readyFromRuntime now st = (TargetReady now (rs_recoveryMsg st), 0, True)"
  by (simp add: readyFromRuntime_def)

lemma mg_runtime_step:
  assumes "i < length (mg_heap m)"
  shows "mg_heap (snd (mg_step s0 (MgRuntime i ev) (w, m))) = (mg_heap m)[i := snd (rt_step ev (w, mg_heap m ! i))]"
    "fst (mg_step s0 (MgRuntime i ev) (w, m)) = fst (rt_step ev (w, mg_heap m ! i))"
  using assms by (simp_all add: split_beta)

lemma mg_runtime_run:
  assumes "i < length (mg_heap m)"
  shows "mg_heap (snd (run_ops (mg_step s0) (map (MgRuntime i) evs) (w, m))) ! i = snd (run_ops rt_step evs (w, mg_heap m ! i))"
  using assms
proof (induction evs arbitrary: w m)
  case (Cons ev evs)
  obtain w1 m1 where s: "mg_step s0 (MgRuntime i ev) (w, m) = (w1, m1)" by (metis surj_pair)
  have "mg_heap m1 ! i = snd (rt_step ev (w, mg_heap m ! i))" "w1 = fst (rt_step ev (w, mg_heap m ! i))"
    "i < length (mg_heap m1)"
    using mg_runtime_step [OF Cons.prems, of s0 ev w] s Cons.prems by simp_all
  with Cons.IH [of m1 w1] s show ?case by (simp add: run_ops_def)
qed (simp add: run_ops_def)

end
