(* ===== verification/RuntimePass.thy ===== *)
theory RuntimePass
  imports TargetManager
begin

text \<open>
  The pass of the run loop (\<open>reconcileOnce\<close> of \<open>pkg/sdc/target/manager/runtime.go\<close>) as the other
  goroutines see it. The pass blocks in calls on the data-server and the API server, and between two
  of its critical sections every other goroutine can read the status, hand out the datastore or
  change what is desired. Here it is therefore a program counter (\<open>pass_pc\<close>, with the local variables
  of the code as arguments) and a step per critical section that writes to the runtime and per block of
  calls. Reads are merged with the next write only where the field is written by the run loop
  alone (phase, readiness, running hash, watcher, collector, the latch) or where the order does not
  show. \<open>pass_is_its_steps\<close> proves that the steps, when nothing happens between them, are \<open>reconcileOnce\<close>;
  \<open>runtime_safe_for_all_events\<close> holds in all states in between.
\<close>

section \<open>Program counter and steps\<close>

datatype ('p, 'w) pass_pc =
  PcIdle                            \<comment> \<open>in the \<open>select\<close> of \<open>run\<close>\<close>
| PcStart                           \<comment> \<open>a wake was taken\<close>
| PcNilStop                         \<comment> \<open>nothing desired: before \<open>stopRuntime\<close>\<close>
| PcNilCheck                        \<comment> \<open>\<open>ensureDatastoreDeleted\<close>: before its checks\<close>
| PcNilDelete "('p, 'w) dsclient"   \<comment> \<open>before the \<open>DeleteDataStore\<close> call\<close>
| PcNilReady "goerr option"         \<comment> \<open>before \<open>setDatastoreReady(false)\<close>\<close>
| PcNilHash "goerr option"          \<comment> \<open>before \<open>setRunningHash("")\<close>, or the phase of the failure\<close>
| PcNilRecovered                    \<comment> \<open>before \<open>setRecovered(false)\<close>\<close>
| PcNilPending                      \<comment> \<open>before the phase \<open>Pending\<close>\<close>
| PcReady ds_request                \<comment> \<open>before \<open>isDSReady\<close> and the phase it leads to\<close>
| PcWaitStop                        \<comment> \<open>data-server down: before \<open>stopRuntime\<close>\<close>
| PcClient ds_request               \<comment> \<open>before \<open>ds.Client()\<close>\<close>
| PcHash ds_request "('p, 'w) dsclient"          \<comment> \<open>\<open>ensureDatastore\<close>: before \<open>getDesiredHash\<close>\<close>
| PcProbe ds_request "('p, 'w) dsclient" string  \<comment> \<open>before \<open>GetDataStore\<close>\<close>
| PcProbed ds_request "('p, 'w) dsclient" string "goerr option"
| PcReplace ds_request "('p, 'w) dsclient" string       \<comment> \<open>before \<open>stopRuntime\<close>\<close>
| PcDelete ds_request "('p, 'w) dsclient" string        \<comment> \<open>before \<open>DeleteDataStore\<close>\<close>
| PcCreate string ds_request "('p, 'w) dsclient" string \<comment> \<open>before \<open>CreateDataStore\<close>\<close>
| PcSetHash ds_request "('p, 'w) dsclient" string
| PcSetReady ds_request "('p, 'w) dsclient"
| PcSetFresh ds_request "('p, 'w) dsclient"      \<comment> \<open>before \<open>setRecovered(false)\<close>\<close>
| PcKnown ds_request "('p, 'w) dsclient"         \<comment> \<open>exists and matches: before \<open>setDatastoreReady(true)\<close>\<close>
| PcRecovered ds_request "('p, 'w) dsclient"     \<comment> \<open>before \<open>isRecovered\<close>\<close>
| PcLatch ds_request "('p, 'w) dsclient"         \<comment> \<open>before \<open>recoveryLatched\<close> and the phase it leads to\<close>
| PcTarget ds_request "('p, 'w) dsclient"        \<comment> \<open>\<open>recoverConfigs\<close>: before the Target is read\<close>
| PcReplay ds_request "('p, 'w) dsclient" target \<comment> \<open>before the list and the transaction\<close>
| PcFailedStatus ds_request target string goerr  \<comment> \<open>before the conditions of the failure\<close>
| PcMark ds_request target                       \<comment> \<open>before \<open>MarkRecovered(true)\<close>\<close>
| PcReadyStatus ds_request target                \<comment> \<open>before the conditions of the success\<close>
| PcResult ds_request "string option" "goerr option"  \<comment> \<open>before \<open>setRecoveryResult\<close>\<close>
| PcFailed goerr                    \<comment> \<open>recovery failed: before the latch or the phase\<close>
| PcFailedPhase goerr               \<comment> \<open>latched: before the phase\<close>
| PcRetry                           \<comment> \<open>before \<open>wakeAfter\<close>\<close>
| PcRun ds_request                  \<comment> \<open>before \<open>ensureRuntime\<close> and the phase \<open>Running\<close>\<close>
| PcCollector ds_request            \<comment> \<open>before \<open>reconcileCollector\<close>\<close>
| PcDegraded "goerr option"         \<comment> \<open>before the phase \<open>Degraded\<close>\<close>
| PcNotify                          \<comment> \<open>the deferred \<open>notifyIfChanged\<close>\<close>

fun pass_step ::
  "('p, 's, 'w) rt_env \<Rightarrow> ('p, 'w) pass_pc \<times> 'w \<times> 's runtime \<Rightarrow> ('p, 'w) pass_pc \<times> 'w \<times> 's runtime" where
  "pass_step e (PcIdle, w, t) = (PcIdle, w, t)"
| "pass_step e (PcStart, w, t) = (case rt_desired t of None \<Rightarrow> PcNilStop | Some req \<Rightarrow> PcReady req, w, t)"
| "pass_step e (PcNilStop, w, t) = (PcNilCheck, w, stopRuntime t)"
| "pass_step e (PcNilCheck, w, t) =
     (if \<not> rt_dsReady t then PcNilReady None
      else case en_client e of None \<Rightarrow> PcNilReady None | Some cl \<Rightarrow> PcNilDelete cl, w, t)"
| "pass_step e (PcNilDelete cl, w, t) =
     (let (err, w) = d_DeleteDataStore cl (en_keyString e (rt_key t)) w in
      (PcNilReady (if isUnknownDatastoreErr err then None else err), w, t))"
| "pass_step e (PcNilReady err, w, t) = (PcNilHash err, w, setDatastoreReady False t)"
| "pass_step e (PcNilHash err, w, t) =
     (PcNilRecovered, w, case err of None \<Rightarrow> setRunningHash [] t
        | Some er \<Rightarrow> setPhase PhaseDegraded
            (Some (err_wrap (''delete datastore '' @ go_quote (en_keyString e (rt_key t))) er)) t)"
| "pass_step e (PcNilRecovered, w, t) = (PcNilPending, w, setRecovered False t)"
| "pass_step e (PcNilPending, w, t) =
     (PcNotify, w, if rt_desired t = None \<and> rt_phase t \<noteq> PhaseDegraded then setPhase PhasePending None t else t)"
| "pass_step e (PcReady req, w, t) =
     (if \<not> rt_dsReady t then (PcWaitStop, w, setPhase PhaseWaitingForDS (rt_lastError t) t)
      else (PcClient req, w, if rt_phase t \<noteq> PhaseRunning then setPhase PhaseEnsuringDatastore None t else t))"
| "pass_step e (PcWaitStop, w, t) = (PcNotify, w, stopRuntime t)"
| "pass_step e (PcClient req, w, t) =
     (case en_client e of
        None \<Rightarrow> (PcNotify, w, setPhase PhaseWaitingForDS (Some (err_new ''dataserver client nil'')) t)
      | Some cl \<Rightarrow> (PcHash req cl, w, t))"
| "pass_step e (PcHash req cl, w, t) = (PcProbe req cl (rt_desiredHash t), w, t)"
| "pass_step e (PcProbe req cl want, w, t) =
     (let (err, w) = d_GetDataStore cl (en_keyString e (rt_key t)) w in (PcProbed req cl want err, w, t))"
| "pass_step e (PcProbed req cl want perr, w, t) =
     (case perr of
        Some err \<Rightarrow>
          if isUnknownDatastoreErr (Some err)
          then (PcCreate ''create datastore '' req cl want, w, setPhase PhaseEnsuringDatastore None t)
          else (PcDegraded (Some (err_wrap (''get datastore '' @ go_quote (en_keyString e (rt_key t))) err)), w,
            setDatastoreReady False t)
      | None \<Rightarrow>
          if rt_runningHash t \<noteq> [] \<and> want \<noteq> [] \<and> rt_runningHash t \<noteq> want
          then (PcReplace req cl want, w, setPhase PhaseEnsuringDatastore None t)
          else (PcKnown req cl, w, if rt_runningHash t = [] then setRunningHash want t else t))"
| "pass_step e (PcReplace req cl want, w, t) = (PcDelete req cl want, w, stopRuntime t)"
| "pass_step e (PcDelete req cl want, w, t) =
     (let name = en_keyString e (rt_key t); (derr, w) = d_DeleteDataStore cl name w in
      (if derr \<noteq> None \<and> \<not> isUnknownDatastoreErr derr
       then PcDegraded (Some (err_wrap (''delete datastore '' @ go_quote name) (the derr)))
       else PcCreate ''recreate datastore '' req cl want, w, t))"
| "pass_step e (PcCreate what req cl want, w, t) =
     (case d_CreateDataStore cl req w of
        (Some err, w) \<Rightarrow> (PcDegraded (Some (err_wrap (what @ go_quote (en_keyString e (rt_key t))) err)), w, t)
      | (None, w) \<Rightarrow> (PcSetHash req cl want, w, t))"
| "pass_step e (PcSetHash req cl want, w, t) = (PcSetReady req cl, w, setRunningHash want t)"
| "pass_step e (PcSetReady req cl, w, t) = (PcSetFresh req cl, w, setDatastoreReady True t)"
| "pass_step e (PcSetFresh req cl, w, t) = (PcRecovered req cl, w, setRecovered False t)"
| "pass_step e (PcKnown req cl, w, t) = (PcRecovered req cl, w, setDatastoreReady True t)"
| "pass_step e (PcRecovered req cl, w, t) = (if rt_recovered t then PcRun req else PcLatch req cl, w, t)"
| "pass_step e (PcLatch req cl, w, t) =
     (case recoveryLatched t of
        Some failErr \<Rightarrow> (PcNotify, w, setPhase PhaseRecoveryFailed (Some failErr) t)
      | None \<Rightarrow> (PcTarget req cl, w, setPhase PhaseRecovering None t))"
| "pass_step e (PcTarget req cl, w, t) =
     (if \<not> en_transactor e then (PcFailed (err_new ''no transactor configured''), w, t)
      else case k_GetTarget (en_k8s e) (fst (rt_key t)) (snd (rt_key t)) w of
        (Inl err, w) \<Rightarrow> (PcFailed (err_wrap ''get target'' err), w, t)
      | (Inr tg, w) \<Rightarrow> (PcReplay req cl tg, w, t))"
| "pass_step e (PcReplay req cl tg, w, t) =
     (case ListConfigsPerTarget (en_k8s e) tg w of
        (Inl err, w) \<Rightarrow> (PcResult req None (Some err), w, t)
      | (Inr items, w) \<Rightarrow>
          (let ((msg, err), w) = recoverIntents (en_parse e) (en_revertive e) cl
                 (en_keyString e (m_namespace (t_meta tg), m_name (t_meta tg)))
                 (filter (\<lambda>c. st_appliedConfig (c_status c) \<noteq> None) items) w in
           (case err of Some er \<Rightarrow> PcFailedStatus req tg msg er | None \<Rightarrow> PcMark req tg, w, t)))"
| "pass_step e (PcFailedStatus req tg msg er, w, t) =
     (let (serr, w) = setRecoveredConfigs (en_k8s e) (en_fieldManager e) tg
            (\<lambda>cfg. ConfigFailed (en_now e) (m_generation (c_meta cfg)) msg) w in
      (PcResult req (Some msg) (case serr of None \<Rightarrow> Some er | Some se \<Rightarrow> Some se), w, t))"
| "pass_step e (PcMark req tg, w, t) = (PcReadyStatus req tg, w, setRecovered True t)"
| "pass_step e (PcReadyStatus req tg, w, t) =
     (let (serr, w) = setRecoveredConfigs (en_k8s e) (en_fieldManager e) tg
            (\<lambda>cfg. ConfigReady (en_now e) (m_generation (c_meta cfg)) ''target recovered'') w in
      (PcResult req None serr, w, t))"
| "pass_step e (PcResult req msg err, w, t) =
     (case err of
        Some er \<Rightarrow> (PcFailed er, w, setRecoveryResult [] (Some er) t)
      | None \<Rightarrow> (PcRun req, w, setRecoveryResult (case msg of None \<Rightarrow> [] | Some m \<Rightarrow> m) None t))"
| "pass_step e (PcFailed er, w, t) =
     (if e_tx er = Some False then (PcFailedPhase er, w, latchRecoveryFailure er t)
      else (PcRetry, w, setPhase PhaseRecovering (Some er) t))"
| "pass_step e (PcFailedPhase er, w, t) = (PcNotify, w, setPhase PhaseRecoveryFailed (Some er) t)"
| "pass_step e (PcRetry, w, t) = (PcNotify, w, wakeAfter t)"
| "pass_step e (PcRun req, w, t) =
     (let (err, t) = ensureRuntime t in
      if err \<noteq> None then (PcDegraded err, w, t) else (PcCollector req, w, setPhase PhaseRunning None t))"
| "pass_step e (PcCollector req, w, t) = (PcNotify, w, reconcileCollector e (Some req) t)"
| "pass_step e (PcDegraded err, w, t) = (PcNotify, w, setPhase PhaseDegraded err t)"
| "pass_step e (PcNotify, w, t) = (PcIdle, w, notifyIfChanged t)"

section \<open>The steps of an undisturbed pass\<close>

definition ends ::
  "('p, 's, 'w) rt_env \<Rightarrow> ('p, 'w) pass_pc \<times> 'w \<times> 's runtime \<Rightarrow> 'w \<times> 's runtime \<Rightarrow> bool" where
  "ends e s u \<longleftrightarrow> (\<exists>n. (pass_step e ^^ n) s = (PcIdle, u))"

lemma pass_idle: "(pass_step e ^^ n) (PcIdle, u) = (PcIdle, u)"
proof (induction n)
  case (Suc n)
  then show ?case by (cases u) simp
qed simp

lemma ends_idle: "ends e (PcIdle, u') u \<longleftrightarrow> u' = u"
  by (simp add: ends_def pass_idle)

lemma ends_step: "fst s \<noteq> PcIdle \<Longrightarrow> ends e s u \<longleftrightarrow> ends e (pass_step e s) u"
proof
  assume s: "fst s \<noteq> PcIdle" and "ends e s u"
  then obtain n where n: "(pass_step e ^^ n) s = (PcIdle, u)" by (auto simp: ends_def)
  with s obtain m where "n = Suc m" by (cases n) auto
  with n have "(pass_step e ^^ m) (pass_step e s) = (PcIdle, u)" by (simp add: funpow_swap1)
  then show "ends e (pass_step e s) u" by (auto simp: ends_def)
next
  assume "ends e (pass_step e s) u"
  then obtain n where "(pass_step e ^^ Suc n) s = (PcIdle, u)" by (auto simp: ends_def funpow_swap1)
  then show "ends e s u" unfolding ends_def by blast
qed

lemma lift_for_err:
  assumes f': "f' = (\<lambda>x. lcall (f x))"
  shows "for_err f' xs = lcall (for_err f xs)"
proof (rule ext)
  show "for_err f' xs wx = lcall (for_err f xs) wx" for wx
    by (induction xs arbitrary: wx) (auto simp: f' then_err_def lcall_def Let_def split: prod.splits option.splits)
qed

lemma lift_list: "ListConfigsPerTarget (lift_k8s k) tg = lcall (ListConfigsPerTarget k tg)"
  by (simp add: fun_eq_iff ListConfigsPerTarget_def lcall_def)

lemma lift_applyStatus: "applyStatus (lift_k8s k) fm c d = lcall (applyStatus k fm c d)"
  by (simp add: fun_eq_iff applyStatus_eq lcall_def)

lemma lift_setRecovered: "setRecoveredConfigs (lift_k8s k) fm tg cond = lcall (setRecoveredConfigs k fm tg cond)"
proof -
  have loop: "for_err (\<lambda>c w. case mutate (with_devgen None c) of None \<Rightarrow> (None, w)
        | Some desired \<Rightarrow> applyStatus (lift_k8s k) fm c desired w) items
    = lcall (for_err (\<lambda>c w. case mutate (with_devgen None c) of None \<Rightarrow> (None, w)
        | Some desired \<Rightarrow> applyStatus k fm c desired w) items)" for mutate items
    by (rule lift_for_err) (auto simp: fun_eq_iff lift_applyStatus lcall_def split: option.splits)
  have "updateConfigsForTarget (lift_k8s k) fm tg mutate wx = lcall (updateConfigsForTarget k fm tg mutate) wx"
    for mutate and wx :: "'a \<times> 'b"
    by (auto simp: updateConfigsForTarget_def lift_list loop lcall_def Let_def split: prod.splits sum.splits)
  then show ?thesis by (simp add: setRecoveredConfigs_def fun_eq_iff)
qed

lemma lift_recoverIntents: "recoverIntents parse env (lift_ds d) key cs = lcall (recoverIntents parse env d key cs)"
  by (auto simp: fun_eq_iff recoverIntents_def TransactionSet_def lcall_def Let_def
      split: prod.splits sum.splits option.splits)

lemmas lifts = lift_list lift_setRecovered lift_recoverIntents

section \<open>A pass is its steps\<close>

lemma ends_notify: "ends e (PcNotify, w, t) u \<longleftrightarrow> (w, notifyIfChanged t) = u"
  by (simp add: ends_step ends_idle)

lemma ends_run: "ends e (PcRun req, w, t) u \<longleftrightarrow> apsnd notifyIfChanged (reconcile_running e req (w, t)) = u"
  by (auto simp: ends_step ends_idle ensureRuntime_def reconcile_running_def)

lemma ends_result:
  "ends e (PcResult req msg err, w, t) u \<longleftrightarrow> apsnd notifyIfChanged (case err of
      None \<Rightarrow> reconcile_running e req (w, setRecoveryResult (case msg of None \<Rightarrow> [] | Some m \<Rightarrow> m) None t)
    | Some er \<Rightarrow> if e_tx er = Some False
        then (w, setPhase PhaseRecoveryFailed (Some er) (latchRecoveryFailure er (setRecoveryResult [] (Some er) t)))
        else (w, wakeAfter (setPhase PhaseRecovering (Some er) (setRecoveryResult [] (Some er) t)))) = u"
  by (cases err) (simp_all add: ends_step ends_idle ends_run)

lemma ends_failed:
  "ends e (PcFailed er, w, t) u \<longleftrightarrow> apsnd notifyIfChanged
     (if e_tx er = Some False then (w, setPhase PhaseRecoveryFailed (Some er) (latchRecoveryFailure er t))
      else (w, wakeAfter (setPhase PhaseRecovering (Some er) t))) = u"
  by (simp add: ends_step ends_idle)

lemma ends_target:
  "ends e (PcTarget req cl, w, t) u \<longleftrightarrow> apsnd notifyIfChanged
     (case recoverConfigs e cl (w, t) of
        (Some er, w, t) \<Rightarrow> if e_tx er = Some False
           then (w, setPhase PhaseRecoveryFailed (Some er) (latchRecoveryFailure er t))
           else (w, wakeAfter (setPhase PhaseRecovering (Some er) t))
      | (None, w, t) \<Rightarrow> reconcile_running e req (w, t)) = u"
proof -
  have replay: "ends e (PcReplay req cl tg, v, t) u \<longleftrightarrow> apsnd notifyIfChanged
     (let ((msg, err), (w, t)) = RecoverConfigs (en_parse e) (en_revertive e) (en_keyString e) (en_now e)
            (lift_k8s (en_k8s e)) (en_fieldManager e) (lift_ds cl) (apsnd (setRecovered True)) tg (v, t) in
      case err of
        Some er \<Rightarrow> (let t = setRecoveryResult [] (Some er) t in
           if e_tx er = Some False then (w, setPhase PhaseRecoveryFailed (Some er) (latchRecoveryFailure er t))
           else (w, wakeAfter (setPhase PhaseRecovering (Some er) t)))
      | None \<Rightarrow> reconcile_running e req (w, setRecoveryResult (case msg of None \<Rightarrow> [] | Some m \<Rightarrow> m) None t)) = u" for tg v
  proof -
    obtain li w1 where l: "ListConfigsPerTarget (en_k8s e) tg v = (li, w1)" by (rule prod.exhaust)
    show ?thesis
    proof (cases li)
      case (Inl err)
      then show ?thesis using l by (simp add: ends_step ends_result RecoverConfigs_def lifts lcall_def Let_def)
    next
      case (Inr items)
      obtain msg err w2 where r: "recoverIntents (en_parse e) (en_revertive e) cl
          (en_keyString e (m_namespace (t_meta tg), m_name (t_meta tg)))
          (filter (\<lambda>c. st_appliedConfig (c_status c) \<noteq> None) items) w1 = ((msg, err), w2)" by (metis surj_pair)
      show ?thesis
      proof (cases err)
        case None
        obtain serr w3 where "setRecoveredConfigs (en_k8s e) (en_fieldManager e) tg
            (\<lambda>cfg. ConfigReady (en_now e) (m_generation (c_meta cfg)) ''target recovered'') w2 = (serr, w3)" by (rule prod.exhaust)
        then show ?thesis using l Inr r None
          by (cases serr) (simp_all add: ends_step ends_result RecoverConfigs_def lifts lcall_def Let_def)
      next
        case (Some er)
        obtain serr w3 where "setRecoveredConfigs (en_k8s e) (en_fieldManager e) tg
            (\<lambda>cfg. ConfigFailed (en_now e) (m_generation (c_meta cfg)) msg) w2 = (serr, w3)" by (rule prod.exhaust)
        then show ?thesis using l Inr r Some
          by (cases serr) (simp_all add: ends_step ends_result RecoverConfigs_def lifts lcall_def Let_def)
      qed
    qed
  qed
  show ?thesis
  proof (cases "en_transactor e")
    case True
    obtain tr v where g: "k_GetTarget (en_k8s e) (fst (rt_key t)) (snd (rt_key t)) w = (tr, v)" by (rule prod.exhaust)
    show ?thesis using True g
      by (cases tr) (auto simp: ends_step [of "(PcTarget req cl, w, t)"] ends_failed replay recoverConfigs_def Let_def
          split: prod.split option.split)
  qed (simp add: ends_step ends_result ends_failed recoverConfigs_def)
qed

lemma ends_recovered:
  "ends e (PcRecovered req cl, w, t) u \<longleftrightarrow> apsnd notifyIfChanged (reconcile_recover e cl req (w, t)) = u"
proof (cases "rt_recovered t \<or> recoveryLatched t \<noteq> None")
  case True
  then show ?thesis
    by (auto simp: ends_step [of "(PcRecovered req cl, w, t)"] ends_step [of "(PcLatch req cl, w, t)"] ends_run
        ends_notify reconcile_recover_def)
next
  case False
  then show ?thesis
    by (simp add: ends_step [of "(PcRecovered req cl, w, t)"] ends_step [of "(PcLatch req cl, w, t)"] ends_target
        reconcile_recover_def split: prod.split option.split)
qed

lemma ends_create:
  "ends e (PcCreate what req cl want, w, t) u \<longleftrightarrow> apsnd notifyIfChanged
     (case d_CreateDataStore cl req w of
        (Some err, w) \<Rightarrow> (w, setPhase PhaseDegraded (Some (err_wrap (what @ go_quote (en_keyString e (rt_key t))) err)) t)
      | (None, w) \<Rightarrow> reconcile_recover e cl req
          (w, setRecovered False (setDatastoreReady True (setRunningHash want t)))) = u"
proof -
  obtain cerr w1 where c: "d_CreateDataStore cl req w = (cerr, w1)" by (rule prod.exhaust)
  have steps: "ends e (PcSetHash req cl want, v, t) u
      \<longleftrightarrow> ends e (PcRecovered req cl, v, setRecovered False (setDatastoreReady True (setRunningHash want t))) u" for v
    by (simp add: ends_step [of "(PcSetHash req cl want, v, t)"] ends_step [of "(PcSetReady req cl, v, r)" for r]
        ends_step [of "(PcSetFresh req cl, v, r)" for r])
  show ?thesis using c
    by (cases cerr) (simp_all add: ends_step [of "(PcCreate what req cl want, w, t)"] ends_step [of "(PcDegraded x, v, t)" for x v]
        ends_notify steps ends_recovered)
qed

lemma ends_ensure:
  "ends e (PcHash req cl, w, t) u \<longleftrightarrow> apsnd notifyIfChanged
     (let (err, w, t) = ensureDatastore e cl req (w, t) in
      if err \<noteq> None then (w, setPhase PhaseDegraded err t) else reconcile_recover e cl req (w, t)) = u"
proof -
  have same: "rt_desiredHash (setPhase p x t) = rt_desiredHash t" "rt_key (setPhase p x t) = rt_key t"
    "rt_key (stopRuntime t) = rt_key t" for p x and t :: "'b runtime"
    by (simp_all add: setPhase_def stopRuntime_def stopCollector_def split: option.split)
  note steps = ends_step [of "(PcHash req cl, v, r)" for v r] ends_step [of "(PcProbe req cl h, v, r)" for v r h]
    ends_step [of "(PcProbed req cl h x, v, r)" for v r h x] ends_step [of "(PcKnown req cl, v, r)" for v r]
    ends_step [of "(PcReplace req cl h, v, r)" for v r h] ends_step [of "(PcDelete req cl h, v, r)" for v r h]
    ends_step [of "(PcDegraded x, v, r)" for x v r]
  obtain perr w1 where p: "d_GetDataStore cl (en_keyString e (rt_key t)) w = (perr, w1)" by (rule prod.exhaust)
  obtain derr w2 where d: "d_DeleteDataStore cl (en_keyString e (rt_key t)) w1 = (derr, w2)" by (rule prod.exhaust)
  show ?thesis
  proof (cases perr)
    case (Some er)
    then show ?thesis using p
      by (cases "isUnknownDatastoreErr (Some er)")
        (simp_all add: steps ends_create ends_notify ensureDatastore_def same Let_def split: prod.split option.split)
  next
    case None
    show ?thesis
    proof (cases "rt_runningHash t \<noteq> [] \<and> rt_desiredHash t \<noteq> [] \<and> rt_runningHash t \<noteq> rt_desiredHash t")
      case True
      obtain cerr w3 where c: "d_CreateDataStore cl req w2 = (cerr, w3)" by (rule prod.exhaust)
      show ?thesis using True None p d c
        by (cases "derr \<noteq> None \<and> \<not> isUnknownDatastoreErr derr"; cases cerr)
          (auto simp: steps ends_create ends_notify ensureDatastore_def same Let_def)
    next
      case False
      then show ?thesis using None p
        by (auto simp: steps ends_recovered ensureDatastore_def same Let_def)
    qed
  qed
qed

text \<open>
  A pass during which no other goroutine does anything is \<open>reconcileOnce\<close>: its steps end, and they
  end there.
\<close>

lemma pass_is_its_steps:
  "\<exists>n. (pass_step e ^^ n) (PcStart, w, t) = (PcIdle, reconcileOnce e (\<lambda>t. t) (w, t))"
proof -
  have "ends e (PcStart, w, t) (reconcileOnce e (\<lambda>t. t) (w, t))"
  proof (cases "rt_desired t")
    case None
    note steps = ends_step [of "(PcStart, w, t)"] ends_step [of "(PcNilStop, v, r)" for v r]
      ends_step [of "(PcNilCheck, v, r)" for v r] ends_step [of "(PcNilDelete cl, v, r)" for v r cl]
      ends_step [of "(PcNilReady x, v, r)" for v r x] ends_step [of "(PcNilHash x, v, r)" for v r x]
      ends_step [of "(PcNilRecovered, v, r)" for v r] ends_step [of "(PcNilPending, v, r)" for v r]
    have same: "rt_key (setDatastoreReady b t) = rt_key t" for b t by (simp add: setDatastoreReady_def Let_def)
    consider "\<not> rt_dsReady (stopRuntime t) \<or> en_client e = None"
      | cl where "rt_dsReady (stopRuntime t)" "en_client e = Some cl" by blast
    then show ?thesis
    proof cases
      case 1
      then show ?thesis using None
        by (auto simp: steps ends_notify reconcileOnce_def reconcile_body_def ensureDatastoreDeleted_def Let_def
            split: option.split)
    next
      case (2 cl)
      obtain derr w1 where d: "d_DeleteDataStore cl (en_keyString e (rt_key (stopRuntime t))) w = (derr, w1)" by (rule prod.exhaust)
      have un: "\<not> isUnknownDatastoreErr None" by (simp add: isUnknownDatastoreErr_def)
      show ?thesis using None 2 d un
        by (cases derr) (simp_all add: steps ends_notify reconcileOnce_def reconcile_body_def ensureDatastoreDeleted_def
            same Let_def)
    qed
  next
    case (Some req)
    note steps = ends_step [of "(PcStart, w, t)"] ends_step [of "(PcReady req, v, r)" for v r]
      ends_step [of "(PcWaitStop, v, r)" for v r] ends_step [of "(PcClient req, v, r)" for v r]
    show ?thesis using Some
      by (cases "rt_dsReady t"; cases "en_client e")
        (simp_all add: steps ends_notify ends_ensure reconcileOnce_def reconcile_body_def Let_def)
  qed
  then show ?thesis by (simp add: ends_def)
qed

section \<open>Every interleaving\<close>

datatype ('p, 's, 'w) thread_op =
  OtherThread "('p, 's, 'w) rt_event"  \<comment> \<open>a request, or what the \<open>select\<close> of the loop takes\<close>
| TakeWake
| PassStep "('p, 's, 'w) rt_env"       \<comment> \<open>the next step of the pass, in the environment of that moment\<close>

fun pc_idle :: "('p, 'w) pass_pc \<Rightarrow> bool" where
  "pc_idle PcIdle = True" | "pc_idle pc = False"

fun loop_allowed :: "('p, 'w) pass_pc \<Rightarrow> ('p, 's, 'w) rt_event \<Rightarrow> bool" where
  \<comment> \<open>the run loop takes data-server events and the stop only in its \<open>select\<close>; a pass is taken by \<open>TakeWake\<close>\<close>
  "loop_allowed pc (RtPass e i) = False"
| "loop_allowed pc (RtDsEvent up err) = pc_idle pc"
| "loop_allowed pc RtDsClosed = pc_idle pc"
| "loop_allowed pc RtLoopStop = pc_idle pc"
| "loop_allowed pc ev = True"

fun loop_step ::
  "('p, 's, 'w) thread_op \<Rightarrow> ('p, 'w) pass_pc \<times> 'w \<times> 's runtime \<Rightarrow> ('p, 'w) pass_pc \<times> 'w \<times> 's runtime" where
  "loop_step (OtherThread ev) (pc, wr) = (pc, if loop_allowed pc ev then rt_step ev wr else wr)"
| "loop_step TakeWake (pc, w, r) =
     (if pc_idle pc \<and> rt_looping r \<and> rt_wakeCh r then (PcStart, w, r\<lparr>rt_wakeCh := False\<rparr>) else (pc, w, r))"
| "loop_step (PassStep e) s = pass_step e s"

definition pass_settled :: "'s runtime \<Rightarrow> bool" where
  \<comment> \<open>a status that may be left standing until the next wake\<close>
  "pass_settled r \<longleftrightarrow> rt_wakeCh r
     \<or> (rt_phase r = PhaseRunning \<and> rt_dsReady r \<longrightarrow> rt_datastoreReady r \<and> rt_recovered r \<and> rt_watcher r)
       \<and> (rt_phase r = PhaseRecovering \<longrightarrow> rt_timers r > 0) \<and> rt_phase r \<noteq> PhaseEnsuringDatastore"

fun in_transition :: "('p, 'w) pass_pc \<Rightarrow> bool" where
  \<comment> \<open>the datastore is being replaced, created or filled\<close>
  "in_transition (PcReplace req cl h) = True" | "in_transition (PcDelete req cl h) = True"
| "in_transition (PcCreate x req cl h) = True" | "in_transition (PcSetHash req cl h) = True"
| "in_transition (PcSetReady req cl) = True" | "in_transition (PcSetFresh req cl) = True"
| "in_transition (PcTarget req cl) = True" | "in_transition (PcReplay req cl tg) = True"
| "in_transition (PcFailedStatus req tg m er) = True" | "in_transition (PcMark req tg) = True"
| "in_transition (PcReadyStatus req tg) = True" | "in_transition (PcResult req m er) = True"
| "in_transition pc = False"

definition at_pc :: "('p, 'w) pass_pc \<Rightarrow> 's runtime \<Rightarrow> bool" where
  "at_pc pc r \<longleftrightarrow> (in_transition pc \<longrightarrow> rt_phase r \<noteq> PhaseRunning) \<and> (case pc of
       PcIdle \<Rightarrow> pass_settled r
     | PcNotify \<Rightarrow> pass_settled r
     | PcNilStop \<Rightarrow> rt_desired r = None \<or> rt_wakeCh r
     | PcNilCheck \<Rightarrow> rt_desired r = None \<or> rt_wakeCh r
     | PcNilDelete cl \<Rightarrow> rt_desired r = None \<or> rt_wakeCh r
     | PcNilReady er \<Rightarrow> rt_desired r = None \<or> rt_wakeCh r
     | PcNilHash er \<Rightarrow> rt_desired r = None \<or> rt_wakeCh r
     | PcNilRecovered \<Rightarrow> rt_desired r = None \<or> rt_wakeCh r
     | PcNilPending \<Rightarrow> rt_desired r = None \<or> rt_wakeCh r
     | PcWaitStop \<Rightarrow> rt_phase r = PhaseWaitingForDS
     | PcDelete req cl h \<Rightarrow> \<not> rt_watcher r \<and> rt_collector r = None
     | PcSetFresh req cl \<Rightarrow> rt_datastoreReady r
     | PcRecovered req cl \<Rightarrow> rt_datastoreReady r
     | PcLatch req cl \<Rightarrow> rt_datastoreReady r
     | PcTarget req cl \<Rightarrow> rt_datastoreReady r
     | PcReplay req cl tg \<Rightarrow> rt_datastoreReady r
     | PcFailedStatus req tg m er \<Rightarrow> rt_datastoreReady r
     | PcMark req tg \<Rightarrow> rt_datastoreReady r
     | PcReadyStatus req tg \<Rightarrow> rt_datastoreReady r
     | PcResult req m er \<Rightarrow> rt_datastoreReady r
     | PcRetry \<Rightarrow> rt_phase r = PhaseRecovering
     | PcRun req \<Rightarrow> rt_datastoreReady r \<and> (rt_recovered r \<or> rt_wakeCh r)
     | PcCollector req \<Rightarrow> rt_datastoreReady r \<and> (rt_recovered r \<or> rt_wakeCh r) \<and> rt_watcher r \<and> rt_phase r = PhaseRunning
     | _ \<Rightarrow> True)"

definition life_inv :: "'s runtime \<Rightarrow> bool" where
  "life_inv r \<longleftrightarrow> (rt_looping r \<longrightarrow> \<not> rt_done r) \<and> (rt_startUsed r \<longleftrightarrow> rt_looping r \<or> rt_done r)"

definition loop_inv :: "('p, 'w) pass_pc \<times> 'w \<times> 's runtime \<Rightarrow> bool" where
  "loop_inv = (\<lambda>(pc, w, r). life_inv r \<and> (rt_looping r \<longrightarrow> at_pc pc r)
     \<and> (\<not> rt_looping r \<longrightarrow> pc_idle pc \<and> \<not> rt_watcher r \<and> rt_collector r = None))"
lemmas setters_frame = setters_ctl [THEN ctl_sel(1)] setters_ctl [THEN ctl_sel(2)] setters_ctl [THEN ctl_sel(3)]
  setters_ctl [THEN ctl_sel(5)] setters_ctl [THEN ctl_sel(6)] setters_ctl [THEN ctl_sel(7)]

lemmas collector_frame = reconcileCollector_keeps(1) [THEN ctl_sel(1)] reconcileCollector_keeps(1) [THEN ctl_sel(2)]
  reconcileCollector_keeps(1) [THEN ctl_sel(3)] reconcileCollector_keeps(1) [THEN ctl_sel(5)]
  reconcileCollector_keeps(1) [THEN ctl_sel(6)] reconcileCollector_keeps

lemma notify_frame:
  "rt_looping (notifyIfChanged r) = rt_looping r" "rt_startUsed (notifyIfChanged r) = rt_startUsed r"
  "rt_done (notifyIfChanged r) = rt_done r" "pass_settled (notifyIfChanged r) = pass_settled r"
  by (simp_all add: notifyIfChanged_def pass_settled_def Let_def)

text \<open>What a step of another goroutine can do to the runtime.\<close>

definition disturbs :: "'s runtime \<Rightarrow> 's runtime \<Rightarrow> bool" where
  "disturbs r r' \<longleftrightarrow> rt_phase r' = rt_phase r \<and> rt_dsReady r' = rt_dsReady r
     \<and> rt_datastoreReady r' = rt_datastoreReady r \<and> rt_watcher r' = rt_watcher r \<and> rt_collector r' = rt_collector r
     \<and> (rt_wakeCh r' \<or> \<not> rt_wakeCh r \<and> (rt_recovered r \<longrightarrow> rt_recovered r') \<and> rt_desired r' = rt_desired r
          \<and> rt_timers r' = rt_timers r)"

lemma disturbs_at_pc: "disturbs r r' \<Longrightarrow> at_pc pc r \<Longrightarrow> at_pc pc r'"
  by (cases pc) (auto simp: disturbs_def at_pc_def pass_settled_def)

lemma other_disturbs:
  assumes "loop_allowed pc ev" "rt_startUsed r" and "\<And>up err. ev \<noteq> RtDsEvent up err" "ev \<noteq> RtDsClosed" "ev \<noteq> RtLoopStop"
  shows "disturbs r (snd (rt_step ev (w, r)))"
  using assms by (cases ev) (auto simp: disturbs_def SetDesired_def SetRecoveryRetryToken_def rt_wake_def UpsertSubscription_def
      DeleteSubscription_def Start_def Stop_def setRecovered_def Let_def split: prod.splits)

lemma pass_step_inv:
  assumes inv: "at_pc pc r" and step: "pass_step e (pc, w, r) = (pc', w', r')"
  shows "at_pc pc' r' \<and> rt_looping r' = rt_looping r \<and> rt_startUsed r' = rt_startUsed r \<and> rt_done r' = rt_done r
    \<and> (pc_idle pc \<longrightarrow> r' = r \<and> pc' = pc)"
proof (cases pc)
  case (PcRun req)
  have r': "r' = setPhase PhaseRunning None (snd (ensureRuntime r))" "pc' = PcCollector req"
    using step by (auto simp: PcRun ensureRuntime_def split: if_splits)
  have k: "rt_watcher (snd (ensureRuntime r))" "ctl (snd (ensureRuntime r)) = ctl r"
    "rt_recovered (snd (ensureRuntime r)) = rt_recovered r" "rt_datastoreReady (snd (ensureRuntime r)) = rt_datastoreReady r"
    by (simp_all add: ensureRuntime_def ctl_def)
  show ?thesis using inv k(1,3,4) ctl_sel(1-3,5) [OF k(2)] by (simp add: r' PcRun at_pc_def setters_frame)
next
  case (PcCollector req)
  then show ?thesis using inv step by (auto simp: at_pc_def pass_settled_def collector_frame)
next
  case PcNotify
  then show ?thesis using inv step by (auto simp: at_pc_def notify_frame)
qed (use inv step in \<open>auto simp: at_pc_def pass_settled_def setters_frame Let_def split: prod.splits option.splits sum.splits if_splits\<close>)

lemma other_life:
  assumes life: "life_inv r" and ev: "\<And>e i. ev \<noteq> RtPass e i"
  shows "life_inv (snd (rt_step ev (w, r)))
    \<and> (\<not> rt_looping r \<and> \<not> rt_watcher r \<and> rt_collector r = None \<longrightarrow>
        \<not> rt_watcher (snd (rt_step ev (w, r))) \<and> rt_collector (snd (rt_step ev (w, r))) = None)
    \<and> (\<not> rt_looping r \<and> rt_looping (snd (rt_step ev (w, r))) \<longrightarrow> rt_wakeCh (snd (rt_step ev (w, r))))"
proof (cases ev)
  case RtLoopStop
  then show ?thesis using life
    by (auto simp: life_inv_def rt_shutdown_def setters_frame)
next
  case RtDsClosed
  then show ?thesis using life by (auto simp: life_inv_def setters_frame)
next
  case (RtPass e i)
  then show ?thesis using ev by simp
qed (use life in \<open>auto simp: life_inv_def SetDesired_def SetRecoveryRetryToken_def UpsertSubscription_def
    DeleteSubscription_def Start_def Stop_def Let_def split: prod.splits\<close>)

lemma loop_event_settles:
  assumes at: "at_pc PcIdle r" and loop: "rt_looping r" and ev: "ev = RtDsEvent up err \<or> ev = RtDsClosed"
  shows "at_pc PcIdle (snd (rt_step ev (w, r)))"
proof (cases "ev = RtDsClosed")
  case True
  let ?r = "setDSReady False (Some (err_new ''ds events closed'')) r"
  have "rt_phase ?r = rt_phase r" "rt_timers ?r = rt_timers r" "rt_wakeCh ?r = rt_wakeCh r"
    by (simp_all add: setDSReady_def Let_def)
  then show ?thesis using at loop True
    by (auto simp: at_pc_def pass_settled_def setters_frame)
next
  case False
  then show ?thesis using loop ev by (auto simp: at_pc_def pass_settled_def)
qed

lemma loop_inv_step [step_inv]:
  assumes inv: "loop_inv s"
  shows "loop_inv (loop_step op s)"
proof -
  obtain pc w r where s: "s = (pc, w, r)" by (rule prod_cases3)
  have life: "life_inv r" and at: "rt_looping r \<Longrightarrow> at_pc pc r"
    and off: "\<not> rt_looping r \<Longrightarrow> pc_idle pc \<and> \<not> rt_watcher r \<and> rt_collector r = None"
    using inv by (auto simp: loop_inv_def s)
  have idle: "pc_idle pc \<longleftrightarrow> pc = PcIdle" by (cases pc) simp_all
  show ?thesis
  proof (cases op)
    case TakeWake
    then show ?thesis using inv by (auto simp: s loop_inv_def life_inv_def at_pc_def)
  next
    case (PassStep e)
    obtain pc' w' r' where p: "pass_step e (pc, w, r) = (pc', w', r')" by (rule prod_cases3)
    show ?thesis
    proof (cases "rt_looping r")
      case True
      with pass_step_inv [OF at p] life show ?thesis by (simp add: PassStep s p loop_inv_def life_inv_def)
    next
      case False
      then show ?thesis using off idle inv by (simp add: PassStep s)
    qed
  next
    case (OtherThread ev)
    show ?thesis
    proof (cases "loop_allowed pc ev")
      case False
      then show ?thesis using inv by (simp add: OtherThread s)
    next
      case True
      then have np: "\<And>e i. ev \<noteq> RtPass e i" by auto
      obtain w' r' where st: "rt_step ev (w, r) = (w', r')" by (rule prod.exhaust)
      note L = other_life [OF life np, where w = w, unfolded st snd_conv]
      have "at_pc pc r'" if "rt_looping r'"
      proof (cases "rt_looping r")
        case False
        then show ?thesis using L off idle that by (simp add: at_pc_def pass_settled_def)
      next
        case looping: True
        have used: "rt_startUsed r" using life looping by (simp add: life_inv_def)
        show ?thesis
        proof (cases "(\<exists>up err. ev = RtDsEvent up err) \<or> ev = RtDsClosed")
          case ds: True
          with True idle have "pc = PcIdle" by auto
          with loop_event_settles [OF _ looping, where w = w and ev = ev] at [OF looping] ds st show ?thesis by auto
        next
          case False
          moreover have "ev \<noteq> RtLoopStop" using st looping that by (auto simp: rt_shutdown_def)
          ultimately have "disturbs r r'" using other_disturbs [OF True used, where w = w] st by auto
          then show ?thesis using at [OF looping] by (rule disturbs_at_pc)
        qed
      qed
      moreover have "pc_idle pc \<and> \<not> rt_watcher r' \<and> rt_collector r' = None" if "\<not> rt_looping r'"
      proof (cases "rt_looping r")
        case False
        then show ?thesis using L off by simp
      next
        case looping: True
        have "ev = RtLoopStop"
        proof (rule ccontr)
          assume "ev \<noteq> RtLoopStop"
          then have "rt_looping r'" using st looping np
            by (cases ev) (auto simp: SetDesired_def SetRecoveryRetryToken_def UpsertSubscription_def
              DeleteSubscription_def Start_def Stop_def setters_frame Let_def split: prod.splits if_splits)
          then show False using that by simp
        qed
        then show ?thesis using st looping True by (auto simp: rt_shutdown_def)
      qed
      ultimately show ?thesis using L True st by (simp add: OtherThread s loop_inv_def)
    qed
  qed
qed

interpretation loop_runs: invariant_machine loop_step "(PcIdle, w, NewTargetRuntime key subs)" loop_inv
  for w :: 'w and key and subs :: "'s subscriptions"
  by unfold_locales (simp add: loop_inv_def life_inv_def NewTargetRuntime_def, erule loop_inv_step)

lemma done_loop_step:
  assumes "rt_done r" "rt_startUsed r" "\<not> rt_looping r"
  shows "\<exists>r'. loop_step op (PcIdle, w, r) = (PcIdle, w, r') \<and> rt_done r' \<and> rt_startUsed r' \<and> \<not> rt_looping r'"
proof (cases op)
  case (OtherThread ev)
  obtain w' r' where st: "rt_step ev (w, r) = (w', r')" by (rule prod.exhaust)
  have "w' = w \<and> rt_done r' \<and> rt_startUsed r' \<and> \<not> rt_looping r'"
    using rt_done_step [of "(w, r)" ev] assms unfolding st by simp
  then show ?thesis using assms by (simp add: OtherThread st)
qed (simp_all add: assms)

lemma done_loop_run:
  "rt_done r \<Longrightarrow> rt_startUsed r \<Longrightarrow> \<not> rt_looping r \<Longrightarrow>
     \<exists>r'. run_ops loop_step ops (PcIdle, w, r) = (PcIdle, w, r') \<and> \<not> rt_looping r'"
proof (induction ops arbitrary: r)
  case (Cons op ops)
  obtain r' where "loop_step op (PcIdle, w, r) = (PcIdle, w, r')" "rt_done r'" "rt_startUsed r'" "\<not> rt_looping r'"
    using done_loop_step [OF Cons.prems, of op w] by (elim exE conjE)
  then show ?case using Cons.IH [of r'] by (simp add: run_ops_def)
qed (simp add: run_ops_def)

text \<open>
  C11: The run loop as the other goroutines see it. For every interleaving of requests, data-server
  events, timers, stops and the single steps of its passes: whenever the loop waits in its \<open>select\<close>, or has yet to
  notify at the end of a pass, and no wake is pending, a \<open>Running\<close> target with the data-server up has its
  datastore, is recovered and is watched, a target in \<open>Recovering\<close> has a retry timer running, and
  none is left in \<open>EnsuringDatastore\<close>. In the steps of a pass that stop the components for a
  replacement, delete, create and register the datastore, and in those that replay its configs and report
  it, the phase is not \<open>Running\<close> and \<open>GetDatastore\<close> hands the datastore to nobody; while it is deleted to be replaced, the watcher and the
  collector are stopped. Once the loop has exited, whether stopped or never started, no pass is
  under way, watcher and collector are gone, and no later step makes the runtime touch the data-server or the
  API server again. Not claimed, because false: that \<open>Running\<close> implies recovered in the middle of a
  pass (it probes first when an outage has taken the recovery back), and that a datastore no longer
  desired is refused while it is deleted.
\<close>

theorem runtime_safe_for_all_events:
  fixes subs :: "'s subscriptions" and dsc :: "'c option"
  assumes run: "run_ops loop_step ops (PcIdle, w, NewTargetRuntime key subs) = (pc, w', r)"
  shows "((pc = PcIdle \<or> pc = PcNotify) \<and> rt_looping r \<and> \<not> rt_wakeCh r \<longrightarrow>
        (rt_phase r = PhaseRunning \<and> rt_dsReady r \<longrightarrow> rt_datastoreReady r \<and> rt_recovered r \<and> rt_watcher r)
        \<and> (rt_phase r = PhaseRecovering \<longrightarrow> rt_timers r > 0) \<and> rt_phase r \<noteq> PhaseEnsuringDatastore)
    \<and> (in_transition pc \<longrightarrow> rt_phase r \<noteq> PhaseRunning \<and> mg_GetDatastore_usable dsc r = None)
    \<and> (\<forall>req cl h. pc = PcDelete req cl h \<longrightarrow> \<not> rt_watcher r \<and> rt_collector r = None)
    \<and> (rt_done r \<longrightarrow> pc = PcIdle \<and> \<not> rt_watcher r \<and> rt_collector r = None
        \<and> (\<forall>later. \<exists>r'. run_ops loop_step later (pc, w', r) = (PcIdle, w', r') \<and> \<not> rt_looping r'))"
proof -
  have "loop_inv (pc, w', r)" using loop_runs.inv_run [of ops w key subs] run by simp
  then have life: "life_inv r" and at: "rt_looping r \<Longrightarrow> at_pc pc r"
    and off: "\<not> rt_looping r \<Longrightarrow> pc_idle pc \<and> \<not> rt_watcher r \<and> rt_collector r = None"
    by (auto simp: loop_inv_def)
  have idle: "pc_idle pc \<longleftrightarrow> pc = PcIdle" by (cases pc) simp_all
  have 1: "(pc = PcIdle \<or> pc = PcNotify) \<and> rt_looping r \<and> \<not> rt_wakeCh r \<longrightarrow>
        (rt_phase r = PhaseRunning \<and> rt_dsReady r \<longrightarrow> rt_datastoreReady r \<and> rt_recovered r \<and> rt_watcher r)
        \<and> (rt_phase r = PhaseRecovering \<longrightarrow> rt_timers r > 0) \<and> rt_phase r \<noteq> PhaseEnsuringDatastore"
    using at by (auto simp: at_pc_def pass_settled_def)
  have run: "pc \<noteq> PcIdle \<Longrightarrow> at_pc pc r" using at off idle by blast
  have 2: "in_transition pc \<longrightarrow> rt_phase r \<noteq> PhaseRunning \<and> mg_GetDatastore_usable dsc r = None"
    using run by (cases "pc = PcIdle") (auto simp: at_pc_def mg_GetDatastore_usable_def rt_Status_def Let_def)
  have 3: "\<forall>req cl h. pc = PcDelete req cl h \<longrightarrow> \<not> rt_watcher r \<and> rt_collector r = None"
    using run by (auto simp: at_pc_def)
  have 4: "pc = PcIdle \<and> \<not> rt_watcher r \<and> rt_collector r = None
      \<and> (\<forall>later. \<exists>r'. run_ops loop_step later (pc, w', r) = (PcIdle, w', r') \<and> \<not> rt_looping r')" if "rt_done r"
  proof -
    have "\<not> rt_looping r" "rt_startUsed r" using life that by (auto simp: life_inv_def)
    then have "pc = PcIdle \<and> \<not> rt_watcher r \<and> rt_collector r = None" using off idle by blast
    moreover have "\<exists>r'. run_ops loop_step later (PcIdle, w', r) = (PcIdle, w', r') \<and> \<not> rt_looping r'" for later
      by (rule done_loop_run) fact+
    ultimately show ?thesis by metis
  qed
  show ?thesis using 1 2 3 4 by (intro conjI) blast+
qed

definition sample_pass_ops :: "nat \<Rightarrow> (string, path_subs gomap, nat) thread_op list" where
  "sample_pass_ops n = [OtherThread RtStart, OtherThread (RtDsEvent True None),
     OtherThread (RtSetDesired (Some sample_desired) None ''h''), TakeWake] @ replicate n (PassStep (sample_env []))"

theorem runtime_safe_for_all_events_witness:
  "mg_GetDatastore_usable (Some ()) (snd (snd (run_ops loop_step (sample_pass_ops 9)
       (PcIdle, 0, NewTargetRuntime (''ns'', ''t1'') \<lparr>sb_paths = [], sb_ports = []\<rparr>)))) = None
     \<and> rt_recovered (snd (snd (run_ops loop_step (sample_pass_ops 17)
       (PcIdle, 0, NewTargetRuntime (''ns'', ''t1'') \<lparr>sb_paths = [], sb_ports = []\<rparr>))))"
proof -
  let ?s = "(PcIdle, 0, NewTargetRuntime (''ns'', ''t1'') \<lparr>sb_paths = [], sb_ports = []\<rparr>) :: (string, nat) pass_pc \<times> nat \<times> path_subs gomap runtime"
  obtain pc w r where run: "run_ops loop_step (sample_pass_ops 9) ?s = (pc, w, r)" by (rule prod_cases3)
  obtain pc2 w2 r2 where run2: "run_ops loop_step (sample_pass_ops 17) ?s = (pc2, w2, r2)" by (rule prod_cases3)
  have "in_transition (fst (run_ops loop_step (sample_pass_ops 9) ?s))" by code_simp
  moreover have "(case run_ops loop_step (sample_pass_ops 17) ?s of (pc, w, r) \<Rightarrow>
      pc_idle pc \<and> rt_looping r \<and> rt_phase r = PhaseRunning \<and> rt_dsReady r \<and> \<not> rt_wakeCh r)"
    by code_simp
  then have "pc_idle pc2 \<and> rt_looping r2 \<and> rt_phase r2 = PhaseRunning \<and> rt_dsReady r2 \<and> \<not> rt_wakeCh r2"
    unfolding run2 by simp
  moreover from this have "pc2 = PcIdle" by (cases pc2) simp_all
  ultimately show ?thesis
    using runtime_safe_for_all_events [OF run, of "Some ()"] runtime_safe_for_all_events [OF run2] unfolding run run2 by simp
qed

end
