(* ===== verification/Registry.thy ===== *)
theory Registry
  imports ConfigApi Strconv
begin

text \<open>
  The storage strategies of the aggregated API server (\<open>pkg/registry/generic\<close>): every write of a
  resource takes the next value of one resourceVersion counter, stores the object and publishes the
  event, all under the counter's lock, so each write is one step. The storage backend and the type
  specific hooks (\<open>IsEqual\<close>, dry run functions) are arguments; \<open>store_ok\<close> is what the interface of
  the backend documents.
\<close>

section \<open>Objects, events, storage\<close>

type_synonym okey = "string \<times> string"

record ('sp, 'st) robj =
  ro_meta :: objmeta
  ro_spec :: 'sp
  ro_status :: 'st

datatype watch_type = Added | Modified | Deleted | Bookmark | Error_event

type_synonym 'o wevent = "watch_type \<times> 'o"

record ('o, 's) obj_store =
  os_get :: "okey \<Rightarrow> 's \<Rightarrow> goerr + 'o"
  os_create :: "okey \<Rightarrow> 'o \<Rightarrow> 's \<Rightarrow> goerr option \<times> 's"
  os_update :: "okey \<Rightarrow> 'o \<Rightarrow> 's \<Rightarrow> goerr option \<times> 's"
  os_delete :: "okey \<Rightarrow> 's \<Rightarrow> goerr option \<times> 's"
  os_list :: "'s \<Rightarrow> goerr option \<times> (okey \<times> 'o) list"

abbreviation ro_key :: "('sp, 'st) robj \<Rightarrow> okey" where
  "ro_key o' \<equiv> (m_namespace (ro_meta o'), m_name (ro_meta o'))"

definition NewInternalError :: "goerr \<Rightarrow> goerr" where
  "NewInternalError err = \<lparr>e_msg = ''Internal error occurred: '' @ e_msg err, e_code = None,
     e_api = Some ''InternalError'', e_tx = None\<rparr>"

definition NewNotFound :: "string \<Rightarrow> string \<Rightarrow> goerr" where
  "NewNotFound gr name = \<lparr>e_msg = gr @ '' '' @ go_quote name @ '' not found'', e_code = None,
     e_api = Some ''NotFound'', e_tx = None\<rparr>"

section \<open>The resourceVersion counter (resource_version.go)\<close>

record rv_allocator =
  al_init :: bool
  al_current :: "64 word"

definition resourceVersionOf :: "('sp, 'st) robj \<Rightarrow> 64 word option" where
  "resourceVersionOf obj = ParseUint (m_resourceVersion (ro_meta obj))"

definition setResourceVersion :: "string \<Rightarrow> ('sp, 'st) robj \<Rightarrow> ('sp, 'st) robj" where
  "setResourceVersion rv obj = obj\<lparr>ro_meta := (ro_meta obj)\<lparr>m_resourceVersion := rv\<rparr>\<rparr>"

definition max_rv :: "('sp, 'st) robj \<Rightarrow> 64 word \<Rightarrow> 64 word" where
  "max_rv obj mx = (case resourceVersionOf obj of None \<Rightarrow> mx | Some n \<Rightarrow> if n > mx then n else mx)"

definition ensureInit :: "('sp, 'st) robj list \<Rightarrow> rv_allocator \<Rightarrow> rv_allocator" where
  \<comment> \<open>the argument is what the list visits; a failing list may have visited only some objects\<close>
  "ensureInit visited a =
     (if al_init a then a
      else let mx = fold max_rv visited 0 in
        a\<lparr>al_init := True, al_current := (if mx > al_current a then mx else al_current a)\<rparr>)"

record ('o, 's) registry =
  rg_store :: 's
  rg_alloc :: rv_allocator
  rg_published :: "'o wevent list"

definition rg_new :: "'s \<Rightarrow> ('o, 's) registry" where
  "rg_new s = \<lparr>rg_store = s, rg_alloc = \<lparr>al_init = False, al_current = 0\<rparr>, rg_published = []\<rparr>"

definition initRV :: "(('sp, 'st) robj, 's) obj_store \<Rightarrow> (('sp, 'st) robj, 's) registry \<Rightarrow> (('sp, 'st) robj, 's) registry" where
  "initRV st r = r\<lparr>rg_alloc := ensureInit (map snd (snd (os_list st (rg_store r)))) (rg_alloc r)\<rparr>"

definition rv_write ::
  "(string \<Rightarrow> 's \<Rightarrow> (goerr + 'o wevent) \<times> 's) \<Rightarrow> ('o, 's) registry \<Rightarrow> goerr option \<times> ('o, 's) registry" where
  "rv_write fn r =
     (let next = al_current (rg_alloc r) + 1 in
      case fn (FormatUint next) (rg_store r) of
        (Inl err, s) \<Rightarrow> (Some err, r\<lparr>rg_store := s\<rparr>)
      | (Inr ev, s) \<Rightarrow> (None, r\<lparr>rg_store := s, rg_alloc := (rg_alloc r)\<lparr>al_current := next\<rparr>,
           rg_published := rg_published r @ [ev]\<rparr>))"

section \<open>The strategy (strategy_resource.go)\<close>

record ('sp, 'st, 'u) strategy =
  sg_gr :: string
  sg_IsEqual :: "('sp, 'st) robj \<Rightarrow> ('sp, 'st) robj \<Rightarrow> bool"
  sg_IsStatusEqual :: "('sp, 'st) robj \<Rightarrow> ('sp, 'st) robj \<Rightarrow> bool"
  sg_specU :: "'sp \<Rightarrow> 'u"
  sg_DryRunCreate :: "(okey \<Rightarrow> ('sp, 'st) robj \<Rightarrow> ('sp, 'st) robj \<times> goerr option) option"
  sg_DryRunUpdate :: "(okey \<Rightarrow> ('sp, 'st) robj \<Rightarrow> ('sp, 'st) robj \<Rightarrow> ('sp, 'st) robj \<times> goerr option) option"
  sg_DryRunDelete :: "(okey \<Rightarrow> ('sp, 'st) robj \<Rightarrow> ('sp, 'st) robj \<times> goerr option) option"

text \<open>
  \<open>sg_specU\<close> is \<open>DefaultUnstructuredConverter.ToUnstructured(obj)["spec"]\<close>; for the typed objects of
  this server the conversion and the accessors do not fail.
\<close>

definition rg_Get ::
  "('sp, 'st, 'u) strategy \<Rightarrow> (('sp, 'st) robj, 's) obj_store \<Rightarrow> okey \<Rightarrow> (('sp, 'st) robj, 's) registry
     \<Rightarrow> goerr + ('sp, 'st) robj" where
  "rg_Get sg st key r =
     (case os_get st key (rg_store r) of Inl err \<Rightarrow> Inl (NewNotFound (sg_gr sg) (snd key)) | Inr obj \<Rightarrow> Inr obj)"

definition rg_Create ::
  "('sp, 'st, 'u) strategy \<Rightarrow> (('sp, 'st) robj, 's) obj_store \<Rightarrow> okey \<Rightarrow> ('sp, 'st) robj \<Rightarrow> bool
     \<Rightarrow> (('sp, 'st) robj, 's) registry \<Rightarrow> (('sp, 'st) robj \<times> goerr option) \<times> (('sp, 'st) robj, 's) registry" where
  "rg_Create sg st key obj dryrun r =
     (if dryrun
      then (case sg_DryRunCreate sg of Some f \<Rightarrow> f key obj | None \<Rightarrow> (obj, None), r)
      else let r = initRV st r;
               obj' = setResourceVersion (FormatUint (al_current (rg_alloc r) + 1)) obj;
               (err, r) = rv_write (\<lambda>rv s.
                 case os_create st key (setResourceVersion rv obj) s of
                   (Some err, s) \<Rightarrow> (Inl (NewInternalError err), s)
                 | (None, s) \<Rightarrow> (Inr (Added, setResourceVersion rv obj), s)) r in
        ((obj', err), r))"

definition nextGeneration ::
  "('sp, 'st, 'u) strategy \<Rightarrow> ('sp, 'st) robj \<Rightarrow> ('sp, 'st) robj \<Rightarrow> int" where
  "nextGeneration sg obj old =
     (let gen = m_generation (ro_meta old) in
      if m_deletionTimestamp (ro_meta old) = None \<and> m_deletionTimestamp (ro_meta obj) \<noteq> None then gen + 1
      else if sg_specU sg (ro_spec obj) \<noteq> sg_specU sg (ro_spec old) then gen + 1
      else gen)"

definition setNextGeneration ::
  "('sp, 'st, 'u) strategy \<Rightarrow> ('sp, 'st) robj \<Rightarrow> ('sp, 'st) robj \<Rightarrow> ('sp, 'st) robj" where
  "setNextGeneration sg obj old = obj\<lparr>ro_meta := (ro_meta obj)\<lparr>m_generation := nextGeneration sg obj old\<rparr>\<rparr>"

definition rg_store_update ::
  "(('sp, 'st) robj, 's) obj_store \<Rightarrow> okey \<Rightarrow> ('sp, 'st) robj \<Rightarrow> (('sp, 'st) robj, 's) registry
     \<Rightarrow> (('sp, 'st) robj \<times> goerr option) \<times> (('sp, 'st) robj, 's) registry" where
  \<comment> \<open>the write of \<open>Update\<close> and of the status strategy\<close>
  "rg_store_update st key obj r =
     (let r = initRV st r;
          obj' = setResourceVersion (FormatUint (al_current (rg_alloc r) + 1)) obj;
          (err, r) = rv_write (\<lambda>rv s.
            case os_update st key (setResourceVersion rv obj) s of
              (Some err, s) \<Rightarrow> (Inl (NewInternalError err), s)
            | (None, s) \<Rightarrow> (Inr (Modified, setResourceVersion rv obj), s)) r in
      ((obj', err), r))"

definition rg_Update ::
  "('sp, 'st, 'u) strategy \<Rightarrow> (('sp, 'st) robj, 's) obj_store \<Rightarrow> okey \<Rightarrow> ('sp, 'st) robj \<Rightarrow> ('sp, 'st) robj \<Rightarrow> bool
     \<Rightarrow> (('sp, 'st) robj, 's) registry \<Rightarrow> (('sp, 'st) robj \<times> goerr option) \<times> (('sp, 'st) robj, 's) registry" where
  "rg_Update sg st key obj old dryrun r =
     (if sg_IsEqual sg obj old then ((obj, None), r)
      else if dryrun
      then (case sg_DryRunUpdate sg of Some f \<Rightarrow> f key obj old | None \<Rightarrow> (obj, None), r)
      else rg_store_update st key (setNextGeneration sg obj old) r)"

definition rg_Delete ::
  "('sp, 'st, 'u) strategy \<Rightarrow> (('sp, 'st) robj, 's) obj_store \<Rightarrow> okey \<Rightarrow> ('sp, 'st) robj \<Rightarrow> bool
     \<Rightarrow> (('sp, 'st) robj, 's) registry \<Rightarrow> (('sp, 'st) robj \<times> goerr option) \<times> (('sp, 'st) robj, 's) registry" where
  "rg_Delete sg st key obj dryrun r =
     (if dryrun
      then (case sg_DryRunDelete sg of Some f \<Rightarrow> f key obj | None \<Rightarrow> (obj, None), r)
      else let r = initRV st r;
               deleted = setResourceVersion (FormatUint (al_current (rg_alloc r) + 1)) obj;
               (err, r) = rv_write (\<lambda>rv s.
                 case os_delete st key s of
                   (Some err, s) \<Rightarrow> (Inl (NewInternalError err), s)
                 | (None, s) \<Rightarrow> (Inr (Deleted, setResourceVersion rv obj), s)) r in
        (if err \<noteq> None then (obj, err) else (deleted, None), r))"

definition rg_StatusUpdate ::
  "('sp, 'st, 'u) strategy \<Rightarrow> (('sp, 'st) robj, 's) obj_store \<Rightarrow> okey \<Rightarrow> ('sp, 'st) robj \<Rightarrow> ('sp, 'st) robj \<Rightarrow> bool
     \<Rightarrow> (('sp, 'st) robj, 's) registry \<Rightarrow> (('sp, 'st) robj \<times> goerr option) \<times> (('sp, 'st) robj, 's) registry" where
  \<comment> \<open>\<open>strategy_status.go\<close>\<close>
  "rg_StatusUpdate sg st key obj old dryrun r =
     (if sg_IsStatusEqual sg obj old then ((obj, None), r)
      else if dryrun then ((obj, None), r)
      else rg_store_update st key obj r)"

section \<open>Selection and list\<close>

record ('sp, 'st) list_options =
  lo_fieldFilter :: "goerr + (('sp, 'st) robj \<Rightarrow> bool) option"
  lo_labels :: "(string gomap \<Rightarrow> bool) option"
  lo_namespace :: "string option"
  lo_scoped :: bool
  lo_resourceVersion :: string
  lo_sendInitialEvents :: "bool option"

text \<open>
  \<open>lo_fieldFilter\<close> is the parsed field selector (the parser is a hook of the type): an error, nil, or a
  filter that says which objects are filtered out; \<open>lo_labels\<close> is the label selector's \<open>Matches\<close>.
\<close>

definition predicate :: "('sp, 'st) list_options \<Rightarrow> goerr + (('sp, 'st) robj \<Rightarrow> bool)" where
  "predicate lo =
     (case lo_fieldFilter lo of
        Inl err \<Rightarrow> Inl err
      | Inr flt \<Rightarrow> Inr (\<lambda>obj.
          if lo_scoped lo \<and> lo_namespace lo \<noteq> None \<and> the (lo_namespace lo) \<noteq> []
             \<and> m_namespace (ro_meta obj) \<noteq> the (lo_namespace lo) then False
          else if lo_labels lo \<noteq> None \<and> \<not> the (lo_labels lo) (m_labels (ro_meta obj)) then False
          else if flt \<noteq> None \<and> the flt obj then False
          else True))"

definition rg_List ::
  "(('sp, 'st) robj, 's) obj_store \<Rightarrow> ('sp, 'st) list_options
     \<Rightarrow> ((('sp, 'st) robj, 's) registry \<Rightarrow> (('sp, 'st) robj, 's) registry)
     \<Rightarrow> (('sp, 'st) robj, 's) registry
     \<Rightarrow> (goerr + ('sp, 'st) robj list \<times> string) \<times> (('sp, 'st) robj, 's) registry" where
  \<comment> \<open>\<open>other\<close>: the writes that land between reading the counter and listing the storage\<close>
  "rg_List st lo other r =
     (case predicate lo of
        Inl err \<Rightarrow> (Inl err, r)
      | Inr selected \<Rightarrow>
          (let r = initRV st r; listRV = al_current (rg_alloc r); r = other r in
           case os_list st (rg_store r) of
             (Some err, objs) \<Rightarrow> (Inl err, r)
           | (None, objs) \<Rightarrow> (Inr (filter selected (map snd objs), FormatUint listRV), r)))"

section \<open>Runs\<close>

text \<open>
  The generic store passes the key of the object it writes, so an operation of a run carries the
  object only.
\<close>

datatype ('sp, 'st) rg_op =
  OpCreate "('sp, 'st) robj"
| OpUpdate "('sp, 'st) robj" "('sp, 'st) robj"
| OpStatus "('sp, 'st) robj" "('sp, 'st) robj"
| OpDelete "('sp, 'st) robj"
| OpList

fun rg_step ::
  "('sp, 'st, 'u) strategy \<Rightarrow> (('sp, 'st) robj, 's) obj_store \<Rightarrow> ('sp, 'st) rg_op
     \<Rightarrow> (('sp, 'st) robj, 's) registry \<Rightarrow> (('sp, 'st) robj, 's) registry" where
  "rg_step sg st (OpCreate obj) r = snd (rg_Create sg st (ro_key obj) obj False r)"
| "rg_step sg st (OpUpdate obj old) r = snd (rg_Update sg st (ro_key obj) obj old False r)"
| "rg_step sg st (OpStatus obj old) r = snd (rg_StatusUpdate sg st (ro_key obj) obj old False r)"
| "rg_step sg st (OpDelete obj) r = snd (rg_Delete sg st (ro_key obj) obj False r)"
| "rg_step sg st OpList r = initRV st r"

section \<open>The storage is the replay of the published events\<close>

definition store_ok ::
  "('o, 's) obj_store \<Rightarrow> ('s \<Rightarrow> okey \<Rightarrow> 'o option) \<Rightarrow> bool" where
  \<comment> \<open>what the backend documents: it holds a map \<open>look\<close>, and a failing call changes nothing\<close>
  "store_ok st look \<longleftrightarrow>
     (\<forall>s k. case look s k of None \<Rightarrow> isl (os_get st k s) | Some v \<Rightarrow> os_get st k s = Inr v)
     \<and> (\<forall>s k v. look (snd (os_create st k v s))
          = (if fst (os_create st k v s) = None then (look s)(k \<mapsto> v) else look s))
     \<and> (\<forall>s k v. look (snd (os_update st k v s))
          = (if fst (os_update st k v s) = None then (look s)(k \<mapsto> v) else look s))
     \<and> (\<forall>s k. look (snd (os_delete st k s))
          = (if fst (os_delete st k s) = None then (look s)(k := None) else look s))
     \<and> (\<forall>s. fst (os_list st s) = None \<longrightarrow>
          distinct (map fst (snd (os_list st s))) \<and> map_of (snd (os_list st s)) = look s)"

fun ev_apply :: "('sp, 'st) robj wevent \<Rightarrow> (okey \<Rightarrow> ('sp, 'st) robj option) \<Rightarrow> okey \<Rightarrow> ('sp, 'st) robj option" where
  \<comment> \<open>what a client that follows the events keeps\<close>
  "ev_apply (Added, obj) m = m(ro_key obj \<mapsto> obj)"
| "ev_apply (Modified, obj) m = m(ro_key obj \<mapsto> obj)"
| "ev_apply (Deleted, obj) m = m(ro_key obj := None)"
| "ev_apply (Bookmark, obj) m = m"
| "ev_apply (Error_event, obj) m = m"

definition base_rv :: "(('sp, 'st) robj, 's) obj_store \<Rightarrow> 's \<Rightarrow> 64 word" where
  "base_rv st s = fold max_rv (map snd (snd (os_list st s))) 0"

definition rg_inv ::
  "(('sp, 'st) robj, 's) obj_store \<Rightarrow> ('s \<Rightarrow> okey \<Rightarrow> ('sp, 'st) robj option) \<Rightarrow> 's
     \<Rightarrow> (('sp, 'st) robj, 's) registry \<Rightarrow> bool" where
  "rg_inv st look s0 r \<longleftrightarrow>
     look (rg_store r) = fold ev_apply (rg_published r) (look s0)
     \<and> (\<not> al_init (rg_alloc r) \<longrightarrow> rg_published r = [] \<and> al_current (rg_alloc r) = 0 \<and> rg_store r = s0)
     \<and> (al_init (rg_alloc r) \<longrightarrow> al_current (rg_alloc r) = base_rv st s0 + of_nat (length (rg_published r)))
     \<and> map (\<lambda>ev. resourceVersionOf (snd ev)) (rg_published r)
         = map (\<lambda>i. Some (base_rv st s0 + of_nat (Suc i))) [0..<length (rg_published r)]
     \<and> (\<forall>ev \<in> set (rg_published r). fst ev \<in> {Added, Modified, Deleted})"

lemma resourceVersionOf_set [simp]: "resourceVersionOf (setResourceVersion (FormatUint n) obj) = Some n"
  by (simp add: resourceVersionOf_def setResourceVersion_def)

lemma ro_key_set [simp]:
  "m_namespace (ro_meta (setResourceVersion rv obj)) = m_namespace (ro_meta obj)"
  "m_name (ro_meta (setResourceVersion rv obj)) = m_name (ro_meta obj)"
  by (simp_all add: setResourceVersion_def)

lemma setNextGeneration_sel [simp]:
  "m_namespace (ro_meta (setNextGeneration sg obj old)) = m_namespace (ro_meta obj)"
  "m_name (ro_meta (setNextGeneration sg obj old)) = m_name (ro_meta obj)"
  "ro_spec (setNextGeneration sg obj old) = ro_spec obj" "ro_status (setNextGeneration sg obj old) = ro_status obj"
  "m_generation (ro_meta (setNextGeneration sg obj old)) = nextGeneration sg obj old"
  by (simp_all add: setNextGeneration_def)

lemma initRV_sel [simp]:
  "rg_store (initRV st r) = rg_store r" "rg_published (initRV st r) = rg_published r"
  "al_init (rg_alloc (initRV st r))"
  by (simp_all add: initRV_def ensureInit_def Let_def)

lemma initRV_id [simp]: "al_init (rg_alloc r) \<Longrightarrow> initRV st r = r"
  by (simp add: initRV_def ensureInit_def)

lemma rg_inv_init [simp]: "rg_inv st look s0 r \<Longrightarrow> rg_inv st look s0 (initRV st r)"
  by (cases "al_init (rg_alloc r)")
    (auto simp: rg_inv_def initRV_def ensureInit_def Let_def base_rv_def not_less)

text \<open>Every write is one call of \<open>rv_write\<close> whose function either fails or stores what its event says.\<close>

definition writes_event ::
  "('s \<Rightarrow> okey \<Rightarrow> ('sp, 'st) robj option) \<Rightarrow> (string \<Rightarrow> 's \<Rightarrow> (goerr + ('sp, 'st) robj wevent) \<times> 's) \<Rightarrow> bool" where
  "writes_event look fn \<longleftrightarrow>
     (\<forall>n s. (\<exists>err s'. fn (FormatUint n) s = (Inl err, s') \<and> look s' = look s)
       \<or> (\<exists>ev s'. fn (FormatUint n) s = (Inr ev, s') \<and> look s' = ev_apply ev (look s)
            \<and> resourceVersionOf (snd ev) = Some n \<and> fst ev \<in> {Added, Modified, Deleted}))"

lemma rg_inv_write:
  assumes fn: "writes_event look fn" and inv: "rg_inv st look s0 r" and init: "al_init (rg_alloc r)"
  shows "rg_inv st look s0 (snd (rv_write fn r))"
proof -
  let ?n = "al_current (rg_alloc r) + 1"
  from fn consider (err) err s' where "fn (FormatUint ?n) (rg_store r) = (Inl err, s')" "look s' = look (rg_store r)"
    | (ok) ev s' where "fn (FormatUint ?n) (rg_store r) = (Inr ev, s')" "look s' = ev_apply ev (look (rg_store r))"
        "resourceVersionOf (snd ev) = Some ?n" "fst ev \<in> {Added, Modified, Deleted}"
    unfolding writes_event_def by blast
  then show ?thesis
  proof cases
    case err
    with inv init show ?thesis by (simp add: rv_write_def rg_inv_def)
  next
    case ok
    with inv init show ?thesis by (simp add: rv_write_def rg_inv_def Let_def add.assoc add.commute)
  qed
qed

lemma writes_event_call:
  assumes "\<And>n s. look (snd (call (FormatUint n) s))
      = (if fst (call (FormatUint n) s) = None then ev_apply (ev (FormatUint n)) (look s) else look s)"
    and "\<And>n. resourceVersionOf (snd (ev (FormatUint n))) = Some n" "\<And>n. fst (ev (FormatUint n)) \<in> {Added, Modified, Deleted}"
  shows "writes_event look (\<lambda>rv s. case call rv s of
      (Some err, s) \<Rightarrow> (Inl (NewInternalError err), s) | (None, s) \<Rightarrow> (Inr (ev rv), s))"
  unfolding writes_event_def
proof (intro allI)
  fix n s
  obtain res s' where c: "call (FormatUint n) s = (res, s')" by (metis surj_pair)
  with assms(1) [of n s] assms(2,3) [of n] show "(\<exists>err s'. (case call (FormatUint n) s of
      (Some err, s) \<Rightarrow> (Inl (NewInternalError err), s) | (None, s) \<Rightarrow> (Inr (ev (FormatUint n)), s)) = (Inl err, s') \<and> look s' = look s)
    \<or> (\<exists>e s'. (case call (FormatUint n) s of
      (Some err, s) \<Rightarrow> (Inl (NewInternalError err), s) | (None, s) \<Rightarrow> (Inr (ev (FormatUint n)), s)) = (Inr e, s')
        \<and> look s' = ev_apply e (look s) \<and> resourceVersionOf (snd e) = Some n \<and> fst e \<in> {Added, Modified, Deleted})"
    by (cases res) auto
qed

lemma store_okD:
  assumes "store_ok st look"
  shows "look (snd (os_create st k v s)) = (if fst (os_create st k v s) = None then (look s)(k \<mapsto> v) else look s)"
    and "look (snd (os_update st k v s)) = (if fst (os_update st k v s) = None then (look s)(k \<mapsto> v) else look s)"
    and "look (snd (os_delete st k s)) = (if fst (os_delete st k s) = None then (look s)(k := None) else look s)"
    and "fst (os_list st s) = None \<Longrightarrow> distinct (map fst (snd (os_list st s)))"
    and "fst (os_list st s) = None \<Longrightarrow> map_of (snd (os_list st s)) = look s"
  using assms unfolding store_ok_def by blast+

lemma writes_event_ops:
  assumes "store_ok st look"
  shows "writes_event look (\<lambda>rv s. case os_create st (ro_key obj) (setResourceVersion rv obj) s of
            (Some err, s) \<Rightarrow> (Inl (NewInternalError err), s) | (None, s) \<Rightarrow> (Inr (Added, setResourceVersion rv obj), s))"
    and "writes_event look (\<lambda>rv s. case os_update st (ro_key obj) (setResourceVersion rv obj) s of
            (Some err, s) \<Rightarrow> (Inl (NewInternalError err), s) | (None, s) \<Rightarrow> (Inr (Modified, setResourceVersion rv obj), s))"
    and "writes_event look (\<lambda>rv s. case os_delete st (ro_key obj) s of
            (Some err, s) \<Rightarrow> (Inl (NewInternalError err), s) | (None, s) \<Rightarrow> (Inr (Deleted, setResourceVersion rv obj), s))"
  by (rule writes_event_call; simp add: store_okD [OF assms])+

lemma rg_inv_store_update:
  assumes "store_ok st look" "rg_inv st look s0 r"
  shows "rg_inv st look s0 (snd (rg_store_update st (ro_key obj) obj r))"
  using rg_inv_write [OF writes_event_ops(2) [OF assms(1)] rg_inv_init [OF assms(2)] initRV_sel(3)]
  by (simp add: rg_store_update_def Let_def split_beta)

lemma rg_inv_step:
  assumes ok: "store_ok st look" and inv: "rg_inv st look s0 r"
  shows "rg_inv st look s0 (rg_step sg st op r)"
proof (cases op)
  case (OpCreate obj)
  with rg_inv_write [OF writes_event_ops(1) [OF ok] rg_inv_init [OF inv] initRV_sel(3), of obj] show ?thesis
    by (simp add: rg_Create_def Let_def split_beta)
next
  case (OpUpdate obj old)
  with rg_inv_store_update [OF ok inv, of "setNextGeneration sg obj old"] inv show ?thesis
    by (simp add: rg_Update_def)
next
  case (OpStatus obj old)
  with rg_inv_store_update [OF ok inv, of obj] inv show ?thesis by (simp add: rg_StatusUpdate_def)
next
  case (OpDelete obj)
  with rg_inv_write [OF writes_event_ops(3) [OF ok] rg_inv_init [OF inv] initRV_sel(3), of obj] show ?thesis
    by (simp add: rg_Delete_def Let_def split_beta)
next
  case OpList
  with inv show ?thesis by simp
qed

lemma rg_inv_new: "rg_inv st look s0 (rg_new s0)"
  by (simp add: rg_inv_def rg_new_def)

interpretation rg_runs: invariant_machine "rg_step sg st" "rg_new s0"
  "\<lambda>r. store_ok st look \<longrightarrow> rg_inv st look s0 r"
  for sg :: "('sp, 'st, 'u) strategy" and st :: "(('sp, 'st) robj, 's) obj_store" and look and s0 :: 's
  by unfold_locales (simp_all add: rg_inv_new rg_inv_step)

section \<open>What a run guarantees\<close>

lemma max_rv_ge: "m \<le> max_rv obj m"
  by (auto simp: max_rv_def split: option.split)

lemma max_rv_obj: "resourceVersionOf obj = Some n \<Longrightarrow> n \<le> max_rv obj m"
  by (auto simp: max_rv_def)

lemma fold_max_rv_ge: "m \<le> fold max_rv objs m"
  by (induction objs arbitrary: m) (auto intro: order_trans [OF max_rv_ge])

lemma fold_max_rv_mem:
  "obj \<in> set objs \<Longrightarrow> resourceVersionOf obj = Some n \<Longrightarrow> n \<le> fold max_rv objs m"
  by (induction objs arbitrary: m) (auto intro: order_trans [OF max_rv_obj fold_max_rv_ge])

lemma replay_origin:
  assumes "fold ev_apply evs m k = Some obj"
  shows "m k = Some obj \<or> obj \<in> snd ` set evs"
  using assms
proof (induction evs arbitrary: m)
  case (Cons ev evs)
  have "ev_apply ev m k = Some obj \<Longrightarrow> m k = Some obj \<or> obj = snd ev"
    by (cases "(ev, m)" rule: ev_apply.cases) (auto split: if_splits)
  with Cons show ?case by fastforce
qed simp

lemma rv_bound:
  assumes "unat (b :: 64 word) + i < 2 ^ 64"
  shows "unat (b + of_nat i) = unat b + i"
  using assms by (simp add: unat_word_ariths take_bit_eq_mod unat_of_nat)

lemma published_rv:
  assumes "rg_inv st look s0 r" "i < length (rg_published r)"
  shows "resourceVersionOf (snd (rg_published r ! i)) = Some (base_rv st s0 + of_nat (Suc i))"
proof -
  from assms(1) have "map (\<lambda>ev. resourceVersionOf (snd ev)) (rg_published r) ! i
      = map (\<lambda>i. Some (base_rv st s0 + of_nat (Suc i))) [0..<length (rg_published r)] ! i"
    unfolding rg_inv_def by metis
  with assms(2) show ?thesis by simp
qed

lemma current_after_init:
  assumes "rg_inv st look s0 r"
  shows "al_current (rg_alloc (initRV st r)) = base_rv st s0 + of_nat (length (rg_published r))"
  using rg_inv_init [OF assms] by (simp add: rg_inv_def)

lemma stored_le_current:
  assumes ok: "store_ok st look" and inv: "rg_inv st look s0 r" and lst: "fst (os_list st s0) = None"
    and bound: "unat (base_rv st s0) + length (rg_published r) < 2 ^ 64"
    and obj: "look (rg_store r) k = Some obj" "resourceVersionOf obj = Some n"
  shows "n \<le> base_rv st s0 + of_nat (length (rg_published r))"
proof -
  let ?b = "base_rv st s0" and ?l = "length (rg_published r)"
  from inv obj(1) have "fold ev_apply (rg_published r) (look s0) k = Some obj" by (simp add: rg_inv_def)
  then consider "look s0 k = Some obj" | "obj \<in> snd ` set (rg_published r)" using replay_origin by blast
  then show ?thesis
  proof cases
    case 1
    with store_okD(5) [OF ok lst] have "obj \<in> set (map snd (snd (os_list st s0)))"
      by (metis map_of_SomeD snd_conv image_eqI set_map)
    then have "n \<le> ?b" unfolding base_rv_def by (rule fold_max_rv_mem) (rule obj(2))
    also have "?b \<le> ?b + of_nat ?l" using rv_bound [OF bound] by (simp add: word_le_nat_alt)
    finally show ?thesis .
  next
    case 2
    then obtain i where i: "i < ?l" "obj = snd (rg_published r ! i)" by (auto simp: in_set_conv_nth)
    with published_rv [OF inv i(1)] obj(2) have "n = ?b + of_nat (Suc i)" by simp
    then show ?thesis
      using rv_bound [of ?b "Suc i"] rv_bound [OF bound] bound i(1)
      by (simp add: word_le_nat_alt del: of_nat_Suc)
  qed
qed

text \<open>
  C9: Whatever sequence of creates, updates, status updates, deletes and lists runs against a
  resource, failing ones included, the storage holds exactly what a client gets that replays the
  published events over the initial content; the events carry consecutive resource versions, in the
  order they were published; and, provided the listing of the storage that initialises the counter has not failed, no
  stored object has a version above the counter, so every later write is newer than everything stored.
  (When that one listing fails, the counter starts at 0 for good and this last part is false:
  \<open>init_failure_is_permanent\<close>. The counter is a 64-bit word; the versions are assumed not to wrap.)
\<close>

theorem storage_is_replayed_history:
  fixes st :: "(('sp, 'st) robj, 's) obj_store" and sg :: "('sp, 'st, 'u) strategy"
  assumes ok: "store_ok st look"
    and r: "r = run_ops (rg_step sg st) ops (rg_new s0)"
    and bound: "unat (base_rv st s0) + length (rg_published r) < 2 ^ 64"
  shows "look (rg_store r) = fold ev_apply (rg_published r) (look s0)
    \<and> map (\<lambda>ev. map_option unat (resourceVersionOf (snd ev))) (rg_published r)
        = map (\<lambda>i. Some (unat (base_rv st s0) + Suc i)) [0..<length (rg_published r)]
    \<and> (fst (os_list st s0) = None \<longrightarrow> (\<forall>k obj n. look (rg_store r) k = Some obj \<and> resourceVersionOf obj = Some n \<longrightarrow>
         n \<le> al_current (rg_alloc (initRV st r))))"
proof (intro conjI allI impI)
  have inv: "rg_inv st look s0 r" using rg_runs.inv_run [of st look s0 sg ops] ok r by simp
  then show "look (rg_store r) = fold ev_apply (rg_published r) (look s0)" by (simp add: rg_inv_def)
  show "map (\<lambda>ev. map_option unat (resourceVersionOf (snd ev))) (rg_published r)
        = map (\<lambda>i. Some (unat (base_rv st s0) + Suc i)) [0..<length (rg_published r)]"
  proof (rule nth_equalityI)
    fix i
    assume "i < length (map (\<lambda>ev. map_option unat (resourceVersionOf (snd ev))) (rg_published r))"
    then have i: "i < length (rg_published r)" by simp
    then show "map (\<lambda>ev. map_option unat (resourceVersionOf (snd ev))) (rg_published r) ! i
        = map (\<lambda>i. Some (unat (base_rv st s0) + Suc i)) [0..<length (rg_published r)] ! i"
      using published_rv [OF inv i] rv_bound [of "base_rv st s0" "Suc i"] bound by (simp del: of_nat_Suc)
  qed simp
  show "n \<le> al_current (rg_alloc (initRV st r))"
    if lst: "fst (os_list st s0) = None" and "look (rg_store r) k = Some obj \<and> resourceVersionOf obj = Some n" for k obj n
    using stored_le_current [OF ok inv lst bound] that(2) current_after_init [OF inv] by metis
qed

definition wrote ::
  "('s \<Rightarrow> okey \<Rightarrow> ('sp, 'st) robj option) \<Rightarrow> watch_type \<Rightarrow> ('sp, 'st) robj
     \<Rightarrow> (('sp, 'st) robj, 's) registry \<Rightarrow> (('sp, 'st) robj \<times> goerr option) \<times> (('sp, 'st) robj, 's) registry \<Rightarrow> bool" where
  "wrote look kind obj r out \<longleftrightarrow>
     (let ((res, err), r') = out; n = al_current (rg_alloc r) + 1; obj' = setResourceVersion (FormatUint n) obj in
      if err \<noteq> None
      then rg_published r' = rg_published r \<and> rg_alloc r' = rg_alloc r \<and> look (rg_store r') = look (rg_store r)
      else res = obj' \<and> rg_published r' = rg_published r @ [(kind, obj')] \<and> al_current (rg_alloc r') = n
        \<and> look (rg_store r') = ev_apply (kind, obj') (look (rg_store r)))"

text \<open>
  A write has one of two outcomes. Either the call fails: the storage, the counter and the
  published events are as before. Or it succeeds: exactly one event is published, it carries the object
  the call returns with the next version, and the storage is what the event says. A dry run and an
  update that changes nothing leave everything as it is.
\<close>

theorem write_outcome:
  fixes st :: "(('sp, 'st) robj, 's) obj_store" and sg :: "('sp, 'st, 'u) strategy"
  assumes ok: "store_ok st look" and init: "al_init (rg_alloc r)"
  shows "wrote look Added obj r (rg_Create sg st (ro_key obj) obj False r)
    \<and> (if sg_IsEqual sg obj old then rg_Update sg st (ro_key obj) obj old False r = ((obj, None), r)
       else wrote look Modified (setNextGeneration sg obj old) r (rg_Update sg st (ro_key obj) obj old False r))
    \<and> (if sg_IsStatusEqual sg obj old then rg_StatusUpdate sg st (ro_key obj) obj old False r = ((obj, None), r)
       else wrote look Modified obj r (rg_StatusUpdate sg st (ro_key obj) obj old False r))
    \<and> wrote look Deleted obj r (rg_Delete sg st (ro_key obj) obj False r)
    \<and> snd (rg_Create sg st (ro_key obj) obj True r) = r \<and> snd (rg_Update sg st (ro_key obj) obj old True r) = r
    \<and> snd (rg_StatusUpdate sg st (ro_key obj) obj old True r) = r \<and> snd (rg_Delete sg st (ro_key obj) obj True r) = r"
proof -
  let ?n = "FormatUint (al_current (rg_alloc r) + 1)"
  have up: "wrote look Modified o' r (rg_store_update st (ro_key o') o' r)" for o'
    using init store_okD(2) [OF ok, of "ro_key o'" "setResourceVersion ?n o'" "rg_store r"]
    by (auto simp: wrote_def rg_store_update_def rv_write_def Let_def split: prod.split option.split)
  have cr: "wrote look Added obj r (rg_Create sg st (ro_key obj) obj False r)"
    using init store_okD(1) [OF ok, of "ro_key obj" "setResourceVersion ?n obj" "rg_store r"]
    by (auto simp: wrote_def rg_Create_def rv_write_def Let_def split: prod.split option.split)
  have de: "wrote look Deleted obj r (rg_Delete sg st (ro_key obj) obj False r)"
    using init store_okD(3) [OF ok, of "ro_key obj" "rg_store r"]
    by (auto simp: wrote_def rg_Delete_def rv_write_def Let_def split: prod.split option.split)
  show ?thesis
    using cr de up [of "setNextGeneration sg obj old"] up [of obj]
    by (simp add: rg_Update_def rg_StatusUpdate_def rg_Create_def rg_Delete_def)
qed

definition sample_meta :: "string \<Rightarrow> string \<Rightarrow> objmeta" where
  "sample_meta name rv = empty_meta\<lparr>m_name := name, m_namespace := ''ns'', m_resourceVersion := rv\<rparr>"

definition sample_robj :: "string \<Rightarrow> string \<Rightarrow> nat \<Rightarrow> (nat, nat) robj" where
  "sample_robj name rv spec = \<lparr>ro_meta = sample_meta name rv, ro_spec = spec, ro_status = 0\<rparr>"

definition alist_objects :: "((nat, nat) robj, bool \<times> (okey \<times> (nat, nat) robj) list) obj_store" where
  \<comment> \<open>a map in memory; the flag makes its listing fail\<close>
  "alist_objects = \<lparr>
     os_get = (\<lambda>k s. case map_of (snd s) k of None \<Rightarrow> Inl (err_new ''not found'') | Some v \<Rightarrow> Inr v),
     os_create = (\<lambda>k v s. if map_of (snd s) k \<noteq> None then (Some (err_new ''already exists''), s)
        else (None, (fst s, AList.update k v (snd s)))),
     os_update = (\<lambda>k v s. (None, (fst s, AList.update k v (snd s)))),
     os_delete = (\<lambda>k s. if map_of (snd s) k = None then (Some (err_new ''not found''), s)
        else (None, (fst s, AList.delete k (snd s)))),
     os_list = (\<lambda>s. if fst s then (Some (err_new ''list failed''), [])
        else (None, map (\<lambda>k. (k, the (map_of (snd s) k))) (remdups (map fst (snd s)))))\<rparr>"

lemma alist_objects_ok: "store_ok alist_objects (map_of \<circ> snd)"
proof -
  have l: "map_of (map (\<lambda>k. (k, the (map_of xs k))) (remdups (map fst xs))) = map_of xs" for xs :: "(okey \<times> (nat, nat) robj) list"
    by (rule ext) (auto simp: map_of_map_keys map_of_eq_None_iff domIff dom_map_of_conv_image_fst [symmetric])
  show ?thesis unfolding store_ok_def alist_objects_def
    by (auto simp: isl_def AList.update_conv' AList.delete_conv' l o_def split: option.split)
qed

definition sample_strategy :: "(nat, nat, nat) strategy" where
  "sample_strategy = \<lparr>sg_gr = ''configs'', sg_IsEqual = (\<lambda>a b. ro_spec a = ro_spec b),
     sg_IsStatusEqual = (\<lambda>a b. ro_status a = ro_status b), sg_specU = id, sg_DryRunCreate = None,
     sg_DryRunUpdate = None, sg_DryRunDelete = None\<rparr>"

definition sample_ops :: "(nat, nat) rg_op list" where
  "sample_ops = [OpCreate (sample_robj ''b'' [] 1), OpCreate (sample_robj ''b'' [] 1),
     OpUpdate (sample_robj ''b'' ''6'' 2) (sample_robj ''b'' ''6'' 1), OpDelete (sample_robj ''a'' ''5'' 0)]"

definition sample_content :: "bool \<times> (okey \<times> (nat, nat) robj) list" where
  "sample_content = (False, [((''ns'', ''a''), sample_robj ''a'' ''5'' 0)])"

lemma storage_is_replayed_history_witness:
  "let r = run_ops (rg_step sample_strategy alist_objects) sample_ops (rg_new sample_content) in
   map (\<lambda>ev. map_option unat (resourceVersionOf (snd ev))) (rg_published r) = [Some 6, Some 7, Some 8]
   \<and> map_of (snd (rg_store r)) = fold ev_apply (rg_published r) (map_of (snd sample_content))"
proof -
  have l: "fst (os_list alist_objects sample_content) = None" by (simp add: alist_objects_def sample_content_def)
  have b: "unat (base_rv alist_objects sample_content) = 5" by code_simp
  have n: "length (rg_published (run_ops (rg_step sample_strategy alist_objects) sample_ops (rg_new sample_content))) = 3"
    by code_simp
  show ?thesis
    using storage_is_replayed_history [OF alist_objects_ok refl, of sample_content sample_strategy sample_ops] l b n
    by (simp add: Let_def upt_rec)
qed

lemma write_outcome_witness:
  "wrote (map_of \<circ> snd) Added (sample_robj ''b'' [] 1) (initRV alist_objects (rg_new sample_content))
     (rg_Create sample_strategy alist_objects (''ns'', ''b'') (sample_robj ''b'' [] 1) False
       (initRV alist_objects (rg_new sample_content)))"
proof -
  have k: "m_namespace (ro_meta (sample_robj ''b'' [] 1)) = ''ns''" "m_name (ro_meta (sample_robj ''b'' [] 1)) = ''b''"
    by (simp_all add: sample_robj_def sample_meta_def)
  show ?thesis
    using write_outcome [OF alist_objects_ok initRV_sel(3) [of alist_objects "rg_new sample_content"],
        of "sample_robj ''b'' [] 1" sample_strategy "sample_robj ''b'' [] 1"] unfolding k by blast
qed

text \<open>
  The counter is initialised once, and the attempt counts even when the listing of the storage
  fails: with a listing that fails before the first object, the first create takes version 1 whatever
  versions the storage holds, and no later call initialises the counter again, even when the listing
  works by then. Versions can then go back below stored objects.
\<close>

theorem init_failure_is_permanent:
  fixes st :: "(('sp, 'st) robj, 's) obj_store" and sg :: "('sp, 'st, 'u) strategy"
  assumes "os_list st s0 = (Some e, [])" and "os_create st key (setResourceVersion ''1'' obj) s0 = (None, s1)"
  shows "\<exists>r. rg_Create sg st key obj False (rg_new s0) = ((setResourceVersion ''1'' obj, None), r)
    \<and> rg_store r = s1 \<and> rg_published r = [(Added, setResourceVersion ''1'' obj)] \<and> (\<forall>st'. initRV st' r = r)"
proof -
  have one: "FormatUint 1 = ''1''" by code_simp
  have "initRV st (rg_new s0) = (rg_new s0)\<lparr>rg_alloc := \<lparr>al_init = True, al_current = 0\<rparr>\<rparr>"
    by (simp add: initRV_def ensureInit_def rg_new_def assms(1))
  with assms(2) one show ?thesis by (simp add: rg_Create_def rv_write_def rg_new_def Let_def)
qed

lemma init_failure_is_permanent_witness:
  "\<exists>r. rg_Create sample_strategy alist_objects (''ns'', ''b'') (sample_robj ''b'' [] 1) False
       (rg_new (True, snd sample_content)) = ((setResourceVersion ''1'' (sample_robj ''b'' [] 1), None), r)
    \<and> map_option (\<lambda>obj. resourceVersionOf obj) (map_of (snd (rg_store r)) (''ns'', ''a'')) = Some (Some 5)
    \<and> (\<forall>st'. initRV st' r = r)"
proof -
  have l: "os_list alist_objects (True, snd sample_content) = (Some (err_new ''list failed''), [])"
    by (simp add: alist_objects_def)
  have c: "os_create alist_objects (''ns'', ''b'') (setResourceVersion ''1'' (sample_robj ''b'' [] 1)) (True, snd sample_content)
      = (None, (True, AList.update (''ns'', ''b'') (setResourceVersion ''1'' (sample_robj ''b'' [] 1)) (snd sample_content)))"
    by (simp add: alist_objects_def sample_content_def)
  have a: "map_option (\<lambda>obj. resourceVersionOf obj) (map_of (snd sample_content) (''ns'', ''a'')) = Some (Some 5)"
    by code_simp
  from init_failure_is_permanent [OF l c, of sample_strategy] a show ?thesis
    by (auto simp: AList.update_conv')
qed

end
