(* ===== verification/Watch.thy ===== *)
theory Watch
  imports Registry
begin

text \<open>
  A watch on a resource (\<open>pkg/registry/generic/watcher.go\<close>): the goroutine \<open>listAndWatch\<close> as a
  program counter with one step per blocking operation, running against the writers of \<open>Registry\<close> and
  the watcher manager that hands the published events to \<open>OnChange\<close>. The manager is
  \<open>github.com/henderiw/apiserver-store/pkg/watcher-manager\<close>, of which the steps below use the contract
  its interface states: after \<open>Add\<close> returned, every event taken from its channel is handed to the
  watcher, in the order of the channel, until \<open>OnChange\<close> answers false or the watcher is done.
\<close>

section \<open>The watcher\<close>

datatype watch_error = BadRequest string | TooManyRequests string | ResourceExpired "64 word" "64 word"
  | InternalErr string

datatype 'o wout = WEvent "'o wevent" | WBookmark string | WError watch_error

record 'o watcher =
  w_queue :: "'o wevent list"
  w_overflow :: bool
  w_cancelled :: bool
  w_out :: "'o wout list"

definition watchQueueSize :: nat where "watchQueueSize = 1024"

definition newWatcher :: "'o watcher" where
  "newWatcher = \<lparr>w_queue = [], w_overflow = False, w_cancelled = False, w_out = []\<rparr>"

definition wt_Stop :: "'o watcher \<Rightarrow> 'o watcher" where
  "wt_Stop w = w\<lparr>w_cancelled := True\<rparr>"

definition OnChange :: "'o wevent \<Rightarrow> 'o watcher \<Rightarrow> bool \<times> 'o watcher" where
  "OnChange ev w =
     (if length (w_queue w) < watchQueueSize then (True, w\<lparr>w_queue := w_queue w @ [ev]\<rparr>)
      else (False, w\<lparr>w_overflow := True, w_cancelled := True\<rparr>))"

definition wt_send :: "bool \<Rightarrow> 'o wout \<Rightarrow> 'o watcher \<Rightarrow> bool \<times> 'o watcher" where
  \<comment> \<open>\<open>sent\<close>: the case of the \<open>select\<close> that is taken\<close>
  "wt_send sent ev w = (if sent then (True, w\<lparr>w_out := w_out w @ [ev]\<rparr>) else (False, w))"

definition sendError :: "bool \<Rightarrow> watch_error \<Rightarrow> 'o watcher \<Rightarrow> 'o watcher" where
  "sendError sent err w = snd (wt_send sent (WError err) w)"

section \<open>listAndWatch\<close>

datatype 'o wphase = WSubscribe | WStart | WList "64 word" | WInitial "64 word" "'o list" | WMark "64 word"
  | WStream "64 word" | WReturned

record ('o, 's) wsys =
  ws_reg :: "('o, 's) registry"
  ws_dispatched :: nat
  ws_added :: bool
  ws_w :: "'o watcher"
  ws_phase :: "'o wphase"

definition send_initial :: "('sp, 'st) list_options \<Rightarrow> bool" where
  "send_initial lo =
     (case lo_sendInitialEvents lo of Some b \<Rightarrow> b
      | None \<Rightarrow> lo_resourceVersion lo = [] \<or> lo_resourceVersion lo = ''0'')"

definition watch_list :: "('sp, 'st) list_options \<Rightarrow> bool" where
  "watch_list lo = (lo_sendInitialEvents lo = Some True)"

definition starting_point :: "('sp, 'st) list_options \<Rightarrow> 64 word \<Rightarrow> watch_error option" where
  \<comment> \<open>the check of the requested version against the current one\<close>
  "starting_point lo start =
     (let rv = lo_resourceVersion lo in
      if \<not> send_initial lo \<and> rv \<noteq> [] \<and> rv \<noteq> ''0''
      then (case ParseUint rv of
          None \<Rightarrow> Some (BadRequest (''invalid resourceVersion '' @ go_quote rv))
        | Some n \<Rightarrow> if n \<noteq> start then Some (ResourceExpired n start) else None)
      else None)"

fun stream_step ::
  "(('sp, 'st) robj \<Rightarrow> bool) \<Rightarrow> bool \<Rightarrow> bool \<Rightarrow> 64 word \<Rightarrow> ('sp, 'st) robj watcher
     \<Rightarrow> ('sp, 'st) robj watcher \<times> ('sp, 'st) robj wphase" where
  \<comment> \<open>one iteration of the loop of step 4; \<open>finish\<close>: the \<open>select\<close> takes \<open>ctx.Done()\<close>\<close>
  "stream_step selected finish sent start w =
     (if w_cancelled w \<and> (finish \<or> w_queue w = []) then (w, WReturned)
      else case w_queue w of
          [] \<Rightarrow> (w, WStream start)
        | ev # q \<Rightarrow>
            (let w = w\<lparr>w_queue := q\<rparr> in
             if (case resourceVersionOf (snd ev) of None \<Rightarrow> False | Some n \<Rightarrow> n \<le> start) then (w, WStream start)
             else if \<not> selected (snd ev) then (w, WStream start)
             else let (ok, w) = wt_send (sent \<or> \<not> w_cancelled w) (WEvent ev) w in
               (w, if ok then WStream start else WReturned)))"

definition thread_step ::
  "(('sp, 'st) robj, 's) obj_store \<Rightarrow> ('sp, 'st) list_options \<Rightarrow> goerr option \<Rightarrow> bool \<Rightarrow> bool
     \<Rightarrow> (('sp, 'st) robj, 's) wsys \<Rightarrow> (('sp, 'st) robj, 's) wsys" where
  \<comment> \<open>\<open>add\<close> is the answer of the manager's \<open>Add\<close>; \<open>sent\<close> matters only once the watch is cancelled:
      before, a send waits for the client\<close>
  "thread_step st lo add finish sent s =
     (let w = ws_w s; r = ws_reg s; sent = (sent \<or> \<not> w_cancelled w) in
      case predicate lo of
        Inl err \<Rightarrow> (case ws_phase s of WReturned \<Rightarrow> s
          | ph \<Rightarrow> s\<lparr>ws_w := sendError sent (BadRequest (e_msg err)) w, ws_phase := WReturned\<rparr>)
      | Inr selected \<Rightarrow>
          (case ws_phase s of
             WSubscribe \<Rightarrow>
               (case add of
                  Some err \<Rightarrow> s\<lparr>ws_w := sendError sent (TooManyRequests (e_msg err)) w, ws_phase := WReturned\<rparr>
                | None \<Rightarrow> s\<lparr>ws_added := True, ws_phase := WStart\<rparr>)
           | WStart \<Rightarrow>
               (let r = initRV st r; start = al_current (rg_alloc r); s = s\<lparr>ws_reg := r\<rparr> in
                case starting_point lo start of
                  Some err \<Rightarrow> s\<lparr>ws_w := sendError sent err w, ws_phase := WReturned\<rparr>
                | None \<Rightarrow> s\<lparr>ws_phase := (if send_initial lo then WList start else WStream start)\<rparr>)
           | WList start \<Rightarrow>
               (case os_list st (rg_store r) of
                  (Some err, objs) \<Rightarrow> s\<lparr>ws_w := sendError sent (InternalErr (e_msg err)) w, ws_phase := WReturned\<rparr>
                | (None, objs) \<Rightarrow> s\<lparr>ws_phase := WInitial start (filter selected (map snd objs))\<rparr>)
           | WInitial start [] \<Rightarrow> s\<lparr>ws_phase := (if watch_list lo then WMark start else WStream start)\<rparr>
           | WInitial start (obj # objs) \<Rightarrow>
               (let (ok, w) = wt_send sent (WEvent (Added, obj)) w in
                s\<lparr>ws_w := w, ws_phase := (if ok then WInitial start objs else WReturned)\<rparr>)
           | WMark start \<Rightarrow>
               (let (ok, w) = wt_send sent (WBookmark (FormatUint start)) w in
                s\<lparr>ws_w := w, ws_phase := (if ok then WStream start else WReturned)\<rparr>)
           | WStream start \<Rightarrow>
               (let (w, ph) = stream_step selected finish sent start w in s\<lparr>ws_w := w, ws_phase := ph\<rparr>)
           | WReturned \<Rightarrow> s))"

datatype ('sp, 'st) wop =
  WWrite "('sp, 'st) rg_op"
| WDispatch
| WClientStop
| WThread "goerr option" bool bool

definition wt_dispatch :: "('o, 's) wsys \<Rightarrow> ('o, 's) wsys" where
  \<comment> \<open>the manager takes the next published event\<close>
  "wt_dispatch s =
     (if ws_dispatched s < length (rg_published (ws_reg s))
      then let ev = rg_published (ws_reg s) ! ws_dispatched s; s = s\<lparr>ws_dispatched := Suc (ws_dispatched s)\<rparr> in
        if \<not> ws_added s then s
        else if w_cancelled (ws_w s) then s\<lparr>ws_added := False\<rparr>
        else let (keepGoing, w) = OnChange ev (ws_w s) in s\<lparr>ws_w := w, ws_added := keepGoing\<rparr>
      else s)"

fun wt_step ::
  "('sp, 'st, 'u) strategy \<Rightarrow> (('sp, 'st) robj, 's) obj_store \<Rightarrow> ('sp, 'st) list_options \<Rightarrow> ('sp, 'st) wop
     \<Rightarrow> (('sp, 'st) robj, 's) wsys \<Rightarrow> (('sp, 'st) robj, 's) wsys" where
  "wt_step sg st lo (WWrite op) s = s\<lparr>ws_reg := rg_step sg st op (ws_reg s)\<rparr>"
| "wt_step sg st lo WDispatch s = wt_dispatch s"
| "wt_step sg st lo WClientStop s = s\<lparr>ws_w := wt_Stop (ws_w s)\<rparr>"
| "wt_step sg st lo (WThread add finish sent) s = thread_step st lo add finish sent s"

definition wt_new :: "('o, 's) registry \<Rightarrow> ('o, 's) wsys" where
  "wt_new r = \<lparr>ws_reg = r, ws_dispatched = length (rg_published r), ws_added = False, ws_w = newWatcher,
     ws_phase = WSubscribe\<rparr>"

section \<open>The invariant of a watch\<close>

text \<open>
  Positions in the sequence of published events: the watcher has taken \<open>c\<close> of them out of its queue
  (counting those published before it subscribed), its queue reaches to \<open>e\<close>, and \<open>e\<close> is the position
  of the dispatcher as long as the manager feeds it. \<open>m0\<close> is the content before the first event, \<open>b\<close>
  the version before it.
\<close>

definition listed :: "('o \<Rightarrow> bool) \<Rightarrow> (okey \<Rightarrow> 'o option) \<Rightarrow> 'o list \<Rightarrow> bool" where
  "listed sel m os \<longleftrightarrow> (\<exists>objs. distinct (map fst objs) \<and> map_of objs = m \<and> os = filter sel (map snd objs))"

definition added_all :: "'o list \<Rightarrow> 'o wout list" where
  "added_all os = map (\<lambda>obj. WEvent (Added, obj)) os"

definition initial_sent ::
  "('sp, 'st) list_options \<Rightarrow> (('sp, 'st) robj \<Rightarrow> bool) \<Rightarrow> (okey \<Rightarrow> ('sp, 'st) robj option)
     \<Rightarrow> ('sp, 'st) robj wevent list \<Rightarrow> 64 word \<Rightarrow> nat \<Rightarrow> ('sp, 'st) robj wout list \<Rightarrow> bool" where
  "initial_sent lo sel m0 pub start s1 init \<longleftrightarrow>
     (if send_initial lo
      then (\<exists>p os. s1 \<le> p \<and> p \<le> length pub \<and> listed sel (fold ev_apply (take p pub) m0) os
        \<and> init = added_all os @ (if watch_list lo then [WBookmark (FormatUint start)] else []))
      else init = [])"

definition stream_of :: "(('sp, 'st) robj \<Rightarrow> bool) \<Rightarrow> ('sp, 'st) robj wevent list \<Rightarrow> nat \<Rightarrow> nat \<Rightarrow> ('sp, 'st) robj wevent list" where
  "stream_of sel pub s1 c = filter (\<lambda>ev. sel (snd ev)) (drop s1 (take c pub))"

fun phase_inv ::
  "('sp, 'st) list_options \<Rightarrow> (('sp, 'st) robj \<Rightarrow> bool) \<Rightarrow> 64 word \<Rightarrow> (okey \<Rightarrow> ('sp, 'st) robj option)
     \<Rightarrow> ('sp, 'st) robj wevent list \<Rightarrow> nat \<Rightarrow> ('sp, 'st) robj wout list \<Rightarrow> ('sp, 'st) robj wphase \<Rightarrow> bool" where
  "phase_inv lo sel b m0 pub c out WSubscribe = (out = [])"
| "phase_inv lo sel b m0 pub c out WStart = (out = [])"
| "phase_inv lo sel b m0 pub c out (WList start) =
     (out = [] \<and> send_initial lo \<and> (\<exists>s1. start = b + of_nat s1 \<and> c \<le> s1 \<and> s1 \<le> length pub))"
| "phase_inv lo sel b m0 pub c out (WInitial start os) =
     (send_initial lo \<and> (\<exists>s1 p os'. start = b + of_nat s1 \<and> c \<le> s1 \<and> s1 \<le> p \<and> p \<le> length pub
        \<and> listed sel (fold ev_apply (take p pub) m0) (os' @ os) \<and> out = added_all os'))"
| "phase_inv lo sel b m0 pub c out (WMark start) =
     (watch_list lo \<and> (\<exists>s1 p os. start = b + of_nat s1 \<and> c \<le> s1 \<and> s1 \<le> p \<and> p \<le> length pub
        \<and> listed sel (fold ev_apply (take p pub) m0) os \<and> out = added_all os))"
| "phase_inv lo sel b m0 pub c out (WStream start) =
     (\<exists>s1 init. start = b + of_nat s1 \<and> s1 \<le> length pub \<and> initial_sent lo sel m0 pub start s1 init
        \<and> out = init @ map WEvent (stream_of sel pub s1 c))"
| "phase_inv lo sel b m0 pub c out WReturned = True"

fun phase_start :: "'o wphase \<Rightarrow> 64 word option" where
  "phase_start (WList start) = Some start"
| "phase_start (WInitial start os) = Some start"
| "phase_start (WMark start) = Some start"
| "phase_start (WStream start) = Some start"
| "phase_start ph = None"

definition wt_at ::
  "(('sp, 'st) robj, 's) obj_store \<Rightarrow> ('sp, 'st) list_options \<Rightarrow> (('sp, 'st) robj \<Rightarrow> bool)
     \<Rightarrow> ('s \<Rightarrow> okey \<Rightarrow> ('sp, 'st) robj option) \<Rightarrow> 's \<Rightarrow> (('sp, 'st) robj, 's) wsys \<Rightarrow> nat \<Rightarrow> nat \<Rightarrow> bool" where
  "wt_at st lo sel look s0 s c e \<longleftrightarrow>
     rg_inv st look s0 (ws_reg s) \<and> ws_dispatched s \<le> length (rg_published (ws_reg s))
     \<and> (ws_phase s = WReturned \<or>
          (ws_phase s = WSubscribe \<longrightarrow> w_queue (ws_w s) = [] \<and> \<not> ws_added s)
          \<and> c \<le> e \<and> e \<le> ws_dispatched s \<and> w_queue (ws_w s) = drop c (take e (rg_published (ws_reg s)))
          \<and> (ws_added s \<longrightarrow> e = ws_dispatched s)
          \<and> (\<forall>start. phase_start (ws_phase s) = Some start \<longrightarrow> starting_point lo start = None)
          \<and> phase_inv lo sel (base_rv st s0) (look s0) (rg_published (ws_reg s)) c (w_out (ws_w s)) (ws_phase s))"

definition wt_inv ::
  "(('sp, 'st) robj, 's) obj_store \<Rightarrow> ('sp, 'st) list_options \<Rightarrow> (('sp, 'st) robj \<Rightarrow> bool)
     \<Rightarrow> ('s \<Rightarrow> okey \<Rightarrow> ('sp, 'st) robj option) \<Rightarrow> 's \<Rightarrow> (('sp, 'st) robj, 's) wsys \<Rightarrow> bool" where
  "wt_inv st lo sel look s0 s \<longleftrightarrow> (\<exists>c e. wt_at st lo sel look s0 s c e)"

definition in_range :: "(('sp, 'st) robj, 's) obj_store \<Rightarrow> 's \<Rightarrow> (('sp, 'st) robj, 's) wsys \<Rightarrow> bool" where
  "in_range st s0 s \<longleftrightarrow> unat (base_rv st s0) + length (rg_published (ws_reg s)) < 2 ^ 64"

lemma watch_list_initial [simp]: "watch_list lo \<Longrightarrow> send_initial lo"
  by (simp add: watch_list_def send_initial_def)

lemma rv_write_published: "\<exists>ext. rg_published (snd (rv_write fn r)) = rg_published r @ ext"
  by (auto simp: rv_write_def Let_def split: prod.split sum.split)

lemma store_update_published: "\<exists>ext. rg_published (snd (rg_store_update st key obj r)) = rg_published r @ ext"
  using rv_write_published [of _ "initRV st r"] by (simp add: rg_store_update_def Let_def split_beta)

lemma rg_step_published: "\<exists>ext. rg_published (rg_step sg st op r) = rg_published r @ ext"
proof (cases op)
  case (OpUpdate obj old)
  then show ?thesis using store_update_published [of st _ "setNextGeneration sg obj old" r] by (simp add: rg_Update_def)
next
  case (OpStatus obj old)
  then show ?thesis using store_update_published [of st _ obj r] by (simp add: rg_StatusUpdate_def)
qed (use rv_write_published [of _ "initRV st r"] in \<open>simp_all add: rg_Create_def rg_Delete_def Let_def split_beta\<close>)

lemma phase_inv_extend:
  assumes "phase_inv lo sel b m0 pub c out ph" "c \<le> length pub"
  shows "phase_inv lo sel b m0 (pub @ ext) c out ph"
proof -
  have t: "p \<le> length pub \<Longrightarrow> take p (pub @ ext) = take p pub" for p by simp
  have l: "n \<le> length pub \<Longrightarrow> n \<le> length (pub @ ext)" for n by simp
  have i: "initial_sent lo sel m0 pub start s1 init \<Longrightarrow> initial_sent lo sel m0 (pub @ ext) start s1 init" for start s1 init
    unfolding initial_sent_def using t l by metis
  show ?thesis
  proof (cases ph)
    case (WInitial start os)
    with assms obtain s1 p os' where "send_initial lo" "start = b + of_nat s1" "c \<le> s1" "s1 \<le> p" "p \<le> length pub"
        "listed sel (fold ev_apply (take p pub) m0) (os' @ os)" "out = added_all os'" by auto
    then show ?thesis unfolding WInitial phase_inv.simps
      by (intro conjI exI [of _ s1] exI [of _ p] exI [of _ os']) simp_all
  next
    case (WMark start)
    with assms obtain s1 p os' where "watch_list lo" "start = b + of_nat s1" "c \<le> s1" "s1 \<le> p" "p \<le> length pub"
        "listed sel (fold ev_apply (take p pub) m0) os'" "out = added_all os'" by auto
    then show ?thesis unfolding WMark phase_inv.simps
      by (intro conjI exI [of _ s1] exI [of _ p] exI [of _ os']) simp_all
  next
    case (WStream start)
    with assms obtain s1 init where "start = b + of_nat s1" "s1 \<le> length pub" "initial_sent lo sel m0 pub start s1 init"
        "out = init @ map WEvent (stream_of sel pub s1 c)" by auto
    with i assms(2) show ?thesis unfolding WStream phase_inv.simps
      by (intro exI [of _ s1] exI [of _ init]) (simp add: stream_of_def)
  qed (use assms in auto)
qed

lemma wt_inv_returned:
  "rg_inv st look s0 (ws_reg s) \<Longrightarrow> ws_dispatched s \<le> length (rg_published (ws_reg s)) \<Longrightarrow>
     ws_phase s = WReturned \<Longrightarrow> wt_inv st lo sel look s0 s"
  by (simp add: wt_inv_def wt_at_def)

lemma wt_invE:
  assumes "wt_inv st lo sel look s0 s"
  obtains c e where "wt_at st lo sel look s0 s c e"
  using assms unfolding wt_inv_def by blast

lemma wt_inv_write:
  assumes "wt_inv st lo sel look s0 s" "rg_inv st look s0 r'" "rg_published r' = rg_published (ws_reg s) @ ext"
  shows "wt_inv st lo sel look s0 (s\<lparr>ws_reg := r'\<rparr>)"
proof (rule wt_invE [OF assms(1)])
  fix c e
  assume at: "wt_at st lo sel look s0 s c e"
  show ?thesis
  proof (cases "ws_phase s = WReturned")
    case False
    with at have "c \<le> length (rg_published (ws_reg s))" "phase_inv lo sel (base_rv st s0) (look s0)
        (rg_published (ws_reg s)) c (w_out (ws_w s)) (ws_phase s)" by (simp_all add: wt_at_def)
    from phase_inv_extend [OF this(2,1), of ext] at assms(2,3) False have "wt_at st lo sel look s0 (s\<lparr>ws_reg := r'\<rparr>) c e"
      by (auto simp: wt_at_def)
    then show ?thesis unfolding wt_inv_def by blast
  qed (use at assms in \<open>simp add: wt_inv_returned wt_at_def\<close>)
qed

lemma wt_dispatch_sel:
  "ws_phase (wt_dispatch s) = ws_phase s" "ws_reg (wt_dispatch s) = ws_reg s"
  "ws_dispatched s \<le> length (rg_published (ws_reg s)) \<Longrightarrow> ws_dispatched (wt_dispatch s) \<le> length (rg_published (ws_reg s))"
  by (auto simp: wt_dispatch_def OnChange_def Let_def)

lemma wt_inv_dispatch:
  assumes "wt_inv st lo sel look s0 s"
  shows "wt_inv st lo sel look s0 (wt_dispatch s)"
proof (rule wt_invE [OF assms])
  fix c e
  assume at: "wt_at st lo sel look s0 s c e"
  let ?d = "ws_dispatched s" and ?pub = "rg_published (ws_reg s)"
  consider (ret) "ws_phase s = WReturned" | (none) "\<not> ?d < length ?pub"
    | (add) "ws_phase s \<noteq> WReturned" "?d < length ?pub"
        "ws_added s \<and> \<not> w_cancelled (ws_w s) \<and> length (w_queue (ws_w s)) < watchQueueSize"
    | (drop) "ws_phase s \<noteq> WReturned" "?d < length ?pub"
        "\<not> (ws_added s \<and> \<not> w_cancelled (ws_w s) \<and> length (w_queue (ws_w s)) < watchQueueSize)" by blast
  then show ?thesis
  proof cases
    case ret
    with at show ?thesis by (simp add: wt_inv_returned wt_dispatch_sel wt_at_def)
  next
    case none
    with assms show ?thesis by (simp add: wt_dispatch_def)
  next
    case add
    with at have "w_queue (ws_w s) @ [?pub ! ?d] = drop c (take (Suc ?d) ?pub)"
      by (simp add: take_Suc_conv_app_nth wt_at_def)
    with at add have "wt_at st lo sel look s0 (wt_dispatch s) c (Suc ?d)"
      by (auto simp: wt_at_def wt_dispatch_def Let_def OnChange_def)
    then show ?thesis unfolding wt_inv_def by blast
  next
    case drop
    with at have "wt_at st lo sel look s0 (wt_dispatch s) c e"
      by (auto simp: wt_at_def wt_dispatch_def Let_def OnChange_def)
    then show ?thesis unfolding wt_inv_def by blast
  qed
qed

lemma wt_send_True [simp]: "wt_send True ev w = (True, w\<lparr>w_out := w_out w @ [ev]\<rparr>)"
  by (simp add: wt_send_def)

lemma wt_send_out [simp]: "w_queue (snd (wt_send sent ev w)) = w_queue w" "fst (wt_send sent ev w) = sent"
  "w_cancelled (snd (wt_send sent ev w)) = w_cancelled w"
  by (simp_all add: wt_send_def)

lemma sendError_out [simp]: "w_queue (sendError sent err w) = w_queue w"
  by (simp add: sendError_def)

lemma event_covered:
  assumes inv: "rg_inv st look s0 r" and b: "unat (base_rv st s0) + length (rg_published r) < 2 ^ 64"
    and c: "c < length (rg_published r)" and s1: "s1 \<le> length (rg_published r)"
  shows "(case resourceVersionOf (snd (rg_published r ! c)) of None \<Rightarrow> False | Some n \<Rightarrow> n \<le> base_rv st s0 + of_nat s1)
      \<longleftrightarrow> c < s1"
proof -
  have "unat (base_rv st s0 + of_nat (Suc c)) = unat (base_rv st s0) + Suc c"
    "unat (base_rv st s0 + of_nat s1) = unat (base_rv st s0) + s1"
    using rv_bound [of "base_rv st s0" "Suc c"] rv_bound [of "base_rv st s0" s1] b c s1 by simp_all
  with published_rv [OF inv c] show ?thesis by (auto simp: word_le_nat_alt simp del: of_nat_Suc)
qed

lemma stream_of_Suc:
  assumes "c < length pub"
  shows "stream_of sel pub s1 (Suc c)
    = stream_of sel pub s1 c @ (if s1 \<le> c \<and> sel (snd (pub ! c)) then [pub ! c] else [])"
proof (cases "s1 \<le> c")
  case False
  then have "drop (s1 - c) [pub ! c] = []" by simp
  with assms False show ?thesis by (simp add: stream_of_def take_Suc_conv_app_nth)
qed (use assms in \<open>simp add: stream_of_def take_Suc_conv_app_nth\<close>)

lemma wt_inv_stream:
  assumes at: "wt_at st lo sel look s0 s c e" and ph: "ws_phase s = WStream start"
    and b: "in_range st s0 s" and step: "stream_step sel finish sent start (ws_w s) = (w, ph')"
  shows "wt_inv st lo sel look s0 (s\<lparr>ws_w := w, ws_phase := ph'\<rparr>)"
proof (cases "ph' = WReturned")
  case True
  with at show ?thesis by (simp add: wt_inv_returned wt_at_def)
next
  case False
  let ?pub = "rg_published (ws_reg s)"
  from at ph obtain s1 init where s1: "start = base_rv st s0 + of_nat s1" "s1 \<le> length ?pub"
      "initial_sent lo sel (look s0) ?pub start s1 init" "w_out (ws_w s) = init @ map WEvent (stream_of sel ?pub s1 c)"
    by (auto simp: wt_at_def)
  show ?thesis
  proof (cases "w_queue (ws_w s)")
    case Nil
    with step False have "w = ws_w s" "ph' = WStream start" by (auto split: if_splits)
    with at ph have "wt_at st lo sel look s0 (s\<lparr>ws_w := w, ws_phase := ph'\<rparr>) c e" by (simp add: wt_at_def)
    then show ?thesis unfolding wt_inv_def by blast
  next
    case (Cons ev q)
    with at ph have q: "drop c (take e ?pub) = ev # q" and e: "c \<le> e" "e \<le> ws_dispatched s" "e \<le> length ?pub"
        "ws_added s \<longrightarrow> e = ws_dispatched s"
      by (auto simp: wt_at_def)
    have c: "c < e"
    proof (rule ccontr)
      assume "\<not> c < e"
      then have "drop c (take e ?pub) = []" by simp
      with q show False by simp
    qed
    then have ev: "ev = ?pub ! c" and q': "q = drop (Suc c) (take e ?pub)"
      using q Cons_nth_drop_Suc [of c "take e ?pub"] e by simp_all
    have cov: "(case resourceVersionOf (snd ev) of None \<Rightarrow> False | Some n \<Rightarrow> n \<le> start) \<longleftrightarrow> c < s1"
      unfolding ev s1(1)
      by (rule event_covered [where look = look]) (use at b c e s1(2) in \<open>simp_all add: wt_at_def in_range_def\<close>)
    have w: "w = (ws_w s)\<lparr>w_queue := q, w_out := w_out (ws_w s) @ (if s1 \<le> c \<and> sel (snd ev) then [WEvent ev] else [])\<rparr>
        \<and> ph' = WStream start"
      using step False Cons by (auto simp: cov wt_send_def Let_def not_less split: if_splits)
    have "phase_inv lo sel (base_rv st s0) (look s0) ?pub (Suc c) (w_out w) ph'"
      unfolding w [THEN conjunct2] phase_inv.simps using s1 w stream_of_Suc [of c ?pub sel s1] c e ev
      by (intro exI [of _ s1] exI [of _ init]) simp
    with at w c e q' ph have "wt_at st lo sel look s0 (s\<lparr>ws_w := w, ws_phase := ph'\<rparr>) (Suc c) e"
      by (simp add: wt_at_def)
    then show ?thesis unfolding wt_inv_def by blast
  qed
qed

lemma listed_now:
  assumes "store_ok st look" "rg_inv st look s0 r" "os_list st (rg_store r) = (None, objs)"
  shows "listed sel (fold ev_apply (rg_published r) (look s0)) (filter sel (map snd objs))"
  using store_okD(4,5) [OF assms(1), of "rg_store r"] assms(2,3)
  unfolding listed_def rg_inv_def by (intro exI [of _ objs]) simp

lemma wt_inv_thread:
  assumes ok: "store_ok st look" and sel: "predicate lo = Inr sel" and inv: "wt_inv st lo sel look s0 s"
    and b: "in_range st s0 s"
  shows "wt_inv st lo sel look s0 (thread_step st lo add finish sent s)"
proof (rule wt_invE [OF inv])
  fix c e
  assume at: "wt_at st lo sel look s0 s c e"
  let ?t = "thread_step st lo add finish sent s" and ?r = "ws_reg s" and ?sent = "sent \<or> \<not> w_cancelled (ws_w s)"
  have rg: "rg_inv st look s0 ?r" "ws_dispatched s \<le> length (rg_published ?r)" using at by (simp_all add: wt_at_def)
  have i: "wt_at st lo sel look s0 ?t c' e' \<Longrightarrow> ?thesis" for c' e' unfolding wt_inv_def by blast
  show ?thesis
  proof (cases "ws_phase s")
    case WSubscribe
    with at have "wt_at st lo sel look s0 ?t (ws_dispatched s) (ws_dispatched s)"
      by (cases add) (simp_all add: thread_step_def sel wt_at_def Let_def)
    then show ?thesis by (rule i)
  next
    case WStart
    let ?start = "al_current (rg_alloc (initRV st ?r))"
    have st: "?start = base_rv st s0 + of_nat (length (rg_published ?r))" using current_after_init [OF rg(1)] .
    have "wt_at st lo sel look s0 ?t c e"
    proof (cases "starting_point lo ?start")
      case None
      have c: "c \<le> length (rg_published ?r)" using at WStart rg(2) by (simp add: wt_at_def)
      have "phase_inv lo sel (base_rv st s0) (look s0) (rg_published ?r) c [] (if send_initial lo then WList ?start else WStream ?start)"
        using c st by (auto simp: initial_sent_def stream_of_def intro!: exI [of _ "length (rg_published ?r)"])
      with at WStart None show ?thesis by (simp add: thread_step_def sel wt_at_def Let_def split: if_splits)
    qed (use WStart rg in \<open>simp add: thread_step_def sel wt_at_def Let_def\<close>)
    then show ?thesis by (rule i)
  next
    case (WList start)
    with at obtain s1 where s1: "start = base_rv st s0 + of_nat s1" "c \<le> s1" "s1 \<le> length (rg_published ?r)"
        "w_out (ws_w s) = []" "send_initial lo" by (auto simp: wt_at_def)
    obtain err objs where l: "os_list st (rg_store ?r) = (err, objs)" by (metis surj_pair)
    have "wt_at st lo sel look s0 ?t c e"
    proof (cases err)
      case None
      have "phase_inv lo sel (base_rv st s0) (look s0) (rg_published ?r) c [] (WInitial start (filter sel (map snd objs)))"
        unfolding phase_inv.simps using s1 listed_now [OF ok rg(1)] l None
        by (intro conjI exI [of _ s1] exI [of _ "length (rg_published ?r)"] exI [of _ "[]"]) (simp_all add: added_all_def)
      with at WList s1 l None show ?thesis by (simp add: thread_step_def sel wt_at_def Let_def)
    qed (use WList rg l in \<open>simp add: thread_step_def sel wt_at_def Let_def\<close>)
    then show ?thesis by (rule i)
  next
    case (WInitial start os)
    with at obtain s1 p os' where s1: "start = base_rv st s0 + of_nat s1" "c \<le> s1" "s1 \<le> p" "p \<le> length (rg_published ?r)"
        "listed sel (fold ev_apply (take p (rg_published ?r)) (look s0)) (os' @ os)" "send_initial lo"
        "w_out (ws_w s) = added_all os'" by (auto simp: wt_at_def)
    have "wt_at st lo sel look s0 ?t c e"
    proof (cases os)
      case Nil
      have "phase_inv lo sel (base_rv st s0) (look s0) (rg_published ?r) c (w_out (ws_w s))
          (if watch_list lo then WMark start else WStream start)"
      proof (cases "watch_list lo")
        case True
        with s1 Nil show ?thesis by auto
      next
        case False
        then have "initial_sent lo sel (look s0) (rg_published ?r) start s1 (w_out (ws_w s))"
          using s1 Nil unfolding initial_sent_def by (auto intro: exI [of _ p] exI [of _ os'])
        with False s1 show ?thesis
          by (auto simp: stream_of_def intro!: exI [of _ s1] exI [of _ "w_out (ws_w s)"])
      qed
      with at WInitial Nil show ?thesis by (simp add: thread_step_def sel wt_at_def Let_def split: if_splits)
    next
      case (Cons obj objs)
      have "phase_inv lo sel (base_rv st s0) (look s0) (rg_published ?r) c (w_out (ws_w s) @ [WEvent (Added, obj)])
          (WInitial start objs)"
        unfolding phase_inv.simps using s1 Cons
        by (intro conjI exI [of _ s1] exI [of _ p] exI [of _ "os' @ [obj]"]) (simp_all add: added_all_def)
      with at WInitial Cons show ?thesis by (cases ?sent) (simp_all add: thread_step_def sel wt_at_def Let_def wt_send_def)
    qed
    then show ?thesis by (rule i)
  next
    case (WMark start)
    with at obtain s1 p os where s1: "start = base_rv st s0 + of_nat s1" "c \<le> s1" "s1 \<le> p" "p \<le> length (rg_published ?r)"
        "listed sel (fold ev_apply (take p (rg_published ?r)) (look s0)) os" "watch_list lo"
        "w_out (ws_w s) = added_all os" by (auto simp: wt_at_def)
    have "phase_inv lo sel (base_rv st s0) (look s0) (rg_published ?r) c (w_out (ws_w s) @ [WBookmark (FormatUint start)])
        (WStream start)"
    proof -
      have "initial_sent lo sel (look s0) (rg_published ?r) start s1 (w_out (ws_w s) @ [WBookmark (FormatUint start)])"
        using s1 unfolding initial_sent_def by (auto intro: exI [of _ p] exI [of _ os])
      with s1 show ?thesis
        by (auto simp: stream_of_def intro!: exI [of _ s1] exI [of _ "w_out (ws_w s) @ [WBookmark (FormatUint start)]"])
    qed
    with at WMark have "wt_at st lo sel look s0 ?t c e"
      by (cases ?sent) (simp_all add: thread_step_def sel wt_at_def Let_def wt_send_def)
    then show ?thesis by (rule i)
  next
    case (WStream start)
    obtain w ph' where step: "stream_step sel finish ?sent start (ws_w s) = (w, ph')" by (metis surj_pair)
    with wt_inv_stream [OF at WStream b step] WStream show ?thesis by (simp add: thread_step_def sel Let_def)
  next
    case WReturned
    with inv show ?thesis by (simp add: thread_step_def sel)
  qed
qed

section \<open>Runs of a watch\<close>

lemma wt_step_published: "\<exists>ext. rg_published (ws_reg (wt_step sg st lo op s)) = rg_published (ws_reg s) @ ext"
proof (cases op)
  case (WWrite op')
  then show ?thesis using rg_step_published by simp
next
  case (WThread add finish sent)
  have "rg_published (ws_reg (thread_step st lo add finish sent s)) = rg_published (ws_reg s)"
    by (auto simp: thread_step_def Let_def split: sum.split wphase.split option.split prod.split list.split)
  with WThread show ?thesis by simp
qed (simp_all add: wt_dispatch_sel)

lemma in_range_back: "in_range st s0 (wt_step sg st lo op s) \<Longrightarrow> in_range st s0 s"
  using wt_step_published [of sg st lo op s] by (auto simp: in_range_def)

lemma wt_inv_step:
  assumes ok: "store_ok st look" and sel: "predicate lo = Inr sel" and inv: "wt_inv st lo sel look s0 s"
    and b: "in_range st s0 s"
  shows "wt_inv st lo sel look s0 (wt_step sg st lo op s)"
proof (cases op)
  case (WWrite op')
  obtain ext where "rg_published (rg_step sg st op' (ws_reg s)) = rg_published (ws_reg s) @ ext"
    using rg_step_published by blast
  moreover have "rg_inv st look s0 (rg_step sg st op' (ws_reg s))"
    using inv rg_inv_step [OF ok] by (auto simp: wt_inv_def wt_at_def)
  ultimately show ?thesis using WWrite wt_inv_write [OF inv] by simp
next
  case WClientStop
  with inv show ?thesis by (auto simp: wt_inv_def wt_at_def wt_Stop_def)
qed (simp_all add: wt_inv_dispatch [OF inv] wt_inv_thread [OF ok sel inv b])

interpretation wt_runs: invariant_machine "wt_step sg st lo" "wt_new (rg_new s0)"
  "\<lambda>s. store_ok st look \<and> predicate lo = Inr sel \<and> in_range st s0 s \<longrightarrow> wt_inv st lo sel look s0 s"
  for sg :: "('sp, 'st, 'u) strategy" and st :: "(('sp, 'st) robj, 's) obj_store" and look and lo sel and s0 :: 's
proof unfold_locales
  show "store_ok st look \<and> predicate lo = Inr sel \<and> in_range st s0 (wt_new (rg_new s0)) \<longrightarrow>
      wt_inv st lo sel look s0 (wt_new (rg_new s0))"
    using rg_inv_new [of st look s0]
    by (auto simp: wt_inv_def wt_at_def wt_new_def newWatcher_def rg_new_def)
qed (blast dest: in_range_back intro: wt_inv_step)

section \<open>What the client sees\<close>

fun out_apply :: "('sp, 'st) robj wout \<Rightarrow> (okey \<Rightarrow> ('sp, 'st) robj option) \<Rightarrow> okey \<Rightarrow> ('sp, 'st) robj option" where
  \<comment> \<open>the cache of an informer\<close>
  "out_apply (WEvent ev) m = ev_apply ev m"
| "out_apply (WBookmark rv) m = m"
| "out_apply (WError err) m = m"

definition view_of :: "('o \<Rightarrow> bool) \<Rightarrow> (okey \<Rightarrow> 'o option) \<Rightarrow> okey \<Rightarrow> 'o option" where
  "view_of sel m k = (case m k of None \<Rightarrow> None | Some obj \<Rightarrow> if sel obj then Some obj else None)"

definition well_keyed :: "(okey \<Rightarrow> ('sp, 'st) robj option) \<Rightarrow> bool" where
  "well_keyed m \<longleftrightarrow> (\<forall>k obj. m k = Some obj \<longrightarrow> ro_key obj = k)"

definition by_key :: "(('sp, 'st) robj \<Rightarrow> bool) \<Rightarrow> bool" where
  \<comment> \<open>the selection does not change while an object lives\<close>
  "by_key sel \<longleftrightarrow> (\<forall>a b. ro_key a = ro_key b \<longrightarrow> sel a = sel b)"

fun ev_effect :: "okey \<Rightarrow> ('sp, 'st) robj wevent list \<Rightarrow> ('sp, 'st) robj option option" where
  "ev_effect k [] = None"
| "ev_effect k (ev # evs) =
     (case ev_effect k evs of Some v \<Rightarrow> Some v
      | None \<Rightarrow> if ro_key (snd ev) \<noteq> k then None
          else case fst ev of Added \<Rightarrow> Some (Some (snd ev)) | Modified \<Rightarrow> Some (Some (snd ev))
            | Deleted \<Rightarrow> Some None | Bookmark \<Rightarrow> None | Error_event \<Rightarrow> None)"

lemma replay_effect: "fold ev_apply evs m k = (case ev_effect k evs of None \<Rightarrow> m k | Some v \<Rightarrow> v)"
proof (induction evs arbitrary: m)
  case (Cons ev evs)
  then show ?case by (cases ev; cases "fst ev") (auto split: option.split)
qed simp

lemma ev_effect_append:
  "ev_effect k (xs @ ys) = (case ev_effect k ys of Some v \<Rightarrow> Some v | None \<Rightarrow> ev_effect k xs)"
  by (induction xs) (auto split: option.split)

lemma replay_again: "fold ev_apply (xs @ ys) (fold ev_apply xs m) = fold ev_apply (xs @ ys) m"
  by (rule ext) (simp only: replay_effect ev_effect_append split: option.split, simp)

lemma well_keyed_apply: "well_keyed m \<Longrightarrow> well_keyed (ev_apply ev m)"
  by (cases "(ev, m)" rule: ev_apply.cases) (auto simp: well_keyed_def)

lemma well_keyed_replay: "well_keyed m \<Longrightarrow> well_keyed (fold ev_apply evs m)"
  by (induction evs arbitrary: m) (auto simp: well_keyed_apply)

lemma view_of_apply:
  assumes "by_key sel" "well_keyed m"
  shows "view_of sel (ev_apply ev m) = (if sel (snd ev) then ev_apply ev (view_of sel m) else view_of sel m)"
proof -
  have "m (ro_key (snd ev)) = Some obj \<Longrightarrow> sel obj = sel (snd ev)" for obj
    using assms unfolding by_key_def well_keyed_def by blast
  then show ?thesis
    by (cases "(ev, m)" rule: ev_apply.cases) (auto simp: view_of_def fun_eq_iff split: option.split)
qed

lemma view_of_replay:
  "by_key sel \<Longrightarrow> well_keyed m \<Longrightarrow>
     view_of sel (fold ev_apply evs m) = fold ev_apply (filter (\<lambda>ev. sel (snd ev)) evs) (view_of sel m)"
  by (induction evs arbitrary: m) (simp_all add: view_of_apply well_keyed_apply)

lemma fold_out_events: "fold out_apply (map WEvent evs) m = fold ev_apply evs m"
  by (induction evs arbitrary: m) auto

lemma fold_added_all:
  assumes "distinct (map fst objs)" "\<forall>(k, obj) \<in> set objs. ro_key obj = k"
  shows "fold out_apply (added_all (filter sel (map snd objs))) acc k
    = (case map_of objs k of None \<Rightarrow> acc k | Some obj \<Rightarrow> if sel obj then Some obj else acc k)"
  using assms
proof (induction objs arbitrary: acc)
  case (Cons ko objs)
  obtain k' obj where ko: "ko = (k', obj)" by (cases ko)
  with Cons.prems have "map_of objs k' = None" "ro_key obj = k'" by (auto simp: map_of_eq_None_iff)
  with Cons ko show ?case by (auto simp: added_all_def split: option.split)
qed (simp add: added_all_def)

lemma client_after_list:
  assumes "listed sel m os" "well_keyed m"
  shows "fold out_apply (added_all os) Map.empty = view_of sel m"
proof -
  from assms(1) obtain objs where o: "distinct (map fst objs)" "map_of objs = m" "os = filter sel (map snd objs)"
    unfolding listed_def by blast
  have "\<forall>(k, obj) \<in> set objs. ro_key obj = k"
    using assms(2) o(1,2) unfolding well_keyed_def by (metis (mono_tags, lifting) case_prodI2 map_of_eq_Some_iff)
  from fold_added_all [OF o(1) this, of sel Map.empty] o(2,3) show ?thesis
    by (auto simp: view_of_def fun_eq_iff split: option.split)
qed

section \<open>How a watch ends\<close>

definition fed :: "('o, 's) wsys \<Rightarrow> bool" where
  \<comment> \<open>a watch that the manager no longer feeds has been cancelled\<close>
  "fed s \<longleftrightarrow> (w_overflow (ws_w s) \<longrightarrow> w_cancelled (ws_w s))
     \<and> (ws_phase s \<noteq> WSubscribe \<and> ws_phase s \<noteq> WReturned \<longrightarrow> ws_added s \<or> w_cancelled (ws_w s))"

lemma wt_send_flags [simp]: "w_overflow (snd (wt_send sent ev w)) = w_overflow w"
  "w_overflow (sendError sent err w) = w_overflow w" "w_cancelled (sendError sent err w) = w_cancelled w"
  by (simp_all add: wt_send_def sendError_def)

lemma stream_step_flags:
  assumes "stream_step sel finish sent start w = (w', ph)"
  shows "w_overflow w' = w_overflow w \<and> w_cancelled w' = w_cancelled w"
  using assms by (auto simp: wt_send_def Let_def split: if_splits list.splits prod.splits)

lemma fed_thread:
  assumes "fed s"
  shows "fed (thread_step st lo add finish sent s)"
proof (cases "predicate lo")
  case (Inl err)
  then show ?thesis using assms by (auto simp: thread_step_def fed_def Let_def split: wphase.split)
next
  case (Inr sel)
  show ?thesis
  proof (cases "ws_phase s")
    case (WStream start)
    obtain w ph where st: "stream_step sel finish (sent \<or> \<not> w_cancelled (ws_w s)) start (ws_w s) = (w, ph)" by (rule prod.exhaust)
    from stream_step_flags [OF st] assms st Inr WStream show ?thesis by (auto simp: thread_step_def fed_def Let_def)
  next
    case (WInitial start os)
    then show ?thesis using assms Inr by (cases os) (auto simp: thread_step_def fed_def Let_def wt_send_def)
  qed (use assms Inr in \<open>auto simp: thread_step_def fed_def Let_def wt_send_def split: option.split prod.split\<close>)
qed

lemma fed_step [step_inv]: "fed s \<Longrightarrow> fed (wt_step sg st lo op s)"
proof (cases op)
  case WDispatch
  assume "fed s"
  then show ?thesis by (auto simp: WDispatch fed_def wt_dispatch_def OnChange_def Let_def)
next
  case (WThread add finish sent)
  assume "fed s"
  then show ?thesis by (simp add: WThread fed_thread)
qed (auto simp: fed_def wt_Stop_def)

interpretation fed_runs: invariant_machine "wt_step sg st lo" "wt_new (rg_new s0)" fed
  for sg :: "('sp, 'st, 'u) strategy" and st :: "(('sp, 'st) robj, 's) obj_store" and lo and s0 :: 's
  by unfold_locales (simp add: fed_def wt_new_def newWatcher_def, erule fed_step)

definition thread_run ::
  "(('sp, 'st) robj, 's) obj_store \<Rightarrow> ('sp, 'st) list_options \<Rightarrow> (goerr option \<times> bool \<times> bool) list
     \<Rightarrow> (('sp, 'st) robj, 's) wsys \<Rightarrow> (('sp, 'st) robj, 's) wsys" where
  "thread_run st lo choices s = fold (\<lambda>(add, finish, sent). thread_step st lo add finish sent) choices s"

lemma thread_returned: "ws_phase s = WReturned \<Longrightarrow> ws_phase (thread_run st lo choices s) = WReturned"
proof (induction choices arbitrary: s)
  case (Cons ch choices)
  obtain add finish sent where ch: "ch = (add, finish, sent)" by (rule prod_cases3)
  have "thread_step st lo add finish sent s = s" using Cons.prems by (cases "predicate lo") (simp_all add: thread_step_def)
  then show ?case using Cons by (simp add: thread_run_def ch)
qed (simp add: thread_run_def)

lemma cancelled_watch_ends:
  assumes "predicate lo = Inr sel" "ws_phase s = WStream start" "w_cancelled (ws_w s)"
    and "length (w_queue (ws_w s)) < length choices"
  shows "ws_phase (thread_run st lo choices s) = WReturned"
  using assms(2-)
proof (induction choices arbitrary: s)
  case (Cons ch choices)
  obtain add finish sent where ch: "ch = (add, finish, sent)" by (rule prod_cases3)
  obtain w ph where st: "stream_step sel finish (sent \<or> \<not> w_cancelled (ws_w s)) start (ws_w s) = (w, ph)"
    by (rule prod.exhaust)
  have t: "thread_step st lo add finish sent s = s\<lparr>ws_w := w, ws_phase := ph\<rparr>"
    using assms(1) Cons.prems(1) st by (simp add: thread_step_def Let_def del: stream_step.simps)
  have ph: "ph = WReturned \<or> ph = WStream start \<and> length (w_queue w) < length (w_queue (ws_w s))"
    using st Cons.prems(2) by (auto simp: wt_send_def Let_def split: if_splits list.splits)
  show ?case
  proof (cases "ph = WReturned")
    case True
    then show ?thesis using thread_returned [of "s\<lparr>ws_w := w, ws_phase := ph\<rparr>" st lo choices] t
      by (simp add: thread_run_def ch)
  next
    case False
    have "ws_phase (thread_run st lo choices (s\<lparr>ws_w := w, ws_phase := ph\<rparr>)) = WReturned"
      by (rule Cons.IH) (use False ph Cons.prems stream_step_flags [OF st] in simp_all)
    then show ?thesis using t by (simp add: thread_run_def ch)
  qed
qed simp

text \<open>
  C16: A watch delivers exactly what was published after its starting point. In whatever order the
  writers, the watcher manager, the client and the goroutine of the watch run, a watch that streams
  has sent its initial events (the selected objects of one moment at or after the starting point, and
  the bookmark when one was asked for) followed by the selected events after the starting point up to
  some position, each once and in the order of their versions; its queue is the gap-free continuation
  of that position, up to the last event handed out as long as the manager feeds the watch; and a
  requested resource version was the current one. An overflow ends the watch, it never skips events: a watch that overflowed, or
  that the manager feeds no more, has been cancelled, and a cancelled watch returns after at most one step of its goroutine
  per queued event and one more, however the \<open>select\<close>s choose.
\<close>

theorem watch_stream_exact:
  fixes sg :: "('sp, 'st, 'u) strategy"
  assumes ok: "store_ok st look" and sel: "predicate lo = Inr sel"
    and s: "s = run_ops (wt_step sg st lo) ops (wt_new (rg_new s0))"
    and b: "in_range st s0 s" and ph: "ws_phase s = WStream start"
  shows "(\<exists>s1 c e init. start = base_rv st s0 + of_nat s1 \<and> s1 \<le> length (rg_published (ws_reg s))
    \<and> initial_sent lo sel (look s0) (rg_published (ws_reg s)) start s1 init
    \<and> w_out (ws_w s) = init @ map WEvent (stream_of sel (rg_published (ws_reg s)) s1 c)
    \<and> c \<le> e \<and> e \<le> ws_dispatched s \<and> w_queue (ws_w s) = drop c (take e (rg_published (ws_reg s)))
    \<and> (ws_added s \<longrightarrow> e = ws_dispatched s) \<and> starting_point lo start = None)
    \<and> (w_overflow (ws_w s) \<or> \<not> ws_added s \<longrightarrow> w_cancelled (ws_w s))
    \<and> (\<forall>choices. w_cancelled (ws_w s) \<and> length (w_queue (ws_w s)) < length choices \<longrightarrow>
         ws_phase (thread_run st lo choices s) = WReturned)"
proof (intro conjI allI impI)
  have "wt_inv st lo sel look s0 s"
    using wt_runs.inv_run [of st look lo sel s0 sg ops] ok sel b s by simp
  then obtain c e where "wt_at st lo sel look s0 s c e" by (rule wt_invE)
  with ph show "\<exists>s1 c e init. start = base_rv st s0 + of_nat s1 \<and> s1 \<le> length (rg_published (ws_reg s))
    \<and> initial_sent lo sel (look s0) (rg_published (ws_reg s)) start s1 init
    \<and> w_out (ws_w s) = init @ map WEvent (stream_of sel (rg_published (ws_reg s)) s1 c)
    \<and> c \<le> e \<and> e \<le> ws_dispatched s \<and> w_queue (ws_w s) = drop c (take e (rg_published (ws_reg s)))
    \<and> (ws_added s \<longrightarrow> e = ws_dispatched s) \<and> starting_point lo start = None"
    by (auto simp: wt_at_def)
  have "fed s" using fed_runs.inv_run [of sg st lo ops s0] s by simp
  then show "w_cancelled (ws_w s)" if "w_overflow (ws_w s) \<or> \<not> ws_added s"
    using that ph by (auto simp: fed_def)
qed (use cancelled_watch_ends [OF sel ph] in blast)

text \<open>
  C14: List-and-watch converges. With a selection that does not change while an object lives (a
  namespace, a name, everything), a watch that sends the initial state, is not closed and has drained
  its queue, has brought a client that applies the events it got to exactly the selected part of the
  storage, although writes went on while the initial state was listed and sent, so that some of them
  reached the client twice.
\<close>

theorem watch_converges:
  fixes sg :: "('sp, 'st, 'u) strategy"
  assumes ok: "store_ok st look" and sel: "predicate lo = Inr sel" "by_key sel" and init: "send_initial lo"
    and key: "well_keyed (look s0)"
    and s: "s = run_ops (wt_step sg st lo) ops (wt_new (rg_new s0))"
    and b: "in_range st s0 s" and ph: "ws_phase s = WStream start" and added: "ws_added s"
    and drained: "w_queue (ws_w s) = []" "ws_dispatched s = length (rg_published (ws_reg s))"
  shows "fold out_apply (w_out (ws_w s)) Map.empty = view_of sel (look (rg_store (ws_reg s)))"
proof -
  let ?pub = "rg_published (ws_reg s)" and ?m = "look s0"
  have "wt_inv st lo sel look s0 s" using wt_runs.inv_run [of st look lo sel s0 sg ops] ok sel(1) b s by simp
  then obtain c e where at: "wt_at st lo sel look s0 s c e" by (rule wt_invE)
  with ph obtain s1 init where st: "s1 \<le> length ?pub" "initial_sent lo sel ?m ?pub start s1 init"
      "w_out (ws_w s) = init @ map WEvent (stream_of sel ?pub s1 c)"
    by (auto simp: wt_at_def)
  from st(2) init obtain p os where p: "s1 \<le> p" "p \<le> length ?pub" "listed sel (fold ev_apply (take p ?pub) ?m) os"
      "init = added_all os @ (if watch_list lo then [WBookmark (FormatUint start)] else [])"
    by (auto simp: initial_sent_def)
  have c: "stream_of sel ?pub s1 c = filter (\<lambda>ev. sel (snd ev)) (drop s1 ?pub)"
  proof -
    have "drop c ?pub = []" using at ph added drained by (auto simp: wt_at_def)
    then have "take c ?pub = ?pub" by (metis append_Nil2 append_take_drop_id)
    then show ?thesis by (simp add: stream_of_def)
  qed
  have split: "drop s1 ?pub = take (p - s1) (drop s1 ?pub) @ drop p ?pub" "take p ?pub = take s1 ?pub @ take (p - s1) (drop s1 ?pub)"
    using p(1) by (metis append_take_drop_id drop_drop le_add_diff_inverse2) (metis p(1) le_add_diff_inverse take_add)
  have "fold out_apply (w_out (ws_w s)) Map.empty
      = fold ev_apply (filter (\<lambda>ev. sel (snd ev)) (drop s1 ?pub)) (view_of sel (fold ev_apply (take p ?pub) ?m))"
    using client_after_list [OF p(3) well_keyed_replay [OF key]] by (simp add: st(3) p(4) c fold_out_events)
  also have "\<dots> = view_of sel (fold ev_apply (drop s1 ?pub) (fold ev_apply (take p ?pub) ?m))"
    by (simp add: view_of_replay [OF sel(2)] well_keyed_replay key)
  also have "fold ev_apply (drop s1 ?pub) (fold ev_apply (take p ?pub) ?m) = fold ev_apply (drop s1 ?pub) (fold ev_apply (take s1 ?pub) ?m)"
    using replay_again [of "take (p - s1) (drop s1 ?pub)" "drop p ?pub"] split by simp
  also have "\<dots> = fold ev_apply ?pub ?m" by (metis append_take_drop_id comp_apply fold_append)
  also have "\<dots> = look (rg_store (ws_reg s))" using at by (simp add: wt_at_def rg_inv_def)
  finally show ?thesis .
qed

definition sample_lo :: "(string gomap \<Rightarrow> bool) option \<Rightarrow> (nat, nat) list_options" where
  "sample_lo ls = \<lparr>lo_fieldFilter = Inr None, lo_labels = ls, lo_namespace = Some ''ns'', lo_scoped = True,
     lo_resourceVersion = [], lo_sendInitialEvents = Some True\<rparr>"

abbreviation thread_steps :: "nat \<Rightarrow> (nat, nat) wop list" where
  "thread_steps n \<equiv> replicate n (WThread None False True)"

definition sample_watch_ops :: "(nat, nat) rg_op \<Rightarrow> (nat, nat) rg_op \<Rightarrow> (nat, nat) wop list" where
  \<comment> \<open>one write lands between the starting point and the listing, one while the watch streams\<close>
  "sample_watch_ops op1 op2 = thread_steps 2 @ [WWrite op1] @ thread_steps 5 @ [WDispatch] @ thread_steps 1
     @ [WWrite op2, WDispatch] @ thread_steps 1"

definition sample_watch :: "(string gomap \<Rightarrow> bool) option \<Rightarrow> (nat, nat) rg_op \<Rightarrow> (nat, nat) rg_op
    \<Rightarrow> ((nat, nat) robj, bool \<times> (okey \<times> (nat, nat) robj) list) wsys" where
  "sample_watch ls op1 op2 = run_ops (wt_step sample_strategy alist_objects (sample_lo ls)) (sample_watch_ops op1 op2)
     (wt_new (rg_new sample_content))"

definition sample_watch1 :: "((nat, nat) robj, bool \<times> (okey \<times> (nat, nat) robj) list) wsys" where
  "sample_watch1 = sample_watch None (OpCreate (sample_robj ''b'' [] 1)) (OpDelete (sample_robj ''a'' ''5'' 0))"

lemma sample_watch1_state:
  "ws_phase sample_watch1 = WStream 5" "ws_added sample_watch1" "w_queue (ws_w sample_watch1) = []"
  "ws_dispatched sample_watch1 = 2" "length (rg_published (ws_reg sample_watch1)) = 2"
proof -
  have "ws_phase sample_watch1 = WStream 5 \<and> ws_added sample_watch1 \<and> w_queue (ws_w sample_watch1) = []
      \<and> ws_dispatched sample_watch1 = 2 \<and> length (rg_published (ws_reg sample_watch1)) = 2" by code_simp
  then show "ws_phase sample_watch1 = WStream 5" "ws_added sample_watch1" "w_queue (ws_w sample_watch1) = []"
    "ws_dispatched sample_watch1 = 2" "length (rg_published (ws_reg sample_watch1)) = 2" by blast+
qed

lemma sample_watch1_range: "in_range alist_objects sample_content sample_watch1"
proof -
  have "unat (base_rv alist_objects sample_content) = 5" by code_simp
  then show ?thesis by (simp add: in_range_def sample_watch1_state)
qed

lemma predicate_sample: "predicate (sample_lo None) = Inr (\<lambda>obj. m_namespace (ro_meta obj) = ''ns'')"
  by (auto simp: predicate_def sample_lo_def)

lemma watch_stream_exact_witness:
  "\<exists>s1 c init. (5 :: 64 word) = base_rv alist_objects sample_content + of_nat s1
    \<and> initial_sent (sample_lo None) (\<lambda>obj. m_namespace (ro_meta obj) = ''ns'') (map_of (snd sample_content))
        (rg_published (ws_reg sample_watch1)) 5 s1 init
    \<and> w_out (ws_w sample_watch1) = init @ map WEvent (stream_of (\<lambda>obj. m_namespace (ro_meta obj) = ''ns'')
        (rg_published (ws_reg sample_watch1)) s1 c) \<and> c \<le> 2"
proof -
  note run = sample_watch1_def [unfolded sample_watch_def]
  show ?thesis
    using watch_stream_exact [OF alist_objects_ok predicate_sample run sample_watch1_range sample_watch1_state(1), THEN conjunct1]
    unfolding sample_watch1_state(4) comp_apply by (blast intro: order_trans)
qed

lemma watch_converges_witness:
  "fold out_apply (w_out (ws_w sample_watch1)) Map.empty
    = view_of (\<lambda>obj. m_namespace (ro_meta obj) = ''ns'') (map_of (snd (rg_store (ws_reg sample_watch1))))"
proof -
  note run = sample_watch1_def [unfolded sample_watch_def]
  have k: "by_key (\<lambda>obj. m_namespace (ro_meta obj) = ''ns'')" by (simp add: by_key_def)
  have i: "send_initial (sample_lo None)" by (simp add: send_initial_def sample_lo_def)
  have w: "well_keyed ((map_of \<circ> snd) sample_content)"
    by (simp add: well_keyed_def sample_content_def sample_robj_def sample_meta_def)
  have d: "ws_dispatched sample_watch1 = length (rg_published (ws_reg sample_watch1))" using sample_watch1_state(4,5) by simp
  show ?thesis
    using watch_converges [OF alist_objects_ok predicate_sample k i w run sample_watch1_range sample_watch1_state(1,2,3) d]
    by (simp only: comp_apply)
qed

definition sample_labelled :: "bool \<Rightarrow> string \<Rightarrow> (nat, nat) robj" where
  "sample_labelled b rv = (let o' = sample_robj ''b'' rv (if b then 1 else 2) in
     o'\<lparr>ro_meta := (ro_meta o')\<lparr>m_labels := (if b then [(''app'', ''x'')] else [])\<rparr>\<rparr>)"

text \<open>
  With a label selector list-and-watch does not converge: an object whose update takes it out of
  the selection is dropped from the stream instead of being reported as deleted, so a client keeps an
  object that its selection no longer contains, on a watch that is open and has drained its queue.
\<close>

theorem watch_misses_leaving_object:
  "let app = (\<lambda>ls. map_of ls ''app'' = Some ''x'');
       s = sample_watch (Some app) (OpCreate (sample_labelled True [])) (OpUpdate (sample_labelled False ''6'') (sample_labelled True ''6''));
       sel = (\<lambda>obj. app (m_labels (ro_meta obj))) in
   ws_phase s = WStream 5 \<and> ws_added s \<and> w_queue (ws_w s) = []
   \<and> ws_dispatched s = length (rg_published (ws_reg s))
   \<and> map_option ro_spec (fold out_apply (w_out (ws_w s)) Map.empty (''ns'', ''b'')) = Some 1
   \<and> map_option ro_spec (map_of (snd (rg_store (ws_reg s))) (''ns'', ''b'')) = Some 2
   \<and> view_of sel (map_of (snd (rg_store (ws_reg s)))) (''ns'', ''b'') = None"
  by code_simp

end
