(* ===== verification/DSConn.thy ===== *)
theory DSConn
  imports Prelude
begin

text \<open>
  The connection to the data-server (\<open>pkg/sdc/dataserver/manager/manager.go\<close>): one goroutine connects,
  monitors and reconnects, and every transition is broadcast to the subscribers. The gRPC client is an
  argument: what dialling returns and what each look at the connection observes. Every critical section
  is one step; \<open>Subscribe\<close> is three, since it registers the channel, reads the state and sends the
  snapshot without holding a lock across them. The time stamps of the events are left out.
\<close>

section \<open>State\<close>

datatype ds_state = DSDown | DSUp

record ds_event =
  dv_State :: ds_state
  dv_Err :: "goerr option"

datatype sub_pc = SubRegistered | SubRead ds_state | SubReady

record sub_chan =
  sc_cap :: nat
  sc_buf :: "ds_event list"
  sc_got :: "ds_event list"
  sc_pc :: sub_pc
  sc_member :: bool
  sc_closed :: bool
  sc_missed :: bool

text \<open>
  \<open>sc_got\<close>: what the reader has taken out of the channel; \<open>sc_member\<close>: the channel is in the fan-out
  set; \<open>sc_missed\<close>: a history flag, set when a broadcast found the channel full or still between its
  registration and its snapshot.
\<close>

datatype run_pc = RunTop | RunConnected nat | RunMonitor nat | RunLost nat | RunSleep | RunStopped

record backoff =
  bo_Duration :: int
  bo_Cap :: int

record ds_conn =
  dm_client :: "nat option"
  dm_state :: ds_state
  dm_subs :: "sub_chan list"
  dm_pc :: run_pc
  dm_cancelled :: bool
  dm_backoff :: backoff
  dm_panicked :: bool

definition NewDSConnManager :: ds_conn where
  "NewDSConnManager = \<lparr>dm_client = None, dm_state = DSDown, dm_subs = [], dm_pc = RunTop, dm_cancelled = False,
     dm_backoff = \<lparr>bo_Duration = 500, bo_Cap = 15000\<rparr>, dm_panicked = False\<rparr>"

definition dm_Client :: "ds_conn \<Rightarrow> nat option" where
  "dm_Client m = (if dm_state m \<noteq> DSUp then None else dm_client m)"

section \<open>Transitions\<close>

definition offer :: "ds_event \<Rightarrow> sub_chan \<Rightarrow> sub_chan" where
  \<comment> \<open>the body of the loop of \<open>broadcast\<close>\<close>
  "offer ev ch =
     (if \<not> sc_member ch then ch
      else if length (sc_buf ch) < sc_cap ch
      then ch\<lparr>sc_buf := sc_buf ch @ [ev], sc_missed := (sc_missed ch \<or> sc_pc ch \<noteq> SubReady)\<rparr>
      else ch\<lparr>sc_missed := True\<rparr>)"

definition broadcast :: "ds_event \<Rightarrow> ds_conn \<Rightarrow> ds_conn" where
  "broadcast ev m = m\<lparr>dm_subs := map (offer ev) (dm_subs m)\<rparr>"

definition setUp :: "nat \<Rightarrow> ds_conn \<Rightarrow> ds_conn" where
  "setUp cl m =
     (let changed = (dm_state m \<noteq> DSUp \<or> dm_client m = None); m = m\<lparr>dm_state := DSUp, dm_client := Some cl\<rparr> in
      if changed then broadcast \<lparr>dv_State = DSUp, dv_Err = None\<rparr> m else m)"

definition setDown :: "goerr option \<Rightarrow> ds_conn \<Rightarrow> ds_conn" where
  "setDown err m =
     (let changed = (dm_state m \<noteq> DSDown); m = m\<lparr>dm_state := DSDown\<rparr> in
      if changed then broadcast \<lparr>dv_State = DSDown, dv_Err = err\<rparr> m else m)"

definition closeClient :: "nat option \<Rightarrow> ds_conn \<Rightarrow> ds_conn" where
  "closeClient cl m = (case cl of None \<Rightarrow> m | Some c \<Rightarrow> if dm_client m = Some c then m\<lparr>dm_client := None\<rparr> else m)"

definition closeAllSubs :: "ds_conn \<Rightarrow> ds_conn" where
  "closeAllSubs m = m\<lparr>dm_subs := map (\<lambda>ch. if sc_member ch then ch\<lparr>sc_member := False, sc_closed := True\<rparr> else ch) (dm_subs m)\<rparr>"

section \<open>Connecting, monitoring, backing off\<close>

definition ensureClient :: "goerr + nat \<Rightarrow> ds_conn \<Rightarrow> (goerr + nat) \<times> ds_conn" where
  \<comment> \<open>\<open>dial\<close>: the outcome of \<open>dsclient.New\<close> and \<open>Start\<close>; only \<open>run\<close> calls it, so no dial is in flight\<close>
  "ensureClient dial m =
     (case dm_Client m of
        Some c \<Rightarrow> (Inr c, m)
      | None \<Rightarrow>
          (case dm_client m of
             Some c \<Rightarrow> (Inr c, m)
           | None \<Rightarrow>
               (case dial of
                  Inl err \<Rightarrow> (Inl (err_wrap ''dataserver connect'' err), m)
                | Inr cl \<Rightarrow> (Inr cl, m\<lparr>dm_client := Some cl\<rparr>))))"

datatype conn_state = ConnIdle | ConnConnecting | ConnReady | ConnTransientFailure | ConnShutdown

record conn_look =
  cl_done :: bool
  cl_state :: conn_state
  cl_changed :: bool

text \<open>
  One iteration of the health loop: whether the context is done, the state of the connection, and,
  when it is ready, whether the wait for a change ended with one (otherwise the context ended it).
\<close>

definition connStateString :: "conn_state \<Rightarrow> string" where
  "connStateString s = (case s of ConnIdle \<Rightarrow> ''IDLE'' | ConnConnecting \<Rightarrow> ''CONNECTING'' | ConnReady \<Rightarrow> ''READY''
     | ConnTransientFailure \<Rightarrow> ''TRANSIENT_FAILURE'' | ConnShutdown \<Rightarrow> ''SHUTDOWN'')"

fun monitor :: "goerr \<Rightarrow> conn_look list \<Rightarrow> goerr option option" where
  \<comment> \<open>\<open>None\<close>: still looking; \<open>Some\<close>: it returned this error; \<open>ctxErr\<close> is \<open>ctx.Err()\<close>\<close>
  "monitor ctxErr [] = None"
| "monitor ctxErr (l # ls) =
     (if cl_done l then Some (Some ctxErr)
      else if cl_state l = ConnReady
      then if \<not> cl_changed l then Some (Some ctxErr) else monitor ctxErr ls
      else if cl_state l = ConnTransientFailure \<or> cl_state l = ConnShutdown
      then Some (Some (err_new (''grpc state: '' @ connStateString (cl_state l))))
      else monitor ctxErr ls)"

definition next_backoff :: "(int \<Rightarrow> int) \<Rightarrow> backoff \<Rightarrow> backoff" where
  \<comment> \<open>the part of \<open>Step\<close> that lasts, in milliseconds; \<open>grow\<close> is the product with the factor, a float\<close>
  "next_backoff grow b =
     (let d = (if bo_Duration b \<le> 0 then 500 else bo_Duration b); nxt = grow d in
      b\<lparr>bo_Duration := (if bo_Cap b > 0 \<and> nxt > bo_Cap b then bo_Cap b else nxt)\<rparr>)"

definition run_step :: "(int \<Rightarrow> int) \<Rightarrow> goerr \<Rightarrow> goerr + nat \<Rightarrow> conn_look list \<Rightarrow> ds_conn \<Rightarrow> ds_conn" where
  \<comment> \<open>one step of \<open>run\<close>: \<open>ctxErr\<close>, \<open>dial\<close> and \<open>looks\<close> are what the environment answers in it\<close>
  "run_step grow ctxErr dial looks m =
     (case dm_pc m of
        RunTop \<Rightarrow>
          (if dm_cancelled m
           then let cl = dm_Client m in closeAllSubs (closeClient cl (setDown (Some ctxErr) m))\<lparr>dm_pc := RunStopped\<rparr>
           else case ensureClient dial m of
               (Inl err, m) \<Rightarrow> setDown (Some err) m\<lparr>dm_pc := RunSleep\<rparr>
             | (Inr cl, m) \<Rightarrow> m\<lparr>dm_pc := RunConnected cl\<rparr>)
      | RunConnected cl \<Rightarrow> setUp cl m\<lparr>dm_pc := RunMonitor cl\<rparr>
      | RunMonitor cl \<Rightarrow>
          (case monitor ctxErr looks of
             None \<Rightarrow> m
           | Some (Some err) \<Rightarrow> setDown (Some err) m\<lparr>dm_pc := RunLost cl\<rparr>
           | Some None \<Rightarrow> m\<lparr>dm_backoff := (dm_backoff m)\<lparr>bo_Duration := 500\<rparr>, dm_pc := RunTop\<rparr>)
      | RunLost cl \<Rightarrow> closeClient (Some cl) m\<lparr>dm_pc := RunSleep\<rparr>
      | RunSleep \<Rightarrow> m\<lparr>dm_backoff := next_backoff grow (dm_backoff m), dm_pc := RunTop\<rparr>
      | RunStopped \<Rightarrow> m)"

section \<open>Subscribers\<close>

definition upd_sub :: "nat \<Rightarrow> (sub_chan \<Rightarrow> sub_chan) \<Rightarrow> ds_conn \<Rightarrow> ds_conn" where
  "upd_sub i f m = (if i < length (dm_subs m) then m\<lparr>dm_subs := (dm_subs m)[i := f (dm_subs m ! i)]\<rparr> else m)"

definition sub_register :: "int \<Rightarrow> ds_conn \<Rightarrow> ds_conn" where
  \<comment> \<open>\<open>Subscribe\<close>, to the end of its critical section\<close>
  "sub_register buffer m = m\<lparr>dm_subs := dm_subs m @ [\<lparr>sc_cap = (if buffer \<le> 0 then 8 else nat buffer), sc_buf = [],
     sc_got = [], sc_pc = SubRegistered, sc_member = True, sc_closed = False, sc_missed = False\<rparr>]\<rparr>"

definition sub_snapshot :: "nat \<Rightarrow> ds_conn \<Rightarrow> ds_conn" where
  \<comment> \<open>the next of its remaining two steps; a send on a full channel blocks, on a closed one it panics\<close>
  "sub_snapshot i m =
     (let m = (if i < length (dm_subs m) \<and> sc_closed (dm_subs m ! i) \<and> sc_pc (dm_subs m ! i) \<notin> {SubRegistered, SubReady}
               then m\<lparr>dm_panicked := True\<rparr> else m) in
      upd_sub i (\<lambda>ch. case sc_pc ch of
         SubRegistered \<Rightarrow> ch\<lparr>sc_pc := SubRead (dm_state m)\<rparr>
       | SubRead st \<Rightarrow>
           if \<not> sc_closed ch \<and> length (sc_buf ch) < sc_cap ch
           then ch\<lparr>sc_buf := sc_buf ch @ [\<lparr>dv_State = st, dv_Err = None\<rparr>], sc_pc := SubReady\<rparr> else ch
       | SubReady \<Rightarrow> ch) m)"

definition sub_cancel :: "nat \<Rightarrow> ds_conn \<Rightarrow> ds_conn" where
  "sub_cancel i m = upd_sub i (\<lambda>ch. if sc_member ch then ch\<lparr>sc_member := False, sc_closed := True\<rparr> else ch) m"

definition sub_take :: "nat \<Rightarrow> ds_conn \<Rightarrow> ds_conn" where
  \<comment> \<open>the reader has the channel once \<open>Subscribe\<close> has returned\<close>
  "sub_take i m =
     upd_sub i (\<lambda>ch. if sc_pc ch \<noteq> SubReady then ch
       else case sc_buf ch of [] \<Rightarrow> ch | ev # evs \<Rightarrow> ch\<lparr>sc_buf := evs, sc_got := sc_got ch @ [ev]\<rparr>) m"

datatype ds_op = DsRun goerr "goerr + nat" "conn_look list" | DsStop | DsRegister int | DsSnapshot nat | DsCancel nat
  | DsTake nat

fun ds_step :: "(int \<Rightarrow> int) \<Rightarrow> ds_op \<Rightarrow> ds_conn \<Rightarrow> ds_conn" where
  "ds_step grow (DsRun ctxErr dial looks) m = run_step grow ctxErr dial looks m"
| "ds_step grow DsStop m = m\<lparr>dm_cancelled := True\<rparr>"
| "ds_step grow (DsRegister buffer) m = sub_register buffer m"
| "ds_step grow (DsSnapshot i) m = sub_snapshot i m"
| "ds_step grow (DsCancel i) m = sub_cancel i m"
| "ds_step grow (DsTake i) m = sub_take i m"

section \<open>What holds in every state\<close>

fun pc_inv :: "ds_conn \<Rightarrow> bool" where
  "pc_inv m = (case dm_pc m of
       RunTop \<Rightarrow> dm_state m = DSDown \<and> dm_client m = None
     | RunConnected cl \<Rightarrow> dm_state m = DSDown \<and> dm_client m = Some cl
     | RunMonitor cl \<Rightarrow> dm_state m = DSUp \<and> dm_client m = Some cl
     | RunLost cl \<Rightarrow> dm_state m = DSDown \<and> dm_client m = Some cl
     | RunSleep \<Rightarrow> dm_state m = DSDown \<and> dm_client m = None
     | RunStopped \<Rightarrow> dm_state m = DSDown \<and> dm_client m = None)"

definition seen :: "sub_chan \<Rightarrow> ds_state list" where
  "seen ch = map dv_State (sc_got ch @ sc_buf ch)"

definition chan_inv :: "ds_state \<Rightarrow> sub_chan \<Rightarrow> bool" where
  "chan_inv st ch \<longleftrightarrow> length (sc_buf ch) \<le> sc_cap ch \<and> sc_cap ch > 0 \<and> (sc_member ch \<longrightarrow> \<not> sc_closed ch)
     \<and> (sc_member ch \<and> \<not> sc_missed ch \<longrightarrow>
          (case sc_pc ch of
             SubRegistered \<Rightarrow> seen ch = []
           | SubRead st' \<Rightarrow> seen ch = [] \<and> st' = st
           | SubReady \<Rightarrow> seen ch \<noteq> [] \<and> last (seen ch) = st \<and> successively (\<noteq>) (seen ch)))"

definition dm_inv :: "ds_conn \<Rightarrow> bool" where
  "dm_inv m \<longleftrightarrow> pc_inv m \<and> (\<forall>ch \<in> set (dm_subs m). chan_inv (dm_state m) ch)"

lemma monitor_never_nil: "monitor ctxErr ls \<noteq> Some None"
  by (induction ls) auto

lemma successively_snoc:
  "successively P (xs @ [x]) \<longleftrightarrow> successively P xs \<and> (xs \<noteq> [] \<longrightarrow> P (last xs) x)"
  by (auto simp: successively_append_iff)

lemma offer_sel:
  "seen (offer ev ch) = (if sc_member ch \<and> length (sc_buf ch) < sc_cap ch then seen ch @ [dv_State ev] else seen ch)"
  "sc_member (offer ev ch) = sc_member ch" "sc_closed (offer ev ch) = sc_closed ch" "sc_cap (offer ev ch) = sc_cap ch"
  "sc_pc (offer ev ch) = sc_pc ch" "length (sc_buf ch) \<le> sc_cap ch \<Longrightarrow> length (sc_buf (offer ev ch)) \<le> sc_cap ch"
  "sc_missed (offer ev ch) = (sc_missed ch \<or> sc_member ch \<and> (sc_pc ch \<noteq> SubReady \<or> \<not> length (sc_buf ch) < sc_cap ch))"
  by (auto simp: offer_def seen_def)

lemma chan_inv_offer:
  assumes "chan_inv st ch" "dv_State ev \<noteq> st"
  shows "chan_inv (dv_State ev) (offer ev ch)"
  using assms unfolding chan_inv_def offer_sel
  by (cases "sc_pc ch") (auto simp: successively_snoc intro: offer_sel(6))

lemma set_sel [simp]:
  "dm_state (setUp cl m) = DSUp" "dm_client (setUp cl m) = Some cl" "dm_state (setDown e m) = DSDown"
  "dm_client (setDown e m) = dm_client m" "dm_pc (setUp cl m) = dm_pc m" "dm_pc (setDown e m) = dm_pc m"
  "dm_state (closeClient c m) = dm_state m" "dm_subs (closeClient c m) = dm_subs m"
  "dm_backoff (setUp cl m) = dm_backoff m" "dm_backoff (setDown e m) = dm_backoff m"
  "dm_backoff (closeClient c m) = dm_backoff m"
  by (simp_all add: setUp_def setDown_def broadcast_def closeClient_def Let_def split: option.split)

lemma chans_transition:
  assumes "\<forall>ch \<in> set (dm_subs m). chan_inv (dm_state m) ch"
  shows "dm_state m = DSDown \<Longrightarrow> \<forall>ch \<in> set (dm_subs (setUp cl m)). chan_inv DSUp ch"
    and "\<forall>ch \<in> set (dm_subs (setDown e m)). chan_inv DSDown ch"
  using assms chan_inv_offer [of DSDown _ "\<lparr>dv_State = DSUp, dv_Err = None\<rparr>"]
    chan_inv_offer [of DSUp _ "\<lparr>dv_State = DSDown, dv_Err = e\<rparr>"]
  by (auto simp: setUp_def setDown_def broadcast_def Let_def) (metis ds_state.exhaust)

lemma chan_inv_close:
  "chan_inv st ch \<Longrightarrow> chan_inv st (if sc_member ch then ch\<lparr>sc_member := False, sc_closed := True\<rparr> else ch)"
  by (simp add: chan_inv_def)

lemma pc_sel [simp]:
  "dm_subs (m\<lparr>dm_pc := p\<rparr>) = dm_subs m" "dm_subs (closeAllSubs m\<lparr>dm_pc := p\<rparr>) = dm_subs (closeAllSubs m)"
  by simp_all

lemma dm_inv_run:
  assumes "dm_inv m"
  shows "dm_inv (run_step grow ctxErr dial looks m)"
proof -
  have pc: "pc_inv m" and ch: "\<forall>ch \<in> set (dm_subs m). chan_inv (dm_state m) ch" using assms by (auto simp: dm_inv_def)
  note up = chans_transition(1) [OF ch] and down = chans_transition(2) [OF ch]
  show ?thesis
  proof (cases "dm_pc m")
    case RunTop
    with pc have st: "dm_state m = DSDown" "dm_client m = None" by auto
    have e: "setDown err m = m" for err using st by (simp add: setDown_def)
    show ?thesis
    proof (cases "dm_cancelled m")
      case True
      with RunTop st e ch show ?thesis
        by (auto simp: dm_inv_def dm_Client_def closeClient_def closeAllSubs_def chan_inv_def run_step_def)
    next
      case False
      with RunTop st e ch show ?thesis
        by (cases dial) (auto simp: dm_inv_def ensureClient_def dm_Client_def run_step_def)
    qed
  next
    case (RunConnected cl)
    with pc up [of cl] show ?thesis by (simp add: dm_inv_def run_step_def)
  next
    case (RunMonitor cl)
    with pc ch assms down monitor_never_nil [of ctxErr looks] show ?thesis
      by (auto simp: dm_inv_def run_step_def split: option.split)
  next
    case (RunLost cl)
    with pc ch show ?thesis by (auto simp: dm_inv_def closeClient_def run_step_def)
  next
    case RunSleep
    with pc ch show ?thesis by (simp add: dm_inv_def run_step_def)
  next
    case RunStopped
    with assms show ?thesis by (simp add: run_step_def)
  qed
qed

lemma pc_inv_cong:
  "dm_pc m' = dm_pc m \<Longrightarrow> dm_state m' = dm_state m \<Longrightarrow> dm_client m' = dm_client m \<Longrightarrow> pc_inv m' = pc_inv m"
  by (simp split: run_pc.split)

lemma upd_sub_sel [simp]:
  "dm_pc (upd_sub i f m) = dm_pc m" "dm_state (upd_sub i f m) = dm_state m" "dm_client (upd_sub i f m) = dm_client m"
  by (simp_all add: upd_sub_def)

lemma dm_inv_upd:
  assumes m: "dm_inv m" and f: "\<And>ch. chan_inv (dm_state m) ch \<Longrightarrow> chan_inv (dm_state m) (f ch)"
  shows "dm_inv (upd_sub i f m)"
proof -
  have "\<forall>ch \<in> set (dm_subs (upd_sub i f m)). chan_inv (dm_state m) ch"
    using m f by (auto simp: dm_inv_def upd_sub_def dest!: set_update_subset_insert [THEN subsetD])
  with m pc_inv_cong [of "upd_sub i f m" m] show ?thesis unfolding dm_inv_def by simp
qed

lemma dm_inv_snapshot: "dm_inv m \<Longrightarrow> dm_inv (sub_snapshot i m)"
proof -
  assume m: "dm_inv m"
  let ?m = "if i < length (dm_subs m) \<and> sc_closed (dm_subs m ! i) \<and> sc_pc (dm_subs m ! i) \<notin> {SubRegistered, SubReady}
     then m\<lparr>dm_panicked := True\<rparr> else m"
  have s: "dm_state ?m = dm_state m" "dm_pc ?m = dm_pc m" "dm_client ?m = dm_client m" "dm_subs ?m = dm_subs m" by simp_all
  with m pc_inv_cong [of ?m m] have "dm_inv ?m" unfolding dm_inv_def by metis
  then show ?thesis unfolding sub_snapshot_def Let_def
    by (rule dm_inv_upd) (unfold s, auto simp: chan_inv_def seen_def split: sub_pc.splits)
qed

lemma dm_inv_take: "dm_inv m \<Longrightarrow> dm_inv (sub_take i m)"
  unfolding sub_take_def by (rule dm_inv_upd) (auto simp: chan_inv_def seen_def split: list.splits)

lemma dm_inv_step: "dm_inv m \<Longrightarrow> dm_inv (ds_step grow op m)"
proof (cases op)
  case (DsCancel i)
  moreover assume "dm_inv m"
  ultimately show ?thesis using dm_inv_upd [of m _ i] chan_inv_close by (simp add: sub_cancel_def)
next
  case (DsRegister buffer)
  moreover assume "dm_inv m"
  ultimately show ?thesis by (auto simp: sub_register_def dm_inv_def chan_inv_def seen_def split: run_pc.splits)
qed (simp_all add: dm_inv_run dm_inv_snapshot dm_inv_take, simp add: dm_inv_def split: run_pc.splits)

interpretation ds_runs: invariant_machine "ds_step grow" NewDSConnManager dm_inv
  for grow :: "int \<Rightarrow> int"
  by unfold_locales (simp_all add: dm_inv_step, simp add: dm_inv_def NewDSConnManager_def)

text \<open>
  C31: However connects, losses, subscriptions, reads and cancellations interleave: the manager hands
  out a client exactly while it is up, and that client is the one being monitored; and a subscriber
  that is still registered and missed no transition (none found its channel full or arrived before
  its snapshot) has seen, counting what its channel still holds, the states alternating and the
  current state last.
\<close>

theorem subscribers_follow_the_connection:
  assumes m: "m = run_ops (ds_step grow) ops NewDSConnManager"
  shows "(dm_Client m \<noteq> None \<longleftrightarrow> dm_state m = DSUp)
    \<and> (dm_Client m = Some cl \<longrightarrow> dm_pc m = RunMonitor cl)
    \<and> (\<forall>i < length (dm_subs m). let ch = dm_subs m ! i in
        length (sc_buf ch) \<le> sc_cap ch
        \<and> (sc_member ch \<and> sc_pc ch = SubReady \<and> \<not> sc_missed ch \<longrightarrow>
             seen ch \<noteq> [] \<and> last (seen ch) = dm_state m \<and> successively (\<noteq>) (seen ch)))"
proof -
  have inv: "dm_inv m" unfolding m by (rule ds_runs.inv_run)
  then have pc: "pc_inv m" by (simp add: dm_inv_def)
  have ch: "chan_inv (dm_state m) (dm_subs m ! i)" if "i < length (dm_subs m)" for i
    using inv that by (simp add: dm_inv_def)
  show ?thesis
  proof (intro conjI allI impI)
    show "dm_Client m \<noteq> None \<longleftrightarrow> dm_state m = DSUp" using pc by (cases "dm_pc m") (auto simp: dm_Client_def)
    show "dm_pc m = RunMonitor cl" if "dm_Client m = Some cl"
      using that pc by (cases "dm_pc m") (auto simp: dm_Client_def split: if_splits)
    fix i
    assume "i < length (dm_subs m)"
    from ch [OF this] show "let ch = dm_subs m ! i in length (sc_buf ch) \<le> sc_cap ch
        \<and> (sc_member ch \<and> sc_pc ch = SubReady \<and> \<not> sc_missed ch \<longrightarrow>
             seen ch \<noteq> [] \<and> last (seen ch) = dm_state m \<and> successively (\<noteq>) (seen ch))"
      unfolding chan_inv_def Let_def by (auto split: sub_pc.splits)
  qed
qed

definition sample_grow :: "int \<Rightarrow> int" where "sample_grow d = d * 17 div 10"

definition sample_ds_ops :: "ds_op list" where
  \<comment> \<open>a subscriber, a connection, its loss and the next one\<close>
  "sample_ds_ops = (let go = DsRun (err_new ''done'') (Inr 7) [\<lparr>cl_done = False, cl_state = ConnShutdown, cl_changed = True\<rparr>] in
     [DsRegister 8, DsSnapshot 0, DsSnapshot 0, go, go, DsTake 0, go, go, go, go, go])"

lemma subscribers_follow_the_connection_witness:
  "let m = run_ops (ds_step sample_grow) sample_ds_ops NewDSConnManager; ch = dm_subs m ! 0 in
   dm_Client m = Some 7 \<and> last (seen ch) = dm_state m \<and> seen ch = [DSDown, DSUp, DSDown, DSUp]"
proof -
  let ?m = "run_ops (ds_step sample_grow) sample_ds_ops NewDSConnManager"
  have e: "dm_Client ?m = Some 7 \<and> seen (dm_subs ?m ! 0) = [DSDown, DSUp, DSDown, DSUp] \<and> length (dm_subs ?m) = 1
      \<and> sc_member (dm_subs ?m ! 0) \<and> sc_pc (dm_subs ?m ! 0) = SubReady \<and> \<not> sc_missed (dm_subs ?m ! 0)" by code_simp
  with subscribers_follow_the_connection [OF refl, of sample_grow sample_ds_ops] show ?thesis
    unfolding Let_def by (metis One_nat_def lessI)
qed

section \<open>Subscribing while the connection comes up\<close>

definition stuck :: "nat \<Rightarrow> ds_conn \<Rightarrow> bool" where
  "stuck i m \<longleftrightarrow> i < length (dm_subs m) \<and> sc_pc (dm_subs m ! i) \<noteq> SubReady
     \<and> \<not> length (sc_buf (dm_subs m ! i)) < sc_cap (dm_subs m ! i)"

lemma stuck_offer:
  "stuck i m \<Longrightarrow> dm_subs m' = map (offer ev) (dm_subs m) \<Longrightarrow> stuck i m'"
  by (auto simp: stuck_def offer_def)

lemma stuck_transition: "stuck i m \<Longrightarrow> stuck i (setUp cl m)" "stuck i m \<Longrightarrow> stuck i (setDown e m)"
  by (auto simp: setUp_def setDown_def broadcast_def Let_def intro: stuck_offer) (simp_all add: stuck_def)

lemma stuck_cong: "dm_subs m' = dm_subs m \<Longrightarrow> stuck i m' = stuck i m"
  by (simp add: stuck_def)

lemma stuck_close: "stuck i m \<Longrightarrow> stuck i (closeAllSubs m)"
  by (auto simp: stuck_def closeAllSubs_def)

lemma stuck_upd:
  "stuck i m \<Longrightarrow> (i = j \<Longrightarrow> sc_pc (f (dm_subs m ! j)) \<noteq> SubReady \<and> \<not> length (sc_buf (f (dm_subs m ! j))) < sc_cap (f (dm_subs m ! j)))
     \<Longrightarrow> stuck i (upd_sub j f m)"
  by (cases "i = j") (auto simp: stuck_def upd_sub_def)

lemma stuck_run: "stuck i m \<Longrightarrow> stuck i (run_step grow ctxErr dial looks m)"
proof -
  assume m: "stuck i m"
  have c: "stuck i (m'\<lparr>dm_pc := p\<rparr>) = stuck i m'" "stuck i (closeClient cl m') = stuck i m'"
    "stuck i (m'\<lparr>dm_backoff := b\<rparr>) = stuck i m'" "stuck i (m'\<lparr>dm_client := cl\<rparr>) = stuck i m'" for m' p cl b
    by (simp_all add: stuck_def)
  have e: "snd (ensureClient dial m) = m \<or> (\<exists>cl. snd (ensureClient dial m) = m\<lparr>dm_client := cl\<rparr>)"
    by (auto simp: ensureClient_def split: option.split sum.split)
  have "stuck i (snd (ensureClient dial m))" using e m c by metis
  then show ?thesis using m
    by (auto simp: c stuck_close stuck_transition run_step_def Let_def split: run_pc.split prod.split sum.split option.split)
qed

lemma stuck_step: "stuck i m \<Longrightarrow> stuck i (ds_step grow op m)"
proof (cases op)
  case (DsSnapshot j)
  moreover assume "stuck i m"
  ultimately show ?thesis
    by (auto simp: sub_snapshot_def Let_def stuck_def upd_sub_def nth_list_update split: sub_pc.splits)
next
  case (DsTake j)
  moreover assume "stuck i m"
  ultimately show ?thesis
    by (auto simp: sub_take_def stuck_def upd_sub_def nth_list_update)
next
  case (DsCancel j)
  moreover assume "stuck i m"
  ultimately show ?thesis
    by (auto simp: sub_cancel_def stuck_def upd_sub_def nth_list_update)
next
  case (DsRegister b)
  moreover assume "stuck i m"
  ultimately show ?thesis by (auto simp: sub_register_def stuck_def nth_append)
next
  case DsStop
  moreover assume "stuck i m"
  ultimately show ?thesis by (simp add: stuck_def)
qed (simp add: stuck_run)

lemma stuck_forever: "stuck i m \<Longrightarrow> stuck i (run_ops (ds_step grow) ops m)"
  by (induction ops arbitrary: m) (simp_all add: run_ops_def stuck_step)

definition connecting :: ds_op where
  "connecting = DsRun (err_new ''done'') (Inr 7) []"

text \<open>
  C37: \<open>Subscribe\<close> registers the channel before it reads and sends the snapshot, and a connection that
  comes up in between leaves the subscriber wrong for good. With room in the channel it receives Up
  and then the older Down: it believes the data-server down while the manager is up, and nothing
  more is sent until the next transition. With the one-element channel of \<open>WaitForUp\<close> the broadcast
  fills the channel that nobody reads yet: the snapshot is never sent, so \<open>Subscribe\<close> does not return
  whatever happens afterwards, and \<open>WaitForUp\<close> never looks at its context.
\<close>

theorem subscribe_races_transition:
  "(let m = run_ops (ds_step grow) [DsRegister 8, DsSnapshot 0, connecting, connecting, DsSnapshot 0, DsTake 0, DsTake 0, connecting]
        NewDSConnManager in
      dm_state m = DSUp \<and> dm_Client m = Some 7 \<and> map dv_State (sc_got (dm_subs m ! 0)) = [DSUp, DSDown] \<and> sc_buf (dm_subs m ! 0) = [])
   \<and> (\<forall>ops. sc_pc (dm_subs (run_ops (ds_step grow) ([DsRegister 1, connecting, connecting] @ ops) NewDSConnManager) ! 0) \<noteq> SubReady)"
proof
  show "let m = run_ops (ds_step grow) [DsRegister 8, DsSnapshot 0, connecting, connecting, DsSnapshot 0, DsTake 0, DsTake 0, connecting]
        NewDSConnManager in
      dm_state m = DSUp \<and> dm_Client m = Some 7 \<and> map dv_State (sc_got (dm_subs m ! 0)) = [DSUp, DSDown] \<and> sc_buf (dm_subs m ! 0) = []"
    by code_simp
  have "stuck 0 (run_ops (ds_step grow) [DsRegister 1, connecting, connecting] NewDSConnManager)" by code_simp
  then show "\<forall>ops. sc_pc (dm_subs (run_ops (ds_step grow) ([DsRegister 1, connecting, connecting] @ ops) NewDSConnManager) ! 0) \<noteq> SubReady"
    using stuck_forever [of 0 _ grow] by (auto simp: run_ops_def stuck_def)
qed

section \<open>The backoff\<close>

text \<open>
  The reset of the backoff at the end of the loop is never reached, as \<open>monitor\<close> returns only errors:
  once the delay has grown to its cap, every later reconnect waits that long, however long the
  connection was up in between.
\<close>

definition capped :: "ds_conn \<Rightarrow> bool" where
  "capped m \<longleftrightarrow> bo_Duration (dm_backoff m) = bo_Cap (dm_backoff m) \<and> bo_Cap (dm_backoff m) > 0"

lemma capped_cong: "dm_backoff m' = dm_backoff m \<Longrightarrow> capped m' = capped m"
  by (simp add: capped_def)

lemma backoff_other:
  "dm_backoff (closeAllSubs m) = dm_backoff m" "dm_backoff (upd_sub i f m) = dm_backoff m"
  "dm_backoff (snd (ensureClient dial m)) = dm_backoff m"
  by (auto simp: closeAllSubs_def upd_sub_def ensureClient_def split: option.split sum.split)

lemma run_step_backoff:
  "dm_backoff (run_step grow ctxErr dial looks m) = dm_backoff m
     \<or> dm_backoff (run_step grow ctxErr dial looks m) = next_backoff grow (dm_backoff m)"
proof (cases "dm_pc m")
  case RunTop
  obtain res m1 where e: "ensureClient dial m = (res, m1)" by (metis surj_pair)
  then have "dm_backoff m1 = dm_backoff m" using backoff_other(3) [of dial m] by simp
  with RunTop e show ?thesis by (auto simp: run_step_def backoff_other Let_def split: sum.split)
next
  case (RunMonitor cl)
  then show ?thesis using monitor_never_nil [of ctxErr looks]
    by (auto simp: run_step_def split: option.split)
qed (simp_all add: run_step_def)

lemma backoff_never_reset:
  assumes "capped m" "\<And>d. d > 0 \<Longrightarrow> grow d \<ge> d"
  shows "capped (run_ops (ds_step grow) ops m)"
  using assms(1)
proof (induction ops arbitrary: m)
  case (Cons op ops)
  have "capped (ds_step grow op m)"
  proof (cases op)
    case (DsRun ctxErr dial looks)
    have "capped (m\<lparr>dm_backoff := next_backoff grow (dm_backoff m)\<rparr>)"
      using Cons.prems assms(2) [of "bo_Cap (dm_backoff m)"]
      by (auto simp: capped_def next_backoff_def Let_def)
    with run_step_backoff [of grow ctxErr dial looks m] Cons.prems DsRun show ?thesis
      by (auto simp: capped_def)
  next
    case (DsSnapshot i)
    have "dm_backoff (sub_snapshot i m) = dm_backoff m" by (simp add: sub_snapshot_def backoff_other Let_def)
    with Cons.prems DsSnapshot show ?thesis by (simp add: capped_def)
  next
    case (DsCancel i)
    with Cons.prems show ?thesis by (simp add: sub_cancel_def backoff_other capped_def)
  next
    case (DsTake i)
    with Cons.prems show ?thesis by (simp add: sub_take_def backoff_other capped_def)
  next
    case (DsRegister b)
    with Cons.prems show ?thesis by (simp add: sub_register_def capped_def)
  next
    case DsStop
    with Cons.prems show ?thesis by (simp add: capped_def)
  qed
  with Cons.IH show ?case by (simp add: run_ops_def)
qed (simp add: run_ops_def)

end
