(* ===== verification/DeviationWatch.thy ===== *)
theory DeviationWatch
  imports Services
begin

text \<open>
  The deviation watcher of a target (\<open>pkg/sdc/target/manager/deviation_watcher.go\<close>): the loop around
  the deviation stream of the data-server, one iteration per step, and the Deviation resources it
  writes at the end of every cycle. The stream, the text form of a value and of a reason, and the
  order \<open>sort.Slice\<close> gives elements with equal paths are arguments.
\<close>

section \<open>The stream\<close>

datatype dev_event = EvStart | EvUpdate | EvEnd | EvClear | EvOther

datatype dev_reason = UNHANDLED | INTENT_EXISTS | OtherReason string

record 'v watch_resp =
  wr_event :: dev_event
  wr_intent :: string
  wr_reason :: dev_reason
  wr_path :: string
  wr_expected :: "'v option"
  wr_current :: "'v option"

record 'v dw_in =
  di_subscribe :: "goerr option"
  di_recv :: "goerr + 'v watch_resp"
  di_canceled :: "goerr \<Rightarrow> bool"

text \<open>
  What one iteration meets: the answer of \<open>WatchDeviations\<close> (used when no stream is open), the answer
  of \<open>Recv\<close>, and \<open>errors.Is(err, context.Canceled)\<close>.
\<close>

record ('v, 'w) dw_env =
  de_key :: "string \<times> string"
  de_marshal :: "'v \<Rightarrow> goerr + string"
  de_reasonString :: "dev_reason \<Rightarrow> string"
  de_sort :: "config_deviation list \<Rightarrow> config_deviation list"
  de_k8s :: "'w k8s"

record 'v dev_watch =
  dw_stream :: bool
  dw_started :: bool
  dw_devs :: "'v watch_resp list gomap"

definition unManagedConfigDeviation :: string where "unManagedConfigDeviation = ''__''"

definition fieldManagerDeviation :: string where "fieldManagerDeviation = ''ConfigController''"

definition dw_new :: "'v dev_watch" where
  "dw_new = \<lparr>dw_stream = False, dw_started = False, dw_devs = []\<rparr>"

section \<open>Writing the Deviation resources\<close>

definition getTargetDeviationName :: "string \<times> string \<Rightarrow> string" where
  "getTargetDeviationName key = DeviationName DeviationType_TARGET (snd key)"

definition getDeviationString :: "('v \<Rightarrow> goerr + string) \<Rightarrow> 'v option \<Rightarrow> string option" where
  \<comment> \<open>the caller logs the error and uses nil\<close>
  "getDeviationString marshal val =
     (case val of None \<Rightarrow> None | Some v \<Rightarrow> (case marshal v of Inl err \<Rightarrow> None | Inr b \<Rightarrow> Some b))"

definition convert_deviation :: "('v, 'w) dw_env \<Rightarrow> 'v watch_resp \<Rightarrow> config_deviation" where
  "convert_deviation e dev = \<lparr>dv_path = wr_path dev, dv_desiredValue = getDeviationString (de_marshal e) (wr_expected dev),
     dv_actualValue = getDeviationString (de_marshal e) (wr_current dev), dv_reason = de_reasonString e (wr_reason dev)\<rparr>"

definition ConvertSdcpbDeviations2Deviations :: "('v, 'w) dw_env \<Rightarrow> 'v watch_resp list \<Rightarrow> config_deviation list" where
  "ConvertSdcpbDeviations2Deviations e devs = map (convert_deviation e) devs"

definition deviation_of :: "('v, 'w) dw_env \<Rightarrow> string \<Rightarrow> string \<Rightarrow> config_deviation list \<Rightarrow> string \<Rightarrow> deviation_apply" where
  "deviation_of e ns name deviations typ = \<lparr>da_namespace = ns, da_name = name,
     da_labels = [(TargetNameKey, snd (de_key e)), (TargetNamespaceKey, fst (de_key e))],
     da_deviationType = Some typ, da_deviations = de_sort e deviations\<rparr>"

definition processDSDeviations ::
  "('v, 'w) dw_env \<Rightarrow> string \<Rightarrow> string \<Rightarrow> config_deviation list \<Rightarrow> string \<Rightarrow> 'w \<Rightarrow> 'w" where
  \<comment> \<open>an error is logged\<close>
  "processDSDeviations e ns name deviations typ w =
     snd (k_ApplyDeviation (de_k8s e) (deviation_of e ns name deviations typ) fieldManagerDeviation True w)"

definition splitN2 :: "string \<Rightarrow> string list" where
  \<comment> \<open>\<open>strings.SplitN(s, ".", 2)\<close>\<close>
  "splitN2 s = (let p = takeWhile (\<lambda>c. c \<noteq> CHR ''.'') s in
     if p = s then [s] else [p, drop (Suc (length p)) s])"

fun processDeviations :: "('v, 'w) dw_env \<Rightarrow> 'v watch_resp list gomap \<Rightarrow> 'w \<Rightarrow> 'w option" where
  \<comment> \<open>\<open>None\<close>: \<open>parts[1]\<close> is out of range, read before the length is checked\<close>
  "processDeviations e [] w = Some w"
| "processDeviations e ((configName, devs) # rest) w =
     (if configName = ''default'' then processDeviations e rest w
      else let configDevs = ConvertSdcpbDeviations2Deviations e devs in
        if configName = unManagedConfigDeviation
        then processDeviations e rest (processDSDeviations e (fst (de_key e)) (getTargetDeviationName (de_key e))
               configDevs DeviationType_TARGET w)
        else case splitN2 configName of
            p0 # p1 # ps \<Rightarrow> processDeviations e rest (processDSDeviations e p0 (DeviationName DeviationType_CONFIG p1)
               configDevs DeviationType_CONFIG w)
          | _ \<Rightarrow> None)"

definition clearTargetDeviation :: "('v, 'w) dw_env \<Rightarrow> 'w \<Rightarrow> 'w" where
  \<comment> \<open>part of \<open>Stop\<close>; the empty spec carries no type and no labels\<close>
  "clearTargetDeviation e w =
     (let ns = fst (de_key e); name = getTargetDeviationName (de_key e) in
      case k_GetDeviation (de_k8s e) ns name w of
        (Inl err, w) \<Rightarrow> w
      | (Inr dv, w) \<Rightarrow>
          if d_deviations dv = [] then w
          else snd (k_ApplyDeviation (de_k8s e) \<lparr>da_namespace = ns, da_name = name, da_labels = [],
                 da_deviationType = None, da_deviations = []\<rparr> fieldManagerDeviation False w))"

section \<open>The loop\<close>

definition intent_of :: "'v watch_resp \<Rightarrow> string" where
  "intent_of resp = (if wr_reason resp = UNHANDLED then unManagedConfigDeviation else wr_intent resp)"

definition dw_update :: "'v watch_resp \<Rightarrow> 'v watch_resp list gomap \<Rightarrow> 'v watch_resp list gomap" where
  "dw_update resp devs =
     (let intent = intent_of resp;
          devs = (if map_of devs intent = None then gm_put intent [] devs else devs) in
      if wr_reason resp = INTENT_EXISTS then devs
      else gm_put intent (gm_index [] devs intent @ [resp]) devs)"

definition dw_handle ::
  "('v, 'w) dw_env \<Rightarrow> 'v watch_resp \<Rightarrow> 'v dev_watch \<times> 'w \<Rightarrow> ('v dev_watch \<times> 'w) option" where
  "dw_handle e resp sw =
     (let (s, w) = sw in
      case wr_event resp of
        EvStart \<Rightarrow>
          (if dw_started s then Some (s, w)
           else Some (s\<lparr>dw_devs := [(unManagedConfigDeviation, [])], dw_started := True\<rparr>, w))
      | EvUpdate \<Rightarrow>
          (if \<not> dw_started s then Some (s, w) else Some (s\<lparr>dw_devs := dw_update resp (dw_devs s)\<rparr>, w))
      | EvEnd \<Rightarrow>
          (if \<not> dw_started s then Some (s, w)
           else case processDeviations e (dw_devs s) w of
               None \<Rightarrow> None
             | Some w \<Rightarrow> Some (s\<lparr>dw_started := False, dw_devs := []\<rparr>, w))
      | EvClear \<Rightarrow> Some (s\<lparr>dw_devs := []\<rparr>, w)
      | EvOther \<Rightarrow> Some (s, w))"

definition dw_iter ::
  "('v, 'w) dw_env \<Rightarrow> 'v dw_in \<Rightarrow> 'v dev_watch \<times> 'w \<Rightarrow> ('v dev_watch \<times> 'w) option" where
  \<comment> \<open>one iteration of \<open>start\<close>; \<open>None\<close>: the goroutine panics, as it does on a cancelled error, which
      leaves the stream or the response nil\<close>
  "dw_iter e i sw =
     (let (s, w) = sw in
      case (if dw_stream s then None else di_subscribe i) of
        Some err \<Rightarrow> (if di_canceled i err then None else Some (s, w))
      | None \<Rightarrow>
          (let s = s\<lparr>dw_stream := True\<rparr> in
           case di_recv i of
             Inl err \<Rightarrow> (if di_canceled i err then None else Some (s\<lparr>dw_stream := False\<rparr>, w))
           | Inr resp \<Rightarrow> dw_handle e resp (s, w)))"

fun dw_run :: "('v, 'w) dw_env \<Rightarrow> 'v dw_in list \<Rightarrow> 'v dev_watch \<times> 'w \<Rightarrow> ('v dev_watch \<times> 'w) option" where
  "dw_run e [] sw = Some sw"
| "dw_run e (i # is) sw = (case dw_iter e i sw of None \<Rightarrow> None | Some sw \<Rightarrow> dw_run e is sw)"

section \<open>A cycle reports exactly what the data-server reported in it\<close>

definition received :: "'v watch_resp \<Rightarrow> 'v dw_in" where
  "received resp = \<lparr>di_subscribe = None, di_recv = Inr resp, di_canceled = (\<lambda>err. False)\<rparr>"

definition marker :: "dev_event \<Rightarrow> 'v watch_resp" where
  "marker ev = \<lparr>wr_event = ev, wr_intent = [], wr_reason = OtherReason [], wr_path = [], wr_expected = None, wr_current = None\<rparr>"

definition reported :: "'v watch_resp list \<Rightarrow> string \<Rightarrow> 'v watch_resp list option" where
  "reported ups k =
     (if k = unManagedConfigDeviation \<or> k \<in> intent_of ` set ups
      then Some (filter (\<lambda>u. intent_of u = k \<and> wr_reason u \<noteq> INTENT_EXISTS) ups) else None)"

definition deviation_call :: "('v, 'w) dw_env \<Rightarrow> string \<times> 'v watch_resp list \<Rightarrow> 'p call" where
  "deviation_call e kd =
     (if fst kd = unManagedConfigDeviation
      then CApplyDev (deviation_of e (fst (de_key e)) (getTargetDeviationName (de_key e))
             (map (convert_deviation e) (snd kd)) DeviationType_TARGET)
      else CApplyDev (deviation_of e (splitN2 (fst kd) ! 0) (DeviationName DeviationType_CONFIG (splitN2 (fst kd) ! 1))
             (map (convert_deviation e) (snd kd)) DeviationType_CONFIG))"

lemma dw_update_index:
  "map_of (dw_update resp devs) k =
     (if k = intent_of resp then Some (gm_index [] devs k @ (if wr_reason resp = INTENT_EXISTS then [] else [resp]))
      else map_of devs k)"
  by (auto simp: dw_update_def gm_index_def Let_def split: option.split)

lemma dw_update_ok: "gm_ok devs \<Longrightarrow> gm_ok (dw_update resp devs)"
  by (auto simp: dw_update_def Let_def)

lemma not_reported: "k \<notin> intent_of ` set ups \<Longrightarrow> filter (\<lambda>u. intent_of u = k \<and> P u) ups = []"
  by (auto simp: filter_empty_conv)

lemma dw_updates_reported:
  assumes "gm_ok devs" "map_of devs = reported before"
  shows "gm_ok (fold dw_update ups devs) \<and> map_of (fold dw_update ups devs) = reported (before @ ups)"
  using assms
proof (induction ups arbitrary: devs before)
  case (Cons u ups)
  have "map_of (dw_update u devs) = reported (before @ [u])"
    using Cons.prems(2) by (auto simp: fun_eq_iff dw_update_index reported_def gm_index_def not_reported)
  from Cons.IH [OF dw_update_ok [OF Cons.prems(1)] this] show ?case by simp
qed simp

lemma dw_run_append: "dw_run e (xs @ ys) sw = (case dw_run e xs sw of None \<Rightarrow> None | Some sw \<Rightarrow> dw_run e ys sw)"
  by (induction xs arbitrary: sw) (auto split: option.split)

lemma dw_run_updates:
  assumes "dw_started s" "dw_stream s" "\<forall>u \<in> set ups. wr_event u = EvUpdate"
  shows "dw_run e (map received ups) (s, w) = Some (s\<lparr>dw_devs := fold dw_update ups (dw_devs s)\<rparr>, w)"
  using assms
proof (induction ups arbitrary: s)
  case (Cons u ups)
  then have "dw_iter e (received u) (s, w) = Some (s\<lparr>dw_devs := dw_update u (dw_devs s)\<rparr>, w)"
    by (simp add: dw_iter_def received_def dw_handle_def Let_def)
  with Cons show ?case by simp
qed simp

lemma splitN2_dot: "CHR ''.'' \<in> set s \<Longrightarrow> \<exists>p q. splitN2 s = [p, q]"
proof -
  assume "CHR ''.'' \<in> set s"
  then have "takeWhile (\<lambda>c. c \<noteq> CHR ''.'') s \<noteq> s" by (auto simp: takeWhile_eq_all_conv)
  then show ?thesis by (simp add: splitN2_def Let_def)
qed

lemma processDeviations_calls:
  assumes "\<forall>(k, ds) \<in> set m. k \<in> {''default'', unManagedConfigDeviation} \<or> CHR ''.'' \<in> set k"
    and "de_k8s e = trace_k8s k8s"
  shows "\<exists>w'. processDeviations e m (w, log)
    = Some (w', log @ map (deviation_call e) (filter (\<lambda>kd. fst kd \<noteq> ''default'') m))"
  using assms(1)
proof (induction m arbitrary: w log)
  case (Cons kd m)
  obtain k ds where kd: "kd = (k, ds)" by (cases kd)
  have un: "unManagedConfigDeviation \<noteq> ''default''" by (simp add: unManagedConfigDeviation_def)
  have p: "\<exists>w1. processDSDeviations e ns name devs ty (w, log) = (w1, log @ [CApplyDev (deviation_of e ns name devs ty)])"
    for ns name devs ty by (simp add: processDSDeviations_def assms(2) trace_k8s_def tcall_def split_beta)
  show ?case
  proof (cases "k = ''default''")
    case True
    with Cons kd show ?thesis by simp
  next
    case nd: False
    have IH: "\<exists>w'. processDeviations e m (w1, log1)
      = Some (w', log1 @ map (deviation_call e) (filter (\<lambda>kd. fst kd \<noteq> ''default'') m))" for w1 log1
      using Cons by simp
    show ?thesis
    proof (cases "k = unManagedConfigDeviation")
      case True
      obtain w1 where "processDSDeviations e (fst (de_key e)) (getTargetDeviationName (de_key e))
          (map (convert_deviation e) ds) DeviationType_TARGET (w, log)
        = (w1, log @ [deviation_call e kd])" using p kd True by (fastforce simp: deviation_call_def)
      with IH [of w1 "log @ [deviation_call e kd]"] kd True un show ?thesis
        by (simp add: ConvertSdcpbDeviations2Deviations_def Let_def)
    next
      case False
      with Cons.prems kd nd obtain p0 p1 where s: "splitN2 k = [p0, p1]" using splitN2_dot by fastforce
      obtain w1 where "processDSDeviations e p0 (DeviationName DeviationType_CONFIG p1)
          (map (convert_deviation e) ds) DeviationType_CONFIG (w, log)
        = (w1, log @ [deviation_call e kd])" using p kd False s by (fastforce simp: deviation_call_def)
      with IH [of w1 "log @ [deviation_call e kd]"] kd False nd s show ?thesis
        by (simp add: ConvertSdcpbDeviations2Deviations_def Let_def)
    qed
  qed
qed simp

text \<open>
  A complete cycle reports what the data-server reported in it. After START, updates and END the
  watcher has written one Deviation for the target and one for every config the data-server named,
  in some order: each holds exactly the deviations reported for it in this cycle, the unhandled ones
  being the target's, and none for a config that was only reported to exist, which clears it. The
  watcher is then ready for the next cycle.
\<close>

theorem deviation_cycle_exact:
  assumes s: "\<not> dw_started s" and ups: "\<forall>u \<in> set ups. wr_event u = EvUpdate"
    and names: "\<forall>u \<in> set ups. intent_of u \<in> {''default'', unManagedConfigDeviation} \<or> CHR ''.'' \<in> set (intent_of u)"
    and e: "de_k8s e = trace_k8s k8s"
  shows "\<exists>M w'. gm_ok M \<and> map_of M = reported ups
    \<and> dw_run e (received (marker EvStart) # map received ups @ [received (marker EvEnd)]) (s, (w, log))
        = Some (\<lparr>dw_stream = True, dw_started = False, dw_devs = []\<rparr>,
            (w', log @ map (deviation_call e) (filter (\<lambda>kd. fst kd \<noteq> ''default'') M)))"
proof -
  let ?s = "\<lparr>dw_stream = True, dw_started = True, dw_devs = [(unManagedConfigDeviation, [])]\<rparr> :: 'a dev_watch"
  let ?M = "fold dw_update ups (dw_devs ?s)"
  have start: "dw_iter e (received (marker EvStart)) (s, (w, log)) = Some (?s, (w, log))"
    using s by (cases s) (simp add: dw_iter_def received_def marker_def dw_handle_def)
  have M: "gm_ok ?M \<and> map_of ?M = reported ups"
    using dw_updates_reported [of "dw_devs ?s" "[]" ups] by (auto simp: reported_def fun_eq_iff)
  have "k \<in> {''default'', unManagedConfigDeviation} \<or> CHR ''.'' \<in> set k" if "(k, ds) \<in> set ?M" for k ds
  proof -
    from that M have "reported ups k = Some ds" by (metis map_of_eq_Some_iff)
    with names show ?thesis by (auto simp: reported_def split: if_splits)
  qed
  then obtain w' where p: "processDeviations e ?M (w, log)
      = Some (w', log @ map (deviation_call e) (filter (\<lambda>kd. fst kd \<noteq> ''default'') ?M))"
    using processDeviations_calls [of ?M e k8s w log] e by blast
  have "dw_iter e (received (marker EvEnd)) (?s\<lparr>dw_devs := ?M\<rparr>, (w, log))
      = Some (\<lparr>dw_stream = True, dw_started = False, dw_devs = []\<rparr>,
          (w', log @ map (deviation_call e) (filter (\<lambda>kd. fst kd \<noteq> ''default'') ?M)))"
    using p by (simp add: dw_iter_def received_def marker_def dw_handle_def)
  with start dw_run_updates [of ?s ups e "(w, log)"] ups
  have "dw_run e (received (marker EvStart) # map received ups @ [received (marker EvEnd)]) (s, (w, log))
      = Some (\<lparr>dw_stream = True, dw_started = False, dw_devs = []\<rparr>,
          (w', log @ map (deviation_call e) (filter (\<lambda>kd. fst kd \<noteq> ''default'') ?M)))"
    by (simp add: dw_run_append)
  with M show ?thesis by blast
qed

definition sample_resp :: "dev_event \<Rightarrow> string \<Rightarrow> dev_reason \<Rightarrow> string \<Rightarrow> string watch_resp" where
  "sample_resp ev intent reason path = \<lparr>wr_event = ev, wr_intent = intent, wr_reason = reason, wr_path = path,
     wr_expected = Some ''1'', wr_current = None\<rparr>"

definition accepting_k8s :: "nat k8s" where
  "accepting_k8s = \<lparr>k_GetConfig = (\<lambda>ns n w. (Inl (err_new ''not found''), w)), k_ListConfigs = (\<lambda>ns l w. (Inr [], w)),
     k_PatchConfig = (\<lambda>a b fm w. (Inr b, w)), k_ApplyConfigStatus = (\<lambda>ns n a fm w. (None, w)),
     k_GetDeviation = (\<lambda>ns n w. (Inl (err_new ''not found''), w)), k_CreateDeviation = (\<lambda>dv w. (None, w)),
     k_DeleteDeviation = (\<lambda>ns n w. (None, w)), k_ApplyDeviation = (\<lambda>a fm f w. (None, w + 1)),
     k_GetTarget = (\<lambda>ns n w. (Inl (err_new ''not found''), w))\<rparr>"

definition sample_dw_env :: "(string, nat \<times> string call list) dw_env" where
  "sample_dw_env = \<lparr>de_key = (''ns'', ''t1''), de_marshal = Inr, de_reasonString = (\<lambda>r. ''r''), de_sort = sort_key dv_path,
     de_k8s = trace_k8s accepting_k8s\<rparr>"

definition dev_count :: "string call \<Rightarrow> (string \<times> string list) option" where
  "dev_count c = (case c of CApplyDev a \<Rightarrow> Some (da_name a, map dv_path (da_deviations a)) | _ \<Rightarrow> None)"

lemma deviation_cycle_exact_witness:
  "\<exists>M w'. map_of M = reported [sample_resp EvUpdate ''ns.c1'' (OtherReason []) ''/a'', sample_resp EvUpdate ''ns.c2'' INTENT_EXISTS []]
    \<and> dw_run sample_dw_env (received (marker EvStart) # map received [sample_resp EvUpdate ''ns.c1'' (OtherReason []) ''/a'',
         sample_resp EvUpdate ''ns.c2'' INTENT_EXISTS []] @ [received (marker EvEnd)]) (dw_new, (0, []))
        = Some (\<lparr>dw_stream = True, dw_started = False, dw_devs = []\<rparr>,
            (w', map (deviation_call sample_dw_env) (filter (\<lambda>kd. fst kd \<noteq> ''default'') M)))"
proof -
  let ?ups = "[sample_resp EvUpdate ''ns.c1'' (OtherReason []) ''/a'', sample_resp EvUpdate ''ns.c2'' INTENT_EXISTS []]"
  have s: "\<not> dw_started (dw_new :: string dev_watch)" by (simp add: dw_new_def)
  have u: "\<forall>u \<in> set ?ups. wr_event u = EvUpdate" by (simp add: sample_resp_def)
  have n: "\<forall>u \<in> set ?ups. intent_of u \<in> {''default'', unManagedConfigDeviation} \<or> CHR ''.'' \<in> set (intent_of u)"
    by (simp add: sample_resp_def intent_of_def)
  have e: "de_k8s sample_dw_env = trace_k8s accepting_k8s" by (simp add: sample_dw_env_def)
  from deviation_cycle_exact [OF s u n e, of 0 "[]"] show ?thesis unfolding append_Nil by blast
qed

text \<open>
  A stream that breaks inside a cycle spoils the next one. The watcher subscribes again but keeps
  the half-finished cycle, so the START of the new stream is taken for a protocol violation and the
  new updates are added to the old ones: a deviation reported in both is written twice, and one that
  was gone by the second cycle is still written. An intent without a dot makes the END of its cycle
  panic, and an error that is \<open>context.Canceled\<close> panics at once.
\<close>

theorem interrupted_cycle_is_stale:
  "let up = sample_resp EvUpdate ''ns.c1'' (OtherReason []); start = received (marker EvStart); finish = received (marker EvEnd);
       broken = \<lparr>di_subscribe = None, di_recv = Inl (err_new ''EOF''), di_canceled = (\<lambda>err. False)\<rparr>;
       written = (\<lambda>ins. map_option (\<lambda>out. List.map_filter dev_count (snd (snd out))) (dw_run sample_dw_env ins (dw_new, (0, [])))) in
   written [start, received (up ''/a''), received (up ''/b''), finish]
       = Some [(''target-t1'', []), (''config-c1'', [''/a'', ''/b''])]
   \<and> written [start, received (up ''/a''), received (up ''/b''), broken, start, received (up ''/b''), finish]
       = Some [(''target-t1'', []), (''config-c1'', [''/a'', ''/b'', ''/b''])]
   \<and> written [start, received (sample_resp EvUpdate ''c1'' (OtherReason []) ''/a''), finish] = None
   \<and> dw_iter sample_dw_env (broken\<lparr>di_canceled := (\<lambda>err. True)\<rparr>) (dw_new, (0, [])) = None"
  by code_simp

end
