(* ===== verification/ConfigSet.thy ===== *)
theory ConfigSet
  imports Resource
begin

text \<open>
  The ConfigSet controller (\<open>pkg/reconcilers/configset/reconciler.go\<close>): one Config per selected target,
  owned by the set. The API server is the record \<open>cs_services\<close>; the label selector parser, the hash of
  a Config (SHA-1 of its JSON) and the clock are arguments. The map of existing children is visited in
  some order, as in Go.
\<close>

section \<open>State\<close>

record configset_spec =
  xs_selector :: string
  xs_lifecycle :: "string option"
  xs_priority :: "32 word"
  xs_revertive :: "bool option"
  xs_config :: "config_blob list"

record configset =
  cs_apiVersion :: string
  cs_kind :: string
  cs_meta :: objmeta
  cs_spec :: configset_spec
  cs_conditions :: "condition list"
  cs_targets :: "(string \<times> condition) list option"

text \<open>\<open>cs_targets\<close>: name and condition per target; \<open>None\<close> is a nil slice, which \<open>DeepEqual\<close> tells from an empty one.\<close>

type_synonym nsn = "string \<times> string"

record ('q, 'w) cs_services =
  cv_Get :: "string \<Rightarrow> string \<Rightarrow> 'w \<Rightarrow> (goerr + configset) \<times> 'w"
  cv_ListTargets :: "string \<Rightarrow> 'q \<Rightarrow> 'w \<Rightarrow> (goerr + target list) \<times> 'w"
  cv_ListConfigs :: "'w \<Rightarrow> (goerr + config list) \<times> 'w"
  cv_Create :: "config \<Rightarrow> 'w \<Rightarrow> goerr option \<times> 'w"
  cv_Update :: "config \<Rightarrow> 'w \<Rightarrow> goerr option \<times> 'w"
  cv_Delete :: "config \<Rightarrow> 'w \<Rightarrow> goerr option \<times> 'w"
  cv_ApplyStatus :: "string \<Rightarrow> string \<Rightarrow> condition \<Rightarrow> (string \<times> condition) list \<Rightarrow> 'w \<Rightarrow> goerr option \<times> 'w"
  cv_ApplyFinalizers :: "string \<Rightarrow> string \<Rightarrow> string list \<Rightarrow> 'w \<Rightarrow> goerr option \<times> 'w"
  cv_Event :: "string \<Rightarrow> string \<Rightarrow> string \<Rightarrow> 'w \<Rightarrow> 'w"

record ('q, 'h, 'w) cs_env =
  ce_sv :: "('q, 'w) cs_services"
  ce_selectorOf :: "string \<Rightarrow> string + 'q"
  ce_hash :: "config \<Rightarrow> goerr + 'h"
  ce_now :: nat

definition cs_finalizer :: string where
  "cs_finalizer = ''configset.config.sdcio.dev/finalizer''"

section \<open>Children\<close>

definition BuildConfig :: "objmeta \<Rightarrow> config_spec \<Rightarrow> config_status \<Rightarrow> config" where
  "BuildConfig meta spec status = \<lparr>c_apiVersion = ''config.sdcio.dev/v1alpha1'', c_kind = ''Config'', c_meta = meta,
     c_spec = spec, c_status = status\<rparr>"

definition empty_status :: config_status where
  "empty_status = \<lparr>st_conditions = [], st_lastKnownGoodSchema = None, st_appliedConfig = None, st_deviationGeneration = None\<rparr>"

definition child_spec :: "configset \<Rightarrow> config_spec" where
  "child_spec cs = \<lparr>s_lifecycle = xs_lifecycle (cs_spec cs), s_priority = xs_priority (cs_spec cs),
     s_revertive = xs_revertive (cs_spec cs), s_config = xs_config (cs_spec cs)\<rparr>"

definition child_owner :: "configset \<Rightarrow> owner_ref" where
  "child_owner cs = \<lparr>or_apiVersion = cs_apiVersion cs, or_kind = cs_kind cs, or_name = m_name (cs_meta cs),
     or_uid = m_uid (cs_meta cs), or_controller = Some True\<rparr>"

definition buildConfig :: "configset \<Rightarrow> nsn \<Rightarrow> config \<times> configset" where
  \<comment> \<open>a non-empty label map of the ConfigSet is written to in place: the second component\<close>
  "buildConfig cs t =
     (let labels = gm_put TargetNamespaceKey (fst t) (gm_put TargetNameKey (snd t) (m_labels (cs_meta cs)));
          cs' = (if m_labels (cs_meta cs) = [] then cs else cs\<lparr>cs_meta := (cs_meta cs)\<lparr>m_labels := labels\<rparr>\<rparr>) in
      (BuildConfig (empty_meta\<lparr>m_name := m_name (cs_meta cs) @ ''-'' @ snd t, m_namespace := m_namespace (cs_meta cs),
          m_labels := labels, m_annotations := m_annotations (cs_meta cs), m_ownerReferences := [child_owner cs]\<rparr>)
        (child_spec cs) empty_status, cs'))"

definition owned_by :: "configset \<Rightarrow> config \<Rightarrow> bool" where
  "owned_by cs c = (\<exists>ref \<in> set (m_ownerReferences (c_meta c)).
     or_apiVersion ref = cs_apiVersion cs \<and> or_kind ref = cs_kind cs \<and> or_name ref = m_name (cs_meta cs)
     \<and> or_uid ref = m_uid (cs_meta cs))"

definition getOrphanConfigsFromConfigSet ::
  "('q, 'w) cs_services \<Rightarrow> configset \<Rightarrow> 'w \<Rightarrow> (nsn \<times> config) list \<times> 'w" where
  \<comment> \<open>a failing list is logged and answered with an empty map\<close>
  "getOrphanConfigsFromConfigSet sv cs w =
     (case cv_ListConfigs sv w of
        (Inl err, w) \<Rightarrow> ([], w)
      | (Inr items, w) \<Rightarrow> (fold (\<lambda>c m. if owned_by cs c then AList.update (ckey c) c m else m) items [], w))"

definition unrollDownstreamTargets ::
  "('q, 'h, 'w) cs_env \<Rightarrow> configset \<Rightarrow> 'w \<Rightarrow> (goerr + nsn list) \<times> 'w" where
  "unrollDownstreamTargets e cs w =
     (case ce_selectorOf e (xs_selector (cs_spec cs)) of
        Inl err \<Rightarrow> (Inl (err_new (''parsing selector failed: err: '' @ err)), w)
      | Inr q \<Rightarrow>
          (case cv_ListTargets (ce_sv e) (m_namespace (cs_meta cs)) q w of
             (Inl err, w) \<Rightarrow> (Inl err, w)
           | (Inr items, w) \<Rightarrow>
               (Inr (sort_key snd (map (\<lambda>t. (m_namespace (cs_meta cs), m_name (t_meta t)))
                  (filter (\<lambda>t. m_deletionTimestamp (t_meta t) = None) items))), w)))"

definition overlay :: "string gomap \<Rightarrow> string gomap \<Rightarrow> string gomap" where
  "overlay new old = fold (\<lambda>(k, v) m. gm_put k v m) new old"

definition desired_child :: "configset \<Rightarrow> config \<Rightarrow> config" where
  \<comment> \<open>an existing child with the spec, labels and annotations of the set\<close>
  "desired_child cs old = old\<lparr>c_spec := child_spec cs,
     c_meta := (c_meta old)\<lparr>m_labels := overlay (m_labels (cs_meta cs)) (m_labels (c_meta old)),
       m_annotations := overlay (m_annotations (cs_meta cs)) (m_annotations (c_meta old))\<rparr>\<rparr>"

definition update_child ::
  "('q, 'h, 'w) cs_env \<Rightarrow> configset \<Rightarrow> config \<Rightarrow> 'w \<Rightarrow> condition \<times> 'w" where
  "update_child e cs old w =
     (let newConfig = desired_child cs old in
      case ce_hash e newConfig of
        Inl err \<Rightarrow> (Failed (ce_now e) (e_msg err), w)
      | Inr newHash \<Rightarrow>
          (case ce_hash e old of
             Inl err \<Rightarrow> (Failed (ce_now e) (e_msg err), w)
           | Inr oldHash \<Rightarrow>
               if oldHash = newHash then (GetCondition (c_conditions old) ConditionTypeReady, w)
               else (case cv_Update (ce_sv e) newConfig w of
                   (Some err, w) \<Rightarrow> (Failed (ce_now e) (e_msg err), w)
                 | (None, w) \<Rightarrow> (Updating (ce_now e), w))))"

definition ensure_child ::
  "('q, 'h, 'w) cs_env \<Rightarrow> configset \<Rightarrow> config \<Rightarrow> config option \<Rightarrow> 'w \<Rightarrow> condition \<times> 'w" where
  "ensure_child e cs newConfig old w =
     (case old of
        None \<Rightarrow>
          (case cv_Create (ce_sv e) newConfig w of
             (Some err, w) \<Rightarrow> (Failed (ce_now e) (e_msg err), w)
           | (None, w) \<Rightarrow> (Creating (ce_now e), w))
      | Some oldConfig \<Rightarrow> update_child e cs oldConfig w)"

fun ensure_children ::
  "('q, 'h, 'w) cs_env \<Rightarrow> nsn list \<Rightarrow> configset \<Rightarrow> (nsn \<times> config) list \<Rightarrow> 'w
     \<Rightarrow> (string \<times> condition) list \<times> configset \<times> (nsn \<times> config) list \<times> 'w" where
  \<comment> \<open>the loop of \<open>ensureConfigs\<close>: what remains of the existing children is no longer wanted\<close>
  "ensure_children e [] cs existing w = ([], cs, existing, w)"
| "ensure_children e (t # ts) cs existing w =
     (let (newConfig, cs) = buildConfig cs t;
          old = map_of existing (ckey newConfig); existing = AList.delete (ckey newConfig) existing;
          (cond, w) = ensure_child e cs newConfig old w;
          (rest, cs, existing, w) = ensure_children e ts cs existing w in
      ((snd t, cond) # rest, cs, existing, w))"

fun delete_configs :: "('q, 'w) cs_services \<Rightarrow> (nsn \<times> config) list \<Rightarrow> 'w \<Rightarrow> 'w" where
  \<comment> \<open>failures are logged\<close>
  "delete_configs sv [] w = w"
| "delete_configs sv ((k, c) # cs) w = delete_configs sv cs (snd (cv_Delete sv c w))"

definition ensureConfigs ::
  "('q, 'h, 'w) cs_env \<Rightarrow> configset \<Rightarrow> nsn list \<Rightarrow> 'w \<Rightarrow> configset \<times> 'w" where
  \<comment> \<open>it has no error\<close>
  "ensureConfigs e cs targets w =
     (let (existing, w) = getOrphanConfigsFromConfigSet (ce_sv e) cs w;
          (status, cs, existing, w) = ensure_children e targets cs existing w;
          w = delete_configs (ce_sv e) existing w in
      (cs\<lparr>cs_targets := Some status\<rparr>, w))"

section \<open>Status\<close>

definition determineOverallStatus :: "configset \<Rightarrow> string" where
  "determineOverallStatus cs =
     concat (map (\<lambda>(name, c). if cStatus c = ConditionFalse
         then ''target '' @ name @ '' config not ready, msg '' @ cMessage c @ '';'' else [])
       (case cs_targets cs of None \<Rightarrow> [] | Some ts \<Rightarrow> ts))"

definition cs_report ::
  "('q, 'w) cs_services \<Rightarrow> string \<Rightarrow> string \<Rightarrow> condition \<Rightarrow> configset \<Rightarrow> configset \<Rightarrow> 'w \<Rightarrow> goerr option \<times> 'w" where
  \<comment> \<open>the common part of \<open>handleSuccess\<close> and \<open>handleError\<close>\<close>
  "cs_report sv eventType note newCond orig cs w =
     (if cond_Equal newCond (GetCondition (cs_conditions orig) ConditionTypeReady) \<and> cs_targets cs = cs_targets orig
      then (None, w)
      else let w = (case RecordEvent note of None \<Rightarrow> w | Some n \<Rightarrow> cv_Event sv eventType ''ConfigSet'' n w) in
        cv_ApplyStatus sv (m_name (cs_meta cs)) (m_namespace (cs_meta cs)) newCond
          (case cs_targets cs of None \<Rightarrow> [] | Some ts \<Rightarrow> ts) w)"

definition handleSuccess :: "('q, 'h, 'w) cs_env \<Rightarrow> configset \<Rightarrow> configset \<Rightarrow> 'w \<Rightarrow> goerr option \<times> 'w" where
  "handleSuccess e orig cs w = cs_report (ce_sv e) ''Normal'' ''ready'' (Ready (ce_now e)) orig cs w"

definition handleError ::
  "('q, 'h, 'w) cs_env \<Rightarrow> configset \<Rightarrow> configset \<Rightarrow> string \<Rightarrow> goerr option \<Rightarrow> 'w \<Rightarrow> goerr option \<times> 'w" where
  "handleError e orig cs msg err w =
     (let msg = (case err of None \<Rightarrow> msg | Some er \<Rightarrow> msg @ '' err '' @ e_msg er) in
      cs_report (ce_sv e) ''Warning'' msg (Failed (ce_now e) msg) orig cs w)"

section \<open>Reconcile\<close>

fun delete_children ::
  "('q, 'w) cs_services \<Rightarrow> (nsn \<times> config) list \<Rightarrow> goerr option \<Rightarrow> 'w \<Rightarrow> goerr option \<times> 'w" where
  "delete_children sv [] errs w = (errs, w)"
| "delete_children sv ((k, c) # cs) errs w =
     (case cv_Delete sv c w of
        (Some err, w) \<Rightarrow> delete_children sv cs (err_join errs (Some (err_new
           (''cannot delete child config '' @ fst k @ ''/'' @ snd k @ '', err: '' @ e_msg err)))) w
      | (None, w) \<Rightarrow> delete_children sv cs errs w)"

definition cs_failed ::
  "('q, 'h, 'w) cs_env \<Rightarrow> configset \<Rightarrow> configset \<Rightarrow> string \<Rightarrow> goerr option \<Rightarrow> 'w \<Rightarrow> (bool \<times> goerr option) \<times> 'w" where
  \<comment> \<open>the result asks for a requeue\<close>
  "cs_failed e orig cs msg err w =
     (let (serr, w) = handleError e orig cs msg err w in
      ((True, map_option (err_wrap ''cannot update status'') serr), w))"

definition cs_reconcileDelete :: "('q, 'h, 'w) cs_env \<Rightarrow> configset \<Rightarrow> 'w \<Rightarrow> (bool \<times> goerr option) \<times> 'w" where
  "cs_reconcileDelete e cs w =
     (let (existing, w) = getOrphanConfigsFromConfigSet (ce_sv e) cs w;
          (errs, w) = delete_children (ce_sv e) existing None w in
      if errs \<noteq> None then cs_failed e cs cs ''cannot delete child configs'' errs w
      else if length existing \<noteq> 0 then ((False, None), w)
      else case RemoveFinalizer cs_finalizer (cv_ApplyFinalizers (ce_sv e)) (cs_meta cs) w of
          (Some err, w) \<Rightarrow> cs_failed e cs cs ''cannot delete finalizer'' (Some err) w
        | (None, w) \<Rightarrow> ((False, None), w))"

definition cs_Reconcile :: "('q, 'h, 'w) cs_env \<Rightarrow> string \<Rightarrow> string \<Rightarrow> 'w \<Rightarrow> (bool \<times> goerr option) \<times> 'w" where
  \<comment> \<open>(requeue, error)\<close>
  "cs_Reconcile e ns name w =
     (case cv_Get (ce_sv e) ns name w of
        (Inl err, w) \<Rightarrow> ((False, map_option (err_wrap ''cannot get cr'') (IgnoreNotFound (Some err))), w)
      | (Inr cs, w) \<Rightarrow>
          if m_deletionTimestamp (cs_meta cs) \<noteq> None then cs_reconcileDelete e cs w
          else (case AddFinalizer cs_finalizer (cv_ApplyFinalizers (ce_sv e)) (cs_meta cs) w of
              (Some err, w) \<Rightarrow> cs_failed e cs cs ''cannot add finalizer'' (Some err) w
            | (None, w) \<Rightarrow>
                (case unrollDownstreamTargets e cs w of
                   (Inl err, w) \<Rightarrow> cs_failed e cs cs ''cannot unroll downstream targets'' None w
                 | (Inr targets, w) \<Rightarrow>
                     (let (cs', w) = ensureConfigs e cs targets w; msg = determineOverallStatus cs' in
                      if msg \<noteq> []
                      then let (serr, w) = handleError e cs cs' msg None w in
                        ((False, map_option (err_wrap ''cannot update status'') serr), w)
                      else let (serr, w) = handleSuccess e cs cs' w in
                        ((False, map_option (err_wrap ''cannot update status'') serr), w)))))"

section \<open>One reconcile establishes the children\<close>

definition child_key :: "configset \<Rightarrow> nsn \<Rightarrow> nsn" where
  "child_key cs t = (m_namespace (cs_meta cs), m_name (cs_meta cs) @ ''-'' @ snd t)"

definition stored_as :: "config \<Rightarrow> config \<Rightarrow> bool" where
  \<comment> \<open>what the API server keeps of a write\<close>
  "stored_as c c' \<longleftrightarrow> c_spec c' = c_spec c \<and> c_name c' = c_name c \<and> c_namespace c' = c_namespace c
     \<and> m_labels (c_meta c') = m_labels (c_meta c) \<and> m_annotations (c_meta c') = m_annotations (c_meta c)
     \<and> m_ownerReferences (c_meta c') = m_ownerReferences (c_meta c)"

definition cs_laws :: "('q, 'w) cs_services \<Rightarrow> ('w \<Rightarrow> nsn \<Rightarrow> config option) \<Rightarrow> bool" where
  \<comment> \<open>an API server that holds the Configs \<open>look w\<close> and accepts every well-formed write, but no create of a name
      that is taken; a delete removes the object or, when it has finalizers, marks it\<close>
  "cs_laws sv look \<longleftrightarrow>
     (\<forall>w. \<exists>items. cv_ListConfigs sv w = (Inr items, w) \<and> distinct (map ckey items)
        \<and> (\<forall>k c. look w k = Some c \<longleftrightarrow> c \<in> set items \<and> ckey c = k))
     \<and> (\<forall>c w. look w (ckey c) = None \<longrightarrow> fst (cv_Create sv c w) = None
          \<and> (\<exists>c'. stored_as c c' \<and> look (snd (cv_Create sv c w)) = (look w)(ckey c \<mapsto> c')))
     \<and> (\<forall>c w. look w (ckey c) \<noteq> None \<longrightarrow> fst (cv_Create sv c w) \<noteq> None \<and> look (snd (cv_Create sv c w)) = look w)
     \<and> (\<forall>c w. look w (ckey c) \<noteq> None \<longrightarrow> fst (cv_Update sv c w) = None
          \<and> (\<exists>c'. stored_as c c' \<and> look (snd (cv_Update sv c w)) = (look w)(ckey c \<mapsto> c')))
     \<and> (\<forall>c w. look w (ckey c) \<noteq> None \<longrightarrow> fst (cv_Delete sv c w) = None
          \<and> (\<exists>r. (\<forall>c'. r = Some c' \<longrightarrow> c_deleting c') \<and> look (snd (cv_Delete sv c w)) = (look w)(ckey c := r)))"

definition hash_faithful :: "('q, 'h, 'w) cs_env \<Rightarrow> bool" where
  \<comment> \<open>every Config has a JSON, and different ones have different SHA-1 sums\<close>
  "hash_faithful e \<longleftrightarrow> (\<forall>c. \<not> isl (ce_hash e c)) \<and> (\<forall>a b. ce_hash e a = ce_hash e b \<longrightarrow> a = b)"

declare split_paired_All [simp del] split_paired_Ex [simp del]

lemma cs_lawsD:
  assumes "cs_laws sv look"
  shows "\<exists>items. cv_ListConfigs sv w = (Inr items, w) \<and> distinct (map ckey items)
        \<and> (\<forall>k c. look w k = Some c \<longleftrightarrow> c \<in> set items \<and> ckey c = k)"
    and "look w (ckey c) = None \<Longrightarrow> \<exists>c' w'. cv_Create sv c w = (None, w') \<and> stored_as c c' \<and> look w' = (look w)(ckey c \<mapsto> c')"
    and "look w (ckey c) \<noteq> None \<Longrightarrow> \<exists>c' w'. cv_Update sv c w = (None, w') \<and> stored_as c c' \<and> look w' = (look w)(ckey c \<mapsto> c')"
    and "look w (ckey c) \<noteq> None \<Longrightarrow> \<exists>r w'. cv_Delete sv c w = (None, w') \<and> (\<forall>c'. r = Some c' \<longrightarrow> c_deleting c')
          \<and> look w' = (look w)(ckey c := r)"
    and "look w (ckey c) \<noteq> None \<Longrightarrow> \<exists>er w'. cv_Create sv c w = (Some er, w') \<and> look w' = look w"
proof -
  show "\<exists>items. cv_ListConfigs sv w = (Inr items, w) \<and> distinct (map ckey items)
        \<and> (\<forall>k c. look w k = Some c \<longleftrightarrow> c \<in> set items \<and> ckey c = k)"
    using assms unfolding cs_laws_def by blast
next
  assume "look w (ckey c) = None"
  then have "fst (cv_Create sv c w) = None \<and> (\<exists>c'. stored_as c c' \<and> look (snd (cv_Create sv c w)) = (look w)(ckey c \<mapsto> c'))"
    using assms unfolding cs_laws_def by blast
  then show "\<exists>c' w'. cv_Create sv c w = (None, w') \<and> stored_as c c' \<and> look w' = (look w)(ckey c \<mapsto> c')"
    by (cases "cv_Create sv c w") auto
next
  assume "look w (ckey c) \<noteq> None"
  then have "fst (cv_Update sv c w) = None \<and> (\<exists>c'. stored_as c c' \<and> look (snd (cv_Update sv c w)) = (look w)(ckey c \<mapsto> c'))"
    using assms unfolding cs_laws_def by blast
  then show "\<exists>c' w'. cv_Update sv c w = (None, w') \<and> stored_as c c' \<and> look w' = (look w)(ckey c \<mapsto> c')"
    by (cases "cv_Update sv c w") auto
next
  assume "look w (ckey c) \<noteq> None"
  then have "fst (cv_Delete sv c w) = None
      \<and> (\<exists>r. (\<forall>c'. r = Some c' \<longrightarrow> c_deleting c') \<and> look (snd (cv_Delete sv c w)) = (look w)(ckey c := r))"
    using assms unfolding cs_laws_def by blast
  then show "\<exists>r w'. cv_Delete sv c w = (None, w') \<and> (\<forall>c'. r = Some c' \<longrightarrow> c_deleting c')
          \<and> look w' = (look w)(ckey c := r)"
    by (cases "cv_Delete sv c w") auto
next
  assume "look w (ckey c) \<noteq> None"
  then have "fst (cv_Create sv c w) \<noteq> None \<and> look (snd (cv_Create sv c w)) = look w"
    using assms unfolding cs_laws_def by blast
  then show "\<exists>er w'. cv_Create sv c w = (Some er, w') \<and> look w' = look w"
    by (cases "cv_Create sv c w") auto
qed

lemma map_of_overlay: "gm_ok new \<Longrightarrow> map_of (overlay new old) = map_of old ++ map_of new"
proof (induction new arbitrary: old)
  case (Cons kv new)
  obtain k v where kv: "kv = (k, v)" by (cases kv)
  with Cons have "map_of new k = None" by (auto simp: map_of_eq_None_iff)
  with Cons kv show ?case by (auto simp: overlay_def fun_eq_iff map_add_def split: option.split)
qed (simp add: overlay_def)

lemma buildConfig_sel:
  assumes "buildConfig cs t = (c, cs')"
  shows "ckey c = child_key cs t" "c_spec c = child_spec cs" "child_spec cs' = child_spec cs" "child_key cs' = child_key cs"
    "m_labels (cs_meta cs') = [] \<longleftrightarrow> m_labels (cs_meta cs) = []" "gm_ok (m_labels (cs_meta cs)) \<Longrightarrow> gm_ok (m_labels (cs_meta cs'))"
    "map_of (m_labels (c_meta c)) TargetNameKey = Some (snd t)" "map_of (m_labels (c_meta c)) TargetNamespaceKey = Some (fst t)"
    "m_labels (cs_meta cs) \<noteq> [] \<Longrightarrow> map_of (m_labels (cs_meta cs')) TargetNameKey = Some (snd t)"
    "m_labels (cs_meta cs) \<noteq> [] \<Longrightarrow> map_of (m_labels (cs_meta cs')) TargetNamespaceKey = Some (fst t)"
  using assms
  by (auto simp: buildConfig_def Let_def BuildConfig_def child_key_def child_spec_def fun_eq_iff empty_meta_def split: if_splits)

definition labelled :: "nsn \<Rightarrow> config \<Rightarrow> bool" where
  "labelled t c \<longleftrightarrow> map_of (m_labels (c_meta c)) TargetNameKey = Some (snd t)
     \<and> map_of (m_labels (c_meta c)) TargetNamespaceKey = Some (fst t)"

definition established :: "configset \<Rightarrow> nsn \<Rightarrow> bool \<Rightarrow> config option \<Rightarrow> bool" where
  \<comment> \<open>\<open>fresh\<close>: the child was not there before\<close>
  "established cs t fresh r \<longleftrightarrow> (\<exists>c. r = Some c \<and> c_spec c = child_spec cs
     \<and> (m_labels (cs_meta cs) \<noteq> [] \<or> fresh \<longrightarrow> labelled t c))"

lemma ensure_one:
  assumes laws: "cs_laws (ce_sv e) look" and h: "hash_faithful e" and ok: "gm_ok (m_labels (cs_meta cs))"
    and b: "buildConfig cs t = (c, cs')"
    and old: "\<And>o'. old = Some o' \<Longrightarrow> look w (ckey c) = Some o' \<and> ckey o' = ckey c"
    and run: "ensure_child e cs' c old w = (cond, w')"
  shows "(if old = None \<and> look w (ckey c) \<noteq> None then look w' (ckey c) = look w (ckey c) \<and> (\<exists>msg. cond = Failed (ce_now e) msg)
       else established cs t (old = None) (look w' (ckey c)))
    \<and> (\<forall>k. k \<noteq> ckey c \<longrightarrow> look w' k = look w k)"
proof (cases old)
  case None
  show ?thesis
  proof (cases "look w (ckey c)")
    case free: None
    with None obtain c' w1 where "cv_Create (ce_sv e) c w = (None, w1)" "stored_as c c'" "look w1 = (look w)(ckey c \<mapsto> c')"
      using cs_lawsD(2) [OF laws, of w c] by auto
    with run None free buildConfig_sel [OF b] show ?thesis
      by (auto simp: ensure_child_def established_def labelled_def stored_as_def)
  next
    case taken: (Some x)
    then obtain er w1 where "cv_Create (ce_sv e) c w = (Some er, w1)" "look w1 = look w"
      using cs_lawsD(5) [OF laws, of w c] by auto
    with run None taken show ?thesis by (auto simp: ensure_child_def)
  qed
next
  case (Some o')
  let ?n = "desired_child cs' o'"
  have n: "ckey ?n = ckey o'" "c_spec ?n = child_spec cs" "m_labels (c_meta ?n) = overlay (m_labels (cs_meta cs')) (m_labels (c_meta o'))"
    by (simp_all add: desired_child_def buildConfig_sel(3) [OF b])
  have l: "m_labels (cs_meta cs) \<noteq> [] \<longrightarrow> labelled t ?n"
    using buildConfig_sel(6,9,10) [OF b] ok map_of_overlay by (auto simp: labelled_def n(3))
  obtain x y where xy: "ce_hash e ?n = Inr x" "ce_hash e o' = Inr y" using h unfolding hash_faithful_def isl_def by (metis sum.exhaust)
  show ?thesis
  proof (cases "x = y")
    case True
    with h xy have "?n = o'" unfolding hash_faithful_def by metis
    moreover have "w' = w" using run Some xy True by (simp add: ensure_child_def update_child_def)
    ultimately show ?thesis using old Some n l by (auto simp: established_def)
  next
    case False
    obtain c' w1 where u: "cv_Update (ce_sv e) ?n w = (None, w1)" "stored_as ?n c'" "look w1 = (look w)(ckey ?n \<mapsto> c')"
      using cs_lawsD(3) [OF laws, of w ?n] old Some n by auto
    with run Some xy False have "w' = w1" by (simp add: ensure_child_def update_child_def Let_def)
    moreover have "ckey ?n = ckey c" using old Some n(1) by simp
    ultimately show ?thesis using u n l Some by (auto simp: established_def labelled_def stored_as_def)
  qed
qed

lemma map_of_delete [simp]: "map_of (AList.delete k m) = (map_of m)(k := None)"
  by (rule AList.delete_conv')

lemma distinct_map_head: "distinct (map f (x # xs)) \<Longrightarrow> y \<in> set xs \<Longrightarrow> f y \<noteq> f x"
  by (simp, metis image_eqI)

lemma ensure_children_spec:
  assumes laws: "cs_laws (ce_sv e) look" and h: "hash_faithful e"
  shows "ensure_children e ts cs existing w = (status, cs', existing', w') \<Longrightarrow> gm_ok (m_labels (cs_meta cs)) \<Longrightarrow>
     distinct (map (child_key cs) ts) \<Longrightarrow> distinct (map fst existing) \<Longrightarrow>
     (\<forall>k c. map_of existing k = Some c \<longrightarrow> look w k = Some c \<and> ckey c = k) \<Longrightarrow>
     (\<forall>t \<in> set ts. if map_of existing (child_key cs t) = None \<and> look w (child_key cs t) \<noteq> None
        then look w' (child_key cs t) = look w (child_key cs t) \<and> (\<exists>msg. (snd t, Failed (ce_now e) msg) \<in> set status)
        else established cs t (look w (child_key cs t) = None) (look w' (child_key cs t)))
     \<and> (\<forall>k. k \<notin> child_key cs ` set ts \<longrightarrow> look w' k = look w k \<and> map_of existing' k = map_of existing k)
     \<and> (\<forall>t \<in> set ts. map_of existing' (child_key cs t) = None) \<and> distinct (map fst existing') \<and> map fst status = map snd ts"
proof (induction ts arbitrary: cs existing w status cs' existing' w')
  case (Cons t ts)
  obtain c cs1 where b: "buildConfig cs t = (c, cs1)" by (metis surj_pair)
  note B = buildConfig_sel [OF b]
  let ?old = "map_of existing (ckey c)" and ?ex = "AList.delete (ckey c) existing"
  obtain cond w1 where one: "ensure_child e cs1 c ?old w = (cond, w1)" by (rule prod.exhaust)
  obtain st2 where rest: "ensure_children e ts cs1 ?ex w1 = (st2, cs', existing', w')" "status = (snd t, cond) # st2"
  proof -
    obtain st2 cs2 ex2 w2 where r: "ensure_children e ts cs1 ?ex w1 = (st2, cs2, ex2, w2)" by (rule prod_cases4)
    then have "ensure_children e (t # ts) cs existing w = ((snd t, cond) # st2, cs2, ex2, w2)"
      by (simp add: b one)
    with Cons.prems(1) r that show ?thesis by simp
  qed
  have old: "look w (ckey c) = Some o' \<and> ckey o' = ckey c" if "?old = Some o'" for o'
    using Cons.prems(5) [rule_format, of "ckey c"] that by simp
  have one': "if ?old = None \<and> look w (ckey c) \<noteq> None
      then look w1 (ckey c) = look w (ckey c) \<and> (\<exists>msg. cond = Failed (ce_now e) msg)
      else established cs t (?old = None) (look w1 (ckey c))" "\<And>k. k \<noteq> ckey c \<Longrightarrow> look w1 k = look w k"
    using ensure_one [OF laws h Cons.prems(2) b old one] by blast+
  have fresh: "?old \<noteq> None \<Longrightarrow> look w (child_key cs t) \<noteq> None" using old B(1) by auto
  have nt: "child_key cs t' \<noteq> ckey c" if "t' \<in> set ts" for t'
    unfolding B(1) by (rule distinct_map_head [OF Cons.prems(3) that])
  have "distinct (map (child_key cs1) ts)" "gm_ok (m_labels (cs_meta cs1))" "distinct (map fst ?ex)"
    using Cons.prems(2-4) B(4,6) by (auto simp: AList.distinct_delete)
  moreover have "\<forall>k c'. map_of ?ex k = Some c' \<longrightarrow> look w1 k = Some c' \<and> ckey c' = k"
    using Cons.prems(5) one'(2) by (auto split: if_splits)
  ultimately have IH: "(\<forall>t' \<in> set ts. if map_of ?ex (child_key cs1 t') = None \<and> look w1 (child_key cs1 t') \<noteq> None
        then look w' (child_key cs1 t') = look w1 (child_key cs1 t') \<and> (\<exists>msg. (snd t', Failed (ce_now e) msg) \<in> set st2)
        else established cs1 t' (look w1 (child_key cs1 t') = None) (look w' (child_key cs1 t')))
     \<and> (\<forall>k. k \<notin> child_key cs1 ` set ts \<longrightarrow> look w' k = look w1 k \<and> map_of existing' k = map_of ?ex k)
     \<and> (\<forall>t' \<in> set ts. map_of existing' (child_key cs1 t') = None) \<and> distinct (map fst existing') \<and> map fst st2 = map snd ts"
    using Cons.IH [OF rest(1)] by blast
  note IHs = conjunct1 [OF IH] conjunct1 [OF conjunct2 [OF IH]] conjunct1 [OF conjunct2 [OF conjunct2 [OF IH]]]
    conjunct2 [OF conjunct2 [OF conjunct2 [OF IH]]]
  have tn: "child_key cs t \<notin> child_key cs ` set ts" using Cons.prems(3) by auto
  have est: "if map_of existing (child_key cs t) = None \<and> look w (child_key cs t) \<noteq> None
        then look w' (child_key cs t) = look w (child_key cs t) \<and> (\<exists>msg. (snd t, Failed (ce_now e) msg) \<in> set status)
        else established cs t (look w (child_key cs t) = None) (look w' (child_key cs t))"
  proof -
    have "look w' (child_key cs t) = look w1 (child_key cs t)" using IHs(2) tn by (simp add: B(4))
    with one'(1) fresh show ?thesis
      by (cases "?old = None"; cases "look w (child_key cs t) = None") (auto simp: B(1) rest(2))
  qed
  have ests: "if map_of existing (child_key cs t') = None \<and> look w (child_key cs t') \<noteq> None
        then look w' (child_key cs t') = look w (child_key cs t') \<and> (\<exists>msg. (snd t', Failed (ce_now e) msg) \<in> set status)
        else established cs t' (look w (child_key cs t') = None) (look w' (child_key cs t'))" if t': "t' \<in> set ts" for t'
  proof -
    have "if map_of existing (child_key cs t') = None \<and> look w (child_key cs t') \<noteq> None
        then look w' (child_key cs t') = look w (child_key cs t') \<and> (\<exists>msg. (snd t', Failed (ce_now e) msg) \<in> set st2)
        else established cs1 t' (look w (child_key cs t') = None) (look w' (child_key cs t'))"
      using IHs(1) [rule_format, OF t', unfolded B(4) one'(2) [OF nt [OF t']]] nt [OF t']
      by (auto split: if_splits)
    then show ?thesis by (auto simp: established_def B(3,5) rest(2) split: if_splits)
  qed
  have frame: "look w' k = look w k \<and> map_of existing' k = map_of existing k"
    if "k \<notin> child_key cs ` set (t # ts)" for k
  proof -
    from that have k: "k \<noteq> ckey c" "k \<notin> child_key cs1 ` set ts" by (simp_all add: B(1,4))
    have "look w' k = look w1 k \<and> map_of existing' k = map_of ?ex k" using IHs(2) k(2) by blast
    with one'(2) [OF k(1)] k(1) show ?thesis by simp
  qed
  have gone: "map_of existing' (child_key cs t) = None"
  proof -
    have "child_key cs t \<notin> child_key cs1 ` set ts" using tn by (simp add: B(4))
    with IHs(2) have "map_of existing' (child_key cs t) = map_of ?ex (child_key cs t)" by blast
    then show ?thesis by (simp add: B(1))
  qed
  have gones: "map_of existing' (child_key cs t') = None" if "t' \<in> set ts" for t'
    using IHs(3) that by (simp add: B(4))
  have "\<forall>t' \<in> set (t # ts). if map_of existing (child_key cs t') = None \<and> look w (child_key cs t') \<noteq> None
        then look w' (child_key cs t') = look w (child_key cs t') \<and> (\<exists>msg. (snd t', Failed (ce_now e) msg) \<in> set status)
        else established cs t' (look w (child_key cs t') = None) (look w' (child_key cs t'))"
    using est ests by (metis set_ConsD)
  moreover have "\<forall>t' \<in> set (t # ts). map_of existing' (child_key cs t') = None"
    using gone gones by simp
  moreover have "map fst status = map snd (t # ts)" using IHs(4) rest(2) by simp
  ultimately show ?case using frame IHs(4) by blast
qed (auto simp: established_def)

lemma orphans_fold:
  fixes cs :: configset
  defines "f \<equiv> \<lambda>c m. if owned_by cs c then AList.update (ckey c) c m else m"
  assumes "distinct (map ckey items)"
  shows "(map_of (fold f items m) k = Some c \<longleftrightarrow> (c \<in> set items \<and> owned_by cs c \<and> ckey c = k)
      \<or> (map_of m k = Some c \<and> (\<forall>c' \<in> set items. owned_by cs c' \<longrightarrow> ckey c' \<noteq> k)))
    \<and> (distinct (map fst m) \<longrightarrow> distinct (map fst (fold f items m)))"
  using assms(2)
proof (induction items arbitrary: m)
  case (Cons x items)
  have fresh: "c' \<in> set items \<Longrightarrow> ckey c' \<noteq> ckey x" for c'
    by (rule distinct_map_head [OF Cons.prems])
  have IH: "(map_of (fold f items m) k = Some c \<longleftrightarrow> (c \<in> set items \<and> owned_by cs c \<and> ckey c = k)
      \<or> (map_of m k = Some c \<and> (\<forall>c' \<in> set items. owned_by cs c' \<longrightarrow> ckey c' \<noteq> k)))
    \<and> (distinct (map fst m) \<longrightarrow> distinct (map fst (fold f items m)))" for m
    using Cons by simp
  show ?case
  proof (cases "owned_by cs x")
    case False
    then have "fold f (x # items) m = fold f items m" by (simp add: f_def)
    with IH [of m] False show ?thesis by auto
  next
    case True
    then have f: "fold f (x # items) m = fold f items (AList.update (ckey x) x m)" by (simp add: f_def)
    have "distinct (map fst m) \<longrightarrow> distinct (map fst (AList.update (ckey x) x m))" by (simp add: AList.distinct_update)
    moreover have "map_of (AList.update (ckey x) x m) k = (if k = ckey x then Some x else map_of m k)"
      by (simp add: AList.update_conv')
    ultimately show ?thesis using IH [of "AList.update (ckey x) x m"] True fresh unfolding f
      by (cases "k = ckey x") auto
  qed
qed simp

lemma orphans_spec:
  assumes "cs_laws sv look"
  obtains existing where "getOrphanConfigsFromConfigSet sv cs w = (existing, w)" "distinct (map fst existing)"
    "\<And>k c. map_of existing k = Some c \<longleftrightarrow> look w k = Some c \<and> owned_by cs c"
    "\<And>k c. map_of existing k = Some c \<Longrightarrow> ckey c = k"
proof -
  obtain items where i: "cv_ListConfigs sv w = (Inr items, w)" "distinct (map ckey items)"
    "\<And>k c. look w k = Some c \<longleftrightarrow> c \<in> set items \<and> ckey c = k"
    using cs_lawsD(1) [OF assms, of w] by blast
  show ?thesis
  proof (rule that)
    show "getOrphanConfigsFromConfigSet sv cs w
      = (fold (\<lambda>c m. if owned_by cs c then AList.update (ckey c) c m else m) items [], w)"
      by (simp add: getOrphanConfigsFromConfigSet_def i(1))
  qed (use orphans_fold [OF i(2), of cs "[]"] i(3) in auto)
qed

lemma delete_configs_spec:
  assumes laws: "cs_laws sv look"
  shows "distinct (map fst ex) \<Longrightarrow> (\<forall>(k, c) \<in> set ex. ckey c = k \<and> look w k \<noteq> None) \<Longrightarrow>
     (\<forall>k. if k \<in> fst ` set ex then (\<forall>c'. look (delete_configs sv ex w) k = Some c' \<longrightarrow> c_deleting c')
          else look (delete_configs sv ex w) k = look w k)"
proof (induction ex arbitrary: w)
  case (Cons kc ex)
  obtain k c where kc: "kc = (k, c)" by (rule prod.exhaust)
  with Cons.prems obtain r w1 where d: "cv_Delete sv c w = (None, w1)" "\<forall>c'. r = Some c' \<longrightarrow> c_deleting c'"
    "look w1 = (look w)(k := r)"
    using cs_lawsD(4) [OF laws, of w c] by auto
  have "k \<notin> fst ` set ex" using Cons.prems(1) kc by auto
  moreover from this have "\<forall>(k', c) \<in> set ex. ckey c = k' \<and> look w1 k' \<noteq> None"
    using Cons.prems(2) d(3) by (fastforce simp: rev_image_eqI)
  then have "\<forall>k'. if k' \<in> fst ` set ex then (\<forall>c'. look (delete_configs sv ex w1) k' = Some c' \<longrightarrow> c_deleting c')
          else look (delete_configs sv ex w1) k' = look w1 k'"
    using Cons by simp
  moreover have "delete_configs sv (kc # ex) w = delete_configs sv ex w1" by (simp add: kc d(1))
  ultimately show ?case
  proof (intro allI)
    fix k'
    assume nk: "k \<notin> fst ` set ex" and eq: "delete_configs sv (kc # ex) w = delete_configs sv ex w1"
      and all: "\<forall>k'. if k' \<in> fst ` set ex then (\<forall>c'. look (delete_configs sv ex w1) k' = Some c' \<longrightarrow> c_deleting c')
          else look (delete_configs sv ex w1) k' = look w1 k'"
    show "if k' \<in> fst ` set (kc # ex) then (\<forall>c'. look (delete_configs sv (kc # ex) w) k' = Some c' \<longrightarrow> c_deleting c')
        else look (delete_configs sv (kc # ex) w) k' = look w k'"
    proof (cases "k' = k")
      case True
      with all nk have "look (delete_configs sv ex w1) k' = r" by (simp add: d(3))
      with d(2) True show ?thesis unfolding eq by (simp add: kc)
    next
      case False
      with all [rule_format, of k'] show ?thesis unfolding eq by (simp add: kc d(3))
    qed
  qed
qed simp

text \<open>C13: One pass of \<open>ensureConfigs\<close> brings the cluster to the state the ConfigSet asks for, against an API
  server that accepts well-formed writes and no create of a taken name: every selected target whose child name is free or
  taken by a child of this set has its child with the set's spec (and, when the set has labels or the child is new, the
  target labels the Config controller needs); where the name belongs to a Config of another owner (the names are joined
  with a dash, so sets \<open>a\<close> and \<open>a-b\<close> can claim the same one), that Config stays as it is and the entry of the target is a failure;
  every other Config the set owns is deleted or on its way out; Configs of other owners are untouched; and
  the status has one entry per target in order.\<close>

theorem configset_converges:
  assumes laws: "cs_laws (ce_sv e) look" and h: "hash_faithful e" and ok: "gm_ok (m_labels (cs_meta cs))"
    and dist: "distinct (map snd targets)"
    and run: "ensureConfigs e cs targets w = (cs', w')"
  shows "(\<forall>t \<in> set targets. case look w (child_key cs t) of
        Some c \<Rightarrow> if owned_by cs c then established cs t False (look w' (child_key cs t))
          else look w' (child_key cs t) = Some c
            \<and> (\<exists>st msg. cs_targets cs' = Some st \<and> (snd t, Failed (ce_now e) msg) \<in> set st)
      | None \<Rightarrow> established cs t True (look w' (child_key cs t)))
    \<and> (\<forall>k c. k \<notin> child_key cs ` set targets \<longrightarrow> look w k = Some c \<longrightarrow>
         (if owned_by cs c then \<forall>c'. look w' k = Some c' \<longrightarrow> c_deleting c' else look w' k = Some c))
    \<and> (\<forall>k. k \<notin> child_key cs ` set targets \<longrightarrow> look w k = None \<longrightarrow> look w' k = None)
    \<and> map_option (map fst) (cs_targets cs') = Some (map snd targets)"
proof -
  obtain ex where ex: "getOrphanConfigsFromConfigSet (ce_sv e) cs w = (ex, w)" "distinct (map fst ex)"
    "\<And>k c. map_of ex k = Some c \<longleftrightarrow> look w k = Some c \<and> owned_by cs c" "\<And>k c. map_of ex k = Some c \<Longrightarrow> ckey c = k"
    by (rule orphans_spec [OF laws, of cs w]) blast
  obtain st cs1 rest w1 where r: "ensure_children e targets cs ex w = (st, cs1, rest, w1)" by (rule prod_cases4)
  from run have run': "cs' = cs1\<lparr>cs_targets := Some st\<rparr>" "w' = delete_configs (ce_sv e) rest w1"
    by (simp_all add: ensureConfigs_def ex(1) r)
  have "distinct (map (child_key cs) targets)" using dist by (auto simp: distinct_map child_key_def inj_on_def)
  then have E: "(\<forall>t \<in> set targets. if map_of ex (child_key cs t) = None \<and> look w (child_key cs t) \<noteq> None
        then look w1 (child_key cs t) = look w (child_key cs t) \<and> (\<exists>msg. (snd t, Failed (ce_now e) msg) \<in> set st)
        else established cs t (look w (child_key cs t) = None) (look w1 (child_key cs t)))
     \<and> (\<forall>k. k \<notin> child_key cs ` set targets \<longrightarrow> look w1 k = look w k \<and> map_of rest k = map_of ex k)
     \<and> (\<forall>t \<in> set targets. map_of rest (child_key cs t) = None) \<and> distinct (map fst rest) \<and> map fst st = map snd targets"
    by (rule ensure_children_spec [OF laws h r ok _ ex(2)]) (use ex(3,4) in auto)
  have keys: "k \<in> fst ` set rest \<longleftrightarrow> map_of rest k \<noteq> None" for k by (simp add: map_of_eq_None_iff)
  have wanted: "k \<notin> child_key cs ` set targets" if "map_of rest k \<noteq> None" for k using E that by auto
  have "ckey c = k \<and> look w1 k \<noteq> None" if "(k, c) \<in> set rest" for k c
  proof -
    from E that have m: "map_of rest k = Some c" by simp
    with wanted have k: "k \<notin> child_key cs ` set targets" by simp
    with E m have "map_of ex k = Some c" "look w1 k = look w k" by auto
    with ex(3,4) show ?thesis by auto
  qed
  then have D: "\<forall>k. if k \<in> fst ` set rest then (\<forall>c'. look w' k = Some c' \<longrightarrow> c_deleting c') else look w' k = look w1 k"
    unfolding run'(2) using E by (intro delete_configs_spec [OF laws]) auto
  have "case look w (child_key cs t) of
        Some c \<Rightarrow> if owned_by cs c then established cs t False (look w' (child_key cs t))
          else look w' (child_key cs t) = Some c
            \<and> (\<exists>st msg. cs_targets cs' = Some st \<and> (snd t, Failed (ce_now e) msg) \<in> set st)
      | None \<Rightarrow> established cs t True (look w' (child_key cs t))" if t: "t \<in> set targets" for t
  proof -
    have "child_key cs t \<notin> fst ` set rest" using E t keys by auto
    with D have same: "look w' (child_key cs t) = look w1 (child_key cs t)" by simp
    from E t have one: "if map_of ex (child_key cs t) = None \<and> look w (child_key cs t) \<noteq> None
        then look w1 (child_key cs t) = look w (child_key cs t) \<and> (\<exists>msg. (snd t, Failed (ce_now e) msg) \<in> set st)
        else established cs t (look w (child_key cs t) = None) (look w1 (child_key cs t))" by blast
    show ?thesis
    proof (cases "look w (child_key cs t)")
      case None
      then show ?thesis using one same by simp
    next
      case (Some c)
      show ?thesis
      proof (cases "owned_by cs c")
        case True
        then have "map_of ex (child_key cs t) = Some c" using ex(3) Some by blast
        then show ?thesis using one same Some True by simp
      next
        case False
        have "map_of ex (child_key cs t) = None"
        proof (rule ccontr)
          assume "map_of ex (child_key cs t) \<noteq> None"
          then obtain d where "map_of ex (child_key cs t) = Some d" by blast
          then have "look w (child_key cs t) = Some d" "owned_by cs d" using ex(3) by blast+
          then show False using Some False by simp
        qed
        then show ?thesis using one same Some False by (simp add: run'(1))
      qed
    qed
  qed
  moreover have "if owned_by cs c then \<forall>c'. look w' k = Some c' \<longrightarrow> c_deleting c' else look w' k = Some c"
    if k: "k \<notin> child_key cs ` set targets" "look w k = Some c" for k c
  proof -
    have "map_of rest k = map_of ex k" "look w1 k = look w k" using E k by auto
    moreover have "map_of ex k = Some d \<longleftrightarrow> d = c \<and> owned_by cs c" for d using ex(3) [of k d] k(2) by auto
    then have "map_of ex k = (if owned_by cs c then Some c else None)" by (metis not_Some_eq)
    ultimately show ?thesis using D [rule_format, of k] keys [of k] k(2) by (auto split: if_splits)
  qed
  moreover have "look w' k = None" if k: "k \<notin> child_key cs ` set targets" "look w k = None" for k
  proof -
    have "map_of rest k = map_of ex k" "look w1 k = None" using E k by auto
    moreover have "map_of ex k = Some d \<longleftrightarrow> False" for d using ex(3) [of k d] k(2) by simp
    then have "map_of ex k = None" by (metis not_Some_eq)
    ultimately show ?thesis using D [rule_format, of k] keys [of k] by (auto split: if_splits)
  qed
  moreover have "map_option (map fst) (cs_targets cs') = Some (map snd targets)" using E by (simp add: run'(1))
  ultimately show ?thesis by blast
qed

fun dedup :: "config list \<Rightarrow> config list" where
  "dedup [] = []"
| "dedup (c # cs) = c # filter (\<lambda>d. ckey d \<noteq> ckey c) (dedup cs)"

definition list_look :: "config list \<Rightarrow> nsn \<Rightarrow> config option" where
  "list_look w k = find (\<lambda>c. ckey c = k) w"

definition without :: "nsn \<Rightarrow> config list \<Rightarrow> config list" where
  "without k w = filter (\<lambda>c. ckey c \<noteq> k) w"

definition list_server :: "(unit, config list) cs_services" where
  \<comment> \<open>an API server that keeps the Configs in a list, the latest write first\<close>
  "list_server = \<lparr>cv_Get = (\<lambda>ns n w. (Inl (err_new ''not found''), w)), cv_ListTargets = (\<lambda>ns q w. (Inr [], w)),
     cv_ListConfigs = (\<lambda>w. (Inr (dedup w), w)), cv_Create = (\<lambda>c w. if list_look w (ckey c) = None then (None, c # w) else (Some (err_new ''already exists''), w)), cv_Update = (\<lambda>c w. (None, c # w)),
     cv_Delete = (\<lambda>c w. (None, without (ckey c) w)), cv_ApplyStatus = (\<lambda>n ns c ts w. (None, w)),
     cv_ApplyFinalizers = (\<lambda>n ns fs w. (None, w)), cv_Event = (\<lambda>a b c w. w)\<rparr>"

lemma list_look_simps [simp]:
  "list_look [] k = None"
  "list_look (c # w) k = (if ckey c = k then Some c else list_look w k)"
  "list_look (without k' w) k = (if k = k' then None else list_look w k)"
proof -
  show "list_look (without k' w) k = (if k = k' then None else list_look w k)"
    by (induction w) (auto simp: list_look_def without_def)
qed (simp_all add: list_look_def)

lemma dedup_keys: "distinct (map ckey (dedup w))"
  by (induction w) (auto simp: distinct_map_filter)

lemma dedup_look: "list_look w k = Some c \<longleftrightarrow> c \<in> set (dedup w) \<and> ckey c = k"
  by (induction w) auto

lemma list_server_laws: "cs_laws list_server list_look"
proof -
  have "\<exists>items. cv_ListConfigs list_server w = (Inr items, w) \<and> distinct (map ckey items)
      \<and> (\<forall>k c. list_look w k = Some c \<longleftrightarrow> c \<in> set items \<and> ckey c = k)" for w
    by (intro exI [of _ "dedup w"]) (simp add: list_server_def dedup_keys dedup_look)
  moreover have "list_look w (ckey c) = None \<Longrightarrow> fst (cv_Create list_server c w) = None
      \<and> (\<exists>c'. stored_as c c' \<and> list_look (snd (cv_Create list_server c w)) = (list_look w)(ckey c \<mapsto> c'))"
    and "fst (cv_Update list_server c w) = None
      \<and> (\<exists>c'. stored_as c c' \<and> list_look (snd (cv_Update list_server c w)) = (list_look w)(ckey c \<mapsto> c'))" for c w
    by (intro conjI exI [of _ c]; force simp: list_server_def stored_as_def fun_eq_iff)+
  moreover have "list_look w (ckey c) \<noteq> None \<Longrightarrow> fst (cv_Create list_server c w) \<noteq> None
      \<and> list_look (snd (cv_Create list_server c w)) = list_look w" for c w
    by (simp add: list_server_def)
  moreover have "fst (cv_Delete list_server c w) = None
      \<and> (\<exists>r. (\<forall>c'. r = Some c' \<longrightarrow> c_deleting c') \<and> list_look (snd (cv_Delete list_server c w)) = (list_look w)(ckey c := r))" for c w
    by (intro conjI exI [of _ None]) (simp_all add: list_server_def fun_eq_iff)
  ultimately show ?thesis unfolding cs_laws_def by simp
qed

definition list_env :: "(unit, config, config list) cs_env" where
  "list_env = \<lparr>ce_sv = list_server, ce_selectorOf = (\<lambda>s. Inr ()), ce_hash = Inr, ce_now = 0\<rparr>"

definition sample_set :: configset where
  "sample_set = \<lparr>cs_apiVersion = ''config.sdcio.dev/v1alpha1'', cs_kind = ''ConfigSet'',
     cs_meta = empty_meta\<lparr>m_name := ''s'', m_namespace := ''ns'', m_labels := [(''tier'', ''leaf'')], m_uid := ''u''\<rparr>,
     cs_spec = \<lparr>xs_selector = [], xs_lifecycle = None, xs_priority = 10, xs_revertive = None, xs_config = []\<rparr>,
     cs_conditions = [], cs_targets = None\<rparr>"

definition sample_child :: "string \<Rightarrow> owner_ref list \<Rightarrow> config" where
  "sample_child nm refs = BuildConfig (empty_meta\<lparr>m_name := nm, m_namespace := ''ns'', m_ownerReferences := refs\<rparr>)
     \<lparr>s_lifecycle = None, s_priority = 3, s_revertive = None, s_config = []\<rparr> empty_status"

lemma configset_converges_witness:
  "let w = [sample_child ''s-b'' [child_owner sample_set], sample_child ''s-c'' [child_owner sample_set], sample_child ''x'' [], sample_child ''s-d'' []];
       (cs', w') = ensureConfigs list_env sample_set [(''ns'', ''a''), (''ns'', ''b''), (''ns'', ''d'')] w in
     established sample_set (''ns'', ''a'') True (list_look w' (''ns'', ''s-a''))
     \<and> established sample_set (''ns'', ''b'') False (list_look w' (''ns'', ''s-b''))
     \<and> (\<forall>c. list_look w' (''ns'', ''s-c'') = Some c \<longrightarrow> c_deleting c)
     \<and> list_look w' (''ns'', ''x'') = Some (sample_child ''x'' []) \<and> list_look w' (''ns'', ''s-d'') = Some (sample_child ''s-d'' [])"
proof -
  define w where "w = [sample_child ''s-b'' [child_owner sample_set], sample_child ''s-c'' [child_owner sample_set], sample_child ''x'' [], sample_child ''s-d'' []]"
  define ts :: "nsn list" where "ts = [(''ns'', ''a''), (''ns'', ''b''), (''ns'', ''d'')]"
  have h: "hash_faithful list_env" by (simp add: hash_faithful_def list_env_def)
  have laws: "cs_laws (ce_sv list_env) list_look" using list_server_laws by (simp add: list_env_def)
  have keys: "child_key sample_set (''ns'', ''a'') = (''ns'', ''s-a'')" "child_key sample_set (''ns'', ''b'') = (''ns'', ''s-b'')"
    "child_key sample_set (''ns'', ''d'') = (''ns'', ''s-d'')"
    by (simp_all add: child_key_def sample_set_def)
  have facts: "gm_ok (m_labels (cs_meta sample_set)) \<and> distinct (map snd ts)
      \<and> list_look w (''ns'', ''s-a'') = None \<and> list_look w (''ns'', ''s-b'') = Some (sample_child ''s-b'' [child_owner sample_set])
      \<and> owned_by sample_set (sample_child ''s-b'' [child_owner sample_set])
      \<and> list_look w (''ns'', ''s-c'') = Some (sample_child ''s-c'' [child_owner sample_set])
      \<and> owned_by sample_set (sample_child ''s-c'' [child_owner sample_set])
      \<and> list_look w (''ns'', ''x'') = Some (sample_child ''x'' []) \<and> \<not> owned_by sample_set (sample_child ''x'' [])
      \<and> list_look w (''ns'', ''s-d'') = Some (sample_child ''s-d'' []) \<and> \<not> owned_by sample_set (sample_child ''s-d'' [])"
    unfolding w_def ts_def by code_simp
  obtain cs' w' where run: "ensureConfigs list_env sample_set ts w = (cs', w')" by (rule prod.exhaust)
  have "gm_ok (m_labels (cs_meta sample_set))" "distinct (map snd ts)" using facts by blast+
  note C = configset_converges [OF laws h this run]
  have ts: "(''ns'', ''s-c'') \<notin> child_key sample_set ` set ts" "(''ns'', ''x'') \<notin> child_key sample_set ` set ts"
    by (simp_all add: ts_def keys)
  note each = conjunct1 [OF C, rule_format]
  have "established sample_set (''ns'', ''a'') True (list_look w' (''ns'', ''s-a''))"
    "established sample_set (''ns'', ''b'') False (list_look w' (''ns'', ''s-b''))"
    using each [of "(''ns'', ''a'')"] each [of "(''ns'', ''b'')"] facts by (simp_all add: ts_def keys)
  moreover have "list_look w' (''ns'', ''s-d'') = Some (sample_child ''s-d'' [])"
    using each [of "(''ns'', ''d'')"] facts by (simp add: ts_def keys)
  moreover have "\<forall>c. list_look w' (''ns'', ''s-c'') = Some c \<longrightarrow> c_deleting c"
    using conjunct1 [OF conjunct2 [OF C], rule_format, OF ts(1)] facts by simp
  moreover have "list_look w' (''ns'', ''x'') = Some (sample_child ''x'' [])"
    using conjunct1 [OF conjunct2 [OF C], rule_format, OF ts(2)] facts by simp
  ultimately show ?thesis unfolding Let_def w_def [symmetric] ts_def [symmetric] run by simp
qed

section \<open>Deletion\<close>

lemma delete_children_other_finalizers:
  "delete_children (sv\<lparr>cv_ApplyFinalizers := f\<rparr>) cs errs w = delete_children sv cs errs w"
proof (induction sv cs errs w rule: delete_children.induct)
  case (2 sv k c cs errs w)
  show ?case
  proof (cases "cv_Delete sv c w")
    case (Pair r w')
    with 2 show ?thesis by (cases r) simp_all
  qed
qed simp

lemma other_finalizers:
  "getOrphanConfigsFromConfigSet (sv\<lparr>cv_ApplyFinalizers := f\<rparr>) s w = getOrphanConfigsFromConfigSet sv s w"
  "cs_report (sv\<lparr>cv_ApplyFinalizers := f\<rparr>) t n c s s' w = cs_report sv t n c s s' w"
  by (simp_all add: getOrphanConfigsFromConfigSet_def cs_report_def split: option.split)

lemma cs_failed_other_finalizers:
  "cs_failed (e\<lparr>ce_sv := (ce_sv e)\<lparr>cv_ApplyFinalizers := f\<rparr>\<rparr>) s s' msg err w = cs_failed e s s' msg err w"
  by (simp add: cs_failed_def handleError_def other_finalizers)

lemma orphans_found: "c \<in> set items \<Longrightarrow> owned_by cs c \<Longrightarrow> m \<noteq> [] \<or> items \<noteq> [] \<Longrightarrow>
   fold (\<lambda>c m. if owned_by cs c then AList.update (ckey c) c m else m) items m \<noteq> []"
proof (induction items arbitrary: m)
  case (Cons x items)
  have keep: "m \<noteq> [] \<Longrightarrow> fold (\<lambda>c m. if owned_by cs c then AList.update (ckey c) c m else m) xs m \<noteq> []" for xs m
  proof (induction xs arbitrary: m)
    case (Cons y ys)
    have "AList.update (ckey y) y m \<noteq> []" by (cases m) auto
    with Cons show ?case by simp
  qed simp
  have "AList.update (ckey x) x m \<noteq> []" by (cases m) auto
  then show ?case using Cons keep by (cases "items = []") auto
qed simp

text \<open>Deleting a ConfigSet waits for its children, with one gap: when the Configs are listed and some are
  owned by the set, the finalizer stays in that pass whatever the deletes answer (replacing the call that
  gives it up changes nothing); but when the list call fails, the set is treated as childless and its
  finalizer is given up at once.\<close>

theorem configset_delete_waits_unless_list_fails:
  assumes cs: "cv_Get (ce_sv e) ns name w = (Inr cs, w1)" "m_deletionTimestamp (cs_meta cs) \<noteq> None"
  shows "(\<forall>items w2 other. cv_ListConfigs (ce_sv e) w1 = (Inr items, w2) \<and> (\<exists>c \<in> set items. owned_by cs c) \<longrightarrow>
      cs_Reconcile (e\<lparr>ce_sv := (ce_sv e)\<lparr>cv_ApplyFinalizers := other\<rparr>\<rparr>) ns name w = cs_Reconcile e ns name w)
    \<and> (\<forall>err w2 w3. cv_ListConfigs (ce_sv e) w1 = (Inl err, w2) \<and> cs_finalizer \<in> set (m_finalizers (cs_meta cs))
        \<and> cv_ApplyFinalizers (ce_sv e) (m_name (cs_meta cs)) (m_namespace (cs_meta cs)) [] w2 = (None, w3) \<longrightarrow>
      cs_Reconcile e ns name w = ((False, None), w3))"
proof (intro conjI allI impI)
  fix items w2 other assume "cv_ListConfigs (ce_sv e) w1 = (Inr items, w2) \<and> (\<exists>c \<in> set items. owned_by cs c)"
  then obtain ex where ex: "getOrphanConfigsFromConfigSet (ce_sv e) cs w1 = (ex, w2)" "ex \<noteq> []"
    using orphans_found [of _ items cs "[]"] by (force simp: getOrphanConfigsFromConfigSet_def)
  obtain errs w3 where "delete_children (ce_sv e) ex None w2 = (errs, w3)" by (rule prod.exhaust)
  with ex cs show "cs_Reconcile (e\<lparr>ce_sv := (ce_sv e)\<lparr>cv_ApplyFinalizers := other\<rparr>\<rparr>) ns name w = cs_Reconcile e ns name w"
    by (simp add: cs_Reconcile_def cs_reconcileDelete_def delete_children_other_finalizers other_finalizers cs_failed_other_finalizers)
qed (use cs in \<open>auto simp: cs_Reconcile_def cs_reconcileDelete_def getOrphanConfigsFromConfigSet_def
    RemoveFinalizer_def FinalizerExists_iff\<close>)

lemma configset_delete_waits_unless_list_fails_witness:
  "let cs = sample_set\<lparr>cs_meta := (cs_meta sample_set)\<lparr>m_deletionTimestamp := Some 1, m_finalizers := [cs_finalizer]\<rparr>\<rparr>;
       sv = list_server\<lparr>cv_Get := \<lambda>ns name w. (Inr cs, w), cv_ListConfigs := \<lambda>w. (Inl (err_new ''timeout''), w),
              cv_ApplyFinalizers := \<lambda>n ns fs w. (None, [])\<rparr> in
     cs_Reconcile (list_env\<lparr>ce_sv := sv\<rparr>) ''ns'' ''s'' [sample_child ''s-b'' [child_owner cs]] = ((False, None), [])"
proof -
  define cs where "cs = sample_set\<lparr>cs_meta := (cs_meta sample_set)\<lparr>m_deletionTimestamp := Some 1, m_finalizers := [cs_finalizer]\<rparr>\<rparr>"
  define sv where "sv = list_server\<lparr>cv_Get := \<lambda>ns name w. (Inr cs, w), cv_ListConfigs := \<lambda>w. (Inl (err_new ''timeout''), w),
              cv_ApplyFinalizers := \<lambda>n ns fs w. (None, [])\<rparr>"
  let ?w = "[sample_child ''s-b'' [child_owner cs]]"
  have "cv_Get (ce_sv (list_env\<lparr>ce_sv := sv\<rparr>)) ''ns'' ''s'' ?w = (Inr cs, ?w)" by (simp add: sv_def)
  moreover have "m_deletionTimestamp (cs_meta cs) \<noteq> None" "cs_finalizer \<in> set (m_finalizers (cs_meta cs))" by (simp_all add: cs_def)
  ultimately have "cs_Reconcile (list_env\<lparr>ce_sv := sv\<rparr>) ''ns'' ''s'' ?w = ((False, None), [])"
    using configset_delete_waits_unless_list_fails [of "list_env\<lparr>ce_sv := sv\<rparr>" "''ns''" "''s''" ?w cs ?w] by (simp add: sv_def)
  then show ?thesis unfolding Let_def cs_def [symmetric] sv_def [symmetric] .
qed

end
