(* ===== verification/TargetConfig.thy ===== *)
theory TargetConfig
  imports TransactorSpec TargetManager Resource
begin

text \<open>
  The TargetConfig controller (\<open>pkg/reconcilers/targetconfig/reconciler.go\<close>): for one target, either
  a stage of the target blocks and its Configs say which, or the transactor runs. The runtime manager
  is read once, through \<open>GetDatastore\<close>; \<open>xc_dsc\<close> is the client of the connection manager at that moment.
  Delays are in milliseconds.
\<close>

section \<open>State\<close>

record ('p, 'h, 'w) tc_env =
  xc_serverResources :: "'w \<Rightarrow> goerr option \<times> 'w"
  xc_k8s :: "'w k8s"
  xc_ApplyFinalizers :: "string \<Rightarrow> string \<Rightarrow> string list \<Rightarrow> 'w \<Rightarrow> goerr option \<times> 'w"
  xc_dsc :: "('p, 'w) dsclient option"
  xc_keyString :: "tkey \<Rightarrow> string"
  xc_parse :: "string \<Rightarrow> goerr + 'p"
  xc_env :: "string option"
  xc_sha :: "config_spec \<Rightarrow> 'h"
  xc_uuid :: string
  xc_now :: nat

definition tc_finalizer :: string where
  "tc_finalizer = ''targetconfig.inv.sdcio.dev/finalizer''"

definition runtimeRequeue :: nat where "runtimeRequeue = 5000"

definition tc_fieldManager :: string where "tc_fieldManager = ''transactor''"

type_synonym tc_result = "nat \<times> goerr option"

section \<open>Stages\<close>

definition setConfigsNotReady ::
  "('p, 'h, 'w) tc_env \<Rightarrow> target \<Rightarrow> string \<Rightarrow> string \<Rightarrow> 'w \<Rightarrow> goerr option \<times> 'w" where
  "setConfigsNotReady e target reason msg w =
     (let (err, w) = SetConfigsNotReady (xc_k8s e) tc_fieldManager target (ConfigNotReady (xc_now e) reason msg) w in
      (map_option (err_wrap ''cannot update status'') err, w))"

definition setConfigsReadyFromApplied :: "('p, 'h, 'w) tc_env \<Rightarrow> target \<Rightarrow> 'w \<Rightarrow> goerr option \<times> 'w" where
  "setConfigsReadyFromApplied e target w =
     (let (err, w) = SetConfigsReadyFromApplied (xc_k8s e) tc_fieldManager (xc_now e) target w in
      (map_option (err_wrap ''cannot update status'') err, w))"

definition missing_target :: "tkey \<Rightarrow> target" where
  \<comment> \<open>the stub of \<open>reconcileTargetNotFound\<close>\<close>
  "missing_target key = \<lparr>t_meta = empty_meta\<lparr>m_namespace := fst key, m_name := snd key\<rparr>,
     t_spec = \<lparr>ts_provider = [], ts_address = [], ts_credentials = [], ts_connectionProfile = [],
       ts_syncProfile = None, ts_tlsSecret = None\<rparr>,
     t_conditions = [], t_discoveryInfo = None, t_usedReferences = None\<rparr>"

definition reconcileTargetNotFound :: "('p, 'h, 'w) tc_env \<Rightarrow> tkey \<Rightarrow> 'w \<Rightarrow> tc_result \<times> 'w" where
  "reconcileTargetNotFound e key w =
     (let (err, w) = setConfigsNotReady e (missing_target key) ConfigReasonTargetNotFound
            (''target '' @ fst key @ ''/'' @ snd key @ '' not found'') w in ((0, err), w))"

definition phaseString :: "phase \<Rightarrow> string" where
  "phaseString p = (case p of PhasePending \<Rightarrow> ''Pending'' | PhaseWaitingForDS \<Rightarrow> ''WaitingForDS''
     | PhaseEnsuringDatastore \<Rightarrow> ''EnsuringDatastore'' | PhaseRecovering \<Rightarrow> ''Recovering''
     | PhaseRecoveryFailed \<Rightarrow> ''RecoveryFailed'' | PhaseRunning \<Rightarrow> ''Running''
     | PhaseDegraded \<Rightarrow> ''Degraded'' | PhaseDeleting \<Rightarrow> ''Deleting'')"

definition boolString :: "bool \<Rightarrow> string" where
  "boolString b = (if b then ''true'' else ''false'')"

definition runtime_msg :: "'c mg_handle option \<Rightarrow> string" where
  "runtime_msg h = (case h of None \<Rightarrow> ''target runtime not ready''
     | Some h \<Rightarrow> (let st = mh_status h in
         ''target runtime not ready: phase='' @ phaseString (rs_phase st) @ '' dsReady='' @ boolString (rs_dsReady st)
         @ '' dsStoreReady='' @ boolString (rs_dsStoreReady st) @ '' recovered='' @ boolString (rs_recovered st)
         @ (if rs_lastError st \<noteq> [] then '': '' @ rs_lastError st else [])))"

definition transact_stage ::
  "('p, 'h, 'w) tc_env \<Rightarrow> target \<Rightarrow> ('p, 'w) dsclient mg_handle \<Rightarrow> ('p, 'w) dsclient \<Rightarrow> 'w \<Rightarrow> tc_result \<times> 'w" where
  \<comment> \<open>stage 3: a failure that cannot be retried is only logged here\<close>
  "transact_stage e target h d w =
     (case Transact (xc_parse e) (xc_env e) (xc_sha e) (xc_keyString e) (xc_uuid e) (xc_now e) (xc_k8s e)
            tc_fieldManager d target \<lparr>h_key = xc_keyString e (mh_key h), h_datastoreName = mh_datastoreName h,
              h_schema = mh_schema h\<rparr> w of
        ((retry, Some err), w) \<Rightarrow>
          (if \<not> retry then ((0, None), w)
           else case setConfigsReadyFromApplied e target w of
               (Some serr, w) \<Rightarrow> ((0, Some serr), w)
             | (None, w) \<Rightarrow> ((0, Some err), w))
      | ((retry, None), w) \<Rightarrow>
          (case setConfigsReadyFromApplied e target w of
             (Some serr, w) \<Rightarrow> ((0, Some serr), w)
           | (None, w) \<Rightarrow> ((if retry then 500 else 0, None), w)))"

definition tc_live :: "('p, 'h, 'w) tc_env \<Rightarrow> 's manager \<Rightarrow> target \<Rightarrow> tkey \<Rightarrow> 'w \<Rightarrow> tc_result \<times> 'w" where
  \<comment> \<open>the stages of a target that exists and is not being deleted\<close>
  "tc_live e m target key w =
     (if \<not> Target_IsReady target
      then let (err, w) = setConfigsNotReady e target ConfigReasonTargetNotReady (NotReadyReason target) w in
        ((0, err), w)
      else case GetDatastore (xc_keyString e) (xc_dsc e) key m of
          (Some h, True) \<Rightarrow> (case mh_client h of Some d \<Rightarrow> transact_stage e target h d w
             | None \<Rightarrow> ((0, None), w))
        | (h, ok) \<Rightarrow>
            (let (err, w) = setConfigsNotReady e target ConfigReasonTargetRuntimeNotReady (runtime_msg h) w in
             ((runtimeRequeue, err), w)))"

definition tc_deleting :: "('p, 'h, 'w) tc_env \<Rightarrow> target \<Rightarrow> 'w \<Rightarrow> tc_result \<times> 'w" where
  \<comment> \<open>the branch of a target that is being deleted\<close>
  "tc_deleting e target w =
     (case setConfigsNotReady e target ConfigReasonTargetDeleting ''target is being deleted'' w of
        (Some err, w) \<Rightarrow> ((0, Some err), w)
      | (None, w) \<Rightarrow>
          (case RemoveFinalizer tc_finalizer (xc_ApplyFinalizers e) (t_meta target) w of
             (Some err, w) \<Rightarrow> ((0, Some (err_wrap ''cannot remove finalizer'' err)), w)
           | (None, w) \<Rightarrow> ((0, None), w)))"

definition tc_Reconcile :: "('p, 'h, 'w) tc_env \<Rightarrow> 's manager \<Rightarrow> tkey \<Rightarrow> 'w \<Rightarrow> tc_result \<times> 'w" where
  "tc_Reconcile e m key w =
     (case xc_serverResources e w of
        (Some err, w) \<Rightarrow> ((10000, None), w)
      | (None, w) \<Rightarrow>
          (case k_GetTarget (xc_k8s e) (fst key) (snd key) w of
             (Inl err, w) \<Rightarrow>
               (if \<not> IsNotFound (Some err) then ((0, Some (err_wrap ''cannot get cr'' err)), w)
                else reconcileTargetNotFound e key w)
           | (Inr target, w) \<Rightarrow>
               if m_deletionTimestamp (t_meta target) \<noteq> None
               then tc_deleting e target w
               else (case AddFinalizer tc_finalizer (xc_ApplyFinalizers e) (t_meta target) w of
                   (Some err, w) \<Rightarrow> ((0, Some (err_wrap ''cannot add finalizer'' err)), w)
                 | (None, w) \<Rightarrow> tc_live e m target key w)))"

section \<open>The Configs of a target say where they stand\<close>

definition configs_of :: "target \<Rightarrow> config list \<Rightarrow> config list" where
  "configs_of tg cs = filter (\<lambda>c. c_namespace c = m_namespace (t_meta tg)
     \<and> map_of (m_labels (c_meta c)) TargetNamespaceKey = Some (m_namespace (t_meta tg))
     \<and> map_of (m_labels (c_meta c)) TargetNameKey = Some (m_name (t_meta tg))) cs"

definition status_laws :: "'w k8s \<Rightarrow> ('w \<Rightarrow> config list) \<Rightarrow> (status_apply \<Rightarrow> string \<Rightarrow> config \<Rightarrow> config) \<Rightarrow> bool" where
  \<comment> \<open>an API server that holds the Configs \<open>look w\<close>: a list returns those selected, a status apply changes
      the status of one, and of the two condition types the transactor owns exactly those sent are left\<close>
  "status_laws k look upd \<longleftrightarrow>
     (\<forall>ns l w. k_ListConfigs k ns l w
        = (Inr (filter (\<lambda>c. c_namespace c = ns \<and> (\<forall>(x, v) \<in> set l. map_of (m_labels (c_meta c)) x = Some v)) (look w)), w))
     \<and> (\<forall>ns n sa fm w. fst (k_ApplyConfigStatus k ns n sa fm w) = None
          \<and> look (snd (k_ApplyConfigStatus k ns n sa fm w))
              = map (\<lambda>c. if ckey c = (ns, n) then upd sa fm c else c) (look w))
     \<and> (\<forall>sa fm c. c_meta (upd sa fm c) = c_meta c
          \<and> (\<forall>t \<in> {ConditionTypeReady, ConditionTypeConfigReady}.
               look_condition (c_conditions (upd sa fm c)) t = look_condition (sa_conditions sa) t))
     \<and> (\<forall>w. distinct (map ckey (look w)) \<and> (\<forall>c \<in> set (look w). distinct (ctypes (c_conditions c))))"

lemma status_lawsD:
  assumes "status_laws k look upd"
  shows "ListConfigsPerTarget k tg w = (Inr (configs_of tg (look w)), w)"
    and "k_ApplyConfigStatus k ns n sa fm w = (None, snd (k_ApplyConfigStatus k ns n sa fm w))"
    and "look (snd (k_ApplyConfigStatus k ns n sa fm w))
      = map (\<lambda>c. if ckey c = (ns, n) then upd sa fm c else c) (look w)"
    and "c_meta (upd sa fm c) = c_meta c"
    and "t \<in> {ConditionTypeReady, ConditionTypeConfigReady} \<Longrightarrow>
      look_condition (c_conditions (upd sa fm c)) t = look_condition (sa_conditions sa) t"
    and "distinct (map ckey (look w))" "c \<in> set (look w) \<Longrightarrow> distinct (ctypes (c_conditions c))"
proof -
  have "k_ListConfigs k ns l w
        = (Inr (filter (\<lambda>c. c_namespace c = ns \<and> (\<forall>(x, v) \<in> set l. map_of (m_labels (c_meta c)) x = Some v)) (look w)), w)" for ns l
    using assms unfolding status_laws_def by blast
  then show "ListConfigsPerTarget k tg w = (Inr (configs_of tg (look w)), w)"
    by (simp add: ListConfigsPerTarget_def configs_of_def)
  show "k_ApplyConfigStatus k ns n sa fm w = (None, snd (k_ApplyConfigStatus k ns n sa fm w))"
    using assms unfolding status_laws_def by (metis prod.collapse)
  show "look (snd (k_ApplyConfigStatus k ns n sa fm w))
      = map (\<lambda>c. if ckey c = (ns, n) then upd sa fm c else c) (look w)"
    using assms unfolding status_laws_def by blast
  show "c_meta (upd sa fm c) = c_meta c" using assms unfolding status_laws_def by blast
  show "t \<in> {ConditionTypeReady, ConditionTypeConfigReady} \<Longrightarrow>
      look_condition (c_conditions (upd sa fm c)) t = look_condition (sa_conditions sa) t"
    using assms unfolding status_laws_def by blast
  show "distinct (map ckey (look w))" "c \<in> set (look w) \<Longrightarrow> distinct (ctypes (c_conditions c))"
    using assms unfolding status_laws_def by blast+
qed

definition after_update :: "(status_apply \<Rightarrow> string \<Rightarrow> config \<Rightarrow> config) \<Rightarrow> string \<Rightarrow> (config \<Rightarrow> config) \<Rightarrow> config \<Rightarrow> config" where
  \<comment> \<open>what one run of \<open>applyStatus\<close> towards \<open>g\<close> leaves of a Config\<close>
  "after_update upd fm g c = (if owned_same c (g c) then c else upd (status_to_send c (g c)) fm c)"

lemma update_loop:
  assumes laws: "status_laws k look upd" and g: "\<And>c. c_meta (g c) = c_meta c"
  shows "distinct (map ckey (look w)) \<Longrightarrow> set items \<subseteq> set (look w) \<Longrightarrow> distinct items \<Longrightarrow>
    \<exists>w'. for_err (\<lambda>cur. applyStatus k fm cur (g cur)) items w = (None, w')
      \<and> look w' = map (\<lambda>c. if c \<in> set items then after_update upd fm g c else c) (look w)"
proof (induction items arbitrary: w)
  case (Cons x items)
  note L = status_lawsD [OF laws]
  let ?r = "after_update upd fm g"
  have inj: "c = x" if "c \<in> set (look w)" "ckey c = ckey x" for c
    using Cons.prems(1,2) that by (auto simp: distinct_map dest: inj_onD)
  have meta: "c_meta (?r x) = c_meta x" by (simp add: after_update_def L(4))
  obtain w1 where step: "applyStatus k fm x (g x) w = (None, w1)"
    "look w1 = map (\<lambda>c. if c = x then ?r x else c) (look w)"
  proof (cases "owned_same x (g x)")
    case True
    then have "applyStatus k fm x (g x) w = (None, w)" by (simp add: applyStatus_eq)
    moreover have "look w = map (\<lambda>c. if c = x then ?r x else c) (look w)"
      using True by (simp add: after_update_def map_idI)
    ultimately show ?thesis by (rule that)
  next
    case False
    let ?a = "k_ApplyConfigStatus k (c_namespace x) (c_name x) (status_to_send x (g x)) fm w"
    have "applyStatus k fm x (g x) w = (None, snd ?a)" using False g [of x] L(2) by (simp add: applyStatus_eq)
    moreover have "look (snd ?a) = map (\<lambda>c. if c = x then ?r x else c) (look w)"
      using False inj by (auto simp: L(3) after_update_def)
    ultimately show ?thesis by (rule that)
  qed
  have rx: "?r x \<notin> set items" "x \<notin> set items"
  proof -
    show "x \<notin> set items" using Cons.prems(3) by simp
    then show "?r x \<notin> set items" using inj [of "?r x"] Cons.prems(2) meta by auto
  qed
  have "distinct (map ckey (look w1))"
  proof -
    have "map ckey (look w1) = map ckey (look w)" by (auto simp: step(2) meta)
    then show ?thesis using Cons.prems(1) by simp
  qed
  moreover have "set items \<subseteq> set (look w1)" using Cons.prems(2) rx(2) by (auto simp: step(2) image_iff)
  ultimately obtain w' where rest: "for_err (\<lambda>cur. applyStatus k fm cur (g cur)) items w1 = (None, w')"
    "look w' = map (\<lambda>c. if c \<in> set items then ?r c else c) (look w1)"
    using Cons.IH [of w1] Cons.prems(3) by auto
  have "look w' = map (\<lambda>c. if c \<in> set (x # items) then ?r c else c) (look w)"
    using rx by (auto simp: rest(2) step(2))
  then show ?case using rest(1) step(1) by (auto simp: then_err_def)
qed (simp add: map_idI)

lemma updateConfigsForTarget_loop:
  assumes laws: "status_laws k look upd" and g: "\<And>c. c_meta (f (with_devgen None c)) = c_meta c"
    and dist: "distinct (map ckey (look w))"
  shows "\<exists>w'. updateConfigsForTarget k fm tg (\<lambda>cfg. Some (f cfg)) w = (None, w')
    \<and> look w' = map (\<lambda>c. if c \<in> set (configs_of tg (look w)) then after_update upd fm (\<lambda>c. f (with_devgen None c)) c else c) (look w)"
proof -
  have "distinct (configs_of tg (look w))" "set (configs_of tg (look w)) \<subseteq> set (look w)"
    using dist by (auto simp: configs_of_def distinct_map)
  from update_loop [where g = "\<lambda>c. f (with_devgen None c)", OF laws g dist this(2,1)] show ?thesis
    by (simp add: updateConfigsForTarget_def status_lawsD(1) [OF laws])
qed

lemma look_GetCondition: "look_condition cs t = Some c \<Longrightarrow> HasCondition cs t \<and> GetCondition cs t = c"
  by (auto simp: look_condition_def split: if_splits)

lemma after_update_condition:
  assumes laws: "status_laws k look upd" and t: "t \<in> {ConditionTypeReady, ConditionTypeConfigReady}"
    and h: "HasCondition (c_conditions (g c)) t"
  shows "HasCondition (c_conditions (after_update upd fm g c)) t
    \<and> cond_Equal (GetCondition (c_conditions (after_update upd fm g c)) t) (GetCondition (c_conditions (g c)) t)"
proof (cases "owned_same c (g c)")
  case True
  with t h show ?thesis by (auto simp: after_update_def owned_same_def intro: cond_Equal_sym)
next
  case False
  let ?k = "\<lambda>t. keepTransitionTime (GetCondition (c_conditions (g c)) t) (GetCondition (c_conditions c) t)"
  have "cType (?k t) = t" for t by (simp add: keepTransitionTime_def)
  then have "look_condition (sa_conditions (status_to_send c (g c))) t = Some (?k t)"
    using t h by (auto simp: status_to_send_def)
  then have "look_condition (c_conditions (after_update upd fm g c)) t = Some (?k t)"
    using False status_lawsD(5) [OF laws t] by (simp add: after_update_def)
  from look_GetCondition [OF this] show ?thesis using keepTransitionTime_cases by simp
qed

lemma after_update_no_condition:
  assumes laws: "status_laws k look upd"
    and h: "\<not> HasCondition (c_conditions (g c)) ConditionTypeConfigReady" "\<not> HasCondition (c_conditions c) ConditionTypeConfigReady"
  shows "\<not> HasCondition (c_conditions (after_update upd fm g c)) ConditionTypeConfigReady"
proof (cases "owned_same c (g c)")
  case True
  with h show ?thesis by (simp add: after_update_def)
next
  case False
  have "look_condition (sa_conditions (status_to_send c (g c))) ConditionTypeConfigReady = None"
    using h by (simp add: status_to_send_def keepTransitionTime_def)
  then have "look_condition (c_conditions (after_update upd fm g c)) ConditionTypeConfigReady = None"
    using False status_lawsD(5) [OF laws, of ConditionTypeConfigReady] by (simp add: after_update_def)
  then show ?thesis by (simp add: look_condition_None)
qed

lemma ReadyFromApplied_cong:
  assumes "HasCondition (c_conditions r) ConditionTypeConfigReady = HasCondition (c_conditions r') ConditionTypeConfigReady"
    and "HasCondition (c_conditions r) ConditionTypeConfigReady \<Longrightarrow>
      cond_Equal (GetCondition (c_conditions r) ConditionTypeConfigReady) (GetCondition (c_conditions r') ConditionTypeConfigReady)"
  shows "cond_Equal (ReadyFromApplied now r) (ReadyFromApplied now r')"
  using assms by (auto simp: ReadyFromApplied_def cond_Equal_def IsTrue_def ReadyWithMsg_def Let_def)

lemma set_ready_effect:
  assumes laws: "status_laws k look upd" and v: "\<And>c. cType (v c) = ConditionTypeReady"
  obtains w' where "updateConfigsForTarget k fm tg (\<lambda>cfg. Some (set_config_conditions [v cfg] cfg)) w = (None, w')"
    "\<And>c'. c' \<in> set (configs_of tg (look w')) \<Longrightarrow> \<exists>c.
       cond_Equal (GetCondition (c_conditions c') ConditionTypeReady) (v (with_devgen None c))
       \<and> HasCondition (c_conditions c') ConditionTypeConfigReady = HasCondition (c_conditions c) ConditionTypeConfigReady
       \<and> (HasCondition (c_conditions c') ConditionTypeConfigReady \<longrightarrow>
            cond_Equal (GetCondition (c_conditions c') ConditionTypeConfigReady) (GetCondition (c_conditions c) ConditionTypeConfigReady))"
proof -
  note L = status_lawsD [OF laws]
  let ?g = "\<lambda>c. set_config_conditions [v (with_devgen None c)] (with_devgen None c)"
  have "c_meta (?g c) = c_meta c" for c by (simp add: set_config_conditions_def with_devgen_def)
  then obtain w' where w': "updateConfigsForTarget k fm tg (\<lambda>cfg. Some (set_config_conditions [v cfg] cfg)) w = (None, w')"
    "look w' = map (\<lambda>c. if c \<in> set (configs_of tg (look w)) then after_update upd fm ?g c else c) (look w)"
    using updateConfigsForTarget_loop [where w = w and fm = fm and tg = tg and f = "\<lambda>c. set_config_conditions [v c] c", OF laws _ L(6)]
    by blast
  have meta: "c_meta (after_update upd fm ?g c) = c_meta c" for c by (simp add: after_update_def L(4))
  show ?thesis
  proof (rule that [OF w'(1)])
    fix c' assume "c' \<in> set (configs_of tg (look w'))"
    then obtain c where c: "c \<in> set (configs_of tg (look w))" "c' = after_update upd fm ?g c"
      using meta by (auto simp: w'(2) configs_of_def split: if_splits)
    then have d: "distinct (ctypes (c_conditions c))" using L(7) by (auto simp: configs_of_def)
    let ?v = "v (with_devgen None c)"
    have g: "c_conditions (?g c) = SetCondition ?v (c_conditions c)"
      by (simp add: set_config_conditions_def with_devgen_def SetConditions_def)
    have t: "ConditionTypeConfigReady \<noteq> cType ?v" "ConditionTypeReady = cType ?v"
      using v by (simp_all add: ConditionTypeReady_def ConditionTypeConfigReady_def)
    have "HasCondition (c_conditions (?g c)) ConditionTypeReady"
      "cond_Equal (GetCondition (c_conditions (?g c)) ConditionTypeReady) ?v"
      "HasCondition (c_conditions (?g c)) ConditionTypeConfigReady = HasCondition (c_conditions c) ConditionTypeConfigReady"
      "GetCondition (c_conditions (?g c)) ConditionTypeConfigReady = GetCondition (c_conditions c) ConditionTypeConfigReady"
      unfolding g using GetCondition_SetCondition_same [OF d, of ?v] t
      by (simp_all add: HasCondition_SetCondition GetCondition_SetCondition_other)
    with after_update_condition [OF laws, of ConditionTypeReady ?g c fm]
      after_update_condition [OF laws, of ConditionTypeConfigReady ?g c fm] after_update_no_condition [OF laws, of ?g c fm]
    show "\<exists>c. cond_Equal (GetCondition (c_conditions c') ConditionTypeReady) (v (with_devgen None c))
       \<and> HasCondition (c_conditions c') ConditionTypeConfigReady = HasCondition (c_conditions c) ConditionTypeConfigReady
       \<and> (HasCondition (c_conditions c') ConditionTypeConfigReady \<longrightarrow>
            cond_Equal (GetCondition (c_conditions c') ConditionTypeConfigReady) (GetCondition (c_conditions c) ConditionTypeConfigReady))"
      unfolding c(2) by (intro exI [of _ c]) (auto intro: cond_Equal_trans)
  qed
qed

lemma setConfigsNotReady_effect:
  assumes laws: "status_laws (xc_k8s e) look upd"
  obtains w' where "setConfigsNotReady e tg reason msg w = (None, w')"
    "\<And>c. c \<in> set (configs_of tg (look w')) \<Longrightarrow>
       cond_Equal (GetCondition (c_conditions c) ConditionTypeReady) (ConfigNotReady (xc_now e) reason msg)"
proof -
  have "cType (ConfigNotReady (xc_now e) reason msg) = ConditionTypeReady" by (simp add: ConfigNotReady_def)
  from set_ready_effect [OF laws this, of tc_fieldManager tg w] that show ?thesis
    unfolding setConfigsNotReady_def SetConfigsNotReady_def by fastforce
qed

lemma setConfigsReadyFromApplied_effect:
  assumes laws: "status_laws (xc_k8s e) look upd"
  obtains w' where "setConfigsReadyFromApplied e tg w = (None, w')"
    "\<And>c. c \<in> set (configs_of tg (look w')) \<Longrightarrow>
       cond_Equal (GetCondition (c_conditions c) ConditionTypeReady) (ReadyFromApplied (xc_now e) c)"
proof -
  obtain w' where w': "updateConfigsForTarget (xc_k8s e) tc_fieldManager tg
      (\<lambda>cfg. Some (set_config_conditions [ReadyFromApplied (xc_now e) cfg] cfg)) w = (None, w')"
    "\<And>c'. c' \<in> set (configs_of tg (look w')) \<Longrightarrow> \<exists>c.
       cond_Equal (GetCondition (c_conditions c') ConditionTypeReady) (ReadyFromApplied (xc_now e) (with_devgen None c))
       \<and> HasCondition (c_conditions c') ConditionTypeConfigReady = HasCondition (c_conditions c) ConditionTypeConfigReady
       \<and> (HasCondition (c_conditions c') ConditionTypeConfigReady \<longrightarrow>
            cond_Equal (GetCondition (c_conditions c') ConditionTypeConfigReady) (GetCondition (c_conditions c) ConditionTypeConfigReady))"
    using set_ready_effect [OF laws, where v = "ReadyFromApplied (xc_now e)" and w = w and tg = tg and fm = tc_fieldManager]
      cType_ReadyFromApplied by blast
  show ?thesis
  proof (rule that)
    show "setConfigsReadyFromApplied e tg w = (None, w')"
      by (simp add: setConfigsReadyFromApplied_def SetConfigsReadyFromApplied_def w'(1))
    fix c' assume "c' \<in> set (configs_of tg (look w'))"
    from w'(2) [OF this] obtain c where
      "cond_Equal (GetCondition (c_conditions c') ConditionTypeReady) (ReadyFromApplied (xc_now e) (with_devgen None c))"
      "HasCondition (c_conditions c') ConditionTypeConfigReady = HasCondition (c_conditions c) ConditionTypeConfigReady"
      "HasCondition (c_conditions c') ConditionTypeConfigReady \<longrightarrow>
            cond_Equal (GetCondition (c_conditions c') ConditionTypeConfigReady) (GetCondition (c_conditions c) ConditionTypeConfigReady)"
      by blast
    moreover have "c_conditions (with_devgen None c) = c_conditions c" by (simp add: with_devgen_def)
    ultimately show "cond_Equal (GetCondition (c_conditions c') ConditionTypeReady) (ReadyFromApplied (xc_now e) c')"
      using ReadyFromApplied_cong [of c' "with_devgen None c"] by (auto intro: cond_Equal_trans cond_Equal_sym)
  qed
qed

definition stage_condition ::
  "nat \<Rightarrow> tkey \<Rightarrow> goerr + target \<Rightarrow> 'c mg_handle option \<times> bool \<Rightarrow> condition option" where
  \<comment> \<open>the specification: the condition of the first stage that blocks\<close>
  "stage_condition now key res ds =
     (case res of
        Inl err \<Rightarrow> Some (ConfigNotReady now ConfigReasonTargetNotFound (''target '' @ fst key @ ''/'' @ snd key @ '' not found''))
      | Inr target \<Rightarrow>
          if m_deletionTimestamp (t_meta target) \<noteq> None
          then Some (ConfigNotReady now ConfigReasonTargetDeleting ''target is being deleted'')
          else if \<not> Target_IsReady target
          then Some (ConfigNotReady now ConfigReasonTargetNotReady (NotReadyReason target))
          else if snd ds then None
          else Some (ConfigNotReady now ConfigReasonTargetRuntimeNotReady (runtime_msg (fst ds))))"

definition tc_subject :: "tkey \<Rightarrow> goerr + target \<Rightarrow> target" where
  "tc_subject key res = (case res of Inl err \<Rightarrow> missing_target key | Inr target \<Rightarrow> target)"

lemma GetDatastore_client:
  assumes "GetDatastore kS dsc key m = (h, True)"
  obtains h' d where "h = Some h'" "mh_client h' = Some d" "dsc = Some d"
proof -
  from assms obtain i where i: "map_of (mg_targets m) key = Some i"
    by (cases "map_of (mg_targets m) key") (simp_all add: GetDatastore_def)
  with assms that show ?thesis
    by (cases "mg_GetDatastore_usable dsc (mg_heap m ! i)")
       (auto simp: GetDatastore_def mg_GetDatastore_usable_def Let_def split: if_splits)
qed

lemma cReason_ConfigNotReady [simp]: "cReason (ConfigNotReady now reason msg) = reason"
  by (simp add: ConfigNotReady_def)

lemma tc_reasons [simp]:
  "ConfigReasonTargetNotFound \<noteq> ConfigReasonTargetRuntimeNotReady"
  "ConfigReasonTargetDeleting \<noteq> ConfigReasonTargetRuntimeNotReady"
  "ConfigReasonTargetNotReady \<noteq> ConfigReasonTargetRuntimeNotReady"
  by (simp_all add: ConfigReasonTargetNotFound_def ConfigReasonTargetDeleting_def ConfigReasonTargetNotReady_def
      ConfigReasonTargetRuntimeNotReady_def)

lemma transact_stage_effect:
  assumes laws: "status_laws (xc_k8s e) look upd" and run: "transact_stage e tg h d w = ((after, None), w')"
  shows "(\<forall>c \<in> set (configs_of tg (look w')).
       cond_Equal (GetCondition (c_conditions c) ConditionTypeReady) (ReadyFromApplied (xc_now e) c))
    \<or> (\<exists>err. Transact (xc_parse e) (xc_env e) (xc_sha e) (xc_keyString e) (xc_uuid e) (xc_now e) (xc_k8s e)
            tc_fieldManager d tg \<lparr>h_key = xc_keyString e (mh_key h), h_datastoreName = mh_datastoreName h,
              h_schema = mh_schema h\<rparr> w = ((False, Some err), w'))"
proof -
  obtain retry res w1 where t: "Transact (xc_parse e) (xc_env e) (xc_sha e) (xc_keyString e) (xc_uuid e) (xc_now e) (xc_k8s e)
            tc_fieldManager d tg \<lparr>h_key = xc_keyString e (mh_key h), h_datastoreName = mh_datastoreName h,
              h_schema = mh_schema h\<rparr> w = ((retry, res), w1)" by (metis surj_pair)
  obtain w2 where s: "setConfigsReadyFromApplied e tg w1 = (None, w2)"
    "\<And>c. c \<in> set (configs_of tg (look w2)) \<Longrightarrow>
       cond_Equal (GetCondition (c_conditions c) ConditionTypeReady) (ReadyFromApplied (xc_now e) c)"
    using setConfigsReadyFromApplied_effect [OF laws, of tg w1] by blast
  show ?thesis
  proof (cases res)
    case None
    with run t s show ?thesis by (simp add: transact_stage_def)
  next
    case (Some err)
    with run t s show ?thesis by (cases retry) (simp_all add: transact_stage_def)
  qed
qed

text \<open>C5: The Configs of a target say where they stand. Whenever a reconcile ends without an error, against an
  API server that keeps the status it is sent: if the target does not exist, is being deleted, is not ready or its
  runtime is not, then every Config of it has Ready False with the reason and message of the first stage that
  blocks, and only a runtime that is not ready is polled; otherwise every Config has the Ready that follows from
  the outcome of its last transaction, with one exception: after a transaction that failed for good nothing
  more is written.\<close>

theorem configs_follow_the_target:
  assumes laws: "status_laws (xc_k8s e) look upd"
    and fin: "\<And>name ns fs w. look (snd (xc_ApplyFinalizers e name ns fs w)) = look w"
    and api: "xc_serverResources e w = (None, w1)"
    and get: "k_GetTarget (xc_k8s e) (fst key) (snd key) w1 = (res, w2)"
    and run: "tc_Reconcile e m key w = ((after, None), w')"
  shows "case stage_condition (xc_now e) key res (GetDatastore (xc_keyString e) (xc_dsc e) key m) of
      Some cond \<Rightarrow> after = (if cReason cond = ConfigReasonTargetRuntimeNotReady then runtimeRequeue else 0)
        \<and> (\<forall>c \<in> set (configs_of (tc_subject key res) (look w')).
             cond_Equal (GetCondition (c_conditions c) ConditionTypeReady) cond)
    | None \<Rightarrow> (\<forall>c \<in> set (configs_of (tc_subject key res) (look w')).
             cond_Equal (GetCondition (c_conditions c) ConditionTypeReady) (ReadyFromApplied (xc_now e) c))
        \<or> (\<exists>h d w3 err. GetDatastore (xc_keyString e) (xc_dsc e) key m = (Some h, True) \<and> mh_client h = Some d
             \<and> Transact (xc_parse e) (xc_env e) (xc_sha e) (xc_keyString e) (xc_uuid e) (xc_now e) (xc_k8s e)
                 tc_fieldManager d (tc_subject key res) \<lparr>h_key = xc_keyString e (mh_key h),
                   h_datastoreName = mh_datastoreName h, h_schema = mh_schema h\<rparr> w3 = ((False, Some err), w'))"
proof (cases res)
  case (Inl err)
  with run api get have "reconcileTargetNotFound e key w2 = ((after, None), w')"
    by (auto simp: tc_Reconcile_def split: if_splits)
  then show ?thesis using Inl
    by (cases rule: setConfigsNotReady_effect [OF laws, of "missing_target key" ConfigReasonTargetNotFound
          "''target '' @ fst key @ ''/'' @ snd key @ '' not found''" w2])
       (auto simp: reconcileTargetNotFound_def stage_condition_def tc_subject_def)
next
  case (Inr target)
  note eff = setConfigsNotReady_effect [OF laws, of target]
  show ?thesis
  proof (cases "m_deletionTimestamp (t_meta target) = None")
    case False
    obtain w3 where s: "setConfigsNotReady e target ConfigReasonTargetDeleting ''target is being deleted'' w2 = (None, w3)"
      "\<And>c. c \<in> set (configs_of target (look w3)) \<Longrightarrow> cond_Equal (GetCondition (c_conditions c) ConditionTypeReady)
         (ConfigNotReady (xc_now e) ConfigReasonTargetDeleting ''target is being deleted'')" by (rule eff [of ConfigReasonTargetDeleting "''target is being deleted''" w2]) blast
    have "after = 0 \<and> look w' = look w3"
      using run api get Inr False s(1) fin [of "m_name (t_meta target)" "m_namespace (t_meta target)" "[]" w3]
      by (auto simp: tc_Reconcile_def tc_deleting_def RemoveFinalizer_def split: prod.splits option.splits if_splits)
    then show ?thesis using s(2) Inr False by (simp add: stage_condition_def tc_subject_def)
  next
    case live: True
    obtain w3 where r: "tc_live e m target key w3 = ((after, None), w')"
      using run api get Inr live by (auto simp: tc_Reconcile_def split: prod.splits option.splits)
    show ?thesis
    proof (cases "Target_IsReady target")
      case False
      obtain w4 where "setConfigsNotReady e target ConfigReasonTargetNotReady (NotReadyReason target) w3 = (None, w4)"
        "\<And>c. c \<in> set (configs_of target (look w4)) \<Longrightarrow> cond_Equal (GetCondition (c_conditions c) ConditionTypeReady)
           (ConfigNotReady (xc_now e) ConfigReasonTargetNotReady (NotReadyReason target))" by (rule eff [of ConfigReasonTargetNotReady "NotReadyReason target" w3]) blast
      then show ?thesis using r Inr live False by (auto simp: tc_live_def stage_condition_def tc_subject_def)
    next
      case ready: True
      obtain h ok where g: "GetDatastore (xc_keyString e) (xc_dsc e) key m = (h, ok)" by (rule prod.exhaust)
      show ?thesis
      proof (cases ok)
        case False
        obtain w4 where "setConfigsNotReady e target ConfigReasonTargetRuntimeNotReady (runtime_msg h) w3 = (None, w4)"
          "\<And>c. c \<in> set (configs_of target (look w4)) \<Longrightarrow> cond_Equal (GetCondition (c_conditions c) ConditionTypeReady)
             (ConfigNotReady (xc_now e) ConfigReasonTargetRuntimeNotReady (runtime_msg h))" by (rule eff [of ConfigReasonTargetRuntimeNotReady "runtime_msg h" w3]) blast
        then show ?thesis using r Inr live ready g False
          by (cases h) (auto simp: tc_live_def stage_condition_def tc_subject_def)
      next
        case True
        with g obtain h' d where h: "h = Some h'" "mh_client h' = Some d" using GetDatastore_client by metis
        with r ready g True have "transact_stage e target h' d w3 = ((after, None), w')" by (simp add: tc_live_def)
        from transact_stage_effect [OF laws this] show ?thesis
          using Inr live ready g True h by (auto simp: stage_condition_def tc_subject_def)
      qed
    qed
  qed
qed

section \<open>Only a running target is configured\<close>

definition trace_tc :: "('p, 'h, 'w) tc_env \<Rightarrow> ('p, 'h, ('p, 'w) traced) tc_env" where
  "trace_tc e = \<lparr>xc_serverResources = lcall (xc_serverResources e), xc_k8s = trace_k8s (xc_k8s e),
     xc_ApplyFinalizers = (\<lambda>n ns fs. lcall (xc_ApplyFinalizers e n ns fs)), xc_dsc = map_option trace_ds (xc_dsc e),
     xc_keyString = xc_keyString e, xc_parse = xc_parse e, xc_env = xc_env e, xc_sha = xc_sha e, xc_uuid = xc_uuid e,
     xc_now = xc_now e\<rparr>"

lemma trace_tc_sel [simp]:
  "xc_serverResources (trace_tc e) = lcall (xc_serverResources e)" "xc_k8s (trace_tc e) = trace_k8s (xc_k8s e)"
  "xc_ApplyFinalizers (trace_tc e) = (\<lambda>n ns fs. lcall (xc_ApplyFinalizers e n ns fs))"
  "xc_dsc (trace_tc e) = map_option trace_ds (xc_dsc e)" "xc_keyString (trace_tc e) = xc_keyString e"
  "xc_parse (trace_tc e) = xc_parse e" "xc_env (trace_tc e) = xc_env e" "xc_sha (trace_tc e) = xc_sha e"
  "xc_uuid (trace_tc e) = xc_uuid e" "xc_now (trace_tc e) = xc_now e"
  by (simp_all add: trace_tc_def)

lemma quiet_lcall: "emits quiet (lcall f)"
  by (auto simp: moves_def lcall_def extends_def split: prod.splits)

lemma quiet_setters:
  "emits quiet (setConfigsNotReady (trace_tc e) tg reason msg)" "emits quiet (setConfigsReadyFromApplied (trace_tc e) tg)"
  unfolding setConfigsNotReady_def [abs_def] setConfigsReadyFromApplied_def [abs_def] Let_def
  by (intro log.bind log.ret; simp add: SetConfigsNotReady_def SetConfigsReadyFromApplied_def quiet_updateConfigs)+

lemma quiet_stages:
  "emits quiet (reconcileTargetNotFound (trace_tc e) key)"
  "emits quiet (tc_deleting (trace_tc e) target)"
  "emits quiet (AddFinalizer fn (xc_ApplyFinalizers (trace_tc e)) obj)"
proof -
  show "emits quiet (reconcileTargetNotFound (trace_tc e) key)"
    unfolding reconcileTargetNotFound_def [abs_def] Let_def by (intro log.bind log.ret quiet_setters)
  have "emits quiet (RemoveFinalizer fn (xc_ApplyFinalizers (trace_tc e)) obj)" for fn obj
    unfolding RemoveFinalizer_def [abs_def] by (auto intro!: log.ifs log.ret quiet_lcall)
  then show "emits quiet (tc_deleting (trace_tc e) target)"
    unfolding tc_deleting_def [abs_def] by (intro log.opts log.ret quiet_setters)
  show "emits quiet (AddFinalizer fn (xc_ApplyFinalizers (trace_tc e)) obj)"
    unfolding AddFinalizer_def [abs_def] by (auto intro!: log.ifs log.ret quiet_lcall)
qed

definition one_transaction ::
  "('p, 'h, 'w) tc_env \<Rightarrow> ('p, 'w) dsclient \<Rightarrow> tkey \<Rightarrow> string \<Rightarrow> 'p call list \<Rightarrow> bool" where
  \<comment> \<open>the data-server is sent a transaction with the changed configs, and its confirm just when the answer is clean\<close>
  "one_transaction e d tkey name calls \<longleftrightarrow> (\<exists>q rsp err v items u dl.
     getConfigsToTransact (xc_sha e) items = (u, dl) \<and> u @ dl \<noteq> []
     \<and> sent_request (xc_keyString e tkey) (xc_uuid e) u dl q
     \<and> (rsp, err) = fst (d_TransactionSet d q v)
     \<and> filter ds_call calls = CSet q # (if answer_ok rsp err then [CConfirm name (xc_uuid e)] else []))"

lemma transact_stage_calls:
  fixes e :: "('p, 'h, 'w) tc_env"
  assumes run: "transact_stage (trace_tc e) target h (trace_ds d) (w, cs) = (r, (w', calls))"
    and cs: "filter ds_call cs = []" and loud: "filter ds_call calls \<noteq> []"
  shows "one_transaction e d (m_namespace (t_meta target), m_name (t_meta target)) (mh_datastoreName h) calls"
proof -
  let ?h = "\<lparr>h_key = xc_keyString e (mh_key h), h_datastoreName = mh_datastoreName h, h_schema = mh_schema h\<rparr>"
  let ?T = "Transact (xc_parse e) (xc_env e) (xc_sha e) (xc_keyString e) (xc_uuid e) (xc_now e) (trace_k8s (xc_k8s e))
      tc_fieldManager (trace_ds d) target ?h (w, cs)"
  obtain retry res w1 cs1 where t: "?T = ((retry, res), (w1, cs1))" by (metis surj_pair)
  obtain serr w2 cs2 where s: "setConfigsReadyFromApplied (trace_tc e) target (w1, cs1) = (serr, (w2, cs2))"
    by (metis prod_cases3)
  have "calls = cs1 \<or> calls = cs2"
    using run t s by (cases res; cases serr; auto simp: transact_stage_def split: if_splits)
  moreover have "filter ds_call cs2 = filter ds_call cs1" by (rule silent_step [OF quiet_setters(2) s])
  ultimately have same: "filter ds_call calls = filter ds_call cs1" by blast
  from Transact_calls [OF t] show ?thesis
  proof (elim exE conjE)
    fix pre mid post
    assume calls: "cs1 = cs @ pre @ mid @ post" "list_all pre_call pre" "list_all post_call post"
      and mid: "mid = [] \<or> (\<exists>q rsp err w2 items u dl. getConfigsToTransact (xc_sha e) items = (u, dl) \<and> u @ dl \<noteq> []
      \<and> sent_request (xc_keyString e (m_namespace (t_meta target), m_name (t_meta target))) (xc_uuid e) u dl q
      \<and> (rsp, err) = fst (d_TransactionSet d q w2)
      \<and> mid = CSet q # (if answer_ok rsp err then [CConfirm (h_datastoreName ?h) (xc_uuid e)] else []))"
    have "filter ds_call pre = []" "filter ds_call post = []"
      using calls(2,3) quiet_calls by (auto simp: list_all_iff filter_empty_conv)
    then have f: "filter ds_call calls = filter ds_call mid" using calls(1) cs same by simp
    with loud have "mid \<noteq> []" by auto
    with mid f show ?thesis unfolding one_transaction_def by fastforce
  qed
qed

lemma GetDatastore_usable:
  assumes "GetDatastore kS dsc key m = (Some h, True)"
  shows "\<exists>i. GetRuntimeForTarget key m = Some i \<and> mh_datastoreName h = kS key
    \<and> rs_dsReady (rt_Status (mg_heap m ! i)) \<and> rs_dsStoreReady (rt_Status (mg_heap m ! i))
    \<and> rs_phase (rt_Status (mg_heap m ! i)) = PhaseRunning"
  using assms by (auto simp: GetDatastore_def GetRuntimeForTarget_def mg_GetDatastore_usable_def Let_def
      split: option.splits if_splits)

lemma tc_live_calls:
  fixes e :: "('p, 'h, 'w) tc_env"
  assumes run: "tc_live (trace_tc e) m target key (w, cs) = (r, (w', calls))"
    and cs: "filter ds_call cs = []" and loud: "filter ds_call calls \<noteq> []"
  shows "Target_IsReady target \<and> (\<exists>h d. GetDatastore (xc_keyString e) (map_option trace_ds (xc_dsc e)) key m = (Some h, True)
     \<and> xc_dsc e = Some d
     \<and> one_transaction e d (m_namespace (t_meta target), m_name (t_meta target)) (mh_datastoreName h) calls)"
proof -
  have blocked: "(\<lambda>(err, w). ((after, err), w)) (setConfigsNotReady (trace_tc e) target reason msg (w, cs)) \<noteq> (r, (w', calls))"
    for after reason msg
  proof -
    obtain err w1 cs1 where s: "setConfigsNotReady (trace_tc e) target reason msg (w, cs) = (err, (w1, cs1))"
      by (metis prod_cases3)
    have "filter ds_call cs1 = []" using silent_step [OF quiet_setters(1) s] cs by simp
    with loud show ?thesis by (auto simp: s)
  qed
  have ready: "Target_IsReady target"
    using run blocked [of 0 ConfigReasonTargetNotReady "NotReadyReason target"] by (auto simp: tc_live_def Let_def split: if_splits)
  obtain h ok where g: "GetDatastore (xc_keyString e) (map_option trace_ds (xc_dsc e)) key m = (h, ok)" by (rule prod.exhaust)
  have ok: "ok"
  proof (rule ccontr)
    assume "\<not> ok"
    then show False using run ready g blocked [of runtimeRequeue ConfigReasonTargetRuntimeNotReady "runtime_msg h"]
      by (cases h) (auto simp: tc_live_def Let_def)
  qed
  with g obtain h' d' where h: "h = Some h'" "mh_client h' = Some d'" "map_option trace_ds (xc_dsc e) = Some d'"
    using GetDatastore_client by metis
  then obtain d where d: "xc_dsc e = Some d" "d' = trace_ds d" by auto
  have "transact_stage (trace_tc e) target h' (trace_ds d) (w, cs) = (r, (w', calls))"
    using run ready g ok h(1,2) unfolding d(2) by (simp add: tc_live_def)
  note tx = transact_stage_calls [OF this cs loud]
  have "GetDatastore (xc_keyString e) (map_option trace_ds (xc_dsc e)) key m = (Some h', True)" using g ok h(1) by simp
  with tx ready d(1) show ?thesis by blast
qed


definition run_tc_env :: "(string, config_spec, nat) tc_env" where
  "run_tc_env = \<lparr>xc_serverResources = (\<lambda>w. (None, w)), xc_k8s = sample_k8s [sample_config],
     xc_ApplyFinalizers = (\<lambda>n ns fs w. (None, w)), xc_dsc = Some sample_ds, xc_keyString = (\<lambda>k. fst k @ ''.'' @ snd k),
     xc_parse = Inr, xc_env = None, xc_sha = (\<lambda>s. s), xc_uuid = ''id'', xc_now = 7\<rparr>"


section \<open>A concrete API server\<close>

definition wf_store :: "config list \<Rightarrow> bool" where
  "wf_store cs \<longleftrightarrow> distinct (map ckey cs) \<and> list_all (\<lambda>c. distinct (ctypes (c_conditions c))) cs"

definition stored :: "config list \<Rightarrow> config list" where
  "stored cs = (if wf_store cs then cs else [])"

definition own_conditions :: "status_apply \<Rightarrow> condition list" where
  "own_conditions sa = concat (map (\<lambda>t. case look_condition (sa_conditions sa) t of None \<Rightarrow> [] | Some c \<Rightarrow> [c])
     [ConditionTypeReady, ConditionTypeConfigReady])"

definition apply_status :: "status_apply \<Rightarrow> string \<Rightarrow> config \<Rightarrow> config" where
  "apply_status sa fm c = c\<lparr>c_status := (c_status c)\<lparr>
     st_conditions := filter (\<lambda>x. cType x \<noteq> ConditionTypeReady \<and> cType x \<noteq> ConditionTypeConfigReady) (c_conditions c) @ own_conditions sa,
     st_lastKnownGoodSchema := sa_lastKnownGoodSchema sa, st_appliedConfig := sa_appliedConfig sa,
     st_deviationGeneration := sa_deviationGeneration sa\<rparr>\<rparr>"

definition store_k8s :: "config list k8s" where
  "store_k8s = (sample_k8s [])\<lparr>
     k_ListConfigs := (\<lambda>ns l w. (Inr (filter (\<lambda>c. c_namespace c = ns
        \<and> (\<forall>(x, v) \<in> set l. map_of (m_labels (c_meta c)) x = Some v)) (stored w)), w)),
     k_ApplyConfigStatus := (\<lambda>ns n sa fm w. (None, map (\<lambda>c. if ckey c = (ns, n) then apply_status sa fm c else c) (stored w)))\<rparr>"

lemma own_conditions_look:
  "look_condition (own_conditions sa) t
     = (if t \<in> {ConditionTypeReady, ConditionTypeConfigReady} then look_condition (sa_conditions sa) t else None)"
  "distinct (ctypes (own_conditions sa))"
  by (auto simp: own_conditions_def look_condition_None look_condition_def HasCondition_iff
      ConditionTypeReady_def ConditionTypeConfigReady_def split: option.splits)

lemma apply_status_sel:
  "c_meta (apply_status sa fm c) = c_meta c"
  "look_condition (c_conditions (apply_status sa fm c)) t
     = (if t \<in> {ConditionTypeReady, ConditionTypeConfigReady} then look_condition (sa_conditions sa) t
        else look_condition (c_conditions c) t)"
  "distinct (ctypes (c_conditions c)) \<Longrightarrow> distinct (ctypes (c_conditions (apply_status sa fm c)))"
proof -
  have f: "look_condition (filter (\<lambda>x. cType x \<noteq> a \<and> cType x \<noteq> b) cs) t
      = (if t = a \<or> t = b then None else look_condition cs t)" for a b cs t
    by (induction cs) auto
  show "look_condition (c_conditions (apply_status sa fm c)) t
     = (if t \<in> {ConditionTypeReady, ConditionTypeConfigReady} then look_condition (sa_conditions sa) t
        else look_condition (c_conditions c) t)"
    by (simp add: apply_status_def look_condition_append f own_conditions_look(1) split: option.split)
  have "set (ctypes (own_conditions sa)) \<subseteq> {ConditionTypeReady, ConditionTypeConfigReady}"
    by (auto simp: own_conditions_def look_condition_def split: if_splits)
  moreover have "distinct (ctypes cs) \<Longrightarrow> distinct (map cType (filter P cs))" for cs P
    by (simp add: distinct_map_filter)
  ultimately show "distinct (ctypes (c_conditions c)) \<Longrightarrow> distinct (ctypes (c_conditions (apply_status sa fm c)))"
    using own_conditions_look(2) [of sa] by (auto simp: apply_status_def)
qed (simp add: apply_status_def)

lemma stored_wf: "wf_store (stored w)"
  by (simp add: stored_def wf_store_def)

lemma store_k8s_laws: "status_laws store_k8s stored apply_status"
proof -
  have "wf_store (map (\<lambda>c. if ckey c = key then apply_status sa fm c else c) (stored w))" for key sa fm w
  proof -
    have "map ckey (map (\<lambda>c. if ckey c = key then apply_status sa fm c else c) (stored w)) = map ckey (stored w)"
      by (simp add: apply_status_sel(1))
    then show ?thesis using stored_wf [of w] apply_status_sel(3) by (auto simp: wf_store_def list_all_iff simp del: map_map)
  qed
  then have "stored (map (\<lambda>c. if ckey c = (ns, n) then apply_status sa fm c else c) (stored w))
      = map (\<lambda>c. if ckey c = (ns, n) then apply_status sa fm c else c) (stored w)" for ns n sa fm w
    by (subst (1) stored_def) (simp only: if_True)
  moreover have "distinct (map ckey (stored w)) \<and> (\<forall>c \<in> set (stored w). distinct (ctypes (c_conditions c)))" for w
    using stored_wf [of w] by (simp add: wf_store_def list_all_iff)
  ultimately show ?thesis unfolding status_laws_def
    by (simp add: store_k8s_def apply_status_sel del: prod.inject)
qed

definition store_env :: "(string, config_spec, config list) tc_env" where
  "store_env = \<lparr>xc_serverResources = (\<lambda>w. (None, w)), xc_k8s = store_k8s, xc_ApplyFinalizers = (\<lambda>n ns fs w. (None, w)),
     xc_dsc = None, xc_keyString = (\<lambda>k. fst k @ ''.'' @ snd k), xc_parse = Inr, xc_env = None, xc_sha = (\<lambda>s. s),
     xc_uuid = ''id'', xc_now = 7\<rparr>"

definition labelled_config :: config where
  "labelled_config = sample_config\<lparr>c_meta := (c_meta sample_config)\<lparr>
     m_labels := [(TargetNameKey, ''t1''), (TargetNamespaceKey, ''ns'')]\<rparr>\<rparr>"

definition other_config :: config where
  "other_config = sample_config\<lparr>c_meta := (c_meta sample_config)\<lparr>m_name := ''c2''\<rparr>\<rparr>"

lemma configs_follow_the_target_witness:
  "let (res, w') = tc_Reconcile store_env (NewTargetManager :: unit manager) (''ns'', ''t1'') [labelled_config, other_config] in
     res = (runtimeRequeue, None) \<and> map c_name (configs_of sample_target (stored w')) = [''c1'']
     \<and> (\<forall>c \<in> set (configs_of sample_target (stored w')).
          cReason (GetCondition (c_conditions c) ConditionTypeReady) = ConfigReasonTargetRuntimeNotReady)"
proof -
  let ?w = "[labelled_config, other_config]" and ?m = "NewTargetManager :: unit manager" and ?k = "(''ns'', ''t1'')"
  let ?run = "tc_Reconcile store_env ?m ?k ?w"
  let ?ds = "GetDatastore (xc_keyString store_env) (xc_dsc store_env) ?k ?m"
  have facts: "fst ?run = (runtimeRequeue, None) \<and> map c_name (configs_of sample_target (stored (snd ?run))) = [''c1'']
      \<and> \<not> snd ?ds \<and> m_deletionTimestamp (t_meta sample_target) = None \<and> Target_IsReady sample_target"
    by code_simp
  obtain w' where run: "?run = ((runtimeRequeue, None), w')" using facts by (cases ?run) simp
  have laws: "status_laws (xc_k8s store_env) stored apply_status" using store_k8s_laws by (simp add: store_env_def)
  have env: "xc_serverResources store_env ?w = (None, ?w)" "\<And>n ns fs w. stored (snd (xc_ApplyFinalizers store_env n ns fs w)) = stored w"
    "k_GetTarget (xc_k8s store_env) (fst ?k) (snd ?k) ?w = (Inr sample_target, ?w)"
    by (simp_all add: store_env_def store_k8s_def sample_k8s_def)
  have "\<forall>c \<in> set (configs_of sample_target (stored w')). cond_Equal (GetCondition (c_conditions c) ConditionTypeReady)
      (ConfigNotReady (xc_now store_env) ConfigReasonTargetRuntimeNotReady (runtime_msg (fst ?ds)))"
    using configs_follow_the_target [OF laws env(2,1,3) run] facts by (simp add: stage_condition_def tc_subject_def)
  then have "\<forall>c \<in> set (configs_of sample_target (stored w')).
      cReason (GetCondition (c_conditions c) ConditionTypeReady) = ConfigReasonTargetRuntimeNotReady"
    by (simp add: cond_Equal_def)
  then show ?thesis using facts unfolding run Let_def by simp
qed

end
