(* ===== verification/SubscriptionController.thy ===== *)
theory SubscriptionController
  imports TargetManager Resource
begin

text \<open>
  The Subscription controller (\<open>pkg/reconcilers/subscription/reconciler.go\<close>): it hands a Subscription to
  the runtimes of the selected targets and takes it back when the Subscription is deleted. The API server
  and the parser of label selectors are arguments; the store of a runtime's paths is that of
  \<open>Subscriptions\<close>.
\<close>

section \<open>State\<close>

record subscription =
  sx_meta :: objmeta
  sx_selector :: string
  sx_port :: "32 word"
  sx_encoding :: "string option"
  sx_subscriptions :: "sub_param list"
  sx_conditions :: "condition list"
  sx_targets :: "string list option"

record ('q, 's, 'w) sc_env =
  sv_Get :: "string \<Rightarrow> string \<Rightarrow> 'w \<Rightarrow> (goerr + subscription) \<times> 'w"
  sv_ApplyFinalizers :: "string \<Rightarrow> string \<Rightarrow> string list \<Rightarrow> 'w \<Rightarrow> goerr option \<times> 'w"
  sv_ApplyStatus :: "string \<Rightarrow> string \<Rightarrow> condition \<Rightarrow> string list option \<Rightarrow> 'w \<Rightarrow> goerr option \<times> 'w"
  sv_Event :: "string \<Rightarrow> string \<Rightarrow> string \<Rightarrow> 'w \<Rightarrow> 'w"
  sv_ListTargets :: "string \<Rightarrow> 'q \<Rightarrow> 'w \<Rightarrow> (goerr + target list) \<times> 'w"
  sv_selectorOf :: "string \<Rightarrow> string + 'q"
  sv_store :: "'s path_store"
  sv_now :: nat

definition sc_finalizer :: string where
  "sc_finalizer = ''subscription.inv.sdcio.dev/finalizer''"

definition sub_of :: "subscription \<Rightarrow> sub_cr" where
  \<comment> \<open>what the runtimes read of the object\<close>
  "sub_of s = \<lparr>scr_namespace = m_namespace (sx_meta s), scr_name = m_name (sx_meta s), scr_port = sx_port s,
     scr_encoding = sx_encoding s, scr_subscriptions = sx_subscriptions s\<rparr>"

section \<open>Status\<close>

definition sc_event :: "('q, 's, 'w) sc_env \<Rightarrow> string \<Rightarrow> string \<Rightarrow> string \<Rightarrow> 'w \<Rightarrow> 'w" where
  \<comment> \<open>a message that is no UTF-8 text makes \<open>RecordEvent\<close> panic; such a run is not followed further\<close>
  "sc_event e typ reason msg w = (case RecordEvent msg of None \<Rightarrow> w | Some note \<Rightarrow> sv_Event e typ reason note w)"

definition sc_handleSuccess ::
  "('q, 's, 'w) sc_env \<Rightarrow> subscription \<Rightarrow> string list option \<Rightarrow> 'w \<Rightarrow> goerr option \<times> 'w" where
  "sc_handleSuccess e state targets w =
     (let newCond = Ready (sv_now e); oldCond = GetCondition (sx_conditions state) ConditionTypeReady in
      if cond_Equal newCond oldCond \<and> targets = sx_targets state then (None, w)
      else let w = sc_event e ''Normal'' ''Subscription'' ''ready'' w;
               (err, w) = sv_ApplyStatus e (m_name (sx_meta state)) (m_namespace (sx_meta state)) newCond targets w in
        (map_option (err_wrap ''cannot update status'') err, w))"

definition sc_handleError ::
  "('q, 's, 'w) sc_env \<Rightarrow> subscription \<Rightarrow> string \<Rightarrow> goerr option \<Rightarrow> 'w \<Rightarrow> goerr option \<times> 'w" where
  "sc_handleError e state msg err w =
     (let msg = (case err of None \<Rightarrow> msg | Some er \<Rightarrow> msg @ '' err '' @ e_msg er);
          newCond = Failed (sv_now e) msg; oldCond = GetCondition (sx_conditions state) ConditionTypeReady in
      if cond_Equal newCond oldCond then (None, w)
      else let w = sc_event e ''Warning'' ''subscription'' msg w;
               (err, w) = sv_ApplyStatus e (m_name (sx_meta state)) (m_namespace (sx_meta state)) newCond None w in
        (map_option (err_wrap ''cannot update status'') err, w))"

section \<open>Reconcile\<close>

definition sc_delete ::
  "('q, 's, 'w) sc_env \<Rightarrow> subscription \<Rightarrow> 'w \<times> 's manager \<Rightarrow> goerr option \<times> 'w \<times> 's manager" where
  \<comment> \<open>the branch of a Subscription that is being deleted\<close>
  "sc_delete e s wm =
     (case RemoveSubscription (sv_store e) (sv_selectorOf e) (sv_ListTargets e) (sx_selector s) (sub_of s) wm of
        (Some err, w, m) \<Rightarrow>
          (let (res, w) = sc_handleError e s ''cannot delete state from target collector'' (Some err) w in (res, w, m))
      | (None, w, m) \<Rightarrow>
          (case RemoveFinalizer sc_finalizer (sv_ApplyFinalizers e) (sx_meta s) w of
             (Some err, w) \<Rightarrow>
               (let (res, w) = sc_handleError e s ''cannot remove finalizer'' (Some err) w in (res, w, m))
           | (None, w) \<Rightarrow> (None, w, m)))"

definition sc_apply ::
  "('q, 's, 'w) sc_env \<Rightarrow> subscription \<Rightarrow> 'w \<times> 's manager \<Rightarrow> goerr option \<times> 'w \<times> 's manager" where
  \<comment> \<open>the other branch\<close>
  "sc_apply e s wm =
     (case AddFinalizer sc_finalizer (sv_ApplyFinalizers e) (sx_meta s) (fst wm) of
        (Some err, w) \<Rightarrow>
          (let (res, w) = sc_handleError e s ''cannot remove finalizer'' (Some err) w in (res, w, snd wm))
      | (None, w) \<Rightarrow>
          (case ApplySubscription (sv_store e) (sv_selectorOf e) (sv_ListTargets e) (sx_selector s) (sub_of s) (w, snd wm) of
             ((targets, Some err), w, m) \<Rightarrow>
               (let (res, w) = sc_handleError e s ''cannot delete state from target collector'' (Some err) w in (res, w, m))
           | ((targets, None), w, m) \<Rightarrow> (let (res, w) = sc_handleSuccess e s targets w in (res, w, m))))"

definition sc_Reconcile ::
  "('q, 's, 'w) sc_env \<Rightarrow> string \<Rightarrow> string \<Rightarrow> 'w \<times> 's manager \<Rightarrow> goerr option \<times> 'w \<times> 's manager" where
  \<comment> \<open>the result never asks for a requeue: only the error is modelled\<close>
  "sc_Reconcile e ns name wm =
     (case sv_Get e ns name (fst wm) of
        (Inl err, w) \<Rightarrow> (map_option (err_wrap ''cannot get cr'') (IgnoreNotFound (Some err)), w, snd wm)
      | (Inr s, w) \<Rightarrow>
          if m_deletionTimestamp (sx_meta s) \<noteq> None then sc_delete e s (w, snd wm) else sc_apply e s (w, snd wm))"

section \<open>What a reconcile does to the runtimes\<close>

lemma for_targets_other:
  assumes "\<forall>tn \<in> set tns. GetRuntimeForTarget (ns, tn) m \<noteq> Some i"
  shows "mg_heap (snd (for_targets op ns tns errs m)) ! i = mg_heap m ! i
    \<and> mg_targets (snd (for_targets op ns tns errs m)) = mg_targets m"
  using assms
proof (induction op ns tns errs m rule: for_targets.induct)
  case (2 op ns tn rest errs m)
  show ?case
  proof (cases "GetRuntimeForTarget (ns, tn) m")
    case None
    with 2 show ?thesis by simp
  next
    case (Some k)
    let ?m = "upd_rt k (\<lambda>r. snd (op r)) m"
    have m: "mg_targets ?m = mg_targets m" by simp
    then have "\<forall>tn \<in> set rest. GetRuntimeForTarget (ns, tn) ?m \<noteq> Some i" using 2(3) by (simp add: GetRuntimeForTarget_def)
    from 2(2) [OF Some this] m 2(3) Some show ?thesis by (auto simp: upd_rt_def)
  qed
qed simp

lemma sc_Reconcile_other:
  assumes get: "sv_Get e ns name w = (Inr s, w1)" and sel: "sv_selectorOf e (sx_selector s) = Inr q"
    and other: "\<And>w items w' t. sv_ListTargets e (m_namespace (sx_meta s)) q w = (Inr items, w') \<Longrightarrow> t \<in> set items \<Longrightarrow>
      m_deletionTimestamp (t_meta t) = None \<Longrightarrow> GetRuntimeForTarget (m_namespace (sx_meta s), m_name (t_meta t)) m \<noteq> Some i"
    and run: "sc_Reconcile e ns name (w, m) = (res, w', m')"
  shows "mg_heap m' ! i = mg_heap m ! i"
proof -
  have loop: "mg_heap m2 ! i = mg_heap m ! i"
    if "for_targets op (m_namespace (sx_meta s)) (sort (map (\<lambda>t. m_name (t_meta t))
          (filter (\<lambda>t. m_deletionTimestamp (t_meta t) = None) items))) None m = (errs, m2)"
      and "sv_ListTargets e (m_namespace (sx_meta s)) q w2 = (Inr items, w3)" for op items errs m2 w2 w3
  proof -
    have "\<forall>tn \<in> set (sort (map (\<lambda>t. m_name (t_meta t)) (filter (\<lambda>t. m_deletionTimestamp (t_meta t) = None) items))).
        GetRuntimeForTarget (m_namespace (sx_meta s), tn) m \<noteq> Some i"
      using other [OF that(2)] by auto
    from for_targets_other [OF this, of op None] that(1) show ?thesis by simp
  qed
  have ns: "scr_namespace (sub_of s) = m_namespace (sx_meta s)" by (simp add: sub_of_def)
  have applied: "mg_heap m2 ! i = mg_heap m ! i"
    if "ApplySubscription (sv_store e) (sv_selectorOf e) (sv_ListTargets e) (sx_selector s) (sub_of s) (w2, m) = (r, w3, m2)" for w2 w3 r m2
    using that loop by (auto simp: ApplySubscription_def getDownstreamTargets_def sel ns split: prod.splits sum.splits)
  have removed: "mg_heap m2 ! i = mg_heap m ! i"
    if "RemoveSubscription (sv_store e) (sv_selectorOf e) (sv_ListTargets e) (sx_selector s) (sub_of s) (w2, m) = (r, w3, m2)" for w2 w3 r m2
    using that loop by (auto simp: RemoveSubscription_def getDownstreamTargets_def sel ns split: prod.splits sum.splits)
  show ?thesis
  proof (cases "m_deletionTimestamp (sx_meta s) = None")
    case True
    with run get have "sc_apply e s (w1, m) = (res, w', m')" by (simp add: sc_Reconcile_def)
    then show ?thesis using applied by (auto simp: sc_apply_def split: prod.splits option.splits)
  next
    case False
    with run get have "sc_delete e s (w1, m) = (res, w', m')" by (simp add: sc_Reconcile_def)
    then show ?thesis using removed by (auto simp: sc_delete_def split: prod.splits option.splits)
  qed
qed

text \<open>A target that a Subscription no longer selects keeps it. The event handler of targets enqueues the
  Subscription when the labels of a target it was applied to change, but no reconcile of it, not even the
  one that deletes the Subscription and gives up its finalizer, touches the runtime of a registered target
  that the selector does not match any more.\<close>

theorem deselected_target_keeps_subscription:
  assumes reach: "run_ops (mg_step s0) evs (w0, NewTargetManager) = (w0', m)"
    and get: "sv_Get e ns name w = (Inr s, w1)" and sel: "sv_selectorOf e (sx_selector s) = Inr q"
    and deselected: "\<forall>w items w'. sv_ListTargets e (m_namespace (sx_meta s)) q w = (Inr items, w') \<longrightarrow>
      tn \<notin> (\<lambda>t. m_name (t_meta t)) ` set items"
    and reg: "GetRuntimeForTarget (m_namespace (sx_meta s), tn) m = Some i"
    and run: "sc_Reconcile e ns name (w, m) = (res, w', m')"
  shows "mg_heap m' ! i = mg_heap m ! i"
proof (rule sc_Reconcile_other [OF get sel _ run])
  fix w items w' t
  assume l: "sv_ListTargets e (m_namespace (sx_meta s)) q w = (Inr items, w')" "t \<in> set items"
  have "mg_inv m" using mg_runs.inv_run [of s0 evs w0] reach by simp
  then have inj: "reg_ok m" by (rule reg_ok_inv)
  show "GetRuntimeForTarget (m_namespace (sx_meta s), m_name (t_meta t)) m \<noteq> Some i"
  proof
    assume "GetRuntimeForTarget (m_namespace (sx_meta s), m_name (t_meta t)) m = Some i"
    then have "m_name (t_meta t) = tn" using inj reg unfolding reg_ok_def GetRuntimeForTarget_def by blast
    then show False using deselected l by blast
  qed
qed

definition leftover :: subscription where
  "leftover = \<lparr>sx_meta = empty_meta\<lparr>m_name := ''a'', m_namespace := ''ns'', m_deletionTimestamp := Some 1,
     m_finalizers := [sc_finalizer]\<rparr>, sx_selector = [], sx_port = 57400, sx_encoding = None, sx_subscriptions = [],
     sx_conditions = [], sx_targets = Some [''t1'']\<rparr>"

definition deselecting :: "(unit, path_subs gomap, nat) sc_env" where
  \<comment> \<open>no target matches any more, and the Subscription is being deleted\<close>
  "deselecting = \<lparr>sv_Get = (\<lambda>ns name w. (Inr leftover, w)),
     sv_ApplyFinalizers = (\<lambda>n ns fs w. (None, w + 1)), sv_ApplyStatus = (\<lambda>n ns c ts w. (None, w)), sv_Event = (\<lambda>a b c w. w),
     sv_ListTargets = (\<lambda>ns q w. (Inr [], w)), sv_selectorOf = (\<lambda>s. Inr ()), sv_store = alist_store, sv_now = 0\<rparr>"

lemma deselected_target_keeps_subscription_witness:
  "let (w, m) = run_ops (mg_step sample_subs0) (take 5 sample_mg_events) (0, NewTargetManager);
       (res, w', m') = sc_Reconcile deselecting ''ns'' ''a'' (w, m) in
     res = None \<and> w' = w + 1 \<and> GetRuntimeForTarget (''ns'', ''t1'') m = Some 0 \<and> mg_heap m' ! 0 = mg_heap m ! 0"
proof -
  let ?reach = "run_ops (mg_step sample_subs0) (take 5 sample_mg_events) (0, NewTargetManager)"
  obtain w m where reach: "?reach = (w, m)" by (rule prod.exhaust)
  obtain res w' m' where run: "sc_Reconcile deselecting ''ns'' ''a'' (w, m) = (res, w', m')" by (rule prod_cases3)
  have "case ?reach of (w, m) \<Rightarrow> GetRuntimeForTarget (''ns'', ''t1'') m = Some 0
      \<and> (case sc_Reconcile deselecting ''ns'' ''a'' (w, m) of (res, w', m') \<Rightarrow> res = None \<and> w' = w + 1)" by code_simp
  then have facts: "GetRuntimeForTarget (''ns'', ''t1'') m = Some 0"
    "res = None" "w' = w + 1" unfolding reach by (simp_all add: run)
  let ?s = leftover
  have get: "sv_Get deselecting ''ns'' ''a'' w = (Inr ?s, w)" and ns: "m_namespace (sx_meta ?s) = ''ns''"
    by (simp_all add: deselecting_def leftover_def)
  have sel: "sv_selectorOf deselecting (sx_selector ?s) = Inr ()" by (simp add: deselecting_def)
  have no: "\<forall>w items w'. sv_ListTargets deselecting (m_namespace (sx_meta ?s)) () w = (Inr items, w') \<longrightarrow>
      ''t1'' \<notin> (\<lambda>t. m_name (t_meta t)) ` set items" by (simp add: deselecting_def)
  have reg: "GetRuntimeForTarget (m_namespace (sx_meta ?s), ''t1'') m = Some 0" using facts(1) unfolding ns .
  have "mg_heap m' ! 0 = mg_heap m ! 0"
    by (rule deselected_target_keeps_subscription [OF reach get sel no reg run])
  then show ?thesis using facts unfolding reach by (simp add: run)
qed

end
