(* ===== verification/Rollout.thy ===== *)
theory Rollout
  imports Resource "HOL-Library.AList"
begin

text \<open>
  Rollouts (\<open>pkg/reconcilers/rollout/transaction.go\<close>): one transaction over all targets. Every target is
  handled by a goroutine; the main goroutine starts them, waits for them or for the global timeout, and
  then confirms or rolls back. A run is a sequence of steps chosen by the scheduler, each with what the
  environment answers in it. The in-memory stores are an argument (\<open>mstore\<close>), with the laws a map has.
\<close>

type_synonym nsn = "string \<times> string"

section \<open>In-memory stores\<close>

record ('v, 's) mstore =
  ms_new :: 's
  ms_get :: "nsn \<Rightarrow> 's \<Rightarrow> goerr + 'v"
  ms_create :: "nsn \<Rightarrow> 'v \<Rightarrow> 's \<Rightarrow> goerr option \<times> 's"
  ms_update :: "nsn \<Rightarrow> 'v \<Rightarrow> 's \<Rightarrow> goerr option \<times> 's"
  ms_delete :: "nsn \<Rightarrow> 's \<Rightarrow> goerr option \<times> 's"
  ms_list :: "'s \<Rightarrow> (nsn \<times> 'v) list"

definition mstore_laws :: "('v, 's) mstore \<Rightarrow> ('s \<Rightarrow> nsn \<rightharpoonup> 'v) \<Rightarrow> bool" where
  \<comment> \<open>a store is a map \<open>look s\<close>: \<open>Update\<close> writes, \<open>Create\<close> writes a key that is absent\<close>
  "mstore_laws st look \<longleftrightarrow> look (ms_new st) = Map.empty
     \<and> (\<forall>k s. ms_get st k s = (case look s k of Some v \<Rightarrow> Inr v | None \<Rightarrow> ms_get st k s) \<and> (isl (ms_get st k s) \<longleftrightarrow> look s k = None))
     \<and> (\<forall>k v s. fst (ms_update st k v s) = None \<and> look (snd (ms_update st k v s)) = (look s)(k \<mapsto> v))
     \<and> (\<forall>k v s. look s k = None \<longrightarrow> fst (ms_create st k v s) = None \<and> look (snd (ms_create st k v s)) = (look s)(k \<mapsto> v))
     \<and> (\<forall>k s. look (snd (ms_delete st k s)) = (look s)(k := None))
     \<and> (\<forall>s. distinct (map fst (ms_list st s)) \<and> map_of (ms_list st s) = look s)"

section \<open>Status of a target\<close>

definition ConditionTypeConfigApply :: string where "ConditionTypeConfigApply = ''ConfigApply''"
definition ConditionTypeConfigConfirm :: string where "ConditionTypeConfigConfirm = ''ConfigConfirm''"
definition ConditionTypeConfigCancel :: string where "ConditionTypeConfigCancel = ''ConfigCancel''"
definition ConditionReasonUnavailable :: string where "ConditionReasonUnavailable = ''Unavailable''"

definition inv_condition :: "nat \<Rightarrow> string \<Rightarrow> string \<Rightarrow> string \<Rightarrow> string \<Rightarrow> condition" where
  \<comment> \<open>the literals of \<open>apis/inv/v1alpha1/condition.go\<close>\<close>
  "inv_condition now typ st reason msg = \<lparr>cType = typ, cStatus = st, cReason = reason, cMessage = msg,
     cObservedGeneration = 0, cLastTransitionTime = now\<rparr>"

definition ConfigApplyReady :: "nat \<Rightarrow> condition" where
  "ConfigApplyReady now = inv_condition now ConditionTypeConfigApply ConditionTrue ConditionReasonReady []"
definition ConfigApplyFailed :: "nat \<Rightarrow> string \<Rightarrow> condition" where
  "ConfigApplyFailed now msg = inv_condition now ConditionTypeConfigApply ConditionFalse ConditionReasonFailed msg"
definition ConfigApplyUnavailable :: "nat \<Rightarrow> string \<Rightarrow> condition" where
  "ConfigApplyUnavailable now msg = inv_condition now ConditionTypeConfigApply ConditionFalse ConditionReasonUnavailable msg"
definition ConfigApplyUnknown :: "nat \<Rightarrow> condition" where
  "ConfigApplyUnknown now = inv_condition now ConditionTypeConfigApply ConditionFalse ConditionReasonUnknown []"
definition ConfigConfirmReady :: "nat \<Rightarrow> condition" where
  "ConfigConfirmReady now = inv_condition now ConditionTypeConfigConfirm ConditionTrue ConditionReasonReady []"
definition ConfigConfirmFailed :: "nat \<Rightarrow> string \<Rightarrow> condition" where
  "ConfigConfirmFailed now msg = inv_condition now ConditionTypeConfigConfirm ConditionFalse ConditionReasonFailed msg"
definition ConfigCancelReady :: "nat \<Rightarrow> condition" where
  "ConfigCancelReady now = inv_condition now ConditionTypeConfigCancel ConditionTrue ConditionReasonReady []"
definition ConfigCancelFailed :: "nat \<Rightarrow> string \<Rightarrow> condition" where
  "ConfigCancelFailed now msg = inv_condition now ConditionTypeConfigCancel ConditionFalse ConditionReasonFailed msg"

record rollout_target_status =
  rts_name :: string
  rts_conditions :: "condition list"

definition rts_set :: "condition \<Rightarrow> rollout_target_status \<Rightarrow> rollout_target_status" where
  "rts_set c s = s\<lparr>rts_conditions := SetConditions (rts_conditions s) [c]\<rparr>"

definition nsn_string :: "nsn \<Rightarrow> string" where "nsn_string k = fst k @ ''/'' @ snd k"

definition rts_new :: "nsn \<Rightarrow> condition \<Rightarrow> rollout_target_status" where
  "rts_new k c = rts_set c \<lparr>rts_name = nsn_string k, rts_conditions = []\<rparr>"

definition apply_succeeded :: "rollout_target_status \<Rightarrow> bool" where
  \<comment> \<open>the test of \<open>RollbackTargets\<close> and \<open>ConfirmTargets\<close>\<close>
  "apply_succeeded s \<longleftrightarrow> cReason (GetCondition (rts_conditions s) ConditionTypeConfigApply) \<noteq> ConditionReasonUnavailable
     \<and> cStatus (GetCondition (rts_conditions s) ConditionTypeConfigApply) = ConditionTrue"

section \<open>Finishing a transaction\<close>

text \<open>
  A call stands for the call of \<open>applyConfigToTarget\<close>, \<open>confirm\<close> or \<open>cancel\<close>, each of which sends one request
  to the data-server from a goroutine of its own and waits for the answer or its timeout.
\<close>

datatype ro_call = RoSet nsn "unit tx_request" | RoConfirm nsn | RoCancel nsn

datatype ro_answer = Answered "goerr option" | Expired

text \<open>The \<open>select\<close> of the three: the data-server answered first, or the target's timeout or the context's end came first.\<close>

definition ro_await :: "string \<Rightarrow> nsn \<Rightarrow> ro_answer \<Rightarrow> goerr option" where
  "ro_await what t a = (case a of Answered res \<Rightarrow> res
     | Expired \<Rightarrow> Some (err_new (''transaction timeout reached before '' @ what @ nsn_string t)))"

definition ro_cancel :: "nsn \<Rightarrow> ro_answer \<Rightarrow> goerr option" where
  "ro_cancel t a = ro_await ''cancelling transaction to '' t a"

definition ro_confirm :: "nsn \<Rightarrow> ro_answer \<Rightarrow> goerr option" where
  "ro_confirm t a = ro_await ''confirming transaction to '' t a"

definition applyConfigToTarget :: "nsn \<Rightarrow> ro_answer \<Rightarrow> goerr option" where
  "applyConfigToTarget t a = ro_await ''applying config to '' t a"

record ('s, 'e) ro_env =
  re_store :: "(rollout_target_status, 's) mstore"
  re_now :: nat
  re_keyString :: "nsn \<Rightarrow> string"
  re_transactionID :: string
  re_confirm :: "'e \<Rightarrow> nsn \<Rightarrow> ro_answer"
  re_cancel :: "'e \<Rightarrow> nsn \<Rightarrow> ro_answer"

text \<open>
  \<open>re_confirm\<close> and \<open>re_cancel\<close>: how the data-server answers \<open>confirm\<close> and \<open>cancel\<close> for a target under the circumstances \<open>'e\<close>. Their goroutines touch one key each
  and are all waited for, so they are taken one after the other, in the order \<open>ts\<close>.
\<close>

fun RollbackTargets ::
  "('s, 'e) ro_env \<Rightarrow> 'e \<Rightarrow> nsn list \<Rightarrow> 's \<times> ro_call list \<Rightarrow> 's \<times> ro_call list" where
  "RollbackTargets e x [] sl = sl"
| "RollbackTargets e x (t # ts) (s, l) =
     (case ms_get (re_store e) t s of
        Inl err \<Rightarrow> RollbackTargets e x ts (snd (ms_update (re_store e) t (rts_new t (ConfigApplyUnknown (re_now e))) s), l)
      | Inr st \<Rightarrow>
          if apply_succeeded st
          then let st = (case ro_cancel t (re_cancel e x t) of Some err \<Rightarrow> rts_set (ConfigCancelFailed (re_now e) (e_msg err)) st
                          | None \<Rightarrow> rts_set (ConfigCancelReady (re_now e)) st) in
            RollbackTargets e x ts (snd (ms_update (re_store e) t st s), l @ [RoCancel t])
          else RollbackTargets e x ts (s, l))"

fun ConfirmTargets ::
  "('s, 'e) ro_env \<Rightarrow> 'e \<Rightarrow> nsn list \<Rightarrow> goerr option \<Rightarrow> 's \<times> ro_call list \<Rightarrow> goerr option \<times> 's \<times> ro_call list" where
  "ConfirmTargets e x [] errs sl = (errs, sl)"
| "ConfirmTargets e x (t # ts) errs (s, l) =
     (case ms_get (re_store e) t s of
        Inl err \<Rightarrow> ConfirmTargets e x ts errs (snd (ms_update (re_store e) t (rts_new t (ConfigApplyUnknown (re_now e))) s), l)
      | Inr st \<Rightarrow>
          if apply_succeeded st
          then let res = ro_confirm t (re_confirm e x t);
                   st = (case res of Some err \<Rightarrow> rts_set (ConfigConfirmFailed (re_now e) (e_msg err)) st
                          | None \<Rightarrow> rts_set (ConfigConfirmReady (re_now e)) st) in
            ConfirmTargets e x ts (err_join errs res) (snd (ms_update (re_store e) t st s), l @ [RoConfirm t])
          else ConfirmTargets e x ts errs (s, l))"

section \<open>Running a transaction\<close>

datatype go_pc = GoStart | GoApplied "goerr option" | GoReport goerr | GoDone

datatype main_pc = MLoop "nsn list" | MWait | MReturned "goerr option"

record 's ro_sys =
  rs_main :: main_pc
  rs_gos :: "(nsn \<times> go_pc) list"
  rs_store :: 's
  rs_errChan :: "goerr list"
  rs_ctxDone :: bool
  rs_log :: "ro_call list"
  rs_skip :: bool

text \<open>\<open>rs_gos\<close>: the goroutines started so far, in that order.\<close>

definition ro_init :: "('s, 'e) ro_env \<Rightarrow> bool \<Rightarrow> nsn list \<Rightarrow> 's ro_sys" where
  \<comment> \<open>\<open>ts\<close>: the targets in the order of \<open>UnsortedList\<close>\<close>
  "ro_init e skip ts = \<lparr>rs_main = MLoop ts, rs_gos = [], rs_store = ms_new (re_store e), rs_errChan = [], rs_ctxDone = False,
     rs_log = [], rs_skip = skip\<rparr>"

definition unavailable :: "('s, 'e) ro_env \<Rightarrow> nsn \<Rightarrow> nsn list \<Rightarrow> string \<Rightarrow> string \<Rightarrow> 's ro_sys \<Rightarrow> 's ro_sys" where
  "unavailable e t ts msg what y =
     (let y = y\<lparr>rs_store := snd (ms_update (re_store e) t (rts_new t (ConfigApplyUnavailable (re_now e) msg)) (rs_store y))\<rparr> in
      if rs_skip y
      then y\<lparr>rs_ctxDone := True, rs_main := MReturned (Some (err_new
             (''transaction aborted: target '' @ nsn_string t @ what)))\<rparr>
      else y\<lparr>rs_main := MLoop ts\<rparr>)"

definition main_select :: "('s, 'e) ro_env \<Rightarrow> bool \<Rightarrow> 'e \<Rightarrow> nsn list \<Rightarrow> 's ro_sys \<Rightarrow> 's ro_sys" where
  \<comment> \<open>the final \<open>select\<close>; with neither case ready it waits\<close>
  "main_select e timeout x order y =
      (if rs_ctxDone y \<and> timeout
       then let (s, l) = RollbackTargets e x order (rs_store y, rs_log y) in
         y\<lparr>rs_store := s, rs_log := l, rs_main := MReturned (Some (err_new ''target transaction timed out''))\<rparr>
       else if list_all (\<lambda>g. snd g = GoDone) (rs_gos y)
       then (case rs_errChan y of
           err # errs \<Rightarrow>
             (let (s, l) = RollbackTargets e x order (rs_store y, rs_log y) in
              y\<lparr>rs_store := s, rs_log := l, rs_errChan := errs,
                rs_main := MReturned (Some (err_wrap ''target transaction failed'' err))\<rparr>)
         | [] \<Rightarrow>
             (let (err, s, l) = ConfirmTargets e x order None (rs_store y, rs_log y) in
              y\<lparr>rs_store := s, rs_log := l, rs_main := MReturned err\<rparr>))
       else y)"

definition main_step ::
  "('s, 'e) ro_env \<Rightarrow> goerr + bool \<Rightarrow> bool \<Rightarrow> 'e \<Rightarrow> nsn list \<Rightarrow> 's ro_sys \<Rightarrow> 's ro_sys" where
  \<comment> \<open>\<open>ready\<close>: the answer of \<open>Get\<close>, with \<open>IsReady\<close>; \<open>timeout\<close>: the \<open>select\<close> takes \<open>ctx.Done()\<close>; \<open>order\<close>: the order in
      which the targets are visited in the end\<close>
  "main_step e ready timeout x order y =
     (case rs_main y of
        MLoop [] \<Rightarrow> y\<lparr>rs_main := MWait\<rparr>
      | MLoop (t # ts) \<Rightarrow>
          (case ready of
             Inl err \<Rightarrow> unavailable e t ts (''target unavailable '' @ e_msg err) '' is unavailable'' y
           | Inr r \<Rightarrow>
               if \<not> r then unavailable e t ts ''target not ready'' '' is not ready'' y
               else y\<lparr>rs_gos := rs_gos y @ [(t, GoStart)], rs_main := MLoop ts\<rparr>)
      | MWait \<Rightarrow> main_select e timeout x order y
      | MReturned err \<Rightarrow> y)"

definition apply_request :: "('s, 'e) ro_env \<Rightarrow> nsn \<Rightarrow> unit tx_request" where
  \<comment> \<open>the request of \<open>applyConfigToTarget\<close>: the updates and deletes it collects are not put into it\<close>
  "apply_request e t = \<lparr>tq_transactionId = re_transactionID e, tq_datastoreName = re_keyString e t, tq_dryRun = False,
     tq_timeout = None, tq_intents = []\<rparr>"

definition go_step :: "('s, 'e) ro_env \<Rightarrow> nat \<Rightarrow> ro_answer \<Rightarrow> 's ro_sys \<Rightarrow> 's ro_sys" where
  \<comment> \<open>a step of the \<open>i\<close>-th goroutine; \<open>a\<close>: the answer \<open>applyConfigToTarget\<close> gets if it is called in it\<close>
  "go_step e i a y =
     (if \<not> i < length (rs_gos y) then y
      else let (t, pc) = rs_gos y ! i; st = re_store e; now = re_now e in
        case pc of
          GoStart \<Rightarrow>
            (if rs_ctxDone y
             then y\<lparr>rs_store := snd (ms_update st t (rts_new t (ConfigApplyFailed now ''transaction timeout'')) (rs_store y)),
                    rs_gos := (rs_gos y)[i := (t, GoDone)]\<rparr>
             else y\<lparr>rs_log := rs_log y @ [RoSet t (apply_request e t)], rs_gos := (rs_gos y)[i := (t, GoApplied (applyConfigToTarget t a))]\<rparr>)
        | GoApplied (Some err) \<Rightarrow>
            y\<lparr>rs_store := snd (ms_update st t (rts_new t (ConfigApplyFailed now (e_msg err))) (rs_store y)),
              rs_gos := (rs_gos y)[i := (t, GoReport err)]\<rparr>
        | GoApplied None \<Rightarrow>
            y\<lparr>rs_store := snd (ms_update st t (rts_new t (ConfigApplyReady now)) (rs_store y)),
              rs_gos := (rs_gos y)[i := (t, GoDone)]\<rparr>
        | GoReport err \<Rightarrow>
            y\<lparr>rs_errChan := rs_errChan y @ [err_wrap (''target '' @ nsn_string t @ '' failed'') err],
              rs_gos := (rs_gos y)[i := (t, GoDone)]\<rparr>
        | GoDone \<Rightarrow> y)"

datatype 'e ro_op = RoMain "goerr + bool" bool 'e "nsn list" | RoGo nat ro_answer | RoTimeout

fun ro_step :: "('s, 'e) ro_env \<Rightarrow> 'e ro_op \<Rightarrow> 's ro_sys \<Rightarrow> 's ro_sys" where
  "ro_step e (RoMain ready timeout x order) y = main_step e ready timeout x order y"
| "ro_step e (RoGo i a) y = go_step e i a y"
| "ro_step e RoTimeout y = y\<lparr>rs_ctxDone := True\<rparr>"

section \<open>All or nothing\<close>

definition succ_at :: "('s \<Rightarrow> nsn \<rightharpoonup> rollout_target_status) \<Rightarrow> 's \<Rightarrow> nsn \<Rightarrow> bool" where
  "succ_at look s t = (case look s t of None \<Rightarrow> False | Some st \<Rightarrow> apply_succeeded st)"

lemma mstore_lawsD:
  assumes "mstore_laws st look"
  shows "look (ms_new st) = Map.empty" "look (snd (ms_update st k v s)) = (look s)(k \<mapsto> v)"
    "look s k = Some v \<Longrightarrow> ms_get st k s = Inr v" "look s k = None \<Longrightarrow> \<exists>err. ms_get st k s = Inl err"
proof -
  have g: "ms_get st k s = (case look s k of Some v \<Rightarrow> Inr v | None \<Rightarrow> ms_get st k s)" "isl (ms_get st k s) \<longleftrightarrow> look s k = None"
    using assms unfolding mstore_laws_def by blast+
  show "look s k = Some v \<Longrightarrow> ms_get st k s = Inr v" using g(1) by simp
  show "look s k = None \<Longrightarrow> \<exists>err. ms_get st k s = Inl err" using g(2) by (simp add: isl_def)
  show "look (ms_new st) = Map.empty" "look (snd (ms_update st k v s)) = (look s)(k \<mapsto> v)"
    using assms unfolding mstore_laws_def by blast+
qed

lemma rollout_types [simp]:
  "ConditionTypeConfigApply \<noteq> ConditionTypeConfigConfirm" "ConditionTypeConfigApply \<noteq> ConditionTypeConfigCancel"
  "ConditionTypeConfigConfirm \<noteq> ConditionTypeConfigApply" "ConditionTypeConfigCancel \<noteq> ConditionTypeConfigApply"
  by (simp_all add: ConditionTypeConfigApply_def ConditionTypeConfigConfirm_def ConditionTypeConfigCancel_def)

lemma apply_succeeded_simps [simp]:
  "apply_succeeded (rts_new t (ConfigApplyReady now))" "\<not> apply_succeeded (rts_new t (ConfigApplyFailed now msg))"
  "\<not> apply_succeeded (rts_new t (ConfigApplyUnavailable now msg))" "\<not> apply_succeeded (rts_new t (ConfigApplyUnknown now))"
  by (simp_all add: apply_succeeded_def rts_new_def rts_set_def SetConditions_def SetCondition_def ConfigApplyReady_def
      ConfigApplyFailed_def ConfigApplyUnavailable_def ConfigApplyUnknown_def inv_condition_def ConditionReasonUnavailable_def
      ConditionReasonReady_def ConditionTrue_def ConditionFalse_def)

lemma apply_succeeded_set [simp]:
  "apply_succeeded (rts_set (ConfigCancelReady now) st) = apply_succeeded st"
  "apply_succeeded (rts_set (ConfigCancelFailed now msg) st) = apply_succeeded st"
  "apply_succeeded (rts_set (ConfigConfirmReady now) st) = apply_succeeded st"
  "apply_succeeded (rts_set (ConfigConfirmFailed now msg) st) = apply_succeeded st"
  by (simp_all add: apply_succeeded_def rts_set_def SetConditions_def GetCondition_SetCondition_other inv_condition_def
      ConfigCancelReady_def ConfigCancelFailed_def ConfigConfirmReady_def ConfigConfirmFailed_def)

lemma succ_at_update:
  assumes "mstore_laws st look"
  shows "succ_at look (snd (ms_update st k v s)) t = (if t = k then apply_succeeded v else succ_at look s t)"
  using mstore_lawsD(2) [OF assms, of k v s] by (simp add: succ_at_def)

lemma succ_at_look: "look s t = None \<Longrightarrow> \<not> succ_at look s t" "look s t = Some st \<Longrightarrow> succ_at look s t = apply_succeeded st"
  by (simp_all add: succ_at_def)

declare split_paired_All [simp del] split_paired_Ex [simp del]

lemma RollbackTargets_spec:
  assumes laws: "mstore_laws (re_store e) look"
  shows "distinct order \<Longrightarrow> RollbackTargets e x order (s, l) = (s', l') \<Longrightarrow>
    l' = l @ map RoCancel (filter (succ_at look s) order) \<and> (\<forall>t. succ_at look s' t = succ_at look s t)"
proof (induction order arbitrary: s l)
  case (Cons t ts)
  let ?step = "\<lambda>v. snd (ms_update (re_store e) t v s)"
  have same: "filter (succ_at look s1) ts = filter (succ_at look s) ts" if "\<forall>t. succ_at look s1 t = succ_at look s t" for s1
    using ext [of "succ_at look s1" "succ_at look s", OF spec [OF that]] by (rule arg_cong)
  show ?case
  proof (cases "look s t")
    case None
    let ?u = "?step (rts_new t (ConfigApplyUnknown (re_now e)))"
    from None obtain err where g: "ms_get (re_store e) t s = Inl err" using mstore_lawsD(4) [OF laws] by blast
    have upd: "\<forall>t'. succ_at look ?u t' = succ_at look s t'" using None by (simp add: succ_at_update [OF laws] succ_at_look)
    have "RollbackTargets e x ts (?u, l) = (s', l')" using Cons.prems(2) g by simp
    with Cons.IH [of ?u l] Cons.prems(1) upd same [OF upd] None show ?thesis by (simp add: succ_at_look)
  next
    case (Some st)
    then have g: "ms_get (re_store e) t s = Inr st" by (rule mstore_lawsD(3) [OF laws])
    show ?thesis
    proof (cases "apply_succeeded st")
      case False
      with Cons g Some show ?thesis by (simp add: succ_at_look)
    next
      case True
      let ?v = "case ro_cancel t (re_cancel e x t) of Some err \<Rightarrow> rts_set (ConfigCancelFailed (re_now e) (e_msg err)) st
         | None \<Rightarrow> rts_set (ConfigCancelReady (re_now e)) st"
      have upd: "\<forall>t'. succ_at look (?step ?v) t' = succ_at look s t'"
        using Some True by (simp add: succ_at_update [OF laws] succ_at_look split: option.split)
      have run: "RollbackTargets e x ts (?step ?v, l @ [RoCancel t]) = (s', l')"
        using Cons.prems(2) g True by simp
      have d: "distinct ts" using Cons.prems(1) by simp
      have "l' = (l @ [RoCancel t]) @ map RoCancel (filter (succ_at look s) ts)"
        using Cons.IH [of "?step ?v" "l @ [RoCancel t]"] d run unfolding same [OF upd] by blast
      moreover have "\<forall>t'. succ_at look s' t' = succ_at look s t'"
        using Cons.IH [of "?step ?v" "l @ [RoCancel t]"] d run upd by metis
      ultimately show ?thesis using Some True by (simp add: succ_at_look)
    qed
  qed
qed simp

lemma ConfirmTargets_spec:
  assumes laws: "mstore_laws (re_store e) look"
  shows "distinct order \<Longrightarrow> ConfirmTargets e x order errs (s, l) = (err, s', l') \<Longrightarrow>
    l' = l @ map RoConfirm (filter (succ_at look s) order) \<and> (\<forall>t. succ_at look s' t = succ_at look s t)"
proof (induction order arbitrary: errs s l)
  case (Cons t ts)
  let ?step = "\<lambda>v. snd (ms_update (re_store e) t v s)"
  have same: "filter (succ_at look s1) ts = filter (succ_at look s) ts" if "\<forall>t. succ_at look s1 t = succ_at look s t" for s1
    using ext [of "succ_at look s1" "succ_at look s", OF spec [OF that]] by (rule arg_cong)
  show ?case
  proof (cases "look s t")
    case None
    let ?u = "?step (rts_new t (ConfigApplyUnknown (re_now e)))"
    from None obtain er where g: "ms_get (re_store e) t s = Inl er" using mstore_lawsD(4) [OF laws] by blast
    have upd: "\<forall>t'. succ_at look ?u t' = succ_at look s t'" using None by (simp add: succ_at_update [OF laws] succ_at_look)
    have "ConfirmTargets e x ts errs (?u, l) = (err, s', l')" using Cons.prems(2) g by simp
    with Cons.IH [of errs ?u l] Cons.prems(1) upd same [OF upd] None show ?thesis by (simp add: succ_at_look)
  next
    case (Some st)
    then have g: "ms_get (re_store e) t s = Inr st" by (rule mstore_lawsD(3) [OF laws])
    show ?thesis
    proof (cases "apply_succeeded st")
      case False
      with Cons g Some show ?thesis by (simp add: succ_at_look)
    next
      case True
      let ?v = "case ro_confirm t (re_confirm e x t) of Some err \<Rightarrow> rts_set (ConfigConfirmFailed (re_now e) (e_msg err)) st
         | None \<Rightarrow> rts_set (ConfigConfirmReady (re_now e)) st"
      have upd: "\<forall>t'. succ_at look (?step ?v) t' = succ_at look s t'"
        using Some True by (simp add: succ_at_update [OF laws] succ_at_look split: option.split)
      have run: "ConfirmTargets e x ts (err_join errs (ro_confirm t (re_confirm e x t))) (?step ?v, l @ [RoConfirm t]) = (err, s', l')"
        using Cons.prems(2) g True by (simp add: Let_def)
      have d: "distinct ts" using Cons.prems(1) by simp
      have "l' = (l @ [RoConfirm t]) @ map RoConfirm (filter (succ_at look s) ts)"
        using Cons.IH [of "err_join errs (ro_confirm t (re_confirm e x t))" "?step ?v" "l @ [RoConfirm t]"] d run unfolding same [OF upd] by blast
      moreover have "\<forall>t'. succ_at look s' t' = succ_at look s t'"
        using Cons.IH [of "err_join errs (ro_confirm t (re_confirm e x t))" "?step ?v" "l @ [RoConfirm t]"] d run upd by metis
      ultimately show ?thesis using Some True by (simp add: succ_at_look)
    qed
  qed
qed simp

definition ro_sets :: "('s, 'e) ro_env \<Rightarrow> nsn list \<Rightarrow> ro_call list" where
  "ro_sets e sent = map (\<lambda>t. RoSet t (apply_request e t)) sent"

definition ro_sent :: "(nsn \<rightharpoonup> go_pc) \<Rightarrow> nsn set" where
  "ro_sent pcs = {t. \<exists>pc. pcs t = Some pc \<and> pc \<noteq> GoStart}"

definition ro_track :: "('s \<Rightarrow> nsn \<rightharpoonup> rollout_target_status) \<Rightarrow> (nsn \<rightharpoonup> go_pc) \<Rightarrow> 's \<Rightarrow> goerr list \<Rightarrow> bool" where
  \<comment> \<open>the store and the channel of errors agree with the goroutines that have ended\<close>
  "ro_track look pcs s errs \<longleftrightarrow> (\<forall>t. succ_at look s t \<longrightarrow> pcs t = Some GoDone)
     \<and> (\<forall>t. pcs t = Some GoDone \<longrightarrow> \<not> succ_at look s t \<longrightarrow> errs \<noteq> [])
     \<and> (errs \<noteq> [] \<longrightarrow> (\<exists>t. pcs t = Some GoDone \<and> \<not> succ_at look s t))"

definition ro_going :: "('s, 'e) ro_env \<Rightarrow> ('s \<Rightarrow> nsn \<rightharpoonup> rollout_target_status) \<Rightarrow> nsn list \<Rightarrow> nsn list \<Rightarrow> 's ro_sys \<Rightarrow> bool" where
  "ro_going e look ts rest y \<longleftrightarrow> distinct (map fst (rs_gos y) @ rest) \<and> set (map fst (rs_gos y) @ rest) \<subseteq> set ts
     \<and> (\<exists>sent. rs_log y = ro_sets e sent \<and> distinct sent \<and> set sent = ro_sent (map_of (rs_gos y)))
     \<and> ro_track look (map_of (rs_gos y)) (rs_store y) (rs_errChan y)"

definition ro_result :: "('s, 'e) ro_env \<Rightarrow> ('s \<Rightarrow> nsn \<rightharpoonup> rollout_target_status) \<Rightarrow> nsn list \<Rightarrow> goerr option \<Rightarrow> 's ro_sys \<Rightarrow> bool" where
  "ro_result e look ts err y \<longleftrightarrow> (\<exists>sent order. distinct sent \<and> set sent \<subseteq> set ts \<and> distinct order \<and> set order = set ts
     \<and> (if \<forall>t \<in> set sent. succ_at look (rs_store y) t
        then rs_log y = ro_sets e sent @ map RoConfirm (filter (\<lambda>t. t \<in> set sent) order)
        else err \<noteq> None \<and> rs_log y = ro_sets e sent
          @ map RoCancel (filter (\<lambda>t. t \<in> set sent \<and> succ_at look (rs_store y) t) order)))"

definition ro_inv :: "('s, 'e) ro_env \<Rightarrow> ('s \<Rightarrow> nsn \<rightharpoonup> rollout_target_status) \<Rightarrow> nsn list \<Rightarrow> 's ro_sys \<Rightarrow> bool" where
  "ro_inv e look ts y \<longleftrightarrow> rs_ctxDone y \<or> (case rs_main y of MLoop rest \<Rightarrow> ro_going e look ts rest y | MWait \<Rightarrow> ro_going e look ts [] y
     | MReturned err \<Rightarrow> ro_result e look ts err y \<and> list_all (\<lambda>g. snd g = GoDone) (rs_gos y))"

lemma map_of_list_update:
  assumes "distinct (map fst xs)" "i < length xs" "xs ! i = (k, v)"
  shows "map_of (xs[i := (k, w)]) = (map_of xs)(k \<mapsto> w)"
proof -
  have k: "map fst (xs[i := (k, w)]) = map fst xs"
    using assms(2,3) by (simp add: map_update list_update_same_conv)
  show ?thesis
  proof
    fix k'
    show "map_of (xs[i := (k, w)]) k' = ((map_of xs)(k \<mapsto> w)) k'"
    proof (cases "k' = k")
      case True
      have "(k, w) \<in> set (xs[i := (k, w)])" using assms(2) by (rule set_update_memI)
      with True k assms(1) show ?thesis by simp
    next
      case False
      have "(k', u) \<in> set (xs[i := (k, w)]) \<longleftrightarrow> (k', u) \<in> set xs" for u
        using False assms(2,3) by (auto simp: in_set_conv_nth nth_list_update split: if_splits) (metis Pair_inject)
      then have "map_of (xs[i := (k, w)]) k' = Some u \<longleftrightarrow> map_of xs k' = Some u" for u
        using k assms(1) by simp
      then have "map_of (xs[i := (k, w)]) k' = map_of xs k'" by (metis not_Some_eq)
      then show ?thesis using False by simp
    qed
  qed
qed

lemma ro_inv_init: "distinct ts \<Longrightarrow> mstore_laws (re_store e) look \<Longrightarrow> ro_inv e look ts (ro_init e skip ts)"
  by (simp add: ro_inv_def ro_going_def ro_init_def ro_sets_def ro_sent_def ro_track_def succ_at_def mstore_lawsD(1))

lemma ro_done_step: "rs_ctxDone y \<Longrightarrow> rs_ctxDone (ro_step e op y)"
  by (cases op) (auto simp: main_step_def main_select_def go_step_def unavailable_def Let_def split: main_pc.split list.split sum.split
      go_pc.split option.split prod.split)

lemma ro_track_ext:
  assumes tr: "ro_track look pcs s errs" and t: "pcs t \<noteq> Some GoDone" and o: "\<And>t'. t' \<noteq> t \<Longrightarrow> succ_at look s' t' = succ_at look s t'"
    and pc: "succ_at look s' t \<and> pc = GoDone \<and> errs' = errs \<or> \<not> succ_at look s' t \<and> (if pc = GoDone then errs' \<noteq> [] else errs' = errs)"
  shows "ro_track look (pcs(t \<mapsto> pc)) s' errs'"
proof (cases "\<not> succ_at look s' t \<and> pc = GoDone")
  case True
  then show ?thesis using tr o pc unfolding ro_track_def by (auto simp: fun_upd_apply)
next
  case False
  then have e: "errs' = errs" "succ_at look s' t \<longleftrightarrow> pc = GoDone" using pc by auto
  show ?thesis unfolding ro_track_def e(1)
  proof (intro conjI allI impI)
    fix t' assume "succ_at look s' t'"
    then show "(pcs(t \<mapsto> pc)) t' = Some GoDone" using tr o e(2) unfolding ro_track_def by (cases "t' = t") auto
  next
    fix t' assume "(pcs(t \<mapsto> pc)) t' = Some GoDone" "\<not> succ_at look s' t'"
    then show "errs \<noteq> []" using tr o e(2) unfolding ro_track_def by (cases "t' = t") auto
  next
    assume "errs \<noteq> []"
    then obtain t' where t': "pcs t' = Some GoDone" "\<not> succ_at look s t'" using tr unfolding ro_track_def by blast
    then have "t' \<noteq> t" using t by blast
    with t' o have "(pcs(t \<mapsto> pc)) t' = Some GoDone \<and> \<not> succ_at look s' t'" by simp
    then show "\<exists>t'. (pcs(t \<mapsto> pc)) t' = Some GoDone \<and> \<not> succ_at look s' t'" by blast
  qed
qed

lemma ro_sent_update:
  "pcs t = Some pc \<Longrightarrow> pc \<noteq> GoStart \<Longrightarrow> pc' \<noteq> GoStart \<Longrightarrow> ro_sent (pcs(t \<mapsto> pc')) = ro_sent pcs"
  "pc' \<noteq> GoStart \<Longrightarrow> ro_sent (pcs(t \<mapsto> pc')) = insert t (ro_sent pcs)"
  "pcs t = None \<Longrightarrow> ro_sent (pcs(t \<mapsto> GoStart)) = ro_sent pcs"
  by (auto simp: ro_sent_def split: if_splits)

lemma ro_going_go:
  assumes laws: "mstore_laws (re_store e) look" and inv: "ro_going e look ts rest y" and "\<not> rs_ctxDone y"
  shows "ro_going e look ts rest (go_step e i a y)"
proof (cases "i < length (rs_gos y)")
  case True
  obtain t pc where g: "rs_gos y ! i = (t, pc)" by (rule prod.exhaust)
  let ?pcs = "map_of (rs_gos y)"
  have d: "distinct (map fst (rs_gos y))" "distinct (map fst (rs_gos y) @ rest)" "set (map fst (rs_gos y) @ rest) \<subseteq> set ts"
    using inv unfolding ro_going_def by simp_all
  have keys: "map fst ((rs_gos y)[i := (t, pc')]) = map fst (rs_gos y)" for pc'
    using True g by (simp add: map_update list_update_same_conv)
  have pcs: "map_of ((rs_gos y)[i := (t, pc')]) = ?pcs(t \<mapsto> pc')" for pc' by (rule map_of_list_update [OF d(1) True g])
  have at: "?pcs t = Some pc" using d(1) True g by (metis map_of_is_SomeI nth_mem)
  obtain sent where log: "rs_log y = ro_sets e sent" "distinct sent" "set sent = ro_sent ?pcs" and tr: "ro_track look ?pcs (rs_store y) (rs_errChan y)"
    using inv unfolding ro_going_def by blast
  have going: "ro_going e look ts rest y'"
    if "rs_gos y' = (rs_gos y)[i := (t, pc')]" "rs_log y' = ro_sets e sent'" "distinct sent'" "set sent' = ro_sent (?pcs(t \<mapsto> pc'))"
      "ro_track look (?pcs(t \<mapsto> pc')) (rs_store y') (rs_errChan y')" for y' pc' sent'
    using that d(2,3) unfolding ro_going_def by (simp only: keys pcs) blast
  have undone: "\<not> succ_at look (rs_store y) t" if "pc \<noteq> GoDone" using tr that at unfolding ro_track_def by auto
  note upd = succ_at_update [OF laws]
  show ?thesis
  proof (cases pc)
    case GoStart
    then have new: "t \<notin> set sent" using at log(3) by (simp add: ro_sent_def)
    have "ro_track look (?pcs(t \<mapsto> GoApplied (applyConfigToTarget t a))) (rs_store y) (rs_errChan y)"
      by (rule ro_track_ext [OF tr]) (use at GoStart undone in simp_all)
    then show ?thesis using True g GoStart assms(3) log new
      by (intro going [of _ "GoApplied (applyConfigToTarget t a)" "sent @ [t]"]) (simp_all add: go_step_def ro_sets_def ro_sent_update(2))
  next
    case (GoApplied r)
    show ?thesis
    proof (cases r)
      case None
      have "ro_track look (?pcs(t \<mapsto> GoDone)) (rs_store (go_step e i a y)) (rs_errChan y)"
        by (rule ro_track_ext [OF tr]) (use at True g GoApplied None in \<open>simp_all add: go_step_def upd\<close>)
      then show ?thesis using True g GoApplied None log at
        by (intro going [of _ GoDone sent]) (simp_all add: go_step_def ro_sent_update(1))
    next
      case (Some err)
      have "ro_track look (?pcs(t \<mapsto> GoReport err)) (rs_store (go_step e i a y)) (rs_errChan y)"
        by (rule ro_track_ext [OF tr]) (use at True g GoApplied Some in \<open>simp_all add: go_step_def upd\<close>)
      then show ?thesis using True g GoApplied Some log at
        by (intro going [of _ "GoReport err" sent]) (simp_all add: go_step_def ro_sent_update(1))
    qed
  next
    case (GoReport err)
    have "ro_track look (?pcs(t \<mapsto> GoDone)) (rs_store y) (rs_errChan (go_step e i a y))"
      by (rule ro_track_ext [OF tr]) (use at True g GoReport undone in \<open>simp_all add: go_step_def\<close>)
    then show ?thesis using True g GoReport log at
      by (intro going [of _ GoDone sent]) (simp_all add: go_step_def ro_sent_update(1))
  next
    case GoDone
    then show ?thesis using True g inv by (simp add: go_step_def)
  qed
qed (use inv in \<open>simp add: go_step_def\<close>)

definition ro_op_ok :: "nsn list \<Rightarrow> 'e ro_op \<Rightarrow> bool" where
  \<comment> \<open>in the end the main goroutine visits every target once, in some order\<close>
  "ro_op_ok ts op \<longleftrightarrow> (case op of RoMain ready timeout x order \<Rightarrow> distinct order \<and> set order = set ts | _ \<Rightarrow> True)"

lemma ro_track_same: "ro_track look pcs s errs \<Longrightarrow> \<forall>t. succ_at look s' t = succ_at look s t \<Longrightarrow> ro_track look pcs s' errs"
  by (simp add: ro_track_def)

lemma ro_going_unavailable:
  assumes laws: "mstore_laws (re_store e) look" and inv: "ro_going e look ts (t # rest) y" and skip: "\<not> rs_skip y"
  shows "ro_going e look ts rest (unavailable e t rest msg what y)"
proof -
  let ?y = "unavailable e t rest msg what y"
  have keep: "rs_gos ?y = rs_gos y" "rs_log ?y = rs_log y" "rs_errChan ?y = rs_errChan y" using skip by (simp_all add: unavailable_def Let_def)
  have "t \<notin> set (map fst (rs_gos y))" using inv unfolding ro_going_def by simp
  then have none: "map_of (rs_gos y) t = None" by (simp add: map_of_eq_None_iff)
  have tr: "ro_track look (map_of (rs_gos y)) (rs_store y) (rs_errChan y)" using inv unfolding ro_going_def by blast
  then have t: "\<not> succ_at look (rs_store y) t" using none unfolding ro_track_def by auto
  have "\<forall>t'. succ_at look (rs_store ?y) t' = succ_at look (rs_store y) t'"
    using t skip by (simp add: unavailable_def Let_def succ_at_update [OF laws])
  then have "ro_track look (map_of (rs_gos y)) (rs_store ?y) (rs_errChan y)" by (rule ro_track_same [OF tr])
  then show ?thesis using inv unfolding ro_going_def keep by simp
qed

lemma ro_going_start:
  assumes inv: "ro_going e look ts (t # rest) y"
  shows "ro_going e look ts rest (y\<lparr>rs_gos := rs_gos y @ [(t, GoStart)], rs_main := m\<rparr>)"
proof -
  have t: "t \<notin> set (map fst (rs_gos y))" using inv unfolding ro_going_def by simp
  then have none: "map_of (rs_gos y) t = None" by (simp add: map_of_eq_None_iff)
  then have pcs: "[t \<mapsto> GoStart] ++ map_of (rs_gos y) = (map_of (rs_gos y))(t \<mapsto> GoStart)"
    by (auto simp: map_add_def fun_eq_iff split: option.split)
  have tr: "ro_track look (map_of (rs_gos y)) (rs_store y) (rs_errChan y)" using inv unfolding ro_going_def by blast
  have "ro_track look ((map_of (rs_gos y))(t \<mapsto> GoStart)) (rs_store y) (rs_errChan y)"
    by (rule ro_track_ext [OF tr]) (use none tr in \<open>auto simp: ro_track_def\<close>)
  then show ?thesis using inv none unfolding ro_going_def by (simp add: pcs ro_sent_update(3))
qed

lemma ro_finish:
  assumes laws: "mstore_laws (re_store e) look" and inv: "ro_going e look ts [] y" and ended: "list_all (\<lambda>g. snd g = GoDone) (rs_gos y)"
    and order: "distinct order" "set order = set ts" and ctx: "\<not> rs_ctxDone y" and w: "rs_main y = MWait"
  shows "ro_inv e look ts (main_step e ready timeout x order y)"
proof -
  let ?y = "main_step e ready timeout x order y" and ?pcs = "map_of (rs_gos y)"
  obtain sent where log: "rs_log y = ro_sets e sent" "distinct sent" "set sent = ro_sent ?pcs"
    and tr: "ro_track look ?pcs (rs_store y) (rs_errChan y)" using inv unfolding ro_going_def by blast
  have done1: "pc = GoDone" if "?pcs t = Some pc" for t pc using map_of_SomeD [OF that] ended by (auto simp: list_all_iff)
  have sent: "set sent = {t. ?pcs t = Some GoDone}" unfolding log(3) ro_sent_def using done1 by auto
  have sub: "set sent \<subseteq> set ts" unfolding sent using inv by (auto simp: ro_going_def dest!: map_of_SomeD)
  have succ: "t \<in> set sent" if "succ_at look (rs_store y) t" for t using tr that unfolding ro_track_def sent by blast
  show ?thesis
  proof (cases "rs_errChan y")
    case (Cons er errs)
    obtain s l where roll: "RollbackTargets e x order (rs_store y, rs_log y) = (s, l)" by (rule prod.exhaust)
    note spec = RollbackTargets_spec [OF laws order(1) roll]
    have y: "?y = y\<lparr>rs_store := s, rs_log := l, rs_errChan := errs, rs_main := MReturned (Some (err_wrap ''target transaction failed'' er))\<rparr>"
      using w ctx ended Cons roll by (simp add: main_step_def main_select_def)
    have same: "succ_at look s t = succ_at look (rs_store y) t" for t using spec by blast
    have bad: "\<exists>t \<in> set sent. \<not> succ_at look s t" using tr Cons same unfolding ro_track_def sent by auto
    have f: "filter (succ_at look (rs_store y)) order = filter (\<lambda>t. t \<in> set sent \<and> succ_at look s t) order"
      by (rule filter_cong [OF refl]) (use succ same in auto)
    have "ro_result e look ts (Some (err_wrap ''target transaction failed'' er)) ?y"
      unfolding ro_result_def using log(1,2) sub order bad spec f by (intro exI [of _ sent] exI [of _ order]) (auto simp: y)
    then show ?thesis using ended by (simp add: ro_inv_def y)
  next
    case Nil
    obtain err s l where conf: "ConfirmTargets e x order None (rs_store y, rs_log y) = (err, s, l)" by (rule prod_cases3)
    note spec = ConfirmTargets_spec [OF laws order(1) conf]
    have y: "?y = y\<lparr>rs_store := s, rs_log := l, rs_main := MReturned err\<rparr>" using w ctx ended Nil conf by (simp add: main_step_def main_select_def)
    have same: "succ_at look s t = succ_at look (rs_store y) t" for t using spec by blast
    have all: "succ_at look (rs_store y) t" if "t \<in> set sent" for t using tr Nil that unfolding ro_track_def sent by blast
    have f: "filter (succ_at look (rs_store y)) order = filter (\<lambda>t. t \<in> set sent) order"
      by (rule filter_cong [OF refl]) (use succ all in auto)
    have "ro_result e look ts err ?y"
      unfolding ro_result_def using log(1,2) sub order all same spec f by (intro exI [of _ sent] exI [of _ order]) (simp add: y)
    then show ?thesis using ended by (simp add: ro_inv_def y)
  qed
qed

lemma ro_inv_main:
  assumes laws: "mstore_laws (re_store e) look" and inv: "ro_inv e look ts y" and ctx: "\<not> rs_ctxDone y"
    and order: "distinct order" "set order = set ts"
  shows "ro_inv e look ts (main_step e ready timeout x order y)"
proof (cases "rs_main y")
  case (MReturned err)
  then show ?thesis using inv by (simp add: main_step_def)
next
  case MWait
  then have g: "ro_going e look ts [] y" using inv ctx by (simp add: ro_inv_def)
  show ?thesis
  proof (cases "list_all (\<lambda>g. snd g = GoDone) (rs_gos y)")
    case True
    show ?thesis by (rule ro_finish [OF laws g True order ctx MWait])
  qed (use MWait inv ctx in \<open>simp add: main_step_def main_select_def\<close>)
next
  case (MLoop rest)
  then have g: "ro_going e look ts rest y" using inv ctx by (simp add: ro_inv_def)
  show ?thesis
  proof (cases rest)
    case Nil
    with g MLoop show ?thesis by (simp add: main_step_def ro_inv_def ro_going_def)
  next
    case (Cons t rest')
    note going = g [unfolded Cons]
    have gone: "ro_inv e look ts (unavailable e t rest' msg what y)" for msg what
      using ro_going_unavailable [OF laws going] by (cases "rs_skip y") (simp_all add: ro_inv_def unavailable_def Let_def)
    have started: "ro_inv e look ts (y\<lparr>rs_gos := rs_gos y @ [(t, GoStart)], rs_main := MLoop rest'\<rparr>)"
      using ro_going_start [OF going] by (simp add: ro_inv_def)
    show ?thesis using gone started by (simp add: main_step_def MLoop Cons split: sum.split)
  qed
qed

lemma ro_inv_step:
  assumes laws: "mstore_laws (re_store e) look" and inv: "ro_inv e look ts y" and ok: "ro_op_ok ts op"
  shows "ro_inv e look ts (ro_step e op y)"
proof (cases "rs_ctxDone y")
  case True
  then show ?thesis by (simp add: ro_inv_def ro_done_step)
next
  case ctx: False
  show ?thesis
  proof (cases op)
    case (RoMain ready timeout x order)
    with ok show ?thesis by (simp add: ro_op_ok_def ro_inv_main [OF laws inv ctx])
  next
    case (RoGo i a)
    have main: "rs_main (go_step e i a y) = rs_main y" by (auto simp: go_step_def Let_def split: prod.split go_pc.split option.split)
    show ?thesis
    proof (cases "rs_main y")
      case (MReturned err)
      then have fin: "list_all (\<lambda>g. snd g = GoDone) (rs_gos y)" using inv ctx by (simp add: ro_inv_def)
      have "go_step e i a y = y"
        using list_all_length [THEN iffD1, OF fin] by (auto simp: go_step_def Let_def split: prod.split)
      then show ?thesis using RoGo inv by simp
    qed (use RoGo inv ctx main ro_going_go [OF laws _ ctx] in \<open>simp_all add: ro_inv_def\<close>)
  qed (simp add: ro_inv_def)
qed


definition ro_run :: "('s, 'e) ro_env \<Rightarrow> 'e ro_op list \<Rightarrow> 's ro_sys \<Rightarrow> 's ro_sys" where
  "ro_run e ops y = fold (ro_step e) ops y"

lemma ro_inv_run:
  assumes "mstore_laws (re_store e) look" "ro_inv e look ts y" "\<forall>op \<in> set ops. ro_op_ok ts op"
  shows "ro_inv e look ts (ro_run e ops y)"
  using assms by (induction ops arbitrary: y) (simp_all add: ro_run_def ro_inv_step)


definition alist_mstore :: "('v, (nsn \<times> 'v) list) mstore" where
  "alist_mstore = \<lparr>ms_new = [], ms_get = \<lambda>k s. (case map_of s k of Some v \<Rightarrow> Inr v | None \<Rightarrow> Inl (err_new ''not found'')),
     ms_create = \<lambda>k v s. (case map_of s k of Some _ \<Rightarrow> (Some (err_new ''exists''), s) | None \<Rightarrow> (None, AList.update k v s)),
     ms_update = \<lambda>k v s. (None, AList.update k v s), ms_delete = \<lambda>k s. (None, AList.delete k s),
     ms_list = \<lambda>s. AList.clearjunk s\<rparr>"

lemma alist_mstore_laws: "mstore_laws alist_mstore map_of"
  by (simp add: mstore_laws_def alist_mstore_def update_conv' delete_conv' distinct_clearjunk map_of_clearjunk split: option.split)

definition sample_rollout :: "((nsn \<times> rollout_target_status) list, unit) ro_env" where
  "sample_rollout = \<lparr>re_store = alist_mstore, re_now = 0, re_keyString = nsn_string, re_transactionID = ''tx'',
     re_confirm = \<lambda>_ _. Answered None, re_cancel = \<lambda>_ _. Answered None\<rparr>"

definition sample_targets :: "nsn list" where "sample_targets = [(''ns'', ''a''), (''ns'', ''b'')]"

definition sample_main :: "unit ro_op" where "sample_main = RoMain (Inr True) True () sample_targets"

definition sample_failed_rollout :: "unit ro_op list" where
  "sample_failed_rollout = [sample_main, RoGo 0 (Answered None), sample_main, RoGo 1 (Answered (Some (err_new ''refused''))), RoGo 0 (Answered None), RoGo 1 (Answered None),
     sample_main, RoGo 1 (Answered None), sample_main]"


text \<open>
  With \<open>skipUnavailableTarget\<close> set, an unavailable target aborts the rollout without a rollback: a target
  that has been applied before stays applied, neither confirmed nor cancelled.
\<close>
theorem abort_leaves_targets_applied:
  "let y = ro_run sample_rollout [sample_main, RoGo 0 (Answered None), RoGo 0 (Answered None), RoMain (Inr False) False () sample_targets]
       (ro_init sample_rollout True sample_targets) in
     (case rs_main y of MReturned err \<Rightarrow> err \<noteq> None | _ \<Rightarrow> False)
     \<and> succ_at map_of (rs_store y) (''ns'', ''a'') \<and> rs_log y = [RoSet (''ns'', ''a'') (apply_request sample_rollout (''ns'', ''a''))]"
  unfolding Let_def by code_simp

text \<open>
  When the global timeout expires before a goroutine has begun, its target is marked as failed and no
  error reaches the channel; if the others have been applied, they are confirmed and \<open>TransactToAllTargets\<close>
  returns no error although one target was never sent its transaction.
\<close>
theorem timeout_can_confirm_a_part:
  "let y = ro_run sample_rollout [sample_main, sample_main, RoGo 0 (Answered None), RoGo 0 (Answered None), RoTimeout, RoGo 1 (Answered None), sample_main,
       RoMain (Inr True) False () sample_targets] (ro_init sample_rollout False sample_targets) in
     (case rs_main y of MReturned err \<Rightarrow> err = None | _ \<Rightarrow> False) \<and> \<not> succ_at map_of (rs_store y) (''ns'', ''b'')
     \<and> rs_log y = [RoSet (''ns'', ''a'') (apply_request sample_rollout (''ns'', ''a'')), RoConfirm (''ns'', ''a'')]"
  unfolding Let_def by code_simp

end
