(* ===== verification/RolloutController.thy ===== *)
theory RolloutController
  imports Rollout Effects
begin

text \<open>
  The Rollout controller (\<open>pkg/reconcilers/rollout/reconciler.go\<close>) and the reader of the workspace
  (\<open>pkg/workspace/reader.go\<close>): the Configs of a git commit become Configs of the API server, in one
  transaction over all targets. The git checkout, the API server and the stores are arguments; the
  transaction is a run of theory \<open>Rollout\<close>.
\<close>

section \<open>Configs per target\<close>

datatype store_step = SCreateTarget | SCreateConfig | SUpdateTarget

definition Convert_Config :: "config \<Rightarrow> config" where
  \<comment> \<open>\<open>Convert_v1alpha1_Config_To_config_Config\<close> into a new object: the type meta is not converted\<close>
  "Convert_Config c = c\<lparr>c_apiVersion := [], c_kind := []\<rparr>"

definition store_config ::
  "(store_step \<Rightarrow> goerr \<Rightarrow> goerr) \<Rightarrow> ('o, 'q) mstore \<Rightarrow> (config, 'o) mstore \<Rightarrow> nsn \<Rightarrow> config \<Rightarrow> 'q \<Rightarrow> goerr + 'q" where
  \<comment> \<open>the steps \<open>extractConfigsFromRepo\<close> and \<open>getToBeDeletedconfigs\<close> share; the inner store is a pointer,
      so the final update stores what the creation left\<close>
  "store_config wrap outer inner t c s =
     (let (r, s, cs) = (case ms_get outer t s of
          Inr cs \<Rightarrow> (None, s, cs)
        | Inl _ \<Rightarrow> (let (r, s) = ms_create outer t (ms_new inner) s in (r, s, ms_new inner))) in
      case r of Some err \<Rightarrow> Inl (wrap SCreateTarget err)
      | None \<Rightarrow> (let (r, cs) = ms_create inner (ckey c) (Convert_Config c) cs in
          case r of Some err \<Rightarrow> Inl (wrap SCreateConfig err)
          | None \<Rightarrow> (let (r, s) = ms_update outer t cs s in
              case r of Some err \<Rightarrow> Inl (wrap SUpdateTarget err) | None \<Rightarrow> Inr s)))"

definition delete_wrap :: "store_step \<Rightarrow> goerr \<Rightarrow> goerr" where
  "delete_wrap st = err_wrap (case st of SCreateTarget \<Rightarrow> ''cannot create target delete configstore''
     | SCreateConfig \<Rightarrow> ''cannot create config in delete config store''
     | SUpdateTarget \<Rightarrow> ''cannot update target delete configstore'')"

definition internal_apiVersion :: string where
  \<comment> \<open>\<open>SchemeGroupVersion.Identifier()\<close> of \<open>apis/config/register.go\<close>, whose version is \<open>runtime.APIVersionInternal\<close>\<close>
  "internal_apiVersion = ''config.sdcio.dev/__internal''"

definition config_target :: "config \<Rightarrow> nsn option" where
  "config_target c = (case map_of (m_labels (c_meta c)) TargetNameKey of None \<Rightarrow> None
     | Some n \<Rightarrow> (case map_of (m_labels (c_meta c)) TargetNamespaceKey of None \<Rightarrow> None | Some ns \<Rightarrow> Some (ns, n)))"

datatype ws_file = OtherFile | BadFile goerr | EmptyFile | ConfigFile config

text \<open>
  A file of the working copy: no YAML, not readable or not parsable, YAML without a value (no text, only comments, \<open>null\<close>), which
  leaves the pointer nil that the next line follows, or an object read as a Config.
\<close>

fun extractConfigsFromRepo ::
  "('o, 'q) mstore \<Rightarrow> (config, 'o) mstore \<Rightarrow> ws_file list \<Rightarrow> 'q \<Rightarrow> (goerr + 'q) option" where
  \<comment> \<open>the files in the order of \<open>filepath.Walk\<close>; \<open>None\<close>: a panic\<close>
  "extractConfigsFromRepo outer inner [] s = Some (Inr s)"
| "extractConfigsFromRepo outer inner (OtherFile # fs) s = extractConfigsFromRepo outer inner fs s"
| "extractConfigsFromRepo outer inner (BadFile err # fs) s = Some (Inl err)"
| "extractConfigsFromRepo outer inner (EmptyFile # fs) s = None"
| "extractConfigsFromRepo outer inner (ConfigFile c # fs) s =
     (if c_apiVersion c = internal_apiVersion \<and> c_kind c = ''Config''
      then (case config_target c of None \<Rightarrow> extractConfigsFromRepo outer inner fs s
        | Some t \<Rightarrow> (case store_config (\<lambda>_ err. err) outer inner t c s of Inl err \<Rightarrow> Some (Inl err)
            | Inr s \<Rightarrow> extractConfigsFromRepo outer inner fs s))
      else extractConfigsFromRepo outer inner fs s)"

definition to_be_deleted :: "('o, 'q) mstore \<Rightarrow> (config, 'o) mstore \<Rightarrow> 'q \<Rightarrow> nsn \<Rightarrow> config \<Rightarrow> bool" where
  "to_be_deleted outer inner new t c = (case ms_get outer t new of Inl _ \<Rightarrow> True | Inr cs \<Rightarrow> isl (ms_get inner (ckey c) cs))"

fun delete_loop ::
  "('o, 'q) mstore \<Rightarrow> (config, 'o) mstore \<Rightarrow> 'q \<Rightarrow> config list \<Rightarrow> 'q \<Rightarrow> goerr + 'q" where
  "delete_loop outer inner new [] s = Inr s"
| "delete_loop outer inner new (c # cs) s =
     (case config_target c of None \<Rightarrow> delete_loop outer inner new cs s
      | Some t \<Rightarrow>
          if to_be_deleted outer inner new t c
          then (case store_config delete_wrap outer inner t c s of Inl err \<Rightarrow> Inl err
            | Inr s \<Rightarrow> delete_loop outer inner new cs s)
          else delete_loop outer inner new cs s)"

definition getToBeDeletedconfigs ::
  "('o, 'q) mstore \<Rightarrow> (config, 'o) mstore \<Rightarrow> 'q \<Rightarrow> config list \<Rightarrow> goerr + 'q" where
  "getToBeDeletedconfigs outer inner new existing =
     (case delete_loop outer inner new existing (ms_new outer) of
        Inl err \<Rightarrow> Inl err
      | Inr s \<Rightarrow> Inr (fold (\<lambda>(k, cs) s. if length (ms_list inner cs) = 0 then snd (ms_delete outer k s) else s) (ms_list outer s) s))"

definition calculateTargets :: "('o, 'q) mstore \<Rightarrow> 'q \<Rightarrow> 'q \<Rightarrow> nsn set" where
  "calculateTargets outer upd del = set (map fst (ms_list outer upd)) \<union> set (map fst (ms_list outer del))"

section \<open>API server\<close>

record rollout =
  rx_meta :: objmeta
  rx_ref :: string
  rx_skipUnavailableTarget :: "bool option"
  rx_conditions :: "condition list"
  rx_targets :: "rollout_target_status list option"

text \<open>\<open>rx_targets\<close>: \<open>None\<close> is a nil slice, which \<open>DeepEqual\<close> tells from an empty one.\<close>

definition GetSkipUnavailableTarget :: "rollout \<Rightarrow> bool" where
  "GetSkipUnavailableTarget r = (case rx_skipUnavailableTarget r of Some b \<Rightarrow> b | None \<Rightarrow> False)"

record ('q, 'w) ro_services =
  rv_Get :: "nsn \<Rightarrow> 'w \<Rightarrow> (goerr + rollout) \<times> 'w"
  rv_ListConfigs :: "'w \<Rightarrow> (goerr + config list) \<times> 'w"
  rv_Checkout :: "rollout \<Rightarrow> 'w \<Rightarrow> (goerr + ws_file list) \<times> 'w"
  rv_Transacted :: "ro_call list \<Rightarrow> 'w \<Rightarrow> 'w"
  rv_CreateConfig :: "config \<Rightarrow> 'w \<Rightarrow> goerr option \<times> 'w"
  rv_DeleteConfig :: "config \<Rightarrow> 'w \<Rightarrow> goerr option \<times> 'w"
  rv_ApplyStatus :: "nsn \<Rightarrow> condition \<Rightarrow> string list \<Rightarrow> 'w \<Rightarrow> goerr option \<times> 'w"
  rv_ApplyFinalizers :: "string \<Rightarrow> string \<Rightarrow> string list \<Rightarrow> 'w \<Rightarrow> goerr option \<times> 'w"
  rv_Event :: "string \<Rightarrow> string \<Rightarrow> 'w \<Rightarrow> 'w"

text \<open>
  \<open>rv_Transacted\<close>: what the calls of a finished transaction leave behind. \<open>rv_ApplyStatus\<close> carries the names
  of the targets only, as \<open>rolloutTargetStatusToApply\<close> does.
\<close>

record ('s, 'e, 'o, 'q, 'w) rc_env =
  rc_sv :: "('q, 'w) ro_services"
  rc_outer :: "('o, 'q) mstore"
  rc_inner :: "(config, 'o) mstore"
  rc_tx :: "('s, 'e) ro_env"

definition ro_finalizer :: string where
  "ro_finalizer = ''rollout.inv.sdcio.dev/finalizer''"

definition create_configs ::
  "('q, 'w) ro_services \<Rightarrow> config list \<Rightarrow> goerr option \<times> 'w \<Rightarrow> goerr option \<times> 'w" where
  "create_configs sv cs ew = fold (\<lambda>c (errs, w). let (r, w) = rv_CreateConfig sv c w in (err_join errs r, w)) cs ew"

definition delete_all ::
  "('q, 'w) ro_services \<Rightarrow> config list \<Rightarrow> goerr option \<times> 'w \<Rightarrow> goerr option \<times> 'w" where
  "delete_all sv cs ew = fold (\<lambda>c (errs, w). let (r, w) = rv_DeleteConfig sv c w in (err_join errs r, w)) cs ew"

definition stored_configs :: "('o, 'q) mstore \<Rightarrow> (config, 'o) mstore \<Rightarrow> 'q \<Rightarrow> config list" where
  "stored_configs outer inner s = concat (map (\<lambda>(k, cs). map snd (ms_list inner cs)) (ms_list outer s))"

definition updateConfigFromAPIServer ::
  "('s, 'e, 'o, 'q, 'w) rc_env \<Rightarrow> 'q \<Rightarrow> 'q \<Rightarrow> 'w \<Rightarrow> goerr option \<times> 'w" where
  "updateConfigFromAPIServer e upd del w =
     delete_all (rc_sv e) (stored_configs (rc_outer e) (rc_inner e) del)
       (create_configs (rc_sv e) (stored_configs (rc_outer e) (rc_inner e) upd) (None, w))"

section \<open>Status\<close>

definition getTargetStatus :: "('s, 'e, 'o, 'q, 'w) rc_env \<Rightarrow> 's option \<Rightarrow> rollout_target_status list" where
  "getTargetStatus e ts = (case ts of None \<Rightarrow> [] | Some s \<Rightarrow> sort_key rts_name (map snd (ms_list (re_store (rc_tx e)) s)))"

definition rolloutTargetStatusToApply :: "rollout_target_status list \<Rightarrow> string list" where
  "rolloutTargetStatusToApply ts = map rts_name ts"

definition ro_handleStatus ::
  "('s, 'e, 'o, 'q, 'w) rc_env \<Rightarrow> rollout \<Rightarrow> 's option \<Rightarrow> condition \<Rightarrow> bool \<Rightarrow> goerr option \<Rightarrow> 'w \<Rightarrow> (bool \<times> goerr option) \<times> 'w" where
  "ro_handleStatus e r ts condition requeue err w =
     (let condition = (case err of None \<Rightarrow> condition
            | Some er \<Rightarrow> condition\<lparr>cMessage := cMessage condition @ '' err '' @ e_msg er\<rparr>);
          newTargets = getTargetStatus e ts; oldCond = GetCondition (rx_conditions r) (cType condition) in
      if cond_Equal condition oldCond \<and> rx_targets r = Some newTargets then ((requeue, None), w)
      else let (typ, msg) = (if cType condition = ConditionTypeReady then (''Normal'', ''ready ref '' @ rx_ref r)
                             else (''Warning'', cMessage condition));
               w = (case RecordEvent msg of None \<Rightarrow> w | Some note \<Rightarrow> rv_Event (rc_sv e) typ note w);
               (aerr, w) = rv_ApplyStatus (rc_sv e) (m_namespace (rx_meta r), m_name (rx_meta r)) condition
                 (rolloutTargetStatusToApply newTargets) w in
        ((requeue, map_option (err_wrap ''cannot update status'') aerr), w))"

section \<open>Reconcile\<close>

definition TransactToAllTargets ::
  "('s, 'e, 'o, 'q, 'w) rc_env \<Rightarrow> 'e ro_op list \<Rightarrow> nsn list \<Rightarrow> bool \<Rightarrow> 'w \<Rightarrow> (('s \<times> goerr option) \<times> 'w) option" where
  \<comment> \<open>a run of the transaction under the schedule \<open>ops\<close>, over the targets in the order \<open>ts\<close>; \<open>None\<close>: it has not returned\<close>
  "TransactToAllTargets e ops ts skip w =
     (let y = ro_run (rc_tx e) ops (ro_init (rc_tx e) skip ts) in
      case rs_main y of MReturned err \<Rightarrow> Some ((rs_store y, err), rv_Transacted (rc_sv e) (rs_log y) w) | _ \<Rightarrow> None)"

definition ro_reconcileDelete ::
  "('s, 'e, 'o, 'q, 'w) rc_env \<Rightarrow> 'e ro_op list \<Rightarrow> (nsn set \<Rightarrow> nsn list) \<Rightarrow> rollout \<Rightarrow> 'w \<Rightarrow> ((bool \<times> goerr option) \<times> 'w) option" where
  "ro_reconcileDelete e ops order r w =
     (let now = re_now (rc_tx e) in
      case rv_ListConfigs (rc_sv e) w of
        (Inl err, w) \<Rightarrow> Some (ro_handleStatus e r None (Conditions.Rollout now ''cannot get existing configs from apiserver'') True (Some err) w)
      | (Inr existing, w) \<Rightarrow>
          (let upd = ms_new (rc_outer e) in
           case getToBeDeletedconfigs (rc_outer e) (rc_inner e) upd existing of
             Inl err \<Rightarrow> Some (ro_handleStatus e r None (Conditions.Rollout now ''cannot calculate deleted configs'') True (Some err) w)
           | Inr del \<Rightarrow>
               (case TransactToAllTargets e ops (order (calculateTargets (rc_outer e) upd del)) (GetSkipUnavailableTarget r) w of
                  None \<Rightarrow> None
                | Some ((s, Some err), w) \<Rightarrow> Some (ro_handleStatus e r (Some s) (Conditions.Rollout now ''delete transaction failed'') False (Some err) w)
                | Some ((s, None), w) \<Rightarrow>
                    (case updateConfigFromAPIServer e upd del w of
                       (Some err, w) \<Rightarrow> Some (ro_handleStatus e r (Some s)
                         (Conditions.Rollout now ''cannot remove cr resources from apiserver'') True (Some err) w)
                     | (None, w) \<Rightarrow>
                         (case RemoveFinalizer ro_finalizer (rv_ApplyFinalizers (rc_sv e)) (rx_meta r) w of
                            (Some err, w) \<Rightarrow> Some (ro_handleStatus e r (Some s) (Conditions.Rollout now ''cannot remove finalizer'') True (Some err) w)
                          | (None, w) \<Rightarrow> Some ((False, None), w))))))"

definition ro_reconcileApply ::
  "('s, 'e, 'o, 'q, 'w) rc_env \<Rightarrow> 'e ro_op list \<Rightarrow> (nsn set \<Rightarrow> nsn list) \<Rightarrow> rollout \<Rightarrow> 'w \<Rightarrow> ((bool \<times> goerr option) \<times> 'w) option" where
  \<comment> \<open>\<open>None\<close>: the transaction has not returned, or the reader has panicked\<close>
  "ro_reconcileApply e ops order r w =
     (let now = re_now (rc_tx e) in
      case rv_Checkout (rc_sv e) r w of
        (Inl err, w) \<Rightarrow> Some (ro_handleStatus e r None (Conditions.Rollout now ''cannot get configs from git'') True (Some err) w)
      | (Inr files, w) \<Rightarrow>
          (case extractConfigsFromRepo (rc_outer e) (rc_inner e) files (ms_new (rc_outer e)) of
             None \<Rightarrow> None
           | Some (Inl err) \<Rightarrow> Some (ro_handleStatus e r None (Conditions.Rollout now ''cannot get configs from git'') True (Some err) w)
           | Some (Inr upd) \<Rightarrow>
               (case rv_ListConfigs (rc_sv e) w of
                  (Inl err, w) \<Rightarrow> Some (ro_handleStatus e r None (Conditions.Rollout now ''cannot get existing configs from apiserver'') True (Some err) w)
                | (Inr existing, w) \<Rightarrow>
                    (case getToBeDeletedconfigs (rc_outer e) (rc_inner e) upd existing of
                       Inl err \<Rightarrow> Some (ro_handleStatus e r None (Conditions.Rollout now ''cannot calculate deleted configs'') True (Some err) w)
                     | Inr del \<Rightarrow>
                         (case TransactToAllTargets e ops (order (calculateTargets (rc_outer e) upd del)) (GetSkipUnavailableTarget r) w of
                            None \<Rightarrow> None
                          | Some ((s, Some err), w) \<Rightarrow> Some (ro_handleStatus e r (Some s) (Failed now ''transaction failed'') False (Some err) w)
                          | Some ((s, None), w) \<Rightarrow>
                              (case updateConfigFromAPIServer e upd del w of
                                 (Some err, w) \<Rightarrow> Some (ro_handleStatus e r (Some s) (Conditions.Rollout now ''cannot update api resources'') True (Some err) w)
                               | (None, w) \<Rightarrow> Some (ro_handleStatus e r (Some s) (Ready now) False None w)))))))"

definition ro_Reconcile ::
  "('s, 'e, 'o, 'q, 'w) rc_env \<Rightarrow> 'e ro_op list \<Rightarrow> (nsn set \<Rightarrow> nsn list) \<Rightarrow> nsn \<Rightarrow> 'w \<Rightarrow> ((bool \<times> goerr option) \<times> 'w) option" where
  \<comment> \<open>(requeue, error); \<open>order\<close>: the order of \<open>UnsortedList\<close>\<close>
  "ro_Reconcile e ops order k w =
     (case rv_Get (rc_sv e) k w of
        (Inl err, w) \<Rightarrow> Some ((False, map_option (err_wrap ''cannot get cr'') (IgnoreNotFound (Some err))), w)
      | (Inr r, w) \<Rightarrow>
          if m_deletionTimestamp (rx_meta r) \<noteq> None then ro_reconcileDelete e ops order r w
          else (case AddFinalizer ro_finalizer (rv_ApplyFinalizers (rc_sv e)) (rx_meta r) w of
              (Some err, w) \<Rightarrow> Some (ro_handleStatus e r None (Conditions.Rollout (re_now (rc_tx e)) ''cannot add finalizer'') True (Some err) w)
            | (None, w) \<Rightarrow> ro_reconcileApply e ops order r w))"


section \<open>Which Configs are deleted\<close>

definition stored_at :: "('q \<Rightarrow> nsn \<rightharpoonup> 'o) \<Rightarrow> ('o \<Rightarrow> nsn \<rightharpoonup> config) \<Rightarrow> 'q \<Rightarrow> nsn \<Rightarrow> nsn \<rightharpoonup> config" where
  "stored_at lo li s t k = (case lo s t of None \<Rightarrow> None | Some cs \<Rightarrow> li cs k)"

definition inhabited :: "('q \<Rightarrow> nsn \<rightharpoonup> 'o) \<Rightarrow> ('o \<Rightarrow> nsn \<rightharpoonup> config) \<Rightarrow> 'q \<Rightarrow> bool" where
  "inhabited lo li s \<longleftrightarrow> (\<forall>t cs. lo s t = Some cs \<longrightarrow> li cs \<noteq> Map.empty)"

lemma mstore_writeD:
  assumes "mstore_laws st look"
  shows "fst (ms_update st k v s) = None" "look s k = None \<Longrightarrow> fst (ms_create st k v s) = None"
    "look s k = None \<Longrightarrow> look (snd (ms_create st k v s)) = (look s)(k \<mapsto> v)" "map_of (ms_list st s) = look s"
  using assms unfolding mstore_laws_def by blast+

lemma store_config_ok:
  assumes lo: "mstore_laws outer lo" and li: "mstore_laws inner li" and new: "stored_at lo li s t (ckey c) = None"
    and inh: "inhabited lo li s"
  shows "\<exists>s'. store_config wrap outer inner t c s = Inr s' \<and> inhabited lo li s'
    \<and> (\<forall>t' k. stored_at lo li s' t' k = (if t' = t \<and> k = ckey c then Some (Convert_Config c) else stored_at lo li s t' k))"
proof -
  have fin: "\<exists>s'. store_config wrap outer inner t c s = Inr s' \<and> lo s' = (lo s)(t \<mapsto> cs') \<and> li cs' = (li cs)(ckey c \<mapsto> Convert_Config c)"
    if get: "(case ms_get outer t s of Inr cs \<Rightarrow> (None, s, cs)
        | Inl _ \<Rightarrow> (let (r, s) = ms_create outer t (ms_new inner) s in (r, s, ms_new inner))) = (None, s1, cs)"
      and s1: "lo s1 = lo s \<or> lo s1 = (lo s)(t \<mapsto> cs)" and k: "li cs (ckey c) = None"
      and cs': "cs' = snd (ms_create inner (ckey c) (Convert_Config c) cs)" for s1 cs cs'
  proof -
    have 1: "ms_create inner (ckey c) (Convert_Config c) cs = (None, cs')"
      using mstore_writeD(2) [OF li k] cs' by (simp add: prod_eq_iff)
    have 2: "ms_update outer t cs' s1 = (None, snd (ms_update outer t cs' s1))"
      using mstore_writeD(1) [OF lo] by (simp add: prod_eq_iff)
    have "store_config wrap outer inner t c s = Inr (snd (ms_update outer t cs' s1))"
      unfolding store_config_def get using 1 by (simp add: Let_def) (subst 2, simp)
    moreover have "lo (snd (ms_update outer t cs' s1)) = (lo s)(t \<mapsto> cs')"
      using s1 by (auto simp: mstore_lawsD(2) [OF lo])
    ultimately show ?thesis using mstore_writeD(3) [OF li k] cs' by simp
  qed
  show ?thesis
  proof (cases "lo s t")
    case (Some cs)
    then have k: "li cs (ckey c) = None" using new by (simp add: stored_at_def)
    obtain s' cs' where s': "store_config wrap outer inner t c s = Inr s'" "lo s' = (lo s)(t \<mapsto> cs')" "li cs' = (li cs)(ckey c \<mapsto> Convert_Config c)"
      using fin [OF _ _ k refl, of s] mstore_lawsD(3) [OF lo Some] by auto
    have "inhabited lo li s'" using inh s'(2,3) by (auto simp: inhabited_def)
    moreover have "\<forall>t' k. stored_at lo li s' t' k = (if t' = t \<and> k = ckey c then Some (Convert_Config c) else stored_at lo li s t' k)"
      using Some s'(2,3) by (simp add: stored_at_def)
    ultimately show ?thesis using s'(1) by blast
  next
    case None
    obtain s1 where c1: "ms_create outer t (ms_new inner) s = (None, s1)"
      using mstore_writeD(2) [OF lo None] by (metis prod.collapse)
    have e: "li (ms_new inner) = Map.empty" by (rule mstore_lawsD(1) [OF li])
    obtain err where g: "ms_get outer t s = Inl err" using mstore_lawsD(4) [OF lo None] by blast
    have get: "(case ms_get outer t s of Inr cs \<Rightarrow> (None, s, cs)
        | Inl _ \<Rightarrow> (let (r, s) = ms_create outer t (ms_new inner) s in (r, s, ms_new inner))) = (None, s1, ms_new inner)"
      unfolding g by (simp add: c1)
    have "lo s1 = (lo s)(t \<mapsto> ms_new inner)" using mstore_writeD(3) [OF lo None, of "ms_new inner"] c1 by simp
    then obtain s' cs' where s': "store_config wrap outer inner t c s = Inr s'" "lo s' = (lo s)(t \<mapsto> cs')" "li cs' = [ckey c \<mapsto> Convert_Config c]"
      using fin [OF get _ _ refl] e by auto
    have "inhabited lo li s'" using inh s'(2,3) by (auto simp: inhabited_def)
    moreover have "\<forall>t' k. stored_at lo li s' t' k = (if t' = t \<and> k = ckey c then Some (Convert_Config c) else stored_at lo li s t' k)"
      using None s'(2,3) by (simp add: stored_at_def)
    ultimately show ?thesis using s'(1) by blast
  qed
qed

declare split_paired_All [simp del] split_paired_Ex [simp del]

lemma to_be_deleted_iff:
  assumes "mstore_laws outer lo" "mstore_laws inner li"
  shows "to_be_deleted outer inner new t c \<longleftrightarrow> stored_at lo li new t (ckey c) = None"
proof (cases "lo new t")
  case None
  then obtain err where "ms_get outer t new = Inl err" using mstore_lawsD(4) [OF assms(1)] by blast
  with None show ?thesis by (simp add: to_be_deleted_def stored_at_def)
next
  case (Some cs)
  have "isl (ms_get inner (ckey c) cs) \<longleftrightarrow> li cs (ckey c) = None" using assms(2) unfolding mstore_laws_def by blast
  with Some mstore_lawsD(3) [OF assms(1) Some] show ?thesis by (simp add: to_be_deleted_def stored_at_def)
qed

definition deletes :: "('q \<Rightarrow> nsn \<rightharpoonup> 'o) \<Rightarrow> ('o \<Rightarrow> nsn \<rightharpoonup> config) \<Rightarrow> 'q \<Rightarrow> nsn \<Rightarrow> config \<Rightarrow> bool" where
  "deletes lo li new t c \<longleftrightarrow> config_target c = Some t \<and> stored_at lo li new t (ckey c) = None"

lemma distinct_map_tail: "distinct (map f (x # xs)) \<Longrightarrow> y \<in> set xs \<Longrightarrow> f y \<noteq> f x"
  using imageI [of y "set xs" f] by (metis distinct.simps(2) list.map(2) set_map)

lemma delete_loop_spec:
  assumes lo: "mstore_laws outer lo" and li: "mstore_laws inner li"
  shows "distinct (map ckey cs) \<Longrightarrow> \<forall>c \<in> set cs. \<forall>t. stored_at lo li s t (ckey c) = None \<Longrightarrow> inhabited lo li s
    \<Longrightarrow> \<exists>s'. delete_loop outer inner new cs s = Inr s' \<and> inhabited lo li s'
      \<and> (\<forall>t k c'. stored_at lo li s' t k = Some c' \<longleftrightarrow> stored_at lo li s t k = Some c'
          \<or> (\<exists>c \<in> set cs. deletes lo li new t c \<and> ckey c = k \<and> c' = Convert_Config c))"
proof (induction cs arbitrary: s)
  case (Cons c cs)
  show ?case
  proof (cases "\<exists>t. deletes lo li new t c")
    case False
    then have "delete_loop outer inner new (c # cs) s = delete_loop outer inner new cs s"
      by (auto simp: deletes_def to_be_deleted_iff [OF lo li] split: option.split)
    with Cons.IH [of s] Cons.prems False show ?thesis by auto
  next
    case True
    then obtain t where t: "deletes lo li new t c" by blast
    then have ct: "config_target c = Some t" "to_be_deleted outer inner new t c" by (simp_all add: deletes_def to_be_deleted_iff [OF lo li])
    have only: "deletes lo li new t' c \<longleftrightarrow> t' = t" for t' using t by (auto simp: deletes_def)
    have fresh: "stored_at lo li s t' (ckey c) = None" for t' using Cons.prems(2) by simp
    obtain s1 where s1: "store_config delete_wrap outer inner t c s = Inr s1" "inhabited lo li s1"
        "\<And>t' k. stored_at lo li s1 t' k = (if t' = t \<and> k = ckey c then Some (Convert_Config c) else stored_at lo li s t' k)"
      using store_config_ok [OF lo li fresh Cons.prems(3)] by blast
    have "\<forall>c1 \<in> set cs. \<forall>t. stored_at lo li s1 t (ckey c1) = None"
    proof (intro ballI allI)
      fix c1 t1 assume c1: "c1 \<in> set cs"
      have "ckey c1 \<noteq> ckey c" by (rule distinct_map_tail [OF Cons.prems(1) c1])
      moreover have "stored_at lo li s t1 (ckey c1) = None" using Cons.prems(2) c1 by simp
      ultimately show "stored_at lo li s1 t1 (ckey c1) = None" unfolding s1(3) by (simp only: if_False simp_thms)
    qed
    then obtain s' where s': "delete_loop outer inner new cs s1 = Inr s'" "inhabited lo li s'"
        "\<And>t k c'. stored_at lo li s' t k = Some c' \<longleftrightarrow> stored_at lo li s1 t k = Some c'
          \<or> (\<exists>c \<in> set cs. deletes lo li new t c \<and> ckey c = k \<and> c' = Convert_Config c)"
      using Cons.IH [of s1] Cons.prems(1) s1(2) unfolding list.map distinct.simps by blast
    have run: "delete_loop outer inner new (c # cs) s = Inr s'" using ct s1(1) s'(1) by simp
    have "stored_at lo li s' t' k = Some c' \<longleftrightarrow> stored_at lo li s t' k = Some c'
        \<or> (\<exists>c \<in> set (c # cs). deletes lo li new t' c \<and> ckey c = k \<and> c' = Convert_Config c)" for t' k c'
    proof (cases "t' = t \<and> k = ckey c")
      case True
      then have "stored_at lo li s t' k = None" "stored_at lo li s1 t' k = Some (Convert_Config c)" using fresh s1(3) by auto
      with True show ?thesis unfolding s'(3) using only by auto
    next
      case False
      then have "stored_at lo li s1 t' k = stored_at lo li s t' k" using s1(3) by auto
      moreover have "\<not> (deletes lo li new t' c \<and> ckey c = k)" using False only by blast
      ultimately show ?thesis unfolding s'(3) by auto
    qed
    with run s'(2) show ?thesis by blast
  qed
qed simp

lemma prune_inhabited:
  assumes lo: "mstore_laws outer lo" and li: "mstore_laws inner li" and inh: "inhabited lo li s"
  shows "fold (\<lambda>(k, cs) s. if length (ms_list inner cs) = 0 then snd (ms_delete outer k s) else s) (ms_list outer s) s = s"
proof -
  have ne: "ms_list inner cs \<noteq> []" if "(k, cs) \<in> set (ms_list outer s)" for k cs
  proof
    assume "ms_list inner cs = []"
    then have "li cs = Map.empty" using mstore_writeD(4) [OF li, of cs] by simp
    moreover have "distinct (map fst (ms_list outer s))" using lo unfolding mstore_laws_def by blast
    then have "lo s k = Some cs" using that mstore_writeD(4) [OF lo, of s] by (metis map_of_is_SomeI)
    ultimately show False using inh unfolding inhabited_def by blast
  qed
  have "fold (\<lambda>(k, cs) s. if length (ms_list inner cs) = 0 then snd (ms_delete outer k s) else s) xs s1 = s1"
    if "set xs \<subseteq> set (ms_list outer s)" for xs s1
    using that
  proof (induction xs)
    case (Cons x xs)
    then obtain k cs where "x = (k, cs)" "ms_list inner cs \<noteq> []" using ne by (metis list.set_intros(1) prod.exhaust subset_iff)
    with Cons show ?case by simp
  qed simp
  then show ?thesis by blast
qed

lemma getToBeDeletedconfigs_eq:
  assumes lo: "mstore_laws outer lo" and li: "mstore_laws inner li" and d: "distinct (map ckey existing)"
  shows "\<exists>del. getToBeDeletedconfigs outer inner new existing = Inr del \<and> inhabited lo li del
    \<and> (\<forall>t k c'. stored_at lo li del t k = Some c' \<longleftrightarrow>
        (\<exists>c \<in> set existing. deletes lo li new t c \<and> ckey c = k \<and> c' = Convert_Config c))"
proof -
  have e: "stored_at lo li (ms_new outer) t k = None" for t k by (simp add: stored_at_def mstore_lawsD(1) [OF lo])
  have "inhabited lo li (ms_new outer)" by (simp add: inhabited_def mstore_lawsD(1) [OF lo])
  then obtain del where del: "delete_loop outer inner new existing (ms_new outer) = Inr del" "inhabited lo li del"
      "\<forall>t k c'. stored_at lo li del t k = Some c' \<longleftrightarrow> stored_at lo li (ms_new outer) t k = Some c'
          \<or> (\<exists>c \<in> set existing. deletes lo li new t c \<and> ckey c = k \<and> c' = Convert_Config c)"
    using delete_loop_spec [OF lo li d, of "ms_new outer" new] e by blast
  have "getToBeDeletedconfigs outer inner new existing = Inr del"
    unfolding getToBeDeletedconfigs_def del(1) by (simp only: sum.case prune_inhabited [OF lo li del(2)])
  with del(2,3) show ?thesis unfolding e by blast
qed

lemma find_key:
  "distinct (map f xs) \<Longrightarrow> x \<in> set xs \<Longrightarrow> find (\<lambda>y. f y = f x) xs = Some x"
  by (induction xs) (auto dest: distinct_map_tail)

lemma find_ckey:
  assumes "distinct (map ckey xs)" "c \<in> set xs"
  shows "find (\<lambda>y. ckey y = ckey c) xs = Some c"
  by (rule find_key [OF assms])

text \<open>
  Which Configs a rollout deletes: exactly those that the API server has, that name a target in their
  labels, and that the commit does not have for this target. The calculation has no error.
\<close>
theorem getToBeDeletedconfigs_exact:
  assumes "mstore_laws outer lo" "mstore_laws inner li" "distinct (map ckey existing)"
  shows "\<exists>del. getToBeDeletedconfigs outer inner new existing = Inr del
    \<and> (\<forall>t k. stored_at lo li del t k =
        (if \<exists>c \<in> set existing. ckey c = k \<and> config_target c = Some t \<and> stored_at lo li new t k = None
         then map_option Convert_Config (find (\<lambda>c. ckey c = k) existing) else None))"
proof -
  obtain del where del: "getToBeDeletedconfigs outer inner new existing = Inr del"
      "\<And>t k c'. stored_at lo li del t k = Some c' \<longleftrightarrow>
        (\<exists>c \<in> set existing. deletes lo li new t c \<and> ckey c = k \<and> c' = Convert_Config c)"
    using getToBeDeletedconfigs_eq [OF assms] by blast
  have "stored_at lo li del t k = (if \<exists>c \<in> set existing. ckey c = k \<and> config_target c = Some t \<and> stored_at lo li new t k = None
      then map_option Convert_Config (find (\<lambda>c. ckey c = k) existing) else None)" for t k
  proof (cases "\<exists>c \<in> set existing. ckey c = k \<and> config_target c = Some t \<and> stored_at lo li new t k = None")
    case True
    then obtain c where c: "c \<in> set existing" "ckey c = k" "config_target c = Some t" "stored_at lo li new t k = None" by blast
    then have "stored_at lo li del t k = Some (Convert_Config c)" unfolding del(2) by (auto simp: deletes_def)
    with c find_ckey [OF assms(3) c(1)] True show ?thesis by simp
  next
    case False
    then have "stored_at lo li del t k \<noteq> Some c'" for c' unfolding del(2) by (auto simp: deletes_def)
    with False show ?thesis by auto
  qed
  with del(1) show ?thesis by blast
qed

definition alist_outer :: "((nsn \<times> config) list, (nsn \<times> (nsn \<times> config) list) list) mstore" where "alist_outer = alist_mstore"
definition alist_inner :: "(config, (nsn \<times> config) list) mstore" where "alist_inner = alist_mstore"

definition sample_config :: "string \<Rightarrow> string \<Rightarrow> config" where
  "sample_config target name = \<lparr>c_apiVersion = ''config.sdcio.dev/v1alpha1'', c_kind = ''Config'',
     c_meta = empty_meta\<lparr>m_name := name, m_namespace := ''ns'',
       m_labels := [(TargetNameKey, target), (TargetNamespaceKey, ''ns'')]\<rparr>,
     c_spec = \<lparr>s_lifecycle = None, s_priority = 10, s_revertive = None, s_config = []\<rparr>,
     c_status = \<lparr>st_conditions = [], st_lastKnownGoodSchema = None, st_appliedConfig = None, st_deviationGeneration = None\<rparr>\<rparr>"

lemma getToBeDeletedconfigs_exact_witness:
  "\<exists>del. getToBeDeletedconfigs alist_outer alist_inner (ms_new alist_outer) [sample_config ''t'' ''a''] = Inr del
    \<and> (\<forall>t k. stored_at map_of map_of del t k =
        (if \<exists>c \<in> set [sample_config ''t'' ''a'']. ckey c = k \<and> config_target c = Some t \<and> stored_at map_of map_of (ms_new alist_outer) t k = None
         then map_option Convert_Config (find (\<lambda>c. ckey c = k) [sample_config ''t'' ''a'']) else None))"
  by (rule getToBeDeletedconfigs_exact) (simp_all add: alist_outer_def alist_inner_def alist_mstore_laws)

section \<open>Two ways a rollout goes wrong\<close>

lemma create_configs_err:
  "fst (create_configs sv cs (errs, w)) = None \<Longrightarrow> errs = None \<and> (\<forall>c \<in> set cs. \<exists>w. fst (rv_CreateConfig sv c w) = None)"
proof (induction cs arbitrary: errs w)
  case (Cons c cs)
  obtain r w1 where c: "rv_CreateConfig sv c w = (r, w1)" by (rule prod.exhaust)
  have "create_configs sv (c # cs) (errs, w) = create_configs sv cs (err_join errs r, w1)" by (simp add: create_configs_def c)
  with Cons have "err_join errs r = None" "\<forall>c \<in> set cs. \<exists>w. fst (rv_CreateConfig sv c w) = None" by metis+
  then show ?case using c by (metis err_join_eq_None fst_conv set_ConsD)
qed (simp add: create_configs_def)

lemma delete_all_err: "fst (delete_all sv cs (errs, w)) = None \<Longrightarrow> errs = None"
proof (induction cs arbitrary: errs w)
  case (Cons c cs)
  obtain r w1 where c: "rv_DeleteConfig sv c w = (r, w1)" by (rule prod.exhaust)
  have "delete_all sv (c # cs) (errs, w) = delete_all sv cs (err_join errs r, w1)" by (simp add: delete_all_def c)
  with Cons have "err_join errs r = None" by metis
  then show ?case by simp
qed (simp add: delete_all_def)

text \<open>
  A rollout cannot change a Config: the Configs of the commit are only ever created, so one that the API
  server has already makes the update of the API server fail, after the transaction has been confirmed on
  the targets, and the rollout never becomes Ready.
\<close>
theorem existing_config_blocks_rollout:
  assumes "c \<in> set (stored_configs (rc_outer e) (rc_inner e) upd)" "\<forall>w. fst (rv_CreateConfig (rc_sv e) c w) \<noteq> None"
  shows "fst (updateConfigFromAPIServer e upd del w) \<noteq> None"
proof
  assume none: "fst (updateConfigFromAPIServer e upd del w) = None"
  obtain errs w1 where run: "create_configs (rc_sv e) (stored_configs (rc_outer e) (rc_inner e) upd) (None, w) = (errs, w1)"
    by (rule prod.exhaust)
  have "errs = None" using none delete_all_err unfolding updateConfigFromAPIServer_def run by metis
  then have "fst (create_configs (rc_sv e) (stored_configs (rc_outer e) (rc_inner e) upd) (None, w)) = None" using run by simp
  with create_configs_err assms show False by metis
qed

definition sample_services :: "((nsn \<times> (nsn \<times> config) list) list, config list) ro_services" where
  \<comment> \<open>an API server that holds a list of Configs\<close>
  "sample_services = \<lparr>rv_Get = \<lambda>k w. (Inl (err_new ''no''), w), rv_ListConfigs = \<lambda>w. (Inr w, w), rv_Checkout = \<lambda>r w. (Inr [], w),
     rv_Transacted = \<lambda>l w. w,
     rv_CreateConfig = \<lambda>c w. if ckey c \<in> set (map ckey w) \<or> ckey c = (''ns'', ''old'') then (Some (err_new ''already exists''), w) else (None, w @ [c]),
     rv_DeleteConfig = \<lambda>c w. (None, filter (\<lambda>d. ckey d \<noteq> ckey c) w), rv_ApplyStatus = \<lambda>k c ts w. (None, w),
     rv_ApplyFinalizers = \<lambda>a b fs w. (None, w), rv_Event = \<lambda>a b w. w\<rparr>"

definition sample_rc :: "((nsn \<times> rollout_target_status) list, unit, (nsn \<times> config) list, (nsn \<times> (nsn \<times> config) list) list, config list) rc_env" where
  "sample_rc = \<lparr>rc_sv = sample_services, rc_outer = alist_outer, rc_inner = alist_inner, rc_tx = sample_rollout\<rparr>"

lemma existing_config_blocks_rollout_witness:
  "fst (updateConfigFromAPIServer sample_rc [((''ns'', ''t''), [((''ns'', ''old''), sample_config ''t'' ''old'')])] [] []) \<noteq> None"
  by (rule existing_config_blocks_rollout [where c = "sample_config ''t'' ''old''"])
    (simp_all add: stored_configs_def sample_rc_def alist_outer_def alist_inner_def alist_mstore_def sample_services_def sample_config_def)

lemma extract_ignores:
  "\<forall>f \<in> set files. case f of ConfigFile c \<Rightarrow> c_apiVersion c \<noteq> internal_apiVersion | f \<Rightarrow> f = OtherFile
    \<Longrightarrow> extractConfigsFromRepo outer inner files s = Some (Inr s)"
  by (induction outer inner files s rule: extractConfigsFromRepo.induct) auto

section \<open>The API server follows the targets\<close>

datatype rc_call = XTransact "ro_call list" | XCreate config | XDelete config | XFinalizers "string list" | XOther

definition rcall :: "rc_call \<Rightarrow> ('w \<Rightarrow> 'r \<times> 'w) \<Rightarrow> 'w \<times> rc_call list \<Rightarrow> 'r \<times> 'w \<times> rc_call list" where
  "rcall c f wl = (let (r, w') = f (fst wl) in (r, (w', snd wl @ [c])))"

definition trace_rv :: "('q, 'w) ro_services \<Rightarrow> ('q, 'w \<times> rc_call list) ro_services" where
  "trace_rv sv = \<lparr>rv_Get = \<lambda>k. rcall XOther (rv_Get sv k), rv_ListConfigs = rcall XOther (rv_ListConfigs sv),
     rv_Checkout = \<lambda>r. rcall XOther (rv_Checkout sv r), rv_Transacted = \<lambda>l (w, cs). (rv_Transacted sv l w, cs @ [XTransact l]),
     rv_CreateConfig = \<lambda>c. rcall (XCreate c) (rv_CreateConfig sv c), rv_DeleteConfig = \<lambda>c. rcall (XDelete c) (rv_DeleteConfig sv c),
     rv_ApplyStatus = \<lambda>k c ts. rcall XOther (rv_ApplyStatus sv k c ts),
     rv_ApplyFinalizers = \<lambda>ns n fs. rcall (XFinalizers fs) (rv_ApplyFinalizers sv ns n fs),
     rv_Event = \<lambda>a b (w, cs). (rv_Event sv a b w, cs @ [XOther])\<rparr>"

definition trace_rc :: "('s, 'e, 'o, 'q, 'w) rc_env \<Rightarrow> ('s, 'e, 'o, 'q, 'w \<times> rc_call list) rc_env" where
  "trace_rc e = \<lparr>rc_sv = trace_rv (rc_sv e), rc_outer = rc_outer e, rc_inner = rc_inner e, rc_tx = rc_tx e\<rparr>"

definition final_call :: "rc_call \<Rightarrow> bool" where
  \<comment> \<open>a write of a Config, or giving up the finalizer\<close>
  "final_call c = (case c of XCreate _ \<Rightarrow> True | XDelete _ \<Rightarrow> True | XFinalizers fs \<Rightarrow> fs = [] | _ \<Rightarrow> False)"

abbreviation unfinal :: "rc_call \<Rightarrow> bool" where "unfinal c \<equiv> \<not> final_call c"

lemma final_call_simps [simp]:
  "final_call (XCreate c)" "final_call (XDelete c)" "final_call (XFinalizers fs) \<longleftrightarrow> fs = []" "unfinal (XTransact l)" "unfinal XOther"
  by (simp_all add: final_call_def)

definition rc_new :: "('s, 'e, 'o, 'q, 'w) rc_env \<Rightarrow> 'e ro_op list \<Rightarrow> (nsn set \<Rightarrow> nsn list) \<Rightarrow> rc_call list \<Rightarrow> bool" where
  \<comment> \<open>what a reconcile may add to the log of calls\<close>
  "rc_new e ops order new \<longleftrightarrow> (\<forall>c \<in> set new. unfinal c) \<or> (\<exists>pre post skip targets y.
     new = pre @ XTransact (rs_log y) # post \<and> (\<forall>c \<in> set pre. unfinal c) \<and> finite targets
     \<and> y = ro_run (rc_tx e) ops (ro_init (rc_tx e) skip (order targets)) \<and> rs_main y = MReturned None)"

lemma trace_rc_sel [simp]: "rc_sv (trace_rc e) = trace_rv (rc_sv e)" "rc_outer (trace_rc e) = rc_outer e"
  "rc_inner (trace_rc e) = rc_inner e" "rc_tx (trace_rc e) = rc_tx e"
  by (simp_all add: trace_rc_def)

lemma trace_rv_sel:
  "rv_Get (trace_rv sv) k (w, cs) = (let (r, w) = rv_Get sv k w in (r, w, cs @ [XOther]))"
  "rv_ListConfigs (trace_rv sv) (w, cs) = (let (r, w) = rv_ListConfigs sv w in (r, w, cs @ [XOther]))"
  "rv_Checkout (trace_rv sv) x (w, cs) = (let (r, w) = rv_Checkout sv x w in (r, w, cs @ [XOther]))"
  "rv_Transacted (trace_rv sv) l (w, cs) = (rv_Transacted sv l w, cs @ [XTransact l])"
  "rv_ApplyStatus (trace_rv sv) k c ts (w, cs) = (let (r, w) = rv_ApplyStatus sv k c ts w in (r, w, cs @ [XOther]))"
  "rv_ApplyFinalizers (trace_rv sv) ns n fs (w, cs) = (let (r, w) = rv_ApplyFinalizers sv ns n fs w in (r, w, cs @ [XFinalizers fs]))"
  "rv_Event (trace_rv sv) a b (w, cs) = (rv_Event sv a b w, cs @ [XOther])"
  "rv_CreateConfig (trace_rv sv) c' (w, cs) = (let (r, w) = rv_CreateConfig sv c' w in (r, w, cs @ [XCreate c']))"
  "rv_DeleteConfig (trace_rv sv) c' (w, cs) = (let (r, w) = rv_DeleteConfig sv c' w in (r, w, cs @ [XDelete c']))"
  by (simp_all add: trace_rv_def rcall_def)

lemma handleStatus_unfinal:
  "emits unfinal (ro_handleStatus (trace_rc e) r ts condition requeue err)"
  unfolding moves_def extends_def ro_handleStatus_def
  by (auto simp: Let_def trace_rv_sel split: if_splits option.splits prod.splits)

lemma AddFinalizer_unfinal:
  "emits unfinal (AddFinalizer f (rv_ApplyFinalizers (trace_rv sv)) obj)"
  unfolding moves_def extends_def AddFinalizer_def
  by (auto simp: Let_def trace_rv_sel split: if_splits prod.splits)

lemma create_configs_adds:
  "create_configs (trace_rv sv) xs (errs, (w, cs)) = (r, (w', cs')) \<Longrightarrow> \<exists>new. cs' = cs @ new"
proof (induction xs arbitrary: errs w cs)
  case (Cons c xs)
  obtain r1 w1 where c: "rv_CreateConfig sv c w = (r1, w1)" by (rule prod.exhaust)
  have "create_configs (trace_rv sv) (c # xs) (errs, (w, cs)) = create_configs (trace_rv sv) xs (err_join errs r1, (w1, cs @ [XCreate c]))"
    by (simp add: create_configs_def trace_rv_sel c)
  with Cons show ?case by (metis append_assoc)
qed (simp add: create_configs_def)

lemma delete_all_calls:
  "delete_all (trace_rv sv) xs (errs, (w, cs)) = (r, (w', cs')) \<Longrightarrow> cs' = cs @ map XDelete xs"
proof (induction xs arbitrary: errs w cs)
  case (Cons c xs)
  obtain r1 w1 where c: "rv_DeleteConfig sv c w = (r1, w1)" by (rule prod.exhaust)
  have "delete_all (trace_rv sv) (c # xs) (errs, (w, cs)) = delete_all (trace_rv sv) xs (err_join errs r1, (w1, cs @ [XDelete c]))"
    by (simp add: delete_all_def trace_rv_sel c)
  with Cons show ?case by fastforce
qed (simp add: delete_all_def)

lemma updateConfig_adds:
  assumes "updateConfigFromAPIServer (trace_rc e) upd del (w, cs) = (r, (w', cs'))"
  shows "\<exists>new. cs' = cs @ new"
proof -
  obtain r1 w1 cs1 where 1: "create_configs (trace_rv (rc_sv e)) (stored_configs (rc_outer e) (rc_inner e) upd) (None, w, cs) = (r1, w1, cs1)"
    by (rule prod_cases3)
  have "delete_all (trace_rv (rc_sv e)) (stored_configs (rc_outer e) (rc_inner e) del) (r1, w1, cs1) = (r, w', cs')"
    using assms by (simp add: updateConfigFromAPIServer_def 1)
  with create_configs_adds [OF 1] delete_all_calls show ?thesis by (metis append_assoc)
qed

lemma finite_calculateTargets [simp]: "finite (calculateTargets outer upd del)"
  by (simp add: calculateTargets_def)

lemma Transact_traced:
  assumes "TransactToAllTargets (trace_rc e) ops ts skip (w, cs) = Some ((s, err), (w', cs'))"
  shows "\<exists>y. y = ro_run (rc_tx e) ops (ro_init (rc_tx e) skip ts) \<and> rs_main y = MReturned err \<and> cs' = cs @ [XTransact (rs_log y)]"
  using assms unfolding TransactToAllTargets_def Let_def by (auto simp: trace_rv_sel split: main_pc.splits)

lemma rc_new_quiet: "\<forall>c \<in> set new. unfinal c \<Longrightarrow> rc_new e ops order new"
  by (simp add: rc_new_def)

lemma rc_new_prepend: "rc_new e ops order new \<Longrightarrow> \<forall>c \<in> set pre. unfinal c \<Longrightarrow> rc_new e ops order (pre @ new)"
  unfolding rc_new_def
proof (elim disjE exE conjE)
  fix p post skip targets y
  assume "\<forall>c \<in> set pre. unfinal c" and new: "new = p @ XTransact (rs_log y) # post" "\<forall>c \<in> set p. unfinal c" "finite targets"
    "y = ro_run (rc_tx e) ops (ro_init (rc_tx e) skip (order targets))" "rs_main y = MReturned None"
  then have "pre @ new = (pre @ p) @ XTransact (rs_log y) # post \<and> (\<forall>c \<in> set (pre @ p). unfinal c)" by auto
  with new(3-5) show "(\<forall>c \<in> set (pre @ new). unfinal c) \<or> (\<exists>pre' post skip targets y.
     pre @ new = pre' @ XTransact (rs_log y) # post \<and> (\<forall>c \<in> set pre'. unfinal c) \<and> finite targets
     \<and> y = ro_run (rc_tx e) ops (ro_init (rc_tx e) skip (order targets)) \<and> rs_main y = MReturned None)" by blast
qed auto

lemma handleStatus_adds:
  assumes "ro_handleStatus (trace_rc e) r ts condition requeue err (w, cs) = (res, (w', cs'))"
  shows "\<exists>new. cs' = cs @ new \<and> (\<forall>c \<in> set new. unfinal c)"
  using movesD [OF handleStatus_unfinal assms] unfolding extends_def .

lemma rc_new_status:
  assumes "ro_handleStatus (trace_rc e) r ts condition requeue err (w, cs @ pre) = (res, (w', cs'))" "\<forall>c \<in> set pre. unfinal c"
  shows "\<exists>new. cs' = cs @ new \<and> rc_new e ops order new"
proof -
  obtain new where "cs' = cs @ pre @ new" "\<forall>c \<in> set new. unfinal c" using handleStatus_adds [OF assms(1)] by auto
  with assms(2) show ?thesis by (intro exI [of _ "pre @ new"]) (simp add: rc_new_quiet ball_Un)
qed

lemma rc_new_transacted:
  assumes "y = ro_run (rc_tx e) ops (ro_init (rc_tx e) skip (order targets))" "finite targets" "rs_main y = MReturned None"
    "\<forall>c \<in> set pre. unfinal c" "cs' = cs @ pre @ XTransact (rs_log y) # post"
  shows "\<exists>new. cs' = cs @ new \<and> rc_new e ops order new"
  unfolding rc_new_def
  by (rule exI [of _ "pre @ XTransact (rs_log y) # post"]) (use assms in blast)

lemma RemoveFinalizer_adds:
  "RemoveFinalizer f (rv_ApplyFinalizers (trace_rv sv)) obj (w, cs) = (r, (w', cs')) \<Longrightarrow> \<exists>new. cs' = cs @ new"
  unfolding RemoveFinalizer_def by (auto simp: Let_def trace_rv_sel split: if_splits prod.splits)

lemma delete_safe:
  assumes "ro_reconcileDelete (trace_rc e) ops order r (w, cs) = Some (res, (w', cs'))"
  shows "\<exists>new. cs' = cs @ new \<and> rc_new e ops order new"
proof -
  let ?sv = "trace_rv (rc_sv e)"
  obtain lr w1 where l: "rv_ListConfigs ?sv (w, cs) = (lr, (w1, cs @ [XOther]))"
    by (cases "rv_ListConfigs (rc_sv e) w") (simp add: trace_rv_sel)
  show ?thesis
  proof (cases lr)
    case (Inl er)
    with assms l show ?thesis unfolding ro_reconcileDelete_def Let_def by (auto intro: rc_new_status)
  next
    case (Inr existing)
    show ?thesis
    proof (cases "getToBeDeletedconfigs (rc_outer e) (rc_inner e) (ms_new (rc_outer e)) existing")
      case (Inl er)
      with assms l Inr show ?thesis unfolding ro_reconcileDelete_def Let_def by (auto intro: rc_new_status)
    next
      case del: (Inr del)
      let ?targets = "calculateTargets (rc_outer e) (ms_new (rc_outer e)) del"
      obtain s err w2 cs2 where t: "TransactToAllTargets (trace_rc e) ops (order ?targets) (GetSkipUnavailableTarget r) (w1, cs @ [XOther]) = Some ((s, err), (w2, cs2))"
        using assms l Inr del unfolding ro_reconcileDelete_def Let_def by (auto split: option.splits)
      obtain y where y: "y = ro_run (rc_tx e) ops (ro_init (rc_tx e) (GetSkipUnavailableTarget r) (order ?targets))"
          "rs_main y = MReturned err" "cs2 = cs @ [XOther, XTransact (rs_log y)]"
        using Transact_traced [OF t] by auto
      show ?thesis
      proof (cases err)
        case (Some er)
        with assms l Inr del t y(3) have "ro_handleStatus (trace_rc e) r (Some s) (Conditions.Rollout (re_now (rc_tx e)) ''delete transaction failed'')
            False (Some er) (w2, cs @ [XOther, XTransact (rs_log y)]) = (res, (w', cs'))"
          unfolding ro_reconcileDelete_def Let_def by simp
        then show ?thesis by (rule rc_new_status) simp
      next
        case None
        obtain uerr w3 cs3 where u: "updateConfigFromAPIServer (trace_rc e) (ms_new (rc_outer e)) del (w2, cs2) = (uerr, (w3, cs3))"
          by (rule prod_cases3)
        obtain p1 where cs3: "cs3 = cs2 @ p1" using updateConfig_adds [OF u] by blast
        have "\<exists>post. cs' = cs3 @ post"
        proof (cases uerr)
          case (Some er)
          with assms l Inr del t u None show ?thesis unfolding ro_reconcileDelete_def Let_def
            by (auto dest!: handleStatus_adds)
        next
          case ok: None
          obtain ferr w4 cs4 where f: "RemoveFinalizer ro_finalizer (rv_ApplyFinalizers ?sv) (rx_meta r) (w3, cs3) = (ferr, (w4, cs4))"
            by (rule prod_cases3)
          obtain p2 where cs4: "cs4 = cs3 @ p2" using RemoveFinalizer_adds [OF f] by blast
          show ?thesis
          proof (cases ferr)
            case (Some er)
            with assms l Inr del t u None ok f cs4 show ?thesis unfolding ro_reconcileDelete_def Let_def
              by (auto dest!: handleStatus_adds)
          next
            case fok: None
            with assms l Inr del t u None ok f cs4 show ?thesis unfolding ro_reconcileDelete_def Let_def by auto
          qed
        qed
        then obtain post where "cs' = cs @ [XOther] @ XTransact (rs_log y) # (p1 @ post)" using cs3 y(3) by auto
        then show ?thesis using y(2) None
          by (intro rc_new_transacted [where order = order and targets = ?targets and pre = "[XOther]", OF y(1)]) simp_all
      qed
    qed
  qed
qed

lemma apply_safe:
  assumes "ro_reconcileApply (trace_rc e) ops order r (w, cs) = Some (res, (w', cs'))"
  shows "\<exists>new. cs' = cs @ new \<and> rc_new e ops order new"
proof -
  let ?sv = "trace_rv (rc_sv e)"
  obtain cr w0 where c: "rv_Checkout ?sv r (w, cs) = (cr, (w0, cs @ [XOther]))"
    by (cases "rv_Checkout (rc_sv e) r w") (simp add: trace_rv_sel)
  obtain lr w1 where l: "rv_ListConfigs ?sv (w0, cs @ [XOther]) = (lr, (w1, cs @ [XOther, XOther]))"
    by (cases "rv_ListConfigs (rc_sv e) w0") (simp add: trace_rv_sel)
  note run = assms [unfolded ro_reconcileApply_def Let_def trace_rc_sel c, simplified]
  show ?thesis
  proof (cases cr)
    case (Inl er)
    with run show ?thesis by (auto intro: rc_new_status)
  next
    case files: (Inr files)
    show ?thesis
    proof (cases "extractConfigsFromRepo (rc_outer e) (rc_inner e) files (ms_new (rc_outer e))")
      case None
      with run files show ?thesis by simp
    next
      case read: (Some x)
      show ?thesis
      proof (cases x)
      case (Inl er)
      with run files read show ?thesis by (auto intro: rc_new_status)
    next
      case x: (Inr upd)
      then have upd: "extractConfigsFromRepo (rc_outer e) (rc_inner e) files (ms_new (rc_outer e)) = Some (Inr upd)" using read by simp
      note run = run [unfolded files, simplified, unfolded upd, simplified, unfolded l, simplified]
      show ?thesis
      proof (cases lr)
        case (Inl er)
        with run have "ro_handleStatus (trace_rc e) r None (Conditions.Rollout (re_now (rc_tx e)) ''cannot get existing configs from apiserver'')
            True (Some er) (w1, cs @ [XOther, XOther]) = (res, (w', cs'))" by simp
        then show ?thesis by (rule rc_new_status) simp
      next
        case existing: (Inr existing)
        show ?thesis
        proof (cases "getToBeDeletedconfigs (rc_outer e) (rc_inner e) upd existing")
          case (Inl er)
          with run existing have "ro_handleStatus (trace_rc e) r None (Conditions.Rollout (re_now (rc_tx e)) ''cannot calculate deleted configs'')
              True (Some er) (w1, cs @ [XOther, XOther]) = (res, (w', cs'))" by simp
          then show ?thesis by (rule rc_new_status) simp
        next
          case del: (Inr del)
          note run = run [unfolded existing, simplified, unfolded del, simplified]
          let ?targets = "calculateTargets (rc_outer e) upd del"
          obtain s err w2 cs2 where t: "TransactToAllTargets (trace_rc e) ops (order ?targets) (GetSkipUnavailableTarget r)
              (w1, cs @ [XOther, XOther]) = Some ((s, err), (w2, cs2))"
            using run by (auto split: option.splits)
          obtain y where y: "y = ro_run (rc_tx e) ops (ro_init (rc_tx e) (GetSkipUnavailableTarget r) (order ?targets))"
              "rs_main y = MReturned err" "cs2 = cs @ [XOther, XOther, XTransact (rs_log y)]"
            using Transact_traced [OF t] by auto
          show ?thesis
          proof (cases err)
            case (Some er)
            with run t y(3) have "ro_handleStatus (trace_rc e) r (Some s) (Failed (re_now (rc_tx e)) ''transaction failed'')
                False (Some er) (w2, cs @ [XOther, XOther, XTransact (rs_log y)]) = (res, (w', cs'))" by simp
            then show ?thesis by (rule rc_new_status) simp
          next
            case None
            obtain uerr w3 cs3 where u: "updateConfigFromAPIServer (trace_rc e) upd del (w2, cs2) = (uerr, (w3, cs3))"
              by (rule prod_cases3)
            obtain p1 where cs3: "cs3 = cs2 @ p1" using updateConfig_adds [OF u] by blast
            have "\<exists>post. cs' = cs3 @ post"
              using run t None u by (cases uerr) (auto dest!: handleStatus_adds)
            then obtain post where "cs' = cs @ [XOther, XOther] @ XTransact (rs_log y) # (p1 @ post)" using cs3 y(3) by auto
            then show ?thesis using y(2) None
              by (intro rc_new_transacted [where order = order and targets = ?targets and pre = "[XOther, XOther]", OF y(1)]) simp_all
          qed
        qed
      qed
      qed
    qed
  qed
qed

section \<open>A commit of v1alpha1 Configs\<close>

lemma mstore_list_iff:
  assumes "mstore_laws st look"
  shows "(k, v) \<in> set (ms_list st s) \<longleftrightarrow> look s k = Some v"
proof -
  have "distinct (map fst (ms_list st s))" "map_of (ms_list st s) = look s" using assms unfolding mstore_laws_def by blast+
  then show ?thesis by (metis map_of_eq_Some_iff)
qed

lemma mstore_list_new: "mstore_laws st look \<Longrightarrow> ms_list st (ms_new st) = []"
  using mstore_list_iff [of st look _ _ "ms_new st"] mstore_lawsD(1) [of st look] by (cases "ms_list st (ms_new st)") fastforce+

lemma stored_configs_set:
  assumes "mstore_laws outer lo" "mstore_laws inner li"
  shows "set (stored_configs outer inner s) = {c. \<exists>t k. stored_at lo li s t k = Some c}"
proof -
  have "c \<in> set (stored_configs outer inner s) \<longleftrightarrow> (\<exists>t cs k. (t, cs) \<in> set (ms_list outer s) \<and> (k, c) \<in> set (ms_list inner cs))" for c
    unfolding stored_configs_def by force
  moreover have "stored_at lo li s t k = Some c \<longleftrightarrow> (\<exists>cs. lo s t = Some cs \<and> li cs k = Some c)" for t k c
    by (simp add: stored_at_def split: option.split)
  ultimately show ?thesis unfolding mstore_list_iff [OF assms(1)] mstore_list_iff [OF assms(2)] by blast
qed

lemma targets_of_deletion:
  assumes lo: "mstore_laws outer lo" and inh: "inhabited lo li del"
  shows "calculateTargets outer (ms_new outer) del = {t. \<exists>k c. stored_at lo li del t k = Some c}"
proof -
  have "t \<in> set (map fst (ms_list outer del)) \<longleftrightarrow> (\<exists>cs. lo del t = Some cs)" for t
    using mstore_list_iff [OF lo, of t _ del] by force
  moreover have "(\<exists>cs. lo del t = Some cs) \<longleftrightarrow> (\<exists>k c. stored_at lo li del t k = Some c)" for t
    using inh by (auto simp: inhabited_def stored_at_def fun_eq_iff split: option.splits)
  ultimately have "set (map fst (ms_list outer del)) = {t. \<exists>k c. stored_at lo li del t k = Some c}" by blast
  then show ?thesis by (simp add: calculateTargets_def mstore_list_new [OF lo])
qed

lemma delete_refused:
  assumes "c \<in> set cs" "\<forall>w. fst (rv_DeleteConfig sv c w) \<noteq> None"
  shows "fst (delete_all sv cs (errs, w)) \<noteq> None"
  using assms(1)
proof (induction cs arbitrary: errs w)
  case (Cons d cs)
  obtain r w1 where d: "rv_DeleteConfig sv d w = (r, w1)" by (rule prod.exhaust)
  have step: "delete_all sv (d # cs) (errs, w) = delete_all sv cs (err_join errs r, w1)" by (simp add: delete_all_def d)
  show ?case
  proof (cases "d = c")
    case True
    then have "r \<noteq> None" using assms(2) d by (metis fst_conv)
    then show ?thesis unfolding step using delete_all_err err_join_eq_None by metis
  qed (use Cons step in auto)
qed simp

text \<open>
  A rollout cannot delete a Config either when the client refuses the call, as the one of the controller does with the
  internal type the Configs are converted to (\<open>cmd/controller/main.go\<close> does not register it): the
  transaction has been confirmed by then.
\<close>
theorem refused_delete_blocks_rollout:
  assumes "c \<in> set (stored_configs (rc_outer e) (rc_inner e) del)" "\<forall>w. fst (rv_DeleteConfig (rc_sv e) c w) \<noteq> None"
  shows "fst (updateConfigFromAPIServer e upd del w) \<noteq> None"
  unfolding updateConfigFromAPIServer_def using delete_refused [OF assms] by (metis prod.exhaust)

text \<open>
  C34: A commit of \<open>config.sdcio.dev/v1alpha1\<close> Configs is rolled out as the removal of everything. The reader of the workspace
  takes only files whose apiVersion is the internal one, so such a commit counts as empty: the rollout runs
  a transaction over the targets of all Configs of the API server, and if it ends without an error asks the API
  server to delete every Config with target labels, each converted to the internal type, and to create
  none; if the transaction ends with an error it writes no Config.
\<close>
theorem rollout_of_v1alpha1_files_deletes_all:
  assumes lo: "mstore_laws (rc_outer e) lo" and li: "mstore_laws (rc_inner e) li" and d: "distinct (map ckey existing)"
    and files: "\<forall>f \<in> set files. case f of ConfigFile c \<Rightarrow> c_apiVersion c = ''config.sdcio.dev/v1alpha1'' | f \<Rightarrow> f = OtherFile"
    and sv: "rv_Checkout (rc_sv e) r w = (Inr files, w0)" "rv_ListConfigs (rc_sv e) w0 = (Inr existing, w1)"
    and run: "ro_reconcileApply (trace_rc e) ops order r (w, []) = Some (res, (w', calls))"
  shows "\<exists>y err. y = ro_run (rc_tx e) ops (ro_init (rc_tx e) (GetSkipUnavailableTarget r) (order {t. \<exists>c \<in> set existing. config_target c = Some t}))
    \<and> rs_main y = MReturned err \<and> XTransact (rs_log y) \<in> set calls
    \<and> (if err = None then \<exists>dels. filter final_call calls = map XDelete dels
          \<and> set dels = Convert_Config ` {c \<in> set existing. config_target c \<noteq> None}
       else filter final_call calls = [])"
proof -
  let ?o = "rc_outer e" and ?i = "rc_inner e" and ?targets = "{t. \<exists>c \<in> set existing. config_target c = Some t}"
  have "\<forall>f \<in> set files. case f of ConfigFile c \<Rightarrow> c_apiVersion c \<noteq> internal_apiVersion | f \<Rightarrow> f = OtherFile"
    using files by (auto simp: internal_apiVersion_def split: ws_file.splits)
  then have ex: "extractConfigsFromRepo ?o ?i files (ms_new ?o) = Some (Inr (ms_new ?o))" by (rule extract_ignores)
  have e: "stored_at lo li (ms_new ?o) t k = None" for t k by (simp add: stored_at_def mstore_lawsD(1) [OF lo])
  obtain del where del: "getToBeDeletedconfigs ?o ?i (ms_new ?o) existing = Inr del" "inhabited lo li del"
      "\<And>t k c'. stored_at lo li del t k = Some c' \<longleftrightarrow>
        (\<exists>c \<in> set existing. deletes lo li (ms_new ?o) t c \<and> ckey c = k \<and> c' = Convert_Config c)"
    using getToBeDeletedconfigs_eq [OF lo li d] by blast
  have targets: "calculateTargets ?o (ms_new ?o) del = ?targets"
    unfolding targets_of_deletion [OF lo del(2)] del(3) by (auto simp: deletes_def e)
  have dels: "set (stored_configs ?o ?i del) = Convert_Config ` {c \<in> set existing. config_target c \<noteq> None}"
    unfolding stored_configs_set [OF lo li] del(3) by (auto simp: deletes_def e)
  have none: "stored_configs ?o ?i (ms_new ?o) = []" by (simp add: stored_configs_def mstore_list_new [OF lo])
  have c: "rv_Checkout (trace_rv (rc_sv e)) r (w, []) = (Inr files, (w0, [XOther]))"
    "rv_ListConfigs (trace_rv (rc_sv e)) (w0, [XOther]) = (Inr existing, (w1, [XOther, XOther]))" using sv by (simp_all add: trace_rv_sel)
  note run = run [unfolded ro_reconcileApply_def Let_def trace_rc_sel c, simplified, unfolded ex, simplified, unfolded c, simplified, unfolded del(1), simplified, unfolded targets]
  obtain s err w2 cs2 where t: "TransactToAllTargets (trace_rc e) ops (order ?targets) (GetSkipUnavailableTarget r) (w1, [XOther, XOther])
      = Some ((s, err), (w2, cs2))" using run by (auto split: option.splits)
  obtain y where y: "y = ro_run (rc_tx e) ops (ro_init (rc_tx e) (GetSkipUnavailableTarget r) (order ?targets))"
      "rs_main y = MReturned err" "cs2 = [XOther, XOther, XTransact (rs_log y)]" using Transact_traced [OF t] by auto
  note run = run [unfolded t, simplified]
  have "XTransact (rs_log y) \<in> set calls \<and> (if err = None then filter final_call calls = map XDelete (stored_configs ?o ?i del)
     else filter final_call calls = [])"
  proof (cases err)
    case (Some er)
    with run y(3) have "ro_handleStatus (trace_rc e) r (Some s) (Failed (re_now (rc_tx e)) ''transaction failed'') False (Some er)
        (w2, [XOther, XOther, XTransact (rs_log y)]) = (res, (w', calls))" by simp
    from handleStatus_adds [OF this] Some show ?thesis by (auto simp: filter_empty_conv)
  next
    case None
    obtain uerr w3 cs3 where u: "updateConfigFromAPIServer (trace_rc e) (ms_new ?o) del (w2, cs2) = (uerr, (w3, cs3))" by (rule prod_cases3)
    then have "delete_all (trace_rv (rc_sv e)) (stored_configs ?o ?i del) (None, (w2, cs2)) = (uerr, (w3, cs3))"
      by (simp add: updateConfigFromAPIServer_def none create_configs_def)
    then have cs3: "cs3 = cs2 @ map XDelete (stored_configs ?o ?i del)" by (rule delete_all_calls)
    obtain cond q er where "ro_handleStatus (trace_rc e) r (Some s) cond q er (w3, cs3) = (res, (w', calls))"
      using run None u by (cases uerr) auto
    from handleStatus_adds [OF this] obtain new where new: "calls = cs3 @ new" "\<forall>c \<in> set new. unfinal c" by blast
    have "filter final_call new = []" using new(2) by (simp add: filter_empty_conv)
    moreover have "filter final_call (map XDelete xs) = map XDelete xs" for xs by (induction xs) simp_all
    ultimately show ?thesis using new(1) cs3 y(3) None by simp
  qed
  then show ?thesis using y(1,2) dels by (intro exI [of _ y] exI [of _ err]) auto
qed

lemma Reconcile_safe:
  assumes "ro_Reconcile (trace_rc e) ops order k (w, []) = Some (res, (w', cs))"
  shows "rc_new e ops order cs"
proof -
  let ?sv = "trace_rv (rc_sv e)"
  obtain gr w1 where g: "rv_Get ?sv k (w, []) = (gr, (w1, [XOther]))" by (cases "rv_Get (rc_sv e) k w") (simp add: trace_rv_sel)
  note run = assms [unfolded ro_Reconcile_def trace_rc_sel g]
  have pre: "rc_new e ops order cs" if "\<exists>new. cs = ([XOther] @ p) @ new \<and> rc_new e ops order new" "\<forall>c \<in> set p. unfinal c" for p
    using that rc_new_prepend [where pre = "[XOther] @ p"] by auto
  show ?thesis
  proof (cases gr)
    case (Inl er)
    with run have "cs = [XOther]" by simp
    then show ?thesis by (simp add: rc_new_quiet)
  next
    case (Inr r)
    show ?thesis
    proof (cases "m_deletionTimestamp (rx_meta r) \<noteq> None")
      case True
      with run Inr have "ro_reconcileDelete (trace_rc e) ops order r (w1, [XOther]) = Some (res, (w', cs))" by simp
      from delete_safe [OF this] pre [of "[]"] show ?thesis by simp
    next
      case False
      obtain ferr w2 cs2 where f: "AddFinalizer ro_finalizer (rv_ApplyFinalizers ?sv) (rx_meta r) (w1, [XOther]) = (ferr, (w2, cs2))"
        by (rule prod_cases3)
      obtain p where p: "cs2 = [XOther] @ p" "\<forall>c \<in> set p. unfinal c"
        using movesD [OF AddFinalizer_unfinal f] unfolding extends_def by blast
      note run = run [unfolded Inr, simplified] False
      show ?thesis
      proof (cases ferr)
        case (Some er)
        with run f have "ro_handleStatus (trace_rc e) r None (Conditions.Rollout (re_now (rc_tx e)) ''cannot add finalizer'') True (Some er) (w2, cs2)
            = (res, (w', cs))" by simp
        from handleStatus_adds [OF this] p show ?thesis by (auto simp: rc_new_def)
      next
        case None
        with run f p have "ro_reconcileApply (trace_rc e) ops order r (w2, [XOther] @ p) = Some (res, (w', cs))" by simp
        from apply_safe [OF this] p(2) pre show ?thesis by blast
      qed
    qed
  qed
qed


definition sample_deleted_rollout :: rollout where
  "sample_deleted_rollout = \<lparr>rx_meta = empty_meta\<lparr>m_name := ''r'', m_namespace := ''ns'', m_finalizers := [ro_finalizer],
     m_deletionTimestamp := Some 5\<rparr>, rx_ref = ''v1'', rx_skipUnavailableTarget = None, rx_conditions = [], rx_targets = None\<rparr>"

definition sample_delete_rc :: "((nsn \<times> rollout_target_status) list, unit, (nsn \<times> config) list, (nsn \<times> (nsn \<times> config) list) list, config list) rc_env" where
  "sample_delete_rc = sample_rc\<lparr>rc_sv := sample_services\<lparr>rv_Get := \<lambda>k w. (Inr sample_deleted_rollout, w)\<rparr>\<rparr>"

definition sample_delete_ops :: "unit ro_op list" where
  "sample_delete_ops = [RoMain (Inr True) False () [(''ns'', ''t'')], RoGo 0 (Answered None), RoGo 0 (Answered None),
     RoMain (Inr True) False () [(''ns'', ''t'')], RoMain (Inr True) False () [(''ns'', ''t'')]]"


definition sample_commit_rc :: "((nsn \<times> rollout_target_status) list, unit, (nsn \<times> config) list, (nsn \<times> (nsn \<times> config) list) list, config list) rc_env" where
  "sample_commit_rc = sample_rc\<lparr>rc_sv := sample_services\<lparr>rv_Checkout := \<lambda>r w. (Inr [OtherFile, ConfigFile (sample_config ''t'' ''a'')], w)\<rparr>\<rparr>"

lemma rollout_of_v1alpha1_files_deletes_all_witness:
  "\<exists>dels. filter final_call (snd (snd (the (ro_reconcileApply (trace_rc sample_commit_rc) sample_delete_ops (\<lambda>_. [(''ns'', ''t'')])
      sample_deleted_rollout ([sample_config ''t'' ''a'', sample_config ''t'' ''b''], []))))) = map XDelete dels
    \<and> set dels = Convert_Config ` {sample_config ''t'' ''a'', sample_config ''t'' ''b''}"
proof -
  let ?w = "[sample_config ''t'' ''a'', sample_config ''t'' ''b'']"
  let ?y = "ro_run (rc_tx sample_commit_rc) sample_delete_ops (ro_init (rc_tx sample_commit_rc) (GetSkipUnavailableTarget sample_deleted_rollout) [(''ns'', ''t'')])"
  have "ro_reconcileApply (trace_rc sample_commit_rc) sample_delete_ops (\<lambda>_. [(''ns'', ''t'')]) sample_deleted_rollout (?w, []) \<noteq> None" by code_simp
  then obtain res w' calls where run: "ro_reconcileApply (trace_rc sample_commit_rc) sample_delete_ops (\<lambda>_. [(''ns'', ''t'')])
      sample_deleted_rollout (?w, []) = Some (res, (w', calls))" by (metis option.exhaust prod.exhaust)
  have o: "mstore_laws (rc_outer sample_commit_rc) map_of" "mstore_laws (rc_inner sample_commit_rc) map_of"
    by (simp_all add: sample_commit_rc_def sample_rc_def alist_outer_def alist_inner_def alist_mstore_laws)
  have d: "distinct (map ckey ?w)" by code_simp
  have f: "\<forall>f \<in> set [OtherFile, ConfigFile (sample_config ''t'' ''a'')]. case f of ConfigFile c \<Rightarrow> c_apiVersion c = ''config.sdcio.dev/v1alpha1'' | f \<Rightarrow> f = OtherFile"
    by (simp add: sample_config_def)
  have c: "rv_Checkout (rc_sv sample_commit_rc) sample_deleted_rollout ?w = (Inr [OtherFile, ConfigFile (sample_config ''t'' ''a'')], ?w)"
    "rv_ListConfigs (rc_sv sample_commit_rc) ?w = (Inr ?w, ?w)" by (simp_all add: sample_commit_rc_def sample_services_def)
  have y: "rs_main ?y = MReturned None" by code_simp
  have t: "{c \<in> set ?w. config_target c \<noteq> None} = {sample_config ''t'' ''a'', sample_config ''t'' ''b''}"
    by (auto simp: config_target_def sample_config_def empty_meta_def TargetNameKey_def TargetNamespaceKey_def)
  have "\<exists>dels. filter final_call calls = map XDelete dels \<and> set dels = Convert_Config ` {c \<in> set ?w. config_target c \<noteq> None}"
    using rollout_of_v1alpha1_files_deletes_all [OF o d f c run] y by (auto split: if_splits)
  then show ?thesis unfolding t by (simp add: run)
qed

section \<open>A transaction returns\<close>

definition main_left :: "'s ro_sys \<Rightarrow> nat" where
  "main_left y = (case rs_main y of MLoop ts \<Rightarrow> length ts + 2 | MWait \<Rightarrow> 1 | MReturned err \<Rightarrow> 0)"

definition main_turn :: "'e ro_op \<Rightarrow> bool" where
  \<comment> \<open>a step of the main goroutine that, in the final \<open>select\<close>, sees the end of the context\<close>
  "main_turn op = (case op of RoMain ready timeout x order \<Rightarrow> timeout | _ \<Rightarrow> False)"

lemma main_left_go [simp]: "main_left (go_step e i a y) = main_left y"
  by (auto simp: main_left_def go_step_def Let_def split: prod.split go_pc.split option.split)

lemma main_left_select:
  assumes "rs_main y = MWait"
  shows "main_left (main_select e timeout x order y) \<le> 1" "rs_ctxDone y \<Longrightarrow> main_left (main_select e True x order y) = 0"
  using assms by (auto simp: main_select_def main_left_def split: prod.split list.split)

lemma main_left_unavailable: "main_left (unavailable e t ts msg what y) \<le> length ts + 2"
  by (simp add: unavailable_def Let_def main_left_def)

lemma main_left_loop:
  assumes "rs_main y = MLoop (t # ts)"
  shows "main_left (main_step e ready timeout x order y) \<le> length ts + 2"
proof (cases ready)
  case (Inl err)
  with assms show ?thesis by (simp add: main_step_def main_left_unavailable del: add_2_eq_Suc')
next
  case (Inr r)
  have started: "main_left (y\<lparr>rs_gos := g, rs_main := MLoop ts\<rparr>) \<le> length ts + 2" for g by (simp add: main_left_def)
  with assms Inr show ?thesis by (cases r) (simp_all add: main_step_def main_left_unavailable del: add_2_eq_Suc')
qed

lemma main_left_turn: "rs_ctxDone y \<Longrightarrow> main_left (main_step e ready True x order y) \<le> main_left y - 1"
proof (cases "rs_main y")
  case (MLoop ts)
  then show ?thesis
  proof (cases ts)
    case (Cons t ts')
    with MLoop main_left_loop [of y t ts' e ready True x order] show ?thesis by (simp add: main_left_def)
  qed (simp add: main_step_def main_left_def)
next
  case MWait
  assume "rs_ctxDone y"
  moreover have "main_step e ready True x order y = main_select e True x order y" using MWait by (simp add: main_step_def)
  ultimately show ?thesis using main_left_select(2) [OF MWait] by (metis zero_le)
qed (simp add: main_step_def main_left_def)

lemma main_left_main: "main_left (main_step e ready timeout x order y) \<le> main_left y"
proof (cases "rs_main y")
  case (MLoop ts)
  then show ?thesis
  proof (cases ts)
    case (Cons t ts')
    with MLoop main_left_loop [of y t ts' e ready timeout x order] show ?thesis by (simp add: main_left_def)
  qed (simp add: main_step_def main_left_def)
next
  case MWait
  then have "main_step e ready timeout x order y = main_select e timeout x order y" "main_left y = 1"
    by (simp_all add: main_step_def main_left_def)
  with main_left_select(1) [OF MWait] show ?thesis by metis
qed (simp add: main_step_def main_left_def)

lemma main_left_step:
  "main_left (ro_step e op y) \<le> main_left y" "rs_ctxDone y \<Longrightarrow> main_turn op \<Longrightarrow> main_left (ro_step e op y) \<le> main_left y - 1"
proof -
  show "main_left (ro_step e op y) \<le> main_left y" by (cases op) (simp_all add: main_left_main, simp add: main_left_def)
  show "rs_ctxDone y \<Longrightarrow> main_turn op \<Longrightarrow> main_left (ro_step e op y) \<le> main_left y - 1"
    by (cases op) (simp_all add: main_turn_def main_left_turn [unfolded One_nat_def])
qed

lemma main_left_run:
  "rs_ctxDone y \<Longrightarrow> main_left (ro_run e ops y) \<le> main_left y - length (filter main_turn ops)"
proof (induction ops arbitrary: y)
  case (Cons op ops)
  have "main_left (ro_run e ops (ro_step e op y)) \<le> main_left (ro_step e op y) - length (filter main_turn ops)"
    by (rule Cons.IH [OF ro_done_step [OF Cons.prems]])
  moreover have "main_left (ro_step e op y) \<le> main_left y - (if main_turn op then 1 else 0)"
    using main_left_step(1) [of e op y] main_left_step(2) [of y op e] Cons.prems by simp
  ultimately show ?case by (simp add: ro_run_def split: if_splits)
qed (simp add: ro_run_def)

lemma main_left_mono: "main_left (ro_run e ops y) \<le> main_left y"
proof (induction ops arbitrary: y)
  case (Cons op ops)
  show ?case using Cons [of "ro_step e op y"] main_left_step(1) [of e op y] by (simp add: ro_run_def)
qed (simp add: ro_run_def)

text \<open>
  C15: The global timeout ends every transaction: once it has expired, \<open>TransactToAllTargets\<close> returns after at most
  two steps of its main goroutine more than there are targets, whatever the goroutines of the targets do, also
  when the data-server never answers them.
\<close>
theorem transaction_returns:
  assumes "length ts + 2 \<le> length (filter main_turn after)"
  shows "\<exists>err. rs_main (ro_run e (before @ RoTimeout # after) (ro_init e skip ts)) = MReturned err"
proof -
  let ?y = "ro_run e before (ro_init e skip ts)"
  have split: "ro_run e (before @ RoTimeout # after) (ro_init e skip ts) = ro_run e after (?y\<lparr>rs_ctxDone := True\<rparr>)"
    by (simp add: ro_run_def)
  have "main_left ?y \<le> length ts + 2" using main_left_mono [of e before "ro_init e skip ts"] by (simp add: main_left_def ro_init_def)
  then have "main_left (?y\<lparr>rs_ctxDone := True\<rparr>) \<le> length ts + 2" by (simp add: main_left_def)
  then have "main_left (ro_run e after (?y\<lparr>rs_ctxDone := True\<rparr>)) = 0"
    using main_left_run [of "?y\<lparr>rs_ctxDone := True\<rparr>" e after] assms by simp
  then show ?thesis unfolding split by (simp add: main_left_def split: main_pc.splits)
qed

lemma transaction_returns_witness:
  "\<exists>err. rs_main (ro_run sample_rollout ([sample_main, RoGo 0 (Answered None)] @ RoTimeout # replicate 4 sample_main)
     (ro_init sample_rollout False sample_targets)) = MReturned err"
  by (rule transaction_returns) (simp add: sample_targets_def sample_main_def main_turn_def)

end
