(* ===== verification/Admission.thy ===== *)
theory Admission
  imports Registry
begin

text \<open>
  What the API server lets into its storage: the hooks of \<open>apis/config/*_resource.go\<close>, called by the strategies
  of \<open>pkg/registry/generic\<close> around the operations of theory \<open>Registry\<close>. The generic registry of
  \<open>apiserver-store\<close> prepares an object, validates it and, unless there are errors, hands it to the strategy;
  \<open>admitted\<close> is one such request. \<open>ResetObjectMetaForStatus\<close> and \<open>LabelSelectorAsSelector\<close> belong to
  Kubernetes and are arguments.
\<close>

section \<open>Field selectors\<close>

datatype sel_op = SelEquals | SelDoesNotExist | SelOther string

record field_req =
  fq_field :: string
  fq_op :: sel_op
  fq_value :: string

record ns_filter =
  nf_Name :: string
  nf_Namespace :: string

definition sel_op_string :: "sel_op \<Rightarrow> string" where
  "sel_op_string p = (case p of SelEquals \<Rightarrow> ''='' | SelDoesNotExist \<Rightarrow> ''!'' | SelOther s \<Rightarrow> s)"

definition NewBadRequest :: "string \<Rightarrow> goerr" where
  "NewBadRequest msg = \<lparr>e_msg = msg, e_code = None, e_api = Some ''BadRequest'', e_tx = None\<rparr>"

definition use_requirement :: "field_req \<Rightarrow> ns_filter \<Rightarrow> goerr + ns_filter" where
  \<comment> \<open>the body of the loop over the requirements\<close>
  "use_requirement q flt =
     (if (fq_op q = SelEquals \<or> fq_op q = SelDoesNotExist) \<and> fq_value q = []
      then Inl (NewBadRequest (''unsupported fieldSelector value '' @ go_quote (fq_value q) @ '' for field '' @ go_quote (fq_field q)
         @ '' with operator '' @ go_quote (sel_op_string (fq_op q))))
      else if \<not> (fq_op q = SelEquals \<or> fq_op q = SelDoesNotExist)
      then Inl (NewBadRequest (''unsupported fieldSelector operator '' @ go_quote (sel_op_string (fq_op q)) @ '' for field '' @ go_quote (fq_field q)))
      else if fq_field q = ''metadata.name'' then Inr (flt\<lparr>nf_Name := fq_value q\<rparr>)
      else if fq_field q = ''metadata.namespace'' then Inr (flt\<lparr>nf_Namespace := fq_value q\<rparr>)
      else Inl (NewBadRequest (''unknown fieldSelector field '' @ go_quote (fq_field q))))"

fun use_requirements :: "field_req list \<Rightarrow> ns_filter \<Rightarrow> goerr + ns_filter" where
  "use_requirements [] flt = Inr flt"
| "use_requirements (q # qs) flt = (case use_requirement q flt of Inl err \<Rightarrow> Inl err | Inr flt \<Rightarrow> use_requirements qs flt)"

definition no_filter :: ns_filter where "no_filter = \<lparr>nf_Name = [], nf_Namespace = []\<rparr>"

definition FieldSelector :: "string option \<Rightarrow> field_req list option \<Rightarrow> goerr + ns_filter" where
  \<comment> \<open>the first argument: the namespace of the request\<close>
  "FieldSelector ns sel =
     (case (case sel of None \<Rightarrow> Inr no_filter | Some qs \<Rightarrow> use_requirements qs no_filter) of
        Inl err \<Rightarrow> Inl err
      | Inr flt \<Rightarrow> Inr (case ns of Some n \<Rightarrow> if nf_Namespace flt = [] then flt\<lparr>nf_Namespace := n\<rparr> else flt | None \<Rightarrow> flt))"

definition filtered_out :: "ns_filter \<Rightarrow> ('sp, 'st) robj \<Rightarrow> bool" where
  \<comment> \<open>\<open>Filter\<close>\<close>
  "filtered_out flt obj =
     (if nf_Name flt \<noteq> [] \<and> m_name (ro_meta obj) \<noteq> nf_Name flt then True
      else if nf_Namespace flt \<noteq> [] \<and> m_namespace (ro_meta obj) \<noteq> nf_Namespace flt then True
      else False)"

fun parse_requirements :: "field_req list \<Rightarrow> ns_filter option \<Rightarrow> goerr + ns_filter option" where
  \<comment> \<open>the loop of \<open>ParseFieldSelector\<close>: every requirement starts from an empty filter\<close>
  "parse_requirements [] flt = Inr flt"
| "parse_requirements (q # qs) flt =
     (case use_requirement q no_filter of Inl err \<Rightarrow> Inl err | Inr f \<Rightarrow> parse_requirements qs (Some f))"

definition ParseFieldSelector :: "string option \<Rightarrow> field_req list option \<Rightarrow> goerr + ns_filter option" where
  "ParseFieldSelector ns sel =
     (case sel of
        None \<Rightarrow> Inr (map_option (\<lambda>n. \<lparr>nf_Name = [], nf_Namespace = n\<rparr>) ns)
      | Some qs \<Rightarrow>
          (case parse_requirements qs None of
             Inl err \<Rightarrow> Inl err
           | Inr flt \<Rightarrow> Inr (case ns of None \<Rightarrow> flt
               | Some n \<Rightarrow> Some (case flt of Some f \<Rightarrow> f\<lparr>nf_Namespace := n\<rparr> | None \<Rightarrow> \<lparr>nf_Name = [], nf_Namespace = n\<rparr>))))"

section \<open>Hooks of a Config\<close>

type_synonym cf_obj = "(config_spec, config_status) robj"

datatype field_err = FieldErr string string

definition FieldLabelConversion :: "string \<Rightarrow> string \<Rightarrow> (string \<times> string) option" where
  \<comment> \<open>\<open>None\<close>: not a known field selector\<close>
  "FieldLabelConversion label value =
     (if label = ''metadata.name'' then Some (label, value)
      else if label = ''metadata.namespace'' then Some (label, value) else None)"

definition cf_IsEqual :: "cf_obj \<Rightarrow> cf_obj \<Rightarrow> bool" where
  "cf_IsEqual obj old = (if ro_meta old \<noteq> ro_meta obj then False else ro_spec old = ro_spec obj)"

definition cf_IsStatusEqual :: "cf_obj \<Rightarrow> cf_obj \<Rightarrow> bool" where
  "cf_IsStatusEqual obj old = (ro_status old = ro_status obj)"

definition no_status :: config_status where
  "no_status = \<lparr>st_conditions = [], st_lastKnownGoodSchema = None, st_appliedConfig = None, st_deviationGeneration = None\<rparr>"

definition PrepareForCreate :: "cf_obj \<Rightarrow> cf_obj" where
  "PrepareForCreate obj = obj\<lparr>ro_status := no_status\<rparr>"

definition ValidateCreate :: "cf_obj \<Rightarrow> field_err list" where
  "ValidateCreate obj =
     (case GetTargetKey (m_labels (ro_meta obj)) of Inl err \<Rightarrow> [FieldErr ''metadata.labels'' (e_msg err)] | Inr k \<Rightarrow> [])
     @ (if sint (s_priority (ro_spec obj)) < 2 then [FieldErr ''spec.priority'' ''priority should be bigger 2''] else [])"

definition PrepareForUpdate :: "cf_obj \<Rightarrow> cf_obj \<Rightarrow> cf_obj" where
  "PrepareForUpdate obj old = obj\<lparr>ro_status := ro_status old\<rparr>"

definition key_string :: "okey \<Rightarrow> string" where "key_string k = fst k @ ''/'' @ snd k"

definition ValidateUpdate :: "cf_obj \<Rightarrow> cf_obj \<Rightarrow> field_err list" where
  "ValidateUpdate obj old =
     (let new = GetTargetKey (m_labels (ro_meta obj)); prev = GetTargetKey (m_labels (ro_meta old));
          errs = (case new of Inl err \<Rightarrow> [FieldErr ''metadata.labels'' (e_msg err)] | Inr k \<Rightarrow> [])
            @ (case prev of Inl err \<Rightarrow> [FieldErr ''metadata.labels'' (e_msg err)] | Inr k \<Rightarrow> []) in
      case (new, prev) of
        (Inr newKey, Inr oldKey) \<Rightarrow>
          (if key_string oldKey \<noteq> key_string newKey
           then [FieldErr ''metadata.labels'' (''target keys are immutable: oldKey: '' @ key_string oldKey @ '', newKey '' @ key_string newKey)]
           else [])
      | _ \<Rightarrow> errs)"

definition PrepareForStatusUpdate :: "(objmeta \<Rightarrow> objmeta \<Rightarrow> objmeta) \<Rightarrow> cf_obj \<Rightarrow> cf_obj \<Rightarrow> cf_obj" where
  \<comment> \<open>the meta data is reset to itself\<close>
  "PrepareForStatusUpdate reset obj old =
     (let obj = obj\<lparr>ro_spec := ro_spec old\<rparr> in obj\<lparr>ro_meta := reset (ro_meta obj) (ro_meta obj)\<rparr>)"

definition ValidateStatusUpdate :: "cf_obj \<Rightarrow> cf_obj \<Rightarrow> field_err list" where
  "ValidateStatusUpdate obj old = []"

definition cf_strategy :: "(okey \<Rightarrow> cf_obj \<Rightarrow> cf_obj \<times> goerr option) option \<Rightarrow> (okey \<Rightarrow> cf_obj \<Rightarrow> cf_obj \<Rightarrow> cf_obj \<times> goerr option) option
    \<Rightarrow> (okey \<Rightarrow> cf_obj \<Rightarrow> cf_obj \<times> goerr option) option \<Rightarrow> (config_spec, config_status, config_spec) strategy" where
  "cf_strategy dc du dd = \<lparr>sg_gr = ''configs.config.sdcio.dev'', sg_IsEqual = cf_IsEqual, sg_IsStatusEqual = cf_IsStatusEqual,
     sg_specU = id, sg_DryRunCreate = dc, sg_DryRunUpdate = du, sg_DryRunDelete = dd\<rparr>"

section \<open>Hooks of a ConfigSet\<close>

definition ConfigSet_Validate :: "('q \<Rightarrow> goerr option) \<Rightarrow> 'q \<Rightarrow> field_err list" where
  "ConfigSet_Validate parse q = (case parse q of Some err \<Rightarrow> [FieldErr ''spec.target.selector'' (e_msg err)] | None \<Rightarrow> [])"

definition ConfigSet_ValidateCreate :: "('q \<Rightarrow> goerr option) \<Rightarrow> 'q \<Rightarrow> 'q \<Rightarrow> 32 word \<Rightarrow> field_err list" where
  \<comment> \<open>\<open>proto\<close>: the selector of the receiver, the prototype the strategy was built with; \<open>q\<close>: that of the object\<close>
  "ConfigSet_ValidateCreate parse proto q priority =
     ConfigSet_Validate parse proto
     @ (if sint priority < 2 then [FieldErr ''spec.priority'' ''priority should be bigger 2''] else [])"

definition ConfigSet_ValidateUpdate :: "('q \<Rightarrow> goerr option) \<Rightarrow> 'q \<Rightarrow> 'q \<Rightarrow> field_err list" where
  "ConfigSet_ValidateUpdate parse proto q = ConfigSet_Validate parse proto"

section \<open>Requests\<close>

datatype cf_req = ReqCreate cf_obj | ReqUpdate cf_obj | ReqStatus cf_obj | ReqDelete okey

inductive admitted ::
  "(config_spec, config_status, config_spec) strategy \<Rightarrow> (objmeta \<Rightarrow> objmeta \<Rightarrow> objmeta) \<Rightarrow> (cf_obj, 's) obj_store
     \<Rightarrow> ('s \<Rightarrow> okey \<Rightarrow> cf_obj option) \<Rightarrow> (cf_obj, 's) registry \<Rightarrow> cf_req \<Rightarrow> (cf_obj, 's) registry \<Rightarrow> bool"
  for sg reset st look where
  create: "ValidateCreate (PrepareForCreate obj) = []
    \<Longrightarrow> admitted sg reset st look r (ReqCreate obj) (snd (rg_Create sg st (ro_key obj) (PrepareForCreate obj) False r))"
| update: "look (rg_store r) (ro_key obj) = Some old \<Longrightarrow> ValidateUpdate (PrepareForUpdate obj old) old = []
    \<Longrightarrow> admitted sg reset st look r (ReqUpdate obj) (snd (rg_Update sg st (ro_key obj) (PrepareForUpdate obj old) old False r))"
| status: "look (rg_store r) (ro_key obj) = Some old \<Longrightarrow> ValidateStatusUpdate (PrepareForStatusUpdate reset obj old) old = []
    \<Longrightarrow> admitted sg reset st look r (ReqStatus obj)
      (snd (rg_StatusUpdate sg st (ro_key obj) (PrepareForStatusUpdate reset obj old) old False r))"
| delete: "look (rg_store r) k = Some old
    \<Longrightarrow> admitted sg reset st look r (ReqDelete k) (snd (rg_Delete sg st k old False r))"

inductive_cases admittedE: "admitted sg reset st look r q r'"

inductive served ::
  "(config_spec, config_status, config_spec) strategy \<Rightarrow> (objmeta \<Rightarrow> objmeta \<Rightarrow> objmeta) \<Rightarrow> (cf_obj, 's) obj_store
     \<Rightarrow> ('s \<Rightarrow> okey \<Rightarrow> cf_obj option) \<Rightarrow> (cf_obj, 's) registry \<Rightarrow> cf_req list \<Rightarrow> (cf_obj, 's) registry \<Rightarrow> bool"
  for sg reset st look where
  none: "served sg reset st look r [] r"
| more: "served sg reset st look r qs r1 \<Longrightarrow> admitted sg reset st look r1 q r2 \<Longrightarrow> served sg reset st look r (qs @ [q]) r2"

section \<open>Stored Configs are well typed\<close>

definition target_of :: "cf_obj \<Rightarrow> string option" where
  "target_of obj = (case GetTargetKey (m_labels (ro_meta obj)) of Inl err \<Rightarrow> None | Inr k \<Rightarrow> Some (key_string k))"

definition config_typed :: "cf_obj \<Rightarrow> bool" where
  \<comment> \<open>its labels name a target in full\<close>
  "config_typed obj \<longleftrightarrow> target_of obj \<noteq> None"

definition create_refuses :: "(cf_obj, 's) obj_store \<Rightarrow> ('s \<Rightarrow> okey \<Rightarrow> cf_obj option) \<Rightarrow> bool" where
  \<comment> \<open>the backend does not create a key that it has\<close>
  "create_refuses st look \<longleftrightarrow> (\<forall>s k v. look s k \<noteq> None \<longrightarrow> fst (os_create st k v s) \<noteq> None)"

lemma target_of_labels: "m_labels (ro_meta a) = m_labels (ro_meta b) \<Longrightarrow> target_of a = target_of b"
  by (simp add: target_of_def)

lemma ValidateCreate_typed: "ValidateCreate obj = [] \<Longrightarrow> config_typed obj \<and> 2 \<le> sint (s_priority (ro_spec obj))"
  by (auto simp: ValidateCreate_def config_typed_def target_of_def split: sum.splits if_splits)

lemma ValidateUpdate_typed: "ValidateUpdate obj old = [] \<Longrightarrow> config_typed obj \<and> target_of obj = target_of old"
  by (auto simp: ValidateUpdate_def config_typed_def target_of_def Let_def split: sum.splits if_splits)

lemma hooks_labels [simp]:
  "m_labels (ro_meta (PrepareForCreate obj)) = m_labels (ro_meta obj)"
  "m_labels (ro_meta (PrepareForUpdate obj old)) = m_labels (ro_meta obj)"
  by (simp_all add: PrepareForCreate_def PrepareForUpdate_def)

lemma version_labels [simp]:
  "m_labels (ro_meta (setResourceVersion rv obj)) = m_labels (ro_meta obj)"
  "m_labels (ro_meta (setNextGeneration sg obj old)) = m_labels (ro_meta obj)"
  by (simp_all add: setResourceVersion_def setNextGeneration_def)

lemma stored_update:
  assumes ok: "store_ok st look"
  shows "look (rg_store (snd (rg_store_update st key obj r))) = look (rg_store r)
    \<or> (\<exists>o'. look (rg_store (snd (rg_store_update st key obj r))) = (look (rg_store r))(key \<mapsto> o')
        \<and> m_labels (ro_meta o') = m_labels (ro_meta obj) \<and> ro_spec o' = ro_spec obj \<and> ro_status o' = ro_status obj)"
proof -
  let ?r = "initRV st r"
  let ?obj = "setResourceVersion (FormatUint (al_current (rg_alloc ?r) + 1)) obj"
  obtain err s where u: "os_update st key ?obj (rg_store r) = (err, s)" by (rule prod.exhaust)
  have l: "look s = (if err = None then (look (rg_store r))(key \<mapsto> ?obj) else look (rg_store r))"
    using ok u unfolding store_ok_def by (metis fst_conv snd_conv)
  have "rg_store (snd (rg_store_update st key obj r)) = s"
    using u by (cases err) (simp_all add: rg_store_update_def rv_write_def Let_def)
  then show ?thesis using l by (cases err) (simp, intro disjI2 exI [of _ ?obj], simp_all add: setResourceVersion_def)
qed

lemma stored_create:
  assumes ok: "store_ok st look"
  shows "look (rg_store (snd (rg_Create sg st key obj False r))) = look (rg_store r)
    \<or> (\<exists>o'. fst (os_create st key o' (rg_store r)) = None
        \<and> look (rg_store (snd (rg_Create sg st key obj False r))) = (look (rg_store r))(key \<mapsto> o')
        \<and> m_labels (ro_meta o') = m_labels (ro_meta obj))"
proof -
  let ?r = "initRV st r"
  let ?obj = "setResourceVersion (FormatUint (al_current (rg_alloc ?r) + 1)) obj"
  obtain err s where u: "os_create st key ?obj (rg_store r) = (err, s)" by (rule prod.exhaust)
  have l: "look s = (if err = None then (look (rg_store r))(key \<mapsto> ?obj) else look (rg_store r))"
    using ok u unfolding store_ok_def by (metis fst_conv snd_conv)
  have "rg_store (snd (rg_Create sg st key obj False r)) = s"
    using u by (cases err) (simp_all add: rg_Create_def rv_write_def Let_def)
  then show ?thesis using l u by (cases err) (simp, intro disjI2 exI [of _ ?obj], simp_all)
qed

lemma stored_delete:
  assumes ok: "store_ok st look"
  shows "look (rg_store (snd (rg_Delete sg st key obj False r))) = look (rg_store r)
    \<or> look (rg_store (snd (rg_Delete sg st key obj False r))) = (look (rg_store r))(key := None)"
proof -
  obtain err s where u: "os_delete st key (rg_store r) = (err, s)" by (rule prod.exhaust)
  have l: "look s = (if err = None then (look (rg_store r))(key := None) else look (rg_store r))"
    using ok u unfolding store_ok_def by (metis fst_conv snd_conv)
  have "rg_store (snd (rg_Delete sg st key obj False r)) = s"
    using u by (cases err) (simp_all add: rg_Delete_def rv_write_def Let_def)
  with l show ?thesis by auto
qed

declare split_paired_All [simp del] split_paired_Ex [simp del]

definition status_labels_ok :: "('s \<Rightarrow> okey \<Rightarrow> cf_obj option) \<Rightarrow> (cf_obj, 's) registry \<Rightarrow> cf_req \<Rightarrow> bool" where
  \<comment> \<open>a status request that names the target its Config had at the start\<close>
  "status_labels_ok look r q = (case q of ReqStatus obj \<Rightarrow> config_typed obj
       \<and> (\<forall>o'. look (rg_store r) (ro_key obj) = Some o' \<longrightarrow> target_of obj = target_of o') | _ \<Rightarrow> True)"

lemma admitted_stored:
  assumes ok: "store_ok st look" and cr: "create_refuses st look" and reset: "\<forall>m. reset m m = m"
    and step: "admitted sg reset st look r q r'"
  shows "look (rg_store r') k = look (rg_store r) k
    \<or> look (rg_store r') k = None \<and> q = ReqDelete k
    \<or> (\<exists>o'. look (rg_store r') k = Some o' \<and> (
        (\<exists>obj. q = ReqCreate obj \<and> look (rg_store r) k = None \<and> config_typed o')
      \<or> (\<exists>obj old. q = ReqUpdate obj \<and> look (rg_store r) k = Some old \<and> config_typed o' \<and> target_of o' = target_of old)
      \<or> (\<exists>obj. q = ReqStatus obj \<and> k = ro_key obj \<and> target_of o' = target_of obj)))"
  using step
proof (cases rule: admitted.cases)
  case (create obj)
  from stored_create [OF ok, of sg "ro_key obj" "PrepareForCreate obj" r] show ?thesis
  proof (elim disjE exE conjE)
    fix o' assume o': "fst (os_create st (ro_key obj) o' (rg_store r)) = None"
      "look (rg_store (snd (rg_Create sg st (ro_key obj) (PrepareForCreate obj) False r))) = (look (rg_store r))(ro_key obj \<mapsto> o')"
      "m_labels (ro_meta o') = m_labels (ro_meta (PrepareForCreate obj))"
    have "look (rg_store r) (ro_key obj) = None" using cr o'(1) unfolding create_refuses_def by blast
    moreover have "config_typed o'" using ValidateCreate_typed [OF create(3)] target_of_labels [OF o'(3)] by (simp add: config_typed_def)
    ultimately show ?thesis using create(1,2) o'(2) by (cases "k = ro_key obj") auto
  qed (use create(2) in simp)
next
  case (update obj old)
  let ?obj = "PrepareForUpdate obj old"
  note v = ValidateUpdate_typed [OF update(4)]
  show ?thesis
  proof (cases "sg_IsEqual sg ?obj old")
    case True
    then show ?thesis using update(2) by (simp add: rg_Update_def)
  next
    case False
    then have r': "r' = snd (rg_store_update st (ro_key obj) (setNextGeneration sg ?obj old) r)" using update(2) by (simp add: rg_Update_def)
    from stored_update [OF ok, of "ro_key obj" "setNextGeneration sg ?obj old" r] show ?thesis
    proof (elim disjE exE conjE)
      fix o' assume o': "look (rg_store (snd (rg_store_update st (ro_key obj) (setNextGeneration sg ?obj old) r))) = (look (rg_store r))(ro_key obj \<mapsto> o')"
        "m_labels (ro_meta o') = m_labels (ro_meta (setNextGeneration sg ?obj old))"
      have "config_typed o' \<and> target_of o' = target_of old"
        using v target_of_labels [of o' ?obj] o'(2) unfolding config_typed_def version_labels by metis
      then show ?thesis using update(1,3) o'(1) r' by (cases "k = ro_key obj") auto
    qed (use r' in simp)
  qed
next
  case (status obj old)
  let ?obj = "PrepareForStatusUpdate reset obj old"
  have lab: "m_labels (ro_meta ?obj) = m_labels (ro_meta obj)" using reset by (simp add: PrepareForStatusUpdate_def Let_def)
  show ?thesis
  proof (cases "sg_IsStatusEqual sg ?obj old")
    case True
    then show ?thesis using status(2) by (simp add: rg_StatusUpdate_def)
  next
    case False
    then have r': "r' = snd (rg_store_update st (ro_key obj) ?obj r)" using status(2) by (simp add: rg_StatusUpdate_def)
    from stored_update [OF ok, of "ro_key obj" ?obj r] show ?thesis
    proof (elim disjE exE conjE)
      fix o' assume o': "look (rg_store (snd (rg_store_update st (ro_key obj) ?obj r))) = (look (rg_store r))(ro_key obj \<mapsto> o')"
        "m_labels (ro_meta o') = m_labels (ro_meta ?obj)"
      have "target_of o' = target_of obj" using target_of_labels [of o' obj] o'(2) lab by simp
      then show ?thesis using status(1) o'(1) r' by (cases "k = ro_key obj") auto
    qed (use r' in simp)
  qed
next
  case (delete k' old)
  from stored_delete [OF ok, of sg k' old r] show ?thesis
    using delete(1,2) by (cases "k = k'") auto
qed

lemma served_typed:
  assumes ok: "store_ok st look" "create_refuses st look" "\<forall>m. reset m m = m" and run: "served sg reset st look r qs r'"
  shows "\<forall>k obj. look (rg_store r) k = Some obj \<longrightarrow> config_typed obj \<Longrightarrow> \<forall>q \<in> set qs. status_labels_ok look r q
    \<Longrightarrow> (\<forall>k obj. look (rg_store r') k = Some obj \<longrightarrow> config_typed obj)
      \<and> (\<forall>k o1 o2. ReqDelete k \<notin> set qs \<longrightarrow> look (rg_store r) k = Some o1 \<longrightarrow> look (rg_store r') k = Some o2 \<longrightarrow> target_of o2 = target_of o1)
      \<and> (\<forall>k o1. ReqDelete k \<notin> set qs \<longrightarrow> look (rg_store r) k = Some o1 \<longrightarrow> look (rg_store r') k \<noteq> None)"
  using run
proof (induction rule: served.induct)
  case none
  then show ?case by simp
next
  case (more r qs r1 q r2)
  then have ih1: "\<And>k obj. look (rg_store r1) k = Some obj \<Longrightarrow> config_typed obj"
    and ih2: "\<And>k o1 o2. ReqDelete k \<notin> set qs \<Longrightarrow> look (rg_store r) k = Some o1 \<Longrightarrow> look (rg_store r1) k = Some o2 \<Longrightarrow> target_of o2 = target_of o1"
    and ih3: "\<And>k o1. ReqDelete k \<notin> set qs \<Longrightarrow> look (rg_store r) k = Some o1 \<Longrightarrow> look (rg_store r1) k \<noteq> None"
    and q: "status_labels_ok look r q" by auto
  note step = admitted_stored [OF ok more.hyps(2)]
  have "config_typed obj" if "look (rg_store r2) k = Some obj" for k obj
    using step [of k] that ih1 [of k] q by (auto simp: status_labels_ok_def config_typed_def)
  moreover have "target_of o2 = target_of o1"
    if nd: "ReqDelete k \<notin> set (qs @ [q])" and first: "look (rg_store r) k = Some o1" and last: "look (rg_store r2) k = Some o2" for k o1 o2
  proof -
    have d: "ReqDelete k \<notin> set qs" "q \<noteq> ReqDelete k" using nd by auto
    obtain mid where mid: "look (rg_store r1) k = Some mid" using ih3 [OF d(1) first] by blast
    show ?thesis using step [of k] first last ih2 [OF d(1) first mid] mid d(2) q by (auto simp: status_labels_ok_def)
  qed
  moreover have "look (rg_store r2) k \<noteq> None" if "ReqDelete k \<notin> set (qs @ [q])" "look (rg_store r) k = Some o1" for k o1
    using step [of k] ih3 [of k o1] that by auto
  ultimately show ?case by blast
qed

text \<open>
  C35: Type of the stored Configs. If every stored Config names its target in full, they all do after any run of
  admitted requests, and a Config that is not deleted is still there and still names the target it named at
  the start, provided the status requests leave the labels of the target alone.
\<close>
theorem stored_configs_typed:
  assumes "store_ok st look" "create_refuses st look" "\<forall>m. reset m m = m" "served sg reset st look r qs r'"
    "\<forall>k obj. look (rg_store r) k = Some obj \<longrightarrow> config_typed obj" "\<forall>q \<in> set qs. status_labels_ok look r q"
  shows "(\<forall>k obj. look (rg_store r') k = Some obj \<longrightarrow> config_typed obj)
    \<and> (\<forall>k obj. ReqDelete k \<notin> set qs \<longrightarrow> look (rg_store r) k = Some obj
        \<longrightarrow> (\<exists>obj'. look (rg_store r') k = Some obj' \<and> target_of obj' = target_of obj))"
  using served_typed [OF assms(1-4) assms(5,6)] by (metis not_Some_eq)

definition cf_backend :: "(cf_obj, (okey \<times> cf_obj) list) obj_store" where
  \<comment> \<open>a map in memory\<close>
  "cf_backend = \<lparr>
     os_get = (\<lambda>k s. case map_of s k of None \<Rightarrow> Inl (err_new ''not found'') | Some v \<Rightarrow> Inr v),
     os_create = (\<lambda>k v s. if map_of s k \<noteq> None then (Some (err_new ''already exists''), s) else (None, AList.update k v s)),
     os_update = (\<lambda>k v s. (None, AList.update k v s)), os_delete = (\<lambda>k s. (None, AList.delete k s)),
     os_list = (\<lambda>s. (None, AList.clearjunk s))\<rparr>"

lemma cf_backend_ok: "store_ok cf_backend map_of" "create_refuses cf_backend map_of"
  by (auto simp: store_ok_def create_refuses_def cf_backend_def isl_def update_conv' delete_conv' distinct_clearjunk map_of_clearjunk
      split: option.split)

definition sample_cf :: "string \<Rightarrow> cf_obj" where
  "sample_cf target = \<lparr>ro_meta = empty_meta\<lparr>m_name := ''c'', m_namespace := ''ns'',
       m_labels := [(TargetNameKey, target), (TargetNamespaceKey, ''ns'')]\<rparr>,
     ro_spec = \<lparr>s_lifecycle = None, s_priority = 10, s_revertive = None, s_config = []\<rparr>, ro_status = no_status\<rparr>"

lemma sample_cf_labels [simp]:
  "m_labels (ro_meta (sample_cf t)) = [(TargetNameKey, t), (TargetNamespaceKey, ''ns'')]"
  "m_namespace (ro_meta (sample_cf t)) = ''ns''" "m_name (ro_meta (sample_cf t)) = ''c''"
  by (simp_all add: sample_cf_def)

definition cf_empty :: "(cf_obj, (okey \<times> cf_obj) list) registry" where "cf_empty = rg_new []"

lemma stored_configs_typed_witness:
  "\<exists>r'. served (cf_strategy None None None) (\<lambda>m x. x) cf_backend map_of cf_empty [ReqCreate (sample_cf ''t'')] r'
    \<and> (\<forall>k obj. map_of (rg_store r') k = Some obj \<longrightarrow> config_typed obj)
    \<and> (\<forall>k obj. ReqDelete k \<notin> set [ReqCreate (sample_cf ''t'')] \<longrightarrow> map_of (rg_store cf_empty) k = Some obj
        \<longrightarrow> (\<exists>obj'. map_of (rg_store r') k = Some obj' \<and> target_of obj' = target_of obj))"
proof -
  let ?sg = "cf_strategy None None None" and ?obj = "sample_cf ''t''"
  have "ValidateCreate (PrepareForCreate ?obj) = []" by code_simp
  then have "admitted ?sg (\<lambda>m x. x) cf_backend map_of cf_empty (ReqCreate ?obj)
      (snd (rg_Create ?sg cf_backend (ro_key ?obj) (PrepareForCreate ?obj) False cf_empty))" by (rule admitted.create)
  from served.more [OF served.none this]
  have run: "served ?sg (\<lambda>m x. x) cf_backend map_of cf_empty [ReqCreate ?obj]
      (snd (rg_Create ?sg cf_backend (ro_key ?obj) (PrepareForCreate ?obj) False cf_empty))" by simp
  have t: "\<forall>k obj. map_of (rg_store cf_empty) k = Some obj \<longrightarrow> config_typed obj" by (simp add: cf_empty_def rg_new_def)
  have q: "\<forall>q \<in> set [ReqCreate ?obj]. status_labels_ok map_of cf_empty q" by (simp add: status_labels_ok_def)
  have i: "\<forall>m. (\<lambda>m x. x) m m = m" by simp
  show ?thesis by (rule exI, rule conjI, rule run, rule stored_configs_typed [OF cf_backend_ok i run t q])
qed

text \<open>
  The status subresource is a way around this: \<open>PrepareForStatusUpdate\<close> resets the meta data of the new object
  to itself instead of to that of the stored one, so a status request that changes the status stores its own
  labels, and with them another target or none, unvalidated.
\<close>
theorem status_request_stores_its_labels:
  assumes "store_ok st look" "\<forall>m. reset m m = m" "look (rg_store r) (ro_key obj) = Some old"
    "\<not> sg_IsStatusEqual sg (PrepareForStatusUpdate reset obj old) old" "\<forall>k v s. fst (os_update st k v s) = None"
  shows "\<exists>r' stored. admitted sg reset st look r (ReqStatus obj) r' \<and> look (rg_store r') (ro_key obj) = Some stored
    \<and> m_labels (ro_meta stored) = m_labels (ro_meta obj) \<and> ro_spec stored = ro_spec old"
proof -
  let ?obj = "PrepareForStatusUpdate reset obj old"
  let ?r' = "snd (rg_StatusUpdate sg st (ro_key obj) ?obj old False r)"
  let ?new = "setResourceVersion (FormatUint (al_current (rg_alloc (initRV st r)) + 1)) ?obj"
  have o: "m_labels (ro_meta ?obj) = m_labels (ro_meta obj)" "ro_spec ?obj = ro_spec old"
    using assms(2) by (simp_all add: PrepareForStatusUpdate_def Let_def)
  obtain s where u: "os_update st (ro_key obj) ?new (rg_store r) = (None, s)"
    using assms(5) by (metis prod.collapse)
  have l: "look s = (look (rg_store r))(ro_key obj \<mapsto> ?new)"
    using assms(1) u unfolding store_ok_def by (metis fst_conv snd_conv)
  have "rg_store ?r' = s" using assms(4) u by (simp add: rg_StatusUpdate_def rg_store_update_def rv_write_def Let_def)
  then have "look (rg_store ?r') (ro_key obj) = Some ?new" using l by simp
  moreover have "m_labels (ro_meta ?new) = m_labels (ro_meta obj)" "ro_spec ?new = ro_spec old"
    using o by (simp_all add: setResourceVersion_def)
  moreover have "admitted sg reset st look r (ReqStatus obj) ?r'"
    by (rule admitted.status [where look = look and obj = obj and r = r, OF assms(3)]) (simp add: ValidateStatusUpdate_def)
  ultimately show ?thesis by blast
qed

lemma status_request_stores_its_labels_witness:
  "\<exists>r' stored. admitted (cf_strategy None None None) (\<lambda>m x. x) cf_backend map_of
      (rg_new [((''ns'', ''c''), sample_cf ''t'')]) (ReqStatus (sample_cf ''u''\<lparr>ro_status := no_status\<lparr>st_deviationGeneration := Some 1\<rparr>\<rparr>)) r'
    \<and> map_of (rg_store r') (''ns'', ''c'') = Some stored
    \<and> m_labels (ro_meta stored) = [(TargetNameKey, ''u''), (TargetNamespaceKey, ''ns'')] \<and> ro_spec stored = ro_spec (sample_cf ''t'')"
proof -
  let ?obj = "sample_cf ''u''\<lparr>ro_status := no_status\<lparr>st_deviationGeneration := Some 1\<rparr>\<rparr>"
  have k: "ro_key ?obj = (''ns'', ''c'')" by (simp add: sample_cf_def)
  have l: "map_of (rg_store (rg_new [((''ns'', ''c''), sample_cf ''t'')])) (ro_key ?obj) = Some (sample_cf ''t'')"
    by (simp add: k rg_new_def)
  have "\<not> sg_IsStatusEqual (cf_strategy None None None) (PrepareForStatusUpdate (\<lambda>m x. x) ?obj (sample_cf ''t'')) (sample_cf ''t'')"
    by (simp add: cf_strategy_def cf_IsStatusEqual_def PrepareForStatusUpdate_def Let_def sample_cf_def no_status_def)
  moreover have "\<forall>k v s. fst (os_update cf_backend k v s) = None" by (simp add: cf_backend_def)
  ultimately show ?thesis
    using status_request_stores_its_labels [OF cf_backend_ok(1) _ l] unfolding k by simp
qed

text \<open>
  An update is not asked for its priority: what \<open>ValidateCreate\<close> refuses, \<open>ValidateUpdate\<close> lets in. And the
  selector of a ConfigSet is never looked at: the hooks read that of the prototype.
\<close>

lemma priority_not_validated_on_update:
  "ValidateUpdate (obj\<lparr>ro_spec := sp\<rparr>) old = ValidateUpdate obj old"
  "sint (s_priority sp) < 2 \<Longrightarrow> ValidateCreate (obj\<lparr>ro_spec := sp\<rparr>) \<noteq> []"
  by (simp_all add: ValidateUpdate_def ValidateCreate_def)

lemma configset_selector_not_validated:
  "parse proto = None \<Longrightarrow> ConfigSet_ValidateUpdate parse proto q = []"
  "parse proto = None \<Longrightarrow> 2 \<le> sint priority \<Longrightarrow> ConfigSet_ValidateCreate parse proto q priority = []"
  by (simp_all add: ConfigSet_ValidateUpdate_def ConfigSet_ValidateCreate_def ConfigSet_Validate_def)

section \<open>What a field selector selects\<close>

definition req_holds :: "('sp, 'st) robj \<Rightarrow> field_req \<Rightarrow> bool" where
  "req_holds obj q = ((if fq_field q = ''metadata.name'' then m_name (ro_meta obj) else m_namespace (ro_meta obj)) = fq_value q)"

lemma use_requirement_ok:
  assumes "use_requirement q flt = Inr flt'"
  shows "fq_value q \<noteq> []" "fq_field q = ''metadata.name'' \<or> fq_field q = ''metadata.namespace''"
    "flt' = (if fq_field q = ''metadata.name'' then flt\<lparr>nf_Name := fq_value q\<rparr> else flt\<lparr>nf_Namespace := fq_value q\<rparr>)"
  using assms by (auto simp: use_requirement_def split: if_splits)

lemma findD: "find P xs = Some x \<Longrightarrow> x \<in> set xs \<and> P x"
  by (induction xs) (auto split: if_splits)

lemma use_requirements_spec:
  assumes "use_requirements qs flt = Inr flt'" "distinct (map fq_field qs)"
  shows "nf_Name flt' = (case find (\<lambda>q. fq_field q = ''metadata.name'') qs of Some q \<Rightarrow> fq_value q | None \<Rightarrow> nf_Name flt)
    \<and> nf_Namespace flt' = (case find (\<lambda>q. fq_field q = ''metadata.namespace'') qs of Some q \<Rightarrow> fq_value q | None \<Rightarrow> nf_Namespace flt)
    \<and> (\<forall>q \<in> set qs. fq_value q \<noteq> [] \<and> (fq_field q = ''metadata.name'' \<or> fq_field q = ''metadata.namespace''))"
  using assms
proof (induction qs arbitrary: flt)
  case (Cons q qs)
  obtain f1 where f1: "use_requirement q flt = Inr f1" "use_requirements qs f1 = Inr flt'"
    using Cons.prems(1) by (auto split: sum.splits)
  note q = use_requirement_ok [OF f1(1)]
  have absent: "find (\<lambda>p. fq_field p = fq_field q) qs = None"
    using Cons.prems(2) by (auto simp: find_None_iff) (metis image_eqI)
  show ?case
  proof (cases "fq_field q = ''metadata.name''")
    case True
    then show ?thesis using Cons.IH [OF f1(2)] Cons.prems(2) q absent by (simp split: option.split)
  next
    case False
    then have "fq_field q = ''metadata.namespace''" using q(2) by simp
    then show ?thesis using Cons.IH [OF f1(2)] Cons.prems(2) q absent by (simp split: option.split)
  qed
qed simp

lemma find_field: "distinct (map fq_field qs) \<Longrightarrow> q \<in> set qs \<Longrightarrow> find (\<lambda>p. fq_field p = fq_field q) qs = Some q"
proof (induction qs)
  case (Cons p qs)
  then show ?case by (cases "p = q") (auto intro: rev_image_eqI)
qed simp

text \<open>
  A field selector selects what it says: with one requirement per field, an object passes the filter
  exactly when it meets every requirement and, unless a namespace is required, lies in the namespace of
  the request.
\<close>
theorem FieldSelector_exact:
  assumes "FieldSelector ns (Some qs) = Inr flt" "distinct (map fq_field qs)" "ns \<noteq> Some []"
  shows "\<not> filtered_out flt obj \<longleftrightarrow> (\<forall>q \<in> set qs. req_holds obj q)
    \<and> ((\<forall>q \<in> set qs. fq_field q \<noteq> ''metadata.namespace'') \<longrightarrow> ns = None \<or> ns = Some (m_namespace (ro_meta obj)))"
proof -
  obtain f where f: "use_requirements qs no_filter = Inr f"
      "flt = (case ns of Some n \<Rightarrow> if nf_Namespace f = [] then f\<lparr>nf_Namespace := n\<rparr> else f | None \<Rightarrow> f)"
    using assms(1) by (auto simp: FieldSelector_def split: sum.splits)
  note spec = use_requirements_spec [OF f(1) assms(2)]
  have holds: "(\<forall>q \<in> set qs. req_holds obj q) \<longleftrightarrow> (nf_Name f \<noteq> [] \<longrightarrow> m_name (ro_meta obj) = nf_Name f)
      \<and> (nf_Namespace f \<noteq> [] \<longrightarrow> m_namespace (ro_meta obj) = nf_Namespace f)"
    (is "?l \<longleftrightarrow> ?r")
  proof
    assume l: ?l
    show ?r
    proof (intro conjI impI)
      assume "nf_Name f \<noteq> []"
      then obtain p where "find (\<lambda>q. fq_field q = ''metadata.name'') qs = Some p" "nf_Name f = fq_value p"
        using spec by (cases "find (\<lambda>q. fq_field q = ''metadata.name'') qs") (simp_all add: no_filter_def)
      with l findD [OF this(1)] show "m_name (ro_meta obj) = nf_Name f" by (auto simp: req_holds_def)
    next
      assume "nf_Namespace f \<noteq> []"
      then obtain p where "find (\<lambda>q. fq_field q = ''metadata.namespace'') qs = Some p" "nf_Namespace f = fq_value p"
        using spec by (cases "find (\<lambda>q. fq_field q = ''metadata.namespace'') qs") (simp_all add: no_filter_def)
      with l findD [OF this(1)] show "m_namespace (ro_meta obj) = nf_Namespace f" by (auto simp: req_holds_def)
    qed
  next
    assume r: ?r
    show ?l
    proof
      fix q assume q: "q \<in> set qs"
      then have "find (\<lambda>p. fq_field p = fq_field q) qs = Some q" using find_field [OF assms(2)] by blast
      with q spec r show "req_holds obj q" by (auto simp: req_holds_def)
    qed
  qed
  have ns: "(\<forall>q \<in> set qs. fq_field q \<noteq> ''metadata.namespace'') \<longleftrightarrow> nf_Namespace f = []"
  proof (cases "find (\<lambda>q. fq_field q = ''metadata.namespace'') qs")
    case None
    then have "nf_Namespace f = []" using spec by (simp add: no_filter_def)
    with None show ?thesis by (auto simp: find_None_iff)
  next
    case (Some p)
    then show ?thesis using spec findD [OF Some] by auto
  qed
  show ?thesis unfolding holds ns f(2) using assms(3) by (auto simp: filtered_out_def split: option.split)
qed

lemma FieldSelector_exact_witness:
  "\<not> filtered_out \<lparr>nf_Name = ''c'', nf_Namespace = ''ns''\<rparr> (sample_cf ''t'') \<longleftrightarrow>
    (\<forall>q \<in> set [\<lparr>fq_field = ''metadata.name'', fq_op = SelEquals, fq_value = ''c''\<rparr>]. req_holds (sample_cf ''t'') q)
    \<and> ((\<forall>q \<in> set [\<lparr>fq_field = ''metadata.name'', fq_op = SelEquals, fq_value = ''c''\<rparr>]. fq_field q \<noteq> ''metadata.namespace'')
      \<longrightarrow> Some ''ns'' = None \<or> Some ''ns'' = Some (m_namespace (ro_meta (sample_cf ''t''))))"
  by (rule FieldSelector_exact) (simp_all add: FieldSelector_def use_requirement_def no_filter_def)

text \<open>
  \<open>ParseFieldSelector\<close>, which the running configs and config blames use, starts from an empty filter at every
  requirement: of several only the last counts.
\<close>

lemma parse_keeps_last:
  "parse_requirements (qs @ [q]) flt = Inr res \<Longrightarrow> \<exists>f. use_requirement q no_filter = Inr f \<and> res = Some f"
  by (induction qs arbitrary: flt) (auto split: sum.splits)

end
