(* ===== verification/Hosts.thy ===== *)
theory Hosts
  imports TargetDatastore
begin

text \<open>
  What a discovery rule scans: the API type with its helpers (\<open>apis/inv/v1alpha1\<close>: \<open>discoveryrule_types.go\<close>,
  \<open>discoveryrule_helpers.go\<close>, \<open>discoveryrule_parameters.go\<close>) and the iterators over its hosts
  (\<open>pkg/discovery/discoveryrule\<close>: \<open>hosts.go\<close>, \<open>hosts_svc.go\<close>, \<open>hosts_pod.go\<close>). The parsed prefix of
  \<open>iputil\<close>, label selectors and text templates are arguments.
\<close>

section \<open>The rule\<close>

record schema_key =
  kp_Provider :: string
  kp_Version :: string

record dr_prefix =
  px_Prefix :: string
  px_Excludes :: "string list"

record dr_address =
  ad_Address :: string
  ad_HostName :: string

record disc_profile =
  dp_Credentials :: string
  dp_ConnectionProfiles :: "string list"

record target_profile =
  tp_Credentials :: string
  tp_ConnectionProfile :: string
  tp_SyncProfile :: "string option"

record target_template =
  tt_Annotations :: "string gomap"
  tt_Labels :: "string gomap"

record disc_params =
  pm_DefaultSchema :: "schema_key option"
  pm_DiscoveryProfile :: "disc_profile option"
  pm_TargetConnectionProfiles :: "target_profile list"
  pm_TargetTemplate :: "target_template option"
  pm_Period :: int
  pm_ConcurrentScans :: int

text \<open>\<open>'q\<close>: a label selector as the API carries it.\<close>

record 'q drule =
  dl_apiVersion :: string
  dl_kind :: string
  dl_meta :: objmeta
  dl_Prefixes :: "dr_prefix list"
  dl_Addresses :: "dr_address list"
  dl_PodSelector :: "'q option"
  dl_SvcSelector :: "'q option"
  dl_ServiceDomain :: string
  dl_params :: disc_params
  dl_conditions :: "condition list"

datatype dr_kind = KindPrefix | KindAddress | KindPod | KindSvc

definition kind_string :: "dr_kind \<Rightarrow> string" where
  "kind_string k = (case k of KindPrefix \<Rightarrow> ''prefix'' | KindAddress \<Rightarrow> ''address'' | KindPod \<Rightarrow> ''pod'' | KindSvc \<Rightarrow> ''svc'')"

definition discovery_kinds :: "'q drule \<Rightarrow> dr_kind list" where
  \<comment> \<open>the slice \<open>GetDiscoveryKind\<close> collects\<close>
  "discovery_kinds r = (if length (dl_Addresses r) \<noteq> 0 then [KindAddress] else [])
     @ (if length (dl_Prefixes r) \<noteq> 0 then [KindPrefix] else [])
     @ (if dl_PodSelector r \<noteq> None then [KindPod] else []) @ (if dl_SvcSelector r \<noteq> None then [KindSvc] else [])"

definition GetDiscoveryKind :: "'q drule \<Rightarrow> goerr + dr_kind" where
  "GetDiscoveryKind r =
     (case discovery_kinds r of
        [] \<Rightarrow> Inl (err_new ''a discovery rule need specify either addresses, prefixes, podSelector or serviceSelector, got neither of them'')
      | [k] \<Rightarrow> Inr k
      | ks \<Rightarrow> Inl (err_new (''a discovery rule can only have 1 discovery kind, got: ['' @ join_sep '' '' (map kind_string ks) @ '']'')))"

definition Discovery :: "'q drule \<Rightarrow> bool" where
  "Discovery r = (pm_DefaultSchema (dl_params r) = None)"

section \<open>Its parameters\<close>

definition Parameters_Validate :: "disc_params \<Rightarrow> goerr option" where
  "Parameters_Validate p =
     (case pm_DefaultSchema p of
        Some s \<Rightarrow> (if kp_Provider s = [] \<or> kp_Version s = []
           then Some (err_new (''a default schema needs a provider and version, got provider: '' @ kp_Provider s @ '', version: '' @ kp_Version s))
           else None)
      | None \<Rightarrow>
          (case pm_DiscoveryProfile p of
             None \<Rightarrow> Some (err_new ''cannot discover without a discovery profile'')
           | Some d \<Rightarrow> err_join
               (if dp_Credentials d = [] then Some (err_new ''cannot discover without a secret in the discovery profile'') else None)
               (if length (dp_ConnectionProfiles d) = 0 then Some (err_new ''cannot discover without a connectionProfile in the discovery profile'') else None)))"

definition GetPeriod :: "disc_params \<Rightarrow> int" where
  \<comment> \<open>nanoseconds\<close>
  "GetPeriod p = (if pm_Period p = 0 then 60 * 1000000000 else pm_Period p)"

definition GetConcurrentScans :: "disc_params \<Rightarrow> int" where
  "GetConcurrentScans p = (if pm_ConcurrentScans p = 0 then 10 else pm_ConcurrentScans p)"

definition LabelKeyDiscoveryRule :: string where
  "LabelKeyDiscoveryRule = ''inv.sdcio.dev/discovery-rule''"

fun tag_loop :: "(string \<Rightarrow> string \<Rightarrow> goerr + string) \<Rightarrow> string gomap \<Rightarrow> string gomap \<Rightarrow> goerr + string gomap" where
  "tag_loop tpl [] cm = Inr cm"
| "tag_loop tpl ((k, v) # m) cm = (case tpl k v of Inl err \<Rightarrow> Inl err | Inr s \<Rightarrow> tag_loop tpl m (gm_put k s cm))"

definition buildTags :: "(string \<Rightarrow> string \<Rightarrow> goerr + string) \<Rightarrow> string gomap \<Rightarrow> string \<Rightarrow> goerr + string gomap" where
  \<comment> \<open>\<open>tpl k v\<close>: the template \<open>v\<close> named \<open>k\<close>, parsed and executed without data\<close>
  "buildTags tpl m name = tag_loop tpl m [(LabelKeyDiscoveryRule, name)]"

definition GetTargetLabels :: "(string \<Rightarrow> string \<Rightarrow> goerr + string) \<Rightarrow> disc_params \<Rightarrow> string \<Rightarrow> goerr + string gomap" where
  "GetTargetLabels tpl p name =
     (case pm_TargetTemplate p of None \<Rightarrow> Inr [(LabelKeyDiscoveryRule, name)] | Some t \<Rightarrow> buildTags tpl (tt_Labels t) name)"

definition GetTargetAnnotations :: "(string \<Rightarrow> string \<Rightarrow> goerr + string) \<Rightarrow> disc_params \<Rightarrow> string \<Rightarrow> goerr + string gomap" where
  "GetTargetAnnotations tpl p name =
     (case pm_TargetTemplate p of None \<Rightarrow> Inr [(LabelKeyDiscoveryRule, name)] | Some t \<Rightarrow> buildTags tpl (tt_Annotations t) name)"

section \<open>Addresses and prefixes\<close>

datatype addr = NoAddr | V4 "32 word" | V6 "128 word"

text \<open>A \<open>netip.Addr\<close> without zone; \<open>NoAddr\<close>: an invalid one.\<close>

definition addr_Next :: "addr \<Rightarrow> addr" where
  \<comment> \<open>the address after the last of a family is invalid\<close>
  "addr_Next a = (case a of NoAddr \<Rightarrow> NoAddr | V4 w \<Rightarrow> if w = - 1 then NoAddr else V4 (w + 1)
     | V6 w \<Rightarrow> if w = - 1 then NoAddr else V6 (w + 1))"

record ip_prefix =
  ip_First :: addr
  ip_Contains :: "addr \<Rightarrow> bool"

text \<open>
  What the code uses of an \<open>iputil.Prefix\<close>: \<open>GetFirstIPAddress\<close> and \<open>Contains\<close>, which no invalid address
  passes (\<open>netip\<close>).
\<close>

definition contains :: "ip_prefix \<Rightarrow> addr \<Rightarrow> bool" where
  "contains p a \<longleftrightarrow> a \<noteq> NoAddr \<and> ip_Contains p a"

record hprefix =
  hp_prefix :: ip_prefix
  hp_excludes :: "ip_prefix list"
  hp_hostName :: string

fun parse_list :: "(string \<Rightarrow> goerr + ip_prefix) \<Rightarrow> string list \<Rightarrow> goerr + ip_prefix list" where
  \<comment> \<open>the inner loop of \<open>getPrefixes\<close>\<close>
  "parse_list new [] = Inr []"
| "parse_list new (s # ss) = (case new s of Inl err \<Rightarrow> Inl err
     | Inr p \<Rightarrow> (case parse_list new ss of Inl err \<Rightarrow> Inl err | Inr ps \<Rightarrow> Inr (p # ps)))"

fun getPrefixes :: "(string \<Rightarrow> goerr + ip_prefix) \<Rightarrow> dr_prefix list \<Rightarrow> goerr + hprefix list" where
  \<comment> \<open>\<open>new\<close>: \<open>iputil.New\<close>; the host name is not set\<close>
  "getPrefixes new [] = Inr []"
| "getPrefixes new (d # ds) =
     (case new (px_Prefix d) of Inl err \<Rightarrow> Inl err
      | Inr p \<Rightarrow>
          (case parse_list new (px_Excludes d) of Inl err \<Rightarrow> Inl err
           | Inr es \<Rightarrow> (case getPrefixes new ds of Inl err \<Rightarrow> Inl err
               | Inr hs \<Rightarrow> Inr (\<lparr>hp_prefix = p, hp_excludes = es, hp_hostName = []\<rparr> # hs))))"

definition isExcluded :: "addr \<Rightarrow> ip_prefix list \<Rightarrow> bool" where
  "isExcluded a excludes = list_ex (\<lambda>p. contains p a) excludes"

section \<open>Iterators\<close>

record host_info =
  h_defaultSchema :: "schema_key option"
  h_Address :: string
  h_hostName :: string

record prefix_iterator =
  it_prefix :: hprefix
  it_init :: bool
  it_curAddr :: addr

definition it_advance :: "prefix_iterator \<Rightarrow> prefix_iterator" where
  "it_advance r = (if it_init r then r\<lparr>it_curAddr := ip_First (hp_prefix (it_prefix r)), it_init := False\<rparr>
     else r\<lparr>it_curAddr := addr_Next (it_curAddr r)\<rparr>)"

definition addr_left :: "addr \<Rightarrow> nat" where
  "addr_left a = (case a of NoAddr \<Rightarrow> 0 | V4 w \<Rightarrow> 2 ^ 32 - unat w | V6 w \<Rightarrow> 2 ^ 128 - unat w)"

definition it_left :: "prefix_iterator \<Rightarrow> nat" where
  "it_left r = (if it_init r then Suc (2 ^ 128) else addr_left (it_curAddr r))"

lemma unat_Suc: "w \<noteq> - 1 \<Longrightarrow> unat (w + 1) = Suc (unat w)" for w :: "'a::len word"
  by (metis add.commute add_eq_0_iff unatSuc)

lemma unat_bound: "unat w < 2 ^ LENGTH('a)" for w :: "'a::len word"
  by (rule unsigned_less)

lemma addr_left_Next: "addr_Next a \<noteq> NoAddr \<Longrightarrow> addr_left (addr_Next a) < addr_left a"
proof (cases a)
  case (V4 w)
  assume "addr_Next a \<noteq> NoAddr"
  then show ?thesis using V4 unat_bound [of w] by (auto simp: addr_Next_def addr_left_def unat_Suc split: if_splits)
next
  case (V6 w)
  assume "addr_Next a \<noteq> NoAddr"
  then show ?thesis using V6 unat_bound [of w] by (auto simp: addr_Next_def addr_left_def unat_Suc split: if_splits)
qed (simp add: addr_Next_def)

lemma addr_left_bound: "addr_left a \<le> 2 ^ 128"
proof (cases a)
  case (V4 w)
  have "(2::nat) ^ 32 \<le> 2 ^ 128" by (rule power_increasing) simp_all
  then show ?thesis using V4 by (simp add: addr_left_def)
qed (simp_all add: addr_left_def)

lemma it_left_advance: "it_curAddr (it_advance r) \<noteq> NoAddr \<Longrightarrow> it_left (it_advance r) < it_left r"
  using addr_left_bound [of "ip_First (hp_prefix (it_prefix r))"] addr_left_Next [of "it_curAddr r"]
  by (auto simp: it_advance_def it_left_def)

function prefix_Next :: "(addr \<Rightarrow> string) \<Rightarrow> prefix_iterator \<Rightarrow> host_info option \<times> prefix_iterator" where
  \<comment> \<open>\<open>prefixIterator.Next\<close>; \<open>None\<close>: no further address\<close>
  "prefix_Next str r =
     (let r' = it_advance r in
      if contains (hp_prefix (it_prefix r')) (it_curAddr r')
      then if isExcluded (it_curAddr r') (hp_excludes (it_prefix r')) then prefix_Next str r'
        else (Some \<lparr>h_defaultSchema = None, h_Address = str (it_curAddr r'), h_hostName = hp_hostName (it_prefix r')\<rparr>, r')
      else (None, r'))"
  by pat_completeness auto
termination
  by (relation "measure (\<lambda>(str, r). it_left r)") (auto simp: contains_def intro: it_left_advance)

declare prefix_Next.simps [simp del]

function host_Next :: "(addr \<Rightarrow> string) \<Rightarrow> prefix_iterator list \<times> nat \<Rightarrow> host_info option \<times> (prefix_iterator list \<times> nat)" where
  \<comment> \<open>\<open>hostIterator.Next\<close>\<close>
  "host_Next str (its, idx) =
     (if idx < length its
      then case prefix_Next str (its ! idx) of
          (None, r) \<Rightarrow> host_Next str (its[idx := r], Suc idx)
        | (Some h, r) \<Rightarrow> (Some h, (its[idx := r], idx))
      else (None, (its, idx)))"
  by pat_completeness auto
termination
  by (relation "measure (\<lambda>(str, (its, idx)). length its - idx)") auto

declare host_Next.simps [simp del]

definition newHostIterator :: "hprefix list \<Rightarrow> prefix_iterator list \<times> nat" where
  "newHostIterator ps = (map (\<lambda>p. \<lparr>it_prefix = p, it_init = True, it_curAddr = NoAddr\<rparr>) ps, 0)"

text \<open>The iterator over given addresses starts before the first.\<close>

datatype iterator = HostIterator "prefix_iterator list \<times> nat" | AddrIterator "schema_key option" "dr_address list" int

definition newIterator :: "dr_address list \<Rightarrow> schema_key option \<Rightarrow> iterator" where
  "newIterator addresses defaultSchema = AddrIterator defaultSchema addresses (- 1)"

definition address_host :: "schema_key option \<Rightarrow> dr_address \<Rightarrow> host_info" where
  \<comment> \<open>both branches of the code take the address for a missing name\<close>
  "address_host ds a = \<lparr>h_defaultSchema = ds, h_Address = ad_Address a,
     h_hostName = (if ad_HostName a = [] then ad_Address a else ad_HostName a)\<rparr>"

fun iter_Next :: "(addr \<Rightarrow> string) \<Rightarrow> iterator \<Rightarrow> host_info option \<times> iterator" where
  "iter_Next str (HostIterator s) = (case host_Next str s of (h, s) \<Rightarrow> (h, HostIterator s))"
| "iter_Next str (AddrIterator ds addresses index) =
     (let index = index + 1 in
      if index < int (length addresses) then (Some (address_host ds (addresses ! nat index)), AddrIterator ds addresses index)
      else (None, AddrIterator ds addresses index))"

section \<open>All hosts\<close>

definition hosts_left :: "prefix_iterator list \<times> nat \<Rightarrow> nat" where
  "hosts_left s = sum_list (map it_left (drop (snd s) (fst s)))"

fun iter_left :: "iterator \<Rightarrow> nat" where
  "iter_left (HostIterator s) = hosts_left s"
| "iter_left (AddrIterator ds addresses index) = nat (int (length addresses) - index)"

lemma prefix_Next_left: "prefix_Next str r = (Some h, r') \<Longrightarrow> it_left r' < it_left r"
proof (induction str r rule: prefix_Next.induct)
  case (1 str r)
  let ?r = "it_advance r"
  have c: "contains (hp_prefix (it_prefix ?r)) (it_curAddr ?r)"
    using 1(2) by (subst (asm) prefix_Next.simps) (auto simp: Let_def split: if_splits)
  then have less: "it_left ?r < it_left r" by (simp add: contains_def it_left_advance)
  show ?case
  proof (cases "isExcluded (it_curAddr ?r) (hp_excludes (it_prefix ?r))")
    case True
    then have "prefix_Next str ?r = (Some h, r')" using 1(2) c by (subst (asm) prefix_Next.simps) (simp add: Let_def)
    from 1(1) [OF refl c True this] less show ?thesis by simp
  next
    case False
    then have "r' = ?r" using 1(2) c by (subst (asm) prefix_Next.simps) (simp add: Let_def)
    with less show ?thesis by simp
  qed
qed

lemma host_Next_left: "host_Next str s = (Some h, s') \<Longrightarrow> hosts_left s' < hosts_left s"
proof (induction str s rule: host_Next.induct)
  case (1 str its idx)
  have i: "idx < length its" using 1(2) by (subst (asm) host_Next.simps) (simp split: if_splits)
  then have d: "drop idx its = its ! idx # drop (Suc idx) its" by (simp add: Cons_nth_drop_Suc)
  obtain h' r where p: "prefix_Next str (its ! idx) = (h', r)" by fastforce
  show ?case
  proof (cases h')
    case None
    then have n: "host_Next str (its[idx := r], Suc idx) = (Some h, s')"
      using 1(2) i p by (subst (asm) host_Next.simps) simp
    from 1(1) [OF i p [symmetric, unfolded None] refl n] d show ?thesis by (simp add: hosts_left_def)
  next
    case (Some h1)
    then have s: "s' = (its[idx := r], idx)" using 1(2) i p by (subst (asm) host_Next.simps) simp
    have "drop idx (its[idx := r]) = r # drop (Suc idx) its" using i by (simp add: drop_update_swap Cons_nth_drop_Suc [symmetric])
    with s d prefix_Next_left [OF p [unfolded Some]] show ?thesis by (simp add: hosts_left_def)
  qed
qed

lemma iter_Next_left: "iter_Next str it = (Some h, it') \<Longrightarrow> iter_left it' < iter_left it"
  by (cases it) (auto simp: Let_def host_Next_left split: prod.splits if_splits)

function all_hosts :: "(addr \<Rightarrow> string) \<Rightarrow> iterator \<Rightarrow> host_info list" where
  \<comment> \<open>\<open>for h, ok := it.Next(); ok; h, ok = it.Next()\<close>\<close>
  "all_hosts str it = (case iter_Next str it of (None, it') \<Rightarrow> [] | (Some h, it') \<Rightarrow> h # all_hosts str it')"
  by pat_completeness auto
termination
  by (relation "measure (\<lambda>(str, it). iter_left it)") (auto intro: iter_Next_left [OF sym])

declare all_hosts.simps [simp del]

definition getHosts :: "(string \<Rightarrow> goerr + ip_prefix) \<Rightarrow> (addr \<Rightarrow> string) \<Rightarrow> dr_prefix list \<Rightarrow> goerr + string list" where
  "getHosts new str ds =
     (case getPrefixes new ds of Inl err \<Rightarrow> Inl err
      | Inr ps \<Rightarrow> Inr (map h_Address (all_hosts str (HostIterator (newHostIterator ps)))))"

section \<open>The addresses of a prefix\<close>

fun addr_less :: "addr \<Rightarrow> addr \<Rightarrow> bool" where
  \<comment> \<open>within one family\<close>
  "addr_less (V4 v) (V4 w) = (v < w)"
| "addr_less (V6 v) (V6 w) = (v < w)"
| "addr_less _ _ = False"

abbreviation addr_le :: "addr \<Rightarrow> addr \<Rightarrow> bool" where "addr_le a b \<equiv> a = b \<or> addr_less a b"

definition convex :: "ip_prefix \<Rightarrow> bool" where
  \<comment> \<open>what is between two addresses of a prefix is in it\<close>
  "convex p \<longleftrightarrow> (\<forall>a b c. contains p a \<longrightarrow> contains p c \<longrightarrow> addr_le a b \<longrightarrow> addr_le b c \<longrightarrow> contains p b)"

lemma addr_less_trans: "addr_less a b \<Longrightarrow> addr_less b c \<Longrightarrow> addr_less a c"
  by (induction a b rule: addr_less.induct; cases c) auto

lemma addr_less_irrefl [simp]: "\<not> addr_less a a"
  by (cases a) auto

lemma word_inc: "v < w \<Longrightarrow> v \<noteq> - 1" "v < w \<Longrightarrow> v + 1 \<le> w" for v w :: "'a::len word"
proof -
  assume l: "v < w"
  show n: "v \<noteq> - 1" using l word_n1_ge leD by blast
  show "v + 1 \<le> w" using l unat_Suc [OF n] by (simp add: word_le_nat_alt word_less_nat_alt)
qed

lemma addr_Next_greater: "addr_Next a \<noteq> NoAddr \<Longrightarrow> addr_less a (addr_Next a)"
  by (cases a) (auto simp: addr_Next_def word_less_nat_alt unat_Suc split: if_splits)

lemma addr_Next_least: "addr_less a b \<Longrightarrow> addr_le (addr_Next a) b"
proof (induction a b rule: addr_less.induct)
  case (1 v w)
  then have "v < w" by simp
  from word_inc [OF this] show ?case by (auto simp: addr_Next_def)
next
  case (2 v w)
  then have "v < w" by simp
  from word_inc [OF this] show ?case by (auto simp: addr_Next_def)
qed simp_all

function pfx_addrs :: "prefix_iterator \<Rightarrow> addr list" where
  \<comment> \<open>the addresses an iterator passes, the excluded ones too\<close>
  "pfx_addrs r = (let r' = it_advance r in if contains (hp_prefix (it_prefix r')) (it_curAddr r') then it_curAddr r' # pfx_addrs r' else [])"
  by pat_completeness auto
termination
  by (relation "measure it_left") (auto simp: contains_def intro: it_left_advance)

declare pfx_addrs.simps [simp del]

lemma it_advance_sel [simp]: "it_prefix (it_advance r) = it_prefix r" "\<not> it_init (it_advance r)"
  "it_init r \<Longrightarrow> it_curAddr (it_advance r) = ip_First (hp_prefix (it_prefix r))"
  "\<not> it_init r \<Longrightarrow> it_curAddr (it_advance r) = addr_Next (it_curAddr r)"
  by (simp_all add: it_advance_def)

lemma pfx_addrs_running:
  assumes "convex (hp_prefix (it_prefix r))" "\<not> it_init r" "contains (hp_prefix (it_prefix r)) (it_curAddr r)"
  shows "sorted_wrt addr_less (it_curAddr r # pfx_addrs r)
    \<and> set (pfx_addrs r) = {a. contains (hp_prefix (it_prefix r)) a \<and> addr_less (it_curAddr r) a}"
  using assms
proof (induction r rule: pfx_addrs.induct)
  case (1 r)
  let ?p = "hp_prefix (it_prefix r)" and ?c = "it_curAddr r" and ?n = "addr_Next (it_curAddr r)"
  show ?case
  proof (cases "contains ?p ?n")
    case True
    then have eq: "pfx_addrs r = ?n # pfx_addrs (it_advance r)" using 1(3) by (subst pfx_addrs.simps) (simp add: Let_def)
    have IH: "sorted_wrt addr_less (?n # pfx_addrs (it_advance r))
        \<and> set (pfx_addrs (it_advance r)) = {a. contains ?p a \<and> addr_less ?n a}"
      using 1(1) [OF refl, unfolded it_advance_sel(1) it_advance_sel(4) [OF 1(3)], OF True 1(2) it_advance_sel(2) True] .
    have less: "addr_less ?c ?n" using True by (intro addr_Next_greater) (simp add: contains_def)
    have S: "set (pfx_addrs r) = {a. contains ?p a \<and> addr_less ?c a}"
    proof (rule set_eqI)
      fix a
      have "a \<in> set (pfx_addrs r) \<longleftrightarrow> a = ?n \<or> contains ?p a \<and> addr_less ?n a"
        unfolding eq by (simp add: conjunct2 [OF IH])
      also have "\<dots> \<longleftrightarrow> contains ?p a \<and> addr_less ?c a"
        using True less addr_Next_least [of ?c a] addr_less_trans [OF less, of a] by blast
      finally show "a \<in> set (pfx_addrs r) \<longleftrightarrow> a \<in> {a. contains ?p a \<and> addr_less ?c a}" by simp
    qed
    moreover have "sorted_wrt addr_less (pfx_addrs r)" unfolding eq using IH by (rule conjunct1)
    ultimately show ?thesis unfolding sorted_wrt.simps by blast
  next
    case False
    then have eq: "pfx_addrs r = []" using 1(3) by (subst pfx_addrs.simps) (simp add: Let_def)
    have "\<not> (contains ?p a \<and> addr_less ?c a)" for a
    proof
      assume a: "contains ?p a \<and> addr_less ?c a"
      then have le: "addr_le ?n a" by (intro addr_Next_least) simp
      show False
      proof (cases "?n = NoAddr")
        case True
        then have "a = NoAddr" using le by (cases a) auto
        then show False using a by (simp add: contains_def)
      next
        case False
        then have "addr_le ?c ?n" using addr_Next_greater by blast
        then show False using 1(2,4) a le \<open>\<not> contains ?p ?n\<close> unfolding convex_def by blast
      qed
    qed
    then show ?thesis unfolding eq by auto
  qed
qed

lemma pfx_addrs_new:
  assumes "convex (hp_prefix p)" "contains (hp_prefix p) (ip_First (hp_prefix p))"
  shows "sorted_wrt addr_less (pfx_addrs \<lparr>it_prefix = p, it_init = True, it_curAddr = NoAddr\<rparr>)
    \<and> set (pfx_addrs \<lparr>it_prefix = p, it_init = True, it_curAddr = NoAddr\<rparr>) = {a. contains (hp_prefix p) a \<and> addr_le (ip_First (hp_prefix p)) a}"
proof -
  let ?r = "\<lparr>it_prefix = p, it_init = True, it_curAddr = NoAddr\<rparr>"
  have eq: "pfx_addrs ?r = ip_First (hp_prefix p) # pfx_addrs (it_advance ?r)"
    using assms(2) by (subst pfx_addrs.simps) (simp add: Let_def)
  have sel: "it_prefix ?r = p" "it_init ?r" by simp_all
  note run = pfx_addrs_running [of "it_advance ?r", unfolded it_advance_sel(1) it_advance_sel(3) [OF sel(2)] sel(1),
    OF assms(1) it_advance_sel(2) assms(2)]
  then have "set (pfx_addrs ?r) = {a. contains (hp_prefix p) a \<and> addr_le (ip_First (hp_prefix p)) a}"
    unfolding eq using assms(2) by fastforce
  with run show ?thesis unfolding eq by blast
qed

definition prefix_host :: "(addr \<Rightarrow> string) \<Rightarrow> hprefix \<Rightarrow> addr \<Rightarrow> host_info" where
  "prefix_host str p a = \<lparr>h_defaultSchema = None, h_Address = str a, h_hostName = hp_hostName p\<rparr>"

definition scanned :: "prefix_iterator \<Rightarrow> addr list" where
  "scanned r = filter (\<lambda>a. \<not> isExcluded a (hp_excludes (it_prefix r))) (pfx_addrs r)"

lemma prefix_Next_scanned:
  "prefix_Next str r = (h, r') \<Longrightarrow> it_prefix r' = it_prefix r
    \<and> (case h of None \<Rightarrow> scanned r = []
       | Some hi \<Rightarrow> scanned r = it_curAddr r' # scanned r' \<and> hi = prefix_host str (it_prefix r) (it_curAddr r'))"
proof (induction str r rule: prefix_Next.induct)
  case (1 str r)
  let ?r = "it_advance r"
  show ?case
  proof (cases "contains (hp_prefix (it_prefix ?r)) (it_curAddr ?r)")
    case c: True
    then have p: "pfx_addrs r = it_curAddr ?r # pfx_addrs ?r" by (subst pfx_addrs.simps) (simp add: Let_def)
    show ?thesis
    proof (cases "isExcluded (it_curAddr ?r) (hp_excludes (it_prefix ?r))")
      case True
      then have n: "prefix_Next str ?r = (h, r')" using 1(2) c by (subst (asm) prefix_Next.simps) (simp add: Let_def)
      have "scanned r = scanned ?r" using True unfolding scanned_def p by simp
      with 1(1) [OF refl c True n] show ?thesis by (simp split: option.split_asm)
    next
      case False
      then have "prefix_Next str r = (Some (prefix_host str (it_prefix r) (it_curAddr ?r)), ?r)"
        using c by (subst prefix_Next.simps) (simp add: Let_def prefix_host_def)
      then have "h = Some (prefix_host str (it_prefix r) (it_curAddr ?r))" "r' = ?r" using 1(2) by simp_all
      moreover have "scanned r = it_curAddr ?r # scanned ?r" using False unfolding scanned_def p by simp
      ultimately show ?thesis by simp
    qed
  next
    case False
    then have "pfx_addrs r = []" by (subst pfx_addrs.simps) (simp add: Let_def)
    moreover have "prefix_Next str r = (None, ?r)" using False by (subst prefix_Next.simps) (simp add: Let_def)
    then have "h = None" "r' = ?r" using 1(2) by simp_all
    ultimately show ?thesis by (simp add: scanned_def)
  qed
qed

definition all_scanned :: "(addr \<Rightarrow> string) \<Rightarrow> prefix_iterator list \<Rightarrow> host_info list" where
  "all_scanned str its = concat (map (\<lambda>r. map (prefix_host str (it_prefix r)) (scanned r)) its)"

lemma host_Next_scanned:
  "host_Next str s = (h, s') \<Longrightarrow>
    (case h of None \<Rightarrow> all_scanned str (drop (snd s) (fst s)) = []
     | Some hi \<Rightarrow> all_scanned str (drop (snd s) (fst s)) = hi # all_scanned str (drop (snd s') (fst s')))"
proof (induction str s rule: host_Next.induct)
  case (1 str its idx)
  show ?case
  proof (cases "idx < length its")
    case i: True
    then have d: "drop idx its = its ! idx # drop (Suc idx) its" by (simp add: Cons_nth_drop_Suc)
    obtain h' r where p: "prefix_Next str (its ! idx) = (h', r)" by fastforce
    note sc = prefix_Next_scanned [OF p]
    show ?thesis
    proof (cases h')
      case None
      then have n: "host_Next str (its[idx := r], Suc idx) = (h, s')"
        using 1(2) i p by (subst (asm) host_Next.simps) simp
      from 1(1) [OF i p [symmetric, unfolded None] refl n] d sc None show ?thesis
        by (simp add: all_scanned_def split: option.splits)
    next
      case (Some h1)
      then have "host_Next str (its, idx) = (Some h1, (its[idx := r], idx))" using i p by (subst host_Next.simps) simp
      then have s: "s' = (its[idx := r], idx)" "h = Some h1" using 1(2) by simp_all
      have "drop idx (its[idx := r]) = r # drop (Suc idx) its" using i by (simp add: drop_update_swap Cons_nth_drop_Suc [symmetric])
      with s d sc Some show ?thesis by (simp add: all_scanned_def)
    qed
  next
    case False
    then have "h = None" using 1(2) by (subst (asm) host_Next.simps) simp
    with False show ?thesis by (simp add: all_scanned_def)
  qed
qed

lemma all_hosts_scanned: "all_hosts str (HostIterator s) = all_scanned str (drop (snd s) (fst s))"
proof (induction "hosts_left s" arbitrary: s rule: less_induct)
  case less
  obtain h s' where n: "host_Next str s = (h, s')" by (rule prod.exhaust)
  show ?case
  proof (cases h)
    case None
    then show ?thesis using host_Next_scanned [OF n] n by (subst all_hosts.simps) simp
  next
    case (Some hi)
    then show ?thesis using host_Next_scanned [OF n] n less [OF host_Next_left [OF n [unfolded Some]]]
      by (subst all_hosts.simps) simp
  qed
qed

lemma all_hosts_addresses:
  "- 1 \<le> i \<Longrightarrow> all_hosts str (AddrIterator ds as i) = map (address_host ds) (drop (nat (i + 1)) as)"
proof (induction "nat (int (length as) - i)" arbitrary: i rule: less_induct)
  case less
  show ?case
  proof (cases "i + 1 < int (length as)")
    case True
    then have "all_hosts str (AddrIterator ds as (i + 1)) = map (address_host ds) (drop (nat (i + 1 + 1)) as)"
      using less(2) by (intro less(1)) auto
    moreover have "nat (i + 1 + 1) = Suc (nat (i + 1))" using less(2) by simp
    moreover have "drop (nat (i + 1)) as = as ! nat (i + 1) # drop (Suc (nat (i + 1))) as"
      using True less(2) by (intro Cons_nth_drop_Suc [symmetric]) auto
    ultimately show ?thesis using True by (subst all_hosts.simps) (simp add: Let_def)
  next
    case False
    then show ?thesis using less(2) by (subst all_hosts.simps) (simp add: Let_def)
  qed
qed

corollary all_hosts_newIterator: "all_hosts str (newIterator as ds) = map (address_host ds) as"
  by (simp add: newIterator_def all_hosts_addresses)

lemma parse_list_iff: "parse_list new ss = Inr ps \<longleftrightarrow> map new ss = map Inr ps"
proof (induction ss arbitrary: ps)
  case (Cons s ss)
  have "parse_list new (s # ss) = Inr ps \<longleftrightarrow> (\<exists>p qs. new s = Inr p \<and> parse_list new ss = Inr qs \<and> ps = p # qs)"
    by (auto split: sum.splits)
  then show ?case unfolding Cons.IH by (cases ps) auto
qed auto

definition scan_ok :: "(string \<Rightarrow> goerr + ip_prefix) \<Rightarrow> dr_prefix \<Rightarrow> addr list \<Rightarrow> bool" where
  \<comment> \<open>the addresses of one prefix of the rule, in order, without the excluded ones\<close>
  "scan_ok new d as \<longleftrightarrow> (\<exists>p es. new (px_Prefix d) = Inr p \<and> map new (px_Excludes d) = map Inr es \<and> sorted_wrt addr_less as
     \<and> set as = {a. contains p a \<and> addr_le (ip_First p) a \<and> \<not> isExcluded a es})"

lemma getPrefixes_parsed:
  "getPrefixes new ds = Inr ps \<Longrightarrow>
    list_all2 (\<lambda>d p. new (px_Prefix d) = Inr (hp_prefix p) \<and> map new (px_Excludes d) = map Inr (hp_excludes p) \<and> hp_hostName p = []) ds ps"
  by (induction ds arbitrary: ps) (auto simp: parse_list_iff split: sum.splits)

lemma scanned_ok:
  assumes "new (px_Prefix d) = Inr (hp_prefix p)" "map new (px_Excludes d) = map Inr (hp_excludes p)"
    "convex (hp_prefix p)" "contains (hp_prefix p) (ip_First (hp_prefix p))"
  shows "scan_ok new d (scanned \<lparr>it_prefix = p, it_init = True, it_curAddr = NoAddr\<rparr>)"
proof -
  note new = pfx_addrs_new [OF assms(3,4)]
  have "set (scanned \<lparr>it_prefix = p, it_init = True, it_curAddr = NoAddr\<rparr>)
      = {a. contains (hp_prefix p) a \<and> addr_le (ip_First (hp_prefix p)) a \<and> \<not> isExcluded a (hp_excludes p)}"
    unfolding scanned_def set_filter using conjunct2 [OF new] by auto
  moreover have "sorted_wrt addr_less (scanned \<lparr>it_prefix = p, it_init = True, it_curAddr = NoAddr\<rparr>)"
    unfolding scanned_def using conjunct1 [OF new] by (rule sorted_wrt_filter)
  ultimately show ?thesis using assms(1,2) unfolding scan_ok_def by blast
qed

lemma nameless_scanned:
  "\<forall>r \<in> set its. hp_hostName (it_prefix r) = [] \<Longrightarrow>
    all_scanned str its = map (\<lambda>a. \<lparr>h_defaultSchema = None, h_Address = str a, h_hostName = []\<rparr>) (concat (map scanned its))"
  by (induction its) (simp_all add: all_scanned_def prefix_host_def)

text \<open>
  C40: A prefix rule scans exactly its addresses: prefix after prefix, and in each of them, in ascending order and
  once, every address from the first host address on that no excluded prefix contains. (The prefixes come back
  without host names.)
\<close>
theorem hosts_exact:
  assumes "getPrefixes new ds = Inr ps"
    "\<forall>p \<in> set ps. convex (hp_prefix p) \<and> contains (hp_prefix p) (ip_First (hp_prefix p))"
  shows "\<exists>ass. all_hosts str (HostIterator (newHostIterator ps))
      = map (\<lambda>a. \<lparr>h_defaultSchema = None, h_Address = str a, h_hostName = []\<rparr>) (concat ass)
    \<and> list_all2 (scan_ok new) ds ass"
proof -
  let ?its = "map (\<lambda>p. \<lparr>it_prefix = p, it_init = True, it_curAddr = NoAddr\<rparr>) ps"
  note parsed = getPrefixes_parsed [OF assms(1)]
  have names: "\<forall>r \<in> set ?its. hp_hostName (it_prefix r) = []"
    using parsed by (auto simp: list_all2_conv_all_nth in_set_conv_nth)
  note hosts = nameless_scanned [OF names, of str]
  have "list_all2 (scan_ok new) ds (map scanned ?its)"
    using parsed assms(2) by (auto simp: list_all2_conv_all_nth intro!: scanned_ok)
  with hosts show ?thesis unfolding all_hosts_scanned newHostIterator_def by auto
qed

definition cidr4 :: "32 word \<Rightarrow> nat \<Rightarrow> 32 word \<Rightarrow> ip_prefix" where
  "cidr4 base len first = \<lparr>ip_First = V4 first,
     ip_Contains = (\<lambda>a. case a of V4 w \<Rightarrow> drop_bit (32 - len) w = drop_bit (32 - len) base | _ \<Rightarrow> False)\<rparr>"

lemma First_cidr4 [simp]: "ip_First (cidr4 base len first) = V4 first"
  by (simp add: cidr4_def)

lemma contains_cidr4: "contains (cidr4 base len first) a \<longleftrightarrow> (\<exists>w. a = V4 w \<and> drop_bit (32 - len) w = drop_bit (32 - len) base)"
  by (cases a) (simp_all add: contains_def cidr4_def)

lemma drop_bit_between: "a \<le> b \<Longrightarrow> b \<le> c \<Longrightarrow> drop_bit k a = drop_bit k c \<Longrightarrow> drop_bit k b = drop_bit k c" for a b c :: "'a::len word"
proof -
  assume h: "a \<le> b" "b \<le> c" "drop_bit k a = drop_bit k c"
  have m: "unat (drop_bit k w) = unat w div 2 ^ k" for w :: "'a word"
    unfolding unsigned_drop_bit_eq take_bit_nat_eq_self [OF unsigned_less] by (rule drop_bit_eq_div)
  have "unat a div 2 ^ k \<le> unat b div 2 ^ k" "unat b div 2 ^ k \<le> unat c div 2 ^ k"
    using h(1,2) by (auto simp: word_le_nat_alt intro: div_le_mono)
  then show ?thesis using h(3) by (metis m le_antisym word_unat_eq_iff)
qed

lemma convex_cidr4: "convex (cidr4 base len first)"
  unfolding convex_def
proof (intro allI impI)
  fix a b c
  assume h: "contains (cidr4 base len first) a" "contains (cidr4 base len first) c" "addr_le a b" "addr_le b c"
  then obtain v w where vw: "a = V4 v" "c = V4 w" "drop_bit (32 - len) v = drop_bit (32 - len) base"
      "drop_bit (32 - len) w = drop_bit (32 - len) base" unfolding contains_cidr4 by blast
  then obtain x where x: "b = V4 x" "v \<le> x" "x \<le> w" using h(3,4) by (cases b) (auto intro: less_imp_le)
  have "drop_bit (32 - len) x = drop_bit (32 - len) w" by (rule drop_bit_between [OF x(2,3)]) (simp only: vw)
  with x vw show "contains (cidr4 base len first) b" unfolding contains_cidr4 by simp
qed

definition sample_new :: "string \<Rightarrow> goerr + ip_prefix" where
  "sample_new s = (if s = ''10.0.0.0/30'' then Inr (cidr4 0x0A000000 30 0x0A000000) else Inr (cidr4 0x0A000002 32 0x0A000002))"

lemma hosts_exact_witness:
  "\<exists>ass. all_hosts (\<lambda>a. []) (HostIterator (newHostIterator
        [\<lparr>hp_prefix = cidr4 0x0A000000 30 0x0A000000, hp_excludes = [cidr4 0x0A000002 32 0x0A000002], hp_hostName = []\<rparr>]))
      = map (\<lambda>a. \<lparr>h_defaultSchema = None, h_Address = [], h_hostName = []\<rparr>) (concat ass)
    \<and> list_all2 (scan_ok sample_new) [\<lparr>px_Prefix = ''10.0.0.0/30'', px_Excludes = [''10.0.0.2/32'']\<rparr>] ass"
proof -
  have "getPrefixes sample_new [\<lparr>px_Prefix = ''10.0.0.0/30'', px_Excludes = [''10.0.0.2/32'']\<rparr>]
      = Inr [\<lparr>hp_prefix = cidr4 0x0A000000 30 0x0A000000, hp_excludes = [cidr4 0x0A000002 32 0x0A000002], hp_hostName = []\<rparr>]"
    by (simp add: sample_new_def)
  moreover have "contains (cidr4 0x0A000000 30 0x0A000000) (V4 0x0A000000)" unfolding contains_cidr4 by blast
  ultimately show ?thesis using hosts_exact [where str = "\<lambda>a. []"] by (simp add: convex_cidr4)
qed

end
