(* ===== verification/Gnmi.thy ===== *)
theory Gnmi
  imports Hosts Strconv
begin

text \<open>
  Discovery over gNMI (\<open>pkg/discovery/discoveryrule/discover_gnmi.go\<close>, with the vendor profiles of
  \<open>apis/inv/v1alpha1\<close>): which vendor profile fits a device, the request it makes and how the answer is read.
  The gNMI client (\<open>gnmic\<close>), regular expressions and Starlark are arguments; a value that \<open>fmt\<close> prints with
  \<open>%f\<close> or \<open>%v\<close> is modelled by what it prints.
\<close>

section \<open>Vendor profiles\<close>

record path_definition =
  pd_Key :: string
  pd_Path :: string
  pd_Script :: "string option"
  pd_Regex :: "string option"

record vendor_profile =
  vp_Organization :: string
  vp_ModelMatch :: "string option"
  vp_Paths :: "path_definition list"
  vp_Encoding :: "string option"
  vp_PreserveNamespace :: "bool option"

definition vp_GetEncoding :: "vendor_profile \<Rightarrow> string" where
  "vp_GetEncoding r = (case vp_Encoding r of None \<Rightarrow> ''JSON_IETF'' | Some e \<Rightarrow> e)"

definition vp_GetPreserveNamespace :: "vendor_profile \<Rightarrow> bool" where
  "vp_GetPreserveNamespace r = (case vp_PreserveNamespace r of None \<Rightarrow> False | Some b \<Rightarrow> b)"

record gnmi_model =
  gm_Name :: string
  gm_Organization :: string

definition profile_fits :: "gnmi_model \<Rightarrow> vendor_profile \<Rightarrow> bool" where
  "profile_fits m p \<longleftrightarrow> gm_Organization m = vp_Organization p
     \<and> (case vp_ModelMatch p of None \<Rightarrow> True | Some s \<Rightarrow> str_contains (gm_Name m) s)"

fun getDiscovererGNMI :: "gnmi_model list \<Rightarrow> vendor_profile gomap \<Rightarrow> goerr + (string \<times> vendor_profile)" where
  \<comment> \<open>the profiles are visited in the order of a Go map, anew for every model\<close>
  "getDiscovererGNMI [] profiles = Inl (err_new ''unknown target vendor'')"
| "getDiscovererGNMI (m # ms) profiles =
     (case find (\<lambda>(provider, p). profile_fits m p) profiles of
        Some d \<Rightarrow> Inr d | None \<Rightarrow> getDiscovererGNMI ms profiles)"

section \<open>Paths\<close>

record gnmi_path =
  gp_Origin :: string
  gp_Elem :: "(string \<times> string gomap) list"

definition writeKey :: "string \<Rightarrow> string \<Rightarrow> string" where
  "writeKey k v = ''['' @ k @ ''='' @ v @ '']''"

definition path_elem :: "bool \<Rightarrow> string \<times> string gomap \<Rightarrow> string" where
  \<comment> \<open>one key needs no sorting, so the three cases of the code are one\<close>
  "path_elem noKeys pe = last (split_on (CHR '':'') (fst pe))
     @ (if noKeys then [] else concat (map (\<lambda>k. writeKey k (gm_index [] (snd pe) k)) (sort (gm_keys (snd pe)))))"

definition GnmiPathToXPath :: "gnmi_path option \<Rightarrow> bool \<Rightarrow> string" where
  "GnmiPathToXPath p noKeys =
     (case p of None \<Rightarrow> []
      | Some p \<Rightarrow> (if gp_Origin p \<noteq> [] then gp_Origin p @ '':'' else []) @ join_sep ''/'' (map (path_elem noKeys) (gp_Elem p)))"

fun path_loop :: "(string \<Rightarrow> goerr + gnmi_path) \<Rightarrow> path_definition list \<Rightarrow> gnmi_path list \<Rightarrow> path_definition gomap
    \<Rightarrow> goerr + gnmi_path list \<times> path_definition gomap" where
  "path_loop parse [] req pathMap = Inr (req, pathMap)"
| "path_loop parse (param # params) req pathMap =
     (case parse (pd_Path param) of
        Inl err \<Rightarrow> Inl (err_wrap (''invalid GNMI path '' @ go_quote (pd_Path param)) err)
      | Inr p \<Rightarrow> path_loop parse params (req @ [p]) (gm_put (GnmiPathToXPath (Some p) True) param pathMap))"

definition getPathMap :: "(string \<Rightarrow> goerr + gnmi_path) \<Rightarrow> path_definition list \<Rightarrow> goerr + gnmi_path list \<times> path_definition gomap" where
  "getPathMap parse params = path_loop parse params [] []"

section \<open>Values\<close>

datatype typed_value = AsciiVal string | BoolVal bool | BytesVal string | DecimalVal | FloatVal | DoubleVal string
  | IntVal int | StringVal string | UintVal nat | JsonIetfVal string | JsonVal string | LeaflistVal string
  | ProtoBytes string | AnyVal string | UnsetVal

text \<open>\<open>UnsetVal\<close>: a \<open>TypedValue\<close> whose \<open>Value\<close> is nil, as an empty message on the wire decodes to.\<close>

datatype 'a panics = Panics | Returns 'a

definition Trim_quotes :: "string \<Rightarrow> string" where
  "Trim_quotes s = rev (dropWhile ((=) CHR 0x22) (rev (dropWhile ((=) CHR 0x22) s)))"

definition getStringValue :: "typed_value option \<Rightarrow> (goerr + string) panics" where
  \<comment> \<open>all alternatives of the \<open>oneof\<close> have a case, so the default meets nil, and \<open>reflect.TypeOf(nil).Name()\<close> panics\<close>
  "getStringValue v =
     (case v of None \<Rightarrow> Returns (Inl (err_new ''no value returned''))
      | Some v \<Rightarrow>
          (case v of
             AsciiVal s \<Rightarrow> Returns (Inr s)
           | BoolVal b \<Rightarrow> Returns (Inr (if b then ''true'' else ''false''))
           | BytesVal s \<Rightarrow> Returns (Inr s)
           | DecimalVal \<Rightarrow> Returns (Inl (err_new ''decimal is depreciated''))
           | FloatVal \<Rightarrow> Returns (Inl (err_new ''float is depreciated''))
           | DoubleVal s \<Rightarrow> Returns (Inr s)
           | IntVal i \<Rightarrow> Returns (Inr (if i < 0 then ''-'' @ dec_digits (nat (- i)) else dec_digits (nat i)))
           | StringVal s \<Rightarrow> Returns (Inr s)
           | UintVal n \<Rightarrow> Returns (Inr (dec_digits n))
           | JsonIetfVal s \<Rightarrow> Returns (Inr (Trim_quotes s))
           | JsonVal s \<Rightarrow> Returns (Inr (Trim_quotes s))
           | LeaflistVal s \<Rightarrow> Returns (Inr s)
           | ProtoBytes s \<Rightarrow> Returns (Inr s)
           | AnyVal s \<Rightarrow> Returns (Inr s)
           | UnsetVal \<Rightarrow> Panics))"

record transformers =
  tf_match :: "string \<Rightarrow> string \<Rightarrow> goerr + string list"
  tf_starlark :: "string \<Rightarrow> string \<Rightarrow> string \<Rightarrow> goerr + string"

text \<open>\<open>tf_match\<close>: \<open>regexp.Compile\<close>, then \<open>FindStringSubmatch\<close>; \<open>tf_starlark\<close>: \<open>RunStarlark\<close>.\<close>

definition ApplyRegex :: "transformers \<Rightarrow> string \<Rightarrow> string \<Rightarrow> goerr + string" where
  "ApplyRegex tf pattern value =
     (case tf_match tf pattern value of Inl err \<Rightarrow> Inl (err_wrap ''invalid regex pattern'' err)
      | Inr matches \<Rightarrow> Inr (if length matches > 1 then matches ! 1 else value))"

definition applyTransformations :: "transformers \<Rightarrow> path_definition \<Rightarrow> string \<Rightarrow> goerr + string" where
  "applyTransformations tf param value =
     (case (case pd_Regex param of None \<Rightarrow> Inr value
        | Some re \<Rightarrow> (case ApplyRegex tf re value of Inl err \<Rightarrow> Inl (err_wrap ''regex error'' err) | Inr v \<Rightarrow> Inr v)) of
        Inl err \<Rightarrow> Inl err
      | Inr value \<Rightarrow> (case pd_Script param of None \<Rightarrow> Inr value
          | Some script \<Rightarrow> (case tf_starlark tf (pd_Key param) script value of
               Inl err \<Rightarrow> Inl (err_wrap ''starlark error'' err) | Inr v \<Rightarrow> Inr v)))"

section \<open>The answer\<close>

definition field_set :: "string \<Rightarrow> (string \<Rightarrow> discovery_info \<Rightarrow> discovery_info) option" where
  \<comment> \<open>the field a key of \<open>fieldMapping\<close> points to\<close>
  "field_set key =
     (if key = ''version'' then Some (\<lambda>v di. di\<lparr>di_version := v\<rparr>)
      else if key = ''platform'' then Some (\<lambda>v di. di\<lparr>di_platform := v\<rparr>)
      else if key = ''serialNumber'' then Some (\<lambda>v di. di\<lparr>di_serialNumber := v\<rparr>)
      else if key = ''macAddress'' then Some (\<lambda>v di. di\<lparr>di_macAddress := v\<rparr>)
      else if key = ''hostname'' then Some (\<lambda>v di. di\<lparr>di_hostname := v\<rparr>)
      else None)"

type_synonym gnmi_update = "gnmi_path option \<times> typed_value option"

definition update_path :: "bool \<Rightarrow> gnmi_path option \<Rightarrow> string" where
  \<comment> \<open>the path an update is looked up with\<close>
  "update_path preserve p =
     (let s = GnmiPathToXPath p True; parts = split_on (CHR '':'') s in
      if \<not> preserve \<and> length parts > 1 then join_sep '':'' (tl parts) else s)"

definition parse_update :: "transformers \<Rightarrow> path_definition gomap \<Rightarrow> bool \<Rightarrow> gnmi_update \<Rightarrow> discovery_info
    \<Rightarrow> (goerr + discovery_info) panics" where
  "parse_update tf pathMap preserve u di =
     (case map_of pathMap (update_path preserve (fst u)) of
        None \<Rightarrow> Returns (Inr di)
      | Some param \<Rightarrow>
          (case field_set (pd_Key param) of
             None \<Rightarrow> Returns (Inr di)
           | Some put \<Rightarrow>
               (case getStringValue (snd u) of
                  Panics \<Rightarrow> Panics
                | Returns sv \<Rightarrow>
                    (case applyTransformations tf param (case sv of Inl err \<Rightarrow> [] | Inr s \<Rightarrow> s) of
                       Inl err \<Rightarrow> Returns (Inl (err_wrap (''failed to process transformation for '' @ go_quote (pd_Key param)) err))
                     | Inr v \<Rightarrow> Returns (Inr (put v di))))))"

fun parse_updates :: "transformers \<Rightarrow> path_definition gomap \<Rightarrow> bool \<Rightarrow> gnmi_update list \<Rightarrow> discovery_info
    \<Rightarrow> (goerr + discovery_info) panics" where
  "parse_updates tf pathMap preserve [] di = Returns (Inr di)"
| "parse_updates tf pathMap preserve (u # us) di =
     (case parse_update tf pathMap preserve u di of
        Panics \<Rightarrow> Panics
      | Returns (Inl err) \<Rightarrow> Returns (Inl err)
      | Returns (Inr di) \<Rightarrow> parse_updates tf pathMap preserve us di)"

definition start_info :: "string \<Rightarrow> string list \<Rightarrow> discovery_info" where
  "start_info provider encodings = \<lparr>di_protocol = ''gnmi'', di_provider = provider, di_version = [], di_hostname = [],
     di_platform = [], di_macAddress = [], di_serialNumber = [], di_supportedEncodings = encodings\<rparr>"

definition parseDiscoveryInformation :: "transformers \<Rightarrow> string \<Rightarrow> vendor_profile \<Rightarrow> path_definition gomap \<Rightarrow> string list
    \<Rightarrow> gnmi_update list list \<Rightarrow> (goerr + discovery_info) panics" where
  \<comment> \<open>one list of updates per notification\<close>
  "parseDiscoveryInformation tf provider r pathMap encodings notifications =
     parse_updates tf pathMap (vp_GetPreserveNamespace r) (concat notifications) (start_info provider encodings)"

section \<open>One discovery\<close>

record gnmi_caps =
  gc_Models :: "gnmi_model list"
  gc_Encodings :: "string list"

record gnmi_options =
  go_address :: string
  go_username :: string
  go_password :: string
  go_insecure :: bool

text \<open>\<open>go_insecure\<close>: \<open>api.Insecure(true)\<close>, otherwise \<open>api.SkipVerify(true)\<close>.\<close>

record ('c, 'w) gnmi_services =
  gs_GetSecret :: "string \<Rightarrow> string \<Rightarrow> 'w \<Rightarrow> (goerr + secret) \<times> 'w"
  gs_NewTarget :: "gnmi_options \<Rightarrow> goerr + 'c"
  gs_CreateGNMIClient :: "'c \<Rightarrow> 'w \<Rightarrow> goerr option \<times> 'w"
  gs_Capabilities :: "'c \<Rightarrow> 'w \<Rightarrow> (goerr + gnmi_caps) \<times> 'w"
  gs_Get :: "'c \<Rightarrow> string \<Rightarrow> gnmi_path list \<Rightarrow> 'w \<Rightarrow> (goerr + gnmi_update list list) \<times> 'w"
  gs_ParsePath :: "string \<Rightarrow> goerr + gnmi_path"
  gs_transformers :: transformers

definition createGNMITarget :: "('c, 'w) gnmi_services \<Rightarrow> string \<Rightarrow> secret \<Rightarrow> conn_profile \<Rightarrow> goerr + 'c" where
  "createGNMITarget sv address secret connProfile =
     gs_NewTarget sv \<lparr>go_address = address, go_username = gm_index [] (sec_data secret) ''username'',
       go_password = gm_index [] (sec_data secret) ''password'',
       go_insecure = (case cp_insecure connProfile of Some b \<Rightarrow> b | None \<Rightarrow> False)\<rparr>"

definition Discover :: "('c, 'w) gnmi_services \<Rightarrow> 'c \<Rightarrow> string \<Rightarrow> vendor_profile \<Rightarrow> 'w \<Rightarrow> (goerr + discovery_info) panics \<times> 'w" where
  "Discover sv t provider r w =
     (if vp_GetEncoding r \<notin> {''JSON_IETF'', ''JSON'', ''PROTO'', ''ASCII''}
      then (Returns (Inl (err_new (''unsupported encoding, got: '' @ vp_GetEncoding r))), w)
      else case getPathMap (gs_ParsePath sv) (vp_Paths r) of
          Inl err \<Rightarrow> (Returns (Inl err), w)
        | Inr (req, pathMap) \<Rightarrow>
            (case gs_Capabilities sv t w of
               (Inl err, w) \<Rightarrow> (Returns (Inl err), w)
             | (Inr caps, w) \<Rightarrow>
                 (case gs_Get sv t (vp_GetEncoding r) req w of
                    (Inl err, w) \<Rightarrow> (Returns (Inl err), w)
                  | (Inr ns, w) \<Rightarrow> (parseDiscoveryInformation (gs_transformers sv) provider r pathMap (gc_Encodings caps) ns, w))))"

definition gnmi_session :: "('c, 'w) gnmi_services \<Rightarrow> 'c \<Rightarrow> vendor_profile gomap \<Rightarrow> 'w
    \<Rightarrow> (goerr + string \<times> discovery_info) panics \<times> 'w" where
  \<comment> \<open>what \<open>discoverWithGNMI\<close> does with a connected client, before \<open>createTarget\<close>; closing the client is left out\<close>
  "gnmi_session sv t profiles w =
     (case gs_Capabilities sv t w of
        (Inl err, w) \<Rightarrow> (Returns (Inl err), w)
      | (Inr caps, w) \<Rightarrow>
          (case getDiscovererGNMI (gc_Models caps) profiles of
             Inl err \<Rightarrow> (Returns (Inl err), w)
           | Inr (provider, r) \<Rightarrow>
               (case Discover sv t provider r w of
                  (Panics, w) \<Rightarrow> (Panics, w)
                | (Returns (Inl err), w) \<Rightarrow> (Returns (Inl err), w)
                | (Returns (Inr di), w) \<Rightarrow> (Returns (Inr (provider, di)), w))))"

definition gnmi_probe :: "('c, 'w) gnmi_services \<Rightarrow> string \<Rightarrow> string \<Rightarrow> vendor_profile gomap \<Rightarrow> string \<Rightarrow> conn_profile \<Rightarrow> 'w
    \<Rightarrow> (goerr + string \<times> discovery_info) panics \<times> 'w" where
  \<comment> \<open>\<open>discoverWithGNMI\<close> up to \<open>createTarget\<close>; \<open>ns\<close>, \<open>secret\<close>: of the rule and its discovery profile\<close>
  "gnmi_probe sv ns secret profiles address connProfile w =
     (case gs_GetSecret sv ns secret w of
        (Inl err, w) \<Rightarrow> (Returns (Inl err), w)
      | (Inr sec, w) \<Rightarrow>
          (case createGNMITarget sv (address @ '':'' @ dec_digits (unat (cp_port connProfile))) sec connProfile of
             Inl err \<Rightarrow> (Returns (Inl err), w)
           | Inr t \<Rightarrow>
               (case gs_CreateGNMIClient sv t w of
                  (Some err, w) \<Rightarrow> (Returns (Inl err), w)
                | (None, w) \<Rightarrow> gnmi_session sv t profiles w)))"

section \<open>What is read\<close>

definition field_get :: "string \<Rightarrow> discovery_info \<Rightarrow> string" where
  "field_get key di =
     (if key = ''version'' then di_version di else if key = ''platform'' then di_platform di
      else if key = ''serialNumber'' then di_serialNumber di else if key = ''macAddress'' then di_macAddress di else di_hostname di)"

definition update_hit :: "path_definition gomap \<Rightarrow> bool \<Rightarrow> string \<Rightarrow> gnmi_update \<Rightarrow> (path_definition \<times> typed_value option) option" where
  \<comment> \<open>the update is one for the field \<open>key\<close>\<close>
  "update_hit pathMap preserve key u =
     (case map_of pathMap (update_path preserve (fst u)) of None \<Rightarrow> None
      | Some param \<Rightarrow> if pd_Key param = key then Some (param, snd u) else None)"

definition value_of :: "transformers \<Rightarrow> path_definition \<times> typed_value option \<Rightarrow> string \<Rightarrow> bool" where
  \<comment> \<open>what the field is set to by an update: the transformed value, or what becomes of the empty string when there is none\<close>
  "value_of tf pv s \<longleftrightarrow>
     (\<exists>sv. getStringValue (snd pv) = Returns sv \<and> applyTransformations tf (fst pv) (case sv of Inl err \<Rightarrow> [] | Inr x \<Rightarrow> x) = Inr s)"

lemma field_set_cases:
  assumes "field_set key = Some put"
  obtains "key = ''version''" "put = (\<lambda>v di. di\<lparr>di_version := v\<rparr>)" | "key = ''platform''" "put = (\<lambda>v di. di\<lparr>di_platform := v\<rparr>)"
  | "key = ''serialNumber''" "put = (\<lambda>v di. di\<lparr>di_serialNumber := v\<rparr>)" | "key = ''macAddress''" "put = (\<lambda>v di. di\<lparr>di_macAddress := v\<rparr>)"
  | "key = ''hostname''" "put = (\<lambda>v di. di\<lparr>di_hostname := v\<rparr>)"
  using assms by (auto simp: field_set_def split: if_splits)

lemma field_set_sel:
  assumes "field_set key = Some put"
  shows "field_get key (put v di) = v" "di_provider (put v di) = di_provider di" "di_protocol (put v di) = di_protocol di"
    "di_supportedEncodings (put v di) = di_supportedEncodings di"
  using assms by (cases rule: field_set_cases; simp add: field_get_def)+

lemma field_set_other:
  assumes "field_set key = Some put" "k \<noteq> key"
    "k \<in> {''version'', ''platform'', ''serialNumber'', ''macAddress'', ''hostname''}"
  shows "field_get k (put v di) = field_get k di"
  using assms(1)
proof (cases rule: field_set_cases)
  case 5
  then have "k \<in> {''version'', ''platform'', ''serialNumber'', ''macAddress''}" using assms(2,3) by simp
  then show ?thesis using 5 by (auto simp: field_get_def)
qed (use assms(2) in \<open>simp_all add: field_get_def\<close>)

lemma parse_update_field:
  assumes "parse_update tf pathMap preserve u di = Returns (Inr di')"
    "key \<in> {''version'', ''platform'', ''serialNumber'', ''macAddress'', ''hostname''}"
  shows "(case update_hit pathMap preserve key u of None \<Rightarrow> field_get key di' = field_get key di
      | Some pv \<Rightarrow> value_of tf pv (field_get key di'))
    \<and> di_provider di' = di_provider di \<and> di_protocol di' = di_protocol di \<and> di_supportedEncodings di' = di_supportedEncodings di"
proof (cases "map_of pathMap (update_path preserve (fst u))")
  case None
  then show ?thesis using assms by (simp add: parse_update_def update_hit_def)
next
  case param: (Some param)
  show ?thesis
  proof (cases "field_set (pd_Key param)")
    case None
    then have "di' = di" using assms(1) param by (simp add: parse_update_def)
    moreover have "pd_Key param \<noteq> key" using None assms(2) by (auto simp: field_set_def split: if_splits)
    ultimately show ?thesis using param by (simp add: update_hit_def)
  next
    case (Some put)
    then obtain sv v where v: "getStringValue (snd u) = Returns sv"
        "applyTransformations tf param (case sv of Inl err \<Rightarrow> [] | Inr s \<Rightarrow> s) = Inr v" "di' = put v di"
      using assms(1) param by (auto simp: parse_update_def split: panics.splits sum.splits)
    note s = field_set_sel [OF Some, of v di]
    show ?thesis
    proof (cases "pd_Key param = key")
      case True
      then have "value_of tf (param, snd u) (field_get key di')" using s(1) v unfolding value_of_def by auto
      then show ?thesis using True param s v(3) by (simp add: update_hit_def)
    next
      case False
      then have "field_get key di' = field_get key di" unfolding v(3) by (intro field_set_other [OF Some _ assms(2)]) simp
      then show ?thesis using False param s v(3) by (simp add: update_hit_def)
    qed
  qed
qed

lemma parse_updates_field:
  assumes "parse_updates tf pathMap preserve us di = Returns (Inr di')"
    "key \<in> {''version'', ''platform'', ''serialNumber'', ''macAddress'', ''hostname''}"
  shows "(case List.map_filter (update_hit pathMap preserve key) us of [] \<Rightarrow> field_get key di' = field_get key di
      | hits \<Rightarrow> value_of tf (last hits) (field_get key di'))
    \<and> di_provider di' = di_provider di \<and> di_protocol di' = di_protocol di \<and> di_supportedEncodings di' = di_supportedEncodings di"
  using assms(1)
proof (induction us arbitrary: di)
  case (Cons u us)
  then obtain d where d: "parse_update tf pathMap preserve u di = Returns (Inr d)"
      "parse_updates tf pathMap preserve us d = Returns (Inr di')"
    by (auto split: panics.splits sum.splits)
  show ?case using parse_update_field [OF d(1) assms(2)] Cons.IH [OF d(2)]
    by (auto simp: map_filter_simps split: option.splits list.splits)
qed (simp add: map_filter_simps)

lemma start_info_sel: "field_get key (start_info provider encodings) = []" "di_provider (start_info provider encodings) = provider"
  "di_protocol (start_info provider encodings) = ''gnmi''" "di_supportedEncodings (start_info provider encodings) = encodings"
  by (simp_all add: start_info_def field_get_def)

text \<open>
  Reading a discovery answer. When it is read without an error, each of the five fields holds what the last
  update of it carried, put through the transformations of its path (the empty string when that update had no
  readable value), and is empty when no update was for it; provider, protocol and encodings come from the vendor
  profile and the capabilities.
\<close>
theorem parse_exact:
  assumes "parseDiscoveryInformation tf provider r pathMap encodings ns = Returns (Inr di)"
    "key \<in> {''version'', ''platform'', ''serialNumber'', ''macAddress'', ''hostname''}"
  shows "(case List.map_filter (update_hit pathMap (vp_GetPreserveNamespace r) key) (concat ns) of [] \<Rightarrow> field_get key di = []
      | hits \<Rightarrow> value_of tf (last hits) (field_get key di))
    \<and> di_provider di = provider \<and> di_protocol di = ''gnmi'' \<and> di_supportedEncodings di = encodings"
  using parse_updates_field [OF assms(1) [unfolded parseDiscoveryInformation_def] assms(2)]
  unfolding start_info_sel .

definition sample_transformers :: transformers where
  "sample_transformers = \<lparr>tf_match = (\<lambda>p s. Inr [s, drop 1 s]), tf_starlark = (\<lambda>k p s. Inr s)\<rparr>"

definition sample_vendor :: vendor_profile where
  "sample_vendor = \<lparr>vp_Organization = ''Nokia'', vp_ModelMatch = None,
     vp_Paths = [\<lparr>pd_Key = ''version'', pd_Path = ''/v'', pd_Script = None, pd_Regex = Some ''v(.*)''\<rparr>],
     vp_Encoding = None, vp_PreserveNamespace = None\<rparr>"

lemma parse_exact_witness:
  "(case List.map_filter (update_hit [(''v'', hd (vp_Paths sample_vendor))] (vp_GetPreserveNamespace sample_vendor) ''version'')
        (concat [[(Some \<lparr>gp_Origin = [], gp_Elem = [(''v'', [])]\<rparr>, Some (StringVal ''v1''))]]) of
      [] \<Rightarrow> field_get ''version'' ((start_info ''nokia'' [])\<lparr>di_version := ''1''\<rparr>) = []
    | hits \<Rightarrow> value_of sample_transformers (last hits) (field_get ''version'' ((start_info ''nokia'' [])\<lparr>di_version := ''1''\<rparr>)))
   \<and> di_provider ((start_info ''nokia'' [])\<lparr>di_version := ''1''\<rparr>) = ''nokia''
   \<and> di_protocol ((start_info ''nokia'' [])\<lparr>di_version := ''1''\<rparr>) = ''gnmi''
   \<and> di_supportedEncodings ((start_info ''nokia'' [])\<lparr>di_version := ''1''\<rparr>) = []"
  by (rule parse_exact) (code_simp, simp)

text \<open>
  A value that is not set ends the process: the goroutine of the scan has no recover.
\<close>

lemma unset_value_panics:
  assumes "map_of pathMap (update_path preserve p) = Some param" "field_set (pd_Key param) \<noteq> None"
  shows "parse_updates tf pathMap preserve ((p, Some UnsetVal) # us) di = Panics"
  using assms by (auto simp: parse_update_def getStringValue_def)

text \<open>
  A path that is configured with an origin is never found once the namespace is stripped: the answer's path loses
  its origin, and the element names have lost theirs.
\<close>

lemma no_colon_last: "c \<notin> set (last (split_on c s))"
proof -
  have "\<forall>x \<in> set (split_on c s). c \<notin> set x"
    by (induction s) (auto split: list.splits)
  then show ?thesis by simp
qed

lemma join_no_colon: "\<forall>x \<in> set xs. c \<notin> set x \<Longrightarrow> c \<notin> set sep \<Longrightarrow> c \<notin> set (join_sep sep xs)"
  by (induction sep xs rule: join_sep.induct) auto

lemma split_origin:
  assumes "gp_Origin p \<noteq> []" "CHR '':'' \<notin> set (gp_Origin p)"
  shows "split_on (CHR '':'') (GnmiPathToXPath (Some p) True) = [gp_Origin p, join_sep ''/'' (map (path_elem True) (gp_Elem p))]"
proof -
  have "CHR '':'' \<notin> set (join_sep ''/'' (map (path_elem True) (gp_Elem p)))"
    by (rule join_no_colon) (auto simp: path_elem_def no_colon_last)
  then show ?thesis using assms by (simp add: GnmiPathToXPath_def split_on_append split_on_no_sep)
qed

lemma origin_never_found:
  assumes "gp_Origin c \<noteq> []" "CHR '':'' \<notin> set (gp_Origin c)" "CHR '':'' \<notin> set (gp_Origin p)"
  shows "update_path False (Some p) \<noteq> GnmiPathToXPath (Some c) True"
proof -
  have s: "CHR '':'' \<notin> set (join_sep ''/'' (map (path_elem True) (gp_Elem q)))" for q
    by (rule join_no_colon) (auto simp: path_elem_def no_colon_last)
  have "CHR '':'' \<notin> set (update_path False (Some p))"
  proof (cases "gp_Origin p = []")
    case True
    then have "GnmiPathToXPath (Some p) True = join_sep ''/'' (map (path_elem True) (gp_Elem p))" by (simp add: GnmiPathToXPath_def)
    then show ?thesis using s [of p] by (simp add: update_path_def split_on_no_sep [OF s] Let_def)
  next
    case False
    then show ?thesis using s assms(3) by (simp add: update_path_def split_origin Let_def)
  qed
  moreover have "CHR '':'' \<in> set (GnmiPathToXPath (Some c) True)" using assms(1) by (simp add: GnmiPathToXPath_def)
  ultimately show ?thesis by metis
qed

end
