(* ===== verification/Discovery.thy ===== *)
theory Discovery
  imports Gnmi
begin

text \<open>
  The engine of a discovery rule (\<open>pkg/discovery/discoveryrule\<close>): what one run does to the Targets and
  Deviations of the rule (\<open>rule.go\<close>, \<open>discover.go\<close>, \<open>discover_none.go\<close>, \<open>target.go\<close>, \<open>deviation.go\<close>,
  \<open>children.go\<close>). The main loop of a run and the goroutines it starts for the hosts are interleaved step by step;
  between two steps of a goroutine lie the four stages of \<open>createTarget\<close>. The API client under a live and under a
  cancelled context, the gNMI client, selectors and templates are arguments.
\<close>

section \<open>Client and configuration\<close>

type_synonym nsn = "string \<times> string"

record pod =
  po_Name :: string
  po_ready :: "bool list"
  po_IPs :: "string list"

record target_apply =
  ta_name :: string
  ta_namespace :: string
  ta_labels :: "string gomap"
  ta_annotations :: "string gomap"
  ta_owner :: owner_ref
  ta_spec :: target_spec

record ('sel, 'w) dr_client =
  dc_ListVendorProfiles :: "'w \<Rightarrow> (goerr + (string \<times> vendor_profile) list) \<times> 'w"
  dc_ListServices :: "string \<Rightarrow> 'sel \<Rightarrow> 'w \<Rightarrow> (goerr + (string \<times> string) list) \<times> 'w"  \<comment> \<open>name, namespace\<close>
  dc_ListPods :: "string \<Rightarrow> 'sel \<Rightarrow> 'w \<Rightarrow> (goerr + pod list) \<times> 'w"
  dc_GetTarget :: "nsn \<Rightarrow> 'w \<Rightarrow> (goerr + target) \<times> 'w"
  dc_ApplyTarget :: "target_apply \<Rightarrow> 'w \<Rightarrow> goerr option \<times> 'w"
  dc_ApplyTargetStatus :: "nsn \<Rightarrow> condition \<Rightarrow> discovery_info \<Rightarrow> 'w \<Rightarrow> goerr option \<times> 'w"
  dc_ListTargets :: "string \<Rightarrow> string \<Rightarrow> 'w \<Rightarrow> (goerr + target list) \<times> 'w"  \<comment> \<open>namespace, value of the label\<close>
  dc_DeleteTarget :: "target \<Rightarrow> 'w \<Rightarrow> goerr option \<times> 'w"
  dc_GetDeviation :: "nsn \<Rightarrow> 'w \<Rightarrow> (goerr + deviation) \<times> 'w"
  dc_CreateDeviation :: "deviation \<Rightarrow> 'w \<Rightarrow> goerr option \<times> 'w"
  dc_ListDeviations :: "string \<Rightarrow> string \<Rightarrow> 'w \<Rightarrow> (goerr + deviation list) \<times> 'w"
  dc_DeleteDeviation :: "deviation \<Rightarrow> 'w \<Rightarrow> goerr option \<times> 'w"

record disc_refs =
  df_Secret :: string
  df_SecretResourceVersion :: string
  df_Connectionprofiles :: "conn_profile list"

record conn_refs =
  cf_Secret :: string
  cf_SecretResourceVersion :: string
  cf_Connectionprofile :: "conn_profile option"
  cf_Syncprofile :: "sync_profile option"

record 'q dr_config =
  dg_Discovery :: bool
  dg_DefaultSchema :: "schema_key option"
  dg_CR :: "'q drule"
  dg_DiscoveryProfile :: "disc_refs option"
  dg_TargetConnectionProfiles :: "conn_refs list"

record ('q, 'sel, 'c, 'w) dr_env =
  de_cfg :: "'q dr_config"
  de_client :: "bool \<Rightarrow> ('sel, 'w) dr_client"  \<comment> \<open>the argument: the context is cancelled\<close>
  de_gnmi :: "('c, 'w) gnmi_services"
  de_selector :: "'q option \<Rightarrow> goerr + 'sel"  \<comment> \<open>\<open>LabelSelectorAsSelector\<close>\<close>
  de_newPrefix :: "string \<Rightarrow> goerr + ip_prefix"
  de_addrString :: "addr \<Rightarrow> string"
  de_template :: "string \<Rightarrow> string \<Rightarrow> goerr + string"
  de_targetType :: "string \<times> string"  \<comment> \<open>apiVersion and kind of a Target that was read\<close>
  de_now :: nat

abbreviation de_CR :: "('q, 'sel, 'c, 'w) dr_env \<Rightarrow> 'q drule" where "de_CR e \<equiv> dg_CR (de_cfg e)"
abbreviation de_ns :: "('q, 'sel, 'c, 'w) dr_env \<Rightarrow> string" where "de_ns e \<equiv> m_namespace (dl_meta (de_CR e))"
abbreviation de_rule :: "('q, 'sel, 'c, 'w) dr_env \<Rightarrow> string" where "de_rule e \<equiv> m_name (dl_meta (de_CR e))"

section \<open>Hosts of a rule\<close>

definition getServices :: "('q, 'sel, 'c, 'w) dr_env \<Rightarrow> bool \<Rightarrow> 'w \<Rightarrow> (goerr + (string \<times> string) list) \<times> 'w" where
  "getServices e x w =
     (if dl_SvcSelector (de_CR e) = None then (Inl (err_new ''get services w/o a labelselector is not supported''), w)
      else case de_selector e (dl_SvcSelector (de_CR e)) of
          Inl err \<Rightarrow> (Inl err, w) | Inr sel \<Rightarrow> dc_ListServices (de_client e x) (de_ns e) sel w)"

definition GetSVCDiscoveryAddresses :: "('q, 'sel, 'c, 'w) dr_env \<Rightarrow> bool \<Rightarrow> 'w \<Rightarrow> dr_address list \<times> 'w" where
  "GetSVCDiscoveryAddresses e x w =
     (case getServices e x w of
        (Inl err, w) \<Rightarrow> ([], w)
      | (Inr svcs, w) \<Rightarrow>
          (let domain = (if dl_ServiceDomain (de_CR e) \<noteq> [] then dl_ServiceDomain (de_CR e) else ''cluster.local'') in
           (map (\<lambda>(name, ns). \<lparr>ad_Address = name @ ''.'' @ ns @ ''.svc.'' @ domain, ad_HostName = name\<rparr>) svcs, w)))"

definition getPods :: "('q, 'sel, 'c, 'w) dr_env \<Rightarrow> bool \<Rightarrow> 'w \<Rightarrow> (goerr + pod list) \<times> 'w" where
  \<comment> \<open>the selector of the services is the one converted\<close>
  "getPods e x w =
     (if dl_PodSelector (de_CR e) = None then (Inl (err_new ''get pods w/o a labelselector is not supported''), w)
      else case de_selector e (dl_SvcSelector (de_CR e)) of
          Inl err \<Rightarrow> (Inl err, w) | Inr sel \<Rightarrow> dc_ListPods (de_client e x) (de_ns e) sel w)"

definition getPodStatus :: "pod \<Rightarrow> goerr + string list" where
  "getPodStatus p =
     (case po_ready p of
        [] \<Rightarrow> Inl (err_new ''pod conditions empty'')
      | ready # _ \<Rightarrow> if \<not> ready then Inl (err_new ''pod not ready'')
          else if length (po_IPs p) = 0 then Inl (err_new ''no pod ip(s) available'') else Inr (po_IPs p))"

definition pod_address :: "pod \<Rightarrow> dr_address option" where
  \<comment> \<open>the body of the loop over the pods\<close>
  "pod_address p = (case getPodStatus p of Inl err \<Rightarrow> None | Inr ips \<Rightarrow> Some \<lparr>ad_Address = ips ! 0, ad_HostName = po_Name p\<rparr>)"

definition GetPODDiscoveryAddresses :: "('q, 'sel, 'c, 'w) dr_env \<Rightarrow> bool \<Rightarrow> 'w \<Rightarrow> dr_address list \<times> 'w" where
  "GetPODDiscoveryAddresses e x w =
     (case getPods e x w of (Inl err, w) \<Rightarrow> ([], w) | (Inr pods, w) \<Rightarrow> (List.map_filter pod_address pods, w))"

definition dr_getHosts :: "('q, 'sel, 'c, 'w) dr_env \<Rightarrow> bool \<Rightarrow> 'w \<Rightarrow> (goerr + iterator) \<times> 'w" where
  "dr_getHosts e x w =
     (case GetDiscoveryKind (de_CR e) of
        Inl err \<Rightarrow> (Inl err, w)
      | Inr KindPrefix \<Rightarrow> (case getPrefixes (de_newPrefix e) (dl_Prefixes (de_CR e)) of
            Inl err \<Rightarrow> (Inl err, w) | Inr ps \<Rightarrow> (Inr (HostIterator (newHostIterator ps)), w))
      | Inr KindAddress \<Rightarrow> (Inr (newIterator (dl_Addresses (de_CR e)) (pm_DefaultSchema (dl_params (de_CR e)))), w)
      | Inr KindPod \<Rightarrow> (case GetPODDiscoveryAddresses e x w of (as, w) \<Rightarrow>
            (Inr (newIterator as (pm_DefaultSchema (dl_params (de_CR e)))), w))
      | Inr KindSvc \<Rightarrow> (case GetSVCDiscoveryAddresses e x w of (as, w) \<Rightarrow>
            (Inr (newIterator as (pm_DefaultSchema (dl_params (de_CR e)))), w)))"

section \<open>The Target of a host\<close>

definition getTargetName :: "string \<Rightarrow> string" where
  "getTargetName s = to_lower (map (\<lambda>c. if c = CHR '':'' then CHR ''-'' else c) s)"

definition rule_owner :: "'q drule \<Rightarrow> owner_ref" where
  "rule_owner r = \<lparr>or_apiVersion = dl_apiVersion r, or_kind = dl_kind r, or_name = m_name (dl_meta r), or_uid = m_uid (dl_meta r),
     or_controller = Some True\<rparr>"

definition applyTargetSpec :: "('q, 'sel, 'c, 'w) dr_env \<Rightarrow> bool \<Rightarrow> nsn \<Rightarrow> string \<Rightarrow> string \<Rightarrow> 'w \<Rightarrow> goerr option \<times> 'w" where
  "applyTargetSpec e x key provider address w =
     (let pm = dl_params (de_CR e) in
      case GetTargetLabels (de_template e) pm (de_rule e) of
        Inl err \<Rightarrow> (Some err, w)
      | Inr labels \<Rightarrow>
          (case GetTargetAnnotations (de_template e) pm (de_rule e) of
             Inl err \<Rightarrow> (Some err, w)
           | Inr anno \<Rightarrow>
               (case pm_TargetConnectionProfiles pm of
                  [] \<Rightarrow> (Some (err_new ''discovery rule has no targetConnectionProfiles''), w)
                | tp # _ \<Rightarrow> dc_ApplyTarget (de_client e x)
                    \<lparr>ta_name = snd key, ta_namespace = fst key, ta_labels = labels, ta_annotations = anno, ta_owner = rule_owner (de_CR e),
                     ta_spec = \<lparr>ts_provider = provider, ts_address = address, ts_credentials = tp_Credentials tp,
                       ts_connectionProfile = tp_ConnectionProfile tp, ts_syncProfile = tp_SyncProfile tp, ts_tlsSecret = None\<rparr>\<rparr> w)))"

definition discoveryInfoToApply :: "discovery_info \<Rightarrow> discovery_info" where
  \<comment> \<open>an empty field is left out; the encodings are never put in\<close>
  "discoveryInfoToApply di = di\<lparr>di_supportedEncodings := []\<rparr>"

definition applyTargetStatus :: "('q, 'sel, 'c, 'w) dr_env \<Rightarrow> bool \<Rightarrow> nsn \<Rightarrow> discovery_info \<Rightarrow> 'w \<Rightarrow> (goerr + target) \<times> 'w" where
  "applyTargetStatus e x key di w =
     (let apply = (\<lambda>w. case dc_ApplyTargetStatus (de_client e x) key (TargetDiscoveryReady (de_now e)) (discoveryInfoToApply di) w of
            (Some err, w) \<Rightarrow> (Inl err, w) | (None, w) \<Rightarrow> dc_GetTarget (de_client e x) key w) in
      case dc_GetTarget (de_client e x) key w of
        (Inl err, w) \<Rightarrow> (case IgnoreNotFound (Some err) of Some err \<Rightarrow> (Inl err, w) | None \<Rightarrow> apply w)
      | (Inr target, w) \<Rightarrow>
          (if cond_Equal (TargetDiscoveryReady (de_now e)) (GetCondition (t_conditions target) ConditionTypeTargetDiscoveryReady)
              \<and> t_discoveryInfo target = Some di
           then (Inr target, w) else apply w))"

definition newDeviationCR :: "('q, 'sel, 'c, 'w) dr_env \<Rightarrow> target \<Rightarrow> goerr + deviation" where
  "newDeviationCR e target =
     (let pm = dl_params (de_CR e); tm = t_meta target in
      case GetTargetLabels (de_template e) pm (de_rule e) of
        Inl err \<Rightarrow> Inl err
      | Inr labels \<Rightarrow>
          (case GetTargetAnnotations (de_template e) pm (de_rule e) of
             Inl err \<Rightarrow> Inl err
           | Inr anno \<Rightarrow> Inr
              \<lparr>d_meta = empty_meta\<lparr>m_name := DeviationName DeviationType_TARGET (m_name tm), m_namespace := m_namespace tm,
                 m_labels := gm_put TargetNameKey (m_name tm) (gm_put TargetNamespaceKey (m_namespace tm) labels), m_annotations := anno,
                 m_ownerReferences := [\<lparr>or_apiVersion = fst (de_targetType e), or_kind = snd (de_targetType e),
                   or_name = m_name tm, or_uid = m_uid tm, or_controller = Some True\<rparr>]\<rparr>,
               d_deviationType = Some DeviationType_TARGET, d_deviations = []\<rparr>))"

definition applyTargetDeviationCR :: "('q, 'sel, 'c, 'w) dr_env \<Rightarrow> bool \<Rightarrow> target \<Rightarrow> 'w \<Rightarrow> goerr option \<times> 'w" where
  "applyTargetDeviationCR e x target w =
     (case newDeviationCR e target of
        Inl err \<Rightarrow> (Some err, w)
      | Inr d \<Rightarrow>
          (case dc_GetDeviation (de_client e x) (m_namespace (d_meta d), m_name (d_meta d)) w of
             (Inl err, w) \<Rightarrow> (case IgnoreNotFound (Some err) of Some err \<Rightarrow> (Some err, w)
                | None \<Rightarrow> dc_CreateDeviation (de_client e x) d w)
           | (Inr _, w) \<Rightarrow> (None, w)))"

section \<open>A goroutine\<close>

text \<open>
  \<open>conn_profile list\<close> and error: the profiles still to try and the errors so far, when discovery is enabled. A
  rule with a default schema tries nothing else: \<open>None\<close>.
\<close>

type_synonym go_rest = "(conn_profile list \<times> goerr option) option"

datatype go_pc = GStart | GScan "conn_profile list" "goerr option" | GChild go_rest string discovery_info
  | GSpec go_rest string discovery_info | GStatus go_rest discovery_info | GDeviation go_rest target
  | GEnded "goerr option" | GPanicked

definition go_failed :: "go_rest \<Rightarrow> goerr \<Rightarrow> go_pc" where
  "go_failed rest err = (case rest of None \<Rightarrow> GEnded (Some err) | Some (ps, acc) \<Rightarrow> GScan ps (err_join acc (Some err)))"

definition static_info :: "schema_key \<Rightarrow> host_info \<Rightarrow> discovery_info" where
  "static_info k h = \<lparr>di_protocol = ''static'', di_provider = kp_Provider k, di_version = kp_Version k, di_hostname = h_hostName h,
     di_platform = [], di_macAddress = [], di_serialNumber = [], di_supportedEncodings = []\<rparr>"

definition discoverWithNone :: "('q, 'sel, 'c, 'w) dr_env \<Rightarrow> host_info \<Rightarrow> go_rest \<Rightarrow> go_pc" where
  \<comment> \<open>up to \<open>createTarget\<close>; without a default schema a nil pointer is followed\<close>
  "discoverWithNone e h rest = (case dg_DefaultSchema (de_cfg e) of None \<Rightarrow> GPanicked
     | Some k \<Rightarrow> GChild rest (kp_Provider k) (static_info k h))"

definition getDiscoveryProfiles :: "('q, 'sel, 'c, 'w) dr_env \<Rightarrow> conn_profile list option" where
  "getDiscoveryProfiles e = map_option df_Connectionprofiles (dg_DiscoveryProfile (de_cfg e))"

definition go_start :: "('q, 'sel, 'c, 'w) dr_env \<Rightarrow> host_info \<Rightarrow> go_pc" where
  \<comment> \<open>\<open>discover\<close> up to its loop\<close>
  "go_start e h =
     (if \<not> dg_Discovery (de_cfg e)
      then if h_hostName h = [] then GEnded (Some (err_new ''cannot create a static target w/o a hostname''))
        else if length (dg_TargetConnectionProfiles (de_cfg e)) = 0
        then GEnded (Some (err_new ''cannot create a static target w/o a connectivity profile''))
        else if dg_DefaultSchema (de_cfg e) = None
        then GEnded (Some (err_new ''cannot create a static target w/o a default schema''))
        else discoverWithNone e h None
      else case getDiscoveryProfiles e of None \<Rightarrow> GPanicked | Some ps \<Rightarrow> GScan ps None)"

definition go_scan :: "('q, 'sel, 'c, 'w) dr_env \<Rightarrow> vendor_profile gomap \<Rightarrow> host_info \<Rightarrow> conn_profile list \<Rightarrow> goerr option \<Rightarrow> 'w
    \<Rightarrow> go_pc \<times> 'w" where
  \<comment> \<open>one turn of the loop of \<open>discover\<close>\<close>
  "go_scan e profiles h ps err w =
     (case ps of
        [] \<Rightarrow> (GEnded err, w)
      | p # ps \<Rightarrow>
          (if cp_protocol p = ''gnmi''
           then (case gnmi_probe (de_gnmi e) (de_ns e) (case dg_DiscoveryProfile (de_cfg e) of Some d \<Rightarrow> df_Secret d | None \<Rightarrow> [])
                   profiles (h_Address h) p w of
                (Panics, w) \<Rightarrow> (GPanicked, w)
              | (Returns (Inl derr), w) \<Rightarrow> (GScan ps (err_join err (Some derr)), w)
              | (Returns (Inr (provider, di)), w) \<Rightarrow> (GChild (Some (ps, err)) provider di, w))
           else if cp_protocol p = ''none'' then (discoverWithNone e h (Some (ps, err)), w)
           else (GScan ps (err_join err (Some (err_new (''unsupported protocol :'' @ cp_protocol p)))), w)))"

type_synonym 'w dr_data = "'w \<times> string list"

text \<open>The world and the children of the run; the store of the children is a set of names.\<close>

definition dr_go :: "('q, 'sel, 'c, 'w) dr_env \<Rightarrow> vendor_profile gomap \<Rightarrow> bool \<Rightarrow> host_info \<Rightarrow> go_pc \<Rightarrow> 'w dr_data \<Rightarrow> go_pc \<times> 'w dr_data" where
  "dr_go e profiles x h pc s =
     (case pc of
        GStart \<Rightarrow> (go_start e h, s)
      | GScan ps err \<Rightarrow> (case go_scan e profiles h ps err (fst s) of (pc, w) \<Rightarrow> (pc, (w, snd s)))
      | GChild rest provider di \<Rightarrow> (GSpec rest provider di, (fst s, List.insert (getTargetName (di_hostname di)) (snd s)))
      | GSpec rest provider di \<Rightarrow>
          (case applyTargetSpec e x (de_ns e, getTargetName (di_hostname di)) provider (h_Address h) (fst s) of
             (Some err, w) \<Rightarrow> (go_failed rest err, (w, snd s)) | (None, w) \<Rightarrow> (GStatus rest di, (w, snd s)))
      | GStatus rest di \<Rightarrow>
          (case applyTargetStatus e x (de_ns e, getTargetName (di_hostname di)) di (fst s) of
             (Inl err, w) \<Rightarrow> (go_failed rest err, (w, snd s)) | (Inr t, w) \<Rightarrow> (GDeviation rest t, (w, snd s)))
      | GDeviation rest t \<Rightarrow>
          (case applyTargetDeviationCR e x t (fst s) of
             (Some err, w) \<Rightarrow> (go_failed rest err, (w, snd s)) | (None, w) \<Rightarrow> (GEnded None, (w, snd s)))
      | GEnded err \<Rightarrow> (pc, s)
      | GPanicked \<Rightarrow> (pc, s))"

section \<open>Unwanted children\<close>

fun delete_targets :: "('sel, 'w) dr_client \<Rightarrow> string list \<Rightarrow> target list \<Rightarrow> 'w \<Rightarrow> 'w" where
  \<comment> \<open>an error of a delete is only logged\<close>
  "delete_targets c children [] w = w"
| "delete_targets c children (t # ts) w =
     delete_targets c children ts (if m_name (t_meta t) \<in> set children then w else snd (dc_DeleteTarget c t w))"

definition deleteUnWantedTargets :: "('q, 'sel, 'c, 'w) dr_env \<Rightarrow> bool \<Rightarrow> 'w dr_data \<Rightarrow> goerr option \<times> 'w dr_data" where
  "deleteUnWantedTargets e x s =
     (case dc_ListTargets (de_client e x) (de_ns e) (de_rule e) (fst s) of
        (Inl err, w) \<Rightarrow> (Some err, (w, snd s))
      | (Inr ts, w) \<Rightarrow> (None, (delete_targets (de_client e x) (snd s) ts w, snd s)))"

fun delete_deviations :: "('sel, 'w) dr_client \<Rightarrow> string list \<Rightarrow> deviation list \<Rightarrow> 'w \<Rightarrow> 'w" where
  "delete_deviations c children [] w = w"
| "delete_deviations c children (d # ds) w =
     delete_deviations c children ds (if m_name (d_meta d) \<in> set children then w else snd (dc_DeleteDeviation c d w))"

definition deleteUnwantedDeviations :: "('q, 'sel, 'c, 'w) dr_env \<Rightarrow> bool \<Rightarrow> 'w dr_data \<Rightarrow> goerr option \<times> 'w dr_data" where
  "deleteUnwantedDeviations e x s =
     (case dc_ListDeviations (de_client e x) (de_ns e) (de_rule e) (fst s) of
        (Inl err, w) \<Rightarrow> (Some err, (w, snd s))
      | (Inr ds, w) \<Rightarrow> (None, (delete_deviations (de_client e x) (snd s) ds w, snd s)))"

definition deleteUnWantedChildren :: "('q, 'sel, 'c, 'w) dr_env \<Rightarrow> bool \<Rightarrow> 'w dr_data \<Rightarrow> 'w dr_data" where
  "deleteUnWantedChildren e x s = snd (deleteUnwantedDeviations e x (snd (deleteUnWantedTargets e x s)))"

section \<open>A run\<close>

datatype dr_pc = MAcquire | MNext | MWait | MClean "goerr option" | MDone "goerr option"

record 'w dr_sys =
  sy_main :: dr_pc
  sy_iter :: iterator
  sy_free :: int
  sy_gos :: "(host_info \<times> go_pc) list"
  sy_data :: "'w dr_data"
  sy_profiles :: "vendor_profile gomap"
  sy_cancelled :: bool

definition getVendorDiscoveryProfiles :: "('q, 'sel, 'c, 'w) dr_env \<Rightarrow> bool \<Rightarrow> 'w \<Rightarrow> (goerr + vendor_profile gomap) \<times> 'w" where
  "getVendorDiscoveryProfiles e x w =
     (case dc_ListVendorProfiles (de_client e x) w of
        (Inl err, w) \<Rightarrow> (Inl err, w) | (Inr ps, w) \<Rightarrow> (Inr (fold (\<lambda>(n, p). gm_put n p) ps []), w))"

definition dr_begin :: "('q, 'sel, 'c, 'w) dr_env \<Rightarrow> bool \<Rightarrow> 'w \<Rightarrow> (goerr \<times> 'w) + 'w dr_sys" where
  \<comment> \<open>\<open>run\<close> up to its loop\<close>
  "dr_begin e x w =
     (case getVendorDiscoveryProfiles e x w of
        (Inl err, w) \<Rightarrow> Inl (err, w)
      | (Inr profiles, w) \<Rightarrow>
          (case dr_getHosts e x w of
             (Inl err, w) \<Rightarrow> Inl (err, w)
           | (Inr it, w) \<Rightarrow> Inr \<lparr>sy_main = MAcquire, sy_iter = it, sy_free = GetConcurrentScans (dl_params (de_CR e)), sy_gos = [],
               sy_data = (w, []), sy_profiles = profiles, sy_cancelled = x\<rparr>))"

definition ctx_err :: goerr where "ctx_err = err_new ''context canceled''"

definition ended :: "go_pc \<Rightarrow> bool" where
  "ended pc = (case pc of GEnded _ \<Rightarrow> True | _ \<Rightarrow> False)"

definition dr_main :: "('q, 'sel, 'c, 'w) dr_env \<Rightarrow> bool \<Rightarrow> 'w dr_sys \<Rightarrow> 'w dr_sys" where
  \<comment> \<open>\<open>give_up\<close>: with a free permit and a cancelled context, \<open>Acquire\<close> returns the error\<close>
  "dr_main e give_up y =
     (case sy_main y of
        MAcquire \<Rightarrow>
          (if sy_cancelled y \<and> (give_up \<or> sy_free y < 1) then y\<lparr>sy_main := MClean (Some ctx_err)\<rparr>
           else if 1 \<le> sy_free y then y\<lparr>sy_free := sy_free y - 1, sy_main := MNext\<rparr> else y)
      | MNext \<Rightarrow>
          (case iter_Next (de_addrString e) (sy_iter y) of
             (None, it) \<Rightarrow> y\<lparr>sy_iter := it, sy_main := MWait\<rparr>
           | (Some h, it) \<Rightarrow>
               (if sy_cancelled y then y\<lparr>sy_iter := it, sy_main := MClean (Some ctx_err)\<rparr>
                else y\<lparr>sy_iter := it, sy_gos := sy_gos y @ [(h, GStart)], sy_main := MAcquire\<rparr>))
      | MWait \<Rightarrow> (if \<forall>g \<in> set (sy_gos y). ended (snd g) then y\<lparr>sy_main := MClean None\<rparr> else y)
      | MClean r \<Rightarrow> y\<lparr>sy_data := deleteUnWantedChildren e (sy_cancelled y) (sy_data y), sy_main := MDone r\<rparr>
      | MDone r \<Rightarrow> y)"

definition dr_goroutine :: "('q, 'sel, 'c, 'w) dr_env \<Rightarrow> nat \<Rightarrow> 'w dr_sys \<Rightarrow> 'w dr_sys" where
  \<comment> \<open>a goroutine that ends gives its permit back\<close>
  "dr_goroutine e i y =
     (if i < length (sy_gos y)
      then let (h, pc) = sy_gos y ! i; (pc', s) = dr_go e (sy_profiles y) (sy_cancelled y) h pc (sy_data y) in
        y\<lparr>sy_gos := (sy_gos y)[i := (h, pc')], sy_data := s, sy_free := sy_free y + (if ended pc' \<and> \<not> ended pc then 1 else 0)\<rparr>
      else y)"

datatype dr_op = DrMain bool | DrGo nat | DrCancel

definition dr_step :: "('q, 'sel, 'c, 'w) dr_env \<Rightarrow> dr_op \<Rightarrow> 'w dr_sys \<Rightarrow> 'w dr_sys" where
  \<comment> \<open>a panic in a goroutine ends the process\<close>
  "dr_step e oper y =
     (if \<exists>g \<in> set (sy_gos y). snd g = GPanicked then y
      else case oper of DrMain g \<Rightarrow> dr_main e g y | DrGo i \<Rightarrow> dr_goroutine e i y | DrCancel \<Rightarrow> y\<lparr>sy_cancelled := True\<rparr>)"

end
