(* ===== verification/DiscoveryRun.thy ===== *)
theory DiscoveryRun
  imports Discovery
begin

text \<open>
  What a run of a discovery rule leaves behind, over every interleaving of its main loop and its goroutines: the
  Targets it deletes and keeps, the number of scans at a time, that it comes to an end, and what becomes of the
  Deviations.
\<close>

declare split_paired_All [simp del] split_paired_Ex [simp del]

section \<open>The API server\<close>

text \<open>\<open>look w\<close>: the labels of the Targets there are.\<close>

definition tkey :: "target \<Rightarrow> nsn" where "tkey t = (m_namespace (t_meta t), m_name (t_meta t))"

definition of_rule :: "('q, 'sel, 'c, 'w) dr_env \<Rightarrow> (nsn \<rightharpoonup> string gomap) \<Rightarrow> nsn \<Rightarrow> bool" where
  \<comment> \<open>a Target in the rule's namespace with the rule's label\<close>
  "of_rule e L k \<longleftrightarrow> fst k = de_ns e \<and> (\<exists>l. L k = Some l \<and> map_of l LabelKeyDiscoveryRule = Some (de_rule e))"

definition child_keys :: "('q, 'sel, 'c, 'w) dr_env \<Rightarrow> string list \<Rightarrow> nsn set" where
  "child_keys e cs = Pair (de_ns e) ` set cs"

definition keeps :: "('w \<Rightarrow> 'a) \<Rightarrow> ('w \<Rightarrow> 'r \<times> 'w) \<Rightarrow> bool" where
  "keeps look f \<longleftrightarrow> (\<forall>w. look (snd (f w)) = look w)"

lemma keepsD: "keeps look f \<Longrightarrow> f w = (r, w') \<Longrightarrow> look w' = look w"
  unfolding keeps_def by (metis snd_conv)

definition list_law :: "('sel, 'w) dr_client \<Rightarrow> ('w \<Rightarrow> nsn \<rightharpoonup> string gomap) \<Rightarrow> bool" where
  "list_law c look \<longleftrightarrow> (\<forall>ns rule w. look (snd (dc_ListTargets c ns rule w)) = look w
     \<and> (\<forall>ts. fst (dc_ListTargets c ns rule w) = Inr ts \<longrightarrow>
          tkey ` set ts = {k. fst k = ns \<and> (\<exists>l. look w k = Some l \<and> map_of l LabelKeyDiscoveryRule = Some rule)}))"

definition delete_law :: "('sel, 'w) dr_client \<Rightarrow> ('w \<Rightarrow> nsn \<rightharpoonup> string gomap) \<Rightarrow> bool" where
  "delete_law c look \<longleftrightarrow> (\<forall>t w. look (snd (dc_DeleteTarget c t w))
     = (if fst (dc_DeleteTarget c t w) = None then (look w)(tkey t := None) else look w))"

definition apply_law :: "('sel, 'w) dr_client \<Rightarrow> ('w \<Rightarrow> nsn \<rightharpoonup> string gomap) \<Rightarrow> bool" where
  "apply_law c look \<longleftrightarrow> (\<forall>a w. if fst (dc_ApplyTarget c a w) = None
     then \<exists>l. look (snd (dc_ApplyTarget c a w)) = (look w)((ta_namespace a, ta_name a) \<mapsto> l) \<and> map_of (ta_labels a) \<subseteq>\<^sub>m map_of l
     else look (snd (dc_ApplyTarget c a w)) = look w)"

definition frame_laws :: "('q, 'sel, 'c, 'w) dr_env \<Rightarrow> ('w \<Rightarrow> 'a) \<Rightarrow> bool" where
  \<comment> \<open>the calls that neither list, apply nor delete a Target leave \<open>look\<close> alone\<close>
  "frame_laws e look \<longleftrightarrow> (let c = de_client e False; g = de_gnmi e in
     (\<forall>k. keeps look (dc_GetTarget c k)) \<and> (\<forall>k cnd di. keeps look (dc_ApplyTargetStatus c k cnd di))
   \<and> (\<forall>k. keeps look (dc_GetDeviation c k)) \<and> (\<forall>d. keeps look (dc_CreateDeviation c d))
   \<and> (\<forall>ns r. keeps look (dc_ListDeviations c ns r)) \<and> (\<forall>d. keeps look (dc_DeleteDeviation c d))
   \<and> keeps look (dc_ListVendorProfiles c) \<and> (\<forall>ns s. keeps look (dc_ListServices c ns s)) \<and> (\<forall>ns s. keeps look (dc_ListPods c ns s))
   \<and> (\<forall>ns s. keeps look (gs_GetSecret g ns s)) \<and> (\<forall>t. keeps look (gs_CreateGNMIClient g t))
   \<and> (\<forall>t. keeps look (gs_Capabilities g t)) \<and> (\<forall>t enc ps. keeps look (gs_Get g t enc ps)))"

definition target_laws :: "('q, 'sel, 'c, 'w) dr_env \<Rightarrow> ('w \<Rightarrow> nsn \<rightharpoonup> string gomap) \<Rightarrow> bool" where
  \<comment> \<open>an API server whose listings are current, and Targets without finalizers: only applying a Target adds one, deleting
      one removes it; a call that fails changes no Target\<close>
  "target_laws e look \<longleftrightarrow> (let c = de_client e False in list_law c look \<and> delete_law c look \<and> apply_law c look)
     \<and> frame_laws e look"

lemma target_frame: "target_laws e look \<Longrightarrow> frame_laws e look"
  by (simp add: target_laws_def)

lemma target_lawsD:
  assumes "target_laws e look"
  shows "dc_ListTargets (de_client e False) ns rule w = (r, w') \<Longrightarrow> look w' = look w"
    "dc_ListTargets (de_client e False) ns rule w = (Inr ts, w') \<Longrightarrow>
       tkey ` set ts = {k. fst k = ns \<and> (\<exists>l. look w k = Some l \<and> map_of l LabelKeyDiscoveryRule = Some rule)}"
    "dc_DeleteTarget (de_client e False) t w = (ro, w') \<Longrightarrow> look w' = (if ro = None then (look w)(tkey t := None) else look w)"
    "dc_ApplyTarget (de_client e False) a w = (Some err, w') \<Longrightarrow> look w' = look w"
    "dc_ApplyTarget (de_client e False) a w = (None, w') \<Longrightarrow>
       \<exists>l. look w' = (look w)((ta_namespace a, ta_name a) \<mapsto> l) \<and> map_of (ta_labels a) \<subseteq>\<^sub>m map_of l"
proof -
  have laws: "list_law (de_client e False) look" "delete_law (de_client e False) look" "apply_law (de_client e False) look"
    using assms by (simp_all add: target_laws_def Let_def)
  show "dc_ListTargets (de_client e False) ns rule w = (r, w') \<Longrightarrow> look w' = look w"
    using laws(1) unfolding list_law_def by (metis snd_conv)
  show "dc_ListTargets (de_client e False) ns rule w = (Inr ts, w') \<Longrightarrow>
       tkey ` set ts = {k. fst k = ns \<and> (\<exists>l. look w k = Some l \<and> map_of l LabelKeyDiscoveryRule = Some rule)}"
    using laws(1) unfolding list_law_def by (metis (no_types, lifting) fst_conv)
  show "dc_DeleteTarget (de_client e False) t w = (ro, w') \<Longrightarrow> look w' = (if ro = None then (look w)(tkey t := None) else look w)"
    using laws(2) [unfolded delete_law_def, rule_format, of t w] by simp
  show "dc_ApplyTarget (de_client e False) a w = (Some err, w') \<Longrightarrow> look w' = look w"
    using laws(3) [unfolded apply_law_def, rule_format, of a w] by simp
  show "dc_ApplyTarget (de_client e False) a w = (None, w') \<Longrightarrow>
       \<exists>l. look w' = (look w)((ta_namespace a, ta_name a) \<mapsto> l) \<and> map_of (ta_labels a) \<subseteq>\<^sub>m map_of l"
    using laws(3) [unfolded apply_law_def, rule_format, of a w] by simp
qed

lemma frame_laws_keeps:
  assumes "frame_laws e look"
  shows "keeps look (dc_GetTarget (de_client e False) k)" "keeps look (dc_ApplyTargetStatus (de_client e False) k cnd di)"
    "keeps look (dc_GetDeviation (de_client e False) k)" "keeps look (dc_CreateDeviation (de_client e False) d)"
    "keeps look (dc_ListDeviations (de_client e False) ns rl)" "keeps look (dc_DeleteDeviation (de_client e False) d)"
    "keeps look (dc_ListVendorProfiles (de_client e False))" "keeps look (dc_ListServices (de_client e False) ns s)"
    "keeps look (dc_ListPods (de_client e False) ns s)" "keeps look (gs_GetSecret (de_gnmi e) ns n)"
    "keeps look (gs_CreateGNMIClient (de_gnmi e) t)" "keeps look (gs_Capabilities (de_gnmi e) t)"
    "keeps look (gs_Get (de_gnmi e) t enc ps)"
  using assms by (simp_all add: frame_laws_def Let_def)

section \<open>The steps and the Targets\<close>

lemma gnmi_probe_keeps:
  assumes "frame_laws e look" "gnmi_probe (de_gnmi e) ns sec profiles a p w = (r, w')"
  shows "look w' = look w"
  using assms(2) unfolding gnmi_probe_def gnmi_session_def Discover_def
  by (auto simp: frame_laws_keeps [OF assms(1), THEN keepsD] split: prod.splits sum.splits option.splits if_splits panics.splits
      dest!: frame_laws_keeps(10) [OF assms(1), THEN keepsD] frame_laws_keeps(11) [OF assms(1), THEN keepsD]
        frame_laws_keeps(12) [OF assms(1), THEN keepsD] frame_laws_keeps(13) [OF assms(1), THEN keepsD])

lemma go_scan_keeps:
  assumes "frame_laws e look" "go_scan e profiles h ps err w = (pc, w')"
  shows "look w' = look w"
  using assms(2) unfolding go_scan_def
  by (auto split: list.splits prod.splits sum.splits option.splits if_splits panics.splits
      dest!: gnmi_probe_keeps [OF assms(1)])

lemma applyTargetStatus_keeps:
  assumes "frame_laws e look" "applyTargetStatus e False k di w = (r, w')"
  shows "look w' = look w"
  using assms(2) unfolding applyTargetStatus_def Let_def
  by (auto split: prod.splits sum.splits option.splits if_splits
      dest!: frame_laws_keeps(1) [OF assms(1), THEN keepsD] frame_laws_keeps(2) [OF assms(1), THEN keepsD])

lemma applyTargetDeviationCR_keeps:
  assumes "frame_laws e look" "applyTargetDeviationCR e False t w = (r, w')"
  shows "look w' = look w"
  using assms(2) unfolding applyTargetDeviationCR_def Let_def
  by (auto split: prod.splits sum.splits option.splits if_splits
      dest!: frame_laws_keeps(3) [OF assms(1), THEN keepsD] frame_laws_keeps(4) [OF assms(1), THEN keepsD])

lemma applyTargetSpec_look:
  assumes "target_laws e look" "applyTargetSpec e False key provider address w = (r, w')"
  shows "(case r of Some err \<Rightarrow> look w' = look w
    | None \<Rightarrow> \<exists>l labels. GetTargetLabels (de_template e) (dl_params (de_CR e)) (de_rule e) = Inr labels
        \<and> look w' = (look w)(key \<mapsto> l) \<and> map_of labels \<subseteq>\<^sub>m map_of l)"
  using assms(2) unfolding applyTargetSpec_def Let_def
  by (cases r) (auto split: sum.splits list.splits dest!: target_lawsD(4) [OF assms(1)] target_lawsD(5) [OF assms(1)])

lemma go_laws:
  assumes "target_laws e look" "dr_go e profiles False h pc (w, cs) = (pc', (w', cs'))"
  shows "set cs \<subseteq> set cs'"
    "\<forall>k. k \<notin> child_keys e cs \<longrightarrow> look w' k = look w k \<or> (\<exists>rest p di. pc = GSpec rest p di \<and> k = (de_ns e, getTargetName (di_hostname di)))"
    "\<forall>k. look w k \<noteq> None \<longrightarrow> look w' k \<noteq> None"
proof -
  have "set cs \<subseteq> set cs' \<and> (look w' = look w
      \<or> (\<exists>rest p di l. pc = GSpec rest p di \<and> look w' = (look w)((de_ns e, getTargetName (di_hostname di)) \<mapsto> l)))"
  proof (cases pc)
    case (GScan ps err)
    then show ?thesis using assms(2) go_scan_keeps [OF target_frame [OF assms(1)]] by (auto simp: dr_go_def split: prod.splits)
  next
    case (GSpec rest p di)
    obtain r w1 where r: "applyTargetSpec e False (de_ns e, getTargetName (di_hostname di)) p (h_Address h) w = (r, w1)"
      by (rule prod.exhaust)
    then have "w' = w1" "cs' = cs" using assms(2) GSpec by (auto simp: dr_go_def split: option.splits)
    then show ?thesis using applyTargetSpec_look [OF assms(1) r] GSpec by (auto split: option.splits)
  next
    case (GStatus rest di)
    then show ?thesis using assms(2) applyTargetStatus_keeps [OF target_frame [OF assms(1)]] by (auto simp: dr_go_def split: prod.splits sum.splits)
  next
    case (GDeviation rest t)
    then show ?thesis using assms(2) applyTargetDeviationCR_keeps [OF target_frame [OF assms(1)]] by (auto simp: dr_go_def split: prod.splits option.splits)
  qed (use assms(2) in \<open>auto simp: dr_go_def\<close>)
  then show "set cs \<subseteq> set cs'"
    "\<forall>k. k \<notin> child_keys e cs \<longrightarrow> look w' k = look w k \<or> (\<exists>rest p di. pc = GSpec rest p di \<and> k = (de_ns e, getTargetName (di_hostname di)))"
    "\<forall>k. look w k \<noteq> None \<longrightarrow> look w' k \<noteq> None" by (auto split: if_splits)
qed

text \<open>The child whose Target a goroutine is about to apply.\<close>

fun go_child :: "go_pc \<Rightarrow> string option" where
  "go_child (GSpec rest p di) = Some (getTargetName (di_hostname di))"
| "go_child (GStatus rest di) = Some (getTargetName (di_hostname di))"
| "go_child _ = None"

lemma go_child_new:
  assumes "dr_go e profiles x h pc s = (pc', s')"
  shows "go_child pc' = Some n \<Longrightarrow> go_child pc = Some n \<or> n \<in> set (snd s')"
proof -
  assume n: "go_child pc' = Some n"
  have f: "go_child (go_failed rest err) = None" for rest err by (simp add: go_failed_def split: option.split prod.split)
  have st: "go_child (go_start e h) = None" by (simp add: go_start_def discoverWithNone_def split: option.split)
  have sc: "go_scan e profiles h ps err w = (pc', w') \<Longrightarrow> go_child pc' = None" for ps err w w'
    by (auto simp: go_scan_def discoverWithNone_def split: list.splits if_splits option.splits prod.splits panics.splits sum.splits)
  show ?thesis using n assms by (cases pc) (auto simp: dr_go_def f st split: prod.splits option.splits sum.splits dest: sc)
qed

section \<open>The run before its clean-up\<close>

definition run_inv :: "('q, 'sel, 'c, 'w) dr_env \<Rightarrow> ('w \<Rightarrow> nsn \<rightharpoonup> string gomap) \<Rightarrow> (nsn \<rightharpoonup> string gomap) \<Rightarrow> 'w dr_sys \<Rightarrow> bool" where
  "run_inv e look L0 y \<longleftrightarrow> \<not> sy_cancelled y
     \<and> (\<forall>g \<in> set (sy_gos y). \<forall>n. go_child (snd g) = Some n \<longrightarrow> n \<in> set (snd (sy_data y)))
     \<and> (\<forall>k. k \<notin> child_keys e (snd (sy_data y)) \<longrightarrow> look (fst (sy_data y)) k = L0 k)
     \<and> (\<forall>k. L0 k \<noteq> None \<longrightarrow> look (fst (sy_data y)) k \<noteq> None)"

lemma child_keys_mono: "set cs \<subseteq> set cs' \<Longrightarrow> child_keys e cs \<subseteq> child_keys e cs'"
  by (auto simp: child_keys_def)

lemma run_inv_go:
  assumes "target_laws e look" "run_inv e look L0 y"
  shows "run_inv e look L0 (dr_goroutine e i y)"
proof (cases "i < length (sy_gos y)")
  case True
  obtain h pc where g: "sy_gos y ! i = (h, pc)" by (rule prod.exhaust)
  obtain w cs where d: "sy_data y = (w, cs)" by (rule prod.exhaust)
  note inv = assms(2) [unfolded run_inv_def d fst_conv snd_conv]
  obtain pc' w' cs' where s: "dr_go e (sy_profiles y) False h pc (w, cs) = (pc', (w', cs'))" by (rule prod_cases3)
  have y: "sy_gos (dr_goroutine e i y) = (sy_gos y)[i := (h, pc')]" "sy_data (dr_goroutine e i y) = (w', cs')"
      "sy_cancelled (dr_goroutine e i y) = False"
    using True g d s inv by (simp_all add: dr_goroutine_def Let_def)
  note laws = go_laws [OF assms(1) s]
  have mem: "(h, pc) \<in> set (sy_gos y)" using True g by (metis nth_mem)
  have kids: "\<forall>g \<in> set ((sy_gos y)[i := (h, pc')]). \<forall>n. go_child (snd g) = Some n \<longrightarrow> n \<in> set cs'"
  proof (intro ballI allI impI)
    fix g n assume "g \<in> set ((sy_gos y)[i := (h, pc')])" "go_child (snd g) = Some n"
    then consider "g = (h, pc')" | "g \<in> set (sy_gos y)" using set_update_subset_insert [of "sy_gos y" i "(h, pc')"] by blast
    then show "n \<in> set cs'"
    proof cases
      case 1
      then have "go_child pc = Some n \<or> n \<in> set cs'" using go_child_new [OF s] \<open>go_child (snd g) = Some n\<close> by simp
      then show ?thesis using bspec [OF conjunct1 [OF conjunct2 [OF inv]] mem] laws(1) by auto
    next
      case 2
      then show ?thesis using bspec [OF conjunct1 [OF conjunct2 [OF inv]], of g] \<open>go_child (snd g) = Some n\<close> laws(1) by blast
    qed
  qed
  have same: "look w' k = L0 k" if k: "k \<notin> child_keys e cs'" for k
  proof -
    have "k \<notin> child_keys e cs" using k child_keys_mono [OF laws(1)] by blast
    moreover have "\<not> (\<exists>rest p di. pc = GSpec rest p di \<and> k = (de_ns e, getTargetName (di_hostname di)))"
    proof
      assume "\<exists>rest p di. pc = GSpec rest p di \<and> k = (de_ns e, getTargetName (di_hostname di))"
      then obtain rest p di where p: "pc = GSpec rest p di" "k = (de_ns e, getTargetName (di_hostname di))" by blast
      then have "getTargetName (di_hostname di) \<in> set cs" using bspec [OF conjunct1 [OF conjunct2 [OF inv]] mem] by simp
      then show False using k laws(1) p(2) by (auto simp: child_keys_def)
    qed
    ultimately show ?thesis using laws(2) inv by metis
  qed
  have kept: "L0 k \<noteq> None \<Longrightarrow> look w' k \<noteq> None" for k using inv laws(3) by blast
  show ?thesis unfolding run_inv_def y fst_conv snd_conv using kids same kept by blast
qed (use assms(2) in \<open>simp add: dr_goroutine_def\<close>)

section \<open>The clean-up\<close>

lemma delete_targets_other:
  assumes "target_laws e look" "k \<notin> tkey ` set ts \<or> snd k \<in> set cs"
  shows "look (delete_targets (de_client e False) cs ts w) k = look w k"
  using assms(2)
proof (induction ts arbitrary: w)
  case (Cons t ts)
  have "look (if m_name (t_meta t) \<in> set cs then w else snd (dc_DeleteTarget (de_client e False) t w)) k = look w k"
  proof (cases "m_name (t_meta t) \<in> set cs")
    case False
    then have "k \<noteq> tkey t" using Cons.prems by (auto simp: tkey_def)
    then show ?thesis using False target_lawsD(3) [OF assms(1) prod.collapse [symmetric], of t w] by simp
  qed simp
  moreover have "k \<notin> tkey ` set ts \<or> snd k \<in> set cs" using Cons.prems by auto
  ultimately show ?case unfolding delete_targets.simps using Cons.IH by metis
qed simp

lemma delete_targets_some:
  assumes "target_laws e look"
  shows "look (delete_targets (de_client e False) cs ts w) k = look w k \<or> look (delete_targets (de_client e False) cs ts w) k = None"
proof (induction ts arbitrary: w)
  case (Cons t ts)
  have "look (snd (dc_DeleteTarget (de_client e False) t w)) k = look w k \<or> look (snd (dc_DeleteTarget (de_client e False) t w)) k = None"
    using target_lawsD(3) [OF assms prod.collapse [symmetric], of t w] by simp
  then show ?case using Cons.IH [of w] Cons.IH [of "snd (dc_DeleteTarget (de_client e False) t w)"] by auto
qed simp

lemma delete_targets_all:
  assumes "target_laws e look" "\<forall>t w. fst (dc_DeleteTarget (de_client e False) t w) = None" "k \<in> tkey ` set ts" "snd k \<notin> set cs"
  shows "look (delete_targets (de_client e False) cs ts w) k = None"
  using assms(3)
proof (induction ts arbitrary: w)
  case (Cons t ts)
  show ?case
  proof (cases "k \<in> tkey ` set ts")
    case True
    then show ?thesis using Cons.IH by simp
  next
    case False
    then have t: "k = tkey t" "m_name (t_meta t) \<notin> set cs" using Cons.prems assms(4) by (auto simp: tkey_def)
    have "look (snd (dc_DeleteTarget (de_client e False) t w)) k = None"
      using target_lawsD(3) [OF assms(1) prod.collapse [symmetric], of t w] assms(2) t(1) by simp
    then show ?thesis using t(2) delete_targets_other [OF assms(1), of k ts cs] False by simp
  qed
qed simp

lemma delete_deviations_keeps:
  assumes "frame_laws e look"
  shows "look (delete_deviations (de_client e False) cs ds w) = look w"
proof (induction ds arbitrary: w)
  case (Cons d ds)
  then show ?case using frame_laws_keeps(6) [OF assms, unfolded keeps_def] by simp
qed simp

definition healthy_cleanup :: "('q, 'sel, 'c, 'w) dr_env \<Rightarrow> bool" where
  \<comment> \<open>listing and deleting Targets succeeds\<close>
  "healthy_cleanup e \<longleftrightarrow> (\<forall>w. \<not> isl (fst (dc_ListTargets (de_client e False) (de_ns e) (de_rule e) w)))
     \<and> (\<forall>t w. fst (dc_DeleteTarget (de_client e False) t w) = None)"

definition cleaned :: "('q, 'sel, 'c, 'w) dr_env \<Rightarrow> ('w \<Rightarrow> nsn \<rightharpoonup> string gomap) \<Rightarrow> (nsn \<rightharpoonup> string gomap) \<Rightarrow> 'w dr_data \<Rightarrow> bool" where
  \<comment> \<open>\<open>L0\<close>: the Targets before\<close>
  "cleaned e look L0 s \<longleftrightarrow>
     (\<forall>k. k \<notin> child_keys e (snd s) \<longrightarrow> look (fst s) k = L0 k \<or> look (fst s) k = None \<and> of_rule e L0 k)
   \<and> (\<forall>k. k \<in> child_keys e (snd s) \<longrightarrow> L0 k \<noteq> None \<longrightarrow> look (fst s) k \<noteq> None)
   \<and> (healthy_cleanup e \<longrightarrow> (\<forall>k. k \<notin> child_keys e (snd s) \<longrightarrow> look (fst s) k = (if of_rule e L0 k then None else L0 k)))"

lemma in_child_keys: "k \<in> child_keys e cs \<longleftrightarrow> fst k = de_ns e \<and> snd k \<in> set cs"
  by (cases k) (auto simp: child_keys_def)

lemma clean_cleaned:
  assumes "target_laws e look"
  shows "cleaned e look (look (fst s)) (deleteUnWantedChildren e False s)"
    "\<forall>k. k \<in> child_keys e (snd s) \<longrightarrow> look (fst (deleteUnWantedChildren e False s)) k = look (fst s) k"
    "snd (deleteUnWantedChildren e False s) = snd s"
proof -
  obtain w cs where s: "s = (w, cs)" by (rule prod.exhaust)
  obtain r w1 where l: "dc_ListTargets (de_client e False) (de_ns e) (de_rule e) w = (r, w1)" by (rule prod.exhaust)
  have look1: "look w1 = look w" by (rule target_lawsD(1) [OF assms l])
  define w2 where "w2 = (case r of Inl err \<Rightarrow> w1 | Inr ts \<Rightarrow> delete_targets (de_client e False) cs ts w1)"
  have d1: "snd (deleteUnWantedTargets e False s) = (w2, cs)"
    using l by (simp add: s deleteUnWantedTargets_def w2_def split: sum.split)
  have d2: "look (fst (deleteUnWantedChildren e False s)) = look w2" and cs: "snd (deleteUnWantedChildren e False s) = snd s"
    using frame_laws_keeps(5) [OF target_frame [OF assms], THEN keepsD] delete_deviations_keeps [OF target_frame [OF assms]]
    by (auto simp: deleteUnWantedChildren_def d1 [unfolded s] deleteUnwantedDeviations_def s split: prod.split sum.split)
  have listed: "tkey ` set ts = {k. of_rule e (look w) k}" if "r = Inr ts" for ts
    using target_lawsD(2) [OF assms l [unfolded that]] unfolding of_rule_def by simp
  have child: "look w2 k = look w k" if "k \<in> child_keys e cs" for k
    using that delete_targets_other [OF assms, of k _ cs w1] look1 unfolding w2_def in_child_keys by (cases r) simp_all
  have other: "look w2 k = look w k \<or> look w2 k = None \<and> of_rule e (look w) k" for k
  proof (cases r)
    case (Inr ts)
    then show ?thesis using listed [OF Inr] delete_targets_other [OF assms, of k ts cs w1] delete_targets_some [OF assms, of cs ts w1 k] look1
      by (auto simp: w2_def)
  qed (simp add: w2_def look1)
  have gone: "look w2 k = None" if "healthy_cleanup e" "k \<notin> child_keys e cs" "of_rule e (look w) k" for k
  proof -
    have "\<not> isl r" using spec [OF conjunct1 [OF that(1) [unfolded healthy_cleanup_def]], of w] l by simp
    then obtain ts where r: "r = Inr ts" by (cases r) simp_all
    have "snd k \<notin> set cs" using that(2,3) unfolding in_child_keys of_rule_def by simp
    then show ?thesis using delete_targets_all [OF assms, of k ts cs w1] that listed [OF r] by (simp add: healthy_cleanup_def w2_def r)
  qed
  show "cleaned e look (look (fst s)) (deleteUnWantedChildren e False s)"
    unfolding cleaned_def d2 cs unfolding s fst_conv snd_conv
  proof (intro conjI allI impI)
    fix k
    show "look w2 k = look w k \<or> look w2 k = None \<and> of_rule e (look w) k" by (rule other)
    show "look w2 k \<noteq> None" if "k \<in> child_keys e cs" "look w k \<noteq> None" using child [OF that(1)] that(2) by simp
    show "look w2 k = (if of_rule e (look w) k then None else look w k)" if "healthy_cleanup e" "k \<notin> child_keys e cs"
      using gone [OF that] other [of k] by auto
  qed
  show "\<forall>k. k \<in> child_keys e (snd s) \<longrightarrow> look (fst (deleteUnWantedChildren e False s)) k = look (fst s) k"
    unfolding d2 unfolding s fst_conv snd_conv using child by blast
  show "snd (deleteUnWantedChildren e False s) = snd s" by (rule cs)
qed

lemma cleaned_from:
  assumes "cleaned e look L1 (w, cs)" "\<forall>k. k \<notin> child_keys e cs \<longrightarrow> L1 k = L0 k" "\<forall>k. L0 k \<noteq> None \<longrightarrow> L1 k \<noteq> None"
  shows "cleaned e look L0 (w, cs)"
proof -
  have "of_rule e L1 k = of_rule e L0 k" if "k \<notin> child_keys e cs" for k using assms(2) that by (simp add: of_rule_def)
  note of = this
  show ?thesis unfolding cleaned_def fst_conv snd_conv
  proof (intro conjI allI impI)
    fix k
    show "look w k = L0 k \<or> look w k = None \<and> of_rule e L0 k" if "k \<notin> child_keys e cs"
      using assms(1) of [OF that] assms(2) that unfolding cleaned_def by auto
    show "look w k \<noteq> None" if "k \<in> child_keys e cs" "L0 k \<noteq> None"
      using assms(1,3) that unfolding cleaned_def by auto
    show "look w k = (if of_rule e L0 k then None else L0 k)" if "healthy_cleanup e" "k \<notin> child_keys e cs"
      using assms(1) of [OF that(2)] assms(2) that unfolding cleaned_def by auto
  qed
qed

section \<open>Every run\<close>

definition dr_inv ::
  "('q, 'sel, 'c, 'w) dr_env \<Rightarrow> ('w dr_sys \<Rightarrow> bool) \<Rightarrow> ('w dr_data \<Rightarrow> bool) \<Rightarrow> host_info list \<Rightarrow> 'w dr_sys \<Rightarrow> bool" where
  \<comment> \<open>\<open>coll\<close> until the deferred deletion, \<open>clean\<close> from then on\<close>
  "dr_inv e coll clean hosts y \<longleftrightarrow>
     (case sy_main y of
        MAcquire \<Rightarrow> coll y \<and> hosts = map fst (sy_gos y) @ all_hosts (de_addrString e) (sy_iter y)
      | MNext \<Rightarrow> coll y \<and> hosts = map fst (sy_gos y) @ all_hosts (de_addrString e) (sy_iter y)
      | MWait \<Rightarrow> coll y \<and> hosts = map fst (sy_gos y)
      | MClean r \<Rightarrow> coll y \<and> hosts = map fst (sy_gos y) \<and> r = None \<and> (\<forall>g \<in> set (sy_gos y). ended (snd g))
      | MDone r \<Rightarrow> \<not> sy_cancelled y \<and> clean (sy_data y) \<and> hosts = map fst (sy_gos y) \<and> r = None
          \<and> (\<forall>g \<in> set (sy_gos y). ended (snd g)))"

lemma ended_iff: "ended pc \<longleftrightarrow> (\<exists>r. pc = GEnded r)"
  by (cases pc) (simp_all add: ended_def)

lemma go_ended: "ended pc \<Longrightarrow> dr_go e profiles x h pc s = (pc, s)"
  by (auto simp: ended_iff dr_go_def)

lemma goroutine_ended:
  assumes "\<forall>g \<in> set (sy_gos y). ended (snd g)"
  shows "dr_goroutine e i y = y"
proof (cases "i < length (sy_gos y)")
  case True
  obtain h pc where g: "sy_gos y ! i = (h, pc)" by (rule prod.exhaust)
  then have "ended pc" using True assms by (metis nth_mem snd_conv)
  moreover have "(sy_gos y)[i := (h, pc)] = sy_gos y" using g by (metis list_update_id)
  ultimately show ?thesis using True g by (simp add: dr_goroutine_def go_ended)
qed (simp add: dr_goroutine_def)

lemma goroutine_sel [simp]:
  "sy_main (dr_goroutine e i y) = sy_main y" "sy_iter (dr_goroutine e i y) = sy_iter y"
  "map fst (sy_gos (dr_goroutine e i y)) = map fst (sy_gos y)" "sy_profiles (dr_goroutine e i y) = sy_profiles y"
  "sy_cancelled (dr_goroutine e i y) = sy_cancelled y"
  by (auto simp: dr_goroutine_def Let_def map_update list_update_same_conv split: prod.split)

lemma all_hosts_Next:
  "iter_Next str it = (None, it') \<Longrightarrow> all_hosts str it = []"
  "iter_Next str it = (Some h, it') \<Longrightarrow> all_hosts str it = h # all_hosts str it'"
  by (subst all_hosts.simps, simp)+

text \<open>What is kept while the hosts are scanned, and what the clean-up makes of it.\<close>

locale clean_run =
  fixes e :: "('q, 'sel, 'c, 'w) dr_env" and coll :: "'w dr_sys \<Rightarrow> bool" and clean :: "'w dr_data \<Rightarrow> bool"
  assumes live: "coll y \<Longrightarrow> \<not> sy_cancelled y"
    and framed: "coll y \<Longrightarrow> sy_gos y' = sy_gos y \<Longrightarrow> sy_data y' = sy_data y \<Longrightarrow> sy_cancelled y' = sy_cancelled y \<Longrightarrow> coll y'"
    and started: "coll y \<Longrightarrow> coll (y\<lparr>sy_gos := sy_gos y @ [(h, GStart)]\<rparr>)"
    and works: "coll y \<Longrightarrow> coll (dr_goroutine e i y)"
    and cleans: "coll y \<Longrightarrow> clean (deleteUnWantedChildren e False (sy_data y))"
begin

lemma inv_goroutine:
  assumes "dr_inv e coll clean hosts y"
  shows "dr_inv e coll clean hosts (dr_goroutine e i y)"
proof (cases "sy_main y")
  case (MClean r)
  then show ?thesis using assms goroutine_ended [of y e i] by (simp add: dr_inv_def)
next
  case (MDone r)
  then show ?thesis using assms goroutine_ended [of y e i] by (simp add: dr_inv_def)
qed (use assms works in \<open>simp_all add: dr_inv_def\<close>)

lemma inv_main:
  assumes "dr_inv e coll clean hosts y"
  shows "dr_inv e coll clean hosts (dr_main e give_up y)"
proof (cases "sy_main y")
  case MAcquire
  then have r: "coll y" "hosts = map fst (sy_gos y) @ all_hosts (de_addrString e) (sy_iter y)" using assms by (simp_all add: dr_inv_def)
  then show ?thesis using MAcquire assms live [OF r(1)] framed [OF r(1)] by (simp add: dr_main_def dr_inv_def)
next
  case MNext
  then have r: "coll y" "hosts = map fst (sy_gos y) @ all_hosts (de_addrString e) (sy_iter y)"
    using assms by (simp_all add: dr_inv_def)
  obtain h it where n: "iter_Next (de_addrString e) (sy_iter y) = (h, it)" by (rule prod.exhaust)
  show ?thesis
  proof (cases h)
    case None
    then show ?thesis using MNext r n all_hosts_Next(1) [of "de_addrString e" "sy_iter y" it] framed [OF r(1)]
      by (simp add: dr_main_def dr_inv_def)
  next
    case (Some hi)
    then have y': "dr_main e give_up y = y\<lparr>sy_iter := it, sy_gos := sy_gos y @ [(hi, GStart)], sy_main := MAcquire\<rparr>"
      using MNext n live [OF r(1)] by (simp add: dr_main_def)
    have "coll (y\<lparr>sy_iter := it, sy_gos := sy_gos y @ [(hi, GStart)], sy_main := MAcquire\<rparr>)"
      by (rule framed [OF started [OF r(1), of hi]]) simp_all
    then show ?thesis using r(2) all_hosts_Next(2) [OF n [unfolded Some]] by (simp add: y' dr_inv_def)
  qed
next
  case MWait
  then have r: "coll y" "hosts = map fst (sy_gos y)" using assms by (simp_all add: dr_inv_def)
  then show ?thesis using MWait framed [OF r(1)] by (simp add: dr_main_def dr_inv_def)
next
  case (MClean r)
  then have inv: "coll y" "hosts = map fst (sy_gos y)" "r = None" "\<forall>g \<in> set (sy_gos y). ended (snd g)"
    using assms by (simp_all add: dr_inv_def)
  then show ?thesis using MClean live [OF inv(1)] cleans [OF inv(1)] by (simp add: dr_main_def dr_inv_def)
next
  case (MDone r)
  then show ?thesis using assms by (simp add: dr_main_def)
qed

lemma run_kept:
  assumes "DrCancel \<notin> set ops" "dr_inv e coll clean hosts y"
  shows "dr_inv e coll clean hosts (run_ops (dr_step e) ops y)"
  using assms
proof (induction ops arbitrary: y)
  case (Cons oper ops)
  have "dr_inv e coll clean hosts (dr_step e oper y)"
    using Cons.prems inv_main inv_goroutine by (cases oper) (auto simp: dr_step_def)
  then show ?case using Cons by (simp add: run_ops_def)
qed (simp add: run_ops_def)

end

definition target_coll :: "('q, 'sel, 'c, 'w) dr_env \<Rightarrow> ('w \<Rightarrow> nsn \<rightharpoonup> string gomap) \<Rightarrow> (nsn \<rightharpoonup> string gomap) \<Rightarrow> 'w dr_sys \<Rightarrow> bool" where
  "target_coll e look L0 y \<longleftrightarrow> target_laws e look \<and> run_inv e look L0 y"

lemma run_inv_cleaned:
  assumes "target_coll e look L0 y"
  shows "cleaned e look L0 (deleteUnWantedChildren e False (sy_data y))"
proof -
  have laws: "target_laws e look" and inv: "run_inv e look L0 y" using assms by (simp_all add: target_coll_def)
  obtain w cs where d: "sy_data y = (w, cs)" by (rule prod.exhaust)
  note c = clean_cleaned [OF laws, of "(w, cs)"]
  obtain w' where d': "deleteUnWantedChildren e False (w, cs) = (w', cs)" using c(3) by (metis prod.collapse snd_conv)
  have "cleaned e look L0 (w', cs)"
  proof (rule cleaned_from)
    show "cleaned e look (look w) (w', cs)" using c(1) d' by simp
    show "\<forall>k. k \<notin> child_keys e cs \<longrightarrow> look w k = L0 k" "\<forall>k. L0 k \<noteq> None \<longrightarrow> look w k \<noteq> None"
      using inv d by (simp_all add: run_inv_def)
  qed
  then show ?thesis by (simp add: d d')
qed

interpretation target_runs: clean_run e "target_coll e look L0" "cleaned e look L0"
  for e :: "('q, 'sel, 'c, 'w) dr_env" and look and L0
  by unfold_locales (auto simp: target_coll_def run_inv_go run_inv_cleaned, auto simp: run_inv_def)

lemma dr_getHosts_keeps:
  assumes "frame_laws e look" "dr_getHosts e False w = (r, w')"
  shows "look w' = look w"
  using assms(2) unfolding dr_getHosts_def GetPODDiscoveryAddresses_def GetSVCDiscoveryAddresses_def getPods_def getServices_def Let_def
  by (auto split: sum.splits dr_kind.splits prod.splits if_splits
      dest!: frame_laws_keeps(8) [OF assms(1), THEN keepsD] frame_laws_keeps(9) [OF assms(1), THEN keepsD])

lemma dr_begin_inv:
  assumes "target_laws e look" "dr_begin e False w0 = Inr y"
  shows "dr_inv e (target_coll e look (look w0)) (cleaned e look (look w0)) (all_hosts (de_addrString e) (sy_iter y)) y"
proof -
  obtain r w1 where v: "getVendorDiscoveryProfiles e False w0 = (r, w1)" by (rule prod.exhaust)
  then have l1: "look w1 = look w0"
    using frame_laws_keeps(7) [OF target_frame [OF assms(1)], THEN keepsD] by (auto simp: getVendorDiscoveryProfiles_def split: prod.splits sum.splits)
  obtain h w2 where g: "dr_getHosts e False w1 = (h, w2)" by (rule prod.exhaust)
  show ?thesis using assms v g l1 dr_getHosts_keeps [OF target_frame [OF assms(1)] g]
    by (auto simp: dr_begin_def dr_inv_def target_coll_def run_inv_def split: sum.splits)
qed

text \<open>
  What a run does to the Targets of a server that lists them as they are and removes them as it is asked: a Target
  that was not registered as a child is as before, or it was one of the rule's and is gone; one that was
  registered and existed is still there. When listing and deleting Targets succeeds, the rule has no other
  Targets left than children.
\<close>
theorem targets_after_run:
  assumes "target_laws e look" "dr_begin e False w0 = Inr y0" "DrCancel \<notin> set ops"
    "y = run_ops (dr_step e) ops y0" "sy_main y = MDone r" "sy_data y = (w, cs)"
  shows "r = None \<and> map fst (sy_gos y) = all_hosts (de_addrString e) (sy_iter y0)
    \<and> (\<forall>k. k \<notin> child_keys e cs \<longrightarrow> look w k = look w0 k \<or> look w k = None \<and> of_rule e (look w0) k)
    \<and> (\<forall>k. k \<in> child_keys e cs \<longrightarrow> look w0 k \<noteq> None \<longrightarrow> look w k \<noteq> None)
    \<and> (healthy_cleanup e \<longrightarrow> (\<forall>k. k \<notin> child_keys e cs \<longrightarrow> look w k = (if of_rule e (look w0) k then None else look w0 k)))"
  using target_runs.run_kept [OF assms(3) dr_begin_inv [OF assms(1,2)]] assms(4-6) by (simp add: dr_inv_def cleaned_def)

section \<open>Rules without discovery\<close>

definition healthy_client :: "('q, 'sel, 'c, 'w) dr_env \<Rightarrow> ('w \<Rightarrow> nsn \<rightharpoonup> string gomap) \<Rightarrow> bool" where
  \<comment> \<open>no call on Targets and Deviations fails, but for reading what is not there\<close>
  "healthy_client e look \<longleftrightarrow> (let c = de_client e False in healthy_cleanup e
     \<and> (\<forall>a w. fst (dc_ApplyTarget c a w) = None) \<and> (\<forall>k cnd di w. fst (dc_ApplyTargetStatus c k cnd di w) = None)
     \<and> (\<forall>k w. look w k \<noteq> None \<longrightarrow> \<not> isl (fst (dc_GetTarget c k w)))
     \<and> (\<forall>k w err. fst (dc_GetDeviation c k w) = Inl err \<longrightarrow> IgnoreNotFound (Some err) = None)
     \<and> (\<forall>d w. fst (dc_CreateDeviation c d w) = None))"

lemma healthy_clientD:
  assumes "healthy_client e look"
  shows "dc_ApplyTarget (de_client e False) a w = (r, w') \<Longrightarrow> r = None"
    "dc_ApplyTargetStatus (de_client e False) k cnd di w = (r, w') \<Longrightarrow> r = None"
    "dc_GetTarget (de_client e False) k w = (t, w') \<Longrightarrow> look w k \<noteq> None \<Longrightarrow> \<exists>t'. t = Inr t'"
    "dc_GetDeviation (de_client e False) k w = (Inl err, w') \<Longrightarrow> IgnoreNotFound (Some err) = None"
    "dc_CreateDeviation (de_client e False) d w = (r, w') \<Longrightarrow> r = None"
    "healthy_cleanup e"
proof -
  note h = assms [unfolded healthy_client_def Let_def]
  show "healthy_cleanup e" using h by blast
  show "dc_ApplyTarget (de_client e False) a w = (r, w') \<Longrightarrow> r = None" using h by (metis fst_conv)
  show "dc_ApplyTargetStatus (de_client e False) k cnd di w = (r, w') \<Longrightarrow> r = None" using h by (metis fst_conv)
  show "dc_CreateDeviation (de_client e False) d w = (r, w') \<Longrightarrow> r = None" using h by (metis fst_conv)
  show "dc_GetDeviation (de_client e False) k w = (Inl err, w') \<Longrightarrow> IgnoreNotFound (Some err) = None" using h by (metis fst_conv)
  show "dc_GetTarget (de_client e False) k w = (t, w') \<Longrightarrow> look w k \<noteq> None \<Longrightarrow> \<exists>t'. t = Inr t'"
    using h by (metis fst_conv isl_def sum.exhaust)
qed

definition static_rule :: "('q, 'sel, 'c, 'w) dr_env \<Rightarrow> schema_key \<Rightarrow> string gomap \<Rightarrow> bool" where
  \<comment> \<open>a rule with a default schema, whose template keeps the label of the rule\<close>
  "static_rule e sk labels \<longleftrightarrow> \<not> dg_Discovery (de_cfg e) \<and> dg_DefaultSchema (de_cfg e) = Some sk
     \<and> dg_TargetConnectionProfiles (de_cfg e) \<noteq> [] \<and> pm_TargetConnectionProfiles (dl_params (de_CR e)) \<noteq> []
     \<and> GetTargetLabels (de_template e) (dl_params (de_CR e)) (de_rule e) = Inr labels
     \<and> map_of labels LabelKeyDiscoveryRule = Some (de_rule e)
     \<and> \<not> isl (GetTargetAnnotations (de_template e) (dl_params (de_CR e)) (de_rule e))"

abbreviation host_key :: "('q, 'sel, 'c, 'w) dr_env \<Rightarrow> host_info \<Rightarrow> nsn" where
  "host_key e h \<equiv> (de_ns e, getTargetName (h_hostName h))"

definition static_at :: "('q, 'sel, 'c, 'w) dr_env \<Rightarrow> schema_key \<Rightarrow> (nsn \<rightharpoonup> string gomap) \<Rightarrow> string list \<Rightarrow> host_info \<times> go_pc \<Rightarrow> bool" where
  "static_at e sk L cs g \<longleftrightarrow> (let (h, pc) = g; di = static_info sk h in
     h_hostName h \<noteq> [] \<longrightarrow>
     pc = GStart \<or> (\<exists>p. pc = GChild None p di)
     \<or> getTargetName (h_hostName h) \<in> set cs
       \<and> ((\<exists>p. pc = GSpec None p di) \<or> of_rule e L (host_key e h) \<and> (pc = GStatus None di \<or> (\<exists>t. pc = GDeviation None t) \<or> pc = GEnded None)))"

lemma static_at_mono:
  assumes "static_at e sk L cs g" "set cs \<subseteq> set cs'" "\<forall>k. snd k \<in> set cs \<longrightarrow> of_rule e L k \<longrightarrow> of_rule e L' k"
  shows "static_at e sk L' cs' g"
  using assms unfolding static_at_def Let_def by (cases g) auto

lemma static_go:
  assumes "target_laws e look" "healthy_client e look" "static_rule e sk labels" "h_hostName h \<noteq> []"
    "static_at e sk (look w) cs (h, pc)" "dr_go e profiles False h pc (w, cs) = (pc', (w', cs'))"
  shows "static_at e sk (look w') cs' (h, pc')" "cs' = cs \<or> cs' = List.insert (getTargetName (h_hostName h)) cs"
    "\<forall>k. of_rule e (look w) k \<longrightarrow> of_rule e (look w') k"
proof -
  let ?di = "static_info sk h"
  have hn: "di_hostname ?di = h_hostName h" by (simp add: static_info_def)
  note st = assms(3) [unfolded static_rule_def]
  consider "pc = GStart" | (child) p where "pc = GChild None p ?di"
    | (spec) p where "getTargetName (h_hostName h) \<in> set cs" "pc = GSpec None p ?di"
    | (status) "getTargetName (h_hostName h) \<in> set cs" "of_rule e (look w) (host_key e h)" "pc = GStatus None ?di"
    | (deviation) t where "getTargetName (h_hostName h) \<in> set cs" "of_rule e (look w) (host_key e h)" "pc = GDeviation None t"
    | (over) "getTargetName (h_hostName h) \<in> set cs" "of_rule e (look w) (host_key e h)" "pc = GEnded None"
    using assms(4,5) unfolding static_at_def Let_def split by blast
  then have "static_at e sk (look w') cs' (h, pc') \<and> (cs' = cs \<or> cs' = List.insert (getTargetName (h_hostName h)) cs)
    \<and> (\<forall>k. of_rule e (look w) k \<longrightarrow> of_rule e (look w') k)"
  proof cases
    case 1
    then have "pc' = GChild None (kp_Provider sk) ?di \<and> w' = w \<and> cs' = cs"
      using assms(4,6) st by (auto simp: dr_go_def go_start_def discoverWithNone_def)
    then show ?thesis by (simp add: static_at_def)
  next
    case (child p)
    then have "pc' = GSpec None p ?di \<and> w' = w \<and> cs' = List.insert (getTargetName (h_hostName h)) cs"
      using assms(6) hn by (auto simp: dr_go_def)
    then show ?thesis by (simp add: static_at_def)
  next
    case (spec p)
    note in_cs = spec(1) and pc = spec(2)
    obtain r w1 where s: "applyTargetSpec e False (host_key e h) p (h_Address h) w = (r, w1)" by (rule prod.exhaust)
    have "r = None" using s st healthy_clientD(1) [OF assms(2)] unfolding applyTargetSpec_def Let_def
      by (auto split: sum.splits list.splits)
    then have eq: "pc' = GStatus None ?di \<and> w' = w1 \<and> cs' = cs" using assms(6) pc s hn by (simp add: dr_go_def)
    obtain l where l: "look w1 = (look w)(host_key e h \<mapsto> l)" "map_of labels \<subseteq>\<^sub>m map_of l"
      using applyTargetSpec_look [OF assms(1) s] \<open>r = None\<close> st by auto
    then have "map_of l LabelKeyDiscoveryRule = Some (de_rule e)" using st by (metis domI map_le_def)
    then show ?thesis using eq l(1) in_cs by (auto simp: static_at_def of_rule_def)
  next
    case status
    note in_cs = status(1) and L = status(2) and pc = status(3)
    obtain r w1 where s: "applyTargetStatus e False (host_key e h) ?di w = (r, w1)" by (rule prod.exhaust)
    note k = applyTargetStatus_keeps [OF target_frame [OF assms(1)] s]
    have here: "look w (host_key e h) \<noteq> None" using L by (auto simp: of_rule_def)
    have "\<exists>t. r = Inr t"
    proof -
      obtain t1 w2 where g1: "dc_GetTarget (de_client e False) (host_key e h) w = (Inr t1, w2)"
        using healthy_clientD(3) [OF assms(2) prod.collapse [symmetric] here] by (metis prod.collapse)
      obtain w3 where a: "dc_ApplyTargetStatus (de_client e False) (host_key e h) (TargetDiscoveryReady (de_now e)) (discoveryInfoToApply ?di) w2 = (None, w3)"
        using healthy_clientD(2) [OF assms(2) prod.collapse [symmetric]] by (metis prod.collapse)
      have "look w3 = look w"
        using frame_laws_keeps(1,2) [OF target_frame [OF assms(1)], THEN keepsD] g1 a by metis
      then obtain t2 w4 where "dc_GetTarget (de_client e False) (host_key e h) w3 = (Inr t2, w4)"
        using healthy_clientD(3) [OF assms(2) prod.collapse [symmetric], of w3] here by (metis prod.collapse)
      then show ?thesis using s g1 a by (auto simp: applyTargetStatus_def split: if_splits)
    qed
    then have "(\<exists>t. pc' = GDeviation None t) \<and> w' = w1 \<and> cs' = cs" using assms(6) pc s hn by (auto simp: dr_go_def)
    then show ?thesis using k L in_cs by (auto simp: static_at_def)
  next
    case (deviation t)
    note in_cs = deviation(1) and L = deviation(2) and pc = deviation(3)
    obtain r w1 where s: "applyTargetDeviationCR e False t w = (r, w1)" by (rule prod.exhaust)
    note k = applyTargetDeviationCR_keeps [OF target_frame [OF assms(1)] s]
    have "r = None"
      using s st healthy_clientD(4) [OF assms(2)] healthy_clientD(5) [OF assms(2)]
      unfolding applyTargetDeviationCR_def newDeviationCR_def Let_def by (auto split: sum.splits prod.splits option.splits)
    then have "pc' = GEnded None \<and> w' = w1 \<and> cs' = cs" using assms(6) pc s by (auto simp: dr_go_def)
    then show ?thesis using k L in_cs by (auto simp: static_at_def)
  next
    case over
    note in_cs = over(1) and L = over(2) and pc = over(3)
    then have "pc' = GEnded None \<and> w' = w \<and> cs' = cs" using assms(6) by (auto simp: dr_go_def)
    then show ?thesis using L in_cs by (auto simp: static_at_def)
  qed
  then show "static_at e sk (look w') cs' (h, pc')" "cs' = cs \<or> cs' = List.insert (getTargetName (h_hostName h)) cs"
    "\<forall>k. of_rule e (look w) k \<longrightarrow> of_rule e (look w') k" by blast+
qed

definition named_keys :: "('q, 'sel, 'c, 'w) dr_env \<Rightarrow> host_info list \<Rightarrow> nsn set" where
  \<comment> \<open>the Targets of the hosts that have a name\<close>
  "named_keys e hs = host_key e ` {h \<in> set hs. h_hostName h \<noteq> []}"

definition static_run :: "('q, 'sel, 'c, 'w) dr_env \<Rightarrow> ('w \<Rightarrow> nsn \<rightharpoonup> string gomap) \<Rightarrow> schema_key \<Rightarrow> 'w dr_sys \<Rightarrow> bool" where
  "static_run e look sk y \<longleftrightarrow>
     (\<forall>g \<in> set (sy_gos y). static_at e sk (look (fst (sy_data y))) (snd (sy_data y)) g)
   \<and> (\<forall>g \<in> set (sy_gos y). h_hostName (fst g) = [] \<longrightarrow> snd g = GStart \<or> ended (snd g))
   \<and> child_keys e (snd (sy_data y)) \<subseteq> named_keys e (map fst (sy_gos y))"

lemma child_keys_insert: "child_keys e (List.insert n cs) = insert (de_ns e, n) (child_keys e cs)"
  by (simp add: child_keys_def)

lemma nameless_go:
  assumes "\<not> dg_Discovery (de_cfg e)" "h_hostName h = []" "pc = GStart \<or> ended pc" "dr_go e profiles x h pc s = (pc', s')"
  shows "s' = s" "ended pc'"
  using assms by (auto simp: dr_go_def go_start_def ended_iff)

lemma static_run_goroutine:
  assumes "target_laws e look" "healthy_client e look" "static_rule e sk labels" "\<not> sy_cancelled y" "static_run e look sk y"
  shows "static_run e look sk (dr_goroutine e i y)"
proof (cases "i < length (sy_gos y)")
  case True
  obtain h pc where g: "sy_gos y ! i = (h, pc)" by (rule prod.exhaust)
  obtain w cs where d: "sy_data y = (w, cs)" by (rule prod.exhaust)
  obtain pc' w' cs' where s: "dr_go e (sy_profiles y) False h pc (w, cs) = (pc', (w', cs'))" by (rule prod_cases3)
  have y: "sy_gos (dr_goroutine e i y) = (sy_gos y)[i := (h, pc')]" "sy_data (dr_goroutine e i y) = (w', cs')"
    using True g d s assms(4) by (simp_all add: dr_goroutine_def Let_def)
  have mem: "(h, pc) \<in> set (sy_gos y)" using True g by (metis nth_mem)
  have names: "map fst ((sy_gos y)[i := (h, pc')]) = map fst (sy_gos y)" using goroutine_sel(3) [of e i y] unfolding y .
  have at: "\<And>g. g \<in> set (sy_gos y) \<Longrightarrow> static_at e sk (look w) cs g"
      and anon: "\<And>g. g \<in> set (sy_gos y) \<Longrightarrow> h_hostName (fst g) = [] \<Longrightarrow> snd g = GStart \<or> ended (snd g)"
      and sub: "child_keys e cs \<subseteq> named_keys e (map fst (sy_gos y))"
    using assms(5) unfolding static_run_def d by auto
  have upd: "g \<in> set ((sy_gos y)[i := (h, pc')]) \<Longrightarrow> g = (h, pc') \<or> g \<in> set (sy_gos y)" for g
    using set_update_subset_insert [of "sy_gos y" i "(h, pc')"] by blast
  show ?thesis
  proof (cases "h_hostName h = []")
    case True
    have "\<not> dg_Discovery (de_cfg e)" using assms(3) by (simp add: static_rule_def)
    note n = nameless_go [OF this True _ s]
    have "pc = GStart \<or> ended pc" using anon [OF mem] True by simp
    from n [OF this] have same: "w' = w" "cs' = cs" "ended pc'" by simp_all
    have "static_at e sk (look w) cs (h, pc')" using True by (simp add: static_at_def)
    then show ?thesis unfolding static_run_def y names same(1,2) fst_conv snd_conv using at anon sub same(3) upd by (metis fst_conv snd_conv)
  next
    case False
    note st = static_go [OF assms(1-3) False at [OF mem] s]
    have cs: "set cs \<subseteq> set cs'" using st(2) by auto
    have "host_key e h \<in> named_keys e (map fst (sy_gos y))" using mem False by (force simp: named_keys_def)
    then have "child_keys e cs' \<subseteq> named_keys e (map fst (sy_gos y))" using st(2) sub by (auto simp: child_keys_insert)
    moreover have "static_at e sk (look w') cs' g" if "g \<in> set (sy_gos y)" for g
      by (rule static_at_mono [OF at [OF that] cs]) (use st(3) in blast)
    ultimately show ?thesis unfolding static_run_def y names fst_conv snd_conv using st(1) anon upd False by (metis fst_conv)
  qed
qed (use assms(5) in \<open>simp add: dr_goroutine_def\<close>)

lemma static_run_main:
  assumes "target_laws e look" "\<not> sy_cancelled y" "static_run e look sk y"
  shows "static_run e look sk (dr_main e give_up y)"
proof (cases "sy_main y")
  case MNext
  obtain h it where n: "iter_Next (de_addrString e) (sy_iter y) = (h, it)" by (rule prod.exhaust)
  have mono: "named_keys e xs \<subseteq> named_keys e (xs @ [x])" for xs x by (auto simp: named_keys_def)
  show ?thesis
  proof (cases h)
    case (Some hi)
    have "static_at e sk (look (fst (sy_data y))) (snd (sy_data y)) (hi, GStart)" by (simp add: static_at_def)
    then show ?thesis using MNext n Some assms(2,3) mono [of "map fst (sy_gos y)" hi]
      by (simp add: dr_main_def static_run_def) (blast intro: subset_trans)
  qed (use MNext n assms(3) in \<open>simp add: dr_main_def static_run_def\<close>)
next
  case (MClean r)
  obtain w cs where d: "sy_data y = (w, cs)" by (rule prod.exhaust)
  note c = clean_cleaned [OF assms(1), of "(w, cs)"]
  obtain w' where d': "deleteUnWantedChildren e False (w, cs) = (w', cs)" using c(3) by (metis prod.collapse snd_conv)
  have kept: "look w' k = look w k" if "k \<in> child_keys e cs" for k using c(2) d' that by simp
  have "static_at e sk (look w') cs g" if "g \<in> set (sy_gos y)" for g
  proof (rule static_at_mono)
    show "static_at e sk (look w) cs g" using assms(3) d that by (simp add: static_run_def)
    show "\<forall>k. snd k \<in> set cs \<longrightarrow> of_rule e (look w) k \<longrightarrow> of_rule e (look w') k"
    proof (intro allI impI)
      fix k assume k: "snd k \<in> set cs" "of_rule e (look w) k"
      then have "k \<in> child_keys e cs" by (simp add: in_child_keys of_rule_def)
      from kept [OF this] k(2) show "of_rule e (look w') k" by (simp add: of_rule_def)
    qed
  qed simp
  then show ?thesis using MClean assms(2,3) d d' by (simp add: dr_main_def static_run_def)
qed (use assms(3) in \<open>auto simp: dr_main_def static_run_def\<close>)

lemma static_run_run:
  assumes "target_laws e look" "healthy_client e look" "static_rule e sk labels" "DrCancel \<notin> set ops"
    "\<not> sy_cancelled y" "static_run e look sk y"
  shows "static_run e look sk (run_ops (dr_step e) ops y)"
  using assms(4-6)
proof (induction ops arbitrary: y)
  case (Cons oper ops)
  have c: "\<not> sy_cancelled (dr_step e oper y)" using Cons.prems
    by (cases oper) (auto simp: dr_step_def dr_main_def split: dr_pc.split prod.split option.split)
  have "static_run e look sk (dr_step e oper y)"
    using Cons.prems static_run_main [OF assms(1)] static_run_goroutine [OF assms(1-3)] by (cases oper) (auto simp: dr_step_def)
  then show ?case using Cons c by (simp add: run_ops_def)
qed (simp add: run_ops_def)

lemma dr_begin_start:
  assumes "dr_begin e x w0 = Inr y"
  shows "sy_main y = MAcquire" "sy_gos y = []" "snd (sy_data y) = []" "sy_cancelled y = x"
    "sy_free y = GetConcurrentScans (dl_params (de_CR e))"
  using assms by (auto simp: dr_begin_def split: prod.splits sum.splits)

text \<open>
  A rule without discovery owns exactly its hosts. When no call fails, a finished run of a rule with a default
  schema leaves, of all Targets with its label in its namespace, those of its hosts (a host without a name has
  none), whatever the order of its goroutines.
\<close>
theorem static_rule_exact:
  assumes "target_laws e look" "healthy_client e look" "static_rule e sk labels" "dr_begin e False w0 = Inr y0" "DrCancel \<notin> set ops"
    "y = run_ops (dr_step e) ops y0" "sy_main y = MDone r"
  shows "{k. of_rule e (look (fst (sy_data y))) k} = named_keys e (all_hosts (de_addrString e) (sy_iter y0))"
proof -
  obtain w cs where d: "sy_data y = (w, cs)" by (rule prod.exhaust)
  note b = dr_begin_start [OF assms(4)]
  have inv: "dr_inv e (target_coll e look (look w0)) (cleaned e look (look w0)) (all_hosts (de_addrString e) (sy_iter y0)) y"
    unfolding assms(6) by (rule target_runs.run_kept [OF assms(5) dr_begin_inv [OF assms(1,4)]])
  then have hosts: "all_hosts (de_addrString e) (sy_iter y0) = map fst (sy_gos y)" and over: "\<forall>g \<in> set (sy_gos y). ended (snd g)"
      and clean: "cleaned e look (look w0) (w, cs)" using assms(7) d by (simp_all add: dr_inv_def)
  have "static_run e look sk y0" using b by (simp add: static_run_def child_keys_def)
  then have run: "static_run e look sk y" unfolding assms(6) using static_run_run [OF assms(1-3,5)] b(4) by blast
  show ?thesis unfolding hosts
  proof (rule antisym)
    have "k \<in> child_keys e cs" if k: "of_rule e (look w) k" for k
    proof (rule ccontr)
      assume n: "k \<notin> child_keys e cs"
      then have "look w k = (if of_rule e (look w0) k then None else look w0 k)"
        using clean healthy_clientD(6) [OF assms(2)] unfolding cleaned_def by simp
      then show False using k unfolding of_rule_def by (auto split: if_splits)
    qed
    then show "{k. of_rule e (look (fst (sy_data y))) k} \<subseteq> named_keys e (map fst (sy_gos y))"
      using run unfolding static_run_def d by auto
    show "named_keys e (map fst (sy_gos y)) \<subseteq> {k. of_rule e (look (fst (sy_data y))) k}"
    proof
      fix k assume "k \<in> named_keys e (map fst (sy_gos y))"
      then obtain h pc where g: "(h, pc) \<in> set (sy_gos y)" "h_hostName h \<noteq> []" "k = host_key e h" by (auto simp: named_keys_def)
      then have "static_at e sk (look w) cs (h, pc)" "ended pc" using run over unfolding static_run_def d by auto
      then show "k \<in> {k. of_rule e (look (fst (sy_data y))) k}" using g(2,3) d by (auto simp: static_at_def ended_iff Let_def)
    qed
  qed
qed

section \<open>A server in memory\<close>

type_synonym dr_mem = "(nsn \<times> target) list \<times> (nsn \<times> deviation) list"

definition keyed_target :: "nsn \<Rightarrow> target \<Rightarrow> target" where
  "keyed_target k t = t\<lparr>t_meta := (t_meta t)\<lparr>m_namespace := fst k, m_name := snd k\<rparr>\<rparr>"

definition applied_target :: "target_apply \<Rightarrow> target" where
  "applied_target a = \<lparr>t_meta = empty_meta\<lparr>m_name := ta_name a, m_namespace := ta_namespace a, m_labels := ta_labels a,
     m_annotations := ta_annotations a, m_ownerReferences := [ta_owner a]\<rparr>, t_spec = ta_spec a, t_conditions = [], t_discoveryInfo = None,
     t_usedReferences = None\<rparr>"

definition not_found :: goerr where
  "not_found = \<lparr>e_msg = ''not found'', e_code = None, e_api = Some ''NotFound'', e_tx = None\<rparr>"

definition mem_client :: "(unit, dr_mem) dr_client" where
  "mem_client = \<lparr>
     dc_ListVendorProfiles = (\<lambda>w. (Inr [], w)), dc_ListServices = (\<lambda>ns s w. (Inr [], w)), dc_ListPods = (\<lambda>ns s w. (Inr [], w)),
     dc_GetTarget = (\<lambda>k w. (case map_of (fst w) k of None \<Rightarrow> Inl not_found | Some t \<Rightarrow> Inr (keyed_target k t), w)),
     dc_ApplyTarget = (\<lambda>a w. (None, (AList.update (ta_namespace a, ta_name a) (applied_target a) (fst w), snd w))),
     dc_ApplyTargetStatus = (\<lambda>k c di w. (None, (AList.map_entry k (\<lambda>t. t\<lparr>t_discoveryInfo := Some di, t_conditions := [c]\<rparr>) (fst w), snd w))),
     dc_ListTargets = (\<lambda>ns rule w. (Inr (map (\<lambda>(k, t). keyed_target k t)
        (filter (\<lambda>(k, t). fst k = ns \<and> map_of (m_labels (t_meta t)) LabelKeyDiscoveryRule = Some rule) (AList.clearjunk (fst w)))), w)),
     dc_DeleteTarget = (\<lambda>t w. (None, (AList.delete (tkey t) (fst w), snd w))),
     dc_GetDeviation = (\<lambda>k w. (case map_of (snd w) k of None \<Rightarrow> Inl not_found | Some d \<Rightarrow> Inr d, w)),
     dc_CreateDeviation = (\<lambda>d w. (None, (fst w, AList.update (m_namespace (d_meta d), m_name (d_meta d)) d (snd w)))),
     dc_ListDeviations = (\<lambda>ns rule w. (Inr (map snd
        (filter (\<lambda>(k, d). fst k = ns \<and> map_of (m_labels (d_meta d)) LabelKeyDiscoveryRule = Some rule) (AList.clearjunk (snd w)))), w)),
     dc_DeleteDeviation = (\<lambda>d w. (None, (fst w, AList.delete (m_namespace (d_meta d), m_name (d_meta d)) (snd w))))\<rparr>"

definition mem_look :: "dr_mem \<Rightarrow> nsn \<rightharpoonup> string gomap" where
  "mem_look w k = map_option (\<lambda>t. m_labels (t_meta t)) (map_of (fst w) k)"

lemma tkey_keyed: "tkey (keyed_target k t) = k"
  by (simp add: tkey_def keyed_target_def)

lemma mem_list_law: "list_law mem_client mem_look"
proof -
  have "tkey ` set (map (\<lambda>(k, t). keyed_target k t)
        (filter (\<lambda>(k, t). fst k = ns \<and> map_of (m_labels (t_meta t)) LabelKeyDiscoveryRule = Some rule) (AList.clearjunk (fst w))))
      = {k. fst k = ns \<and> (\<exists>l. mem_look w k = Some l \<and> map_of l LabelKeyDiscoveryRule = Some rule)}" (is "?l = ?r") for ns rule w
  proof -
    have "k \<in> ?l \<longleftrightarrow> k \<in> ?r" for k
    proof -
      have "k \<in> ?l \<longleftrightarrow> (\<exists>t. (k, t) \<in> set (AList.clearjunk (fst w)) \<and> fst k = ns \<and> map_of (m_labels (t_meta t)) LabelKeyDiscoveryRule = Some rule)"
        by (force simp: tkey_keyed)
      also have "\<dots> \<longleftrightarrow> k \<in> ?r" by (auto simp: mem_look_def map_of_eq_Some_iff [symmetric] distinct_clearjunk map_of_clearjunk)
      finally show ?thesis .
    qed
    then show ?thesis by blast
  qed
  then show ?thesis by (simp add: list_law_def mem_client_def)
qed

definition mem_gnmi :: "(unit, dr_mem) gnmi_services" where
  "mem_gnmi = \<lparr>gs_GetSecret = (\<lambda>ns n w. (Inl not_found, w)), gs_NewTarget = (\<lambda>x. Inr ()), gs_CreateGNMIClient = (\<lambda>t w. (None, w)),
     gs_Capabilities = (\<lambda>t w. (Inr \<lparr>gc_Models = [], gc_Encodings = []\<rparr>, w)), gs_Get = (\<lambda>t enc ps w. (Inr [], w)),
     gs_ParsePath = (\<lambda>s. Inl not_found), gs_transformers = sample_transformers\<rparr>"

definition mem_env :: "unit dr_config \<Rightarrow> (unit, unit, unit, dr_mem) dr_env" where
  "mem_env cfg = \<lparr>de_cfg = cfg, de_client = (\<lambda>x. mem_client), de_gnmi = mem_gnmi, de_selector = (\<lambda>q. Inr ()), de_newPrefix = sample_new,
     de_addrString = (\<lambda>a. ''addr''), de_template = (\<lambda>k v. Inr v), de_targetType = (''config.sdcio.dev/v1alpha1'', ''Target''), de_now = 0\<rparr>"

lemma mem_env_sel [simp]: "de_cfg (mem_env cfg) = cfg" "de_client (mem_env cfg) x = mem_client" "de_gnmi (mem_env cfg) = mem_gnmi"
  "de_template (mem_env cfg) k v = Inr v" "de_addrString (mem_env cfg) a = ''addr''"
  by (simp_all add: mem_env_def)

lemma mem_delete_apply: "delete_law mem_client mem_look" "apply_law mem_client mem_look"
  by (auto simp: delete_law_def apply_law_def mem_client_def mem_look_def fun_eq_iff AList.update_conv' AList.delete_conv' applied_target_def)

lemma mem_target_laws: "target_laws (mem_env cfg) mem_look"
  unfolding target_laws_def frame_laws_def Let_def mem_env_sel
  by (intro conjI allI mem_list_law mem_delete_apply)
    (auto simp: keeps_def mem_client_def mem_gnmi_def mem_look_def fun_eq_iff AList.map_of_map_entry split: option.split)

lemma mem_healthy: "healthy_client (mem_env cfg) mem_look"
  by (auto simp: healthy_client_def healthy_cleanup_def mem_client_def mem_look_def IgnoreNotFound_def Ignore_def IsNotFound_def not_found_def
      split: option.splits)

definition static_params :: disc_params where
  "static_params = \<lparr>pm_DefaultSchema = Some \<lparr>kp_Provider = ''nokia'', kp_Version = ''1''\<rparr>, pm_DiscoveryProfile = None,
     pm_TargetConnectionProfiles = [\<lparr>tp_Credentials = ''c'', tp_ConnectionProfile = ''p'', tp_SyncProfile = None\<rparr>],
     pm_TargetTemplate = None, pm_Period = 0, pm_ConcurrentScans = 1\<rparr>"

definition static_cr :: "unit drule" where
  "static_cr = \<lparr>dl_apiVersion = ''inv.sdcio.dev/v1alpha1'', dl_kind = ''DiscoveryRule'', dl_meta = empty_meta\<lparr>m_name := ''r'', m_namespace := ''ns''\<rparr>,
     dl_Prefixes = [], dl_Addresses = [\<lparr>ad_Address = ''10.0.0.1'', ad_HostName = ''Leaf1''\<rparr>], dl_PodSelector = None, dl_SvcSelector = None,
     dl_ServiceDomain = [], dl_params = static_params, dl_conditions = []\<rparr>"

definition static_cfg :: "unit dr_config" where
  "static_cfg = \<lparr>dg_Discovery = False, dg_DefaultSchema = pm_DefaultSchema static_params, dg_CR = static_cr, dg_DiscoveryProfile = None,
     dg_TargetConnectionProfiles = [\<lparr>cf_Secret = ''c'', cf_SecretResourceVersion = ''1'', cf_Connectionprofile = None, cf_Syncprofile = None\<rparr>]\<rparr>"

definition sample_ops :: "dr_op list" where
  "sample_ops = [DrMain False, DrMain False, DrGo 0, DrGo 0, DrGo 0, DrGo 0, DrGo 0, DrMain False, DrMain False, DrMain False, DrMain False]"

definition stale_target :: "nsn \<times> target" where
  "stale_target = ((''ns'', ''gone''), applied_target \<lparr>ta_name = ''gone'', ta_namespace = ''ns'', ta_labels = [(LabelKeyDiscoveryRule, ''r'')],
     ta_annotations = [], ta_owner = rule_owner static_cr, ta_spec = \<lparr>ts_provider = [], ts_address = [], ts_credentials = [],
       ts_connectionProfile = [], ts_syncProfile = None, ts_tlsSecret = None\<rparr>\<rparr>)"

definition sample_begin :: "dr_mem dr_sys" where
  "sample_begin = \<lparr>sy_main = MAcquire, sy_iter = newIterator (dl_Addresses static_cr) (pm_DefaultSchema static_params), sy_free = 1, sy_gos = [],
     sy_data = (([stale_target], []), []), sy_profiles = [], sy_cancelled = False\<rparr>"

definition sample_end :: "dr_mem dr_sys" where
  "sample_end = run_ops (dr_step (mem_env static_cfg)) sample_ops sample_begin"

lemma sample_begin: "dr_begin (mem_env static_cfg) False ([stale_target], []) = Inr sample_begin"
  by (simp add: dr_begin_def getVendorDiscoveryProfiles_def mem_client_def dr_getHosts_def GetDiscoveryKind_def discovery_kinds_def
      static_cfg_def static_cr_def sample_begin_def static_params_def GetConcurrentScans_def)

lemma sample_end_done: "sy_main sample_end = MDone None"
  by code_simp

lemma static_rule_exact_witness:
  "{k. of_rule (mem_env static_cfg) (mem_look (fst (sy_data sample_end))) k}
    = named_keys (mem_env static_cfg) (all_hosts (de_addrString (mem_env static_cfg)) (sy_iter sample_begin))"
proof (rule static_rule_exact [OF mem_target_laws mem_healthy _ sample_begin _ sample_end_def sample_end_done])
  show "static_rule (mem_env static_cfg) \<lparr>kp_Provider = ''nokia'', kp_Version = ''1''\<rparr> [(LabelKeyDiscoveryRule, ''r'')]"
    by (simp add: static_rule_def static_cfg_def static_params_def static_cr_def GetTargetLabels_def GetTargetAnnotations_def empty_meta_def)
  show "DrCancel \<notin> set sample_ops" by (simp add: sample_ops_def)
qed

lemma targets_after_run_witness:
  "(None :: goerr option) = None \<and> map fst (sy_gos sample_end) = all_hosts (de_addrString (mem_env static_cfg)) (sy_iter sample_begin)
    \<and> {k. k \<notin> child_keys (mem_env static_cfg) (snd (sy_data sample_end))
        \<and> mem_look (fst (sy_data sample_end)) k \<noteq> (if of_rule (mem_env static_cfg) (mem_look ([stale_target], [])) k then None else mem_look ([stale_target], []) k)} = {}
    \<and> {k. k \<in> child_keys (mem_env static_cfg) (snd (sy_data sample_end)) \<and> mem_look ([stale_target], []) k \<noteq> None
        \<and> mem_look (fst (sy_data sample_end)) k = None} = {}"
proof -
  have "DrCancel \<notin> set sample_ops" by (simp add: sample_ops_def)
  from targets_after_run [OF mem_target_laws sample_begin this sample_end_def sample_end_done prod.collapse [symmetric]]
    healthy_clientD(6) [OF mem_healthy]
  show ?thesis by blast
qed

section \<open>The calls of a run\<close>

datatype target_call = TApply target_apply | TList string string "goerr + target list" | TDelete target

definition dcall :: "('r \<Rightarrow> target_call) \<Rightarrow> ('w \<Rightarrow> 'r \<times> 'w) \<Rightarrow> 'w \<times> target_call list \<Rightarrow> 'r \<times> 'w \<times> target_call list" where
  "dcall c f wl = (let (r, w') = f (fst wl) in (r, (w', snd wl @ [c r])))"

definition dquiet :: "('w \<Rightarrow> 'r \<times> 'w) \<Rightarrow> 'w \<times> target_call list \<Rightarrow> 'r \<times> 'w \<times> target_call list" where
  "dquiet f wl = (let (r, w') = f (fst wl) in (r, (w', snd wl)))"

definition trace_client :: "('sel, 'w) dr_client \<Rightarrow> ('sel, 'w \<times> target_call list) dr_client" where
  "trace_client c = \<lparr>
     dc_ListVendorProfiles = dquiet (dc_ListVendorProfiles c), dc_ListServices = (\<lambda>ns s. dquiet (dc_ListServices c ns s)),
     dc_ListPods = (\<lambda>ns s. dquiet (dc_ListPods c ns s)), dc_GetTarget = (\<lambda>k. dquiet (dc_GetTarget c k)),
     dc_ApplyTarget = (\<lambda>a. dcall (\<lambda>_. TApply a) (dc_ApplyTarget c a)),
     dc_ApplyTargetStatus = (\<lambda>k cnd di. dquiet (dc_ApplyTargetStatus c k cnd di)),
     dc_ListTargets = (\<lambda>ns rule. dcall (TList ns rule) (dc_ListTargets c ns rule)),
     dc_DeleteTarget = (\<lambda>t. dcall (\<lambda>_. TDelete t) (dc_DeleteTarget c t)),
     dc_GetDeviation = (\<lambda>k. dquiet (dc_GetDeviation c k)), dc_CreateDeviation = (\<lambda>d. dquiet (dc_CreateDeviation c d)),
     dc_ListDeviations = (\<lambda>ns rule. dquiet (dc_ListDeviations c ns rule)), dc_DeleteDeviation = (\<lambda>d. dquiet (dc_DeleteDeviation c d))\<rparr>"

definition trace_gnmi :: "('c, 'w) gnmi_services \<Rightarrow> ('c, 'w \<times> target_call list) gnmi_services" where
  "trace_gnmi g = \<lparr>gs_GetSecret = (\<lambda>ns n. dquiet (gs_GetSecret g ns n)), gs_NewTarget = gs_NewTarget g,
     gs_CreateGNMIClient = (\<lambda>t. dquiet (gs_CreateGNMIClient g t)), gs_Capabilities = (\<lambda>t. dquiet (gs_Capabilities g t)),
     gs_Get = (\<lambda>t enc ps. dquiet (gs_Get g t enc ps)), gs_ParsePath = gs_ParsePath g, gs_transformers = gs_transformers g\<rparr>"

definition trace_dr :: "('q, 'sel, 'c, 'w) dr_env \<Rightarrow> ('q, 'sel, 'c, 'w \<times> target_call list) dr_env" where
  \<comment> \<open>the same services, which also note the calls that list, apply and delete Targets\<close>
  "trace_dr e = \<lparr>de_cfg = de_cfg e, de_client = (\<lambda>x. trace_client (de_client e x)), de_gnmi = trace_gnmi (de_gnmi e),
     de_selector = de_selector e, de_newPrefix = de_newPrefix e, de_addrString = de_addrString e, de_template = de_template e,
     de_targetType = de_targetType e, de_now = de_now e\<rparr>"

lemma trace_dr_sel [simp]: "de_cfg (trace_dr e) = de_cfg e" "de_client (trace_dr e) x = trace_client (de_client e x)"
  "de_gnmi (trace_dr e) = trace_gnmi (de_gnmi e)" "de_addrString (trace_dr e) = de_addrString e" "de_template (trace_dr e) = de_template e"
  by (simp_all add: trace_dr_def)

lemma dquiet_snd: "keeps snd (dquiet f)"
  by (auto simp: keeps_def dquiet_def split: prod.split)

lemma trace_frame: "frame_laws (trace_dr e) snd"
  unfolding frame_laws_def Let_def trace_dr_sel trace_client_def trace_gnmi_def
  by (simp add: dquiet_snd)

definition applies :: "('q, 'sel, 'c, 'w) dr_env \<Rightarrow> string list \<Rightarrow> target_apply list \<Rightarrow> bool" where
  \<comment> \<open>every Target applied is in the rule's namespace and registered as a child\<close>
  "applies e cs xs \<longleftrightarrow> (\<forall>a \<in> set xs. ta_namespace a = de_ns e \<and> ta_name a \<in> set cs)"

definition call_coll :: "('q, 'sel, 'c, 'w) dr_env \<Rightarrow> ('w \<times> target_call list) dr_sys \<Rightarrow> bool" where
  "call_coll e y \<longleftrightarrow> \<not> sy_cancelled y
     \<and> (\<forall>g \<in> set (sy_gos y). \<forall>n. go_child (snd g) = Some n \<longrightarrow> n \<in> set (snd (sy_data y)))
     \<and> (\<exists>xs. snd (fst (sy_data y)) = map TApply xs \<and> applies e (snd (sy_data y)) xs)"

definition call_clean :: "('q, 'sel, 'c, 'w) dr_env \<Rightarrow> ('w \<times> target_call list) dr_data \<Rightarrow> bool" where
  "call_clean e s \<longleftrightarrow> (\<exists>xs answer. snd (fst s) = map TApply xs @ TList (de_ns e) (de_rule e) answer
       # (case answer of Inl _ \<Rightarrow> [] | Inr ts \<Rightarrow> map TDelete (filter (\<lambda>t. m_name (t_meta t) \<notin> set (snd s)) ts))
     \<and> applies e (snd s) xs)"

lemma go_registers:
  assumes "dr_go e profiles x h pc s = (pc', s')"
  shows "set (snd s) \<subseteq> set (snd s')"
  using assms by (cases pc) (auto simp: dr_go_def split: prod.splits option.splits sum.splits)

lemma go_calls:
  assumes "dr_go (trace_dr e) profiles False h pc (w, cs) = (pc', (w', cs'))"
  shows "\<exists>xs. snd w' = snd w @ map TApply xs
    \<and> (\<forall>a \<in> set xs. ta_namespace a = de_ns e \<and> go_child pc = Some (ta_name a))"
proof (cases pc)
  case (GScan ps err)
  obtain r w1 where r: "go_scan (trace_dr e) profiles h ps err w = (r, w1)" by (rule prod.exhaust)
  then have "w' = w1" using assms GScan by (simp add: dr_go_def)
  then show ?thesis using go_scan_keeps [OF trace_frame r] by (intro exI [of _ "[]"]) simp
next
  case (GSpec rest p di)
  obtain r w1 where r: "applyTargetSpec (trace_dr e) False (de_ns e, getTargetName (di_hostname di)) p (h_Address h) w = (r, w1)"
    by (rule prod.exhaust)
  then have w1: "w' = w1" using assms GSpec by (auto simp: dr_go_def split: option.splits)
  have "snd w1 = snd w \<or> (\<exists>a. snd w1 = snd w @ [TApply a] \<and> ta_namespace a = de_ns e \<and> ta_name a = getTargetName (di_hostname di))"
    using r by (auto simp: applyTargetSpec_def Let_def trace_client_def dcall_def split: sum.splits list.splits prod.splits)
  then show ?thesis
  proof (elim disjE exE conjE)
    assume "snd w1 = snd w"
    then show ?thesis using w1 by (intro exI [of _ "[]"]) simp
  next
    fix a assume "snd w1 = snd w @ [TApply a]" "ta_namespace a = de_ns e" "ta_name a = getTargetName (di_hostname di)"
    then show ?thesis using w1 GSpec by (intro exI [of _ "[a]"]) simp
  qed
next
  case (GStatus rest di)
  obtain r w1 where r: "applyTargetStatus (trace_dr e) False (de_ns e, getTargetName (di_hostname di)) di w = (r, w1)" by (rule prod.exhaust)
  then have "w' = w1" using assms GStatus by (auto simp: dr_go_def split: sum.splits)
  then show ?thesis using applyTargetStatus_keeps [OF trace_frame r] by (intro exI [of _ "[]"]) simp
next
  case (GDeviation rest t)
  obtain r w1 where r: "applyTargetDeviationCR (trace_dr e) False t w = (r, w1)" by (rule prod.exhaust)
  then have "w' = w1" using assms GDeviation by (auto simp: dr_go_def split: option.splits)
  then show ?thesis using applyTargetDeviationCR_keeps [OF trace_frame r] by (intro exI [of _ "[]"]) simp
qed (use assms in \<open>auto simp: dr_go_def intro!: exI [of _ "[]"]\<close>)

lemma call_coll_goroutine:
  assumes "call_coll e y"
  shows "call_coll e (dr_goroutine (trace_dr e) i y)"
proof (cases "i < length (sy_gos y)")
  case True
  obtain h pc where g: "sy_gos y ! i = (h, pc)" by (rule prod.exhaust)
  obtain w cs where d: "sy_data y = (w, cs)" by (rule prod.exhaust)
  note inv = assms [unfolded call_coll_def d fst_conv snd_conv]
  obtain pc' w' cs' where s: "dr_go (trace_dr e) (sy_profiles y) False h pc (w, cs) = (pc', (w', cs'))" by (rule prod_cases3)
  have y: "sy_gos (dr_goroutine (trace_dr e) i y) = (sy_gos y)[i := (h, pc')]" "sy_data (dr_goroutine (trace_dr e) i y) = (w', cs')"
      "sy_cancelled (dr_goroutine (trace_dr e) i y) = False"
    using True g d s inv by (simp_all add: dr_goroutine_def Let_def)
  have sub: "set cs \<subseteq> set cs'" using go_registers [OF s] by simp
  have mem: "(h, pc) \<in> set (sy_gos y)" using True g by (metis nth_mem)
  have kid: "go_child pc = Some n \<Longrightarrow> n \<in> set cs" for n using bspec [OF conjunct1 [OF conjunct2 [OF inv]] mem] by simp
  have kids: "\<forall>g \<in> set ((sy_gos y)[i := (h, pc')]). \<forall>n. go_child (snd g) = Some n \<longrightarrow> n \<in> set cs'"
  proof (intro ballI allI impI)
    fix g n assume "g \<in> set ((sy_gos y)[i := (h, pc')])" and n: "go_child (snd g) = Some n"
    then consider "g = (h, pc')" | "g \<in> set (sy_gos y)" using set_update_subset_insert [of "sy_gos y" i "(h, pc')"] by blast
    then show "n \<in> set cs'"
    proof cases
      case 1
      then show ?thesis using go_child_new [OF s, of n] n kid [of n] sub by auto
    next
      case 2
      then show ?thesis using bspec [OF conjunct1 [OF conjunct2 [OF inv]], of g] n sub by blast
    qed
  qed
  obtain xs where xs: "snd w' = snd w @ map TApply xs" "\<forall>a \<in> set xs. ta_namespace a = de_ns e \<and> go_child pc = Some (ta_name a)"
    using go_calls [OF s] by blast
  obtain as where as: "snd w = map TApply as" "applies e cs as" using inv by blast
  have "applies e cs' (as @ xs)" using as(2) xs(2) kid sub by (auto simp: applies_def)
  then have "\<exists>xs. snd w' = map TApply xs \<and> applies e cs' xs" using xs(1) as(1) by (intro exI [of _ "as @ xs"]) simp
  then show ?thesis unfolding call_coll_def y fst_conv snd_conv using kids by blast
qed (use assms in \<open>simp add: dr_goroutine_def\<close>)

lemma delete_targets_calls:
  "snd (delete_targets (trace_client c) cs ts w) = snd w @ map TDelete (filter (\<lambda>t. m_name (t_meta t) \<notin> set cs) ts)"
proof (induction ts arbitrary: w)
  case (Cons t ts)
  have "snd (snd (dc_DeleteTarget (trace_client c) t w)) = snd w @ [TDelete t]"
    by (simp add: trace_client_def dcall_def split: prod.split)
  then show ?case by (simp add: Cons.IH)
qed simp

lemma call_clean_up:
  assumes "call_coll e y"
  shows "call_clean e (deleteUnWantedChildren (trace_dr e) False (sy_data y))"
proof -
  obtain w cs where d: "sy_data y = (w, cs)" by (rule prod.exhaust)
  obtain xs where xs: "snd w = map TApply xs" "applies e cs xs" using assms by (auto simp: call_coll_def d)
  obtain r w1 where l: "dc_ListTargets (trace_client (de_client e False)) (de_ns e) (de_rule e) w = (r, w1)" by (rule prod.exhaust)
  then have w1: "snd w1 = snd w @ [TList (de_ns e) (de_rule e) r]"
    by (auto simp: trace_client_def dcall_def split: prod.splits)
  define w2 where "w2 = (case r of Inl err \<Rightarrow> w1 | Inr ts \<Rightarrow> delete_targets (trace_client (de_client e False)) cs ts w1)"
  have w2: "snd w2 = snd w @ TList (de_ns e) (de_rule e) r
      # (case r of Inl _ \<Rightarrow> [] | Inr ts \<Rightarrow> map TDelete (filter (\<lambda>t. m_name (t_meta t) \<notin> set cs) ts))"
    using w1 by (simp add: w2_def delete_targets_calls split: sum.split)
  have d1: "snd (deleteUnWantedTargets (trace_dr e) False (w, cs)) = (w2, cs)"
    using l by (simp add: deleteUnWantedTargets_def w2_def split: sum.split)
  obtain rd wd where ld: "dc_ListDeviations (de_client (trace_dr e) False) (de_ns e) (de_rule e) w2 = (rd, wd)" by (rule prod.exhaust)
  have "snd wd = snd w2" by (rule frame_laws_keeps(5) [OF trace_frame, THEN keepsD, OF ld])
  then obtain w3 where w3: "deleteUnWantedChildren (trace_dr e) False (w, cs) = (w3, cs)" "snd w3 = snd w2"
    using ld delete_deviations_keeps [OF trace_frame, of e cs]
    by (cases rd) (simp_all add: deleteUnWantedChildren_def d1 deleteUnwantedDeviations_def)
  show ?thesis unfolding call_clean_def d w3(1) fst_conv snd_conv w3(2) w2 xs(1) using xs(2) by blast
qed

interpretation call_runs: clean_run "trace_dr e" "call_coll e" "call_clean e"
  for e :: "('q, 'sel, 'c, 'w) dr_env"
  by unfold_locales (auto simp: call_coll_goroutine call_clean_up, auto simp: call_coll_def)

lemma call_begin:
  assumes "dr_begin (trace_dr e) False (w0, []) = Inr y"
  shows "dr_inv (trace_dr e) (call_coll e) (call_clean e) (all_hosts (de_addrString e) (sy_iter y)) y"
proof -
  obtain r w1 where v: "getVendorDiscoveryProfiles (trace_dr e) False (w0, []) = (r, w1)" by (rule prod.exhaust)
  obtain rp wp where p: "dc_ListVendorProfiles (de_client (trace_dr e) False) (w0, []) = (rp, wp)" by (rule prod.exhaust)
  then have l1: "snd w1 = []"
    using v frame_laws_keeps(7) [OF trace_frame, THEN keepsD, OF p] by (auto simp: getVendorDiscoveryProfiles_def split: sum.splits)
  obtain h w2 where g: "dr_getHosts (trace_dr e) False w1 = (h, w2)" by (rule prod.exhaust)
  show ?thesis using assms v g l1 dr_getHosts_keeps [OF trace_frame g]
    by (auto simp: dr_begin_def dr_inv_def call_coll_def applies_def split: sum.splits)
qed

text \<open>
  C36: What a run asks of the API server. Whatever the order in which its goroutines work, whichever calls fail and
  whatever the server answers: when a run that is not cancelled ends, every host of the rule was scanned to its end;
  the run has first applied Targets, all in the rule's namespace and registered as its children, then
  has listed the Targets of the rule once, and then has asked to delete exactly those listed Targets that
  are no children, each once and in the order of the listing. When the listing fails it deletes nothing.
\<close>
theorem discovery_run_outcome:
  assumes "dr_begin (trace_dr e) False (w0, []) = Inr y0" "DrCancel \<notin> set ops"
    "y = run_ops (dr_step (trace_dr e)) ops y0" "sy_main y = MDone r" "sy_data y = ((w, calls), cs)"
  shows "r = None \<and> map fst (sy_gos y) = all_hosts (de_addrString e) (sy_iter y0) \<and> (\<forall>g \<in> set (sy_gos y). ended (snd g))
    \<and> (\<exists>applied answer. calls = map TApply applied @ TList (de_ns e) (de_rule e) answer
         # (case answer of Inl _ \<Rightarrow> [] | Inr ts \<Rightarrow> map TDelete (filter (\<lambda>t. m_name (t_meta t) \<notin> set cs) ts))
       \<and> (\<forall>a \<in> set applied. ta_namespace a = de_ns e \<and> ta_name a \<in> set cs))"
proof -
  have "dr_inv (trace_dr e) (call_coll e) (call_clean e) (all_hosts (de_addrString e) (sy_iter y0)) y"
    unfolding assms(3) by (rule call_runs.run_kept [OF assms(2) call_begin [OF assms(1)]])
  then show ?thesis unfolding dr_inv_def assms(4) dr_pc.case assms(5) call_clean_def fst_conv snd_conv applies_def by metis
qed

definition sample_calls_begin :: "(dr_mem \<times> target_call list) dr_sys" where
  "sample_calls_begin = \<lparr>sy_main = MAcquire, sy_iter = newIterator (dl_Addresses static_cr) (pm_DefaultSchema static_params), sy_free = 1,
     sy_gos = [], sy_data = ((([stale_target], []), []), []), sy_profiles = [], sy_cancelled = False\<rparr>"

definition sample_calls_end :: "(dr_mem \<times> target_call list) dr_sys" where
  "sample_calls_end = run_ops (dr_step (trace_dr (mem_env static_cfg))) sample_ops sample_calls_begin"

lemma sample_calls_begin: "dr_begin (trace_dr (mem_env static_cfg)) False (([stale_target], []), []) = Inr sample_calls_begin"
  by (simp add: dr_begin_def getVendorDiscoveryProfiles_def mem_client_def trace_client_def dquiet_def dr_getHosts_def GetDiscoveryKind_def
      discovery_kinds_def static_cfg_def static_cr_def sample_calls_begin_def static_params_def GetConcurrentScans_def)

lemma sample_calls_end_done: "sy_main sample_calls_end = MDone None"
  by code_simp

lemma discovery_run_outcome_witness:
  "map fst (sy_gos sample_calls_end) = all_hosts (de_addrString (mem_env static_cfg)) (sy_iter sample_calls_begin)
    \<and> (\<exists>applied answer. snd (fst (sy_data sample_calls_end)) = map TApply applied @ TList ''ns'' ''r'' answer
         # (case answer of Inl _ \<Rightarrow> [] | Inr ts \<Rightarrow> map TDelete (filter (\<lambda>t. m_name (t_meta t) \<notin> set (snd (sy_data sample_calls_end))) ts)))
    \<and> map (\<lambda>c. case c of TApply a \<Rightarrow> ta_name a | TDelete t \<Rightarrow> m_name (t_meta t) | TList ns rule x \<Rightarrow> rule) (snd (fst (sy_data sample_calls_end)))
      = [''leaf1'', ''r'', ''gone'']"
proof -
  have c: "DrCancel \<notin> set sample_ops" by (simp add: sample_ops_def)
  obtain w calls cs where d: "sy_data sample_calls_end = ((w, calls), cs)" by (metis prod.exhaust)
  have n: "de_ns (mem_env static_cfg) = ''ns''" "de_rule (mem_env static_cfg) = ''r''"
    by (simp_all add: static_cfg_def static_cr_def empty_meta_def)
  have "map (\<lambda>c. case c of TApply a \<Rightarrow> ta_name a | TDelete t \<Rightarrow> m_name (t_meta t) | TList ns rule x \<Rightarrow> rule) (snd (fst (sy_data sample_calls_end)))
      = [''leaf1'', ''r'', ''gone'']" by code_simp
  moreover note out = discovery_run_outcome [OF sample_calls_begin c sample_calls_end_def sample_calls_end_done d, unfolded n]
  from out have "map fst (sy_gos sample_calls_end) = all_hosts (de_addrString (mem_env static_cfg)) (sy_iter sample_calls_begin)" by blast
  moreover from out have "\<exists>applied answer. calls = map TApply applied @ TList ''ns'' ''r'' answer
         # (case answer of Inl _ \<Rightarrow> [] | Inr ts \<Rightarrow> map TDelete (filter (\<lambda>t. m_name (t_meta t) \<notin> set cs) ts))" by blast
  ultimately show ?thesis unfolding d fst_conv snd_conv by blast
qed

section \<open>Permits\<close>

definition running :: "'w dr_sys \<Rightarrow> nat" where
  \<comment> \<open>goroutines that have not ended\<close>
  "running y = length (filter (\<lambda>g. \<not> ended (snd g)) (sy_gos y))"

definition permits_inv :: "int \<Rightarrow> 'w dr_sys \<Rightarrow> bool" where
  "permits_inv n y \<longleftrightarrow> 0 \<le> sy_free y \<and>
     (\<exists>c \<in> {0, 1}. sy_free y + int (running y) + c = n \<and> (sy_main y = MAcquire \<longrightarrow> c = 0) \<and> (sy_main y \<in> {MNext, MWait} \<longrightarrow> c = 1))"

lemma filter_update_length:
  assumes "i < length xs"
  shows "length (filter P (xs[i := x])) + (if P (xs ! i) then 1 else 0) = length (filter P xs) + (if P x then 1 else 0)"
  using assms
proof (induction xs arbitrary: i)
  case (Cons a xs)
  then show ?case by (cases i) auto
qed simp

lemma permits_goroutine: "permits_inv n y \<Longrightarrow> permits_inv n (dr_goroutine e i y)"
proof (cases "i < length (sy_gos y)")
  case True
  assume p: "permits_inv n y"
  obtain h pc where g: "sy_gos y ! i = (h, pc)" by (rule prod.exhaust)
  obtain pc' s where s: "dr_go e (sy_profiles y) (sy_cancelled y) h pc (sy_data y) = (pc', s)" by (rule prod.exhaust)
  have keep: "ended pc \<Longrightarrow> ended pc'" using go_ended s by (metis fst_conv)
  have y: "sy_gos (dr_goroutine e i y) = (sy_gos y)[i := (h, pc')]"
      "sy_free (dr_goroutine e i y) = sy_free y + (if ended pc' \<and> \<not> ended pc then 1 else 0)"
    using True g s by (simp_all add: dr_goroutine_def Let_def)
  have "sy_free (dr_goroutine e i y) + int (running (dr_goroutine e i y)) = sy_free y + int (running y)"
    using filter_update_length [OF True, of "\<lambda>g. \<not> ended (snd g)" "(h, pc')"] keep unfolding running_def y g by (auto split: if_splits)
  moreover have "sy_free y \<le> sy_free (dr_goroutine e i y)" unfolding y by simp
  ultimately show ?thesis using p unfolding permits_inv_def goroutine_sel by force
qed (simp add: dr_goroutine_def)

lemma permits_main: "permits_inv n y \<Longrightarrow> permits_inv n (dr_main e g y)"
  by (cases "sy_main y") (auto simp: permits_inv_def dr_main_def running_def ended_def split: prod.splits option.splits if_splits)

lemma permits_run: "permits_inv n y \<Longrightarrow> permits_inv n (run_ops (dr_step e) ops y)"
proof (induction ops arbitrary: y)
  case (Cons oper ops)
  have "permits_inv n (y\<lparr>sy_cancelled := True\<rparr>)" using Cons.prems by (simp add: permits_inv_def running_def)
  then have "permits_inv n (dr_step e oper y)"
    using Cons.prems by (cases oper) (simp_all add: dr_step_def permits_goroutine permits_main)
  then show ?case using Cons by (simp add: run_ops_def)
qed (simp add: run_ops_def)

lemma permits_begin: "dr_begin e x w0 = Inr y \<Longrightarrow> 0 \<le> GetConcurrentScans (dl_params (de_CR e))
    \<Longrightarrow> permits_inv (GetConcurrentScans (dl_params (de_CR e))) y"
  by (simp add: permits_inv_def running_def dr_begin_start)

text \<open>
  C38: Never more than \<open>ConcurrentScans\<close> hosts are being scanned, cancelled or not, and no permit is lost: those
  given out are held by running goroutines, but for at most one the main loop holds.
\<close>
theorem scans_bounded:
  assumes "dr_begin e x w0 = Inr y0" "0 \<le> GetConcurrentScans (dl_params (de_CR e))" "y = run_ops (dr_step e) ops y0"
  shows "int (running y) \<le> GetConcurrentScans (dl_params (de_CR e))
    \<and> GetConcurrentScans (dl_params (de_CR e)) - 1 \<le> sy_free y + int (running y)"
  using permits_run [OF permits_begin [OF assms(1,2)], of e ops] by (auto simp: assms(3) permits_inv_def)

section \<open>A run ends\<close>

definition go_fuel :: "('q, 'sel, 'c, 'w) dr_env \<Rightarrow> nat" where
  "go_fuel e = 6 + 5 * (case getDiscoveryProfiles e of None \<Rightarrow> 0 | Some ps \<Rightarrow> length ps)"

definition rest_left :: "go_rest \<Rightarrow> nat" where
  "rest_left rest = (case rest of None \<Rightarrow> 0 | Some (ps, err) \<Rightarrow> 1 + 5 * length ps)"

fun pc_left :: "nat \<Rightarrow> go_pc \<Rightarrow> nat" where
  "pc_left n GStart = n"
| "pc_left n (GScan ps err) = 1 + 5 * length ps"
| "pc_left n (GChild rest p di) = 4 + rest_left rest"
| "pc_left n (GSpec rest p di) = 3 + rest_left rest"
| "pc_left n (GStatus rest di) = 2 + rest_left rest"
| "pc_left n (GDeviation rest t) = 1 + rest_left rest"
| "pc_left n (GEnded r) = 0"
| "pc_left n GPanicked = 0"

fun main_rank :: "dr_pc \<Rightarrow> nat" where
  "main_rank MAcquire = 4" | "main_rank MNext = 3" | "main_rank MWait = 2" | "main_rank (MClean r) = 1" | "main_rank (MDone r) = 0"

definition dr_left :: "('q, 'sel, 'c, 'w) dr_env \<Rightarrow> 'w dr_sys \<Rightarrow> nat" where
  "dr_left e y = iter_left (sy_iter y) * (go_fuel e + 2) + main_rank (sy_main y) + sum_list (map (\<lambda>g. pc_left (go_fuel e) (snd g)) (sy_gos y))"

lemma go_failed_left: "pc_left n (go_failed rest err) \<le> rest_left rest"
  by (auto simp: go_failed_def rest_left_def split: option.split prod.split)

lemma dr_go_left:
  assumes "dr_go e profiles x h pc s = (pc', s')" "\<not> ended pc" "pc \<noteq> GPanicked"
  shows "pc_left (go_fuel e) pc' < pc_left (go_fuel e) pc"
proof (cases pc)
  case GStart
  then show ?thesis using assms(1)
    by (auto simp: dr_go_def go_start_def discoverWithNone_def go_fuel_def rest_left_def split: option.splits)
next
  case (GScan ps err)
  then show ?thesis using assms(1)
    by (auto simp: dr_go_def go_scan_def discoverWithNone_def rest_left_def
        split: list.splits prod.splits panics.splits sum.splits if_splits option.splits)
next
  case (GSpec rest p di)
  then show ?thesis using assms(1) by (auto simp: dr_go_def split: prod.splits option.splits intro: le_less_trans [OF go_failed_left])
next
  case (GStatus rest di)
  then show ?thesis using assms(1) by (auto simp: dr_go_def split: prod.splits sum.splits intro: le_less_trans [OF go_failed_left])
next
  case (GDeviation rest t)
  then show ?thesis using assms(1) by (auto simp: dr_go_def split: prod.splits option.splits intro: le_less_trans [OF go_failed_left])
qed (use assms in \<open>auto simp: dr_go_def ended_def\<close>)

lemma sum_list_update_less:
  "i < length xs \<Longrightarrow> f x < f (xs ! i) \<Longrightarrow> sum_list (map f (xs[i := x])) < (sum_list (map f xs) :: nat)"
proof (induction xs arbitrary: i)
  case (Cons a xs)
  then show ?case by (cases i) auto
qed simp

lemma goroutine_left:
  assumes "i < length (sy_gos y)" "\<not> ended (snd (sy_gos y ! i))" "snd (sy_gos y ! i) \<noteq> GPanicked"
  shows "dr_left e (dr_goroutine e i y) < dr_left e y"
proof -
  obtain h pc where g: "sy_gos y ! i = (h, pc)" by (rule prod.exhaust)
  obtain pc' s where s: "dr_go e (sy_profiles y) (sy_cancelled y) h pc (sy_data y) = (pc', s)" by (rule prod.exhaust)
  have y: "sy_gos (dr_goroutine e i y) = (sy_gos y)[i := (h, pc')]" using assms(1) g s by (simp add: dr_goroutine_def Let_def)
  have "pc_left (go_fuel e) pc' < pc_left (go_fuel e) pc" using dr_go_left [OF s] assms(2,3) g by simp
  then show ?thesis using sum_list_update_less [OF assms(1), of "\<lambda>g. pc_left (go_fuel e) (snd g)" "(h, pc')"]
    unfolding dr_left_def goroutine_sel y by (simp add: g)
qed

lemma host_Next_None: "host_Next str s = (None, s') \<Longrightarrow> hosts_left s' = 0"
proof (induction str s rule: host_Next.induct)
  case (1 str its idx)
  show ?case
  proof (cases "idx < length its")
    case i: True
    obtain h' r where p: "prefix_Next str (its ! idx) = (h', r)" by (rule prod.exhaust)
    show ?thesis
    proof (cases h')
      case None
      then have "host_Next str (its[idx := r], Suc idx) = (None, s')" using 1(2) i p by (subst (asm) host_Next.simps) simp
      from 1(1) [OF i p [symmetric, unfolded None] refl this] show ?thesis .
    next
      case (Some h1)
      then show ?thesis using 1(2) i p by (subst (asm) host_Next.simps) simp
    qed
  next
    case False
    then have "s' = (its, idx)" using 1(2) by (subst (asm) host_Next.simps) simp
    with False show ?thesis by (simp add: hosts_left_def)
  qed
qed

lemma iter_Next_None: "iter_Next str it = (None, it') \<Longrightarrow> iter_left it' \<le> iter_left it"
  by (cases it) (auto simp: Let_def host_Next_None split: prod.splits if_splits)

lemma main_left:
  "dr_left e (dr_main e g y) < dr_left e y \<or> dr_main e g y = y"
proof (cases "sy_main y")
  case MNext
  obtain h it where n: "iter_Next (de_addrString e) (sy_iter y) = (h, it)" by (rule prod.exhaust)
  show ?thesis
  proof (cases h)
    case None
    have "iter_left it * (go_fuel e + 2) \<le> iter_left (sy_iter y) * (go_fuel e + 2)" using iter_Next_None n None by (intro mult_le_mono1) blast
    then show ?thesis using MNext n None by (simp add: dr_main_def dr_left_def)
  next
    case (Some hi)
    have "Suc (iter_left it) * (go_fuel e + 2) \<le> iter_left (sy_iter y) * (go_fuel e + 2)"
      using iter_Next_left n Some by (intro mult_le_mono1) (simp add: Suc_le_eq)
    then show ?thesis using MNext n Some by (simp add: dr_main_def dr_left_def)
  qed
qed (auto simp: dr_main_def dr_left_def)

definition finished :: "'w dr_sys \<Rightarrow> bool" where
  "finished y \<longleftrightarrow> (\<exists>r. sy_main y = MDone r) \<or> (\<exists>g \<in> set (sy_gos y). snd g = GPanicked)"

lemma progress:
  assumes "permits_inv n y" "1 \<le> n" "\<not> finished y"
  shows "\<exists>oper. oper \<noteq> DrCancel \<and> dr_left e (dr_step e oper y) < dr_left e y"
proof -
  have np: "\<not> (\<exists>g \<in> set (sy_gos y). snd g = GPanicked)" using assms(3) by (simp add: finished_def)
  have go: "\<exists>oper. oper \<noteq> DrCancel \<and> dr_left e (dr_step e oper y) < dr_left e y" if m: "g \<in> set (sy_gos y)" and u: "\<not> ended (snd g)" for g
  proof -
    obtain i where i: "i < length (sy_gos y)" "sy_gos y ! i = g" using m unfolding in_set_conv_nth by blast
    have "snd g \<noteq> GPanicked" using np m by blast
    then have "dr_left e (dr_goroutine e i y) < dr_left e y" using goroutine_left [OF i(1), of e] u unfolding i(2) by blast
    then show ?thesis using np by (intro exI [of _ "DrGo i"]) (simp add: dr_step_def)
  qed
  have main: "\<exists>oper. oper \<noteq> DrCancel \<and> dr_left e (dr_step e oper y) < dr_left e y" if "dr_main e True y \<noteq> y"
    using np that main_left [of e True y] by (intro exI [of _ "DrMain True"]) (simp add: dr_step_def)
  show ?thesis
  proof (cases "sy_main y")
    case MAcquire
    show ?thesis
    proof (cases "sy_cancelled y \<or> 1 \<le> sy_free y")
      case True
      then have "sy_main (dr_main e True y) \<noteq> sy_main y" using MAcquire by (auto simp: dr_main_def)
      then show ?thesis using main by metis
    next
      case False
      then have "0 < running y" using assms(1,2) MAcquire by (auto simp: permits_inv_def)
      then show ?thesis using go by (auto simp: running_def filter_empty_conv)
    qed
  next
    case MNext
    then have "sy_main (dr_main e True y) \<noteq> sy_main y" by (auto simp: dr_main_def split: prod.split option.split)
    then show ?thesis using main by metis
  next
    case MWait
    show ?thesis
    proof (cases "\<forall>g \<in> set (sy_gos y). ended (snd g)")
      case True
      then have "sy_main (dr_main e True y) \<noteq> sy_main y" using MWait by (simp add: dr_main_def)
      then show ?thesis using main by metis
    qed (use go in blast)
  next
    case (MClean r)
    then have "sy_main (dr_main e True y) \<noteq> sy_main y" by (simp add: dr_main_def)
    then show ?thesis using main by metis
  qed (use assms(3) in \<open>simp add: finished_def\<close>)
qed

lemma can_finish:
  assumes "permits_inv n y" "1 \<le> n"
  shows "\<exists>more. length more \<le> dr_left e y \<and> DrCancel \<notin> set more \<and> finished (run_ops (dr_step e) more y)"
  using assms(1)
proof (induction "dr_left e y" arbitrary: y rule: less_induct)
  case less
  show ?case
  proof (cases "finished y")
    case True
    then show ?thesis by (intro exI [of _ "[]"]) (simp add: run_ops_def)
  next
    case False
    obtain oper where o: "oper \<noteq> DrCancel" "dr_left e (dr_step e oper y) < dr_left e y" using progress [OF less(2) assms(2) False] by blast
    have "permits_inv n (dr_step e oper y)" using permits_run [OF less(2), of e "[oper]"] by (simp add: run_ops_def)
    from less(1) [OF o(2) this] obtain more where "length more \<le> dr_left e (dr_step e oper y)" "DrCancel \<notin> set more"
        "finished (run_ops (dr_step e) more (dr_step e oper y))" by blast
    then show ?thesis using o by (intro exI [of _ "oper # more"]) (simp add: run_ops_def)
  qed
qed

lemma step_left: "dr_left e (dr_step e oper y) < dr_left e y \<or> dr_step e oper y = y \<or> oper = DrCancel"
proof (cases oper)
  case (DrMain g)
  then show ?thesis using main_left [of e g y] by (auto simp: dr_step_def)
next
  case (DrGo i)
  show ?thesis
  proof (cases "i < length (sy_gos y) \<and> \<not> ended (snd (sy_gos y ! i)) \<and> \<not> (\<exists>g \<in> set (sy_gos y). snd g = GPanicked)")
    case True
    then show ?thesis using goroutine_left [of i y e] DrGo by (auto simp: dr_step_def)
  next
    case False
    have "dr_goroutine e i y = y" if "i < length (sy_gos y)" "ended (snd (sy_gos y ! i))"
    proof -
      obtain h pc where g: "sy_gos y ! i = (h, pc)" by (rule prod.exhaust)
      moreover have "(sy_gos y)[i := (h, pc)] = sy_gos y" using g by (metis list_update_id)
      ultimately show ?thesis using that by (simp add: dr_goroutine_def go_ended)
    qed
    moreover have "dr_goroutine e i y = y" if "\<not> i < length (sy_gos y)" using that by (simp add: dr_goroutine_def)
    ultimately show ?thesis using False DrGo by (auto simp: dr_step_def)
  qed
qed simp

text \<open>
  C37: A run comes to an end. Whatever has happened since it began, cancelled or not, it can be brought to its end
  (or to the end of the process) in \<open>dr_left\<close> steps, and every step that changes anything but the cancellation brings
  it closer, so it ends under every scheduler that keeps running what can run. This takes at least one permit.
\<close>
theorem discovery_run_returns:
  assumes "dr_begin e x w0 = Inr y0" "1 \<le> GetConcurrentScans (dl_params (de_CR e))" "y = run_ops (dr_step e) ops y0"
  shows "(\<exists>more. length more \<le> dr_left e y \<and> DrCancel \<notin> set more \<and> finished (run_ops (dr_step e) more y))
    \<and> (\<forall>oper. dr_left e (dr_step e oper y) < dr_left e y \<or> dr_step e oper y = y \<or> oper = DrCancel)"
proof -
  have "permits_inv (GetConcurrentScans (dl_params (de_CR e))) y"
    unfolding assms(3) using assms(2) by (intro permits_run permits_begin [OF assms(1)]) simp
  from can_finish [OF this assms(2)] step_left show ?thesis by blast
qed

lemma sample_scans: "GetConcurrentScans (dl_params (dg_CR static_cfg)) = 1"
  by (simp add: static_cfg_def static_cr_def static_params_def GetConcurrentScans_def)

lemma scans_bounded_witness:
  "int (running (run_ops (dr_step (mem_env static_cfg)) [DrMain False, DrMain False, DrGo 0, DrMain False] sample_begin))
      \<le> GetConcurrentScans (dl_params (de_CR (mem_env static_cfg)))
    \<and> GetConcurrentScans (dl_params (de_CR (mem_env static_cfg))) - 1
      \<le> sy_free (run_ops (dr_step (mem_env static_cfg)) [DrMain False, DrMain False, DrGo 0, DrMain False] sample_begin)
        + int (running (run_ops (dr_step (mem_env static_cfg)) [DrMain False, DrMain False, DrGo 0, DrMain False] sample_begin))"
  by (rule scans_bounded [OF sample_begin _ refl]) (simp add: sample_scans)

lemma discovery_run_returns_witness:
  "(\<exists>more. length more \<le> dr_left (mem_env static_cfg) (run_ops (dr_step (mem_env static_cfg)) [DrMain False, DrMain False] sample_begin)
      \<and> DrCancel \<notin> set more
      \<and> finished (run_ops (dr_step (mem_env static_cfg)) more (run_ops (dr_step (mem_env static_cfg)) [DrMain False, DrMain False] sample_begin)))
    \<and> (\<forall>oper. dr_left (mem_env static_cfg) (dr_step (mem_env static_cfg) oper (run_ops (dr_step (mem_env static_cfg)) [DrMain False, DrMain False] sample_begin))
          < dr_left (mem_env static_cfg) (run_ops (dr_step (mem_env static_cfg)) [DrMain False, DrMain False] sample_begin)
        \<or> dr_step (mem_env static_cfg) oper (run_ops (dr_step (mem_env static_cfg)) [DrMain False, DrMain False] sample_begin)
          = run_ops (dr_step (mem_env static_cfg)) [DrMain False, DrMain False] sample_begin
        \<or> oper = DrCancel)"
  by (rule discovery_run_returns [OF sample_begin _ refl]) (simp add: sample_scans)

section \<open>Losing the hosts\<close>

lemma deleteUnWantedChildren_children [simp]: "snd (deleteUnWantedChildren e x s) = snd s"
  by (simp add: deleteUnWantedChildren_def deleteUnwantedDeviations_def deleteUnWantedTargets_def split: prod.split sum.split)

lemma childless_run:
  assumes "sy_gos y = [] \<longrightarrow> snd (sy_data y) = []"
  shows "sy_gos (run_ops (dr_step e) ops y) = [] \<longrightarrow> snd (sy_data (run_ops (dr_step e) ops y)) = []"
  using assms
proof (induction ops arbitrary: y)
  case (Cons oper ops)
  have "sy_gos (dr_step e oper y) = [] \<longrightarrow> snd (sy_data (dr_step e oper y)) = []"
  proof (cases oper)
    case (DrMain g)
    then show ?thesis using Cons.prems by (cases "sy_main y") (auto simp: dr_step_def dr_main_def split: prod.split option.split)
  next
    case (DrGo i)
    have "sy_gos (dr_goroutine e i y) = [] \<longleftrightarrow> sy_gos y = []" using goroutine_sel(3) [of e i y] by (metis map_is_Nil_conv)
    then show ?thesis using Cons.prems DrGo by (auto simp: dr_step_def dr_goroutine_def)
  next
    case DrCancel
    then show ?thesis using Cons.prems by (simp add: dr_step_def)
  qed
  then show ?case using Cons by (simp add: run_ops_def)
qed (simp add: run_ops_def)

lemma hostless_run:
  assumes "target_laws e look" "healthy_cleanup e" "dr_begin e False w0 = Inr y0" "DrCancel \<notin> set ops"
    "y = run_ops (dr_step e) ops y0" "sy_main y = MDone r" "all_hosts (de_addrString e) (sy_iter y0) = []"
  shows "\<not> of_rule e (look (fst (sy_data y))) k"
proof
  assume k: "of_rule e (look (fst (sy_data y))) k"
  have inv: "dr_inv e (target_coll e look (look w0)) (cleaned e look (look w0)) [] y"
    using target_runs.run_kept [OF assms(4) dr_begin_inv [OF assms(1,3)]] by (simp add: assms(5,7))
  then have "sy_gos y = []" and clean: "cleaned e look (look w0) (sy_data y)" using assms(6) by (simp_all add: dr_inv_def)
  moreover have "snd (sy_data y0) = []" using dr_begin_start [OF assms(3)] by simp
  ultimately have "snd (sy_data y) = []" using childless_run [of y0 e ops] assms(5) by blast
  then have "look (fst (sy_data y)) k = (if of_rule e (look w0) k then None else look w0 k)"
    using clean assms(2) by (simp add: cleaned_def child_keys_def)
  then show False using k by (auto simp: of_rule_def split: if_splits)
qed

definition hosts_unknown :: "('q, 'sel, 'c, 'w) dr_env \<Rightarrow> bool" where
  \<comment> \<open>the services cannot be listed; or the rule selects pods, and a selector that is nil selects none\<close>
  "hosts_unknown e \<longleftrightarrow>
     GetDiscoveryKind (de_CR e) = Inr KindSvc \<and> (\<forall>w. isl (fst (getServices e False w)))
   \<or> GetDiscoveryKind (de_CR e) = Inr KindPod
     \<and> (\<forall>sel w. de_selector e None = Inr sel \<longrightarrow> fst (dc_ListPods (de_client e False) (de_ns e) sel w) \<in> {Inr []} \<union> Inl ` UNIV)"

lemma kind_pod: "GetDiscoveryKind r = Inr KindPod \<Longrightarrow> dl_PodSelector r \<noteq> None \<and> dl_SvcSelector r = None"
  by (auto simp: GetDiscoveryKind_def discovery_kinds_def split: list.splits if_splits)

lemma hosts_unknown_empty:
  assumes "hosts_unknown e" "dr_begin e False w0 = Inr y0"
  shows "all_hosts (de_addrString e) (sy_iter y0) = []"
proof -
  obtain w1 where g: "fst (dr_getHosts e False w1) = Inr (sy_iter y0)"
    using assms(2) by (auto simp: dr_begin_def split: prod.splits sum.splits) (metis fst_conv)
  have "fst (dr_getHosts e False w1) = Inr (newIterator [] (pm_DefaultSchema (dl_params (de_CR e))))"
    using assms(1) unfolding hosts_unknown_def
  proof
    assume a: "GetDiscoveryKind (de_CR e) = Inr KindSvc \<and> (\<forall>w. isl (fst (getServices e False w)))"
    obtain r w2 where s: "getServices e False w1 = (r, w2)" by (rule prod.exhaust)
    then have "isl r" using spec [OF conjunct2 [OF a], of w1] by simp
    then have "fst (GetSVCDiscoveryAddresses e False w1) = []" using s by (cases r) (simp_all add: GetSVCDiscoveryAddresses_def)
    then show ?thesis using a by (auto simp: dr_getHosts_def split: prod.split)
  next
    assume a: "GetDiscoveryKind (de_CR e) = Inr KindPod
     \<and> (\<forall>sel w. de_selector e None = Inr sel \<longrightarrow> fst (dc_ListPods (de_client e False) (de_ns e) sel w) \<in> {Inr []} \<union> Inl ` UNIV)"
    have "fst (GetPODDiscoveryAddresses e False w1) = []"
    proof (cases "de_selector e None")
      case (Inr sel)
      obtain r w2 where l: "dc_ListPods (de_client e False) (de_ns e) sel w1 = (r, w2)" by (rule prod.exhaust)
      have "r \<in> {Inr []} \<union> Inl ` UNIV" using conjunct2 [OF a, rule_format, OF Inr, of w1] l by simp
      then show ?thesis using kind_pod [OF conjunct1 [OF a]] Inr l
        by (auto simp: GetPODDiscoveryAddresses_def getPods_def map_filter_simps)
    qed (use kind_pod [OF conjunct1 [OF a]] in \<open>simp add: GetPODDiscoveryAddresses_def getPods_def\<close>)
    then show ?thesis using a by (auto simp: dr_getHosts_def split: prod.split)
  qed
  then show ?thesis using g by (simp add: all_hosts_newIterator)
qed

text \<open>
  A rule that cannot see its hosts deletes its Targets. When listing the services fails, the run goes on with no
  hosts instead of stopping, and at its end every Target of the rule is deleted; and a rule for pods, whose list uses the
  (nil) selector of the services, never has a host and deletes whatever Targets carry its label.
\<close>
theorem unseen_hosts_lose_targets:
  assumes "target_laws e look" "healthy_cleanup e" "hosts_unknown e" "dr_begin e False w0 = Inr y0" "DrCancel \<notin> set ops"
    "y = run_ops (dr_step e) ops y0" "sy_main y = MDone r"
  shows "{k. of_rule e (look (fst (sy_data y))) k} = {}"
  using hostless_run [OF assms(1,2,4-7) hosts_unknown_empty [OF assms(3,4)]] by blast

definition pod_cfg :: "unit dr_config" where
  "pod_cfg = static_cfg\<lparr>dg_CR := static_cr\<lparr>dl_Addresses := [], dl_PodSelector := Some ()\<rparr>\<rparr>"

definition pod_begin :: "dr_mem dr_sys" where
  "pod_begin = sample_begin\<lparr>sy_iter := newIterator [] (pm_DefaultSchema static_params)\<rparr>"

lemma unseen_hosts_lose_targets_witness:
  "{k. of_rule (mem_env pod_cfg) (mem_look (fst (sy_data (run_ops (dr_step (mem_env pod_cfg))
      [DrMain False, DrMain False, DrMain False, DrMain False] pod_begin)))) k} = {}"
proof (rule unseen_hosts_lose_targets [OF mem_target_laws _ _ _ _ refl])
  show "healthy_cleanup (mem_env pod_cfg)" using healthy_clientD(6) [OF mem_healthy] .
  show "hosts_unknown (mem_env pod_cfg)"
    by (simp add: hosts_unknown_def pod_cfg_def static_cfg_def static_cr_def GetDiscoveryKind_def discovery_kinds_def mem_client_def)
  show "dr_begin (mem_env pod_cfg) False ([stale_target], []) = Inr pod_begin"
    by (simp add: dr_begin_def getVendorDiscoveryProfiles_def mem_client_def dr_getHosts_def GetDiscoveryKind_def discovery_kinds_def
        pod_cfg_def static_cfg_def static_cr_def pod_begin_def sample_begin_def static_params_def GetConcurrentScans_def
        GetPODDiscoveryAddresses_def getPods_def mem_env_def map_filter_simps)
  show "sy_main (run_ops (dr_step (mem_env pod_cfg)) [DrMain False, DrMain False, DrMain False, DrMain False] pod_begin) = MDone None"
    by code_simp
qed simp

section \<open>Deviations and status\<close>

text \<open>
  The Deviation of a Target is never called like a Target, so it is no child and every run deletes it, the ones it has
  just created among them.
\<close>

definition deviation_laws :: "('q, 'sel, 'c, 'w) dr_env \<Rightarrow> ('w \<Rightarrow> nsn \<rightharpoonup> string gomap) \<Rightarrow> bool" where
  \<comment> \<open>\<open>look\<close>: the labels of the Deviations there are\<close>
  "deviation_laws e look \<longleftrightarrow> (let c = de_client e False in
     (\<forall>w. \<exists>ds w'. dc_ListDeviations c (de_ns e) (de_rule e) w = (Inr ds, w') \<and> look w' = look w
        \<and> (\<forall>k. fst k = de_ns e \<longrightarrow> (\<exists>l. look w k = Some l \<and> map_of l LabelKeyDiscoveryRule = Some (de_rule e))
             \<longrightarrow> (\<exists>d \<in> set ds. (m_namespace (d_meta d), m_name (d_meta d)) = k)))
   \<and> (\<forall>d w. look (snd (dc_DeleteDeviation c d w)) = (look w)((m_namespace (d_meta d), m_name (d_meta d)) := None)))"

lemma delete_deviations_gone:
  assumes "deviation_laws e look" "k \<in> (\<lambda>d. (m_namespace (d_meta d), m_name (d_meta d))) ` set ds \<or> look w k = None" "snd k \<notin> set cs"
  shows "look (delete_deviations (de_client e False) cs ds w) k = None"
  using assms(2)
proof (induction ds arbitrary: w)
  case (Cons d ds)
  have del: "look (snd (dc_DeleteDeviation (de_client e False) d w)) = (look w)((m_namespace (d_meta d), m_name (d_meta d)) := None)"
    using assms(1) unfolding deviation_laws_def Let_def by blast
  show ?case
  proof (cases "k = (m_namespace (d_meta d), m_name (d_meta d))")
    case True
    then have "m_name (d_meta d) \<notin> set cs" using assms(3) by simp
    then show ?thesis using Cons.IH [of "snd (dc_DeleteDeviation (de_client e False) d w)"] del True by simp
  next
    case False
    then show ?thesis using Cons.prems Cons.IH [of w] Cons.IH [of "snd (dc_DeleteDeviation (de_client e False) d w)"] del by auto
  qed
qed simp

theorem target_deviations_deleted:
  assumes "deviation_laws e look" "\<forall>t w. look (snd (dc_DeleteTarget (de_client e False) t w)) = look w"
    "\<forall>w. look (snd (dc_ListTargets (de_client e False) (de_ns e) (de_rule e) w)) = look w"
    "newDeviationCR e target = Inr d" "m_namespace (t_meta target) = de_ns e"
    "look w (m_namespace (d_meta d), m_name (d_meta d)) = Some l" "map_of l LabelKeyDiscoveryRule = Some (de_rule e)"
    "\<forall>n \<in> set cs. n \<noteq> DeviationName DeviationType_TARGET (m_name (t_meta target))"
  shows "look (fst (deleteUnWantedChildren e False (w, cs))) (m_namespace (d_meta d), m_name (d_meta d)) = None"
proof -
  have d: "m_namespace (d_meta d) = de_ns e" "m_name (d_meta d) = DeviationName DeviationType_TARGET (m_name (t_meta target))"
    using assms(4,5) by (auto simp: newDeviationCR_def Let_def split: sum.splits)
  have dt: "look (delete_targets (de_client e False) cs ts v) = look v" for ts v
    using assms(2) by (induction ts arbitrary: v) auto
  obtain lr w0 where lt: "dc_ListTargets (de_client e False) (de_ns e) (de_rule e) w = (lr, w0)" by (rule prod.exhaust)
  define w1 where "w1 = (case lr of Inl err \<Rightarrow> w0 | Inr ts \<Rightarrow> delete_targets (de_client e False) cs ts w0)"
  have t: "snd (deleteUnWantedTargets e False (w, cs)) = (w1, cs)"
    using lt by (cases lr) (simp_all add: deleteUnWantedTargets_def w1_def)
  have w1: "look w1 = look w" using assms(3) [rule_format, of w] lt dt by (cases lr) (simp_all add: w1_def)
  obtain ds w2 where l: "dc_ListDeviations (de_client e False) (de_ns e) (de_rule e) w1 = (Inr ds, w2)"
      "\<forall>k. fst k = de_ns e \<longrightarrow> (\<exists>l. look w1 k = Some l \<and> map_of l LabelKeyDiscoveryRule = Some (de_rule e))
             \<longrightarrow> (\<exists>d \<in> set ds. (m_namespace (d_meta d), m_name (d_meta d)) = k)"
    using assms(1) unfolding deviation_laws_def Let_def by blast
  have "(de_ns e, m_name (d_meta d)) \<in> (\<lambda>d. (m_namespace (d_meta d), m_name (d_meta d))) ` set ds"
    using l(2) [rule_format, of "(de_ns e, m_name (d_meta d))"] assms(6,7) w1 d by force
  then show ?thesis using delete_deviations_gone [OF assms(1), of "(de_ns e, m_name (d_meta d))" ds w2 cs] assms(8) t l(1) d
    by (auto simp: deleteUnWantedChildren_def deleteUnwantedDeviations_def)
qed

text \<open>
  The status of a Target that answers with encodings is written at every run: the encodings are compared, but never
  stored.
\<close>

lemma encodings_defeat_no_change:
  assumes "dc_GetTarget (de_client e x) k w = (Inr t, w1)" "t_discoveryInfo t = Some (discoveryInfoToApply di)" "di_supportedEncodings di \<noteq> []"
    "dc_ApplyTargetStatus (de_client e x) k (TargetDiscoveryReady (de_now e)) (discoveryInfoToApply di) w1 = (Some err, w2)"
  shows "applyTargetStatus e x k di w = (Inl err, w2)"
proof -
  have "discoveryInfoToApply di \<noteq> di" using assms(3) by (cases di) (auto simp: discoveryInfoToApply_def)
  then show ?thesis using assms by (simp add: applyTargetStatus_def Let_def)
qed

end
