(* ===== verification/DiscoveryController.thy ===== *)
theory DiscoveryController
  imports Discovery Rollout
begin

text \<open>
  The controller of the DiscoveryRules (\<open>pkg/reconcilers/discoveryrule\<close>: \<open>reconciler.go\<close>, \<open>profiles.go\<close>, with
  \<open>Validate\<close> of \<open>apis/inv/v1alpha1/discoveryrule_helpers.go\<close>): the secrets and profiles a rule refers to, when a
  running rule is replaced, and the rules that run. A rule that is started gets its cancel function only when its
  goroutine runs, which is a step of its own; \<open>Stop\<close> before that does nothing.
\<close>

declare split_paired_All [simp del] split_paired_Ex [simp del]

section \<open>Validation\<close>

definition prefix_errors :: "(string \<Rightarrow> goerr + ip_prefix) \<Rightarrow> dr_prefix list \<Rightarrow> goerr option \<Rightarrow> goerr option" where
  "prefix_errors new ps errm = fold (\<lambda>p errm. case new (px_Prefix p) of Inr _ \<Rightarrow> errm
     | Inl err \<Rightarrow> err_join errm (Some (err_new (''parsing prefix '' @ px_Prefix p @ '' failed '' @ e_msg err)))) ps errm"

definition Validate :: "(string \<Rightarrow> goerr + ip_prefix) \<Rightarrow> 'q drule \<Rightarrow> goerr option" where
  "Validate new r =
     (case GetDiscoveryKind r of
        Inl err \<Rightarrow> Some err
      | Inr kind \<Rightarrow>
          (let errm = (if pm_DefaultSchema (dl_params r) \<noteq> None \<and> kind = KindPrefix
               then Some (err_new ''prefix based discovery cannot have discovery disabled, remove the default schema for prefix based discovery'')
               else None) in
           err_join (prefix_errors new (dl_Prefixes r) errm) (Parameters_Validate (dl_params r))))"

section \<open>Secrets and profiles\<close>

record ('q, 'w) dc_services =
  dcv_Get :: "nsn \<Rightarrow> 'w \<Rightarrow> (goerr + 'q drule) \<times> 'w"
  dcv_GetSecret :: "nsn \<Rightarrow> 'w \<Rightarrow> (goerr + secret) \<times> 'w"
  dcv_GetConnProfile :: "nsn \<Rightarrow> 'w \<Rightarrow> (goerr + conn_profile) \<times> 'w"
  dcv_GetSyncProfile :: "nsn \<Rightarrow> 'w \<Rightarrow> (goerr + sync_profile) \<times> 'w"
  dcv_ApplyStatus :: "nsn \<Rightarrow> condition \<Rightarrow> bool \<Rightarrow> 'w \<Rightarrow> goerr option \<times> 'w"  \<comment> \<open>with a start time or without\<close>
  dcv_ApplyFinalizers :: "string \<Rightarrow> string \<Rightarrow> string list \<Rightarrow> 'w \<Rightarrow> goerr option \<times> 'w"
  dcv_Event :: "string \<Rightarrow> string \<Rightarrow> 'w \<Rightarrow> 'w"

record ('q, 's, 'w) dc_env =
  dce_sv :: "('q, 'w) dc_services"
  dce_store :: "(nat, 's) mstore"
  dce_newPrefix :: "string \<Rightarrow> goerr + ip_prefix"
  dce_now :: nat

fun conn_loop :: "('q, 'w) dc_services \<Rightarrow> string \<Rightarrow> string list \<Rightarrow> conn_profile list \<times> goerr option \<times> 'w \<Rightarrow> conn_profile list \<times> goerr option \<times> 'w" where
  "conn_loop sv ns [] acc = acc"
| "conn_loop sv ns (p # ps) (cps, errm, w) =
     conn_loop sv ns ps (case dcv_GetConnProfile sv (ns, p) w of
       (Inl err, w) \<Rightarrow> (cps, err_join errm (Some err), w) | (Inr cp, w) \<Rightarrow> (cps @ [cp], errm, w))"

definition getDiscoveryProfile :: "('q, 'w) dc_services \<Rightarrow> 'q drule \<Rightarrow> 'w \<Rightarrow> (goerr + disc_refs) \<times> 'w" where
  "getDiscoveryProfile sv cr w =
     (let ns = m_namespace (dl_meta cr) in
      case pm_DiscoveryProfile (dl_params cr) of
        None \<Rightarrow> (Inl (err_new ''no discovery profile provided''), w)
      | Some d \<Rightarrow>
          (case dcv_GetSecret sv (ns, dp_Credentials d) w of
             (secret, w) \<Rightarrow>
               (case conn_loop sv ns (dp_ConnectionProfiles d) ([], case secret of Inl err \<Rightarrow> Some err | Inr _ \<Rightarrow> None, w) of
                  (cps, Some err, w) \<Rightarrow> (Inl err, w)
                | (cps, None, w) \<Rightarrow> (Inr \<lparr>df_Secret = dp_Credentials d,
                    df_SecretResourceVersion = (case secret of Inr s \<Rightarrow> sec_resourceVersion s | Inl _ \<Rightarrow> []),
                    df_Connectionprofiles = cps\<rparr>, w))))"

definition target_refs :: "('q, 'w) dc_services \<Rightarrow> string \<Rightarrow> target_profile \<Rightarrow> 'w \<Rightarrow> (goerr + conn_refs) \<times> 'w" where
  \<comment> \<open>the body of the loop of \<open>getTargetConnectionProfile\<close>\<close>
  "target_refs sv ns tp w =
     (case dcv_GetSecret sv (ns, tp_Credentials tp) w of
        (Inl err, w) \<Rightarrow> (Inl err, w)
      | (Inr secret, w) \<Rightarrow>
          (case dcv_GetConnProfile sv (ns, tp_ConnectionProfile tp) w of
             (Inl err, w) \<Rightarrow> (Inl err, w)
           | (Inr cp, w) \<Rightarrow>
               (let refs = (\<lambda>sync. \<lparr>cf_Secret = tp_Credentials tp, cf_SecretResourceVersion = sec_resourceVersion secret,
                      cf_Connectionprofile = Some cp, cf_Syncprofile = sync\<rparr>) in
                case tp_SyncProfile tp of
                  None \<Rightarrow> (Inr (refs None), w)
                | Some s \<Rightarrow> (case dcv_GetSyncProfile sv (ns, s) w of
                    (Inl err, w) \<Rightarrow> (Inl err, w) | (Inr sp, w) \<Rightarrow> (Inr (refs (Some sp)), w)))))"

fun target_loop :: "('q, 'w) dc_services \<Rightarrow> string \<Rightarrow> target_profile list \<Rightarrow> conn_refs list \<times> goerr option \<times> 'w \<Rightarrow> conn_refs list \<times> goerr option \<times> 'w" where
  "target_loop sv ns [] acc = acc"
| "target_loop sv ns (tp # tps) (rs, errm, w) =
     target_loop sv ns tps (case target_refs sv ns tp w of
       (Inl err, w) \<Rightarrow> (rs, err_join errm (Some err), w) | (Inr r, w) \<Rightarrow> (rs @ [r], errm, w))"

definition getTargetConnectionProfile :: "('q, 'w) dc_services \<Rightarrow> 'q drule \<Rightarrow> 'w \<Rightarrow> (goerr + conn_refs list) \<times> 'w" where
  \<comment> \<open>with an error the list is not used\<close>
  "getTargetConnectionProfile sv cr w =
     (case target_loop sv (m_namespace (dl_meta cr)) (pm_TargetConnectionProfiles (dl_params cr)) ([], None, w) of
        (rs, Some err, w) \<Rightarrow> (Inl err, w) | (rs, None, w) \<Rightarrow> (Inr rs, w))"

definition getDRConfig :: "('q, 'w) dc_services \<Rightarrow> 'q drule \<Rightarrow> 'w \<Rightarrow> (goerr + 'q dr_config) \<times> 'w" where
  "getDRConfig sv cr w =
     (case (if Discovery cr
            then (case getDiscoveryProfile sv cr w of (Inl err, w) \<Rightarrow> (None, Some err, w) | (Inr d, w) \<Rightarrow> (Some d, None, w))
            else (None, None, w)) of
        (disc, errm, w) \<Rightarrow>
          (case getTargetConnectionProfile sv cr w of
             (Inl err, w) \<Rightarrow> (Inl (the (err_join errm (Some err))), w)
           | (Inr rs, w) \<Rightarrow>
               (case errm of Some err \<Rightarrow> (Inl err, w)
                | None \<Rightarrow> (Inr \<lparr>dg_Discovery = Discovery cr, dg_DefaultSchema = pm_DefaultSchema (dl_params cr), dg_CR = cr,
                    dg_DiscoveryProfile = disc, dg_TargetConnectionProfiles = rs\<rparr>, w))))"

section \<open>Changes\<close>

definition cp_rv :: "conn_profile \<Rightarrow> string" where "cp_rv p = m_resourceVersion (cp_meta p)"

definition gen_changed :: "objmeta option \<Rightarrow> objmeta option \<Rightarrow> bool" where
  \<comment> \<open>one is nil and the other not, or their generations differ\<close>
  "gen_changed new cur = ((new = None) \<noteq> (cur = None)
     \<or> (case (new, cur) of (Some n, Some c) \<Rightarrow> m_generation n \<noteq> m_generation c | _ \<Rightarrow> False))"

fun conn_changed :: "conn_refs list \<Rightarrow> conn_refs list \<Rightarrow> bool" where
  \<comment> \<open>the loop over the target connection profiles; the lists have the same length\<close>
  "conn_changed (n # ns) (c # cs) =
     (cf_SecretResourceVersion n \<noteq> cf_SecretResourceVersion c
      \<or> gen_changed (map_option cp_meta (cf_Connectionprofile n)) (map_option cp_meta (cf_Connectionprofile c))
      \<or> gen_changed (map_option yp_meta (cf_Syncprofile n)) (map_option yp_meta (cf_Syncprofile c))
      \<or> conn_changed ns cs)"
| "conn_changed _ _ = False"

definition HasChanged :: "'q dr_config \<Rightarrow> 'q dr_config \<Rightarrow> bool panics" where
  \<comment> \<open>the log line already follows the pointer to the current discovery profile\<close>
  "HasChanged new cur =
     (case (dg_DiscoveryProfile new, dg_DiscoveryProfile cur) of
        (Some n, None) \<Rightarrow> Panics
      | (dn, dc) \<Rightarrow> Returns
          (m_generation (dl_meta (dg_CR new)) \<noteq> m_generation (dl_meta (dg_CR cur))
           \<or> (case (dn, dc) of
                (Some n, Some c) \<Rightarrow> df_SecretResourceVersion n \<noteq> df_SecretResourceVersion c
                  \<or> length (df_Connectionprofiles n) \<noteq> length (df_Connectionprofiles c)
                  \<or> map cp_rv (df_Connectionprofiles n) \<noteq> map cp_rv (df_Connectionprofiles c)
              | _ \<Rightarrow> False)
           \<or> length (dg_TargetConnectionProfiles new) \<noteq> length (dg_TargetConnectionProfiles cur)
           \<or> conn_changed (dg_TargetConnectionProfiles new) (dg_TargetConnectionProfiles cur)))"

section \<open>Running rules\<close>

text \<open>
  A rule: made by \<open>New\<close>, its goroutine started but without a cancel function, running, cancelled.
\<close>

datatype rule_status = RNew | RPending | RRunning | RCancelled

record 'q rule_run =
  rr_cfg :: "'q dr_config"
  rr_status :: rule_status

record ('q, 's, 'w) dc_sys =
  dc_store :: 's
  dc_rules :: "'q rule_run list"
  dc_world :: 'w

definition rule_Stop :: "nat \<Rightarrow> 'q rule_run list \<Rightarrow> 'q rule_run list" where
  "rule_Stop i rs = (if rr_status (rs ! i) = RRunning then rs[i := (rs ! i)\<lparr>rr_status := RCancelled\<rparr>] else rs)"

definition rule_begin :: "nat \<Rightarrow> ('q, 's, 'w) dc_sys \<Rightarrow> ('q, 's, 'w) dc_sys" where
  \<comment> \<open>the first statement of \<open>Run\<close>\<close>
  "rule_begin i y = (if i < length (dc_rules y) \<and> rr_status (dc_rules y ! i) = RPending
     then y\<lparr>dc_rules := (dc_rules y)[i := (dc_rules y ! i)\<lparr>rr_status := RRunning\<rparr>]\<rparr> else y)"

section \<open>Reconcile\<close>

definition dr_finalizer :: string where
  "dr_finalizer = ''discoveryrule.inv.sdcio.dev/finalizer''"

definition drkey :: "'q drule \<Rightarrow> nsn" where "drkey r = (m_namespace (dl_meta r), m_name (dl_meta r))"

definition dr_handleSuccess :: "('q, 's, 'w) dc_env \<Rightarrow> 'q drule \<Rightarrow> bool \<Rightarrow> 'w \<Rightarrow> goerr option \<times> 'w" where
  "dr_handleSuccess e r changed w =
     (if cond_Equal (Ready (dce_now e)) (GetCondition (dl_conditions r) ConditionTypeReady) \<and> \<not> changed then (None, w)
      else dcv_ApplyStatus (dce_sv e) (drkey r) (Ready (dce_now e)) changed
        (if changed then dcv_Event (dce_sv e) ''Normal'' ''ready'' w else w))"

definition dr_handleError :: "('q, 's, 'w) dc_env \<Rightarrow> 'q drule \<Rightarrow> string \<Rightarrow> goerr option \<Rightarrow> 'w \<Rightarrow> goerr option \<times> 'w" where
  "dr_handleError e r msg err w =
     (let msg = (case err of Some err \<Rightarrow> msg @ '' err '' @ e_msg err | None \<Rightarrow> msg) in
      dcv_ApplyStatus (dce_sv e) (drkey r) (Failed (dce_now e) msg) True (dcv_Event (dce_sv e) ''Warning'' msg w))"

type_synonym dr_result = "bool \<times> goerr option"

definition dr_status :: "bool \<Rightarrow> ('w \<Rightarrow> goerr option \<times> 'w) \<Rightarrow> ('q, 's, 'w) dc_sys \<Rightarrow> dr_result \<times> ('q, 's, 'w) dc_sys" where
  \<comment> \<open>\<open>return ctrl.Result{Requeue: rq}, errors.Wrap(h(...), errUpdateStatus)\<close>\<close>
  "dr_status rq h y = (case h (dc_world y) of (err, w) \<Rightarrow> ((rq, map_option (err_wrap ''cannot update status'') err), y\<lparr>dc_world := w\<rparr>))"

definition dr_unfinalize :: "('q, 's, 'w) dc_env \<Rightarrow> 'q drule \<Rightarrow> ('q, 's, 'w) dc_sys \<Rightarrow> dr_result \<times> ('q, 's, 'w) dc_sys" where
  \<comment> \<open>the end of both branches of a deletion\<close>
  "dr_unfinalize e r y =
     (case RemoveFinalizer dr_finalizer (dcv_ApplyFinalizers (dce_sv e)) (dl_meta r) (dc_world y) of
        (Some err, w) \<Rightarrow> dr_status True (dr_handleError e r ''cannot delete finalizer'' (Some err)) (y\<lparr>dc_world := w\<rparr>)
      | (None, w) \<Rightarrow> ((False, None), y\<lparr>dc_world := w\<rparr>))"

definition dr_reconcileDelete :: "('q, 's, 'w) dc_env \<Rightarrow> nsn \<Rightarrow> 'q drule \<Rightarrow> ('q, 's, 'w) dc_sys \<Rightarrow> dr_result \<times> ('q, 's, 'w) dc_sys" where
  "dr_reconcileDelete e k r y =
     (case ms_get (dce_store e) k (dc_store y) of
        Inl _ \<Rightarrow> dr_unfinalize e r y
      | Inr i \<Rightarrow>
          (let y = y\<lparr>dc_rules := rule_Stop i (dc_rules y)\<rparr> in
           case ms_delete (dce_store e) k (dc_store y) of
             (Some err, s) \<Rightarrow> dr_status True (dr_handleError e r ''cannot delete discoveryRule from store'' (Some err)) (y\<lparr>dc_store := s\<rparr>)
           | (None, s) \<Rightarrow> dr_unfinalize e r (y\<lparr>dc_store := s\<rparr>)))"

definition drop_rule :: "('q, 's, 'w) dc_env \<Rightarrow> nsn \<Rightarrow> nat option \<Rightarrow> ('q, 's, 'w) dc_sys \<Rightarrow> ('q, 's, 'w) dc_sys" where
  \<comment> \<open>stop a running rule and take it out of the store; an error of the store is only logged\<close>
  "drop_rule e k run y = (case run of None \<Rightarrow> y
     | Some i \<Rightarrow> y\<lparr>dc_rules := rule_Stop i (dc_rules y), dc_store := snd (ms_delete (dce_store e) k (dc_store y))\<rparr>)"

definition start_rule :: "('q, 's, 'w) dc_env \<Rightarrow> nsn \<Rightarrow> 'q drule \<Rightarrow> 'q dr_config \<Rightarrow> ('q, 's, 'w) dc_sys \<Rightarrow> dr_result \<times> ('q, 's, 'w) dc_sys" where
  "start_rule e k r cfg y =
     (case ms_create (dce_store e) k (length (dc_rules y)) (dc_store y) of
        (Some err, s) \<Rightarrow> dr_status True (dr_handleError e r ''cannot get normalized discoveryRule'' (Some err))
           (y\<lparr>dc_store := s, dc_rules := dc_rules y @ [\<lparr>rr_cfg = cfg, rr_status = RNew\<rparr>]\<rparr>)
      | (None, s) \<Rightarrow> dr_status False (dr_handleSuccess e r True)
           (y\<lparr>dc_store := s, dc_rules := dc_rules y @ [\<lparr>rr_cfg = cfg, rr_status = RPending\<rparr>]\<rparr>))"

definition rule_changed :: "'q dr_config \<Rightarrow> nat option \<Rightarrow> 'q rule_run list \<Rightarrow> bool panics" where
  \<comment> \<open>a rule has to be started: none is running, or its configuration has changed\<close>
  "rule_changed cfg run rs = (case run of None \<Rightarrow> Returns True | Some i \<Rightarrow> HasChanged cfg (rr_cfg (rs ! i)))"

definition dr_reconcileApply :: "('q, 's, 'w) dc_env \<Rightarrow> nsn \<Rightarrow> 'q drule \<Rightarrow> ('q, 's, 'w) dc_sys \<Rightarrow> dr_result panics \<times> ('q, 's, 'w) dc_sys" where
  \<comment> \<open>from the lookup of the running rule on\<close>
  "dr_reconcileApply e k r y =
     (let run = (case ms_get (dce_store e) k (dc_store y) of Inl _ \<Rightarrow> None | Inr i \<Rightarrow> Some i) in
      case getDRConfig (dce_sv e) r (dc_world y) of
        (Inl err, w) \<Rightarrow>
          (case dr_status False (dr_handleError e r ''cannot get normalized discoveryRule'' (Some err)) (drop_rule e k run (y\<lparr>dc_world := w\<rparr>)) of
             (res, y) \<Rightarrow> (Returns res, y))
      | (Inr cfg, w) \<Rightarrow>
          (let y = y\<lparr>dc_world := w\<rparr> in
           case rule_changed cfg run (dc_rules y) of
             Panics \<Rightarrow> (Panics, y)
           | Returns False \<Rightarrow> (case dr_status False (dr_handleSuccess e r False) y of (res, y) \<Rightarrow> (Returns res, y))
           | Returns True \<Rightarrow> (case start_rule e k r cfg (drop_rule e k run y) of (res, y) \<Rightarrow> (Returns res, y))))"

definition dr_Reconcile :: "('q, 's, 'w) dc_env \<Rightarrow> nsn \<Rightarrow> ('q, 's, 'w) dc_sys \<Rightarrow> dr_result panics \<times> ('q, 's, 'w) dc_sys" where
  \<comment> \<open>(requeue, error)\<close>
  "dr_Reconcile e k y =
     (case dcv_Get (dce_sv e) k (dc_world y) of
        (Inl err, w) \<Rightarrow> (Returns (False, map_option (err_wrap ''cannot get cr'') (IgnoreNotFound (Some err))), y\<lparr>dc_world := w\<rparr>)
      | (Inr r, w) \<Rightarrow>
          (let y = y\<lparr>dc_world := w\<rparr> in
           if m_deletionTimestamp (dl_meta r) \<noteq> None then (case dr_reconcileDelete e k r y of (res, y) \<Rightarrow> (Returns res, y))
           else case Validate (dce_newPrefix e) r of
               Some err \<Rightarrow> (case dr_status True (dr_handleError e r ''validation failed'' (Some err)) y of (res, y) \<Rightarrow> (Returns res, y))
             | None \<Rightarrow>
                 (case AddFinalizer dr_finalizer (dcv_ApplyFinalizers (dce_sv e)) (dl_meta r) (dc_world y) of
                    (Some err, w) \<Rightarrow>
                      (case dr_status True (dr_handleError e r ''cannot add finalizer'' (Some err)) (y\<lparr>dc_world := w\<rparr>) of (res, y) \<Rightarrow> (Returns res, y))
                  | (None, w) \<Rightarrow> dr_reconcileApply e k r (y\<lparr>dc_world := w\<rparr>))))"

datatype dc_op = DcReconcile nsn | DcBegin nat

fun dc_step :: "('q, 's, 'w) dc_env \<Rightarrow> dc_op \<Rightarrow> ('q, 's, 'w) dc_sys \<Rightarrow> ('q, 's, 'w) dc_sys" where
  "dc_step e (DcReconcile k) y = snd (dr_Reconcile e k y)"
| "dc_step e (DcBegin i) y = rule_begin i y"

section \<open>What a reconcile does to the rules\<close>

definition dropped :: "nsn \<Rightarrow> (nsn \<rightharpoonup> nat) \<times> 'q rule_run list \<Rightarrow> (nsn \<rightharpoonup> nat) \<times> 'q rule_run list" where
  "dropped k v = (case fst v k of None \<Rightarrow> v | Some i \<Rightarrow> ((fst v)(k := None), rule_Stop i (snd v)))"

definition started :: "nsn \<Rightarrow> 'q dr_config \<Rightarrow> (nsn \<rightharpoonup> nat) \<times> 'q rule_run list \<Rightarrow> (nsn \<rightharpoonup> nat) \<times> 'q rule_run list" where
  "started k cfg v = ((fst v)(k \<mapsto> length (snd v)), snd v @ [\<lparr>rr_cfg = cfg, rr_status = RPending\<rparr>])"

definition dc_view :: "('s \<Rightarrow> nsn \<rightharpoonup> nat) \<Rightarrow> ('q, 's, 'w) dc_sys \<Rightarrow> (nsn \<rightharpoonup> nat) \<times> 'q rule_run list" where
  "dc_view look y = (look (dc_store y), dc_rules y)"

lemma mstore_getD:
  assumes "mstore_laws st look"
  shows "ms_get st k s = Inr v \<Longrightarrow> look s k = Some v" "ms_get st k s = Inl err \<Longrightarrow> look s k = None"
    "look (snd (ms_delete st k s)) = (look s)(k := None)" "look s k = None \<Longrightarrow> fst (ms_create st k v s) = None"
    "look s k = None \<Longrightarrow> look (snd (ms_create st k v s)) = (look s)(k \<mapsto> v)"
proof -
  show "look (snd (ms_delete st k s)) = (look s)(k := None)" "look s k = None \<Longrightarrow> fst (ms_create st k v s) = None"
    "look s k = None \<Longrightarrow> look (snd (ms_create st k v s)) = (look s)(k \<mapsto> v)"
    using assms unfolding mstore_laws_def by blast+
  show "ms_get st k s = Inr v \<Longrightarrow> look s k = Some v"
    using mstore_lawsD(3,4) [OF assms, where k = k and s = s] by (cases "look s k") force+
  show "ms_get st k s = Inl err \<Longrightarrow> look s k = None"
    using mstore_lawsD(3) [OF assms, where k = k and s = s] by (cases "look s k") force+
qed

lemma dr_status_view [simp]: "dc_view look (snd (dr_status rq h y)) = dc_view look y"
  by (simp add: dr_status_def dc_view_def split: prod.split)

lemma view_world [simp]: "dc_view look (y\<lparr>dc_world := w\<rparr>) = dc_view look y"
  by (simp add: dc_view_def)

lemma drop_rule_view:
  assumes "mstore_laws (dce_store e) look" "run = look (dc_store y) k"
  shows "dc_view look (drop_rule e k run y) = dropped k (dc_view look y)"
  using assms mstore_getD(3) [OF assms(1)] by (auto simp: drop_rule_def dropped_def dc_view_def split: option.split)

lemma dropped_none: "fst (dropped k v) k = None"
  by (auto simp: dropped_def split: option.split)

lemma start_rule_view:
  assumes "mstore_laws (dce_store e) look" "look (dc_store y) k = None"
  shows "dc_view look (snd (start_rule e k r cfg y)) = started k cfg (dc_view look y)"
proof -
  obtain s where c: "ms_create (dce_store e) k (length (dc_rules y)) (dc_store y) = (None, s)"
    using mstore_getD(4) [OF assms] by (metis prod.collapse)
  moreover have "look s = (look (dc_store y))(k \<mapsto> length (dc_rules y))"
    using mstore_getD(5) [OF assms, of "length (dc_rules y)"] c by simp
  ultimately show ?thesis by (simp add: start_rule_def) (simp add: dc_view_def started_def)
qed

lemma reconcileDelete_view:
  fixes y :: "('q, 's, 'w) dc_sys"
  assumes "mstore_laws (dce_store e) look"
  shows "dc_view look (snd (dr_reconcileDelete e k r y)) = dropped k (dc_view look y)"
proof -
  have unf: "dc_view look (snd (dr_unfinalize e r y)) = dc_view look y" for y :: "('q, 's, 'w) dc_sys"
    by (simp add: dr_unfinalize_def split: prod.split option.split)
  show ?thesis
  proof (cases "ms_get (dce_store e) k (dc_store y)")
    case (Inl err)
    then have "snd (dr_reconcileDelete e k r y) = snd (dr_unfinalize e r y)" by (simp add: dr_reconcileDelete_def)
    then show ?thesis using unf mstore_getD(2) [OF assms Inl] by (simp add: dropped_def dc_view_def)
  next
    case (Inr i)
    obtain res s where d: "ms_delete (dce_store e) k (dc_store y) = (res, s)" by (rule prod.exhaust)
    have l: "look s = (look (dc_store y))(k := None)" using mstore_getD(3) [OF assms, of k "dc_store y"] d by simp
    have "dc_view look (snd (dr_reconcileDelete e k r y)) = dc_view look (y\<lparr>dc_rules := rule_Stop i (dc_rules y), dc_store := s\<rparr>)"
      using Inr d unf by (cases res) (simp_all add: dr_reconcileDelete_def)
    then show ?thesis using mstore_getD(1) [OF assms Inr] l by (simp add: dropped_def dc_view_def)
  qed
qed

text \<open>
  What a reconcile reads of the resource: nothing it can use (the read fails or finds none, the rule is not valid, its
  finalizer cannot be added); that the rule has to end (it is being deleted, or a reference of it cannot be resolved);
  or its configuration.
\<close>

datatype 'q rule_input = Unusable | RuleEnds | Configured "'q dr_config"

definition rule_input :: "('q, 's, 'w) dc_env \<Rightarrow> nsn \<Rightarrow> 'w \<Rightarrow> 'q rule_input" where
  "rule_input e k w =
     (case dcv_Get (dce_sv e) k w of
        (Inl err, w) \<Rightarrow> Unusable
      | (Inr r, w) \<Rightarrow>
          if m_deletionTimestamp (dl_meta r) \<noteq> None then RuleEnds
          else if Validate (dce_newPrefix e) r \<noteq> None then Unusable
          else (case AddFinalizer dr_finalizer (dcv_ApplyFinalizers (dce_sv e)) (dl_meta r) w of
              (Some err, w) \<Rightarrow> Unusable
            | (None, w) \<Rightarrow> (case getDRConfig (dce_sv e) r w of (Inl err, w) \<Rightarrow> RuleEnds | (Inr cfg, w) \<Rightarrow> Configured cfg)))"

definition up_to_date :: "'q dr_config \<Rightarrow> nsn \<Rightarrow> (nsn \<rightharpoonup> nat) \<times> 'q rule_run list \<Rightarrow> bool" where
  \<comment> \<open>a rule runs under the key, and its configuration does not count as changed (or cannot be compared: a panic)\<close>
  "up_to_date cfg k v \<longleftrightarrow> (\<exists>i. fst v k = Some i \<and> HasChanged cfg (rr_cfg (snd v ! i)) \<noteq> Returns True)"

definition rules_after :: "'q rule_input \<Rightarrow> nsn \<Rightarrow> (nsn \<rightharpoonup> nat) \<times> 'q rule_run list \<Rightarrow> (nsn \<rightharpoonup> nat) \<times> 'q rule_run list" where
  "rules_after inp k v = (case inp of Unusable \<Rightarrow> v | RuleEnds \<Rightarrow> dropped k v
     | Configured cfg \<Rightarrow> if up_to_date cfg k v then v else started k cfg (dropped k v))"

lemma apply_view:
  assumes "mstore_laws (dce_store e) look"
  shows "dc_view look (snd (dr_reconcileApply e k r y))
    = rules_after (case fst (getDRConfig (dce_sv e) r (dc_world y)) of Inl err \<Rightarrow> RuleEnds | Inr cfg \<Rightarrow> Configured cfg) k (dc_view look y)"
proof -
  let ?run = "case ms_get (dce_store e) k (dc_store y) of Inl _ \<Rightarrow> None | Inr i \<Rightarrow> Some i"
  have run: "?run = look (dc_store y) k" using mstore_getD [OF assms] by (cases "ms_get (dce_store e) k (dc_store y)") auto
  obtain c w where c: "getDRConfig (dce_sv e) r (dc_world y) = (c, w)" by (rule prod.exhaust)
  have drop: "dc_view look (drop_rule e k ?run (y\<lparr>dc_world := w\<rparr>)) = dropped k (dc_view look y)"
    using drop_rule_view [OF assms, of ?run "y\<lparr>dc_world := w\<rparr>" k] run by simp
  show ?thesis
  proof (cases c)
    case (Inl err)
    have "dc_view look (snd (dr_reconcileApply e k r y)) = dropped k (dc_view look y)"
      using c Inl drop by (simp add: dr_reconcileApply_def Let_def split: prod.split) (metis dr_status_view snd_conv)
    then show ?thesis using c Inl by (simp add: rules_after_def)
  next
    case (Inr cfg)
    obtain h where h: "rule_changed cfg ?run (dc_rules y) = h" by blast
    have up: "up_to_date cfg k (dc_view look y) \<longleftrightarrow> h \<noteq> Returns True"
      using h unfolding run by (auto simp: up_to_date_def rule_changed_def dc_view_def split: option.splits)
    consider "h = Panics" | "h = Returns False" | "h = Returns True" by (cases h) auto
    then show ?thesis
    proof cases
      case 1
      then have "snd (dr_reconcileApply e k r y) = y\<lparr>dc_world := w\<rparr>" using c Inr h by (simp add: dr_reconcileApply_def Let_def)
      then show ?thesis using c Inr up 1 by (simp add: rules_after_def)
    next
      case 2
      then have "dc_view look (snd (dr_reconcileApply e k r y)) = dc_view look y"
        using c Inr h by (simp add: dr_reconcileApply_def Let_def split: prod.split) (metis dr_status_view snd_conv view_world)
      then show ?thesis using c Inr up 2 by (simp add: rules_after_def)
    next
      case 3
      have n: "look (dc_store (drop_rule e k ?run (y\<lparr>dc_world := w\<rparr>))) k = None"
        using drop dropped_none [of k "dc_view look y"] by (metis dc_view_def fst_conv)
      have "snd (dr_reconcileApply e k r y) = snd (start_rule e k r cfg (drop_rule e k ?run (y\<lparr>dc_world := w\<rparr>)))"
        using c Inr h 3 by (simp add: dr_reconcileApply_def Let_def split: prod.split)
      then have "dc_view look (snd (dr_reconcileApply e k r y)) = started k cfg (dropped k (dc_view look y))"
        using start_rule_view [OF assms n] drop by simp
      then show ?thesis using c Inr up 3 by (simp add: rules_after_def)
    qed
  qed
qed

lemma reconcile_exact:
  assumes "mstore_laws (dce_store e) look"
  shows "dc_view look (snd (dr_Reconcile e k y)) = rules_after (rule_input e k (dc_world y)) k (dc_view look y)"
proof -
  obtain g w where g: "dcv_Get (dce_sv e) k (dc_world y) = (g, w)" by (rule prod.exhaust)
  show ?thesis
  proof (cases g)
    case (Inl err)
    then show ?thesis using g by (simp add: dr_Reconcile_def rule_input_def rules_after_def)
  next
    case (Inr r)
    let ?y = "y\<lparr>dc_world := w\<rparr>"
    show ?thesis
    proof (cases "m_deletionTimestamp (dl_meta r) = None")
      case False
      then have "snd (dr_Reconcile e k y) = snd (dr_reconcileDelete e k r ?y)"
        using g Inr by (simp add: dr_Reconcile_def Let_def split: prod.split)
      then show ?thesis using reconcileDelete_view [OF assms, of k r ?y] g Inr False by (simp add: rule_input_def rules_after_def)
    next
      case del: True
      show ?thesis
      proof (cases "Validate (dce_newPrefix e) r")
        case (Some err)
        have "dc_view look (snd (dr_Reconcile e k y)) = dc_view look y"
          using g Inr del Some by (simp add: dr_Reconcile_def Let_def split: prod.split) (metis dr_status_view snd_conv view_world)
        then show ?thesis using g Inr del Some by (simp add: rule_input_def rules_after_def)
      next
        case None
        obtain fr w1 where f: "AddFinalizer dr_finalizer (dcv_ApplyFinalizers (dce_sv e)) (dl_meta r) w = (fr, w1)" by (rule prod.exhaust)
        show ?thesis
        proof (cases fr)
          case (Some err)
          have "dc_view look (snd (dr_Reconcile e k y)) = dc_view look y"
            using g Inr del None f Some by (simp add: dr_Reconcile_def Let_def split: prod.split) (metis dr_status_view snd_conv view_world)
          then show ?thesis using g Inr del None f Some by (simp add: rule_input_def rules_after_def)
        next
          case n: None
          have "snd (dr_Reconcile e k y) = snd (dr_reconcileApply e k r (y\<lparr>dc_world := w1\<rparr>))"
            using g Inr del None f n by (simp add: dr_Reconcile_def Let_def)
          moreover have "rule_input e k (dc_world y) = (case fst (getDRConfig (dce_sv e) r w1) of Inl err \<Rightarrow> RuleEnds | Inr cfg \<Rightarrow> Configured cfg)"
            using g Inr del None f n by (simp add: rule_input_def split: prod.split sum.split)
          ultimately show ?thesis using apply_view [OF assms, of k r "y\<lparr>dc_world := w1\<rparr>"] by simp
        qed
      qed
    qed
  qed
qed

lemma reconcile_view:
  assumes "mstore_laws (dce_store e) look"
  shows "dc_view look (snd (dr_Reconcile e k y)) \<in> {dc_view look y, dropped k (dc_view look y)}
    \<union> range (\<lambda>cfg. started k cfg (dropped k (dc_view look y)))"
  unfolding reconcile_exact [OF assms] rules_after_def by (auto split: rule_input.split)

section \<open>One rule per resource\<close>

abbreviation live :: "'q rule_run \<Rightarrow> bool" where "live r \<equiv> rr_status r \<in> {RPending, RRunning}"

definition rules_inv :: "(nsn \<rightharpoonup> nat) \<times> 'q rule_run list \<Rightarrow> bool" where
  "rules_inv v \<longleftrightarrow>
     (\<forall>k i. fst v k = Some i \<longrightarrow> i < length (snd v) \<and> live (snd v ! i))
   \<and> (\<forall>k k' i. fst v k = Some i \<longrightarrow> fst v k' = Some i \<longrightarrow> k = k')
   \<and> (\<forall>i < length (snd v). live (snd v ! i) \<longrightarrow> (\<exists>k. fst v k = Some i))"

definition settled :: "'q rule_run list \<Rightarrow> bool" where
  \<comment> \<open>every goroutine that was started has come as far as its cancel function\<close>
  "settled rs \<longleftrightarrow> (\<forall>r \<in> set rs. rr_status r \<noteq> RPending)"

fun orderly :: "('q, 's, 'w) dc_env \<Rightarrow> dc_op list \<Rightarrow> ('q, 's, 'w) dc_sys \<Rightarrow> bool" where
  \<comment> \<open>a reconcile comes when the rules have settled\<close>
  "orderly e [] y = True"
| "orderly e (oper # ops) y = ((case oper of DcReconcile k \<Rightarrow> settled (dc_rules y) | DcBegin i \<Rightarrow> True) \<and> orderly e ops (dc_step e oper y))"

lemma rule_Stop_nth: "rule_Stop i rs ! j = (if j = i \<and> i < length rs \<and> rr_status (rs ! i) = RRunning then (rs ! i)\<lparr>rr_status := RCancelled\<rparr> else rs ! j)"
  by (cases "i < length rs") (auto simp: rule_Stop_def nth_list_update list_update_beyond)

lemma rule_Stop_length [simp]: "length (rule_Stop i rs) = length rs"
  by (simp add: rule_Stop_def)

lemma rules_inv_dropped:
  assumes "rules_inv v" "settled (snd v)"
  shows "rules_inv (dropped k v)"
proof (cases "fst v k")
  case (Some i)
  obtain L rs where v: "v = (L, rs)" by (rule prod.exhaust)
  have inv: "\<And>k i. L k = Some i \<Longrightarrow> i < length rs \<and> live (rs ! i)" "\<And>k k' i. L k = Some i \<Longrightarrow> L k' = Some i \<Longrightarrow> k = k'"
      "\<And>i. i < length rs \<Longrightarrow> live (rs ! i) \<Longrightarrow> \<exists>k. L k = Some i"
    using assms(1) unfolding rules_inv_def v by auto
  have i: "L k = Some i" using Some v by simp
  then have "rr_status (rs ! i) = RRunning" "i < length rs"
    using inv(1) [OF i] assms(2) by (auto simp: settled_def v)
  then have stop: "\<not> live (rule_Stop i rs ! i)" "\<And>j. j \<noteq> i \<Longrightarrow> rule_Stop i rs ! j = rs ! j" by (simp_all add: rule_Stop_nth)
  have other: "\<And>k' j. k' \<noteq> k \<Longrightarrow> L k' = Some j \<Longrightarrow> j \<noteq> i" using inv(2) i by blast
  have d: "dropped k v = (L(k := None), rule_Stop i rs)" using Some v by (simp add: dropped_def)
  show ?thesis unfolding rules_inv_def d fst_conv snd_conv
  proof (intro conjI allI impI)
    fix k' j assume k': "(L(k := None)) k' = Some j"
    then have L: "k' \<noteq> k" "L k' = Some j" by (auto split: if_splits)
    show "j < length (rule_Stop i rs)" using inv(1) [OF L(2)] by simp
    show "live (rule_Stop i rs ! j)" using inv(1) [OF L(2)] stop(2) [OF other [OF L]] by simp
    fix k'' assume "(L(k := None)) k'' = Some j"
    then show "k' = k''" using inv(2) L(2) by (auto split: if_splits)
  next
    fix j assume j: "j < length (rule_Stop i rs)" "live (rule_Stop i rs ! j)"
    then have "j \<noteq> i" using stop(1) by metis
    have "\<exists>k'. L k' = Some j" using j stop(2) [OF \<open>j \<noteq> i\<close>] by (intro inv(3)) simp_all
    then obtain k' where "L k' = Some j" by blast
    then show "\<exists>k'. (L(k := None)) k' = Some j" using i \<open>j \<noteq> i\<close> by (intro exI [of _ k']) auto
  qed
qed (use assms(1) in \<open>simp add: dropped_def\<close>)

lemma rules_inv_started:
  assumes "rules_inv v" "fst v k = None"
  shows "rules_inv (started k cfg v)"
proof -
  obtain L rs where v: "v = (L, rs)" by (rule prod.exhaust)
  have inv: "\<And>k i. L k = Some i \<Longrightarrow> i < length rs \<and> live (rs ! i)" "\<And>k k' i. L k = Some i \<Longrightarrow> L k' = Some i \<Longrightarrow> k = k'"
      "\<And>i. i < length rs \<Longrightarrow> live (rs ! i) \<Longrightarrow> \<exists>k. L k = Some i"
    using assms(1) unfolding rules_inv_def v by auto
  let ?r = "\<lparr>rr_cfg = cfg, rr_status = RPending\<rparr>"
  have d: "started k cfg v = (L(k \<mapsto> length rs), rs @ [?r])" by (simp add: started_def v)
  show ?thesis unfolding rules_inv_def d fst_conv snd_conv
  proof (intro conjI allI impI)
    fix k' j assume k': "(L(k \<mapsto> length rs)) k' = Some j"
    show "j < length (rs @ [?r])" "live ((rs @ [?r]) ! j)"
      using k' inv(1) [of k' j] by (auto simp: nth_append split: if_splits)
    fix k'' assume "(L(k \<mapsto> length rs)) k'' = Some j"
    then show "k' = k''" using k' inv(2) [of k' j k''] inv(1) [of k' j] inv(1) [of k'' j] by (auto split: if_splits)
  next
    fix j assume j: "j < length (rs @ [?r])" "live ((rs @ [?r]) ! j)"
    show "\<exists>k'. (L(k \<mapsto> length rs)) k' = Some j"
    proof (cases "j = length rs")
      case False
      have "\<exists>k'. L k' = Some j" using j False by (intro inv(3)) (simp_all add: nth_append)
      then obtain k' where "L k' = Some j" by blast
      then show ?thesis using assms(2) v by (intro exI [of _ k']) auto
    qed (intro exI [of _ k], simp)
  qed
qed

lemma begin_view: "dc_view look (rule_begin i y) = (look (dc_store y), dc_rules (rule_begin i y))"
  by (simp add: dc_view_def rule_begin_def)

lemma begin_nth: "dc_rules (rule_begin i y) ! j
    = (if j = i \<and> i < length (dc_rules y) \<and> rr_status (dc_rules y ! i) = RPending then (dc_rules y ! i)\<lparr>rr_status := RRunning\<rparr> else dc_rules y ! j)"
  by (auto simp: rule_begin_def nth_list_update)

lemma begin_store [simp]: "dc_store (rule_begin i y) = dc_store y"
  by (simp add: rule_begin_def)

lemma begin_length [simp]: "length (dc_rules (rule_begin i y)) = length (dc_rules y)"
  by (simp add: rule_begin_def)

lemma rules_inv_begin:
  assumes "rules_inv (dc_view look y)"
  shows "rules_inv (dc_view look (rule_begin i y))"
proof -
  have "live (dc_rules (rule_begin i y) ! j) \<longleftrightarrow> live (dc_rules y ! j)" for j by (auto simp: begin_nth)
  then show ?thesis using assms unfolding rules_inv_def begin_view by (simp add: dc_view_def)
qed

lemma rules_inv_reconcile:
  assumes "mstore_laws (dce_store e) look" "settled (dc_rules y)" "rules_inv (dc_view look y)"
  shows "rules_inv (dc_view look (snd (dr_Reconcile e k y)))"
proof -
  have "rules_inv (dropped k (dc_view look y))" using assms(2,3) by (intro rules_inv_dropped) (simp_all add: dc_view_def)
  moreover from this have "rules_inv (started k cfg (dropped k (dc_view look y)))" for cfg
    by (rule rules_inv_started) (rule dropped_none)
  ultimately show ?thesis using reconcile_view [OF assms(1), of k y] assms(3) by auto
qed

lemma rules_inv_run:
  assumes "mstore_laws (dce_store e) look" "orderly e ops y" "rules_inv (dc_view look y)"
  shows "rules_inv (dc_view look (run_ops (dc_step e) ops y))"
  using assms(2,3)
proof (induction ops arbitrary: y)
  case (Cons oper ops)
  have "rules_inv (dc_view look (dc_step e oper y))"
    using Cons.prems rules_inv_reconcile [OF assms(1)] rules_inv_begin by (cases oper) auto
  then show ?case using Cons by (simp add: run_ops_def)
qed (simp add: run_ops_def)

lemma orderly_append:
  assumes "orderly e (ops @ ops') y"
  shows "orderly e ops y" "orderly e ops' (run_ops (dc_step e) ops y)"
  using assms
proof (induction ops arbitrary: y)
  case (Cons oper ops)
  { case 1 with Cons show ?case by (cases oper) auto }
  { case 2 with Cons show ?case by (cases oper) (auto simp: run_ops_def) }
qed (simp_all add: run_ops_def)

definition dc_start :: "('q, 's, 'w) dc_env \<Rightarrow> 'w \<Rightarrow> ('q, 's, 'w) dc_sys" where
  "dc_start e w = \<lparr>dc_store = ms_new (dce_store e), dc_rules = [], dc_world = w\<rparr>"

text \<open>
  C39: One rule runs per DiscoveryRule, with its configuration. Let the goroutine of a started rule have taken up
  its work by the time of the next reconcile. Then after any sequence of reconciles the rules that run are those of the
  store, each under one key. The last of them touches no other key. If it reads a configuration, the rule that runs
  afterwards is the one that ran before when that one's configuration does not count as changed, and is otherwise a new
  one of this configuration, the old one being stopped; if the resource is being deleted, or a reference of it
  cannot be resolved, no rule runs for it any more; and if the resource cannot be read (also when it is gone), is not valid
  or cannot be given its finalizer, the rule of the configuration before runs on.
\<close>
theorem one_rule_per_resource:
  assumes "mstore_laws (dce_store e) look" "orderly e (ops @ [DcReconcile k]) (dc_start e w)" "y = run_ops (dc_step e) ops (dc_start e w)"
    "y' = dc_step e (DcReconcile k) y"
  shows "(\<forall>i < length (dc_rules y'). live (dc_rules y' ! i) \<longrightarrow> (\<exists>!k. look (dc_store y') k = Some i))
    \<and> (\<forall>k i. look (dc_store y') k = Some i \<longrightarrow> i < length (dc_rules y') \<and> live (dc_rules y' ! i))
    \<and> (\<forall>k'. k' \<noteq> k \<longrightarrow> look (dc_store y') k' = look (dc_store y) k')
    \<and> (case rule_input e k (dc_world y) of
         Unusable \<Rightarrow> look (dc_store y') k = look (dc_store y) k \<and> dc_rules y' = dc_rules y
       | RuleEnds \<Rightarrow> look (dc_store y') k = None
       | Configured cfg \<Rightarrow>
           if \<exists>i. look (dc_store y) k = Some i \<and> HasChanged cfg (rr_cfg (dc_rules y ! i)) \<noteq> Returns True
           then look (dc_store y') k = look (dc_store y) k \<and> dc_rules y' = dc_rules y
           else \<exists>j. look (dc_store y') k = Some j \<and> rr_cfg (dc_rules y' ! j) = cfg \<and> (\<forall>k. look (dc_store y) k \<noteq> Some j))"
proof -
  let ?v = "dc_view look y"
  have start: "rules_inv (dc_view look (dc_start e w))"
    using mstore_lawsD(1) [OF assms(1)] by (simp add: rules_inv_def dc_view_def dc_start_def)
  have ord: "orderly e ops (dc_start e w)" by (rule orderly_append(1) [OF assms(2)])
  have before: "rules_inv ?v" unfolding assms(3) by (rule rules_inv_run [OF assms(1) ord start])
  have "y' = run_ops (dc_step e) (ops @ [DcReconcile k]) (dc_start e w)" by (simp add: assms(3,4) run_ops_def)
  then have inv: "rules_inv (dc_view look y')" using rules_inv_run [OF assms(1,2) start] by simp
  have v: "dc_view look y' = rules_after (rule_input e k (dc_world y)) k ?v" unfolding assms(4) using reconcile_exact [OF assms(1)] by simp
  have other: "fst (dropped k ?v) k' = fst ?v k'" if "k' \<noteq> k" for k' using that by (simp add: dropped_def split: option.split)
  have "fst (rules_after inp k ?v) k' = fst ?v k'" if "k' \<noteq> k" for inp k'
    using other [OF that] that by (simp add: rules_after_def started_def split: rule_input.split)
  then have "\<forall>k'. k' \<noteq> k \<longrightarrow> look (dc_store y') k' = look (dc_store y) k'"
    using v by (metis dc_view_def fst_conv)
  moreover have "case rule_input e k (dc_world y) of
         Unusable \<Rightarrow> look (dc_store y') k = look (dc_store y) k \<and> dc_rules y' = dc_rules y
       | RuleEnds \<Rightarrow> look (dc_store y') k = None
       | Configured cfg \<Rightarrow>
           if \<exists>i. look (dc_store y) k = Some i \<and> HasChanged cfg (rr_cfg (dc_rules y ! i)) \<noteq> Returns True
           then look (dc_store y') k = look (dc_store y) k \<and> dc_rules y' = dc_rules y
           else \<exists>j. look (dc_store y') k = Some j \<and> rr_cfg (dc_rules y' ! j) = cfg \<and> (\<forall>k. look (dc_store y) k \<noteq> Some j)"
  proof (cases "rule_input e k (dc_world y)")
    case Unusable
    then show ?thesis using v by (simp add: rules_after_def dc_view_def)
  next
    case RuleEnds
    then have "fst (dc_view look y') k = None" using v dropped_none [of k ?v] by (simp add: rules_after_def)
    then show ?thesis using RuleEnds by (simp add: dc_view_def)
  next
    case (Configured cfg)
    show ?thesis
    proof (cases "up_to_date cfg k ?v")
      case True
      then show ?thesis using v Configured by (simp add: rules_after_def up_to_date_def dc_view_def)
    next
      case False
      have len: "length (snd (dropped k ?v)) = length (dc_rules y)" by (simp add: dropped_def dc_view_def split: option.split)
      have "dc_view look y' = started k cfg (dropped k ?v)" using v Configured False by (simp add: rules_after_def)
      then have "look (dc_store y') k = Some (length (dc_rules y))" "rr_cfg (dc_rules y' ! length (dc_rules y)) = cfg"
        using len by (simp_all add: started_def dc_view_def nth_append)
      moreover have "look (dc_store y) k' \<noteq> Some (length (dc_rules y))" for k'
        using before by (auto simp: rules_inv_def dc_view_def)
      ultimately show ?thesis using Configured False by (auto simp: up_to_date_def dc_view_def)
    qed
  qed
  ultimately show ?thesis using inv unfolding rules_inv_def dc_view_def fst_conv snd_conv by blast
qed

section \<open>A rule stopped too early\<close>

definition orphan :: "nat \<Rightarrow> (nsn \<rightharpoonup> nat) \<times> 'q rule_run list \<Rightarrow> bool" where
  "orphan i v \<longleftrightarrow> i < length (snd v) \<and> rr_status (snd v ! i) = RRunning \<and> (\<forall>k. fst v k \<noteq> Some i)"

lemma orphan_dropped: "orphan i v \<Longrightarrow> orphan i (dropped k v)"
  by (auto simp: orphan_def dropped_def rule_Stop_nth split: option.split)

lemma orphan_started: "orphan i v \<Longrightarrow> orphan i (started k cfg v)"
  by (auto simp: orphan_def started_def nth_append)

lemma orphan_step:
  assumes "mstore_laws (dce_store e) look" "orphan i (dc_view look y)"
  shows "orphan i (dc_view look (dc_step e oper y))"
proof (cases oper)
  case (DcReconcile k)
  then show ?thesis using reconcile_view [OF assms(1), of k y] assms(2) orphan_dropped [OF assms(2), of k] orphan_started [OF orphan_dropped [OF assms(2), of k], of k]
    by auto
next
  case (DcBegin j)
  then show ?thesis using assms(2) by (cases "i = j") (simp_all add: orphan_def begin_view begin_nth dc_view_def)
qed

lemma orphan_run: "mstore_laws (dce_store e) look \<Longrightarrow> orphan i (dc_view look y) \<Longrightarrow> orphan i (dc_view look (run_ops (dc_step e) ops y))"
  by (induction ops arbitrary: y) (simp_all add: run_ops_def orphan_step)

text \<open>
  A rule that is stopped before its goroutine has started runs for ever: when a reconcile replaces or removes a rule
  whose \<open>Run\<close> has not yet made its cancel function, \<open>Stop\<close> does nothing; once the goroutine runs, no
  reconcile of any resource stops it again.
\<close>
theorem early_stop_leaks_rule:
  assumes "mstore_laws (dce_store e) look" "rules_inv (dc_view look y)" "look (dc_store y) k = Some i" "rr_status (dc_rules y ! i) = RPending"
    "look (dc_store (dc_step e (DcReconcile k) y)) k \<noteq> Some i"
    "z = run_ops (dc_step e) (DcReconcile k # DcBegin i # ops) y"
  shows "rr_status (dc_rules z ! i) = RRunning \<and> (\<forall>k. look (dc_store z) k \<noteq> Some i)"
proof -
  let ?v = "dc_view look y" and ?y = "dc_step e (DcReconcile k) y"
  have i: "i < length (dc_rules y)" "\<And>k'. look (dc_store y) k' = Some i \<Longrightarrow> k' = k"
    using assms(2,3) unfolding rules_inv_def dc_view_def by auto
  have v: "dc_view look ?y \<in> {?v, dropped k ?v} \<union> range (\<lambda>cfg. started k cfg (dropped k ?v))"
    using reconcile_view [OF assms(1), of k y] by simp
  have d: "dropped k ?v = ((look (dc_store y))(k := None), dc_rules y)"
    using assms(3,4) by (simp add: dropped_def dc_view_def rule_Stop_def)
  have "dc_view look ?y \<noteq> ?v" using assms(3,5) by (auto simp: dc_view_def)
  then consider "look (dc_store ?y) = (look (dc_store y))(k := None)" "dc_rules ?y = dc_rules y"
    | cfg where "look (dc_store ?y) = (look (dc_store y))(k \<mapsto> length (dc_rules y))" "dc_rules ?y = dc_rules y @ [\<lparr>rr_cfg = cfg, rr_status = RPending\<rparr>]"
    using v unfolding d started_def by (auto simp: dc_view_def)
  then have "i < length (dc_rules ?y) \<and> dc_rules ?y ! i = dc_rules y ! i \<and> (\<forall>k'. look (dc_store ?y) k' \<noteq> Some i)"
  proof cases
    case 1
    have "((look (dc_store y))(k := None)) k' \<noteq> Some i" for k' using i(2) [of k'] by (cases "k' = k") auto
    then show ?thesis using i(1) unfolding 1 by blast
  next
    case 2
    have "((look (dc_store y))(k \<mapsto> length (dc_rules y))) k' \<noteq> Some i" for k' using i(1) i(2) [of k'] by (cases "k' = k") auto
    then show ?thesis using i(1) unfolding 2 by (simp add: nth_append)
  qed
  then have "orphan i (dc_view look (rule_begin i ?y))" using assms(4) by (simp add: orphan_def begin_view begin_nth)
  from orphan_run [OF assms(1) this, of ops] show ?thesis by (simp add: assms(6) run_ops_def orphan_def dc_view_def)
qed

definition dc_sample_rule :: "bool \<Rightarrow> unit drule" where
  "dc_sample_rule deleting = \<lparr>dl_apiVersion = ''inv.sdcio.dev/v1alpha1'', dl_kind = ''DiscoveryRule'',
     dl_meta = empty_meta\<lparr>m_name := ''r'', m_namespace := ''ns'', m_finalizers := [dr_finalizer],
       m_deletionTimestamp := (if deleting then Some 1 else None)\<rparr>,
     dl_Prefixes = [], dl_Addresses = [\<lparr>ad_Address = ''10.0.0.1'', ad_HostName = ''leaf1''\<rparr>], dl_PodSelector = None, dl_SvcSelector = None,
     dl_ServiceDomain = [], dl_params = \<lparr>pm_DefaultSchema = Some \<lparr>kp_Provider = ''nokia'', kp_Version = ''1''\<rparr>, pm_DiscoveryProfile = None,
     pm_TargetConnectionProfiles = [], pm_TargetTemplate = None, pm_Period = 0, pm_ConcurrentScans = 1\<rparr>, dl_conditions = []\<rparr>"

definition dc_sample_env :: "(unit, (nsn \<times> nat) list, bool) dc_env" where
  \<comment> \<open>the world: whether the rule is being deleted, from its first status on\<close>
  "dc_sample_env = \<lparr>dce_sv = \<lparr>dcv_Get = (\<lambda>k d. (Inr (dc_sample_rule d), d)), dcv_GetSecret = (\<lambda>k d. (Inl (err_new ''no''), d)),
       dcv_GetConnProfile = (\<lambda>k d. (Inl (err_new ''no''), d)), dcv_GetSyncProfile = (\<lambda>k d. (Inl (err_new ''no''), d)),
       dcv_ApplyStatus = (\<lambda>k c t d. (None, True)), dcv_ApplyFinalizers = (\<lambda>n ns fs d. (None, d)), dcv_Event = (\<lambda>t m d. d)\<rparr>,
     dce_store = alist_mstore, dce_newPrefix = (\<lambda>s. Inl (err_new ''no'')), dce_now = 0\<rparr>"

lemma dc_sample_laws: "mstore_laws (dce_store dc_sample_env) map_of"
  by (simp add: dc_sample_env_def alist_mstore_laws)

definition dc_sample_first :: "(unit, (nsn \<times> nat) list, bool) dc_sys" where
  "dc_sample_first = run_ops (dc_step dc_sample_env) [DcReconcile (''ns'', ''r'')] (dc_start dc_sample_env False)"

definition dc_sample_calm :: "(unit, (nsn \<times> nat) list, bool) dc_sys" where
  "dc_sample_calm = run_ops (dc_step dc_sample_env) [DcReconcile (''ns'', ''r''), DcBegin 0] (dc_start dc_sample_env False)"

lemma one_rule_per_resource_witness:
  "rule_input dc_sample_env (''ns'', ''r'') (dc_world dc_sample_calm) = RuleEnds
   \<and> map_of (dc_store dc_sample_calm) (''ns'', ''r'') = Some 0
   \<and> map_of (dc_store (dc_step dc_sample_env (DcReconcile (''ns'', ''r'')) dc_sample_calm)) (''ns'', ''r'') = None"
proof -
  have o: "orderly dc_sample_env ([DcReconcile (''ns'', ''r''), DcBegin 0] @ [DcReconcile (''ns'', ''r'')]) (dc_start dc_sample_env False)"
    by code_simp
  have i: "rule_input dc_sample_env (''ns'', ''r'') (dc_world dc_sample_calm) = RuleEnds" by code_simp
  have "map_of (dc_store dc_sample_calm) (''ns'', ''r'') = Some 0" by code_simp
  then show ?thesis
    using one_rule_per_resource [OF dc_sample_laws o dc_sample_calm_def refl, THEN conjunct2, THEN conjunct2, THEN conjunct2] i by simp
qed

lemma dc_sample_first:
  "map_of (dc_store dc_sample_first) (''ns'', ''r'') = Some 0" "rr_status (dc_rules dc_sample_first ! 0) = RPending"
  "map_of (dc_store (dc_step dc_sample_env (DcReconcile (''ns'', ''r'')) dc_sample_first)) (''ns'', ''r'') \<noteq> Some 0"
  by code_simp+

lemma early_stop_leaks_rule_witness:
  "rr_status (dc_rules (run_ops (dc_step dc_sample_env) [DcReconcile (''ns'', ''r''), DcBegin 0] dc_sample_first) ! 0) = RRunning
    \<and> (\<forall>k. map_of (dc_store (run_ops (dc_step dc_sample_env) [DcReconcile (''ns'', ''r''), DcBegin 0] dc_sample_first)) k \<noteq> Some 0)"
proof (rule early_stop_leaks_rule [OF dc_sample_laws _ dc_sample_first refl])
  have "rules_inv (dc_view map_of (dc_start dc_sample_env False))"
    using mstore_lawsD(1) [OF dc_sample_laws] by (simp add: rules_inv_def dc_view_def dc_start_def)
  moreover have "orderly dc_sample_env [DcReconcile (''ns'', ''r'')] (dc_start dc_sample_env False)" by code_simp
  ultimately show "rules_inv (dc_view map_of dc_sample_first)" unfolding dc_sample_first_def by (intro rules_inv_run [OF dc_sample_laws])
qed

end
