(* ===== verification/Paths.thy ===== *)
theory Paths
  imports Prelude
begin

text \<open>
  The lexical path operations of Go's \<open>path\<close> and \<open>path/filepath\<close> (Unix) that the loaders use, on the
  elements of a path, and the guard \<open>ErrNotIsSubfolder\<close> of \<open>pkg/utils/file.go\<close> built on them.
\<close>

section \<open>Clean, Join, Rel\<close>

definition dotdot :: string where "dotdot = ''..''"

definition is_rooted :: "string \<Rightarrow> bool" where
  "is_rooted p = (case p of c # _ \<Rightarrow> c = CHR 0x2F | [] \<Rightarrow> False)"

definition clean_step :: "bool \<Rightarrow> string \<Rightarrow> string list \<Rightarrow> string list" where
  \<comment> \<open>one element of the path; the elements kept so far are in reverse\<close>
  "clean_step rooted seg out =
     (if seg = [] \<or> seg = ''.'' then out
      else if seg = dotdot
      then (case out of [] \<Rightarrow> (if rooted then [] else [dotdot])
        | x # xs \<Rightarrow> (if x = dotdot then dotdot # out else xs))
      else seg # out)"

definition clean_segs :: "string \<Rightarrow> string list" where
  "clean_segs p = rev (fold (clean_step (is_rooted p)) (split_on CHR 0x2F p) [])"

definition path_Clean :: "string \<Rightarrow> string" where
  "path_Clean p =
     (if is_rooted p then ''/'' @ join_sep ''/'' (clean_segs p)
      else if clean_segs p = [] then ''.'' else join_sep ''/'' (clean_segs p))"

definition path_Join :: "string list \<Rightarrow> string" where
  "path_Join es =
     (case filter (\<lambda>e. e \<noteq> []) es of [] \<Rightarrow> [] | es' \<Rightarrow> path_Clean (join_sep ''/'' es'))"

fun rel_segs :: "string list \<Rightarrow> string list \<Rightarrow> string list option" where
  \<comment> \<open>from the first differing elements; no result when the base would have to be left through \<open>..\<close>\<close>
  "rel_segs [] ts = Some ts"
| "rel_segs (b # bs) [] = Some (replicate (length (b # bs)) dotdot)"
| "rel_segs (b # bs) (t # ts) =
     (if b = t then rel_segs bs ts
      else if b = dotdot then None else Some (replicate (length (b # bs)) dotdot @ t # ts))"

definition rel_targ :: "string \<Rightarrow> string list" where
  \<comment> \<open>the elements of the cleaned target, whose \<open>.\<close> is an element\<close>
  "rel_targ p = (if \<not> is_rooted p \<and> clean_segs p = [] then [''.''] else clean_segs p)"

definition filepath_Rel :: "string \<Rightarrow> string \<Rightarrow> string + string" where
  "filepath_Rel base targ =
     (if path_Clean targ = path_Clean base then Inr ''.''
      else if is_rooted base \<noteq> is_rooted targ then Inl (''Rel: can't make '' @ targ @ '' relative to '' @ base)
      else case rel_segs (clean_segs base) (rel_targ targ) of
          None \<Rightarrow> Inl (''Rel: can't make '' @ targ @ '' relative to '' @ base)
        | Some r \<Rightarrow> Inr (join_sep ''/'' r))"

section \<open>The guard\<close>

definition ErrNotIsSubfolder :: "string \<Rightarrow> string \<Rightarrow> goerr option" where
  "ErrNotIsSubfolder base specific =
     (case filepath_Rel base specific of
        Inl err \<Rightarrow> Some (err_new (''cannot create relative path from base '' @ base @ '' and specific '' @ specific
          @ '', err: '' @ err))
      | Inr rel \<Rightarrow>
          (if has_prefix rel ''../''
           then Some (err_new (''folder '' @ go_quote specific @ '' is not located within the defined base folder '' @ go_quote base))
           else None))"

section \<open>Cleaned paths\<close>

definition plain_seg :: "string \<Rightarrow> bool" where
  "plain_seg s \<longleftrightarrow> s \<noteq> [] \<and> s \<noteq> ''.'' \<and> s \<noteq> dotdot \<and> CHR 0x2F \<notin> set s"

lemma split_on_no: "s \<in> set (split_on c p) \<Longrightarrow> c \<notin> set s"
proof (induction p arbitrary: s)
  case (Cons x p)
  show ?case
  proof (cases "x = c")
    case False
    then show ?thesis using Cons by (cases "split_on c p") (auto split: if_splits)
  qed (use Cons in auto)
qed simp

lemma clean_step_plain:
  "CHR 0x2F \<notin> set seg \<Longrightarrow> \<forall>s \<in> set out. plain_seg s \<Longrightarrow> \<forall>s \<in> set (clean_step True seg out). plain_seg s"
  by (cases out) (simp_all add: clean_step_def plain_seg_def)

lemma clean_fold_plain:
  "\<forall>s \<in> set segs. CHR 0x2F \<notin> set s \<Longrightarrow> \<forall>s \<in> set out. plain_seg s
     \<Longrightarrow> \<forall>s \<in> set (fold (clean_step True) segs out). plain_seg s"
proof (induction segs arbitrary: out)
  case (Cons seg segs)
  then have "\<forall>s \<in> set (clean_step True seg out). plain_seg s" by (intro clean_step_plain) auto
  then show ?case using Cons by simp
qed simp

lemma clean_segs_plain: "is_rooted p \<Longrightarrow> s \<in> set (clean_segs p) \<Longrightarrow> plain_seg s"
  using clean_fold_plain [of "split_on CHR 0x2F p" "[]"] split_on_no [of _ "CHR 0x2F" p]
  by (auto simp: clean_segs_def)

lemma join_sep_inj:
  "\<forall>s \<in> set xs \<union> set ys. s \<noteq> [] \<and> c \<notin> set s \<Longrightarrow> join_sep [c] xs = join_sep [c] ys \<Longrightarrow> xs = ys"
proof -
  have ne: "join_sep [c] (x # xs) \<noteq> []" if "x \<noteq> []" for x xs using that by (cases xs) auto
  have split: "split_on c (join_sep [c] zs) = zs" if "zs \<noteq> []" "\<forall>s \<in> set zs. c \<notin> set s" for zs
    using that by (induction "[c]" zs rule: join_sep.induct) (auto simp: split_on_no_sep split_on_append)
  assume s: "\<forall>s \<in> set xs \<union> set ys. s \<noteq> [] \<and> c \<notin> set s" and eq: "join_sep [c] xs = join_sep [c] ys"
  show "xs = ys"
  proof (cases "xs = [] \<or> ys = []")
    case True
    with s eq ne show ?thesis by (cases xs; cases ys) (auto simp: eq_commute)
  next
    case False
    then have "split_on c (join_sep [c] xs) = xs" "split_on c (join_sep [c] ys) = ys"
      using s by (auto intro!: split)
    then show ?thesis using eq by metis
  qed
qed

lemma path_Clean_eq: "is_rooted p \<Longrightarrow> is_rooted q \<Longrightarrow> path_Clean p = path_Clean q \<longleftrightarrow> clean_segs p = clean_segs q"
  using join_sep_inj [of "clean_segs p" "clean_segs q" "CHR 0x2F"] clean_segs_plain [of p] clean_segs_plain [of q]
  by (auto simp: path_Clean_def plain_seg_def)

lemma up_prefix: "has_prefix (join_sep ''/'' (dotdot # x # xs)) ''../''"
  by (simp add: dotdot_def)

lemma plain_no_up:
  "\<forall>s \<in> set r. plain_seg s \<Longrightarrow> \<not> has_prefix (join_sep ''/'' r) ''../''"
proof (cases r)
  case (Cons x xs)
  assume "\<forall>s \<in> set r. plain_seg s"
  then have x: "plain_seg x" using Cons by simp
  show ?thesis
  proof
    assume p: "has_prefix (join_sep ''/'' r) ''../''"
    obtain t where t: "join_sep ''/'' r = x @ t" "t = [] \<or> hd t = CHR 0x2F"
      using Cons by (cases xs) auto
    obtain y where y: "x @ t = ''../'' @ y" using p t(1) by (metis has_prefix_iff)
    show False using x y t(2)
      by (auto simp: plain_seg_def dotdot_def append_eq_append_conv2 append_eq_Cons_conv Cons_eq_append_conv)
  qed
qed simp

lemma rel_segs_inside: "rel_segs b (b @ r) = Some r"
  by (induction b) auto

lemma rel_segs_cases:
  "rel_segs b t = Some r \<Longrightarrow> \<forall>s \<in> set t. plain_seg s \<Longrightarrow>
     (t = b @ r) \<or> (\<exists>x. b = t @ [x] \<and> r = [dotdot]) \<or> (\<exists>x xs. r = dotdot # x # xs)"
proof (induction b t rule: rel_segs.induct)
  case (2 b bs)
  then show ?case by (cases bs) auto
next
  case (3 b bs t ts)
  show ?case
  proof (cases "b = t")
    case False
    then show ?thesis using 3(2) by (cases bs) (auto split: if_splits)
  qed (use 3 in auto)
qed auto

theorem ErrNotIsSubfolder_exact:
  assumes base: "is_rooted base" and spec: "is_rooted specific"
  shows "ErrNotIsSubfolder base specific = None
     \<longleftrightarrow> (\<exists>r. clean_segs specific = clean_segs base @ r) \<or> (\<exists>x. clean_segs base = clean_segs specific @ [x])"
proof -
  have pl: "\<forall>s \<in> set (clean_segs specific). plain_seg s" "\<forall>s \<in> set (clean_segs base). plain_seg s"
    using clean_segs_plain base spec by blast+
  have tg: "rel_targ specific = clean_segs specific" using spec by (simp add: rel_targ_def)
  show ?thesis
  proof (cases "clean_segs specific = clean_segs base")
    case True
    then have "filepath_Rel base specific = Inr ''.''" using path_Clean_eq [OF spec base] by (simp add: filepath_Rel_def)
    then show ?thesis using True by (simp add: ErrNotIsSubfolder_def)
  next
    case False
    then have rel: "filepath_Rel base specific = (case rel_segs (clean_segs base) (clean_segs specific) of
          None \<Rightarrow> Inl (''Rel: can't make '' @ specific @ '' relative to '' @ base)
        | Some r \<Rightarrow> Inr (join_sep ''/'' r))"
      using path_Clean_eq [OF spec base] base spec tg by (simp add: filepath_Rel_def)
    show ?thesis
    proof (cases "rel_segs (clean_segs base) (clean_segs specific)")
      case None
      have "\<not> (\<exists>r. clean_segs specific = clean_segs base @ r)" using None rel_segs_inside by force
      moreover have "\<not> (\<exists>x. clean_segs base = clean_segs specific @ [x])"
      proof
        assume "\<exists>x. clean_segs base = clean_segs specific @ [x]"
        then obtain x where x: "clean_segs base = clean_segs specific @ [x]" by blast
        have "rel_segs (t @ [x]) t = Some [dotdot]" for t by (induction t) auto
        then show False using None x by simp
      qed
      ultimately show ?thesis using rel None by (simp add: ErrNotIsSubfolder_def)
    next
      case (Some r)
      have none: "ErrNotIsSubfolder base specific = None \<longleftrightarrow> \<not> has_prefix (join_sep ''/'' r) ''../''"
        using rel Some by (simp add: ErrNotIsSubfolder_def)
      from rel_segs_cases [OF Some pl(1)] show ?thesis
      proof (elim disjE exE conjE)
        assume "clean_segs specific = clean_segs base @ r"
        then show ?thesis using none plain_no_up [of r] pl(1) by auto
      next
        fix x assume "clean_segs base = clean_segs specific @ [x]" "r = [dotdot]"
        then show ?thesis using none by (simp add: dotdot_def)
      next
        fix x xs assume r: "r = dotdot # x # xs"
        have "\<not> (\<exists>r. clean_segs specific = clean_segs base @ r)"
        proof
          assume "\<exists>r. clean_segs specific = clean_segs base @ r"
          then have "\<exists>r'. clean_segs specific = clean_segs base @ r' \<and> r = r'" using Some rel_segs_inside by force
          then show False using r pl(1) by (auto simp: plain_seg_def)
        qed
        moreover have "\<not> (\<exists>x. clean_segs base = clean_segs specific @ [x])"
        proof
          assume "\<exists>x. clean_segs base = clean_segs specific @ [x]"
          then obtain y where y: "clean_segs base = clean_segs specific @ [y]" by blast
          have "rel_segs (t @ [y]) t = Some [dotdot]" for t by (induction t) auto
          then show False using Some y r by simp
        qed
        ultimately show ?thesis using none r up_prefix by simp
      qed
    qed
  qed
qed

section \<open>Joined paths\<close>

lemma split_on_join_append: "split_on c (a @ c # b) = split_on c a @ split_on c b"
  by (induction a) (auto split: list.splits)

lemma split_on_join: "xs \<noteq> [] \<Longrightarrow> split_on c (join_sep [c] xs) = concat (map (split_on c) xs)"
  by (induction "[c]" xs rule: join_sep.induct) (auto simp: split_on_join_append)

lemma clean_step_skip [simp]: "clean_step r [] out = out"
  by (simp add: clean_step_def)

lemma clean_fold_keep: "\<forall>s \<in> set segs. plain_seg s \<Longrightarrow> fold (clean_step r) segs out = rev segs @ out"
  by (induction segs arbitrary: out) (auto simp: clean_step_def plain_seg_def)

lemma is_rooted_Clean [simp]: "is_rooted p \<Longrightarrow> is_rooted (path_Clean p)"
  by (simp add: path_Clean_def is_rooted_def)

lemma clean_segs_Clean [simp]: "is_rooted p \<Longrightarrow> clean_segs (path_Clean p) = clean_segs p"
proof -
  assume r: "is_rooted p"
  then have pl: "\<forall>s \<in> set (clean_segs p). plain_seg s" using clean_segs_plain by blast
  have "split_on CHR 0x2F (path_Clean p) = [] # (if clean_segs p = [] then [[]] else clean_segs p)"
    using r pl by (auto simp: path_Clean_def split_on_join plain_seg_def split_on_no_sep cong: map_cong)
  then show ?thesis using r pl by (simp add: clean_segs_def [of "path_Clean p"] clean_fold_keep)
qed

lemma clean_segs_Join:
  assumes a: "is_rooted a"
  shows "is_rooted (path_Join (a # es))"
    "clean_segs (path_Join (a # es)) = rev (fold (clean_step True) (concat (map (split_on CHR 0x2F) es)) (rev (clean_segs a)))"
proof -
  have ne: "a \<noteq> []" using a by (auto simp: is_rooted_def)
  have join: "path_Join (a # es) = path_Clean (join_sep ''/'' (a # filter (\<lambda>e. e \<noteq> []) es))" using ne by (simp add: path_Join_def)
  have root: "is_rooted (join_sep ''/'' (a # xs))" for xs using a by (cases xs) (auto simp: is_rooted_def split: list.splits)
  show "is_rooted (path_Join (a # es))" using join root by simp
  have drop: "fold (clean_step True) (concat (map (split_on CHR 0x2F) (filter (\<lambda>e. e \<noteq> []) es))) out
      = fold (clean_step True) (concat (map (split_on CHR 0x2F) es)) out" for out
    by (induction es arbitrary: out) auto
  show "clean_segs (path_Join (a # es)) = rev (fold (clean_step True) (concat (map (split_on CHR 0x2F) es)) (rev (clean_segs a)))"
    using root a by (simp add: join clean_segs_def [of "join_sep _ _"] split_on_join drop) (simp add: clean_segs_def)
qed

lemma clean_segs_Join_plain:
  assumes "is_rooted a" "\<forall>e \<in> set es. plain_seg e"
  shows "clean_segs (path_Join (a # es)) = clean_segs a @ es"
proof -
  have "concat (map (split_on CHR 0x2F) es) = es" using assms(2)
    by (induction es) (auto simp: plain_seg_def split_on_no_sep)
  then show ?thesis using assms by (simp add: clean_segs_Join clean_fold_keep)
qed

lemma path_eqI: "is_rooted p \<Longrightarrow> is_rooted q \<Longrightarrow> clean_segs p = clean_segs q \<Longrightarrow> path_Clean p = path_Clean q"
  by (simp add: path_Clean_eq)

end
