(* ===== verification/Git.thy ===== *)
theory Git
  imports Paths "HOL-Library.Multiset"
begin

text \<open>
  The git client of the loaders (\<open>pkg/git/git.go\<close>, with \<open>pkg/git/repo.go\<close> and the credential resolver of
  \<open>pkg/git/auth\<close>): cloning or updating a local repository, and finding where a commit lives. The go-git
  library, the file system and the API server that holds the secrets are the record \<open>git_lib\<close>. A call can
  end, panic, or (the search through the history) run forever.
\<close>

section \<open>Errors and outcomes\<close>

datatype git_is = AuthenticationRequired | AuthorizationFailed | AlreadyUpToDate

text \<open>\<open>ge_is\<close>: the sentinels \<open>errors.Is\<close> finds.\<close>

record gerr =
  ge_msg :: string
  ge_is :: "git_is list"

definition gerr_new :: "string \<Rightarrow> gerr" where
  "gerr_new s = \<lparr>ge_msg = s, ge_is = []\<rparr>"

definition gerr_wrap :: "string \<Rightarrow> gerr \<Rightarrow> gerr" where
  \<comment> \<open>\<open>fmt.Errorf("...: %w", err)\<close>\<close>
  "gerr_wrap s e = e\<lparr>ge_msg := s @ '': '' @ ge_msg e\<rparr>"

definition UnrecoverableError :: "string \<Rightarrow> gerr option \<Rightarrow> gerr" where
  \<comment> \<open>its text and what \<open>Unwrap\<close> lets \<open>errors.Is\<close> see\<close>
  "UnrecoverableError msg e =
     (case e of None \<Rightarrow> gerr_new msg | Some x \<Rightarrow> \<lparr>ge_msg = msg @ '', err: '' @ ge_msg x, ge_is = ge_is x\<rparr>)"

datatype 'a outcome = Hangs | Crashes | Ends 'a

section \<open>The libraries\<close>

datatype stat = StatNotExist | StatDir | StatFile | StatError

record git_secret =
  gs_type :: string
  gs_data :: "string gomap"

record git_cred =
  gc_username :: string
  gc_password :: string

record git_ref =
  gr_symbolic :: bool
  gr_name :: string
  gr_target :: string
  gr_hash :: string

record 'w git_lib =
  gl_Stat :: "string \<Rightarrow> 'w \<Rightarrow> stat \<times> 'w"
  gl_GetSecret :: "string \<times> string \<Rightarrow> 'w \<Rightarrow> (gerr + git_secret) \<times> 'w"
  gl_PlainOpen :: "string \<Rightarrow> 'w \<Rightarrow> gerr option \<times> 'w"
  gl_PlainClone :: "git_cred option \<Rightarrow> string \<Rightarrow> string \<Rightarrow> 'w \<Rightarrow> gerr option \<times> 'w"
  gl_RemoteURL :: "'w \<Rightarrow> (gerr + string) \<times> 'w"
  gl_ListRemote :: "git_cred option \<Rightarrow> string \<Rightarrow> 'w \<Rightarrow> (gerr + git_ref list) \<times> 'w"
  gl_Fetch :: "git_cred option \<Rightarrow> nat \<Rightarrow> string \<Rightarrow> 'w \<Rightarrow> gerr option \<times> 'w"
  gl_Worktree :: "'w \<Rightarrow> gerr option \<times> 'w"
  gl_ResolveRevision :: "string \<Rightarrow> 'w \<Rightarrow> (gerr + string) \<times> 'w"
  gl_Reference :: "string \<Rightarrow> 'w \<Rightarrow> (gerr + string) \<times> 'w"
  gl_Reset :: "string \<Rightarrow> 'w \<Rightarrow> gerr option \<times> 'w"
  gl_Clean :: "'w \<Rightarrow> gerr option \<times> 'w"
  gl_Checkout :: "string \<Rightarrow> 'w \<Rightarrow> gerr option \<times> 'w"
  gl_Head :: "'w \<Rightarrow> (gerr + string) \<times> 'w"
  gl_References :: "'w \<Rightarrow> (gerr + git_ref list) \<times> 'w"
  gl_RemoteFetch :: "git_cred option \<Rightarrow> string \<Rightarrow> 'w \<Rightarrow> gerr option \<times> 'w"
  gl_CreateBranch :: "string \<Rightarrow> string \<Rightarrow> 'w \<Rightarrow> gerr option \<times> 'w"
  gl_Commit :: "string \<Rightarrow> 'w \<Rightarrow> gerr + string"  \<comment> \<open>the hash of the commit object\<close>
  gl_Parents :: "'w \<Rightarrow> string \<Rightarrow> string list"
  gl_HEAD :: string
  gl_branchRef :: "string \<Rightarrow> string"
  gl_tagRef :: "string \<Rightarrow> string"
  gl_remoteRef :: "string \<Rightarrow> string"
  gl_short :: "string \<Rightarrow> string"
  gl_isBranch :: "string \<Rightarrow> bool"

text \<open>
  \<open>gl_Parents\<close>: the parents of a commit that can be read, in order, up to the first that cannot.
  \<open>gl_branchRef\<close>, \<open>gl_tagRef\<close> and \<open>gl_remoteRef\<close> make reference names, the last for the remote \<open>origin\<close>.
\<close>

record git_repo =
  gp_CloneURL :: string
  gp_Branch :: string
  gp_Tag :: string
  gp_LocalPath :: string

text \<open>
  One \<open>GoGit\<close>: the library, the repository and the secret it was made with; its state is whether the
  repository is open, the cached credential, and the world.
\<close>

record 'w go_git =
  gg_lib :: "'w git_lib"
  gg_repo :: git_repo
  gg_secret :: "string \<times> string"

record 'w git_st =
  st_r :: bool
  st_cred :: "git_cred option"
  st_w :: 'w

definition NewGoGit :: "'w git_lib \<Rightarrow> git_repo \<Rightarrow> string \<times> string \<Rightarrow> 'w \<Rightarrow> 'w go_git \<times> 'w git_st" where
  "NewGoGit lib repo sec w = (\<lparr>gg_lib = lib, gg_repo = repo, gg_secret = sec\<rparr>, \<lparr>st_r = False, st_cred = None, st_w = w\<rparr>)"

definition libcall :: "('w \<Rightarrow> 'r \<times> 'w) \<Rightarrow> 'w git_st \<Rightarrow> 'r \<times> 'w git_st" where
  "libcall f s = (let (r, w) = f (st_w s) in (r, s\<lparr>st_w := w\<rparr>))"

section \<open>Credentials\<close>

definition BasicAuth_Resolve :: "git_secret \<Rightarrow> git_cred option" where
  "BasicAuth_Resolve sec =
     (if gs_type sec \<noteq> ''kubernetes.io/basic-auth'' then None
      else Some \<lparr>gc_username = gm_index [] (gs_data sec) ''username'', gc_password = gm_index [] (gs_data sec) ''password''\<rparr>)"

definition ResolveCredential :: "'w git_lib \<Rightarrow> string \<times> string \<Rightarrow> 'w \<Rightarrow> (gerr + git_cred) \<times> 'w" where
  \<comment> \<open>with the one resolver the controllers pass\<close>
  "ResolveCredential lib nsn w =
     (case gl_GetSecret lib nsn w of
        (Inl err, w) \<Rightarrow> (Inl (gerr_wrap (''cannot resolve credentials in a secret '' @ fst nsn @ ''/'' @ snd nsn) err), w)
      | (Inr sec, w) \<Rightarrow>
          (case BasicAuth_Resolve sec of
             Some c \<Rightarrow> (Inr c, w)
           | None \<Rightarrow> (Inl (gerr_new (''no resolver for secret with type '' @ gs_type sec)), w)))"

definition getAuthMethod :: "'w go_git \<Rightarrow> bool \<Rightarrow> 'w git_st \<Rightarrow> (gerr + git_cred option) \<times> 'w git_st" where
  \<comment> \<open>a basic-auth credential is always valid\<close>
  "getAuthMethod g forceRefresh s =
     (if snd (gg_secret g) = [] then (Inr None, s)
      else if st_cred s = None \<or> forceRefresh
      then (case libcall (ResolveCredential (gg_lib g) (gg_secret g)) s of
          (Inl err, s) \<Rightarrow> (Inl (UnrecoverableError ''cannot obtain credentials'' (Some err)), s)
        | (Inr c, s) \<Rightarrow> (Inr (Some c), s\<lparr>st_cred := Some c\<rparr>))
      else (Inr (st_cred s), s))"

definition doGitWithAuth ::
  "'w go_git \<Rightarrow> (git_cred option \<Rightarrow> 'w git_st \<Rightarrow> (gerr + 'a) \<times> 'w git_st) \<Rightarrow> 'w git_st \<Rightarrow> (gerr + 'a) \<times> 'w git_st" where
  \<comment> \<open>the operation and what it assigns when it succeeds\<close>
  "doGitWithAuth g op s =
     (case getAuthMethod g False s of
        (Inl err, s) \<Rightarrow> (Inl err, s)
      | (Inr auth, s) \<Rightarrow>
          (case op auth s of
             (Inr a, s) \<Rightarrow> (Inr a, s)
           | (Inl err, s) \<Rightarrow>
               if AuthenticationRequired \<notin> set (ge_is err) \<or> AuthorizationFailed \<notin> set (ge_is err)
               then (Inl (UnrecoverableError ''authentication failed'' (Some err)), s)
               else (case getAuthMethod g True s of
                   (Inl err, s) \<Rightarrow> (Inl err, s)
                 | (Inr auth, s) \<Rightarrow>
                     (case op auth s of
                        (Inr a, s) \<Rightarrow> (Inr a, s)
                      | (Inl err, s) \<Rightarrow> (Inl (UnrecoverableError ''authentication failed'' (Some err)), s)))))"

section \<open>Cloning and updating\<close>

definition or_fail :: "gerr option \<Rightarrow> gerr + unit" where
  "or_fail r = (case r of None \<Rightarrow> Inr () | Some err \<Rightarrow> Inl err)"

definition callE :: "('w \<Rightarrow> gerr option \<times> 'w) \<Rightarrow> 'w git_st \<Rightarrow> (gerr + unit) \<times> 'w git_st" where
  "callE f s = (case libcall f s of (r, s) \<Rightarrow> (or_fail r, s))"

definition default_ref :: "'w git_lib \<Rightarrow> git_ref list \<Rightarrow> string option" where
  "default_ref lib refs =
     map_option (\<lambda>r. gl_short lib (gr_target r)) (find (\<lambda>r. gr_symbolic r \<and> gr_name r = gl_HEAD lib) refs)"

definition getDefaultBranch :: "'w go_git \<Rightarrow> 'w git_st \<Rightarrow> (gerr + string) \<times> 'w git_st" where
  "getDefaultBranch g s =
     (case doGitWithAuth g (\<lambda>auth. libcall (gl_ListRemote (gg_lib g) auth (gp_CloneURL (gg_repo g)))) s of
        (Inl err, s) \<Rightarrow> (Inl (UnrecoverableError ''cannot get default branch'' (Some err)), s)
      | (Inr refs, s) \<Rightarrow>
          (case default_ref (gg_lib g) refs of
             Some b \<Rightarrow> (Inr b, s)
           | None \<Rightarrow> (Inl (UnrecoverableError (''unable to determine default branch for '' @ go_quote (gp_CloneURL (gg_repo g))) None), s)))"

definition openRepo :: "'w go_git \<Rightarrow> 'w git_st \<Rightarrow> (gerr + unit) \<times> 'w git_st" where
  "openRepo g s =
     (case callE (gl_PlainOpen (gg_lib g) (gp_LocalPath (gg_repo g))) s of
        (Inl err, s) \<Rightarrow> (Inl (UnrecoverableError ''cannot open repo'' (Some err)), s\<lparr>st_r := False\<rparr>)
      | (Inr _, s) \<Rightarrow> (Inr (), s\<lparr>st_r := True\<rparr>))"

definition chosen_refs :: "'w go_git \<Rightarrow> 'w git_st \<Rightarrow> (gerr + string \<times> string) \<times> 'w git_st" where
  \<comment> \<open>the reference to fetch and the name it is stored under\<close>
  "chosen_refs g s =
     (let lib = gg_lib g; branch = gp_Branch (gg_repo g); tag = gp_Tag (gg_repo g) in
      if branch \<noteq> [] then (Inr (gl_branchRef lib branch, gl_remoteRef lib branch), s)
      else if tag \<noteq> [] then (Inr (gl_tagRef lib tag, gl_tagRef lib tag), s)
      else (case getDefaultBranch g s of
          (Inl err, s) \<Rightarrow> (Inl err, s)
        | (Inr b, s) \<Rightarrow> (Inr (gl_branchRef lib b, gl_remoteRef lib b), s)))"

definition wrapE :: "string \<Rightarrow> (gerr + 'a) \<times> 's \<Rightarrow> (gerr + 'a) \<times> 's" where
  "wrapE msg r = (case r of (Inl err, s) \<Rightarrow> (Inl (UnrecoverableError msg (Some err)), s) | (Inr a, s) \<Rightarrow> (Inr a, s))"

definition andE :: "(gerr + 'a) \<times> 's \<Rightarrow> ('a \<Rightarrow> 's \<Rightarrow> (gerr + 'b) \<times> 's) \<Rightarrow> (gerr + 'b) \<times> 's" where
  \<comment> \<open>\<open>if err != nil { return err }\<close>\<close>
  "andE r k = (case r of (Inl err, s) \<Rightarrow> (Inl err, s) | (Inr a, s) \<Rightarrow> k a s)"

definition fetch_ref :: "'w go_git \<Rightarrow> nat \<Rightarrow> string \<Rightarrow> 'w git_st \<Rightarrow> (gerr + unit) \<times> 'w git_st" where
  "fetch_ref g depth spec = doGitWithAuth g (\<lambda>auth. callE (gl_Fetch (gg_lib g) auth depth spec))"

definition ignore_up_to_date :: "(gerr + unit) \<times> 's \<Rightarrow> (gerr + unit) \<times> 's" where
  "ignore_up_to_date r =
     (case r of (Inl err, s) \<Rightarrow> (if AlreadyUpToDate \<in> set (ge_is err) then (Inr (), s) else (Inl err, s)) | _ \<Rightarrow> r)"

definition cloneExistingRepo :: "'w go_git \<Rightarrow> 'w git_st \<Rightarrow> (gerr + unit) \<times> 'w git_st" where
  "cloneExistingRepo g s =
     (let lib = gg_lib g; url = gp_CloneURL (gg_repo g) in
      andE (openRepo g s) (\<lambda>_ s.
      andE (wrapE ''cannot get remote from repo'' (libcall (gl_RemoteURL lib) s)) (\<lambda>remote s.
      if remote \<noteq> url
      then (Inl (UnrecoverableError (''repository url of '' @ go_quote [] @ '' differs ('' @ go_quote remote
          @ '') from the provided url ('' @ go_quote url @ ''). stopping'') None), s)
      else andE (chosen_refs g s) (\<lambda>(refName, refRemoteName) s.
      andE (wrapE ''cannot perform fetch''
          (ignore_up_to_date (fetch_ref g 1 (''+'' @ refName @ '':'' @ refRemoteName) s))) (\<lambda>_ s.
      andE (wrapE ''cannot get worktree'' (callE (gl_Worktree lib) s)) (\<lambda>_ s.
      andE (wrapE (''unable to resolve revision '' @ [CHR 0x27] @ refName @ [CHR 0x27]) (libcall (gl_ResolveRevision lib refRemoteName) s)) (\<lambda>hash s.
      andE (wrapE ''cannot perform hard reset on repository'' (callE (gl_Reset lib hash) s)) (\<lambda>_ s.
      wrapE ''cannot perform clean'' (callE (gl_Clean lib) s)))))))))"

definition FetchNonExistingBranch :: "'w go_git \<Rightarrow> string \<Rightarrow> 'w git_st \<Rightarrow> (gerr + unit) \<times> 'w git_st" where
  \<comment> \<open>the error of \<open>CreateBranch\<close> is wrapped whether there is one or not\<close>
  "FetchNonExistingBranch g branch s =
     (let lib = gg_lib g; localRef = gl_branchRef lib branch in
      andE (wrapE ''cannot get remote from repo'' (libcall (gl_RemoteURL lib) s)) (\<lambda>_ s.
      andE (wrapE ''cannot fetch repo for branch that does not exist''
          (ignore_up_to_date (doGitWithAuth g (\<lambda>auth. callE (gl_RemoteFetch lib auth
             (''+'' @ localRef @ '':'' @ gl_remoteRef lib branch))) s))) (\<lambda>_ s.
      case libcall (gl_CreateBranch lib branch localRef) s of
        (err, s) \<Rightarrow> (Inl (UnrecoverableError ''cannot create branch'' err), s))))"

definition clone_ref :: "'w go_git \<Rightarrow> 'w git_st \<Rightarrow> (gerr + string) \<times> 'w git_st" where
  "clone_ref g s =
     (let lib = gg_lib g; branch = gp_Branch (gg_repo g); tag = gp_Tag (gg_repo g) in
      if branch \<noteq> [] then (Inr (gl_branchRef lib branch), s)
      else if tag \<noteq> [] then (Inr (gl_tagRef lib tag), s)
      else andE (getDefaultBranch g s) (\<lambda>b s. (Inr (gl_branchRef lib b), s)))"

definition cloneNonExisting :: "'w go_git \<Rightarrow> 'w git_st \<Rightarrow> (gerr + unit) \<times> 'w git_st" where
  \<comment> \<open>a clone of depth one of this branch; the repository is set by each attempt\<close>
  "cloneNonExisting g s =
     andE (clone_ref g s) (\<lambda>ref s.
       doGitWithAuth g (\<lambda>auth s.
         case callE (gl_PlainClone (gg_lib g) auth (gp_LocalPath (gg_repo g)) ref) s of
           (Inl err, s) \<Rightarrow> (Inl err, s\<lparr>st_r := False\<rparr>) | (Inr _, s) \<Rightarrow> (Inr (), s\<lparr>st_r := True\<rparr>)) s)"

definition Clone :: "'w go_git \<Rightarrow> 'w git_st \<Rightarrow> (gerr + unit) outcome \<times> 'w git_st" where
  \<comment> \<open>when \<open>os.Stat\<close> fails for another reason there is no file info to ask\<close>
  "Clone g s =
     (case libcall (gl_Stat (gg_lib g) (gp_LocalPath (gg_repo g))) s of
        (StatNotExist, s) \<Rightarrow> (case cloneNonExisting g s of (r, s) \<Rightarrow> (Ends r, s))
      | (StatDir, s) \<Rightarrow> (case cloneExistingRepo g s of (r, s) \<Rightarrow> (Ends r, s))
      | (StatFile, s) \<Rightarrow> (Ends (Inl (UnrecoverableError (''repo '' @ go_quote [] @ '' exists, but is a file'') None)), s)
      | (StatError, s) \<Rightarrow> (Crashes, s))"

definition CurrentReference :: "'w go_git \<Rightarrow> 'w git_st \<Rightarrow> (gerr + string) \<times> 'w git_st" where
  "CurrentReference g s =
     (if \<not> st_r s then (Inl (gerr_new ''git repo instance is nil''), s)
      else case libcall (gl_Head (gg_lib g)) s of
          (Inl err, s) \<Rightarrow> (Inl (gerr_wrap ''could not get git HEAD'' err), s)
        | (Inr h, s) \<Rightarrow> (Inr h, s))"

section \<open>Where a commit lives\<close>

partial_function (option) isAncestor :: "(string \<Rightarrow> string list) \<Rightarrow> string \<Rightarrow> string list \<Rightarrow> bool option" where
  \<comment> \<open>the loop over the queue\<close>
  "isAncestor parents commit queue =
     (case queue of
        [] \<Rightarrow> Some False
      | current # queue \<Rightarrow>
          (if current = commit then Some True else isAncestor parents commit (queue @ parents current)))"

declare isAncestor.simps [code]

definition commitExists :: "'w go_git \<Rightarrow> string \<Rightarrow> 'w git_st \<Rightarrow> bool" where
  "commitExists g hash s = (\<not> isl (gl_Commit (gg_lib g) hash (st_w s)))"

definition resetToRemoteHead :: "'w go_git \<Rightarrow> string \<Rightarrow> 'w git_st \<Rightarrow> (gerr + unit) \<times> 'w git_st" where
  \<comment> \<open>the causes are printed, not wrapped\<close>
  "resetToRemoteHead g branch s =
     (let lib = gg_lib g in
      case libcall (gl_Reference lib branch) s of
        (Inl err, s) \<Rightarrow> (Inl (gerr_new (''failed to get reference for branch '' @ branch @ '': '' @ ge_msg err)), s)
      | (Inr hash, s) \<Rightarrow>
          (case callE (gl_Worktree lib) s of
             (Inl err, s) \<Rightarrow> (Inl (gerr_new (''cannot get worktree: '' @ ge_msg err)), s)
           | (Inr _, s) \<Rightarrow>
               (case callE (gl_Reset lib hash) s of
                  (Inl err, s) \<Rightarrow> (Inl (gerr_new (''cannot reset worktree: '' @ ge_msg err)), s)
                | (Inr _, s) \<Rightarrow> (Inr (), s))))"

definition main_in_remote :: string where
  \<comment> \<open>\<open>MainBranch.BranchInRemote()\<close>\<close>
  "main_in_remote = ''refs/remotes/origin/main''"

definition fetchCommit :: "'w go_git \<Rightarrow> 'w git_st \<Rightarrow> (gerr + unit) \<times> 'w git_st" where
  "fetchCommit g s =
     andE (wrapE ''Failed to fetch commit'' (ignore_up_to_date (fetch_ref g 0 ''+refs/*:refs/*'' s))) (\<lambda>_ s.
     case resetToRemoteHead g main_in_remote s of
       (Inl err, s) \<Rightarrow> (Inl (gerr_new (''failed to reset to remote head: '' @ ge_msg err)), s) | (Inr _, s) \<Rightarrow> (Inr (), s))"

fun find_branch :: "'w git_lib \<Rightarrow> 'w \<Rightarrow> string \<Rightarrow> git_ref list \<Rightarrow> string \<Rightarrow> string option" where
  \<comment> \<open>the callback never stops the iteration: a later branch replaces an earlier one\<close>
  "find_branch lib w commit [] found = Some found"
| "find_branch lib w commit (r # refs) found =
     (if \<not> gr_symbolic r \<and> gl_isBranch lib (gr_name r)
      then (case gl_Commit lib (gr_hash r) w of
          Inl _ \<Rightarrow> find_branch lib w commit refs found
        | Inr b \<Rightarrow>
            (case isAncestor (gl_Parents lib w) commit [b] of
               None \<Rightarrow> None
             | Some True \<Rightarrow> find_branch lib w commit refs (gl_short lib (gr_name r))
             | Some False \<Rightarrow> find_branch lib w commit refs found))
      else find_branch lib w commit refs found)"

definition find_feature :: "'w go_git \<Rightarrow> string \<Rightarrow> 'w git_st \<Rightarrow> (gerr + string) outcome \<times> 'w git_st" where
  "find_feature g commit s =
     (case libcall (gl_References (gg_lib g)) s of
        (Inl err, s) \<Rightarrow> (Ends (Inl (gerr_wrap ''failed to list branches'' err)), s)
      | (Inr refs, s) \<Rightarrow>
          (case find_branch (gg_lib g) (st_w s) commit refs [] of
             None \<Rightarrow> (Hangs, s)
           | Some b \<Rightarrow> (Ends (Inr (if b \<noteq> [] then ''pending merge in '' @ b else ''detached'')), s)))"

definition checkCommitStatus :: "'w go_git \<Rightarrow> string \<Rightarrow> 'w git_st \<Rightarrow> (gerr + string) outcome \<times> 'w git_st" where
  "checkCommitStatus g commitHash s =
     (let lib = gg_lib g in
      case gl_Commit lib commitHash (st_w s) of
        Inl err \<Rightarrow> (Ends (Inl (UnrecoverableError ''Commit not found'' (Some err))), s)
      | Inr commit \<Rightarrow>
          (let (db, s) = getDefaultBranch g s; mainBranch = (case db of Inr b \<Rightarrow> b | Inl _ \<Rightarrow> ''main'') in
           case libcall (gl_ResolveRevision lib (gl_branchRef lib mainBranch)) s of
             (Inl err, s) \<Rightarrow> (Ends (Inl (gerr_wrap ''failed to resolve main branch'' err)), s)
           | (Inr mainHash, s) \<Rightarrow>
               (case gl_Commit lib mainHash (st_w s) of
                  Inl err \<Rightarrow> (Ends (Inl (gerr_wrap ''failed to get commit object for main branch'' err)), s)
                | Inr mainCommit \<Rightarrow>
                    (case isAncestor (gl_Parents lib (st_w s)) commit [mainCommit] of
                       None \<Rightarrow> (Hangs, s)
                     | Some True \<Rightarrow> (Ends (Inr ''merged''), s)
                     | Some False \<Rightarrow> find_feature g commit s))))"

definition EnsureCommit :: "'w go_git \<Rightarrow> string \<Rightarrow> 'w git_st \<Rightarrow> (gerr + string) outcome \<times> 'w git_st" where
  "EnsureCommit g commitHash s =
     (case Clone g s of
        (Ends (Inr _), s) \<Rightarrow>
          (case (if commitExists g commitHash s then (Inr (), s) else fetchCommit g s) of
             (Inl err, s) \<Rightarrow> (Ends (Inl err), s)
           | (Inr _, s) \<Rightarrow> checkCommitStatus g commitHash s)
      | (Ends (Inl err), s) \<Rightarrow> (Ends (Inl err), s)
      | (Crashes, s) \<Rightarrow> (Crashes, s)
      | (Hangs, s) \<Rightarrow> (Hangs, s))"

definition CheckoutCommit :: "'w go_git \<Rightarrow> string \<Rightarrow> 'w git_st \<Rightarrow> (gerr + unit) \<times> 'w git_st" where
  "CheckoutCommit g commitHash s =
     andE (openRepo g s) (\<lambda>_ s.
     andE (if commitExists g commitHash s then (Inr (), s) else fetchCommit g s) (\<lambda>_ s.
     andE (wrapE ''Failed to get worktree'' (callE (gl_Worktree (gg_lib g)) s)) (\<lambda>_ s.
     wrapE ''Failed to checkout commit'' (callE (gl_Checkout (gg_lib g) commitHash) s))))"

section \<open>What a search finds\<close>

definition history :: "(string \<Rightarrow> string list) \<Rightarrow> (string \<times> string) set" where
  "history parents = {(c, p). p \<in> set (parents c)}"

lemma isAncestor_Nil [simp]: "isAncestor parents c [] = Some False"
  by (simp add: isAncestor.simps)

lemma isAncestor_Cons:
  "isAncestor parents c (q # qs) = (if q = c then Some True else isAncestor parents c (qs @ parents q))"
  by (simp add: isAncestor.simps)

lemma isAncestor_reaches:
  assumes acyclic: "wf ((history parents)\<inverse>)"
  shows "isAncestor parents c queue = Some (\<exists>q \<in> set queue. (q, c) \<in> (history parents)\<^sup>*)"
  using wf_mult [OF acyclic]
proof (induction "mset queue" arbitrary: queue rule: wf_induct_rule)
  case less
  show ?case
  proof (cases queue)
    case (Cons q qs)
    have "(mset qs + mset (parents q), mset qs + {#q#}) \<in> mult ((history parents)\<inverse>)"
      by (rule one_step_implies_mult) (auto simp: history_def)
    then have "isAncestor parents c (qs @ parents q) = Some (\<exists>x \<in> set (qs @ parents q). (x, c) \<in> (history parents)\<^sup>*)"
      using less [of "qs @ parents q"] Cons by simp
    moreover have "(q, c) \<in> (history parents)\<^sup>* \<longleftrightarrow> q = c \<or> (\<exists>x \<in> set (parents q). (x, c) \<in> (history parents)\<^sup>*)"
      by (auto simp: history_def elim: converse_rtranclE intro: converse_rtrancl_into_rtrancl)
    ultimately show ?thesis using Cons by (auto simp: isAncestor_Cons)
  qed simp
qed

lemma isAncestor_one:
  "wf ((history parents)\<inverse>) \<Longrightarrow> isAncestor parents c [b] = Some ((b, c) \<in> (history parents)\<^sup>*)"
  by (simp add: isAncestor_reaches)

definition contains_commit :: "'w git_lib \<Rightarrow> 'w \<Rightarrow> string \<Rightarrow> git_ref \<Rightarrow> bool" where
  \<comment> \<open>a branch whose history has the commit\<close>
  "contains_commit lib w commit r \<longleftrightarrow> \<not> gr_symbolic r \<and> gl_isBranch lib (gr_name r)
     \<and> (\<exists>b. gl_Commit lib (gr_hash r) w = Inr b \<and> (b, commit) \<in> (history (gl_Parents lib w))\<^sup>*)"

lemma find_branch_last:
  assumes acyclic: "wf ((history (gl_Parents lib w))\<inverse>)"
  shows "find_branch lib w commit refs found =
     Some (case rev (filter (contains_commit lib w commit) refs) of [] \<Rightarrow> found | r # _ \<Rightarrow> gl_short lib (gr_name r))"
proof (induction refs arbitrary: found)
  case (Cons r refs)
  have "find_branch lib w commit (r # refs) found =
      find_branch lib w commit refs (if contains_commit lib w commit r then gl_short lib (gr_name r) else found)"
    using isAncestor_one [OF acyclic] by (auto simp: contains_commit_def split: sum.splits bool.splits)
  then show ?case using Cons.IH by (simp split: list.splits)
qed simp

text \<open>
  C24: The search through the history always ends, and finds a commit exactly where it is. The queue has no
  record of the commits it has visited; it still runs empty when the parents of the commits are
  well-founded, which the hashes of git guarantee. Its answer is whether the commit is reachable from the
  branch over parents. \<open>checkCommitStatus\<close> therefore calls a commit merged exactly when it is reachable
  from the head of the main branch; otherwise it names the last listed branch that has it, although the
  callback means to stop at the first, and calls it detached when no branch has it.
\<close>

theorem commit_status_exact:
  assumes acyclic: "wf ((history (gl_Parents (gg_lib g) (st_w s')))\<inverse>)"
    and commit: "gl_Commit (gg_lib g) hash (st_w s) = Inr commit"
    and main: "getDefaultBranch g s = (db, s1)"
      "libcall (gl_ResolveRevision (gg_lib g) (gl_branchRef (gg_lib g) (case db of Inr b \<Rightarrow> b | Inl _ \<Rightarrow> ''main''))) s1 = (Inr mainHash, s')"
      "gl_Commit (gg_lib g) mainHash (st_w s') = Inr mainCommit"
    and refs: "gl_References (gg_lib g) (st_w s') = (Inr refs, st_w s')"
  shows "checkCommitStatus g hash s =
    (Ends (Inr (if (mainCommit, commit) \<in> (history (gl_Parents (gg_lib g) (st_w s')))\<^sup>* then ''merged''
       else case rev (filter (contains_commit (gg_lib g) (st_w s') commit) refs) of
           [] \<Rightarrow> ''detached''
         | r # _ \<Rightarrow> if gl_short (gg_lib g) (gr_name r) = [] then ''detached''
             else ''pending merge in '' @ gl_short (gg_lib g) (gr_name r))), s')"
proof -
  have anc: "isAncestor (gl_Parents (gg_lib g) (st_w s')) commit [mainCommit]
      = Some ((mainCommit, commit) \<in> (history (gl_Parents (gg_lib g) (st_w s')))\<^sup>*)"
    by (rule isAncestor_one [OF acyclic])
  have feature: "find_feature g commit s' = (Ends (Inr (case rev (filter (contains_commit (gg_lib g) (st_w s') commit) refs) of
           [] \<Rightarrow> ''detached''
         | r # _ \<Rightarrow> if gl_short (gg_lib g) (gr_name r) = [] then ''detached''
             else ''pending merge in '' @ gl_short (gg_lib g) (gr_name r))), s')"
    using find_branch_last [OF acyclic] refs by (simp add: find_feature_def libcall_def split: list.splits)
  show ?thesis
    by (simp add: checkCommitStatus_def commit main anc feature)
qed

section \<open>Errors\<close>

text \<open>
  A rejected credential is never refreshed. \<open>doGitWithAuth\<close> means to read the secret again when the server
  asks for authentication or refuses it, but its test is true for every error that is not both. With a cached
  credential, an operation that fails with one of them is tried once, the secret is not read, and the same
  credential stays in the cache.
\<close>

theorem credentials_never_refreshed:
  assumes "st_cred s = Some c" "snd (gg_secret g) \<noteq> []"
    and fails: "op (Some c) s = (Inl err, s')"
    and one: "ge_is err = [AuthenticationRequired] \<or> ge_is err = [AuthorizationFailed]"
  shows "doGitWithAuth g op s = (Inl (UnrecoverableError ''authentication failed'' (Some err)), s')"
  using assms by (auto simp: doGitWithAuth_def getAuthMethod_def)

lemma Clone_foreign_repository:
  assumes "gl_Stat (gg_lib g) (gp_LocalPath (gg_repo g)) (st_w s) = (StatDir, w1)"
    "gl_PlainOpen (gg_lib g) (gp_LocalPath (gg_repo g)) w1 = (None, w2)"
    "gl_RemoteURL (gg_lib g) w2 = (Inr url, w3)" "url \<noteq> gp_CloneURL (gg_repo g)"
  shows "\<exists>err. Clone g s = (Ends (Inl err), s\<lparr>st_r := True, st_w := w3\<rparr>)"
  using assms by (simp add: Clone_def cloneExistingRepo_def openRepo_def callE_def libcall_def or_fail_def andE_def wrapE_def Let_def)

lemma FetchNonExistingBranch_never_succeeds: "isl (fst (FetchNonExistingBranch g branch s))"
  by (auto simp: FetchNonExistingBranch_def andE_def Let_def split: sum.splits prod.splits)

lemma EnsureCommit_needs_main:
  assumes clone: "Clone g s = (Ends (Inr ()), s1)" and local: "isl (gl_Commit (gg_lib g) hash (st_w s1))"
    and no_main: "\<And>w. isl (fst (gl_Reference (gg_lib g) main_in_remote w))"
  shows "\<exists>err s'. EnsureCommit g hash s = (Ends (Inl err), s')"
proof -
  have reset: "\<exists>err s'. resetToRemoteHead g main_in_remote t = (Inl err, s')" for t
    using no_main [of "st_w t"]
    by (cases "gl_Reference (gg_lib g) main_in_remote (st_w t)") (auto simp: resetToRemoteHead_def libcall_def Let_def isl_def)
  have "\<exists>err s'. fetchCommit g t = (Inl err, s')" for t
  proof (cases "wrapE ''Failed to fetch commit'' (ignore_up_to_date (fetch_ref g 0 ''+refs/*:refs/*'' t))")
    case (Pair r t')
    obtain err s' where "resetToRemoteHead g main_in_remote t' = (Inl err, s')" using reset by blast
    then show ?thesis using Pair by (cases r) (simp_all add: fetchCommit_def andE_def)
  qed
  then obtain err s' where "fetchCommit g s1 = (Inl err, s')" by blast
  then show ?thesis using clone local by (simp add: EnsureCommit_def commitExists_def)
qed

section \<open>A sample repository\<close>

text \<open>Commits \<open>a\<close>, its child \<open>b\<close> at the head of \<open>main\<close>, and its child \<open>f\<close> at the head of \<open>feature\<close>.\<close>

definition sample_parents :: "string \<Rightarrow> string list" where
  "sample_parents c = (if c = ''b'' \<or> c = ''f'' then [''a''] else [])"

definition sample_lib :: "unit git_lib" where
  "sample_lib = \<lparr>
     gl_Stat = (\<lambda>p w. (StatDir, w)), gl_GetSecret = (\<lambda>k w. (Inl (gerr_new ''no secret''), w)),
     gl_PlainOpen = (\<lambda>p w. (None, w)), gl_PlainClone = (\<lambda>a p r w. (None, w)), gl_RemoteURL = (\<lambda>w. (Inr ''url'', w)),
     gl_ListRemote = (\<lambda>a u w. (Inr [\<lparr>gr_symbolic = True, gr_name = ''HEAD'', gr_target = ''main'', gr_hash = []\<rparr>], w)),
     gl_Fetch = (\<lambda>a d s w. (None, w)), gl_Worktree = (\<lambda>w. (None, w)),
     gl_ResolveRevision = (\<lambda>r w. (Inr ''b'', w)), gl_Reference = (\<lambda>r w. (Inr ''b'', w)),
     gl_Reset = (\<lambda>h w. (None, w)), gl_Clean = (\<lambda>w. (None, w)), gl_Checkout = (\<lambda>h w. (None, w)), gl_Head = (\<lambda>w. (Inr ''b'', w)),
     gl_References = (\<lambda>w. (Inr [\<lparr>gr_symbolic = False, gr_name = ''main'', gr_target = [], gr_hash = ''b''\<rparr>,
       \<lparr>gr_symbolic = False, gr_name = ''feature'', gr_target = [], gr_hash = ''f''\<rparr>], w)),
     gl_RemoteFetch = (\<lambda>a s w. (None, w)), gl_CreateBranch = (\<lambda>b m w. (None, w)),
     gl_Commit = (\<lambda>h w. Inr h), gl_Parents = (\<lambda>w. sample_parents), gl_HEAD = ''HEAD'',
     gl_branchRef = id, gl_tagRef = id, gl_remoteRef = id, gl_short = id, gl_isBranch = (\<lambda>n. True)\<rparr>"

definition sample_git :: "unit go_git" where
  "sample_git = \<lparr>gg_lib = sample_lib, gg_repo = \<lparr>gp_CloneURL = ''url'', gp_Branch = [], gp_Tag = [], gp_LocalPath = ''/w''\<rparr>,
     gg_secret = (''ns'', [])\<rparr>"

definition sample_st :: "unit git_st" where
  "sample_st = \<lparr>st_r = True, st_cred = None, st_w = ()\<rparr>"

lemma sample_acyclic: "wf ((history sample_parents)\<inverse>)"
  by (rule wf_subset [OF wf_measure [of "\<lambda>c. if c = ''a'' then 0 else 1"]])
    (auto simp: history_def sample_parents_def split: if_splits)

lemma sample_reach: "(''b'', ''f'') \<notin> (history sample_parents)\<^sup>*" "(''f'', ''f'') \<in> (history sample_parents)\<^sup>*"
  using isAncestor_one [OF sample_acyclic, of "''f''" "''b''"] by (simp_all add: isAncestor_Cons sample_parents_def)

lemma commit_status_exact_witness:
  "checkCommitStatus sample_git ''f'' sample_st = (Ends (Inr ''pending merge in feature''), sample_st)"
proof -
  have "checkCommitStatus sample_git ''f'' sample_st =
    (Ends (Inr (if (''b'', ''f'') \<in> (history (gl_Parents (gg_lib sample_git) (st_w sample_st)))\<^sup>* then ''merged''
       else case rev (filter (contains_commit (gg_lib sample_git) (st_w sample_st) ''f'')
           [\<lparr>gr_symbolic = False, gr_name = ''main'', gr_target = [], gr_hash = ''b''\<rparr>,
            \<lparr>gr_symbolic = False, gr_name = ''feature'', gr_target = [], gr_hash = ''f''\<rparr>]) of
           [] \<Rightarrow> ''detached''
         | r # _ \<Rightarrow> if gl_short (gg_lib sample_git) (gr_name r) = [] then ''detached''
             else ''pending merge in '' @ gl_short (gg_lib sample_git) (gr_name r))), sample_st)"
    by (rule commit_status_exact [where db = "Inr ''main''" and ?s1.0 = sample_st and mainHash = "''b''"])
      (use sample_acyclic in \<open>simp_all add: sample_git_def sample_lib_def sample_st_def libcall_def getDefaultBranch_def
         doGitWithAuth_def getAuthMethod_def default_ref_def\<close>)
  then show ?thesis using sample_reach by (simp add: sample_git_def sample_lib_def contains_commit_def)
qed

lemma credentials_never_refreshed_witness:
  "doGitWithAuth (sample_git\<lparr>gg_secret := (''ns'', ''token'')\<rparr>)
     (\<lambda>auth s. (Inl \<lparr>ge_msg = ''denied'', ge_is = [AuthorizationFailed]\<rparr> :: gerr + unit, s))
     (sample_st\<lparr>st_cred := Some \<lparr>gc_username = ''u'', gc_password = ''old''\<rparr>\<rparr>)
   = (Inl (UnrecoverableError ''authentication failed'' (Some \<lparr>ge_msg = ''denied'', ge_is = [AuthorizationFailed]\<rparr>)),
      sample_st\<lparr>st_cred := Some \<lparr>gc_username = ''u'', gc_password = ''old''\<rparr>\<rparr>)"
  by (rule credentials_never_refreshed) simp_all

end
