(* ===== verification/SchemaController.thy ===== *)
theory SchemaController
  imports Resource Paths
begin

text \<open>
  The Schema controller (\<open>pkg/reconcilers/schema/reconciler.go\<close>), the loader of the schema files
  (\<open>pkg/schema\<close>) and the helpers of a Schema (\<open>apis/inv/v1alpha1/schema_helpers.go\<close>). The git download, the file
  system, the schema server and the API server are the record \<open>sd_services\<close>; the loader's table of references
  is the first part of the state.
\<close>

section \<open>The resource\<close>

record schema_repo =
  rp_URL :: string
  rp_Ref :: string
  rp_Kind :: string
  rp_Credentials :: string
  rp_Proxy :: "string option"
  rp_Dirs :: "(string \<times> string) list"
  rp_Models :: "string list"
  rp_Includes :: "string list"
  rp_Excludes :: "string list"

record schema_obj =
  so_meta :: objmeta
  so_provider :: string
  so_version :: string
  so_repos :: "schema_repo list"
  so_conditions :: "condition list"
  so_repoStatus :: "(string \<times> string) list option"

text \<open>\<open>so_repoStatus\<close>: URL and reference per repository; \<open>None\<close> is a nil slice, which \<open>DeepEqual\<close> tells from an empty one.\<close>

definition GetBasePath :: "schema_obj \<Rightarrow> string \<Rightarrow> string" where
  "GetBasePath r baseDir = path_Join [baseDir, so_provider r, so_version r]"

definition GetKey :: "schema_obj \<Rightarrow> string" where
  "GetKey r = so_provider r @ ''.'' @ so_version r"

record schema_id =
  sid_vendor :: string
  sid_version :: string

definition GetSchema :: "schema_obj \<Rightarrow> schema_id" where
  "GetSchema r = \<lparr>sid_vendor = so_provider r, sid_version = so_version r\<rparr>"

record schema_base =
  sb_models :: "string list"
  sb_includes :: "string list"
  sb_excludes :: "string list"

definition getNewBase :: "string \<Rightarrow> string list \<Rightarrow> string list" where
  "getNewBase basePath xs = map (\<lambda>s. path_Join [basePath, s]) xs"

definition set_list :: "string list \<Rightarrow> string list" where
  \<comment> \<open>\<open>sets.List\<close> of the set of these\<close>
  "set_list xs = sort (remdups xs)"

definition GetNewSchemaBase :: "schema_obj \<Rightarrow> string \<Rightarrow> schema_base" where
  "GetNewSchemaBase r dir =
     (let basePath = GetBasePath r dir;
          models = set_list (concat (map rp_Models (so_repos r)));
          models = (if length models = 0 then [''.''] else models) in
      \<lparr>sb_models = getNewBase basePath models,
       sb_includes = getNewBase basePath (set_list (concat (map rp_Includes (so_repos r)))),
       sb_excludes = set_list (concat (map rp_Excludes (so_repos r)))\<rparr>)"

definition Loading :: "nat \<Rightarrow> condition" where
  "Loading now = \<lparr>cType = ConditionTypeReady, cStatus = ConditionFalse, cReason = ''Loading'', cMessage = ''loading'',
     cObservedGeneration = 0, cLastTransitionTime = now\<rparr>"

section \<open>Services\<close>

datatype schema_status = SchemaOk | SchemaFailed | SchemaReloading | SchemaInitializing

record 'w sd_services =
  sd_Get :: "string \<times> string \<Rightarrow> 'w \<Rightarrow> (goerr + schema_obj) \<times> 'w"
  sd_Download :: "string \<Rightarrow> schema_repo \<Rightarrow> 'w \<Rightarrow> (goerr + string) \<times> 'w"
  sd_urlPath :: "string \<Rightarrow> goerr + string"
  sd_Acquire :: "string \<Rightarrow> 'w \<Rightarrow> goerr option \<times> 'w"
  sd_Release :: "string \<Rightarrow> 'w \<Rightarrow> 'w"
  sd_DirExists :: "string \<Rightarrow> 'w \<Rightarrow> bool"
  sd_RemoveDirectory :: "string \<Rightarrow> 'w \<Rightarrow> goerr option \<times> 'w"
  sd_Copy :: "string \<Rightarrow> string \<Rightarrow> 'w \<Rightarrow> goerr option \<times> 'w"
  sd_NewClient :: "'w \<Rightarrow> goerr option \<times> 'w"
  sd_GetDetails :: "schema_id \<Rightarrow> 'w \<Rightarrow> (goerr + schema_status option) \<times> 'w"
  sd_Create :: "schema_id \<Rightarrow> schema_base \<Rightarrow> 'w \<Rightarrow> goerr option \<times> 'w"
  sd_DeleteSchema :: "schema_id \<Rightarrow> 'w \<Rightarrow> goerr option \<times> 'w"
  sd_ApplyStatus :: "string \<times> string \<Rightarrow> condition \<Rightarrow> (string option \<times> string option) list option \<Rightarrow> 'w \<Rightarrow> goerr option \<times> 'w"
  sd_ApplyFinalizers :: "string \<Rightarrow> string \<Rightarrow> string list \<Rightarrow> 'w \<Rightarrow> goerr option \<times> 'w"
  sd_Event :: "string \<Rightarrow> string \<Rightarrow> string \<Rightarrow> 'w \<Rightarrow> 'w"

text \<open>
  \<open>sd_Download ns repo\<close>: a clone of the repository below the temporary directory, and the reference it is at.
  \<open>sd_urlPath\<close>: the path of a clone URL. \<open>sd_Acquire\<close> and \<open>sd_Release\<close>: the semaphore of the repository.
  \<open>sd_GetDetails\<close> without a status: a response without a schema. \<open>sd_ApplyStatus\<close> carries the condition and,
  when they are set, the repositories.
\<close>

record 'w sd_env =
  se_sv :: "'w sd_services"
  se_tmpDir :: string
  se_schemaDir :: string
  se_now :: nat

type_synonym 'w sd_state = "schema_obj gomap \<times> 'w"

section \<open>The loader\<close>

definition AddRef :: "schema_obj \<Rightarrow> 'w sd_state \<Rightarrow> 'w sd_state" where
  "AddRef sch s = (gm_put (GetKey sch) sch (fst s), snd s)"

definition GetRef :: "'w sd_env \<Rightarrow> string \<Rightarrow> 'w sd_state \<Rightarrow> goerr + schema_obj \<times> bool" where
  "GetRef e key s =
     (case map_of (fst s) key of
        None \<Rightarrow> Inl (err_new (''no repository reference registered for key '' @ go_quote key))
      | Some sch \<Rightarrow> Inr (sch, sd_DirExists (se_sv e) (GetBasePath sch (se_schemaDir e)) (snd s)))"

definition DelRef :: "'w sd_env \<Rightarrow> string \<Rightarrow> 'w sd_state \<Rightarrow> goerr option \<times> 'w sd_state" where
  "DelRef e key s =
     (case GetRef e key s of
        Inl _ \<Rightarrow> (None, s)
      | Inr (sch, dirExists) \<Rightarrow>
          (case (if dirExists then sd_RemoveDirectory (se_sv e) (GetBasePath sch (se_schemaDir e)) (snd s) else (None, snd s)) of
             (Some err, w) \<Rightarrow> (Some err, (fst s, w))
           | (None, w) \<Rightarrow> (None, (gm_delete key (fst s), w))))"

fun copy_dirs :: "'w sd_services \<Rightarrow> string \<Rightarrow> string \<Rightarrow> (string \<times> string) list \<Rightarrow> 'w \<Rightarrow> goerr option \<times> 'w" where
  "copy_dirs sv localPath base [] w = (None, w)"
| "copy_dirs sv localPath base ((s, d) # ds) w =
     (let src = path_Join [localPath, s]; dst = path_Join [base, d] in
      case ErrNotIsSubfolder localPath src of
        Some err \<Rightarrow> (Some err, w)
      | None \<Rightarrow>
          (case ErrNotIsSubfolder base dst of
             Some err \<Rightarrow> (Some err, w)
           | None \<Rightarrow>
               (case sd_Copy sv src dst w of
                  (Some err, w) \<Rightarrow> (Some err, w)
                | (None, w) \<Rightarrow> copy_dirs sv localPath base ds w)))"

definition default_dirs :: "(string \<times> string) list \<Rightarrow> (string \<times> string) list" where
  \<comment> \<open>the default is written back into the object the table holds, which gives the same again\<close>
  "default_dirs ds = (if length ds = 0 then [(''.'', ''.'')] else ds)"

definition download_held :: "'w sd_env \<Rightarrow> schema_obj \<Rightarrow> schema_repo \<Rightarrow> 'w \<Rightarrow> (goerr + string) \<times> 'w" where
  \<comment> \<open>between acquiring and releasing the semaphore\<close>
  "download_held e sch repo w =
     (case sd_Download (se_sv e) (m_namespace (so_meta sch)) repo w of
        (Inl err, w) \<Rightarrow> (Inl err, w)
      | (Inr ref, w) \<Rightarrow>
          (case sd_urlPath (se_sv e) (rp_URL repo) of
             Inl err \<Rightarrow> (Inl err, w)
           | Inr p \<Rightarrow>
               (case copy_dirs (se_sv e) (path_Join [se_tmpDir e, p]) (GetBasePath sch (se_schemaDir e))
                   (default_dirs (rp_Dirs repo)) w of
                  (Some err, w) \<Rightarrow> (Inl err, w)
                | (None, w) \<Rightarrow> (Inr ref, w))))"

definition download :: "'w sd_env \<Rightarrow> schema_obj \<Rightarrow> schema_repo \<Rightarrow> 'w \<Rightarrow> (goerr + string) \<times> 'w" where
  "download e sch repo w =
     (case sd_Acquire (se_sv e) (rp_URL repo) w of
        (Some err, w) \<Rightarrow> (Inl (err_wrap (''failed to acquire semaphore for '' @ rp_URL repo) err), w)
      | (None, w) \<Rightarrow> (case download_held e sch repo w of (r, w) \<Rightarrow> (r, sd_Release (se_sv e) (rp_URL repo) w)))"

fun load_repos ::
  "'w sd_env \<Rightarrow> schema_obj \<Rightarrow> schema_repo list \<Rightarrow> (string \<times> string) list \<Rightarrow> goerr option \<Rightarrow> 'w
     \<Rightarrow> ((string \<times> string) list \<times> goerr option) \<times> 'w" where
  "load_repos e sch [] statuses errs w = ((statuses, errs), w)"
| "load_repos e sch (r # rs) statuses errs w =
     (case download e sch r w of
        (Inl err, w) \<Rightarrow> load_repos e sch rs (statuses @ [(rp_URL r, [])]) (err_join errs (Some err)) w
      | (Inr ref, w) \<Rightarrow> load_repos e sch rs (statuses @ [(rp_URL r, ref)]) errs w)"

definition Load :: "'w sd_env \<Rightarrow> string \<Rightarrow> 'w sd_state \<Rightarrow> (goerr + (string \<times> string) list) \<times> 'w sd_state" where
  "Load e key s =
     (case GetRef e key s of
        Inl err \<Rightarrow> (Inl err, s)
      | Inr (sch, _) \<Rightarrow>
          (case load_repos e sch (so_repos sch) [] None (snd s) of
             ((_, Some err), w) \<Rightarrow> (Inl err, (fst s, w))
           | ((statuses, None), w) \<Rightarrow> (Inr statuses, (fst s, w))))"

section \<open>Status\<close>

definition sd_event :: "'w sd_services \<Rightarrow> string \<Rightarrow> string \<Rightarrow> string \<Rightarrow> 'w \<Rightarrow> 'w" where
  \<comment> \<open>a message that is no UTF-8 text makes \<open>RecordEvent\<close> panic; such a run is not followed further\<close>
  "sd_event sv typ reason msg w = (case RecordEvent msg of None \<Rightarrow> w | Some note \<Rightarrow> sd_Event sv typ reason note w)"

abbreviation so_nsn :: "schema_obj \<Rightarrow> string \<times> string" where
  "so_nsn sch \<equiv> (m_namespace (so_meta sch), m_name (so_meta sch))"

definition nonempty_str :: "string \<Rightarrow> string option" where
  "nonempty_str s = (if s \<noteq> [] then Some s else None)"

definition repoStatusToApply :: "(string \<times> string) list \<Rightarrow> (string option \<times> string option) list" where
  "repoStatusToApply rs = map (\<lambda>(u, r). (nonempty_str u, nonempty_str r)) rs"

definition sd_handleSuccess ::
  "'w sd_env \<Rightarrow> schema_obj \<Rightarrow> (string \<times> string) list option \<Rightarrow> 'w \<Rightarrow> goerr option \<times> 'w" where
  \<comment> \<open>the second argument: the object as it was read; the third: the repositories of the new status\<close>
  "sd_handleSuccess e sch repos w =
     (let newCond = Ready (se_now e); oldCond = GetCondition (so_conditions sch) ConditionTypeReady in
      if cond_Equal newCond oldCond \<and> repos = so_repoStatus sch then (None, w)
      else let w = sd_event (se_sv e) ''Normal'' ''Schema'' ''ready'' w;
               arg = (case repos of Some (x # xs) \<Rightarrow> Some (repoStatusToApply (x # xs)) | _ \<Rightarrow> None);
               (err, w) = sd_ApplyStatus (se_sv e) (so_nsn sch) newCond arg w in
        (map_option (err_wrap ''cannot update status'') err, w))"

definition sd_handleError :: "'w sd_env \<Rightarrow> schema_obj \<Rightarrow> string \<Rightarrow> goerr option \<Rightarrow> 'w \<Rightarrow> goerr option \<times> 'w" where
  \<comment> \<open>whatever the error, the result asks for no requeue\<close>
  "sd_handleError e sch msg err w =
     (let msg = (case err of None \<Rightarrow> msg | Some er \<Rightarrow> msg @ '' err '' @ e_msg er);
          newCond = Failed (se_now e) msg; oldCond = GetCondition (so_conditions sch) ConditionTypeReady in
      if cond_Equal newCond oldCond then (None, w)
      else let w = sd_event (se_sv e) ''Warning'' ''schema'' msg w;
               (err, w) = sd_ApplyStatus (se_sv e) (so_nsn sch) newCond None w in
        (map_option (err_wrap ''cannot update status'') err, w))"

section \<open>Reconcile\<close>

definition sd_finalizer :: string where
  "sd_finalizer = ''schema.inv.sdcio.dev/finalizer''"

definition on_world :: "'w sd_state \<Rightarrow> ('w \<Rightarrow> 'r \<times> 'w) \<Rightarrow> 'r \<times> 'w sd_state" where
  "on_world s f = (let (r, w) = f (snd s) in (r, (fst s, w)))"

definition sd_reconcileDelete :: "'w sd_env \<Rightarrow> schema_obj \<Rightarrow> 'w sd_state \<Rightarrow> goerr option \<times> 'w sd_state" where
  "sd_reconcileDelete e sch s =
     (let sv = se_sv e; cannot_delete = ''cannot delete schema from schemaserver'' in
      case on_world s (sd_NewClient sv) of
        (Some err, s) \<Rightarrow> on_world s (sd_handleError e sch cannot_delete (Some err))
      | (None, s) \<Rightarrow>
          (case on_world s (\<lambda>w. case sd_GetDetails sv (GetSchema sch) w of
                (Inl _, w) \<Rightarrow> (None, w) | (Inr _, w) \<Rightarrow> sd_DeleteSchema sv (GetSchema sch) w) of
             (Some err, s) \<Rightarrow> on_world s (sd_handleError e sch cannot_delete (Some err))
           | (None, s) \<Rightarrow>
               (case DelRef e (GetKey sch) s of
                  (Some err, s) \<Rightarrow> on_world s (sd_handleError e sch ''cannot delete reference'' (Some err))
                | (None, s) \<Rightarrow>
                    (case on_world s (RemoveFinalizer sd_finalizer (sd_ApplyFinalizers sv) (so_meta sch)) of
                       (Some err, s) \<Rightarrow> on_world s (sd_handleError e sch ''cannot remove finalizer'' (Some err))
                     | (None, s) \<Rightarrow> (None, s)))))"

definition ensure_loaded :: "'w sd_env \<Rightarrow> schema_obj \<Rightarrow> 'w sd_state
    \<Rightarrow> ((string \<times> goerr) + (string \<times> string) list option) \<times> 'w sd_state" where
  \<comment> \<open>the repositories of the status, or the message and the error of the step that failed\<close>
  "ensure_loaded e sch s =
     (case GetRef e (GetKey sch) s of
        Inl err \<Rightarrow> (Inl (''cannot get schema reference'', err), s)
      | Inr (_, True) \<Rightarrow> (Inr (so_repoStatus sch), s)
      | Inr (_, False) \<Rightarrow>
          (case on_world s (sd_ApplyStatus (se_sv e) (so_nsn sch) (Loading (se_now e)) None) of
             (Some err, s) \<Rightarrow> (Inl (''cannot update status'', err), s)
           | (None, s) \<Rightarrow>
               (case Load e (GetKey sch) (fst s, sd_event (se_sv e) ''Normal'' ''schema'' ''loading'' (snd s)) of
                  (Inl err, s) \<Rightarrow> (Inl (''cannot load schema'', err), s)
                | (Inr statuses, s) \<Rightarrow> (Inr (Some statuses), s))))"

definition status_text :: "schema_status \<Rightarrow> string" where
  "status_text st = (case st of SchemaOk \<Rightarrow> ''OK'' | SchemaFailed \<Rightarrow> ''FAILED'' | SchemaReloading \<Rightarrow> ''RELOADING''
     | SchemaInitializing \<Rightarrow> ''INITIALIZING'')"

definition create_schema :: "'w sd_env \<Rightarrow> schema_obj \<Rightarrow> (string \<times> string) list option \<Rightarrow> 'w \<Rightarrow> goerr option \<times> 'w" where
  "create_schema e sch repos w =
     (case sd_Create (se_sv e) (GetSchema sch) (GetNewSchemaBase sch (se_schemaDir e)) w of
        (Some err, w) \<Rightarrow> sd_handleError e sch ''cannot create schema'' (Some err) w
      | (None, w) \<Rightarrow> sd_handleSuccess e sch repos w)"

definition ensure_created :: "'w sd_env \<Rightarrow> schema_obj \<Rightarrow> (string \<times> string) list option \<Rightarrow> 'w \<Rightarrow> goerr option \<times> 'w" where
  "ensure_created e sch repos w =
     (case sd_NewClient (se_sv e) w of
        (Some err, w) \<Rightarrow> sd_handleError e sch ''cannot get schema client'' (Some err) w
      | (None, w) \<Rightarrow>
          (case sd_GetDetails (se_sv e) (GetSchema sch) w of
             (Inl _, w) \<Rightarrow> create_schema e sch repos w
           | (Inr None, w) \<Rightarrow> sd_handleError e sch ''get schema detail response w/o a response or schems'' None w
           | (Inr (Some SchemaFailed), w) \<Rightarrow> create_schema e sch repos w
           | (Inr (Some SchemaOk), w) \<Rightarrow> sd_handleSuccess e sch repos w
           | (Inr (Some st), w) \<Rightarrow> sd_handleError e sch (''schema '' @ status_text st) None w))"

definition sd_reconcile :: "'w sd_env \<Rightarrow> schema_obj \<Rightarrow> 'w sd_state \<Rightarrow> goerr option \<times> 'w sd_state" where
  "sd_reconcile e sch s =
     (case on_world s (AddFinalizer sd_finalizer (sd_ApplyFinalizers (se_sv e)) (so_meta sch)) of
        (Some err, s) \<Rightarrow> on_world s (sd_handleError e sch ''cannot add finalizer'' (Some err))
      | (None, s) \<Rightarrow>
          (case ensure_loaded e sch (AddRef sch s) of
             (Inl (msg, err), s) \<Rightarrow> on_world s (sd_handleError e sch msg (Some err))
           | (Inr repos, s) \<Rightarrow> on_world s (ensure_created e sch repos)))"

definition sd_Reconcile :: "'w sd_env \<Rightarrow> string \<times> string \<Rightarrow> 'w sd_state \<Rightarrow> goerr option \<times> 'w sd_state" where
  \<comment> \<open>the result never asks for a requeue; an error does\<close>
  "sd_Reconcile e key s =
     (case on_world s (sd_Get (se_sv e) key) of
        (Inl err, s) \<Rightarrow> (map_option (err_wrap ''cannot get cr'') (IgnoreNotFound (Some err)), s)
      | (Inr sch, s) \<Rightarrow>
          (if m_deletionTimestamp (so_meta sch) \<noteq> None then sd_reconcileDelete e sch s else sd_reconcile e sch s))"

section \<open>Where the files go\<close>

definition near :: "string \<Rightarrow> string \<Rightarrow> bool" where
  \<comment> \<open>below \<open>base\<close>, \<open>base\<close> itself, or the directory that holds \<open>base\<close>\<close>
  "near base p \<longleftrightarrow> (\<exists>r. clean_segs p = clean_segs base @ r) \<or> (\<exists>x. clean_segs base = clean_segs p @ [x])"

definition confined ::
  "(string \<Rightarrow> string \<Rightarrow> 'w \<Rightarrow> goerr option \<times> 'w) \<Rightarrow> string \<Rightarrow> string \<Rightarrow> 'w sd_services \<Rightarrow> 'w sd_services" where
  \<comment> \<open>a file system that does \<open>bad\<close> for a copy from or to anywhere else\<close>
  "confined bad localPath base sv = sv\<lparr>sd_Copy := \<lambda>src dst w.
     if near localPath src \<and> near base dst then sd_Copy sv src dst w else bad src dst w\<rparr>"

lemma confined_sel [simp]:
  "sd_Download (confined bad l b sv) = sd_Download sv" "sd_urlPath (confined bad l b sv) = sd_urlPath sv"
  "sd_Acquire (confined bad l b sv) = sd_Acquire sv" "sd_Release (confined bad l b sv) = sd_Release sv"
  by (simp_all add: confined_def)

lemma copy_dirs_confined:
  assumes "is_rooted localPath" "is_rooted base"
  shows "copy_dirs (confined bad localPath base sv) localPath base ds w = copy_dirs sv localPath base ds w"
proof (induction ds arbitrary: w)
  case (Cons d ds)
  obtain s t where d: "d = (s, t)" by (rule prod.exhaust)
  have "near localPath (path_Join [localPath, s])" if "ErrNotIsSubfolder localPath (path_Join [localPath, s]) = None"
    using ErrNotIsSubfolder_exact [OF assms(1) clean_segs_Join(1) [OF assms(1)], of "[s]"] that by (simp add: near_def)
  moreover have "near base (path_Join [base, t])" if "ErrNotIsSubfolder base (path_Join [base, t]) = None"
    using ErrNotIsSubfolder_exact [OF assms(2) clean_segs_Join(1) [OF assms(2)], of "[t]"] that by (simp add: near_def)
  ultimately have c: "sd_Copy (confined bad localPath base sv) (path_Join [localPath, s]) (path_Join [base, t])
      = sd_Copy sv (path_Join [localPath, s]) (path_Join [base, t])"
    if "ErrNotIsSubfolder localPath (path_Join [localPath, s]) = None" "ErrNotIsSubfolder base (path_Join [base, t]) = None"
    using that by (simp add: confined_def)
  show ?case by (simp add: d c Cons.IH Let_def split: option.split prod.split)
qed simp

text \<open>
  C26: A download copies only between the clone and the directory of its schema. Whatever \<open>src\<close> and \<open>dst\<close> the
  directories of a repository name, no copy reads outside the local clone or writes outside the directory of the
  provider and version, with one exception on each side: the directory directly above it, which the guard lets
  pass because it looks for \<open>../\<close> and the relative path of the parent is just \<open>..\<close>. Whatever a file system does for
  other copies, the download does the same with it.
\<close>

theorem copies_stay_near:
  assumes "is_rooted (se_tmpDir e)" "is_rooted (se_schemaDir e)" "sd_urlPath (se_sv e) (rp_URL repo) = Inr p"
  shows "download (e\<lparr>se_sv := confined bad (path_Join [se_tmpDir e, p]) (GetBasePath sch (se_schemaDir e)) (se_sv e)\<rparr>) sch repo w
     = download e sch repo w"
proof -
  let ?l = "path_Join [se_tmpDir e, p]" and ?b = "GetBasePath sch (se_schemaDir e)"
  let ?e = "e\<lparr>se_sv := confined bad ?l ?b (se_sv e)\<rparr>"
  have root: "is_rooted ?l" "is_rooted ?b" using assms(1,2) by (simp_all add: GetBasePath_def clean_segs_Join(1))
  have held: "download_held ?e sch repo w = download_held e sch repo w" for w
  proof -
    obtain r w1 where d: "sd_Download (se_sv e) (m_namespace (so_meta sch)) repo w = (r, w1)" by (rule prod.exhaust)
    show ?thesis using assms(3) by (cases r) (simp_all add: download_held_def d copy_dirs_confined [OF root])
  qed
  obtain r w1 where "sd_Acquire (se_sv e) (rp_URL repo) w = (r, w1)" by (rule prod.exhaust)
  then show ?thesis by (cases r) (simp_all add: download_def held)
qed

lemma base_path_plain:
  assumes "is_rooted dir" "plain_seg (so_provider sch)" "plain_seg (so_version sch)"
  shows "clean_segs (GetBasePath sch dir) = clean_segs dir @ [so_provider sch, so_version sch]"
  using assms by (simp add: GetBasePath_def clean_segs_Join_plain)

lemma base_path_above:
  assumes dir: "is_rooted dir" "clean_segs dir = ds @ [x]" and prov: "so_provider sch = ''..''" and ver: "plain_seg (so_version sch)"
  shows "clean_segs (GetBasePath sch dir) = ds @ [so_version sch]"
proof -
  have prov': "so_provider sch = dotdot" by (simp add: prov dotdot_def)
  have "plain_seg x" using clean_segs_plain [OF dir(1)] dir(2) by simp
  then have "x \<noteq> dotdot" by (simp add: plain_seg_def)
  moreover have "split_on CHR 0x2F dotdot = [dotdot]" by code_simp
  moreover have "split_on CHR 0x2F (so_version sch) = [so_version sch]" using ver by (simp add: plain_seg_def split_on_no_sep)
  moreover have "clean_step True dotdot (x # rev ds) = rev ds" using \<open>x \<noteq> dotdot\<close> by (simp add: clean_step_def dotdot_def)
  moreover have "clean_step True (so_version sch) (rev ds) = so_version sch # rev ds"
    using ver by (simp add: clean_step_def plain_seg_def)
  ultimately show ?thesis by (simp only: GetBasePath_def clean_segs_Join(2) [OF dir(1)] prov' dir(2)) simp
qed

text \<open>
  Deleting a Schema can remove a directory the loader does not own. The provider and the version of a Schema
  become elements of a path without a check: with the provider \<open>..\<close> the directory of the Schema is a sibling of the
  schema directory, and when it exists, deleting the Schema removes it with all it holds.
\<close>

theorem delete_removes_a_sibling:
  assumes "is_rooted (se_schemaDir e)" "clean_segs (se_schemaDir e) = ds @ [x]"
    and sch: "so_provider sch = ''..''" "plain_seg (so_version sch)" "map_of (fst s) (GetKey sch) = Some sch"
    and dir: "sd_DirExists (se_sv e) (GetBasePath sch (se_schemaDir e)) (snd s)"
    and ok: "sd_RemoveDirectory (se_sv e) (GetBasePath sch (se_schemaDir e)) (snd s) = (None, w')"
  shows "clean_segs (GetBasePath sch (se_schemaDir e)) = ds @ [so_version sch]
    \<and> DelRef e (GetKey sch) s = (None, (gm_delete (GetKey sch) (fst s), w'))"
  using base_path_above [OF assms(1,2) sch(1,2)] sch(3) dir ok by (simp add: DelRef_def GetRef_def)

lemma schema_key_collision:
  "so_provider a = ''x'' \<Longrightarrow> so_version a = ''1.2'' \<Longrightarrow> so_provider b = ''x.1'' \<Longrightarrow> so_version b = ''2'' \<Longrightarrow> GetKey a = GetKey b"
  by (simp add: GetKey_def)

section \<open>What a load keeps\<close>

definition keeps :: "('w \<Rightarrow> bool) \<Rightarrow> ('w \<Rightarrow> 'r \<times> 'w) \<Rightarrow> bool" where
  "keeps P f \<longleftrightarrow> (\<forall>w. P w \<longrightarrow> P (snd (f w)))"

lemma sd_keepsD: "keeps P f \<Longrightarrow> P w \<Longrightarrow> f w = (r, w') \<Longrightarrow> P w'"
  unfolding keeps_def by (metis snd_conv)

definition load_quiet :: "'w sd_services \<Rightarrow> ('w \<Rightarrow> bool) \<Rightarrow> bool" where
  "load_quiet sv P \<longleftrightarrow> (\<forall>ns r. keeps P (sd_Download sv ns r)) \<and> (\<forall>u. keeps P (sd_Acquire sv u))
     \<and> (\<forall>u w. P w \<longrightarrow> P (sd_Release sv u w)) \<and> (\<forall>a b. keeps P (sd_Copy sv a b))"

definition api_quiet :: "'w sd_services \<Rightarrow> ('w \<Rightarrow> bool) \<Rightarrow> bool" where
  "api_quiet sv P \<longleftrightarrow> keeps P (sd_NewClient sv) \<and> (\<forall>i. keeps P (sd_GetDetails sv i)) \<and> (\<forall>i b. keeps P (sd_Create sv i b))
     \<and> (\<forall>a b fs. keeps P (sd_ApplyFinalizers sv a b fs)) \<and> (\<forall>a b c w. P w \<longrightarrow> P (sd_Event sv a b c w))"

lemma load_quietD:
  assumes "load_quiet sv P"
  shows "keeps P (sd_Download sv ns r)" "keeps P (sd_Acquire sv u)" "P w \<Longrightarrow> P (sd_Release sv u w)" "keeps P (sd_Copy sv a b)"
  using assms by (auto simp: load_quiet_def)

lemma api_quietD:
  assumes "api_quiet sv P"
  shows "keeps P (sd_NewClient sv)" "keeps P (sd_GetDetails sv i)" "keeps P (sd_Create sv i b)"
    "keeps P (sd_ApplyFinalizers sv n m fs)" "P w \<Longrightarrow> P (sd_Event sv x y z w)"
  using assms by (auto simp: api_quiet_def)

lemma copy_dirs_keeps: "load_quiet sv P \<Longrightarrow> P w \<Longrightarrow> P (snd (copy_dirs sv l b ds w))"
proof (induction ds arbitrary: w)
  case (Cons d ds)
  obtain s t where d: "d = (s, t)" by (rule prod.exhaust)
  obtain r w1 where c: "sd_Copy sv (path_Join [l, s]) (path_Join [b, t]) w = (r, w1)" by (rule prod.exhaust)
  have "P w1" using sd_keepsD [OF load_quietD(4) [OF Cons.prems(1)] Cons.prems(2) c] .
  then show ?case using Cons by (simp add: d c Let_def split: option.split)
qed simp

lemma download_keeps:
  assumes q: "load_quiet (se_sv e) P" and P: "P w"
  shows "P (snd (download e sch repo w))"
proof -
  obtain r1 w1 where a: "sd_Acquire (se_sv e) (rp_URL repo) w = (r1, w1)" by (rule prod.exhaust)
  obtain r2 w2 where d: "sd_Download (se_sv e) (m_namespace (so_meta sch)) repo w1 = (r2, w2)" by (rule prod.exhaust)
  have p1: "P w1" using sd_keepsD [OF load_quietD(2) [OF q] P a] .
  have p2: "P w2" using sd_keepsD [OF load_quietD(1) [OF q] p1 d] .
  have "P (snd (download_held e sch repo w1))"
    using p2 copy_dirs_keeps [OF q p2] by (simp add: download_held_def d split: sum.split option.split prod.split)
      (metis snd_conv)
  then show ?thesis using p1 load_quietD(3) [OF q] by (simp add: download_def a split: option.split prod.split) (metis snd_conv)
qed

lemma load_repos_keeps: "load_quiet (se_sv e) P \<Longrightarrow> P w \<Longrightarrow> P (snd (load_repos e sch rs xs errs w))"
proof (induction rs arbitrary: xs errs w)
  case (Cons r rs)
  obtain x w1 where d: "download e sch r w = (x, w1)" by (rule prod.exhaust)
  have "P w1" using download_keeps [OF Cons.prems, of sch r] d by simp
  then show ?case using Cons by (simp add: d split: sum.split)
qed simp

lemma Load_keeps:
  assumes "load_quiet (se_sv e) P" "P (snd s)" "Load e key s = (r, s')"
  shows "P (snd s')" "fst s' = fst s"
proof -
  have "P (snd s') \<and> fst s' = fst s"
    using assms(2,3) load_repos_keeps [OF assms(1,2)]
    by (auto simp: Load_def split: sum.splits prod.splits option.splits) (metis snd_conv)+
  then show "P (snd s')" "fst s' = fst s" by simp_all
qed

section \<open>What a Schema is reported to be\<close>

definition held :: "schema_obj \<Rightarrow> bool" where
  \<comment> \<open>the finalizer is on the object already\<close>
  "held sch \<longleftrightarrow> FinalizerExists (m_finalizers (so_meta sch)) sd_finalizer"

lemma sd_reconcile_held:
  "held sch \<Longrightarrow> sd_reconcile e sch s =
     (case ensure_loaded e sch (AddRef sch s) of
        (Inl (msg, err), s) \<Rightarrow> on_world s (sd_handleError e sch msg (Some err))
      | (Inr repos, s) \<Rightarrow> on_world s (ensure_created e sch repos))"
  by (cases s) (simp add: sd_reconcile_def held_def AddFinalizer_def on_world_def)

lemma GetRef_AddRef: "GetRef e (GetKey sch) (AddRef sch s) = Inr (sch, sd_DirExists (se_sv e) (GetBasePath sch (se_schemaDir e)) (snd s))"
  by (simp add: GetRef_def AddRef_def)

lemma ensure_loaded_present:
  "sd_DirExists (se_sv e) (GetBasePath sch (se_schemaDir e)) (snd s)
     \<Longrightarrow> ensure_loaded e sch (AddRef sch s) = (Inr (so_repoStatus sch), AddRef sch s)"
  by (simp add: ensure_loaded_def GetRef_AddRef)

lemma ensure_loaded_absent:
  assumes "\<not> sd_DirExists (se_sv e) (GetBasePath sch (se_schemaDir e)) (snd s)"
    "sd_ApplyStatus (se_sv e) (so_nsn sch) (Loading (se_now e)) None (snd s) = (a, w1)"
  shows "ensure_loaded e sch (AddRef sch s) = (let refs = gm_put (GetKey sch) sch (fst s) in
     case a of Some err \<Rightarrow> (Inl (''cannot update status'', err), (refs, w1))
     | None \<Rightarrow> (case Load e (GetKey sch) (refs, sd_event (se_sv e) ''Normal'' ''schema'' ''loading'' w1) of
         (Inl err, s) \<Rightarrow> (Inl (''cannot load schema'', err), s) | (Inr statuses, s) \<Rightarrow> (Inr (Some statuses), s)))"
  using assms by (cases a) (simp_all add: ensure_loaded_def GetRef_def AddRef_def on_world_def)

text \<open>
  C30: A load that fails halfway is never completed. The directory of the schema is the only sign that its files
  are there, and the first repository that is copied creates it. When a later repository of the same Schema
  fails, the load ends in an error; the next reconcile finds the directory, downloads nothing and hands what is
  there to the schema server as if it were the whole schema.
\<close>

theorem partial_load_is_taken_for_complete:
  assumes "held sch" and refs: "map_of (fst s) (GetKey sch) = Some sch"
    and quiet: "load_quiet (se_sv e) (sd_DirExists (se_sv e) (GetBasePath sch (se_schemaDir e)))"
    and repos: "so_repos sch = r # rs"
    and first: "download e sch r (snd s) = (Inr ref, w1)" "sd_DirExists (se_sv e) (GetBasePath sch (se_schemaDir e)) w1"
    and fails: "Load e (GetKey sch) s = (Inl err, s')"
  shows "sd_reconcile e sch s' = on_world (AddRef sch s') (ensure_created e sch (so_repoStatus sch))"
proof -
  let ?dir = "sd_DirExists (se_sv e) (GetBasePath sch (se_schemaDir e))"
  have "?dir (snd (load_repos e sch rs [(rp_URL r, ref)] None w1))" by (rule load_repos_keeps [OF quiet first(2)])
  then have "?dir (snd s')" using fails refs first(1)
    by (auto simp: Load_def GetRef_def repos split: prod.splits option.splits)
  then show ?thesis using assms(1) by (simp add: sd_reconcile_held ensure_loaded_present)
qed

text \<open>\<open>st w\<close>: the Ready condition the API server holds of the Schema.\<close>

definition status_laws :: "'w sd_services \<Rightarrow> ('w \<Rightarrow> condition) \<Rightarrow> bool" where
  "status_laws sv st \<longleftrightarrow> (\<forall>k c a w. (fst (sd_ApplyStatus sv k c a w) = None \<and> st (snd (sd_ApplyStatus sv k c a w)) = c)
       \<or> (fst (sd_ApplyStatus sv k c a w) \<noteq> None \<and> st (snd (sd_ApplyStatus sv k c a w)) = st w))
     \<and> (\<forall>c. load_quiet sv (\<lambda>w. st w = c) \<and> api_quiet sv (\<lambda>w. st w = c))"

lemma sd_status_lawsD:
  assumes "status_laws sv st"
  shows "sd_ApplyStatus sv k c a w = (None, w') \<Longrightarrow> st w' = c" "sd_ApplyStatus sv k c a w = (Some err, w') \<Longrightarrow> st w' = st w"
    "load_quiet sv (\<lambda>w. st w = c)" "api_quiet sv (\<lambda>w. st w = c)"
  using assms unfolding status_laws_def by (metis fst_conv snd_conv option.distinct(1))+

text \<open>
  A Schema can be left at Loading for good. When the directory of a Ready Schema has gone (a restart with an
  empty volume), the controller first reports Loading and then loads and creates the schema again. When that
  ends with the repositories the status had, the guard against needless writes compares with the object as it
  was read, still Ready, and writes nothing: the reconcile succeeds, asks for no requeue, and the API server
  keeps Loading.
\<close>

theorem reloaded_schema_stays_loading:
  assumes "held sch" and laws: "status_laws (se_sv e) st"
    and was: "cond_Equal (Ready (se_now e)) (GetCondition (so_conditions sch) ConditionTypeReady)" "so_repoStatus sch = Some rs"
    and gone: "\<not> sd_DirExists (se_sv e) (GetBasePath sch (se_schemaDir e)) (snd s)"
    and apply_ok: "\<And>k c a w. fst (sd_ApplyStatus (se_sv e) k c a w) = None"
    and load: "\<And>t. map_of (fst t) (GetKey sch) = Some sch \<Longrightarrow> fst (Load e (GetKey sch) t) = Inr rs"
    and server: "\<And>w. fst (sd_NewClient (se_sv e) w) = None" "\<And>i w. isl (fst (sd_GetDetails (se_sv e) i w))"
      "\<And>i b w. fst (sd_Create (se_sv e) i b w) = None"
  shows "fst (sd_reconcile e sch s) = None \<and> st (snd (snd (sd_reconcile e sch s))) = Loading (se_now e)"
proof -
  let ?sv = "se_sv e" and ?P = "\<lambda>w. st w = Loading (se_now e)"
  obtain w1 where a: "sd_ApplyStatus ?sv (so_nsn sch) (Loading (se_now e)) None (snd s) = (None, w1)"
    using apply_ok by (metis prod.collapse)
  have p1: "?P w1" using sd_status_lawsD(1) [OF laws a] .
  let ?w2 = "sd_event ?sv ''Normal'' ''schema'' ''loading'' w1"
  have p2: "?P ?w2" using p1 api_quietD(5) [OF sd_status_lawsD(4) [OF laws]] by (simp add: sd_event_def split: option.split)
  obtain s3 where l: "Load e (GetKey sch) (gm_put (GetKey sch) sch (fst s), ?w2) = (Inr rs, s3)"
    using load [of "(gm_put (GetKey sch) sch (fst s), ?w2)"] by (cases "Load e (GetKey sch) (gm_put (GetKey sch) sch (fst s), ?w2)") simp
  have p3: "?P (snd s3)" using Load_keeps(1) [OF sd_status_lawsD(3) [OF laws] _ l] p2 by simp
  have loaded: "ensure_loaded e sch (AddRef sch s) = (Inr (Some rs), s3)"
    using ensure_loaded_absent [OF gone a] l by simp
  obtain w4 where n: "sd_NewClient ?sv (snd s3) = (None, w4)" using server(1) by (metis prod.collapse)
  obtain de w5 where d: "sd_GetDetails ?sv (GetSchema sch) w4 = (Inl de, w5)" using server(2) by (metis prod.collapse isl_def)
  obtain w6 where c: "sd_Create ?sv (GetSchema sch) (GetNewSchemaBase sch (se_schemaDir e)) w5 = (None, w6)"
    using server(3) by (metis prod.collapse)
  have "?P w4" using sd_keepsD [OF api_quietD(1) [OF sd_status_lawsD(4) [OF laws]] p3 n] .
  then have "?P w5" using sd_keepsD [OF api_quietD(2) [OF sd_status_lawsD(4) [OF laws]] _ d] by blast
  then have "?P w6" using sd_keepsD [OF api_quietD(3) [OF sd_status_lawsD(4) [OF laws]] _ c] by blast
  moreover have "ensure_created e sch (Some rs) (snd s3) = (None, w6)"
    using was by (simp add: ensure_created_def n d create_schema_def c sd_handleSuccess_def)
  ultimately show ?thesis using assms(1) by (simp add: sd_reconcile_held loaded on_world_def)
qed

definition server_laws :: "'w sd_services \<Rightarrow> schema_id \<Rightarrow> ('w \<Rightarrow> bool) \<Rightarrow> bool" where
  \<comment> \<open>\<open>has\<close>: the schema server has this schema; nothing the reconcile of a live Schema calls takes it away\<close>
  "server_laws sv i has \<longleftrightarrow> (\<forall>w w'. sd_GetDetails sv i w = (Inr (Some SchemaOk), w') \<longrightarrow> has w')
     \<and> (\<forall>b w w'. sd_Create sv i b w = (None, w') \<longrightarrow> has w') \<and> load_quiet sv has \<and> api_quiet sv has
     \<and> (\<forall>k c a. keeps has (sd_ApplyStatus sv k c a))"

lemma Loading_not_ready [simp]: "\<not> IsTrue (Loading now)" "\<not> IsTrue (Failed now msg)"
  by (simp_all add: IsTrue_def Loading_def Failed_def NewCondition_def ConditionTrue_def ConditionFalse_def)

definition sound :: "('w \<Rightarrow> condition) \<Rightarrow> ('w \<Rightarrow> bool) \<Rightarrow> 'w \<Rightarrow> bool" where
  "sound st has w \<longleftrightarrow> (IsTrue (st w) \<longrightarrow> has w)"

lemma keeps_sound:
  "(\<And>c. keeps (\<lambda>w. st w = c) f) \<Longrightarrow> keeps has f \<Longrightarrow> keeps (sound st has) f"
  unfolding keeps_def sound_def by metis

lemma quiet_sound:
  assumes "status_laws sv st" "server_laws sv i has"
  shows "load_quiet sv (sound st has)" "api_quiet sv (sound st has)"
proof -
  have l: "load_quiet sv (\<lambda>w. st w = c)" "api_quiet sv (\<lambda>w. st w = c)" "load_quiet sv has" "api_quiet sv has" for c
    using assms by (auto simp: status_laws_def server_laws_def)
  show "load_quiet sv (sound st has)"
    using l(1) l(3) unfolding load_quiet_def by (auto intro!: keeps_sound) (auto simp: sound_def)
  show "api_quiet sv (sound st has)"
    using l(2) l(4) unfolding api_quiet_def by (auto intro!: keeps_sound) (auto simp: sound_def)
qed

lemma server_applies: "server_laws sv i has \<Longrightarrow> keeps has (sd_ApplyStatus sv k c a)"
  unfolding server_laws_def by blast

lemma handleError_sound:
  assumes st: "status_laws (se_sv e) st" and srv: "server_laws (se_sv e) i has" and s: "sound st has w"
  shows "sound st has (snd (sd_handleError e sch msg err w))"
proof -
  have ev: "sound st has (sd_event (se_sv e) a b c w)" for a b c
    using s api_quietD(5) [OF quiet_sound(2) [OF st srv]] by (simp add: sd_event_def split: option.split)
  have ap: "sound st has (snd (sd_ApplyStatus (se_sv e) k (Failed n m) a w))" if "sound st has w" for k n m a w
  proof -
    obtain r w' where r: "sd_ApplyStatus (se_sv e) k (Failed n m) a w = (r, w')" by (rule prod.exhaust)
    note server_applies [OF srv, of k "Failed n m" a]
    then show ?thesis using that sd_status_lawsD(1,2) [OF st] r by (cases r) (auto simp: sound_def dest: sd_keepsD)
  qed
  show ?thesis using s ap [OF ev] by (auto simp: sd_handleError_def Let_def split: prod.split) (metis snd_conv)+
qed

lemma handleSuccess_sound:
  assumes st: "status_laws (se_sv e) st" and srv: "server_laws (se_sv e) i has" and s: "sound st has w" "has w"
  shows "sound st has (snd (sd_handleSuccess e sch repos w))"
proof -
  have "has (sd_event (se_sv e) a b c w)" for a b c
    using s(2) srv by (auto simp: server_laws_def api_quiet_def sd_event_def split: option.split)
  moreover have "has w \<Longrightarrow> has (snd (sd_ApplyStatus (se_sv e) k c a w))" for k c a w
    using server_applies [OF srv] by (simp add: keeps_def)
  ultimately show ?thesis using s by (auto simp: sd_handleSuccess_def Let_def sound_def split: prod.split) (metis snd_conv)+
qed

lemma create_schema_sound:
  assumes st: "status_laws (se_sv e) st" and srv: "server_laws (se_sv e) (GetSchema sch) has" and s: "sound st has w"
  shows "sound st has (snd (create_schema e sch repos w))"
proof -
  obtain r w1 where c: "sd_Create (se_sv e) (GetSchema sch) (GetNewSchemaBase sch (se_schemaDir e)) w = (r, w1)" by (rule prod.exhaust)
  have p: "sound st has w1" using sd_keepsD [OF api_quietD(3) [OF quiet_sound(2) [OF st srv]] s c] .
  show ?thesis
  proof (cases r)
    case None
    then have "has w1" using c srv by (auto simp: server_laws_def)
    then show ?thesis using None c handleSuccess_sound [OF st srv p] by (simp add: create_schema_def)
  qed (use c handleError_sound [OF st srv p] in \<open>simp add: create_schema_def\<close>)
qed

lemma ensure_created_sound:
  assumes st: "status_laws (se_sv e) st" and srv: "server_laws (se_sv e) (GetSchema sch) has" and s: "sound st has w"
  shows "sound st has (snd (ensure_created e sch repos w))"
proof -
  note q = quiet_sound(2) [OF st srv]
  obtain n w1 where n: "sd_NewClient (se_sv e) w = (n, w1)" by (rule prod.exhaust)
  obtain d w2 where d: "sd_GetDetails (se_sv e) (GetSchema sch) w1 = (d, w2)" by (rule prod.exhaust)
  have p1: "sound st has w1" using sd_keepsD [OF api_quietD(1) [OF q] s n] .
  have p2: "sound st has w2" using sd_keepsD [OF api_quietD(2) [OF q] p1 d] .
  have ok: "has w2" if "d = Inr (Some SchemaOk)" using that d srv by (auto simp: server_laws_def)
  show ?thesis
    using handleError_sound [OF st srv p1] handleError_sound [OF st srv p2] create_schema_sound [OF st srv p2]
      handleSuccess_sound [OF st srv p2] ok n d
    by (auto simp: ensure_created_def split: option.split sum.split schema_status.split)
qed

lemma ensure_loaded_sound:
  assumes st: "status_laws (se_sv e) st" and srv: "server_laws (se_sv e) i has" and s: "sound st has (snd s)"
    and run: "ensure_loaded e sch (AddRef sch s) = (r, s')"
  shows "sound st has (snd s')"
proof (cases "sd_DirExists (se_sv e) (GetBasePath sch (se_schemaDir e)) (snd s)")
  case True
  then have "s' = AddRef sch s" using run by (simp add: ensure_loaded_present)
  then show ?thesis using s by (simp add: AddRef_def)
next
  case False
  obtain a w1 where a: "sd_ApplyStatus (se_sv e) (so_nsn sch) (Loading (se_now e)) None (snd s) = (a, w1)" by (rule prod.exhaust)
  have keep: "has (snd s) \<Longrightarrow> has w1" using sd_keepsD [OF server_applies [OF srv]] a by blast
  have p1: "sound st has w1" using sd_status_lawsD(1,2) [OF st] a s keep by (cases a) (auto simp: sound_def)
  show ?thesis
  proof (cases a)
    case None
    have p2: "sound st has (sd_event (se_sv e) x y z w1)" for x y z
      using p1 api_quietD(5) [OF quiet_sound(2) [OF st srv]] by (simp add: sd_event_def split: option.split)
    obtain x s3 where l: "Load e (GetKey sch) (gm_put (GetKey sch) sch (fst s), sd_event (se_sv e) ''Normal'' ''schema'' ''loading'' w1) = (x, s3)"
      by (rule prod.exhaust)
    have "sound st has (snd s3)" using Load_keeps(1) [OF quiet_sound(1) [OF st srv] _ l] p2 by simp
    then show ?thesis using run ensure_loaded_absent [OF False a] l None by (auto simp: Let_def split: sum.splits)
  qed (use run p1 ensure_loaded_absent [OF False a] in \<open>auto simp: Let_def\<close>)
qed

text \<open>
  C18: A Schema is reported Ready only when the schema server has it. If the Ready condition of a Schema says no
  more than the schema server can answer for before a reconcile, this is so after it, whatever the downloads, the
  file system, the servers and the writes of the status answer: a Ready that is written follows a server that
  answered with a status of OK, or one that accepted the schema just before.
\<close>

theorem ready_schema_is_served:
  assumes st: "status_laws (se_sv e) st" and srv: "server_laws (se_sv e) (GetSchema sch) has"
    and s: "sound st has (snd s)" and run: "sd_reconcile e sch s = (err, s')"
  shows "sound st has (snd s')"
proof -
  obtain f w1 where f: "AddFinalizer sd_finalizer (sd_ApplyFinalizers (se_sv e)) (so_meta sch) (snd s) = (f, w1)" by (rule prod.exhaust)
  have p1: "sound st has w1" using f s sd_keepsD [OF api_quietD(4) [OF quiet_sound(2) [OF st srv]] s]
    by (auto simp: AddFinalizer_def split: if_splits)
  show ?thesis
  proof (cases f)
    case (Some fe)
    then show ?thesis using run f handleError_sound [OF st srv p1, of sch "''cannot add finalizer''" f]
      by (auto simp: sd_reconcile_def on_world_def split: prod.splits)
  next
    case None
    obtain r s2 where l: "ensure_loaded e sch (AddRef sch (fst s, w1)) = (r, s2)" by (rule prod.exhaust)
    have p2: "sound st has (snd s2)" using ensure_loaded_sound [OF st srv _ l] p1 by simp
    have "sound st has (snd (sd_handleError e sch m x (snd s2)))" "sound st has (snd (ensure_created e sch y (snd s2)))" for m x y
      using handleError_sound [OF st srv p2] ensure_created_sound [OF st srv p2] by simp_all
    then show ?thesis using run f l None
      by (auto simp: sd_reconcile_def on_world_def split: sum.splits prod.splits) (metis snd_conv)+
  qed
qed

section \<open>A sample system\<close>

text \<open>The world of the sample: the directories there are, the condition the API server holds, whether the schema server has the schema.\<close>

type_synonym sd_sample = "string list \<times> condition \<times> bool"

definition sd_sample_sv :: "sd_sample sd_services" where
  "sd_sample_sv = \<lparr>
     sd_Get = (\<lambda>k w. (Inl (err_new ''none''), w)),
     sd_Download = (\<lambda>ns r w. (if rp_Ref r = ''bad'' then Inl (err_new ''unreachable'') else Inr ''c0ffee'', w)),
     sd_urlPath = (\<lambda>u. Inr u), sd_Acquire = (\<lambda>u w. (None, w)), sd_Release = (\<lambda>u w. w),
     sd_DirExists = (\<lambda>p (ds, r). p \<in> set ds),
     sd_RemoveDirectory = (\<lambda>p (ds, r). (None, (filter (\<lambda>d. d \<noteq> p) ds, r))),
     sd_Copy = (\<lambda>a b (ds, r). (None, (b # ds, r))),
     sd_NewClient = (\<lambda>w. (None, w)), sd_GetDetails = (\<lambda>i w. (Inl (err_new ''unknown schema''), w)),
     sd_Create = (\<lambda>i b (ds, c, h). (None, (ds, c, True))), sd_DeleteSchema = (\<lambda>i (ds, c, h). (None, (ds, c, False))),
     sd_ApplyStatus = (\<lambda>k c a (ds, c', h). (None, (ds, c, h))), sd_ApplyFinalizers = (\<lambda>n ns fs w. (None, w)),
     sd_Event = (\<lambda>t r m w. w)\<rparr>"

definition sd_sample_env :: "sd_sample sd_env" where
  "sd_sample_env = \<lparr>se_sv = sd_sample_sv, se_tmpDir = ''/schemas/tmp'', se_schemaDir = ''/schemas'', se_now = 7\<rparr>"

definition sample_repo :: "string \<Rightarrow> schema_repo" where
  "sample_repo ref = \<lparr>rp_URL = ''/org/repo'', rp_Ref = ref, rp_Kind = ''tag'', rp_Credentials = [], rp_Proxy = None, rp_Dirs = [],
     rp_Models = [''m''], rp_Includes = [], rp_Excludes = []\<rparr>"

definition sample_schema :: "string \<Rightarrow> schema_repo list \<Rightarrow> schema_obj" where
  "sample_schema provider rs = \<lparr>so_meta = \<lparr>m_name = ''s'', m_namespace = ''ns'', m_labels = [], m_annotations = [],
       m_finalizers = [sd_finalizer], m_generation = 1, m_deletionTimestamp = None, m_uid = [], m_resourceVersion = [],
       m_ownerReferences = []\<rparr>,
     so_provider = provider, so_version = ''1'', so_repos = rs, so_conditions = [Ready 3],
     so_repoStatus = Some [(''/org/repo'', ''c0ffee'')]\<rparr>"

lemma sample_quiet:
  "load_quiet sd_sample_sv (sd_DirExists sd_sample_sv p)"
  "status_laws sd_sample_sv (\<lambda>w. fst (snd w))" "server_laws sd_sample_sv i (\<lambda>w. snd (snd w))"
  by (auto simp: load_quiet_def api_quiet_def keeps_def status_laws_def server_laws_def sd_sample_sv_def)

lemma copies_stay_near_witness:
  "download (sd_sample_env\<lparr>se_sv := confined (\<lambda>a b w. (Some (err_new ''outside''), w)) (path_Join [''/schemas/tmp'', ''/org/repo''])
       (GetBasePath (sample_schema ''nokia'' []) ''/schemas'') sd_sample_sv\<rparr>)
     (sample_schema ''nokia'' []) (sample_repo ''v1'') ([], Ready 3, False)
   = download sd_sample_env (sample_schema ''nokia'' []) (sample_repo ''v1'') ([], Ready 3, False)"
  using copies_stay_near [of sd_sample_env "sample_repo ''v1''" "''/org/repo''" "\<lambda>a b w. (Some (err_new ''outside''), w)"
      "sample_schema ''nokia'' []" "([], Ready 3, False)"]
  by (simp add: sd_sample_env_def sd_sample_sv_def sample_repo_def is_rooted_def)

lemma delete_removes_a_sibling_witness:
  "clean_segs (GetBasePath (sample_schema ''..'' []) ''/schemas'') = [''1'']
    \<and> DelRef sd_sample_env ''...1'' ([(''...1'', sample_schema ''..'' [])], ([''/1'', ''/schemas''], Ready 3, False))
      = (None, ([], ([''/schemas''], Ready 3, False)))"
proof -
  have key: "GetKey (sample_schema ''..'' []) = ''...1''" by (simp add: GetKey_def sample_schema_def)
  have "clean_segs (se_schemaDir sd_sample_env) = [] @ [''schemas'']" by code_simp
  moreover have "plain_seg (so_version (sample_schema ''..'' []))" by (simp add: sample_schema_def plain_seg_def dotdot_def)
  moreover have "sd_DirExists (se_sv sd_sample_env) (GetBasePath (sample_schema ''..'' []) (se_schemaDir sd_sample_env)) ([''/1'', ''/schemas''], Ready 3, False)"
    by code_simp
  moreover have "sd_RemoveDirectory (se_sv sd_sample_env) (GetBasePath (sample_schema ''..'' []) (se_schemaDir sd_sample_env))
      ([''/1'', ''/schemas''], Ready 3, False) = (None, ([''/schemas''], Ready 3, False))"
    by code_simp
  ultimately show ?thesis
    using delete_removes_a_sibling [of sd_sample_env "[]" "''schemas''" "sample_schema ''..'' []"
        "([(''...1'', sample_schema ''..'' [])], ([''/1'', ''/schemas''], Ready 3, False))" "([''/schemas''], Ready 3, False)"]
    by (simp add: key) (simp add: sd_sample_env_def sample_schema_def is_rooted_def)
qed

definition half_schema :: schema_obj where
  "half_schema = sample_schema ''nokia'' [sample_repo ''v1'', sample_repo ''bad'']"

definition half_loaded :: "sd_sample sd_state" where
  "half_loaded = ([(''nokia.1'', half_schema)], ([''/schemas/nokia/1''], Ready 3, False))"

lemma partial_load_is_taken_for_complete_witness:
  "sd_reconcile sd_sample_env half_schema half_loaded
    = on_world (AddRef half_schema half_loaded) (ensure_created sd_sample_env half_schema (so_repoStatus half_schema))"
proof (rule partial_load_is_taken_for_complete [where s = "([(''nokia.1'', half_schema)], ([], Ready 3, False))"
      and r = "sample_repo ''v1''" and rs = "[sample_repo ''bad'']" and ref = "''c0ffee''" and err = "err_new ''unreachable''"
      and ?w1.0 = "([''/schemas/nokia/1''], Ready 3, False)"])
  show "held half_schema" by code_simp
  show "load_quiet (se_sv sd_sample_env) (sd_DirExists (se_sv sd_sample_env) (GetBasePath half_schema (se_schemaDir sd_sample_env)))"
    using sample_quiet(1) by (simp add: sd_sample_env_def)
  show "so_repos half_schema = sample_repo ''v1'' # [sample_repo ''bad'']" by (simp add: half_schema_def sample_schema_def)
  show "map_of (fst ([(''nokia.1'', half_schema)], ([], Ready 3, False))) (GetKey half_schema) = Some half_schema"
    by (simp add: GetKey_def half_schema_def sample_schema_def)
  show "download sd_sample_env half_schema (sample_repo ''v1'') (snd ([(''nokia.1'', half_schema)], ([], Ready 3, False)))
      = (Inr ''c0ffee'', ([''/schemas/nokia/1''], Ready 3, False))" by code_simp
  show "sd_DirExists (se_sv sd_sample_env) (GetBasePath half_schema (se_schemaDir sd_sample_env)) ([''/schemas/nokia/1''], Ready 3, False)"
    by code_simp
  show "Load sd_sample_env (GetKey half_schema) ([(''nokia.1'', half_schema)], ([], Ready 3, False)) = (Inl (err_new ''unreachable''), half_loaded)"
    by code_simp
qed

definition whole_schema :: schema_obj where
  "whole_schema = sample_schema ''nokia'' [sample_repo ''v1'']"

lemma whole_schema_loads:
  assumes "map_of (fst t) (GetKey whole_schema) = Some whole_schema"
  shows "fst (Load sd_sample_env (GetKey whole_schema) t) = Inr [(''/org/repo'', ''c0ffee'')]"
proof -
  have ok: "ErrNotIsSubfolder (path_Join [''/schemas/tmp'', ''/org/repo'']) (path_Join [path_Join [''/schemas/tmp'', ''/org/repo''], ''.'']) = None"
    "ErrNotIsSubfolder (GetBasePath whole_schema ''/schemas'') (path_Join [GetBasePath whole_schema ''/schemas'', ''.'']) = None"
    by code_simp+
  have "download sd_sample_env whole_schema (sample_repo ''v1'') w = (Inr ''c0ffee'', (path_Join [GetBasePath whole_schema ''/schemas'', ''.''] # fst w, snd w))" for w
    using ok by (simp add: download_def download_held_def sd_sample_env_def sd_sample_sv_def sample_repo_def default_dirs_def split: prod.split)
  then show ?thesis using assms
    by (simp add: Load_def GetRef_def) (simp add: whole_schema_def sample_schema_def sample_repo_def)
qed

lemma reloaded_schema_stays_loading_witness:
  "fst (sd_reconcile sd_sample_env whole_schema ([], ([], Ready 3, False))) = None
    \<and> fst (snd (snd (snd (sd_reconcile sd_sample_env whole_schema ([], ([], Ready 3, False)))))) = Loading 7"
proof -
  have "fst (sd_reconcile sd_sample_env whole_schema ([], ([], Ready 3, False))) = None
    \<and> fst (snd (snd (snd (sd_reconcile sd_sample_env whole_schema ([], ([], Ready 3, False)))))) = Loading (se_now sd_sample_env)"
  proof (rule reloaded_schema_stays_loading [where st = "\<lambda>w. fst (snd w)" and rs = "[(''/org/repo'', ''c0ffee'')]"])
    show "held whole_schema" by code_simp
    show "status_laws (se_sv sd_sample_env) (\<lambda>w. fst (snd w))" using sample_quiet(2) by (simp add: sd_sample_env_def)
    show "cond_Equal (Ready (se_now sd_sample_env)) (GetCondition (so_conditions whole_schema) ConditionTypeReady)" by code_simp
    show "so_repoStatus whole_schema = Some [(''/org/repo'', ''c0ffee'')]" by (simp add: whole_schema_def sample_schema_def)
  qed (simp_all add: whole_schema_loads, simp_all add: sd_sample_env_def sd_sample_sv_def isl_def split: prod.split)
  then show ?thesis by (simp add: sd_sample_env_def)
qed

lemma ready_schema_is_served_witness:
  "sound (\<lambda>w. fst (snd w)) (\<lambda>w. snd (snd w)) (snd (snd (sd_reconcile sd_sample_env whole_schema ([], ([], Loading 3, False)))))"
  by (rule ready_schema_is_served [where e = sd_sample_env and sch = whole_schema, OF _ _ _ prod.collapse [symmetric]])
    (use sample_quiet(2,3) in \<open>auto simp: sd_sample_env_def sound_def\<close>)

end
