(* ===== verification/WorkspaceController.thy ===== *)
theory WorkspaceController
  imports Git SchemaController
begin

text \<open>
  The Workspace controller (\<open>pkg/reconcilers/workspace\<close>): the commit a Workspace names is made available
  locally and becomes a Rollout of the same name, whose Ready condition decides what the Workspace reports.
  The first section holds the loaders that lead to theory \<open>Git\<close> (\<open>pkg/workspace/loader.go\<close> and
  \<open>pkg/schema/gitdownloader.go\<close>). The API server and the loader of the controller are \<open>ws_services\<close>.
\<close>

section \<open>Resources\<close>

record repository =
  ry_RepoURL :: string
  ry_Credentials :: string
  ry_Proxy :: "string option"
  ry_Kind :: string
  ry_Ref :: string

record workspace =
  wk_apiVersion :: string
  wk_kind :: string
  wk_meta :: objmeta
  wk_repo :: repository
  wk_conditions :: "condition list"

record rollout_cr =
  wr_apiVersion :: string
  wr_kind :: string
  wr_meta :: objmeta
  wr_repo :: repository
  wr_strategy :: string
  wr_skipUnavailableTarget :: "bool option"
  wr_conditions :: "condition list"

section \<open>Loaders\<close>

text \<open>
  \<open>parse\<close>: \<open>url.Parse\<close>, giving the path of the URL and its text.
\<close>

definition NewRepo :: "(string \<Rightarrow> gerr + (string \<times> string)) \<Rightarrow> string \<Rightarrow> gerr + (string \<times> string)" where
  "NewRepo parse u = (case parse u of
     Inl err \<Rightarrow> Inl (UnrecoverableError (''cannot parse urlPath: '' @ u) (Some err)) | Inr x \<Rightarrow> Inr x)"

definition SetProxy :: "(string \<Rightarrow> gerr + (string \<times> string)) \<Rightarrow> string option \<Rightarrow> gerr option" where
  \<comment> \<open>called for a proxy with a URL; the transport it changes is the library's\<close>
  "SetProxy parse proxy = (case proxy of
     Some (c # cs) \<Rightarrow> (case parse (c # cs) of Inl err \<Rightarrow> Some err | Inr _ \<Rightarrow> None) | _ \<Rightarrow> None)"

definition ws_EnsureCommit ::
  "'w git_lib \<Rightarrow> (string \<Rightarrow> gerr + (string \<times> string)) \<Rightarrow> string \<Rightarrow> workspace \<Rightarrow> 'w \<Rightarrow> (gerr + string) outcome \<times> 'w" where
  "ws_EnsureCommit lib parse workspaceDir ws w =
     (case NewRepo parse (ry_RepoURL (wk_repo ws)) of
        Inl err \<Rightarrow> (Ends (Inl err), w)
      | Inr (p, url) \<Rightarrow>
          (let (g, s) = NewGoGit lib \<lparr>gp_CloneURL = url, gp_Branch = [], gp_Tag = [], gp_LocalPath = path_Join [workspaceDir, p]\<rparr>
                 (m_namespace (wk_meta ws), ry_Credentials (wk_repo ws)) w in
           case SetProxy parse (ry_Proxy (wk_repo ws)) of
             Some err \<Rightarrow> (Ends (Inl err), w)
           | None \<Rightarrow> (case EnsureCommit g (ry_Ref (wk_repo ws)) s of (r, s) \<Rightarrow> (r, st_w s))))"

definition gitDownloader_Download ::
  "'w git_lib \<Rightarrow> (string \<Rightarrow> gerr + (string \<times> string)) \<Rightarrow> string \<Rightarrow> string \<Rightarrow> schema_repo \<Rightarrow> 'w \<Rightarrow> (gerr + string) outcome \<times> 'w" where
  "gitDownloader_Download lib parse destDir ns repo w =
     (case NewRepo parse (rp_URL repo) of
        Inl err \<Rightarrow> (Ends (Inl err), w)
      | Inr (p, url) \<Rightarrow>
          (let is_branch = (rp_Kind repo = ''branch'');
               (g, s) = NewGoGit lib \<lparr>gp_CloneURL = url, gp_Branch = if is_branch then rp_Ref repo else [],
                 gp_Tag = if is_branch then [] else rp_Ref repo, gp_LocalPath = path_Join [destDir, p]\<rparr>
                 (ns, rp_Credentials repo) w in
           case SetProxy parse (rp_Proxy repo) of
             Some err \<Rightarrow> (Ends (Inl err), w)
           | None \<Rightarrow>
               (case Clone g s of
                  (Ends (Inr _), s) \<Rightarrow> (case CurrentReference g s of (r, s) \<Rightarrow> (Ends r, st_w s))
                | (Ends (Inl err), s) \<Rightarrow> (Ends (Inl err), st_w s)
                | (Crashes, s) \<Rightarrow> (Crashes, st_w s)
                | (Hangs, s) \<Rightarrow> (Hangs, st_w s))))"

definition LocalPath :: "(string \<Rightarrow> gerr + (string \<times> string)) \<Rightarrow> string \<Rightarrow> string \<Rightarrow> gerr + string" where
  "LocalPath parse destDir urlPath = (case NewRepo parse urlPath of Inl err \<Rightarrow> Inl err | Inr (p, _) \<Rightarrow> Inr (path_Join [destDir, p]))"

section \<open>Services\<close>

record 'w ws_services =
  wv_Get :: "string \<times> string \<Rightarrow> 'w \<Rightarrow> (goerr + workspace) \<times> 'w"
  wv_GetRollout :: "string \<times> string \<Rightarrow> 'w \<Rightarrow> (goerr + rollout_cr) \<times> 'w"
  wv_CreateRollout :: "rollout_cr \<Rightarrow> 'w \<Rightarrow> goerr option \<times> 'w"
  wv_UpdateRollout :: "rollout_cr \<Rightarrow> 'w \<Rightarrow> goerr option \<times> 'w"
  wv_DeleteRollout :: "rollout_cr \<Rightarrow> 'w \<Rightarrow> goerr option \<times> 'w"
  wv_EnsureCommit :: "workspace \<Rightarrow> 'w \<Rightarrow> (goerr + string) \<times> 'w"
  wv_ApplyStatus :: "string \<times> string \<Rightarrow> condition \<Rightarrow> 'w \<Rightarrow> goerr option \<times> 'w"
  wv_ApplyFinalizers :: "string \<Rightarrow> string \<Rightarrow> string list \<Rightarrow> 'w \<Rightarrow> goerr option \<times> 'w"
  wv_Event :: "string \<Rightarrow> string \<Rightarrow> 'w \<Rightarrow> 'w"

record 'w ws_env =
  we_sv :: "'w ws_services"
  we_now :: nat

abbreviation wk_nsn :: "workspace \<Rightarrow> string \<times> string" where
  "wk_nsn ws \<equiv> (m_namespace (wk_meta ws), m_name (wk_meta ws))"

definition ws_finalizer :: string where
  "ws_finalizer = ''workspace.inv.sdcio.dev/finalizer''"

section \<open>The state of the rollout\<close>

definition ConditionType_RolloutGetFailed :: string where "ConditionType_RolloutGetFailed = ''rolloutGetFailed''"
definition ConditionType_RollingOut :: string where "ConditionType_RollingOut = ''rollingOut''"
definition ConditionType_RolloutFailed :: string where "ConditionType_RolloutFailed = ''rolloutFailed''"
definition ConditionType_RolloutDone :: string where "ConditionType_RolloutDone = ''ready''"
definition ConditionType_RolloutDone_NoMatchRef :: string where "ConditionType_RolloutDone_NoMatchRef = ''done_nomatch_ref''"
definition ConditionType_RolloutDone_MatchRefNew :: string where "ConditionType_RolloutDone_MatchRefNew = ''done_nomatch_ref_new''"

lemmas rollout_types = ConditionType_RolloutGetFailed_def ConditionType_RollingOut_def ConditionType_RolloutFailed_def
  ConditionType_RolloutDone_def ConditionType_RolloutDone_NoMatchRef_def ConditionType_RolloutDone_MatchRefNew_def

definition ws_condition :: "nat \<Rightarrow> string \<Rightarrow> string \<Rightarrow> string \<Rightarrow> string \<Rightarrow> condition" where
  "ws_condition now t st reason msg = \<lparr>cType = t, cStatus = st, cReason = reason, cMessage = msg,
     cObservedGeneration = 0, cLastTransitionTime = now\<rparr>"

definition RolloutGetFailed :: "nat \<Rightarrow> string \<Rightarrow> condition" where
  "RolloutGetFailed now msg = ws_condition now ConditionType_RolloutGetFailed ConditionFalse ConditionReasonFailed msg"

definition RollingOut :: "nat \<Rightarrow> condition" where
  "RollingOut now = ws_condition now ConditionType_RollingOut ConditionFalse ConditionReasonRollout []"

definition RolloutFailed :: "nat \<Rightarrow> string \<Rightarrow> condition" where
  "RolloutFailed now msg = ws_condition now ConditionType_RolloutFailed ConditionFalse ConditionReasonFailed msg"

definition RolloutDone_NoMatchRef :: "nat \<Rightarrow> condition" where
  "RolloutDone_NoMatchRef now = ws_condition now ConditionType_RolloutDone_NoMatchRef ConditionFalse ConditionReasonRollout []"

definition RolloutDone_NoMatchRefNew :: "nat \<Rightarrow> condition" where
  "RolloutDone_NoMatchRefNew now = ws_condition now ConditionType_RolloutDone_MatchRefNew ConditionFalse ConditionReasonRollout []"

definition RolloutDone :: "nat \<Rightarrow> condition" where
  "RolloutDone now = ws_condition now ConditionType_RolloutDone ConditionTrue ConditionReasonReady []"

definition getRolloutStatus :: "'w ws_env \<Rightarrow> workspace \<Rightarrow> 'w \<Rightarrow> (rollout_cr option \<times> condition) \<times> 'w" where
  "getRolloutStatus e ws w =
     (case wv_GetRollout (we_sv e) (wk_nsn ws) w of
        (Inl err, w) \<Rightarrow> (if \<not> IsNotFound (Some err) then ((None, RolloutGetFailed (we_now e) (e_msg err)), w)
          else ((None, RolloutDone_NoMatchRefNew (we_now e)), w))
      | (Inr r, w) \<Rightarrow>
          (let c = GetCondition (wr_conditions r) ConditionTypeReady in
           ((Some r, if cStatus c \<noteq> ConditionTrue
              then (if cReason c = ConditionReasonFailed then RolloutFailed (we_now e) (cMessage c) else RollingOut (we_now e))
              else if ry_Ref (wk_repo ws) \<noteq> ry_Ref (wr_repo r) then RolloutDone_NoMatchRef (we_now e)
              else RolloutDone (we_now e)), w)))"

definition networkWide :: string where "networkWide = ''networkWideTransaction''"

definition BuildRollout :: "objmeta \<Rightarrow> repository \<Rightarrow> string \<Rightarrow> bool option \<Rightarrow> rollout_cr" where
  "BuildRollout meta repo strategy skip = \<lparr>wr_apiVersion = ''inv.sdcio.dev/v1alpha1'', wr_kind = ''Rollout'', wr_meta = meta,
     wr_repo = repo, wr_strategy = strategy, wr_skipUnavailableTarget = skip, wr_conditions = []\<rparr>"

definition new_rollout :: "workspace \<Rightarrow> rollout_cr" where
  "new_rollout ws = BuildRollout
     \<lparr>m_name = m_name (wk_meta ws), m_namespace = m_namespace (wk_meta ws), m_labels = [], m_annotations = [], m_finalizers = [],
      m_generation = 0, m_deletionTimestamp = None, m_uid = [], m_resourceVersion = [],
      m_ownerReferences = [\<lparr>or_apiVersion = wk_apiVersion ws, or_kind = wk_kind ws, or_name = m_name (wk_meta ws),
        or_uid = m_uid (wk_meta ws), or_controller = Some True\<rparr>]\<rparr> (wk_repo ws) networkWide (Some True)"

definition applyRollout :: "'w ws_env \<Rightarrow> workspace \<Rightarrow> rollout_cr option \<Rightarrow> 'w \<Rightarrow> goerr option \<times> 'w" where
  "applyRollout e ws r w =
     (case r of
        None \<Rightarrow> wv_CreateRollout (we_sv e) (new_rollout ws) w
      | Some r \<Rightarrow> wv_UpdateRollout (we_sv e) (r\<lparr>wr_repo := wk_repo ws, wr_strategy := networkWide\<rparr>) w)"

section \<open>Reconcile\<close>

type_synonym ws_result = "bool \<times> goerr option"

definition ws_handleStatus :: "'w ws_env \<Rightarrow> workspace \<Rightarrow> condition \<Rightarrow> bool \<Rightarrow> goerr option \<Rightarrow> 'w \<Rightarrow> ws_result \<times> 'w" where
  "ws_handleStatus e ws condition requeue err w =
     (let condition = (case err of None \<Rightarrow> condition
            | Some er \<Rightarrow> condition\<lparr>cMessage := cMessage condition @ '' err '' @ e_msg er\<rparr>);
          oldCond = GetCondition (wk_conditions ws) (cType condition) in
      if cond_Equal condition oldCond then ((requeue, None), w)
      else let (typ, msg) = (if cType condition = ConditionTypeReady then (''Normal'', ''ready ref '' @ ry_Ref (wk_repo ws))
                             else (''Warning'', cMessage condition));
               w = (case RecordEvent msg of None \<Rightarrow> w | Some note \<Rightarrow> wv_Event (we_sv e) typ note w);
               (aerr, w) = wv_ApplyStatus (we_sv e) (wk_nsn ws) condition w in
        ((requeue, map_option (err_wrap ''cannot update status'') aerr), w))"

definition ws_reconcileDelete :: "'w ws_env \<Rightarrow> workspace \<Rightarrow> 'w \<Rightarrow> ws_result \<times> 'w" where
  "ws_reconcileDelete e ws w =
     (let now = we_now e in
      case wv_GetRollout (we_sv e) (wk_nsn ws) w of
        (Inl err, w) \<Rightarrow>
          (if \<not> IsNotFound (Some err) then ws_handleStatus e ws (Failed now ''cannot get rollout'') True (Some err) w
           else (case RemoveFinalizer ws_finalizer (wv_ApplyFinalizers (we_sv e)) (wk_meta ws) w of
               (Some err, w) \<Rightarrow> ws_handleStatus e ws (Failed now ''cannot remove finalizer'') True (Some err) w
             | (None, w) \<Rightarrow> ((False, None), w)))
      | (Inr r, w) \<Rightarrow>
          (case wv_DeleteRollout (we_sv e) r w of
             (Some err, w) \<Rightarrow> ws_handleStatus e ws (Failed now ''cannot delete rollout'') True (Some err) w
           | (None, w) \<Rightarrow> ((False, None), w)))"

definition ws_new_ref :: "'w ws_env \<Rightarrow> workspace \<Rightarrow> rollout_cr option \<Rightarrow> 'w \<Rightarrow> ws_result \<times> 'w" where
  "ws_new_ref e ws r w =
     (let now = we_now e in
      case wv_EnsureCommit (we_sv e) ws w of
        (Inl err, w) \<Rightarrow> ws_handleStatus e ws (Failed now ''cannot get reference commit'') True (Some err) w
      | (Inr _, w) \<Rightarrow>
          (case applyRollout e ws r w of
             (Some err, w) \<Rightarrow> ws_handleStatus e ws (Failed now ''cannot apply rollout'') True (Some err) w
           | (None, w) \<Rightarrow> ws_handleStatus e ws (Rollout now (''new rollout triggered, ref '' @ ry_Ref (wk_repo ws))) False None w))"

definition ws_reconcile :: "'w ws_env \<Rightarrow> workspace \<Rightarrow> 'w \<Rightarrow> ws_result \<times> 'w" where
  "ws_reconcile e ws w =
     (let now = we_now e in
      case AddFinalizer ws_finalizer (wv_ApplyFinalizers (we_sv e)) (wk_meta ws) w of
        (Some err, w) \<Rightarrow> ws_handleStatus e ws (Failed now ''cannot add finalizer'') True (Some err) w
      | (None, w) \<Rightarrow>
          (case getRolloutStatus e ws w of
             ((r, c), w) \<Rightarrow>
               if cType c = ConditionType_RolloutGetFailed
               then ws_handleStatus e ws (Failed now ''cannot get rollout status'') True (Some (err_new (cMessage c))) w
               else if cType c = ConditionType_RollingOut
               then ws_handleStatus e ws (Rollout now (''rollout is still ongoing, ref '' @ ry_Ref (wk_repo ws))) False None w
               else if cType c = ConditionType_RolloutDone_NoMatchRef \<or> cType c = ConditionType_RolloutDone_MatchRefNew
               then ws_new_ref e ws r w
               else if cType c = ConditionType_RolloutFailed
               then ws_handleStatus e ws (Failed now (cMessage c)) False None w
               else ws_handleStatus e ws (Ready now) False None w))"

definition ws_Reconcile :: "'w ws_env \<Rightarrow> string \<times> string \<Rightarrow> 'w \<Rightarrow> ws_result \<times> 'w" where
  \<comment> \<open>(requeue, error)\<close>
  "ws_Reconcile e key w =
     (case wv_Get (we_sv e) key w of
        (Inl err, w) \<Rightarrow> ((False, map_option (err_wrap ''cannot get cr'') (IgnoreNotFound (Some err))), w)
      | (Inr ws, w) \<Rightarrow>
          (if m_deletionTimestamp (wk_meta ws) \<noteq> None then ws_reconcileDelete e ws w else ws_reconcile e ws w))"

section \<open>The rollout of a workspace\<close>

text \<open>\<open>rol w\<close>: the Rollout stored under the key; \<open>st w\<close>: the Ready condition stored of the Workspace.\<close>

definition ws_laws :: "'w ws_services \<Rightarrow> string \<times> string \<Rightarrow> ('w \<Rightarrow> rollout_cr option) \<Rightarrow> ('w \<Rightarrow> condition) \<Rightarrow> bool" where
  \<comment> \<open>an API server that answers, and keeps the status of a Rollout when its spec is updated; a loader that has the commit\<close>
  "ws_laws sv k rol st \<longleftrightarrow>
     (\<forall>w. \<exists>err. IsNotFound (Some err) \<and> wv_GetRollout sv k w = (case rol w of None \<Rightarrow> Inl err | Some r \<Rightarrow> Inr r, w))
     \<and> (\<forall>r w. rol w = None \<longrightarrow> (\<exists>w' r'. wv_CreateRollout sv r w = (None, w') \<and> rol w' = Some r' \<and> wr_repo r' = wr_repo r \<and> st w' = st w))
     \<and> (\<forall>r w. rol w \<noteq> None \<longrightarrow> (\<exists>w' r'. wv_UpdateRollout sv r w = (None, w') \<and> rol w' = Some r' \<and> wr_repo r' = wr_repo r
          \<and> wr_conditions r' = wr_conditions (the (rol w)) \<and> st w' = st w))
     \<and> (\<forall>ws w. \<exists>b w'. wv_EnsureCommit sv ws w = (Inr b, w') \<and> rol w' = rol w \<and> st w' = st w)
     \<and> (\<forall>c w. \<exists>w'. wv_ApplyStatus sv k c w = (None, w') \<and> rol w' = rol w \<and> st w' = c)
     \<and> (\<forall>a b w. rol (wv_Event sv a b w) = rol w \<and> st (wv_Event sv a b w) = st w)"

lemma ws_lawsD:
  assumes "ws_laws sv k rol st"
  shows "\<exists>err. IsNotFound (Some err) \<and> wv_GetRollout sv k w = (case rol w of None \<Rightarrow> Inl err | Some r \<Rightarrow> Inr r, w)"
    "rol w = None \<Longrightarrow> \<exists>w' r'. wv_CreateRollout sv r w = (None, w') \<and> rol w' = Some r' \<and> wr_repo r' = wr_repo r \<and> st w' = st w"
    "rol w = Some r0 \<Longrightarrow> \<exists>w' r'. wv_UpdateRollout sv r w = (None, w') \<and> rol w' = Some r' \<and> wr_repo r' = wr_repo r
       \<and> wr_conditions r' = wr_conditions r0 \<and> st w' = st w"
    "\<exists>b w'. wv_EnsureCommit sv ws w = (Inr b, w') \<and> rol w' = rol w \<and> st w' = st w"
    "\<exists>w'. wv_ApplyStatus sv k c w = (None, w') \<and> rol w' = rol w \<and> st w' = c"
    "rol (wv_Event sv a b w) = rol w" "st (wv_Event sv a b w) = st w"
proof -
  note p1 = assms [unfolded ws_laws_def]
  note p2 = conjunct2 [OF p1] note p3 = conjunct2 [OF p2] note p4 = conjunct2 [OF p3] note p5 = conjunct2 [OF p4]
  show "\<exists>err. IsNotFound (Some err) \<and> wv_GetRollout sv k w = (case rol w of None \<Rightarrow> Inl err | Some r \<Rightarrow> Inr r, w)"
    by (rule spec [OF conjunct1 [OF p1]])
  show "rol w = None \<Longrightarrow> \<exists>w' r'. wv_CreateRollout sv r w = (None, w') \<and> rol w' = Some r' \<and> wr_repo r' = wr_repo r \<and> st w' = st w"
    by (rule mp [OF spec [OF spec [OF conjunct1 [OF p2]]]])
  show "\<exists>w' r'. wv_UpdateRollout sv r w = (None, w') \<and> rol w' = Some r' \<and> wr_repo r' = wr_repo r
       \<and> wr_conditions r' = wr_conditions r0 \<and> st w' = st w" if "rol w = Some r0"
    using spec [OF spec [OF conjunct1 [OF p3]], of w r] that by simp
  show "\<exists>b w'. wv_EnsureCommit sv ws w = (Inr b, w') \<and> rol w' = rol w \<and> st w' = st w"
    by (rule spec [OF spec [OF conjunct1 [OF p4]]])
  show "\<exists>w'. wv_ApplyStatus sv k c w = (None, w') \<and> rol w' = rol w \<and> st w' = c"
    by (rule spec [OF spec [OF conjunct1 [OF p5]]])
  show "rol (wv_Event sv a b w) = rol w" "st (wv_Event sv a b w) = st w" using conjunct2 [OF p5] by simp_all
qed

definition ws_held :: "workspace \<Rightarrow> bool" where
  "ws_held ws \<longleftrightarrow> FinalizerExists (m_finalizers (wk_meta ws)) ws_finalizer"

definition told :: "workspace \<Rightarrow> condition \<Rightarrow> condition \<Rightarrow> condition" where
  \<comment> \<open>the condition stored after \<open>c\<close> has been reported: the guard compares with the object as it was read\<close>
  "told ws c old = (if cond_Equal c (GetCondition (wk_conditions ws) ConditionTypeReady) then old else c)"

definition ready_of :: "rollout_cr \<Rightarrow> condition" where
  "ready_of r = GetCondition (wr_conditions r) ConditionTypeReady"

lemma ws_status_told:
  assumes laws: "ws_laws (we_sv e) (wk_nsn ws) rol st" and c: "cType c = ConditionTypeReady"
  shows "\<exists>w'. ws_handleStatus e ws c False None w = ((False, None), w') \<and> rol w' = rol w \<and> st w' = told ws c (st w)"
proof (cases "cond_Equal c (GetCondition (wk_conditions ws) ConditionTypeReady)")
  case False
  define w1 where "w1 = (case RecordEvent (''ready ref '' @ ry_Ref (wk_repo ws)) of None \<Rightarrow> w | Some note \<Rightarrow> wv_Event (we_sv e) ''Normal'' note w)"
  have w1: "rol w1 = rol w" using ws_lawsD(6) [OF laws] by (simp add: w1_def split: option.split)
  obtain w' where "wv_ApplyStatus (we_sv e) (wk_nsn ws) c w1 = (None, w')" "rol w' = rol w1" "st w' = c"
    using ws_lawsD(5) [OF laws] by blast
  then show ?thesis using False w1 c unfolding w1_def by (simp add: ws_handleStatus_def told_def)
qed (use c in \<open>simp add: ws_handleStatus_def told_def\<close>)

lemma ready_types [simp]: "cType (Ready n) = ConditionTypeReady" "cType (Failed n m) = ConditionTypeReady"
  "cType (Rollout n m) = ConditionTypeReady"
  by (simp_all add: Ready_def Failed_def Rollout_def NewCondition_def)

lemma ws_reconcile_held:
  "ws_held ws \<Longrightarrow> getRolloutStatus e ws w = ((r, c), w) \<Longrightarrow> ws_reconcile e ws w =
     (if cType c = ConditionType_RolloutGetFailed
      then ws_handleStatus e ws (Failed (we_now e) ''cannot get rollout status'') True (Some (err_new (cMessage c))) w
      else if cType c = ConditionType_RollingOut
      then ws_handleStatus e ws (Rollout (we_now e) (''rollout is still ongoing, ref '' @ ry_Ref (wk_repo ws))) False None w
      else if cType c = ConditionType_RolloutDone_NoMatchRef \<or> cType c = ConditionType_RolloutDone_MatchRefNew
      then ws_new_ref e ws r w
      else if cType c = ConditionType_RolloutFailed then ws_handleStatus e ws (Failed (we_now e) (cMessage c)) False None w
      else ws_handleStatus e ws (Ready (we_now e)) False None w)"
  by (simp add: ws_reconcile_def ws_held_def AddFinalizer_def Let_def)

lemmas rollout_conditions = RolloutGetFailed_def RollingOut_def RolloutFailed_def RolloutDone_NoMatchRef_def
  RolloutDone_NoMatchRefNew_def RolloutDone_def ws_condition_def

lemma ws_step_done:
  assumes laws: "ws_laws (we_sv e) (wk_nsn ws) rol st" and held: "ws_held ws"
    and r: "rol w = Some r" "cStatus (ready_of r) = ConditionTrue" "ry_Ref (wk_repo ws) = ry_Ref (wr_repo r)"
  shows "\<exists>w'. ws_reconcile e ws w = ((False, None), w') \<and> rol w' = Some r \<and> st w' = told ws (Ready (we_now e)) (st w)"
proof -
  have get: "wv_GetRollout (we_sv e) (wk_nsn ws) w = (Inr r, w)" using ws_lawsD(1) [OF laws, of w] r(1) by auto
  have "getRolloutStatus e ws w = ((Some r, RolloutDone (we_now e)), w)"
    using get r by (simp add: getRolloutStatus_def ready_of_def)
  note run = ws_reconcile_held [OF held this]
  show ?thesis using ws_status_told [OF laws, of "Ready (we_now e)" w] r(1)
    by (simp add: run rollout_conditions rollout_types)
qed

abbreviation triggered :: "'w ws_env \<Rightarrow> workspace \<Rightarrow> condition" where
  "triggered e ws \<equiv> Rollout (we_now e) (''new rollout triggered, ref '' @ ry_Ref (wk_repo ws))"

lemma ws_step_update:
  assumes laws: "ws_laws (we_sv e) (wk_nsn ws) rol st" and held: "ws_held ws"
    and r: "rol w = Some r" "cStatus (ready_of r) = ConditionTrue" "ry_Ref (wk_repo ws) \<noteq> ry_Ref (wr_repo r)"
  shows "\<exists>w' r'. ws_reconcile e ws w = ((False, None), w') \<and> rol w' = Some r' \<and> wr_repo r' = wk_repo ws
     \<and> wr_conditions r' = wr_conditions r \<and> st w' = told ws (triggered e ws) (st w)"
proof -
  have get: "wv_GetRollout (we_sv e) (wk_nsn ws) w = (Inr r, w)" using ws_lawsD(1) [OF laws, of w] r(1) by auto
  have "getRolloutStatus e ws w = ((Some r, RolloutDone_NoMatchRef (we_now e)), w)"
    using get r by (simp add: getRolloutStatus_def ready_of_def)
  note run = ws_reconcile_held [OF held this]
  obtain b w1 where c: "wv_EnsureCommit (we_sv e) ws w = (Inr b, w1)" "rol w1 = rol w" "st w1 = st w"
    using ws_lawsD(4) [OF laws] by blast
  have "rol w1 = Some r" using c(2) r(1) by simp
  from ws_lawsD(3) [OF laws this, of "r\<lparr>wr_repo := wk_repo ws, wr_strategy := networkWide\<rparr>"]
  obtain w2 r' where u: "wv_UpdateRollout (we_sv e) (r\<lparr>wr_repo := wk_repo ws, wr_strategy := networkWide\<rparr>) w1 = (None, w2)"
    "rol w2 = Some r'" "wr_repo r' = wk_repo ws" "wr_conditions r' = wr_conditions r" "st w2 = st w1" by auto
  have "ws_reconcile e ws w = ws_handleStatus e ws (triggered e ws) False None w2"
    using c u by (simp add: run rollout_conditions rollout_types ws_new_ref_def applyRollout_def)
  moreover obtain w3 where "ws_handleStatus e ws (triggered e ws) False None w2 = ((False, None), w3)" "rol w3 = rol w2"
    "st w3 = told ws (triggered e ws) (st w2)" using ws_status_told [OF laws, of "triggered e ws" w2] ready_types(3) by blast
  ultimately show ?thesis using c u by auto
qed

section \<open>Every answer of the services\<close>

definition ws_new_ref_failure :: "'w ws_env \<Rightarrow> workspace \<Rightarrow> rollout_cr option \<Rightarrow> 'w \<Rightarrow> (string \<times> goerr) option" where
  "ws_new_ref_failure e ws r w =
     (case wv_EnsureCommit (we_sv e) ws w of
        (Inl err, w) \<Rightarrow> Some (''cannot get reference commit'', err)
      | (Inr _, w) \<Rightarrow> map_option (Pair ''cannot apply rollout'') (fst (applyRollout e ws r w)))"

definition ws_read :: "'w ws_env \<Rightarrow> workspace \<Rightarrow> 'w \<Rightarrow> goerr + rollout_cr" where
  \<comment> \<open>the answer to the read of the Rollout, which follows the finalizer\<close>
  "ws_read e ws w = fst (wv_GetRollout (we_sv e) (wk_nsn ws)
     (snd (AddFinalizer ws_finalizer (wv_ApplyFinalizers (we_sv e)) (wk_meta ws) w)))"

definition ws_failure :: "'w ws_env \<Rightarrow> workspace \<Rightarrow> 'w \<Rightarrow> (string \<times> goerr) option" where
  \<comment> \<open>the first call of the reconcile that fails, what was tried and its error\<close>
  "ws_failure e ws w =
     (case AddFinalizer ws_finalizer (wv_ApplyFinalizers (we_sv e)) (wk_meta ws) w of
        (Some err, w) \<Rightarrow> Some (''cannot add finalizer'', err)
      | (None, w) \<Rightarrow>
          (case wv_GetRollout (we_sv e) (wk_nsn ws) w of
             (Inl err, w) \<Rightarrow> if IsNotFound (Some err) then ws_new_ref_failure e ws None w
               else Some (''cannot get rollout status'', err)
           | (Inr r, w) \<Rightarrow>
               if cStatus (ready_of r) = ConditionTrue \<and> ry_Ref (wk_repo ws) \<noteq> ry_Ref (wr_repo r)
               then ws_new_ref_failure e ws (Some r) w else None))"

definition ws_keeps :: "('w \<Rightarrow> rollout_cr option) \<Rightarrow> ('w \<Rightarrow> condition) \<Rightarrow> ('w \<Rightarrow> 'a \<times> 'w) \<Rightarrow> bool" where
  "ws_keeps rol st call \<longleftrightarrow> (\<forall>w. rol (snd (call w)) = rol w \<and> st (snd (call w)) = st w)"

definition rolled :: "repository \<Rightarrow> rollout_cr option \<Rightarrow> rollout_cr option \<Rightarrow> bool" where
  \<comment> \<open>the Rollout stored now is for \<open>repo\<close> and has the status of the one stored before\<close>
  "rolled repo old new \<longleftrightarrow> (\<exists>r'. new = Some r' \<and> wr_repo r' = repo \<and> (\<forall>r. old = Some r \<longrightarrow> wr_conditions r' = wr_conditions r))"

definition written :: "goerr option \<Rightarrow> bool \<Rightarrow> bool \<Rightarrow> bool" where
  \<comment> \<open>a write that succeeds is done; one that fails may have been done (a timeout) or not\<close>
  "written answer done unchanged \<longleftrightarrow> (case answer of None \<Rightarrow> done | Some _ \<Rightarrow> done \<or> unchanged)"

definition ws_server :: "'w ws_services \<Rightarrow> string \<times> string \<Rightarrow> ('w \<Rightarrow> rollout_cr option) \<Rightarrow> ('w \<Rightarrow> condition) \<Rightarrow> bool" where
  \<comment> \<open>an API server and a loader, each of whose calls may fail; reads may be answered from a stale cache\<close>
  "ws_server sv k rol st \<longleftrightarrow>
     ws_keeps rol st (wv_GetRollout sv k) \<and> (\<forall>n ns fs. ws_keeps rol st (wv_ApplyFinalizers sv n ns fs)) \<and> (\<forall>ws. ws_keeps rol st (wv_EnsureCommit sv ws))
     \<and> (\<forall>r w a w'. wv_CreateRollout sv r w = (a, w') \<longrightarrow> st w' = st w \<and> written a (rolled (wr_repo r) (rol w) (rol w')) (rol w' = rol w))
     \<and> (\<forall>r w a w'. wv_UpdateRollout sv r w = (a, w') \<longrightarrow> st w' = st w \<and> written a (rolled (wr_repo r) (rol w) (rol w')) (rol w' = rol w))
     \<and> (\<forall>c w a w'. wv_ApplyStatus sv k c w = (a, w') \<longrightarrow> rol w' = rol w \<and> written a (st w' = c) (st w' = st w))
     \<and> (\<forall>a b. ws_keeps rol st (\<lambda>w. ((), wv_Event sv a b w)))"

lemma ws_serverD:
  assumes "ws_server sv k rol st"
  shows "ws_keeps rol st (wv_GetRollout sv k)" "ws_keeps rol st (wv_ApplyFinalizers sv n ns fs)" "ws_keeps rol st (wv_EnsureCommit sv ws)"
    "wv_CreateRollout sv r w = (a, w') \<Longrightarrow> st w' = st w \<and> written a (rolled (wr_repo r) (rol w) (rol w')) (rol w' = rol w)"
    "wv_UpdateRollout sv r w = (a, w') \<Longrightarrow> st w' = st w \<and> written a (rolled (wr_repo r) (rol w) (rol w')) (rol w' = rol w)"
    "wv_ApplyStatus sv k c w = (a, w') \<Longrightarrow> rol w' = rol w \<and> written a (st w' = c) (st w' = st w)"
    "rol (wv_Event sv t b w) = rol w" "st (wv_Event sv t b w) = st w"
  using assms unfolding ws_server_def ws_keeps_def by (metis snd_conv)+

lemma ws_keepsD: "ws_keeps rol st call \<Longrightarrow> call w = (a, w') \<Longrightarrow> rol w' = rol w \<and> st w' = st w"
  unfolding ws_keeps_def by (metis snd_conv)

definition reported :: "workspace \<Rightarrow> condition \<Rightarrow> goerr option \<Rightarrow> condition \<Rightarrow> condition \<Rightarrow> bool" where
  \<comment> \<open>\<open>c\<close> is stored, unless it was read already; \<open>answer\<close> is the error of the write of the status\<close>
  "reported ws c answer old new \<longleftrightarrow> written answer (new = told ws c old) (new = old)"

definition failed_with :: "nat \<Rightarrow> string \<Rightarrow> goerr \<Rightarrow> condition" where
  \<comment> \<open>the report of a failed call: the text of the error follows what was tried, which \<open>Failed\<close> has truncated\<close>
  "failed_with now what err = (Failed now what)\<lparr>cMessage := cMessage (Failed now what) @ '' err '' @ e_msg err\<rparr>"

lemma ws_status_reported:
  assumes server: "ws_server (we_sv e) (wk_nsn ws) rol st" and run: "ws_handleStatus e ws c q err w = (res, w')"
    and c: "cType c = ConditionTypeReady" "c' = (case err of None \<Rightarrow> c | Some er \<Rightarrow> c\<lparr>cMessage := cMessage c @ '' err '' @ e_msg er\<rparr>)"
  shows "fst res = q \<and> rol w' = rol w \<and> reported ws c' (snd res) (st w) (st w')"
proof -
  have t: "cType c' = ConditionTypeReady" using c by (simp split: option.split)
  define w1 where "w1 = (case RecordEvent (''ready ref '' @ ry_Ref (wk_repo ws)) of None \<Rightarrow> w
     | Some note \<Rightarrow> wv_Event (we_sv e) ''Normal'' note w)"
  have w1: "rol w1 = rol w" "st w1 = st w" using ws_serverD(7,8) [OF server] by (simp_all add: w1_def split: option.split)
  obtain a w2 where a: "wv_ApplyStatus (we_sv e) (wk_nsn ws) c' w1 = (a, w2)" by (rule prod.exhaust)
  from ws_serverD(6) [OF server a] have a': "rol w2 = rol w1" "written a (st w2 = c') (st w2 = st w1)" by simp_all
  have "ws_handleStatus e ws c q err w = (if cond_Equal c' (GetCondition (wk_conditions ws) ConditionTypeReady) then ((q, None), w)
      else ((q, map_option (err_wrap ''cannot update status'') a), w2))"
    using t a unfolding w1_def ws_handleStatus_def c(2) [symmetric] by (simp add: Let_def)
  then show ?thesis using run a' w1 by (auto simp: reported_def told_def written_def split: if_splits option.splits)
qed

lemma applyRollout_written:
  assumes server: "ws_server (we_sv e) (wk_nsn ws) rol st" and run: "applyRollout e ws r w = (a, w')"
  shows "st w' = st w \<and> written a (rolled (wk_repo ws) (rol w) (rol w')) (rol w' = rol w)"
  using ws_serverD(4) [OF server, of "new_rollout ws" w a w']
    ws_serverD(5) [OF server, of "(the r)\<lparr>wr_repo := wk_repo ws, wr_strategy := networkWide\<rparr>" w a w'] run
  by (cases r) (simp_all add: applyRollout_def new_rollout_def BuildRollout_def)

lemma ws_new_ref_outcome:
  assumes server: "ws_server (we_sv e) (wk_nsn ws) rol st" and run: "ws_new_ref e ws r w = (res, w')"
  shows "case ws_new_ref_failure e ws r w of
      Some (what, err) \<Rightarrow> fst res \<and> (rol w' = rol w \<or> what = ''cannot apply rollout'' \<and> rolled (wk_repo ws) (rol w) (rol w'))
        \<and> reported ws (failed_with (we_now e) what err) (snd res) (st w) (st w')
    | None \<Rightarrow> \<not> fst res \<and> rolled (wk_repo ws) (rol w) (rol w') \<and> reported ws (triggered e ws) (snd res) (st w) (st w')"
proof -
  obtain b w1 where b: "wv_EnsureCommit (we_sv e) ws w = (b, w1)" by (rule prod.exhaust)
  have w1: "rol w1 = rol w" "st w1 = st w" using ws_keepsD [OF ws_serverD(3) [OF server] b] by simp_all
  obtain a w2 where a: "applyRollout e ws r w1 = (a, w2)" by (rule prod.exhaust)
  have w2: "st w2 = st w" "written a (rolled (wk_repo ws) (rol w) (rol w2)) (rol w2 = rol w)"
    using applyRollout_written [OF server a] w1 by simp_all
  show ?thesis
  proof (cases b)
    case (Inl err)
    with run b have "ws_handleStatus e ws (Failed (we_now e) ''cannot get reference commit'') True (Some err) w1 = (res, w')"
      by (simp add: ws_new_ref_def)
    from ws_status_reported [OF server this _ refl] w1 Inl b show ?thesis by (simp add: ws_new_ref_failure_def failed_with_def)
  next
    case (Inr x)
    show ?thesis
    proof (cases a)
      case None
      with run b a Inr have "ws_handleStatus e ws (triggered e ws) False None w2 = (res, w')" by (simp add: ws_new_ref_def)
      from ws_status_reported [OF server this _ refl] w2 None Inr b a show ?thesis
        by (simp add: ws_new_ref_failure_def written_def)
    next
      case (Some err)
      with run b a Inr have "ws_handleStatus e ws (Failed (we_now e) ''cannot apply rollout'') True (Some err) w2 = (res, w')"
        by (simp add: ws_new_ref_def)
      from ws_status_reported [OF server this _ refl] w2 Some Inr b a show ?thesis
        by (auto simp: ws_new_ref_failure_def written_def failed_with_def)
    qed
  qed
qed

text \<open>
  C25: A Workspace follows its Rollout, and only a Ready Rollout is ever given a new reference. Every call may fail and
  the Rollout may be read from a stale cache. The reconcile asks for a requeue exactly when a call before the
  report fails (the finalizer, the read, the loader that fetches the commit, the write of the Rollout): the
  Workspace then reports what failed and why, and the Rollout stays as it is, unless it is its own write that
  failed and was done all the same. Otherwise: if no Rollout was read one is created for the repository of the Workspace; a
  Rollout that is Ready for another reference is updated to the Workspace's, with its status kept; one that is Ready for
  this reference makes the Workspace Ready. A Rollout that is not Ready is left alone, whatever reference
  the Workspace asks for: while it has not ended the Workspace reports that it is going on, and once its
  transaction has failed the Workspace reports that failure, so that a new reference, which would be the way
  to fix it, is not rolled out. The report is stored unless its write fails, and that error is returned.
\<close>

theorem workspace_follows_its_rollout:
  assumes server: "ws_server (we_sv e) (wk_nsn ws) rol st" and run: "ws_reconcile e ws w = (res, w')"
  shows "case ws_failure e ws w of
      Some (what, err) \<Rightarrow> fst res \<and> (rol w' = rol w \<or> what = ''cannot apply rollout'' \<and> rolled (wk_repo ws) (rol w) (rol w'))
        \<and> reported ws (failed_with (we_now e) what err) (snd res) (st w) (st w')
    | None \<Rightarrow> \<not> fst res \<and> (case ws_read e ws w of
        Inl _ \<Rightarrow> rolled (wk_repo ws) (rol w) (rol w') \<and> reported ws (triggered e ws) (snd res) (st w) (st w')
      | Inr r \<Rightarrow>
          if cStatus (ready_of r) \<noteq> ConditionTrue
          then rol w' = rol w \<and> reported ws (if cReason (ready_of r) = ConditionReasonFailed then Failed (we_now e) (cMessage (ready_of r))
             else Rollout (we_now e) (''rollout is still ongoing, ref '' @ ry_Ref (wk_repo ws))) (snd res) (st w) (st w')
          else if ry_Ref (wk_repo ws) = ry_Ref (wr_repo r)
          then rol w' = rol w \<and> reported ws (Ready (we_now e)) (snd res) (st w) (st w')
          else rolled (wk_repo ws) (rol w) (rol w') \<and> reported ws (triggered e ws) (snd res) (st w) (st w'))"
proof -
  obtain a w0 where a: "AddFinalizer ws_finalizer (wv_ApplyFinalizers (we_sv e)) (wk_meta ws) w = (a, w0)" by (rule prod.exhaust)
  have w0: "rol w0 = rol w" "st w0 = st w"
    using a ws_serverD(2) [OF server] by (auto simp: AddFinalizer_def Let_def ws_keeps_def split: if_splits prod.splits; metis snd_conv)+
  obtain g w1 where g: "wv_GetRollout (we_sv e) (wk_nsn ws) w0 = (g, w1)" by (rule prod.exhaust)
  have w1: "rol w1 = rol w" "st w1 = st w" using ws_keepsD [OF ws_serverD(1) [OF server] g] w0 by simp_all
  note unfolds = ws_reconcile_def ws_failure_def ws_read_def getRolloutStatus_def rollout_conditions rollout_types a g Let_def
  show ?thesis
  proof (cases a)
    case (Some err)
    with run have "ws_handleStatus e ws (Failed (we_now e) ''cannot add finalizer'') True (Some err) w0 = (res, w')" by (simp add: unfolds)
    from ws_status_reported [OF server this _ refl] w0 Some show ?thesis by (simp add: unfolds failed_with_def)
  next
    case None
    show ?thesis
    proof (cases g)
      case (Inl err)
      show ?thesis
      proof (cases "IsNotFound (Some err)")
        case True
        with run None Inl have "ws_new_ref e ws None w1 = (res, w')" by (simp add: unfolds)
        from ws_new_ref_outcome [OF server this] w1 True None Inl show ?thesis
          by (simp add: unfolds split: option.splits prod.splits)
      next
        case False
        with run None Inl have "ws_handleStatus e ws (Failed (we_now e) ''cannot get rollout status'') True (Some (err_new (e_msg err))) w1 = (res, w')"
          by (simp add: unfolds)
        from ws_status_reported [OF server this _ refl] w1 False None Inl show ?thesis by (simp add: unfolds failed_with_def err_new_def)
      qed
    next
      case (Inr r)
      consider (busy) "cStatus (ready_of r) \<noteq> ConditionTrue"
        | (same) "cStatus (ready_of r) = ConditionTrue" "ry_Ref (wk_repo ws) = ry_Ref (wr_repo r)"
        | (other) "cStatus (ready_of r) = ConditionTrue" "ry_Ref (wk_repo ws) \<noteq> ry_Ref (wr_repo r)" by blast
      then show ?thesis
      proof cases
        case busy
        with run None Inr have "ws_handleStatus e ws (if cReason (ready_of r) = ConditionReasonFailed then Failed (we_now e) (cMessage (ready_of r))
             else Rollout (we_now e) (''rollout is still ongoing, ref '' @ ry_Ref (wk_repo ws))) False None w1 = (res, w')"
          by (auto simp: unfolds ready_of_def)
        from ws_status_reported [OF server this _ refl] w1 busy None Inr show ?thesis by (auto simp: unfolds ready_of_def)
      next
        case same
        with run None Inr have "ws_handleStatus e ws (Ready (we_now e)) False None w1 = (res, w')" by (simp add: unfolds ready_of_def)
        from ws_status_reported [OF server this _ refl] w1 same None Inr show ?thesis by (simp add: unfolds ready_of_def)
      next
        case other
        with run None Inr have "ws_new_ref e ws (Some r) w1 = (res, w')" by (simp add: unfolds ready_of_def)
        from ws_new_ref_outcome [OF server this] w1 other None Inr show ?thesis
          by (simp add: unfolds ready_of_def split: option.splits prod.splits)
      qed
    qed
  qed
qed

text \<open>
  C29: A Workspace is Ready before its new reference is rolled out. The reconcile that gives a Ready Rollout the new
  reference leaves its status, which is that of the previous reference, and nothing ties a condition to the
  generation it is about. A second reconcile that comes before the Rollout controller has begun sees Ready and
  the same reference, and reports Ready for a reference no target has.
\<close>

theorem ready_before_rollout:
  assumes laws: "ws_laws (we_sv e) (wk_nsn ws) rol st" and held: "ws_held ws"
    and old: "rol w = Some r" "cStatus (ready_of r) = ConditionTrue" "ry_Ref (wk_repo ws) \<noteq> ry_Ref (wr_repo r)"
    and first: "ws_reconcile e ws w = (res, w1)"
    and again: "ws2 = ws\<lparr>wk_conditions := [st w1]\<rparr>" "\<not> IsTrue (st w1)" "ws_reconcile e ws2 w1 = (res', w2)"
  shows "st w2 = Ready (we_now e) \<and> (\<exists>r'. rol w2 = Some r' \<and> wr_repo r' = wk_repo ws \<and> wr_conditions r' = wr_conditions r)"
proof -
  obtain r' where r': "rol w1 = Some r'" "wr_repo r' = wk_repo ws" "wr_conditions r' = wr_conditions r"
    using ws_step_update [OF laws held old] first by auto
  have laws2: "ws_laws (we_sv e) (wk_nsn ws2) rol st" and held2: "ws_held ws2" using laws held again(1) by (simp_all add: ws_held_def)
  have "cStatus (ready_of r') = ConditionTrue" "ry_Ref (wk_repo ws2) = ry_Ref (wr_repo r')"
    using r' old(2) again(1) by (simp_all add: ready_of_def)
  then have "rol w2 = Some r' \<and> st w2 = told ws2 (Ready (we_now e)) (st w1)"
    using ws_step_done [OF laws2 held2 r'(1)] again(3) by auto
  moreover have "\<not> cond_Equal (Ready (we_now e)) (GetCondition [st w1] ConditionTypeReady)"
  proof
    assume eq: "cond_Equal (Ready (we_now e)) (GetCondition [st w1] ConditionTypeReady)"
    then have "cStatus (GetCondition [st w1] ConditionTypeReady) = ConditionTrue"
      by (simp add: cond_Equal_def Ready_def NewCondition_def)
    then show False using again(2) by (auto simp: IsTrue_def NewCondition_def ConditionTrue_def ConditionFalse_def
          split: if_splits)
  qed
  ultimately show ?thesis using r' again(1) by (simp add: told_def)
qed

section \<open>A sample system\<close>

definition ws_sample_sv :: "(rollout_cr option \<times> condition) ws_services" where
  "ws_sample_sv = \<lparr>
     wv_Get = (\<lambda>k w. (Inl (err_new ''none''), w)),
     wv_GetRollout = (\<lambda>k w. (case fst w of None \<Rightarrow> Inl ((err_new ''gone'')\<lparr>e_api := Some ''NotFound''\<rparr>) | Some r \<Rightarrow> Inr r, w)),
     wv_CreateRollout = (\<lambda>r w. case fst w of None \<Rightarrow> (None, (Some r, snd w)) | Some _ \<Rightarrow> (Some (err_new ''exists''), w)),
     wv_UpdateRollout = (\<lambda>r w. case fst w of None \<Rightarrow> (Some (err_new ''gone''), w)
       | Some old \<Rightarrow> (None, (Some (r\<lparr>wr_conditions := wr_conditions old\<rparr>), snd w))),
     wv_DeleteRollout = (\<lambda>r w. (None, (None, snd w))), wv_EnsureCommit = (\<lambda>ws w. (Inr ''merged'', w)),
     wv_ApplyStatus = (\<lambda>k c w. (None, (fst w, c))), wv_ApplyFinalizers = (\<lambda>n ns fs w. (None, w)), wv_Event = (\<lambda>a b w. w)\<rparr>"

definition ws_sample_env :: "(rollout_cr option \<times> condition) ws_env" where
  "ws_sample_env = \<lparr>we_sv = ws_sample_sv, we_now = 5\<rparr>"

definition sample_workspace :: "string \<Rightarrow> workspace" where
  "sample_workspace ref = \<lparr>wk_apiVersion = ''inv.sdcio.dev/v1alpha1'', wk_kind = ''Workspace'',
     wk_meta = \<lparr>m_name = ''w'', m_namespace = ''ns'', m_labels = [], m_annotations = [], m_finalizers = [ws_finalizer],
       m_generation = 1, m_deletionTimestamp = None, m_uid = [], m_resourceVersion = [], m_ownerReferences = []\<rparr>,
     wk_repo = \<lparr>ry_RepoURL = ''url'', ry_Credentials = [], ry_Proxy = None, ry_Kind = ''hash'', ry_Ref = ref\<rparr>, wk_conditions = []\<rparr>"

definition sample_rollout :: "string \<Rightarrow> condition \<Rightarrow> rollout_cr" where
  "sample_rollout ref c = (new_rollout (sample_workspace ref))\<lparr>wr_conditions := [c]\<rparr>"

lemma ws_sample_laws: "ws_laws (we_sv ws_sample_env) k fst snd"
  unfolding ws_laws_def
proof (intro conjI allI)
  show "\<exists>err. IsNotFound (Some err) \<and> wv_GetRollout (we_sv ws_sample_env) k w = (case fst w of None \<Rightarrow> Inl err | Some r \<Rightarrow> Inr r, w)" for w
    by (rule exI [of _ "(err_new ''gone'')\<lparr>e_api := Some ''NotFound''\<rparr>"]) (simp add: ws_sample_env_def ws_sample_sv_def IsNotFound_def)
qed (auto simp: ws_sample_env_def ws_sample_sv_def)

lemma ws_sample_held: "ws_held (sample_workspace ref)"
  by (simp add: ws_held_def sample_workspace_def)

lemma ws_sample_server: "ws_server (we_sv ws_sample_env) k fst snd"
  by (auto simp: ws_server_def ws_keeps_def written_def rolled_def ws_sample_env_def ws_sample_sv_def split: option.splits)

definition ws_broken_env :: "(rollout_cr option \<times> condition) ws_env" where
  \<comment> \<open>the commit cannot be fetched\<close>
  "ws_broken_env = ws_sample_env\<lparr>we_sv := ws_sample_sv\<lparr>wv_EnsureCommit := (\<lambda>ws w. (Inl (err_new ''no such ref''), w))\<rparr>\<rparr>"

lemma ws_broken_server: "ws_server (we_sv ws_broken_env) k fst snd"
  by (auto simp: ws_server_def ws_keeps_def written_def rolled_def ws_broken_env_def ws_sample_env_def ws_sample_sv_def split: option.splits)

lemma workspace_follows_its_rollout_witness:
  "snd (ws_reconcile ws_sample_env (sample_workspace ''b'') (Some (sample_rollout ''a'' (Failed 3 ''transaction failed'')), Ready 1))
     = (Some (sample_rollout ''a'' (Failed 3 ''transaction failed'')), Failed 5 ''transaction failed'')
   \<and> fst (ws_reconcile ws_broken_env (sample_workspace ''b'') (Some (sample_rollout ''a'' (Ready 3)), Ready 1)) = (True, None)
   \<and> fst (snd (ws_reconcile ws_broken_env (sample_workspace ''b'') (Some (sample_rollout ''a'' (Ready 3)), Ready 1)))
     = Some (sample_rollout ''a'' (Ready 3))"
proof -
  let ?r = "sample_rollout ''a'' (Failed 3 ''transaction failed'')" and ?ok = "sample_rollout ''a'' (Ready 3)"
  obtain res w' where run: "ws_reconcile ws_sample_env (sample_workspace ''b'') (Some ?r, Ready 1) = (res, w')" by (rule prod.exhaust)
  have fine: "ws_failure ws_sample_env (sample_workspace ''b'') (Some ?r, Ready 1) = None"
    "ws_read ws_sample_env (sample_workspace ''b'') (Some ?r, Ready 1) = Inr ?r" by code_simp+
  have c: "cStatus (ready_of ?r) \<noteq> ConditionTrue" "cReason (ready_of ?r) = ConditionReasonFailed"
    "cMessage (ready_of ?r) = ''transaction failed''" by code_simp+
  have t: "told (sample_workspace ''b'') (Failed 5 ''transaction failed'') (Ready 1) = Failed 5 ''transaction failed''" by code_simp
  have "snd (fst (ws_reconcile ws_sample_env (sample_workspace ''b'') (Some ?r, Ready 1))) = None" by code_simp
  then have n: "snd res = None" using run by simp
  obtain res2 w2 where run2: "ws_reconcile ws_broken_env (sample_workspace ''b'') (Some ?ok, Ready 1) = (res2, w2)" by (rule prod.exhaust)
  have "snd (fst (ws_reconcile ws_broken_env (sample_workspace ''b'') (Some ?ok, Ready 1))) = None" by code_simp
  then have n2: "snd res2 = None" using run2 by simp
  have fails: "ws_failure ws_broken_env (sample_workspace ''b'') (Some ?ok, Ready 1) = Some (''cannot get reference commit'', err_new ''no such ref'')"
    by code_simp
  show ?thesis
    using workspace_follows_its_rollout [OF ws_sample_server run] workspace_follows_its_rollout [OF ws_broken_server run2]
      fine fails c t n n2 run run2
    by (cases w'; cases res2; cases w2) (simp add: ws_sample_env_def reported_def written_def)
qed

lemma ready_before_rollout_witness:
  "snd (snd (ws_reconcile ws_sample_env ((sample_workspace ''b'')\<lparr>wk_conditions := [Rollout 5 ''new rollout triggered, ref b'']\<rparr>)
      (snd (ws_reconcile ws_sample_env (sample_workspace ''b'') (Some (sample_rollout ''a'' (Ready 3)), Ready 1))))) = Ready 5"
proof -
  let ?w = "(Some (sample_rollout ''a'' (Ready 3)), Ready 1)"
  have first: "snd (snd (ws_reconcile ws_sample_env (sample_workspace ''b'') ?w)) = Rollout 5 ''new rollout triggered, ref b''"
    by code_simp
  obtain res w1 where run1: "ws_reconcile ws_sample_env (sample_workspace ''b'') ?w = (res, w1)" by (rule prod.exhaust)
  obtain res' w2 where run2: "ws_reconcile ws_sample_env ((sample_workspace ''b'')\<lparr>wk_conditions := [snd w1]\<rparr>) w1 = (res', w2)"
    by (rule prod.exhaust)
  have w1: "snd w1 = Rollout 5 ''new rollout triggered, ref b''" using first run1 by simp
  have "snd w2 = Ready (we_now ws_sample_env) \<and> (\<exists>r'. fst w2 = Some r' \<and> wr_repo r' = wk_repo (sample_workspace ''b'')
      \<and> wr_conditions r' = wr_conditions (sample_rollout ''a'' (Ready 3)))"
  proof (rule ready_before_rollout [OF ws_sample_laws ws_sample_held _ _ _ run1 refl _ run2])
    show "fst ?w = Some (sample_rollout ''a'' (Ready 3))" by simp
    show "cStatus (ready_of (sample_rollout ''a'' (Ready 3))) = ConditionTrue" by code_simp
    show "ry_Ref (wk_repo (sample_workspace ''b'')) \<noteq> ry_Ref (wr_repo (sample_rollout ''a'' (Ready 3)))" by code_simp
    show "\<not> IsTrue (snd w1)" unfolding w1 by code_simp
  qed
  then show ?thesis using run1 run2 w1 by (simp add: ws_sample_env_def)
qed

end
