(* ===== verification/Events.thy ===== *)
theory Events
  imports WorkspaceController ConfigSet SubscriptionController TargetDatastore Hosts
begin

text \<open>
  The event handlers (\<open>pkg/reconcilers/eventhandler\<close>): which resources a controller is asked to reconcile when
  another resource changes. A handler gives the keys it adds to the work queue, in order; the lists it reads
  come from the cache of the client, the record \<open>watch_env\<close>. A controller that is not asked keeps the state it
  has, so the handlers are measured against what the controllers read.
\<close>

declare split_paired_All [simp del] split_paired_Ex [simp del]

section \<open>Objects and events\<close>

datatype kobj = KTarget target | KConfig config | KDeviation deviation | KSecret objmeta
  | KConnProfile objmeta | KSyncProfile objmeta | KSchema schema_obj | KOther

datatype 'o kevent = OnCreate 'o | OnUpdate 'o 'o | OnDelete 'o | OnGeneric 'o

fun on_event :: "('o \<Rightarrow> 'w \<Rightarrow> nsn list \<times> 'w) \<Rightarrow> 'o kevent \<Rightarrow> 'w \<Rightarrow> nsn list \<times> 'w" where
  "on_event add (OnCreate x) w = add x w"
| "on_event add (OnUpdate old new) w = (let (ks, w) = add old w; (ks', w) = add new w in (ks @ ks', w))"
| "on_event add (OnDelete x) w = add x w"
| "on_event add (OnGeneric x) w = add x w"

fun ev_objects :: "'o kevent \<Rightarrow> 'o set" where
  "ev_objects (OnCreate x) = {x}"
| "ev_objects (OnUpdate old new) = {old, new}"
| "ev_objects (OnDelete x) = {x}"
| "ev_objects (OnGeneric x) = {x}"

text \<open>\<open>'q\<close>: a label selector as the API carries it, \<open>'m\<close> a parsed one.\<close>

record ('q, 'm, 'w) watch_env =
  wt_ListTargets :: "string \<Rightarrow> 'w \<Rightarrow> (goerr + target list) \<times> 'w"
  wt_ListConfigSets :: "string option \<Rightarrow> 'w \<Rightarrow> (goerr + configset list) \<times> 'w"
  wt_ListSubscriptions :: "string \<Rightarrow> 'w \<Rightarrow> (goerr + subscription list) \<times> 'w"
  wt_ListConfigs :: "string \<Rightarrow> string gomap \<Rightarrow> 'w \<Rightarrow> (goerr + config list) \<times> 'w"
  wt_ListRules :: "string \<Rightarrow> 'w \<Rightarrow> (goerr + 'q drule list) \<times> 'w"
  wt_ListSchemas :: "'w \<Rightarrow> (goerr + schema_obj list) \<times> 'w"
  wt_ListWorkspaces :: "'w \<Rightarrow> (goerr + workspace list) \<times> 'w"
  wt_selectorOf :: "string \<Rightarrow> string + 'm"
  wt_matches :: "'m \<Rightarrow> string gomap \<Rightarrow> bool"

abbreviation meta_key :: "objmeta \<Rightarrow> nsn" where
  "meta_key m \<equiv> (m_namespace m, m_name m)"

definition listed :: "('w \<Rightarrow> (goerr + 'a list) \<times> 'w) \<Rightarrow> ('a list \<Rightarrow> nsn list) \<Rightarrow> 'w \<Rightarrow> nsn list \<times> 'w" where
  \<comment> \<open>a handler that lists and gives up when that fails\<close>
  "listed ls keys w = (case ls w of (Inl _, w) \<Rightarrow> ([], w) | (Inr xs, w) \<Rightarrow> (keys xs, w))"

section \<open>Events for a Target\<close>

definition refers :: "(target \<Rightarrow> bool) \<Rightarrow> target list \<Rightarrow> nsn list" where
  "refers P ts = map (\<lambda>t. meta_key (t_meta t)) (filter P ts)"

definition SecretForTarget_add :: "('q, 'm, 'w) watch_env \<Rightarrow> kobj \<Rightarrow> 'w \<Rightarrow> nsn list \<times> 'w" where
  "SecretForTarget_add e x w =
     (case x of KSecret cr \<Rightarrow>
        listed (wt_ListTargets e (m_namespace cr)) (refers (\<lambda>t. ts_credentials (t_spec t) = m_name cr)) w
      | _ \<Rightarrow> ([], w))"

definition TargetConnProfileForTarget_add :: "('q, 'm, 'w) watch_env \<Rightarrow> kobj \<Rightarrow> 'w \<Rightarrow> nsn list \<times> 'w" where
  "TargetConnProfileForTarget_add e x w =
     (case x of KConnProfile cr \<Rightarrow>
        listed (wt_ListTargets e (m_namespace cr)) (refers (\<lambda>t. ts_connectionProfile (t_spec t) = m_name cr)) w
      | _ \<Rightarrow> ([], w))"

definition TargetSyncProfileForTarget_add :: "('q, 'm, 'w) watch_env \<Rightarrow> kobj \<Rightarrow> 'w \<Rightarrow> nsn list \<times> 'w" where
  "TargetSyncProfileForTarget_add e x w =
     (case x of KSyncProfile cr \<Rightarrow>
        listed (wt_ListTargets e (m_namespace cr))
          (refers (\<lambda>t. \<not> (case ts_syncProfile (t_spec t) of None \<Rightarrow> True | Some p \<Rightarrow> p \<noteq> m_name cr))) w
      | _ \<Rightarrow> ([], w))"

definition SchemaForTarget_add :: "('q, 'm, 'w) watch_env \<Rightarrow> kobj \<Rightarrow> 'w \<Rightarrow> nsn list \<times> 'w" where
  "SchemaForTarget_add e x w =
     (case x of KSchema cr \<Rightarrow>
        listed (wt_ListTargets e (m_namespace (so_meta cr)))
          (refers (\<lambda>t. case t_discoveryInfo t of None \<Rightarrow> False
             | Some d \<Rightarrow> di_provider d = so_provider cr \<and> di_version d = so_version cr)) w
      | _ \<Rightarrow> ([], w))"

definition ConfigForTarget_add :: "kobj \<Rightarrow> 'w \<Rightarrow> nsn list \<times> 'w" where
  "ConfigForTarget_add x w =
     (case x of KConfig c \<Rightarrow> ((case GetTargetNamespaceName (m_labels (c_meta c)) of Inl _ \<Rightarrow> [] | Inr k \<Rightarrow> [k]), w)
      | _ \<Rightarrow> ([], w))"

section \<open>Events of a Target\<close>

definition selects :: "('q, 'm, 'w) watch_env \<Rightarrow> string \<Rightarrow> target \<Rightarrow> bool \<Rightarrow> bool" where
  \<comment> \<open>the selector matches the labels of the target, or the target was part of the set before; an object
      with a selector that cannot be parsed is skipped\<close>
  "selects e sel t before =
     (case wt_selectorOf e sel of Inl _ \<Rightarrow> False | Inr q \<Rightarrow> wt_matches e q (m_labels (t_meta t)) \<or> before)"

definition was_target :: "configset \<Rightarrow> string \<Rightarrow> bool" where
  "was_target cs n \<longleftrightarrow> (\<exists>st \<in> set (case cs_targets cs of None \<Rightarrow> [] | Some ts \<Rightarrow> ts). fst st = n)"

definition TargetForConfigSet_add :: "('q, 'm, 'w) watch_env \<Rightarrow> kobj \<Rightarrow> 'w \<Rightarrow> nsn list \<times> 'w" where
  "TargetForConfigSet_add e x w =
     (case x of KTarget t \<Rightarrow>
        listed (wt_ListConfigSets e (Some (m_namespace (t_meta t))))
          (\<lambda>xs. map (\<lambda>cs. meta_key (cs_meta cs)) (filter (\<lambda>cs. selects e (xs_selector (cs_spec cs)) t
             (was_target cs (m_name (t_meta t)))) xs)) w
      | _ \<Rightarrow> ([], w))"

definition TargetForSubscription_add :: "('q, 'm, 'w) watch_env \<Rightarrow> kobj \<Rightarrow> 'w \<Rightarrow> nsn list \<times> 'w" where
  "TargetForSubscription_add e x w =
     (case x of KTarget t \<Rightarrow>
        listed (wt_ListSubscriptions e (m_namespace (t_meta t)))
          (\<lambda>xs. map (\<lambda>s. meta_key (sx_meta s)) (filter (\<lambda>s. selects e (sx_selector s) t
             (m_name (t_meta t) \<in> set (case sx_targets s of None \<Rightarrow> [] | Some ts \<Rightarrow> ts))) xs)) w
      | _ \<Rightarrow> ([], w))"

definition TargetForConfig_add :: "('q, 'm, 'w) watch_env \<Rightarrow> kobj \<Rightarrow> 'w \<Rightarrow> nsn list \<times> 'w" where
  "TargetForConfig_add e x w =
     (case x of KTarget t \<Rightarrow>
        listed (wt_ListConfigs e (m_namespace (t_meta t))
            [(TargetNameKey, m_name (t_meta t)), (TargetNamespaceKey, m_namespace (t_meta t))])
          (map (\<lambda>c. meta_key (c_meta c))) w
      | _ \<Rightarrow> ([], w))"

section \<open>Events for Configs and ConfigSets\<close>

definition owns :: "configset \<Rightarrow> owner_ref \<Rightarrow> bool" where
  "owns cs r \<longleftrightarrow> or_apiVersion r = cs_apiVersion cs \<and> or_kind r = cs_kind cs
     \<and> or_name r = m_name (cs_meta cs) \<and> or_uid r = m_uid (cs_meta cs)"

definition ConfigForConfigSet_add :: "('q, 'm, 'w) watch_env \<Rightarrow> kobj \<Rightarrow> 'w \<Rightarrow> nsn list \<times> 'w" where
  \<comment> \<open>returns at the first owner\<close>
  "ConfigForConfigSet_add e x w =
     (case x of KConfig c \<Rightarrow>
        listed (wt_ListConfigSets e None) (\<lambda>xs. case find (\<lambda>cs. \<exists>r \<in> set (m_ownerReferences (c_meta c)). owns cs r) xs of
           None \<Rightarrow> [] | Some cs \<Rightarrow> [meta_key (cs_meta cs)]) w
      | _ \<Rightarrow> ([], w))"

definition DeviationForConfig_add :: "kobj \<Rightarrow> 'w \<Rightarrow> nsn list \<times> 'w" where
  "DeviationForConfig_add x w =
     (case x of KDeviation d \<Rightarrow>
        (map (\<lambda>_. meta_key (d_meta d)) (filter (\<lambda>r. or_apiVersion r = ''config.sdcio.dev/v1alpha1'' \<and> or_kind r = ''Config'')
           (m_ownerReferences (d_meta d))), w)
      | _ \<Rightarrow> ([], w))"

section \<open>Events for a DiscoveryRule\<close>

definition rule_uses_secret :: "string \<Rightarrow> 'q drule \<Rightarrow> bool" where
  "rule_uses_secret n dr \<longleftrightarrow> (\<exists>d. pm_DiscoveryProfile (dl_params dr) = Some d \<and> dp_Credentials d = n)
     \<or> (\<exists>tp \<in> set (pm_TargetConnectionProfiles (dl_params dr)). tp_Credentials tp = n)"

definition SecretForDiscoveryRule_add :: "('q, 'm, 'w) watch_env \<Rightarrow> kobj \<Rightarrow> 'w \<Rightarrow> nsn list \<times> 'w" where
  \<comment> \<open>returns at the first rule\<close>
  "SecretForDiscoveryRule_add e x w =
     (case x of KSecret cr \<Rightarrow>
        listed (wt_ListRules e (m_namespace cr)) (\<lambda>xs. case find (rule_uses_secret (m_name cr)) xs of
           None \<Rightarrow> [] | Some dr \<Rightarrow> [meta_key (dl_meta dr)]) w
      | _ \<Rightarrow> ([], w))"

definition conn_keys :: "string \<Rightarrow> 'q drule \<Rightarrow> nsn list" where
  \<comment> \<open>once per mention in the discovery profile, and once more for the profiles of the targets\<close>
  "conn_keys n dr =
     (case pm_DiscoveryProfile (dl_params dr) of None \<Rightarrow> []
      | Some d \<Rightarrow> map (\<lambda>_. meta_key (dl_meta dr)) (filter (\<lambda>p. p = n) (dp_ConnectionProfiles d)))
     @ (if \<exists>tp \<in> set (pm_TargetConnectionProfiles (dl_params dr)). tp_ConnectionProfile tp = n then [meta_key (dl_meta dr)] else [])"

definition TargetConnProfileForDiscoveryRule_add :: "('q, 'm, 'w) watch_env \<Rightarrow> kobj \<Rightarrow> 'w \<Rightarrow> nsn list \<times> 'w" where
  "TargetConnProfileForDiscoveryRule_add e x w =
     (case x of KConnProfile cr \<Rightarrow>
        listed (wt_ListRules e (m_namespace cr)) (\<lambda>xs. concat (map (conn_keys (m_name cr)) xs)) w
      | _ \<Rightarrow> ([], w))"

definition TargetSyncProfileForDiscoveryRule_add :: "('q, 'm, 'w) watch_env \<Rightarrow> kobj \<Rightarrow> 'w \<Rightarrow> nsn list \<times> 'w" where
  "TargetSyncProfileForDiscoveryRule_add e x w =
     (case x of KSyncProfile cr \<Rightarrow>
        listed (wt_ListRules e (m_namespace cr)) (\<lambda>xs. map (\<lambda>dr. meta_key (dl_meta dr))
          (filter (\<lambda>dr. \<exists>tp \<in> set (pm_TargetConnectionProfiles (dl_params dr)). tp_SyncProfile tp = Some (m_name cr)) xs)) w
      | _ \<Rightarrow> ([], w))"

section \<open>Events of a Secret for Schemas and Workspaces\<close>

definition SecretForSchema_add :: "('q, 'm, 'w) watch_env \<Rightarrow> kobj \<Rightarrow> 'w \<Rightarrow> nsn list \<times> 'w" where
  \<comment> \<open>over all namespaces; returns at the first Schema\<close>
  "SecretForSchema_add e x w =
     (case x of KSecret cr \<Rightarrow>
        listed (wt_ListSchemas e) (\<lambda>xs. case find (\<lambda>s. \<exists>r \<in> set (so_repos s). rp_Credentials r = m_name cr) xs of
           None \<Rightarrow> [] | Some s \<Rightarrow> [meta_key (so_meta s)]) w
      | _ \<Rightarrow> ([], w))"

definition SecretForWorkspace_add :: "('q, 'm, 'w) watch_env \<Rightarrow> kobj \<Rightarrow> 'w \<Rightarrow> nsn list \<times> 'w" where
  \<comment> \<open>over all namespaces; returns at the first Workspace\<close>
  "SecretForWorkspace_add e x w =
     (case x of KSecret cr \<Rightarrow>
        listed (wt_ListWorkspaces e) (\<lambda>xs. case find (\<lambda>s. ry_Credentials (wk_repo s) = m_name cr) xs of
           None \<Rightarrow> [] | Some s \<Rightarrow> [meta_key (wk_meta s)]) w
      | _ \<Rightarrow> ([], w))"

definition DeviationForTarget_add :: "kobj \<Rightarrow> 'w \<Rightarrow> nsn list outcome \<times> 'w" where
  \<comment> \<open>without target labels the error is logged and the nil key is followed\<close>
  "DeviationForTarget_add x w =
     (case x of KDeviation d \<Rightarrow> ((case GetTargetNamespaceName (m_labels (d_meta d)) of Inl _ \<Rightarrow> Crashes | Inr k \<Rightarrow> Ends [k]), w)
      | _ \<Rightarrow> (Ends [], w))"

section \<open>Any handler\<close>

locale event_handler =
  fixes add :: "kobj \<Rightarrow> 'w \<Rightarrow> nsn list \<times> 'w" and world :: "'w \<Rightarrow> bool" and hits :: "kobj \<Rightarrow> 'w \<Rightarrow> nsn set"
  assumes exact: "world w \<Longrightarrow> set (fst (add x w)) = hits x w"
    and pure: "world w \<Longrightarrow> snd (add x w) = w"
begin

lemma on_pure: "world w \<Longrightarrow> snd (on_event add ev w) = w"
proof (cases ev)
  case (OnUpdate old new)
  assume w: "world w"
  obtain ks where old: "add old w = (ks, w)" using pure [OF w] by (metis prod.collapse)
  obtain ks' where new: "add new w = (ks', w)" using pure [OF w] by (metis prod.collapse)
  show ?thesis by (simp add: OnUpdate old new)
qed (simp_all add: pure)

lemma on_exact: "world w \<Longrightarrow> set (fst (on_event add ev w)) = (\<Union>x \<in> ev_objects ev. hits x w)"
proof (cases ev)
  case (OnUpdate old new)
  assume w: "world w"
  obtain ks where old: "add old w = (ks, w)" using pure [OF w] by (metis prod.collapse)
  obtain ks' where new: "add new w = (ks', w)" using pure [OF w] by (metis prod.collapse)
  show ?thesis using exact [OF w, of old] exact [OF w, of new] by (simp add: OnUpdate old new)
qed (simp_all add: exact)

end

section \<open>The Target datastore controller\<close>

definition target_watch :: "('q, 'm, 'w) watch_env \<Rightarrow> kobj \<Rightarrow> 'w \<Rightarrow> nsn list \<times> 'w" where
  \<comment> \<open>the handlers \<open>SetupWithManager\<close> registers, by the kind of object they watch\<close>
  "target_watch e x =
     (case x of KConnProfile _ \<Rightarrow> TargetConnProfileForTarget_add e x | KSyncProfile _ \<Rightarrow> TargetSyncProfileForTarget_add e x
      | KSecret _ \<Rightarrow> SecretForTarget_add e x | KSchema _ \<Rightarrow> SchemaForTarget_add e x | _ \<Rightarrow> (\<lambda>w. ([], w)))"

definition pure_lists :: "('q, 'm, 'w) watch_env \<Rightarrow> bool" where
  \<comment> \<open>a list from the cache changes nothing\<close>
  "pure_lists e \<longleftrightarrow> (\<forall>ns w. snd (wt_ListTargets e ns w) = w) \<and> (\<forall>ns w. snd (wt_ListConfigSets e ns w) = w)
     \<and> (\<forall>ns w. snd (wt_ListRules e ns w) = w)"

definition listed_of :: "goerr + 'a list \<Rightarrow> 'a set" where
  "listed_of r = (case r of Inl _ \<Rightarrow> {} | Inr xs \<Rightarrow> set xs)"

lemma listed_pure: "snd (ls w) = w \<Longrightarrow> listed ls keys w = (case fst (ls w) of Inl _ \<Rightarrow> [] | Inr xs \<Rightarrow> keys xs, w)"
  by (cases "ls w") (auto simp: listed_def split: sum.split)

definition refers_to :: "kobj \<Rightarrow> target \<Rightarrow> bool" where
  \<comment> \<open>the fields of a Target the handlers look at\<close>
  "refers_to x t =
     (case x of KSecret cr \<Rightarrow> ts_credentials (t_spec t) = m_name cr
      | KConnProfile cr \<Rightarrow> ts_connectionProfile (t_spec t) = m_name cr
      | KSyncProfile cr \<Rightarrow> ts_syncProfile (t_spec t) = Some (m_name cr)
      | KSchema cr \<Rightarrow> (\<exists>d. t_discoveryInfo t = Some d \<and> di_provider d = so_provider cr \<and> di_version d = so_version cr)
      | _ \<Rightarrow> False)"

definition obj_namespace :: "kobj \<Rightarrow> string" where
  "obj_namespace x = (case x of KSecret cr \<Rightarrow> m_namespace cr | KConnProfile cr \<Rightarrow> m_namespace cr | KSyncProfile cr \<Rightarrow> m_namespace cr
     | KSchema cr \<Rightarrow> m_namespace (so_meta cr) | _ \<Rightarrow> [])"

definition target_hits :: "('q, 'm, 'w) watch_env \<Rightarrow> kobj \<Rightarrow> 'w \<Rightarrow> nsn set" where
  "target_hits e x w = {meta_key (t_meta t) |t. t \<in> listed_of (fst (wt_ListTargets e (obj_namespace x) w)) \<and> refers_to x t}"

interpretation td_watch: event_handler "target_watch e" "\<lambda>_. pure_lists e" "target_hits e" for e :: "('q, 'm, 'w) watch_env"
proof
  fix w :: 'w and x
  assume p: "pure_lists e"
  then have l: "listed (wt_ListTargets e ns) keys w = (case fst (wt_ListTargets e ns w) of Inl _ \<Rightarrow> [] | Inr xs \<Rightarrow> keys xs, w)"
    for ns and keys :: "target list \<Rightarrow> nsn list" by (intro listed_pure) (simp add: pure_lists_def)
  note defs = target_watch_def SecretForTarget_add_def TargetConnProfileForTarget_add_def TargetSyncProfileForTarget_add_def
    SchemaForTarget_add_def refers_def
  show "set (fst (target_watch e x w)) = target_hits e x w"
    by (cases x) (auto simp: defs l target_hits_def obj_namespace_def refers_to_def listed_of_def split: sum.splits option.splits)
  show "snd (target_watch e x w) = w" by (cases x) (simp_all add: defs l)
qed

definition td_pure :: "'w td_services \<Rightarrow> bool" where
  \<comment> \<open>reads change nothing\<close>
  "td_pure td \<longleftrightarrow> (\<forall>ns n w. snd (td_GetSecret td ns n w) = w) \<and> (\<forall>ns n w. snd (td_GetConnProfile td ns n w) = w)
     \<and> (\<forall>ns n w. snd (td_GetSyncProfile td ns n w) = w) \<and> (\<forall>ns w. snd (td_ListSchemas td ns w) = w)"

definition schemas_but :: "schema_obj \<Rightarrow> goerr + schema_cr list \<Rightarrow> goerr + schema_cr list \<Rightarrow> bool" where
  "schemas_but s a b \<longleftrightarrow> (\<exists>xs ys olds news. a = Inr (xs @ olds @ ys) \<and> b = Inr (xs @ news @ ys)
     \<and> (\<forall>c \<in> set olds \<union> set news. sk_provider c = so_provider s \<and> sk_version c = so_version s))"

definition same_but :: "'w td_services \<Rightarrow> kobj \<Rightarrow> 'w \<Rightarrow> 'w \<Rightarrow> bool" where
  \<comment> \<open>two states of the API server that differ in one object only\<close>
  "same_but td x w w' \<longleftrightarrow>
     (\<forall>ns n. fst (td_GetSecret td ns n w) = fst (td_GetSecret td ns n w') \<or> (\<exists>m. x = KSecret m \<and> meta_key m = (ns, n)))
     \<and> (\<forall>ns n. fst (td_GetConnProfile td ns n w) = fst (td_GetConnProfile td ns n w') \<or> (\<exists>m. x = KConnProfile m \<and> meta_key m = (ns, n)))
     \<and> (\<forall>ns n. fst (td_GetSyncProfile td ns n w) = fst (td_GetSyncProfile td ns n w') \<or> (\<exists>m. x = KSyncProfile m \<and> meta_key m = (ns, n)))
     \<and> (\<forall>ns. fst (td_ListSchemas td ns w) = fst (td_ListSchemas td ns w')
          \<or> (\<exists>s. x = KSchema s \<and> m_namespace (so_meta s) = ns \<and> schemas_but s (fst (td_ListSchemas td ns w)) (fst (td_ListSchemas td ns w'))))"

lemma find_schema_skip:
  "\<forall>c \<in> set cs. \<not> (sk_provider c = di_provider d \<and> sk_version c = di_version d) \<Longrightarrow> find_schema d (xs @ cs @ ys) = find_schema d (xs @ ys)"
proof (induction xs)
  case Nil
  then show ?case by (induction cs) auto
qed (auto simp: Let_def)

lemma request_reads:
  assumes p: "td_pure td"
    and sync: "\<And>n. ts_syncProfile (t_spec t) = Some n \<Longrightarrow>
      fst (td_GetSyncProfile td (m_namespace (t_meta t)) n w) = fst (td_GetSyncProfile td (m_namespace (t_meta t)) n w')"
    and conn: "fst (td_GetConnProfile td (m_namespace (t_meta t)) (ts_connectionProfile (t_spec t)) w)
      = fst (td_GetConnProfile td (m_namespace (t_meta t)) (ts_connectionProfile (t_spec t)) w')"
    and cred: "fst (td_GetSecret td (m_namespace (t_meta t)) (ts_credentials (t_spec t)) w)
      = fst (td_GetSecret td (m_namespace (t_meta t)) (ts_credentials (t_spec t)) w')"
    and tls: "\<And>n. ts_tlsSecret (t_spec t) = Some n \<Longrightarrow>
      fst (td_GetSecret td (m_namespace (t_meta t)) n w) = fst (td_GetSecret td (m_namespace (t_meta t)) n w')"
  shows "fst (getCreateDataStoreRequest si ks td t w) = fst (getCreateDataStoreRequest si ks td t w')"
proof -
  have rd: "\<exists>r. f w = (r, w) \<and> f w' = (r, w')" if "fst (f w) = fst (f w')" "\<And>w. snd (f w) = w" for f :: "'a \<Rightarrow> 'r \<times> 'a"
    using that by (intro exI [of _ "fst (f w)"]) (simp add: prod_eq_iff)
  note pd = p [unfolded td_pure_def]
  show ?thesis
  proof (cases "ts_syncProfile (t_spec t)")
    case (Some n)
    obtain r1 where r1: "td_GetSyncProfile td (m_namespace (t_meta t)) n w = (r1, w)" "td_GetSyncProfile td (m_namespace (t_meta t)) n w' = (r1, w')"
      using rd [OF sync [OF Some]] pd by blast
    obtain r2 where r2: "td_GetConnProfile td (m_namespace (t_meta t)) (ts_connectionProfile (t_spec t)) w = (r2, w)"
      "td_GetConnProfile td (m_namespace (t_meta t)) (ts_connectionProfile (t_spec t)) w' = (r2, w')"
      using rd [OF conn] pd by blast
    obtain r3 where r3: "td_GetSecret td (m_namespace (t_meta t)) (ts_credentials (t_spec t)) w = (r3, w)"
      "td_GetSecret td (m_namespace (t_meta t)) (ts_credentials (t_spec t)) w' = (r3, w')"
      using rd [OF cred] pd by blast
    have tl: "\<exists>r. request_tls td t cp refs w = (r, w) \<and> request_tls td t cp refs w' = (r, w')" for cp refs
    proof (cases "ts_tlsSecret (t_spec t)")
      case (Some n)
      obtain r4 where "td_GetSecret td (m_namespace (t_meta t)) n w = (r4, w)" "td_GetSecret td (m_namespace (t_meta t)) n w' = (r4, w')"
        using rd [OF tls [OF Some]] pd by blast
      then show ?thesis using Some by (cases r4) (simp_all add: request_tls_def Let_def)
    qed (simp add: request_tls_def Let_def)
    have t4: "fst (case request_tls td t cp refs w of (Inl err, w) \<Rightarrow> (Inl err, w) | (Inr (x, y), w) \<Rightarrow> g x y w)
        = fst (case request_tls td t cp refs w' of (Inl err, w) \<Rightarrow> (Inl err, w) | (Inr (x, y), w) \<Rightarrow> g x y w)"
      if "\<And>x y w w'. fst (g x y w) = fst (g x y w')" for cp refs and g :: "_ \<Rightarrow> _ \<Rightarrow> _ \<Rightarrow> (goerr + 'r) \<times> 'a"
      using tl [of cp refs] that by (auto split: sum.split)
    have opt: "fst (case t_discoveryInfo t of None \<Rightarrow> (a, v) | Some d \<Rightarrow> if P d then (a, v) else (b d, v))
        = fst (case t_discoveryInfo t of None \<Rightarrow> (a, v') | Some d \<Rightarrow> if P d then (a, v') else (b d, v'))"
      for a :: 'y and b P and v v' :: 'a
      by (simp split: option.split)
    show ?thesis
      by (cases r1; cases r2; cases r3)
        (auto simp: getCreateDataStoreRequest_def Let_def Some getSyncProfile_def getConnProfile_def r1 r2 r3 intro!: t4 opt
          split: if_splits)
  qed (simp add: getCreateDataStoreRequest_def Let_def)
qed

text \<open>
  C19: A Target is asked to reconcile when something it reads changes, with one exception. Take any event for a
  connection profile, a sync profile, a Secret or a Schema that is the only object of the API server that changed.
  Then every listed Target of its namespace is put on the queue, or the change leaves the datastore request of the
  Target and the readiness of its schema as they are, or the object is the Secret with the TLS certificates of the
  Target, whose changes no handler looks for.
\<close>

theorem target_sees_what_it_reads:
  assumes p: "pure_lists e" "td_pure td" and same: "same_but td x w w'" and ev: "x \<in> ev_objects ev"
    and t: "t \<in> listed_of (fst (wt_ListTargets e (m_namespace (t_meta t)) v))"
  shows "meta_key (t_meta t) \<in> set (fst (on_event (target_watch e) ev v))
    \<or> fst (getCreateDataStoreRequest si ks td t w) = fst (getCreateDataStoreRequest si ks td t w')
        \<and> fst (isSchemaReady td t w) = fst (isSchemaReady td t w')
    \<or> (\<exists>m n. x = KSecret m \<and> ts_tlsSecret (t_spec t) = Some n \<and> meta_key m = (m_namespace (t_meta t), n))"
proof (rule ccontr)
  assume neg: "\<not> ?thesis"
  from neg have tls: "\<not> (\<exists>m n. x = KSecret m \<and> ts_tlsSecret (t_spec t) = Some n \<and> meta_key m = (m_namespace (t_meta t), n))"
    by (simp only: de_Morgan_disj) simp
  from neg have no: "\<not> (fst (getCreateDataStoreRequest si ks td t w) = fst (getCreateDataStoreRequest si ks td t w')
        \<and> fst (isSchemaReady td t w) = fst (isSchemaReady td t w'))" by (simp only: de_Morgan_disj) simp
  from neg have "meta_key (t_meta t) \<notin> set (fst (on_event (target_watch e) ev v))" by (simp only: de_Morgan_disj) simp
    then have "meta_key (t_meta t) \<notin> target_hits e x v" using td_watch.on_exact [OF p(1)] ev by blast
    then have un: "obj_namespace x = m_namespace (t_meta t) \<Longrightarrow> \<not> refers_to x t" using t by (auto simp: target_hits_def)
    have s: "fst (td_GetSecret td ns n w) = fst (td_GetSecret td ns n w') \<or> (\<exists>m. x = KSecret m \<and> meta_key m = (ns, n))"
      "fst (td_GetConnProfile td ns n w) = fst (td_GetConnProfile td ns n w') \<or> (\<exists>m. x = KConnProfile m \<and> meta_key m = (ns, n))"
      "fst (td_GetSyncProfile td ns n w) = fst (td_GetSyncProfile td ns n w') \<or> (\<exists>m. x = KSyncProfile m \<and> meta_key m = (ns, n))"
      "fst (td_ListSchemas td ns w) = fst (td_ListSchemas td ns w')
          \<or> (\<exists>s. x = KSchema s \<and> m_namespace (so_meta s) = ns \<and> schemas_but s (fst (td_ListSchemas td ns w)) (fst (td_ListSchemas td ns w')))"
      for ns n using same unfolding same_but_def by blast+
    have "fst (getCreateDataStoreRequest si ks td t w) = fst (getCreateDataStoreRequest si ks td t w')"
    proof (rule request_reads [OF p(2)])
      show "fst (td_GetSyncProfile td (m_namespace (t_meta t)) n w) = fst (td_GetSyncProfile td (m_namespace (t_meta t)) n w')"
        if "ts_syncProfile (t_spec t) = Some n" for n
        using s(3) [of "m_namespace (t_meta t)" n] un that by (auto simp: obj_namespace_def refers_to_def)
      show "fst (td_GetConnProfile td (m_namespace (t_meta t)) (ts_connectionProfile (t_spec t)) w)
          = fst (td_GetConnProfile td (m_namespace (t_meta t)) (ts_connectionProfile (t_spec t)) w')"
        using s(2) [of "m_namespace (t_meta t)" "ts_connectionProfile (t_spec t)"] un by (auto simp: obj_namespace_def refers_to_def)
      show "fst (td_GetSecret td (m_namespace (t_meta t)) (ts_credentials (t_spec t)) w)
          = fst (td_GetSecret td (m_namespace (t_meta t)) (ts_credentials (t_spec t)) w')"
        using s(1) [of "m_namespace (t_meta t)" "ts_credentials (t_spec t)"] un by (auto simp: obj_namespace_def refers_to_def)
      show "fst (td_GetSecret td (m_namespace (t_meta t)) n w) = fst (td_GetSecret td (m_namespace (t_meta t)) n w')"
        if "ts_tlsSecret (t_spec t) = Some n" for n using s(1) [of "m_namespace (t_meta t)" n] tls that by blast
    qed
    moreover have "fst (isSchemaReady td t w) = fst (isSchemaReady td t w')"
    proof (cases "t_discoveryInfo t")
      case (Some d)
      have fs: "fst (isSchemaReady td t v) = (case fst (td_ListSchemas td (m_namespace (t_meta t)) v) of
          Inl err \<Rightarrow> Inl err | Inr items \<Rightarrow> Inr (find_schema d items))" for v
        using Some by (cases "td_ListSchemas td (m_namespace (t_meta t)) v") (auto simp: isSchemaReady_def split: sum.split)
      from s(4) [of "m_namespace (t_meta t)"] show ?thesis
      proof (elim disjE exE conjE)
        fix sc assume x: "x = KSchema sc" "m_namespace (so_meta sc) = m_namespace (t_meta t)"
          "schemas_but sc (fst (td_ListSchemas td (m_namespace (t_meta t)) w)) (fst (td_ListSchemas td (m_namespace (t_meta t)) w'))"
        then have "\<not> (di_provider d = so_provider sc \<and> di_version d = so_version sc)"
          using un Some by (auto simp: obj_namespace_def refers_to_def)
        then show ?thesis using x(3) by (auto simp: schemas_but_def fs find_schema_skip)
      qed (simp add: fs)
    qed (simp add: isSchemaReady_def)
    ultimately show False using no by blast
qed

lemma tls_rotation_unseen:
  assumes "pure_lists e" "x \<in> ev_objects ev" "ev_objects ev \<subseteq> range KSecret"
    and "\<And>m t'. KSecret m \<in> ev_objects ev \<Longrightarrow> t' \<in> listed_of (fst (wt_ListTargets e (m_namespace m) v))
      \<Longrightarrow> meta_key (t_meta t') = meta_key (t_meta t) \<Longrightarrow> ts_credentials (t_spec t') \<noteq> m_name m"
  shows "meta_key (t_meta t) \<notin> set (fst (on_event (target_watch e) ev v))"
proof
  assume "meta_key (t_meta t) \<in> set (fst (on_event (target_watch e) ev v))"
  then obtain y where y: "y \<in> ev_objects ev" "meta_key (t_meta t) \<in> target_hits e y v"
    using td_watch.on_exact [OF assms(1)] by auto
  then obtain m where "y = KSecret m" using assms(3) by blast
  then show False using y assms(4) by (force simp: target_hits_def obj_namespace_def refers_to_def)
qed

section \<open>The ConfigSet controller\<close>

definition configset_hits :: "('q, 'm, 'w) watch_env \<Rightarrow> kobj \<Rightarrow> 'w \<Rightarrow> nsn set" where
  "configset_hits e x w = (case x of
     KTarget t \<Rightarrow> {meta_key (cs_meta cs) |cs. cs \<in> listed_of (fst (wt_ListConfigSets e (Some (m_namespace (t_meta t))) w))
        \<and> selects e (xs_selector (cs_spec cs)) t (was_target cs (m_name (t_meta t)))}
   | _ \<Rightarrow> {})"

interpretation cs_watch: event_handler "TargetForConfigSet_add e" "\<lambda>_. pure_lists e" "configset_hits e" for e :: "('q, 'm, 'w) watch_env"
proof
  fix w :: 'w and x
  assume p: "pure_lists e"
  then have l: "listed (wt_ListConfigSets e ns) keys w = (case fst (wt_ListConfigSets e ns w) of Inl _ \<Rightarrow> [] | Inr xs \<Rightarrow> keys xs, w)"
    for ns and keys :: "configset list \<Rightarrow> nsn list" by (intro listed_pure) (simp add: pure_lists_def)
  show "set (fst (TargetForConfigSet_add e x w)) = configset_hits e x w"
    by (cases x) (auto simp: TargetForConfigSet_add_def l configset_hits_def listed_of_def split: sum.splits)
  show "snd (TargetForConfigSet_add e x w) = w" by (cases x) (simp_all add: TargetForConfigSet_add_def l)
qed

fun target_change :: "target kevent \<Rightarrow> target list \<times> target list" where
  \<comment> \<open>what an event about a Target takes out of the store and puts into it\<close>
  "target_change (OnCreate t) = ([], [t])"
| "target_change (OnUpdate old new) = ([old], [new])"
| "target_change (OnDelete t) = ([t], [])"
| "target_change (OnGeneric t) = ([t], [t])"

lemma change_objects: "(olds, news) = target_change ev \<Longrightarrow> t \<in> set olds \<union> set news \<Longrightarrow> KTarget t \<in> ev_objects (map_kevent KTarget ev)"
  by (cases ev) auto

text \<open>
  C20: A ConfigSet is asked to reconcile whenever its targets change. Take any event for a Target: created, deleted,
  or updated from one object to another, with whatever change of its labels. Every listed ConfigSet of the
  namespace is put on the queue, or the targets the ConfigSet controller unrolls its selector to are the same
  before and after. The handler looks at the old and at the new object, so that a Target that stops matching is
  seen too.
\<close>

theorem configset_sees_target_changes:
  assumes p: "pure_lists e" and sel: "wt_selectorOf e = ce_selectorOf ce"
    and ls: "\<And>ns q w. cv_ListTargets (ce_sv ce) ns q w
      = (Inr (filter (\<lambda>t. m_namespace (t_meta t) = ns \<and> wt_matches e q (m_labels (t_meta t))) (all w)), w)"
    and ev: "target_change ev = (olds, news)" "all w = xs @ olds @ ys" "all w' = xs @ news @ ys"
    and cs: "cs \<in> listed_of (fst (wt_ListConfigSets e (Some (m_namespace (cs_meta cs))) v))"
  shows "meta_key (cs_meta cs) \<in> set (fst (on_event (TargetForConfigSet_add e) (map_kevent KTarget ev) v))
    \<or> fst (unrollDownstreamTargets ce cs w) = fst (unrollDownstreamTargets ce cs w')"
proof (cases "wt_selectorOf e (xs_selector (cs_spec cs))")
  case (Inr q)
  show ?thesis
  proof (rule disjCI)
    let ?P = "\<lambda>t. m_namespace (t_meta t) = m_namespace (cs_meta cs) \<and> wt_matches e q (m_labels (t_meta t))"
    assume ne: "fst (unrollDownstreamTargets ce cs w) \<noteq> fst (unrollDownstreamTargets ce cs w')"
    have "\<exists>t \<in> set olds \<union> set news. ?P t"
    proof (rule ccontr)
      assume "\<not> ?thesis"
      then have "filter ?P olds = []" "filter ?P news = []" by (auto simp: filter_empty_conv)
      then have "filter ?P (all w) = filter ?P (all w')" using ev by simp
      then show False using ne Inr sel by (simp add: unrollDownstreamTargets_def ls)
    qed
    then obtain t where t: "KTarget t \<in> ev_objects (map_kevent KTarget ev)" "?P t" using change_objects ev(1) by metis
    then have "meta_key (cs_meta cs) \<in> configset_hits e (KTarget t) v"
      using cs Inr by (auto simp: configset_hits_def selects_def)
    then show "meta_key (cs_meta cs) \<in> set (fst (on_event (TargetForConfigSet_add e) (map_kevent KTarget ev) v))"
      using cs_watch.on_exact [OF p] t(1) by blast
  qed
qed (use sel in \<open>simp add: unrollDownstreamTargets_def\<close>)

section \<open>Handlers that return early\<close>

text \<open>
  A rotated Secret reaches one DiscoveryRule. The handler returns after the first rule that uses the Secret, in
  the profile for the discovery or in one for its targets: of two rules that share their credentials only the
  first of the list is put on the queue, and the other keeps running with the old ones.
\<close>

theorem rotated_secret_reaches_one_rule:
  assumes p: "pure_lists e" and ls: "fst (wt_ListRules e (m_namespace m) w) = Inr (xs @ r # ys)"
    and none: "\<not> (\<exists>x \<in> set xs. rule_uses_secret (m_name m) x)" and uses: "rule_uses_secret (m_name m) r"
    and other: "r2 \<in> set ys" "rule_uses_secret (m_name m) r2" "meta_key (dl_meta r2) \<noteq> meta_key (dl_meta r)"
  shows "SecretForDiscoveryRule_add e (KSecret m) w = ([meta_key (dl_meta r)], w)
    \<and> meta_key (dl_meta r2) \<notin> set (fst (SecretForDiscoveryRule_add e (KSecret m) w))"
proof -
  have "find (rule_uses_secret (m_name m)) (xs @ r # ys) = Some r"
    using none uses by (induction xs) auto
  then have "SecretForDiscoveryRule_add e (KSecret m) w = ([meta_key (dl_meta r)], w)"
    using ls p by (simp add: SecretForDiscoveryRule_add_def listed_pure pure_lists_def)
  then show ?thesis using other(3) by simp
qed

lemma unlabelled_deviation_crashes:
  "m_labels (d_meta d) = [] \<Longrightarrow> fst (DeviationForTarget_add (KDeviation d) w) = Crashes"
  by (simp add: DeviationForTarget_add_def GetTargetNamespaceName_def)

section \<open>A sample system\<close>

definition sample_secret_meta :: objmeta where
  "sample_secret_meta = empty_meta\<lparr>m_name := ''s'', m_namespace := ''ns''\<rparr>"

definition watched_target :: target where
  "watched_target = sample_target\<lparr>t_meta := empty_meta\<lparr>m_name := ''t1'', m_namespace := ''ns'', m_labels := [(''role'', ''leaf'')]\<rparr>,
     t_spec := \<lparr>ts_provider = [], ts_address = [], ts_credentials = ''s'', ts_connectionProfile = ''c'', ts_syncProfile = Some ''y'',
       ts_tlsSecret = None\<rparr>,
     t_discoveryInfo := Some \<lparr>di_protocol = [], di_provider = ''nokia'', di_version = ''1'', di_hostname = [], di_platform = [],
       di_macAddress = [], di_serialNumber = [], di_supportedEncodings = []\<rparr>\<rparr>"

definition watched_set :: configset where
  "watched_set = \<lparr>cs_apiVersion = [], cs_kind = [], cs_meta = empty_meta\<lparr>m_name := ''cs'', m_namespace := ''ns''\<rparr>,
     cs_spec = \<lparr>xs_selector = ''leaf'', xs_lifecycle = None, xs_priority = 10, xs_revertive = None, xs_config = []\<rparr>,
     cs_conditions = [], cs_targets = None\<rparr>"

definition watched_rule :: "string \<Rightarrow> string drule" where
  "watched_rule n = \<lparr>dl_apiVersion = [], dl_kind = [], dl_meta = empty_meta\<lparr>m_name := n, m_namespace := ''ns''\<rparr>, dl_Prefixes = [],
     dl_Addresses = [], dl_PodSelector = None, dl_SvcSelector = None, dl_ServiceDomain = [],
     dl_params = \<lparr>pm_DefaultSchema = None,
       pm_DiscoveryProfile = Some \<lparr>dp_Credentials = ''s'', dp_ConnectionProfiles = [''c'']\<rparr>,
       pm_TargetConnectionProfiles = [], pm_TargetTemplate = None, pm_Period = 0, pm_ConcurrentScans = 0\<rparr>,
     dl_conditions = []\<rparr>"

definition watch_sample :: "(string, string, unit) watch_env" where
  "watch_sample = \<lparr>wt_ListTargets = (\<lambda>ns w. (Inr [watched_target], w)), wt_ListConfigSets = (\<lambda>ns w. (Inr [watched_set], w)),
     wt_ListSubscriptions = (\<lambda>ns w. (Inr [], w)), wt_ListConfigs = (\<lambda>ns l w. (Inr [], w)),
     wt_ListRules = (\<lambda>ns w. (Inr [watched_rule ''r1'', watched_rule ''r2''], w)),
     wt_ListSchemas = (\<lambda>w. (Inr [], w)), wt_ListWorkspaces = (\<lambda>w. (Inr [], w)),
     wt_selectorOf = Inr, wt_matches = (\<lambda>q l. q \<in> snd ` set l)\<rparr>"

definition rotating_td :: "nat td_services" where
  \<comment> \<open>the Secret \<open>s\<close> has the resource version of the world\<close>
  "rotating_td = sample_td\<lparr>td_GetSecret := (\<lambda>ns n w.
     (Inr \<lparr>sec_resourceVersion = (if ns = ''ns'' \<and> n = ''s'' \<and> w = 1 then ''2'' else ''1''), sec_data = []\<rparr>, w))\<rparr>"

lemma watch_sample_pure: "pure_lists watch_sample"
  by (simp add: pure_lists_def watch_sample_def)

lemma rotating_td_laws: "td_pure rotating_td" "same_but rotating_td (KSecret sample_secret_meta) 0 1"
  by (auto simp: td_pure_def same_but_def rotating_td_def sample_td_def sample_secret_meta_def empty_meta_def)

lemma target_sees_what_it_reads_witness:
  "(''ns'', ''t1'') \<in> set (fst (on_event (target_watch watch_sample) (OnUpdate (KSecret sample_secret_meta) (KSecret sample_secret_meta)) ()))"
proof -
  let ?ev = "OnUpdate (KSecret sample_secret_meta) (KSecret sample_secret_meta)"
  have key: "meta_key (t_meta watched_target) = (''ns'', ''t1'')" "m_namespace (t_meta watched_target) = ''ns''"
    "ts_tlsSecret (t_spec watched_target) = None"
    by (simp_all add: watched_target_def empty_meta_def)
  have "watched_target \<in> listed_of (fst (wt_ListTargets watch_sample (m_namespace (t_meta watched_target)) ()))"
    by (simp add: watch_sample_def listed_of_def)
  from target_sees_what_it_reads [OF watch_sample_pure rotating_td_laws _ this, of ?ev "\<lambda>_. []" "\<lambda>_. []"]
  have "meta_key (t_meta watched_target) \<in> set (fst (on_event (target_watch watch_sample) ?ev ()))
    \<or> fst (getCreateDataStoreRequest (\<lambda>_. []) (\<lambda>_. []) rotating_td watched_target 0)
      = fst (getCreateDataStoreRequest (\<lambda>_. []) (\<lambda>_. []) rotating_td watched_target 1)" using key(3) by auto
  moreover have "map_option (\<lambda>r. ur_secret (snd r)) (case fst (getCreateDataStoreRequest (\<lambda>_. []) (\<lambda>_. []) rotating_td watched_target 0) of Inr r \<Rightarrow> Some r | _ \<Rightarrow> None) = Some ''1''"
    "map_option (\<lambda>r. ur_secret (snd r)) (case fst (getCreateDataStoreRequest (\<lambda>_. []) (\<lambda>_. []) rotating_td watched_target 1) of Inr r \<Rightarrow> Some r | _ \<Rightarrow> None) = Some ''2''"
    by code_simp+
  ultimately show ?thesis unfolding key(1) by auto
qed

definition leaf_cs_env :: "(string, string, target list) cs_env" where
  "leaf_cs_env = \<lparr>ce_sv = \<lparr>cv_Get = (\<lambda>ns n w. (Inr watched_set, w)),
       cv_ListTargets = (\<lambda>ns q w. (Inr (filter (\<lambda>t. m_namespace (t_meta t) = ns \<and> wt_matches watch_sample q (m_labels (t_meta t))) w), w)),
       cv_ListConfigs = (\<lambda>w. (Inr [], w)), cv_Create = (\<lambda>c w. (None, w)), cv_Update = (\<lambda>c w. (None, w)), cv_Delete = (\<lambda>c w. (None, w)),
       cv_ApplyStatus = (\<lambda>n ns c ts w. (None, w)), cv_ApplyFinalizers = (\<lambda>n ns fs w. (None, w)), cv_Event = (\<lambda>t r m w. w)\<rparr>,
     ce_selectorOf = Inr, ce_hash = (\<lambda>c. Inr []), ce_now = 1\<rparr>"

lemma configset_sees_target_changes_witness:
  "(''ns'', ''cs'') \<in> set (fst (on_event (TargetForConfigSet_add watch_sample) (map_kevent KTarget (OnDelete watched_target)) ()))"
proof -
  have "meta_key (cs_meta watched_set) \<in> set (fst (on_event (TargetForConfigSet_add watch_sample) (map_kevent KTarget (OnDelete watched_target)) ()))
    \<or> fst (unrollDownstreamTargets leaf_cs_env watched_set [watched_target]) = fst (unrollDownstreamTargets leaf_cs_env watched_set [])"
    by (rule configset_sees_target_changes [where xs = "[]" and ys = "[]" and all = "\<lambda>w. w" and olds = "[watched_target]" and news = "[]"])
      (simp_all add: watch_sample_pure leaf_cs_env_def, simp_all add: watch_sample_def listed_of_def)
  moreover have "fst (unrollDownstreamTargets leaf_cs_env watched_set [watched_target]) = Inr [(''ns'', ''t1'')]"
    "fst (unrollDownstreamTargets leaf_cs_env watched_set []) = Inr []" by code_simp+
  moreover have "meta_key (cs_meta watched_set) = (''ns'', ''cs'')" by (simp add: watched_set_def empty_meta_def)
  ultimately show ?thesis by simp
qed

lemma rotated_secret_reaches_one_rule_witness:
  "SecretForDiscoveryRule_add watch_sample (KSecret sample_secret_meta) () = ([(''ns'', ''r1'')], ())
    \<and> (''ns'', ''r2'') \<notin> set (fst (SecretForDiscoveryRule_add watch_sample (KSecret sample_secret_meta) ()))"
proof -
  have key: "meta_key (dl_meta (watched_rule n)) = (''ns'', n)" for n by (simp add: watched_rule_def empty_meta_def)
  have "rule_uses_secret (m_name sample_secret_meta) (watched_rule n)" for n
    by (simp add: rule_uses_secret_def watched_rule_def sample_secret_meta_def empty_meta_def)
  then show ?thesis
    using rotated_secret_reaches_one_rule [OF watch_sample_pure, of sample_secret_meta "()" "[]" "watched_rule ''r1''" "[watched_rule ''r2'']" "watched_rule ''r2''"]
    by (simp add: key) (simp add: watch_sample_def)
qed

end
