(* ===== verification/WatcherManager.thy ===== *)
theory WatcherManager
  imports Prelude
begin

text \<open>
  The watcher manager (\<open>pkg/watcher-manager\<close>): the table of the watchers, the semaphore that bounds it, and the
  goroutines that use both. An \<open>Add\<close> first cleans the table, then takes a permit, then inserts; an event of
  \<open>Start\<close> runs one goroutine per watcher. Every critical section of the table and every operation of the
  semaphore is one step, so that a schedule is a list of operations. The callbacks are an argument of the
  step; contexts that have ended are part of the state; keys are numbers where the code draws a uuid.
  The semaphore is \<open>golang.org/x/sync/semaphore\<close>, whose documentation says that a release of more than is held
  panics; nobody waits for it here.
\<close>

section \<open>State\<close>

text \<open>
  \<open>Check\<close>: about to ask whether watcher \<open>k\<close> is done. \<open>Del\<close>: about to take it out of the table. \<open>Rel\<close>: about to
  return its permit. Their second part tells whose step it is: a goroutine of an event, or an \<open>Add\<close> with the
  keys it has still to look at. \<open>Acquire\<close> and \<open>Insert\<close>: the rest of an \<open>Add\<close>.
\<close>

datatype agent =
    Check nat "nat list option"
  | Del nat "nat list option"
  | Rel "nat list option"
  | Acquire
  | Insert

datatype wm_loop = NotStarted | Looping bool | Returned

record wm =
  wm_max :: nat
  wm_held :: int
  wm_watchers :: "nat list"
  wm_done :: "nat list"
  wm_next :: nat
  wm_agents :: "agent list"
  wm_loop :: wm_loop
  wm_results :: "goerr option list"
  wm_panicked :: bool

text \<open>\<open>Looping c\<close>: \<open>Start\<close> runs, its context cancelled or not. \<open>wm_results\<close>: what the calls of \<open>Add\<close> returned.\<close>

definition wm_New :: "nat \<Rightarrow> wm" where
  "wm_New m = \<lparr>wm_max = m, wm_held = 0, wm_watchers = [], wm_done = [], wm_next = 0, wm_agents = [],
     wm_loop = NotStarted, wm_results = [], wm_panicked = False\<rparr>"

section \<open>Operations\<close>

fun clean_next :: "nat list option \<Rightarrow> agent list" where
  \<comment> \<open>the next round of the loop of \<open>Add\<close>, or what follows it; a goroutine of an event ends\<close>
  "clean_next None = []"
| "clean_next (Some []) = [Acquire]"
| "clean_next (Some (k # ks)) = [Check k (Some ks)]"

definition sem_Release :: "wm \<Rightarrow> wm" where
  \<comment> \<open>releasing more than is held panics\<close>
  "sem_Release s =
     (let s = s\<lparr>wm_held := wm_held s - 1\<rparr> in if wm_held s < 0 then s\<lparr>wm_panicked := True\<rparr> else s)"

definition sem_TryAcquire :: "wm \<Rightarrow> bool \<times> wm" where
  "sem_TryAcquire s = (if 1 \<le> int (wm_max s) - wm_held s then (True, s\<lparr>wm_held := wm_held s + 1\<rparr>) else (False, s))"

definition wm_del :: "nat \<Rightarrow> wm \<Rightarrow> wm" where
  "wm_del k s = s\<lparr>wm_watchers := removeAll k (wm_watchers s)\<rparr>"

definition wm_insert :: "wm \<Rightarrow> wm" where
  "wm_insert s = s\<lparr>wm_watchers := wm_watchers s @ [wm_next s], wm_next := Suc (wm_next s)\<rparr>"

definition wm_return :: "goerr option \<Rightarrow> wm \<Rightarrow> wm" where
  "wm_return r s = s\<lparr>wm_results := wm_results s @ [r]\<rparr>"

definition add_acquire :: "wm \<Rightarrow> agent list \<times> wm" where
  [simp]: "add_acquire s =
     (case sem_TryAcquire s of
        (True, s) \<Rightarrow> ([Insert], s)
      | (False, s) \<Rightarrow> ([], wm_return (Some (err_new ''max number of watchers reached'')) s))"

definition add_insert :: "wm \<Rightarrow> agent list \<times> wm" where
  \<comment> \<open>with a new key\<close>
  [simp]: "add_insert s = ([], wm_return None (wm_insert s))"

fun agent_step :: "bool \<Rightarrow> agent \<Rightarrow> wm \<Rightarrow> agent list \<times> wm" where
  \<comment> \<open>the flag: what \<open>OnChange\<close> of the watcher answers, where it is asked\<close>
  "agent_step keepGoing (Check k rest) s =
     (if k \<in> set (wm_done s) then ([Del k rest], s)
      else case rest of None \<Rightarrow> (if keepGoing then [] else [Del k None], s) | Some _ \<Rightarrow> (clean_next rest, s))"
| "agent_step keepGoing (Del k rest) s = ([Rel rest], wm_del k s)"
| "agent_step keepGoing (Rel rest) s = (clean_next rest, sem_Release s)"
| "agent_step keepGoing Acquire s = add_acquire s"
| "agent_step keepGoing Insert s = add_insert s"

text \<open>
  \<open>WCancel\<close>: the context of a watcher ends. \<open>WAdd\<close>: a call of \<open>Add\<close>, with the order in which it finds the
  table. \<open>WEvent\<close>: \<open>Start\<close> receives an event, which it does not do before the goroutines of the last one are
  gone. \<open>WLeave\<close>: \<open>Start\<close> sees that its context was cancelled. \<open>WAgent\<close>: one goroutine or caller takes a step.
\<close>

datatype wm_op = WStart | WStop | WLeave | WCancel nat | WAdd "nat list" | WEvent | WAgent nat bool

fun of_event :: "agent \<Rightarrow> bool" where
  "of_event (Check k rest) = (rest = None)"
| "of_event (Del k rest) = (rest = None)"
| "of_event (Rel rest) = (rest = None)"
| "of_event Acquire = False"
| "of_event Insert = False"

definition receiving :: "wm \<Rightarrow> bool" where
  \<comment> \<open>\<open>Start\<close> is at its \<open>select\<close>\<close>
  "receiving s \<longleftrightarrow> (wm_loop s = Looping True \<or> wm_loop s = Looping False) \<and> \<not> list_ex of_event (wm_agents s)"

fun wm_act :: "wm_op \<Rightarrow> wm \<Rightarrow> wm" where
  "wm_act WStart s = (if wm_loop s = NotStarted then s\<lparr>wm_loop := Looping False\<rparr> else s)"
| "wm_act WStop s = (if wm_loop s = Looping False then s\<lparr>wm_loop := Looping True\<rparr> else s)"
| "wm_act WLeave s = (if wm_loop s = Looping True \<and> receiving s then s\<lparr>wm_loop := Returned\<rparr> else s)"
| "wm_act (WCancel k) s = s\<lparr>wm_done := k # wm_done s\<rparr>"
| "wm_act (WAdd ks) s =
     (if distinct ks \<and> set ks = set (wm_watchers s) then s\<lparr>wm_agents := wm_agents s @ clean_next (Some ks)\<rparr> else s)"
| "wm_act WEvent s =
     (if receiving s then s\<lparr>wm_agents := wm_agents s @ map (\<lambda>k. Check k None) (wm_watchers s)\<rparr> else s)"
| "wm_act (WAgent i keepGoing) s =
     (case drop i (wm_agents s) of
        [] \<Rightarrow> s
      | a # after \<Rightarrow>
          (let (new, t) = agent_step keepGoing a s in t\<lparr>wm_agents := take i (wm_agents s) @ new @ after\<rparr>))"

definition wm_step :: "wm_op \<Rightarrow> wm \<Rightarrow> wm" where
  \<comment> \<open>a panic ends the program\<close>
  "wm_step op s = (if wm_panicked s then s else wm_act op s)"

section \<open>One removal at a time\<close>

fun settled :: "agent \<Rightarrow> bool" where
  \<comment> \<open>a caller that has cleaned the table\<close>
  "settled Acquire = True"
| "settled Insert = True"
| "settled _ = False"

definition wm_serial :: "wm_op \<Rightarrow> wm \<Rightarrow> wm" where
  \<comment> \<open>nobody starts to remove watchers while another may still do so\<close>
  "wm_serial op s =
     (case op of
        WAdd _ \<Rightarrow> (if list_all settled (wm_agents s) then wm_step op s else s)
      | WEvent \<Rightarrow> (if list_all settled (wm_agents s) then wm_step op s else s)
      | _ \<Rightarrow> wm_step op s)"

fun to_visit :: "nat list option \<Rightarrow> nat list" where
  "to_visit None = []"
| "to_visit (Some ks) = ks"

fun claims :: "agent \<Rightarrow> nat list" where
  \<comment> \<open>the watchers it may still take out of the table\<close>
  "claims (Check k rest) = k # to_visit rest"
| "claims (Del k rest) = k # to_visit rest"
| "claims (Rel rest) = to_visit rest"
| "claims _ = []"

fun permits :: "agent \<Rightarrow> nat" where
  \<comment> \<open>the permits it has to return or to use\<close>
  "permits (Rel _) = 1"
| "permits Insert = 1"
| "permits _ = 0"

definition all_claims :: "agent list \<Rightarrow> nat list" where
  "all_claims as = concat (map claims as)"

definition all_permits :: "agent list \<Rightarrow> nat" where
  "all_permits as = sum_list (map permits as)"

definition wm_inv :: "nat \<Rightarrow> wm \<Rightarrow> bool" where
  "wm_inv m s \<longleftrightarrow> wm_max s = m \<and> \<not> wm_panicked s \<and> distinct (wm_watchers s) \<and> (\<forall>k \<in> set (wm_watchers s). k < wm_next s)
     \<and> distinct (all_claims (wm_agents s)) \<and> set (all_claims (wm_agents s)) \<subseteq> set (wm_watchers s)
     \<and> wm_held s = int (length (wm_watchers s) + all_permits (wm_agents s)) \<and> wm_held s \<le> int m"

lemma all_claims_simps [simp]:
  "all_claims [] = []" "all_claims (a # as) = claims a @ all_claims as" "all_claims (as @ bs) = all_claims as @ all_claims bs"
  by (simp_all add: all_claims_def)

lemma all_permits_simps [simp]:
  "all_permits [] = 0" "all_permits (a # as) = permits a + all_permits as" "all_permits (as @ bs) = all_permits as + all_permits bs"
  by (simp_all add: all_permits_def)

lemma settled_claims: "list_all settled as \<Longrightarrow> all_claims as = []"
  by (induction as) (auto elim: settled.elims)

lemma checks_claim [simp]: "all_claims (map (\<lambda>k. Check k None) ks) = ks" "all_permits (map (\<lambda>k. Check k None) ks) = 0"
  by (induction ks) simp_all

lemma clean_next_owes [simp]: "all_claims (clean_next rest) = to_visit rest" "all_permits (clean_next rest) = 0"
  by (cases rest rule: clean_next.cases; simp)+

lemma length_removeAll: "distinct ks \<Longrightarrow> k \<in> set ks \<Longrightarrow> int (length (removeAll k ks)) = int (length ks) - 1"
  by (induction ks) (auto simp: removeAll_id)

lemma agent_step_inv:
  assumes "wm_inv m s" "wm_agents s = before @ a # after" "agent_step keepGoing a s = (new, t)"
  shows "wm_inv m (t\<lparr>wm_agents := before @ new @ after\<rparr>)"
proof (cases a)
  case (Check k rest)
  then show ?thesis using assms
    by (auto simp: wm_inv_def split: if_splits option.splits)
next
  case (Del k rest)
  then have "int (length (removeAll k (wm_watchers s))) = int (length (wm_watchers s)) - 1"
    using assms by (intro length_removeAll) (auto simp: wm_inv_def)
  with Del show ?thesis using assms by (auto simp: wm_inv_def wm_del_def distinct_removeAll)
next
  case (Rel rest)
  then show ?thesis using assms by (auto simp: wm_inv_def sem_Release_def)
next
  case Acquire
  then show ?thesis using assms by (auto simp: wm_inv_def sem_TryAcquire_def wm_return_def split: if_splits)
next
  case Insert
  have "\<forall>k \<in> set (wm_watchers s). k < Suc (wm_next s)" using assms(1) by (simp add: wm_inv_def less_SucI)
  with Insert show ?thesis using assms by (auto simp: wm_inv_def wm_insert_def wm_return_def)
qed

lemma wm_serial_inv: "wm_inv m s \<Longrightarrow> wm_inv m (wm_serial op s)"
proof -
  assume inv: "wm_inv m s"
  show ?thesis
  proof (cases op)
    case (WAdd ks)
    then show ?thesis using inv settled_claims [of "wm_agents s"]
      by (auto simp: wm_serial_def wm_step_def wm_inv_def)
  next
    case WEvent
    then show ?thesis using inv settled_claims [of "wm_agents s"]
      by (auto simp: wm_serial_def wm_step_def wm_inv_def)
  next
    case (WAgent i keepGoing)
    show ?thesis
    proof (cases "drop i (wm_agents s)")
      case (Cons a after)
      then have "wm_agents s = take i (wm_agents s) @ a # after" by (metis append_take_drop_id)
      moreover obtain new t where step: "agent_step keepGoing a s = (new, t)" by (rule prod.exhaust)
      ultimately have "wm_inv m (t\<lparr>wm_agents := take i (wm_agents s) @ new @ after\<rparr>)"
        by (rule agent_step_inv [OF inv])
      then show ?thesis using WAgent Cons step inv by (simp add: wm_serial_def wm_step_def)
    qed (use WAgent inv in \<open>simp add: wm_serial_def wm_step_def\<close>)
  qed (use inv in \<open>auto simp: wm_serial_def wm_step_def wm_inv_def\<close>)
qed

interpretation wm_machine: invariant_machine wm_serial "wm_New m" "wm_inv m" for m
  by unfold_locales (simp add: wm_inv_def wm_New_def, rule wm_serial_inv)

text \<open>
  As long as nobody starts to remove watchers while another may still do so, the semaphore counts exactly
  the watchers of the table and the permits that are on their way: it never exceeds its bound, so there are
  at most that many watchers, no permit is returned twice, and the keys of the table differ. This covers
  every schedule of the goroutines of one event, of callers that have cleaned the table, and of contexts that
  end at any time.
\<close>

theorem watcher_slots_exact:
  "let s = run_ops wm_serial ops (wm_New m) in \<not> wm_panicked s \<and> distinct (wm_watchers s)
     \<and> wm_held s = int (length (wm_watchers s) + all_permits (wm_agents s)) \<and> length (wm_watchers s) \<le> m"
  using wm_machine.inv_run [of m ops] by (auto simp: wm_inv_def Let_def)

section \<open>An Add on its own\<close>

definition wm_live :: "wm \<Rightarrow> nat list" where
  "wm_live s = filter (\<lambda>k. k \<notin> set (wm_done s)) (wm_watchers s)"

lemma wm_then: "run_ops wm_step (replicate (n + k) op) s = run_ops wm_step (replicate k op) (run_ops wm_step (replicate n op) s)"
  unfolding run_ops_def replicate_add fold_append o_apply ..

lemma clean_run:
  assumes "wm_agents s = clean_next (Some ks)" "\<not> wm_panicked s" "distinct ks" "distinct (wm_watchers s)"
    "set ks \<subseteq> set (wm_watchers s)" "wm_held s = int (length (wm_watchers s))"
  shows "\<exists>n. run_ops wm_step (replicate n (WAgent 0 kg)) s =
    (let ws = filter (\<lambda>k. k \<notin> set ks \<or> k \<notin> set (wm_done s)) (wm_watchers s) in
     s\<lparr>wm_watchers := ws, wm_held := int (length ws), wm_agents := [Acquire]\<rparr>)"
  using assms
proof (induction ks arbitrary: s)
  case Nil
  then have "run_ops wm_step (replicate 0 (WAgent 0 kg)) s =
    (let ws = filter (\<lambda>k. k \<notin> set [] \<or> k \<notin> set (wm_done s)) (wm_watchers s) in
     s\<lparr>wm_watchers := ws, wm_held := int (length ws), wm_agents := [Acquire]\<rparr>)"
    by (simp add: run_ops_def Let_def)
  then show ?case ..
next
  case (Cons k ks)
  show ?case
  proof (cases "k \<in> set (wm_done s)")
    case True
    define t where "t = s\<lparr>wm_watchers := removeAll k (wm_watchers s),
      wm_held := int (length (removeAll k (wm_watchers s))), wm_agents := clean_next (Some ks)\<rparr>"
    have len: "int (length (removeAll k (wm_watchers s))) = int (length (wm_watchers s)) - 1"
      using Cons.prems by (intro length_removeAll) auto
    have "wm_watchers s \<noteq> []" using Cons.prems by auto
    then have three: "run_ops wm_step (replicate 3 (WAgent 0 kg)) s = t"
      using Cons.prems True len
      by (simp add: run_ops_def numeral_3_eq_3 wm_step_def wm_del_def sem_Release_def t_def)
    have "set ks \<subseteq> set (wm_watchers t)" "distinct (wm_watchers t)"
      using Cons.prems by (auto simp: t_def distinct_removeAll)
    then obtain n where "run_ops wm_step (replicate n (WAgent 0 kg)) t =
      (let ws = filter (\<lambda>k. k \<notin> set ks \<or> k \<notin> set (wm_done t)) (wm_watchers t) in
       t\<lparr>wm_watchers := ws, wm_held := int (length ws), wm_agents := [Acquire]\<rparr>)"
      using Cons.IH [of t] Cons.prems by (auto simp: t_def)
    moreover have "filter (\<lambda>x. x \<notin> set ks \<or> x \<notin> set (wm_done s)) (removeAll k (wm_watchers s))
        = filter (\<lambda>x. x \<notin> set (k # ks) \<or> x \<notin> set (wm_done s)) (wm_watchers s)"
      using True Cons.prems by (auto simp: removeAll_filter_not_eq intro: filter_cong)
    ultimately have "run_ops wm_step (replicate (3 + n) (WAgent 0 kg)) s =
      (let ws = filter (\<lambda>x. x \<notin> set (k # ks) \<or> x \<notin> set (wm_done s)) (wm_watchers s) in
       s\<lparr>wm_watchers := ws, wm_held := int (length ws), wm_agents := [Acquire]\<rparr>)"
      using three by (simp add: run_ops_def replicate_add t_def Let_def)
    then show ?thesis ..
  next
    case False
    define t where "t = s\<lparr>wm_agents := clean_next (Some ks)\<rparr>"
    have one: "run_ops wm_step (replicate 1 (WAgent 0 kg)) s = t"
      using Cons.prems False by (simp add: run_ops_def wm_step_def t_def)
    obtain n where "run_ops wm_step (replicate n (WAgent 0 kg)) t =
      (let ws = filter (\<lambda>k. k \<notin> set ks \<or> k \<notin> set (wm_done t)) (wm_watchers t) in
       t\<lparr>wm_watchers := ws, wm_held := int (length ws), wm_agents := [Acquire]\<rparr>)"
      using Cons.IH [of t] Cons.prems by (auto simp: t_def)
    moreover have "filter (\<lambda>x. x \<notin> set ks \<or> x \<notin> set (wm_done s)) (wm_watchers s)
        = filter (\<lambda>x. x \<notin> set (k # ks) \<or> x \<notin> set (wm_done s)) (wm_watchers s)"
      using False by (auto intro: filter_cong)
    ultimately have "run_ops wm_step (replicate (1 + n) (WAgent 0 kg)) s =
      (let ws = filter (\<lambda>x. x \<notin> set (k # ks) \<or> x \<notin> set (wm_done s)) (wm_watchers s) in
       s\<lparr>wm_watchers := ws, wm_held := int (length ws), wm_agents := [Acquire]\<rparr>)"
      using one by (simp add: run_ops_def replicate_add t_def Let_def)
    then show ?thesis ..
  qed
qed

text \<open>
  An \<open>Add\<close> that finds the manager at rest removes every watcher whose context has ended and gives their
  permits back; then it is refused exactly when the watchers that are left fill the bound, with the table
  of these, and otherwise the new watcher joins them under a key of its own. Either way the semaphore again
  counts the watchers.
\<close>

theorem Add_exact:
  assumes "wm_inv m s" "wm_agents s = []" "distinct ks" "set ks = set (wm_watchers s)"
  shows "\<exists>n. run_ops wm_step (WAdd ks # replicate n (WAgent 0 keepGoing)) s =
    (if length (wm_live s) < m
     then s\<lparr>wm_watchers := wm_live s @ [wm_next s], wm_next := Suc (wm_next s),
            wm_held := int (length (wm_live s @ [wm_next s])), wm_results := wm_results s @ [None]\<rparr>
     else s\<lparr>wm_watchers := wm_live s, wm_held := int (length (wm_live s)),
            wm_results := wm_results s @ [Some (err_new ''max number of watchers reached'')]\<rparr>)"
proof -
  let ?live = "filter (\<lambda>k. k \<notin> set ks \<or> k \<notin> set (wm_done s)) (wm_watchers s)"
  define t where "t = s\<lparr>wm_agents := clean_next (Some ks)\<rparr>"
  have start: "wm_step (WAdd ks) s = t" "\<not> wm_panicked s" "wm_max s = m"
    using assms by (simp_all add: wm_step_def wm_inv_def t_def)
  have live: "?live = wm_live s" using assms(4) by (auto simp: wm_live_def intro: filter_cong)
  obtain n where n: "run_ops wm_step (replicate n (WAgent 0 keepGoing)) t =
      s\<lparr>wm_watchers := wm_live s, wm_held := int (length (wm_live s)), wm_agents := [Acquire]\<rparr>"
    using clean_run [of t ks keepGoing] assms live by (auto simp: t_def wm_inv_def Let_def)
  have "run_ops wm_step (replicate 2 (WAgent 0 keepGoing))
      (s\<lparr>wm_watchers := wm_live s, wm_held := int (length (wm_live s)), wm_agents := [Acquire]\<rparr>) =
    (if length (wm_live s) < m
     then s\<lparr>wm_watchers := wm_live s @ [wm_next s], wm_next := Suc (wm_next s),
            wm_held := int (length (wm_live s @ [wm_next s])), wm_results := wm_results s @ [None]\<rparr>
     else s\<lparr>wm_watchers := wm_live s, wm_held := int (length (wm_live s)),
            wm_results := wm_results s @ [Some (err_new ''max number of watchers reached'')]\<rparr>)"
    using start assms(2) by (cases s) (auto simp: run_ops_def numeral_2_eq_2 wm_step_def sem_TryAcquire_def wm_return_def wm_insert_def)
  with n start show ?thesis
    by (intro exI [of _ "n + 2"]) (simp only: run_ops_def fold_simps o_apply wm_then [unfolded run_ops_def])
qed

definition wm_sample :: wm where
  \<comment> \<open>both permits are taken, and the context of the first watcher has ended\<close>
  "wm_sample = (wm_New 2)\<lparr>wm_held := 2, wm_watchers := [0, 1], wm_done := [0], wm_next := 2\<rparr>"

lemma Add_exact_witness:
  "\<exists>n. run_ops wm_step (WAdd [0, 1] # replicate n (WAgent 0 True)) wm_sample =
     wm_sample\<lparr>wm_watchers := [1, 2], wm_next := 3, wm_held := 2, wm_results := [None]\<rparr>"
  using Add_exact [of 2 wm_sample "[0, 1]" True]
  by (simp add: wm_inv_def wm_sample_def wm_New_def wm_live_def)

section \<open>Two removals at a time\<close>

text \<open>
  The code does not keep to one removal at a time: an \<open>Add\<close> may clean the table while the goroutines of an
  event look at the same watchers. Both take a watcher whose context has ended out of the table, which the
  second time changes nothing, and both give its permit back. With one watcher the second release panics,
  which ends the server; with more, a permit appears from nowhere, and the table grows beyond its bound.
\<close>

theorem overlapping_removals:
  "(\<exists>ops. wm_panicked (run_ops wm_step ops (wm_New (Suc m))))
   \<and> (\<exists>ops. \<not> wm_panicked (run_ops wm_step ops (wm_New 2)) \<and> length (wm_watchers (run_ops wm_step ops (wm_New 2))) = 3)"
proof
  let ?add = "[WAgent 0 True, WAgent 0 True]"
  have "wm_panicked (run_ops wm_step ([WStart, WAdd []] @ ?add @ [WCancel 0, WEvent, WAdd [0],
      WAgent 0 True, WAgent 1 True, WAgent 0 True, WAgent 1 True, WAgent 0 True, WAgent 0 True]) (wm_New (Suc m)))"
    by (simp add: run_ops_def wm_step_def wm_New_def sem_TryAcquire_def sem_Release_def wm_insert_def wm_return_def wm_del_def receiving_def)
  then show "\<exists>ops. wm_panicked (run_ops wm_step ops (wm_New (Suc m)))" ..
  define ops where "ops = [WStart, WAdd []] @ ?add @ [WAdd [0]] @ [WAgent 0 True] @ ?add @ [WCancel 0, WEvent, WAdd [0, 1],
      WAgent 0 True, WAgent 2 True, WAgent 0 True, WAgent 2 True, WAgent 0 True, WAgent 0 True,
      WAgent 0 True, WAgent 0 True] @ ?add @ [WAdd [1, 2], WAgent 0 True, WAgent 0 True] @ ?add"
  have "\<not> wm_panicked (run_ops wm_step ops (wm_New 2)) \<and> length (wm_watchers (run_ops wm_step ops (wm_New 2))) = 3"
    unfolding ops_def by code_simp
  then show "\<exists>ops. \<not> wm_panicked (run_ops wm_step ops (wm_New 2)) \<and> length (wm_watchers (run_ops wm_step ops (wm_New 2))) = 3" ..
qed

end
