(* ===== verification/ReadOnly.thy ===== *)
theory ReadOnly
  imports Admission
begin

text \<open>
  The resources that are read from the data server instead of a storage: the registries of ConfigBlame and
  RunningConfig (\<open>pkg/registry/configblame\<close>, \<open>pkg/registry/runningconfig\<close>), the subresources of a Target that show
  the same (\<open>apis/config/target_helpers.go\<close>), and their watch. The API server and the data server are the record
  \<open>ro_services\<close>; the watcher manager and the client of a watch are the operations of a step system. The creation
  time of the objects is left out.
\<close>

section \<open>Services\<close>

datatype 'q list_opt = InNamespace string | MatchingLabels 'q | Limit int | Continue string

record 'q list_options =
  lq_fields :: "field_req list option"
  lq_labels :: "'q option"
  lq_limit :: int
  lq_continue :: string

record ('q, 'd, 'w) ro_services =
  rv_GetTarget :: "string \<times> string \<Rightarrow> 'w \<Rightarrow> (goerr + target) \<times> 'w"
  rv_ListTargets :: "'q list_opt list \<Rightarrow> 'w \<Rightarrow> (goerr + target list) \<times> 'w"
  rv_NewClient :: "'w \<Rightarrow> goerr option \<times> 'w"
  rv_BlameConfig :: "string \<Rightarrow> 'w \<Rightarrow> (goerr + 'd option) \<times> 'w"
  rv_Marshal :: "'d \<Rightarrow> goerr + string"
  rv_GetIntent :: "string \<Rightarrow> string \<Rightarrow> string \<Rightarrow> 'w \<Rightarrow> (goerr + string option) \<times> 'w"
  rv_keyString :: "string \<times> string \<Rightarrow> string"
  rv_gr :: string

text \<open>
  \<open>rv_BlameConfig\<close>: the tree, unless the response or its tree is nil. \<open>rv_GetIntent\<close>: the datastore, the intent
  and the format; the blob of the response, which may be nil. \<open>rv_gr\<close>: the text of the group resource.
\<close>

record view_obj =
  vo_meta :: objmeta
  vo_value :: "string option"

section \<open>The registries\<close>

definition view_of :: "string \<times> string \<Rightarrow> target \<Rightarrow> string option \<Rightarrow> view_obj" where
  \<comment> \<open>\<open>BuildConfigBlame\<close> or \<open>BuildRunningConfig\<close>, and the fields taken from the target\<close>
  "view_of key target v = \<lparr>vo_meta = empty_meta\<lparr>m_name := snd key, m_namespace := fst key,
     m_resourceVersion := m_resourceVersion (t_meta target), m_annotations := m_annotations (t_meta target),
     m_labels := m_labels (t_meta target)\<rparr>, vo_value = v\<rparr>"

definition getConfigBlame :: "('q, 'd, 'w) ro_services \<Rightarrow> target \<Rightarrow> string \<times> string \<Rightarrow> 'w \<Rightarrow> (goerr + view_obj) \<times> 'w" where
  "getConfigBlame sv target key w =
     (if \<not> Target_IsReady target then (Inl (NewNotFound (rv_gr sv) (snd key)), w)
      else case rv_NewClient sv w of
          (Some err, w) \<Rightarrow> (Inl err, w)
        | (None, w) \<Rightarrow>
            (case rv_BlameConfig sv (rv_keyString sv key) w of
               (Inl err, w) \<Rightarrow> (Inl err, w)
             | (Inr None, w) \<Rightarrow> (Inr (view_of key target None), w)
             | (Inr (Some tree), w) \<Rightarrow>
                 (case rv_Marshal sv tree of
                    Inl err \<Rightarrow> (Inl err, w) | Inr json \<Rightarrow> (Inr (view_of key target (Some json)), w))))"

definition getRunningConfig :: "('q, 'd, 'w) ro_services \<Rightarrow> target \<Rightarrow> string \<times> string \<Rightarrow> 'w \<Rightarrow> (goerr + view_obj) \<times> 'w" where
  "getRunningConfig sv target key w =
     (if \<not> Target_IsReady target then (Inl (NewNotFound (rv_gr sv) (snd key)), w)
      else case rv_NewClient sv w of
          (Some err, w) \<Rightarrow> (Inl err, w)
        | (None, w) \<Rightarrow>
            (case rv_GetIntent sv (rv_keyString sv key) ''running'' ''JSON'' w of
               (Inl err, w) \<Rightarrow> (Inl err, w)
             | (Inr blob, w) \<Rightarrow> (Inr (view_of key target blob), w)))"

definition ro_Get ::
  "('q, 'd, 'w) ro_services \<Rightarrow> (target \<Rightarrow> string \<times> string \<Rightarrow> 'w \<Rightarrow> (goerr + view_obj) \<times> 'w) \<Rightarrow> string \<times> string
     \<Rightarrow> 'w \<Rightarrow> (goerr + view_obj) \<times> 'w" where
  \<comment> \<open>\<open>fetch\<close>: one of the two above; every error of the read is "not found"\<close>
  "ro_Get sv fetch key w =
     (case rv_GetTarget sv key w of
        (Inl _, w) \<Rightarrow> (Inl (NewNotFound (rv_gr sv) (snd key)), w) | (Inr target, w) \<Rightarrow> fetch target key w)"

definition ListOptsFromInternal :: "ns_filter option \<Rightarrow> 'q list_options \<Rightarrow> 'q list_opt list" where
  "ListOptsFromInternal flt opts =
     (case flt of Some f \<Rightarrow> (if nf_Namespace f \<noteq> [] then [InNamespace (nf_Namespace f)] else []) | None \<Rightarrow> [])
     @ (case lq_labels opts of Some q \<Rightarrow> [MatchingLabels q] | None \<Rightarrow> [])
     @ (if lq_limit opts > 0 then [Limit (lq_limit opts)] else [])
     @ (if lq_continue opts \<noteq> [] then [Continue (lq_continue opts)] else [])"

fun list_loop :: "(target \<Rightarrow> string \<times> string \<Rightarrow> 'w \<Rightarrow> (goerr + view_obj) \<times> 'w) \<Rightarrow> target list \<Rightarrow> view_obj list \<Rightarrow> 'w \<Rightarrow> view_obj list \<times> 'w" where
  "list_loop fetch [] acc w = (acc, w)"
| "list_loop fetch (t # ts) acc w =
     (case fetch t (m_namespace (t_meta t), m_name (t_meta t)) w of
        (Inl _, w) \<Rightarrow> list_loop fetch ts acc w | (Inr obj, w) \<Rightarrow> list_loop fetch ts (acc @ [obj]) w)"

definition ro_List ::
  "('q, 'd, 'w) ro_services \<Rightarrow> (target \<Rightarrow> string \<times> string \<Rightarrow> 'w \<Rightarrow> (goerr + view_obj) \<times> 'w) \<Rightarrow> string option
     \<Rightarrow> 'q list_options \<Rightarrow> 'w \<Rightarrow> (goerr + view_obj list) \<times> 'w" where
  \<comment> \<open>the third argument: the namespace of the request\<close>
  "ro_List sv fetch ns opts w =
     (case ParseFieldSelector ns (lq_fields opts) of
        Inl err \<Rightarrow> (Inl err, w)
      | Inr flt \<Rightarrow>
          (case rv_ListTargets sv (ListOptsFromInternal flt opts) w of
             (Inl err, w) \<Rightarrow> (Inl err, w)
           | (Inr ts, w) \<Rightarrow> (case list_loop fetch ts [] w of (objs, w) \<Rightarrow> (Inr objs, w))))"

section \<open>The subresources of a Target\<close>

definition NewServiceUnavailable :: "string \<Rightarrow> goerr" where
  "NewServiceUnavailable msg = \<lparr>e_msg = msg, e_code = None, e_api = Some ''ServiceUnavailable'', e_tx = None\<rparr>"

definition target_not_ready :: "target \<Rightarrow> goerr" where
  "target_not_ready t = NewServiceUnavailable (''target '' @ m_namespace (t_meta t) @ ''/'' @ m_name (t_meta t) @ '' is not ready: ''
     @ cMessage (GetCondition (t_conditions t) ConditionTypeReady))"

definition ParseTargetFormat :: "string \<Rightarrow> string" where
  "ParseTargetFormat s = (if s \<in> {''json'', ''json_ietf'', ''xml'', ''proto'', ''xpath''} then s else ''json'')"

definition FormatToProto :: "string \<Rightarrow> string" where
  "FormatToProto f = (if f = ''json_ietf'' then ''JSON_IETF'' else if f = ''xml'' then ''XML''
     else if f = ''proto'' then ''PROTO'' else if f = ''xpath'' then ''XPATH'' else ''JSON'')"

record running_options =
  ru_Path :: string
  ru_Format :: string

record running_view =
  rn_name :: string
  rn_namespace :: string
  rn_Value :: string
  rn_Format :: string

definition GetRunningConfig :: "('q, 'd, 'w) ro_services \<Rightarrow> target \<Rightarrow> running_options option \<Rightarrow> 'w \<Rightarrow> (goerr + running_view) \<times> 'w" where
  "GetRunningConfig sv r opts w =
     (if \<not> Target_IsReady r then (Inl (target_not_ready r), w)
      else let format = (case opts of Some p \<Rightarrow> ParseTargetFormat (ru_Format p) | None \<Rightarrow> []);
               key = (m_namespace (t_meta r), m_name (t_meta r)) in
        (case rv_NewClient sv w of
           (Some err, w) \<Rightarrow> (Inl err, w)
         | (None, w) \<Rightarrow>
             (case rv_GetIntent sv (rv_keyString sv key) ''running'' (FormatToProto format) w of
                (Inl err, w) \<Rightarrow> (Inl err, w)
              | (Inr blob, w) \<Rightarrow>
                  (Inr \<lparr>rn_name = m_name (t_meta r), rn_namespace = m_namespace (t_meta r),
                     rn_Value = (case blob of None \<Rightarrow> [] | Some b \<Rightarrow> b), rn_Format = format\<rparr>, w))))"

definition GetConfigBlame :: "('q, 'd, 'w) ro_services \<Rightarrow> target \<Rightarrow> 'w \<Rightarrow> (goerr + view_obj) \<times> 'w" where
  "GetConfigBlame sv r w =
     (if \<not> Target_IsReady r then (Inl (target_not_ready r), w)
      else let key = (m_namespace (t_meta r), m_name (t_meta r));
               view = (\<lambda>v. \<lparr>vo_meta = empty_meta\<lparr>m_name := m_name (t_meta r), m_namespace := m_namespace (t_meta r)\<rparr>, vo_value = v\<rparr>) in
        (case rv_NewClient sv w of
           (Some err, w) \<Rightarrow> (Inl err, w)
         | (None, w) \<Rightarrow>
             (case rv_BlameConfig sv (rv_keyString sv key) w of
                (Inl err, w) \<Rightarrow> (Inl err, w)
              | (Inr None, w) \<Rightarrow> (Inr (view None), w)
              | (Inr (Some tree), w) \<Rightarrow>
                  (case rv_Marshal sv tree of Inl err \<Rightarrow> (Inl err, w) | Inr json \<Rightarrow> (Inr (view (Some json)), w)))))"

section \<open>What a list shows\<close>

locale read_only_view =
  fixes fetch :: "target \<Rightarrow> string \<times> string \<Rightarrow> 'w \<Rightarrow> (goerr + view_obj) \<times> 'w" and quiet :: bool
  assumes reads: "quiet \<Longrightarrow> snd (fetch t key w) = w"
begin

lemma list_loop_fetched:
  "quiet \<Longrightarrow> list_loop fetch ts acc w
     = (acc @ concat (map (\<lambda>t. case fst (fetch t (m_namespace (t_meta t), m_name (t_meta t)) w) of Inl _ \<Rightarrow> [] | Inr obj \<Rightarrow> [obj]) ts), w)"
proof (induction ts arbitrary: acc)
  case (Cons t ts)
  obtain r where "fetch t (m_namespace (t_meta t), m_name (t_meta t)) w = (r, w)" using reads [OF Cons.prems] by (metis prod.collapse)
  then show ?case using Cons by (cases r) simp_all
qed simp

end

definition ro_quiet :: "('q, 'd, 'w) ro_services \<Rightarrow> bool" where
  \<comment> \<open>reading changes nothing\<close>
  "ro_quiet sv \<longleftrightarrow> (\<forall>k w. snd (rv_GetTarget sv k w) = w) \<and> (\<forall>os w. snd (rv_ListTargets sv os w) = w)
     \<and> (\<forall>w. snd (rv_NewClient sv w) = w) \<and> (\<forall>k w. snd (rv_BlameConfig sv k w) = w)
     \<and> (\<forall>k i f w. snd (rv_GetIntent sv k i f w) = w)"

lemma ro_quietD:
  assumes "ro_quiet sv"
  shows "snd (rv_GetTarget sv k w) = w" "snd (rv_ListTargets sv os w) = w" "snd (rv_NewClient sv w) = w"
    "snd (rv_BlameConfig sv d w) = w" "snd (rv_GetIntent sv d i f w) = w"
  using assms by (simp_all add: ro_quiet_def)

lemma getConfigBlame_reads: "ro_quiet sv \<Longrightarrow> snd (getConfigBlame sv t key w) = w"
  using ro_quietD(3,4) [of sv]
  by (auto simp: getConfigBlame_def split: prod.splits option.splits sum.splits) (metis snd_conv)+

lemma getRunningConfig_reads: "ro_quiet sv \<Longrightarrow> snd (getRunningConfig sv t key w) = w"
  using ro_quietD(3,5) [of sv]
  by (auto simp: getRunningConfig_def split: prod.splits option.splits sum.splits) (metis snd_conv)+

interpretation blame_view: read_only_view "getConfigBlame sv" "ro_quiet sv" for sv
  by unfold_locales (rule getConfigBlame_reads)

interpretation running_view: read_only_view "getRunningConfig sv" "ro_quiet sv" for sv
  by unfold_locales (rule getRunningConfig_reads)

text \<open>
  A list of ConfigBlames or RunningConfigs shows exactly what reading each of them would: for the Targets
  the API server lists under the namespace, labels and limits of the request, in their order, the object a
  Get returns, and nothing for a Target that is not ready or whose data server does not answer. The list
  itself never fails because of one Target.
\<close>

theorem list_shows_what_get_shows:
  assumes quiet: "ro_quiet sv" and which: "fetch = getConfigBlame sv \<or> fetch = getRunningConfig sv"
    and sel: "ParseFieldSelector ns (lq_fields opts) = Inr flt"
    and ts: "rv_ListTargets sv (ListOptsFromInternal flt opts) w = (Inr ts, w)"
    and same: "\<And>t. t \<in> set ts \<Longrightarrow> rv_GetTarget sv (m_namespace (t_meta t), m_name (t_meta t)) w = (Inr t, w)"
  shows "ro_List sv fetch ns opts w
    = (Inr (concat (map (\<lambda>t. case fst (ro_Get sv fetch (m_namespace (t_meta t), m_name (t_meta t)) w) of
         Inl _ \<Rightarrow> [] | Inr obj \<Rightarrow> [obj]) ts)), w)"
proof -
  have "list_loop fetch ts [] w
     = (concat (map (\<lambda>t. case fst (fetch t (m_namespace (t_meta t), m_name (t_meta t)) w) of Inl _ \<Rightarrow> [] | Inr obj \<Rightarrow> [obj]) ts), w)"
    using which blame_view.list_loop_fetched [OF quiet, of ts "[]" w] running_view.list_loop_fetched [OF quiet, of ts "[]" w] by auto
  moreover have "map (\<lambda>t. case fst (fetch t (m_namespace (t_meta t), m_name (t_meta t)) w) of Inl _ \<Rightarrow> [] | Inr obj \<Rightarrow> [obj]) ts
     = map (\<lambda>t. case fst (ro_Get sv fetch (m_namespace (t_meta t), m_name (t_meta t)) w) of Inl _ \<Rightarrow> [] | Inr obj \<Rightarrow> [obj]) ts"
    by (rule map_cong) (simp_all add: ro_Get_def same)
  ultimately show ?thesis by (simp add: ro_List_def sel ts)
qed

lemma name_selector_ignored:
  \<comment> \<open>\<open>metadata.name\<close> is accepted in a field selector and then not used\<close>
  "ListOptsFromInternal (Some (f\<lparr>nf_Name := n\<rparr>)) opts = ListOptsFromInternal (Some f) opts"
  by (simp add: ListOptsFromInternal_def)

lemma running_config_ignores_path:
  "GetRunningConfig sv r (Some (p\<lparr>ru_Path := a\<rparr>)) w = GetRunningConfig sv r (Some p) w"
  by (simp add: GetRunningConfig_def)

lemma running_config_format:
  \<comment> \<open>the format that is reported is one of the five, and the one that was asked for\<close>
  assumes "fst (GetRunningConfig sv r (Some p) w) = Inr v"
  shows "rn_Format v = ParseTargetFormat (ru_Format p) \<and> ParseTargetFormat (rn_Format v) = rn_Format v"
  using assms
  by (auto simp: GetRunningConfig_def Let_def ParseTargetFormat_def split: prod.splits option.splits sum.splits if_splits)

section \<open>The watch\<close>

text \<open>
  One watch: its goroutine (\<open>listAndWatch\<close>), one call of \<open>OnChange\<close> at a time, and the client that reads the
  unbuffered result channel. The mutex is held by the goroutine in \<open>WFinal\<close>, and by a call that is sending.
\<close>

datatype 'e w_phase =
    WBegin | WListing | WItems "'e list" | WFlush | WChunk "'e list" | WLock | WFinal "'e list" | WWait | WSetDone | WError | WClosed

datatype 'e w_call = NoCall | Entering 'e | Sending 'e

datatype 'e w_sent = Ev 'e | ErrorEv

record 'e ro_watch =
  rw_watchOnly :: bool
  rw_phase :: "'e w_phase"
  rw_backlog :: "'e list"
  rw_streaming :: bool
  rw_done :: bool
  rw_added :: bool
  rw_cancelled :: bool
  rw_call :: "'e w_call"
  rw_out :: "'e w_sent list"
  rw_listed :: "'e list"
  rw_taken :: "'e list"

text \<open>
  \<open>rw_streaming\<close>: which of its two callbacks \<open>OnChange\<close> runs. \<open>rw_out\<close>: what the client has read. \<open>rw_listed\<close>
  and \<open>rw_taken\<close> only record the events of the list and those the callbacks have accepted.
\<close>

definition ro_Watch :: "bool \<Rightarrow> 'e ro_watch" where
  "ro_Watch watchOnly = \<lparr>rw_watchOnly = watchOnly, rw_phase = WBegin, rw_backlog = [], rw_streaming = False, rw_done = False,
     rw_added = False, rw_cancelled = False, rw_call = NoCall, rw_out = [], rw_listed = [], rw_taken = []\<rparr>"

definition call_sending :: "'e ro_watch \<Rightarrow> bool" where
  "call_sending s \<longleftrightarrow> (case rw_call s of Sending _ \<Rightarrow> True | _ \<Rightarrow> False)"

definition main_locked :: "'e ro_watch \<Rightarrow> bool" where
  "main_locked s \<longleftrightarrow> (case rw_phase s of WFinal _ \<Rightarrow> True | _ \<Rightarrow> False)"

definition ro_add :: "bool \<Rightarrow> 'e ro_watch \<Rightarrow> 'e ro_watch" where
  \<comment> \<open>the watcher manager's answer to \<open>Add\<close>\<close>
  "ro_add ok s =
     (case rw_phase s of
        WBegin \<Rightarrow> (if ok then s\<lparr>rw_added := True, rw_phase := (if rw_watchOnly s then WFlush else WListing)\<rparr> else s\<lparr>rw_phase := WError\<rparr>)
      | _ \<Rightarrow> s)"

definition ro_listed :: "'e list option \<Rightarrow> 'e ro_watch \<Rightarrow> 'e ro_watch" where
  \<comment> \<open>the answer to \<open>List\<close>\<close>
  "ro_listed r s =
     (case rw_phase s of
        WListing \<Rightarrow> (case r of None \<Rightarrow> s\<lparr>rw_phase := WSetDone\<rparr> | Some items \<Rightarrow> s\<lparr>rw_phase := WItems items, rw_listed := items\<rparr>)
      | _ \<Rightarrow> s)"

definition ro_main :: "'e ro_watch \<Rightarrow> 'e ro_watch" where
  \<comment> \<open>a step of the goroutine that is not a send\<close>
  "ro_main s =
     (case rw_phase s of
        WItems [] \<Rightarrow> s\<lparr>rw_phase := WFlush\<rparr>
      | WChunk [] \<Rightarrow> s\<lparr>rw_phase := WFlush\<rparr>
      | WFlush \<Rightarrow>
          (if call_sending s then s
           else if rw_backlog s = [] then s\<lparr>rw_phase := WLock\<rparr>
           else s\<lparr>rw_phase := WChunk (rw_backlog s), rw_backlog := []\<rparr>)
      | WLock \<Rightarrow> (if call_sending s then s else s\<lparr>rw_phase := WFinal (rw_backlog s)\<rparr>)
      | WFinal [] \<Rightarrow> s\<lparr>rw_phase := WWait, rw_streaming := True\<rparr>
      | WWait \<Rightarrow> (if rw_cancelled s then s\<lparr>rw_phase := WSetDone\<rparr> else s)
      | WSetDone \<Rightarrow> (if call_sending s then s else s\<lparr>rw_done := True, rw_phase := WError\<rparr>)
      | _ \<Rightarrow> s)"

definition ro_OnChange :: "'e ro_watch \<Rightarrow> 'e ro_watch" where
  \<comment> \<open>the call gets the mutex and runs the callback; without \<open>keepGoing\<close> the manager drops the watch\<close>
  "ro_OnChange s =
     (case rw_call s of
        Entering e \<Rightarrow>
          (if main_locked s then s
           else if rw_done s then s\<lparr>rw_call := NoCall, rw_added := False\<rparr>
           else if rw_streaming s then s\<lparr>rw_call := Sending e, rw_taken := rw_taken s @ [e]\<rparr>
           else s\<lparr>rw_call := NoCall, rw_backlog := rw_backlog s @ [e], rw_taken := rw_taken s @ [e]\<rparr>)
      | _ \<Rightarrow> s)"

definition ro_receive :: "'e ro_watch \<Rightarrow> 'e ro_watch" where
  \<comment> \<open>the client reads from whoever is sending\<close>
  "ro_receive s =
     (case rw_phase s of
        WItems (e # es) \<Rightarrow> s\<lparr>rw_phase := WItems es, rw_out := rw_out s @ [Ev e]\<rparr>
      | WChunk (e # es) \<Rightarrow> s\<lparr>rw_phase := WChunk es, rw_out := rw_out s @ [Ev e]\<rparr>
      | WFinal (e # es) \<Rightarrow> s\<lparr>rw_phase := WFinal es, rw_out := rw_out s @ [Ev e]\<rparr>
      | WError \<Rightarrow> s\<lparr>rw_phase := WClosed, rw_out := rw_out s @ [ErrorEv], rw_cancelled := True\<rparr>
      | _ \<Rightarrow> (case rw_call s of Sending e \<Rightarrow> s\<lparr>rw_call := NoCall, rw_out := rw_out s @ [Ev e]\<rparr> | _ \<Rightarrow> s))"

datatype 'e ro_op = RAdd bool | RList "'e list option" | RMain | RPublish 'e | RCall | RReceive | RCancel

fun row_step :: "'e ro_op \<Rightarrow> 'e ro_watch \<Rightarrow> 'e ro_watch" where
  "row_step (RAdd ok) s = ro_add ok s"
| "row_step (RList r) s = ro_listed r s"
| "row_step RMain s = ro_main s"
| "row_step (RPublish e) s = (if rw_added s \<and> rw_call s = NoCall then s\<lparr>rw_call := Entering e\<rparr> else s)"
| "row_step RCall s = ro_OnChange s"
| "row_step RReceive s = ro_receive s"
| "row_step RCancel s = s\<lparr>rw_cancelled := True\<rparr>"

section \<open>What the client reads\<close>

fun to_send :: "'e w_phase \<Rightarrow> 'e list" where
  "to_send (WItems es) = es"
| "to_send (WChunk es) = es"
| "to_send (WFinal es) = es"
| "to_send _ = []"

fun call_sends :: "'e w_call \<Rightarrow> 'e list" where
  "call_sends (Sending e) = [e]"
| "call_sends _ = []"

definition on_its_way :: "'e ro_watch \<Rightarrow> 'e list" where
  \<comment> \<open>accepted, and not yet read; the last pass over the backlog leaves it behind\<close>
  "on_its_way s = to_send (rw_phase s) @ (if rw_streaming s \<or> main_locked s then [] else rw_backlog s) @ call_sends (rw_call s)"

fun read_events :: "'e w_sent list \<Rightarrow> 'e list" where
  "read_events [] = []"
| "read_events (Ev e # es) = e # read_events es"
| "read_events (ErrorEv # es) = read_events es"

lemma read_events_simps [simp]:
  "read_events (xs @ ys) = read_events xs @ read_events ys" "read_events (map Ev es) = es"
  by (induction xs rule: read_events.induct) (simp_all, induction es, simp_all)

definition ends :: "'e ro_watch \<Rightarrow> bool" where
  "ends s \<longleftrightarrow> rw_phase s = WError \<or> rw_phase s = WClosed"

definition rw_inv :: "'e ro_watch \<Rightarrow> bool" where
  "rw_inv s \<longleftrightarrow>
     rw_out s = map Ev (read_events (rw_out s)) @ (if rw_phase s = WClosed then [ErrorEv] else [])
     \<and> read_events (rw_out s) @ on_its_way s = rw_listed s @ rw_taken s
     \<and> (rw_streaming s \<longrightarrow> rw_phase s \<in> {WWait, WSetDone, WError, WClosed})
     \<and> (call_sending s \<longrightarrow> rw_streaming s \<and> \<not> ends s)
     \<and> (ends s \<longrightarrow> rw_done s \<or> \<not> rw_added s \<and> rw_call s = NoCall)
     \<and> (rw_phase s = WBegin \<longrightarrow> \<not> rw_added s \<and> rw_call s = NoCall)
     \<and> (rw_phase s \<in> {WBegin, WListing} \<longrightarrow> rw_listed s = [] \<and> rw_out s = [])"

lemmas rw_state = on_its_way_def ends_def call_sending_def main_locked_def

lemma rw_inv_add: "rw_inv s \<Longrightarrow> rw_inv (ro_add ok s)"
  by (cases "rw_phase s") (auto simp: ro_add_def rw_inv_def rw_state)

lemma rw_inv_listed: "rw_inv s \<Longrightarrow> rw_inv (ro_listed r s)"
  by (cases "rw_phase s"; cases r) (auto simp: ro_listed_def rw_inv_def rw_state split: w_call.splits)

lemma rw_inv_main: "rw_inv s \<Longrightarrow> rw_inv (ro_main s)"
proof (cases "rw_phase s")
  case (WItems es)
  then show "rw_inv s \<Longrightarrow> ?thesis" by (cases es) (auto simp: ro_main_def rw_inv_def rw_state split: w_call.splits)
next
  case (WChunk es)
  then show "rw_inv s \<Longrightarrow> ?thesis" by (cases es) (auto simp: ro_main_def rw_inv_def rw_state split: w_call.splits)
next
  case (WFinal es)
  then show "rw_inv s \<Longrightarrow> ?thesis" by (cases es) (auto simp: ro_main_def rw_inv_def rw_state split: w_call.splits)
qed (auto simp: ro_main_def rw_inv_def rw_state split: w_call.splits)

lemma rw_inv_OnChange: "rw_inv s \<Longrightarrow> rw_inv (ro_OnChange s)"
  by (cases "rw_call s"; cases "rw_phase s") (auto simp: ro_OnChange_def rw_inv_def rw_state simp flip: append_assoc)

lemma rw_inv_receive: "rw_inv s \<Longrightarrow> rw_inv (ro_receive s)"
proof (cases "rw_phase s")
  case (WItems es)
  then show "rw_inv s \<Longrightarrow> ?thesis" by (cases es; cases "rw_call s") (auto simp: ro_receive_def rw_inv_def rw_state)
next
  case (WChunk es)
  then show "rw_inv s \<Longrightarrow> ?thesis" by (cases es; cases "rw_call s") (auto simp: ro_receive_def rw_inv_def rw_state)
next
  case (WFinal es)
  then show "rw_inv s \<Longrightarrow> ?thesis" by (cases es; cases "rw_call s") (auto simp: ro_receive_def rw_inv_def rw_state)
qed (cases "rw_call s"; auto simp: ro_receive_def rw_inv_def rw_state)+

lemma rw_inv_step: "rw_inv s \<Longrightarrow> rw_inv (row_step op s)"
proof (cases op)
  case (RPublish e)
  then show "rw_inv s \<Longrightarrow> ?thesis" by (cases "rw_phase s") (auto simp: rw_inv_def rw_state)
next
  case RCancel
  then show "rw_inv s \<Longrightarrow> ?thesis" by (cases "rw_phase s") (auto simp: rw_inv_def rw_state)
qed (simp_all add: rw_inv_add rw_inv_listed rw_inv_main rw_inv_OnChange rw_inv_receive)

interpretation ro_machine: invariant_machine row_step "ro_Watch watchOnly" rw_inv for watchOnly
  by unfold_locales (simp add: rw_inv_def ro_Watch_def rw_state, rule rw_inv_step)

text \<open>
  C17: In every schedule of the goroutine of a watch, the calls of the watcher manager and the reads of its
  client, the client has read, in order and without gaps or repeats, a part from the start of: the listed
  objects, then the events the callbacks have accepted. An Error event can only be the last, and the result
  channel is closed exactly when the client has read it.
\<close>

theorem read_only_watch_exact:
  "let s = run_ops row_step ops (ro_Watch watchOnly) in
     \<exists>es rest. rw_out s = map Ev es @ (if rw_phase s = WClosed then [ErrorEv] else []) \<and> es @ rest = rw_listed s @ rw_taken s"
  using ro_machine.inv_run [of ops watchOnly] unfolding rw_inv_def Let_def by blast

section \<open>A stopped watch\<close>

lemma unread_error:
  "rw_phase s = WError \<Longrightarrow> rw_phase (run_ops row_step (filter (\<lambda>op. op \<noteq> RReceive) ops) s) = WError"
proof (induction ops arbitrary: s)
  case (Cons op ops)
  have "op \<noteq> RReceive \<Longrightarrow> rw_phase (row_step op s) = WError" using Cons.prems
    by (cases op) (auto simp: ro_add_def ro_listed_def ro_main_def ro_OnChange_def split: w_call.splits)
  then show ?case using Cons by (simp add: run_ops_def)
qed (simp add: run_ops_def)

lemma unread_call:
  "rw_phase s = WSetDone \<Longrightarrow> rw_call s = Sending e
    \<Longrightarrow> rw_phase (run_ops row_step (filter (\<lambda>op. op \<noteq> RReceive) ops) s) = WSetDone
      \<and> rw_call (run_ops row_step (filter (\<lambda>op. op \<noteq> RReceive) ops) s) = Sending e"
proof (induction ops arbitrary: s)
  case (Cons op ops)
  have "op \<noteq> RReceive \<Longrightarrow> rw_phase (row_step op s) = WSetDone \<and> rw_call (row_step op s) = Sending e" using Cons.prems
    by (cases op) (auto simp: ro_add_def ro_listed_def ro_main_def ro_OnChange_def call_sending_def)
  then show ?case using Cons by (simp add: run_ops_def)
qed (simp add: run_ops_def)

text \<open>
  C27: A watch that is stopped never ends. The goroutine answers the end of its context by sending an Error event
  on the unbuffered channel, without looking at the context again; the client that stopped the watch no longer
  reads. Whatever happens then except a read, the goroutine stays at that send and the channel is never closed. When the
  watch is stopped while an event is being sent, the call of \<open>OnChange\<close> keeps the mutex and never returns
  either, and with it the goroutines of the watcher manager that wait for it.
\<close>

theorem stopped_watch_never_ends:
  assumes "rw_phase s = WWait"
  shows "let s' = run_ops row_step ([RCancel, RMain, RMain] @ filter (\<lambda>op. op \<noteq> RReceive) ops) s in
    if call_sending s then rw_phase s' = WSetDone \<and> rw_call s' = rw_call s else rw_phase s' = WError"
proof -
  define t where "t = run_ops row_step [RCancel, RMain, RMain] s"
  have later: "run_ops row_step ([RCancel, RMain, RMain] @ filter (\<lambda>op. op \<noteq> RReceive) ops) s
      = run_ops row_step (filter (\<lambda>op. op \<noteq> RReceive) ops) t" by (simp add: run_ops_def t_def)
  show ?thesis
  proof (cases "call_sending s")
    case True
    then obtain e where e: "rw_call s = Sending e" by (auto simp: call_sending_def split: w_call.splits)
    then have "rw_phase t = WSetDone" "rw_call t = Sending e"
      using assms by (simp_all add: t_def run_ops_def ro_main_def call_sending_def)
    from unread_call [OF this, of ops] show ?thesis unfolding Let_def later using True e by simp
  next
    case False
    then have "rw_phase t = WError" using assms by (auto simp: t_def run_ops_def ro_main_def call_sending_def split: w_call.splits)
    from unread_error [OF this, of ops] show ?thesis unfolding Let_def later using False by simp
  qed
qed

section \<open>Samples\<close>

definition streaming_watch :: "nat ro_watch" where
  \<comment> \<open>a watch that has sent two events of its backlog\<close>
  "streaming_watch = run_ops row_step ([RAdd True, RPublish 1, RCall, RMain, RReceive, RMain, RMain, RPublish 2, RCall, RMain, RReceive, RMain]) (ro_Watch True)"

lemma stopped_watch_never_ends_witness:
  "rw_out streaming_watch = [Ev 1, Ev 2]
    \<and> rw_phase (run_ops row_step ([RCancel, RMain, RMain] @ filter (\<lambda>op. op \<noteq> RReceive) [RPublish 7, RCall, RMain]) streaming_watch) = WError"
proof
  show "rw_out streaming_watch = [Ev 1, Ev 2]" by code_simp
  have "rw_phase streaming_watch = WWait" "\<not> call_sending streaming_watch" by code_simp+
  with stopped_watch_never_ends [of streaming_watch "[RPublish 7, RCall, RMain]"]
  show "rw_phase (run_ops row_step ([RCancel, RMain, RMain] @ filter (\<lambda>op. op \<noteq> RReceive) [RPublish 7, RCall, RMain]) streaming_watch) = WError"
    by (simp only: Let_def if_False)
qed

definition shown_target :: "string \<Rightarrow> bool \<Rightarrow> target" where
  "shown_target n ready = \<lparr>t_meta = empty_meta\<lparr>m_name := n, m_namespace := ''ns''\<rparr>,
     t_spec = \<lparr>ts_provider = [], ts_address = [], ts_credentials = [], ts_connectionProfile = [], ts_syncProfile = None, ts_tlsSecret = None\<rparr>,
     t_conditions = (if ready then [Ready 1] else []), t_discoveryInfo = None, t_usedReferences = None\<rparr>"

definition shown_sv :: "(unit, string, unit) ro_services" where
  \<comment> \<open>two Targets, of which the second is not ready\<close>
  "shown_sv = \<lparr>rv_GetTarget = (\<lambda>k w. (Inr (shown_target (snd k) (snd k = ''t1'')), w)),
     rv_ListTargets = (\<lambda>os w. (Inr [shown_target ''t1'' True, shown_target ''t2'' False], w)),
     rv_NewClient = (\<lambda>w. (None, w)), rv_BlameConfig = (\<lambda>k w. (Inr (Some k), w)), rv_Marshal = Inr,
     rv_GetIntent = (\<lambda>k i f w. (Inr None, w)), rv_keyString = (\<lambda>k. fst k @ ''.'' @ snd k), rv_gr = ''configblames''\<rparr>"

lemma list_shows_what_get_shows_witness:
  "ro_List shown_sv (getConfigBlame shown_sv) (Some ''ns'') \<lparr>lq_fields = None, lq_labels = None, lq_limit = 0, lq_continue = []\<rparr> ()
    = (Inr [view_of (''ns'', ''t1'') (shown_target ''t1'' True) (Some ''ns.t1'')], ())"
proof -
  have key: "m_namespace (t_meta (shown_target n b)) = ''ns''" "m_name (t_meta (shown_target n b)) = n" for n b
    by (simp_all add: shown_target_def)
  have "ro_List shown_sv (getConfigBlame shown_sv) (Some ''ns'') \<lparr>lq_fields = None, lq_labels = None, lq_limit = 0, lq_continue = []\<rparr> ()
    = (Inr (concat (map (\<lambda>t. case fst (ro_Get shown_sv (getConfigBlame shown_sv) (m_namespace (t_meta t), m_name (t_meta t)) ()) of
         Inl _ \<Rightarrow> [] | Inr obj \<Rightarrow> [obj]) [shown_target ''t1'' True, shown_target ''t2'' False])), ())"
    by (rule list_shows_what_get_shows [where flt = "Some \<lparr>nf_Name = [], nf_Namespace = ''ns''\<rparr>"])
      (auto simp: ro_quiet_def shown_sv_def ParseFieldSelector_def key)
  also have "\<dots> = (Inr [view_of (''ns'', ''t1'') (shown_target ''t1'' True) (Some ''ns.t1'')], ())"
    by code_simp
  finally show ?thesis .
qed

end
