(* ===== verification/Metrics.thy ===== *)
theory Metrics
  imports TargetManager Gnmi "HOL-Library.Multiset"
begin

text \<open>
  The Prometheus exporter (\<open>pkg/output/prometheusserver\<close>): how an update of a subscription becomes a metric, the
  key of a metric, and one scrape over the caches of all runtimes. The decoder of JSON values and the arithmetic
  of floats are the record \<open>floats\<close>; the HTTP server and the time stamps are left out.
\<close>

unbundle bit_operations_syntax

section \<open>Values\<close>

text \<open>What a Go \<open>interface{}\<close> of \<open>getValue\<close> can hold; \<open>GOther\<close>: a map, a slice or a pointer.\<close>

datatype 'f goval = GNil | GString string | GBool bool | GBytes string | GInt int | GUint nat | GFloat 'f | GOther

record 'f floats =
  fl_ofInt :: "int \<Rightarrow> 'f"
  fl_ParseFloat :: "string \<Rightarrow> goerr + 'f"
  fl_Unmarshal :: "string \<Rightarrow> goerr + 'f goval"

definition getValue :: "'f floats \<Rightarrow> typed_value option \<Rightarrow> goerr + 'f goval" where
  \<comment> \<open>decimal, float and double values have no case\<close>
  "getValue fl v =
     (case v of
        None \<Rightarrow> Inr GNil
      | Some v \<Rightarrow>
          (case v of
             AsciiVal s \<Rightarrow> Inr (GString s)
           | BoolVal b \<Rightarrow> Inr (GBool b)
           | BytesVal s \<Rightarrow> Inr (GBytes s)
           | IntVal i \<Rightarrow> Inr (GInt i)
           | StringVal s \<Rightarrow> Inr (GString s)
           | UintVal n \<Rightarrow> Inr (GUint n)
           | JsonIetfVal s \<Rightarrow> (if length s \<noteq> 0 then fl_Unmarshal fl s else Inr GNil)
           | JsonVal s \<Rightarrow> (if length s \<noteq> 0 then fl_Unmarshal fl s else Inr GNil)
           | LeaflistVal _ \<Rightarrow> Inr GOther
           | ProtoBytes s \<Rightarrow> Inr (GBytes s)
           | AnyVal _ \<Rightarrow> Inr GOther
           | _ \<Rightarrow> Inr GNil))"

definition toFloat :: "'f floats \<Rightarrow> 'f goval \<Rightarrow> (goerr + 'f) panics" where
  \<comment> \<open>the type of nil is a nil interface, and asking it for its name panics\<close>
  "toFloat fl v =
     (case v of
        GFloat x \<Rightarrow> Returns (Inr x)
      | GInt i \<Rightarrow> Returns (Inr (fl_ofInt fl i))
      | GUint n \<Rightarrow> Returns (Inr (fl_ofInt fl (int n)))
      | GBool b \<Rightarrow> Returns (Inr (fl_ofInt fl (if b then 1 else 0)))
      | GString s \<Rightarrow> Returns (fl_ParseFloat fl s)
      | GNil \<Rightarrow> Panics
      | _ \<Rightarrow> Returns (Inl (err_new ''toFloat: unknown value is of incompatible type '')))"

section \<open>Names and labels\<close>

definition word_char :: "char \<Rightarrow> bool" where
  "word_char c \<longleftrightarrow> (let n = of_char c :: nat in 97 \<le> n \<and> n \<le> 122 \<or> 65 \<le> n \<and> n \<le> 90 \<or> 48 \<le> n \<and> n \<le> 57 \<or> n = 95)"

fun prom_name :: "string \<Rightarrow> string" where
  \<comment> \<open>\<open>MetricNameRegex.ReplaceAllString(s, "_")\<close> for \<open>[^a-zA-Z0-9_]+\<close>: every longest run of other characters\<close>
  "prom_name [] = []"
| "prom_name [c] = (if word_char c then [c] else ''_'')"
| "prom_name (c # d # s) =
     (if word_char c then c # prom_name (d # s) else if word_char d then CHR ''_'' # prom_name (d # s) else prom_name (d # s))"

type_synonym label = "string \<times> string"

fun path_data :: "(string \<times> string gomap) list \<Rightarrow> string \<Rightarrow> label list \<Rightarrow> string \<times> label list" where
  \<comment> \<open>the loop over the elements, their keys in the order in which the map yields them\<close>
  "path_data [] sb labels = (sb, labels)"
| "path_data ((n, ks) # es) sb labels =
     path_data es (sb @ prom_name n @ (if es \<noteq> [] then ''_'' else []))
       (labels @ map (\<lambda>(k, v). (join_sep ''_'' [prom_name n, prom_name k], v)) ks)"

definition getPromPathData :: "string \<Rightarrow> gnmi_path option \<Rightarrow> label list \<Rightarrow> string \<times> label list" where
  "getPromPathData prefix p labels =
     path_data (case p of None \<Rightarrow> [] | Some p \<Rightarrow> gp_Elem p) (if prefix \<noteq> [] then prefix @ ''_'' else []) labels"

record 'f prom_metric =
  px_Name :: string
  px_labels :: "label list"
  px_value :: 'f

record prom_update =
  pu_Path :: "gnmi_path option"
  pu_Val :: "typed_value option"

definition NewPromMetric :: "'f floats \<Rightarrow> label list \<Rightarrow> prom_update \<Rightarrow> (goerr + 'f prom_metric) panics" where
  \<comment> \<open>the second argument: the labels of the runtime\<close>
  "NewPromMetric fl rtLabels update =
     (case getValue fl (pu_Val update) of
        Inl err \<Rightarrow> Returns (Inl (err_new (''prometheus metric cannot get typed value, err: '' @ e_msg err)))
      | Inr val \<Rightarrow>
          (case toFloat fl val of
             Panics \<Rightarrow> Panics
           | Returns (Inl err) \<Rightarrow> Returns (Inl (err_new (''prometheus metric cannot get float value, err: '' @ e_msg err)))
           | Returns (Inr x) \<Rightarrow>
               (case getPromPathData [] (pu_Path update) rtLabels of (name, labels) \<Rightarrow>
                  Returns (Inr \<lparr>px_Name = name, px_labels = labels, px_value = x\<rparr>))))"

section \<open>Keys\<close>

definition fnv64a :: "string \<Rightarrow> 64 word" where
  \<comment> \<open>\<open>hash/fnv\<close>\<close>
  "fnv64a s = foldl (\<lambda>h c. (h XOR of_char c) * 1099511628211) 14695981039346656037 s"

definition key_text :: "'f prom_metric \<Rightarrow> string" where
  \<comment> \<open>what is written to the hash; \<open>sort.Slice\<close> leaves the order of labels of the same name open\<close>
  "key_text p = px_Name p @ (if length (px_labels p) > 0
     then '':'' @ concat (map (\<lambda>l. fst l @ '':'' @ snd l @ '':'') (sort_key fst (px_labels p))) else [])"

definition CalculateKey :: "'f prom_metric \<Rightarrow> 64 word" where
  "CalculateKey p = fnv64a (key_text p)"

section \<open>One scrape\<close>

text \<open>
  What \<open>ReadAll\<close> gives of the cache of one runtime: nothing without a cache, an error, or per subscription the
  updates of its notifications. The goroutines send their metrics in any order; a panic in one of them ends
  the program.
\<close>

type_synonym cache_content = "goerr + (string \<times> prom_update list list) list"

definition updates_of :: "cache_content option \<Rightarrow> prom_update list" where
  "updates_of c = (case c of Some (Inr subs) \<Rightarrow> concat (concat (map snd subs)) | _ \<Rightarrow> [])"

fun metrics_of :: "(goerr + 'f prom_metric) panics list \<Rightarrow> 'f prom_metric list panics" where
  "metrics_of [] = Returns []"
| "metrics_of (Panics # rs) = Panics"
| "metrics_of (Returns r # rs) =
     (case metrics_of rs of Panics \<Rightarrow> Panics | Returns ms \<Rightarrow> Returns (case r of Inl _ \<Rightarrow> ms | Inr m \<Rightarrow> m # ms))"

definition Collect_metrics :: "'f floats \<Rightarrow> ('s runtime \<times> cache_content option) list \<Rightarrow> 'f prom_metric list panics" where
  "Collect_metrics fl runtimes =
     metrics_of (concat (map (\<lambda>(rt, c). map (NewPromMetric fl (PromLabels rt)) (updates_of c)) runtimes))"

section \<open>Names are valid\<close>

lemma prom_name_chars: "list_all word_char (prom_name s)"
  by (induction s rule: prom_name.induct) (simp_all add: word_char_def)

lemma prom_name_id: "list_all word_char s \<Longrightarrow> prom_name s = s"
  by (induction s rule: prom_name.induct) simp_all

lemma prom_name_idem: "prom_name (prom_name s) = prom_name s"
  by (rule prom_name_id [OF prom_name_chars])

lemma underscore_word [simp]: "word_char CHR ''_''"
  by (simp add: word_char_def)

lemma path_data_eq:
  "path_data es sb labels = (sb @ join_sep ''_'' (map (\<lambda>e. prom_name (fst e)) es),
     labels @ concat (map (\<lambda>(n, ks). map (\<lambda>(k, v). (prom_name n @ ''_'' @ prom_name k, v)) ks) es))"
proof (induction es sb labels rule: path_data.induct)
  case (2 n ks es sb labels)
  then show ?case by (cases es) auto
qed simp

lemma join_word_chars: "list_all (list_all word_char) xs \<Longrightarrow> list_all word_char (join_sep ''_'' xs)"
  by (induction "''_''" xs rule: join_sep.induct) simp_all

text \<open>
  The metric of an update has a name of letters, digits and underscores only, and so has every label the path
  adds; the labels of the runtime come first and are kept, and there is one label per key of the path, with
  the value of the key.
\<close>

theorem metric_names_valid:
  "list_all word_char (fst (getPromPathData [] p rtLabels))
   \<and> (\<exists>added. snd (getPromPathData [] p rtLabels) = rtLabels @ added \<and> list_all (\<lambda>l. list_all word_char (fst l)) added
       \<and> map snd added = concat (map (\<lambda>e. map snd (snd e)) (case p of None \<Rightarrow> [] | Some q \<Rightarrow> gp_Elem q)))"
proof -
  let ?es = "case p of None \<Rightarrow> [] | Some q \<Rightarrow> gp_Elem q"
  let ?added = "concat (map (\<lambda>(n, ks). map (\<lambda>(k, v). (prom_name n @ ''_'' @ prom_name k, v)) ks) ?es)"
  have "list_all (list_all word_char) (map (\<lambda>e. prom_name (fst e)) es)" for es :: "(string \<times> string gomap) list"
    by (induction es) (simp_all add: prom_name_chars)
  then have "list_all word_char (fst (getPromPathData [] p rtLabels))"
    by (simp add: getPromPathData_def path_data_eq join_word_chars)
  moreover have "list_all (\<lambda>l. list_all word_char (fst l)) ?added"
    by (auto simp: list_all_iff prom_name_chars [unfolded list_all_iff, rule_format])
  moreover have "map snd (concat (map (\<lambda>(n, ks). map (\<lambda>(k, v). (prom_name n @ ''_'' @ prom_name k, v)) ks) es))
      = concat (map (\<lambda>e. map snd (snd e)) es)" for es :: "(string \<times> string gomap) list"
    by (induction es) (auto simp: comp_def)
  ultimately show ?thesis by (auto simp: getPromPathData_def path_data_eq)
qed

section \<open>Keys do not depend on the order of a Go map\<close>

lemma sort_key_unique:
  assumes "mset xs = mset ys" "distinct (map f xs)"
  shows "sort_key f xs = sort_key f ys"
proof (rule properties_for_sort_key)
  show "mset (sort_key f ys) = mset xs" using assms(1) by simp
  have inj: "inj_on f (set xs)" using assms(2) by (simp add: distinct_map)
  have one: "length (filter (\<lambda>y. f k = f y) zs) \<le> 1" if "mset zs = mset xs" for k zs
  proof -
    have "distinct (map f zs)" using assms(2) that by (metis mset_eq_imp_distinct_iff mset_map)
    then show ?thesis by (induction zs) (auto simp: filter_empty_conv)
  qed
  fix k assume "k \<in> set (sort_key f ys)"
  have m: "mset (filter (\<lambda>y. f k = f y) (sort_key f ys)) = mset (filter (\<lambda>y. f k = f y) xs)" using assms(1) by simp
  show "filter (\<lambda>y. f k = f y) (sort_key f ys) = filter (\<lambda>y. f k = f y) xs"
  proof (cases "filter (\<lambda>y. f k = f y) xs")
    case Nil
    then show ?thesis using m by simp
  next
    case (Cons z zs)
    then have z: "filter (\<lambda>y. f k = f y) xs = [z]" using one [of xs k] by simp
    then have "mset (filter (\<lambda>y. f k = f y) (sort_key f ys)) = {#z#}" using m by simp
    then show ?thesis unfolding z by (simp only: mset_single_iff)
  qed
qed simp

theorem key_independent_of_map_order:
  assumes "px_Name p = px_Name q" "mset (px_labels p) = mset (px_labels q)" "distinct (map fst (px_labels p))"
  shows "CalculateKey p = CalculateKey q"
  using sort_key_unique [OF assms(2,3)] assms(1) mset_eq_length [OF assms(2)]
  by (simp add: CalculateKey_def key_text_def)

lemma key_collision:
  \<comment> \<open>the separator may occur in a value\<close>
  "CalculateKey \<lparr>px_Name = n, px_labels = [(''a'', ''x:b:y'')], px_value = v\<rparr>
   = CalculateKey \<lparr>px_Name = n, px_labels = [(''a'', ''x''), (''b'', ''y'')], px_value = v\<rparr>"
proof -
  have "sort_key fst [(''a'', ''x''), (''b'', ''y'')] = [(''a'', ''x''), (''b'', ''y'')]" by code_simp
  then show ?thesis by (simp add: CalculateKey_def key_text_def)
qed

section \<open>One value ends the program\<close>

definition no_number :: "'f floats \<Rightarrow> typed_value option \<Rightarrow> bool" where
  \<comment> \<open>no value, one of a type without a case, or JSON that is empty or null\<close>
  "no_number fl v \<longleftrightarrow> (case v of
       None \<Rightarrow> True | Some DecimalVal \<Rightarrow> True | Some FloatVal \<Rightarrow> True | Some (DoubleVal _) \<Rightarrow> True | Some UnsetVal \<Rightarrow> True
     | Some (JsonVal s) \<Rightarrow> s = [] \<or> fl_Unmarshal fl s = Inr GNil
     | Some (JsonIetfVal s) \<Rightarrow> s = [] \<or> fl_Unmarshal fl s = Inr GNil
     | _ \<Rightarrow> False)"

lemma toFloat_panics: "toFloat fl v = Panics \<longleftrightarrow> v = GNil"
  by (cases v) (simp_all add: toFloat_def)

lemma metric_panics: "NewPromMetric fl rtLabels u = Panics \<longleftrightarrow> no_number fl (pu_Val u)"
proof -
  have "getValue fl (pu_Val u) = Inr GNil \<longleftrightarrow> no_number fl (pu_Val u)"
    by (auto simp: getValue_def no_number_def split: option.splits typed_value.splits)
  moreover have "NewPromMetric fl rtLabels u = Panics \<longleftrightarrow> getValue fl (pu_Val u) = Inr GNil"
  proof (cases "getValue fl (pu_Val u)")
    case (Inr v)
    then show ?thesis using toFloat_panics [of fl v]
      by (cases "toFloat fl v") (simp_all add: NewPromMetric_def split: sum.splits prod.splits)
  qed (simp add: NewPromMetric_def)
  ultimately show ?thesis by simp
qed

lemma metrics_of_panics: "metrics_of rs = Panics \<longleftrightarrow> Panics \<in> set rs"
  by (induction rs rule: metrics_of.induct) (auto split: panics.splits)

text \<open>
  C28: A scrape panics exactly when some cache holds an update without a value that \<open>getValue\<close> knows: no value at all, JSON
  that is empty or null, or a double, float or decimal value, for which there is no case although gNMI
  devices send them. The panic is in a goroutine without a recover, so a single such leaf in one
  subscription ends the controller for all targets at every scrape.
\<close>

theorem scrape_panics_exactly:
  "Collect_metrics fl runtimes = Panics
   \<longleftrightarrow> (\<exists>rt c u. (rt, c) \<in> set runtimes \<and> u \<in> set (updates_of c) \<and> no_number fl (pu_Val u))"
  unfolding Collect_metrics_def metrics_of_panics by (force simp: metric_panics image_iff eq_commute [of Panics])

end
