(* ===== verification/Lease.thy ===== *)
theory Lease
  imports Services Gnmi
begin

text \<open>
  The lease by which a controller may claim an object (\<open>pkg/lease/lease.go\<close>). The API server is the record
  \<open>lease_sv\<close>. Times are microseconds, the resolution of the fields of a Lease.
\<close>

section \<open>The lease\<close>

record lease_spec =
  lz_holder :: "string option"
  lz_duration :: "int option"
  lz_acquire :: "int option"
  lz_renew :: "int option"

record lease_obj =
  lz_meta :: objmeta
  lz_spec :: lease_spec

record leased =
  ld_apiVersion :: string
  ld_kind :: string
  ld_meta :: objmeta

record 'w lease_sv =
  lv_Get :: "string \<times> string \<Rightarrow> 'w \<Rightarrow> (goerr + lease_obj) \<times> 'w"
  lv_Create :: "lease_obj \<Rightarrow> 'w \<Rightarrow> goerr option \<times> 'w"
  lv_Update :: "lease_obj \<Rightarrow> 'w \<Rightarrow> goerr option \<times> 'w"

definition lease_claim :: "string \<Rightarrow> int \<Rightarrow> lease_spec" where
  \<comment> \<open>with the default interval of one second\<close>
  "lease_claim holder now = \<lparr>lz_holder = Some holder, lz_duration = Some 1, lz_acquire = Some now, lz_renew = Some now\<rparr>"

definition getLease :: "leased \<Rightarrow> string \<Rightarrow> int \<Rightarrow> lease_obj" where
  "getLease obj holder now = \<lparr>lz_meta = empty_meta\<lparr>m_name := m_name (ld_meta obj), m_namespace := m_namespace (ld_meta obj),
       m_ownerReferences := [\<lparr>or_apiVersion = ld_apiVersion obj, or_kind = ld_kind obj, or_name = m_name (ld_meta obj),
         or_uid = m_uid (ld_meta obj), or_controller = Some True\<rparr>]\<rparr>,
     lz_spec = lease_claim holder now\<rparr>"

definition ensure_lease :: "'w lease_sv \<Rightarrow> leased \<Rightarrow> string \<Rightarrow> int \<Rightarrow> 'w \<Rightarrow> goerr option \<times> 'w" where
  "ensure_lease sv obj holder now w =
     (case lv_Get sv (m_namespace (ld_meta obj), m_name (ld_meta obj)) w of
        (Inr _, w) \<Rightarrow> (None, w)
      | (Inl err, w) \<Rightarrow> if IgnoreNotFound (Some err) \<noteq> None then (Some err, w) else lv_Create sv (getLease obj holder now) w)"

definition held_by_other :: "lease_spec \<Rightarrow> string \<Rightarrow> int \<Rightarrow> bool panics" where
  \<comment> \<open>a lease with a renew time and no duration is a nil pointer that is followed\<close>
  "held_by_other sp holder now =
     (if lz_holder sp = Some holder then Returns False
      else case lz_renew sp of
          None \<Rightarrow> Returns False
        | Some t \<Rightarrow> (case lz_duration sp of None \<Rightarrow> Panics | Some d \<Rightarrow> Returns (\<not> t + d * 1000000 < now)))"

definition AcquireLease :: "'w lease_sv \<Rightarrow> leased \<Rightarrow> string \<Rightarrow> int \<Rightarrow> 'w \<Rightarrow> goerr option panics \<times> 'w" where
  "AcquireLease sv obj holder now w =
     (case ensure_lease sv obj holder now w of
        (Some err, w) \<Rightarrow> (Returns (Some err), w)
      | (None, w) \<Rightarrow>
          (case lv_Get sv (m_namespace (ld_meta obj), m_name (ld_meta obj)) w of
             (Inl err, w) \<Rightarrow> (Returns (Some err), w)
           | (Inr le, w) \<Rightarrow>
               (case lz_holder (lz_spec le) of
                  None \<Rightarrow> (Returns (Some (err_new ''lease nil or holderidentity nil'')), w)
                | Some other \<Rightarrow>
                    (case held_by_other (lz_spec le) holder now of
                       Panics \<Rightarrow> (Panics, w)
                     | Returns True \<Rightarrow> (Returns (Some (err_new (''cannot acquire lease, lease held by another identity: '' @ other))), w)
                     | Returns False \<Rightarrow>
                         (case lv_Update sv (le\<lparr>lz_spec := lease_claim holder now\<rparr>) w of (err, w) \<Rightarrow> (Returns err, w))))))"

section \<open>Who holds it\<close>

text \<open>\<open>st\<close>: the lease the API server holds for this object. An update may be refused.\<close>

definition lease_laws :: "'w lease_sv \<Rightarrow> leased \<Rightarrow> ('w \<Rightarrow> lease_obj option) \<Rightarrow> bool" where
  "lease_laws sv obj st \<longleftrightarrow>
     (\<forall>w. st (snd (lv_Get sv (m_namespace (ld_meta obj), m_name (ld_meta obj)) w)) = st w
        \<and> (\<forall>le. fst (lv_Get sv (m_namespace (ld_meta obj), m_name (ld_meta obj)) w) = Inr le \<longrightarrow> st w = Some le))
     \<and> (\<forall>le w. fst (lv_Create sv le w) = None \<and> st w = None \<and> st (snd (lv_Create sv le w)) = Some le
        \<or> fst (lv_Create sv le w) \<noteq> None \<and> st (snd (lv_Create sv le w)) = st w)
     \<and> (\<forall>le w. fst (lv_Update sv le w) = None \<and> st (snd (lv_Update sv le w)) = Some le
        \<or> fst (lv_Update sv le w) \<noteq> None \<and> st (snd (lv_Update sv le w)) = st w)"

lemma lease_lawsD:
  assumes "lease_laws sv obj st"
  shows "lv_Get sv (m_namespace (ld_meta obj), m_name (ld_meta obj)) w = (r, w') \<Longrightarrow> st w' = st w"
    "lv_Get sv (m_namespace (ld_meta obj), m_name (ld_meta obj)) w = (Inr le, w') \<Longrightarrow> st w = Some le"
    "lv_Create sv le w = (None, w') \<Longrightarrow> st w = None \<and> st w' = Some le"
    "lv_Create sv le w = (Some err, w') \<Longrightarrow> st w' = st w"
    "lv_Update sv le w = (None, w') \<Longrightarrow> st w' = Some le"
    "lv_Update sv le w = (Some err, w') \<Longrightarrow> st w' = st w"
  using assms unfolding lease_laws_def by (metis fst_conv snd_conv option.distinct(1))+

lemma lease_respected:
  \<comment> \<open>a lease that another holder has renewed within its duration stays as it is, and the call fails\<close>
  assumes laws: "lease_laws sv obj st" and le: "st w = Some le" "lz_holder (lz_spec le) = Some other" "other \<noteq> holder"
    and live: "lz_renew (lz_spec le) = Some t" "lz_duration (lz_spec le) = Some d" "now \<le> t + d * 1000000"
    and run: "AcquireLease sv obj holder now w = (r, w')"
  shows "st w' = Some le \<and> (\<exists>err. r = Returns (Some err))"
proof -
  obtain e1 w1 where e: "ensure_lease sv obj holder now w = (e1, w1)" by (rule prod.exhaust)
  have w1: "st w1 = Some le"
  proof -
    obtain g w0 where g: "lv_Get sv (m_namespace (ld_meta obj), m_name (ld_meta obj)) w = (g, w0)" by (rule prod.exhaust)
    have w0: "st w0 = Some le" using lease_lawsD(1) [OF laws g] le(1) by simp
    show ?thesis
    proof (cases g)
      case (Inl er)
      show ?thesis
      proof (cases "e_api er = Some ''NotFound''")
        case True
        then have c: "lv_Create sv (getLease obj holder now) w0 = (e1, w1)" using e g Inl by (simp add: ensure_lease_def)
        then show ?thesis using lease_lawsD(3,4) [OF laws] w0 by (cases e1) (fastforce, metis)
      qed (use e g Inl w0 in \<open>simp add: ensure_lease_def\<close>)
    qed (use e g w0 in \<open>simp add: ensure_lease_def\<close>)
  qed
  show ?thesis
  proof (cases e1)
    case None
    obtain g w2 where g: "lv_Get sv (m_namespace (ld_meta obj), m_name (ld_meta obj)) w1 = (g, w2)" by (rule prod.exhaust)
    have w2: "st w2 = Some le" using lease_lawsD(1) [OF laws g] w1 by simp
    show ?thesis
    proof (cases g)
      case (Inr le')
      then have "le' = le" using lease_lawsD(2) [OF laws] g w1 by (metis option.inject)
      then show ?thesis using run e None g Inr w2 le live by (auto simp: AcquireLease_def held_by_other_def)
    qed (use run e None g w2 in \<open>auto simp: AcquireLease_def\<close>)
  qed (use run e w1 in \<open>auto simp: AcquireLease_def\<close>)
qed

lemma lease_acquired:
  \<comment> \<open>a call that succeeds leaves the lease with its holder, renewed now\<close>
  assumes laws: "lease_laws sv obj st" and run: "AcquireLease sv obj holder now w = (Returns None, w')"
  shows "\<exists>le. st w' = Some le \<and> lz_spec le = lease_claim holder now"
  using run lease_lawsD(5) [OF laws]
  by (auto simp: AcquireLease_def split: prod.splits sum.splits option.splits panics.splits bool.splits)

theorem lease_excludes:
  \<comment> \<open>for one second after an acquisition nobody else acquires it\<close>
  assumes laws: "lease_laws sv obj st" and first: "AcquireLease sv obj a t w = (Returns None, w1)"
    and second: "a \<noteq> b" "now \<le> t + 1000000" "AcquireLease sv obj b now w1 = (r, w2)"
  shows "\<exists>err. r = Returns (Some err)"
proof -
  obtain le where le: "st w1 = Some le" "lz_spec le = lease_claim a t" using lease_acquired [OF laws first] by blast
  show ?thesis
    using lease_respected [OF laws le(1) _ second(1) _ _ _ second(3), of t 1] le(2) second(2) by (simp add: lease_claim_def)
qed

end
