(* ===== verification/DSClient.thy ===== *)
theory DSClient
  imports Git Services
begin

text \<open>
  The client of the data server (\<open>pkg/sdc/dataserver/client/client.go\<close>): its address, dialling, and the life of a
  long-lived client. The connection of the gRPC library is seen as the states it reports: the present one and
  those it changes to until the context ends. The calls that are only passed on are left out.
\<close>

section \<open>Address\<close>

definition envOrDefault :: "(string \<Rightarrow> string option) \<Rightarrow> string \<Rightarrow> string \<Rightarrow> string" where
  "envOrDefault env key fallback = (case env key of Some v \<Rightarrow> (if v \<noteq> [] then v else fallback) | None \<Rightarrow> fallback)"

definition getDataServerAddress :: "(string \<Rightarrow> string option) \<Rightarrow> bool \<Rightarrow> string" where
  "getDataServerAddress env isLocal =
     (case env ''SDC_DATA_SERVER'' of
        Some address \<Rightarrow> address
      | None \<Rightarrow>
          (let ns = envOrDefault env ''POD_NAMESPACE'' ''sdc-system'';
               svc = envOrDefault env ''SDC_DATA_SERVER_SERVICE'' ''data-server'';
               port = envOrDefault env ''SDC_DATA_SERVER_PORT'' ''56000'' in
           if isLocal then ''localhost:'' @ port else svc @ ''.'' @ ns @ ''.svc.cluster.local:'' @ port))"

definition GetSchemaServerAddress :: "(string \<Rightarrow> string option) \<Rightarrow> string" where
  \<comment> \<open>of the client of the schema server\<close>
  "GetSchemaServerAddress env =
     (case env ''SDC_SCHEMA_SERVER'' of
        Some address \<Rightarrow> address
      | None \<Rightarrow> (case env ''SDC_DATA_SERVER'' of
            Some address \<Rightarrow> address | None \<Rightarrow> ''schema-server.sdc-system.svc.cluster.local:56000''))"

definition defaultConfig :: "(string \<Rightarrow> string option) \<Rightarrow> string option \<Rightarrow> string option" where
  \<comment> \<open>the address of the configuration, \<open>None\<close> for a nil one: what replaces a nil one stays inside the function\<close>
  "defaultConfig env cfg =
     (case cfg of None \<Rightarrow> None | Some a \<Rightarrow> Some (if a = [] then getDataServerAddress env False else a))"

section \<open>Waiting for a connection\<close>

datatype conn_state = ConnIdle | ConnConnecting | ConnReady | ConnTransientFailure | ConnShutdown

definition conn_text :: "conn_state \<Rightarrow> string" where
  "conn_text st = (case st of ConnIdle \<Rightarrow> ''IDLE'' | ConnConnecting \<Rightarrow> ''CONNECTING'' | ConnReady \<Rightarrow> ''READY''
     | ConnTransientFailure \<Rightarrow> ''TRANSIENT_FAILURE'' | ConnShutdown \<Rightarrow> ''SHUTDOWN'')"

fun dial_wait :: "string \<Rightarrow> conn_state \<Rightarrow> conn_state list \<Rightarrow> goerr option" where
  "dial_wait a st [] =
     (if st = ConnReady then None
      else Some (err_new (''gRPC connect timeout to '' @ go_quote a @ ''; last state: '' @ conn_text st)))"
| "dial_wait a st (st' # sts) = (if st = ConnReady then None else dial_wait a st' sts)"

definition dial :: "(string \<Rightarrow> string option) \<Rightarrow> (string \<Rightarrow> goerr option) \<Rightarrow> conn_state \<Rightarrow> conn_state list \<Rightarrow> string option
    \<Rightarrow> goerr option outcome" where
  \<comment> \<open>the second argument: \<open>grpc.NewClient\<close>; a nil configuration is followed\<close>
  "dial env newClient st sts cfg =
     (case defaultConfig env cfg of
        None \<Rightarrow> Crashes
      | Some a \<Rightarrow>
          Ends (case newClient a of
              Some err \<Rightarrow> Some (err_wrap (''create data-server client '' @ go_quote a) err) | None \<Rightarrow> dial_wait a st sts))"

fun waitForReady :: "goerr \<Rightarrow> conn_state \<Rightarrow> conn_state list \<Rightarrow> goerr option" where
  \<comment> \<open>the first argument: the error of the context when it ends\<close>
  "waitForReady ctxErr st [] =
     (if st = ConnReady then None else if st = ConnShutdown then Some (err_new ''grpc shutdown'') else Some ctxErr)"
| "waitForReady ctxErr st (st' # sts) =
     (if st = ConnReady then None else if st = ConnShutdown then Some (err_new ''grpc shutdown'') else waitForReady ctxErr st' sts)"

section \<open>The client\<close>

text \<open>
  \<open>cl_conns\<close>: the connections it has created, by their state; \<open>cl_conn\<close>: the present one. \<open>cl_loops\<close>: its
  goroutines that wait for \<open>Stop\<close>; \<open>cl_cancel\<close>: the one its cancel function ends, if any.
\<close>

record ds_client =
  cl_cfg :: "string option"
  cl_conns :: "conn_state list"
  cl_conn :: "nat option"
  cl_loops :: "bool list"
  cl_cancel :: "nat option"

definition cl_New :: "(string \<Rightarrow> string option) \<Rightarrow> string option \<Rightarrow> ds_client" where
  "cl_New env cfg = \<lparr>cl_cfg = defaultConfig env cfg, cl_conns = [], cl_conn = None, cl_loops = [], cl_cancel = None\<rparr>"

definition cl_Start :: "(string \<Rightarrow> goerr option) \<Rightarrow> goerr \<Rightarrow> conn_state \<Rightarrow> conn_state list \<Rightarrow> ds_client \<Rightarrow> goerr option outcome \<times> ds_client" where
  "cl_Start newClient ctxErr st sts c =
     (case cl_cfg c of
        None \<Rightarrow> (Crashes, c)
      | Some a \<Rightarrow>
          (case newClient a of
             Some err \<Rightarrow> (Ends (Some err), c\<lparr>cl_conn := None\<rparr>)
           | None \<Rightarrow>
               (case waitForReady ctxErr st sts of
                  Some err \<Rightarrow> (Ends (Some (err_wrap (''connect '' @ go_quote a) err)),
                    c\<lparr>cl_conns := cl_conns c @ [ConnShutdown], cl_conn := None\<rparr>)
                | None \<Rightarrow> (Ends None, c\<lparr>cl_conns := cl_conns c @ [ConnReady], cl_conn := Some (length (cl_conns c)),
                    cl_loops := cl_loops c @ [True], cl_cancel := Some (length (cl_loops c))\<rparr>))))"

definition cl_Stop :: "ds_client \<Rightarrow> ds_client" where
  "cl_Stop c =
     (let c = (case cl_conn c of Some i \<Rightarrow> c\<lparr>cl_conns := (cl_conns c)[i := ConnShutdown]\<rparr> | None \<Rightarrow> c) in
      case cl_cancel c of Some j \<Rightarrow> c\<lparr>cl_loops := (cl_loops c)[j := False]\<rparr> | None \<Rightarrow> c)"

definition ConnState :: "ds_client \<Rightarrow> conn_state" where
  "ConnState c = (case cl_conn c of None \<Rightarrow> ConnShutdown | Some i \<Rightarrow> cl_conns c ! i)"

definition IsConnectionReady :: "ds_client \<Rightarrow> bool" where
  "IsConnectionReady c = (case cl_conn c of None \<Rightarrow> False | Some i \<Rightarrow> cl_conns c ! i = ConnReady)"

definition IsConnected :: "ds_client \<Rightarrow> bool" where
  "IsConnected c = (case cl_conn c of None \<Rightarrow> False | Some i \<Rightarrow> cl_conns c ! i \<noteq> ConnShutdown)"

section \<open>Dialling and starting\<close>

lemma dial_wait_iff: "dial_wait a st sts = None \<longleftrightarrow> ConnReady \<in> set (st # sts)"
  by (induction a st sts rule: dial_wait.induct) auto

lemma waitForReady_iff:
  "waitForReady ctxErr st sts = None \<longleftrightarrow> (\<exists>xs ys. st # sts = xs @ ConnReady # ys \<and> ConnShutdown \<notin> set xs)"
proof (induction ctxErr st sts rule: waitForReady.induct)
  case (2 ctxErr st st' sts)
  show ?case
  proof (cases "st = ConnReady \<or> st = ConnShutdown")
    case True
    then show ?thesis by (auto simp: Cons_eq_append_conv)
  next
    case False
    then have "waitForReady ctxErr st (st' # sts) = None \<longleftrightarrow> (\<exists>xs ys. st' # sts = xs @ ConnReady # ys \<and> ConnShutdown \<notin> set xs)"
      using 2 by simp
    also have "\<dots> \<longleftrightarrow> (\<exists>xs ys. st # st' # sts = xs @ ConnReady # ys \<and> ConnShutdown \<notin> set xs)" (is "?L \<longleftrightarrow> ?R")
    proof
      assume ?L
      then obtain xs ys where "st' # sts = xs @ ConnReady # ys" "ConnShutdown \<notin> set xs" by blast
      then have "st # st' # sts = (st # xs) @ ConnReady # ys \<and> ConnShutdown \<notin> set (st # xs)" using False by (cases st) simp_all
      then show ?R by blast
    next
      assume ?R
      then obtain xs ys where xs: "st # st' # sts = xs @ ConnReady # ys" "ConnShutdown \<notin> set xs" by blast
      then show ?L using False by (cases xs) auto
    qed
    finally show ?thesis .
  qed
qed (auto simp: Cons_eq_append_conv)

theorem Start_outcome:
  \<comment> \<open>\<open>Start\<close> succeeds exactly when the connection is ready before it is shut down and before the context ends;
      otherwise no connection is left open and the client is not connected\<close>
  assumes "cl_cfg c = Some a" "newClient a = None" "cl_Start newClient ctxErr st sts c = (r, c')"
  shows "if \<exists>xs ys. st # sts = xs @ ConnReady # ys \<and> ConnShutdown \<notin> set xs
    then r = Ends None \<and> IsConnectionReady c' \<and> \<not> IsConnected (cl_Stop c')
    else (\<exists>err. r = Ends (Some err)) \<and> \<not> IsConnected c' \<and> filter (\<lambda>st. st \<noteq> ConnShutdown) (cl_conns c') = filter (\<lambda>st. st \<noteq> ConnShutdown) (cl_conns c)"
proof (cases "waitForReady ctxErr st sts")
  case None
  then have "\<exists>xs ys. st # sts = xs @ ConnReady # ys \<and> ConnShutdown \<notin> set xs" by (simp only: waitForReady_iff)
  then show ?thesis using assms None by (auto simp: cl_Start_def IsConnectionReady_def IsConnected_def cl_Stop_def)
next
  case (Some err)
  then have "\<not> (\<exists>xs ys. st # sts = xs @ ConnReady # ys \<and> ConnShutdown \<notin> set xs)" using waitForReady_iff [of ctxErr st sts] by simp
  then show ?thesis using assms Some by (auto simp: cl_Start_def IsConnected_def)
qed

lemma nil_config_crashes:
  \<comment> \<open>\<open>defaultConfig\<close> means to replace a nil configuration\<close>
  "dial env newClient st sts None = Crashes" "fst (cl_Start newClient ctxErr st sts (cl_New env None)) = Crashes"
  by (simp_all add: dial_def defaultConfig_def cl_Start_def cl_New_def)

lemma second_start_leaks:
  \<comment> \<open>a second \<open>Start\<close> forgets the first connection and its goroutine, and \<open>Stop\<close> then does not end them\<close>
  assumes "cl_cfg c = Some a" "newClient a = None" "cl_conn c = Some i" "i < length (cl_conns c)" "cl_conns c ! i = ConnReady"
    and "cl_Start newClient ctxErr ConnReady [] c = (r, c')"
  shows "cl_conns (cl_Stop c') ! i = ConnReady"
  using assms by (auto simp: cl_Start_def cl_Stop_def nth_append)

end
