(* ===== verification/Spec2Isabelle.thy ===== *)
theory Spec2Isabelle
  imports TransactorSpec Collector TargetLifecycle RuntimePass Watch DSConn DeviationWatch ConfigSet TargetConfig SubscriptionController RolloutController Admission DiscoveryRun DiscoveryController WorkspaceController Events WatcherManager ReadOnly Metrics Lease DSClient
begin

text \<open>
  A verification development of the config server of SDC (\<open>sdcio/config-server\<close>): the API server that stores
  Configs, ConfigSets, Deviations and Targets, and the controllers that bring them to network devices
  through a data server. This theory imports all others and holds the property that spans most components,
  from a discovered Target to a Ready one.

  \<^bold>\<open>The program.\<close> A DiscoveryRule finds devices and creates Targets. The controller of the Targets gives each of
  them a runtime, an endless loop that creates a datastore on the data server, replays the recovered configs into it and
  reports \<open>Running\<close>. Configs, written by users, by ConfigSets or by Rollouts of a git Workspace, are transacted
  on the datastore of their Target; deviations and telemetry flow back. Schemas are loaded from git for
  the schema server. The API server keeps the objects with its own storage strategies and watches.

  \<^bold>\<open>Conventions.\<close> A Go string is a list of characters, a map an association list in the order in which Go may yield it
  (\<open>Prelude\<close>), an error a record of what the program can observe of it, a resource a record with the fields
  the code reads. Code outside the repository (Kubernetes, gRPC, the data server, go-git, the
  file system) is a record of functions over a world, an argument of every definition that uses it; what a
  property needs of it is a hypothesis on that record, and its witness discharges the hypothesis for a
  concrete instance. Where a call can panic or never return, the result says so (\<open>panics\<close>, \<open>outcome\<close>).
  Goroutines are step systems: a definition per step between two synchronisation points, a schedule is a
  list of operations, and a property holds for every schedule (locale \<open>invariant_machine\<close>).

  \<^bold>\<open>The theories and the code.\<close>
  \<^item> \<open>Prelude\<close>, \<open>Strconv\<close>, \<open>Effects\<close>, \<open>Services\<close>, \<open>Paths\<close>: maps, strings, errors, decimal numbers, traces of calls and the
    service records; the lexical paths of Go and \<open>pkg/utils/file.go\<close>.
  \<^item> \<open>Conditions\<close>, \<open>ConfigApi\<close>, \<open>Resource\<close>: \<open>apis/condition\<close>, \<open>apis/config\<close> and its \<open>v1alpha1\<close>, finalizers and events of
    \<open>pkg/reconcilers/resource\<close>.
  \<^item> \<open>Transactor\<close>, \<open>TransactorSpec\<close>, \<open>ClearDeviation\<close>: \<open>transactor.go\<close> and \<open>dryrun.go\<close> of \<open>pkg/sdc/target/manager\<close>: which configs a transaction
    takes, how its answer is recorded, recovery; clearing deviations in \<open>apis/config/target_helpers.go\<close>.
  \<^item> \<open>Subscriptions\<close>, \<open>Collector\<close>, \<open>TargetRuntime\<close>, \<open>TargetManager\<close>, \<open>RuntimePass\<close>, \<open>DeviationWatch\<close>: the rest of \<open>pkg/sdc/target/manager\<close>: one runtime
    and its loop, the registry of all, subscriptions, the collector, the deviation stream. \<open>reconcileOnce\<close> in \<open>TargetRuntime\<close> is a pass
    of the loop that nothing interrupts; \<open>RuntimePass\<close> has the same pass as a step per critical section and per call,
    interleaved with the other goroutines, and proves the two equal when nothing comes between.
  \<^item> \<open>DSConn\<close>, \<open>DSClient\<close>: the connection to the data server and its subscribers (\<open>pkg/sdc/dataserver\<close>).
  \<^item> \<open>TargetDatastore\<close>, \<open>TargetLifecycle\<close>, \<open>TargetConfig\<close>, \<open>ConfigSet\<close>, \<open>SubscriptionController\<close>, \<open>RolloutController\<close> with \<open>Rollout\<close>,
    \<open>DiscoveryController\<close>, \<open>SchemaController\<close>, \<open>WorkspaceController\<close>: the reconcilers under \<open>pkg/reconcilers\<close>, each with
    what it calls; \<open>Events\<close>: the event handlers that decide which objects are reconciled.
  \<^item> \<open>Discovery\<close>, \<open>Hosts\<close>, \<open>Gnmi\<close>, \<open>DiscoveryRun\<close>: \<open>pkg/discovery/discoveryrule\<close>: addresses to scan, what a device tells
    of itself, one run with its goroutines and the clean-up after it.
  \<^item> \<open>Registry\<close>, \<open>Watch\<close>, \<open>Admission\<close>, \<open>ReadOnly\<close>: the storage strategies and watches of \<open>pkg/registry\<close>, the admission hooks
    of \<open>apis/config\<close>, and the resources that are read from the data server.
  \<^item> \<open>Git\<close>: \<open>pkg/git\<close>. \<open>Metrics\<close>: \<open>pkg/output/prometheusserver\<close>. \<open>WatcherManager\<close> and \<open>Lease\<close>: \<open>pkg/watcher-manager\<close> and \<open>pkg/lease\<close>, which
    no package of the repository imports at present (the registries use the library module of the same
    name as the first).

  \<^bold>\<open>What the lemmas show.\<close> Per component there are the facts about its data (condition lists keep one
  condition per type, keys and names round-trip), the frame facts (which calls an operation can make and
  what it leaves alone), the invariant of its state and its preservation by every operation, and the
  behaviour on every branch. The properties built on them state, among others: a transaction is confirmed or
  cancelled as its answer demands and every config gets the outcome; nothing is transacted unless the
  Target is Ready and its runtime \<open>Running\<close>; a runtime is safe to look at in every state of its pass, and its datastore is handed to
  nobody while it is replaced or filled; there is one runtime per Target and one rule per
  resource; ConfigSets converge to the Configs they describe; a rollout is confirmed on all targets or on
  none, with the two exceptions that are lemmas of \<open>Rollout\<close>; the storage is a replay of its published events, and a watch delivers
  exactly the changes after its starting point; scans are bounded and runs end; a Ready schema is
  served by the schema server; controllers are woken for what they read. Where the
  code does not do what it means to, the failing schedule or input is a theorem too.

  \<^bold>\<open>Bounds and fuel.\<close> No definition uses fuel. Loops over data are structural; the search through the history
  of a repository is a \<open>partial_function\<close>, proved to return when the parents of commits are
  well-founded; the iteration over hosts and the retries have a measure; endless loops are step systems,
  for which liveness is stated as: from every reachable state there is a schedule that ends, or the steps left
  bound the run. Machine words are used where the code relies on their width (priorities, addresses, hashes), integers
  elsewhere.

  \<^bold>\<open>Not modelled.\<close> Generated code (deep copies, conversions, protobuf, clients, informers, OpenAPI: most of the lines of
  the repository, written by generators from the types); the programs under \<open>cmd\<close> and all \<open>SetupWithManager\<close> functions except the watches
  of the Target controller, which only wire components; build tools; HTTP servers, table printing, logging and
  tracing; the gNMI stream of the collector and its backoff, which consist of calls of gnmic; thin
  wrappers of clients and fakes for tests. Times stand for themselves: sleeping, jitter and clock reads are
  arguments or left out. The manifest lists each of these parts with its reason.
\<close>

section \<open>A discovered target becomes ready\<close>

text \<open>
  C8: A discovered target becomes Ready. When the stages of the controller before the runtime pass
  and the runtime of the target has not been deleted, the reconcile leaves a registered, running
  runtime that holds the request, the hash and the retry token and has its next pass pending. With a
  data-server that comes up, knows or accepts the datastore and accepts the replayed configs, and
  unless the last recovery failure is latched for exactly this hash and token, that pass ends in
  \<open>Running\<close> with the datastore of the requested hash, has notified the controller of it, and what the
  controller makes of it is Ready True without a requeue. A reconcile that saw any other phase than
  \<open>Running\<close> or the latched \<open>RecoveryFailed\<close> has asked to be called again.
\<close>

theorem target_becomes_ready:
  fixes en :: "('p, 's, 'w) rt_env" and m :: "'s manager"
  assumes stages: "IsTrue (GetCondition (t_conditions target) ConditionTypeTargetDiscoveryReady)"
      "isSchemaReady (te_td e) target w = (Inr (True, msg), w1)"
      "getCreateDataStoreRequest (te_showDI e) (te_keyString e) (te_td e) target w1 = (Inr (req, refs), w2)"
    and inv: "mg_inv m" and live: "\<And>i. map_of (mg_targets m) key = Some i \<Longrightarrow> \<not> rt_done (mg_heap m ! i)"
    and hash: "hash = ComputeCreateDSHash (te_json e) (te_sha256hex e) (Some req) (Some refs)" "hash \<noteq> []"
    and latch: "\<And>i. map_of (mg_targets m) key = Some i \<Longrightarrow> rt_failedKey (mg_heap m ! i)
        \<noteq> hash @ ''|'' @ gm_index [] (m_annotations (t_meta target)) AnnotationRecoveryRetry"
    and healthy: "healthy en cl"
    and run: "reconcile_pipeline e s0 target key (w, m) = (res, w3, m3)"
  shows "\<exists>i r. map_of (mg_targets m3) key = Some i \<and> rt_desired (mg_heap m3 ! i) = Some req
    \<and> rt_wakeCh (mg_heap m3 ! i)
    \<and> r = mg_heap (snd (run_ops (mg_step s0) [MgRuntime i (RtDsEvent True None), MgRuntime i (RtPass en None)] (w3, m3))) ! i
    \<and> rt_phase r = PhaseRunning \<and> rt_runningHash r = hash \<and> rt_lastNotified r = Some (rt_Status r)
    \<and> readyFromRuntime now (rt_Status r) = (TargetReady now (rt_recoveryMsg r), 0, True)
    \<and> (fst res = 0 \<longrightarrow> rt_phase (mg_heap m3 ! i) \<in> {PhaseRunning, PhaseRecoveryFailed})"
proof -
  let ?token = "gm_index [] (m_annotations (t_meta target)) AnnotationRecoveryRetry"
  obtain i where i: "map_of (mg_targets m3) key = Some i" "i < length (mg_heap m3)"
      "armed req refs hash ?token (mg_heap m3 ! i)"
      "rt_failedKey (mg_heap m3 ! i) = (case map_of (mg_targets m) key of None \<Rightarrow> [] | Some j \<Rightarrow> rt_failedKey (mg_heap m ! j))"
      "fst res = fst (snd (readyFromRuntime (te_now e) (rt_Status (mg_heap m3 ! i))))"
    unfolding hash(1) by (rule pipeline_arms [OF stages inv live run])
  let ?r = "mg_heap m3 ! i"
  have "rt_failedKey ?r \<noteq> recoveryKey ?r"
    using i(3,4) latch by (auto simp: recoveryKey_def armed_def split: option.splits)
  then have nolatch: "recoveryLatched ?r = None" by (simp add: recoveryLatched_def)
  obtain w4 r where pass: "run_ops rt_step [RtDsEvent True None, RtPass en None] (w3, ?r) = (w4, r)" by (metis surj_pair)
  have r: "mg_heap (snd (run_ops (mg_step s0) [MgRuntime i (RtDsEvent True None), MgRuntime i (RtPass en None)] (w3, m3))) ! i = r"
    using mg_runtime_run [OF i(2), of s0 "[RtDsEvent True None, RtPass en None]" w3] pass by simp
  have running: "rt_phase r = PhaseRunning \<and> rt_runningHash r = hash \<and> rt_lastNotified r = Some (rt_Status r)"
    using pass_healthy [OF healthy _ _ nolatch _ pass] i(3) hash(2) by (auto simp: armed_def)
  moreover have "readyFromRuntime now (rt_Status r) = (TargetReady now (rt_recoveryMsg r), 0, True)"
    using ready_running [of "rt_Status r" now] running by (simp add: rt_Status_def)
  moreover have "fst res = 0 \<longrightarrow> rt_phase ?r \<in> {PhaseRunning, PhaseRecoveryFailed}"
    using requeue_zero [of "te_now e" "rt_Status ?r"] i(5) by (auto simp: rt_Status_def)
  ultimately show ?thesis using i(1,3) r by (auto simp: armed_def)
qed

definition sample_discovered :: target where
  "sample_discovered = sample_target\<lparr>t_conditions := [(TargetReady 1 [])\<lparr>cType := ConditionTypeTargetDiscoveryReady\<rparr>],
     t_spec := (t_spec sample_target)\<lparr>ts_syncProfile := Some ''sp''\<rparr>,
     t_discoveryInfo := Some \<lparr>di_protocol = [], di_provider = ''nokia'', di_version = ''1'', di_hostname = [],
       di_platform = [], di_macAddress = [], di_serialNumber = [], di_supportedEncodings = []\<rparr>\<rparr>"

definition sample_ready_env :: "(string, nat) td_env" where
  "sample_ready_env = \<lparr>te_td = sample_td\<lparr>td_ListSchemas := (\<lambda>ns w. (Inr [\<lparr>sk_provider = ''nokia'', sk_version = ''1'',
       sk_conditions = [Ready 1]\<rparr>], w))\<rparr>, te_ds = Some sample_ds, te_keyString = (\<lambda>k. fst k @ ''.'' @ snd k),
     te_now = 7, te_json = (\<lambda>r. []), te_showDI = (\<lambda>d. ''nil''), te_sha256hex = (\<lambda>s. ''h'')\<rparr>"

lemma sample_env_healthy: "healthy (sample_env []) sample_ds"
proof -
  have "fst (recoverConfigs (sample_env []) sample_ds (w, t)) = None" for w :: nat and t :: "path_subs gomap runtime"
    by (simp add: recoverConfigs_def sample_env_def sample_k8s_def RecoverConfigs_def ListConfigsPerTarget_def
        recoverIntents_def setRecoveredConfigs_def updateConfigsForTarget_def lift_sel lcall_def Let_def)
  then show ?thesis by (simp add: healthy_def acceptable_def sample_env_def sample_ds_def)
qed

theorem target_becomes_ready_witness:
  "\<exists>r. r = mg_heap (snd (run_ops (mg_step sample_subs0)
         [MgRuntime 0 (RtDsEvent True None), MgRuntime 0 (RtPass (sample_env []) None)]
         (snd (reconcile_pipeline sample_ready_env sample_subs0 sample_discovered (''ns'', ''t1'') (0, NewTargetManager))))) ! 0
     \<and> readyFromRuntime 7 (rt_Status r) = (TargetReady 7 (rt_recoveryMsg r), 0, True)"
proof -
  let ?run = "reconcile_pipeline sample_ready_env sample_subs0 sample_discovered (''ns'', ''t1'') (0, NewTargetManager)"
  obtain res w3 m3 where run: "?run = (res, w3, m3)" by (rule prod_cases3)
  have k: "map_of (mg_targets m3) (''ns'', ''t1'') = Some 0"
  proof -
    have "map_of (mg_targets (snd (snd ?run))) (''ns'', ''t1'') = Some 0" by code_simp
    then show ?thesis by (simp add: run)
  qed
  have d: "IsTrue (GetCondition (t_conditions sample_discovered) ConditionTypeTargetDiscoveryReady)" by code_simp
  have s: "isSchemaReady (te_td sample_ready_env) sample_discovered 0 = (Inr (True, cMessage (Ready 1)), 0)" by code_simp
  obtain req refs where q: "getCreateDataStoreRequest (te_showDI sample_ready_env) (te_keyString sample_ready_env)
      (te_td sample_ready_env) sample_discovered 0 = (Inr (req, refs), 0)"
  proof -
    have "case getCreateDataStoreRequest (te_showDI sample_ready_env) (te_keyString sample_ready_env)
      (te_td sample_ready_env) sample_discovered 0 of (Inr _, w) \<Rightarrow> w = 0 | _ \<Rightarrow> False" by code_simp
    then show thesis using that by (auto split: prod.splits sum.splits)
  qed
  have i: "mg_inv NewTargetManager" "\<And>i. map_of (mg_targets NewTargetManager) (''ns'', ''t1'') = Some i \<Longrightarrow> False"
    by (simp_all add: mg_inv_def NewTargetManager_def)
  have h: "ComputeCreateDSHash (te_json sample_ready_env) (te_sha256hex sample_ready_env) (Some req) (Some refs) = ''h''"
    by (simp add: ComputeCreateDSHash_def sample_ready_env_def)
  from target_becomes_ready [OF d s q i(1) _ h [symmetric] _ _ sample_env_healthy run, of 7] k i(2)
  show ?thesis unfolding run by auto
qed

end
